(* ===== verification/Prelude.thy ===== *)
theory Prelude
  imports Main "HOL-Library.Word" "HOL-Library.Product_Lexorder" "HOL-Library.Monad_Syntax" "HOL-Library.List_Lexorder"
    "HOL-Library.Char_ord"
begin

section \<open>Prelude: machine types, memory access and ordered containers\<close>

text \<open>
  What every component shares.
  \<^item> The integer types of the C++ code: \<open>u64\<close> and \<open>u32\<close> are the unsigned words; \<open>i32\<close> is
    an \<open>int\<close> kept at its width (read with \<^const>\<open>sint\<close>), used where wrap-around matters;
    identifiers that the code only compares or uses as array indices are \<^typ>\<open>int\<close>.
  \<^item> \<open>NoID\<close> is the value the code writes as \<open>-1\<close> in a \<open>uint64_t\<close>.
  \<^item> An access to a C array goes through \<open>at\<close>: outside the array the result is \<^const>\<open>None\<close>,
    which stands for the undefined behaviour of the C++ access.
  \<^item> A \<open>std::set\<close> or \<open>std::map\<close> is the list of its elements in iteration order; an iterator
    is the suffix of the list that starts at it, so \<open>end()\<close> is \<^term>\<open>[]\<close>.
\<close>

type_synonym u64 = "64 word"
type_synonym u32 = "32 word"
type_synonym i32 = "32 word"

abbreviation NoID :: u64 where
  "NoID \<equiv> - 1"

named_theorems meta_simps \<open>unfolding rules of the meta queue operations\<close>
named_theorems wf_intros \<open>invariant preservation rules\<close>

subsection \<open>Words\<close>

lemma u64_le_NoID [simp]: "(x :: u64) \<le> NoID"
  by (rule word_n1_ge)

lemma u64_less_NoID: "(x :: u64) < NoID \<longleftrightarrow> x \<noteq> NoID"
  using order_le_less u64_le_NoID by auto

lemma u64_not_NoID_less [simp]: "\<not> NoID < (x :: u64)"
  by (simp add: not_less)

lemma u64_add1_le: "(x :: u64) < y \<Longrightarrow> x + 1 \<le> y"
  by (rule inc_le)

lemma u64_less_add1: "(x :: u64) \<noteq> NoID \<Longrightarrow> y < x + 1 \<longleftrightarrow> y \<le> x"
  using inc_less_eq_iff [of x y] by (simp flip: not_le)

lemma ucast_scast_u64 [simp]: "ucast (scast (i :: i32) :: u64) = (i :: i32)"
  by (rule bit_word_eqI) (auto simp: bit_simps)

subsection \<open>Array access\<close>

definition at :: "'a list \<Rightarrow> int \<Rightarrow> 'a option" where
  "at xs i = (if 0 \<le> i \<and> nat i < length xs then Some (xs ! nat i) else None)"

definition put_at :: "'a list \<Rightarrow> int \<Rightarrow> 'a \<Rightarrow> 'a list" where
  "put_at xs i v = xs[nat i := v]"

lemma at_in_range: "0 \<le> i \<Longrightarrow> i < int (length xs) \<Longrightarrow> at xs i = Some (xs ! nat i)"
  by (simp add: at_def)

lemma at_eq_None: "at xs i = None \<longleftrightarrow> i < 0 \<or> int (length xs) \<le> i"
  by (auto simp: at_def)

lemma at_SomeD: "at xs i = Some v \<Longrightarrow> 0 \<le> i \<and> i < int (length xs) \<and> v = xs ! nat i"
  by (auto simp: at_def split: if_splits)

lemma length_put_at [simp]: "length (put_at xs i v) = length xs"
  by (simp add: put_at_def)

lemma at_put_at_same: "at xs i = Some w \<Longrightarrow> at (put_at xs i v) i = Some v"
  by (auto simp: at_def put_at_def split: if_splits)

lemma at_put_at_other: "i \<noteq> j \<Longrightarrow> 0 \<le> i \<Longrightarrow> at (put_at xs i v) j = at xs j"
  by (auto simp: at_def put_at_def nth_list_update)

lemma at_set: "at xs i = Some v \<Longrightarrow> v \<in> set xs"
  by (auto dest!: at_SomeD)

subsection \<open>Ordered sets\<close>

definition sorted_by :: "('a \<Rightarrow> 'k :: linorder) \<Rightarrow> 'a list \<Rightarrow> bool" where
  "sorted_by key xs \<longleftrightarrow> sorted_wrt (<) (map key xs)"

definition upper_bound :: "('a \<Rightarrow> 'k :: linorder) \<Rightarrow> 'k \<Rightarrow> 'a list \<Rightarrow> 'a list" where
  "upper_bound key k xs = dropWhile (\<lambda>a. key a \<le> k) xs"

definition lower_bound :: "('a \<Rightarrow> 'k :: linorder) \<Rightarrow> 'k \<Rightarrow> 'a list \<Rightarrow> 'a list" where
  "lower_bound key k xs = dropWhile (\<lambda>a. key a < k) xs"

fun set_insert :: "('a \<Rightarrow> 'k :: linorder) \<Rightarrow> 'a \<Rightarrow> 'a list \<Rightarrow> 'a list" where
  "set_insert key x [] = [x]"
| "set_insert key x (y # ys) =
     (if key x < key y then x # y # ys
      else if key y < key x then y # set_insert key x ys
      else y # ys)"

lemma sorted_by_simps [simp]:
  "sorted_by key []"
  "sorted_by key [x]"
  "sorted_by key (x # xs) \<longleftrightarrow> (\<forall>y \<in> set xs. key x < key y) \<and> sorted_by key xs"
  by (auto simp: sorted_by_def)

lemma sorted_by_append:
  "sorted_by key (xs @ ys) \<longleftrightarrow>
     sorted_by key xs \<and> sorted_by key ys \<and> (\<forall>x \<in> set xs. \<forall>y \<in> set ys. key x < key y)"
  by (auto simp: sorted_by_def sorted_wrt_append)

lemma sorted_by_drop_filter:
  "sorted_by key xs \<Longrightarrow> dropWhile (\<lambda>a. key a \<le> k) xs = filter (\<lambda>a. k < key a) xs"
proof (induction xs)
  case (Cons x xs)
  show ?case
  proof (cases "key x \<le> k")
    case True
    with Cons show ?thesis by simp
  next
    case False
    with Cons.prems have "filter (\<lambda>a. k < key a) xs = xs"
      by (auto simp: filter_id_conv)
    with False show ?thesis by simp
  qed
qed simp

lemma sorted_by_drop_filter_strict:
  "sorted_by key xs \<Longrightarrow> dropWhile (\<lambda>a. key a < k) xs = filter (\<lambda>a. k \<le> key a) xs"
proof (induction xs)
  case (Cons x xs)
  show ?case
  proof (cases "key x < k")
    case True
    with Cons show ?thesis by simp
  next
    case False
    with Cons.prems have "filter (\<lambda>a. k \<le> key a) xs = xs"
      by (fastforce simp: filter_id_conv)
    with False show ?thesis by simp
  qed
qed simp

lemma upper_bound_filter: "sorted_by key xs \<Longrightarrow> upper_bound key k xs = filter (\<lambda>a. k < key a) xs"
  by (simp add: upper_bound_def sorted_by_drop_filter)

lemma lower_bound_filter: "sorted_by key xs \<Longrightarrow> lower_bound key k xs = filter (\<lambda>a. k \<le> key a) xs"
  by (simp add: lower_bound_def sorted_by_drop_filter_strict)

lemma sorted_by_filter [wf_intros]: "sorted_by key xs \<Longrightarrow> sorted_by key (filter P xs)"
  by (induction xs) auto

lemma set_insert_snoc:
  "\<forall>y \<in> set xs. key y < key x \<Longrightarrow> set_insert key x xs = xs @ [x]"
  by (induction xs) auto

lemma sorted_by_last:
  "sorted_by key xs \<Longrightarrow> xs \<noteq> [] \<Longrightarrow> x \<in> set xs \<Longrightarrow> key x \<le> key (last xs)"
proof (induction xs)
  case (Cons y ys)
  show ?case
  proof (cases "ys = []")
    case True
    with Cons.prems show ?thesis by simp
  next
    case False
    then have "last ys \<in> set ys" by simp
    with Cons False show ?thesis by (auto simp: le_less)
  qed
qed simp

lemma sorted_by_hd:
  "sorted_by key xs \<Longrightarrow> xs \<noteq> [] \<Longrightarrow> x \<in> set xs \<Longrightarrow> key (hd xs) \<le> key x"
  by (cases xs) (auto simp: le_less)

lemma sorted_by_inj: "sorted_by key xs \<Longrightarrow> inj_on key (set xs)"
  by (induction xs) auto

subsection \<open>Ordered maps\<close>

text \<open>
  \<open>std::map\<close> as a list of pairs sorted by key: \<open>find\<close> is \<^const>\<open>map_of\<close>, \<open>emplace\<close> keeps an
  existing entry, \<open>m[k] = v\<close> replaces it.
\<close>

definition map_emplace :: "'k :: linorder \<Rightarrow> 'v \<Rightarrow> ('k \<times> 'v) list \<Rightarrow> ('k \<times> 'v) list" where
  "map_emplace k v m = set_insert fst (k, v) m"

fun map_assign :: "'k :: linorder \<Rightarrow> 'v \<Rightarrow> ('k \<times> 'v) list \<Rightarrow> ('k \<times> 'v) list" where
  "map_assign k v [] = [(k, v)]"
| "map_assign k v ((a, b) # m) =
     (if k < a then (k, v) # (a, b) # m
      else if k = a then (k, v) # m
      else (a, b) # map_assign k v m)"

definition map_erase :: "'k \<Rightarrow> ('k \<times> 'v) list \<Rightarrow> ('k \<times> 'v) list" where
  "map_erase k m = filter (\<lambda>(a, b). a \<noteq> k) m"

abbreviation wf_map :: "('k :: linorder \<times> 'v) list \<Rightarrow> bool" where
  "wf_map m \<equiv> sorted_by fst m"

lemma keys_map_assign: "fst ` set (map_assign k v m) = insert k (fst ` set m)"
  by (induction k v m rule: map_assign.induct) auto

lemma keys_map_emplace: "fst ` set (map_emplace k v m) = insert k (fst ` set m)"
  unfolding map_emplace_def
  by (induction m) (auto simp: image_iff)

lemma wf_map_assign [wf_intros]: "wf_map m \<Longrightarrow> wf_map (map_assign k v m)"
proof (induction k v m rule: map_assign.induct)
  case (2 k v a b m)
  have "y \<in> set (map_assign k v m) \<Longrightarrow> fst y \<in> insert k (fst ` set m)" for y
    using keys_map_assign[of k v m] by (metis imageI)
  with 2 show ?case by fastforce
qed simp

lemma wf_map_emplace [wf_intros]: "wf_map m \<Longrightarrow> wf_map (map_emplace k v m)"
proof (induction m)
  case (Cons p m)
  have "y \<in> set (map_emplace k v m) \<Longrightarrow> fst y \<in> insert k (fst ` set m)" for y
    using keys_map_emplace[of k v m] by (metis imageI)
  with Cons show ?case by (fastforce simp: map_emplace_def)
qed (simp add: map_emplace_def)

lemma wf_map_erase [wf_intros]: "wf_map m \<Longrightarrow> wf_map (map_erase k m)"
  unfolding map_erase_def by (rule sorted_by_filter)

lemma set_map_assign: "set (map_assign k v m) \<subseteq> insert (k, v) (set m)"
  by (induction k v m rule: map_assign.induct) auto

lemma map_of_assign: "wf_map m \<Longrightarrow> map_of (map_assign k v m) = (map_of m)(k \<mapsto> v)"
  by (induction k v m rule: map_assign.induct) (auto simp: fun_eq_iff)

lemma map_of_None_less: "\<forall>p \<in> set m. (k :: 'k :: linorder) < fst p \<Longrightarrow> map_of m k = None"
  by (induction m) auto

lemma map_of_emplace:
  "wf_map m \<Longrightarrow>
   map_of (map_emplace k v m) = (case map_of m k of None \<Rightarrow> (map_of m)(k \<mapsto> v) | Some _ \<Rightarrow> map_of m)"
proof (induction m)
  case (Cons p m)
  obtain a b where p: "p = (a, b)" by (cases p)
  consider "k < a" | "k = a" | "a < k" by (rule linorder_cases)
  then show ?case
  proof cases
    case 1
    with Cons.prems p have "map_of m k = None"
      by (intro map_of_None_less) (auto dest: less_trans)
    with 1 p show ?thesis by (auto simp: map_emplace_def)
  next
    case 2
    with p show ?thesis by (simp add: map_emplace_def)
  next
    case 3
    with Cons p show ?thesis
      by (auto simp: map_emplace_def fun_eq_iff split: option.splits)
  qed
qed (simp add: map_emplace_def)

lemma map_of_erase: "map_of (map_erase k m) = (map_of m)(k := None)"
  unfolding map_erase_def by (induction m) (auto simp: fun_eq_iff)

subsection \<open>Errors and loops\<close>

text \<open>
  A loop over a container whose body may abort, raise or fault: the state is threaded, and
  \<^const>\<open>None\<close> stops it. A method that returns a code and fills an output argument only on
  success is a sum, \<^const>\<open>Inl\<close> the code.
\<close>

primrec foldM :: "('a \<Rightarrow> 's \<Rightarrow> 's option) \<Rightarrow> 'a list \<Rightarrow> 's \<Rightarrow> 's option" where
  "foldM f [] s = Some s"
| "foldM f (x # xs) s = (f x s \<bind> foldM f xs)"

definition PHX_ASSERT :: "bool \<Rightarrow> unit option" where
  "PHX_ASSERT b = (if b then Some () else None)"

lemma foldM_append: "foldM f (xs @ ys) s = (foldM f xs s \<bind> foldM f ys)"
proof (induction xs arbitrary: s)
  case (Cons x xs)
  then show ?case by (cases "f x s") simp_all
qed simp

lemma foldM_invariant:
  assumes "\<And>x s s'. x \<in> set xs \<Longrightarrow> I s \<Longrightarrow> f x s = Some s' \<Longrightarrow> I s'"
    and "foldM f xs s = Some t" and "I s"
  shows "I t"
  using assms
proof (induction xs arbitrary: s)
  case (Cons x xs)
  then obtain s1 where s1: "f x s = Some s1" "foldM f xs s1 = Some t"
    by (auto simp: Option.bind_eq_Some_conv)
  then have "I s1" using Cons.prems(1)[of x s s1] Cons.prems(3) by simp
  then show ?case using Cons.IH[OF _ s1(2)] Cons.prems(1) by (meson list.set_intros(2))
qed simp

lemma foldM_total:
  assumes "\<And>x s. x \<in> set xs \<Longrightarrow> I s \<Longrightarrow> \<exists>s'. f x s = Some s' \<and> I s'" and "I s"
  shows "\<exists>t. foldM f xs s = Some t \<and> I t"
  using assms
proof (induction xs arbitrary: s)
  case (Cons x xs)
  then obtain s1 where "f x s = Some s1" "I s1" by (meson list.set_intros(1))
  with Cons show ?case by simp
qed simp

lemma foldM_collect:
  assumes step: "\<And>x s s'. x \<in> set xs \<Longrightarrow> f x s = Some s' \<Longrightarrow> I s \<Longrightarrow> I s' \<and> P x s'"
    and keep: "\<And>x y s s'. y \<in> set xs \<Longrightarrow> P x s \<Longrightarrow> f y s = Some s' \<Longrightarrow> I s \<Longrightarrow> P x s'"
    and run: "foldM f xs s = Some t" and "I s"
  shows "I t \<and> (\<forall>x. x \<in> set xs \<or> P x s \<longrightarrow> P x t)"
  using assms
proof (induction xs arbitrary: s)
  case (Cons x xs)
  obtain s1 where s1: "f x s = Some s1" "foldM f xs s1 = Some t"
    using Cons.prems(3) by (auto simp: Option.bind_eq_Some_conv)
  have "I s1 \<and> P x s1" using Cons.prems(1)[OF _ s1(1)] Cons.prems(4) by simp
  moreover have "P y s \<Longrightarrow> P y s1" for y using Cons.prems(2)[OF _ _ s1(1)] Cons.prems(4) by simp
  moreover have "I t \<and> (\<forall>y. y \<in> set xs \<or> P y s1 \<longrightarrow> P y t)"
  proof (rule Cons.IH[OF _ _ s1(2)])
    show "\<And>x s s'. x \<in> set xs \<Longrightarrow> f x s = Some s' \<Longrightarrow> I s \<Longrightarrow> I s' \<and> P x s'"
      by (rule Cons.prems(1)) simp_all
    show "\<And>x y s s'. y \<in> set xs \<Longrightarrow> P x s \<Longrightarrow> f y s = Some s' \<Longrightarrow> I s \<Longrightarrow> P x s'"
      using Cons.prems(2) by (meson list.set_intros(2))
    show "I s1" using calculation(1) by simp
  qed
  ultimately show ?case by auto
qed simp

end
