(* ===== verification/StoreMeta.thy ===== *)
theory StoreMeta
  imports Prelude
begin

section \<open>StoreMeta and StoreMetaQueue (store/storemeta.cpp)\<close>

text \<open>
  The in-memory index of one queue: the set of the paxos instance ids (cursor ids) that carry
  items of the queue, each with a running index and a CRC chained over its predecessors.
  \<open>crc32 pre c\<close> stands for zlib's \<open>crc32(pre, &c, 8)\<close> and is a parameter. The methods that
  return a \<open>bool\<close> and fill a reference return an option here; the mutex makes each of them
  one atomic step.
\<close>

record StoreMeta =
  sm_cursor_id :: u64
  sm_idx :: u64
  sm_crc :: u32

definition StoreMeta_default :: StoreMeta where
  "StoreMeta_default = \<lparr>sm_cursor_id = NoID, sm_idx = 0, sm_crc = 0\<rparr>"

definition StoreMeta_of :: "u64 \<Rightarrow> StoreMeta" where
  "StoreMeta_of c = StoreMeta_default\<lparr>sm_cursor_id := c\<rparr>"

definition SetIndex :: "i32 \<Rightarrow> StoreMeta \<Rightarrow> StoreMeta" where
  "SetIndex i m = m\<lparr>sm_idx := scast i\<rparr>"

definition GetIndex :: "StoreMeta \<Rightarrow> i32" where
  "GetIndex m = ucast (sm_idx m)"

definition UpdateCrc :: "(u32 \<Rightarrow> u64 \<Rightarrow> u32) \<Rightarrow> u32 \<Rightarrow> StoreMeta \<Rightarrow> StoreMeta" where
  "UpdateCrc crc32 pre_crc m =
     (if sm_crc m = 0 then m\<lparr>sm_crc := crc32 pre_crc (sm_cursor_id m)\<rparr> else m)"

definition CheckCrc :: "(u32 \<Rightarrow> u64 \<Rightarrow> u32) \<Rightarrow> u32 \<Rightarrow> StoreMeta \<Rightarrow> bool" where
  "CheckCrc crc32 pre_crc m \<longleftrightarrow> sm_crc m = crc32 pre_crc (sm_cursor_id m)"

record StoreMetaQueue =
  metas :: "StoreMeta list"
  last_dequeue_meta :: StoreMeta

definition StoreMetaQueue_new :: StoreMetaQueue where
  "StoreMetaQueue_new = \<lparr>metas = [], last_dequeue_meta = StoreMeta_default\<rparr>"

definition Next ::
  "(u32 \<Rightarrow> u64 \<Rightarrow> u32) \<Rightarrow> StoreMeta \<Rightarrow> StoreMetaQueue \<Rightarrow> (StoreMeta \<times> bool) option \<times> StoreMetaQueue" where
  "Next crc32 meta q =
     (if metas q = [] then (None, q)
      else
        let it_next = (if sm_cursor_id meta = NoID then metas q
                       else upper_bound sm_cursor_id (sm_cursor_id meta) (metas q))
        in case it_next of
             [] \<Rightarrow> (None, q)
           | next_meta # _ \<Rightarrow>
               let last = last_dequeue_meta q;
                   crc_chk_pass =
                     (if sm_cursor_id last \<noteq> NoID \<and> sm_cursor_id last < sm_cursor_id next_meta
                      then CheckCrc crc32 (sm_crc last) next_meta else True);
                   q' = (if sm_cursor_id last = NoID \<or> sm_cursor_id last < sm_cursor_id next_meta
                         then q\<lparr>last_dequeue_meta := next_meta\<rparr> else q)
               in (Some (next_meta, crc_chk_pass), q'))"

definition PushBack :: "(u32 \<Rightarrow> u64 \<Rightarrow> u32) \<Rightarrow> StoreMeta \<Rightarrow> StoreMetaQueue \<Rightarrow> bool \<times> StoreMetaQueue" where
  "PushBack crc32 meta q =
     (if sm_cursor_id meta = NoID then (False, q)
      else if metas q \<noteq> [] \<and> \<not> sm_cursor_id (last (metas q)) < sm_cursor_id meta then (False, q)
      else
        let meta' =
          (if metas q \<noteq> []
           then SetIndex (GetIndex (last (metas q)) + 1)
                  (UpdateCrc crc32 (sm_crc (last (metas q))) meta)
           else SetIndex 0 (UpdateCrc crc32 (sm_crc (last_dequeue_meta q)) meta))
        in (True, q\<lparr>metas := set_insert sm_cursor_id meta' (metas q)\<rparr>))"

definition Front :: "StoreMetaQueue \<Rightarrow> StoreMeta option" where
  "Front q = (if metas q = [] then None else Some (hd (metas q)))"

definition Back :: "StoreMetaQueue \<Rightarrow> StoreMeta option" where
  "Back q = (if metas q = [] then None else Some (last (metas q)))"

definition EraseFrontTill :: "StoreMeta \<Rightarrow> StoreMetaQueue \<Rightarrow> StoreMetaQueue" where
  "EraseFrontTill meta q =
     (if sm_cursor_id meta = NoID then q
      else if metas q = [] then q
      else q\<lparr>metas := upper_bound sm_cursor_id (sm_cursor_id meta) (metas q)\<rparr>)"

definition EraseFrontUntill :: "StoreMeta \<Rightarrow> StoreMetaQueue \<Rightarrow> StoreMetaQueue" where
  "EraseFrontUntill meta q =
     (if sm_cursor_id meta = NoID then q
      else if metas q = [] then q
      else q\<lparr>metas := lower_bound sm_cursor_id (sm_cursor_id meta) (metas q)\<rparr>)"

definition LowerBound :: "StoreMeta \<Rightarrow> StoreMetaQueue \<Rightarrow> StoreMeta option" where
  "LowerBound meta q =
     (if sm_cursor_id meta = NoID then None
      else if metas q = [] then None
      else case lower_bound sm_cursor_id (sm_cursor_id meta) (metas q) of
             [] \<Rightarrow> None
           | m # _ \<Rightarrow> Some m)"

definition UpdateDeuqueStat :: "StoreMeta \<Rightarrow> StoreMetaQueue \<Rightarrow> StoreMetaQueue" where
  "UpdateDeuqueStat meta q =
     (if sm_cursor_id meta = NoID then q
      else case lower_bound sm_cursor_id (sm_cursor_id meta) (metas q) of
             [] \<Rightarrow> q
           | m # _ \<Rightarrow>
               if sm_cursor_id (last_dequeue_meta q) = NoID
                  \<or> sm_cursor_id (last_dequeue_meta q) < sm_cursor_id m
               then q\<lparr>last_dequeue_meta := m\<rparr> else q)"

definition Size :: "StoreMetaQueue \<Rightarrow> i32" where
  "Size q = of_nat (length (metas q))"

definition SizeGT :: "StoreMeta \<Rightarrow> StoreMetaQueue \<Rightarrow> i32" where
  "SizeGT meta q =
     (case upper_bound sm_cursor_id (sm_cursor_id meta) (metas q) of
        [] \<Rightarrow> 0
      | m # _ \<Rightarrow> GetIndex (last (metas q)) - GetIndex m + 1)"

definition Clear :: "StoreMetaQueue \<Rightarrow> StoreMetaQueue" where
  "Clear q = (if metas q = [] then q else q\<lparr>metas := []\<rparr>)"

definition ClearDequeueStat :: "StoreMetaQueue \<Rightarrow> StoreMetaQueue" where
  "ClearDequeueStat q =
     (if sm_cursor_id (last_dequeue_meta q) \<noteq> NoID
      then q\<lparr>last_dequeue_meta := StoreMeta_default\<rparr> else q)"

subsection \<open>Well-formed queues\<close>

text \<open>
  \<open>linked\<close> holds of two neighbours of the set: the index goes up by one (modulo \<open>2^32\<close>) and
  the CRC of the second is chained to that of the first.
\<close>

definition linked :: "(u32 \<Rightarrow> u64 \<Rightarrow> u32) \<Rightarrow> StoreMeta \<Rightarrow> StoreMeta \<Rightarrow> bool" where
  "linked crc32 a b \<longleftrightarrow> GetIndex b = GetIndex a + 1 \<and> sm_crc b = crc32 (sm_crc a) (sm_cursor_id b)"

definition wf_queue :: "(u32 \<Rightarrow> u64 \<Rightarrow> u32) \<Rightarrow> StoreMetaQueue \<Rightarrow> bool" where
  "wf_queue crc32 q \<longleftrightarrow>
     sorted_by sm_cursor_id (metas q) \<and> (\<forall>m \<in> set (metas q). sm_cursor_id m \<noteq> NoID)
     \<and> successively (linked crc32) (metas q)"

definition cursors :: "StoreMetaQueue \<Rightarrow> u64 list" where
  "cursors q = map sm_cursor_id (metas q)"

lemma StoreMeta_of_simps [simp]:
  "sm_cursor_id (StoreMeta_of c) = c" "sm_idx (StoreMeta_of c) = 0" "sm_crc (StoreMeta_of c) = 0"
  by (simp_all add: StoreMeta_of_def StoreMeta_default_def)

lemma StoreMeta_default_simps [simp]:
  "sm_cursor_id StoreMeta_default = NoID" "sm_crc StoreMeta_default = 0"
  by (simp_all add: StoreMeta_default_def)

lemma GetIndex_SetIndex [simp]: "GetIndex (SetIndex i m) = i"
  by (simp add: GetIndex_def SetIndex_def ucast_scast_u64)

lemma SetIndex_simps [simp]:
  "sm_cursor_id (SetIndex i m) = sm_cursor_id m" "sm_crc (SetIndex i m) = sm_crc m"
  by (simp_all add: SetIndex_def)

lemma UpdateCrc_simps [simp]:
  "sm_cursor_id (UpdateCrc f p m) = sm_cursor_id m"
  "sm_crc m = 0 \<Longrightarrow> sm_crc (UpdateCrc f p m) = f p (sm_cursor_id m)"
  by (simp_all add: UpdateCrc_def)

lemma wf_queueD:
  assumes "wf_queue crc32 q"
  shows "sorted_by sm_cursor_id (metas q)" "m \<in> set (metas q) \<Longrightarrow> sm_cursor_id m \<noteq> NoID"
    "successively (linked crc32) (metas q)"
  using assms by (auto simp: wf_queue_def)

lemma wf_queue_new [wf_intros]: "wf_queue crc32 StoreMetaQueue_new"
  by (simp add: wf_queue_def StoreMetaQueue_new_def)

lemma sorted_cursors: "wf_queue crc32 q \<Longrightarrow> sorted_wrt (<) (cursors q)"
  by (simp add: wf_queue_def cursors_def sorted_by_def)

lemma wf_queue_last_dequeue [wf_intros]:
  "wf_queue crc32 q \<Longrightarrow> wf_queue crc32 (q\<lparr>last_dequeue_meta := m\<rparr>)"
  by (simp add: wf_queue_def)

lemma cursors_last_dequeue [simp]: "cursors (q\<lparr>last_dequeue_meta := m\<rparr>) = cursors q"
  by (simp add: cursors_def)

text \<open>Erasing a prefix keeps a queue well-formed.\<close>

lemma successively_dropWhile: "successively P xs \<Longrightarrow> successively P (dropWhile Q xs)"
  by (induction xs) (auto simp: successively_Cons)

lemma wf_queue_dropWhile [wf_intros]:
  assumes "wf_queue crc32 q"
  shows "wf_queue crc32 (q\<lparr>metas := dropWhile Q (metas q)\<rparr>)"
proof -
  have "sorted_by sm_cursor_id (dropWhile Q (metas q))"
    using assms takeWhile_dropWhile_id[of Q "metas q"] sorted_by_append[of sm_cursor_id]
    by (metis wf_queueD(1))
  with assms show ?thesis
    by (auto simp: wf_queue_def successively_dropWhile dest: set_dropWhileD)
qed

lemma wf_queue_EraseFrontTill [wf_intros]: "wf_queue crc32 q \<Longrightarrow> wf_queue crc32 (EraseFrontTill m q)"
  by (auto simp: EraseFrontTill_def upper_bound_def intro: wf_queue_dropWhile)

lemma wf_queue_EraseFrontUntill [wf_intros]:
  "wf_queue crc32 q \<Longrightarrow> wf_queue crc32 (EraseFrontUntill m q)"
  by (auto simp: EraseFrontUntill_def lower_bound_def intro: wf_queue_dropWhile)

lemma wf_queue_Clear [wf_intros]: "wf_queue crc32 q \<Longrightarrow> wf_queue crc32 (Clear q)"
  by (simp add: Clear_def wf_queue_def)

lemma wf_queue_ClearDequeueStat [wf_intros]: "wf_queue crc32 q \<Longrightarrow> wf_queue crc32 (ClearDequeueStat q)"
  by (simp add: ClearDequeueStat_def wf_queue_def)

lemma wf_queue_UpdateDeuqueStat [wf_intros]:
  "wf_queue crc32 q \<Longrightarrow> wf_queue crc32 (UpdateDeuqueStat m q)"
  by (auto simp: UpdateDeuqueStat_def wf_queue_def split: list.split)

lemma cursors_UpdateDeuqueStat [simp]: "cursors (UpdateDeuqueStat m q) = cursors q"
  by (auto simp: UpdateDeuqueStat_def cursors_def split: list.split)

lemma cursors_ClearDequeueStat [simp]: "cursors (ClearDequeueStat q) = cursors q"
  by (simp add: ClearDequeueStat_def cursors_def)

lemma cursors_Clear [simp]: "cursors (Clear q) = []"
  by (simp add: Clear_def cursors_def)

lemma cursors_EraseFrontTill:
  "wf_queue crc32 q \<Longrightarrow> c \<noteq> NoID \<Longrightarrow>
   cursors (EraseFrontTill (StoreMeta_of c) q) = filter (\<lambda>k. c < k) (cursors q)"
  by (auto simp: EraseFrontTill_def cursors_def upper_bound_filter wf_queueD filter_map o_def)

lemma cursors_EraseFrontUntill:
  "wf_queue crc32 q \<Longrightarrow> c \<noteq> NoID \<Longrightarrow>
   cursors (EraseFrontUntill (StoreMeta_of c) q) = filter (\<lambda>k. c \<le> k) (cursors q)"
  by (auto simp: EraseFrontUntill_def cursors_def lower_bound_filter wf_queueD filter_map o_def)

subsection \<open>Functional behaviour\<close>

lemma Next_None_iff:
  assumes "wf_queue crc32 q"
  shows "fst (Next crc32 m q) = None \<longleftrightarrow>
     (if sm_cursor_id m = NoID then cursors q = [] else \<forall>k \<in> set (cursors q). k \<le> sm_cursor_id m)"
proof -
  note ub = upper_bound_filter[OF wf_queueD(1)[OF assms], of "sm_cursor_id m"]
  have "upper_bound sm_cursor_id (sm_cursor_id m) (metas q) = [] \<longleftrightarrow>
        (\<forall>k \<in> set (cursors q). k \<le> sm_cursor_id m)"
    unfolding ub filter_empty_conv by (auto simp: cursors_def not_less)
  then show ?thesis
    by (auto simp: Next_def Let_def cursors_def split: list.split)
qed

lemma Next_frame:
  "metas (snd (Next crc32 m q)) = metas q"
  by (auto simp: Next_def Let_def split: list.split)

lemma cursors_Next [simp]: "cursors (snd (Next crc32 m q)) = cursors q"
  by (simp add: cursors_def Next_frame)

lemma wf_queue_Next [wf_intros]: "wf_queue crc32 q \<Longrightarrow> wf_queue crc32 (snd (Next crc32 m q))"
  by (simp add: wf_queue_def Next_frame)

lemma Next_Some_filter:
  assumes "wf_queue crc32 q" and "Next crc32 m q = (Some (n, ok), q')"
  shows "\<exists>rest. (if sm_cursor_id m = NoID then metas q
                 else filter (\<lambda>a. sm_cursor_id m < sm_cursor_id a) (metas q)) = n # rest"
  using assms
  by (auto simp: Next_def Let_def upper_bound_filter wf_queueD split: if_splits list.splits)

lemma Next_crc:
  assumes "Next crc32 m q = (Some (n, ok), q')"
  shows "ok \<longleftrightarrow> (sm_cursor_id (last_dequeue_meta q) \<noteq> NoID
                 \<and> sm_cursor_id (last_dequeue_meta q) < sm_cursor_id n
                 \<longrightarrow> CheckCrc crc32 (sm_crc (last_dequeue_meta q)) n)"
  using assms by (auto simp: Next_def Let_def split: if_splits list.splits)

lemma PushBack_reject:
  "c = NoID \<or> (\<exists>k \<in> set (cursors q). c \<le> k) \<Longrightarrow> wf_queue crc32 q \<Longrightarrow>
   sm_cursor_id m = c \<Longrightarrow> PushBack crc32 m q = (False, q)"
  using sorted_by_last[of sm_cursor_id "metas q"]
  by (fastforce simp: PushBack_def cursors_def wf_queueD not_less)

lemma PushBack_accept:
  assumes wf: "wf_queue crc32 q" and c: "sm_cursor_id m \<noteq> NoID"
    and new: "\<forall>k \<in> set (cursors q). k < sm_cursor_id m"
  obtains m' where "PushBack crc32 m q = (True, q\<lparr>metas := metas q @ [m']\<rparr>)"
    "sm_cursor_id m' = sm_cursor_id m"
    "sm_crc m = 0 \<Longrightarrow> metas q \<noteq> [] \<Longrightarrow> linked crc32 (last (metas q)) m'"
    "metas q = [] \<Longrightarrow> GetIndex m' = 0"
    "sm_crc m = 0 \<Longrightarrow> metas q = [] \<Longrightarrow>
       sm_crc m' = crc32 (sm_crc (last_dequeue_meta q)) (sm_cursor_id m)"
proof -
  define m' where "m' =
     (if metas q \<noteq> []
      then SetIndex (GetIndex (last (metas q)) + 1) (UpdateCrc crc32 (sm_crc (last (metas q))) m)
      else SetIndex 0 (UpdateCrc crc32 (sm_crc (last_dequeue_meta q)) m))"
  have id: "sm_cursor_id m' = sm_cursor_id m" by (simp add: m'_def)
  have "metas q \<noteq> [] \<Longrightarrow> sm_cursor_id (last (metas q)) < sm_cursor_id m"
    using new by (auto simp: cursors_def)
  then have "PushBack crc32 m q = (True, q\<lparr>metas := set_insert sm_cursor_id m' (metas q)\<rparr>)"
    using c by (auto simp: PushBack_def m'_def Let_def)
  also have "set_insert sm_cursor_id m' (metas q) = metas q @ [m']"
    using new id by (intro set_insert_snoc) (auto simp: cursors_def)
  finally show thesis
    by (rule that) (auto simp: id m'_def linked_def)
qed

lemma PushBack_cases:
  assumes "wf_queue crc32 q" and "sm_crc m = 0"
  shows "wf_queue crc32 (snd (PushBack crc32 m q))"
    and "cursors (snd (PushBack crc32 m q)) =
      (if fst (PushBack crc32 m q) then cursors q @ [sm_cursor_id m] else cursors q)"
    and "fst (PushBack crc32 m q) \<longleftrightarrow>
      sm_cursor_id m \<noteq> NoID \<and> (\<forall>k \<in> set (cursors q). k < sm_cursor_id m)"
proof -
  let ?ok = "sm_cursor_id m \<noteq> NoID \<and> (\<forall>k \<in> set (cursors q). k < sm_cursor_id m)"
  have "wf_queue crc32 (snd (PushBack crc32 m q)) \<and>
     cursors (snd (PushBack crc32 m q)) = (if ?ok then cursors q @ [sm_cursor_id m] else cursors q) \<and>
     (fst (PushBack crc32 m q) \<longleftrightarrow> ?ok)"
  proof (cases ?ok)
    case True
    obtain m' where m': "PushBack crc32 m q = (True, q\<lparr>metas := metas q @ [m']\<rparr>)"
      "sm_cursor_id m' = sm_cursor_id m" "metas q \<noteq> [] \<Longrightarrow> linked crc32 (last (metas q)) m'"
      by (rule PushBack_accept[OF assms(1) conjunct1[OF True] conjunct2[OF True]])
        (use assms(2) in blast)
    have "sorted_by sm_cursor_id (metas q @ [m'])"
      unfolding sorted_by_append using wf_queueD(1)[OF assms(1)] True m'(2)
      by (simp add: cursors_def)
    moreover have "\<forall>x \<in> set (metas q @ [m']). sm_cursor_id x \<noteq> NoID"
      using wf_queueD(2)[OF assms(1)] True m'(2) by simp
    moreover have "successively (linked crc32) (metas q @ [m'])"
      unfolding successively_append_iff using wf_queueD(3)[OF assms(1)] m'(3) by auto
    ultimately have "wf_queue crc32 (q\<lparr>metas := metas q @ [m']\<rparr>)"
      unfolding wf_queue_def by simp
    moreover have "cursors (q\<lparr>metas := metas q @ [m']\<rparr>) = cursors q @ [sm_cursor_id m]"
      using m'(2) by (simp add: cursors_def)
    ultimately show ?thesis
      using True m'(1) by simp
  next
    case False
    with assms(1) have "PushBack crc32 m q = (False, q)"
      by (intro PushBack_reject[where c = "sm_cursor_id m"]) (auto simp: not_less)
    with False assms(1) show ?thesis by simp
  qed
  then show "wf_queue crc32 (snd (PushBack crc32 m q))"
    and "cursors (snd (PushBack crc32 m q)) =
      (if fst (PushBack crc32 m q) then cursors q @ [sm_cursor_id m] else cursors q)"
    and "fst (PushBack crc32 m q) \<longleftrightarrow> ?ok"
    by auto
qed

subsection \<open>The interface of the index: an ordered set of cursors\<close>

text \<open>
  What the store relies on when it walks or grows an index. \<open>after c\<close> is the range that
  \<^const>\<open>Next\<close> searches: everything if \<open>c\<close> is \<open>-1\<close>, the larger cursors otherwise. The store's
  read loop, the rebuild of an index from the paxos log and the checkpoint code are clients.
\<close>

definition after :: "u64 \<Rightarrow> u64 \<Rightarrow> bool" where
  "after c k \<longleftrightarrow> c = NoID \<or> c < k"

lemma after_NoID [simp]: "after NoID k"
  by (simp add: after_def)

lemma after_trans: "after a b \<Longrightarrow> b \<noteq> NoID \<Longrightarrow> b < c \<Longrightarrow> after a c"
  by (auto simp: after_def intro: less_trans)

text \<open>What follows the head of a filtered sorted list is what lies above that head.\<close>

lemma filter_after_Cons:
  assumes "sorted_wrt (<) ks" and "filter (after c) ks = k # r" and "k \<noteq> NoID"
  shows "filter (after k) ks = r"
  using assms
proof (induction ks)
  case (Cons a ks)
  show ?case
  proof (cases "after c a")
    case True
    with Cons.prems have "a = k" "filter (after c) ks = r" by auto
    moreover have "filter (after c) ks = ks"
      using Cons.prems(1) True by (cases "c = NoID") (auto simp: filter_id_conv after_def intro: less_trans)
    moreover have "filter (after k) ks = ks"
      using Cons.prems(1,3) \<open>a = k\<close> by (auto simp: filter_id_conv after_def)
    ultimately show ?thesis using Cons.prems(3) \<open>a = k\<close> by (simp add: after_def[of k k])
  next
    case False
    with Cons have rest: "filter (after k) ks = r" by simp
    have "k \<in> set ks" using Cons.prems(2) False by (auto simp: filter_eq_Cons_iff)
    then have "a < k" using Cons.prems(1) by simp
    then have "\<not> after k a" using Cons.prems(3) by (auto simp: after_def)
    with rest show ?thesis by simp
  qed
qed simp

locale cursor_index =
  fixes cur :: "'q \<Rightarrow> u64 list"
    and inv :: "'q \<Rightarrow> bool"
    and nxt :: "u64 \<Rightarrow> 'q \<Rightarrow> u64 option \<times> 'q"
    and push :: "u64 \<Rightarrow> 'q \<Rightarrow> bool \<times> 'q"
    and erase_till :: "u64 \<Rightarrow> 'q \<Rightarrow> 'q"
  assumes cur_sorted: "inv q \<Longrightarrow> sorted_wrt (<) (cur q)"
    and cur_valid: "inv q \<Longrightarrow> NoID \<notin> set (cur q)"
    and nxt_result: "inv q \<Longrightarrow> fst (nxt c q) =
          (case filter (after c) (cur q) of [] \<Rightarrow> None | k # _ \<Rightarrow> Some k)"
    and nxt_frame: "inv q \<Longrightarrow> inv (snd (nxt c q)) \<and> cur (snd (nxt c q)) = cur q"
    and push_result: "inv q \<Longrightarrow> fst (push c q) \<longleftrightarrow> c \<noteq> NoID \<and> (\<forall>k \<in> set (cur q). k < c)"
    and push_cur: "inv q \<Longrightarrow> inv (snd (push c q)) \<and>
          cur (snd (push c q)) = (if fst (push c q) then cur q @ [c] else cur q)"
    and erase_cur: "inv q \<Longrightarrow> c \<noteq> NoID \<Longrightarrow> inv (erase_till c q) \<and>
          cur (erase_till c q) = filter (\<lambda>k. c < k) (cur q)"
begin

fun walk :: "nat \<Rightarrow> u64 \<Rightarrow> 'q \<Rightarrow> u64 list" where
  "walk 0 c q = []"
| "walk (Suc n) c q =
     (case nxt c q of (None, _) \<Rightarrow> [] | (Some k, q') \<Rightarrow> k # walk n k q')"

fun push_all :: "u64 list \<Rightarrow> 'q \<Rightarrow> 'q" where
  "push_all [] q = q"
| "push_all (c # cs) q = push_all cs (snd (push c q))"

lemma nxt_least:
  assumes "inv q" and "nxt c q = (Some k, q')"
  shows "k \<in> set (cur q) \<and> after c k \<and> (\<forall>j \<in> set (cur q). after c j \<longrightarrow> k \<le> j)"
proof -
  from assms obtain r where r: "filter (after c) (cur q) = k # r"
    using nxt_result[of q c] by (auto split: list.splits)
  have "sorted_wrt (<) (k # r)"
    using cur_sorted[OF assms(1)] sorted_wrt_filter[of "(<)" "cur q" "after c"] r by simp
  moreover have "set (k # r) = {j \<in> set (cur q). after c j}"
    using arg_cong[OF r, of set] by auto
  ultimately show ?thesis by (auto simp: le_less)
qed

lemma nxt_None: "inv q \<Longrightarrow> fst (nxt c q) = None \<longleftrightarrow> (\<forall>j \<in> set (cur q). \<not> after c j)"
  by (cases "filter (after c) (cur q)") (auto simp: nxt_result filter_empty_conv filter_eq_Cons_iff)

lemma walk_enumerates: "inv q \<Longrightarrow> walk n c q = take n (filter (after c) (cur q))"
proof (induction n arbitrary: c q)
  case (Suc n)
  show ?case
  proof (cases "filter (after c) (cur q)")
    case Nil
    with Suc.prems have "fst (nxt c q) = None" by (simp add: nxt_result)
    with Nil show ?thesis by (cases "nxt c q") simp
  next
    case (Cons k r)
    with Suc.prems have "fst (nxt c q) = Some k" by (simp add: nxt_result)
    then obtain q' where q': "nxt c q = (Some k, q')" by (cases "nxt c q") auto
    have *: "inv q' \<and> cur q' = cur q" using nxt_frame[OF Suc.prems, of c] q' by simp
    have "k \<in> set (filter (after c) (cur q))" using Cons by simp
    then have "k \<noteq> NoID" using cur_valid[OF Suc.prems] by auto
    with * q' Cons Suc.IH[of q' k] filter_after_Cons[OF cur_sorted[OF Suc.prems] Cons]
    show ?thesis by simp
  qed
qed simp

lemma push_all_cur:
  "inv q \<Longrightarrow> sorted_wrt (<) (cur q @ cs) \<Longrightarrow> NoID \<notin> set cs \<Longrightarrow>
   inv (push_all cs q) \<and> cur (push_all cs q) = cur q @ cs"
proof (induction cs arbitrary: q)
  case (Cons c cs)
  have "fst (push c q)"
    using Cons.prems by (simp add: push_result sorted_wrt_append) auto
  with Cons push_cur[OF Cons.prems(1), of c] show ?case by simp
qed simp

lemma walk_pushed:
  "inv q \<Longrightarrow> cur q = [] \<Longrightarrow> sorted_wrt (<) cs \<Longrightarrow> NoID \<notin> set cs \<Longrightarrow>
   walk (length cs) NoID (push_all cs q) = cs"
  using push_all_cur[of q cs] by (simp add: walk_enumerates)

end

text \<open>The model's queue provides the interface; \<open>NextID\<close> is \<open>Next\<close> read as cursor ids.\<close>

definition NextID :: "(u32 \<Rightarrow> u64 \<Rightarrow> u32) \<Rightarrow> u64 \<Rightarrow> StoreMetaQueue \<Rightarrow> u64 option \<times> StoreMetaQueue" where
  "NextID crc32 c q = map_prod (map_option (\<lambda>p. sm_cursor_id (fst p))) id (Next crc32 (StoreMeta_of c) q)"

lemma NextID_result:
  assumes "wf_queue crc32 q"
  shows "fst (NextID crc32 c q) = (case filter (after c) (cursors q) of [] \<Rightarrow> None | k # _ \<Rightarrow> Some k)"
proof -
  have "filter (after c) (cursors q) =
        map sm_cursor_id (if c = NoID then metas q else upper_bound sm_cursor_id c (metas q))"
    by (auto simp: cursors_def after_def filter_map o_def upper_bound_filter[OF wf_queueD(1)[OF assms]])
  then show ?thesis
    by (cases "metas q = []")
      (simp add: NextID_def Next_def cursors_def, auto simp: NextID_def Next_def Let_def split: list.split)
qed

interpretation meta_queue: cursor_index cursors "wf_queue crc32" "NextID crc32"
    "\<lambda>c. PushBack crc32 (StoreMeta_of c)" "\<lambda>c. EraseFrontTill (StoreMeta_of c)"
  for crc32
proof (unfold_locales, goal_cases)
  case (1 q) then show ?case by (rule sorted_cursors)
next
  case (2 q) then show ?case by (auto simp: cursors_def dest: wf_queueD(2))
next
  case (3 q c) then show ?case by (rule NextID_result)
next
  case (4 q c) then show ?case by (simp add: NextID_def wf_queue_Next)
next
  case (5 q c) then show ?case by (simp add: PushBack_cases(3))
next
  case (6 q c) then show ?case by (simp add: PushBack_cases(1) PushBack_cases(2))
next
  case (7 q c) then show ?case by (simp add: cursors_EraseFrontTill wf_queue_EraseFrontTill)
qed

subsection \<open>Counting\<close>

lemma linked_GetIndex:
  "successively (linked crc32) (m # ms) \<Longrightarrow> GetIndex (last (m # ms)) = GetIndex m + of_nat (length ms)"
proof (induction ms arbitrary: m)
  case (Cons a ms)
  then show ?case by (auto simp: linked_def)
qed simp

lemma successively_suffix_upper_bound:
  "wf_queue crc32 q \<Longrightarrow> successively (linked crc32) (upper_bound key k (metas q))"
  by (simp add: upper_bound_def successively_dropWhile wf_queueD(3))

lemma last_upper_bound: "upper_bound key k ms \<noteq> [] \<Longrightarrow> last (upper_bound key k ms) = last ms"
  unfolding upper_bound_def by (induction ms) auto

lemma SizeGT_eq:
  assumes "wf_queue crc32 q"
  shows "SizeGT m q = of_nat (length (filter (\<lambda>k. sm_cursor_id m < k) (cursors q)))"
proof (cases "upper_bound sm_cursor_id (sm_cursor_id m) (metas q)")
  case Nil
  then show ?thesis
    using upper_bound_filter[OF wf_queueD(1)[OF assms], of "sm_cursor_id m"]
    by (simp add: SizeGT_def cursors_def filter_map o_def)
next
  case (Cons a r)
  have "successively (linked crc32) (a # r)"
    using successively_suffix_upper_bound[OF assms, of sm_cursor_id "sm_cursor_id m"] Cons by simp
  then have "GetIndex (last (a # r)) = GetIndex a + of_nat (length r)" by (rule linked_GetIndex)
  moreover have "last (a # r) = last (metas q)"
    using last_upper_bound[of sm_cursor_id "sm_cursor_id m" "metas q"] Cons by simp
  moreover have "length (filter (\<lambda>k. sm_cursor_id m < k) (cursors q)) = Suc (length r)"
    using upper_bound_filter[OF wf_queueD(1)[OF assms], of "sm_cursor_id m"] Cons
    by (simp add: cursors_def filter_map o_def) (metis length_Cons)
  ultimately show ?thesis using Cons by (simp add: SizeGT_def)
qed

lemma sint_of_nat_i32: "n < 2 ^ 31 \<Longrightarrow> sint (of_nat n :: i32) = int n"
  by (simp add: signed_of_nat signed_take_bit_int_eq_self)

subsection \<open>The life of a queue\<close>

text \<open>
  The three things that happen to the index of a queue that is consumed in order: an instance
  larger than all earlier ones is appended, the entry after the last dequeued one is dequeued,
  and a prefix of what was dequeued is erased. The last two components record what has been
  appended and what has been dequeued.
\<close>

type_synonym queue_history = "StoreMetaQueue \<times> u64 list \<times> u64 list"

inductive qstep :: "(u32 \<Rightarrow> u64 \<Rightarrow> u32) \<Rightarrow> queue_history \<Rightarrow> queue_history \<Rightarrow> bool"
  for crc32 where
  qstep_push: "PushBack crc32 (StoreMeta_of c) q = (True, q') \<Longrightarrow> \<forall>k \<in> set pushed. k < c \<Longrightarrow>
     qstep crc32 (q, pushed, taken) (q', pushed @ [c], taken)"
| qstep_pop: "Next crc32 (last_dequeue_meta q) q = (Some (n, ok), q') \<Longrightarrow>
     qstep crc32 (q, pushed, taken) (q', pushed, taken @ [sm_cursor_id n])"
| qstep_trim: "c \<in> set taken \<Longrightarrow>
     qstep crc32 (q, pushed, taken) (EraseFrontTill (StoreMeta_of c) q, pushed, taken)"

inductive_cases qstepE: "qstep crc32 s s'"

inductive queue_reach :: "(u32 \<Rightarrow> u64 \<Rightarrow> u32) \<Rightarrow> queue_history \<Rightarrow> bool" for crc32 where
  queue_reach_init: "queue_reach crc32 (StoreMetaQueue_new, [], [])"
| queue_reach_step: "queue_reach crc32 s \<Longrightarrow> qstep crc32 s s' \<Longrightarrow> queue_reach crc32 s'"

definition chained :: "(u32 \<Rightarrow> u64 \<Rightarrow> u32) \<Rightarrow> StoreMetaQueue \<Rightarrow> bool" where
  "chained crc32 q \<longleftrightarrow>
     last_dequeue_meta q \<in> set (metas q)
     \<or> (\<forall>m \<in> set (metas q). sm_cursor_id (last_dequeue_meta q) < sm_cursor_id m)
        \<and> (metas q \<noteq> [] \<longrightarrow> CheckCrc crc32 (sm_crc (last_dequeue_meta q)) (hd (metas q)))"

definition queue_inv :: "(u32 \<Rightarrow> u64 \<Rightarrow> u32) \<Rightarrow> queue_history \<Rightarrow> bool" where
  "queue_inv crc32 = (\<lambda>(q, pushed, taken).
     wf_queue crc32 q \<and> sorted_wrt (<) pushed \<and> NoID \<notin> set pushed
     \<and> (\<exists>gone rest. pushed = gone @ cursors q \<and> pushed = taken @ rest \<and> length gone \<le> length taken)
     \<and> sm_cursor_id (last_dequeue_meta q) = (if taken = [] then NoID else last taken)
     \<and> (taken \<noteq> [] \<longrightarrow> chained crc32 q))"

text \<open>The entry after a member of a well-formed queue is linked to it.\<close>

lemma successively_split:
  "successively P (xs @ x # y # ys) \<Longrightarrow> P x y"
  by (simp add: successively_append_iff successively_Cons)

lemma upper_bound_split:
  assumes "sorted_by key (xs @ x # ys)"
  shows "upper_bound key (key x) (xs @ x # ys) = ys"
proof -
  have "filter (\<lambda>a. key x < key a) ys = ys" "filter (\<lambda>a. key x < key a) xs = []"
    using assms by (auto simp: sorted_by_append filter_id_conv filter_empty_conv)
  then show ?thesis by (simp add: upper_bound_filter[OF assms])
qed

lemma chained_next_crc:
  assumes wf: "wf_queue crc32 q" and ch: "chained crc32 q"
    and n: "Next crc32 (last_dequeue_meta q) q = (Some (n, ok), q')"
    and id: "sm_cursor_id (last_dequeue_meta q) \<noteq> NoID"
  shows "ok \<and> last_dequeue_meta q' = n \<and> n \<in> set (metas q)
     \<and> sm_cursor_id (last_dequeue_meta q) < sm_cursor_id n"
proof -
  let ?l = "last_dequeue_meta q"
  obtain r where ub: "upper_bound sm_cursor_id (sm_cursor_id ?l) (metas q) = n # r"
    using n id by (auto simp: Next_def Let_def split: if_splits list.splits)
  then have mem: "n \<in> set (metas q)" and lt: "sm_cursor_id ?l < sm_cursor_id n"
    using upper_bound_filter[OF wf_queueD(1)[OF wf], of "sm_cursor_id ?l"]
    by (auto simp: filter_eq_Cons_iff)
  have "CheckCrc crc32 (sm_crc ?l) n"
  proof (cases "?l \<in> set (metas q)")
    case True
    then obtain xs ys where sp: "metas q = xs @ ?l # ys" by (meson split_list)
    with wf_queueD(1)[OF wf] ub have "ys = n # r" by (metis upper_bound_split)
    with sp wf_queueD(3)[OF wf] have "linked crc32 ?l n" by (metis successively_split)
    then show ?thesis by (simp add: linked_def CheckCrc_def)
  next
    case False
    with ch have "upper_bound sm_cursor_id (sm_cursor_id ?l) (metas q) = metas q"
      "metas q \<noteq> [] \<longrightarrow> CheckCrc crc32 (sm_crc ?l) (hd (metas q))"
      by (auto simp: chained_def upper_bound_filter[OF wf_queueD(1)[OF wf]] filter_id_conv)
    with ub mem show ?thesis by auto
  qed
  with n ub id lt mem show ?thesis
    by (auto simp: Next_def Let_def split: if_splits)
qed

lemma chained_erase:
  assumes wf: "wf_queue crc32 q" and ch: "chained crc32 q"
    and c: "c \<noteq> NoID" "c \<le> sm_cursor_id (last_dequeue_meta q)"
  shows "chained crc32 (EraseFrontTill (StoreMeta_of c) q)"
proof -
  let ?l = "last_dequeue_meta q"
  have e: "EraseFrontTill (StoreMeta_of c) q = q\<lparr>metas := filter (\<lambda>a. c < sm_cursor_id a) (metas q)\<rparr>"
  proof (cases "metas q = []")
    case True
    with c show ?thesis by (cases q) (simp add: EraseFrontTill_def)
  next
    case False
    with c upper_bound_filter[OF wf_queueD(1)[OF wf], of c] show ?thesis
      by (simp add: EraseFrontTill_def)
  qed
  show ?thesis
  proof (cases "?l \<in> set (metas q)")
    case mem: True
    show ?thesis
    proof (cases "sm_cursor_id ?l = c")
      case True
      obtain xs ys where sp: "metas q = xs @ ?l # ys" using mem by (meson split_list)
      have ys: "filter (\<lambda>a. c < sm_cursor_id a) (metas q) = ys"
        using upper_bound_split[of sm_cursor_id xs ?l ys] wf_queueD(1)[OF wf] sp True
          upper_bound_filter[OF wf_queueD(1)[OF wf], of c] by simp
      have "\<forall>m \<in> set ys. sm_cursor_id ?l < sm_cursor_id m"
        using ys True by auto
      moreover have "ys \<noteq> [] \<longrightarrow> CheckCrc crc32 (sm_crc ?l) (hd ys)"
      proof (cases ys)
        case (Cons y r)
        have "linked crc32 ?l y"
          by (rule successively_split[of _ xs _ _ r]) (use sp Cons wf_queueD(3)[OF wf] in simp)
        with Cons show ?thesis by (simp add: linked_def CheckCrc_def)
      qed simp
      ultimately show ?thesis using e ys by (simp add: chained_def)
    next
      case False
      with c(2) have "c < sm_cursor_id ?l" by simp
      with mem e show ?thesis by (simp add: chained_def)
    qed
  next
    case False
    with ch have *: "\<forall>m \<in> set (metas q). sm_cursor_id ?l < sm_cursor_id m" by (simp add: chained_def)
    then have "\<forall>m \<in> set (metas q). c < sm_cursor_id m" using c(2) le_less_trans by blast
    then have "filter (\<lambda>a. c < sm_cursor_id a) (metas q) = metas q" by (simp add: filter_id_conv)
    with e ch show ?thesis by (simp add: chained_def)
  qed
qed

lemma chained_push:
  assumes "chained crc32 q" and "sm_cursor_id (last_dequeue_meta q) < sm_cursor_id m'"
    and "metas q = [] \<Longrightarrow> sm_crc m' = crc32 (sm_crc (last_dequeue_meta q)) (sm_cursor_id m')"
  shows "chained crc32 (q\<lparr>metas := metas q @ [m']\<rparr>)"
proof (cases "metas q = []")
  case True
  with assms(2,3) show ?thesis by (simp add: chained_def CheckCrc_def)
next
  case False
  with assms(1,2) show ?thesis by (auto simp: chained_def)
qed

lemma queue_inv_push:
  assumes inv: "queue_inv crc32 (q, pushed, taken)"
    and p: "PushBack crc32 (StoreMeta_of c) q = (True, q')" and new: "\<forall>k \<in> set pushed. k < c"
  shows "queue_inv crc32 (q', pushed @ [c], taken)"
proof -
  from inv have wf: "wf_queue crc32 q" by (simp add: queue_inv_def)
  have ok: "c \<noteq> NoID" "\<forall>k \<in> set (cursors q). k < c"
    using PushBack_cases(3)[OF wf, of "StoreMeta_of c"] p by simp_all
  obtain m' where m': "q' = q\<lparr>metas := metas q @ [m']\<rparr>" "sm_cursor_id m' = c"
    "metas q = [] \<Longrightarrow> sm_crc m' = crc32 (sm_crc (last_dequeue_meta q)) c"
    using PushBack_accept[OF wf, of "StoreMeta_of c"] ok p by auto
  have cs: "cursors q' = cursors q @ [c]" using m' by (simp add: cursors_def)
  have "wf_queue crc32 q'" using PushBack_cases(1)[OF wf, of "StoreMeta_of c"] p by simp
  moreover from inv have "\<exists>gone rest. pushed = gone @ cursors q \<and> pushed = taken @ rest
      \<and> length gone \<le> length taken" by (simp add: queue_inv_def)
  then obtain gone rest where
    "pushed = gone @ cursors q" "pushed = taken @ rest" "length gone \<le> length taken" by blast
  moreover have "taken \<noteq> [] \<longrightarrow> chained crc32 q'"
  proof
    assume t: "taken \<noteq> []"
    then have "last taken < c" using \<open>pushed = taken @ rest\<close> new by simp
    then show "chained crc32 q'"
      using chained_push[of crc32 q m'] inv t m' by (simp add: queue_inv_def)
  qed
  moreover have "\<exists>g r. pushed @ [c] = g @ cursors q' \<and> pushed @ [c] = taken @ r \<and> length g \<le> length taken"
    using \<open>pushed = gone @ cursors q\<close> \<open>pushed = taken @ rest\<close> \<open>length gone \<le> length taken\<close> cs
    by (intro exI[of _ gone] exI[of _ "rest @ [c]"]) simp
  ultimately show ?thesis
    using inv ok new m'(1) by (simp add: queue_inv_def sorted_wrt_append)
qed

lemma queue_inv_sorted_parts:
  assumes "sorted_wrt (<) ks" and "(ks :: u64 list) = gone @ cs" and "ks = taken @ rest"
    and "length gone \<le> length taken" and "taken \<noteq> []"
  shows "filter (\<lambda>k. last taken < k) cs = rest"
proof -
  have "\<forall>k \<in> set taken. k \<le> last taken"
    using assms(1,3,5) sorted_by_last[of id taken] by (simp add: sorted_by_def sorted_wrt_append)
  then have "filter (\<lambda>k. last taken < k) taken = []" by (auto simp: filter_empty_conv not_less)
  moreover have "filter (\<lambda>k. last taken < k) rest = rest"
    using assms(1,3,5) by (auto simp: sorted_wrt_append filter_id_conv)
  ultimately have "filter (\<lambda>k. last taken < k) ks = rest" using assms(3) by simp
  moreover have "gone = take (length gone) taken"
    using assms(2-4) by (metis append_eq_conv_conj take_append take_all_iff diff_is_0_eq' append_Nil2 take0)
  then have "set gone \<subseteq> set taken" by (metis set_take_subset)
  then have "filter (\<lambda>k. last taken < k) gone = []"
    using \<open>filter (\<lambda>k. last taken < k) taken = []\<close> by (auto simp: filter_empty_conv)
  ultimately show ?thesis using assms(2) by simp
qed

lemma queue_inv_pop:
  assumes inv: "queue_inv crc32 (q, pushed, taken)"
    and n: "Next crc32 (last_dequeue_meta q) q = (Some (n, ok), q')"
  shows "queue_inv crc32 (q', pushed, taken @ [sm_cursor_id n])"
    and "taken \<noteq> [] \<Longrightarrow> ok"
proof -
  from inv have wf: "wf_queue crc32 q" by (simp add: queue_inv_def)
  from inv have "\<exists>gone rest. pushed = gone @ cursors q \<and> pushed = taken @ rest
      \<and> length gone \<le> length taken" by (simp add: queue_inv_def)
  then obtain gone rest where sp:
    "pushed = gone @ cursors q" "pushed = taken @ rest" "length gone \<le> length taken" by blast
  have srt: "sorted_wrt (<) pushed" and nid: "NoID \<notin> set pushed"
    using inv by (simp_all add: queue_inv_def)
  have lid: "sm_cursor_id (last_dequeue_meta q) = (if taken = [] then NoID else last taken)"
    using inv by (simp add: queue_inv_def)
  have cs: "cursors q' = cursors q" and ms: "metas q' = metas q"
    using cursors_Next[of crc32 "last_dequeue_meta q" q] Next_frame[of crc32 "last_dequeue_meta q" q] n by simp_all
  have wf': "wf_queue crc32 q'" using wf_queue_Next[OF wf, of "last_dequeue_meta q"] n by simp
  have main: "(taken \<noteq> [] \<longrightarrow> ok) \<and> last_dequeue_meta q' = n \<and> n \<in> set (metas q)
      \<and> (\<exists>rest'. rest = sm_cursor_id n # rest')"
  proof (cases "taken = []")
    case True
    with lid n have "metas q \<noteq> []" "n = hd (metas q)" "last_dequeue_meta q' = n"
      by (auto simp: Next_def Let_def split: if_splits list.splits)
    moreover have "rest = cursors q" using sp True by simp
    ultimately show ?thesis using True by (cases "metas q") (auto simp: cursors_def)
  next
    case False
    with lid nid sp(2) have id: "sm_cursor_id (last_dequeue_meta q) \<noteq> NoID"
      by (metis Un_iff last_in_set set_append)
    have "chained crc32 q" using inv False by (simp add: queue_inv_def)
    note nx = chained_next_crc[OF wf this n id]
    obtain r where "filter (\<lambda>a. last taken < sm_cursor_id a) (metas q) = n # r"
      using Next_Some_filter[OF wf n] id lid False by auto
    then have "filter (\<lambda>k. last taken < k) (cursors q) = sm_cursor_id n # map sm_cursor_id r"
      by (simp add: cursors_def filter_map o_def)
    with queue_inv_sorted_parts[OF srt sp False] nx show ?thesis by metis
  qed
  then obtain rest' where "rest = sm_cursor_id n # rest'" by blast
  with sp cs have "pushed = gone @ cursors q' \<and> pushed = (taken @ [sm_cursor_id n]) @ rest'
      \<and> length gone \<le> length (taken @ [sm_cursor_id n])" by simp
  moreover have "chained crc32 q'" using main ms by (simp add: chained_def)
  ultimately show "queue_inv crc32 (q', pushed, taken @ [sm_cursor_id n])"
    unfolding queue_inv_def using wf' srt nid main by auto
  show "taken \<noteq> [] \<Longrightarrow> ok" using main by simp
qed

lemma sorted_filter_split:
  "sorted_wrt (<) (ks :: u64 list) \<Longrightarrow> ks = filter (\<lambda>k. k \<le> c) ks @ filter (\<lambda>k. c < k) ks"
proof (induction ks)
  case (Cons k ks)
  show ?case
  proof (cases "k \<le> c")
    case True
    with Cons show ?thesis by simp
  next
    case False
    with Cons.prems have "\<forall>j \<in> set ks. c < j" by auto
    then have "filter (\<lambda>k. k \<le> c) ks = []" "filter (\<lambda>k. c < k) ks = ks"
      by (simp_all add: filter_empty_conv filter_id_conv not_le)
    with False show ?thesis by simp
  qed
qed simp

lemma trim_length:
  assumes "sorted_wrt (<) ks" and "(ks :: u64 list) = gone @ a @ b" and "ks = taken @ rest"
    and "length gone \<le> length taken" and "\<forall>k \<in> set a. k \<le> c" and "c \<in> set taken"
  shows "length (gone @ a) \<le> length taken"
proof (rule ccontr)
  assume "\<not> length (gone @ a) \<le> length taken"
  then have l: "length taken < length (gone @ a)" by simp
  then have "a \<noteq> []" using assms(4) by auto
  have "(gone @ a) @ b = taken @ rest" using assms(2,3) by simp
  with l obtain us where us: "gone @ a = taken @ us" by (auto simp: append_eq_append_conv2)
  with l obtain x xs where "us = x # xs" by (cases us) auto
  with us have x: "gone @ a = taken @ x # xs" by simp
  have srt: "sorted_wrt (<) (gone @ a)"
    using assms(1,2) by (simp add: sorted_wrt_append)
  then have "c < x" using x assms(6) by (simp add: sorted_wrt_append)
  moreover have "x \<le> last (gone @ a)"
    using srt x sorted_by_last[of id "gone @ a" x] by (simp add: sorted_by_def)
  moreover have "last (gone @ a) \<le> c" using \<open>a \<noteq> []\<close> assms(5) by simp
  ultimately show False by simp
qed

lemma queue_inv_trim:
  assumes inv: "queue_inv crc32 (q, pushed, taken)" and c: "c \<in> set taken"
  shows "queue_inv crc32 (EraseFrontTill (StoreMeta_of c) q, pushed, taken)"
proof -
  let ?q' = "EraseFrontTill (StoreMeta_of c) q"
  from inv have wf: "wf_queue crc32 q" by (simp add: queue_inv_def)
  from inv have "\<exists>gone rest. pushed = gone @ cursors q \<and> pushed = taken @ rest
      \<and> length gone \<le> length taken" by (simp add: queue_inv_def)
  then obtain gone rest where sp:
    "pushed = gone @ cursors q" "pushed = taken @ rest" "length gone \<le> length taken" by blast
  have srt: "sorted_wrt (<) pushed" and nid: "NoID \<notin> set pushed"
    using inv by (simp_all add: queue_inv_def)
  have cn: "c \<noteq> NoID" using c sp(2) nid by auto
  have tn: "taken \<noteq> []" using c by auto
  have cl: "c \<le> last taken"
    using srt sp(2) c tn sorted_by_last[of id taken c] by (simp add: sorted_by_def sorted_wrt_append)
  let ?a = "filter (\<lambda>k. k \<le> c) (cursors q)" and ?b = "filter (\<lambda>k. c < k) (cursors q)"
  have cs: "cursors ?q' = ?b" using wf cn by (rule cursors_EraseFrontTill)
  have split: "cursors q = ?a @ ?b"
    using sorted_cursors[OF wf] by (rule sorted_filter_split)
  have "length (gone @ ?a) \<le> length taken"
    using sp(3) c by (intro trim_length[OF srt _ sp(2), of gone ?a ?b c]) (use sp(1) split in auto)
  then have "\<exists>gone rest. pushed = gone @ cursors ?q' \<and> pushed = taken @ rest \<and> length gone \<le> length taken"
    using sp split cs by (intro exI[of _ "gone @ ?a"] exI[of _ rest]) simp
  moreover have "last_dequeue_meta ?q' = last_dequeue_meta q" by (simp add: EraseFrontTill_def)
  moreover have "chained crc32 ?q'"
    using inv tn cl cn by (intro chained_erase[OF wf]) (simp_all add: queue_inv_def)
  ultimately show ?thesis
    using inv wf_queue_EraseFrontTill[OF wf, of "StoreMeta_of c"] by (simp add: queue_inv_def)
qed

lemma queue_reach_inv: "queue_reach crc32 s \<Longrightarrow> queue_inv crc32 s"
proof (induction rule: queue_reach.induct)
  case queue_reach_init
  show ?case by (simp add: queue_inv_def wf_queue_new) (simp add: StoreMetaQueue_new_def cursors_def)
next
  case (queue_reach_step s s')
  from queue_reach_step.hyps(2) queue_reach_step.IH show ?case
  proof (cases rule: qstep.cases)
    case (qstep_push c q q' pushed taken)
    with queue_reach_step.IH show ?thesis by (auto intro: queue_inv_push)
  next
    case (qstep_pop q n ok q' pushed taken)
    with queue_reach_step.IH show ?thesis by (auto intro: queue_inv_pop)
  next
    case (qstep_trim c taken q pushed)
    with queue_reach_step.IH show ?thesis by (auto intro: queue_inv_trim)
  qed
qed

lemma queue_inv_drained:
  assumes inv: "queue_inv crc32 (q, pushed, taken)"
    and n: "Next crc32 (last_dequeue_meta q) q = (None, q')"
  shows "pushed = taken"
proof -
  from inv have wf: "wf_queue crc32 q" by (simp add: queue_inv_def)
  from inv have "\<exists>gone rest. pushed = gone @ cursors q \<and> pushed = taken @ rest
      \<and> length gone \<le> length taken" by (simp add: queue_inv_def)
  then obtain gone rest where sp:
    "pushed = gone @ cursors q" "pushed = taken @ rest" "length gone \<le> length taken" by blast
  have srt: "sorted_wrt (<) pushed" and nid: "NoID \<notin> set pushed"
    using inv by (simp_all add: queue_inv_def)
  have lid: "sm_cursor_id (last_dequeue_meta q) = (if taken = [] then NoID else last taken)"
    using inv by (simp add: queue_inv_def)
  have none: "if sm_cursor_id (last_dequeue_meta q) = NoID then cursors q = []
      else \<forall>k \<in> set (cursors q). k \<le> sm_cursor_id (last_dequeue_meta q)"
    using Next_None_iff[OF wf, of "last_dequeue_meta q"] n by simp
  show ?thesis
  proof (cases "taken = []")
    case True
    with none lid sp show ?thesis by simp
  next
    case False
    with nid sp(2) have "last taken \<noteq> NoID" by (metis Un_iff last_in_set set_append)
    with none lid False have "filter (\<lambda>k. last taken < k) (cursors q) = []"
      by (auto simp: filter_empty_conv not_less)
    with queue_inv_sorted_parts[OF srt sp False] sp(2) show ?thesis by simp
  qed
qed

text \<open>When entries are lost, the check of the entry after them compares the CRC chained over what was lost
  with the CRC of the entry dequeued last.\<close>

lemma linked_gap:
  "successively (linked crc32) (ms @ [m]) \<Longrightarrow> ms \<noteq> [] \<Longrightarrow> CheckCrc crc32 p (hd ms) \<Longrightarrow>
     sm_crc m = crc32 (foldl crc32 p (map sm_cursor_id ms)) (sm_cursor_id m)"
proof (induction ms arbitrary: p)
  case (Cons a ms)
  have a: "sm_crc a = crc32 p (sm_cursor_id a)" using Cons.prems(3) by (simp add: CheckCrc_def)
  show ?case
  proof (cases ms)
    case Nil
    then show ?thesis using Cons.prems(1) a by (simp add: linked_def)
  next
    case (Cons b r)
    then have "CheckCrc crc32 (sm_crc a) (hd ms)" "successively (linked crc32) (ms @ [m])"
      using Cons.prems(1) by (simp_all add: linked_def CheckCrc_def)
    then show ?thesis using Cons.IH[of "sm_crc a"] Cons a by simp
  qed
qed simp

lemma queue_inv_gap:
  assumes inv: "queue_inv crc32 (q, taken @ lost @ n # rest, taken)" and ne: "lost \<noteq> []" "taken \<noteq> []"
  shows "\<exists>m. fst (Next crc32 (last_dequeue_meta q) (EraseFrontTill (StoreMeta_of (last lost)) q)) =
      Some (m, crc32 (sm_crc (last_dequeue_meta q)) n = crc32 (foldl crc32 (sm_crc (last_dequeue_meta q)) lost) n)
    \<and> sm_cursor_id m = n"
proof -
  let ?d = "last_dequeue_meta q" and ?id = "sm_cursor_id"
  obtain gone rest0 where sp: "taken @ lost @ n # rest = gone @ cursors q" "taken @ lost @ n # rest = taken @ rest0" "length gone \<le> length taken"
    using inv by (auto simp: queue_inv_def)
  have wf: "wf_queue crc32 q" and srt: "sorted_wrt (<) (taken @ lost @ n # rest)" and nid: "NoID \<notin> set (taken @ lost @ n # rest)"
    and d: "?id ?d = last taken" and ch: "chained crc32 q"
    using inv ne(2) by (simp_all add: queue_inv_def)
  have d0: "?id ?d \<noteq> NoID" using d nid last_in_set[OF ne(2)] by auto
  have so: "sorted_by ?id (metas q)" using wf by (simp add: wf_queue_def)
  have "map ?id (upper_bound ?id (?id ?d) (metas q)) = lost @ n # rest"
    using queue_inv_sorted_parts[OF srt sp ne(2)] sp(2) d by (simp add: cursors_def filter_map o_def upper_bound_filter[OF so])
  then obtain L N R where ub: "upper_bound ?id (?id ?d) (metas q) = L @ N # R" "map ?id L = lost" "?id N = n"
    by (auto simp: map_eq_append_conv map_eq_Cons_conv)
  have "successively (linked crc32) (L @ N # R)"
    using successively_suffix_upper_bound[OF wf, of ?id "?id ?d"] ub(1) by simp
  then have lk: "successively (linked crc32) (L @ [N])" by (simp add: successively_append_iff successively_Cons)
  have L: "L \<noteq> []" using ub(2) ne(1) by auto
  have lt: "\<forall>m \<in> set (L @ N # R). ?id ?d < ?id m" using ub(1) by (auto simp: upper_bound_filter[OF so] simp flip: ub(1))
  have mne: "metas q \<noteq> []" using ub(1) by (auto simp: upper_bound_def)
  have "CheckCrc crc32 (sm_crc ?d) (hd L)"
  proof -
    obtain a L' where a: "L = a # L'" using L by (cases L) auto
    have "Next crc32 ?d q = (Some (a, CheckCrc crc32 (sm_crc ?d) a), q\<lparr>last_dequeue_meta := a\<rparr>)"
      using mne d0 ub(1) lt a by (simp add: Next_def Let_def)
    from chained_next_crc[OF wf ch this d0] a show ?thesis by simp
  qed
  from linked_gap[OF lk L this] have N: "sm_crc N = crc32 (foldl crc32 (sm_crc ?d) lost) n" using ub(2,3) by simp
  have ll3: "?id (last L) = last lost" using ub(2) L by (metis last_map)
  have "last lost \<in> set lost" using ne(1) by simp
  then have ll1: "last lost \<noteq> NoID" using nid by auto
  have "last L \<in> set (L @ N # R)" using L by simp
  then have ll2: "?id ?d < last lost" using lt ll3 by metis
  note ll = ll1 ll2 ll3
  have sL: "sorted_by ?id (L @ N # R)" using sorted_by_filter[OF so, of "\<lambda>a. ?id ?d < ?id a"] unfolding ub(1)[symmetric] upper_bound_filter[OF so] .
  have Lb: "butlast L @ last L # N # R = L @ N # R" using append_butlast_last_id[OF L] by (metis append.assoc append_Cons append_Nil)
  have "filter (\<lambda>m. last lost < ?id m) (metas q) = filter (\<lambda>m. last lost < ?id m) (L @ N # R)"
    using ll(2) by (auto simp: upper_bound_filter[OF so] simp flip: ub(1) intro!: filter_cong)
  also have "... = upper_bound ?id (?id (last L)) (butlast L @ last L # N # R)"
    unfolding Lb ll(3) by (rule upper_bound_filter[OF sL, symmetric])
  also have "... = N # R" by (rule upper_bound_split) (simp only: Lb sL)
  finally have "metas (EraseFrontTill (StoreMeta_of (last lost)) q) = N # R"
    using mne ll(1) by (simp add: EraseFrontTill_def upper_bound_filter[OF so])
  moreover have "last_dequeue_meta (EraseFrontTill (StoreMeta_of (last lost)) q) = ?d" by (simp add: EraseFrontTill_def)
  moreover have "upper_bound ?id (?id ?d) (N # R) = N # R"
  proof -
    have "sorted_by ?id (N # R)" using sL by (simp add: sorted_by_def sorted_wrt_append)
    then show ?thesis using lt by (simp add: upper_bound_filter filter_id_conv)
  qed
  ultimately show ?thesis using d0 lt N ub(3)
    by (simp add: Next_def Let_def CheckCrc_def) auto
qed


definition sample_crc :: "u32 \<Rightarrow> u64 \<Rightarrow> u32" where
  "sample_crc pre c = pre + ucast c + 1"

definition sample_queue :: StoreMetaQueue where
  "sample_queue = snd (PushBack sample_crc (StoreMeta_of 9)
     (snd (PushBack sample_crc (StoreMeta_of 4) StoreMetaQueue_new)))"

lemma queue_reach_sample:
  "queue_reach sample_crc
     (snd (Next sample_crc (last_dequeue_meta sample_queue) sample_queue), [4, 9], [4])"
proof -
  let ?q1 = "snd (PushBack sample_crc (StoreMeta_of 4) StoreMetaQueue_new)"
  have 1: "qstep sample_crc (StoreMetaQueue_new, [], []) (?q1, [] @ [4], [])"
    by (rule qstep_push) (simp_all add: PushBack_def StoreMetaQueue_new_def)
  have 2: "qstep sample_crc (?q1, [] @ [4], []) (sample_queue, ([] @ [4]) @ [9], [])"
    by (rule qstep_push) (simp_all add: PushBack_def StoreMetaQueue_new_def Let_def sample_queue_def)
  let ?r = "Next sample_crc (last_dequeue_meta sample_queue) sample_queue"
  obtain n ok where n: "?r = (Some (n, ok), snd ?r)" "sm_cursor_id n = 4"
    by (simp add: Next_def PushBack_def StoreMetaQueue_new_def Let_def sample_queue_def)
  from qstep_pop[OF n(1), of "[4, 9]" "[]"] n(2)
  have 3: "qstep sample_crc (sample_queue, [4, 9], []) (snd ?r, [4, 9], [4])" by simp
  from queue_reach_init queue_reach_step[OF queue_reach_step[OF queue_reach_step]] 1 2 3
  show ?thesis by fastforce
qed


text \<open>\<open>SizeGT\<close>, which subtracts two running indices instead of walking the set, is the
  number of entries above the given cursor, for every queue of fewer than \<open>2^31\<close> entries,
  wherever the indices themselves have wrapped around.\<close>

theorem SizeGT_counts:
  assumes "wf_queue crc32 q" and "length (cursors q) < 2 ^ 31"
  shows "sint (SizeGT m q) = int (length (filter (\<lambda>k. sm_cursor_id m < k) (cursors q)))"
proof -
  have "length (filter (\<lambda>k. sm_cursor_id m < k) (cursors q)) < 2 ^ 31"
    using assms(2) le_less_trans[OF length_filter_le] by blast
  then show ?thesis using assms(1) by (simp only: SizeGT_eq sint_of_nat_i32)
qed

theorem SizeGT_counts_witness:
  "sint (SizeGT (StoreMeta_of 4) (snd (PushBack (\<lambda>p c. p) (StoreMeta_of 7)
     (snd (PushBack (\<lambda>p c. p) (StoreMeta_of 4) StoreMetaQueue_new))))) = 1"
proof -
  let ?q = "snd (PushBack (\<lambda>p c. p) (StoreMeta_of 7)
     (snd (PushBack (\<lambda>p c. p) (StoreMeta_of 4) StoreMetaQueue_new)))"
  have "wf_queue (\<lambda>p c. p) ?q"
    by (intro PushBack_cases(1) wf_queue_new StoreMeta_of_simps)
  moreover have c: "cursors ?q = [4, 7]"
    by (simp add: PushBack_def StoreMetaQueue_new_def cursors_def Let_def)
  ultimately show ?thesis using SizeGT_counts[of _ ?q "StoreMeta_of 4"] by simp
qed

end
