(* ===== verification/Comm.thy ===== *)
theory Comm
  imports Prelude
begin

section \<open>Return codes, messages and addresses (comm/)\<close>

text \<open>
  The return codes of errdef.h with their numbers (callers test the sign of \<open>as_integer ret\<close>:
  negative is an error, positive a condition that is not an error), the protobuf messages of
  comm.proto that the server components exchange, as records of the fields the C++ code reads,
  and the address and string helpers of comm/utils. \<open>inet_addr\<close> and \<open>inet_ntoa\<close> are the C
  library's and are parameters. A proto2 \<open>optional\<close> scalar is its value (its default if unset);
  a sub-message whose presence is tested is an option.
\<close>

text \<open>
  An \<open>enum class\<close> over \<open>int\<close>: a value is its number, read with \<open>as_integer\<close>, and the
  enumerators are names of values.
\<close>

datatype RetCode = RetCode (as_integer: int)

abbreviation RET_OK :: RetCode where "RET_OK \<equiv> RetCode 0"
abbreviation RET_ERR_NO_IMPL :: RetCode where "RET_ERR_NO_IMPL \<equiv> RetCode 10101"
abbreviation RET_ERR_NOT_MASTER :: RetCode where "RET_ERR_NOT_MASTER \<equiv> RetCode 10102"
abbreviation RET_ERR_VERSION_NOT_EQUAL :: RetCode where "RET_ERR_VERSION_NOT_EQUAL \<equiv> RetCode 10103"
abbreviation RET_ERR_KEY_NOT_EXIST :: RetCode where "RET_ERR_KEY_NOT_EXIST \<equiv> RetCode 10104"
abbreviation RET_ERR_NO_MASTER :: RetCode where "RET_ERR_NO_MASTER \<equiv> RetCode 10105"
abbreviation RET_ERR_NOT_READY :: RetCode where "RET_ERR_NOT_READY \<equiv> RetCode 10106"
abbreviation RET_KEY_IGNORE :: RetCode where "RET_KEY_IGNORE \<equiv> RetCode 10107"
abbreviation RET_ERR_SIZE_TOO_LARGE :: RetCode where "RET_ERR_SIZE_TOO_LARGE \<equiv> RetCode 10108"
abbreviation RET_ADD_SKIP :: RetCode where "RET_ADD_SKIP \<equiv> RetCode 10201"
abbreviation RET_DIR_NOT_EXIST :: RetCode where "RET_DIR_NOT_EXIST \<equiv> RetCode 10202"
abbreviation RET_NO_LOCK_TARGET :: RetCode where "RET_NO_LOCK_TARGET \<equiv> RetCode 10301"
abbreviation RET_ACQUIRE_LOCK_FAIL :: RetCode where "RET_ACQUIRE_LOCK_FAIL \<equiv> RetCode 10302"
abbreviation RET_NO_NEED_LOCK :: RetCode where "RET_NO_NEED_LOCK \<equiv> RetCode 10303"
abbreviation RET_NO_NEED_BLOCK :: RetCode where "RET_NO_NEED_BLOCK \<equiv> RetCode 10401"
abbreviation RET_GET_SCALE_FAIL :: RetCode where "RET_GET_SCALE_FAIL \<equiv> RetCode 10501"
abbreviation RET_NO_NEED_UPDATE_SCALE :: RetCode where "RET_NO_NEED_UPDATE_SCALE \<equiv> RetCode 10502"
abbreviation RET_NO_LIVE_CONSUMER :: RetCode where "RET_NO_LIVE_CONSUMER \<equiv> RetCode 10503"
abbreviation RET_ERR_CURSOR_NOT_FOUND :: RetCode where "RET_ERR_CURSOR_NOT_FOUND \<equiv> RetCode 10601"
abbreviation RET_ERR_PAXOS_NOT_CHOSEN :: RetCode where "RET_ERR_PAXOS_NOT_CHOSEN \<equiv> RetCode 10701"
abbreviation RET_ERR_NO_NEED_DUMP_CHECKPOINT :: RetCode where "RET_ERR_NO_NEED_DUMP_CHECKPOINT \<equiv> RetCode 10801"
abbreviation RET_ERR_SYS :: RetCode where "RET_ERR_SYS \<equiv> RetCode (- 1)"
abbreviation RET_ERR_ARG :: RetCode where "RET_ERR_ARG \<equiv> RetCode (- 2)"
abbreviation RET_ERR_LOGIC :: RetCode where "RET_ERR_LOGIC \<equiv> RetCode (- 104)"
abbreviation RET_ERR_UNINIT :: RetCode where "RET_ERR_UNINIT \<equiv> RetCode (- 10001)"
abbreviation RET_ERR_UNEXPECTED :: RetCode where "RET_ERR_UNEXPECTED \<equiv> RetCode (- 10002)"
abbreviation RET_ERR_RANGE :: RetCode where "RET_ERR_RANGE \<equiv> RetCode (- 10101)"
abbreviation RET_ERR_RANGE_TOPIC :: RetCode where "RET_ERR_RANGE_TOPIC \<equiv> RetCode (- 10102)"
abbreviation RET_ERR_RANGE_STORE :: RetCode where "RET_ERR_RANGE_STORE \<equiv> RetCode (- 10103)"
abbreviation RET_ERR_RANGE_QUEUE :: RetCode where "RET_ERR_RANGE_QUEUE \<equiv> RetCode (- 10104)"
abbreviation RET_ERR_RANGE_CONSUMER :: RetCode where "RET_ERR_RANGE_CONSUMER \<equiv> RetCode (- 10105)"
abbreviation RET_ERR_RANGE_HANDLE :: RetCode where "RET_ERR_RANGE_HANDLE \<equiv> RetCode (- 10106)"
abbreviation RET_ERR_RANGE_QUEUE_INFO :: RetCode where "RET_ERR_RANGE_QUEUE_INFO \<equiv> RetCode (- 10107)"
abbreviation RET_ERR_RANGE_RANK :: RetCode where "RET_ERR_RANGE_RANK \<equiv> RetCode (- 10108)"
abbreviation RET_ERR_RANGE_CNT :: RetCode where "RET_ERR_RANGE_CNT \<equiv> RetCode (- 10109)"
abbreviation RET_ERR_RANGE_PUB :: RetCode where "RET_ERR_RANGE_PUB \<equiv> RetCode (- 10110)"
abbreviation RET_ERR_RANGE_CONSUMER_GROUP :: RetCode where "RET_ERR_RANGE_CONSUMER_GROUP \<equiv> RetCode (- 10111)"
abbreviation RET_ERR_RANGE_ADDR :: RetCode where "RET_ERR_RANGE_ADDR \<equiv> RetCode (- 10112)"
abbreviation RET_ERR_RANGE_SCHEDULER :: RetCode where "RET_ERR_RANGE_SCHEDULER \<equiv> RetCode (- 10113)"
abbreviation RET_ERR_RANGE_LOCK :: RetCode where "RET_ERR_RANGE_LOCK \<equiv> RetCode (- 10114)"
abbreviation RET_ERR_RANGE_VPID :: RetCode where "RET_ERR_RANGE_VPID \<equiv> RetCode (- 10115)"
abbreviation RET_ERR_NQUEUE_INVALID :: RetCode where "RET_ERR_NQUEUE_INVALID \<equiv> RetCode (- 10151)"
abbreviation RET_ERR_GET_ADDR_FROM_CACHE :: RetCode where "RET_ERR_GET_ADDR_FROM_CACHE \<equiv> RetCode (- 10201)"
abbreviation RET_ERR_GET_PENDING_ADDR :: RetCode where "RET_ERR_GET_PENDING_ADDR \<equiv> RetCode (- 10202)"
abbreviation RET_ERR_KEY :: RetCode where "RET_ERR_KEY \<equiv> RetCode (- 10203)"
abbreviation RET_ERR_LEVELDB :: RetCode where "RET_ERR_LEVELDB \<equiv> RetCode (- 10204)"
abbreviation RET_ERR_NOTIFIER_MISS :: RetCode where "RET_ERR_NOTIFIER_MISS \<equiv> RetCode (- 10205)"
abbreviation RET_ERR_ADD_OPEN_FAIL :: RetCode where "RET_ERR_ADD_OPEN_FAIL \<equiv> RetCode (- 10301)"
abbreviation RET_ERR_ADD_WRITE_FAIL :: RetCode where "RET_ERR_ADD_WRITE_FAIL \<equiv> RetCode (- 10302)"
abbreviation RET_ERR_GET_OPEN_FAIL_UNKNOW :: RetCode where "RET_ERR_GET_OPEN_FAIL_UNKNOW \<equiv> RetCode (- 10303)"
abbreviation RET_ERR_GET_ADJUST_CURSOR_ID_FAIL :: RetCode where "RET_ERR_GET_ADJUST_CURSOR_ID_FAIL \<equiv> RetCode (- 10304)"
abbreviation RET_ERR_GET_CURSOR_FAIL :: RetCode where "RET_ERR_GET_CURSOR_FAIL \<equiv> RetCode (- 10305)"
abbreviation RET_ERR_GET_CURSOR_UNFOUND :: RetCode where "RET_ERR_GET_CURSOR_UNFOUND \<equiv> RetCode (- 10306)"
abbreviation RET_ERR_GET_SEEK_FAIL :: RetCode where "RET_ERR_GET_SEEK_FAIL \<equiv> RetCode (- 10307)"
abbreviation RET_ERR_GET_INVALID_BUFFER :: RetCode where "RET_ERR_GET_INVALID_BUFFER \<equiv> RetCode (- 10308)"
abbreviation RET_ERR_GET_UPDATE_CURSOR_ID_FAIL :: RetCode where "RET_ERR_GET_UPDATE_CURSOR_ID_FAIL \<equiv> RetCode (- 10309)"
abbreviation RET_ERR_CHECK_MASTER_FAIL :: RetCode where "RET_ERR_CHECK_MASTER_FAIL \<equiv> RetCode (- 10310)"
abbreviation RET_ERR_MAKE_PAXOSARGS_FAIL :: RetCode where "RET_ERR_MAKE_PAXOSARGS_FAIL \<equiv> RetCode (- 10311)"
abbreviation RET_ERR_PROPOSE :: RetCode where "RET_ERR_PROPOSE \<equiv> RetCode (- 10312)"
abbreviation RET_ERR_PROCESS_PAXOSARGS :: RetCode where "RET_ERR_PROCESS_PAXOSARGS \<equiv> RetCode (- 10314)"
abbreviation RET_ERR_GET_TOPID_ID_AND_STORE_ID_BY_PAXOS_ADDR :: RetCode where "RET_ERR_GET_TOPID_ID_AND_STORE_ID_BY_PAXOS_ADDR \<equiv> RetCode (- 10315)"
abbreviation RET_ERR_GET_LOCAL_IDC_STORE_CONFIG_BY_TOPIC_ID :: RetCode where "RET_ERR_GET_LOCAL_IDC_STORE_CONFIG_BY_TOPIC_ID \<equiv> RetCode (- 10316)"
abbreviation RET_ERR_GET_STORE_BY_STORE_ID :: RetCode where "RET_ERR_GET_STORE_BY_STORE_ID \<equiv> RetCode (- 10317)"
abbreviation RET_ERR_PROPOSE_TIMEOUT :: RetCode where "RET_ERR_PROPOSE_TIMEOUT \<equiv> RetCode (- 10318)"
abbreviation RET_ERR_PROPOSE_FAST_REJECT :: RetCode where "RET_ERR_PROPOSE_FAST_REJECT \<equiv> RetCode (- 10319)"
abbreviation RET_ERR_GET_ITEM_BY_CURSOR_ID :: RetCode where "RET_ERR_GET_ITEM_BY_CURSOR_ID \<equiv> RetCode (- 10320)"
abbreviation RET_ERR_PROTOBUF_PARSE :: RetCode where "RET_ERR_PROTOBUF_PARSE \<equiv> RetCode (- 10401)"
abbreviation RET_ERR_PROTOBUF_SERIALIZE :: RetCode where "RET_ERR_PROTOBUF_SERIALIZE \<equiv> RetCode (- 10402)"
abbreviation RET_ERR_STORE :: RetCode where "RET_ERR_STORE \<equiv> RetCode (- 10501)"
abbreviation RET_ERR_SVR_BLOCK :: RetCode where "RET_ERR_SVR_BLOCK \<equiv> RetCode (- 10601)"
abbreviation RET_ERR_MASTER_CLIENT_FAIL :: RetCode where "RET_ERR_MASTER_CLIENT_FAIL \<equiv> RetCode (- 10602)"
abbreviation RET_ERR_NO_MASTER_ADDR :: RetCode where "RET_ERR_NO_MASTER_ADDR \<equiv> RetCode (- 10603)"
abbreviation RET_ERR_MMLB :: RetCode where "RET_ERR_MMLB \<equiv> RetCode (- 10701)"
abbreviation RET_ERR_UNCOMPRESS :: RetCode where "RET_ERR_UNCOMPRESS \<equiv> RetCode (- 10801)"
abbreviation RET_ERR_BUFFER_TYPE :: RetCode where "RET_ERR_BUFFER_TYPE \<equiv> RetCode (- 10802)"
abbreviation RET_ERR_PAXOS_RUN_NODE :: RetCode where "RET_ERR_PAXOS_RUN_NODE \<equiv> RetCode (- 10901)"
abbreviation RET_ERR_PAXOS_GET_INSTANCE_VALUE :: RetCode where "RET_ERR_PAXOS_GET_INSTANCE_VALUE \<equiv> RetCode (- 10902)"
abbreviation RET_ERR_PAXOS_VALUE_PARSE :: RetCode where "RET_ERR_PAXOS_VALUE_PARSE \<equiv> RetCode (- 10903)"

lemma as_integer_0 [simp]: "as_integer r = 0 \<longleftrightarrow> r = RET_OK"
  by (cases r) simp

subsection \<open>Messages\<close>

record Addr =
  ip :: string
  port :: int
  paxos_port :: int

record Meta =
  meta_topic_id :: int
  meta_handle_id :: int
  meta_uin :: u64
  meta_consumer_group_ids :: u64
  meta_pub_id :: int
  meta_hash :: u64
  meta_atime :: u64
  meta_atime_ms :: u32
  meta_client_id :: string

record QItem =
  qi_buffer :: string
  qi_buffer_type :: int
  qi_consumer_group_ids :: u64
  qi_pub_id :: int
  qi_atime :: u64
  qi_atime_ms :: u32
  qi_count :: u32
  qi_cursor_id :: u64
  qi_meta :: Meta

record AddRequest =
  add_topic_id :: int
  add_store_id :: int
  add_queue_id :: int
  add_items :: "QItem list"
  add_master_addr :: Addr

record AddResponse =
  add_resp_cursor_id :: u64
  add_redirect_addr :: "Addr option"

record GetRequest =
  get_topic_id :: int
  get_store_id :: int
  get_queue_id :: int
  get_limit :: int
  get_atime :: u64
  get_consumer_group_id :: int
  get_atime_ms :: u32
  get_prev_cursor_id :: u64
  get_next_cursor_id :: u64
  get_random :: bool
  get_master_addr :: Addr

record GetResponse =
  resp_items :: "QItem list"
  resp_prev_cursor_id :: u64
  resp_next_cursor_id :: u64
  resp_redirect_addr :: "Addr option"

definition Addr_default :: Addr where
  "Addr_default = \<lparr>ip = [], port = 0, paxos_port = 0\<rparr>"

subsection \<open>Addresses\<close>

definition EncodeAddr :: "(string \<Rightarrow> u32) \<Rightarrow> Addr \<Rightarrow> u64" where
  "EncodeAddr inet_addr addr =
     (let res = ucast (inet_addr (ip addr)) :: u64;
          res = or (push_bit 16 res) (word_of_int (port addr));
          res = or (push_bit 16 res) (word_of_int (paxos_port addr))
      in res)"

definition DecodeAddr :: "(u32 \<Rightarrow> string) \<Rightarrow> u64 \<Rightarrow> Addr" where
  "DecodeAddr inet_ntoa encoded_addr =
     \<lparr>ip = inet_ntoa (ucast (drop_bit 32 encoded_addr)),
      port = uint (and (drop_bit 16 encoded_addr) 0xFFFF),
      paxos_port = uint (and encoded_addr 0xFFFF)\<rparr>"

definition EncodedAddrToIPString :: "(u32 \<Rightarrow> string) \<Rightarrow> u64 \<Rightarrow> string" where
  "EncodedAddrToIPString inet_ntoa encoded_addr = ip (DecodeAddr inet_ntoa encoded_addr)"

subsection \<open>Splitting strings\<close>

text \<open>\<open>str.find_first_of\<close> and \<open>substr\<close> cut the string at every delimiter; empty pieces are dropped.\<close>

function StrSplitList :: "string \<Rightarrow> string \<Rightarrow> string list" where
  "StrSplitList str delimiters =
     (let r = takeWhile (\<lambda>c. c \<notin> set delimiters) str;
          rest = dropWhile (\<lambda>c. c \<notin> set delimiters) str;
          results = (if r = [] then [] else [r])
      in if rest = [] then results else results @ StrSplitList (tl rest) delimiters)"
  by pat_completeness auto

termination
proof (relation "measure (\<lambda>(str, _). length str)", goal_cases)
  case (2 str delimiters r rest results)
  have "length rest \<le> length str" unfolding 2(2) by (rule length_dropWhile_le)
  moreover have "length (tl rest) < length rest" using 2(4) by simp
  ultimately show ?case by (simp del: length_tl)
qed simp

declare StrSplitList.simps [simp del]

lemma StrSplitList_cut:
  assumes "\<forall>c \<in> set a. c \<notin> set ds" and "d \<in> set ds"
  shows "StrSplitList (a @ d # b) ds = (if a = [] then [] else [a]) @ StrSplitList b ds"
proof -
  have "takeWhile (\<lambda>c. c \<notin> set ds) (a @ d # b) = a" "dropWhile (\<lambda>c. c \<notin> set ds) (a @ d # b) = d # b"
    using assms by (simp_all add: takeWhile_append2 dropWhile_append2)
  then show ?thesis by (subst StrSplitList.simps) simp
qed

lemma StrSplitList_whole:
  assumes "\<forall>c \<in> set a. c \<notin> set ds"
  shows "StrSplitList a ds = (if a = [] then [] else [a])"
proof -
  have cut: "takeWhile (\<lambda>c. c \<notin> set ds) a = a" "dropWhile (\<lambda>c. c \<notin> set ds) a = []"
    using assms by (simp_all add: takeWhile_eq_all_conv dropWhile_eq_Nil_conv)
  show ?thesis by (subst StrSplitList.simps) (simp add: cut Let_def)
qed

text \<open>
  \<open>std::stoi\<close>: leading white space, an optional sign, then digits; \<^const>\<open>None\<close> is the exception
  (no digit, or outside the range of \<open>int\<close>). What follows the digits is ignored.
\<close>

definition is_digit :: "char \<Rightarrow> bool" where
  "is_digit c \<longleftrightarrow> CHR ''0'' \<le> c \<and> c \<le> CHR ''9''"

definition is_space :: "char \<Rightarrow> bool" where
  "is_space c \<longleftrightarrow> c = CHR '' '' \<or> (9 \<le> (of_char c :: nat) \<and> (of_char c :: nat) \<le> 13)"

definition digits_val :: "string \<Rightarrow> int" where
  "digits_val ds = foldl (\<lambda>v c. 10 * v + (of_char c - 48)) 0 ds"

definition stoi :: "string \<Rightarrow> int option" where
  "stoi s =
     (let s1 = dropWhile is_space s;
          neg = (s1 \<noteq> [] \<and> hd s1 = CHR ''-'');
          s2 = (if s1 \<noteq> [] \<and> (hd s1 = CHR ''-'' \<or> hd s1 = CHR ''+'') then tl s1 else s1);
          ds = takeWhile is_digit s2;
          v = (if neg then - digits_val ds else digits_val ds)
      in if ds = [] \<or> v < - (2 ^ 31) \<or> 2 ^ 31 \<le> v then None else Some v)"

subsection \<open>Decimal numbers\<close>

text \<open>
  \<open>std::to_string\<close> of an unsigned number, and \<open>strtoul(s, nullptr, 10)\<close>: leading white space, an
  optional sign, digits; no digit is 0, a number out of range is \<open>ULONG_MAX\<close>.
\<close>

fun to_string :: "nat \<Rightarrow> string" where
  "to_string n = (if n < 10 then [char_of (48 + n)] else to_string (n div 10) @ [char_of (48 + n mod 10)])"

declare to_string.simps [simp del]

text \<open>An \<open>int\<close> written to a stream.\<close>

definition int_string :: "int \<Rightarrow> string" where
  "int_string i = (if i < 0 then CHR ''-'' # to_string (nat (- i)) else to_string (nat i))"

definition strtoul :: "string \<Rightarrow> u64" where
  "strtoul s =
     (let s1 = dropWhile is_space s;
          neg = (s1 \<noteq> [] \<and> hd s1 = CHR ''-'');
          s2 = (if s1 \<noteq> [] \<and> (hd s1 = CHR ''-'' \<or> hd s1 = CHR ''+'') then tl s1 else s1);
          v = digits_val (takeWhile is_digit s2)
      in if 2 ^ 64 \<le> v then - 1 else if neg then - word_of_int v else word_of_int v)"

lemma is_digit_iff: "is_digit c \<longleftrightarrow> 48 \<le> (of_char c :: nat) \<and> (of_char c :: nat) \<le> 57"
  by (simp add: is_digit_def less_eq_char_def)

lemma of_char_digit: "d < 10 \<Longrightarrow> (of_char (char_of (48 + d)) :: nat) = 48 + d"
  by (simp add: of_char_of)

lemma to_string_digits:
  "to_string n \<noteq> [] \<and> (\<forall>c \<in> set (to_string n). is_digit c) \<and> digits_val (to_string n) = int n"
proof (induction n rule: to_string.induct)
  case (1 n)
  have dig: "is_digit (char_of (48 + d)) \<and> (of_char (char_of (48 + d)) :: int) = 48 + int d" if "d < 10" for d :: nat
  proof -
    have "(of_char (char_of (48 + d)) :: int) = int (of_char (char_of (48 + d)))"
      by (simp only: of_nat_of_char)
    then show ?thesis using that by (simp add: is_digit_iff of_char_digit)
  qed
  show ?case
  proof (cases "n < 10")
    case True
    then show ?thesis using dig[OF True] by (simp add: to_string.simps[of n] digits_val_def)
  next
    case False
    have "int n = 10 * int (n div 10) + int (n mod 10)" by presburger
    then show ?thesis
      using 1[OF False] dig[of "n mod 10"] False by (simp add: to_string.simps[of n] digits_val_def)
  qed
qed

lemma strtoul_digits:
  assumes "\<forall>c \<in> set s. is_digit c" and "s \<noteq> []"
  shows "strtoul s = (if 2 ^ 64 \<le> digits_val s then - 1 else word_of_int (digits_val s))"
proof -
  have h: "is_digit (hd s)" using assms by simp
  then have n: "\<not> is_space (hd s)" "hd s \<noteq> CHR ''-''" "hd s \<noteq> CHR ''+''"
    by (auto simp: is_digit_iff is_space_def)
  then have d: "dropWhile is_space s = s" using assms(2) by (cases s) simp_all
  have t: "takeWhile is_digit s = s" using assms(1) by (simp add: takeWhile_eq_all_conv)
  show ?thesis using n by (simp add: strtoul_def Let_def d t)
qed

text \<open>A number written in decimal is read back unchanged, for every 64-bit value.\<close>

lemma strtoul_to_string: "strtoul (to_string (unat x)) = (x :: u64)"
proof -
  note d = to_string_digits[of "unat x"]
  have "uint x < 2 ^ 64" using unsigned_less[of x, where ?'a = int] by simp
  then have "\<not> 2 ^ 64 \<le> int (unat x)" by simp
  with d show ?thesis by (simp add: strtoul_digits)
qed

subsection \<open>Encoded addresses round trip\<close>

lemma and_FFFF_take_bit: "and x 0xFFFF = take_bit 16 (x :: u64)"
  by (simp add: take_bit_eq_mask mask_eq_exp_minus_1)

lemma bit_of_port: "0 \<le> i \<Longrightarrow> i < 65536 \<Longrightarrow> bit (i :: int) n \<Longrightarrow> n < 16"
proof -
  assume i: "0 \<le> i" "i < 65536" "bit i n"
  then have "take_bit 16 i = i" by (simp add: take_bit_int_eq_self)
  with i(3) show "n < 16" by (metis bit_take_bit_iff)
qed

text \<open>An address survives \<open>EncodeAddr\<close> and \<open>DecodeAddr\<close> when its ports fit in 16 bits and
  the C library prints back the address it has parsed.\<close>

theorem DecodeAddr_EncodeAddr:
  assumes "0 \<le> port a" "port a < 65536" "0 \<le> paxos_port a" "paxos_port a < 65536"
    and "inet_ntoa (inet_addr (ip a)) = ip a"
  shows "DecodeAddr inet_ntoa (EncodeAddr inet_addr a) = a"
proof -
  note bits = bit_of_port[OF assms(1,2)] bit_of_port[OF assms(3,4)]
  have 1: "ucast (drop_bit 32 (EncodeAddr inet_addr a)) = inet_addr (ip a)"
    by (rule bit_word_eqI) (auto simp: EncodeAddr_def Let_def bit_simps dest: bits)
  have 2: "take_bit 16 (drop_bit 16 (EncodeAddr inet_addr a)) = word_of_int (port a)"
    by (rule bit_word_eqI) (auto simp: EncodeAddr_def Let_def bit_simps dest: bits)
  have 3: "take_bit 16 (EncodeAddr inet_addr a) = word_of_int (paxos_port a)"
    by (rule bit_word_eqI) (auto simp: EncodeAddr_def Let_def bit_simps dest: bits)
  have "uint (word_of_int i :: u64) = i" if "0 \<le> i" "i < 65536" for i
    using that by (simp add: uint_word_of_int)
  then show ?thesis
    using assms unfolding DecodeAddr_def and_FFFF_take_bit by (simp add: 1 2 3)
qed

theorem DecodeAddr_EncodeAddr_witness:
  "DecodeAddr (\<lambda>_. ''127.0.0.1'')
     (EncodeAddr (\<lambda>_. 0x0100007F) \<lparr>ip = ''127.0.0.1'', port = 5100, paxos_port = 5101\<rparr>)
   = \<lparr>ip = ''127.0.0.1'', port = 5100, paxos_port = 5101\<rparr>"
  by (rule DecodeAddr_EncodeAddr) simp_all

end
