(* ===== verification/Config.thy ===== *)
theory Config
  imports Comm
begin

section \<open>Configuration (config/)\<close>

text \<open>
  The messages of topicconfig.proto and the lookup structures that \<open>TopicConfig::Rebuild\<close> derives
  from them, with every lookup the servers make. A \<open>shared_ptr\<close> to a config object is the object; a server operation sees one
  snapshot of the configuration (the reload that \<open>Load\<close> may do is outside the operation).
  \<open>Rebuild\<close> is \<^const>\<open>None\<close> where the code aborts (\<open>PHX_ASSERT\<close>), throws (\<open>stoi\<close>) or overflows
  (the loop \<open>++queue\<close> over a range that ends at \<open>INT_MAX\<close>).
\<close>

subsection \<open>Messages\<close>

record Topic =
  topic_ident :: int
  handle_ids :: "int list"
  items_byte_size_limit :: int
  batch_limit :: int
  store_make_cp_interval_s :: int
  store_sync_interval_s :: int
  store_adjust_master_rate_time_interval_s :: int
  store_get_loop_max_time_ms :: int
  store_paxos_propose_timeout_ms :: int
  store_paxos_max_hold_threads :: int
  store_paxos_master_lease :: int
  store_paxos_propose_wait_time_threshold_ms :: int
  store_paxos_log_sync :: int
  store_paxos_batch_count :: int
  store_paxos_batch_delay_time_ms :: int
  store_paxos_fsync_interval :: int
  store_paxos_hold_log_count :: int
  store_adjust_min_master_rate :: int
  store_adjust_max_master_rate :: int
  lock_adjust_max_master_rate :: int
  lock_paxos_fsync_interval :: int
  consumer_lock_lease_time_s :: int
  consumer_max_mem_size_mb_per_proc :: int
  consumer_ignore_consumer_group_ids :: "int list"
  consumer_lock_interval_s :: int
  consumer_max_loop_per_proc :: int
  producer_retry_switch_store :: int
  producer_nretry_raw_add :: int
  producer_retry_switch_queue :: int
  producer_batch_delay_time_ms :: int
  scheduler_get_scale_interval_s :: int
  scheduler_max_load :: int
  scheduler_max_mean_load_percent :: int
  scheduler_max_init_weight_percent :: int
  scheduler_load_sticky :: int
  scheduler_weight_sticky :: int
  scheduler_load_balance_interval_s :: int
  scheduler_lock_lease_time_s :: int
  scheduler_renew_lock_interval_s :: int
  scheduler_hash_keep_time_s :: int
  scheduler_master_ip :: string
  scheduler_master_port :: int
  scheduler_lock_key :: string
  scheduler_load_use_proc_used_ratio :: int
  scheduler_use_init_weight :: int
  lock_adjust_master_rate_time_interval_s :: int
  lock_paxos_propose_timeout_ms :: int
  lock_paxos_max_hold_threads :: int
  lock_paxos_master_lease :: int
  lock_paxos_propose_wait_time_threshold_ms :: int
  lock_paxos_log_sync :: int
  lock_paxos_batch_count :: int
  lock_paxos_batch_delay_time_ms :: int
  lock_paxos_nr_hold_log :: int

record QueueInfo =
  qinfo_id :: int
  qinfo_ranges :: "string list"
  qinfo_handle_by_random_uin :: int
  qinfo_sleep_us_per_get :: int
  qinfo_sleep_us_on_get_fail :: int
  qinfo_sleep_us_on_get_no_item :: int
  qinfo_sleep_us_on_get_size_too_small :: int
  qinfo_get_size_too_small_threshold :: int
  qinfo_drop_all :: int
  qinfo_delay :: int
  qinfo_count :: int

record Pub =
  pub_ident :: int
  pub_queue_info_ids :: "int list"
  pub_consumer_group_ids :: "int list"

record ConsumerGroup =
  cg_id :: int
  cg_use_dynamic_scale :: int
  cg_skip_lock :: int

record SkipInfo =
  skip_uin :: u32
  skip_pub_id :: int
  skip_consumer_group_id :: int
  skip_queue_info_id :: int
  skip_handle_id :: int

record FreqInfo =
  freq_pub_id :: int
  freq_consumer_group_id :: int
  freq_handle_id :: int
  freq_limit_per_min :: int
  freq_queue_info_id :: int

record ReplayInfo =
  replay_consumer_group_ids :: "int list"
  replay_pub_ids :: "int list"
  replay_cursor_id :: u64
  replay_timestamp :: u64

record TopicConfigProto =
  tp_topic :: Topic
  tp_queue_infos :: "QueueInfo list"
  tp_pubs :: "Pub list"
  tp_consumer_groups :: "ConsumerGroup list"
  tp_skip_infos :: "SkipInfo list"
  tp_freq_infos :: "FreqInfo list"
  tp_replay_infos :: "ReplayInfo list"

subsection \<open>TopicConfig\<close>

record TopicConfig =
  tc_proto :: TopicConfigProto
  tc_last_mod_time :: u64
  pub_id2pub :: "(int \<times> Pub) list"
  consumer_group_id2consumer_group :: "(int \<times> ConsumerGroup) list"
  queue_info_id2queue_info :: "(int \<times> QueueInfo) list"
  queue_info_id2ranges :: "(int \<times> (int \<times> int) list) list"
  queue2queue_info_id :: "(int \<times> int) list"
  pub_id2consumer_group_ids :: "(int \<times> int list) list"
  pub_id2queue_info_ids :: "(int \<times> int list) list"
  handle_id2rank :: "(int \<times> int) list"
  freq_infos :: "FreqInfo list"
  replay_infos :: "ReplayInfo list"

text \<open>\<open>m[k]\<close> of a \<open>std::map\<close> whose mapped type is a container: absent means empty.\<close>

definition entry :: "('k \<times> 'a list) list \<Rightarrow> 'k \<Rightarrow> 'a list" where
  "entry m k = (case map_of m k of None \<Rightarrow> [] | Some v \<Rightarrow> v)"

definition insert_id :: "bool \<Rightarrow> int \<Rightarrow> int list \<Rightarrow> int list option" where
  "insert_id need_check i ids = do {
     PHX_ASSERT (need_check \<longrightarrow> i \<notin> set ids);
     Some (set_insert id i ids) }"

definition Rebuild_pub :: "bool \<Rightarrow> Pub \<Rightarrow> TopicConfig \<Rightarrow> TopicConfig option" where
  "Rebuild_pub need_check pub c =
     (if pub_ident pub = 0 then Some c
      else do {
        PHX_ASSERT (need_check \<longrightarrow> map_of (pub_id2pub c) (pub_ident pub) = None);
        cgs \<leftarrow> foldM (insert_id need_check) (pub_consumer_group_ids pub)
                 (entry (pub_id2consumer_group_ids c) (pub_ident pub));
        qis \<leftarrow> foldM (insert_id need_check) (pub_queue_info_ids pub)
                 (entry (pub_id2queue_info_ids c) (pub_ident pub));
        Some (c\<lparr>pub_id2pub := map_emplace (pub_ident pub) pub (pub_id2pub c),
                pub_id2consumer_group_ids := map_assign (pub_ident pub) cgs (pub_id2consumer_group_ids c),
                pub_id2queue_info_ids := map_assign (pub_ident pub) qis (pub_id2queue_info_ids c)\<rparr>) })"

definition Rebuild_consumer_group :: "bool \<Rightarrow> ConsumerGroup \<Rightarrow> TopicConfig \<Rightarrow> TopicConfig option" where
  "Rebuild_consumer_group need_check g c =
     (if cg_id g = 0 then Some c
      else do {
        PHX_ASSERT (need_check \<longrightarrow>
          map_of (consumer_group_id2consumer_group c) (cg_id g) = None);
        Some (c\<lparr>consumer_group_id2consumer_group :=
                  map_emplace (cg_id g) g (consumer_group_id2consumer_group c)\<rparr>) })"

definition parse_range :: "string \<Rightarrow> (int \<times> int) list \<Rightarrow> (int \<times> int) list option" where
  "parse_range s ranges =
     (case StrSplitList s ''-'' of
        [a, b] \<Rightarrow> do {
          first \<leftarrow> stoi a;
          second \<leftarrow> stoi b;
          Some (if first \<le> second then ranges @ [(first, second)] else ranges) }
      | [a] \<Rightarrow> do { v \<leftarrow> stoi a; Some (ranges @ [(v, v)]) }
      | _ \<Rightarrow> Some ranges)"

definition queues_of_ranges :: "(int \<times> int) list \<Rightarrow> int list" where
  "queues_of_ranges ranges = concat (map (\<lambda>(first, second). [first..second]) ranges)"

definition Rebuild_queue_info :: "bool \<Rightarrow> QueueInfo \<Rightarrow> TopicConfig \<Rightarrow> TopicConfig option" where
  "Rebuild_queue_info need_check qi c =
     (if qinfo_id qi = 0 then Some c
      else do {
        PHX_ASSERT (need_check \<longrightarrow> map_of (queue_info_id2queue_info c) (qinfo_id qi) = None);
        ranges \<leftarrow> foldM parse_range (qinfo_ranges qi)
                    (entry (queue_info_id2ranges c) (qinfo_id qi));
        let ranges = sort ranges;
        PHX_ASSERT (\<not> list_ex (\<lambda>(first, second). second = 2 ^ 31 - 1) ranges);
        Some (c\<lparr>queue_info_id2queue_info :=
                  map_emplace (qinfo_id qi) qi (queue_info_id2queue_info c),
                queue_info_id2ranges :=
                  map_assign (qinfo_id qi) ranges (queue_info_id2ranges c),
                queue2queue_info_id :=
                  fold (\<lambda>queue. map_assign queue (qinfo_id qi)) (queues_of_ranges ranges)
                    (queue2queue_info_id c)\<rparr>) })"

definition Rebuild_handle_id :: "bool \<Rightarrow> int \<times> int \<Rightarrow> TopicConfig \<Rightarrow> TopicConfig option" where
  "Rebuild_handle_id need_check = (\<lambda>(i, h) c. do {
     PHX_ASSERT (need_check \<longrightarrow> map_of (handle_id2rank c) h = None);
     Some (c\<lparr>handle_id2rank := map_emplace h i (handle_id2rank c)\<rparr>) })"

definition TopicConfig_Rebuild :: "bool \<Rightarrow> TopicConfig \<Rightarrow> TopicConfig option" where
  "TopicConfig_Rebuild need_check c0 = do {
     let proto = tc_proto c0;
     let c = c0\<lparr>pub_id2pub := [], consumer_group_id2consumer_group := [],
                queue_info_id2queue_info := [], queue_info_id2ranges := [],
                queue2queue_info_id := [], pub_id2consumer_group_ids := [],
                pub_id2queue_info_ids := [], handle_id2rank := [],
                freq_infos := [], replay_infos := []\<rparr>;
     c \<leftarrow> foldM (Rebuild_pub need_check) (tp_pubs proto) c;
     c \<leftarrow> foldM (Rebuild_consumer_group need_check) (tp_consumer_groups proto) c;
     c \<leftarrow> foldM (Rebuild_queue_info need_check) (tp_queue_infos proto) c;
     let c = c\<lparr>freq_infos := tp_freq_infos proto, replay_infos := tp_replay_infos proto\<rparr>;
     let hs = handle_ids (tp_topic proto);
     foldM (Rebuild_handle_id need_check) (zip [0..int (length hs) - 1] hs) c }"

subsection \<open>Lookups of TopicConfig\<close>

definition GetAllPub :: "TopicConfig \<Rightarrow> Pub list" where
  "GetAllPub c = map snd (pub_id2pub c)"

definition GetAllPubID :: "TopicConfig \<Rightarrow> int list" where
  "GetAllPubID c = foldl (\<lambda>s p. set_insert id (fst p) s) [] (pub_id2pub c)"

definition IsValidPubID :: "TopicConfig \<Rightarrow> int \<Rightarrow> bool" where
  "IsValidPubID c pid \<longleftrightarrow> map_of (pub_id2pub c) pid \<noteq> None"

definition GetPubByPubID :: "TopicConfig \<Rightarrow> int \<Rightarrow> RetCode + Pub" where
  "GetPubByPubID c pid =
     (case map_of (pub_id2pub c) pid of None \<Rightarrow> Inl RET_ERR_RANGE_PUB | Some pub \<Rightarrow> Inr pub)"

definition GetConsumerGroupIDsByPubID :: "TopicConfig \<Rightarrow> int \<Rightarrow> RetCode + int list" where
  "GetConsumerGroupIDsByPubID c pid =
     (case GetPubByPubID c pid of
        Inl ret \<Rightarrow> Inl ret
      | Inr pub \<Rightarrow> Inr (foldl (\<lambda>s i. set_insert id i s) [] (pub_consumer_group_ids pub)))"

definition GetAllConsumerGroup :: "TopicConfig \<Rightarrow> ConsumerGroup list" where
  "GetAllConsumerGroup c = map snd (consumer_group_id2consumer_group c)"

definition GetAllConsumerGroupID :: "TopicConfig \<Rightarrow> int list" where
  "GetAllConsumerGroupID c =
     foldl (\<lambda>s p. set_insert id (fst p) s) [] (consumer_group_id2consumer_group c)"

definition IsValidConsumerGroupID :: "TopicConfig \<Rightarrow> int \<Rightarrow> bool" where
  "IsValidConsumerGroupID c g \<longleftrightarrow> map_of (consumer_group_id2consumer_group c) g \<noteq> None"

definition GetConsumerGroupByConsumerGroupID :: "TopicConfig \<Rightarrow> int \<Rightarrow> RetCode + ConsumerGroup" where
  "GetConsumerGroupByConsumerGroupID c g =
     (case map_of (consumer_group_id2consumer_group c) g of
        None \<Rightarrow> Inl RET_ERR_RANGE_CONSUMER_GROUP | Some cg \<Rightarrow> Inr cg)"

fun rank_loop :: "int \<Rightarrow> int list \<Rightarrow> u64 \<Rightarrow> RetCode + u64" where
  "rank_loop qid [] i = Inl RET_ERR_RANGE_QUEUE_INFO"
| "rank_loop qid (q # qs) i = (if qid = q then Inr i else rank_loop qid qs (i + 1))"

definition GetQueueInfoIDRankByPub :: "int \<Rightarrow> Pub option \<Rightarrow> RetCode + u64" where
  "GetQueueInfoIDRankByPub qid pub =
     (case pub of None \<Rightarrow> Inl RET_ERR_UNEXPECTED
      | Some p \<Rightarrow> rank_loop qid (pub_queue_info_ids p) 0)"

definition GetQueueInfoIDRankByPubID :: "TopicConfig \<Rightarrow> int \<Rightarrow> int \<Rightarrow> RetCode + u64" where
  "GetQueueInfoIDRankByPubID c qid pid =
     (case GetPubByPubID c pid of
        Inl ret \<Rightarrow> Inl ret
      | Inr pub \<Rightarrow> GetQueueInfoIDRankByPub qid (Some pub))"

definition in_ranges :: "int \<Rightarrow> (int \<times> int) list \<Rightarrow> bool" where
  "in_ranges queue_id ranges \<longleftrightarrow> list_ex (\<lambda>(first, second). first \<le> queue_id \<and> queue_id \<le> second) ranges"

fun queue_infos_have :: "TopicConfig \<Rightarrow> int \<Rightarrow> int list \<Rightarrow> bool" where
  "queue_infos_have c queue_id [] = False"
| "queue_infos_have c queue_id (qid # qids) =
     (case map_of (queue_info_id2ranges c) qid of
        None \<Rightarrow> False
      | Some ranges \<Rightarrow> if in_ranges queue_id ranges then True else queue_infos_have c queue_id qids)"

definition pub_has_queue :: "TopicConfig \<Rightarrow> int \<Rightarrow> int \<Rightarrow> int \<Rightarrow> bool" where
  "pub_has_queue c queue_id consumer_group_id arg_pub_id =
     (if consumer_group_id \<noteq> -1
         \<and> (case map_of (pub_id2consumer_group_ids c) arg_pub_id of
              None \<Rightarrow> True | Some ids \<Rightarrow> consumer_group_id \<notin> set ids)
      then False
      else case map_of (pub_id2queue_info_ids c) arg_pub_id of
             None \<Rightarrow> False
           | Some queue_info_ids \<Rightarrow> queue_infos_have c queue_id queue_info_ids)"

definition IsValidQueue :: "TopicConfig \<Rightarrow> int \<Rightarrow> int \<Rightarrow> int \<Rightarrow> bool" where
  "IsValidQueue c queue_id pid consumer_group_id =
     (if pid \<noteq> -1 then pub_has_queue c queue_id consumer_group_id pid
      else list_ex (\<lambda>kv. pub_has_queue c queue_id consumer_group_id (fst kv)) (pub_id2pub c))"

definition GetQueuesByQueueInfoID :: "TopicConfig \<Rightarrow> int \<Rightarrow> RetCode + int list" where
  "GetQueuesByQueueInfoID c qid =
     (case map_of (queue_info_id2ranges c) qid of
        None \<Rightarrow> Inl RET_ERR_RANGE_QUEUE_INFO
      | Some ranges \<Rightarrow> Inr (foldl (\<lambda>s q. set_insert id q s) [] (queues_of_ranges ranges)))"

definition GetQueueInfoByQueueInfoID :: "TopicConfig \<Rightarrow> int \<Rightarrow> RetCode + QueueInfo" where
  "GetQueueInfoByQueueInfoID c qid =
     (case map_of (queue_info_id2queue_info c) qid of
        Some qi \<Rightarrow> Inr qi | None \<Rightarrow> Inl RET_ERR_RANGE_QUEUE_INFO)"

definition GetQueueInfoByQueue :: "TopicConfig \<Rightarrow> int \<Rightarrow> RetCode + QueueInfo" where
  "GetQueueInfoByQueue c queue =
     (case map_of (queue2queue_info_id c) queue of
        None \<Rightarrow> Inl RET_ERR_RANGE_QUEUE
      | Some qid \<Rightarrow> GetQueueInfoByQueueInfoID c qid)"

definition GetQueueDelay :: "TopicConfig \<Rightarrow> int \<Rightarrow> RetCode + int" where
  "GetQueueDelay c queue =
     (case GetQueueInfoByQueue c queue of Inl ret \<Rightarrow> Inl ret | Inr qi \<Rightarrow> Inr (qinfo_delay qi))"

definition GetNQueue :: "TopicConfig \<Rightarrow> int \<Rightarrow> RetCode + int" where
  "GetNQueue c qid =
     (case map_of (queue_info_id2ranges c) qid of
        None \<Rightarrow> Inl RET_ERR_RANGE_QUEUE_INFO
      | Some ranges \<Rightarrow> Inr (foldl (\<lambda>n (first, second). n + (second - first + 1)) 0 ranges))"

fun queue_by_rank :: "(int \<times> int) list \<Rightarrow> u64 \<Rightarrow> RetCode + int" where
  "queue_by_rank [] r = Inl RET_ERR_RANGE_RANK"
| "queue_by_rank ((first, second) # ranges) r =
     (let w = word_of_int (second - first + 1)
      in if w \<le> r then queue_by_rank ranges (r - w)
         else Inr (sint (ucast (word_of_int first + r) :: i32)))"

definition GetQueueByRank :: "TopicConfig \<Rightarrow> int \<Rightarrow> u64 \<Rightarrow> RetCode + int" where
  "GetQueueByRank c qid rank =
     (case map_of (queue_info_id2ranges c) qid of
        None \<Rightarrow> Inl RET_ERR_RANGE_QUEUE_INFO
      | Some ranges \<Rightarrow> if ranges = [] then Inl RET_ERR_RANGE_RANK else queue_by_rank ranges rank)"

definition GetQueueByLoopRank :: "TopicConfig \<Rightarrow> int \<Rightarrow> u64 \<Rightarrow> RetCode + int" where
  "GetQueueByLoopRank c qid rank =
     (case GetNQueue c qid of
        Inl ret \<Rightarrow> Inl ret
      | Inr nqueue \<Rightarrow>
          if nqueue = 0 then Inl RET_ERR_NQUEUE_INVALID
          else GetQueueByRank c qid (rank mod word_of_int nqueue))"

definition ShouldSkip :: "TopicConfig \<Rightarrow> QItem \<Rightarrow> int \<Rightarrow> int \<Rightarrow> bool" where
  "ShouldSkip c item consumer_group_id queue_info_id =
     list_ex (\<lambda>s.
       (skip_uin s = 0 \<or> ucast (skip_uin s) = meta_uin (qi_meta item)) \<and>
       (skip_pub_id s = -1 \<or> skip_pub_id s = qi_pub_id item) \<and>
       (skip_handle_id s = -1 \<or> skip_handle_id s = meta_handle_id (qi_meta item)) \<and>
       (skip_consumer_group_id s = -1 \<or> skip_consumer_group_id s = consumer_group_id) \<and>
       (skip_queue_info_id s = -1 \<or> skip_queue_info_id s = queue_info_id))
     (tp_skip_infos (tc_proto c))"

fun queue_info_by_count :: "TopicConfig \<Rightarrow> int list \<Rightarrow> int \<Rightarrow> RetCode + int" where
  "queue_info_by_count c [] cnt = Inl RET_ERR_RANGE_CNT"
| "queue_info_by_count c (qid # qids) cnt =
     (case GetQueueInfoByQueueInfoID c qid of
        Inl _ \<Rightarrow> Inl RET_ERR_RANGE_QUEUE_INFO
      | Inr qi \<Rightarrow>
          if qinfo_count qi \<noteq> -1 \<and> qinfo_count qi \<le> cnt
          then queue_info_by_count c qids (cnt - qinfo_count qi)
          else Inr qid)"

definition GetQueueInfoIDByCount :: "TopicConfig \<Rightarrow> int \<Rightarrow> int \<Rightarrow> RetCode + int" where
  "GetQueueInfoIDByCount c pid cnt =
     (case GetPubByPubID c pid of
        Inl _ \<Rightarrow> Inl RET_ERR_RANGE_PUB
      | Inr pub \<Rightarrow> queue_info_by_count c (pub_queue_info_ids pub) cnt)"

definition GetHandleIDRank :: "TopicConfig \<Rightarrow> int \<Rightarrow> RetCode + int" where
  "GetHandleIDRank c h =
     (case map_of (handle_id2rank c) h of None \<Rightarrow> Inl RET_ERR_RANGE_HANDLE | Some r \<Rightarrow> Inr r)"

definition GetAllFreqInfo :: "TopicConfig \<Rightarrow> FreqInfo list" where
  "GetAllFreqInfo c = freq_infos c"

definition GetAllReplayInfo :: "ReplayInfo list \<Rightarrow> TopicConfig \<Rightarrow> ReplayInfo list \<times> TopicConfig" where
  "GetAllReplayInfo out c = (out @ replay_infos c, c\<lparr>replay_infos := []\<rparr>)"

subsection \<open>Ranges\<close>

definition valid_ranges :: "(int \<times> int) list \<Rightarrow> bool" where
  "valid_ranges ranges \<longleftrightarrow> (\<forall>(first, second) \<in> set ranges. 0 \<le> first \<and> first \<le> second \<and> second < 2 ^ 31 - 1)"

lemma valid_ranges_simps [simp]:
  "valid_ranges []"
  "valid_ranges ((a, b) # rs) \<longleftrightarrow> 0 \<le> a \<and> a \<le> b \<and> b < 2 ^ 31 - 1 \<and> valid_ranges rs"
  by (auto simp: valid_ranges_def)

lemma queues_of_ranges_simps [simp]:
  "queues_of_ranges [] = []"
  "queues_of_ranges ((a, b) # rs) = [a..b] @ queues_of_ranges rs"
  by (auto simp: queues_of_ranges_def)

lemma set_queues_of_ranges: "q \<in> set (queues_of_ranges ranges) \<longleftrightarrow> in_ranges q ranges"
  by (auto simp: queues_of_ranges_def in_ranges_def list_ex_iff)

lemma in_ranges_sort [simp]: "in_ranges q (sort ranges) = in_ranges q ranges"
  by (simp add: in_ranges_def list_ex_iff)

lemma uint_i31: "0 \<le> i \<Longrightarrow> i < 2 ^ 31 \<Longrightarrow> uint (word_of_int i :: u64) = i"
  by (simp add: uint_word_of_int)

lemma sint_ucast_i31:
  assumes "0 \<le> i" "i < 2 ^ 31"
  shows "sint (ucast (word_of_int i :: u64) :: i32) = i"
proof -
  have "(ucast (word_of_int i :: u64) :: i32) = word_of_int i"
    by (rule bit_word_eqI) (auto simp: bit_simps)
  moreover have "sint (word_of_int i :: i32) = i"
    using assms by (simp add: sint_sbintrunc' signed_take_bit_int_eq_self)
  ultimately show ?thesis by simp
qed

lemma queue_by_rank_eq:
  "valid_ranges ranges \<Longrightarrow>
   queue_by_rank ranges r =
     (if unat r < length (queues_of_ranges ranges) then Inr (queues_of_ranges ranges ! unat r)
      else Inl RET_ERR_RANGE_RANK)"
proof (induction ranges r rule: queue_by_rank.induct)
  case (2 first second ranges r)
  let ?w = "second - first + 1"
  have v: "0 \<le> first" "first \<le> second" "second < 2 ^ 31 - 1" "valid_ranges ranges"
    using "2.prems" by simp_all
  have w: "unat (word_of_int ?w :: u64) = nat ?w"
    using v uint_i31[of ?w] by (simp add: unat_eq_nat_uint)
  show ?case
  proof (cases "word_of_int ?w \<le> r")
    case True
    then have le: "nat ?w \<le> unat r" using w by (simp add: word_le_nat_alt)
    have "unat (r - word_of_int ?w) = unat r - nat ?w" using True w by (simp add: unat_sub)
    with True le v "2.IH"[OF refl True v(4)] show ?thesis
      by (simp add: nth_append) linarith
  next
    case False
    then have lt: "unat r < nat ?w" using w by (simp add: word_less_nat_alt not_le)
    have bound: "int (unat r) < second - first + 1" using lt v by linarith
    have "word_of_int first + r = word_of_int (first + int (unat r))" by simp
    then have "sint (ucast (word_of_int first + r) :: i32) = first + int (unat r)"
      using sint_ucast_i31[of "first + int (unat r)"] bound v by simp
    moreover have "[first..second] ! unat r = first + int (unat r)"
      using bound by (intro nth_upto) linarith
    ultimately show ?thesis using False lt v by (simp add: nth_append)
  qed
qed simp

lemma nqueue_length:
  assumes "valid_ranges ranges"
  shows "foldl (\<lambda>n (first, second). n + (second - first + 1)) n ranges = n + int (length (queues_of_ranges ranges))"
  using assms
proof (induction ranges arbitrary: n)
  case (Cons r ranges)
  then show ?case by (cases r) (simp add: valid_ranges_def)
qed simp

text \<open>What a rebuilt configuration satisfies.\<close>

definition wf_queues :: "TopicConfig \<Rightarrow> bool" where
  "wf_queues c \<longleftrightarrow>
     wf_map (queue_info_id2queue_info c) \<and> wf_map (queue_info_id2ranges c) \<and> wf_map (queue2queue_info_id c)
     \<and> (\<forall>qid ranges. map_of (queue_info_id2ranges c) qid = Some ranges \<longrightarrow> sorted ranges \<and> valid_ranges ranges)
     \<and> (\<forall>qid. map_of (queue_info_id2ranges c) qid = None \<longleftrightarrow> map_of (queue_info_id2queue_info c) qid = None)
     \<and> (\<forall>qid qi. map_of (queue_info_id2queue_info c) qid = Some qi \<longrightarrow> qinfo_id qi = qid \<and> qid \<noteq> 0)
     \<and> (\<forall>q qid. map_of (queue2queue_info_id c) q = Some qid \<longrightarrow> in_ranges q (entry (queue_info_id2ranges c) qid))
     \<and> (\<forall>q qid. in_ranges q (entry (queue_info_id2ranges c) qid) \<longrightarrow> map_of (queue2queue_info_id c) q \<noteq> None)"

lemma stoi_bounds: "stoi s = Some v \<Longrightarrow> - (2 ^ 31) \<le> v \<and> v < 2 ^ 31"
  by (auto simp: stoi_def Let_def split: if_splits)

lemma digits_val_nonneg: "\<forall>c \<in> set ds. is_digit c \<Longrightarrow> 0 \<le> digits_val ds"
proof -
  have "0 \<le> (v :: int) \<Longrightarrow> \<forall>c \<in> set ds. is_digit c \<Longrightarrow> 0 \<le> foldl (\<lambda>v c. 10 * v + (of_char c - 48)) v ds" for v
  proof (induction ds arbitrary: v)
    case (Cons d ds)
    have "(48 :: int) \<le> of_char d"
    proof -
      have "CHR ''0'' \<le> d" using Cons.prems by (simp add: is_digit_def)
      then have "(of_char (CHR ''0'') :: nat) \<le> of_char d" by (simp add: less_eq_char_def)
      then have "int 48 \<le> int (of_char d)" by simp
      then show ?thesis unfolding of_nat_of_char by simp
    qed
    with Cons show ?case by simp
  qed simp
  then show "\<forall>c \<in> set ds. is_digit c \<Longrightarrow> 0 \<le> digits_val ds" by (simp add: digits_val_def)
qed

lemma stoi_nonneg: "stoi s = Some v \<Longrightarrow> CHR ''-'' \<notin> set s \<Longrightarrow> 0 \<le> v"
proof -
  assume v: "stoi s = Some v" and no: "CHR ''-'' \<notin> set s"
  have "hd (dropWhile is_space s) \<noteq> CHR ''-''" if "dropWhile is_space s \<noteq> []"
    using that no by (metis hd_in_set set_dropWhileD)
  moreover have "0 \<le> digits_val (takeWhile is_digit t)" for t
    by (rule digits_val_nonneg) (auto dest: set_takeWhileD)
  ultimately show "0 \<le> v" using v by (auto simp: stoi_def Let_def split: if_splits)
qed

lemma StrSplitList_no_delimiter: "r \<in> set (StrSplitList s ds) \<Longrightarrow> d \<in> set ds \<Longrightarrow> d \<notin> set r"
proof (induction s ds rule: StrSplitList.induct)
  case (1 str delimiters)
  from "1.prems" show ?case
    by (subst (asm) StrSplitList.simps)
      (auto simp: Let_def split: if_splits dest: set_takeWhileD intro: "1.IH"[OF refl refl refl, THEN notE])
qed

lemma fold_map_assign:
  assumes "wf_map m"
  shows "wf_map (fold (\<lambda>q. map_assign q v) qs m)"
    and "map_of (fold (\<lambda>q. map_assign q v) qs m) = (\<lambda>q. if q \<in> set qs then Some v else map_of m q)"
proof -
  have "wf_map (fold (\<lambda>q. map_assign q v) qs m) \<and>
    map_of (fold (\<lambda>q. map_assign q v) qs m) = (\<lambda>q. if q \<in> set qs then Some v else map_of m q)"
    using assms
    by (induction qs arbitrary: m) (auto simp: map_of_assign wf_map_assign fun_eq_iff)
  then show "wf_map (fold (\<lambda>q. map_assign q v) qs m)"
    and "map_of (fold (\<lambda>q. map_assign q v) qs m) = (\<lambda>q. if q \<in> set qs then Some v else map_of m q)"
    by simp_all
qed

definition parsed_ranges :: "(int \<times> int) list \<Rightarrow> bool" where
  "parsed_ranges ranges \<longleftrightarrow> (\<forall>(first, second) \<in> set ranges. 0 \<le> first \<and> first \<le> second \<and> second < 2 ^ 31)"

lemma parse_range_ok:
  assumes "parse_range s ranges = Some ranges'" and "parsed_ranges ranges"
  shows "parsed_ranges ranges' \<and> set ranges \<subseteq> set ranges'"
proof -
  have nn: "0 \<le> v \<and> v < 2 ^ 31" if "a \<in> set (StrSplitList s ''-'')" "stoi a = Some v" for a v
    using stoi_nonneg[OF that(2)] stoi_bounds[OF that(2)]
      StrSplitList_no_delimiter[OF that(1), of "CHR ''-''"] by simp
  show ?thesis
  proof (cases "StrSplitList s ''-''")
    case Nil
    with assms show ?thesis by (simp add: parse_range_def)
  next
    case c1: (Cons a r)
    show ?thesis
    proof (cases r)
      case Nil
      with c1 assms nn[of a] show ?thesis
        by (auto simp: parse_range_def parsed_ranges_def Option.bind_eq_Some_conv)
    next
      case c2: (Cons b r')
      with c1 assms nn[of a] nn[of b] show ?thesis
        by (cases r') (auto simp: parse_range_def parsed_ranges_def Option.bind_eq_Some_conv split: if_splits)
    qed
  qed
qed

lemma foldM_parse_range_ok:
  assumes "foldM parse_range ss ranges = Some ranges'" and "parsed_ranges ranges"
  shows "parsed_ranges ranges' \<and> set ranges \<subseteq> set ranges'"
  using foldM_invariant[OF _ assms(1), of "\<lambda>r. parsed_ranges r \<and> set ranges \<subseteq> set r"] assms(2)
  by (meson order_trans parse_range_ok order_refl)

lemma PHX_ASSERT_Some [simp]: "PHX_ASSERT b = Some u \<longleftrightarrow> b"
  by (simp add: PHX_ASSERT_def)

lemma in_ranges_mono: "set a \<subseteq> set b \<Longrightarrow> in_ranges q a \<Longrightarrow> in_ranges q b"
  by (auto simp: in_ranges_def list_ex_iff)

lemma Rebuild_queue_info_cases:
  assumes r: "Rebuild_queue_info need_check qi c = Some c'"
  obtains (skip) "qinfo_id qi = 0" "c' = c"
  | (add) ranges where "qinfo_id qi \<noteq> 0"
      "foldM parse_range (qinfo_ranges qi) (entry (queue_info_id2ranges c) (qinfo_id qi)) = Some ranges"
      "\<not> list_ex (\<lambda>(first, second). second = 2 ^ 31 - 1) (sort ranges)"
      "c' = c\<lparr>queue_info_id2queue_info := map_emplace (qinfo_id qi) qi (queue_info_id2queue_info c),
        queue_info_id2ranges := map_assign (qinfo_id qi) (sort ranges) (queue_info_id2ranges c),
        queue2queue_info_id := fold (\<lambda>q. map_assign q (qinfo_id qi)) (queues_of_ranges (sort ranges))
          (queue2queue_info_id c)\<rparr>"
proof (cases "qinfo_id qi = 0")
  case True
  with r skip show ?thesis by (simp add: Rebuild_queue_info_def)
next
  case False
  let ?f = "foldM parse_range (qinfo_ranges qi) (entry (queue_info_id2ranges c) (qinfo_id qi))"
  obtain ranges where rs: "?f = Some ranges"
    using r False by (cases ?f) (simp_all add: Rebuild_queue_info_def PHX_ASSERT_def split: if_splits)
  show ?thesis
    by (rule add[OF False rs])
      (use r False rs in \<open>simp_all add: Rebuild_queue_info_def PHX_ASSERT_def Let_def split: if_splits\<close>)
qed

lemma wf_queuesD:
  assumes "wf_queues c"
  shows "wf_map (queue_info_id2queue_info c)" "wf_map (queue_info_id2ranges c)" "wf_map (queue2queue_info_id c)"
    and "map_of (queue_info_id2ranges c) qid = Some ranges \<Longrightarrow> sorted ranges \<and> valid_ranges ranges"
    and "map_of (queue_info_id2ranges c) qid = None \<longleftrightarrow> map_of (queue_info_id2queue_info c) qid = None"
    and "map_of (queue_info_id2queue_info c) qid = Some qi \<Longrightarrow> qinfo_id qi = qid \<and> qid \<noteq> 0"
    and "map_of (queue2queue_info_id c) q = Some qid \<Longrightarrow> in_ranges q (entry (queue_info_id2ranges c) qid)"
    and "in_ranges q (entry (queue_info_id2ranges c) qid) \<Longrightarrow> map_of (queue2queue_info_id c) q \<noteq> None"
  using assms unfolding wf_queues_def by blast+

lemma wf_queues_entry: "wf_queues c \<Longrightarrow> sorted (entry (queue_info_id2ranges c) qid) \<and> valid_ranges (entry (queue_info_id2ranges c) qid)"
  using wf_queuesD(4)[of c qid] by (auto simp: entry_def split: option.split)

lemma wf_queues_Rebuild_queue_info:
  assumes wf: "wf_queues c" and r: "Rebuild_queue_info need_check qi c = Some c'"
  shows "wf_queues c'"
  using r
proof (cases rule: Rebuild_queue_info_cases)
  case skip
  with wf show ?thesis by simp
next
  case (add ranges)
  let ?id = "qinfo_id qi" and ?old = "entry (queue_info_id2ranges c) (qinfo_id qi)"
  note wfs = wf_queuesD(1-3)[OF wf]
  have "parsed_ranges ?old"
    using wf_queues_entry[OF wf, of ?id] by (fastforce simp: valid_ranges_def parsed_ranges_def)
  from foldM_parse_range_ok[OF add(2) this] have pr: "parsed_ranges ranges" "set ?old \<subseteq> set ranges" by auto
  have "valid_ranges (sort ranges)"
    using pr(1) add(3) by (fastforce simp: valid_ranges_def parsed_ranges_def list_ex_iff)
  moreover have e: "entry (map_assign ?id (sort ranges) (queue_info_id2ranges c)) k =
      (if k = ?id then sort ranges else entry (queue_info_id2ranges c) k)" for k
    using wfs by (simp add: entry_def map_of_assign)
  moreover have "in_ranges q (entry (queue_info_id2ranges c) k) \<Longrightarrow> k = ?id \<Longrightarrow> in_ranges q ranges" for q k
    using pr(2) in_ranges_mono by blast
  ultimately show ?thesis
    using wf add(1) unfolding add(4)
    by (simp add: wf_queues_def wf_map_emplace wf_map_assign fold_map_assign[OF wfs(3)] map_of_assign[OF wfs(2)]
        map_of_emplace[OF wfs(1)] set_queues_of_ranges e split: option.split) blast
qed

definition wf_pubs :: "TopicConfig \<Rightarrow> bool" where
  "wf_pubs c \<longleftrightarrow>
     wf_map (pub_id2pub c) \<and> wf_map (pub_id2consumer_group_ids c) \<and> wf_map (pub_id2queue_info_ids c)
     \<and> (\<forall>pid pub. map_of (pub_id2pub c) pid = Some pub \<longrightarrow> pub_ident pub = pid \<and> pid \<noteq> 0
          \<and> set (pub_consumer_group_ids pub) \<subseteq> set (entry (pub_id2consumer_group_ids c) pid)
          \<and> set (pub_queue_info_ids pub) \<subseteq> set (entry (pub_id2queue_info_ids c) pid))
     \<and> (\<forall>pid. map_of (pub_id2queue_info_ids c) pid = None \<longleftrightarrow> map_of (pub_id2pub c) pid = None)
     \<and> (\<forall>pid. map_of (pub_id2consumer_group_ids c) pid = None \<longleftrightarrow> map_of (pub_id2pub c) pid = None)
     \<and> (\<forall>pid. sorted_wrt (<) (entry (pub_id2consumer_group_ids c) pid))
     \<and> (\<forall>pid. sorted_wrt (<) (entry (pub_id2queue_info_ids c) pid))"

lemma set_set_insert_id [simp]: "set (set_insert id x xs) = insert x (set xs)"
  by (induction xs) auto

lemma sorted_set_insert_id [wf_intros]: "sorted_wrt (<) xs \<Longrightarrow> sorted_wrt (<) (set_insert id (x :: int) xs)"
  by (induction xs) auto

lemma insert_id_Some: "insert_id nc i s = Some s' \<longleftrightarrow> (nc \<longrightarrow> i \<notin> set s) \<and> s' = set_insert id i s"
  by (auto simp: insert_id_def Option.bind_eq_Some_conv)

lemma foldM_insert_id:
  "foldM (insert_id nc) ids s = Some s' \<Longrightarrow> sorted_wrt (<) s \<Longrightarrow>
   sorted_wrt (<) s' \<and> set s' = set s \<union> set ids"
proof (induction ids arbitrary: s)
  case (Cons i ids)
  then have "foldM (insert_id nc) ids (set_insert id i s) = Some s'"
    by (auto simp: insert_id_Some Option.bind_eq_Some_conv)
  with Cons.IH[OF this] Cons.prems(2) show ?case by (auto simp: sorted_set_insert_id)
qed simp

lemma Rebuild_pub_cases:
  assumes r: "Rebuild_pub need_check pub c = Some c'"
  obtains (skip) "pub_ident pub = 0" "c' = c"
  | (add) cgs qis where "pub_ident pub \<noteq> 0"
      "foldM (insert_id need_check) (pub_consumer_group_ids pub)
         (entry (pub_id2consumer_group_ids c) (pub_ident pub)) = Some cgs"
      "foldM (insert_id need_check) (pub_queue_info_ids pub)
         (entry (pub_id2queue_info_ids c) (pub_ident pub)) = Some qis"
      "c' = c\<lparr>pub_id2pub := map_emplace (pub_ident pub) pub (pub_id2pub c),
        pub_id2consumer_group_ids := map_assign (pub_ident pub) cgs (pub_id2consumer_group_ids c),
        pub_id2queue_info_ids := map_assign (pub_ident pub) qis (pub_id2queue_info_ids c)\<rparr>"
proof (cases "pub_ident pub = 0")
  case True
  with r skip show ?thesis by (simp add: Rebuild_pub_def)
next
  case False
  let ?f = "foldM (insert_id need_check) (pub_consumer_group_ids pub)
         (entry (pub_id2consumer_group_ids c) (pub_ident pub))"
    and ?g = "foldM (insert_id need_check) (pub_queue_info_ids pub)
         (entry (pub_id2queue_info_ids c) (pub_ident pub))"
  obtain cgs where cgs: "?f = Some cgs"
    using r False by (cases ?f) (simp_all add: Rebuild_pub_def PHX_ASSERT_def split: if_splits)
  obtain qis where qis: "?g = Some qis"
    using r False cgs by (cases ?g) (simp_all add: Rebuild_pub_def PHX_ASSERT_def split: if_splits)
  show ?thesis
    by (rule add[OF False cgs qis])
      (use r False cgs qis in \<open>simp add: Rebuild_pub_def PHX_ASSERT_def Let_def split: if_splits\<close>)
qed

lemma wf_pubs_Rebuild_pub:
  assumes wf: "wf_pubs c" and r: "Rebuild_pub need_check pub c = Some c'"
  shows "wf_pubs c'"
  using r
proof (cases rule: Rebuild_pub_cases)
  case skip
  with wf show ?thesis by simp
next
  case (add cgs qis)
  have wfs: "wf_map (pub_id2pub c)" "wf_map (pub_id2consumer_group_ids c)"
    "wf_map (pub_id2queue_info_ids c)" using wf by (simp_all add: wf_pubs_def)
  have "sorted_wrt (<) cgs \<and> set cgs = set (entry (pub_id2consumer_group_ids c) (pub_ident pub)) \<union> set (pub_consumer_group_ids pub)"
    "sorted_wrt (<) qis \<and> set qis = set (entry (pub_id2queue_info_ids c) (pub_ident pub)) \<union> set (pub_queue_info_ids pub)"
    using foldM_insert_id[OF add(2)] foldM_insert_id[OF add(3)] wf by (simp_all add: wf_pubs_def)
  moreover have "entry (map_assign (pub_ident pub) cgs (pub_id2consumer_group_ids c)) k =
      (if k = pub_ident pub then cgs else entry (pub_id2consumer_group_ids c) k)"
    "entry (map_assign (pub_ident pub) qis (pub_id2queue_info_ids c)) k =
      (if k = pub_ident pub then qis else entry (pub_id2queue_info_ids c) k)" for k
    using wfs by (simp_all add: entry_def map_of_assign)
  ultimately show ?thesis
    using wf add(1) unfolding add(4)
    by (simp add: wf_pubs_def wf_map_emplace wf_map_assign map_of_assign[OF wfs(2)] map_of_assign[OF wfs(3)]
        map_of_emplace[OF wfs(1)] split: option.split) blast
qed

lemma Rebuild_pub_frame:
  "Rebuild_pub nc p c = Some c' \<Longrightarrow> wf_queues c' = wf_queues c \<and> tc_proto c' = tc_proto c"
  by (erule Rebuild_pub_cases) (simp_all add: wf_queues_def)

lemma Rebuild_queue_info_frame:
  "Rebuild_queue_info nc qi c = Some c' \<Longrightarrow> wf_pubs c' = wf_pubs c \<and> tc_proto c' = tc_proto c"
  by (erule Rebuild_queue_info_cases) (simp_all add: wf_pubs_def)

lemma Rebuild_consumer_group_frame:
  assumes "Rebuild_consumer_group nc g c = Some c'"
  shows "wf_queues c' = wf_queues c \<and> wf_pubs c' = wf_pubs c \<and> tc_proto c' = tc_proto c"
proof -
  have "\<exists>m. c' = c\<lparr>consumer_group_id2consumer_group := m\<rparr>"
    using assms by (cases c) (auto simp: Rebuild_consumer_group_def PHX_ASSERT_def split: if_splits)
  then show ?thesis by (elim exE) (simp add: wf_queues_def wf_pubs_def)
qed

lemma Rebuild_handle_id_frame:
  assumes "Rebuild_handle_id nc h c = Some c'"
  shows "wf_queues c' = wf_queues c \<and> wf_pubs c' = wf_pubs c \<and> tc_proto c' = tc_proto c"
proof -
  have "\<exists>m. c' = c\<lparr>handle_id2rank := m\<rparr>"
    using assms by (cases h) (auto simp: Rebuild_handle_id_def PHX_ASSERT_def split: if_splits)
  then show ?thesis by (elim exE) (simp add: wf_queues_def wf_pubs_def)
qed

lemmas Rebuild_frames =
  Rebuild_pub_frame Rebuild_consumer_group_frame Rebuild_queue_info_frame Rebuild_handle_id_frame

lemma Rebuild_wf:
  assumes "TopicConfig_Rebuild nc c0 = Some c"
  shows "wf_pubs c \<and> wf_queues c \<and> tc_proto c = tc_proto c0"
proof -
  let ?I = "\<lambda>c. wf_pubs c \<and> wf_queues c \<and> tc_proto c = tc_proto c0"
  let ?c0 = "c0\<lparr>pub_id2pub := [], consumer_group_id2consumer_group := [],
                queue_info_id2queue_info := [], queue_info_id2ranges := [],
                queue2queue_info_id := [], pub_id2consumer_group_ids := [],
                pub_id2queue_info_ids := [], handle_id2rank := [],
                freq_infos := [], replay_infos := []\<rparr>"
  let ?p = "tc_proto c0"
  let ?hs = "zip [0..int (length (handle_ids (tp_topic ?p))) - 1] (handle_ids (tp_topic ?p))"
  obtain c1 where c1: "foldM (Rebuild_pub nc) (tp_pubs ?p) ?c0 = Some c1"
    using assms by (cases "foldM (Rebuild_pub nc) (tp_pubs ?p) ?c0") (simp_all add: TopicConfig_Rebuild_def)
  obtain c2 where c2: "foldM (Rebuild_consumer_group nc) (tp_consumer_groups ?p) c1 = Some c2"
    using assms c1 by (cases "foldM (Rebuild_consumer_group nc) (tp_consumer_groups ?p) c1")
      (simp_all add: TopicConfig_Rebuild_def)
  obtain c3 where c3: "foldM (Rebuild_queue_info nc) (tp_queue_infos ?p) c2 = Some c3"
    using assms c1 c2 by (cases "foldM (Rebuild_queue_info nc) (tp_queue_infos ?p) c2")
      (simp_all add: TopicConfig_Rebuild_def)
  have c4: "foldM (Rebuild_handle_id nc) ?hs
       (c3\<lparr>freq_infos := tp_freq_infos ?p, replay_infos := tp_replay_infos ?p\<rparr>) = Some c"
    using assms c1 c2 c3 by (simp add: TopicConfig_Rebuild_def Let_def)
  have "?I ?c0" by (simp add: wf_pubs_def wf_queues_def entry_def in_ranges_def)
  with c1 have "?I c1"
    by (rule foldM_invariant[rotated]) (use wf_pubs_Rebuild_pub Rebuild_frames(1) in metis)
  with c2 have "?I c2"
    by (rule foldM_invariant[rotated]) (use Rebuild_frames(2) in metis)
  with c3 have "?I c3"
    by (rule foldM_invariant[rotated]) (use wf_queues_Rebuild_queue_info Rebuild_frames(3) in metis)
  then have "?I (c3\<lparr>freq_infos := tp_freq_infos ?p, replay_infos := tp_replay_infos ?p\<rparr>)"
    by (simp add: wf_pubs_def wf_queues_def)
  with c4 show ?thesis
    by (rule foldM_invariant[rotated]) (use Rebuild_frames(4) in metis)
qed

lemma GetQueueInfoByQueue_wf:
  assumes "wf_queues c"
  shows "(\<exists>qi. GetQueueInfoByQueue c q = Inr qi \<and> in_ranges q (entry (queue_info_id2ranges c) (qinfo_id qi)))
    \<longleftrightarrow> (\<exists>qid. in_ranges q (entry (queue_info_id2ranges c) qid))"
proof
  assume "\<exists>qid. in_ranges q (entry (queue_info_id2ranges c) qid)"
  then obtain qid0 where "in_ranges q (entry (queue_info_id2ranges c) qid0)" ..
  then obtain qid where "map_of (queue2queue_info_id c) q = Some qid"
    using wf_queuesD(8)[OF assms] by fastforce
  moreover from this have r: "in_ranges q (entry (queue_info_id2ranges c) qid)"
    using wf_queuesD(7)[OF assms] by blast
  then have "map_of (queue_info_id2ranges c) qid \<noteq> None"
    by (auto simp: entry_def in_ranges_def split: option.splits)
  then obtain qi where "map_of (queue_info_id2queue_info c) qid = Some qi" "qinfo_id qi = qid"
    using wf_queuesD(5,6)[OF assms, of qid] by (cases "map_of (queue_info_id2queue_info c) qid") auto
  ultimately show "\<exists>qi. GetQueueInfoByQueue c q = Inr qi \<and> in_ranges q (entry (queue_info_id2ranges c) (qinfo_id qi))"
    using r by (simp add: GetQueueInfoByQueue_def GetQueueInfoByQueueInfoID_def)
qed blast

lemma queue_infos_have_in_ranges:
  "queue_infos_have c q qids \<Longrightarrow> \<exists>qid \<in> set qids. in_ranges q (entry (queue_info_id2ranges c) qid)"
proof (induction qids)
  case (Cons qid qids)
  then obtain ranges where "map_of (queue_info_id2ranges c) qid = Some ranges"
    "in_ranges q ranges \<or> queue_infos_have c q qids" by (auto split: option.splits if_splits)
  with Cons.IH show ?case by (auto simp: entry_def)
qed simp

lemma pub_has_queue_in_ranges:
  "pub_has_queue c q g p \<Longrightarrow> \<exists>qid \<in> set (entry (pub_id2queue_info_ids c) p). in_ranges q (entry (queue_info_id2ranges c) qid)"
  by (auto simp: pub_has_queue_def entry_def dest!: queue_infos_have_in_ranges split: if_splits option.splits)

lemma IsValidQueue_in_ranges:
  "IsValidQueue c q p g \<Longrightarrow> \<exists>qid. in_ranges q (entry (queue_info_id2ranges c) qid)"
  unfolding IsValidQueue_def list_ex_iff
  by (auto dest!: pub_has_queue_in_ranges split: if_splits)

subsection \<open>The sample configuration\<close>

definition Topic_default :: Topic where
  "Topic_default = \<lparr>topic_ident = 0, handle_ids = [], items_byte_size_limit = 2097152,
     batch_limit = 100, store_make_cp_interval_s = 10, store_sync_interval_s = 5,
     store_adjust_master_rate_time_interval_s = 10, store_get_loop_max_time_ms = 20,
     store_paxos_propose_timeout_ms = 1500, store_paxos_max_hold_threads = 200,
     store_paxos_master_lease = 5000, store_paxos_propose_wait_time_threshold_ms = 800,
     store_paxos_log_sync = 1, store_paxos_batch_count = 20, store_paxos_batch_delay_time_ms = 20,
     store_paxos_fsync_interval = 0, store_paxos_hold_log_count = 100000,
     store_adjust_min_master_rate = 100, store_adjust_max_master_rate = 100,
     lock_adjust_max_master_rate = 100, lock_paxos_fsync_interval = 0,
     consumer_lock_lease_time_s = 30, consumer_max_mem_size_mb_per_proc = 300,
     consumer_ignore_consumer_group_ids = [], consumer_lock_interval_s = 20,
     consumer_max_loop_per_proc = 0, producer_retry_switch_store = 1, producer_nretry_raw_add = 0,
     producer_retry_switch_queue = 1, producer_batch_delay_time_ms = 20,
     scheduler_get_scale_interval_s = 10, scheduler_max_load = 80,
     scheduler_max_mean_load_percent = 150, scheduler_max_init_weight_percent = 200,
     scheduler_load_sticky = 5, scheduler_weight_sticky = 500,
     scheduler_load_balance_interval_s = 60, scheduler_lock_lease_time_s = 20,
     scheduler_renew_lock_interval_s = 5, scheduler_hash_keep_time_s = 20,
     scheduler_master_ip = [], scheduler_master_port = 0,
     scheduler_lock_key = ''__scheduler__.__master__'', scheduler_load_use_proc_used_ratio = 0,
     scheduler_use_init_weight = 1, lock_adjust_master_rate_time_interval_s = 1,
     lock_paxos_propose_timeout_ms = 1500, lock_paxos_max_hold_threads = 200,
     lock_paxos_master_lease = 5000, lock_paxos_propose_wait_time_threshold_ms = 800,
     lock_paxos_log_sync = 1, lock_paxos_batch_count = 20, lock_paxos_batch_delay_time_ms = 20,
     lock_paxos_nr_hold_log = 100000\<rparr>"

definition sample_queue_info :: "int \<Rightarrow> string \<Rightarrow> int \<Rightarrow> int \<Rightarrow> QueueInfo" where
  "sample_queue_info i r cnt delay = \<lparr>qinfo_id = i, qinfo_ranges = [r], qinfo_handle_by_random_uin = 0,
     qinfo_sleep_us_per_get = 0, qinfo_sleep_us_on_get_fail = 1000000, qinfo_sleep_us_on_get_no_item = 200000,
     qinfo_sleep_us_on_get_size_too_small = 20000, qinfo_get_size_too_small_threshold = 5, qinfo_drop_all = 0,
     qinfo_delay = delay, qinfo_count = cnt\<rparr>"

definition TopicConfig_ReadConfig :: TopicConfigProto where
  "TopicConfig_ReadConfig =
     \<lparr>tp_topic = Topic_default\<lparr>topic_ident := 1000\<rparr>,
      tp_queue_infos = [sample_queue_info 1 ''0-9'' 1 0, sample_queue_info 2 ''10-19'' 1 0,
        sample_queue_info 3 ''1000-1009'' 100 10, sample_queue_info 4 ''1010-1019'' (-1) 20],
      tp_pubs = [\<lparr>pub_ident = 1, pub_queue_info_ids = [1, 3], pub_consumer_group_ids = [1, 2]\<rparr>,
        \<lparr>pub_ident = 2, pub_queue_info_ids = [2, 4], pub_consumer_group_ids = [2]\<rparr>],
      tp_consumer_groups = [\<lparr>cg_id = 1, cg_use_dynamic_scale = 0, cg_skip_lock = 1\<rparr>,
        \<lparr>cg_id = 2, cg_use_dynamic_scale = 0, cg_skip_lock = 1\<rparr>],
      tp_skip_infos = [], tp_freq_infos = [], tp_replay_infos = []\<rparr>"

definition TopicConfig_of :: "TopicConfigProto \<Rightarrow> TopicConfig" where
  "TopicConfig_of proto = \<lparr>tc_proto = proto, tc_last_mod_time = 0, pub_id2pub = [],
     consumer_group_id2consumer_group = [], queue_info_id2queue_info = [], queue_info_id2ranges = [],
     queue2queue_info_id = [], pub_id2consumer_group_ids = [], pub_id2queue_info_ids = [],
     handle_id2rank = [], freq_infos = [], replay_infos = []\<rparr>"

definition sample_topic :: TopicConfig where
  "sample_topic = the (TopicConfig_Rebuild True (TopicConfig_of TopicConfig_ReadConfig))"

lemma sample_topic_Rebuild:
  "TopicConfig_Rebuild True (TopicConfig_of TopicConfig_ReadConfig) = Some sample_topic"
proof -
  have "TopicConfig_Rebuild True (TopicConfig_of TopicConfig_ReadConfig) \<noteq> None"
    by code_simp
  then show ?thesis by (simp add: sample_topic_def)
qed

lemma sample_topic_lookups:
  "IsValidQueue sample_topic 1005 1 2" "GetNQueue sample_topic 3 = Inr 10"
  "GetPubByPubID sample_topic 1 \<noteq> Inl RET_ERR_RANGE_PUB"
  by code_simp+

text \<open>In a configuration that \<open>Rebuild\<close> has accepted, every queue that \<open>IsValidQueue\<close> lets
  through (for any pub and consumer group) has a queue info, and that queue info's ranges
  contain the queue: \<open>BaseMgr::Add\<close> and \<open>Get\<close> find the parameters of every valid queue.\<close>

theorem Rebuild_valid_queue_has_info:
  assumes "TopicConfig_Rebuild need_check c0 = Some c" and "IsValidQueue c q pid g"
  shows "\<exists>qi. GetQueueInfoByQueue c q = Inr qi \<and> in_ranges q (entry (queue_info_id2ranges c) (qinfo_id qi))"
  using GetQueueInfoByQueue_wf[of c q] Rebuild_wf[OF assms(1)] IsValidQueue_in_ranges[OF assms(2)] by blast

theorem Rebuild_valid_queue_has_info_witness:
  "\<exists>qi. GetQueueInfoByQueue sample_topic 1005 = Inr qi
     \<and> in_ranges 1005 (entry (queue_info_id2ranges sample_topic) (qinfo_id qi))"
  by (rule Rebuild_valid_queue_has_info[OF sample_topic_Rebuild sample_topic_lookups(1)])

text \<open>\<open>GetQueueByLoopRank\<close> is total on a queue info with queues and enumerates them: for
  every rank it returns the queue at position \<open>rank mod nqueue\<close> of the queue info's ranges, so
  consecutive ranks visit all queues in turn. (The number of queues fits the \<open>int\<close> it is
  counted in.)\<close>

theorem GetQueueByLoopRank_enumerates:
  assumes "TopicConfig_Rebuild need_check c0 = Some c"
    and "GetNQueue c qid = Inr n" and "0 < n" and "n < 2 ^ 31"
  shows "\<exists>ranges. map_of (queue_info_id2ranges c) qid = Some ranges
     \<and> n = int (length (queues_of_ranges ranges))
     \<and> GetQueueByLoopRank c qid rank = Inr (queues_of_ranges ranges ! (unat rank mod nat n))
     \<and> in_ranges (queues_of_ranges ranges ! (unat rank mod nat n)) ranges"
proof -
  obtain ranges where r: "map_of (queue_info_id2ranges c) qid = Some ranges"
    using assms(2) by (auto simp: GetNQueue_def split: option.splits)
  then have v: "valid_ranges ranges"
    using wf_queuesD(4) Rebuild_wf[OF assms(1)] by blast
  have n: "n = int (length (queues_of_ranges ranges))"
    using assms(2) r nqueue_length[OF v, of 0] by (simp add: GetNQueue_def)
  let ?i = "unat rank mod nat n"
  have "unat (word_of_int n :: u64) = nat n"
    using uint_i31[of n] assms(3,4) by (simp add: unat_eq_nat_uint)
  then have i: "unat (rank mod word_of_int n) = ?i" by (simp add: unat_mod)
  have lt: "?i < length (queues_of_ranges ranges)" using n assms(3) by simp
  then have "GetQueueByRank c qid (rank mod word_of_int n) = Inr (queues_of_ranges ranges ! ?i)"
    using r queue_by_rank_eq[OF v, of "rank mod word_of_int n"] i
    by (auto simp: GetQueueByRank_def)
  then have "GetQueueByLoopRank c qid rank = Inr (queues_of_ranges ranges ! ?i)"
    using assms(2,3) by (simp add: GetQueueByLoopRank_def)
  then show ?thesis
    using r n lt set_queues_of_ranges[of "queues_of_ranges ranges ! ?i" ranges] by simp
qed

theorem GetQueueByLoopRank_enumerates_witness:
  "\<exists>ranges. map_of (queue_info_id2ranges sample_topic) 3 = Some ranges
     \<and> GetQueueByLoopRank sample_topic 3 1234 = Inr (queues_of_ranges ranges ! 4)"
  using GetQueueByLoopRank_enumerates[OF sample_topic_Rebuild sample_topic_lookups(2), of 1234] by auto

lemma queue_info_by_count_split:
  "queue_info_by_count c qids cnt = Inr qid \<Longrightarrow>
   \<exists>pre post qi. qids = pre @ qid # post
     \<and> (\<forall>p \<in> set pre. \<exists>i. GetQueueInfoByQueueInfoID c p = Inr i \<and> qinfo_count i \<noteq> -1)
     \<and> GetQueueInfoByQueueInfoID c qid = Inr qi
     \<and> (let spent = sum_list (map (\<lambda>p. case GetQueueInfoByQueueInfoID c p of Inr i \<Rightarrow> qinfo_count i | _ \<Rightarrow> 0) pre)
        in (pre \<noteq> [] \<longrightarrow> spent \<le> cnt) \<and> (qinfo_count qi = -1 \<or> cnt < spent + qinfo_count qi))"
proof (induction qids arbitrary: cnt)
  case (Cons q qids)
  show ?case
  proof (cases "GetQueueInfoByQueueInfoID c q")
    case (Inl e)
    with Cons.prems show ?thesis by simp
  next
    case (Inr i)
    show ?thesis
    proof (cases "qinfo_count i \<noteq> -1 \<and> qinfo_count i \<le> cnt")
      case True
      with Cons.prems Inr have "queue_info_by_count c qids (cnt - qinfo_count i) = Inr qid" by simp
      from Cons.IH[OF this] obtain pre post qi where
        *: "qids = pre @ qid # post" "\<forall>p \<in> set pre. \<exists>i. GetQueueInfoByQueueInfoID c p = Inr i \<and> qinfo_count i \<noteq> -1"
        "GetQueueInfoByQueueInfoID c qid = Inr qi"
        "let spent = sum_list (map (\<lambda>p. case GetQueueInfoByQueueInfoID c p of Inr i \<Rightarrow> qinfo_count i | _ \<Rightarrow> 0) pre)
         in (pre \<noteq> [] \<longrightarrow> spent \<le> cnt - qinfo_count i)
            \<and> (qinfo_count qi = -1 \<or> cnt - qinfo_count i < spent + qinfo_count qi)" by blast
      then show ?thesis
        using Inr True by (intro exI[of _ "q # pre"] exI[of _ post] exI[of _ qi]) (auto simp: Let_def)
    next
      case False
      with Cons.prems Inr have "qid = q" by auto
      with False Inr show ?thesis
        by (intro exI[of _ "[]"] exI[of _ qids] exI[of _ i]) auto
    qed
  qed
qed simp

text \<open>Retry routing: \<open>GetQueueInfoIDByCount\<close> sends the attempt number \<open>cnt\<close> to the queue
  info of the pub at which the counts of the earlier queue infos, none of them unlimited, are
  used up and its own count (\<open>-1\<close> is unlimited) is not.\<close>

theorem GetQueueInfoIDByCount_routes:
  assumes "GetQueueInfoIDByCount c pid cnt = Inr qid"
  shows "\<exists>pub pre post qi. GetPubByPubID c pid = Inr pub \<and> pub_queue_info_ids pub = pre @ qid # post
     \<and> (\<forall>p \<in> set pre. \<exists>i. GetQueueInfoByQueueInfoID c p = Inr i \<and> qinfo_count i \<noteq> -1)
     \<and> GetQueueInfoByQueueInfoID c qid = Inr qi
     \<and> (let spent = sum_list (map (\<lambda>p. case GetQueueInfoByQueueInfoID c p of Inr i \<Rightarrow> qinfo_count i | _ \<Rightarrow> 0) pre)
        in (pre \<noteq> [] \<longrightarrow> spent \<le> cnt) \<and> (qinfo_count qi = -1 \<or> cnt < spent + qinfo_count qi))"
proof -
  obtain pub where p: "GetPubByPubID c pid = Inr pub"
    "queue_info_by_count c (pub_queue_info_ids pub) cnt = Inr qid"
    using assms by (auto simp: GetQueueInfoIDByCount_def split: sum.splits)
  show ?thesis using p(1) queue_info_by_count_split[OF p(2)] by blast
qed

lemma sample_topic_count: "GetQueueInfoIDByCount sample_topic 1 100 = Inr 3"
  by code_simp

theorem GetQueueInfoIDByCount_routes_witness:
  "\<exists>pub pre post. GetPubByPubID sample_topic 1 = Inr pub \<and> pub_queue_info_ids pub = pre @ 3 # post"
  using GetQueueInfoIDByCount_routes[OF sample_topic_count] by blast

end
