(* ===== verification/ServiceConfig.thy ===== *)
theory ServiceConfig
  imports Config
begin

section \<open>Configuration of the services (config/storeconfig.cpp, lockconfig.cpp, consumerconfig.cpp, schedulerconfig.cpp, globalconfig.cpp)\<close>

text \<open>
  Which replicas make up each store and each lock, the consumers and the schedulers of a topic, and
  the table of all topics. As in \<open>Config\<close>, \<open>Rebuild\<close> fills the lookup tables from the messages and
  is \<^const>\<open>None\<close> where it aborts; an operation sees one snapshot of the tables. Each object keeps
  the time of its last reload (\<open>BaseConfig::last_mod_time_\<close>). The factory of the plugin layer,
  which makes the config objects of a topic and loads them, is a parameter of the global \<open>Rebuild\<close>.
\<close>

subsection \<open>StoreConfig\<close>

record StoreProto =
  store_ident :: int
  store_addrs :: "Addr list"
  store_scale :: int
  store_pub_ids :: "int list"

record StoreConfig =
  sc_stores :: "StoreProto list"
  sc_last_mod_time :: u64
  store_id2store :: "(int \<times> StoreProto) list"
  addr2store_id :: "(u64 \<times> int) list"

definition Rebuild_store_addr ::
  "(string \<Rightarrow> u32) \<Rightarrow> bool \<Rightarrow> int \<Rightarrow> Addr \<Rightarrow> StoreConfig \<Rightarrow> StoreConfig option" where
  "Rebuild_store_addr inet_addr need_check sid addr c = do {
     PHX_ASSERT (need_check \<longrightarrow> map_of (addr2store_id c) (EncodeAddr inet_addr addr) = None);
     Some (c\<lparr>addr2store_id := map_emplace (EncodeAddr inet_addr addr) sid (addr2store_id c)\<rparr>) }"

definition Rebuild_store ::
  "(string \<Rightarrow> u32) \<Rightarrow> bool \<Rightarrow> StoreProto \<Rightarrow> StoreConfig \<Rightarrow> StoreConfig option" where
  "Rebuild_store inet_addr need_check store c =
     (if store_ident store = 0 then Some c
      else do {
        PHX_ASSERT (need_check \<longrightarrow> map_of (store_id2store c) (store_ident store) = None);
        foldM (Rebuild_store_addr inet_addr need_check (store_ident store)) (store_addrs store)
          (c\<lparr>store_id2store := map_emplace (store_ident store) store (store_id2store c)\<rparr>) })"

definition StoreConfig_Rebuild :: "(string \<Rightarrow> u32) \<Rightarrow> bool \<Rightarrow> StoreConfig \<Rightarrow> StoreConfig option" where
  "StoreConfig_Rebuild inet_addr need_check c =
     foldM (Rebuild_store inet_addr need_check) (sc_stores c)
       (c\<lparr>store_id2store := [], addr2store_id := []\<rparr>)"

definition StoreConfig_ReadConfig :: "StoreProto list" where
  "StoreConfig_ReadConfig =
     [\<lparr>store_ident = 1,
       store_addrs = [\<lparr>ip = ''127.0.0.1'', port = 5100, paxos_port = 5101\<rparr>,
         \<lparr>ip = ''127.0.0.1'', port = 5200, paxos_port = 5201\<rparr>,
         \<lparr>ip = ''127.0.0.1'', port = 5300, paxos_port = 5301\<rparr>],
       store_scale = 100, store_pub_ids = [1, 2]\<rparr>]"

definition GetAllStore :: "StoreConfig \<Rightarrow> StoreProto list" where
  "GetAllStore c = map snd (store_id2store c)"

definition GetAllStoreID :: "StoreConfig \<Rightarrow> int list" where
  "GetAllStoreID c = foldl (\<lambda>s p. set_insert id (fst p) s) [] (store_id2store c)"

definition GetStoreByStoreID :: "StoreConfig \<Rightarrow> int \<Rightarrow> RetCode + StoreProto" where
  "GetStoreByStoreID c sid =
     (case map_of (store_id2store c) sid of None \<Rightarrow> Inl RET_ERR_RANGE_STORE | Some s \<Rightarrow> Inr s)"

definition GetStoreIDByAddr :: "(string \<Rightarrow> u32) \<Rightarrow> StoreConfig \<Rightarrow> Addr \<Rightarrow> RetCode + int" where
  "GetStoreIDByAddr inet_addr c addr =
     (case map_of (addr2store_id c) (EncodeAddr inet_addr addr) of
        None \<Rightarrow> Inl RET_ERR_RANGE_ADDR | Some sid \<Rightarrow> Inr sid)"

definition GetStoreByAddr :: "(string \<Rightarrow> u32) \<Rightarrow> StoreConfig \<Rightarrow> Addr \<Rightarrow> RetCode + StoreProto" where
  "GetStoreByAddr inet_addr c addr =
     (case GetStoreIDByAddr inet_addr c addr of
        Inl ret \<Rightarrow> Inl ret | Inr sid \<Rightarrow> GetStoreByStoreID c sid)"

subsection \<open>LockConfig\<close>

record LockProto =
  lock_ident :: int
  lock_addrs :: "Addr list"
  lock_scale :: int

record LockConfig =
  lc_locks :: "LockProto list"
  lc_last_mod_time :: u64
  lock_id2lock :: "(int \<times> LockProto) list"
  addr2lock_id :: "(u64 \<times> int) list"

definition Rebuild_lock_addr ::
  "(string \<Rightarrow> u32) \<Rightarrow> bool \<Rightarrow> int \<Rightarrow> Addr \<Rightarrow> LockConfig \<Rightarrow> LockConfig option" where
  "Rebuild_lock_addr inet_addr need_check lid addr c = do {
     PHX_ASSERT (need_check \<longrightarrow> map_of (addr2lock_id c) (EncodeAddr inet_addr addr) = None);
     Some (c\<lparr>addr2lock_id := map_emplace (EncodeAddr inet_addr addr) lid (addr2lock_id c)\<rparr>) }"

definition Rebuild_lock ::
  "(string \<Rightarrow> u32) \<Rightarrow> bool \<Rightarrow> LockProto \<Rightarrow> LockConfig \<Rightarrow> LockConfig option" where
  "Rebuild_lock inet_addr need_check lock c =
     (if lock_ident lock = 0 then Some c
      else do {
        PHX_ASSERT (need_check \<longrightarrow> map_of (lock_id2lock c) (lock_ident lock) = None);
        foldM (Rebuild_lock_addr inet_addr need_check (lock_ident lock)) (lock_addrs lock)
          (c\<lparr>lock_id2lock := map_emplace (lock_ident lock) lock (lock_id2lock c)\<rparr>) })"

definition LockConfig_Rebuild :: "(string \<Rightarrow> u32) \<Rightarrow> bool \<Rightarrow> LockConfig \<Rightarrow> LockConfig option" where
  "LockConfig_Rebuild inet_addr need_check c =
     foldM (Rebuild_lock inet_addr need_check) (lc_locks c)
       (c\<lparr>lock_id2lock := [], addr2lock_id := []\<rparr>)"

definition LockConfig_ReadConfig :: "LockProto list" where
  "LockConfig_ReadConfig =
     [\<lparr>lock_ident = 1,
       lock_addrs = [\<lparr>ip = ''127.0.0.1'', port = 7100, paxos_port = 7101\<rparr>,
         \<lparr>ip = ''127.0.0.1'', port = 7200, paxos_port = 7201\<rparr>,
         \<lparr>ip = ''127.0.0.1'', port = 7300, paxos_port = 7301\<rparr>],
       lock_scale = 100\<rparr>]"

definition GetAllLock :: "LockConfig \<Rightarrow> LockProto list" where
  "GetAllLock c = map snd (lock_id2lock c)"

definition GetAllLockID :: "LockConfig \<Rightarrow> int list" where
  "GetAllLockID c = foldl (\<lambda>s p. set_insert id (fst p) s) [] (lock_id2lock c)"

definition GetLockByLockID :: "LockConfig \<Rightarrow> int \<Rightarrow> RetCode + LockProto" where
  "GetLockByLockID c lid =
     (case map_of (lock_id2lock c) lid of None \<Rightarrow> Inl RET_ERR_RANGE_LOCK | Some l \<Rightarrow> Inr l)"

definition GetLockIDByAddr :: "(string \<Rightarrow> u32) \<Rightarrow> LockConfig \<Rightarrow> Addr \<Rightarrow> RetCode + int" where
  "GetLockIDByAddr inet_addr c addr =
     (case map_of (addr2lock_id c) (EncodeAddr inet_addr addr) of
        None \<Rightarrow> Inl RET_ERR_RANGE_ADDR | Some lid \<Rightarrow> Inr lid)"

definition GetLockByAddr :: "(string \<Rightarrow> u32) \<Rightarrow> LockConfig \<Rightarrow> Addr \<Rightarrow> RetCode + LockProto" where
  "GetLockByAddr inet_addr c addr =
     (case GetLockIDByAddr inet_addr c addr of
        Inl ret \<Rightarrow> Inl ret | Inr lid \<Rightarrow> GetLockByLockID c lid)"

subsection \<open>ConsumerConfig and SchedulerConfig\<close>

record ConsumerProto =
  consumer_addr :: Addr
  consumer_scale :: int
  consumer_group_idents :: "int list"

record ConsumerConfig =
  cc_consumers :: "ConsumerProto list"
  cc_last_mod_time :: u64
  addr2consumer :: "(u64 \<times> ConsumerProto) list"

definition Rebuild_consumer ::
  "(string \<Rightarrow> u32) \<Rightarrow> bool \<Rightarrow> ConsumerProto \<Rightarrow> ConsumerConfig \<Rightarrow> ConsumerConfig option" where
  "Rebuild_consumer inet_addr need_check consumer c =
     (let encoded = EncodeAddr inet_addr (consumer_addr consumer) in do {
        PHX_ASSERT (need_check \<longrightarrow> map_of (addr2consumer c) encoded = None);
        Some (c\<lparr>addr2consumer := map_emplace encoded consumer (addr2consumer c)\<rparr>) })"

definition ConsumerConfig_Rebuild :: "(string \<Rightarrow> u32) \<Rightarrow> bool \<Rightarrow> ConsumerConfig \<Rightarrow> ConsumerConfig option" where
  "ConsumerConfig_Rebuild inet_addr need_check c =
     foldM (Rebuild_consumer inet_addr need_check) (cc_consumers c) (c\<lparr>addr2consumer := []\<rparr>)"

definition ConsumerConfig_ReadConfig :: "ConsumerProto list" where
  "ConsumerConfig_ReadConfig =
     [\<lparr>consumer_addr = \<lparr>ip = ''127.0.0.1'', port = 8001, paxos_port = 0\<rparr>, consumer_scale = 100,
       consumer_group_idents = [1, 2]\<rparr>,
      \<lparr>consumer_addr = \<lparr>ip = ''127.0.0.1'', port = 8002, paxos_port = 0\<rparr>, consumer_scale = 100,
       consumer_group_idents = [1, 2]\<rparr>,
      \<lparr>consumer_addr = \<lparr>ip = ''127.0.0.1'', port = 8003, paxos_port = 0\<rparr>, consumer_scale = 100,
       consumer_group_idents = [1, 2]\<rparr>]"

definition GetAllConsumer :: "ConsumerConfig \<Rightarrow> ConsumerProto list" where
  "GetAllConsumer c = map snd (addr2consumer c)"

definition GetConsumerByAddr :: "(string \<Rightarrow> u32) \<Rightarrow> ConsumerConfig \<Rightarrow> Addr \<Rightarrow> RetCode + ConsumerProto" where
  "GetConsumerByAddr inet_addr c addr =
     (case map_of (addr2consumer c) (EncodeAddr inet_addr addr) of
        None \<Rightarrow> Inl RET_ERR_RANGE_ADDR | Some consumer \<Rightarrow> Inr consumer)"

record SchedulerConfig =
  sched_addrs :: "Addr list"
  sched_last_mod_time :: u64
  sched_scheduler :: "Addr list option"

definition SchedulerConfig_Rebuild :: "SchedulerConfig \<Rightarrow> SchedulerConfig" where
  "SchedulerConfig_Rebuild c = c\<lparr>sched_scheduler := Some (sched_addrs c)\<rparr>"

definition SchedulerConfig_ReadConfig :: "Addr list" where
  "SchedulerConfig_ReadConfig =
     [\<lparr>ip = ''127.0.0.1'', port = 6100, paxos_port = 0\<rparr>,
      \<lparr>ip = ''127.0.0.1'', port = 6200, paxos_port = 0\<rparr>,
      \<lparr>ip = ''127.0.0.1'', port = 6300, paxos_port = 0\<rparr>]"

text \<open>The scheduler pointer is null (\<^const>\<open>None\<close>) before the first \<open>Rebuild\<close>.\<close>

definition GetScheduler :: "SchedulerConfig \<Rightarrow> RetCode \<times> Addr list option" where
  "GetScheduler c = (RET_OK, sched_scheduler c)"

subsection \<open>GlobalConfig\<close>

text \<open>The configurations of all topics, by topic id.\<close>

record GlobalConfig =
  topic_name2topic_id :: "(string \<times> int) list"
  handle_id2topic_id :: "(int \<times> int) list"
  topic_id2topic_config :: "(int \<times> TopicConfig) list"
  topic_id2consumer_config :: "(int \<times> ConsumerConfig) list"
  topic_id2store_config :: "(int \<times> StoreConfig) list"
  topic_id2scheduler_config :: "(int \<times> SchedulerConfig) list"
  topic_id2lock_config :: "(int \<times> LockConfig) list"

record TopicInfo =
  ti_topic_id :: int
  ti_topic_name :: string
  ti_topic_config_path :: string
  ti_consumer_config_path :: string
  ti_store_config_path :: string
  ti_scheduler_config_path :: string
  ti_lock_config_path :: string

record ConfigFactory =
  NewTopicConfig :: "int \<Rightarrow> string \<Rightarrow> TopicConfig option"
  NewConsumerConfig :: "int \<Rightarrow> string \<Rightarrow> ConsumerConfig option"
  NewStoreConfig :: "int \<Rightarrow> string \<Rightarrow> StoreConfig option"
  NewSchedulerConfig :: "int \<Rightarrow> string \<Rightarrow> SchedulerConfig option"
  NewLockConfig :: "int \<Rightarrow> string \<Rightarrow> LockConfig option"

definition emplace_some :: "'k :: linorder \<Rightarrow> 'v option \<Rightarrow> ('k \<times> 'v) list \<Rightarrow> ('k \<times> 'v) list" where
  "emplace_some k v m = (case v of None \<Rightarrow> m | Some v \<Rightarrow> map_emplace k v m)"

text \<open>The topic configuration is dereferenced even when the factory returned none.\<close>

definition Rebuild_topic_info :: "ConfigFactory \<Rightarrow> TopicInfo \<Rightarrow> GlobalConfig \<Rightarrow> GlobalConfig option" where
  "Rebuild_topic_info f ti g =
     (let tid = ti_topic_id ti;
          topic_config = NewTopicConfig f tid (ti_topic_config_path ti)
      in do {
        tc \<leftarrow> topic_config;
        Some (g\<lparr>topic_name2topic_id := map_emplace (ti_topic_name ti) tid (topic_name2topic_id g),
          topic_id2topic_config := map_emplace tid tc (topic_id2topic_config g),
          handle_id2topic_id :=
            foldl (\<lambda>m h. map_assign h tid m) (handle_id2topic_id g) (handle_ids (tp_topic (tc_proto tc))),
          topic_id2consumer_config :=
            emplace_some tid (NewConsumerConfig f tid (ti_consumer_config_path ti)) (topic_id2consumer_config g),
          topic_id2store_config :=
            emplace_some tid (NewStoreConfig f tid (ti_store_config_path ti)) (topic_id2store_config g),
          topic_id2scheduler_config :=
            emplace_some tid (NewSchedulerConfig f tid (ti_scheduler_config_path ti)) (topic_id2scheduler_config g),
          topic_id2lock_config :=
            emplace_some tid (NewLockConfig f tid (ti_lock_config_path ti)) (topic_id2lock_config g)\<rparr>) })"

definition GlobalConfig_empty :: GlobalConfig where
  "GlobalConfig_empty = \<lparr>topic_name2topic_id = [], handle_id2topic_id = [], topic_id2topic_config = [],
     topic_id2consumer_config = [], topic_id2store_config = [], topic_id2scheduler_config = [],
     topic_id2lock_config = []\<rparr>"

definition GlobalConfig_Rebuild :: "ConfigFactory \<Rightarrow> TopicInfo list \<Rightarrow> GlobalConfig option" where
  "GlobalConfig_Rebuild f topic_infos = foldM (Rebuild_topic_info f) topic_infos GlobalConfig_empty"

definition GlobalConfig_ReadConfig :: "TopicInfo list" where
  "GlobalConfig_ReadConfig =
     [\<lparr>ti_topic_id = 1000, ti_topic_name = ''test'', ti_topic_config_path = [],
       ti_consumer_config_path = [], ti_store_config_path = [], ti_scheduler_config_path = [],
       ti_lock_config_path = []\<rparr>]"

definition GetAllTopicConfig :: "GlobalConfig \<Rightarrow> TopicConfig list" where
  "GetAllTopicConfig g = map snd (topic_id2topic_config g)"

definition GetAllTopicID :: "GlobalConfig \<Rightarrow> int list" where
  "GetAllTopicID g = foldl (\<lambda>s p. set_insert id (fst p) s) [] (topic_id2topic_config g)"

definition GetTopicIDByTopicName :: "GlobalConfig \<Rightarrow> string \<Rightarrow> RetCode + int" where
  "GetTopicIDByTopicName g name =
     (case map_of (topic_name2topic_id g) name of None \<Rightarrow> Inl RET_ERR_RANGE_TOPIC | Some i \<Rightarrow> Inr i)"

definition GetTopicIDByHandleID :: "GlobalConfig \<Rightarrow> int \<Rightarrow> RetCode + int" where
  "GetTopicIDByHandleID g h =
     (case map_of (handle_id2topic_id g) h of None \<Rightarrow> Inl RET_ERR_RANGE_HANDLE | Some i \<Rightarrow> Inr i)"

definition GetTopicConfigByTopicID :: "GlobalConfig \<Rightarrow> int \<Rightarrow> RetCode + TopicConfig" where
  "GetTopicConfigByTopicID g tid =
     (case map_of (topic_id2topic_config g) tid of None \<Rightarrow> Inl RET_ERR_RANGE_TOPIC | Some c \<Rightarrow> Inr c)"

definition GetStoreConfig :: "GlobalConfig \<Rightarrow> int \<Rightarrow> RetCode + StoreConfig" where
  "GetStoreConfig g tid =
     (case map_of (topic_id2store_config g) tid of None \<Rightarrow> Inl RET_ERR_RANGE_TOPIC | Some c \<Rightarrow> Inr c)"

definition GetConsumerConfig :: "GlobalConfig \<Rightarrow> int \<Rightarrow> RetCode + ConsumerConfig" where
  "GetConsumerConfig g tid =
     (case map_of (topic_id2consumer_config g) tid of None \<Rightarrow> Inl RET_ERR_RANGE_TOPIC | Some c \<Rightarrow> Inr c)"

definition GetSchedulerConfig :: "GlobalConfig \<Rightarrow> int \<Rightarrow> RetCode + SchedulerConfig" where
  "GetSchedulerConfig g tid =
     (case map_of (topic_id2scheduler_config g) tid of None \<Rightarrow> Inl RET_ERR_RANGE_TOPIC | Some c \<Rightarrow> Inr c)"

definition GetLockConfig :: "GlobalConfig \<Rightarrow> int \<Rightarrow> RetCode + LockConfig" where
  "GetLockConfig g tid =
     (case map_of (topic_id2lock_config g) tid of None \<Rightarrow> Inl RET_ERR_RANGE_TOPIC | Some c \<Rightarrow> Inr c)"

definition GetLastModTime :: "GlobalConfig \<Rightarrow> int \<Rightarrow> u64" where
  "GetLastModTime g tid =
     (case GetTopicConfigByTopicID g tid of Inl _ \<Rightarrow> 0 | Inr tc \<Rightarrow>
      case GetConsumerConfig g tid of Inl _ \<Rightarrow> 0 | Inr cc \<Rightarrow>
      case GetStoreConfig g tid of Inl _ \<Rightarrow> 0 | Inr sc \<Rightarrow>
      case GetSchedulerConfig g tid of Inl _ \<Rightarrow> 0 | Inr hc \<Rightarrow>
      case GetLockConfig g tid of Inl _ \<Rightarrow> 0 | Inr lc \<Rightarrow>
        max (max (max (max (tc_last_mod_time tc) (cc_last_mod_time cc)) (sc_last_mod_time sc))
          (sched_last_mod_time hc)) (lc_last_mod_time lc))"

definition GetPubIDsByStoreID :: "GlobalConfig \<Rightarrow> int \<Rightarrow> int \<Rightarrow> RetCode + int list" where
  "GetPubIDsByStoreID g tid sid =
     (case GetStoreConfig g tid of Inl ret \<Rightarrow> Inl ret | Inr store_config \<Rightarrow>
      case GetStoreByStoreID store_config sid of Inl ret \<Rightarrow> Inl ret | Inr store \<Rightarrow>
      case GetTopicConfigByTopicID g tid of Inl ret \<Rightarrow> Inl ret | Inr topic_config \<Rightarrow>
        if store_pub_ids store \<noteq> []
        then Inr (foldl (\<lambda>s p. if IsValidPubID topic_config p then set_insert id p s else s) []
                    (store_pub_ids store))
        else Inr (GetAllPubID topic_config))"

definition GetConsumerGroupIDsByConsumerAddr :: "(string \<Rightarrow> u32) \<Rightarrow> GlobalConfig \<Rightarrow> int \<Rightarrow> Addr \<Rightarrow> RetCode + int list" where
  "GetConsumerGroupIDsByConsumerAddr inet_addr g tid addr =
     (case GetConsumerConfig g tid of Inl ret \<Rightarrow> Inl ret | Inr consumer_config \<Rightarrow>
      case GetConsumerByAddr inet_addr consumer_config addr of Inl ret \<Rightarrow> Inl ret | Inr consumer \<Rightarrow>
      case GetTopicConfigByTopicID g tid of Inl ret \<Rightarrow> Inl ret | Inr topic_config \<Rightarrow>
        let ignore = foldl (\<lambda>s i. set_insert id i s) []
              (consumer_ignore_consumer_group_ids (tp_topic (tc_proto topic_config)))
        in if consumer_group_idents consumer \<noteq> []
           then Inr (foldl (\<lambda>s i. if IsValidConsumerGroupID topic_config i \<and> i \<notin> set ignore then set_insert id i s else s)
                  [] (consumer_group_idents consumer))
           else Inr (foldl (\<lambda>s i. filter (\<lambda>j. j \<noteq> i) s) (GetAllConsumerGroupID topic_config) ignore))"

lemma set_GetAllPubID [simp]: "set (GetAllPubID c) = {p. IsValidPubID c p}"
proof -
  have "set (foldl (\<lambda>s p. set_insert id (fst p) s) s m) = set s \<union> fst ` set m" for s and m :: "(int \<times> Pub) list"
    by (induction m arbitrary: s) auto
  then show ?thesis by (auto simp: GetAllPubID_def IsValidPubID_def map_of_eq_None_iff)
qed

lemma GetPubIDsByStoreID_valid:
  assumes "GetPubIDsByStoreID g tid sid = Inr pids" and "GetTopicConfigByTopicID g tid = Inr tc"
  shows "\<forall>p \<in> set pids. IsValidPubID tc p"
proof -
  have "set (foldl (\<lambda>s p. if IsValidPubID tc p then set_insert id p s else s) s ps) =
        set s \<union> {p \<in> set ps. IsValidPubID tc p}" for s ps
    by (induction ps arbitrary: s) auto
  then show ?thesis
    using assms by (auto simp: GetPubIDsByStoreID_def split: sum.splits if_splits)
qed

subsection \<open>The lookup tables after a rebuild\<close>

lemma map_emplace_keeps: "wf_map m \<Longrightarrow> map_of m k = Some v \<Longrightarrow> map_of (map_emplace a w m) k = Some v"
  by (auto simp: map_of_emplace split: option.splits)

lemma map_emplace_new: "wf_map m \<Longrightarrow> map_of m k = None \<Longrightarrow> map_of (map_emplace k v m) k = Some v"
  by (simp add: map_of_emplace)

lemma PHX_ASSERT_bind: "(PHX_ASSERT b \<bind> f) = Some y \<longleftrightarrow> b \<and> f () = Some y"
  by (simp add: PHX_ASSERT_def)

definition wf_lock_config :: "LockConfig \<Rightarrow> bool" where
  "wf_lock_config c \<longleftrightarrow> wf_map (lock_id2lock c) \<and> wf_map (addr2lock_id c)"

lemma Rebuild_lock_addrs:
  assumes "foldM (Rebuild_lock_addr inet_addr True lid) addrs c = Some c'" and "wf_lock_config c"
  shows "wf_lock_config c' \<and> lock_id2lock c' = lock_id2lock c
    \<and> (\<forall>a i. a \<in> set addrs \<and> i = lid \<or> map_of (addr2lock_id c) (EncodeAddr inet_addr a) = Some i
         \<longrightarrow> map_of (addr2lock_id c') (EncodeAddr inet_addr a) = Some i)"
proof -
  let ?I = "\<lambda>d. wf_lock_config d \<and> lock_id2lock d = lock_id2lock c"
  let ?P = "\<lambda>a d. map_of (addr2lock_id d) (EncodeAddr inet_addr a) = Some lid"
  note defs = Rebuild_lock_addr_def PHX_ASSERT_bind wf_lock_config_def
  have "?I c' \<and> (\<forall>a. a \<in> set addrs \<or> ?P a c \<longrightarrow> ?P a c')"
    by (rule foldM_collect[OF _ _ assms(1)])
      (use assms(2) in \<open>auto simp: defs map_emplace_new map_emplace_keeps intro: wf_intros\<close>)
  moreover have "map_of (addr2lock_id c') (EncodeAddr inet_addr a) = Some i"
    if "map_of (addr2lock_id c) (EncodeAddr inet_addr a) = Some i" for a i
  proof -
    have "wf_lock_config c' \<and> map_of (addr2lock_id c') (EncodeAddr inet_addr a) = Some i"
      by (rule foldM_invariant[OF _ assms(1)])
        (use assms(2) that in \<open>auto simp: defs map_emplace_keeps intro: wf_intros\<close>)
    then show ?thesis ..
  qed
  ultimately show ?thesis by blast
qed

definition lock_listed :: "(string \<Rightarrow> u32) \<Rightarrow> LockProto \<Rightarrow> LockConfig \<Rightarrow> bool" where
  "lock_listed inet_addr lock c \<longleftrightarrow> lock_ident lock \<noteq> 0 \<longrightarrow>
     map_of (lock_id2lock c) (lock_ident lock) = Some lock
     \<and> (\<forall>a \<in> set (lock_addrs lock). map_of (addr2lock_id c) (EncodeAddr inet_addr a) = Some (lock_ident lock))"

lemma Rebuild_lock_listed:
  assumes r: "Rebuild_lock inet_addr True lock c = Some c'" and wf: "wf_lock_config c"
  shows "wf_lock_config c' \<and> lock_listed inet_addr lock c'
    \<and> (\<forall>l. lock_listed inet_addr l c \<longrightarrow> lock_listed inet_addr l c')"
proof (cases "lock_ident lock = 0")
  case True
  with assms show ?thesis by (simp add: Rebuild_lock_def lock_listed_def)
next
  case False
  let ?c = "c\<lparr>lock_id2lock := map_emplace (lock_ident lock) lock (lock_id2lock c)\<rparr>"
  have new: "map_of (lock_id2lock c) (lock_ident lock) = None"
    and run: "foldM (Rebuild_lock_addr inet_addr True (lock_ident lock)) (lock_addrs lock) ?c = Some c'"
    using r False by (simp_all add: Rebuild_lock_def PHX_ASSERT_bind)
  have wfs: "wf_map (lock_id2lock c)" "wf_lock_config ?c"
    using wf by (simp_all add: wf_lock_config_def wf_map_emplace)
  note res = Rebuild_lock_addrs[OF run wfs(2)]
  show ?thesis
    using res new wfs(1) by (auto simp: lock_listed_def map_emplace_new map_emplace_keeps)
qed

text \<open>After a checked parse of the lock configuration, every address of every lock with an id
  leads back to that lock.\<close>

theorem LockConfig_Rebuild_finds:
  assumes "LockConfig_Rebuild inet_addr True c = Some c'"
    and "lock \<in> set (lc_locks c)" and "lock_ident lock \<noteq> 0" and "addr \<in> set (lock_addrs lock)"
  shows "GetLockByAddr inet_addr c' addr = Inr lock"
proof -
  have "wf_lock_config c' \<and> (\<forall>l. l \<in> set (lc_locks c)
      \<or> lock_listed inet_addr l (c\<lparr>lock_id2lock := [], addr2lock_id := []\<rparr>) \<longrightarrow> lock_listed inet_addr l c')"
    by (rule foldM_collect[OF _ _ assms(1)[unfolded LockConfig_Rebuild_def]])
      (auto simp: wf_lock_config_def[of "c\<lparr>lock_id2lock := [], addr2lock_id := []\<rparr>"] dest: Rebuild_lock_listed)
  with assms(2-4) show ?thesis
    by (simp add: lock_listed_def GetLockByAddr_def GetLockIDByAddr_def GetLockByLockID_def)
qed

definition LockConfig_of :: "LockProto list \<Rightarrow> LockConfig" where
  "LockConfig_of locks =
     \<lparr>lc_locks = locks, lc_last_mod_time = 0, lock_id2lock = [], addr2lock_id = []\<rparr>"

theorem LockConfig_Rebuild_finds_witness:
  "\<exists>c'. LockConfig_Rebuild (\<lambda>_. 0x0100007F) True (LockConfig_of LockConfig_ReadConfig) = Some c'
     \<and> GetLockByAddr (\<lambda>_. 0x0100007F) c' \<lparr>ip = ''127.0.0.1'', port = 7200, paxos_port = 7201\<rparr>
        = Inr (hd LockConfig_ReadConfig)"
proof -
  have "LockConfig_Rebuild (\<lambda>_. 0x0100007F) True (LockConfig_of LockConfig_ReadConfig) \<noteq> None"
    by (simp add: LockConfig_Rebuild_def LockConfig_of_def LockConfig_ReadConfig_def Rebuild_lock_def
        Rebuild_lock_addr_def PHX_ASSERT_def EncodeAddr_def map_emplace_def)
  then obtain c' where c': "LockConfig_Rebuild (\<lambda>_. 0x0100007F) True (LockConfig_of LockConfig_ReadConfig) = Some c'"
    by blast
  show ?thesis
    by (rule exI[of _ c'], rule conjI[OF c'], rule LockConfig_Rebuild_finds[OF c'])
      (simp_all add: LockConfig_of_def LockConfig_ReadConfig_def)
qed

end
