(* ===== verification/Phxpaxos.thy ===== *)
theory Phxpaxos
  imports Comm
begin

section \<open>What the services ask of phxpaxos\<close>

text \<open>
  The outcomes of \<open>Node::Propose\<close> and \<open>Node::BatchPropose\<close> that the code tells apart, the options
  that it sets before \<open>Node::RunNode\<close>, and the remainder by which a queue or a key finds its paxos
  group. The paxos library itself is not in this repository: its calls are parameters.
\<close>

datatype TryCommitRet =
    TryCommit_OK
  | TryCommit_Timeout
  | TryCommit_TooManyThreadWaiting_Reject
  | TryCommit_Value_Size_TooLarge
  | TryCommit_Other

text \<open>What \<open>PaxosInit\<close> asks of phxpaxos.\<close>

record PaxosOptions =
  vecNodeInfoList :: "(string \<times> int) list"
  iGroupCount :: int
  vecGroupSMInfoList :: "(int \<times> int) list"
  oMyNode :: "string \<times> int"
  bUseMembership :: bool
  bUseCheckpointReplayer :: bool
  iSyncInterval :: int
  bUseBatchPropose :: bool
  iIOThreadCount :: int

text \<open>
  \<open>C++\<close>'s \<open>queue_id % ngroup\<close>, which takes the sign of the dividend; dividing by zero is
  undefined.
\<close>

definition cmod :: "int \<Rightarrow> int \<Rightarrow> int option" where
  "cmod a b = (if b = 0 then None else Some (sgn a * (\<bar>a\<bar> mod \<bar>b\<bar>)))"

lemma cmod_nonneg: "0 \<le> a \<Longrightarrow> 0 < b \<Longrightarrow> cmod a b = Some (a mod b)"
  by (cases "a = 0") (auto simp: cmod_def sgn_if)

end
