(* ===== verification/StoreState.thy ===== *)
theory StoreState
  imports StoreMeta ServiceConfig Phxpaxos
begin

section \<open>The state and the environment of a store (store/store.h, storeoption.h, store.proto)\<close>

text \<open>
  \<open>StoreState\<close> holds what the objects reachable from a \<open>Store\<close> keep between calls: the option,
  the meta queue of every queue (\<open>BaseMgr\<close>), the mapped cursor file (\<open>SyncCtrl\<close>) and the mapped
  checkpoint files (\<open>CheckPointStatMgr\<close>). \<open>StoreEnv\<close> holds what an operation asks of code that is
  not in this repository (phxpaxos, protobuf, zlib, the C library) and the configuration
  snapshot it sees. Operations take the environment and the state and return the new state;
  \<^const>\<open>None\<close> is undefined behaviour (an access outside an array, a null dereference).
\<close>

record StoreOption =
  opt_topic :: string
  opt_ip :: string
  opt_port :: int
  opt_paxos_port :: int
  ngroup :: int
  nconsumer_group :: int
  nqueue :: int
  npaxos_iothread :: int

definition StoreOption_default :: StoreOption where
  "StoreOption_default = \<lparr>opt_topic = [], opt_ip = [], opt_port = 0, opt_paxos_port = 0,
     ngroup = 100, nconsumer_group = 64, nqueue = 2000, npaxos_iothread = 3\<rparr>"

record ConsumerGroupDetail =
  cgd_consumer_group_id :: int
  cgd_prev_cursor_id :: u64

record QueueDetail =
  qd_queue_id :: int
  qd_consumer_group_details :: "ConsumerGroupDetail list"

type_synonym SyncCtrlInfo = "QueueDetail list"

record StorePaxosArgs =
  pa_add_req :: "AddRequest option"
  pa_sync_ctrl_info :: "SyncCtrlInfo option"
  pa_master_addr :: Addr
  pa_timestamp :: u64

record SyncCtrlItem =
  prev_magic :: u32
  next_magic :: u32
  item_prev_cursor_id :: u64
  item_next_cursor_id :: u64

definition SyncCtrlItem_zero :: SyncCtrlItem where
  "SyncCtrlItem_zero = \<lparr>prev_magic = 0, next_magic = 0, item_prev_cursor_id = 0, item_next_cursor_id = 0\<rparr>"

record CheckPointStatItem =
  cp_magic :: u32
  cp_cp :: u64

record StoreState =
  st_opt :: StoreOption
  st_topic_id :: int
  st_addr :: Addr
  meta_queues :: "StoreMetaQueue list"
  sync_buf :: "SyncCtrlItem list"
  sync_last_mod_time :: u64
  cp_stats :: "CheckPointStatItem list"
  dropped_masters :: "int list"

text \<open>The result of phxpaxos' \<open>Node::GetInstanceValue\<close>.\<close>

datatype InstanceValue =
    Value_Chosen "(string \<times> int) list"
  | Value_Not_Chosen_Yet
  | Value_NotExist
  | Value_Error

record StoreEnv =
  env_config :: GlobalConfig
  env_crc32 :: "u32 \<Rightarrow> u64 \<Rightarrow> u32"
  env_inet_addr :: "string \<Rightarrow> u32"
  env_msync_ok :: bool
  GetInstanceValue :: "int \<Rightarrow> u64 \<Rightarrow> InstanceValue"
  GetMinChosenInstanceID :: "int \<Rightarrow> u64"
  GetNowInstanceID :: "int \<Rightarrow> u64"
  IsIMMaster :: "int \<Rightarrow> bool"
  GetMaster :: "int \<Rightarrow> string \<times> int"
  ParseStorePaxosArgs :: "string \<Rightarrow> StorePaxosArgs option"
  SerializeStorePaxosArgs :: "StorePaxosArgs \<Rightarrow> string"
  QItem_ByteSize :: "QItem \<Rightarrow> nat"

definition StoreSM_ID :: int where
  "StoreSM_ID = 1"

text \<open>\<open>BaseMgr::GetMetaQueue\<close>: the index of the queue, or \<open>nullptr\<close> (\<^const>\<open>None\<close>).\<close>

definition GetMetaQueue :: "StoreState \<Rightarrow> int \<Rightarrow> int option" where
  "GetMetaQueue s queue_id = (if nqueue (st_opt s) \<le> queue_id then None else Some queue_id)"

definition wf_opt :: "StoreOption \<Rightarrow> bool" where
  "wf_opt opt \<longleftrightarrow> 0 < ngroup opt \<and> 0 \<le> nconsumer_group opt \<and> 0 \<le> nqueue opt"

definition wf_store :: "(u32 \<Rightarrow> u64 \<Rightarrow> u32) \<Rightarrow> StoreState \<Rightarrow> bool" where
  "wf_store crc32 s \<longleftrightarrow>
     wf_opt (st_opt s)
     \<and> int (length (meta_queues s)) = nqueue (st_opt s)
     \<and> int (length (sync_buf s)) = nconsumer_group (st_opt s) * nqueue (st_opt s)
     \<and> int (length (cp_stats s)) = ngroup (st_opt s)
     \<and> (\<forall>q \<in> set (meta_queues s). wf_queue crc32 q)"

lemma wf_storeD:
  assumes "wf_store crc32 s"
  shows "wf_opt (st_opt s)" "int (length (meta_queues s)) = nqueue (st_opt s)"
    "int (length (sync_buf s)) = nconsumer_group (st_opt s) * nqueue (st_opt s)"
    "int (length (cp_stats s)) = ngroup (st_opt s)"
    "at (meta_queues s) i = Some q \<Longrightarrow> wf_queue crc32 q"
  using assms by (auto simp: wf_store_def dest: at_set)

lemma wf_store_put_queue [wf_intros]:
  "wf_store crc32 s \<Longrightarrow> wf_queue crc32 q \<Longrightarrow> wf_store crc32 (s\<lparr>meta_queues := put_at (meta_queues s) i q\<rparr>)"
  by (auto simp: wf_store_def put_at_def dest: set_update_subset_insert[THEN subsetD])

lemma wf_store_put_sync [wf_intros]:
  "wf_store crc32 s \<Longrightarrow> wf_store crc32 (s\<lparr>sync_buf := put_at (sync_buf s) i item\<rparr>)"
  by (simp add: wf_store_def)

lemma wf_store_put_cp [wf_intros]:
  "wf_store crc32 s \<Longrightarrow> wf_store crc32 (s\<lparr>cp_stats := put_at (cp_stats s) i item\<rparr>)"
  by (simp add: wf_store_def)

end
