(* ===== verification/CheckPointStat.thy ===== *)
theory CheckPointStat
  imports StoreState
begin

section \<open>CheckPointStat and CheckPointStatMgr (store/checkpointstat.cpp)\<close>

text \<open>
  One mapped file per paxos group holds the checkpoint of the group behind a magic number. The
  results of \<open>open\<close>, \<open>ftruncate\<close>, \<open>mmap\<close> and \<open>msync\<close> are parameters; the mutex makes each
  access one step.
\<close>

definition CHECKPOINTSTAT_MAGIC :: u32 where
  "CHECKPOINTSTAT_MAGIC = 9970256"

definition CheckPointStat_Init ::
  "(string \<Rightarrow> bool) \<Rightarrow> (string \<Rightarrow> bool) \<Rightarrow> (string \<Rightarrow> CheckPointStatItem option) \<Rightarrow> string \<Rightarrow> string
   \<Rightarrow> RetCode \<times> CheckPointStatItem option" where
  "CheckPointStat_Init os_open os_ftruncate os_mmap dir file =
     (if dir = [] \<or> file = [] then (RET_ERR_ARG, None)
      else let path = dir @ file
           in if \<not> os_open path then (RET_ERR_SYS, None)
              else if \<not> os_ftruncate path then (RET_ERR_SYS, None)
              else case os_mmap path of
                     None \<Rightarrow> (RET_ERR_SYS, None)
                   | Some buf \<Rightarrow> (RET_OK, Some buf))"

definition GetCheckPoint :: "CheckPointStatItem \<Rightarrow> RetCode \<times> u64" where
  "GetCheckPoint item = (RET_OK, if cp_magic item = CHECKPOINTSTAT_MAGIC then cp_cp item else NoID)"

definition UpdateCheckPointAndFlush ::
  "bool \<Rightarrow> u64 \<Rightarrow> CheckPointStatItem \<Rightarrow> RetCode \<times> CheckPointStatItem" where
  "UpdateCheckPointAndFlush msync_ok cp item =
     (if msync_ok then RET_OK else RET_ERR_SYS,
      item\<lparr>cp_magic := CHECKPOINTSTAT_MAGIC, cp_cp := cp\<rparr>)"

text \<open>\<open>GetCheckPointStat\<close> returns the index of the group's file, or \<open>nullptr\<close>.\<close>

definition GetCheckPointStat :: "StoreState \<Rightarrow> int \<Rightarrow> int option" where
  "GetCheckPointStat s paxos_group_id =
     (if ngroup (st_opt s) \<le> paxos_group_id then None else Some paxos_group_id)"

lemma GetCheckPoint_Update [simp]:
  "snd (GetCheckPoint (snd (UpdateCheckPointAndFlush ok cp item))) = cp"
  by (simp add: GetCheckPoint_def UpdateCheckPointAndFlush_def)

text \<open>The checkpoint of a group as the rest of the store sees it.\<close>

definition checkpoint :: "StoreState \<Rightarrow> int \<Rightarrow> u64" where
  "checkpoint s g = (case at (cp_stats s) g of None \<Rightarrow> NoID | Some item \<Rightarrow> snd (GetCheckPoint item))"

lemma checkpoint_put:
  assumes "at (cp_stats s) g = Some item" and "0 \<le> h"
  shows "checkpoint (s\<lparr>cp_stats := put_at (cp_stats s) g (snd (UpdateCheckPointAndFlush ok cp item'))\<rparr>) h =
         (if h = g then cp else checkpoint s h)"
proof (cases "h = g")
  case True
  with assms show ?thesis by (simp add: checkpoint_def at_put_at_same)
next
  case False
  with at_SomeD[OF assms(1)] assms(2) show ?thesis
    by (simp add: checkpoint_def at_put_at_other[of g h])
qed

end
