(* ===== verification/SyncCtrl.thy ===== *)
theory SyncCtrl
  imports StoreState
begin

section \<open>SyncCtrl (store/syncctrl.cpp)\<close>

text \<open>
  The table of consumption cursors: per consumer group and queue an item with two cursors, \<open>prev\<close>
  (acknowledged by the consumer) and \<open>next\<close> (handed out), each guarded by a magic number. The
  table is a mapped file; \<open>GetIdx\<close> computes the position of an item, an access outside the table
  is \<^const>\<open>None\<close>. The lock of an item makes each of these methods one step.
\<close>

definition SYNCCTRL_MAGIC :: u32 where
  "SYNCCTRL_MAGIC = 9980256"

definition GetIdx :: "int \<Rightarrow> int \<Rightarrow> int \<Rightarrow> int" where
  "GetIdx n consumer_group_id queue_id =
     queue_id * n + consumer_group_id - 1"

definition sync_arg_err :: "StoreState \<Rightarrow> int \<Rightarrow> int \<Rightarrow> bool" where
  "sync_arg_err s consumer_group_id queue_id \<longleftrightarrow>
     consumer_group_id = 0 \<or> nconsumer_group (st_opt s) < consumer_group_id
     \<or> nqueue (st_opt s) \<le> queue_id"

definition sync_idx :: "StoreState \<Rightarrow> int \<Rightarrow> int \<Rightarrow> int" where
  "sync_idx s consumer_group_id queue_id = GetIdx (nconsumer_group (st_opt s)) consumer_group_id queue_id"

definition SyncCtrl_Init ::
  "bool \<Rightarrow> bool \<Rightarrow> SyncCtrlItem list option \<Rightarrow> StoreState \<Rightarrow> RetCode \<times> StoreState" where
  "SyncCtrl_Init open_ok ftruncate_ok mmap s =
     (if \<not> open_ok then (RET_ERR_SYS, s)
      else if \<not> ftruncate_ok then (RET_ERR_SYS, s)
      else case mmap of None \<Rightarrow> (RET_ERR_SYS, s)
           | Some buf \<Rightarrow> (RET_OK, s\<lparr>sync_buf := buf\<rparr>))"

definition AdjustNextCursorID ::
  "StoreState \<Rightarrow> int \<Rightarrow> int \<Rightarrow> u64 \<Rightarrow> u64 \<Rightarrow> (RetCode \<times> u64 \<times> u64) option" where
  "AdjustNextCursorID s consumer_group_id queue_id prev_cursor_id next_cursor_id =
     (if sync_arg_err s consumer_group_id queue_id
      then Some (RET_ERR_ARG, prev_cursor_id, next_cursor_id)
      else do {
        item \<leftarrow> at (sync_buf s) (sync_idx s consumer_group_id queue_id);
        let stale = (next_magic item \<noteq> SYNCCTRL_MAGIC
                     \<or> item_next_cursor_id item \<noteq> next_cursor_id
                     \<or> (prev_cursor_id \<noteq> NoID \<and> next_cursor_id < prev_cursor_id));
        if stale \<and> prev_magic item \<noteq> SYNCCTRL_MAGIC
        then Some (RET_ERR_CURSOR_NOT_FOUND, prev_cursor_id, next_cursor_id)
        else
          let (prev, nxt) = (if stale then (item_prev_cursor_id item, item_prev_cursor_id item)
                             else (prev_cursor_id, next_cursor_id));
              prev = (if prev_magic item = SYNCCTRL_MAGIC
                         \<and> (prev = NoID \<or> prev < item_prev_cursor_id item)
                      then item_prev_cursor_id item else prev)
          in Some (RET_OK, prev, nxt) })"

definition set_cursor :: "bool \<Rightarrow> u64 \<Rightarrow> SyncCtrlItem \<Rightarrow> SyncCtrlItem" where
  "set_cursor is_prev cursor_id item =
     (if is_prev then item\<lparr>prev_magic := SYNCCTRL_MAGIC, item_prev_cursor_id := cursor_id\<rparr>
      else item\<lparr>next_magic := SYNCCTRL_MAGIC, item_next_cursor_id := cursor_id\<rparr>)"

definition UpdateCursorID ::
  "StoreState \<Rightarrow> int \<Rightarrow> int \<Rightarrow> u64 \<Rightarrow> bool \<Rightarrow> (RetCode \<times> StoreState) option" where
  "UpdateCursorID s consumer_group_id queue_id cursor_id is_prev =
     (if sync_arg_err s consumer_group_id queue_id then Some (RET_ERR_ARG, s)
      else do {
        let idx = sync_idx s consumer_group_id queue_id;
        item \<leftarrow> at (sync_buf s) idx;
        Some (RET_OK, s\<lparr>sync_buf := put_at (sync_buf s) idx (set_cursor is_prev cursor_id item)\<rparr>) })"

definition item_cursor :: "bool \<Rightarrow> SyncCtrlItem \<Rightarrow> RetCode \<times> u64" where
  "item_cursor is_prev item =
     (if is_prev
      then if prev_magic item \<noteq> SYNCCTRL_MAGIC then (RET_ERR_CURSOR_NOT_FOUND, NoID)
           else (RET_OK, item_prev_cursor_id item)
      else if next_magic item \<noteq> SYNCCTRL_MAGIC then (RET_ERR_CURSOR_NOT_FOUND, NoID)
           else (RET_OK, item_next_cursor_id item))"

definition GetCursorID :: "StoreState \<Rightarrow> int \<Rightarrow> int \<Rightarrow> bool \<Rightarrow> (RetCode \<times> u64) option" where
  "GetCursorID s consumer_group_id queue_id is_prev =
     (if sync_arg_err s consumer_group_id queue_id then Some (RET_ERR_ARG, NoID)
      else do {
        item \<leftarrow> at (sync_buf s) (sync_idx s consumer_group_id queue_id);
        Some (item_cursor is_prev item) })"

definition ClearCursorID :: "StoreState \<Rightarrow> int \<Rightarrow> int \<Rightarrow> (RetCode \<times> StoreState) option" where
  "ClearCursorID s consumer_group_id queue_id =
     (if sync_arg_err s consumer_group_id queue_id then Some (RET_ERR_ARG, s)
      else do {
        let idx = sync_idx s consumer_group_id queue_id;
        item \<leftarrow> at (sync_buf s) idx;
        Some (RET_OK, s\<lparr>sync_buf := put_at (sync_buf s) idx SyncCtrlItem_zero\<rparr>) })"

definition SyncCtrl_Flush :: "bool \<Rightarrow> StoreState \<Rightarrow> int \<Rightarrow> int \<Rightarrow> RetCode option" where
  "SyncCtrl_Flush msync_ok s consumer_group_id queue_id =
     (if sync_arg_err s consumer_group_id queue_id then Some RET_ERR_ARG
      else do {
        item \<leftarrow> at (sync_buf s) (sync_idx s consumer_group_id queue_id);
        Some (if msync_ok then RET_OK else RET_ERR_SYS) })"

definition GetBackLogByCursorID :: "StoreState \<Rightarrow> int \<Rightarrow> u64 \<Rightarrow> (RetCode \<times> i32) option" where
  "GetBackLogByCursorID s queue_id cursor_id =
     (case GetMetaQueue s queue_id of
        None \<Rightarrow> Some (RET_ERR_RANGE_QUEUE, 0)
      | Some i \<Rightarrow> do {
          meta_queue \<leftarrow> at (meta_queues s) i;
          Some (RET_OK, if cursor_id = NoID then Size meta_queue
                        else SizeGT (StoreMeta_of cursor_id) meta_queue) })"

text \<open>
  \<open>ClearSyncCtrl\<close> drops the cursors of the consumer groups that are no longer configured, once
  per configuration version.
\<close>

definition queue_group_valid :: "TopicConfig \<Rightarrow> int list \<Rightarrow> int \<Rightarrow> int \<Rightarrow> bool" where
  "queue_group_valid topic_config pub_ids queue_id consumer_group_id =
     list_ex (\<lambda>pid. IsValidQueue topic_config queue_id pid consumer_group_id) pub_ids"

definition clear_if_invalid ::
  "TopicConfig \<Rightarrow> int list \<Rightarrow> int \<times> int \<Rightarrow> StoreState \<Rightarrow> StoreState option" where
  "clear_if_invalid topic_config pub_ids = (\<lambda>(queue_id, consumer_group_id) s.
     if queue_group_valid topic_config pub_ids queue_id consumer_group_id then Some s
     else do {
       (ret, cursor_id) \<leftarrow> GetCursorID s consumer_group_id queue_id True;
       if ret = RET_OK then do {
         (ret, s') \<leftarrow> ClearCursorID s consumer_group_id queue_id;
         Some s' }
       else Some s })"

definition opt_addr :: "StoreOption \<Rightarrow> Addr" where
  "opt_addr opt = \<lparr>ip = opt_ip opt, port = opt_port opt, paxos_port = opt_paxos_port opt\<rparr>"

definition queue_groups :: "StoreOption \<Rightarrow> (int \<times> int) list" where
  "queue_groups opt =
     concat (map (\<lambda>q. map (\<lambda>g. (q, g)) [1..nconsumer_group opt]) [0..nqueue opt - 1])"

definition ClearSyncCtrl :: "StoreEnv \<Rightarrow> StoreState \<Rightarrow> StoreState option" where
  "ClearSyncCtrl env s =
     (case GetTopicConfigByTopicID (env_config env) (st_topic_id s) of
        Inl ret \<Rightarrow> Some s
      | Inr topic_config \<Rightarrow>
          if sync_last_mod_time s = tc_last_mod_time topic_config then Some s
          else
            let s = s\<lparr>sync_last_mod_time := tc_last_mod_time topic_config\<rparr>
            in case GetStoreConfig (env_config env) (st_topic_id s) of
                 Inl ret \<Rightarrow> Some s
               | Inr store_config \<Rightarrow>
                   case GetStoreIDByAddr (env_inet_addr env) store_config (opt_addr (st_opt s)) of
                     Inl ret \<Rightarrow> Some s
                   | Inr store_id \<Rightarrow>
                       case GetPubIDsByStoreID (env_config env) (st_topic_id s) store_id of
                         Inl ret \<Rightarrow> Some s
                       | Inr pub_ids \<Rightarrow>
                           foldM (clear_if_invalid topic_config pub_ids) (queue_groups (st_opt s)) s)"

text \<open>
  \<open>SyncCursorID\<close> applies the cursors that the master has published through paxos. The group loop
  carries the state and the largest \<open>prev\<close> seen; an error return of \<open>UpdateCursorID\<close> ends the
  method (\<^const>\<open>Inl\<close>). \<open>GetMetaQueue\<close> is dereferenced without a test.
\<close>

fun sync_groups ::
  "StoreState \<Rightarrow> int \<Rightarrow> u64 \<Rightarrow> ConsumerGroupDetail list \<Rightarrow> (RetCode \<times> StoreState + u64 \<times> StoreState) option" where
  "sync_groups s queue_id max_prev [] = Some (Inr (max_prev, s))"
| "sync_groups s queue_id max_prev (d # ds) =
     (let consumer_group_id = cgd_consumer_group_id d;
          prev_cursor_id = cgd_prev_cursor_id d;
          max_prev = (if max_prev = NoID \<or> max_prev < prev_cursor_id then prev_cursor_id else max_prev)
      in do {
        (ret, cur_prev_cursor_id) \<leftarrow> GetCursorID s consumer_group_id queue_id True;
        if \<not> as_integer ret < 0 \<and> as_integer ret = 0 \<and> prev_cursor_id \<le> cur_prev_cursor_id
        then sync_groups s queue_id max_prev ds
        else do {
          (ret, s) \<leftarrow> UpdateCursorID s consumer_group_id queue_id prev_cursor_id True;
          if ret \<noteq> RET_OK then Some (Inl (ret, s))
          else do {
            (ret, s) \<leftarrow> UpdateCursorID s consumer_group_id queue_id prev_cursor_id False;
            if ret \<noteq> RET_OK then Some (Inl (ret, s))
            else sync_groups s queue_id max_prev ds } } })"

fun sync_queues :: "StoreState \<Rightarrow> QueueDetail list \<Rightarrow> (RetCode \<times> StoreState) option" where
  "sync_queues s [] = Some (RET_OK, s)"
| "sync_queues s (d # ds) = do {
     r \<leftarrow> sync_groups s (qd_queue_id d) NoID (qd_consumer_group_details d);
     case r of
       Inl (ret, s) \<Rightarrow> Some (ret, s)
     | Inr (max_prev, s) \<Rightarrow> do {
         i \<leftarrow> GetMetaQueue s (qd_queue_id d);
         meta_queue \<leftarrow> at (meta_queues s) i;
         let meta_queue' = (if max_prev = NoID then ClearDequeueStat meta_queue
                            else UpdateDeuqueStat (StoreMeta_of max_prev) meta_queue);
         sync_queues (s\<lparr>meta_queues := put_at (meta_queues s) i meta_queue'\<rparr>) ds } }"

definition SyncCursorID :: "StoreState \<Rightarrow> SyncCtrlInfo \<Rightarrow> (RetCode \<times> StoreState) option" where
  "SyncCursorID s sync_ctrl_info = sync_queues s sync_ctrl_info"

subsection \<open>The table is a map over the valid ids\<close>

definition valid_id :: "StoreState \<Rightarrow> int \<Rightarrow> int \<Rightarrow> bool" where
  "valid_id s g q \<longleftrightarrow> 1 \<le> g \<and> g \<le> nconsumer_group (st_opt s) \<and> 0 \<le> q \<and> q < nqueue (st_opt s)"

definition sync_sized :: "StoreState \<Rightarrow> bool" where
  "sync_sized s \<longleftrightarrow> int (length (sync_buf s)) = nconsumer_group (st_opt s) * nqueue (st_opt s)"

lemma wf_store_sync_sized: "wf_store crc32 s \<Longrightarrow> sync_sized s"
  by (simp add: wf_store_def sync_sized_def)

definition cursor_of :: "StoreState \<Rightarrow> int \<Rightarrow> int \<Rightarrow> bool \<Rightarrow> u64 option" where
  "cursor_of s g q is_prev =
     (case GetCursorID s g q is_prev of
        Some (ret, c) \<Rightarrow> if ret = RET_OK then Some c else None | None \<Rightarrow> None)"

lemma GetIdx_bounds:
  assumes "1 \<le> g" "g \<le> n" "0 \<le> q" "q < m"
  shows "0 \<le> GetIdx n g q \<and> GetIdx n g q < n * m"
proof -
  have "0 \<le> q * n" using assms by simp
  moreover have "(q + 1) * n \<le> m * n" using assms by (intro mult_right_mono) auto
  then have "q * n + n \<le> n * m" by (simp add: algebra_simps)
  ultimately show ?thesis using assms unfolding GetIdx_def by linarith
qed

lemma GetIdx_inj:
  assumes "1 \<le> g" "g \<le> n" "1 \<le> g'" "g' \<le> n" "GetIdx n g q = GetIdx n g' q'"
  shows "g = g' \<and> q = q'"
proof -
  have d: "(q * n + (g - 1)) div n = q" "(q' * n + (g' - 1)) div n = q'"
    using assms(1-4) by (simp_all add: div_add1_eq div_pos_pos_trivial)
  have "q * n + (g - 1) = q' * n + (g' - 1)" using assms(5) by (simp add: GetIdx_def)
  with d have "q = q'" by metis
  with assms(5) show ?thesis by (simp add: GetIdx_def)
qed

lemma valid_id_not_err: "valid_id s g q \<Longrightarrow> \<not> sync_arg_err s g q"
  by (auto simp: valid_id_def sync_arg_err_def)

lemma valid_id_at:
  assumes "sync_sized s" "valid_id s g q"
  obtains item where "at (sync_buf s) (sync_idx s g q) = Some item" "0 \<le> sync_idx s g q"
  using GetIdx_bounds[of g "nconsumer_group (st_opt s)" q "nqueue (st_opt s)"] assms
  by (auto simp: valid_id_def sync_sized_def sync_idx_def at_in_range)

lemma sync_idx_inj:
  "valid_id s g q \<Longrightarrow> valid_id s g' q' \<Longrightarrow> sync_idx s g q = sync_idx s g' q' \<Longrightarrow> g = g' \<and> q = q'"
  by (auto simp: valid_id_def sync_idx_def dest: GetIdx_inj)

lemma GetCursorID_cursor_of:
  assumes "sync_sized s" "valid_id s g q"
  shows "GetCursorID s g q b = Some (case cursor_of s g q b of
           None \<Rightarrow> (RET_ERR_CURSOR_NOT_FOUND, NoID) | Some c \<Rightarrow> (RET_OK, c))"
proof -
  obtain item where "at (sync_buf s) (sync_idx s g q) = Some item" using valid_id_at[OF assms] by blast
  with valid_id_not_err[OF assms(2)] show ?thesis
    by (simp add: GetCursorID_def cursor_of_def item_cursor_def)
qed

lemma put_sync_simps:
  "sync_sized (s\<lparr>sync_buf := put_at (sync_buf s) i item\<rparr>) = sync_sized s"
  "valid_id (s\<lparr>sync_buf := b\<rparr>) = valid_id s" "sync_idx (s\<lparr>sync_buf := b\<rparr>) = sync_idx s"
  "sync_arg_err (s\<lparr>sync_buf := b\<rparr>) = sync_arg_err s"
  by (auto simp: fun_eq_iff sync_sized_def valid_id_def sync_idx_def sync_arg_err_def)

lemma item_cursor_set:
  "item_cursor b (set_cursor b' c item) = (if b = b' then (RET_OK, c) else item_cursor b item)"
  by (auto simp: item_cursor_def set_cursor_def)

lemma cursor_of_put:
  assumes "sync_sized s" "valid_id s g q" "valid_id s g' q'" "at (sync_buf s) (sync_idx s g q) = Some item"
  shows "cursor_of (s\<lparr>sync_buf := put_at (sync_buf s) (sync_idx s g q) item'\<rparr>) g' q' b =
     (if g' = g \<and> q' = q then (case item_cursor b item' of (ret, c) \<Rightarrow> if ret = RET_OK then Some c else None)
      else cursor_of s g' q' b)"
proof (cases "g' = g \<and> q' = q")
  case True
  with assms valid_id_not_err[OF assms(2)] show ?thesis
    by (simp add: cursor_of_def GetCursorID_def put_sync_simps at_put_at_same)
next
  case False
  then have "sync_idx s g q \<noteq> sync_idx s g' q'" using sync_idx_inj assms(2,3) by blast
  moreover obtain "0 \<le> sync_idx s g q" using valid_id_at[OF assms(1,2)] by blast
  ultimately have "cursor_of (s\<lparr>sync_buf := put_at (sync_buf s) (sync_idx s g q) item'\<rparr>) g' q' b = cursor_of s g' q' b"
    by (simp add: cursor_of_def GetCursorID_def put_sync_simps at_put_at_other)
  then show ?thesis unfolding if_not_P[OF False] .
qed

lemma UpdateCursorID_valid:
  assumes "sync_sized s" "valid_id s g q"
  shows "\<exists>s'. UpdateCursorID s g q c b = Some (RET_OK, s')
     \<and> sync_sized s' \<and> valid_id s' = valid_id s
     \<and> (\<forall>g' q' b'. valid_id s g' q' \<longrightarrow>
          cursor_of s' g' q' b' = (if g' = g \<and> q' = q \<and> b' = b then Some c else cursor_of s g' q' b'))"
proof -
  obtain item where item: "at (sync_buf s) (sync_idx s g q) = Some item"
    using valid_id_at[OF assms] by blast
  let ?s = "s\<lparr>sync_buf := put_at (sync_buf s) (sync_idx s g q) (set_cursor b c item)\<rparr>"
  have "UpdateCursorID s g q c b = Some (RET_OK, ?s)"
    using item valid_id_not_err[OF assms(2)] by (simp add: UpdateCursorID_def)
  moreover have "cursor_of s g q b' = (case item_cursor b' item of (ret, c) \<Rightarrow> if ret = RET_OK then Some c else None)" for b'
    using item valid_id_not_err[OF assms(2)] by (simp add: cursor_of_def GetCursorID_def)
  ultimately show ?thesis
    using assms item by (intro exI[of _ ?s]) (auto simp: put_sync_simps cursor_of_put item_cursor_set)
qed

lemma ClearCursorID_valid:
  assumes "sync_sized s" "valid_id s g q"
  shows "\<exists>s'. ClearCursorID s g q = Some (RET_OK, s')
     \<and> sync_sized s' \<and> valid_id s' = valid_id s
     \<and> (\<forall>g' q' b'. valid_id s g' q' \<longrightarrow>
          cursor_of s' g' q' b' = (if g' = g \<and> q' = q then None else cursor_of s g' q' b'))"
proof -
  obtain item where item: "at (sync_buf s) (sync_idx s g q) = Some item"
    using valid_id_at[OF assms] by blast
  let ?s = "s\<lparr>sync_buf := put_at (sync_buf s) (sync_idx s g q) SyncCtrlItem_zero\<rparr>"
  have "ClearCursorID s g q = Some (RET_OK, ?s)"
    using item valid_id_not_err[OF assms(2)] by (simp add: ClearCursorID_def)
  moreover have "item_cursor b SyncCtrlItem_zero = (RET_ERR_CURSOR_NOT_FOUND, NoID)" for b
    by (simp add: item_cursor_def SyncCtrlItem_zero_def SYNCCTRL_MAGIC_def)
  ultimately show ?thesis
    using assms item by (intro exI[of _ ?s]) (auto simp: put_sync_simps cursor_of_put)
qed

subsection \<open>The interface of a replicated cursor table\<close>

text \<open>
  What replicas rely on when they apply the master's cursors: raising a cursor takes the larger
  value and touches no other cursor. Replicas that apply the same lists of cursors, in any order
  and any number of times, end with the same table.
\<close>

definition raised :: "u64 option \<Rightarrow> u64 set \<Rightarrow> u64 option" where
  "raised p C = (let cs = set_option p \<union> C in if cs = {} then None else Some (Max cs))"

lemma raised_raised:
  assumes "finite C" "finite D"
  shows "raised (raised p C) D = raised p (C \<union> D)"
proof (cases "set_option p \<union> C = {}")
  case True
  then show ?thesis by (simp add: raised_def)
next
  case False
  have fin: "finite (set_option p \<union> C)" using assms by (cases p) auto
  have "Max (insert (Max (set_option p \<union> C)) D) = Max ((set_option p \<union> C) \<union> D)"
    using False fin assms(2) by (cases "D = {}") (simp_all add: Max_Un)
  with False show ?thesis by (auto simp: raised_def Let_def Un_assoc)
qed

locale cursor_store =
  fixes inv :: "'s \<Rightarrow> bool"
    and ok :: "'s \<Rightarrow> int \<Rightarrow> int \<Rightarrow> bool"
    and get :: "'s \<Rightarrow> int \<Rightarrow> int \<Rightarrow> u64 option"
    and raise :: "'s \<Rightarrow> int \<Rightarrow> int \<Rightarrow> u64 \<Rightarrow> 's"
  assumes raise_inv: "inv s \<Longrightarrow> ok s g q \<Longrightarrow> inv (raise s g q c) \<and> ok (raise s g q c) = ok s"
    and get_raise: "inv s \<Longrightarrow> ok s g q \<Longrightarrow> ok s g' q' \<Longrightarrow>
      get (raise s g q c) g' q' =
        (if g' = g \<and> q' = q then Some (case get s g q of None \<Rightarrow> c | Some p \<Rightarrow> max p c) else get s g' q')"
begin

fun raise_all :: "(int \<times> int \<times> u64) list \<Rightarrow> 's \<Rightarrow> 's" where
  "raise_all [] s = s"
| "raise_all ((g, q, c) # ds) s = raise_all ds (raise s g q c)"

definition all_ok :: "'s \<Rightarrow> (int \<times> int \<times> u64) list \<Rightarrow> bool" where
  "all_ok s ds \<longleftrightarrow> (\<forall>(g, q, c) \<in> set ds. ok s g q)"

lemma all_ok_simps [simp]:
  "all_ok s []" "all_ok s ((g, q, c) # ds) \<longleftrightarrow> ok s g q \<and> all_ok s ds"
  by (auto simp: all_ok_def)

lemma all_ok_raise: "inv s \<Longrightarrow> ok s g q \<Longrightarrow> all_ok (raise s g q c) ds = all_ok s ds"
  by (simp add: all_ok_def raise_inv)

lemma raise_all_inv: "inv s \<Longrightarrow> all_ok s ds \<Longrightarrow> inv (raise_all ds s) \<and> ok (raise_all ds s) = ok s"
  by (induction ds s rule: raise_all.induct) (simp_all add: raise_inv all_ok_raise)

lemma Max_insert_max:
  "finite S \<Longrightarrow> Max (insert (max a c) S) = max c (Max (insert (a :: 'b :: linorder) S))"
  by (cases "S = {}") (simp_all add: max.assoc max.commute max.left_commute)

lemma get_raise_all:
  "inv s \<Longrightarrow> all_ok s ds \<Longrightarrow> ok s g q \<Longrightarrow>
   get (raise_all ds s) g q = raised (get s g q) {c. (g, q, c) \<in> set ds}"
  unfolding raised_def
proof (induction ds s rule: raise_all.induct)
  case (1 s)
  then show ?case by (cases "get s g q") auto
next
  case (2 g' q' c' ds s)
  have fin: "finite {c. (g, q, c) \<in> set ds}"
    by (rule finite_subset[of _ "(\<lambda>(a, b, c). c) ` set ds"]) (auto simp: image_iff, force)
  have s': "inv (raise s g' q' c')" "all_ok (raise s g' q' c') ds" "ok (raise s g' q' c') g q"
    using "2.prems" by (simp_all add: raise_inv all_ok_raise)
  have g: "get (raise s g' q' c') g q =
      (if g = g' \<and> q = q' then Some (case get s g' q' of None \<Rightarrow> c' | Some p \<Rightarrow> max p c') else get s g q)"
    using "2.prems" by (simp add: get_raise)
  show ?case
  proof (cases "g = g' \<and> q = q'")
    case True
    then have "{c. (g, q, c) \<in> set ((g', q', c') # ds)} = insert c' {c. (g, q, c) \<in> set ds}" by auto
    with True "2.IH"[OF s'] g fin show ?thesis
      by (cases "get s g q") (simp_all add: Let_def Max_insert_max)
  next
    case False
    then have "{c. (g, q, c) \<in> set ((g', q', c') # ds)} = {c. (g, q, c) \<in> set ds}" by auto
    with False "2.IH"[OF s'] g show ?thesis by (simp add: Let_def if_not_P[OF False])
  qed
qed

lemma raise_all_mono:
  assumes "inv s" "all_ok s ds" "ok s g q" "get s g q = Some p"
  shows "\<exists>p'. get (raise_all ds s) g q = Some p' \<and> p \<le> p'"
proof -
  have "finite {c. (g, q, c) \<in> set ds}"
    by (rule finite_subset[of _ "(\<lambda>(a, b, c). c) ` set ds"]) (auto simp: image_iff, force)
  with get_raise_all[OF assms(1-3)] assms(4) show ?thesis by (simp add: raised_def Let_def)
qed

lemma raise_all_perm:
  assumes "inv s" "all_ok s ds" "ok s g q" "set ds' = set ds"
  shows "get (raise_all ds' s) g q = get (raise_all ds s) g q"
proof -
  have "all_ok s ds'" using assms(2,4) by (simp add: all_ok_def)
  with get_raise_all[OF assms(1) _ assms(3)] assms(2,4) show ?thesis by simp
qed

end

text \<open>One pass of the group loop of \<open>SyncCursorID\<close> raises one cursor.\<close>

definition raise_cursor :: "StoreState \<Rightarrow> int \<Rightarrow> int \<Rightarrow> u64 \<Rightarrow> StoreState" where
  "raise_cursor s g q c =
     (case sync_groups s q NoID [\<lparr>cgd_consumer_group_id = g, cgd_prev_cursor_id = c\<rparr>] of
        Some (Inr (_, s')) \<Rightarrow> s' | _ \<Rightarrow> s)"

lemma sync_groups_step:
  assumes "sync_sized s" "valid_id s g q"
  obtains s' where
    "\<And>m ds. sync_groups s q m (\<lparr>cgd_consumer_group_id = g, cgd_prev_cursor_id = c\<rparr> # ds) =
       sync_groups s' q (if m = NoID \<or> m < c then c else m) ds"
    "sync_sized s'" "valid_id s' = valid_id s"
    "\<And>g' q'. valid_id s g' q' \<Longrightarrow> cursor_of s' g' q' True =
       (if g' = g \<and> q' = q then Some (case cursor_of s g q True of None \<Rightarrow> c | Some p \<Rightarrow> max p c)
        else cursor_of s g' q' True)"
    "\<exists>b. s' = s\<lparr>sync_buf := b\<rparr>"
proof (cases "\<exists>p. cursor_of s g q True = Some p \<and> c \<le> p")
  case True
  then show thesis
    using assms by (intro that[of s]) (auto simp: GetCursorID_cursor_of Let_def max_def intro: exI[of _ "sync_buf s"])
next
  case False
  obtain s1 where s1: "UpdateCursorID s g q c True = Some (RET_OK, s1)" "sync_sized s1"
    "valid_id s1 = valid_id s" "\<forall>g' q' b'. valid_id s g' q' \<longrightarrow>
          cursor_of s1 g' q' b' = (if g' = g \<and> q' = q \<and> b' = True then Some c else cursor_of s g' q' b')"
    using UpdateCursorID_valid[OF assms] by blast
  have v1: "valid_id s1 g q" using assms s1 by simp
  obtain s2 where s2: "UpdateCursorID s1 g q c False = Some (RET_OK, s2)" "sync_sized s2"
    "valid_id s2 = valid_id s1" "\<forall>g' q' b'. valid_id s1 g' q' \<longrightarrow>
          cursor_of s2 g' q' b' = (if g' = g \<and> q' = q \<and> b' = False then Some c else cursor_of s1 g' q' b')"
    using UpdateCursorID_valid[OF s1(2) v1] by blast
  have fr: "\<exists>b. s2 = s\<lparr>sync_buf := b\<rparr>"
    using s1(1) s2(1) by (auto simp: UpdateCursorID_def Let_def Option.bind_eq_Some_conv split: if_splits)
  have lt: "cursor_of s g q True = Some p \<Longrightarrow> max p c = c" for p using False by (auto simp: max_def not_le)
  show thesis
  proof (rule that[of s2])
    show "sync_groups s q m (\<lparr>cgd_consumer_group_id = g, cgd_prev_cursor_id = c\<rparr> # ds) =
       sync_groups s2 q (if m = NoID \<or> m < c then c else m) ds" for m ds
      using assms False s1(1) s2(1)
      by (cases "cursor_of s g q True") (auto simp: GetCursorID_cursor_of Let_def)
    show "cursor_of s2 g' q' True =
       (if g' = g \<and> q' = q then Some (case cursor_of s g q True of None \<Rightarrow> c | Some p \<Rightarrow> max p c)
        else cursor_of s g' q' True)" if "valid_id s g' q'" for g' q'
      using s1(3,4) s2(4) that lt by (auto split: option.split)
  qed (use s1 s2 fr in auto)
qed

definition cursor_get :: "StoreState \<Rightarrow> int \<Rightarrow> int \<Rightarrow> u64 option" where
  "cursor_get s g q = cursor_of s g q True"

lemma raise_cursor_valid:
  assumes "sync_sized s" "valid_id s g q"
  shows "sync_sized (raise_cursor s g q c)" "valid_id (raise_cursor s g q c) = valid_id s"
    "sync_groups s q m (\<lparr>cgd_consumer_group_id = g, cgd_prev_cursor_id = c\<rparr> # ds) =
       sync_groups (raise_cursor s g q c) q (if m = NoID \<or> m < c then c else m) ds"
    "valid_id s g' q' \<Longrightarrow> cursor_get (raise_cursor s g q c) g' q' =
       (if g' = g \<and> q' = q then Some (case cursor_get s g q of None \<Rightarrow> c | Some p \<Rightarrow> max p c)
        else cursor_get s g' q')"
    "\<exists>b. raise_cursor s g q c = s\<lparr>sync_buf := b\<rparr>"
proof -
  obtain s' where s': "\<And>m ds. sync_groups s q m (\<lparr>cgd_consumer_group_id = g, cgd_prev_cursor_id = c\<rparr> # ds) =
       sync_groups s' q (if m = NoID \<or> m < c then c else m) ds"
    "sync_sized s'" "valid_id s' = valid_id s"
    "\<And>g' q'. valid_id s g' q' \<Longrightarrow> cursor_of s' g' q' True =
       (if g' = g \<and> q' = q then Some (case cursor_of s g q True of None \<Rightarrow> c | Some p \<Rightarrow> max p c)
        else cursor_of s g' q' True)"
    "\<exists>b. s' = s\<lparr>sync_buf := b\<rparr>"
    by (rule sync_groups_step[OF assms, of c]) (rule that; assumption?; blast)
  have rc: "raise_cursor s g q c = s'" unfolding raise_cursor_def s'(1) by simp
  show "sync_sized (raise_cursor s g q c)" "valid_id (raise_cursor s g q c) = valid_id s"
    using s'(2,3) rc by simp_all
  show "sync_groups s q m (\<lparr>cgd_consumer_group_id = g, cgd_prev_cursor_id = c\<rparr> # ds) =
       sync_groups (raise_cursor s g q c) q (if m = NoID \<or> m < c then c else m) ds"
    unfolding rc by (rule s'(1))
  show "cursor_get (raise_cursor s g q c) g' q' =
       (if g' = g \<and> q' = q then Some (case cursor_get s g q of None \<Rightarrow> c | Some p \<Rightarrow> max p c)
        else cursor_get s g' q')" if "valid_id s g' q'"
    unfolding rc cursor_get_def by (rule s'(4)[OF that])
  show "\<exists>b. raise_cursor s g q c = s\<lparr>sync_buf := b\<rparr>" unfolding rc by (rule s'(5))
qed

interpretation sync_table: cursor_store sync_sized valid_id cursor_get raise_cursor
  by unfold_locales (simp_all add: raise_cursor_valid)

definition detail_list :: "QueueDetail \<Rightarrow> (int \<times> int \<times> u64) list" where
  "detail_list d = map (\<lambda>g. (cgd_consumer_group_id g, qd_queue_id d, cgd_prev_cursor_id g))
     (qd_consumer_group_details d)"

definition info_list :: "SyncCtrlInfo \<Rightarrow> (int \<times> int \<times> u64) list" where
  "info_list info = concat (map detail_list info)"

lemma sync_groups_raise_all:
  assumes "sync_sized s" "\<forall>d \<in> set ds. valid_id s (cgd_consumer_group_id d) q"
  shows "\<exists>m' b. sync_groups s q m ds = Some (Inr (m', s\<lparr>sync_buf := b\<rparr>))
     \<and> s\<lparr>sync_buf := b\<rparr> =
        sync_table.raise_all (map (\<lambda>g. (cgd_consumer_group_id g, q, cgd_prev_cursor_id g)) ds) s"
  using assms
proof (induction ds arbitrary: s m)
  case Nil
  have "s = s\<lparr>sync_buf := sync_buf s\<rparr>" by simp
  then show ?case by (metis list.map(1) sync_groups.simps(1) sync_table.raise_all.simps(1))
next
  case (Cons d ds)
  let ?g = "cgd_consumer_group_id d" and ?c = "cgd_prev_cursor_id d"
  have d: "d = \<lparr>cgd_consumer_group_id = ?g, cgd_prev_cursor_id = ?c\<rparr>" by simp
  have v: "valid_id s ?g q" using Cons.prems by simp
  note rv = raise_cursor_valid[OF Cons.prems(1) v, where c = ?c]
  obtain b where b: "raise_cursor s ?g q ?c = s\<lparr>sync_buf := b\<rparr>" using rv(5) by blast
  have "\<forall>d \<in> set ds. valid_id (raise_cursor s ?g q ?c) (cgd_consumer_group_id d) q"
    using Cons.prems rv(2) by simp
  from Cons.IH[OF rv(1) this, of "if m = NoID \<or> m < ?c then ?c else m"] obtain m' b' where
    "sync_groups (raise_cursor s ?g q ?c) q (if m = NoID \<or> m < ?c then ?c else m) ds =
       Some (Inr (m', (raise_cursor s ?g q ?c)\<lparr>sync_buf := b'\<rparr>))"
    "(raise_cursor s ?g q ?c)\<lparr>sync_buf := b'\<rparr> =
       sync_table.raise_all (map (\<lambda>g. (cgd_consumer_group_id g, q, cgd_prev_cursor_id g)) ds)
         (raise_cursor s ?g q ?c)" by blast
  with rv(3)[of m ds] b show ?case by (subst d, intro exI[of _ m'] exI[of _ b']) simp
qed

lemma cursor_get_meta_queues [simp]: "cursor_get (s\<lparr>meta_queues := qs\<rparr>) = cursor_get s"
  by (simp add: fun_eq_iff cursor_get_def cursor_of_def GetCursorID_def sync_arg_err_def sync_idx_def)

lemma valid_id_meta_queues [simp]: "valid_id (s\<lparr>meta_queues := qs\<rparr>) = valid_id s"
  by (simp add: fun_eq_iff valid_id_def)

lemma sync_sized_meta_queues [simp]: "sync_sized (s\<lparr>meta_queues := qs\<rparr>) = sync_sized s"
  by (simp add: sync_sized_def)

lemma info_list_Cons: "set (info_list (d # ds)) = set (detail_list d) \<union> set (info_list ds)"
  by (simp add: info_list_def)

lemma finite_cursors_in: "finite {c. (g, q, c) \<in> set (ds :: (int \<times> int \<times> u64) list)}"
  by simp

definition valid_info :: "StoreState \<Rightarrow> SyncCtrlInfo \<Rightarrow> bool" where
  "valid_info s info \<longleftrightarrow> (\<forall>d \<in> set info. 0 \<le> qd_queue_id d \<and> qd_queue_id d < nqueue (st_opt s)
     \<and> (\<forall>g \<in> set (qd_consumer_group_details d). valid_id s (cgd_consumer_group_id g) (qd_queue_id d)))"

lemma map_cursors_put_at:
  assumes "at qs i = Some q" and "cursors q' = cursors q"
  shows "map cursors (put_at qs i q') = map cursors qs"
proof -
  have "nat i < length qs" "q = qs ! nat i" using at_SomeD[OF assms(1)] by auto
  then have "cursors q' = map cursors qs ! nat i" using assms(2) by simp
  then show ?thesis unfolding put_at_def map_update by (metis list_update_id)
qed

lemma sync_queues_raises:
  assumes "wf_store crc32 s" "valid_info s info"
  shows "\<exists>b qs. sync_queues s info = Some (RET_OK, s\<lparr>sync_buf := b, meta_queues := qs\<rparr>)
     \<and> wf_store crc32 (s\<lparr>sync_buf := b, meta_queues := qs\<rparr>)
     \<and> map cursors qs = map cursors (meta_queues s)
     \<and> (\<forall>g q. valid_id s g q \<longrightarrow> cursor_get (s\<lparr>sync_buf := b, meta_queues := qs\<rparr>) g q =
          raised (cursor_get s g q) {c. (g, q, c) \<in> set (info_list info)})"
  using assms
proof (induction info arbitrary: s)
  case Nil
  have "s = s\<lparr>sync_buf := sync_buf s, meta_queues := meta_queues s\<rparr>" by simp
  moreover have "raised p {} = p" for p by (cases p) (simp_all add: raised_def)
  ultimately show ?case
    using Nil.prems(1) by (intro exI[of _ "sync_buf s"] exI[of _ "meta_queues s"]) (simp add: info_list_def)
next
  case (Cons d info)
  note sz = wf_store_sync_sized[OF Cons.prems(1)]
  let ?q = "qd_queue_id d" and ?ds = "qd_consumer_group_details d"
  have v: "\<forall>g \<in> set ?ds. valid_id s (cgd_consumer_group_id g) ?q" "0 \<le> ?q" "?q < nqueue (st_opt s)"
    using Cons.prems(2) by (simp_all add: valid_info_def)
  obtain m b where m: "sync_groups s ?q NoID ?ds = Some (Inr (m, s\<lparr>sync_buf := b\<rparr>))"
    and b: "s\<lparr>sync_buf := b\<rparr> = sync_table.raise_all (detail_list d) s"
    using sync_groups_raise_all[OF sz v(1), of NoID] by (auto simp: detail_list_def)
  have ok: "sync_table.all_ok s (detail_list d)"
    using v(1) by (auto simp: sync_table.all_ok_def detail_list_def)
  note inv1 = sync_table.raise_all_inv[OF sz ok, folded b]
  have get1: "cursor_get (s\<lparr>sync_buf := b\<rparr>) g q = raised (cursor_get s g q) {c. (g, q, c) \<in> set (detail_list d)}"
    if "valid_id s g q" for g q
    unfolding b by (rule sync_table.get_raise_all[OF sz ok that])
  obtain mq where mq: "at (meta_queues s) ?q = Some mq"
    using v(2,3) wf_storeD(2)[OF Cons.prems(1)] by (auto simp: at_in_range)
  let ?mq' = "if m = NoID then ClearDequeueStat mq else UpdateDeuqueStat (StoreMeta_of m) mq"
  let ?qs = "put_at (meta_queues s) ?q ?mq'"
  let ?s1 = "s\<lparr>sync_buf := b, meta_queues := ?qs\<rparr>"
  have wfq: "wf_queue crc32 ?mq'"
    using wf_storeD(5)[OF Cons.prems(1) mq] by (simp add: wf_queue_ClearDequeueStat wf_queue_UpdateDeuqueStat)
  have "wf_store crc32 (s\<lparr>sync_buf := b\<rparr>)"
    using Cons.prems(1) inv1 by (simp add: wf_store_def sync_sized_def)
  from wf_store_put_queue[OF this wfq, of ?q] have wf1: "wf_store crc32 ?s1" by simp
  have vid: "valid_id ?s1 = valid_id s" using inv1 by simp
  have "valid_info ?s1 info" using Cons.prems(2) vid by (simp add: valid_info_def)
  from Cons.IH[OF wf1 this] obtain b' qs' where
    IH: "sync_queues ?s1 info = Some (RET_OK, ?s1\<lparr>sync_buf := b', meta_queues := qs'\<rparr>)"
    "wf_store crc32 (?s1\<lparr>sync_buf := b', meta_queues := qs'\<rparr>)"
    "map cursors qs' = map cursors (meta_queues ?s1)"
    "\<forall>g q. valid_id ?s1 g q \<longrightarrow> cursor_get (?s1\<lparr>sync_buf := b', meta_queues := qs'\<rparr>) g q =
          raised (cursor_get ?s1 g q) {c. (g, q, c) \<in> set (info_list info)}" by blast
  have "sync_queues s (d # info) = sync_queues ?s1 info"
    using m mq v(3) by (simp add: GetMetaQueue_def Let_def)
  moreover have "map cursors ?qs = map cursors (meta_queues s)"
    by (rule map_cursors_put_at[OF mq]) simp
  moreover have "cursor_get (?s1\<lparr>sync_buf := b', meta_queues := qs'\<rparr>) g q =
      raised (cursor_get s g q) {c. (g, q, c) \<in> set (info_list (d # info))}" if "valid_id s g q" for g q
  proof -
    have "{c. (g, q, c) \<in> set (info_list (d # info))} =
      {c. (g, q, c) \<in> set (detail_list d)} \<union> {c. (g, q, c) \<in> set (info_list info)}"
      by (auto simp: info_list_Cons)
    with IH(4) get1[OF that] that vid show ?thesis
      by (simp add: raised_raised)
  qed
  ultimately show ?case
    using IH(1-3) by (intro exI[of _ b'] exI[of _ qs']) simp
qed

text \<open>Applying the cursors published by the master succeeds on every replica whose tables
  have the configured size, leaves every stored cursor at the largest of its old value and the
  values published for it (so no cursor moves back, and replicas that apply the same sets of
  cursors agree), and changes no index.\<close>

theorem SyncCursorID_raises:
  assumes "wf_store crc32 s" and "valid_info s info"
  shows "\<exists>s'. SyncCursorID s info = Some (RET_OK, s') \<and> wf_store crc32 s'
     \<and> map cursors (meta_queues s') = map cursors (meta_queues s)
     \<and> (\<forall>g q. valid_id s g q \<longrightarrow>
          cursor_get s' g q = raised (cursor_get s g q) {c. (g, q, c) \<in> set (info_list info)})"
proof -
  obtain b qs where "sync_queues s info = Some (RET_OK, s\<lparr>sync_buf := b, meta_queues := qs\<rparr>)"
    "wf_store crc32 (s\<lparr>sync_buf := b, meta_queues := qs\<rparr>)"
    "map cursors qs = map cursors (meta_queues s)"
    "\<forall>g q. valid_id s g q \<longrightarrow> cursor_get (s\<lparr>sync_buf := b, meta_queues := qs\<rparr>) g q =
          raised (cursor_get s g q) {c. (g, q, c) \<in> set (info_list info)}"
    using sync_queues_raises[OF assms] by blast
  then show ?thesis
    by (intro exI[of _ "s\<lparr>sync_buf := b, meta_queues := qs\<rparr>"]) (simp add: SyncCursorID_def)
qed

definition sample_opt :: StoreOption where
  "sample_opt = \<lparr>opt_topic = ''test'', opt_ip = ''127.0.0.1'', opt_port = 5100, opt_paxos_port = 5101,
     ngroup = 2, nconsumer_group = 2, nqueue = 4, npaxos_iothread = 3\<rparr>"

definition sample_store :: StoreState where
  "sample_store = \<lparr>st_opt = sample_opt, st_topic_id = 1000, st_addr = opt_addr sample_opt,
     meta_queues = replicate 4 StoreMetaQueue_new, sync_buf = replicate 8 SyncCtrlItem_zero,
     sync_last_mod_time = 0, cp_stats = replicate 2 \<lparr>cp_magic = 0, cp_cp = 0\<rparr>, dropped_masters = []\<rparr>"

lemma wf_sample_store: "wf_store crc32 sample_store"
  by (simp add: wf_store_def sample_store_def sample_opt_def wf_opt_def wf_queue_new)

definition sample_info :: SyncCtrlInfo where
  "sample_info = [\<lparr>qd_queue_id = 3, qd_consumer_group_details =
     [\<lparr>cgd_consumer_group_id = 2, cgd_prev_cursor_id = 7\<rparr>, \<lparr>cgd_consumer_group_id = 2, cgd_prev_cursor_id = 5\<rparr>]\<rparr>]"

theorem SyncCursorID_raises_witness:
  "\<exists>s'. SyncCursorID sample_store sample_info = Some (RET_OK, s') \<and> cursor_get s' 2 3 = Some 7"
proof -
  have v: "valid_info sample_store sample_info"
    by (simp add: valid_info_def valid_id_def sample_store_def sample_info_def sample_opt_def)
  have "valid_id sample_store 2 3" by (simp add: valid_id_def sample_store_def sample_opt_def)
  moreover have "raised (cursor_get sample_store 2 3) {c. (2, 3, c) \<in> set (info_list sample_info)} = Some 7"
  proof -
    have "{c. (2, 3, c) \<in> set (info_list sample_info)} = {7, 5}"
      by (auto simp: info_list_def detail_list_def sample_info_def)
    moreover have "cursor_get sample_store 2 3 = None" by code_simp
    ultimately show ?thesis by (simp add: raised_def)
  qed
  ultimately show ?thesis
    using SyncCursorID_raises[OF wf_sample_store v, of "\<lambda>_ _. 0"] by metis
qed

text \<open>
  The guard of the methods tests \<open>!consumer_group_id\<close> and the upper bounds only, so a negative
  id reaches the array access.
\<close>

lemma GetCursorID_negative_id:
  assumes "0 \<le> nconsumer_group (st_opt s)" "g \<noteq> 0" "g \<le> nconsumer_group (st_opt s)" "q < 0" "q < nqueue (st_opt s)"
  shows "GetCursorID s g q b = None"
proof -
  have "q * nconsumer_group (st_opt s) \<le> (-1) * nconsumer_group (st_opt s)"
    using assms by (intro mult_right_mono) auto
  then have "sync_idx s g q < 0"
    using assms(3) by (simp add: sync_idx_def GetIdx_def)
  then show ?thesis using assms by (simp add: GetCursorID_def sync_arg_err_def at_def)
qed

end
