(* ===== verification/BaseMgr.thy ===== *)
theory BaseMgr
  imports CheckPointStat SyncCtrl
begin

section \<open>BaseMgr (store/basemgr.cpp)\<close>

text \<open>
  \<open>Add\<close> records in the index of a queue that a paxos instance carries items of the queue, \<open>Get\<close>
  hands the items of the following instances to a consumer group. One pass of the read loop is
  \<open>get_step\<close>; \<open>get_loop\<close> runs it at most 512 times, the code's own bound. \<open>clock i\<close> is the
  steady clock as read in pass \<open>i\<close>. A shift by a negative amount or by 64 and more in \<open>SkipGet\<close>
  is undefined behaviour (\<^const>\<open>None\<close>).
\<close>

definition BaseMgr_Init :: "StoreState \<Rightarrow> RetCode \<times> StoreState" where
  "BaseMgr_Init s = (RET_OK, s\<lparr>meta_queues := replicate (nat (nqueue (st_opt s))) StoreMetaQueue_new\<rparr>)"

definition NeedSkipAdd :: "StoreEnv \<Rightarrow> StoreState \<Rightarrow> u64 \<Rightarrow> AddRequest \<Rightarrow> bool option" where
  "NeedSkipAdd env s cursor_id req =
     (if add_items req = [] then Some True
      else do {
        meta_queue \<leftarrow> at (meta_queues s) (add_queue_id req);
        Some (case Back meta_queue of
                Some back_meta \<Rightarrow>
                  if cursor_id \<le> sm_cursor_id back_meta then True
                  else (case GetTopicConfigByTopicID (env_config env) (st_topic_id s) of
                          Inl ret \<Rightarrow> True
                        | Inr topic_config \<Rightarrow> \<not> IsValidQueue topic_config (add_queue_id req) (-1) (-1))
              | None \<Rightarrow>
                  (case GetTopicConfigByTopicID (env_config env) (st_topic_id s) of
                     Inl ret \<Rightarrow> True
                   | Inr topic_config \<Rightarrow> \<not> IsValidQueue topic_config (add_queue_id req) (-1) (-1))) })"

definition BaseMgr_Add :: "StoreEnv \<Rightarrow> StoreState \<Rightarrow> u64 \<Rightarrow> AddRequest \<Rightarrow> (RetCode \<times> StoreState) option" where
  "BaseMgr_Add env s cursor_id req =
     (case GetTopicConfigByTopicID (env_config env) (st_topic_id s) of
        Inl ret \<Rightarrow> Some (ret, s)
      | Inr topic_config \<Rightarrow>
          case GetQueueInfoByQueue topic_config (add_queue_id req) of
            Inl ret \<Rightarrow> Some (ret, s)
          | Inr queue_info \<Rightarrow>
              if add_items req = [] then Some (RET_OK, s)
              else do {
                skip \<leftarrow> NeedSkipAdd env s cursor_id req;
                if skip then Some (RET_ADD_SKIP, s)
                else do {
                  meta_queue \<leftarrow> at (meta_queues s) (add_queue_id req);
                  let (_, meta_queue') = PushBack (env_crc32 env) (StoreMeta_of cursor_id) meta_queue;
                  Some (RET_OK, s\<lparr>meta_queues := put_at (meta_queues s) (add_queue_id req) meta_queue'\<rparr>) } })"

text \<open>The items of one paxos instance that belong to a queue.\<close>

fun items_of_values ::
  "StoreEnv \<Rightarrow> int \<Rightarrow> u64 \<Rightarrow> (string \<times> int) list \<Rightarrow> QItem list \<Rightarrow> RetCode \<times> QItem list" where
  "items_of_values env queue_id cursor_id [] items = (RET_OK, items)"
| "items_of_values env queue_id cursor_id ((value, smid) # values) items =
     (if smid \<noteq> StoreSM_ID then items_of_values env queue_id cursor_id values items
      else case ParseStorePaxosArgs env value of
             None \<Rightarrow> (RET_ERR_PAXOS_VALUE_PARSE, items)
           | Some args \<Rightarrow>
               (case pa_add_req args of
                  None \<Rightarrow> items_of_values env queue_id cursor_id values items
                | Some add_req \<Rightarrow>
                    if add_items add_req = [] \<or> queue_id \<noteq> add_queue_id add_req
                    then items_of_values env queue_id cursor_id values items
                    else items_of_values env queue_id cursor_id values
                           (items @ map (\<lambda>i. i\<lparr>qi_cursor_id := cursor_id\<rparr>) (add_items add_req))))"

definition GetItemsByCursorID :: "StoreEnv \<Rightarrow> StoreOption \<Rightarrow> int \<Rightarrow> u64 \<Rightarrow> (RetCode \<times> QItem list) option" where
  "GetItemsByCursorID env opt queue_id cursor_id = do {
     paxos_group_id \<leftarrow> cmod queue_id (ngroup opt);
     Some (case GetInstanceValue env paxos_group_id cursor_id of
             Value_Not_Chosen_Yet \<Rightarrow> (RET_ERR_PAXOS_NOT_CHOSEN, [])
           | Value_NotExist \<Rightarrow> (RET_OK, [])
           | Value_Error \<Rightarrow> (RET_ERR_PAXOS_GET_INSTANCE_VALUE, [])
           | Value_Chosen values \<Rightarrow> items_of_values env queue_id cursor_id values []) }"

text \<open>\<open>Store::SkipGet\<close>: items of another topic, or not addressed to the consumer group.\<close>

definition SkipGet :: "QItem \<Rightarrow> GetRequest \<Rightarrow> bool option" where
  "SkipGet item req =
     (if meta_topic_id (qi_meta item) \<noteq> get_topic_id req then Some True
      else let k = get_consumer_group_id req - 1
           in if k < 0 \<or> 64 \<le> k then None
              else Some (and (push_bit (nat k) (1 :: u64)) (qi_consumer_group_ids item) = 0))"

record GetCtx =
  gc_env :: StoreEnv
  gc_opt :: StoreOption
  gc_req :: GetRequest
  gc_topic_config :: TopicConfig
  gc_queue_info_id :: int
  gc_cp :: u64
  gc_min_instance_id :: u64
  gc_prev_cursor_id :: u64

record GetLoop =
  gl_queue :: StoreMetaQueue
  gl_items :: "QItem list"
  gl_next :: u64
  gl_byte_size :: u64
  gl_start_ts :: u64

datatype LoopOutcome = LoopContinue | LoopBreak | LoopError

fun keep_items :: "GetCtx \<Rightarrow> QItem list \<Rightarrow> QItem list option" where
  "keep_items ctx [] = Some []"
| "keep_items ctx (item # items) = do {
     skip \<leftarrow> SkipGet item (gc_req ctx);
     rest \<leftarrow> keep_items ctx items;
     Some (if skip \<or> ShouldSkip (gc_topic_config ctx) item (get_consumer_group_id (gc_req ctx)) (gc_queue_info_id ctx)
           then rest else item # rest) }"

definition next_instance :: "GetCtx \<Rightarrow> GetLoop \<Rightarrow> u64 option \<times> StoreMetaQueue" where
  "next_instance ctx l =
     (if gc_cp ctx = NoID \<or> gc_cp ctx \<le> gl_next l
      then (case Next (env_crc32 (gc_env ctx)) (StoreMeta_of (gl_next l)) (gl_queue l) of
              (None, q) \<Rightarrow> (None, q)
            | (Some (meta, crc_chk_pass), q) \<Rightarrow> (Some (sm_cursor_id meta), q))
      else if gc_min_instance_id ctx \<noteq> NoID \<and> gl_next l < gc_min_instance_id ctx
      then (Some (gc_min_instance_id ctx), gl_queue l)
      else (Some (gl_next l + 1), gl_queue l))"

definition after_atime :: "GetRequest \<Rightarrow> QItem \<Rightarrow> bool" where
  "after_atime req item \<longleftrightarrow>
     get_atime req \<noteq> 0 \<and> (get_atime req < qi_atime item
       \<or> (qi_atime item = get_atime req \<and> get_atime_ms req < qi_atime_ms item))"

definition get_step :: "GetCtx \<Rightarrow> u64 \<Rightarrow> GetLoop \<Rightarrow> (LoopOutcome \<times> GetLoop) option" where
  "get_step ctx now_ts l =
     (let req = gc_req ctx; topic = tp_topic (tc_proto (gc_topic_config ctx));
          max_ms = word_of_int (store_get_loop_max_time_ms topic);
          late = (gl_start_ts l \<noteq> 0 \<and> gl_start_ts l + max_ms < now_ts);
          l = (if gl_start_ts l = 0 then l\<lparr>gl_start_ts := now_ts\<rparr> else l)
      in if late then Some (LoopBreak, l)
         else case next_instance ctx l of
           (None, q) \<Rightarrow> Some (LoopBreak, l\<lparr>gl_queue := q\<rparr>)
         | (Some cur, q) \<Rightarrow>
             let l = l\<lparr>gl_queue := q\<rparr>
             in if gc_prev_cursor_id ctx \<noteq> NoID \<and> cur \<le> gc_prev_cursor_id ctx
                then Some (LoopContinue, l\<lparr>gl_next := cur\<rparr>)
                else do {
                  (ret, items) \<leftarrow> GetItemsByCursorID (gc_env ctx) (gc_opt ctx) (get_queue_id req) cur;
                  if as_integer ret < 0 then Some (LoopError, l)
                  else if as_integer ret \<noteq> 0 then Some (LoopBreak, l)
                  else if items = [] then Some (LoopContinue, l\<lparr>gl_next := cur\<rparr>)
                  else if gl_items l \<noteq> []
                       \<and> (word_of_int (get_limit req) :: u64) < of_nat (length (gl_items l)) + of_nat (length items)
                  then Some (LoopBreak, l)
                  else if after_atime req (hd items) then Some (LoopBreak, l)
                  else do {
                    kept \<leftarrow> keep_items ctx items;
                    let l = l\<lparr>gl_next := cur, gl_items := gl_items l @ kept,
                      gl_byte_size := gl_byte_size l + (\<Sum>i\<leftarrow>kept. of_nat (QItem_ByteSize (gc_env ctx) i))\<rparr>;
                    Some (if word_of_int (items_byte_size_limit topic) \<le> gl_byte_size l
                          then LoopBreak else LoopContinue, l) } })"

primrec get_loop :: "GetCtx \<Rightarrow> (nat \<Rightarrow> u64) \<Rightarrow> nat \<Rightarrow> nat \<Rightarrow> GetLoop \<Rightarrow> (bool \<times> GetLoop) option" where
  "get_loop ctx clock 0 i l = Some (True, l)"
| "get_loop ctx clock (Suc n) i l =
     (if int (length (gl_items l)) < get_limit (gc_req ctx)
      then do {
        (r, l') \<leftarrow> get_step ctx (clock i) l;
        (case r of LoopContinue \<Rightarrow> get_loop ctx clock n (i + 1) l'
         | LoopBreak \<Rightarrow> Some (True, l')
         | LoopError \<Rightarrow> Some (False, l')) }
      else Some (True, l))"

definition get_checkpoint :: "StoreEnv \<Rightarrow> StoreState \<Rightarrow> int \<Rightarrow> (u64 \<times> u64) option" where
  "get_checkpoint env s queue_id = do {
     paxos_group_id \<leftarrow> cmod queue_id (ngroup (st_opt s));
     (case GetCheckPointStat s paxos_group_id of
        None \<Rightarrow> Some (NoID, NoID)
      | Some i \<Rightarrow> do {
          stat \<leftarrow> at (cp_stats s) i;
          let (ret, tmp_cp) = GetCheckPoint stat;
          Some (if ret \<noteq> RET_OK then (NoID, NoID) else (tmp_cp, GetMinChosenInstanceID env paxos_group_id)) }) }"

definition save_cursors ::
  "StoreState \<Rightarrow> GetRequest \<Rightarrow> u64 \<Rightarrow> u64 \<Rightarrow> (RetCode \<times> StoreState) option" where
  "save_cursors s req prev nxt =
     (if get_random req then Some (RET_OK, s)
      else do {
        (ret, s) \<leftarrow> (if prev \<noteq> NoID then UpdateCursorID s (get_consumer_group_id req) (get_queue_id req) prev True
                    else Some (RET_OK, s));
        if ret \<noteq> RET_OK then Some (RET_ERR_GET_UPDATE_CURSOR_ID_FAIL, s)
        else do {
          (ret, s) \<leftarrow> (if nxt \<noteq> NoID then UpdateCursorID s (get_consumer_group_id req) (get_queue_id req) nxt False
                      else Some (RET_OK, s));
          Some (if ret \<noteq> RET_OK then RET_ERR_GET_UPDATE_CURSOR_ID_FAIL else RET_OK, s) } })"

text \<open>The cursors from which a request is served, after the comparison with the stored ones.\<close>

definition start_cursors :: "StoreState \<Rightarrow> GetRequest \<Rightarrow> (RetCode \<times> u64 \<times> u64) option" where
  "start_cursors s req =
     (if get_random req then Some (RET_OK, get_prev_cursor_id req, get_next_cursor_id req)
      else do {
        (ret, prev, nxt) \<leftarrow> AdjustNextCursorID s (get_consumer_group_id req) (get_queue_id req)
                              (get_prev_cursor_id req) (get_next_cursor_id req);
        Some (if as_integer ret < 0 then (RET_ERR_GET_ADJUST_CURSOR_ID_FAIL, prev, nxt)
              else if as_integer ret \<noteq> 0 then (RET_OK, NoID, NoID)
              else (RET_OK, prev, nxt)) })"

definition BaseMgr_Get ::
  "StoreEnv \<Rightarrow> (nat \<Rightarrow> u64) \<Rightarrow> StoreState \<Rightarrow> GetRequest \<Rightarrow> GetResponse
   \<Rightarrow> (RetCode \<times> GetResponse \<times> StoreState) option" where
  "BaseMgr_Get env clock s req resp =
     (case GetTopicConfigByTopicID (env_config env) (st_topic_id s) of
        Inl ret \<Rightarrow> Some (ret, resp, s)
      | Inr topic_config \<Rightarrow>
     case GetQueueInfoByQueue topic_config (get_queue_id req) of
        Inl ret \<Rightarrow> Some (ret, resp, s)
      | Inr queue_info \<Rightarrow>
     if nqueue (st_opt s) \<le> get_queue_id req then Some (RET_ERR_RANGE_QUEUE, resp, s)
     else do {
       meta_queue \<leftarrow> at (meta_queues s) (get_queue_id req);
       (ret, cli_prev, cli_next) \<leftarrow> start_cursors s req;
       if ret \<noteq> RET_OK then Some (ret, resp, s)
       else do {
         (_, svr_prev) \<leftarrow> GetCursorID s (get_consumer_group_id req) (get_queue_id req) True;
         (cp, min_instance_id) \<leftarrow> get_checkpoint env s (get_queue_id req);
         let (prev, nxt) = (if get_random req
                            then (svr_prev, if cli_next < svr_prev then svr_prev else cli_next)
                            else (cli_prev, cli_next));
         (ok, l) \<leftarrow> get_loop
           \<lparr>gc_env = env, gc_opt = st_opt s, gc_req = req, gc_topic_config = topic_config,
            gc_queue_info_id = qinfo_id queue_info, gc_cp = cp, gc_min_instance_id = min_instance_id,
            gc_prev_cursor_id = prev\<rparr>
           clock 512 0
           \<lparr>gl_queue = meta_queue, gl_items = resp_items resp, gl_next = nxt,
            gl_byte_size = 0, gl_start_ts = 0\<rparr>;
         let s = s\<lparr>meta_queues := put_at (meta_queues s) (get_queue_id req) (gl_queue l)\<rparr>;
         let resp = resp\<lparr>resp_items := gl_items l\<rparr>;
         if \<not> ok then Some (RET_ERR_GET_ITEM_BY_CURSOR_ID, resp, s)
         else do {
           let resp = resp\<lparr>resp_prev_cursor_id := prev, resp_next_cursor_id := gl_next l\<rparr>;
           (ret, s) \<leftarrow> save_cursors s req prev (gl_next l);
           Some (ret, resp, s) } } })"

subsection \<open>The read loop\<close>

definition items_at :: "GetCtx \<Rightarrow> u64 \<Rightarrow> QItem list" where
  "items_at ctx c =
     (case GetItemsByCursorID (gc_env ctx) (gc_opt ctx) (get_queue_id (gc_req ctx)) c of
        Some (ret, items) \<Rightarrow> if ret = RET_OK then items else [] | None \<Rightarrow> [])"

definition wanted :: "GetCtx \<Rightarrow> QItem \<Rightarrow> bool" where
  "wanted ctx item \<longleftrightarrow>
     meta_topic_id (qi_meta item) = get_topic_id (gc_req ctx)
     \<and> bit (qi_consumer_group_ids item) (nat (get_consumer_group_id (gc_req ctx) - 1))
     \<and> \<not> ShouldSkip (gc_topic_config ctx) item (get_consumer_group_id (gc_req ctx)) (gc_queue_info_id ctx)"

definition group_ok :: "GetRequest \<Rightarrow> bool" where
  "group_ok req \<longleftrightarrow> 1 \<le> get_consumer_group_id req \<and> get_consumer_group_id req \<le> 64"

lemma and_bit_eq_0: "and (2 ^ k) (x :: u64) = 0 \<longleftrightarrow> \<not> bit x k"
  using and_exp_eq_0_iff_not_bit[of x k] by (simp add: and.commute)

lemma keep_items_filter:
  "group_ok (gc_req ctx) \<Longrightarrow> keep_items ctx items = Some (filter (wanted ctx) items)"
proof (induction items)
  case (Cons i items)
  have "nat (get_consumer_group_id (gc_req ctx) - 1) < 64"
    using Cons.prems by (auto simp: group_ok_def)
  with Cons show ?case
    by (auto simp: SkipGet_def Let_def wanted_def group_ok_def and_bit_eq_0)
qed simp

lemma next_instance_NextID:
  "next_instance ctx l =
     (if gc_cp ctx = NoID \<or> gc_cp ctx \<le> gl_next l
      then NextID (env_crc32 (gc_env ctx)) (gl_next l) (gl_queue l)
      else if gc_min_instance_id ctx \<noteq> NoID \<and> gl_next l < gc_min_instance_id ctx
      then (Some (gc_min_instance_id ctx), gl_queue l)
      else (Some (gl_next l + 1), gl_queue l))"
  by (auto simp: next_instance_def NextID_def split: prod.splits option.splits)

text \<open>
  What the loop relies on: every instance above the checkpoint that carries items of the queue is
  in the index (\<open>covered\<close>), and instances below the smallest chosen one carry nothing any more.
\<close>

definition covered :: "GetCtx \<Rightarrow> u64 list \<Rightarrow> bool" where
  "covered ctx C \<longleftrightarrow>
     (\<forall>c. items_at ctx c \<noteq> [] \<and> (gc_cp ctx = NoID \<or> gc_cp ctx < c) \<longrightarrow> c \<in> set C)
     \<and> (gc_min_instance_id ctx \<noteq> NoID \<longrightarrow> (\<forall>c < gc_min_instance_id ctx. items_at ctx c = []))"

lemma next_instance_next:
  assumes wf: "wf_queue (env_crc32 (gc_env ctx)) (gl_queue l)"
    and cov: "covered ctx (cursors (gl_queue l))"
    and n: "next_instance ctx l = (Some cur, q')"
  shows "cur \<noteq> NoID \<and> after (gl_next l) cur
     \<and> (\<forall>c. after (gl_next l) c \<and> c < cur \<and> (gl_next l = NoID \<longrightarrow> hd (cursors (gl_queue l)) \<le> c)
          \<longrightarrow> items_at ctx c = [])
     \<and> (gl_next l = NoID \<longrightarrow> cursors (gl_queue l) \<noteq> [] \<and> hd (cursors (gl_queue l)) \<le> cur)"
proof -
  let ?n = "gl_next l" and ?cp = "gc_cp ctx"
  consider (meta) "?cp = NoID \<or> ?cp \<le> ?n"
    | (min) "\<not> (?cp = NoID \<or> ?cp \<le> ?n)" "gc_min_instance_id ctx \<noteq> NoID" "?n < gc_min_instance_id ctx"
    | (succ) "\<not> (?cp = NoID \<or> ?cp \<le> ?n)" "\<not> (gc_min_instance_id ctx \<noteq> NoID \<and> ?n < gc_min_instance_id ctx)"
    by blast
  then show ?thesis
  proof cases
    case meta
    then have nx: "NextID (env_crc32 (gc_env ctx)) ?n (gl_queue l) = (Some cur, q')"
      using n by (simp add: next_instance_NextID)
    note least = meta_queue.nxt_least[OF wf nx]
    have ne: "cursors (gl_queue l) \<noteq> []" using least by auto
    then have hd: "cursors (gl_queue l) \<noteq> [] \<and> hd (cursors (gl_queue l)) \<le> cur"
      using least sorted_by_hd[of "\<lambda>c. c" "cursors (gl_queue l)" cur] sorted_cursors[OF wf]
      by (simp add: sorted_by_def)
    have "items_at ctx c = []"
      if c: "after ?n c" "c < cur" "?n = NoID \<longrightarrow> hd (cursors (gl_queue l)) \<le> c" for c
    proof (rule ccontr)
      assume i: "items_at ctx c \<noteq> []"
      show False
      proof (cases "?n = NoID")
        case True
        then have "cur \<le> hd (cursors (gl_queue l))" using least hd by simp
        with c True show False by simp
      next
        case False
        with meta c(1) have "?cp = NoID \<or> ?cp < c" by (auto simp: after_def)
        with cov i have "c \<in> set (cursors (gl_queue l))" by (auto simp: covered_def)
        with least c(1) have "cur \<le> c" by blast
        with c(2) show False by simp
      qed
    qed
    moreover have "cur \<noteq> NoID"
      using least meta_queue.cur_valid[OF wf] by auto
    ultimately show ?thesis using least hd by blast
  next
    case min
    then have "cur = gc_min_instance_id ctx" using n by (simp add: next_instance_NextID)
    with min cov show ?thesis by (auto simp: covered_def after_def)
  next
    case succ
    then have cur: "cur = ?n + 1" using n unfolding next_instance_NextID by (metis prod.inject option.inject)
    have lt: "?n < ?cp" "?cp \<noteq> NoID" using succ by auto
    then have "?n + 1 \<le> ?cp" "?n \<noteq> NoID" using u64_add1_le by auto
    moreover from this have "?n + 1 \<noteq> NoID" using lt(2) by (metis u64_less_NoID u64_not_NoID_less order_le_less)
    moreover have "\<not> (?n < c \<and> c < ?n + 1)" for c using u64_add1_le[of ?n c] by auto
    moreover have "?n < ?n + 1" using u64_less_add1[of ?n ?n] \<open>?n \<noteq> NoID\<close> by simp
    ultimately show ?thesis using cur by (auto simp: after_def)
  qed
qed

lemma next_instance_queue:
  assumes "wf_queue (env_crc32 (gc_env ctx)) (gl_queue l)" "next_instance ctx l = (r, q')"
  shows "wf_queue (env_crc32 (gc_env ctx)) q' \<and> cursors q' = cursors (gl_queue l)"
  using assms(2) meta_queue.nxt_frame[OF assms(1), of "gl_next l"] assms(1)
  by (auto simp: next_instance_NextID split: if_splits)

definition window :: "GetCtx \<Rightarrow> u64 list \<Rightarrow> u64 \<Rightarrow> u64 \<Rightarrow> u64 set" where
  "window ctx C n0 n = {c. (if n0 = NoID then C \<noteq> [] \<and> hd C \<le> c else n0 < c) \<and> c \<le> n
     \<and> (gc_prev_cursor_id ctx = NoID \<or> gc_prev_cursor_id ctx < c) \<and> items_at ctx c \<noteq> []}"

definition kept_at :: "GetCtx \<Rightarrow> u64 \<Rightarrow> QItem list" where
  "kept_at ctx c = filter (wanted ctx) (items_at ctx c)"

definition served :: "GetCtx \<Rightarrow> u64 list \<Rightarrow> u64 \<Rightarrow> u64 \<Rightarrow> QItem list \<Rightarrow> bool" where
  "served ctx C n0 n items \<longleftrightarrow>
     (n = n0 \<and> items = [])
     \<or> (n \<noteq> NoID \<and> after n0 n \<and> (n0 = NoID \<longrightarrow> C \<noteq> [] \<and> hd C \<le> n)
        \<and> (\<exists>cs. sorted_wrt (<) cs \<and> set cs = window ctx C n0 n
              \<and> items = concat (map (kept_at ctx) cs)))"

lemma served_extend:
  assumes s: "served ctx C n0 n items"
    and cur: "cur \<noteq> NoID" "after n cur"
    and gap: "\<forall>c. after n c \<and> c < cur \<and> (n = NoID \<longrightarrow> hd C \<le> c) \<longrightarrow> items_at ctx c = []"
    and first: "n = NoID \<longrightarrow> C \<noteq> [] \<and> hd C \<le> cur"
    and k: "ks = (if gc_prev_cursor_id ctx \<noteq> NoID \<and> cur \<le> gc_prev_cursor_id ctx then [] else kept_at ctx cur)"
  shows "served ctx C n0 cur (items @ ks)"
proof -
  let ?skip = "(gc_prev_cursor_id ctx \<noteq> NoID \<and> cur \<le> gc_prev_cursor_id ctx) \<or> items_at ctx cur = []"
  have old: "\<exists>cs. sorted_wrt (<) cs \<and> set cs = {c \<in> window ctx C n0 cur. \<not> after n c}
       \<and> items = concat (map (kept_at ctx) cs)"
    and aft: "after n0 cur" and hd: "n0 = NoID \<longrightarrow> C \<noteq> [] \<and> hd C \<le> cur"
  proof -
    consider (start) "n = n0" "items = []"
      | (later) cs where "n \<noteq> NoID" "after n0 n" "n0 = NoID \<longrightarrow> C \<noteq> [] \<and> hd C \<le> n" "sorted_wrt (<) cs"
          "set cs = window ctx C n0 n" "items = concat (map (kept_at ctx) cs)"
      using s by (auto simp: served_def)
    then show "\<exists>cs. sorted_wrt (<) cs \<and> set cs = {c \<in> window ctx C n0 cur. \<not> after n c}
       \<and> items = concat (map (kept_at ctx) cs)"
    proof cases
      case start
      then show ?thesis by (intro exI[of _ "[]"]) (auto simp: window_def after_def)
    next
      case later
      then have "n < cur" using cur by (auto simp: after_def)
      with later(1) have "window ctx C n0 n = {c \<in> window ctx C n0 cur. \<not> after n c}"
        by (auto simp: window_def after_def not_less)
      with later show ?thesis by auto
    qed
    show "after n0 cur" using s cur by (auto simp: served_def after_def)
    show "n0 = NoID \<longrightarrow> C \<noteq> [] \<and> hd C \<le> cur" using s cur first by (auto simp: served_def after_def)
  qed
  then obtain cs where cs: "sorted_wrt (<) cs" "set cs = {c \<in> window ctx C n0 cur. \<not> after n c}"
    "items = concat (map (kept_at ctx) cs)" by blast
  have new: "{c \<in> window ctx C n0 cur. after n c} = (if ?skip then {} else {cur})"
  proof -
    have "c = cur" if "c \<in> window ctx C n0 cur" "after n c" for c
    proof (rule ccontr)
      assume "c \<noteq> cur"
      then have "c < cur" using that(1) by (auto simp: window_def)
      moreover have "n = NoID \<longrightarrow> hd C \<le> c"
        using that(1) s by (auto simp: window_def served_def)
      ultimately have "items_at ctx c = []" using gap that(2) by blast
      with that(1) show False by (simp add: window_def)
    qed
    moreover have "cur \<in> window ctx C n0 cur \<longleftrightarrow> \<not> ?skip"
      using aft hd by (auto simp: window_def after_def)
    ultimately show ?thesis using cur(2) by auto
  qed
  have lt: "\<forall>c \<in> set cs. c < cur"
  proof
    fix c assume "c \<in> set cs"
    then have "c \<le> cur" "\<not> after n c" using cs(2) by (auto simp: window_def)
    with cur(2) show "c < cur" by (auto simp: le_less)
  qed
  have un: "window ctx C n0 cur = set cs \<union> {c \<in> window ctx C n0 cur. after n c}"
    using cs(2) by auto
  have "\<exists>cs'. sorted_wrt (<) cs' \<and> set cs' = window ctx C n0 cur \<and> items @ ks = concat (map (kept_at ctx) cs')"
  proof (cases ?skip)
    case True
    then have "ks = []" by (auto simp: k kept_at_def)
    with True un new cs show ?thesis by (intro exI[of _ cs]) simp
  next
    case False
    with un new cs lt k show ?thesis by (intro exI[of _ "cs @ [cur]"]) (auto simp: sorted_wrt_append)
  qed
  with cur(1) aft hd show ?thesis by (simp add: served_def)
qed

definition loop_inv :: "GetCtx \<Rightarrow> u64 list \<Rightarrow> u64 \<Rightarrow> GetLoop \<Rightarrow> bool" where
  "loop_inv ctx C n0 l \<longleftrightarrow>
     wf_queue (env_crc32 (gc_env ctx)) (gl_queue l) \<and> cursors (gl_queue l) = C
     \<and> served ctx C n0 (gl_next l) (gl_items l)"

lemma get_step_cases:
  assumes "get_step ctx now_ts l = Some (r, l')" and "group_ok (gc_req ctx)"
  obtains (stop) "gl_next l' = gl_next l" "gl_items l' = gl_items l" "r \<noteq> LoopContinue"
      "gl_queue l' = gl_queue l \<or> (\<exists>x. next_instance ctx l = (x, gl_queue l'))"
  | (pass) cur where "next_instance ctx l = (Some cur, gl_queue l')" "gl_next l' = cur" "r \<noteq> LoopError"
      "gl_items l' = gl_items l @ (if gc_prev_cursor_id ctx \<noteq> NoID \<and> cur \<le> gc_prev_cursor_id ctx then []
         else kept_at ctx cur)"
      "gl_items l \<noteq> [] \<and> \<not> (gc_prev_cursor_id ctx \<noteq> NoID \<and> cur \<le> gc_prev_cursor_id ctx) \<longrightarrow>
        items_at ctx cur = [] \<or>
        \<not> (word_of_int (get_limit (gc_req ctx)) :: u64) < of_nat (length (gl_items l)) + of_nat (length (items_at ctx cur))"
proof -
  define l1 where "l1 = (if gl_start_ts l = 0 then l\<lparr>gl_start_ts := now_ts\<rparr> else l)"
  have l1: "gl_next l1 = gl_next l" "gl_items l1 = gl_items l" "gl_queue l1 = gl_queue l"
    by (simp_all add: l1_def)
  have ni: "next_instance ctx l1 = next_instance ctx l" by (simp add: next_instance_def l1)
  let ?topic = "tp_topic (tc_proto (gc_topic_config ctx))"
  note d = assms(1)[unfolded get_step_def Let_def, folded l1_def]
  show thesis
  proof (cases "gl_start_ts l \<noteq> 0 \<and> gl_start_ts l + word_of_int (store_get_loop_max_time_ms ?topic) < now_ts")
    case True
    with d l1 show thesis by (intro stop) auto
  next
    case nl: False
    obtain x q where xq: "next_instance ctx l = (x, q)" by (cases "next_instance ctx l")
    show thesis
    proof (cases x)
      case None
      with d nl xq ni l1 show thesis by (intro stop) (auto split: if_splits)
    next
      case (Some cur)
      note ni' = xq[unfolded Some]
      let ?l2 = "l1\<lparr>gl_queue := q\<rparr>"
      have q: "gl_queue ?l2 = gl_queue l \<or> (\<exists>x. next_instance ctx l = (x, gl_queue ?l2))" using ni' by simp
      show thesis
      proof (cases "gc_prev_cursor_id ctx \<noteq> NoID \<and> cur \<le> gc_prev_cursor_id ctx")
        case True
        then have "r = LoopContinue" "l' = ?l2\<lparr>gl_next := cur\<rparr>" using d nl ni ni' by auto
        with True l1 ni' show thesis by (intro pass[of cur]) auto
      next
        case np: False
        have d2: "(GetItemsByCursorID (gc_env ctx) (gc_opt ctx) (get_queue_id (gc_req ctx)) cur \<bind>
          (\<lambda>(ret, items).
            if as_integer ret < 0 then Some (LoopError, ?l2)
            else if as_integer ret \<noteq> 0 then Some (LoopBreak, ?l2)
            else if items = [] then Some (LoopContinue, ?l2\<lparr>gl_next := cur\<rparr>)
            else if gl_items ?l2 \<noteq> []
              \<and> (word_of_int (get_limit (gc_req ctx)) :: u64) < of_nat (length (gl_items ?l2)) + of_nat (length items)
            then Some (LoopBreak, ?l2)
            else if after_atime (gc_req ctx) (hd items) then Some (LoopBreak, ?l2)
            else keep_items ctx items \<bind> (\<lambda>kept.
              let l = ?l2\<lparr>gl_next := cur, gl_items := gl_items ?l2 @ kept,
                gl_byte_size := gl_byte_size ?l2 + (\<Sum>i\<leftarrow>kept. of_nat (QItem_ByteSize (gc_env ctx) i))\<rparr>
              in Some (if word_of_int (items_byte_size_limit ?topic) \<le> gl_byte_size l
                  then LoopBreak else LoopContinue, l)))) = Some (r, l')"
          using d nl ni ni' np unfolding Let_def by (simp add: if_not_P[OF np])
        obtain ret items where it:
          "GetItemsByCursorID (gc_env ctx) (gc_opt ctx) (get_queue_id (gc_req ctx)) cur = Some (ret, items)"
          using d2 by (cases "GetItemsByCursorID (gc_env ctx) (gc_opt ctx) (get_queue_id (gc_req ctx)) cur") auto
        note d3 = d2[unfolded it bind.bind_lunit prod.case]
        consider (bad) "as_integer ret \<noteq> 0"
          | (empty) "ret = RET_OK" "items = []"
          | (full) "ret = RET_OK" "items \<noteq> []" "gl_items l \<noteq> []"
              "(word_of_int (get_limit (gc_req ctx)) :: u64) < of_nat (length (gl_items l)) + of_nat (length items)"
          | (late) "ret = RET_OK" "items \<noteq> []"  "after_atime (gc_req ctx) (hd items)"
          | (take) "ret = RET_OK" "items \<noteq> []" "\<not> after_atime (gc_req ctx) (hd items)"
              "\<not> (gl_items l \<noteq> [] \<and> (word_of_int (get_limit (gc_req ctx)) :: u64) < of_nat (length (gl_items l)) + of_nat (length items))"
          using as_integer_0[of ret] by blast
        then show thesis
        proof cases
          case bad
          with d3 q l1 show thesis by (intro stop) (auto split: if_splits)
        next
          case empty
          then have "items_at ctx cur = []" using it by (simp add: items_at_def)
          with empty d3 np ni' l1 show thesis by (intro pass[of cur]) (auto simp: kept_at_def)
        next
          case full
          with d3 q l1 show thesis by (intro stop) auto
        next
          case late
          with d3 q l1 show thesis by (intro stop) (auto split: if_splits)
        next
          case take
          have at: "items_at ctx cur = items" using it take(1) by (simp add: items_at_def)
          have "keep_items ctx items = Some (kept_at ctx cur)"
            using keep_items_filter[OF assms(2)] at by (simp add: kept_at_def)
          with take d3 np ni' l1 at show thesis
            by (intro pass[of cur]) (auto simp: Let_def split: if_splits)
        qed
      qed
    qed
  qed
qed

lemma loop_inv_step:
  assumes inv: "loop_inv ctx C n0 l" and cov: "covered ctx C" and g: "group_ok (gc_req ctx)"
    and st: "get_step ctx now_ts l = Some (r, l')"
  shows "loop_inv ctx C n0 l'"
  using st g
proof (cases rule: get_step_cases)
  case stop
  with inv next_instance_queue[of ctx l] show ?thesis by (auto simp: loop_inv_def)
next
  case (pass cur)
  have wf: "wf_queue (env_crc32 (gc_env ctx)) (gl_queue l)" and C: "cursors (gl_queue l) = C"
    and s: "served ctx C n0 (gl_next l) (gl_items l)" using inv by (simp_all add: loop_inv_def)
  have cov': "covered ctx (cursors (gl_queue l))" using cov C by simp
  note nx = next_instance_next[OF wf cov' pass(1), unfolded C]
  have "served ctx C n0 cur (gl_items l')"
    unfolding pass(4) by (rule served_extend[OF s]) (use nx in auto)
  with next_instance_queue[OF wf pass(1)] pass(2) C show ?thesis by (simp add: loop_inv_def)
qed

lemma get_loop_inv:
  assumes "loop_inv ctx C n0 l" "covered ctx C" "group_ok (gc_req ctx)"
    and "get_loop ctx clock n i l = Some (ok, l')"
  shows "loop_inv ctx C n0 l'"
  using assms
proof (induction n arbitrary: i l)
  case (Suc n)
  show ?case
  proof (cases "int (length (gl_items l)) < get_limit (gc_req ctx)")
    case True
    with Suc.prems(4) obtain r l1 where st: "get_step ctx (clock i) l = Some (r, l1)"
      "(case r of LoopContinue \<Rightarrow> get_loop ctx clock n (i + 1) l1 | LoopBreak \<Rightarrow> Some (True, l1)
         | LoopError \<Rightarrow> Some (False, l1)) = Some (ok, l')"
      by (cases "get_step ctx (clock i) l") auto
    have "loop_inv ctx C n0 l1" by (rule loop_inv_step[OF Suc.prems(1-3) st(1)])
    with Suc.IH[of l1 "i + 1"] Suc.prems st(2) show ?thesis by (cases r) auto
  next
    case False
    with Suc.prems show ?thesis by simp
  qed
qed simp

subsection \<open>The size of a response\<close>

lemma items_of_values_cursor:
  "\<forall>i \<in> set items. qi_cursor_id i = c \<Longrightarrow> \<forall>i \<in> set (snd (items_of_values env q c vs items)). qi_cursor_id i = c"
proof (induction vs arbitrary: items)
  case (Cons v vs)
  obtain a smid where v: "v = (a, smid)" by (cases v)
  show ?case
  proof (cases "smid = StoreSM_ID \<and> ParseStorePaxosArgs env a \<noteq> None")
    case False
    with v Cons show ?thesis by auto
  next
    case True
    then obtain args where args: "ParseStorePaxosArgs env a = Some args" by auto
    show ?thesis
    proof (cases "pa_add_req args")
      case None
      with v True args Cons show ?thesis by simp
    next
      case (Some req)
      have "\<forall>i \<in> set (items @ map (\<lambda>i. i\<lparr>qi_cursor_id := c\<rparr>) (add_items req)). qi_cursor_id i = c"
        using Cons.prems by auto
      from Cons.IH[OF this] Cons.IH[OF Cons.prems] v True args Some show ?thesis by simp
    qed
  qed
qed simp

lemma items_at_cursor:
  assumes "i \<in> set (items_at ctx c)"
  shows "qi_cursor_id i = c"
proof (cases "GetItemsByCursorID (gc_env ctx) (gc_opt ctx) (get_queue_id (gc_req ctx)) c")
  case None
  with assms show ?thesis by (simp add: items_at_def)
next
  case (Some p)
  have iv: "\<forall>i \<in> set (snd (items_of_values (gc_env ctx) (get_queue_id (gc_req ctx)) c vs [])). qi_cursor_id i = c" for vs
    by (rule items_of_values_cursor) simp
  obtain g where "cmod (get_queue_id (gc_req ctx)) (ngroup (gc_opt ctx)) = Some g"
    using Some by (auto simp: GetItemsByCursorID_def Option.bind_eq_Some_conv)
  with Some iv have "\<forall>i \<in> set (snd p). qi_cursor_id i = c"
    by (cases "GetInstanceValue (gc_env ctx) g c") (auto simp: GetItemsByCursorID_def)
  with Some assms show ?thesis by (cases p) (auto simp: items_at_def split: if_splits)
qed

definition size_ok :: "GetCtx \<Rightarrow> QItem list \<Rightarrow> bool" where
  "size_ok ctx items \<longleftrightarrow> int (length items) \<le> get_limit (gc_req ctx) \<or> (\<exists>c. \<forall>i \<in> set items. qi_cursor_id i = c)"

definition sizes_fit :: "GetCtx \<Rightarrow> bool" where
  "sizes_fit ctx \<longleftrightarrow> 0 \<le> get_limit (gc_req ctx) \<and> get_limit (gc_req ctx) < 2 ^ 31
     \<and> (\<forall>c. length (items_at ctx c) < 2 ^ 32)"

lemma size_ok_step:
  assumes st: "get_step ctx now_ts l = Some (r, l')" and g: "group_ok (gc_req ctx)"
    and s: "size_ok ctx (gl_items l)" and fit: "sizes_fit ctx"
    and lim: "int (length (gl_items l)) < get_limit (gc_req ctx)"
  shows "size_ok ctx (gl_items l')"
  using st g
proof (cases rule: get_step_cases)
  case stop
  with s show ?thesis by simp
next
  case (pass cur)
  let ?ks = "if gc_prev_cursor_id ctx \<noteq> NoID \<and> cur \<le> gc_prev_cursor_id ctx then [] else kept_at ctx cur"
  have one: "\<forall>i \<in> set ?ks. qi_cursor_id i = cur" by (auto simp: kept_at_def items_at_cursor)
  show ?thesis
  proof (cases "gl_items l = [] \<or> ?ks = []")
    case True
    with one pass(4) s show ?thesis by (cases "gl_items l = []") (auto simp: size_ok_def)
  next
    case False
    then have k: "?ks = kept_at ctx cur" and ne: "items_at ctx cur \<noteq> []"
      by (auto simp: kept_at_def split: if_splits)
    with pass(5) False have nl: "\<not> (word_of_int (get_limit (gc_req ctx)) :: u64)
        < of_nat (length (gl_items l)) + of_nat (length (items_at ctx cur))"
      by (auto split: if_splits)
    let ?n = "length (gl_items l) + length (items_at ctx cur)"
    have "?n < 2 ^ 64" using lim fit by (auto simp: sizes_fit_def dest: spec[of _ cur])
    then have "unat (of_nat ?n :: u64) = ?n"
      by (simp only: unat_of_nat take_bit_nat_eq_self_iff) simp
    moreover have "unat (word_of_int (get_limit (gc_req ctx)) :: u64) = nat (get_limit (gc_req ctx))"
      using fit uint_i31[of "get_limit (gc_req ctx)"] by (simp add: sizes_fit_def unat_eq_nat_uint)
    ultimately have "?n \<le> nat (get_limit (gc_req ctx))"
      using nl by (simp add: word_less_nat_alt not_less flip: of_nat_add)
    moreover have "length (kept_at ctx cur) \<le> length (items_at ctx cur)" by (simp add: kept_at_def)
    ultimately have "int (length (gl_items l')) \<le> get_limit (gc_req ctx)"
      using pass(4) k fit by (simp add: sizes_fit_def) arith
    then show ?thesis by (simp add: size_ok_def)
  qed
qed

lemma get_loop_size_ok:
  assumes "get_loop ctx clock n i l = Some (ok, l')" "group_ok (gc_req ctx)"
    "size_ok ctx (gl_items l)" "sizes_fit ctx"
  shows "size_ok ctx (gl_items l')"
  using assms
proof (induction n arbitrary: i l)
  case (Suc n)
  show ?case
  proof (cases "int (length (gl_items l)) < get_limit (gc_req ctx)")
    case True
    with Suc.prems(1) obtain r l1 where st: "get_step ctx (clock i) l = Some (r, l1)"
      "(case r of LoopContinue \<Rightarrow> get_loop ctx clock n (i + 1) l1 | LoopBreak \<Rightarrow> Some (True, l1)
         | LoopError \<Rightarrow> Some (False, l1)) = Some (ok, l')"
      by (cases "get_step ctx (clock i) l") auto
    have "size_ok ctx (gl_items l1)" by (rule size_ok_step[OF st(1) Suc.prems(2-4) True])
    with Suc.IH[of "i + 1" l1] Suc.prems st(2) show ?thesis by (cases r) auto
  next
    case False
    with Suc.prems show ?thesis by simp
  qed
qed simp

subsection \<open>No fault\<close>

lemma GetItemsByCursorID_total: "0 < ngroup opt \<Longrightarrow> \<exists>r. GetItemsByCursorID env opt q c = Some r"
  by (simp add: GetItemsByCursorID_def cmod_def)

lemma get_step_total:
  assumes "group_ok (gc_req ctx)" "0 < ngroup (gc_opt ctx)"
  shows "\<exists>r. get_step ctx now_ts l = Some r"
proof -
  obtain x q where n: "next_instance ctx (if gl_start_ts l = 0 then l\<lparr>gl_start_ts := now_ts\<rparr> else l) = (x, q)"
    by fastforce
  show ?thesis
  proof (cases x)
    case None
    with n show ?thesis by (simp add: get_step_def Let_def)
  next
    case (Some cur)
    obtain ret items where
      "GetItemsByCursorID (gc_env ctx) (gc_opt ctx) (get_queue_id (gc_req ctx)) cur = Some (ret, items)"
      using GetItemsByCursorID_total[OF assms(2)] by fast
    with n Some show ?thesis by (simp add: get_step_def Let_def keep_items_filter[OF assms(1)])
  qed
qed

lemma get_loop_total:
  assumes "group_ok (gc_req ctx)" "0 < ngroup (gc_opt ctx)"
  shows "\<exists>r. get_loop ctx clock n i l = Some r"
proof (induction n arbitrary: i l)
  case (Suc n)
  obtain r l' where "get_step ctx (clock i) l = Some (r, l')"
    using get_step_total[OF assms] by fast
  with Suc show ?case by (cases r) auto
qed auto

lemma get_loop_wf:
  assumes "get_loop ctx clock n i l = Some (ok, l')" "group_ok (gc_req ctx)"
    "wf_queue (env_crc32 (gc_env ctx)) (gl_queue l)"
  shows "wf_queue (env_crc32 (gc_env ctx)) (gl_queue l') \<and> cursors (gl_queue l') = cursors (gl_queue l)"
  using assms
proof (induction n arbitrary: i l)
  case (Suc n)
  show ?case
  proof (cases "int (length (gl_items l)) < get_limit (gc_req ctx)")
    case True
    with Suc.prems(1) obtain r l1 where st: "get_step ctx (clock i) l = Some (r, l1)"
      "(case r of LoopContinue \<Rightarrow> get_loop ctx clock n (i + 1) l1 | LoopBreak \<Rightarrow> Some (True, l1)
         | LoopError \<Rightarrow> Some (False, l1)) = Some (ok, l')"
      by (cases "get_step ctx (clock i) l") auto
    have "wf_queue (env_crc32 (gc_env ctx)) (gl_queue l1) \<and> cursors (gl_queue l1) = cursors (gl_queue l)"
      using st(1) Suc.prems(2)
    proof (cases rule: get_step_cases)
      case stop
      with next_instance_queue[OF Suc.prems(3)] Suc.prems(3) show ?thesis by auto
    next
      case (pass cur)
      with next_instance_queue[OF Suc.prems(3)] show ?thesis by auto
    qed
    with Suc.IH[of "i + 1" l1] Suc.prems st(2) show ?thesis by (cases r) auto
  next
    case False
    with Suc.prems show ?thesis by simp
  qed
qed simp

text \<open>Either the guard of \<open>SyncCtrl\<close> rejects the ids or they are valid.\<close>

lemma arg_err_or_valid: "1 \<le> g \<Longrightarrow> 0 \<le> q \<Longrightarrow> sync_arg_err s g q \<or> valid_id s g q"
  by (auto simp: sync_arg_err_def valid_id_def)

lemma GetCursorID_total: "sync_sized s \<Longrightarrow> 1 \<le> g \<Longrightarrow> 0 \<le> q \<Longrightarrow> \<exists>r. GetCursorID s g q b = Some r"
  using arg_err_or_valid[of g q s] GetCursorID_cursor_of[of s g q b] by (auto simp: GetCursorID_def)

lemma AdjustNextCursorID_total:
  "sync_sized s \<Longrightarrow> 1 \<le> g \<Longrightarrow> 0 \<le> q \<Longrightarrow> \<exists>r. AdjustNextCursorID s g q p n = Some r"
  using arg_err_or_valid[of g q s]
  by (auto simp: AdjustNextCursorID_def Let_def elim!: valid_id_at)

lemma start_cursors_total:
  assumes "sync_sized s" "group_ok req" "0 \<le> get_queue_id req"
  shows "\<exists>r. start_cursors s req = Some r"
proof (cases "get_random req")
  case False
  have "1 \<le> get_consumer_group_id req" using assms(2) by (simp add: group_ok_def)
  from AdjustNextCursorID_total[OF assms(1) this assms(3)] obtain ret p n where
    "AdjustNextCursorID s (get_consumer_group_id req) (get_queue_id req)
       (get_prev_cursor_id req) (get_next_cursor_id req) = Some (ret, p, n)" by fast
  with False show ?thesis by (simp add: start_cursors_def)
qed (simp add: start_cursors_def)

lemma get_checkpoint_total:
  assumes "wf_store crc32 s" "0 \<le> q"
  shows "\<exists>r. get_checkpoint env s q = Some r"
proof -
  have g: "0 < ngroup (st_opt s)" using wf_storeD(1)[OF assms(1)] by (simp add: wf_opt_def)
  then have "0 \<le> q mod ngroup (st_opt s)" "q mod ngroup (st_opt s) < int (length (cp_stats s))"
    using wf_storeD(4)[OF assms(1)] by simp_all
  then show ?thesis
    using g assms(2) by (auto simp: get_checkpoint_def cmod_nonneg GetCheckPointStat_def at_in_range Let_def GetCheckPoint_def)
qed

lemma UpdateCursorID_total:
  assumes "sync_sized s" "1 \<le> g" "0 \<le> q"
  shows "\<exists>ret s' b. UpdateCursorID s g q c p = Some (ret, s') \<and> s' = s\<lparr>sync_buf := b\<rparr>
    \<and> length b = length (sync_buf s)"
proof -
  consider "sync_arg_err s g q" | "valid_id s g q" using arg_err_or_valid[OF assms(2,3)] by blast
  then show ?thesis
  proof cases
    case 1
    then show ?thesis by (auto simp: UpdateCursorID_def intro: exI[of _ "sync_buf s"])
  next
    case 2
    obtain item where "at (sync_buf s) (sync_idx s g q) = Some item" using valid_id_at[OF assms(1) 2] by blast
    with valid_id_not_err[OF 2] show ?thesis
      by (auto simp: UpdateCursorID_def Let_def intro!: exI[of _ "put_at (sync_buf s) (sync_idx s g q) (set_cursor p c item)"])
  qed
qed

lemma save_cursors_total:
  assumes "sync_sized s" "1 \<le> get_consumer_group_id req" "0 \<le> get_queue_id req"
  shows "\<exists>ret s' b. save_cursors s req p n = Some (ret, s') \<and> s' = s\<lparr>sync_buf := b\<rparr>
    \<and> length b = length (sync_buf s)"
proof (cases "get_random req")
  case True
  then show ?thesis by (auto simp: save_cursors_def intro: exI[of _ "sync_buf s"])
next
  case False
  let ?u = "\<lambda>c b s. if c \<noteq> NoID then UpdateCursorID s (get_consumer_group_id req) (get_queue_id req) c b
     else Some (RET_OK, s)"
  have u: "\<exists>ret s' b'. ?u c b t = Some (ret, s') \<and> s' = t\<lparr>sync_buf := b'\<rparr> \<and> length b' = length (sync_buf t)"
    if "sync_sized t" for c b t
    using UpdateCursorID_total[OF that assms(2,3), of c b] by (cases "c = NoID") (auto intro: exI[of _ "sync_buf t"])
  obtain r1 s1 b1 where 1: "?u p True s = Some (r1, s1)" "s1 = s\<lparr>sync_buf := b1\<rparr>" "length b1 = length (sync_buf s)"
    using u[OF assms(1), of p True] by blast
  then have "sync_sized s1" using assms(1) by (simp add: sync_sized_def)
  from u[OF this, of n False] obtain r2 s2 b2 where
    2: "?u n False s1 = Some (r2, s2)" "s2 = s1\<lparr>sync_buf := b2\<rparr>" "length b2 = length (sync_buf s1)" by blast
  show ?thesis
  proof (cases "r1 = RET_OK")
    case True
    then show ?thesis unfolding save_cursors_def 1(1) using False 1(2,3) 2 by auto
  next
    case nok: False
    then show ?thesis unfolding save_cursors_def 1(1) using False 1(2,3) by auto
  qed
qed

lemma sync_sized_put_queue: "sync_sized (s\<lparr>meta_queues := qs\<rparr>) = sync_sized s"
  by (simp add: sync_sized_def)

definition get_ctx ::
  "StoreEnv \<Rightarrow> StoreState \<Rightarrow> GetRequest \<Rightarrow> TopicConfig \<Rightarrow> QueueInfo \<Rightarrow> u64 \<times> u64 \<Rightarrow> u64 \<Rightarrow> GetCtx" where
  "get_ctx env s req tc qi cpm prev =
     \<lparr>gc_env = env, gc_opt = st_opt s, gc_req = req, gc_topic_config = tc, gc_queue_info_id = qinfo_id qi,
      gc_cp = fst cpm, gc_min_instance_id = snd cpm, gc_prev_cursor_id = prev\<rparr>"

lemma get_ctx_simps [simp]:
  "gc_env (get_ctx env s req tc qi cpm prev) = env" "gc_opt (get_ctx env s req tc qi cpm prev) = st_opt s"
  "gc_req (get_ctx env s req tc qi cpm prev) = req" "gc_topic_config (get_ctx env s req tc qi cpm prev) = tc"
  "gc_cp (get_ctx env s req tc qi cpm prev) = fst cpm" "gc_prev_cursor_id (get_ctx env s req tc qi cpm prev) = prev"
  "gc_min_instance_id (get_ctx env s req tc qi cpm prev) = snd cpm"
  "gc_queue_info_id (get_ctx env s req tc qi cpm prev) = qinfo_id qi"
  by (simp_all add: get_ctx_def)

text \<open>
  A call of \<open>Get\<close> on a well-formed store that is not rejected up front is a run of the read loop
  from the start cursors, followed by the saving of the cursors.
\<close>

lemma BaseMgr_Get_run:
  assumes wf: "wf_store (env_crc32 env) s" and g: "group_ok req" and q: "0 \<le> get_queue_id req"
  obtains (rejected) ret where "BaseMgr_Get env clock s req resp = Some (ret, resp, s)" "ret \<noteq> RET_OK"
  | (run) tc qi mq cli_prev cli_next svr cpm prev nxt ok l where
      "GetTopicConfigByTopicID (env_config env) (st_topic_id s) = Inr tc"
      "GetQueueInfoByQueue tc (get_queue_id req) = Inr qi" "get_queue_id req < nqueue (st_opt s)"
      "at (meta_queues s) (get_queue_id req) = Some mq"
      "start_cursors s req = Some (RET_OK, cli_prev, cli_next)"
      "get_checkpoint env s (get_queue_id req) = Some cpm"
      "(prev, nxt) = (if get_random req then (svr, if cli_next < svr then svr else cli_next) else (cli_prev, cli_next))"
      "get_loop (get_ctx env s req tc qi cpm prev) clock 512 0
         \<lparr>gl_queue = mq, gl_items = resp_items resp, gl_next = nxt, gl_byte_size = 0, gl_start_ts = 0\<rparr> = Some (ok, l)"
      "BaseMgr_Get env clock s req resp =
         (let s1 = s\<lparr>meta_queues := put_at (meta_queues s) (get_queue_id req) (gl_queue l)\<rparr>;
              resp1 = resp\<lparr>resp_items := gl_items l\<rparr>
          in if \<not> ok then Some (RET_ERR_GET_ITEM_BY_CURSOR_ID, resp1, s1)
             else do { (ret, s2) \<leftarrow> save_cursors s1 req prev (gl_next l);
                       Some (ret, resp1\<lparr>resp_prev_cursor_id := prev, resp_next_cursor_id := gl_next l\<rparr>, s2) })"
proof (cases "GetTopicConfigByTopicID (env_config env) (st_topic_id s)")
  case (Inl ret)
  then show thesis by (intro rejected) (auto simp: BaseMgr_Get_def GetTopicConfigByTopicID_def split: option.splits)
next
  case tc: (Inr tc)
  show thesis
  proof (cases "GetQueueInfoByQueue tc (get_queue_id req)")
    case (Inl ret)
    with tc show thesis
      by (intro rejected) (auto simp: BaseMgr_Get_def GetQueueInfoByQueue_def GetQueueInfoByQueueInfoID_def split: option.splits)
  next
    case qi: (Inr qi)
    show thesis
    proof (cases "nqueue (st_opt s) \<le> get_queue_id req")
      case True
      with tc qi show thesis by (intro rejected) (auto simp: BaseMgr_Get_def)
    next
      case lt: False
      have sz: "sync_sized s" using wf by (rule wf_store_sync_sized)
      obtain mq where mq: "at (meta_queues s) (get_queue_id req) = Some mq"
        using lt q wf_storeD(2)[OF wf] by (auto simp: at_in_range)
      obtain ret cp cn where sc: "start_cursors s req = Some (ret, cp, cn)"
        using start_cursors_total[OF sz g q] by fast
      show thesis
      proof (cases "ret = RET_OK")
        case False
        with tc qi lt mq sc show thesis by (intro rejected[of ret]) (auto simp: BaseMgr_Get_def)
      next
        case True
        have g1: "1 \<le> get_consumer_group_id req" using g by (simp add: group_ok_def)
        obtain r svr where svr: "GetCursorID s (get_consumer_group_id req) (get_queue_id req) True = Some (r, svr)"
          using GetCursorID_total[OF sz g1 q] by fast
        obtain cpm where cpm: "get_checkpoint env s (get_queue_id req) = Some cpm"
          using get_checkpoint_total[OF wf q] by blast
        obtain prev nxt where pn: "(prev, nxt) =
            (if get_random req then (svr, if cn < svr then svr else cn) else (cp, cn))"
          by (metis surj_pair)
        have "0 < ngroup (st_opt s)" using wf_storeD(1)[OF wf] by (simp add: wf_opt_def)
        then obtain ok l where l: "get_loop (get_ctx env s req tc qi cpm prev) clock 512 0
         \<lparr>gl_queue = mq, gl_items = resp_items resp, gl_next = nxt, gl_byte_size = 0, gl_start_ts = 0\<rparr> = Some (ok, l)"
          using get_loop_total[of "get_ctx env s req tc qi cpm prev"] g by fastforce
        show thesis
        proof (rule run[OF tc qi _ mq sc[unfolded True] cpm pn l])
          show "get_queue_id req < nqueue (st_opt s)" using lt by simp
          show "BaseMgr_Get env clock s req resp =
           (let s1 = s\<lparr>meta_queues := put_at (meta_queues s) (get_queue_id req) (gl_queue l)\<rparr>;
              resp1 = resp\<lparr>resp_items := gl_items l\<rparr>
            in if \<not> ok then Some (RET_ERR_GET_ITEM_BY_CURSOR_ID, resp1, s1)
             else do { (ret, s2) \<leftarrow> save_cursors s1 req prev (gl_next l);
                       Some (ret, resp1\<lparr>resp_prev_cursor_id := prev, resp_next_cursor_id := gl_next l\<rparr>, s2) })"
            using tc qi lt mq sc svr cpm l True
            by (cases cpm) (simp add: BaseMgr_Get_def get_ctx_def Let_def flip: pn)
        qed
      qed
    qed
  qed
qed

subsection \<open>What Get guarantees\<close>

lemma save_cursors_wf:
  assumes "wf_store crc32 s" "group_ok req" "0 \<le> get_queue_id req" "save_cursors s req p n = Some (ret, s')"
  shows "wf_store crc32 s' \<and> (\<exists>b. s' = s\<lparr>sync_buf := b\<rparr>)"
proof -
  have "1 \<le> get_consumer_group_id req" using assms(2) by (simp add: group_ok_def)
  from save_cursors_total[OF wf_store_sync_sized[OF assms(1)] this assms(3), of p n] assms(4)
  obtain b where "s' = s\<lparr>sync_buf := b\<rparr>" "length b = length (sync_buf s)" by auto
  with assms(1) show ?thesis by (auto simp: wf_store_def)
qed

lemma put_queue_wf:
  assumes wf: "wf_store (env_crc32 env) s" and mq: "at (meta_queues s) q = Some mq"
    and l: "get_loop (get_ctx env s req tc qi cpm prev) clock n i
       \<lparr>gl_queue = mq, gl_items = its, gl_next = nxt, gl_byte_size = b, gl_start_ts = ts\<rparr> = Some (ok, l)"
    and g: "group_ok req"
  shows "wf_store (env_crc32 env) (s\<lparr>meta_queues := put_at (meta_queues s) q (gl_queue l)\<rparr>)"
    and "map cursors (put_at (meta_queues s) q (gl_queue l)) = map cursors (meta_queues s)"
proof -
  have "wf_queue (env_crc32 env) (gl_queue l) \<and> cursors (gl_queue l) = cursors mq"
    using get_loop_wf[OF l] g wf_storeD(5)[OF wf mq] by simp
  then show "wf_store (env_crc32 env) (s\<lparr>meta_queues := put_at (meta_queues s) q (gl_queue l)\<rparr>)"
    "map cursors (put_at (meta_queues s) q (gl_queue l)) = map cursors (meta_queues s)"
    using wf_store_put_queue[OF wf] map_cursors_put_at[OF mq] by blast+
qed

lemma Get_total:
  assumes "wf_store (env_crc32 env) s" and "group_ok req" and "0 \<le> get_queue_id req"
  shows "\<exists>ret resp' s'. BaseMgr_Get env clock s req resp = Some (ret, resp', s')
     \<and> wf_store (env_crc32 env) s' \<and> map cursors (meta_queues s') = map cursors (meta_queues s)
     \<and> st_opt s' = st_opt s \<and> cp_stats s' = cp_stats s \<and> st_topic_id s' = st_topic_id s"
  using assms
proof (cases rule: BaseMgr_Get_run[where clock = clock and resp = resp])
  case (rejected ret)
  with assms(1) show ?thesis by auto
next
  case (run tc qi mq cli_prev cli_next svr cpm prev nxt ok l)
  let ?s1 = "s\<lparr>meta_queues := put_at (meta_queues s) (get_queue_id req) (gl_queue l)\<rparr>"
  note s1 = put_queue_wf[OF assms(1) run(4) run(8) assms(2)]
  show ?thesis
  proof (cases ok)
    case False
    with run(9) s1 show ?thesis by simp
  next
    case True
    have g1: "1 \<le> get_consumer_group_id req" using assms(2) by (simp add: group_ok_def)
    obtain ret s2 b where s2: "save_cursors ?s1 req prev (gl_next l) = Some (ret, s2)" "s2 = ?s1\<lparr>sync_buf := b\<rparr>"
      using save_cursors_total[OF wf_store_sync_sized[OF s1(1)] g1 assms(3)] by blast
    have "wf_store (env_crc32 env) s2"
      using save_cursors_wf[OF s1(1) assms(2,3) s2(1)] by simp
    with True run(9) s1 s2 show ?thesis by simp
  qed
qed

text \<open>\<open>Get\<close> is memory safe and total: on a well-formed store, for any request with a
  non-negative queue id and a consumer group id in 1..64, it returns (a code, a response and a
  state) without touching memory outside the tables, keeps the store well formed, and leaves the
  set of indexed instances of every queue unchanged.\<close>

theorem Get_safe:
  assumes "wf_store (env_crc32 env) s" and "group_ok req" and "0 \<le> get_queue_id req"
  shows "\<exists>ret resp' s'. BaseMgr_Get env clock s req resp = Some (ret, resp', s')
     \<and> wf_store (env_crc32 env) s' \<and> map cursors (meta_queues s') = map cursors (meta_queues s)
     \<and> st_opt s' = st_opt s \<and> cp_stats s' = cp_stats s"
  using Get_total[OF assms, of clock resp] by blast

lemma save_cursors_cursor_of:
  assumes sz: "sync_sized s" and v: "valid_id s (get_consumer_group_id req) (get_queue_id req)"
    and nr: "\<not> get_random req" and sv: "save_cursors s req p n = Some (ret, s')"
  shows "ret = RET_OK \<and> valid_id s' = valid_id s \<and> sync_sized s' \<and>
    (\<forall>g q b. valid_id s g q \<longrightarrow> cursor_of s' g q b =
       (if g = get_consumer_group_id req \<and> q = get_queue_id req
        then if b then (if p = NoID then cursor_of s g q b else Some p)
             else (if n = NoID then cursor_of s g q b else Some n)
        else cursor_of s g q b))"
proof -
  let ?g = "get_consumer_group_id req" and ?q = "get_queue_id req"
  obtain s1 where s1: "(if p \<noteq> NoID then UpdateCursorID s ?g ?q p True else Some (RET_OK, s)) = Some (RET_OK, s1)"
    "sync_sized s1" "valid_id s1 = valid_id s"
    "\<forall>g q b. valid_id s g q \<longrightarrow> cursor_of s1 g q b =
       (if g = ?g \<and> q = ?q \<and> b \<and> p \<noteq> NoID then Some p else cursor_of s g q b)"
  proof (cases "p = NoID")
    case False
    with UpdateCursorID_valid[OF sz v, of p True] that show thesis by auto
  qed (use sz that[of s] in auto)
  have v1: "valid_id s1 ?g ?q" using v s1(3) by simp
  obtain s2 where s2: "(if n \<noteq> NoID then UpdateCursorID s1 ?g ?q n False else Some (RET_OK, s1)) = Some (RET_OK, s2)"
    "sync_sized s2" "valid_id s2 = valid_id s"
    "\<forall>g q b. valid_id s g q \<longrightarrow> cursor_of s2 g q b =
       (if g = ?g \<and> q = ?q \<and> \<not> b \<and> n \<noteq> NoID then Some n else cursor_of s1 g q b)"
  proof (cases "n = NoID")
    case False
    with UpdateCursorID_valid[OF s1(2) v1, of n False] that s1(3) show thesis by auto
  qed (use s1(2,3) that[of s1] in auto)
  have "(ret, s') = (RET_OK, s2)"
    using sv nr unfolding save_cursors_def s1(1) by (simp add: s2(1))
  with s1(4) s2 show ?thesis by auto
qed

lemma Get_window:
  assumes wf: "wf_store (env_crc32 env) s" and g: "group_ok req" and q: "0 \<le> get_queue_id req"
    and nr: "\<not> get_random req" and empty: "resp_items resp = []"
    and v: "valid_id s (get_consumer_group_id req) (get_queue_id req)"
    and tc: "GetTopicConfigByTopicID (env_config env) (st_topic_id s) = Inr tc"
    and qi: "GetQueueInfoByQueue tc (get_queue_id req) = Inr qi"
    and mq: "at (meta_queues s) (get_queue_id req) = Some mq"
    and start: "start_cursors s req = Some (RET_OK, prev, n0)"
    and cpm: "get_checkpoint env s (get_queue_id req) = Some cpm"
    and cov: "covered (get_ctx env s req tc qi cpm prev) (cursors mq)"
    and get: "BaseMgr_Get env clock s req resp = Some (RET_OK, resp', s')"
  shows "served (get_ctx env s req tc qi cpm prev) (cursors mq) n0 (resp_next_cursor_id resp') (resp_items resp')
     \<and> resp_prev_cursor_id resp' = prev
     \<and> (\<forall>g q b. valid_id s g q \<longrightarrow> cursor_of s' g q b =
          (let c = (if b then prev else resp_next_cursor_id resp')
           in if g = get_consumer_group_id req \<and> q = get_queue_id req \<and> c \<noteq> NoID then Some c
              else cursor_of s g q b))"
  using wf g q
proof (cases rule: BaseMgr_Get_run[where clock = clock and resp = resp])
  case (rejected ret)
  with get show ?thesis by simp
next
  case (run tc' qi' mq' cli_prev cli_next svr cpm' prev' nxt ok l)
  let ?s1 = "s\<lparr>meta_queues := put_at (meta_queues s) (get_queue_id req) (gl_queue l)\<rparr>"
  let ?ctx = "get_ctx env s req tc qi cpm prev"
  have eq: "tc' = tc" "qi' = qi" "mq' = mq" "cpm' = cpm" "prev' = prev" "nxt = n0"
    using run(1,2,4,5,6,7) tc qi mq start cpm nr by auto
  note loop = run(8)[unfolded eq empty]
  have "loop_inv ?ctx (cursors mq) n0
     \<lparr>gl_queue = mq, gl_items = [], gl_next = n0, gl_byte_size = 0, gl_start_ts = 0\<rparr>"
    using wf_storeD(5)[OF wf mq] by (simp add: loop_inv_def served_def)
  from get_loop_inv[OF this cov _ loop] g
  have srv: "served ?ctx (cursors mq) n0 (gl_next l) (gl_items l)" by (simp add: loop_inv_def)
  have sz1: "sync_sized ?s1" using wf_store_sync_sized[OF wf] by simp
  have v1: "valid_id ?s1 (get_consumer_group_id req) (get_queue_id req)" using v by simp
  have g1: "1 \<le> get_consumer_group_id req" using g by (simp add: group_ok_def)
  have okT: ok using run(9) get by (auto simp: Let_def split: if_splits)
  obtain ret s2 where sv: "save_cursors ?s1 req prev (gl_next l) = Some (ret, s2)"
    using save_cursors_total[OF sz1 g1 q] by blast
  have r: "resp' = resp\<lparr>resp_items := gl_items l, resp_prev_cursor_id := prev, resp_next_cursor_id := gl_next l\<rparr>"
    "s' = s2"
    using run(9) get okT sv eq by (auto simp: Let_def)
  have co: "cursor_of ?s1 = cursor_of s"
    by (simp add: fun_eq_iff cursor_of_def GetCursorID_def sync_arg_err_def sync_idx_def)
  from save_cursors_cursor_of[OF sz1 v1 nr sv] srv r show ?thesis
    by (auto simp: co Let_def)
qed

text \<open>C13: What a successful non-random \<open>Get\<close> serves. Let \<open>n0\<close> be the cursor it starts from, \<open>n\<close>
  the next cursor of its response. If the index covers the log above the checkpoint, then either
  nothing was read, or the response holds exactly the wanted items (those that neither
  \<open>SkipGet\<close> nor the configured skip rules drop) of all instances of the log after \<open>n0\<close> (from the
  front of the index if there is no \<open>n0\<close>) up to \<open>n\<close> and above the acknowledged \<open>prev\<close>, in
  instance order: no item is lost, duplicated or reordered. The cursors of the response are then
  the stored ones of this consumer group and queue, and no other cursor has changed.\<close>

theorem Get_serves_window:
  assumes wf: "wf_store (env_crc32 env) s" and g: "group_ok req" and q: "0 \<le> get_queue_id req"
    and nr: "\<not> get_random req" and empty: "resp_items resp = []"
    and v: "valid_id s (get_consumer_group_id req) (get_queue_id req)"
    and tc: "GetTopicConfigByTopicID (env_config env) (st_topic_id s) = Inr tc"
    and qi: "GetQueueInfoByQueue tc (get_queue_id req) = Inr qi"
    and mq: "at (meta_queues s) (get_queue_id req) = Some mq"
    and start: "start_cursors s req = Some (RET_OK, prev, n0)"
    and cpm: "get_checkpoint env s (get_queue_id req) = Some cpm"
    and cov: "covered (get_ctx env s req tc qi cpm prev) (cursors mq)"
    and get: "BaseMgr_Get env clock s req resp = Some (RET_OK, resp', s')"
  shows "served (get_ctx env s req tc qi cpm prev) (cursors mq) n0 (resp_next_cursor_id resp') (resp_items resp')
     \<and> resp_prev_cursor_id resp' = prev
     \<and> (\<forall>g q b. valid_id s g q \<longrightarrow> cursor_of s' g q b =
          (let c = (if b then prev else resp_next_cursor_id resp')
           in if g = get_consumer_group_id req \<and> q = get_queue_id req \<and> c \<noteq> NoID then Some c
              else cursor_of s g q b))"
  by (rule Get_window[OF wf g q nr empty v tc qi mq start cpm cov get])

text \<open>The response never exceeds the requested limit, except when a single paxos instance
  alone carries more items than that: then all items of the response come from this instance.\<close>

theorem Get_limit:
  assumes wf: "wf_store (env_crc32 env) s" and g: "group_ok req" and q: "0 \<le> get_queue_id req"
    and lim: "0 \<le> get_limit req" "get_limit req < 2 ^ 31"
    and fit: "\<And>c ret items. GetItemsByCursorID env (st_opt s) (get_queue_id req) c = Some (ret, items) \<Longrightarrow>
      length items < 2 ^ 32"
    and empty: "resp_items resp = []"
    and get: "BaseMgr_Get env clock s req resp = Some (ret, resp', s')"
  shows "int (length (resp_items resp')) \<le> get_limit req
     \<or> (\<exists>c. \<forall>i \<in> set (resp_items resp'). qi_cursor_id i = c)"
  using wf g q
proof (cases rule: BaseMgr_Get_run[where clock = clock and resp = resp])
  case (rejected ret)
  with get empty lim show ?thesis by simp
next
  case (run tc qi mq cli_prev cli_next svr cpm prev nxt ok l)
  let ?ctx = "get_ctx env s req tc qi cpm prev"
  have "length (items_at ?ctx c) < 2 ^ 32" for c
    using fit[of c] by (auto simp: items_at_def split: option.splits)
  then have "sizes_fit ?ctx" using lim by (simp add: sizes_fit_def)
  moreover have "size_ok ?ctx []" using lim by (simp add: size_ok_def)
  ultimately have "size_ok ?ctx (gl_items l)"
    using get_loop_size_ok[OF run(8)] g empty by simp
  moreover have "resp_items resp' = gl_items l"
  proof (cases ok)
    case False
    with run(9) get show ?thesis by (auto simp: Let_def)
  next
    case True
    with run(9) get obtain x where "save_cursors
      (s\<lparr>meta_queues := put_at (meta_queues s) (get_queue_id req) (gl_queue l)\<rparr>) req prev (gl_next l) = Some x"
      by (cases "save_cursors
      (s\<lparr>meta_queues := put_at (meta_queues s) (get_queue_id req) (gl_queue l)\<rparr>) req prev (gl_next l)") (auto simp: Let_def)
    with True run(9) get show ?thesis by (cases x) (auto simp: Let_def)
  qed
  ultimately show ?thesis by (simp add: size_ok_def)
qed

text \<open>A request that returns with the stored next cursor is not adjusted.\<close>

lemma AdjustNextCursorID_keeps:
  assumes "sync_sized s" "valid_id s g q" "cursor_of s g q False = Some n"
    and "p = NoID \<or> p \<le> n"
    and "case cursor_of s g q True of None \<Rightarrow> True | Some sp \<Rightarrow> p \<noteq> NoID \<and> sp \<le> p"
  shows "AdjustNextCursorID s g q p n = Some (RET_OK, p, n)"
proof -
  obtain item where item: "at (sync_buf s) (sync_idx s g q) = Some item"
    using valid_id_at[OF assms(1,2)] by blast
  have "cursor_of s g q b = (case item_cursor b item of (ret, c) \<Rightarrow> if ret = RET_OK then Some c else None)" for b
    using item valid_id_not_err[OF assms(2)] by (simp add: cursor_of_def GetCursorID_def)
  from this[of True] this[of False] item valid_id_not_err[OF assms(2)] assms(3-5) show ?thesis
    by (auto simp: AdjustNextCursorID_def Let_def item_cursor_def not_less split: if_splits)
qed

lemma served_iff:
  assumes "n0 \<noteq> NoID"
  shows "served ctx C n0 n items \<longleftrightarrow>
     n \<noteq> NoID \<and> n0 \<le> n \<and> (\<exists>cs. sorted_wrt (<) cs \<and> set cs = window ctx C n0 n \<and> items = concat (map (kept_at ctx) cs))"
proof (cases "n = n0")
  case True
  have "window ctx C n0 n0 = {}" using assms by (auto simp: window_def)
  with True assms show ?thesis by (auto simp: served_def intro: exI[of _ "[]"])
next
  case False
  with assms show ?thesis by (auto simp: served_def after_def)
qed

text \<open>Two consecutive windows of the same log are one.\<close>

lemma served_trans:
  assumes s1: "served ctx C n0 n1 items1" and n1: "n1 \<noteq> NoID" "n0 \<noteq> NoID"
    and s2: "served ctx2 C2 n1 n2 items2"
    and log: "\<And>c. c \<le> n1 \<Longrightarrow> items_at ctx2 c = items_at ctx c"
    and flt: "wanted ctx2 = wanted ctx"
    and p: "gc_prev_cursor_id ctx2 = n1" "gc_prev_cursor_id ctx = NoID \<or> gc_prev_cursor_id ctx \<le> n1"
  shows "served (ctx2\<lparr>gc_prev_cursor_id := gc_prev_cursor_id ctx\<rparr>) C2 n0 n2 (items1 @ items2)"
proof -
  let ?ctx3 = "ctx2\<lparr>gc_prev_cursor_id := gc_prev_cursor_id ctx\<rparr>"
  have it3: "items_at ?ctx3 = items_at ctx2" by (simp add: items_at_def fun_eq_iff)
  have w3: "wanted ?ctx3 = wanted ctx2" by (simp add: wanted_def fun_eq_iff)
  have k3: "kept_at ?ctx3 = kept_at ctx2" by (simp add: kept_at_def fun_eq_iff it3 w3)
  obtain cs1 where cs1: "n0 \<le> n1" "sorted_wrt (<) cs1" "set cs1 = window ctx C n0 n1" "items1 = concat (map (kept_at ctx) cs1)"
    using s1 served_iff[OF n1(2)] by blast
  obtain cs2 where cs2: "n2 \<noteq> NoID" "n1 \<le> n2" "sorted_wrt (<) cs2" "set cs2 = window ctx2 C2 n1 n2"
    "items2 = concat (map (kept_at ctx2) cs2)"
    using s2 served_iff[OF n1(1)] by blast
  have "kept_at ctx c = kept_at ctx2 c" if "c \<in> set cs1" for c
    using that cs1(3) log[of c] flt by (auto simp: window_def kept_at_def)
  then have i1: "items1 = concat (map (kept_at ctx2) cs1)"
    using cs1(4) by (metis map_cong)
  have "\<forall>x \<in> set cs1. \<forall>y \<in> set cs2. x < y"
    using cs1(3) cs2(4) n1(1) by (auto simp: window_def)
  then have srt: "sorted_wrt (<) (cs1 @ cs2)" using cs1(2) cs2(3) by (simp add: sorted_wrt_append)
  have "window ?ctx3 C2 n0 n2 = window ctx C n0 n1 \<union> window ctx2 C2 n1 n2"
  proof (intro equalityI subsetI)
    fix c assume c: "c \<in> window ?ctx3 C2 n0 n2"
    show "c \<in> window ctx C n0 n1 \<union> window ctx2 C2 n1 n2"
      using c n1 p(1) log[of c] by (cases "c \<le> n1") (auto simp: window_def it3)
  next
    fix c assume "c \<in> window ctx C n0 n1 \<union> window ctx2 C2 n1 n2"
    then consider "c \<in> window ctx C n0 n1" | "c \<in> window ctx2 C2 n1 n2" by blast
    then show "c \<in> window ?ctx3 C2 n0 n2"
    proof cases
      case 1
      then have "c \<le> n1" by (simp add: window_def)
      with 1 n1 cs2(2) log[of c] show ?thesis by (auto simp: window_def it3 intro: order_trans)
    next
      case 2
      then have "n1 < c" using n1(1) by (simp add: window_def)
      with cs1(1) have "n0 < c" by (rule le_less_trans)
      with 2 n1 p(2) \<open>n1 < c\<close> show ?thesis by (auto simp: window_def it3 intro: le_less_trans)
    qed
  qed
  then have "set (cs1 @ cs2) = window ?ctx3 C2 n0 n2" using cs1(3) cs2(4) by simp
  with srt i1 cs2 cs1(1) show ?thesis
    unfolding served_iff[OF n1(2)] k3
    by (auto intro!: exI[of _ "cs1 @ cs2"] intro: order_trans)
qed

text \<open>A successful pull: the hypotheses of \<open>Get_serves_window\<close> in one predicate.\<close>

definition pulled ::
  "StoreEnv \<Rightarrow> (nat \<Rightarrow> u64) \<Rightarrow> StoreState \<Rightarrow> GetRequest \<Rightarrow> GetCtx \<Rightarrow> u64 list \<Rightarrow> u64 \<Rightarrow> GetResponse \<Rightarrow> StoreState \<Rightarrow> bool" where
  "pulled env clock s req ctx C n0 resp' s' \<longleftrightarrow>
     wf_store (env_crc32 env) s \<and> group_ok req \<and> 0 \<le> get_queue_id req \<and> \<not> get_random req
     \<and> valid_id s (get_consumer_group_id req) (get_queue_id req)
     \<and> (\<exists>tc qi mq prev cpm resp.
          GetTopicConfigByTopicID (env_config env) (st_topic_id s) = Inr tc
          \<and> GetQueueInfoByQueue tc (get_queue_id req) = Inr qi
          \<and> at (meta_queues s) (get_queue_id req) = Some mq
          \<and> start_cursors s req = Some (RET_OK, prev, n0)
          \<and> get_checkpoint env s (get_queue_id req) = Some cpm
          \<and> ctx = get_ctx env s req tc qi cpm prev \<and> C = cursors mq \<and> covered ctx C
          \<and> resp_items resp = [] \<and> BaseMgr_Get env clock s req resp = Some (RET_OK, resp', s'))"

lemma pulledI:
  assumes "wf_store (env_crc32 env) s" "group_ok req" "0 \<le> get_queue_id req" "\<not> get_random req"
    "valid_id s (get_consumer_group_id req) (get_queue_id req)"
    "GetTopicConfigByTopicID (env_config env) (st_topic_id s) = Inr tc"
    "GetQueueInfoByQueue tc (get_queue_id req) = Inr qi"
    "at (meta_queues s) (get_queue_id req) = Some mq"
    "start_cursors s req = Some (RET_OK, prev, n0)"
    "get_checkpoint env s (get_queue_id req) = Some cpm"
    "covered (get_ctx env s req tc qi cpm prev) (cursors mq)"
    "resp_items resp = []" "BaseMgr_Get env clock s req resp = Some (RET_OK, resp', s')"
  shows "pulled env clock s req (get_ctx env s req tc qi cpm prev) (cursors mq) n0 resp' s'"
  unfolding pulled_def using assms by blast

lemma pulled_served:
  assumes "pulled env clock s req ctx C n0 resp' s'"
  shows "served ctx C n0 (resp_next_cursor_id resp') (resp_items resp')"
    and "start_cursors s req = Some (RET_OK, gc_prev_cursor_id ctx, n0)"
    and "\<forall>b. cursor_of s' (get_consumer_group_id req) (get_queue_id req) b =
          (let c = (if b then gc_prev_cursor_id ctx else resp_next_cursor_id resp')
           in if c \<noteq> NoID then Some c else cursor_of s (get_consumer_group_id req) (get_queue_id req) b)"
proof -
  obtain tc qi mq prev cpm resp where h:
    "GetTopicConfigByTopicID (env_config env) (st_topic_id s) = Inr tc"
    "GetQueueInfoByQueue tc (get_queue_id req) = Inr qi"
    "at (meta_queues s) (get_queue_id req) = Some mq"
    "start_cursors s req = Some (RET_OK, prev, n0)"
    "get_checkpoint env s (get_queue_id req) = Some cpm"
    "ctx = get_ctx env s req tc qi cpm prev" "C = cursors mq" "covered ctx C"
    "resp_items resp = []" "BaseMgr_Get env clock s req resp = Some (RET_OK, resp', s')"
    and b: "wf_store (env_crc32 env) s" "group_ok req" "0 \<le> get_queue_id req" "\<not> get_random req"
    "valid_id s (get_consumer_group_id req) (get_queue_id req)"
    using assms unfolding pulled_def by blast
  note w = Get_window[OF b(1-4) h(9) b(5) h(1-5) h(8)[unfolded h(6,7)] h(10)]
  show "served ctx C n0 (resp_next_cursor_id resp') (resp_items resp')"
    "start_cursors s req = Some (RET_OK, gc_prev_cursor_id ctx, n0)"
    using w h(4,6,7) by simp_all
  show "\<forall>b. cursor_of s' (get_consumer_group_id req) (get_queue_id req) b =
          (let c = (if b then gc_prev_cursor_id ctx else resp_next_cursor_id resp')
           in if c \<noteq> NoID then Some c else cursor_of s (get_consumer_group_id req) (get_queue_id req) b)"
    using w b(5) h(6) by (simp add: Let_def)
qed

text \<open>C1: A session. A consumer that, once it has processed a response, sends the next cursor it
  was given as both cursors of its next request (as \<open>Consumer\<close> does) is served from exactly
  there, whatever was appended and synchronised for other groups and queues in between: the two
  responses together are one window of the log, with nothing lost, repeated or reordered at the
  seam.\<close>

theorem Get_session:
  assumes one: "pulled env1 clock1 s1 req1 ctx1 C1 n0 resp1 s1'" and n0: "n0 \<noteq> NoID"
    and two: "pulled env2 clock2 s2 req2 ctx2 C2 m resp2 s2'"
    and same: "get_consumer_group_id req2 = get_consumer_group_id req1" "get_queue_id req2 = get_queue_id req1"
    and ack: "get_prev_cursor_id req2 = resp_next_cursor_id resp1" "get_next_cursor_id req2 = resp_next_cursor_id resp1"
    and stored: "\<forall>b. cursor_of s2 (get_consumer_group_id req1) (get_queue_id req1) b =
       cursor_of s1' (get_consumer_group_id req1) (get_queue_id req1) b"
    and log: "\<forall>c \<le> resp_next_cursor_id resp1. items_at ctx2 c = items_at ctx1 c" "wanted ctx2 = wanted ctx1"
    and prev: "gc_prev_cursor_id ctx1 \<le> resp_next_cursor_id resp1
       \<or> gc_prev_cursor_id ctx1 = NoID \<and> cursor_of s1 (get_consumer_group_id req1) (get_queue_id req1) True = None"
  shows "m = resp_next_cursor_id resp1
     \<and> served (ctx2\<lparr>gc_prev_cursor_id := gc_prev_cursor_id ctx1\<rparr>) C2 n0 (resp_next_cursor_id resp2)
         (resp_items resp1 @ resp_items resp2)"
proof -
  let ?n = "resp_next_cursor_id resp1"
  note p1 = pulled_served[OF one] and p2 = pulled_served[OF two]
  have n: "?n \<noteq> NoID" using p1(1) served_iff[OF n0] by blast
  have b: "wf_store (env_crc32 env2) s2" "\<not> get_random req2"
    "valid_id s2 (get_consumer_group_id req2) (get_queue_id req2)"
    using two by (simp_all add: pulled_def)
  have "AdjustNextCursorID s2 (get_consumer_group_id req2) (get_queue_id req2) ?n ?n = Some (RET_OK, ?n, ?n)"
  proof (rule AdjustNextCursorID_keeps[OF wf_store_sync_sized[OF b(1)] b(3)])
    show "cursor_of s2 (get_consumer_group_id req2) (get_queue_id req2) False = Some ?n"
      using stored p1(3) n same by (simp add: Let_def)
    show "case cursor_of s2 (get_consumer_group_id req2) (get_queue_id req2) True of
        None \<Rightarrow> True | Some sp \<Rightarrow> ?n \<noteq> NoID \<and> sp \<le> ?n"
    proof (cases "gc_prev_cursor_id ctx1 = NoID")
      case True
      with prev n have "cursor_of s1 (get_consumer_group_id req1) (get_queue_id req1) True = None"
        using order_antisym[OF u64_le_NoID[of ?n]] by metis
      with True stored p1(3) same show ?thesis by (simp add: Let_def)
    next
      case False
      with prev stored p1(3) same n show ?thesis by (simp add: Let_def)
    qed
  qed simp
  then have "start_cursors s2 req2 = Some (RET_OK, ?n, ?n)"
    using b(2) ack by (simp add: start_cursors_def)
  with p2(2) have pm: "gc_prev_cursor_id ctx2 = ?n" and m: "m = ?n" by auto
  have "served ctx2 C2 ?n (resp_next_cursor_id resp2) (resp_items resp2)" using p2(1) m by simp
  from served_trans[OF p1(1) n n0 this _ log(2) pm] log(1) prev
  have "served (ctx2\<lparr>gc_prev_cursor_id := gc_prev_cursor_id ctx1\<rparr>) C2 n0 (resp_next_cursor_id resp2)
         (resp_items resp1 @ resp_items resp2)" by blast
  with m show ?thesis by blast
qed

end
