(* ===== verification/StoreSM.thy ===== *)
theory StoreSM
  imports BaseMgr
begin

section \<open>StoreSM (store/storesm.cpp)\<close>

text \<open>
  The replicated state machine: what a replica does with a chosen paxos value. The context of the
  proposing thread, when the value was proposed here, is told the result: \<open>Execute\<close> returns the
  flag of the C++ method, the code written to the context and the state. A drop of mastership is
  recorded in \<open>dropped_masters\<close> (\<open>node_running\<close> is \<open>GetNode() \<noteq> nullptr\<close>).
\<close>

definition Execute ::
  "StoreEnv \<Rightarrow> bool \<Rightarrow> StoreState \<Rightarrow> int \<Rightarrow> u64 \<Rightarrow> string \<Rightarrow> (bool \<times> RetCode \<times> StoreState) option" where
  "Execute env node_running s paxos_group_id instance_id paxos_value =
     (case ParseStorePaxosArgs env paxos_value of
        None \<Rightarrow> Some (False, RET_ERR_ARG, s)
      | Some args \<Rightarrow> do {
          (ret, s) \<leftarrow> (case pa_add_req args of
                        None \<Rightarrow> Some (RET_OK, s)
                      | Some req \<Rightarrow> BaseMgr_Add env s instance_id req);
          if as_integer ret < 0 then Some (False, ret, s)
          else do {
            (ret, s) \<leftarrow> (case pa_sync_ctrl_info args of
                          None \<Rightarrow> Some (RET_OK, s)
                        | Some info \<Rightarrow> SyncCursorID s info);
            if as_integer ret < 0 then Some (False, ret, s)
            else
              let drop = (ip (pa_master_addr args) \<noteq> [] \<and> opt_addr (st_opt s) \<noteq> pa_master_addr args
                          \<and> node_running)
              in Some (True, RET_OK,
                   if drop then s\<lparr>dropped_masters := dropped_masters s @ [paxos_group_id]\<rparr> else s) } })"

definition GetCheckpointInstanceID :: "StoreState \<Rightarrow> int \<Rightarrow> u64 option" where
  "GetCheckpointInstanceID s paxos_group_id =
     (case GetCheckPointStat s paxos_group_id of
        None \<Rightarrow> Some NoID
      | Some i \<Rightarrow> do {
          stat \<leftarrow> at (cp_stats s) i;
          let (ret, cp) = GetCheckPoint stat;
          Some (if ret \<noteq> RET_OK then NoID else cp) })"

definition GetCheckpointState :: "(int \<Rightarrow> string \<times> string) \<Rightarrow> StoreState \<Rightarrow> int \<Rightarrow> int + string \<times> string list" where
  "GetCheckpointState files s paxos_group_id =
     (case GetCheckPointStat s paxos_group_id of
        None \<Rightarrow> Inl (-1)
      | Some i \<Rightarrow> let (dir, file) = files i in Inr (dir, [file]))"

definition LoadCheckpointState :: "StoreEnv \<Rightarrow> StoreState \<Rightarrow> int \<Rightarrow> u64 \<Rightarrow> (int \<times> StoreState) option" where
  "LoadCheckpointState env s paxos_group_id cp =
     (if cp = NoID then Some (0, s)
      else case GetCheckPointStat s paxos_group_id of
        None \<Rightarrow> Some (-1, s)
      | Some i \<Rightarrow> do {
          stat \<leftarrow> at (cp_stats s) i;
          let (ret, stat') = UpdateCheckPointAndFlush (env_msync_ok env) cp stat;
          let s' = s\<lparr>cp_stats := put_at (cp_stats s) i stat'\<rparr>;
          Some (if ret \<noteq> RET_OK then -2 else 0, s') })"

subsection \<open>Adding to the index\<close>

definition add_ok :: "StoreEnv \<Rightarrow> StoreState \<Rightarrow> AddRequest \<Rightarrow> bool" where
  "add_ok env s req \<longleftrightarrow>
     (case GetTopicConfigByTopicID (env_config env) (st_topic_id s) of
        Inl _ \<Rightarrow> False
      | Inr tc \<Rightarrow> (\<exists>qi. GetQueueInfoByQueue tc (add_queue_id req) = Inr qi)
          \<and> IsValidQueue tc (add_queue_id req) (-1) (-1)
          \<and> 0 \<le> add_queue_id req \<and> add_queue_id req < nqueue (st_opt s) \<and> add_items req \<noteq> [])"

lemma BaseMgr_Add_ok:
  assumes wf: "wf_store (env_crc32 env) s" and ok: "add_ok env s req" and c: "c \<noteq> NoID"
  shows "\<exists>mq mq'. at (meta_queues s) (add_queue_id req) = Some mq \<and> wf_queue (env_crc32 env) mq'
     \<and> BaseMgr_Add env s c req =
         (if \<exists>k \<in> set (cursors mq). c \<le> k then Some (RET_ADD_SKIP, s)
          else Some (RET_OK, s\<lparr>meta_queues := put_at (meta_queues s) (add_queue_id req) mq'\<rparr>))
     \<and> ((\<forall>k \<in> set (cursors mq). k < c) \<longrightarrow> cursors mq' = cursors mq @ [c])"
proof -
  obtain tc qi where tc: "GetTopicConfigByTopicID (env_config env) (st_topic_id s) = Inr tc"
    "GetQueueInfoByQueue tc (add_queue_id req) = Inr qi" "IsValidQueue tc (add_queue_id req) (-1) (-1)"
    "0 \<le> add_queue_id req" "add_queue_id req < nqueue (st_opt s)" "add_items req \<noteq> []"
    using ok by (auto simp: add_ok_def split: sum.splits)
  obtain mq where mq: "at (meta_queues s) (add_queue_id req) = Some mq"
    using tc(4,5) wf_storeD(2)[OF wf] by (auto simp: at_in_range)
  note wfq = wf_storeD(5)[OF wf mq]
  note pb = PushBack_cases[OF wfq, of "StoreMeta_of c", simplified]
  have bk: "(case Back mq of Some b \<Rightarrow> c \<le> sm_cursor_id b | None \<Rightarrow> False) \<longleftrightarrow> (\<exists>k \<in> set (cursors mq). c \<le> k)"
  proof (cases "metas mq = []")
    case True
    then show ?thesis by (simp add: Back_def cursors_def)
  next
    case False
    then have "c \<le> sm_cursor_id (last (metas mq)) \<longleftrightarrow> (\<exists>k \<in> set (cursors mq). c \<le> k)"
      using sorted_by_last[OF wf_queueD(1)[OF wfq]] by (auto simp: cursors_def intro: order_trans)
    with False show ?thesis by (simp add: Back_def)
  qed
  have skip: "NeedSkipAdd env s c req = Some (\<exists>k \<in> set (cursors mq). c \<le> k)"
    using tc mq bk by (auto simp: NeedSkipAdd_def split: option.splits)
  show ?thesis
    using tc mq skip pb
    by (intro exI[of _ mq] exI[of _ "snd (PushBack (env_crc32 env) (StoreMeta_of c) mq)"])
      (auto simp: BaseMgr_Add_def c split: prod.splits)
qed

lemma BaseMgr_Add_wf:
  assumes wf: "wf_store (env_crc32 env) s" and c: "c \<noteq> NoID" and a: "BaseMgr_Add env s c req = Some (ret, s')"
  shows "wf_store (env_crc32 env) s' \<and> (\<exists>qs. s' = s\<lparr>meta_queues := qs\<rparr>)"
proof (cases "s' = s")
  case True
  then show ?thesis using wf by (auto intro: exI[of _ "meta_queues s"])
next
  case False
  then obtain mq where mq: "at (meta_queues s) (add_queue_id req) = Some mq"
    and s': "s' = s\<lparr>meta_queues := put_at (meta_queues s) (add_queue_id req)
       (snd (PushBack (env_crc32 env) (StoreMeta_of c) mq))\<rparr>"
    using a by (auto simp: BaseMgr_Add_def Option.bind_eq_Some_conv case_prod_unfold Let_def split: sum.splits if_splits)
  have "wf_queue (env_crc32 env) (snd (PushBack (env_crc32 env) (StoreMeta_of c) mq))"
    by (rule PushBack_cases(1)) (use wf_storeD(5)[OF wf mq] in simp_all)
  with wf_store_put_queue[OF wf this] s' show ?thesis by blast
qed

subsection \<open>Executing the log builds the index\<close>

definition qcursors :: "StoreState \<Rightarrow> int \<Rightarrow> u64 list" where
  "qcursors s q = (case at (meta_queues s) q of None \<Rightarrow> [] | Some mq \<Rightarrow> cursors mq)"

lemma qcursors_map: "map cursors (meta_queues s') = map cursors (meta_queues s) \<Longrightarrow> qcursors s' q = qcursors s q"
proof -
  assume a: "map cursors (meta_queues s') = map cursors (meta_queues s)"
  then have l: "length (meta_queues s') = length (meta_queues s)" by (metis length_map)
  show ?thesis
  proof (cases "0 \<le> q \<and> nat q < length (meta_queues s)")
    case True
    then have "cursors (meta_queues s' ! nat q) = cursors (meta_queues s ! nat q)"
      using a l by (metis nth_map)
    with True l show ?thesis by (simp add: qcursors_def at_def)
  next
    case False
    with l show ?thesis by (auto simp: qcursors_def at_def)
  qed
qed

lemma qcursors_put:
  "at (meta_queues s) q = Some mq \<Longrightarrow>
   qcursors (s\<lparr>meta_queues := put_at (meta_queues s) q mq'\<rparr>) r = (if r = q then cursors mq' else qcursors s r)"
  using at_put_at_other[of q r "meta_queues s" mq']
  by (auto simp: qcursors_def at_put_at_same dest: at_SomeD)

definition adds :: "StoreEnv \<Rightarrow> string \<Rightarrow> int \<Rightarrow> bool" where
  "adds env v q \<longleftrightarrow> (case ParseStorePaxosArgs env v of None \<Rightarrow> False
     | Some args \<Rightarrow> (case pa_add_req args of None \<Rightarrow> False
         | Some req \<Rightarrow> add_queue_id req = q \<and> add_items req \<noteq> []))"

definition executable :: "StoreEnv \<Rightarrow> StoreState \<Rightarrow> string \<Rightarrow> bool" where
  "executable env s v \<longleftrightarrow> (\<exists>args. ParseStorePaxosArgs env v = Some args
     \<and> (\<forall>req. pa_add_req args = Some req \<longrightarrow> add_ok env s req)
     \<and> (\<forall>info. pa_sync_ctrl_info args = Some info \<longrightarrow> valid_info s info))"

definition same_shape :: "StoreState \<Rightarrow> StoreState \<Rightarrow> bool" where
  "same_shape s s' \<longleftrightarrow> st_opt s' = st_opt s \<and> st_topic_id s' = st_topic_id s"

lemma same_shape_executable: "same_shape s s' \<Longrightarrow> executable env s' v = executable env s v"
proof -
  assume "same_shape s s'"
  then have e: "st_opt s' = st_opt s" "st_topic_id s' = st_topic_id s" by (simp_all add: same_shape_def)
  show ?thesis unfolding executable_def add_ok_def valid_info_def valid_id_def e ..
qed

lemma Execute_step:
  assumes wf: "wf_store (env_crc32 env) s" and c: "c \<noteq> NoID" and ex: "executable env s v"
  shows "\<exists>s'. Execute env nr s g c v = Some (True, RET_OK, s') \<and> wf_store (env_crc32 env) s' \<and> same_shape s s'
     \<and> (\<forall>q. qcursors s' q =
          (if adds env v q \<and> (\<forall>k \<in> set (qcursors s q). k < c) then qcursors s q @ [c] else qcursors s q))"
proof -
  obtain args where args: "ParseStorePaxosArgs env v = Some args"
    "\<forall>req. pa_add_req args = Some req \<longrightarrow> add_ok env s req"
    "\<forall>info. pa_sync_ctrl_info args = Some info \<longrightarrow> valid_info s info"
    using ex by (auto simp: executable_def)
  have "\<exists>ret s1 qs. (case pa_add_req args of None \<Rightarrow> Some (RET_OK, s) | Some req \<Rightarrow> BaseMgr_Add env s c req) = Some (ret, s1)
     \<and> \<not> as_integer ret < 0 \<and> wf_store (env_crc32 env) s1 \<and> s1 = s\<lparr>meta_queues := qs\<rparr>
     \<and> (\<forall>q. qcursors s1 q =
          (if adds env v q \<and> (\<forall>k \<in> set (qcursors s q). k < c) then qcursors s q @ [c] else qcursors s q))"
  proof (cases "pa_add_req args")
    case None
    then show ?thesis using wf args(1) by (auto simp: adds_def intro!: exI[of _ "meta_queues s"])
  next
    case (Some req)
    then have ok: "add_ok env s req" using args(2) by simp
    obtain mq mq' where mq: "at (meta_queues s) (add_queue_id req) = Some mq" "wf_queue (env_crc32 env) mq'"
      "BaseMgr_Add env s c req =
         (if \<exists>k \<in> set (cursors mq). c \<le> k then Some (RET_ADD_SKIP, s)
          else Some (RET_OK, s\<lparr>meta_queues := put_at (meta_queues s) (add_queue_id req) mq'\<rparr>))"
      "(\<forall>k \<in> set (cursors mq). k < c) \<longrightarrow> cursors mq' = cursors mq @ [c]"
      using BaseMgr_Add_ok[OF wf ok c] by blast
    have ad: "adds env v q \<longleftrightarrow> q = add_queue_id req" for q
      using args(1) Some ok by (auto simp: adds_def add_ok_def split: sum.splits)
    have qc: "qcursors s (add_queue_id req) = cursors mq" using mq(1) by (simp add: qcursors_def)
    show ?thesis
    proof (cases "\<exists>k \<in> set (cursors mq). c \<le> k")
      case True
      then have "\<not> (\<forall>k \<in> set (cursors mq). k < c)" by (auto simp: not_less)
      with True mq(3) Some wf ad qc show ?thesis by (auto intro!: exI[of _ "meta_queues s"])
    next
      case False
      then have "\<forall>k \<in> set (cursors mq). k < c" by (auto simp: not_le)
      with False mq Some ad qc wf_store_put_queue[OF wf mq(2)] show ?thesis
        by (auto simp: qcursors_put intro!: exI[of _ "put_at (meta_queues s) (add_queue_id req) mq'"])
    qed
  qed
  then obtain ret s1 qs where s1: "(case pa_add_req args of None \<Rightarrow> Some (RET_OK, s) | Some req \<Rightarrow> BaseMgr_Add env s c req) = Some (ret, s1)"
    "\<not> as_integer ret < 0" "wf_store (env_crc32 env) s1" "s1 = s\<lparr>meta_queues := qs\<rparr>"
    "\<forall>q. qcursors s1 q =
          (if adds env v q \<and> (\<forall>k \<in> set (qcursors s q). k < c) then qcursors s q @ [c] else qcursors s q)" by blast
  have "\<exists>s2. (case pa_sync_ctrl_info args of None \<Rightarrow> Some (RET_OK, s1) | Some info \<Rightarrow> SyncCursorID s1 info) = Some (RET_OK, s2)
     \<and> wf_store (env_crc32 env) s2 \<and> same_shape s s2 \<and> map cursors (meta_queues s2) = map cursors (meta_queues s1)"
  proof (cases "pa_sync_ctrl_info args")
    case None
    with s1 show ?thesis by (auto simp: same_shape_def)
  next
    case (Some info)
    then have "valid_info s1 info" using args(3) s1(4) by (simp add: valid_info_def valid_id_def)
    from sync_queues_raises[OF s1(3) this] Some s1(4) show ?thesis
      by (auto simp: SyncCursorID_def same_shape_def)
  qed
  then obtain s2 where s2: "(case pa_sync_ctrl_info args of None \<Rightarrow> Some (RET_OK, s1) | Some info \<Rightarrow> SyncCursorID s1 info) = Some (RET_OK, s2)"
    "wf_store (env_crc32 env) s2" "same_shape s s2" "map cursors (meta_queues s2) = map cursors (meta_queues s1)" by blast
  let ?drop = "ip (pa_master_addr args) \<noteq> [] \<and> opt_addr (st_opt s2) \<noteq> pa_master_addr args \<and> nr"
  let ?s3 = "if ?drop then s2\<lparr>dropped_masters := dropped_masters s2 @ [g]\<rparr> else s2"
  have "Execute env nr s g c v = Some (True, RET_OK, ?s3)"
    using args(1) s1(1,2) s2(1) by (simp add: Execute_def)
  moreover have "wf_store (env_crc32 env) ?s3" using s2(2) by (simp add: wf_store_def)
  moreover have "qcursors ?s3 q = qcursors s1 q" for q
    using qcursors_map[OF s2(4)] by (simp add: qcursors_def)
  ultimately show ?thesis using s1(5) s2(3) by (intro exI[of _ ?s3]) (simp add: same_shape_def)
qed

fun execute_all :: "StoreEnv \<Rightarrow> bool \<Rightarrow> int \<Rightarrow> (u64 \<times> string) list \<Rightarrow> StoreState \<Rightarrow> StoreState option" where
  "execute_all env nr g [] s = Some s"
| "execute_all env nr g ((c, v) # es) s = do {
     (ok, ret, s) \<leftarrow> Execute env nr s g c v;
     if ok then execute_all env nr g es s else None }"

lemma execute_all_index:
  assumes "wf_store (env_crc32 env) s" and "\<forall>(c, v) \<in> set es. c \<noteq> NoID \<and> executable env s v"
    and "sorted_wrt (\<le>) (map fst es)" and "\<forall>(c, v) \<in> set es. \<forall>k \<in> set (qcursors s q). k \<le> c"
  shows "\<exists>s'. execute_all env nr g es s = Some s' \<and> wf_store (env_crc32 env) s' \<and> same_shape s s'
     \<and> set (qcursors s' q) = set (qcursors s q) \<union> {c. \<exists>v. (c, v) \<in> set es \<and> adds env v q}"
  using assms
proof (induction es arbitrary: s)
  case Nil
  then show ?case by (simp add: same_shape_def)
next
  case (Cons e es)
  obtain c v where e: "e = (c, v)" by (cases e)
  have cv: "c \<noteq> NoID" "executable env s v" using Cons.prems(2) e by auto
  obtain s1 where s1: "Execute env nr s g c v = Some (True, RET_OK, s1)" "wf_store (env_crc32 env) s1"
    "same_shape s s1" "qcursors s1 q =
       (if adds env v q \<and> (\<forall>k \<in> set (qcursors s q). k < c) then qcursors s q @ [c] else qcursors s q)"
    using Execute_step[OF Cons.prems(1) cv, of nr g] by blast
  have set1: "set (qcursors s1 q) = set (qcursors s q) \<union> (if adds env v q then {c} else {})"
  proof (cases "adds env v q \<and> \<not> (\<forall>k \<in> set (qcursors s q). k < c)")
    case True
    then obtain k where "k \<in> set (qcursors s q)" "c \<le> k" by (auto simp: not_less)
    moreover from this have "k \<le> c" using Cons.prems(4) e by auto
    ultimately have "c \<in> set (qcursors s q)" by auto
    with True s1(4) show ?thesis by auto
  next
    case False
    with s1(4) show ?thesis by auto
  qed
  have "\<forall>(c, v) \<in> set es. c \<noteq> NoID \<and> executable env s1 v"
    using Cons.prems(2) same_shape_executable[OF s1(3)] by auto
  moreover have "sorted_wrt (\<le>) (map fst es)" using Cons.prems(3) by simp
  moreover have "\<forall>(c, v) \<in> set es. \<forall>k \<in> set (qcursors s1 q). k \<le> c"
    using Cons.prems(3,4) e set1 by (auto split: if_splits)
  ultimately obtain s' where s': "execute_all env nr g es s1 = Some s'" "wf_store (env_crc32 env) s'" "same_shape s1 s'"
    "set (qcursors s' q) = set (qcursors s1 q) \<union> {c. \<exists>v. (c, v) \<in> set es \<and> adds env v q}"
    using Cons.IH[OF s1(2)] by blast
  have "{c'. \<exists>v'. (c', v') \<in> set (e # es) \<and> adds env v' q} =
    (if adds env v q then {c} else {}) \<union> {c. \<exists>v. (c, v) \<in> set es \<and> adds env v q}"
    using e by auto
  with s' s1(1,3) set1 e show ?case by (simp add: same_shape_def Un_assoc)
qed

text \<open>Replaying a group's chosen values in instance order (a batch repeats its instance)
  never fails on values that this store can execute, keeps the store well formed, and leaves in
  the index of a queue exactly the instances that were there before or carry items of the queue:
  the index is the set of instances of the log with items for the queue.\<close>

theorem Execute_builds_index:
  assumes "wf_store (env_crc32 env) s" and "\<forall>(c, v) \<in> set es. c \<noteq> NoID \<and> executable env s v"
    and "sorted_wrt (\<le>) (map fst es)" and "\<forall>(c, v) \<in> set es. \<forall>k \<in> set (qcursors s q). k \<le> c"
  shows "\<exists>s'. execute_all env nr g es s = Some s' \<and> wf_store (env_crc32 env) s'
     \<and> set (qcursors s' q) = set (qcursors s q) \<union> {c. \<exists>v. (c, v) \<in> set es \<and> adds env v q}"
  using execute_all_index[OF assms, of nr g] by blast

lemma items_of_values_adds:
  "snd (items_of_values env q c vs items) \<noteq> [] \<Longrightarrow> items \<noteq> [] \<or> (\<exists>v. (v, StoreSM_ID) \<in> set vs \<and> adds env v q)"
proof (induction vs arbitrary: items)
  case (Cons p vs)
  obtain v smid where p: "p = (v, smid)" by (cases p)
  show ?case
  proof (cases "smid = StoreSM_ID \<and> adds env v q")
    case True
    with p show ?thesis by auto
  next
    case False
    then have "items_of_values env q c (p # vs) items = items_of_values env q c vs items
      \<or> snd (items_of_values env q c (p # vs) items) = items"
      using p by (auto simp: adds_def split: option.splits)
    with Cons.prems Cons.IH[of items] show ?thesis by auto
  qed
qed simp

lemma items_at_adds:
  assumes "items_at ctx c \<noteq> []" and "0 \<le> get_queue_id (gc_req ctx)" "0 < ngroup (gc_opt ctx)"
  shows "\<exists>vs v. GetInstanceValue (gc_env ctx) (get_queue_id (gc_req ctx) mod ngroup (gc_opt ctx)) c = Value_Chosen vs
     \<and> (v, StoreSM_ID) \<in> set vs \<and> adds (gc_env ctx) v (get_queue_id (gc_req ctx))"
  using assms items_of_values_adds[of "gc_env ctx" "get_queue_id (gc_req ctx)" c _ "[]"]
  by (auto simp: items_at_def GetItemsByCursorID_def cmod_nonneg split: InstanceValue.splits prod.splits if_splits)

text \<open>C15: A store that has executed the log serves it. If the executed values are the chosen
  values of the queue's paxos group above the group's checkpoint, and instances below the
  smallest chosen one carry nothing any more, then the index covers the log: the hypothesis under
  which \<open>Get\<close> loses nothing holds for every request on the queue.\<close>

theorem Execute_covers_log:
  assumes wf: "wf_store (env_crc32 env) s" and ex: "\<forall>(c, v) \<in> set es. c \<noteq> NoID \<and> executable env s v"
    and srt: "sorted_wrt (\<le>) (map fst es)" and fresh: "\<forall>(c, v) \<in> set es. \<forall>k \<in> set (qcursors s q). k \<le> c"
    and q: "0 \<le> q" "g = q mod ngroup (st_opt s)"
    and log: "\<And>c vs v. GetInstanceValue env g c = Value_Chosen vs \<Longrightarrow> (v, StoreSM_ID) \<in> set vs \<Longrightarrow>
       cp = NoID \<or> cp < c \<Longrightarrow> (c, v) \<in> set es"
    and gone: "\<And>c. m \<noteq> NoID \<Longrightarrow> c < m \<Longrightarrow> GetInstanceValue env g c = Value_NotExist"
  shows "\<exists>s'. execute_all env nr g es s = Some s' \<and> wf_store (env_crc32 env) s'
     \<and> (\<forall>req tc qi prev. get_queue_id req = q \<longrightarrow> covered (get_ctx env s' req tc qi (cp, m) prev) (qcursors s' q))"
proof -
  obtain s' where s': "execute_all env nr g es s = Some s'" "wf_store (env_crc32 env) s'" "same_shape s s'"
    "set (qcursors s' q) = set (qcursors s q) \<union> {c. \<exists>v. (c, v) \<in> set es \<and> adds env v q}"
    using execute_all_index[OF wf ex srt fresh, of nr g] by blast
  have ng: "0 < ngroup (st_opt s)" using wf_storeD(1)[OF wf] by (simp add: wf_opt_def)
  have "covered (get_ctx env s' req tc qi (cp, m) prev) (qcursors s' q)" if r: "get_queue_id req = q" for req tc qi prev
  proof -
    let ?ctx = "get_ctx env s' req tc qi (cp, m) prev"
    have gg: "get_queue_id (gc_req ?ctx) mod ngroup (gc_opt ?ctx) = g" "0 < ngroup (gc_opt ?ctx)"
      using r q s'(3) ng by (simp_all add: same_shape_def)
    have it: "\<exists>vs v. GetInstanceValue env g c = Value_Chosen vs \<and> (v, StoreSM_ID) \<in> set vs \<and> adds env v q"
      if "items_at ?ctx c \<noteq> []" for c
      using items_at_adds[OF that _ gg(2)] q(1) r gg(1) by auto
    have "c \<in> set (qcursors s' q)" if "items_at ?ctx c \<noteq> []" "cp = NoID \<or> cp < c" for c
      using it[OF that(1)] log that(2) s'(4) by blast
    moreover have "items_at ?ctx c = []" if "m \<noteq> NoID" "c < m" for c
      using it[of c] gone[OF that] by auto
    ultimately show ?thesis by (auto simp: covered_def)
  qed
  with s' show ?thesis by blast
qed
end
