(* ===== verification/Store.thy ===== *)
theory Store
  imports StoreSM
begin

section \<open>Store (store/store.cpp)\<close>

text \<open>
  The service methods \<open>Add\<close> and \<open>Get\<close> with the checks in front of them, the proposal of an add
  through paxos, and the initialisation. phxpaxos' \<open>BatchPropose\<close> is a parameter that returns its
  code, the instance, the result that the state machine wrote to the context, and the state after
  the values it executed.
\<close>

type_synonym batch_propose = "int \<Rightarrow> string \<Rightarrow> StoreState \<Rightarrow> TryCommitRet \<times> u64 \<times> RetCode \<times> StoreState"

fun find_topic :: "StoreEnv \<Rightarrow> Addr \<Rightarrow> int list \<Rightarrow> RetCode + int" where
  "find_topic env addr [] = Inl RET_ERR_RANGE_ADDR"
| "find_topic env addr (tid # tids) =
     (case GetStoreConfig (env_config env) tid of
        Inl ret \<Rightarrow> find_topic env addr tids
      | Inr store_config \<Rightarrow>
          (case GetStoreIDByAddr (env_inet_addr env) store_config addr of
             Inr store_id \<Rightarrow> Inr tid
           | Inl ret \<Rightarrow> find_topic env addr tids))"

definition InitTopicID :: "StoreEnv \<Rightarrow> StoreState \<Rightarrow> RetCode \<times> StoreState" where
  "InitTopicID env s =
     (if opt_topic (st_opt s) \<noteq> []
      then case GetTopicIDByTopicName (env_config env) (opt_topic (st_opt s)) of
             Inl ret \<Rightarrow> (ret, s)
           | Inr tid \<Rightarrow> (RET_OK, s\<lparr>st_topic_id := tid\<rparr>)
      else case find_topic env (st_addr s) (GetAllTopicID (env_config env)) of
             Inl ret \<Rightarrow> (ret, s)
           | Inr tid \<Rightarrow> (RET_OK, s\<lparr>st_topic_id := tid\<rparr>))"

definition PaxosInit :: "StoreEnv \<Rightarrow> bool \<Rightarrow> (PaxosOptions \<Rightarrow> bool) \<Rightarrow> StoreState \<Rightarrow> RetCode" where
  "PaxosInit env create_dir_ok RunNode s =
     (case GetTopicConfigByTopicID (env_config env) (st_topic_id s) of Inl ret \<Rightarrow> ret | Inr topic_config \<Rightarrow>
      case GetStoreConfig (env_config env) (st_topic_id s) of Inl ret \<Rightarrow> ret | Inr store_config \<Rightarrow>
      case GetStoreByAddr (env_inet_addr env) store_config (st_addr s) of Inl ret \<Rightarrow> ret | Inr store \<Rightarrow>
        let opts = \<lparr>vecNodeInfoList = map (\<lambda>a. (ip a, paxos_port a)) (store_addrs store),
                    iGroupCount = ngroup (st_opt s),
                    vecGroupSMInfoList = map (\<lambda>i. (i, StoreSM_ID)) [0..ngroup (st_opt s) - 1],
                    oMyNode = (opt_ip (st_opt s), opt_paxos_port (st_opt s)),
                    bUseMembership = False, bUseCheckpointReplayer = False,
                    iSyncInterval = store_paxos_fsync_interval (tp_topic (tc_proto topic_config)),
                    bUseBatchPropose = True, iIOThreadCount = npaxos_iothread (st_opt s)\<rparr>
        in if \<not> create_dir_ok then RET_DIR_NOT_EXIST
           else if \<not> RunNode opts then RET_ERR_PAXOS_RUN_NODE else RET_OK)"

text \<open>
  \<open>CheckPointStatMgr::Init\<close> maps one file per group; \<open>Store::Init\<close> builds the managers in order and
  stops at the first error.
\<close>

fun init_stats :: "(int \<Rightarrow> RetCode \<times> CheckPointStatItem option) \<Rightarrow> int list \<Rightarrow> RetCode + CheckPointStatItem list" where
  "init_stats init [] = Inr []"
| "init_stats init (i # is) =
     (case init i of
        (ret, Some item) \<Rightarrow>
          if ret \<noteq> RET_OK then Inl ret
          else (case init_stats init is of Inl ret \<Rightarrow> Inl ret | Inr items \<Rightarrow> Inr (item # items))
      | (ret, None) \<Rightarrow> Inl ret)"

definition CheckPointStatMgr_Init ::
  "bool \<Rightarrow> (int \<Rightarrow> RetCode \<times> CheckPointStatItem option) \<Rightarrow> StoreState \<Rightarrow> RetCode \<times> StoreState" where
  "CheckPointStatMgr_Init create_dir_ok init s =
     (if ngroup (st_opt s) = 0 then (RET_OK, s)
      else if \<not> create_dir_ok then (RET_DIR_NOT_EXIST, s)
      else case init_stats init [0..ngroup (st_opt s) - 1] of
             Inl ret \<Rightarrow> (ret, s)
           | Inr items \<Rightarrow> (RET_OK, s\<lparr>cp_stats := items\<rparr>))"

record StoreFiles =
  f_access_data_dir :: bool
  f_sync_open :: bool
  f_sync_ftruncate :: bool
  f_sync_mmap :: "SyncCtrlItem list option"
  f_cp_dir :: bool
  f_cp_init :: "int \<Rightarrow> RetCode \<times> CheckPointStatItem option"
  f_nodedb_dir :: bool

definition Store_Init ::
  "StoreEnv \<Rightarrow> StoreFiles \<Rightarrow> (PaxosOptions \<Rightarrow> bool) \<Rightarrow> StoreState \<Rightarrow> RetCode \<times> StoreState" where
  "Store_Init env files RunNode s =
     (if \<not> f_access_data_dir files then (RET_DIR_NOT_EXIST, s)
      else
        let s = s\<lparr>st_addr := opt_addr (st_opt s)\<rparr>;
            (ret, s) = InitTopicID env s
        in if ret \<noteq> RET_OK then (ret, s)
        else let (ret, s) = BaseMgr_Init s
        in if ret \<noteq> RET_OK then (ret, s)
        else let (ret, s) = SyncCtrl_Init (f_sync_open files) (f_sync_ftruncate files) (f_sync_mmap files) s
        in if ret \<noteq> RET_OK then (ret, s)
        else let (ret, s) = CheckPointStatMgr_Init (f_cp_dir files) (f_cp_init files) s
        in if ret \<noteq> RET_OK then (ret, s)
        else (PaxosInit env (f_nodedb_dir files) RunNode s, s))"

subsection \<open>Checks\<close>

definition CheckRequestComm :: "StoreEnv \<Rightarrow> StoreState \<Rightarrow> int \<Rightarrow> int \<Rightarrow> RetCode" where
  "CheckRequestComm env s store_id queue_id =
     (case GetStoreConfig (env_config env) (st_topic_id s) of Inl ret \<Rightarrow> ret | Inr store_config \<Rightarrow>
      case GetStoreByAddr (env_inet_addr env) store_config (st_addr s) of Inl ret \<Rightarrow> ret | Inr store \<Rightarrow>
        if store_ident store \<noteq> store_id then RET_ERR_RANGE_STORE
        else case GetTopicConfigByTopicID (env_config env) (st_topic_id s) of Inl ret \<Rightarrow> ret
             | Inr topic_config \<Rightarrow>
                 if \<not> IsValidQueue topic_config queue_id (-1) (-1) then RET_ERR_RANGE_PUB else RET_OK)"

definition CheckAddRequest :: "StoreEnv \<Rightarrow> StoreState \<Rightarrow> AddRequest \<Rightarrow> RetCode" where
  "CheckAddRequest env s req =
     (let ret = CheckRequestComm env s (add_store_id req) (add_queue_id req)
      in if ret \<noteq> RET_OK then ret
         else case GetTopicConfigByTopicID (env_config env) (st_topic_id s) of Inl ret \<Rightarrow> ret
         | Inr topic_config \<Rightarrow>
             let byte_size = (\<Sum>i\<leftarrow>add_items req. of_nat (QItem_ByteSize env i)) :: u64
             in if word_of_int (items_byte_size_limit (tp_topic (tc_proto topic_config))) < byte_size
                then RET_ERR_SIZE_TOO_LARGE else RET_OK)"

definition CheckGetRequest :: "StoreEnv \<Rightarrow> StoreState \<Rightarrow> GetRequest \<Rightarrow> RetCode" where
  "CheckGetRequest env s req =
     (let ret = CheckRequestComm env s (get_store_id req) (get_queue_id req)
      in if ret \<noteq> RET_OK then ret else RET_OK)"

definition CheckMaster :: "StoreEnv \<Rightarrow> StoreState \<Rightarrow> int \<Rightarrow> Addr \<Rightarrow> RetCode \<times> Addr" where
  "CheckMaster env s paxos_group_id redirect_addr =
     (if IsIMMaster env paxos_group_id then (RET_OK, redirect_addr)
      else let (node_ip, node_port) = GetMaster env paxos_group_id
      in if node_ip = [] \<or> node_port = 0 \<or> node_ip = ''0.0.0.0'' then (RET_ERR_NO_MASTER, redirect_addr)
      else case GetStoreConfig (env_config env) (st_topic_id s) of Inl ret \<Rightarrow> (ret, redirect_addr) | Inr store_config \<Rightarrow>
           case GetStoreByAddr (env_inet_addr env) store_config (st_addr s) of Inl ret \<Rightarrow> (ret, redirect_addr) | Inr store \<Rightarrow>
           case find (\<lambda>a. ip a = node_ip \<and> paxos_port a = node_port) (store_addrs store) of
             Some tmp_addr \<Rightarrow> (RET_ERR_NOT_MASTER, tmp_addr)
           | None \<Rightarrow> (RET_ERR_RANGE_ADDR, redirect_addr))"

subsection \<open>Add and Get\<close>

definition add_args :: "u64 \<Rightarrow> AddRequest \<Rightarrow> StorePaxosArgs" where
  "add_args timestamp req = \<lparr>pa_add_req = Some req, pa_sync_ctrl_info = None, pa_master_addr = Addr_default,
     pa_timestamp = timestamp\<rparr>"

definition PaxosAdd ::
  "StoreEnv \<Rightarrow> batch_propose \<Rightarrow> u64 \<Rightarrow> StoreState \<Rightarrow> AddRequest \<Rightarrow> AddResponse
   \<Rightarrow> (RetCode \<times> AddResponse \<times> StoreState) option" where
  "PaxosAdd env BatchPropose now s req resp = do {
     paxos_group_id \<leftarrow> cmod (add_queue_id req) (ngroup (st_opt s));
     let buf = SerializeStorePaxosArgs env (add_args now req);
     let (paxos_ret, instance_id, result, s) = BatchPropose paxos_group_id buf s;
     Some (case paxos_ret of
             TryCommit_OK \<Rightarrow> (result, resp\<lparr>add_resp_cursor_id := instance_id\<rparr>, s)
           | TryCommit_Timeout \<Rightarrow> (RET_ERR_PROPOSE_TIMEOUT, resp, s)
           | TryCommit_TooManyThreadWaiting_Reject \<Rightarrow> (RET_ERR_PROPOSE_FAST_REJECT, resp, s)
           | TryCommit_Value_Size_TooLarge \<Rightarrow> (RET_ERR_SIZE_TOO_LARGE, resp, s)
           | TryCommit_Other \<Rightarrow> (RET_ERR_PROPOSE, resp, s)) }"

definition or_default :: "Addr option \<Rightarrow> Addr" where
  "or_default a = (case a of None \<Rightarrow> Addr_default | Some a \<Rightarrow> a)"

definition Store_Add ::
  "StoreEnv \<Rightarrow> batch_propose \<Rightarrow> u64 \<Rightarrow> StoreState \<Rightarrow> AddRequest \<Rightarrow> AddResponse
   \<Rightarrow> (RetCode \<times> AddResponse \<times> StoreState) option" where
  "Store_Add env BatchPropose now s req resp =
     (if add_items req = [] then Some (RET_OK, resp, s)
      else
        let ret = CheckAddRequest env s req
        in if ret \<noteq> RET_OK then Some (ret, resp, s)
        else do {
          paxos_group_id \<leftarrow> cmod (add_queue_id req) (ngroup (st_opt s));
          let (ret, redirect_addr) = CheckMaster env s paxos_group_id (or_default (add_redirect_addr resp));
          let resp = resp\<lparr>add_redirect_addr := Some redirect_addr\<rparr>;
          if ret \<noteq> RET_OK then Some (ret, resp, s)
          else PaxosAdd env BatchPropose now s req resp })"

definition Store_Get ::
  "StoreEnv \<Rightarrow> (nat \<Rightarrow> u64) \<Rightarrow> StoreState \<Rightarrow> GetRequest \<Rightarrow> GetResponse
   \<Rightarrow> (RetCode \<times> GetResponse \<times> StoreState) option" where
  "Store_Get env clock s req resp =
     (let ret = CheckGetRequest env s req
      in if ret \<noteq> RET_OK then Some (ret, resp, s)
      else do {
        paxos_group_id \<leftarrow> cmod (get_queue_id req) (ngroup (st_opt s));
        let (ret, redirect_addr) = CheckMaster env s paxos_group_id (or_default (resp_redirect_addr resp));
        let resp = resp\<lparr>resp_redirect_addr := Some redirect_addr\<rparr>;
        if ret \<noteq> RET_OK then Some (ret, resp, s)
        else BaseMgr_Get env clock s req resp })"


subsection \<open>What the service guarantees\<close>

lemma CheckMaster_cases:
  "fst (CheckMaster env s g a) = RET_OK \<longleftrightarrow> IsIMMaster env g"
  "fst (CheckMaster env s g a) = RET_ERR_NOT_MASTER \<Longrightarrow>
     \<not> IsIMMaster env g \<and> (\<exists>store_config store. GetStoreConfig (env_config env) (st_topic_id s) = Inr store_config
       \<and> GetStoreByAddr (env_inet_addr env) store_config (st_addr s) = Inr store
       \<and> snd (CheckMaster env s g a) \<in> set (store_addrs store)
       \<and> GetMaster env g = (ip (snd (CheckMaster env s g a)), paxos_port (snd (CheckMaster env s g a))))"
proof -
  show "fst (CheckMaster env s g a) = RET_OK \<longleftrightarrow> IsIMMaster env g"
    by (auto simp: CheckMaster_def GetStoreConfig_def GetStoreByAddr_def GetStoreIDByAddr_def GetStoreByStoreID_def
        split: option.splits sum.splits prod.splits)
  show "\<not> IsIMMaster env g \<and> (\<exists>store_config store. GetStoreConfig (env_config env) (st_topic_id s) = Inr store_config
       \<and> GetStoreByAddr (env_inet_addr env) store_config (st_addr s) = Inr store
       \<and> snd (CheckMaster env s g a) \<in> set (store_addrs store)
       \<and> GetMaster env g = (ip (snd (CheckMaster env s g a)), paxos_port (snd (CheckMaster env s g a))))"
    if h: "fst (CheckMaster env s g a) = RET_ERR_NOT_MASTER"
  proof -
    obtain nip nport where m: "GetMaster env g = (nip, nport)" by fastforce
    have nm: "\<not> IsIMMaster env g" and ok: "\<not> (nip = [] \<or> nport = 0 \<or> nip = ''0.0.0.0'')"
      using h m by (auto simp: CheckMaster_def split: if_splits)
    obtain sc where sc: "GetStoreConfig (env_config env) (st_topic_id s) = Inr sc"
      using h m nm ok by (cases "GetStoreConfig (env_config env) (st_topic_id s)")
        (auto simp: CheckMaster_def GetStoreConfig_def split: option.splits)
    obtain st where st: "GetStoreByAddr (env_inet_addr env) sc (st_addr s) = Inr st"
      using h m nm ok sc by (cases "GetStoreByAddr (env_inet_addr env) sc (st_addr s)")
        (auto simp: CheckMaster_def GetStoreByAddr_def GetStoreIDByAddr_def GetStoreByStoreID_def split: option.splits)
    obtain b where b: "find (\<lambda>a. ip a = nip \<and> paxos_port a = nport) (store_addrs st) = Some b"
      using h m nm ok sc st by (cases "find (\<lambda>a. ip a = nip \<and> paxos_port a = nport) (store_addrs st)")
        (auto simp: CheckMaster_def)
    have "CheckMaster env s g a = (RET_ERR_NOT_MASTER, b)"
      using m nm ok sc st b by (simp add: CheckMaster_def)
    with nm sc st b m show ?thesis by (auto simp: find_Some_iff)
  qed
qed

text \<open>phxpaxos knows a master of the group.\<close>

definition master_known :: "StoreEnv \<Rightarrow> int \<Rightarrow> bool" where
  "master_known env g \<longleftrightarrow> fst (GetMaster env g) \<noteq> [] \<and> snd (GetMaster env g) \<noteq> 0 \<and> fst (GetMaster env g) \<noteq> ''0.0.0.0''"

lemma CheckMaster_other:
  assumes "\<not> IsIMMaster env g"
  shows "\<not> master_known env g \<Longrightarrow> CheckMaster env s g a = (RET_ERR_NO_MASTER, a)"
    and "master_known env g \<Longrightarrow> GetStoreConfig (env_config env) (st_topic_id s) = Inr store_config \<Longrightarrow>
      GetStoreByAddr (env_inet_addr env) store_config (st_addr s) = Inr store \<Longrightarrow>
      CheckMaster env s g a = (case find (\<lambda>a. (ip a, paxos_port a) = GetMaster env g) (store_addrs store) of
         Some redirect \<Rightarrow> (RET_ERR_NOT_MASTER, redirect) | None \<Rightarrow> (RET_ERR_RANGE_ADDR, a))"
  using assms by (cases "GetMaster env g"; auto simp: CheckMaster_def master_known_def)+

text \<open>C37: Only the master of a queue's paxos group serves the queue, and the others send the client to it. If
  \<open>Get\<close> succeeds, this node was the group's master and the request named this store and a valid
  queue. A node that is not the master refuses a valid request and changes nothing: while phxpaxos knows no master
  it says so, and otherwise it redirects the client to the member of this very store, in its configuration,
  that phxpaxos knows as the master, or reports that there is none. The client is redirected nowhere else.\<close>

theorem Store_Get_master:
  assumes "Store_Get env clock s req resp = Some (ret, resp', s')"
    and g: "cmod (get_queue_id req) (ngroup (st_opt s)) = Some g"
  shows "(ret = RET_OK \<longrightarrow> IsIMMaster env g \<and> CheckRequestComm env s (get_store_id req) (get_queue_id req) = RET_OK)
     \<and> (CheckGetRequest env s req = RET_OK \<and> \<not> IsIMMaster env g \<longrightarrow>
          ret \<noteq> RET_OK \<and> s' = s
          \<and> (\<not> master_known env g \<longrightarrow> ret = RET_ERR_NO_MASTER)
          \<and> (\<forall>store_config store. master_known env g
               \<and> GetStoreConfig (env_config env) (st_topic_id s) = Inr store_config
               \<and> GetStoreByAddr (env_inet_addr env) store_config (st_addr s) = Inr store \<longrightarrow>
               (case find (\<lambda>a. (ip a, paxos_port a) = GetMaster env g) (store_addrs store) of
                  Some redirect \<Rightarrow> ret = RET_ERR_NOT_MASTER \<and> resp_redirect_addr resp' = Some redirect
                | None \<Rightarrow> ret = RET_ERR_RANGE_ADDR))
          \<and> (ret = RET_ERR_NOT_MASTER \<longrightarrow>
               (\<exists>store_config store redirect. resp_redirect_addr resp' = Some redirect
                 \<and> GetStoreConfig (env_config env) (st_topic_id s) = Inr store_config
                 \<and> GetStoreByAddr (env_inet_addr env) store_config (st_addr s) = Inr store
                 \<and> redirect \<in> set (store_addrs store) \<and> GetMaster env g = (ip redirect, paxos_port redirect))))"
proof -
  let ?a = "or_default (resp_redirect_addr resp)"
  let ?cm = "CheckMaster env s g ?a"
  obtain r a where cm: "?cm = (r, a)" by fastforce
  have ok: "IsIMMaster env g \<and> CheckRequestComm env s (get_store_id req) (get_queue_id req) = RET_OK"
    if "ret = RET_OK"
    using assms that cm CheckMaster_cases(1)[of env s g ?a]
    by (auto simp: Store_Get_def CheckGetRequest_def Let_def split: if_splits)
  have other: "ret = r \<and> r \<noteq> RET_OK \<and> s' = s \<and> resp_redirect_addr resp' = Some a"
    if "CheckGetRequest env s req = RET_OK" "\<not> IsIMMaster env g"
    using assms that cm CheckMaster_cases(1)[of env s g ?a] by (auto simp: Store_Get_def Let_def)
  have ref: "ret \<noteq> RET_OK \<and> s' = s \<and> (\<not> master_known env g \<longrightarrow> ret = RET_ERR_NO_MASTER)"
    if "CheckGetRequest env s req = RET_OK" "\<not> IsIMMaster env g"
    using other[OF that] cm CheckMaster_other(1)[OF that(2), of s ?a] by auto
  have to: "case find (\<lambda>a. (ip a, paxos_port a) = GetMaster env g) (store_addrs st) of
        Some redirect \<Rightarrow> ret = RET_ERR_NOT_MASTER \<and> resp_redirect_addr resp' = Some redirect
      | None \<Rightarrow> ret = RET_ERR_RANGE_ADDR"
    if "CheckGetRequest env s req = RET_OK" "\<not> IsIMMaster env g" "master_known env g"
      "GetStoreConfig (env_config env) (st_topic_id s) = Inr sc" "GetStoreByAddr (env_inet_addr env) sc (st_addr s) = Inr st" for sc st
    using other[OF that(1,2)] cm CheckMaster_other(2)[OF that(2-5), of ?a] by (auto split: option.splits)
  have origin: "\<exists>store_config store redirect. resp_redirect_addr resp' = Some redirect
                 \<and> GetStoreConfig (env_config env) (st_topic_id s) = Inr store_config
                 \<and> GetStoreByAddr (env_inet_addr env) store_config (st_addr s) = Inr store
                 \<and> redirect \<in> set (store_addrs store) \<and> GetMaster env g = (ip redirect, paxos_port redirect)"
    if "CheckGetRequest env s req = RET_OK" "\<not> IsIMMaster env g" "ret = RET_ERR_NOT_MASTER"
    using other[OF that(1,2)] that(3) cm CheckMaster_cases(2)[of env s g ?a] by auto
  show ?thesis using ok ref to origin by blast
qed

text \<open>
  The contract of \<open>BatchPropose\<close> when it returns success: the replica has executed the values
  chosen before, in instance order, and then the proposed one, whose result is handed back.
\<close>

definition proposes :: "StoreEnv \<Rightarrow> batch_propose \<Rightarrow> StoreState \<Rightarrow> int \<Rightarrow> int \<Rightarrow> string \<Rightarrow> bool" where
  "proposes env BatchPropose s g q buf \<longleftrightarrow>
     (\<forall>i res s'. BatchPropose g buf s = (TryCommit_OK, i, res, s') \<longrightarrow>
        i \<noteq> NoID \<and> (\<exists>es s1 ok.
          sorted_wrt (\<le>) (map fst es @ [i])
          \<and> (\<forall>(c, v) \<in> set es. c \<noteq> NoID \<and> executable env s v)
          \<and> (\<forall>c \<in> set (map fst es @ [i]). \<forall>k \<in> set (qcursors s q). k \<le> c)
          \<and> execute_all env True g es s = Some s1 \<and> Execute env True s1 g i buf = Some (ok, res, s')))"

text \<open>C8: An acknowledged \<open>Add\<close> is indexed. If \<open>Add\<close> returns success for a request with items,
  the store is still well formed, this node was the master, and the paxos instance whose id is
  in the response is in the index of the request's queue, so the items will be served. (phxpaxos
  meets its contract and protobuf reads back what it wrote.)\<close>

theorem Store_Add_indexed:
  assumes wf: "wf_store (env_crc32 env) s" and ne: "add_items req \<noteq> []"
    and q: "0 \<le> add_queue_id req" and ok: "add_ok env s req"
    and pb: "ParseStorePaxosArgs env (SerializeStorePaxosArgs env (add_args now req)) = Some (add_args now req)"
    and px: "proposes env BatchPropose s (add_queue_id req mod ngroup (st_opt s)) (add_queue_id req)
       (SerializeStorePaxosArgs env (add_args now req))"
    and add: "Store_Add env BatchPropose now s req resp = Some (RET_OK, resp', s')"
  shows "wf_store (env_crc32 env) s' \<and> IsIMMaster env (add_queue_id req mod ngroup (st_opt s))
     \<and> add_resp_cursor_id resp' \<in> set (qcursors s' (add_queue_id req))"
proof -
  let ?g = "add_queue_id req mod ngroup (st_opt s)" and ?q = "add_queue_id req"
  let ?buf = "SerializeStorePaxosArgs env (add_args now req)"
  have g: "cmod ?q (ngroup (st_opt s)) = Some ?g"
    using q wf_storeD(1)[OF wf] by (simp add: cmod_nonneg wf_opt_def)
  obtain r a where cm: "CheckMaster env s ?g (or_default (add_redirect_addr resp)) = (r, a)" by fastforce
  have r: "r = RET_OK" and pa: "PaxosAdd env BatchPropose now s req (resp\<lparr>add_redirect_addr := Some a\<rparr>) = Some (RET_OK, resp', s')"
    using add ne g cm by (auto simp: Store_Add_def Let_def split: if_splits)
  obtain t i res t' where bp: "BatchPropose ?g ?buf s = (t, i, res, t')" by (metis prod_cases4)
  have t: "t = TryCommit_OK" "res = RET_OK" "t' = s'" "add_resp_cursor_id resp' = i"
    using pa g bp by (auto simp: PaxosAdd_def Let_def split: TryCommitRet.splits)
  obtain es s1 b where i: "i \<noteq> NoID" and es: "sorted_wrt (\<le>) (map fst es @ [i])"
    "\<forall>(c, v) \<in> set es. c \<noteq> NoID \<and> executable env s v"
    "\<forall>c \<in> set (map fst es @ [i]). \<forall>k \<in> set (qcursors s ?q). k \<le> c"
    "execute_all env True ?g es s = Some s1" "Execute env True s1 ?g i ?buf = Some (b, res, s')"
    using px bp t unfolding proposes_def by blast
  have exb: "executable env s ?buf" using pb ok by (simp add: executable_def add_args_def)
  have ad: "adds env ?buf ?q" using pb ne by (simp add: adds_def add_args_def)
  have "\<forall>(c, v) \<in> set es. \<forall>k \<in> set (qcursors s ?q). k \<le> c" using es(3) by auto
  moreover have "sorted_wrt (\<le>) (map fst es)" using es(1) by (simp add: sorted_wrt_append)
  ultimately obtain s2 where s2: "execute_all env True ?g es s = Some s2" "wf_store (env_crc32 env) s2" "same_shape s s2"
    "set (qcursors s2 ?q) = set (qcursors s ?q) \<union> {c. \<exists>v. (c, v) \<in> set es \<and> adds env v ?q}"
    using execute_all_index[OF wf es(2), of ?q True ?g] by blast
  have s12: "s2 = s1" using s2(1) es(4) by simp
  have le: "\<forall>k \<in> set (qcursors s1 ?q). k \<le> i"
    using s2(4) s12 es(1,3) by (auto simp: sorted_wrt_append)
  obtain s3 where s3: "Execute env True s1 ?g i ?buf = Some (True, RET_OK, s3)" "wf_store (env_crc32 env) s3"
    "qcursors s3 ?q = (if adds env ?buf ?q \<and> (\<forall>k \<in> set (qcursors s1 ?q). k < i) then qcursors s1 ?q @ [i] else qcursors s1 ?q)"
  proof -
    have "wf_store (env_crc32 env) s1" "executable env s1 ?buf"
      using s2(2,3) s12 same_shape_executable[of s s1 env ?buf] exb by simp_all
    from Execute_step[OF this(1) i this(2), of True ?g] show thesis by (blast intro: that)
  qed
  have "s3 = s'" using s3(1) es(5) by simp
  moreover have "i \<in> set (qcursors s3 ?q)"
  proof (cases "\<forall>k \<in> set (qcursors s1 ?q). k < i")
    case True
    then show ?thesis using s3(3) ad by simp
  next
    case False
    then obtain k where "k \<in> set (qcursors s1 ?q)" "\<not> k < i" by blast
    moreover from this le have "k = i" by (meson order_antisym not_less)
    ultimately have "i \<in> set (qcursors s1 ?q)" by simp
    then show ?thesis using s3(3) False by simp
  qed
  ultimately show ?thesis
    using s3(2) t(4) r cm CheckMaster_cases(1)[of env s ?g "or_default (add_redirect_addr resp)"] by simp
qed
end
