(* ===== verification/KeepSync.thy ===== *)
theory KeepSync
  imports Store
begin

section \<open>KeepSyncThread (store/keepsyncthread.cpp)\<close>

text \<open>
  The housekeeping thread of a store: it trims the index of every queue to what some consumer group
  has not acknowledged yet, moves the checkpoint of each paxos group, publishes the cursors of the
  groups this node masters, and rewinds cursors for a configured replay. The clock, as read for
  group \<open>g\<close>, and the random numbers are parameters.
\<close>

record KeepSyncState =
  ks_last_clear_time :: int
  next_make_cp_times :: "int list"
  next_sync_times :: "int list"

definition KeepSync_start :: "StoreState \<Rightarrow> KeepSyncState" where
  "KeepSync_start s = \<lparr>ks_last_clear_time = 0,
     next_make_cp_times = replicate (nat (ngroup (st_opt s))) 0,
     next_sync_times = replicate (nat (ngroup (st_opt s))) 0\<rparr>"

definition KeepSync_ClearSyncCtrl ::
  "StoreEnv \<Rightarrow> int \<Rightarrow> StoreState \<times> KeepSyncState \<Rightarrow> (StoreState \<times> KeepSyncState) option" where
  "KeepSync_ClearSyncCtrl env last_mod_time = (\<lambda>(s, ks).
     if last_mod_time \<noteq> ks_last_clear_time ks
     then do { s \<leftarrow> ClearSyncCtrl env s; Some (s, ks\<lparr>ks_last_clear_time := last_mod_time\<rparr>) }
     else Some (s, ks))"

subsection \<open>Checkpoints\<close>

definition DumpCheckPoint :: "StoreEnv \<Rightarrow> StoreState \<Rightarrow> int \<Rightarrow> u64 \<Rightarrow> (RetCode \<times> StoreState) option" where
  "DumpCheckPoint env s paxos_group_id cp =
     (if cp = NoID then Some (RET_ERR_NO_NEED_DUMP_CHECKPOINT, s)
      else case GetCheckPointStat s paxos_group_id of
        None \<Rightarrow> Some (RET_ERR_LOGIC, s)
      | Some i \<Rightarrow> do {
          stat \<leftarrow> at (cp_stats s) i;
          let (ret, tmp_cp) = GetCheckPoint stat;
          if ret \<noteq> RET_OK then Some (ret, s)
          else if tmp_cp \<noteq> NoID \<and> cp < tmp_cp then Some (RET_ERR_NO_NEED_DUMP_CHECKPOINT, s)
          else let (ret, stat') = UpdateCheckPointAndFlush (env_msync_ok env) cp stat
               in Some (ret, s\<lparr>cp_stats := put_at (cp_stats s) i stat'\<rparr>) })"

text \<open>
  The loop over the consumer groups computes the smallest \<open>prev\<close> cursor of the groups that
  consume the queue; a group without a cursor keeps the queue from being trimmed.
\<close>

fun min_cursor ::
  "StoreState \<Rightarrow> (int \<Rightarrow> bool) \<Rightarrow> int \<Rightarrow> int list \<Rightarrow> u64 \<Rightarrow> bool \<Rightarrow> (u64 \<times> bool) option" where
  "min_cursor s valid queue_id [] min_prev need_update = Some (min_prev, need_update)"
| "min_cursor s valid queue_id (g # gs) min_prev need_update =
     (if valid g then do {
        (ret, prev_cursor_id) \<leftarrow> GetCursorID s g queue_id True;
        if ret = RET_OK
        then min_cursor s valid queue_id gs
               (if min_prev = NoID \<or> prev_cursor_id < min_prev then prev_cursor_id else min_prev) need_update
        else min_cursor s valid queue_id gs min_prev (if 0 < as_integer ret then False else need_update) }
      else min_cursor s valid queue_id gs min_prev need_update)"

definition trim_queue :: "u64 \<Rightarrow> bool \<Rightarrow> StoreMetaQueue \<Rightarrow> StoreMetaQueue" where
  "trim_queue min_prev need_update meta_queue =
     (if \<not> need_update then meta_queue
      else if min_prev = NoID then Clear meta_queue
      else EraseFrontTill (StoreMeta_of min_prev) meta_queue)"

definition front_cursor :: "StoreMetaQueue \<Rightarrow> u64 option" where
  "front_cursor meta_queue =
     (if 0 < sint (Size meta_queue) then map_option sm_cursor_id (Front meta_queue) else None)"

function queue_ids :: "int \<Rightarrow> int \<Rightarrow> int \<Rightarrow> int list" where
  "queue_ids queue_id step bound =
     (if queue_id < bound \<and> 0 < step then queue_id # queue_ids (queue_id + step) step bound else [])"
  by pat_completeness auto
termination by (relation "measure (\<lambda>(q, n, m). nat (m - q))") auto

declare queue_ids.simps [simp del]

fun scan_queues ::
  "TopicConfig \<Rightarrow> int list \<Rightarrow> int list \<Rightarrow> u64 \<Rightarrow> StoreState \<Rightarrow> (u64 \<times> bool \<times> StoreState) option" where
  "scan_queues topic_config pub_ids [] cp s = Some (cp, False, s)"
| "scan_queues topic_config pub_ids (queue_id # queues) cp s = do {
     (min_prev, need_update) \<leftarrow> min_cursor s (queue_group_valid topic_config pub_ids queue_id) queue_id
                                   [1..nconsumer_group (st_opt s)] NoID True;
     i \<leftarrow> GetMetaQueue s queue_id;
     meta_queue \<leftarrow> at (meta_queues s) i;
     let meta_queue = trim_queue min_prev need_update meta_queue;
     let s = s\<lparr>meta_queues := put_at (meta_queues s) i meta_queue\<rparr>;
     case front_cursor meta_queue of
       None \<Rightarrow> scan_queues topic_config pub_ids queues cp s
     | Some c \<Rightarrow>
         let tmp = c - 1
         in if tmp = NoID then Some (NoID, True, s)
            else scan_queues topic_config pub_ids queues (if cp = NoID \<or> tmp < cp then tmp else cp) s }"

definition jitter :: "u32 \<Rightarrow> int \<Rightarrow> int" where
  "jitter rnd interval = uint (rnd mod word_of_int interval)"

definition make_group_cp ::
  "StoreEnv \<Rightarrow> (int \<Rightarrow> int) \<Rightarrow> (int \<Rightarrow> u32) \<Rightarrow> TopicConfig \<Rightarrow> int list \<Rightarrow> int
   \<Rightarrow> StoreState \<times> KeepSyncState \<Rightarrow> (StoreState \<times> KeepSyncState) option" where
  "make_group_cp env now FastRand topic_config pub_ids paxos_group_id = (\<lambda>(s, ks). do {
     next_time \<leftarrow> at (next_make_cp_times ks) paxos_group_id;
     if now paxos_group_id < next_time then Some (s, ks)
     else do {
       let conf = store_make_cp_interval_s (tp_topic (tc_proto topic_config));
       let interval = (if conf = 0 then 1 else conf);
       let ks = ks\<lparr>next_make_cp_times := put_at (next_make_cp_times ks) paxos_group_id
                  (now paxos_group_id + interval + jitter (FastRand paxos_group_id) interval)\<rparr>;
       let now_instance_id = GetNowInstanceID env paxos_group_id;
       (cp, finish, s) \<leftarrow> scan_queues topic_config pub_ids
                             (queue_ids paxos_group_id (ngroup (st_opt s)) (nqueue (st_opt s))) NoID s;
       let cp = (if cp = NoID \<and> \<not> finish then now_instance_id - 1 else cp);
       (ret, s) \<leftarrow> DumpCheckPoint env s paxos_group_id cp;
       Some (s, ks) } })"

definition MakeCheckPoint ::
  "StoreEnv \<Rightarrow> (int \<Rightarrow> int) \<Rightarrow> (int \<Rightarrow> u32) \<Rightarrow> StoreState \<times> KeepSyncState \<Rightarrow> (StoreState \<times> KeepSyncState) option" where
  "MakeCheckPoint env now FastRand = (\<lambda>(s, ks).
     case GetTopicConfigByTopicID (env_config env) (st_topic_id s) of Inl ret \<Rightarrow> Some (s, ks) | Inr topic_config \<Rightarrow>
     case GetStoreConfig (env_config env) (st_topic_id s) of Inl ret \<Rightarrow> Some (s, ks) | Inr store_config \<Rightarrow>
     case GetStoreIDByAddr (env_inet_addr env) store_config (opt_addr (st_opt s)) of Inl ret \<Rightarrow> Some (s, ks) | Inr store_id \<Rightarrow>
     case GetPubIDsByStoreID (env_config env) (st_topic_id s) store_id of Inl ret \<Rightarrow> Some (s, ks) | Inr pub_ids \<Rightarrow>
     foldM (make_group_cp env now FastRand topic_config pub_ids) [0..ngroup (st_opt s) - 1] (s, ks))"

subsection \<open>Publishing the cursors\<close>

fun group_details :: "StoreState \<Rightarrow> int \<Rightarrow> int list \<Rightarrow> ConsumerGroupDetail list option" where
  "group_details s queue_id [] = Some []"
| "group_details s queue_id (g # gs) = do {
     (ret, prev_cursor_id) \<leftarrow> GetCursorID s g queue_id True;
     details \<leftarrow> group_details s queue_id gs;
     Some (if as_integer ret < 0 then details
           else if as_integer ret = 0
           then \<lparr>cgd_consumer_group_id = g, cgd_prev_cursor_id = prev_cursor_id\<rparr> # details
           else details) }"

fun publish_info :: "StoreState \<Rightarrow> int list \<Rightarrow> SyncCtrlInfo option" where
  "publish_info s [] = Some []"
| "publish_info s (queue_id # queues) = do {
     details \<leftarrow> group_details s queue_id [1..nconsumer_group (st_opt s)];
     info \<leftarrow> publish_info s queues;
     Some (if details = [] then info
           else \<lparr>qd_queue_id = queue_id, qd_consumer_group_details = details\<rparr> # info) }"

text \<open>\<open>Propose\<close> is phxpaxos' method: whether it returned 0, and the state it leaves behind.\<close>

definition sync_group_cursors ::
  "StoreEnv \<Rightarrow> (int \<Rightarrow> string \<Rightarrow> StoreState \<Rightarrow> bool \<times> StoreState) \<Rightarrow> (int \<Rightarrow> int) \<Rightarrow> (int \<Rightarrow> u32) \<Rightarrow> TopicConfig \<Rightarrow> int
   \<Rightarrow> StoreState \<times> KeepSyncState \<Rightarrow> (StoreState \<times> KeepSyncState) option" where
  "sync_group_cursors env Propose now FastRand topic_config paxos_group_id = (\<lambda>(s, ks).
     if \<not> IsIMMaster env paxos_group_id then Some (s, ks)
     else do {
       next_time \<leftarrow> at (next_sync_times ks) paxos_group_id;
       if now paxos_group_id < next_time then Some (s, ks)
       else do {
         let conf = store_sync_interval_s (tp_topic (tc_proto topic_config));
         let interval = (if conf = 0 then 1 else conf);
         let ks = ks\<lparr>next_sync_times := put_at (next_sync_times ks) paxos_group_id
                    (now paxos_group_id + interval + jitter (FastRand paxos_group_id) interval)\<rparr>;
         info \<leftarrow> publish_info s (queue_ids paxos_group_id (ngroup (st_opt s)) (nqueue (st_opt s)));
         let buf = SerializeStorePaxosArgs env \<lparr>pa_add_req = None, pa_sync_ctrl_info = Some info,
                     pa_master_addr = Addr_default, pa_timestamp = word_of_int (now paxos_group_id)\<rparr>;
         let (ok, s) = Propose paxos_group_id buf s;
         Some (s, ks) } })"

definition KeepSync_SyncCursorID ::
  "StoreEnv \<Rightarrow> (int \<Rightarrow> string \<Rightarrow> StoreState \<Rightarrow> bool \<times> StoreState) \<Rightarrow> (int \<Rightarrow> int) \<Rightarrow> (int \<Rightarrow> u32)
   \<Rightarrow> StoreState \<times> KeepSyncState \<Rightarrow> (StoreState \<times> KeepSyncState) option" where
  "KeepSync_SyncCursorID env Propose now FastRand = (\<lambda>(s, ks).
     case GetTopicConfigByTopicID (env_config env) (st_topic_id s) of Inl ret \<Rightarrow> Some (s, ks) | Inr topic_config \<Rightarrow>
     foldM (sync_group_cursors env Propose now FastRand topic_config) [0..ngroup (st_opt s) - 1] (s, ks))"

subsection \<open>Replay\<close>

record Queue =
  q_consumer_group_id :: int
  q_store_id :: int
  q_queue_id :: int

definition GetAllLocalQueue :: "StoreEnv \<Rightarrow> StoreState \<Rightarrow> Queue list" where
  "GetAllLocalQueue env s =
     (case GetTopicConfigByTopicID (env_config env) (st_topic_id s) of Inl ret \<Rightarrow> [] | Inr topic_config \<Rightarrow>
      case GetStoreConfig (env_config env) (st_topic_id s) of Inl ret \<Rightarrow> [] | Inr store_config \<Rightarrow>
      case GetStoreIDByAddr (env_inet_addr env) store_config (opt_addr (st_opt s)) of Inl ret \<Rightarrow> [] | Inr store_id \<Rightarrow>
      case GetPubIDsByStoreID (env_config env) (st_topic_id s) store_id of Inl ret \<Rightarrow> [] | Inr pub_ids \<Rightarrow>
      map (\<lambda>(q, g). \<lparr>q_consumer_group_id = g, q_store_id = store_id, q_queue_id = q\<rparr>)
        (filter (\<lambda>(q, g). queue_group_valid topic_config pub_ids q g) (queue_groups (st_opt s))))"

definition replay_matches :: "TopicConfig \<Rightarrow> int list \<Rightarrow> Queue \<Rightarrow> ReplayInfo \<Rightarrow> bool" where
  "replay_matches topic_config pub_ids queue replay_info \<longleftrightarrow>
     (replay_consumer_group_ids replay_info \<noteq> []
        \<longrightarrow> q_consumer_group_id queue \<in> set (replay_consumer_group_ids replay_info))
     \<and> (replay_pub_ids replay_info \<noteq> []
        \<longrightarrow> list_ex (\<lambda>pid. pid \<in> set pub_ids \<and> IsValidQueue topic_config (q_queue_id queue) pid (-1))
              (replay_pub_ids replay_info))"

definition QueueNeedReplay :: "StoreEnv \<Rightarrow> StoreState \<Rightarrow> Queue \<Rightarrow> int list \<Rightarrow> ReplayInfo list \<Rightarrow> ReplayInfo option" where
  "QueueNeedReplay env s queue pub_ids infos =
     (case GetTopicConfigByTopicID (env_config env) (st_topic_id s) of
        Inl ret \<Rightarrow> None
      | Inr topic_config \<Rightarrow> find (replay_matches topic_config pub_ids queue) infos)"

text \<open>The binary search for the last instance proposed before a time stamp: \<open>replay_search\<close>
  returns the last instance that the loop has probed, \<^const>\<open>None\<close> if the loop does not end.\<close>

fun first_args :: "StoreEnv \<Rightarrow> (string \<times> int) list \<Rightarrow> StorePaxosArgs option" where
  "first_args env [] = None"
| "first_args env ((value, smid) # values) =
     (if smid \<noteq> StoreSM_ID then first_args env values
      else case ParseStorePaxosArgs env value of
        None \<Rightarrow> first_args env values
      | Some args \<Rightarrow> Some args)"

definition probe_low :: "StoreEnv \<Rightarrow> int \<Rightarrow> u64 \<Rightarrow> u64 \<Rightarrow> bool" where
  "probe_low env paxos_group_id timestamp mid =
     (case GetInstanceValue env paxos_group_id mid of
        Value_Not_Chosen_Yet \<Rightarrow> False
      | Value_NotExist \<Rightarrow> True
      | Value_Error \<Rightarrow> False
      | Value_Chosen values \<Rightarrow>
          (case first_args env values of None \<Rightarrow> False | Some args \<Rightarrow> pa_timestamp args < timestamp))"

partial_function (option) replay_search :: "(u64 \<Rightarrow> bool) \<Rightarrow> u64 \<Rightarrow> u64 \<Rightarrow> u64 \<Rightarrow> u64 option" where
  "replay_search low l r mid =
     (if l < r
      then let mid = l + drop_bit 1 (r + 1 - l)
           in if low mid then replay_search low mid r mid else replay_search low l (mid - 1) mid
      else Some mid)"

definition decide_replay :: "StoreEnv \<Rightarrow> int \<Rightarrow> ReplayInfo \<Rightarrow> u64 option option" where
  "decide_replay env paxos_group_id replay_info =
     (let min_instance_id = GetMinChosenInstanceID env paxos_group_id;
          now_instance_id = GetNowInstanceID env paxos_group_id;
          start = (if min_instance_id = NoID then 0 else min_instance_id)
      in if now_instance_id = NoID then Some None
         else if replay_cursor_id replay_info \<noteq> NoID
         then Some (if now_instance_id < replay_cursor_id replay_info then None
                    else Some (if start < replay_cursor_id replay_info then replay_cursor_id replay_info else start))
         else do {
           mid \<leftarrow> replay_search (probe_low env paxos_group_id (replay_timestamp replay_info)) start now_instance_id NoID;
           Some (Some (if mid \<noteq> NoID then mid else start)) })"

definition replay_queue ::
  "StoreEnv \<Rightarrow> int list \<Rightarrow> ReplayInfo list \<Rightarrow> Queue \<Rightarrow> StoreState \<Rightarrow> StoreState option" where
  "replay_queue env pub_ids infos queue s =
     (case QueueNeedReplay env s queue pub_ids infos of
        None \<Rightarrow> Some s
      | Some replay_info \<Rightarrow> do {
          paxos_group_id \<leftarrow> cmod (q_queue_id queue) (ngroup (st_opt s));
          decision \<leftarrow> decide_replay env paxos_group_id replay_info;
          case decision of
            None \<Rightarrow> Some s
          | Some replay_instance_id \<Rightarrow> do {
              (ret, ori_prev_cursor_id) \<leftarrow> GetCursorID s (q_consumer_group_id queue) (q_queue_id queue) True;
              if ret \<noteq> RET_OK \<or> ori_prev_cursor_id = NoID then Some s
              else do {
                (ret, s) \<leftarrow> UpdateCursorID s (q_consumer_group_id queue) (q_queue_id queue) replay_instance_id True;
                (ret, s) \<leftarrow> UpdateCursorID s (q_consumer_group_id queue) (q_queue_id queue) replay_instance_id False;
                Some s } } })"

text \<open>\<open>Replay\<close> takes the replay instructions out of the configuration object, so that they act once
  per configuration version; it returns the environment with the emptied configuration.\<close>

definition Replay :: "StoreEnv \<Rightarrow> StoreState \<Rightarrow> (StoreEnv \<times> StoreState) option" where
  "Replay env s =
     (case GetTopicConfigByTopicID (env_config env) (st_topic_id s) of Inl ret \<Rightarrow> Some (env, s) | Inr topic_config \<Rightarrow>
      case GetStoreConfig (env_config env) (st_topic_id s) of Inl ret \<Rightarrow> Some (env, s) | Inr store_config \<Rightarrow>
      case GetStoreIDByAddr (env_inet_addr env) store_config (opt_addr (st_opt s)) of Inl ret \<Rightarrow> Some (env, s) | Inr store_id \<Rightarrow>
      case GetPubIDsByStoreID (env_config env) (st_topic_id s) store_id of Inl ret \<Rightarrow> Some (env, s) | Inr pub_ids \<Rightarrow>
      let (infos, topic_config) = GetAllReplayInfo [] topic_config;
          env = env\<lparr>env_config := (env_config env)\<lparr>topic_id2topic_config :=
                   map_assign (st_topic_id s) topic_config (topic_id2topic_config (env_config env))\<rparr>\<rparr>
      in if infos = [] then Some (env, s)
         else do {
           s \<leftarrow> foldM (replay_queue env pub_ids infos) (GetAllLocalQueue env s) s;
           Some (env, s) })"

subsection \<open>Backlog\<close>

text \<open>The backlogs handed to \<open>OnBackLogReport\<close>, for the queues this node masters.\<close>

fun report_queues :: "StoreEnv \<Rightarrow> StoreState \<Rightarrow> Queue list \<Rightarrow> (Queue \<times> i32) list option" where
  "report_queues env s [] = Some []"
| "report_queues env s (queue # queues) = do {
     paxos_group_id \<leftarrow> cmod (q_queue_id queue) (ngroup (st_opt s));
     (ret, cursor_id) \<leftarrow> GetCursorID s (q_consumer_group_id queue) (q_queue_id queue) True;
     if as_integer ret < 0 then report_queues env s queues
     else do {
       (ret, backlog) \<leftarrow> GetBackLogByCursorID s (q_queue_id queue) cursor_id;
       reports \<leftarrow> report_queues env s queues;
       Some (if ret = RET_OK \<and> IsIMMaster env paxos_group_id then (queue, backlog) # reports else reports) } }"

definition ReportBacklog :: "StoreEnv \<Rightarrow> StoreState \<Rightarrow> (Queue \<times> i32) list option" where
  "ReportBacklog env s = report_queues env s (GetAllLocalQueue env s)"

text \<open>One round of \<open>DoRun\<close>.\<close>

definition KeepSync_round ::
  "StoreEnv \<Rightarrow> int \<Rightarrow> (int \<Rightarrow> string \<Rightarrow> StoreState \<Rightarrow> bool \<times> StoreState) \<Rightarrow> (int \<Rightarrow> int) \<Rightarrow> (int \<Rightarrow> u32)
   \<Rightarrow> StoreState \<times> KeepSyncState \<Rightarrow> (StoreEnv \<times> StoreState \<times> KeepSyncState \<times> (Queue \<times> i32) list) option" where
  "KeepSync_round env last_mod_time Propose now FastRand sk = do {
     sk \<leftarrow> KeepSync_ClearSyncCtrl env last_mod_time sk;
     sk \<leftarrow> MakeCheckPoint env now FastRand sk;
     (s, ks) \<leftarrow> KeepSync_SyncCursorID env Propose now FastRand sk;
     (env, s) \<leftarrow> Replay env s;
     reports \<leftarrow> ReportBacklog env s;
     Some (env, s, ks, reports) }"

subsection \<open>What trimming may remove, and how far the checkpoint may go\<close>

lemma set_queue_ids: "0 < n \<Longrightarrow> set (queue_ids q n m) = {x. q \<le> x \<and> x < m \<and> x mod n = q mod n}"
proof (induction q n m rule: queue_ids.induct)
  case (1 q n m)
  show ?case
  proof (cases "q < m")
    case True
    have "x = q \<or> q + n \<le> x" if "q \<le> x" "x mod n = q mod n" for x
    proof -
      have "n dvd x - q" using that(2) by (simp add: mod_eq_dvd_iff)
      then show ?thesis using that(1) zdvd_imp_le[of n "x - q"] by fastforce
    qed
    with True 1 show ?thesis by (subst queue_ids.simps) auto
  next
    case False
    then show ?thesis by (subst queue_ids.simps) auto
  qed
qed

lemma distinct_queue_ids: "distinct (queue_ids q n m)"
proof (induction q n m rule: queue_ids.induct)
  case (1 q n m)
  then show ?case
    by (subst queue_ids.simps) (auto simp: set_queue_ids)
qed

definition acked :: "StoreState \<Rightarrow> (int \<Rightarrow> bool) \<Rightarrow> int \<Rightarrow> u64 \<Rightarrow> bool" where
  "acked s valid q c \<longleftrightarrow> (\<forall>g \<in> {1..nconsumer_group (st_opt s)}. valid g \<longrightarrow>
     (\<exists>p. cursor_get s g q = Some p \<and> c \<le> p))"

lemma min_cursor_spec:
  assumes "sync_sized s" and "\<forall>g \<in> set gs. valid_id s g q"
  shows "\<exists>m'. min_cursor s valid q gs m need =
       Some (m', need \<and> (\<forall>g \<in> set gs. valid g \<longrightarrow> cursor_get s g q \<noteq> None))
     \<and> m' \<le> m \<and> (\<forall>g \<in> set gs. \<forall>p. valid g \<longrightarrow> cursor_get s g q = Some p \<longrightarrow> m' \<le> p)"
  using assms(2)
proof (induction gs arbitrary: m need)
  case (Cons g gs)
  note c = GetCursorID_cursor_of[OF assms(1), of g q True, folded cursor_get_def]
  have v: "valid_id s g q" "\<forall>g \<in> set gs. valid_id s g q" using Cons.prems by simp_all
  show ?case
  proof (cases "valid g")
    case False
    with Cons.IH[OF v(2), of m need] show ?thesis by auto
  next
    case True
    show ?thesis
    proof (cases "cursor_get s g q")
      case None
      with True c[OF v(1)] Cons.IH[OF v(2), of m False] show ?thesis by auto
    next
      case (Some p)
      have "(if m = NoID \<or> p < m then p else m) \<le> m" "(if m = NoID \<or> p < m then p else m) \<le> p" by auto
      with Some True c[OF v(1)] Cons.IH[OF v(2), of "if m = NoID \<or> p < m then p else m" need]
      show ?thesis by (auto split: if_splits intro: order_trans)
    qed
  qed
qed simp

lemma trim_queue_spec:
  assumes "wf_queue crc32 mq"
  shows "wf_queue crc32 (trim_queue m need mq)"
    "cursors (trim_queue m need mq) = (if need then filter (\<lambda>c. m < c) (cursors mq) else cursors mq)"
  using assms by (auto simp: trim_queue_def wf_queue_Clear wf_queue_EraseFrontTill cursors_EraseFrontTill)

lemma front_cursor_spec:
  assumes "wf_queue crc32 mq" and "length (cursors mq) < 2 ^ 31"
  shows "front_cursor mq = (if cursors mq = [] then None else Some (hd (cursors mq)))"
    "c \<in> set (cursors mq) \<Longrightarrow> hd (cursors mq) \<le> c"
proof -
  have "sint (Size mq) = int (length (metas mq))"
    using assms(2) by (simp add: Size_def cursors_def sint_of_nat_i32)
  then show "front_cursor mq = (if cursors mq = [] then None else Some (hd (cursors mq)))"
    by (cases "metas mq") (auto simp: front_cursor_def Front_def cursors_def)
  show "hd (cursors mq) \<le> c" if "c \<in> set (cursors mq)"
  proof -
    have "metas mq \<noteq> []" using that by (auto simp: cursors_def)
    then show ?thesis
      using that sorted_by_hd[OF wf_queueD(1)[OF assms(1)]] by (auto simp: cursors_def hd_map)
  qed
qed

lemma u64_pred_less: "(c :: u64) \<noteq> 0 \<Longrightarrow> c - 1 < c"
  by (simp add: word_less_nat_alt unat_minus_one unat_gt_0)

lemma u64_pred_NoID: "(c :: u64) - 1 = NoID \<longleftrightarrow> c = 0"
  by simp

definition lost_acked :: "(int \<Rightarrow> int \<Rightarrow> bool) \<Rightarrow> StoreState \<Rightarrow> StoreState \<Rightarrow> bool" where
  "lost_acked valid s s' \<longleftrightarrow> (\<forall>q. length (qcursors s' q) \<le> length (qcursors s q)
     \<and> set (qcursors s' q) \<subseteq> set (qcursors s q)
     \<and> (\<forall>c \<in> set (qcursors s q) - set (qcursors s' q). acked s (valid q) q c))"

lemma acked_meta_queues [simp]: "acked (s\<lparr>meta_queues := ms\<rparr>) = acked s"
  by (simp add: fun_eq_iff acked_def)

lemma lost_acked_trans:
  assumes "lost_acked valid s s1" "lost_acked valid s1 s'" "sync_buf s1 = sync_buf s" "st_opt s1 = st_opt s"
  shows "lost_acked valid s s'"
proof -
  have "acked s1 = acked s"
    unfolding fun_eq_iff acked_def cursor_get_def cursor_of_def GetCursorID_def sync_arg_err_def sync_idx_def assms(3,4)
    by simp
  then show ?thesis
    unfolding lost_acked_def
  proof (intro allI conjI ballI)
    fix q
    show "length (qcursors s' q) \<le> length (qcursors s q)" "set (qcursors s' q) \<subseteq> set (qcursors s q)"
      using assms(1,2) unfolding lost_acked_def by (blast intro: order_trans)+
    fix c assume c: "c \<in> set (qcursors s q) - set (qcursors s' q)"
    then show "acked s (valid q) q c"
      using assms(1,2) \<open>acked s1 = acked s\<close> unfolding lost_acked_def
      by (cases "c \<in> set (qcursors s1 q)") auto
  qed
qed

text \<open>One queue: what is removed has been acknowledged by every group that consumes the queue.\<close>

lemma trim_one:
  assumes wf: "wf_store crc32 s" and q: "0 \<le> q" "q < nqueue (st_opt s)"
  shows "\<exists>m need mq mq'. min_cursor s valid q [1..nconsumer_group (st_opt s)] NoID True = Some (m, need)
     \<and> at (meta_queues s) q = Some mq \<and> mq' = trim_queue m need mq \<and> wf_queue crc32 mq'
     \<and> length (cursors mq') \<le> length (qcursors s q) \<and> set (cursors mq') \<subseteq> set (qcursors s q)
     \<and> (\<forall>c \<in> set (qcursors s q) - set (cursors mq'). acked s valid q c)"
proof -
  have v: "\<forall>g \<in> set [1..nconsumer_group (st_opt s)]. valid_id s g q" using q by (auto simp: valid_id_def)
  obtain m where m: "min_cursor s valid q [1..nconsumer_group (st_opt s)] NoID True =
      Some (m, \<forall>g \<in> set [1..nconsumer_group (st_opt s)]. valid g \<longrightarrow> cursor_get s g q \<noteq> None)"
    "\<forall>g \<in> set [1..nconsumer_group (st_opt s)]. \<forall>p. valid g \<longrightarrow> cursor_get s g q = Some p \<longrightarrow> m \<le> p"
    using min_cursor_spec[OF wf_store_sync_sized[OF wf] v, of valid NoID True] by auto
  obtain mq where mq: "at (meta_queues s) q = Some mq"
    using q wf_storeD(2)[OF wf] by (auto simp: at_in_range)
  let ?need = "\<forall>g \<in> set [1..nconsumer_group (st_opt s)]. valid g \<longrightarrow> cursor_get s g q \<noteq> None"
  note t = trim_queue_spec[OF wf_storeD(5)[OF wf mq], of m ?need]
  have qc: "qcursors s q = cursors mq" using mq by (simp add: qcursors_def)
  have "acked s valid q c" if "c \<in> set (cursors mq) - set (cursors (trim_queue m ?need mq))" for c
  proof -
    have "?need" "c \<le> m" using that t(2) by (auto split: if_splits simp: not_less)
    show ?thesis unfolding acked_def
    proof (intro ballI impI)
      fix g assume g: "g \<in> {1..nconsumer_group (st_opt s)}" "valid g"
      then obtain p where p: "cursor_get s g q = Some p" using \<open>?need\<close> by auto
      with m(2) g have "m \<le> p" by auto
      with p \<open>c \<le> m\<close> show "\<exists>p. cursor_get s g q = Some p \<and> c \<le> p" by (auto intro: order_trans)
    qed
  qed
  moreover have "length (cursors (trim_queue m ?need mq)) \<le> length (cursors mq)"
    "set (cursors (trim_queue m ?need mq)) \<subseteq> set (cursors mq)"
    using t(2) by auto
  ultimately show ?thesis
    using m(1) mq t(1) qc
    by (intro exI[of _ m] exI[of _ ?need] exI[of _ mq] exI[of _ "trim_queue m ?need mq"]) simp
qed

lemma scan_queues_spec:
  assumes "wf_store crc32 s" and "\<forall>q. length (qcursors s q) < 2 ^ 31"
    and "\<forall>q \<in> set qs. 0 \<le> q \<and> q < nqueue (st_opt s)" and "distinct qs"
  shows "\<exists>cp' fin ms. scan_queues tc pids qs cp s = Some (cp', fin, s\<lparr>meta_queues := ms\<rparr>)
     \<and> wf_store crc32 (s\<lparr>meta_queues := ms\<rparr>)
     \<and> lost_acked (queue_group_valid tc pids) s (s\<lparr>meta_queues := ms\<rparr>)
     \<and> (\<forall>q. q \<notin> set qs \<longrightarrow> qcursors (s\<lparr>meta_queues := ms\<rparr>) q = qcursors s q)
     \<and> (if fin then cp' = NoID
        else cp' \<le> cp \<and> (cp' = cp \<or> (\<exists>q \<in> set qs. \<exists>c \<in> set (qcursors s q). cp' < c))
          \<and> (\<forall>q \<in> set qs. \<forall>c \<in> set (qcursors (s\<lparr>meta_queues := ms\<rparr>) q). cp' < c))"
  using assms
proof (induction qs arbitrary: s cp)
  case Nil
  then show ?case by (intro exI[of _ cp] exI[of _ False] exI[of _ "meta_queues s"]) (simp add: lost_acked_def)
next
  case (Cons q qs)
  have q: "0 \<le> q" "q < nqueue (st_opt s)" "q \<notin> set qs" "distinct qs"
    "\<forall>q \<in> set qs. 0 \<le> q \<and> q < nqueue (st_opt s)" using Cons.prems(3,4) by simp_all
  obtain m need mq mq' where t: "min_cursor s (queue_group_valid tc pids q) q [1..nconsumer_group (st_opt s)] NoID True = Some (m, need)"
    "at (meta_queues s) q = Some mq" "mq' = trim_queue m need mq" "wf_queue crc32 mq'"
    "length (cursors mq') \<le> length (qcursors s q)" "set (cursors mq') \<subseteq> set (qcursors s q)"
    "\<forall>c \<in> set (qcursors s q) - set (cursors mq'). acked s (queue_group_valid tc pids q) q c"
    using trim_one[OF Cons.prems(1) q(1,2), of "queue_group_valid tc pids q"] by blast
  define s1 where "s1 = s\<lparr>meta_queues := put_at (meta_queues s) q mq'\<rparr>"
  have qc1: "qcursors s1 r = (if r = q then cursors mq' else qcursors s r)" for r
    unfolding s1_def by (rule qcursors_put[OF t(2)])
  have wf1: "wf_store crc32 s1" unfolding s1_def by (rule wf_store_put_queue[OF Cons.prems(1) t(4)])
  have la: "lost_acked (queue_group_valid tc pids) s s1"
    using t(5-7) by (auto simp: lost_acked_def qc1)
  have len1: "\<forall>r. length (qcursors s1 r) < 2 ^ 31"
    using la Cons.prems(2) by (auto simp: lost_acked_def intro: le_less_trans)
  have len: "length (cursors mq') < 2 ^ 31" using len1 qc1 by metis
  note fr = front_cursor_spec[OF t(4) len]
  have gm: "GetMetaQueue s q = Some q" using q(2) by (simp add: GetMetaQueue_def)
  have step: "scan_queues tc pids (q # qs) cp s =
     (case front_cursor mq' of None \<Rightarrow> scan_queues tc pids qs cp s1
      | Some c \<Rightarrow> if c - 1 = NoID then Some (NoID, True, s1)
          else scan_queues tc pids qs (if cp = NoID \<or> c - 1 < cp then c - 1 else cp) s1)"
    using t(1,2) gm by (simp add: s1_def t(3) Let_def split: option.split)
  let ?cp1 = "case front_cursor mq' of None \<Rightarrow> cp | Some c \<Rightarrow> if cp = NoID \<or> c - 1 < cp then c - 1 else cp"
  show ?case
  proof (cases "\<exists>c. front_cursor mq' = Some c \<and> c - 1 = NoID")
    case True
    then have "scan_queues tc pids (q # qs) cp s = Some (NoID, True, s1)" using step by auto
    with wf1 la qc1 show ?thesis
      by (intro exI[of _ NoID] exI[of _ True] exI[of _ "put_at (meta_queues s) q mq'"]) (simp add: s1_def)
  next
    case False
    then have st: "scan_queues tc pids (q # qs) cp s = scan_queues tc pids qs ?cp1 s1"
      using step by (auto split: option.splits)
    have cp1: "?cp1 \<le> cp" "?cp1 = cp \<or> (\<exists>c \<in> set (qcursors s q). ?cp1 < c)" "\<forall>c \<in> set (cursors mq'). ?cp1 < c"
    proof -
      consider "front_cursor mq' = None" "cursors mq' = []"
        | c where "front_cursor mq' = Some c" "c \<in> set (cursors mq')" "\<forall>k \<in> set (cursors mq'). c \<le> k" "c - 1 < c"
        using fr False u64_pred_less by (cases "cursors mq' = []") (auto simp: u64_pred_NoID)
      then show "?cp1 \<le> cp" "?cp1 = cp \<or> (\<exists>c \<in> set (qcursors s q). ?cp1 < c)" "\<forall>c \<in> set (cursors mq'). ?cp1 < c"
        using t(6) by (cases; force)+
    qed
    have "\<forall>q \<in> set qs. 0 \<le> q \<and> q < nqueue (st_opt s1)" using q(5) by (simp add: s1_def)
    from Cons.IH[OF wf1 len1 this q(4), of ?cp1] obtain cp' fin ms where
      r: "scan_queues tc pids qs ?cp1 s1 = Some (cp', fin, s1\<lparr>meta_queues := ms\<rparr>)"
      "wf_store crc32 (s1\<lparr>meta_queues := ms\<rparr>)" "lost_acked (queue_group_valid tc pids) s1 (s1\<lparr>meta_queues := ms\<rparr>)"
      "\<forall>q. q \<notin> set qs \<longrightarrow> qcursors (s1\<lparr>meta_queues := ms\<rparr>) q = qcursors s1 q"
      "if fin then cp' = NoID
        else cp' \<le> ?cp1 \<and> (cp' = ?cp1 \<or> (\<exists>q \<in> set qs. \<exists>c \<in> set (qcursors s1 q). cp' < c))
          \<and> (\<forall>q \<in> set qs. \<forall>c \<in> set (qcursors (s1\<lparr>meta_queues := ms\<rparr>) q). cp' < c)" by blast
    have e: "s1\<lparr>meta_queues := ms\<rparr> = s\<lparr>meta_queues := ms\<rparr>" by (simp add: s1_def)
    have "lost_acked (queue_group_valid tc pids) s (s\<lparr>meta_queues := ms\<rparr>)"
      using lost_acked_trans[OF la r(3)] e by (simp add: s1_def)
    moreover have "\<forall>r. r \<notin> set (q # qs) \<longrightarrow> qcursors (s\<lparr>meta_queues := ms\<rparr>) r = qcursors s r"
      using r(4) qc1 e by simp
    moreover have "if fin then cp' = NoID
        else cp' \<le> cp \<and> (cp' = cp \<or> (\<exists>q \<in> set (q # qs). \<exists>c \<in> set (qcursors s q). cp' < c))
          \<and> (\<forall>q \<in> set (q # qs). \<forall>c \<in> set (qcursors (s\<lparr>meta_queues := ms\<rparr>) q). cp' < c)"
    proof (cases fin)
      case False
      have 1: "cp' \<le> ?cp1" "cp' = ?cp1 \<or> (\<exists>q \<in> set qs. \<exists>c \<in> set (qcursors s1 q). cp' < c)"
        "\<forall>q \<in> set qs. \<forall>c \<in> set (qcursors (s\<lparr>meta_queues := ms\<rparr>) q). cp' < c"
        using r(5) False e by simp_all
      have qq: "qcursors (s\<lparr>meta_queues := ms\<rparr>) q = cursors mq'" using r(4) q(3) e qc1 by simp
      have sub: "\<exists>q \<in> set qs. \<exists>c \<in> set (qcursors s1 q). cp' < c \<Longrightarrow> \<exists>q \<in> set qs. \<exists>c \<in> set (qcursors s q). cp' < c"
      proof -
        assume "\<exists>q \<in> set qs. \<exists>c \<in> set (qcursors s1 q). cp' < c"
        then obtain r c where "r \<in> set qs" "c \<in> set (qcursors s1 r)" "cp' < c" by blast
        moreover from this have "r \<noteq> q" using q(3) by blast
        ultimately show ?thesis using qc1 by auto
      qed
      have "cp' \<le> cp" by (rule order_trans[OF 1(1) cp1(1)])
      moreover have "cp' = cp \<or> (\<exists>q \<in> set (q # qs). \<exists>c \<in> set (qcursors s q). cp' < c)"
        using 1(2) cp1(2) sub by auto
      moreover have "\<forall>c \<in> set (cursors mq'). cp' < c" using cp1(3) 1(1) by (blast intro: le_less_trans)
      ultimately show ?thesis using False 1(3) qq by simp
    qed (use r(5) in simp)
    ultimately show ?thesis using st r(1,2) e by (intro exI[of _ cp'] exI[of _ fin] exI[of _ ms]) simp
  qed
qed

lemma checkpoint_meta_queues [simp]: "checkpoint (s\<lparr>meta_queues := ms\<rparr>) = checkpoint s"
  by (simp add: fun_eq_iff checkpoint_def)

lemma qcursors_cp_stats [simp]: "qcursors (s\<lparr>cp_stats := cs\<rparr>) = qcursors s"
  by (simp add: fun_eq_iff qcursors_def)

lemma DumpCheckPoint_spec:
  assumes wf: "wf_store crc32 s" and g: "0 \<le> g" "g < ngroup (st_opt s)"
  shows "\<exists>ret cs. DumpCheckPoint env s g cp = Some (ret, s\<lparr>cp_stats := cs\<rparr>)
     \<and> wf_store crc32 (s\<lparr>cp_stats := cs\<rparr>)
     \<and> (\<forall>h. checkpoint (s\<lparr>cp_stats := cs\<rparr>) h =
          (if h = g \<and> cp \<noteq> NoID \<and> (checkpoint s g = NoID \<or> checkpoint s g \<le> cp) then cp else checkpoint s h))"
proof -
  obtain item where item: "at (cp_stats s) g = Some item"
    using g wf_storeD(4)[OF wf] by (auto simp: at_in_range)
  have gs: "GetCheckPointStat s g = Some g" using g by (simp add: GetCheckPointStat_def)
  have k: "checkpoint s g = snd (GetCheckPoint item)" using item by (simp add: checkpoint_def)
  show ?thesis
  proof (cases "cp \<noteq> NoID \<and> (checkpoint s g = NoID \<or> checkpoint s g \<le> cp)")
    case True
    have "DumpCheckPoint env s g cp = Some (fst (UpdateCheckPointAndFlush (env_msync_ok env) cp item),
       s\<lparr>cp_stats := put_at (cp_stats s) g (snd (UpdateCheckPointAndFlush (env_msync_ok env) cp item))\<rparr>)"
      using True item gs k by (auto simp: DumpCheckPoint_def GetCheckPoint_def UpdateCheckPointAndFlush_def split: if_splits)
    moreover have "checkpoint (s\<lparr>cp_stats := put_at (cp_stats s) g (snd (UpdateCheckPointAndFlush (env_msync_ok env) cp item))\<rparr>) h
        = (if h = g then cp else checkpoint s h)" for h
    proof (cases "h = g")
      case True
      then show ?thesis using item by (simp add: checkpoint_def at_put_at_same)
    next
      case False
      then show ?thesis using g by (simp add: checkpoint_def at_put_at_other)
    qed
    ultimately show ?thesis using True wf_store_put_cp[OF wf] by (intro exI) auto
  next
    case False
    then have "DumpCheckPoint env s g cp = Some (RET_ERR_NO_NEED_DUMP_CHECKPOINT, s\<lparr>cp_stats := cp_stats s\<rparr>)"
      using item gs k by (cases "cp = NoID") (simp_all add: DumpCheckPoint_def GetCheckPoint_def not_le split: if_splits)
    with False wf show ?thesis by (intro exI[of _ RET_ERR_NO_NEED_DUMP_CHECKPOINT] exI[of _ "cp_stats s"]) auto
  qed
qed

definition cp_below :: "StoreState \<Rightarrow> bool" where
  "cp_below s \<longleftrightarrow> (\<forall>q. 0 \<le> q \<longrightarrow> q < nqueue (st_opt s) \<longrightarrow>
     checkpoint s (q mod ngroup (st_opt s)) \<noteq> NoID \<longrightarrow>
     (\<forall>c \<in> set (qcursors s q). checkpoint s (q mod ngroup (st_opt s)) < c))"

definition trimmed :: "StoreEnv \<Rightarrow> (int \<Rightarrow> int \<Rightarrow> bool) \<Rightarrow> StoreState \<Rightarrow> StoreState \<Rightarrow> bool" where
  "trimmed env valid s s' \<longleftrightarrow>
     wf_store (env_crc32 env) s' \<and> same_shape s s' \<and> sync_buf s' = sync_buf s
     \<and> cp_below s' \<and> lost_acked valid s s'
     \<and> (\<forall>g. checkpoint s' g = checkpoint s g
          \<or> (checkpoint s g = NoID \<or> checkpoint s g < checkpoint s' g) \<and> checkpoint s' g < GetNowInstanceID env g)"

lemma trimmed_step:
  assumes t: "trimmed env (queue_group_valid tc pids) s0 s"
    and len: "\<forall>q. length (qcursors s0 q) < 2 ^ 31"
    and now: "\<forall>q \<ge> 0. \<forall>c \<in> set (qcursors s0 q). c \<le> GetNowInstanceID env (q mod ngroup (st_opt s0))"
    and g: "0 \<le> g" "g < ngroup (st_opt s0)"
  shows "\<exists>cp fin s1 ret s'. scan_queues tc pids (queue_ids g (ngroup (st_opt s)) (nqueue (st_opt s))) NoID s = Some (cp, fin, s1)
     \<and> DumpCheckPoint env s1 g (if cp = NoID \<and> \<not> fin then GetNowInstanceID env g - 1 else cp) = Some (ret, s')
     \<and> trimmed env (queue_group_valid tc pids) s0 s'"
proof -
  let ?ng = "ngroup (st_opt s)" and ?qs = "queue_ids g (ngroup (st_opt s)) (nqueue (st_opt s))" and ?now = "GetNowInstanceID env g"
  note tr = t[unfolded trimmed_def]
  have wf: "wf_store (env_crc32 env) s" and opt: "st_opt s = st_opt s0" and sb: "sync_buf s = sync_buf s0"
    and below: "cp_below s" and la: "lost_acked (queue_group_valid tc pids) s0 s"
    using tr by (simp_all add: same_shape_def)
  have ng: "0 < ?ng" using g opt by simp
  have qs: "set ?qs = {q. g \<le> q \<and> q < nqueue (st_opt s) \<and> q mod ?ng = g}"
    using g opt by (simp add: set_queue_ids)
  have len1: "\<forall>q. length (qcursors s q) < 2 ^ 31" using la len by (auto simp: lost_acked_def intro: le_less_trans)
  have "\<forall>q \<in> set ?qs. 0 \<le> q \<and> q < nqueue (st_opt s)" using qs g(1) by auto
  from scan_queues_spec[OF wf len1 this distinct_queue_ids, of tc pids NoID] obtain cp fin ms where
    r: "scan_queues tc pids ?qs NoID s = Some (cp, fin, s\<lparr>meta_queues := ms\<rparr>)"
      "wf_store (env_crc32 env) (s\<lparr>meta_queues := ms\<rparr>)"
      "lost_acked (queue_group_valid tc pids) s (s\<lparr>meta_queues := ms\<rparr>)"
      "if fin then cp = NoID
        else (cp = NoID \<or> (\<exists>q \<in> set ?qs. \<exists>c \<in> set (qcursors s q). cp < c))
          \<and> (\<forall>q \<in> set ?qs. \<forall>c \<in> set (qcursors (s\<lparr>meta_queues := ms\<rparr>) q). cp < c)" by auto
  define s1 where "s1 = s\<lparr>meta_queues := ms\<rparr>"
  define cp' where "cp' = (if cp = NoID \<and> \<not> fin then ?now - 1 else cp)"
  have s1: "st_opt s1 = st_opt s" "checkpoint s1 = checkpoint s" by (simp_all add: s1_def)
  have empty: "qcursors s1 q = []" if "cp = NoID" "\<not> fin" "q \<in> set ?qs" for q
    using r(4) that by (cases "qcursors s1 q") (auto simp: s1_def)
  have bel: "\<forall>q \<in> set ?qs. \<forall>c \<in> set (qcursors s1 q). cp' < c" if "cp' \<noteq> NoID"
    using r(4) that empty by (cases "cp = NoID") (auto simp: cp'_def s1_def split: if_splits)
  have small: "cp' < ?now" if "cp' \<noteq> NoID"
  proof (cases "cp = NoID")
    case True
    with that have "cp' = ?now - 1" by (simp add: cp'_def split: if_splits)
    with that u64_pred_less[of ?now] show ?thesis by auto
  next
    case False
    with r(4) obtain q c where qc: "q \<in> set ?qs" "c \<in> set (qcursors s q)" "cp < c" by (auto split: if_splits)
    then have "c \<in> set (qcursors s0 q)" "0 \<le> q" "q mod ngroup (st_opt s0) = g"
      using la g(1) opt qs by (auto simp: lost_acked_def)
    with now qc(3) have "cp < ?now" by (auto intro: less_le_trans)
    with False show ?thesis by (simp add: cp'_def)
  qed
  obtain ret cs where d: "DumpCheckPoint env s1 g cp' = Some (ret, s1\<lparr>cp_stats := cs\<rparr>)"
    "wf_store (env_crc32 env) (s1\<lparr>cp_stats := cs\<rparr>)"
    "\<forall>h. checkpoint (s1\<lparr>cp_stats := cs\<rparr>) h =
       (if h = g \<and> cp' \<noteq> NoID \<and> (checkpoint s1 g = NoID \<or> checkpoint s1 g \<le> cp') then cp' else checkpoint s1 h)"
    using DumpCheckPoint_spec[OF r(2)[folded s1_def], of g env cp'] g opt s1(1) by auto
  define s' where "s' = s1\<lparr>cp_stats := cs\<rparr>"
  have s': "st_opt s' = st_opt s" "sync_buf s' = sync_buf s" "st_topic_id s' = st_topic_id s" "qcursors s' = qcursors s1"
    by (simp_all add: s'_def s1_def)
  have up: "checkpoint s' h = checkpoint s h
      \<or> h = g \<and> cp' \<noteq> NoID \<and> checkpoint s' h = cp' \<and> (checkpoint s h = NoID \<or> checkpoint s h < cp')" for h
    using d(3) s1(2) by (auto simp: s'_def order_le_less)
  have "cp_below s'"
    unfolding cp_below_def s'(1,4)
  proof (intro allI impI ballI)
    fix q c assume q: "0 \<le> q" "q < nqueue (st_opt s)" "checkpoint s' (q mod ?ng) \<noteq> NoID" "c \<in> set (qcursors s1 q)"
    have cs: "c \<in> set (qcursors s q)" using q(4) r(3) by (auto simp: lost_acked_def s1_def)
    from up[of "q mod ?ng"] show "checkpoint s' (q mod ?ng) < c"
    proof
      assume "checkpoint s' (q mod ?ng) = checkpoint s (q mod ?ng)"
      with below q cs show ?thesis by (auto simp: cp_below_def)
    next
      assume u: "q mod ?ng = g \<and> cp' \<noteq> NoID \<and> checkpoint s' (q mod ?ng) = cp'
        \<and> (checkpoint s (q mod ?ng) = NoID \<or> checkpoint s (q mod ?ng) < cp')"
      then have "g \<le> q" using zmod_le_nonneg_dividend[OF q(1), of ?ng] by auto
      then have "q \<in> set ?qs" using u q(2) qs by simp
      with bel u q(4) show ?thesis by auto
    qed
  qed
  moreover have "lost_acked (queue_group_valid tc pids) s0 s'"
    using lost_acked_trans[OF la r(3) sb opt] s'(4) by (simp add: lost_acked_def s1_def)
  moreover have "checkpoint s' h = checkpoint s0 h
       \<or> (checkpoint s0 h = NoID \<or> checkpoint s0 h < checkpoint s' h) \<and> checkpoint s' h < GetNowInstanceID env h" for h
  proof -
    have "checkpoint s h = checkpoint s0 h
       \<or> (checkpoint s0 h = NoID \<or> checkpoint s0 h < checkpoint s h) \<and> checkpoint s h < GetNowInstanceID env h"
      using tr by blast
    with up[of h] small show ?thesis by (auto dest: less_trans)
  qed
  moreover have "wf_store (env_crc32 env) s'" "same_shape s0 s'" "sync_buf s' = sync_buf s0"
    using d(2) s' tr by (simp_all add: s'_def same_shape_def)
  ultimately have "trimmed env (queue_group_valid tc pids) s0 s'" unfolding trimmed_def by blast
  then show ?thesis using r(1) d(1) unfolding s1_def s'_def cp'_def by blast
qed

lemma make_group_cp_step:
  assumes t: "trimmed env (queue_group_valid tc pids) s0 s"
    and len: "\<forall>q. length (qcursors s0 q) < 2 ^ 31"
    and now: "\<forall>q \<ge> 0. \<forall>c \<in> set (qcursors s0 q). c \<le> GetNowInstanceID env (q mod ngroup (st_opt s0))"
    and g: "0 \<le> g" "g < ngroup (st_opt s0)" and ks: "int (length (next_make_cp_times ks)) = ngroup (st_opt s0)"
  shows "\<exists>s' ks'. make_group_cp env clock rnd tc pids g (s, ks) = Some (s', ks')
     \<and> trimmed env (queue_group_valid tc pids) s0 s' \<and> int (length (next_make_cp_times ks')) = ngroup (st_opt s0)"
proof -
  obtain nt where nt: "at (next_make_cp_times ks) g = Some nt" using g ks by (auto simp: at_in_range)
  show ?thesis
  proof (cases "clock g < nt")
    case True
    with nt t ks show ?thesis by (simp add: make_group_cp_def)
  next
    case False
    from trimmed_step[OF t len now g] obtain cp fin s1 ret s' where
      "scan_queues tc pids (queue_ids g (ngroup (st_opt s)) (nqueue (st_opt s))) NoID s = Some (cp, fin, s1)"
      "DumpCheckPoint env s1 g (if cp = NoID \<and> \<not> fin then GetNowInstanceID env g - 1 else cp) = Some (ret, s')"
      "trimmed env (queue_group_valid tc pids) s0 s'" by blast
    with nt False ks show ?thesis by (simp add: make_group_cp_def Let_def)
  qed
qed

text \<open>The configuration that \<open>MakeCheckPoint\<close> looks up: the topic and the pubs of this store.\<close>

definition local_pubs :: "StoreEnv \<Rightarrow> StoreState \<Rightarrow> RetCode + TopicConfig \<times> int list" where
  "local_pubs env s =
     (case GetTopicConfigByTopicID (env_config env) (st_topic_id s) of Inl ret \<Rightarrow> Inl ret | Inr topic_config \<Rightarrow>
      case GetStoreConfig (env_config env) (st_topic_id s) of Inl ret \<Rightarrow> Inl ret | Inr store_config \<Rightarrow>
      case GetStoreIDByAddr (env_inet_addr env) store_config (opt_addr (st_opt s)) of Inl ret \<Rightarrow> Inl ret | Inr store_id \<Rightarrow>
      case GetPubIDsByStoreID (env_config env) (st_topic_id s) store_id of Inl ret \<Rightarrow> Inl ret | Inr pub_ids \<Rightarrow>
      Inr (topic_config, pub_ids))"

text \<open>Does a consumer group consume a queue of this store?\<close>

definition consumes :: "StoreEnv \<Rightarrow> StoreState \<Rightarrow> int \<Rightarrow> int \<Rightarrow> bool" where
  "consumes env s q g = (case local_pubs env s of Inl ret \<Rightarrow> False | Inr (tc, pids) \<Rightarrow> queue_group_valid tc pids q g)"

lemma trimmed_refl: "wf_store (env_crc32 env) s \<Longrightarrow> cp_below s \<Longrightarrow> trimmed env valid s s"
  by (simp add: trimmed_def same_shape_def lost_acked_def)

text \<open>C2: \<open>MakeCheckPoint\<close> never gives up an item that somebody still needs. It always finishes. An
  instance that it removes from the index of a queue has been acknowledged by every consumer group
  that consumes the queue at this store; cursors do not change. A checkpoint only moves forward,
  stays below the instance that is being decided, and stays below every instance that is still in
  the index of a queue of its group - so a restart from the checkpoint finds all of them again.\<close>

theorem MakeCheckPoint_safe:
  assumes wf: "wf_store (env_crc32 env) s" and below: "cp_below s"
    and len: "\<forall>q. length (qcursors s q) < 2 ^ 31"
    and now: "\<forall>q \<ge> 0. \<forall>c \<in> set (qcursors s q). c \<le> GetNowInstanceID env (q mod ngroup (st_opt s))"
    and ks: "int (length (next_make_cp_times ks)) = ngroup (st_opt s)"
  shows "\<exists>s' ks'. MakeCheckPoint env clock rnd (s, ks) = Some (s', ks')
     \<and> wf_store (env_crc32 env) s' \<and> cp_below s' \<and> sync_buf s' = sync_buf s
     \<and> (\<forall>q. \<forall>c \<in> set (qcursors s q). c \<in> set (qcursors s' q) \<or> acked s (consumes env s q) q c)
     \<and> (\<forall>g. checkpoint s' g = checkpoint s g
          \<or> (checkpoint s g = NoID \<or> checkpoint s g < checkpoint s' g) \<and> checkpoint s' g < GetNowInstanceID env g)"
proof -
  have "\<exists>s' ks'. MakeCheckPoint env clock rnd (s, ks) = Some (s', ks') \<and> trimmed env (consumes env s) s s'"
  proof (cases "local_pubs env s")
    case (Inl ret)
    then have "MakeCheckPoint env clock rnd (s, ks) = Some (s, ks)"
      by (auto simp: MakeCheckPoint_def local_pubs_def split: sum.splits)
    with trimmed_refl[OF wf below] show ?thesis by blast
  next
    case (Inr p)
    obtain tc pids where p: "p = (tc, pids)" by (cases p)
    let ?I = "\<lambda>(s', ks'). trimmed env (queue_group_valid tc pids) s s' \<and> int (length (next_make_cp_times ks')) = ngroup (st_opt s)"
    have st: "\<exists>sk'. make_group_cp env clock rnd tc pids g sk = Some sk' \<and> ?I sk'"
      if "g \<in> set [0..ngroup (st_opt s) - 1]" "?I sk" for g sk
      using make_group_cp_step[OF _ len now, where g = g] that by (cases sk) fastforce
    have "\<exists>sk'. foldM (make_group_cp env clock rnd tc pids) [0..ngroup (st_opt s) - 1] (s, ks) = Some sk' \<and> ?I sk'"
      by (rule foldM_total) (use st trimmed_refl[OF wf below] ks in simp_all)
    then obtain sk' where sk': "foldM (make_group_cp env clock rnd tc pids) [0..ngroup (st_opt s) - 1] (s, ks) = Some sk'" "?I sk'"
      by blast
    have "MakeCheckPoint env clock rnd (s, ks) = Some sk'"
      using Inr p sk'(1) by (auto simp: MakeCheckPoint_def local_pubs_def split: sum.splits)
    moreover have "consumes env s = queue_group_valid tc pids"
      using Inr p by (simp add: fun_eq_iff consumes_def)
    ultimately show ?thesis using sk'(2) by (cases sk') auto
  qed
  then obtain s' ks' where s': "MakeCheckPoint env clock rnd (s, ks) = Some (s', ks')" "trimmed env (consumes env s) s s'"
    by blast
  then show ?thesis unfolding trimmed_def lost_acked_def by (intro exI[of _ s'] exI[of _ ks']) blast
qed

subsection \<open>Publishing brings the replicas up to the master\<close>

lemma group_details_spec:
  assumes "sync_sized s" and "\<forall>g \<in> set gs. valid_id s g q"
  shows "group_details s q gs = Some (map (\<lambda>g. \<lparr>cgd_consumer_group_id = g, cgd_prev_cursor_id = the (cursor_get s g q)\<rparr>)
     (filter (\<lambda>g. cursor_get s g q \<noteq> None) gs))"
  using assms(2)
proof (induction gs)
  case (Cons g gs)
  then show ?case
    using GetCursorID_cursor_of[OF assms(1), of g q True, folded cursor_get_def]
    by (cases "cursor_get s g q") simp_all
qed simp

lemma publish_info_spec:
  assumes "sync_sized s" and "\<forall>q \<in> set qs. 0 \<le> q \<and> q < nqueue (st_opt s)"
  shows "\<exists>info. publish_info s qs = Some info \<and> valid_info s info
     \<and> set (info_list info) = {(g, q, c). q \<in> set qs \<and> valid_id s g q \<and> cursor_get s g q = Some c}"
  using assms(2)
proof (induction qs)
  case Nil
  then show ?case by (simp add: valid_info_def info_list_def)
next
  case (Cons q qs)
  have q: "0 \<le> q" "q < nqueue (st_opt s)" using Cons.prems by simp_all
  then have v: "\<forall>g \<in> set [1..nconsumer_group (st_opt s)]. valid_id s g q" by (auto simp: valid_id_def)
  obtain info where info: "publish_info s qs = Some info" "valid_info s info"
    "set (info_list info) = {(g, q, c). q \<in> set qs \<and> valid_id s g q \<and> cursor_get s g q = Some c}"
    using Cons by auto
  let ?gs = "filter (\<lambda>g. cursor_get s g q \<noteq> None) [1..nconsumer_group (st_opt s)]"
  let ?ds = "map (\<lambda>g. \<lparr>cgd_consumer_group_id = g, cgd_prev_cursor_id = the (cursor_get s g q)\<rparr>) ?gs"
  let ?info = "if ?ds = [] then info else \<lparr>qd_queue_id = q, qd_consumer_group_details = ?ds\<rparr> # info"
  have A: "publish_info s (q # qs) = Some ?info"
    using group_details_spec[OF assms(1) v] info(1) by simp
  have B: "valid_info s ?info" using info(2) q v by (auto simp: valid_info_def)
  have E: "set (detail_list \<lparr>qd_queue_id = q, qd_consumer_group_details = ?ds\<rparr>) =
      {(g, q', c). q' = q \<and> valid_id s g q \<and> cursor_get s g q = Some c}" (is "?D = ?E")
  proof (rule set_eqI)
    fix x :: "int \<times> int \<times> u64"
    obtain g q' c where x: "x = (g, q', c)" by (cases x)
    show "x \<in> ?D \<longleftrightarrow> x \<in> ?E"
      using q unfolding x detail_list_def by (cases "cursor_get s g q") (auto simp: valid_id_def image_iff)
  qed
  have I: "set (info_list ?info) = ?D \<union> set (info_list info)"
    by (cases "?ds = []") (simp_all add: info_list_Cons detail_list_def)
  have U: "{(g, q', c). q' \<in> set (q # qs) \<and> valid_id s g q' \<and> cursor_get s g q' = Some c} =
      ?E \<union> {(g, q, c). q \<in> set qs \<and> valid_id s g q \<and> cursor_get s g q = Some c}"
    by auto
  have C: "set (info_list ?info) = {(g, q', c). q' \<in> set (q # qs) \<and> valid_id s g q' \<and> cursor_get s g q' = Some c}"
    unfolding I U E info(3) ..
  show ?case by (rule exI[of _ ?info], rule conjI[OF A conjI[OF B C]])
qed

lemma raised_none: "raised p {} = p"
  by (cases p) (simp_all add: raised_def)

lemma raised_one: "raised p {c} = Some (case p of None \<Rightarrow> c | Some p \<Rightarrow> max p c)"
  by (cases p) (simp_all add: raised_def max.commute)

text \<open>C32: Publishing the cursors works. What the master publishes for a paxos group is executed
  without error by every replica with the same option, and afterwards the replica's acknowledged
  cursor of every consumer group, for each queue of the paxos group, is the larger of its own and
  the master's: a replica that becomes master later has lost no acknowledgement. Cursors of the
  queues of other paxos groups do not change.\<close>

theorem Publish_catches_up:
  assumes ws: "wf_store crc32 s" and wt: "wf_store crc32' t" and opt: "st_opt t = st_opt s"
    and G: "0 \<le> G" "G < ngroup (st_opt s)"
  shows "\<exists>info t'. publish_info s (queue_ids G (ngroup (st_opt s)) (nqueue (st_opt s))) = Some info
     \<and> SyncCursorID t info = Some (RET_OK, t') \<and> wf_store crc32' t'
     \<and> (\<forall>g q. valid_id s g q \<longrightarrow> cursor_get t' g q =
          (if q mod ngroup (st_opt s) = G
           then case cursor_get s g q of
                  None \<Rightarrow> cursor_get t g q
                | Some c \<Rightarrow> Some (case cursor_get t g q of None \<Rightarrow> c | Some p \<Rightarrow> max p c)
           else cursor_get t g q))"
proof -
  let ?qs = "queue_ids G (ngroup (st_opt s)) (nqueue (st_opt s))"
  have qs: "q \<in> set ?qs \<longleftrightarrow> q mod ngroup (st_opt s) = G" if "valid_id s g q" for g q
  proof -
    have q: "0 \<le> q" "q < nqueue (st_opt s)" using that by (simp_all add: valid_id_def)
    then have "q mod ngroup (st_opt s) \<le> q" by (simp add: zmod_le_nonneg_dividend)
    with q G show ?thesis by (auto simp: set_queue_ids)
  qed
  have rng: "\<forall>q \<in> set ?qs. 0 \<le> q \<and> q < nqueue (st_opt s)" using G by (auto simp: set_queue_ids)
  obtain info where info: "publish_info s ?qs = Some info" "valid_info s info"
    "set (info_list info) = {(g, q, c). q \<in> set ?qs \<and> valid_id s g q \<and> cursor_get s g q = Some c}"
    using publish_info_spec[OF wf_store_sync_sized[OF ws] rng] by blast
  have "valid_info t info" using info(2) opt by (simp add: valid_info_def valid_id_def)
  from sync_queues_raises[OF wt this] obtain b qs' where r: "SyncCursorID t info = Some (RET_OK, t\<lparr>sync_buf := b, meta_queues := qs'\<rparr>)"
    "wf_store crc32' (t\<lparr>sync_buf := b, meta_queues := qs'\<rparr>)"
    "\<forall>g q. valid_id t g q \<longrightarrow> cursor_get (t\<lparr>sync_buf := b, meta_queues := qs'\<rparr>) g q =
          raised (cursor_get t g q) {c. (g, q, c) \<in> set (info_list info)}"
    by (auto simp: SyncCursorID_def)
  have "cursor_get (t\<lparr>sync_buf := b, meta_queues := qs'\<rparr>) g q =
          (if q mod ngroup (st_opt s) = G
           then case cursor_get s g q of
                  None \<Rightarrow> cursor_get t g q
                | Some c \<Rightarrow> Some (case cursor_get t g q of None \<Rightarrow> c | Some p \<Rightarrow> max p c)
           else cursor_get t g q)" if v: "valid_id s g q" for g q
  proof -
    have "{c. (g, q, c) \<in> set (info_list info)} =
        (if q mod ngroup (st_opt s) = G then set_option (cursor_get s g q) else {})"
      unfolding info(3) using v qs[OF v] by auto
    moreover have "valid_id t g q" using v opt by (simp add: valid_id_def)
    ultimately show ?thesis
      using r(3) by (cases "cursor_get s g q") (simp_all add: raised_one raised_none)
  qed
  with info(1) r(1,2) show ?thesis by blast
qed

subsection \<open>The replay search\<close>

definition last_low :: "(u64 \<Rightarrow> bool) \<Rightarrow> u64 \<Rightarrow> u64 \<Rightarrow> u64 \<Rightarrow> bool" where
  "last_low low l r k \<longleftrightarrow> l \<le> k \<and> k \<le> r
     \<and> (\<forall>x. l < x \<longrightarrow> x \<le> k \<longrightarrow> low x) \<and> (\<forall>x. k < x \<longrightarrow> x \<le> r \<longrightarrow> \<not> low x)"

lemma replay_mid:
  assumes "l < r" "r \<noteq> NoID"
  shows "l < l + drop_bit 1 (r + 1 - l)" "l + drop_bit 1 (r + 1 - l) \<le> (r :: u64)"
proof -
  have lr: "unat l < unat r" "unat r < 2 ^ 64 - 1"
    using assms by (simp_all add: word_less_nat_alt unsigned_minus_1_eq_mask mask_eq_exp_minus_1 flip: u64_less_NoID)
  have r1: "unat (r + 1) = unat r + 1" using lr by (simp add: unat_word_ariths)
  have d: "unat (r + 1 - l) = unat r + 1 - unat l" using r1 lr by (subst unat_sub) (simp_all add: word_le_nat_alt)
  have h: "unat (drop_bit 1 (r + 1 - l)) = (unat r + 1 - unat l) div 2"
    using d by (simp add: drop_bit_eq_div unat_div)
  have "unat (l + drop_bit 1 (r + 1 - l)) = unat l + (unat r + 1 - unat l) div 2"
    using lr h by (subst unat_add_lem[THEN iffD1]) auto
  with lr show "l < l + drop_bit 1 (r + 1 - l)" "l + drop_bit 1 (r + 1 - l) \<le> r"
    by (auto simp: word_less_nat_alt word_le_nat_alt)
qed

lemma replay_search_spec:
  assumes "l \<le> r" "r \<noteq> NoID" "last_low low l r k"
  shows "\<exists>m. replay_search low l r m0 = Some m \<and> (if l < r then m \<le> r \<and> (m = k \<or> m = k + 1) else m = m0)"
  using assms
proof (induction "unat r - unat l" arbitrary: l r m0 rule: less_induct)
  case less
  show ?case
  proof (cases "l < r")
    case False
    then show ?thesis by (simp add: replay_search.simps)
  next
    case True
    define mid where "mid = l + drop_bit 1 (r + 1 - l)"
    note mid = replay_mid[OF True less.prems(2), folded mid_def]
    have st: "replay_search low l r m0 =
        (if low mid then replay_search low mid r mid else replay_search low l (mid - 1) mid)"
      using True by (subst replay_search.simps) (simp add: mid_def Let_def)
    note ll = less.prems(3)[unfolded last_low_def]
    show ?thesis
    proof (cases "low mid")
      case True
      then have k: "mid \<le> k" using ll mid(2) by (meson not_le)
      then have "last_low low mid r k" using ll mid(1) unfolding last_low_def by (meson less_trans)
      moreover have "unat r - unat mid < unat r - unat l"
        using mid by (simp add: word_less_nat_alt word_le_nat_alt)
      ultimately obtain m where m: "replay_search low mid r mid = Some m"
        "if mid < r then m \<le> r \<and> (m = k \<or> m = k + 1) else m = mid"
        using less.hyps[of r mid mid] mid(2) less.prems(2) by blast
      have "mid < r \<or> mid = k" using k ll mid(2) by auto
      with m(2) mid(2) have "m \<le> r \<and> (m = k \<or> m = k + 1)" by (cases "mid < r") simp_all
      with m(1) st True \<open>l < r\<close> show ?thesis by simp
    next
      case False
      then have k: "k < mid" using ll mid(1) by (meson not_le)
      have m1: "mid - 1 < mid" using mid(1) by (intro u64_pred_less) auto
      have le: "x \<le> mid - 1 \<longleftrightarrow> x < mid" for x
        using m1 inc_less_eq_iff[of "mid - 1" x] by (auto simp: u64_less_NoID[symmetric] intro: le_less_trans)
      have "last_low low l (mid - 1) k" using ll k mid(2) unfolding last_low_def le by (meson less_imp_le less_le_trans)
      moreover have "unat (mid - 1) - unat l < unat r - unat l"
        using mid m1 True by (simp add: word_less_nat_alt word_le_nat_alt)
      moreover have "l \<le> mid - 1" using le mid(1) by simp
      moreover have "mid - 1 \<noteq> NoID" using m1 by auto
      ultimately obtain m where m: "replay_search low l (mid - 1) mid = Some m"
        "if l < mid - 1 then m \<le> mid - 1 \<and> (m = k \<or> m = k + 1) else m = mid"
        using less.hyps[of "mid - 1" l mid] by blast
      have "m \<le> r \<and> (m = k \<or> m = k + 1)"
      proof (cases "l < mid - 1")
        case True
        with m have "m \<le> mid - 1" "m = k \<or> m = k + 1" by simp_all
        with m1 mid(2) show ?thesis by (meson less_imp_le order_trans)
      next
        case False
        then have "l = mid - 1" using \<open>l \<le> mid - 1\<close> by simp
        moreover from this have "k = l" using k ll le by (metis order_antisym)
        ultimately show ?thesis using m(2) False mid(2) by simp
      qed
      with m(1) st False \<open>l < r\<close> show ?thesis by simp
    qed
  qed
qed

lemma decide_replay_search:
  assumes "GetNowInstanceID env g \<noteq> NoID" "replay_cursor_id info = NoID"
    and l: "l = (if GetMinChosenInstanceID env g = NoID then 0 else GetMinChosenInstanceID env g)"
    and r: "l \<le> GetNowInstanceID env g"
    and k: "last_low (probe_low env g (replay_timestamp info)) l (GetNowInstanceID env g) k"
  shows "\<exists>m. decide_replay env g info = Some (Some m) \<and> (m = k \<or> m = k + 1)"
proof -
  obtain m where m: "replay_search (probe_low env g (replay_timestamp info)) l (GetNowInstanceID env g) NoID = Some m"
    "if l < GetNowInstanceID env g then m \<le> GetNowInstanceID env g \<and> (m = k \<or> m = k + 1) else m = NoID"
    using replay_search_spec[OF r assms(1) k] by blast
  have d: "decide_replay env g info = Some (Some (if m \<noteq> NoID then m else l))"
    using assms(1,2) m(1) by (simp add: decide_replay_def Let_def flip: l)
  have k': "l \<le> k" "k \<le> GetNowInstanceID env g" using k by (simp_all add: last_low_def)
  show ?thesis
  proof (cases "l < GetNowInstanceID env g")
    case False
    then have "k = l" using k' r by simp
    with m(2) False d show ?thesis by simp
  next
    case True
    then have m': "m \<le> GetNowInstanceID env g" "m = k \<or> m = k + 1" using m(2) by simp_all
    have "m \<noteq> NoID"
    proof
      assume "m = NoID"
      with m'(1) have "GetNowInstanceID env g = NoID" by (simp add: order_antisym)
      with assms(1) show False by simp
    qed
    with m'(2) d show ?thesis by auto
  qed
qed

text \<open>C33: A replay by time stamp rewinds a consumer group to the right place, give or take one.
  Let \<open>k\<close> be the last instance proposed before the time stamp (time stamps grow with the instance,
  instances below the smallest chosen one are gone). The search ends, both cursors of the queue
  become \<open>k\<close> or \<open>k + 1\<close>, so that \<open>Get\<close> serves the group every instance from \<open>k + 2\<close> on again, and
  no other cursor moves.\<close>

theorem Replay_rewinds:
  assumes wf: "wf_store crc32 s" and v: "valid_id s (q_consumer_group_id queue) (q_queue_id queue)"
    and G: "G = q_queue_id queue mod ngroup (st_opt s)"
    and need: "QueueNeedReplay env s queue pids infos = Some info" and tm: "replay_cursor_id info = NoID"
    and now: "GetNowInstanceID env G \<noteq> NoID"
    and l: "l = (if GetMinChosenInstanceID env G = NoID then 0 else GetMinChosenInstanceID env G)"
    and r: "l \<le> GetNowInstanceID env G"
    and k: "last_low (probe_low env G (replay_timestamp info)) l (GetNowInstanceID env G) k"
    and p: "cursor_of s (q_consumer_group_id queue) (q_queue_id queue) True = Some p" "p \<noteq> NoID"
  shows "\<exists>s' m. replay_queue env pids infos queue s = Some s' \<and> (m = k \<or> m = k + 1)
     \<and> (\<forall>g q b. valid_id s g q \<longrightarrow> cursor_of s' g q b =
          (if g = q_consumer_group_id queue \<and> q = q_queue_id queue then Some m else cursor_of s g q b))"
proof -
  let ?g = "q_consumer_group_id queue" and ?q = "q_queue_id queue"
  have q: "cmod ?q (ngroup (st_opt s)) = Some G"
    using v wf_storeD(1)[OF wf] G by (simp add: valid_id_def cmod_nonneg wf_opt_def)
  obtain m where m: "decide_replay env G info = Some (Some m)" "m = k \<or> m = k + 1"
    using decide_replay_search[OF now tm l r k] by blast
  note sz = wf_store_sync_sized[OF wf]
  have gc: "GetCursorID s ?g ?q True = Some (RET_OK, p)" using GetCursorID_cursor_of[OF sz v] p(1) by simp
  obtain s1 where s1: "UpdateCursorID s ?g ?q m True = Some (RET_OK, s1)" "sync_sized s1" "valid_id s1 = valid_id s"
    "\<forall>g' q' b'. valid_id s g' q' \<longrightarrow> cursor_of s1 g' q' b' = (if g' = ?g \<and> q' = ?q \<and> b' = True then Some m else cursor_of s g' q' b')"
    using UpdateCursorID_valid[OF sz v] by blast
  have v1: "valid_id s1 ?g ?q" using v s1(3) by simp
  obtain s2 where s2: "UpdateCursorID s1 ?g ?q m False = Some (RET_OK, s2)"
    "\<forall>g' q' b'. valid_id s1 g' q' \<longrightarrow> cursor_of s2 g' q' b' = (if g' = ?g \<and> q' = ?q \<and> b' = False then Some m else cursor_of s1 g' q' b')"
    using UpdateCursorID_valid[OF s1(2) v1] by blast
  have "replay_queue env pids infos queue s = Some s2"
    using need q m(1) gc p(2) s1(1) s2(1) by (simp add: replay_queue_def)
  moreover have "cursor_of s2 g q b = (if g = ?g \<and> q = ?q then Some m else cursor_of s g q b)" if "valid_id s g q" for g q b
    using s1(3,4) s2(2) that by (cases b) simp_all
  ultimately show ?thesis using m(2) by blast
qed

text \<open>
  The cursor can indeed be one too far. With two instances, the second of them proposed at the
  time stamp, the search probes instance 1, finds it too late, ends with the range \<open>0..0\<close>, and
  returns the probe 1 instead of the bound 0: consumption resumes after instance 1, and the first
  item that was to be replayed is skipped.
\<close>

lemma replay_search_skips: "replay_search (\<lambda>i. i < 1) 0 1 NoID = Some 1" "last_low (\<lambda>i. i < 1) 0 1 0"
  by (simp add: replay_search.simps drop_bit_Suc) (auto simp: last_low_def)

end
