(* ===== verification/StoreSample.thy ===== *)
theory StoreSample
  imports BaseMgr
begin

section \<open>A small store, and runs of Get on it\<close>

text \<open>
  Two paxos groups, four queues and two consumer groups; the log of group 1 holds one item of
  queue 1 in instance 5 and two in instance 6, both indexed, and consumer group 1 has
  acknowledged everything up to instance 4.
\<close>

definition sample_item :: "nat \<Rightarrow> QItem" where
  "sample_item i = \<lparr>qi_buffer = replicate i CHR ''x'', qi_buffer_type = 0, qi_consumer_group_ids = 3,
     qi_pub_id = 1, qi_atime = 0, qi_atime_ms = 0, qi_count = 0, qi_cursor_id = 0,
     qi_meta = \<lparr>meta_topic_id = 1000, meta_handle_id = 1, meta_uin = 0, meta_consumer_group_ids = 3,
       meta_pub_id = 1, meta_hash = 0, meta_atime = 0, meta_atime_ms = 0, meta_client_id = []\<rparr>\<rparr>"

definition sample_add :: "QItem list \<Rightarrow> AddRequest" where
  "sample_add items = \<lparr>add_topic_id = 1000, add_store_id = 1, add_queue_id = 1, add_items = items,
     add_master_addr = Addr_default\<rparr>"

definition sample_args :: "QItem list \<Rightarrow> StorePaxosArgs" where
  "sample_args items = \<lparr>pa_add_req = Some (sample_add items), pa_sync_ctrl_info = None,
     pa_master_addr = Addr_default, pa_timestamp = 0\<rparr>"

definition sample_value :: "int \<Rightarrow> u64 \<Rightarrow> InstanceValue" where
  "sample_value g c = (if g = 1 \<and> c = 5 then Value_Chosen [(''a'', 1)]
     else if g = 1 \<and> c = 6 then Value_Chosen [(''b'', 1)] else Value_NotExist)"

definition sample_parse :: "string \<Rightarrow> StorePaxosArgs option" where
  "sample_parse v = (if v = ''a'' then Some (sample_args [sample_item 1])
     else if v = ''b'' then Some (sample_args [sample_item 2, sample_item 3]) else None)"

definition sample_store_config :: StoreConfig where
  "sample_store_config = \<lparr>sc_stores = StoreConfig_ReadConfig, sc_last_mod_time = 0,
     store_id2store = [(1, hd StoreConfig_ReadConfig)],
     addr2store_id = [(EncodeAddr (\<lambda>_. 0x0100007F) (opt_addr sample_opt), 1)]\<rparr>"

definition sample_env :: StoreEnv where
  "sample_env = \<lparr>
     env_config = \<lparr>topic_name2topic_id = [(''test'', 1000)], handle_id2topic_id = [],
       topic_id2topic_config = [(1000, sample_topic)], topic_id2consumer_config = [],
       topic_id2store_config = [(1000, sample_store_config)], topic_id2scheduler_config = [],
       topic_id2lock_config = []\<rparr>,
     env_crc32 = sample_crc, env_inet_addr = (\<lambda>_. 0x0100007F), env_msync_ok = True,
     GetInstanceValue = sample_value, GetMinChosenInstanceID = (\<lambda>_. 0), GetNowInstanceID = (\<lambda>_. 7),
     IsIMMaster = (\<lambda>_. True), GetMaster = (\<lambda>_. (''127.0.0.1'', 5101)),
     ParseStorePaxosArgs = sample_parse, SerializeStorePaxosArgs = (\<lambda>_. ''a''),
     QItem_ByteSize = (\<lambda>i. 10 + length (qi_buffer i))\<rparr>"

definition sample_queue2 :: StoreMetaQueue where
  "sample_queue2 = snd (PushBack sample_crc (StoreMeta_of 6)
     (snd (PushBack sample_crc (StoreMeta_of 5) StoreMetaQueue_new)))"

definition sample_filled :: StoreState where
  "sample_filled = sample_store
     \<lparr>meta_queues := [StoreMetaQueue_new, sample_queue2, StoreMetaQueue_new, StoreMetaQueue_new],
      sync_buf := SyncCtrlItem_zero # SyncCtrlItem_zero # set_cursor True 4 (set_cursor False 4 SyncCtrlItem_zero)
        # replicate 5 SyncCtrlItem_zero\<rparr>"

lemma wf_sample_queue2: "wf_queue sample_crc sample_queue2" "cursors sample_queue2 = [5, 6]"
proof -
  show "wf_queue sample_crc sample_queue2"
    unfolding sample_queue2_def by (intro PushBack_cases(1) wf_queue_new StoreMeta_of_simps)
  show "cursors sample_queue2 = [5, 6]" by code_simp
qed

lemma wf_sample_filled: "wf_store (env_crc32 sample_env) sample_filled"
  using wf_sample_queue2
  by (auto simp: wf_store_def sample_filled_def sample_store_def sample_opt_def wf_opt_def wf_queue_new sample_env_def)

definition sample_req :: "u64 \<Rightarrow> GetRequest" where
  "sample_req c = \<lparr>get_topic_id = 1000, get_store_id = 1, get_queue_id = 1, get_limit = 1, get_atime = 0,
     get_consumer_group_id = 1, get_atime_ms = 0, get_prev_cursor_id = c, get_next_cursor_id = c,
     get_random = False, get_master_addr = Addr_default\<rparr>"

definition sample_resp :: GetResponse where
  "sample_resp = \<lparr>resp_items = [], resp_prev_cursor_id = 0, resp_next_cursor_id = 0, resp_redirect_addr = None\<rparr>"

definition get_ok :: "(RetCode \<times> GetResponse \<times> StoreState) option \<Rightarrow> u64 \<Rightarrow> nat \<Rightarrow> bool" where
  "get_ok r c n = (case r of None \<Rightarrow> False | Some (ret, resp, s) \<Rightarrow>
     ret = RET_OK \<and> resp_next_cursor_id resp = c \<and> length (resp_items resp) = n)"

definition sample_get1 :: "(RetCode \<times> GetResponse \<times> StoreState) option" where
  "sample_get1 = BaseMgr_Get sample_env (\<lambda>_. 1) sample_filled (sample_req 4) sample_resp"

definition sample_s1 :: StoreState where "sample_s1 = snd (snd (the sample_get1))"
definition sample_resp1 :: GetResponse where "sample_resp1 = fst (snd (the sample_get1))"

definition sample_get2 :: "(RetCode \<times> GetResponse \<times> StoreState) option" where
  "sample_get2 = BaseMgr_Get sample_env (\<lambda>_. 1) sample_s1 (sample_req 5) sample_resp"

definition sample_s2 :: StoreState where "sample_s2 = snd (snd (the sample_get2))"
definition sample_resp2 :: GetResponse where "sample_resp2 = fst (snd (the sample_get2))"

lemma sample_get1_ok: "get_ok sample_get1 5 1"
  by code_simp

lemma sample_get2_ok: "get_ok sample_get2 6 2"
  by code_simp

lemma get_okD:
  "get_ok r c n \<Longrightarrow> r = Some (RET_OK, fst (snd (the r)), snd (snd (the r)))
     \<and> resp_next_cursor_id (fst (snd (the r))) = c \<and> length (resp_items (fst (snd (the r)))) = n"
  by (cases r) (auto simp: get_ok_def)

lemma sample_get_results:
  "sample_get1 = Some (RET_OK, sample_resp1, sample_s1)" "resp_next_cursor_id sample_resp1 = 5"
  "length (resp_items sample_resp1) = 1"
  "sample_get2 = Some (RET_OK, sample_resp2, sample_s2)" "resp_next_cursor_id sample_resp2 = 6"
  "length (resp_items sample_resp2) = 2"
  using get_okD[OF sample_get1_ok] get_okD[OF sample_get2_ok]
  unfolding sample_resp1_def sample_s1_def sample_resp2_def sample_s2_def by blast+

lemma sample_topic_queue1: "(case GetQueueInfoByQueue sample_topic 1 of Inr qi \<Rightarrow> qinfo_id qi = 1 | _ \<Rightarrow> False)"
  by code_simp

lemma sample_ctx:
  "GetTopicConfigByTopicID (env_config sample_env) 1000 = Inr sample_topic"
  "get_checkpoint sample_env sample_filled 1 = Some (NoID, 0)"
  "start_cursors sample_filled (sample_req 4) = Some (RET_OK, 4, 4)"
  "at (meta_queues sample_filled) 1 = Some sample_queue2"
  "st_topic_id sample_filled = 1000" "st_opt sample_filled = sample_opt"
  by (simp_all add: sample_env_def GetTopicConfigByTopicID_def sample_filled_def sample_store_def sample_opt_def at_def
      get_checkpoint_def cmod_nonneg GetCheckPointStat_def GetCheckPoint_def CHECKPOINTSTAT_MAGIC_def
      start_cursors_def sample_req_def AdjustNextCursorID_def sync_arg_err_def sync_idx_def GetIdx_def
      set_cursor_def SYNCCTRL_MAGIC_def Let_def)

lemma sample_items:
  assumes "gc_env ctx = sample_env" "gc_opt ctx = sample_opt" "get_queue_id (gc_req ctx) = 1"
  shows "items_at ctx c \<noteq> [] \<longleftrightarrow> c = 5 \<or> c = 6"
  using assms
  by (auto simp: items_at_def GetItemsByCursorID_def sample_opt_def cmod_nonneg sample_env_def sample_value_def
      StoreSM_ID_def sample_parse_def sample_args_def sample_add_def)

lemma sample_pulled1:
  assumes qi: "GetQueueInfoByQueue sample_topic 1 = Inr qi"
  shows "pulled sample_env (\<lambda>_. 1) sample_filled (sample_req 4)
   (get_ctx sample_env sample_filled (sample_req 4) sample_topic qi (NoID, 0) 4) (cursors sample_queue2) 4
   sample_resp1 sample_s1"
proof (rule pulledI)
  show "wf_store (env_crc32 sample_env) sample_filled" by (rule wf_sample_filled)
  show "covered (get_ctx sample_env sample_filled (sample_req 4) sample_topic qi (NoID, 0) 4) (cursors sample_queue2)"
    using sample_items[of "get_ctx sample_env sample_filled (sample_req 4) sample_topic qi (NoID, 0) 4"]
    by (auto simp: covered_def wf_sample_queue2 sample_ctx sample_req_def)
  show "BaseMgr_Get sample_env (\<lambda>_. 1) sample_filled (sample_req 4) sample_resp = Some (RET_OK, sample_resp1, sample_s1)"
    using sample_get_results(1) by (simp only: sample_get1_def)
  show "valid_id sample_filled (get_consumer_group_id (sample_req 4)) (get_queue_id (sample_req 4))"
    by (simp add: valid_id_def sample_ctx sample_req_def sample_opt_def)
qed (use qi sample_ctx in \<open>simp_all add: group_ok_def sample_req_def sample_resp_def\<close>)

lemma sample_s1_frame: "wf_store (env_crc32 sample_env) sample_s1" "st_opt sample_s1 = sample_opt"
  "cp_stats sample_s1 = cp_stats sample_filled" "map cursors (meta_queues sample_s1) = map cursors (meta_queues sample_filled)"
  "st_topic_id sample_s1 = st_topic_id sample_filled"
proof -
  have "0 \<le> get_queue_id (sample_req 4)" "group_ok (sample_req 4)" by (simp_all add: sample_req_def group_ok_def)
  from Get_total[OF wf_sample_filled this(2,1), of "\<lambda>_. 1" sample_resp] sample_get_results(1)
  show "wf_store (env_crc32 sample_env) sample_s1" "st_opt sample_s1 = sample_opt"
    "cp_stats sample_s1 = cp_stats sample_filled" "map cursors (meta_queues sample_s1) = map cursors (meta_queues sample_filled)"
    "st_topic_id sample_s1 = st_topic_id sample_filled"
    by (auto simp: sample_get1_def sample_ctx)
qed

lemma sample_filled_length: "length (meta_queues sample_filled) = 4"
  by (simp add: sample_filled_def)

lemma sample_s1_queue: "\<exists>mq. at (meta_queues sample_s1) 1 = Some mq \<and> cursors mq = [5, 6]"
proof -
  have l: "length (meta_queues sample_s1) = 4"
    using sample_s1_frame(4) by (metis length_map sample_filled_length)
  have "cursors (meta_queues sample_s1 ! 1) = cursors (meta_queues sample_filled ! 1)"
    using sample_s1_frame(4) l by (metis nth_map one_less_numeral_iff sample_filled_length semiring_norm(76))
  also have "\<dots> = [5, 6]" by (simp add: sample_filled_def wf_sample_queue2)
  finally show ?thesis using l by (simp add: at_def)
qed

lemma sample_start2: "start_cursors sample_s1 (sample_req 5) = Some (RET_OK, 5, 5)"
  by code_simp

lemma sample_pulled2:
  assumes qi: "GetQueueInfoByQueue sample_topic 1 = Inr qi"
  shows "pulled sample_env (\<lambda>_. 1) sample_s1 (sample_req 5)
   (get_ctx sample_env sample_s1 (sample_req 5) sample_topic qi (NoID, 0) 5) [5, 6] 5 sample_resp2 sample_s2"
proof -
  obtain mq where mq: "at (meta_queues sample_s1) 1 = Some mq" "cursors mq = [5, 6]"
    using sample_s1_queue by blast
  have "pulled sample_env (\<lambda>_. 1) sample_s1 (sample_req 5)
     (get_ctx sample_env sample_s1 (sample_req 5) sample_topic qi (NoID, 0) 5) (cursors mq) 5 sample_resp2 sample_s2"
  proof (rule pulledI)
    show "wf_store (env_crc32 sample_env) sample_s1" by (rule sample_s1_frame)
    show "covered (get_ctx sample_env sample_s1 (sample_req 5) sample_topic qi (NoID, 0) 5) (cursors mq)"
      using sample_items[of "get_ctx sample_env sample_s1 (sample_req 5) sample_topic qi (NoID, 0) 5"]
      by (auto simp: covered_def mq sample_s1_frame sample_req_def)
    show "BaseMgr_Get sample_env (\<lambda>_. 1) sample_s1 (sample_req 5) sample_resp = Some (RET_OK, sample_resp2, sample_s2)"
      using sample_get_results(4) by (simp only: sample_get2_def)
    show "valid_id sample_s1 (get_consumer_group_id (sample_req 5)) (get_queue_id (sample_req 5))"
      by (simp add: valid_id_def sample_s1_frame sample_req_def sample_opt_def)
    show "get_checkpoint sample_env sample_s1 (get_queue_id (sample_req 5)) = Some (NoID, 0)"
    proof -
      have "get_queue_id (sample_req 5) = 1" by (simp add: sample_req_def)
      then show ?thesis
        using sample_ctx(2) by (simp only: get_checkpoint_def GetCheckPointStat_def sample_s1_frame(2,3) sample_ctx(6))
    qed
    show "GetTopicConfigByTopicID (env_config sample_env) (st_topic_id sample_s1) = Inr sample_topic"
      using sample_ctx(1,5) sample_s1_frame(5) by simp
  qed (use qi mq sample_start2 in \<open>simp_all add: group_ok_def sample_req_def sample_resp_def\<close>)
  with mq show ?thesis by simp
qed

text \<open>Witnesses.\<close>

theorem Get_safe_witness:
  "\<exists>ret resp' s'. BaseMgr_Get sample_env (\<lambda>_. 1) sample_filled (sample_req 4) sample_resp = Some (ret, resp', s')
     \<and> wf_store (env_crc32 sample_env) s'"
  using Get_safe[OF wf_sample_filled, of "sample_req 4" "\<lambda>_. 1" sample_resp]
  by (auto simp: sample_req_def group_ok_def)

theorem Get_serves_window_witness:
  "\<exists>ctx. served ctx [5, 6] 4 5 (resp_items sample_resp1) \<and> resp_prev_cursor_id sample_resp1 = 4"
proof -
  obtain qi where qi: "GetQueueInfoByQueue sample_topic 1 = Inr qi"
    using sample_topic_queue1 by (cases "GetQueueInfoByQueue sample_topic 1") auto
  have cov: "covered (get_ctx sample_env sample_filled (sample_req 4) sample_topic qi (NoID, 0) 4) (cursors sample_queue2)"
    using sample_items[of "get_ctx sample_env sample_filled (sample_req 4) sample_topic qi (NoID, 0) 4"]
    by (auto simp: covered_def wf_sample_queue2 sample_ctx sample_req_def)
  have r: "group_ok (sample_req 4)" "0 \<le> get_queue_id (sample_req 4)" "\<not> get_random (sample_req 4)"
    "resp_items sample_resp = []" "get_queue_id (sample_req 4) = 1"
    "valid_id sample_filled (get_consumer_group_id (sample_req 4)) (get_queue_id (sample_req 4))"
    by (simp_all add: sample_req_def group_ok_def sample_resp_def valid_id_def sample_ctx sample_opt_def)
  from Get_serves_window[OF wf_sample_filled r(1-4,6), of sample_topic qi sample_queue2 4 4 "(NoID, 0)" "\<lambda>_. 1" sample_resp1 sample_s1]
  show ?thesis
    using qi sample_ctx cov sample_get_results(1,2) r(5) wf_sample_queue2(2) by (auto simp: sample_get1_def)
qed

theorem Get_limit_witness:
  "int (length (resp_items sample_resp2)) \<le> 1 \<or> (\<exists>c. \<forall>i \<in> set (resp_items sample_resp2). qi_cursor_id i = c)"
proof -
  have len: "length items < 2 ^ 32"
    if "GetItemsByCursorID sample_env (st_opt sample_s1) (get_queue_id (sample_req 5)) c = Some (ret, items)" for c ret items
    using that
    by (auto simp: GetItemsByCursorID_def sample_s1_frame sample_opt_def cmod_nonneg sample_env_def sample_value_def
        sample_req_def StoreSM_ID_def sample_parse_def sample_args_def sample_add_def split: if_splits)
  show ?thesis
    using Get_limit[OF sample_s1_frame(1) _ _ _ _ len _ sample_get_results(4)[unfolded sample_get2_def]]
    by (simp add: sample_req_def group_ok_def sample_resp_def)
qed

theorem Get_session_witness:
  "\<exists>ctx. served ctx [5, 6] 4 6 (resp_items sample_resp1 @ resp_items sample_resp2)"
proof -
  obtain qi where qi: "GetQueueInfoByQueue sample_topic 1 = Inr qi"
    using sample_topic_queue1 by (cases "GetQueueInfoByQueue sample_topic 1") auto
  let ?c1 = "get_ctx sample_env sample_filled (sample_req 4) sample_topic qi (NoID, 0) 4"
  let ?c2 = "get_ctx sample_env sample_s1 (sample_req 5) sample_topic qi (NoID, 0) 5"
  have "items_at ?c2 = items_at ?c1" "wanted ?c2 = wanted ?c1"
    by (simp_all add: fun_eq_iff items_at_def wanted_def sample_s1_frame sample_ctx sample_req_def)
  then show ?thesis
    using Get_session[OF sample_pulled1[OF qi] _ sample_pulled2[OF qi]] sample_get_results(2,5)
    by (auto simp: sample_req_def)
qed
end
