(* ===== verification/StoreWitness.thy ===== *)
theory StoreWitness
  imports StoreSample KeepSync
begin

section \<open>Runs of the log, the service and the housekeeping thread on the sample store\<close>

lemma sample_topic_valid1: "IsValidQueue sample_topic 1 (- 1) (- 1)"
  by code_simp

lemma sample_add_ok:
  assumes "items \<noteq> []" and "st_opt s = sample_opt" "st_topic_id s = 1000"
  shows "add_ok sample_env s (sample_add items)"
proof -
  obtain qi where "GetQueueInfoByQueue sample_topic 1 = Inr qi"
    using sample_topic_queue1 by (cases "GetQueueInfoByQueue sample_topic 1") auto
  with assms sample_topic_valid1 show ?thesis
    by (simp add: add_ok_def sample_ctx sample_add_def sample_opt_def)
qed

lemma sample_store_simps: "st_opt sample_store = sample_opt" "st_topic_id sample_store = 1000"
  "qcursors sample_store q = []"
proof -
  show "qcursors sample_store q = []"
  proof (cases "at (meta_queues sample_store) q")
    case (Some mq)
    then have "mq = StoreMetaQueue_new" by (auto dest!: at_set simp: sample_store_def)
    with Some show ?thesis by (simp add: qcursors_def cursors_def StoreMetaQueue_new_def)
  qed (simp add: qcursors_def)
qed (simp_all add: sample_store_def)

lemma sample_executable: "st_opt s = sample_opt \<Longrightarrow> st_topic_id s = 1000 \<Longrightarrow> v \<in> {''a'', ''b''} \<Longrightarrow> executable sample_env s v"
  using sample_add_ok[of "[sample_item 1]" s] sample_add_ok[of "[sample_item 2, sample_item 3]" s]
  by (auto simp: executable_def sample_env_def sample_parse_def sample_args_def)

definition sample_log :: "(u64 \<times> string) list" where
  "sample_log = [(5, ''a''), (6, ''b'')]"

lemma sample_log_ok: "\<forall>(c, v) \<in> set sample_log. c \<noteq> NoID \<and> executable sample_env sample_store v"
  "sorted_wrt (\<le>) (map fst sample_log)" "\<forall>(c, v) \<in> set sample_log. \<forall>k \<in> set (qcursors sample_store q). k \<le> c"
  "adds sample_env ''a'' 1" "adds sample_env ''b'' 1"
  using sample_executable[of sample_store ] sample_store_simps
  by (auto simp: sample_log_def adds_def sample_env_def sample_parse_def sample_args_def sample_add_def)

lemma wf_sample_store_env: "wf_store (env_crc32 sample_env) sample_store"
  by (rule wf_sample_store)

theorem Execute_builds_index_witness:
  "\<exists>s'. execute_all sample_env True 1 sample_log sample_store = Some s' \<and> set (qcursors s' 1) = {5, 6}"
proof -
  have "{c. \<exists>v. (c, v) \<in> set sample_log \<and> adds sample_env v 1} = {5, 6}"
    using sample_log_ok(4,5) by (auto simp: sample_log_def)
  then show ?thesis
    using Execute_builds_index[OF wf_sample_store_env sample_log_ok(1-3), of True 1 1] sample_store_simps by auto
qed

theorem Execute_covers_log_witness:
  "\<exists>s'. execute_all sample_env True 1 sample_log sample_store = Some s'
     \<and> (\<forall>tc qi. covered (get_ctx sample_env s' (sample_req 4) tc qi (NoID, NoID) 4) (qcursors s' 1))"
proof -
  have "(c, v) \<in> set sample_log" if "GetInstanceValue sample_env 1 c = Value_Chosen vs" "(v, StoreSM_ID) \<in> set vs" for c v vs
    using that by (auto simp: sample_env_def sample_value_def sample_log_def split: if_splits)
  moreover have "(1 :: int) = 1 mod ngroup (st_opt sample_store)" by (simp add: sample_store_simps sample_opt_def)
  ultimately show ?thesis
    using Execute_covers_log[OF wf_sample_store_env sample_log_ok(1-3), where q = 1 and g = 1 and cp = NoID and m = NoID and nr = True]
    by (auto simp: sample_req_def)
qed

lemma sample_Store_Get: "get_ok (Store_Get sample_env (\<lambda>_. 1) sample_filled (sample_req 4) sample_resp) 5 1"
  by code_simp

text \<open>The sample node while another member of the store is the master.\<close>

definition sample_slave_env :: StoreEnv where
  "sample_slave_env = sample_env\<lparr>IsIMMaster := (\<lambda>_. False), GetMaster := (\<lambda>_. (''127.0.0.1'', 5201))\<rparr>"

lemma sample_slave:
  "CheckGetRequest sample_slave_env sample_filled (sample_req 4) = RET_OK"
  "\<not> IsIMMaster sample_slave_env 1" "master_known sample_slave_env 1"
  "GetStoreConfig (env_config sample_slave_env) (st_topic_id sample_filled) = Inr sample_store_config"
  "GetStoreByAddr (env_inet_addr sample_slave_env) sample_store_config (st_addr sample_filled) = Inr (hd StoreConfig_ReadConfig)"
  "find (\<lambda>a. (ip a, paxos_port a) = GetMaster sample_slave_env 1) (store_addrs (hd StoreConfig_ReadConfig))
     = Some \<lparr>ip = ''127.0.0.1'', port = 5200, paxos_port = 5201\<rparr>"
  by code_simp+

theorem Store_Get_master_witness:
  "\<exists>resp'. Store_Get sample_slave_env (\<lambda>_. 1) sample_filled (sample_req 4) sample_resp = Some (RET_ERR_NOT_MASTER, resp', sample_filled)
     \<and> resp_redirect_addr resp' = Some \<lparr>ip = ''127.0.0.1'', port = 5200, paxos_port = 5201\<rparr>"
proof -
  have g: "cmod (get_queue_id (sample_req 4)) (ngroup (st_opt sample_filled)) = Some 1"
    by (simp add: sample_req_def sample_ctx sample_opt_def cmod_nonneg)
  obtain ret resp' s' where run: "Store_Get sample_slave_env (\<lambda>_. 1) sample_filled (sample_req 4) sample_resp = Some (ret, resp', s')"
    using g sample_slave(1,2) CheckMaster_cases(1)[of sample_slave_env sample_filled 1 "or_default (resp_redirect_addr sample_resp)"]
    by (cases "CheckMaster sample_slave_env sample_filled 1 (or_default (resp_redirect_addr sample_resp))")
      (auto simp: Store_Get_def Let_def)
  from Store_Get_master[OF run g] sample_slave
  have "s' = sample_filled \<and> ret = RET_ERR_NOT_MASTER
      \<and> resp_redirect_addr resp' = Some \<lparr>ip = ''127.0.0.1'', port = 5200, paxos_port = 5201\<rparr>" by fastforce
  with run show ?thesis by blast
qed

definition sample_propose :: batch_propose where
  "sample_propose g buf s = (case Execute sample_env True s g 5 buf of
     Some (ok, res, s') \<Rightarrow> (TryCommit_OK, 5, res, s') | None \<Rightarrow> (TryCommit_Other, 0, RET_OK, s))"

definition sample_add_resp :: AddResponse where
  "sample_add_resp = \<lparr>add_resp_cursor_id = 0, add_redirect_addr = None\<rparr>"

definition add_ret :: "(RetCode \<times> AddResponse \<times> StoreState) option \<Rightarrow> RetCode option" where
  "add_ret r = map_option fst r"

lemma sample_Store_Add:
  "add_ret (Store_Add sample_env sample_propose 0 sample_store (sample_add [sample_item 1]) sample_add_resp) = Some RET_OK"
  by code_simp

theorem Store_Add_indexed_witness:
  "\<exists>resp' s'. Store_Add sample_env sample_propose 0 sample_store (sample_add [sample_item 1]) sample_add_resp = Some (RET_OK, resp', s')
     \<and> add_resp_cursor_id resp' \<in> set (qcursors s' 1)"
proof -
  let ?req = "sample_add [sample_item 1]" and ?buf = "SerializeStorePaxosArgs sample_env (add_args 0 (sample_add [sample_item 1]))"
  obtain resp' s' where add: "Store_Add sample_env sample_propose 0 sample_store ?req sample_add_resp = Some (RET_OK, resp', s')"
    using sample_Store_Add by (auto simp: add_ret_def)
  have pb: "ParseStorePaxosArgs sample_env ?buf = Some (add_args 0 ?req)"
    by (simp add: sample_env_def sample_parse_def sample_args_def add_args_def)
  have "proposes sample_env sample_propose sample_store 1 1 ?buf"
    unfolding proposes_def
  proof (intro allI impI)
    fix i res s1
    assume "sample_propose 1 ?buf sample_store = (TryCommit_OK, i, res, s1)"
    then obtain ok where "i = 5" "Execute sample_env True sample_store 1 5 ?buf = Some (ok, res, s1)"
      by (auto simp: sample_propose_def split: option.splits)
    then show "i \<noteq> NoID \<and> (\<exists>es s2 ok.
          sorted_wrt (\<le>) (map fst es @ [i])
          \<and> (\<forall>(c, v) \<in> set es. c \<noteq> NoID \<and> executable sample_env sample_store v)
          \<and> (\<forall>c \<in> set (map fst es @ [i]). \<forall>k \<in> set (qcursors sample_store 1). k \<le> c)
          \<and> execute_all sample_env True 1 es sample_store = Some s2
          \<and> Execute sample_env True s2 1 i ?buf = Some (ok, res, s1))"
      by (intro conjI exI[of _ "[]"] exI[of _ sample_store] exI[of _ ok]) (simp_all add: sample_store_simps)
  qed
  moreover have "add_queue_id ?req = 1" "add_items ?req \<noteq> []" by (simp_all add: sample_add_def)
  ultimately show ?thesis
    using Store_Add_indexed[OF wf_sample_store_env _ _ sample_add_ok[of "[sample_item 1]" sample_store] pb _ add] add
    by (simp add: sample_store_simps sample_opt_def)
qed

lemma sample_filled_qcursors: "qcursors sample_filled q = (if q = 1 then [5, 6] else [])"
proof (cases "q = 1")
  case True
  then show ?thesis by (simp add: qcursors_def sample_ctx wf_sample_queue2)
next
  case False
  have "cursors mq = []" if "at (meta_queues sample_filled) q = Some mq" for mq
  proof -
    have "q = 0 \<or> q = 2 \<or> q = 3" using at_SomeD[OF that] False by (auto simp: sample_filled_def)
    with that show ?thesis by (auto simp: sample_filled_def at_def cursors_def StoreMetaQueue_new_def)
  qed
  with False show ?thesis by (simp add: qcursors_def split: option.split)
qed

lemma sample_filled_checkpoint: "checkpoint sample_filled g = NoID"
  by (auto simp: checkpoint_def GetCheckPoint_def sample_filled_def sample_store_def CHECKPOINTSTAT_MAGIC_def
      dest!: at_set split: option.split)

theorem MakeCheckPoint_safe_witness:
  "\<exists>s' ks'. MakeCheckPoint sample_env (\<lambda>_. 100) (\<lambda>_. 0) (sample_filled, KeepSync_start sample_filled) = Some (s', ks')
     \<and> cp_below s' \<and> wf_store (env_crc32 sample_env) s'"
proof -
  have "cp_below sample_filled" by (simp add: cp_below_def sample_filled_checkpoint)
  moreover have "int (length (next_make_cp_times (KeepSync_start sample_filled))) = ngroup (st_opt sample_filled)"
    by (simp add: KeepSync_start_def sample_ctx sample_opt_def)
  moreover have "\<forall>q. length (qcursors sample_filled q) < 2 ^ 31" by (simp add: sample_filled_qcursors)
  moreover have "\<forall>q \<ge> 0. \<forall>c \<in> set (qcursors sample_filled q). c \<le> GetNowInstanceID sample_env (q mod ngroup (st_opt sample_filled))"
    by (auto simp: sample_filled_qcursors sample_env_def)
  ultimately show ?thesis
    using MakeCheckPoint_safe[OF wf_sample_filled, where clock = "\<lambda>_. 100" and rnd = "\<lambda>_. 0" and ks = "KeepSync_start sample_filled"]
    by blast
qed

theorem Publish_catches_up_witness:
  "\<exists>info t'. publish_info sample_filled (queue_ids 1 2 4) = Some info
     \<and> SyncCursorID sample_store info = Some (RET_OK, t') \<and> cursor_get t' 1 1 = Some 4"
proof -
  have "cursor_get sample_filled 1 1 = Some 4" "cursor_get sample_store 1 1 = None" by code_simp+
  moreover have "valid_id sample_filled 1 1" by (simp add: valid_id_def sample_ctx sample_opt_def)
  ultimately show ?thesis
    using Publish_catches_up[OF wf_sample_filled wf_sample_store_env, of 1]
    by (fastforce simp: sample_ctx sample_store_simps sample_opt_def)
qed

definition sample_env6 :: StoreEnv where
  "sample_env6 = sample_env\<lparr>GetNowInstanceID := \<lambda>_. 6\<rparr>"

definition sample_replay_queue :: Queue where
  "sample_replay_queue = \<lparr>q_consumer_group_id = 1, q_store_id = 1, q_queue_id = 1\<rparr>"

definition sample_replay_info :: ReplayInfo where
  "sample_replay_info = \<lparr>replay_consumer_group_ids = [], replay_pub_ids = [], replay_cursor_id = NoID, replay_timestamp = 0\<rparr>"

theorem Replay_rewinds_witness:
  "\<exists>s' m. replay_queue sample_env6 [1] [sample_replay_info] sample_replay_queue sample_filled = Some s'
     \<and> (m = 4 \<or> m = 5) \<and> cursor_of s' 1 1 True = Some m"
proof -
  have low: "probe_low sample_env6 1 0 c \<longleftrightarrow> c \<noteq> 5 \<and> c \<noteq> 6" for c
    by (auto simp: probe_low_def sample_env6_def sample_env_def sample_value_def StoreSM_ID_def sample_parse_def)
  have five: "(x :: u64) \<le> 4 \<Longrightarrow> x \<noteq> 5 \<and> x \<noteq> 6" "(4 :: u64) < x \<Longrightarrow> x \<le> 6 \<Longrightarrow> x = 5 \<or> x = 6" for x
  proof -
    show "x \<noteq> 5 \<and> x \<noteq> 6" if "x \<le> 4" using that by auto
    show "x = 5 \<or> x = 6" if "4 < x" "x \<le> 6"
      using u64_add1_le[OF that(1)] u64_add1_le[of 5 x] that(2) by (auto simp: order_le_less)
  qed
  have ts: "replay_timestamp sample_replay_info = 0" "GetNowInstanceID sample_env6 1 = 6"
    by (simp_all add: sample_replay_info_def sample_env6_def)
  have k: "last_low (probe_low sample_env6 1 (replay_timestamp sample_replay_info)) 0 (GetNowInstanceID sample_env6 1) 4"
    using five by (auto simp: last_low_def low ts)
  have need: "QueueNeedReplay sample_env6 sample_filled sample_replay_queue [1] [sample_replay_info] = Some sample_replay_info"
    by (simp add: QueueNeedReplay_def replay_matches_def sample_replay_info_def sample_env6_def sample_ctx)
  have v: "valid_id sample_filled 1 1" by (simp add: valid_id_def sample_ctx sample_opt_def)
  have p: "cursor_of sample_filled 1 1 True = Some 4" by code_simp
  have e: "GetNowInstanceID sample_env6 1 = 6" "GetMinChosenInstanceID sample_env6 1 = 0"
    by (simp_all add: sample_env6_def sample_env_def)
  have q: "q_consumer_group_id sample_replay_queue = 1" "q_queue_id sample_replay_queue = 1"
    by (simp_all add: sample_replay_queue_def)
  have "\<exists>s' m. replay_queue sample_env6 [1] [sample_replay_info] sample_replay_queue sample_filled = Some s'
     \<and> (m = 4 \<or> m = 4 + 1)
     \<and> (\<forall>g q b. valid_id sample_filled g q \<longrightarrow> cursor_of s' g q b =
          (if g = q_consumer_group_id sample_replay_queue \<and> q = q_queue_id sample_replay_queue then Some m
           else cursor_of sample_filled g q b))"
    by (rule Replay_rewinds[OF wf_sample_filled _ _ need, where G = 1 and l = 0 and p = 4])
      (use k v p in \<open>simp_all add: q e sample_ctx sample_opt_def sample_replay_info_def\<close>)
  then obtain s' m where r: "replay_queue sample_env6 [1] [sample_replay_info] sample_replay_queue sample_filled = Some s'"
    "m = 4 \<or> m = 4 + 1" "\<forall>g q b. valid_id sample_filled g q \<longrightarrow> cursor_of s' g q b =
          (if g = q_consumer_group_id sample_replay_queue \<and> q = q_queue_id sample_replay_queue then Some m
           else cursor_of sample_filled g q b)" by blast
  have "cursor_of s' 1 1 True = Some m" using r(3) v q by simp
  with r(1,2) show ?thesis by auto
qed

end
