(* ===== verification/LockDb.thy ===== *)
theory LockDb
  imports Comm
begin

section \<open>LockDb (lock/lockdb.h, lockdb.cpp, lock.proto)\<close>

text \<open>
  The versioned key-value table of the lock service. One class serves two storages: \<open>MAP\<close>, an
  ordered map in memory, and \<open>LEVELDB\<close>, a database on disk that keeps each record serialised and
  without its expiry. The database and protobuf are not in this repository: \<open>LevelDB\<close> is the
  record of the calls the code makes, over an arbitrary type of database contents;
  \<open>leveldb_laws\<close> states the documented behaviour of the calls that report success.

  \<^const>\<open>None\<close> is the dereference of the null \<open>db_leveldb\<close> or \<open>leveldb_it_\<close>, or of an iterator at its
  end. A key is checked for emptiness at every level of the class, as in the code.
\<close>

datatype StorageType = StorageType_NONE | MAP | LEVELDB | StorageType_MAX

datatype DataType = DataType_NONE | IGNORE | USER | DataType_MAX

record LocalRecordInfo =
  lr_version :: u64
  lr_value :: string
  lr_lease_time_ms :: u64
  lr_expire_time_ms :: u64

record RecordKeyInfo =
  rk_version :: u64
  rk_key :: string

definition LocalRecordInfo_default :: LocalRecordInfo where
  "LocalRecordInfo_default =
     \<lparr>lr_version = 0, lr_value = [], lr_lease_time_ms = 0, lr_expire_time_ms = 0\<rparr>"

datatype Status = Status_OK | Status_NotFound | Status_Other

record 'd LevelDB =
  Ldb_Open :: "string \<Rightarrow> 'd option"
  Ldb_Get :: "'d \<Rightarrow> string \<Rightarrow> Status \<times> string"
  Ldb_Put :: "'d \<Rightarrow> bool \<Rightarrow> string \<Rightarrow> string \<Rightarrow> Status \<times> 'd"
  Ldb_Delete :: "'d \<Rightarrow> bool \<Rightarrow> string \<Rightarrow> Status \<times> 'd"
  Ldb_entries :: "'d \<Rightarrow> (string \<times> string) list"
  ParseRecord :: "string \<Rightarrow> LocalRecordInfo option"
  SerializeRecord :: "LocalRecordInfo \<Rightarrow> string option"

record 'd LockDb =
  storage_type :: StorageType
  db_map :: "(string \<times> LocalRecordInfo) list"
  db_map_it :: "(string \<times> LocalRecordInfo) list"
  db_leveldb :: "'d option"
  db_leveldb_it :: "(string \<times> string) list option"
  prev_loop_key :: string

definition LockDb_init :: "'d LockDb" where
  "LockDb_init = \<lparr>storage_type = StorageType_NONE, db_map = [], db_map_it = [], db_leveldb = None,
     db_leveldb_it = None, prev_loop_key = []\<rparr>"

definition KEY_IGNORE_PREFIX :: string where
  "KEY_IGNORE_PREFIX = ''__ignore__''"

definition KEY_IGNORE_SYNC_TRIGGER :: string where
  "KEY_IGNORE_SYNC_TRIGGER = ''__ignore__:__sync_trigger__''"

definition KEY_USER_STRING_PREFIX :: string where
  "KEY_USER_STRING_PREFIX = ''''"

definition KEY_USER_LOCK_PREFIX :: string where
  "KEY_USER_LOCK_PREFIX = ''''"

subsection \<open>Opening and closing\<close>

definition LockDb_Init :: "'d LevelDB \<Rightarrow> StorageType \<Rightarrow> string \<Rightarrow> 'd LockDb \<Rightarrow> RetCode \<times> 'd LockDb" where
  "LockDb_Init L type leveldb_file db =
     (let db = db\<lparr>storage_type := type\<rparr> in
      if type = MAP then (RET_OK, db)
      else if type = LEVELDB then
        (case Ldb_Open L leveldb_file of
           None \<Rightarrow> (RET_ERR_LEVELDB, db)
         | Some d \<Rightarrow> (RET_OK, db\<lparr>db_leveldb := Some d\<rparr>))
      else (RET_ERR_NO_IMPL, db))"

definition LockDb_Dispose :: "'d LockDb \<Rightarrow> RetCode \<times> 'd LockDb" where
  "LockDb_Dispose db =
     (if storage_type db = MAP then (RET_OK, db\<lparr>db_map := []\<rparr>)
      else if storage_type db = LEVELDB then (RET_OK, db\<lparr>db_leveldb := None\<rparr>)
      else (RET_ERR_NO_IMPL, db))"

subsection \<open>The database\<close>

definition DiskGet :: "'d LevelDB \<Rightarrow> 'd LockDb \<Rightarrow> string \<Rightarrow> (RetCode + string) option" where
  "DiskGet L db k =
     (if k = [] then Some (Inl RET_ERR_KEY)
      else if storage_type db = LEVELDB then do {
        d \<leftarrow> db_leveldb db;
        Some (case Ldb_Get L d k of
                (Status_OK, vstr) \<Rightarrow> Inr vstr
              | (Status_NotFound, _) \<Rightarrow> Inl RET_ERR_KEY_NOT_EXIST
              | (Status_Other, _) \<Rightarrow> Inl RET_ERR_LEVELDB) }
      else Some (Inl RET_ERR_NO_IMPL))"

definition DiskSet ::
  "'d LevelDB \<Rightarrow> 'd LockDb \<Rightarrow> string \<Rightarrow> string \<Rightarrow> bool \<Rightarrow> (RetCode \<times> 'd LockDb) option" where
  "DiskSet L db k vstr sync =
     (if k = [] then Some (RET_ERR_KEY, db)
      else if storage_type db = LEVELDB then do {
        d \<leftarrow> db_leveldb db;
        let (status, d') = Ldb_Put L d sync k vstr;
        Some (if status = Status_OK then RET_OK else RET_ERR_LEVELDB, db\<lparr>db_leveldb := Some d'\<rparr>) }
      else Some (RET_ERR_NO_IMPL, db))"

definition DiskDelete :: "'d LevelDB \<Rightarrow> 'd LockDb \<Rightarrow> string \<Rightarrow> bool \<Rightarrow> (RetCode \<times> 'd LockDb) option" where
  "DiskDelete L db k sync =
     (if k = [] then Some (RET_ERR_KEY, db)
      else if storage_type db = LEVELDB then do {
        d \<leftarrow> db_leveldb db;
        let (status, d') = Ldb_Delete L d sync k;
        Some (case status of
                Status_OK \<Rightarrow> RET_OK
              | Status_NotFound \<Rightarrow> RET_ERR_KEY_NOT_EXIST
              | Status_Other \<Rightarrow> RET_ERR_LEVELDB, db\<lparr>db_leveldb := Some d'\<rparr>) }
      else Some (RET_ERR_NO_IMPL, db))"

definition LockDb_Sync :: "'d LevelDB \<Rightarrow> 'd LockDb \<Rightarrow> (RetCode \<times> 'd LockDb) option" where
  "LockDb_Sync L db =
     (if storage_type db = MAP then Some (RET_OK, db)
      else if storage_type db = LEVELDB then do {
        d \<leftarrow> db_leveldb db;
        let (status, d') = Ldb_Put L d True KEY_IGNORE_SYNC_TRIGGER '''';
        Some (if status = Status_OK then RET_OK else RET_ERR_LEVELDB, db\<lparr>db_leveldb := Some d'\<rparr>) }
      else Some (RET_ERR_NO_IMPL, db))"

subsection \<open>Records\<close>

definition GetRecord :: "'d LevelDB \<Rightarrow> 'd LockDb \<Rightarrow> string \<Rightarrow> (RetCode + LocalRecordInfo) option" where
  "GetRecord L db k =
     (if k = [] then Some (Inl RET_ERR_KEY)
      else if storage_type db = MAP then
        Some (case map_of (db_map db) k of None \<Rightarrow> Inl RET_ERR_KEY_NOT_EXIST | Some v \<Rightarrow> Inr v)
      else if storage_type db = LEVELDB then do {
        r \<leftarrow> DiskGet L db k;
        Some (case r of
                Inl ret \<Rightarrow> Inl ret
              | Inr vstr \<Rightarrow>
                  (case ParseRecord L vstr of None \<Rightarrow> Inl RET_ERR_PROTOBUF_PARSE | Some v \<Rightarrow> Inr v)) }
      else Some (Inl RET_ERR_NO_IMPL))"

definition SetRecord ::
  "'d LevelDB \<Rightarrow> 'd LockDb \<Rightarrow> string \<Rightarrow> LocalRecordInfo \<Rightarrow> bool \<Rightarrow> (RetCode \<times> 'd LockDb) option" where
  "SetRecord L db k v sync =
     (if k = [] then Some (RET_ERR_KEY, db)
      else if storage_type db = MAP then Some (RET_OK, db\<lparr>db_map := map_assign k v (db_map db)\<rparr>)
      else if storage_type db = LEVELDB then
        (case SerializeRecord L (v\<lparr>lr_expire_time_ms := 0\<rparr>) of
           None \<Rightarrow> Some (RET_ERR_PROTOBUF_SERIALIZE, db)
         | Some vstr \<Rightarrow> DiskSet L db k vstr sync)
      else Some (RET_ERR_NO_IMPL, db))"

definition DeleteRecord :: "'d LevelDB \<Rightarrow> 'd LockDb \<Rightarrow> string \<Rightarrow> bool \<Rightarrow> (RetCode \<times> 'd LockDb) option" where
  "DeleteRecord L db k sync =
     (if k = [] then Some (RET_ERR_KEY, db)
      else if storage_type db = MAP then Some (RET_OK, db\<lparr>db_map := map_erase k (db_map db)\<rparr>)
      else if storage_type db = LEVELDB then DiskDelete L db k sync
      else Some (RET_ERR_NO_IMPL, db))"

subsection \<open>Strings and locks\<close>

definition GetString :: "'d LevelDB \<Rightarrow> 'd LockDb \<Rightarrow> string \<Rightarrow> (RetCode + LocalRecordInfo) option" where
  "GetString L db k =
     (if k = [] then Some (Inl RET_ERR_KEY) else GetRecord L db (KEY_USER_STRING_PREFIX @ k))"

definition SetString ::
  "'d LevelDB \<Rightarrow> 'd LockDb \<Rightarrow> string \<Rightarrow> LocalRecordInfo \<Rightarrow> bool \<Rightarrow> (RetCode \<times> 'd LockDb) option" where
  "SetString L db k v sync =
     (if k = [] then Some (RET_ERR_KEY, db) else SetRecord L db (KEY_USER_STRING_PREFIX @ k) v sync)"

definition DeleteString :: "'d LevelDB \<Rightarrow> 'd LockDb \<Rightarrow> string \<Rightarrow> bool \<Rightarrow> (RetCode \<times> 'd LockDb) option" where
  "DeleteString L db k sync =
     (if k = [] then Some (RET_ERR_KEY, db) else DeleteRecord L db (KEY_USER_STRING_PREFIX @ k) sync)"

definition GetLock :: "'d LevelDB \<Rightarrow> 'd LockDb \<Rightarrow> string \<Rightarrow> (RetCode + LocalRecordInfo) option" where
  "GetLock L db k =
     (if k = [] then Some (Inl RET_ERR_KEY) else GetRecord L db (KEY_USER_LOCK_PREFIX @ k))"

definition SetLock ::
  "'d LevelDB \<Rightarrow> 'd LockDb \<Rightarrow> string \<Rightarrow> LocalRecordInfo \<Rightarrow> bool \<Rightarrow> (RetCode \<times> 'd LockDb) option" where
  "SetLock L db k v sync =
     (if k = [] then Some (RET_ERR_KEY, db) else SetRecord L db (KEY_USER_LOCK_PREFIX @ k) v sync)"

definition DeleteLock :: "'d LevelDB \<Rightarrow> 'd LockDb \<Rightarrow> string \<Rightarrow> bool \<Rightarrow> (RetCode \<times> 'd LockDb) option" where
  "DeleteLock L db k sync =
     (if k = [] then Some (RET_ERR_KEY, db) else DeleteRecord L db (KEY_USER_LOCK_PREFIX @ k) sync)"

subsection \<open>The versioned updates\<close>

text \<open>
  \<open>now\<close> is what the clock reads when the expiry is set. A version of \<open>UINT64_MAX\<close> forces a
  string, but not a lock; a lease of \<open>-1\<close> never expires (its expiry is left at 0), a lease of 0
  deletes.
\<close>

definition leased :: "u64 \<Rightarrow> LocalRecordInfo \<Rightarrow> LocalRecordInfo" where
  "leased now v =
     (let v2 = \<lparr>lr_version = lr_version v, lr_value = lr_value v, lr_lease_time_ms = lr_lease_time_ms v,
                lr_expire_time_ms = 0\<rparr>
      in if lr_lease_time_ms v2 \<noteq> NoID then v2\<lparr>lr_expire_time_ms := now + lr_lease_time_ms v\<rparr> else v2)"

definition VersionSetString ::
  "'d LevelDB \<Rightarrow> u64 \<Rightarrow> 'd LockDb \<Rightarrow> RecordKeyInfo \<Rightarrow> LocalRecordInfo \<Rightarrow> bool
   \<Rightarrow> (RetCode \<times> 'd LockDb) option" where
  "VersionSetString L now db info v sync = do {
     r \<leftarrow> GetString L db (rk_key info);
     let update = (if lr_lease_time_ms v = 0 then DeleteString L db (rk_key info) sync
                   else SetString L db (rk_key info) (leased now v) sync);
     (case r of
        Inl ret \<Rightarrow> if ret = RET_ERR_KEY_NOT_EXIST then update else Some (ret, db)
      | Inr localv \<Rightarrow>
          if rk_version info \<noteq> NoID \<and> lr_version localv \<noteq> rk_version info
          then Some (RET_ERR_VERSION_NOT_EQUAL, db) else update) }"

definition VersionDeleteString ::
  "'d LevelDB \<Rightarrow> 'd LockDb \<Rightarrow> RecordKeyInfo \<Rightarrow> bool \<Rightarrow> (RetCode \<times> 'd LockDb) option" where
  "VersionDeleteString L db info sync = do {
     r \<leftarrow> GetString L db (rk_key info);
     (case r of
        Inl ret \<Rightarrow> if ret = RET_ERR_KEY_NOT_EXIST then Some (RET_OK, db) else Some (ret, db)
      | Inr localv \<Rightarrow>
          if rk_version info \<noteq> NoID \<and> lr_version localv \<noteq> rk_version info
          then Some (RET_ERR_VERSION_NOT_EQUAL, db) else DeleteString L db (rk_key info) sync) }"

definition LockDb_AcquireLock ::
  "'d LevelDB \<Rightarrow> u64 \<Rightarrow> 'd LockDb \<Rightarrow> RecordKeyInfo \<Rightarrow> LocalRecordInfo \<Rightarrow> bool
   \<Rightarrow> (RetCode \<times> 'd LockDb) option" where
  "LockDb_AcquireLock L now db info v sync = do {
     r \<leftarrow> GetLock L db (rk_key info);
     let update = (if lr_lease_time_ms v = 0 then DeleteLock L db (rk_key info) sync
                   else SetLock L db (rk_key info) (leased now v) sync);
     (case r of
        Inl ret \<Rightarrow> if ret = RET_ERR_KEY_NOT_EXIST then update else Some (ret, db)
      | Inr localv \<Rightarrow>
          if lr_version localv \<noteq> rk_version info
          then Some (RET_ERR_VERSION_NOT_EQUAL, db) else update) }"

definition LockDb_AcquireLock_vstr ::
  "'d LevelDB \<Rightarrow> u64 \<Rightarrow> 'd LockDb \<Rightarrow> RecordKeyInfo \<Rightarrow> string \<Rightarrow> bool \<Rightarrow> (RetCode \<times> 'd LockDb) option" where
  "LockDb_AcquireLock_vstr L now db info vstr sync =
     (if storage_type db = LEVELDB then
        (case ParseRecord L vstr of
           None \<Rightarrow> Some (RET_ERR_LOGIC, db)
         | Some v \<Rightarrow> LockDb_AcquireLock L now db info v sync)
      else Some (RET_ERR_NO_IMPL, db))"

subsection \<open>Iteration\<close>

text \<open>An iterator of either storage is the list of the entries that are left.\<close>

definition DiskSeekToFirst :: "'d LevelDB \<Rightarrow> 'd LockDb \<Rightarrow> 'd LockDb option" where
  "DiskSeekToFirst L db =
     (if storage_type db = LEVELDB then do {
        d \<leftarrow> db_leveldb db;
        Some (db\<lparr>db_leveldb_it := Some (Ldb_entries L d)\<rparr>) }
      else Some db)"

definition DiskNext :: "'d LockDb \<Rightarrow> 'd LockDb option" where
  "DiskNext db =
     (if storage_type db = LEVELDB then
        (case db_leveldb_it db of
           Some (_ # rest) \<Rightarrow> Some (db\<lparr>db_leveldb_it := Some rest\<rparr>)
         | _ \<Rightarrow> None)
      else Some db)"

definition DiskValid :: "'d LockDb \<Rightarrow> bool option" where
  "DiskValid db =
     (if storage_type db = LEVELDB then map_option (\<lambda>it. it \<noteq> []) (db_leveldb_it db) else Some False)"

definition DiskGetCurrent :: "'d LockDb \<Rightarrow> (RetCode + string \<times> string \<times> DataType) option" where
  "DiskGetCurrent db =
     (if storage_type db = LEVELDB then
        (case db_leveldb_it db of
           Some ((k, vstr) # _) \<Rightarrow>
             Some (Inr (k, vstr, if take (length KEY_IGNORE_PREFIX) k = KEY_IGNORE_PREFIX then IGNORE else USER))
         | _ \<Rightarrow> None)
      else Some (Inl RET_ERR_NO_IMPL))"

definition SeekToFirstRecord :: "'d LevelDB \<Rightarrow> 'd LockDb \<Rightarrow> 'd LockDb option" where
  "SeekToFirstRecord L db =
     (if storage_type db = MAP then Some (db\<lparr>db_map_it := db_map db\<rparr>)
      else if storage_type db = LEVELDB then DiskSeekToFirst L db
      else Some db)"

definition NextRecord :: "'d LockDb \<Rightarrow> 'd LockDb option" where
  "NextRecord db =
     (if storage_type db = MAP then
        (case db_map_it db of [] \<Rightarrow> None | _ # rest \<Rightarrow> Some (db\<lparr>db_map_it := rest\<rparr>))
      else if storage_type db = LEVELDB then DiskNext db
      else Some db)"

definition ValidRecord :: "'d LockDb \<Rightarrow> bool option" where
  "ValidRecord db =
     (if storage_type db = MAP then Some (db_map_it db \<noteq> [])
      else if storage_type db = LEVELDB then DiskValid db
      else Some False)"

definition GetCurrentRecord :: "'d LevelDB \<Rightarrow> 'd LockDb \<Rightarrow> (RetCode + string \<times> LocalRecordInfo) option" where
  "GetCurrentRecord L db =
     (if storage_type db = MAP then
        (case db_map_it db of [] \<Rightarrow> None | (k, v) # _ \<Rightarrow> Some (Inr (k, v)))
      else if storage_type db = LEVELDB then do {
        r \<leftarrow> DiskGetCurrent db;
        Some (case r of
                Inl ret \<Rightarrow> Inl ret
              | Inr (k, vstr, data_type) \<Rightarrow>
                  if data_type = IGNORE then Inl RET_KEY_IGNORE
                  else (case ParseRecord L vstr of None \<Rightarrow> Inl RET_ERR_LOGIC | Some v \<Rightarrow> Inr (k, v))) }
      else Some (Inl RET_ERR_NO_IMPL))"

definition GetSizeRecord :: "'d LockDb \<Rightarrow> int" where
  "GetSizeRecord db = (if storage_type db = MAP then int (length (db_map db)) else 0)"

definition ForwardLoopKey :: "'d LockDb \<Rightarrow> (RetCode + string) \<times> 'd LockDb" where
  "ForwardLoopKey db =
     (if storage_type db = MAP then
        (case db_map db of
           [] \<Rightarrow> (Inl RET_ERR_RANGE, db)
         | (first, _) # _ \<Rightarrow>
             (case map_of (db_map db) (prev_loop_key db) of
                None \<Rightarrow> (Inr first, db\<lparr>prev_loop_key := first\<rparr>)
              | Some _ \<Rightarrow>
                  (case upper_bound fst (prev_loop_key db) (db_map db) of
                     [] \<Rightarrow> (Inr first, db\<lparr>prev_loop_key := first\<rparr>)
                   | (next_key, _) # _ \<Rightarrow> (Inr next_key, db\<lparr>prev_loop_key := next_key\<rparr>))))
      else (Inl RET_ERR_NO_IMPL, db))"

subsection \<open>What the table promises\<close>

text \<open>
  The keys of users do not start with the reserved prefix. On them a storage is a partial map to
  records without expiry; \<open>cas_spec\<close> is the versioned update of such a map.
\<close>

definition user_key :: "string \<Rightarrow> bool" where
  "user_key k \<longleftrightarrow> take (length KEY_IGNORE_PREFIX) k \<noteq> KEY_IGNORE_PREFIX"

definition unexp :: "LocalRecordInfo \<Rightarrow> LocalRecordInfo" where
  "unexp v = v\<lparr>lr_expire_time_ms := 0\<rparr>"

definition map_view :: "'d LockDb \<Rightarrow> string \<rightharpoonup> LocalRecordInfo" where
  "map_view db k = (if user_key k then map_option unexp (map_of (db_map db) k) else None)"

definition disk_view :: "'d LevelDB \<Rightarrow> 'd LockDb \<Rightarrow> string \<rightharpoonup> LocalRecordInfo" where
  "disk_view L db k =
     (if user_key k then do {
        d \<leftarrow> db_leveldb db;
        vstr \<leftarrow> map_of (Ldb_entries L d) k;
        ParseRecord L vstr }
      else None)"

definition cas_spec ::
  "bool \<Rightarrow> (string \<rightharpoonup> LocalRecordInfo) \<Rightarrow> RecordKeyInfo \<Rightarrow> LocalRecordInfo
   \<Rightarrow> RetCode \<times> (string \<rightharpoonup> LocalRecordInfo)" where
  "cas_spec forced m info v =
     (if rk_key info = [] then (RET_ERR_KEY, m)
      else if (case m (rk_key info) of
                 None \<Rightarrow> True
               | Some l \<Rightarrow> forced \<and> rk_version info = NoID \<or> lr_version l = rk_version info)
      then (RET_OK, m(rk_key info := (if lr_lease_time_ms v = 0 then None else Some (unexp v))))
      else (RET_ERR_VERSION_NOT_EQUAL, m))"

text \<open>What leveldb and protobuf document, of calls that succeed; and that the calls succeed.\<close>

definition leveldb_laws :: "'d LevelDB \<Rightarrow> bool" where
  "leveldb_laws L \<longleftrightarrow>
     (\<forall>d. wf_map (Ldb_entries L d))
     \<and> (\<forall>d k v. Ldb_Get L d k = (Status_OK, v) \<longrightarrow> map_of (Ldb_entries L d) k = Some v)
     \<and> (\<forall>d k v. Ldb_Get L d k = (Status_NotFound, v) \<longrightarrow> map_of (Ldb_entries L d) k = None)
     \<and> (\<forall>d sync k v d'. Ldb_Put L d sync k v = (Status_OK, d')
          \<longrightarrow> map_of (Ldb_entries L d') = (map_of (Ldb_entries L d))(k \<mapsto> v))
     \<and> (\<forall>d sync k d'. Ldb_Delete L d sync k = (Status_OK, d')
          \<longrightarrow> map_of (Ldb_entries L d') = (map_of (Ldb_entries L d))(k := None))
     \<and> (\<forall>v s. SerializeRecord L v = Some s \<longrightarrow> ParseRecord L s = Some v)"

definition leveldb_up :: "'d LevelDB \<Rightarrow> bool" where
  "leveldb_up L \<longleftrightarrow>
     (\<forall>d k. fst (Ldb_Get L d k) \<noteq> Status_Other)
     \<and> (\<forall>d sync k v. fst (Ldb_Put L d sync k v) = Status_OK)
     \<and> (\<forall>d sync k. fst (Ldb_Delete L d sync k) = Status_OK)
     \<and> (\<forall>v. SerializeRecord L v \<noteq> None)"

definition map_inv :: "'d LockDb \<Rightarrow> bool" where
  "map_inv db \<longleftrightarrow> storage_type db = MAP \<and> wf_map (db_map db)"

definition disk_inv :: "'d LevelDB \<Rightarrow> 'd LockDb \<Rightarrow> bool" where
  "disk_inv L db \<longleftrightarrow> leveldb_laws L \<and> leveldb_up L \<and> storage_type db = LEVELDB
     \<and> (\<exists>d. db_leveldb db = Some d
          \<and> (\<forall>k vstr. user_key k \<longrightarrow> map_of (Ldb_entries L d) k = Some vstr
               \<longrightarrow> (\<exists>v. ParseRecord L vstr = Some v \<and> lr_expire_time_ms v = 0)))"

definition cas_op ::
  "'d LevelDB \<Rightarrow> bool \<Rightarrow> u64 \<Rightarrow> 'd LockDb \<Rightarrow> RecordKeyInfo \<Rightarrow> LocalRecordInfo \<Rightarrow> bool
   \<Rightarrow> (RetCode \<times> 'd LockDb) option" where
  "cas_op L forced = (if forced then VersionSetString L else LockDb_AcquireLock L)"

lemma leveldb_lawsD:
  assumes "leveldb_laws L"
  shows "wf_map (Ldb_entries L d)"
    "Ldb_Get L d k = (Status_OK, v) \<Longrightarrow> map_of (Ldb_entries L d) k = Some v"
    "Ldb_Get L d k = (Status_NotFound, v) \<Longrightarrow> map_of (Ldb_entries L d) k = None"
    "Ldb_Put L d sync k v = (Status_OK, d') \<Longrightarrow> map_of (Ldb_entries L d') = (map_of (Ldb_entries L d))(k \<mapsto> v)"
    "Ldb_Delete L d sync k = (Status_OK, d') \<Longrightarrow> map_of (Ldb_entries L d') = (map_of (Ldb_entries L d))(k := None)"
    "SerializeRecord L r = Some s \<Longrightarrow> ParseRecord L s = Some r"
  using assms unfolding leveldb_laws_def by blast+

lemma leveldb_upD:
  assumes "leveldb_up L"
  shows "fst (Ldb_Get L d k) \<noteq> Status_Other" "fst (Ldb_Put L d sync k v) = Status_OK"
    "fst (Ldb_Delete L d sync k) = Status_OK" "\<exists>s. SerializeRecord L r = Some s"
  using assms unfolding leveldb_up_def by auto

lemma unexp_leased [simp]: "unexp (leased now v) = unexp v"
  by (cases v) (simp add: leased_def unexp_def Let_def)

lemma unexp_simps [simp]:
  "lr_version (unexp v) = lr_version v" "lr_value (unexp v) = lr_value v"
  "lr_lease_time_ms (unexp v) = lr_lease_time_ms v" "lr_expire_time_ms (unexp v) = 0"
  "unexp (unexp v) = unexp v"
  by (simp_all add: unexp_def)

lemma unexp_id: "lr_expire_time_ms v = 0 \<Longrightarrow> unexp v = v"
  by (simp add: unexp_def)

text \<open>The two updates are one, up to the version that forces; both prefixes are empty.\<close>

lemma cas_op_unfold:
  "cas_op L forced now db info v sync =
     (if rk_key info = [] then Some (RET_ERR_KEY, db)
      else do {
        r \<leftarrow> GetRecord L db (rk_key info);
        let update = (if lr_lease_time_ms v = 0 then DeleteRecord L db (rk_key info) sync
                      else SetRecord L db (rk_key info) (leased now v) sync);
        (case r of
           Inl ret \<Rightarrow> if ret = RET_ERR_KEY_NOT_EXIST then update else Some (ret, db)
         | Inr localv \<Rightarrow>
             if forced \<and> rk_version info = NoID \<or> lr_version localv = rk_version info then update
             else Some (RET_ERR_VERSION_NOT_EQUAL, db)) })"
  by (cases "GetRecord L db (rk_key info)")
    (auto simp: cas_op_def VersionSetString_def LockDb_AcquireLock_def GetString_def GetLock_def
      SetString_def SetLock_def DeleteString_def DeleteLock_def KEY_USER_STRING_PREFIX_def
      KEY_USER_LOCK_PREFIX_def Let_def split: sum.splits)

subsection \<open>Both storages keep the promise\<close>

lemma map_record:
  assumes "map_inv db" and k: "k \<noteq> []"
  shows "GetRecord L db k = Some (case map_of (db_map db) k of None \<Rightarrow> Inl RET_ERR_KEY_NOT_EXIST | Some v \<Rightarrow> Inr v)"
    "\<exists>db'. SetRecord L db k v sync = Some (RET_OK, db') \<and> map_inv db'
       \<and> (user_key k \<longrightarrow> map_view db' = (map_view db)(k \<mapsto> unexp v))"
    "\<exists>db'. DeleteRecord L db k sync = Some (RET_OK, db') \<and> map_inv db'
       \<and> (user_key k \<longrightarrow> map_view db' = (map_view db)(k := None))"
  using assms
  by (auto simp: map_inv_def GetRecord_def SetRecord_def DeleteRecord_def map_view_def fun_eq_iff
      map_of_assign map_of_erase intro: wf_intros)

lemma map_cas:
  assumes inv: "map_inv db" and u: "user_key (rk_key info)"
  shows "\<exists>r db'. cas_op L forced now db info v sync = Some (r, db') \<and> map_inv db'
     \<and> (r, map_view db') = cas_spec forced (map_view db) info v"
proof (cases "rk_key info = []")
  case True
  then show ?thesis using inv by (simp add: cas_op_unfold cas_spec_def)
next
  case False
  obtain s where s: "SetRecord L db (rk_key info) (leased now v) sync = Some (RET_OK, s)" "map_inv s"
    "map_view s = (map_view db)(rk_key info \<mapsto> unexp v)"
    using map_record(2)[OF inv False, of L "leased now v" sync] u by auto
  obtain t where t: "DeleteRecord L db (rk_key info) sync = Some (RET_OK, t)" "map_inv t"
    "map_view t = (map_view db)(rk_key info := None)"
    using map_record(3)[OF inv False, of L sync] u by auto
  show ?thesis
    using u inv
    by (cases "map_of (db_map db) (rk_key info)")
      (simp_all add: cas_op_unfold cas_spec_def map_record(1)[OF inv] False s t map_view_def[of db "rk_key info"])
qed

definition disk_open :: "'d LevelDB \<Rightarrow> 'd LockDb \<Rightarrow> 'd \<Rightarrow> bool" where
  "disk_open L db d \<longleftrightarrow> leveldb_laws L \<and> leveldb_up L \<and> storage_type db = LEVELDB \<and> db_leveldb db = Some d"

lemma disk_calls:
  assumes op: "disk_open L db d" and k: "k \<noteq> []"
  shows "DiskGet L db k = Some (case map_of (Ldb_entries L d) k of None \<Rightarrow> Inl RET_ERR_KEY_NOT_EXIST | Some v \<Rightarrow> Inr v)"
    "\<exists>d'. DiskSet L db k v sync = Some (RET_OK, db\<lparr>db_leveldb := Some d'\<rparr>) \<and> disk_open L (db\<lparr>db_leveldb := Some d'\<rparr>) d'
       \<and> map_of (Ldb_entries L d') = (map_of (Ldb_entries L d))(k \<mapsto> v)"
    "\<exists>d'. DiskDelete L db k sync = Some (RET_OK, db\<lparr>db_leveldb := Some d'\<rparr>) \<and> disk_open L (db\<lparr>db_leveldb := Some d'\<rparr>) d'
       \<and> map_of (Ldb_entries L d') = (map_of (Ldb_entries L d))(k := None)"
proof -
  have st: "storage_type db = LEVELDB" "db_leveldb db = Some d" and lu: "leveldb_laws L" "leveldb_up L"
    using op by (simp_all add: disk_open_def)
  note laws = leveldb_lawsD[OF lu(1)] and up = leveldb_upD[OF lu(2)]
  obtain status gv where g: "Ldb_Get L d k = (status, gv)" by (cases "Ldb_Get L d k")
  then show "DiskGet L db k = Some (case map_of (Ldb_entries L d) k of None \<Rightarrow> Inl RET_ERR_KEY_NOT_EXIST | Some v \<Rightarrow> Inr v)"
    using st k laws(2)[of d k gv] laws(3)[of d k gv] up(1)[of d k]
    by (cases status) (simp_all add: DiskGet_def)
  obtain d1 where p: "Ldb_Put L d sync k v = (Status_OK, d1)"
    using up(2)[of d sync k v] by (cases "Ldb_Put L d sync k v") auto
  then show "\<exists>d'. DiskSet L db k v sync = Some (RET_OK, db\<lparr>db_leveldb := Some d'\<rparr>)
      \<and> disk_open L (db\<lparr>db_leveldb := Some d'\<rparr>) d'
      \<and> map_of (Ldb_entries L d') = (map_of (Ldb_entries L d))(k \<mapsto> v)"
    using st k lu laws(4)[OF p] by (intro exI[of _ d1]) (simp add: DiskSet_def disk_open_def)
  obtain d2 where q: "Ldb_Delete L d sync k = (Status_OK, d2)"
    using up(3)[of d sync k] by (cases "Ldb_Delete L d sync k") auto
  then show "\<exists>d'. DiskDelete L db k sync = Some (RET_OK, db\<lparr>db_leveldb := Some d'\<rparr>)
      \<and> disk_open L (db\<lparr>db_leveldb := Some d'\<rparr>) d'
      \<and> map_of (Ldb_entries L d') = (map_of (Ldb_entries L d))(k := None)"
    using st k lu laws(5)[OF q] by (intro exI[of _ d2]) (simp add: DiskDelete_def disk_open_def)
qed

lemma disk_record:
  assumes inv: "disk_inv L db" and k: "k \<noteq> []" "user_key k"
  shows "GetRecord L db k = Some (case disk_view L db k of None \<Rightarrow> Inl RET_ERR_KEY_NOT_EXIST | Some v \<Rightarrow> Inr v)"
    "\<exists>db'. SetRecord L db k v sync = Some (RET_OK, db') \<and> disk_inv L db'
       \<and> disk_view L db' = (disk_view L db)(k \<mapsto> unexp v)"
    "\<exists>db'. DeleteRecord L db k sync = Some (RET_OK, db') \<and> disk_inv L db'
       \<and> disk_view L db' = (disk_view L db)(k := None)"
proof -
  obtain d where op: "disk_open L db d"
    and parse: "\<And>k vstr. user_key k \<Longrightarrow> map_of (Ldb_entries L d) k = Some vstr
               \<Longrightarrow> \<exists>v. ParseRecord L vstr = Some v \<and> lr_expire_time_ms v = 0"
    using inv unfolding disk_inv_def disk_open_def by blast
  have st: "storage_type db = LEVELDB" "db_leveldb db = Some d" and lu: "leveldb_laws L" "leveldb_up L"
    using op by (simp_all add: disk_open_def)
  have view: "disk_view L db = (\<lambda>k. if user_key k then map_of (Ldb_entries L d) k \<bind> ParseRecord L else None)"
    by (simp add: disk_view_def st fun_eq_iff)
  show "GetRecord L db k = Some (case disk_view L db k of None \<Rightarrow> Inl RET_ERR_KEY_NOT_EXIST | Some v \<Rightarrow> Inr v)"
    using parse[OF k(2)] k st
    by (cases "map_of (Ldb_entries L d) k") (auto simp: GetRecord_def disk_calls(1)[OF op k(1)] view)
  obtain s where s: "SerializeRecord L (unexp v) = Some s" using leveldb_upD(4)[OF lu(2)] by blast
  note ps = leveldb_lawsD(6)[OF lu(1) s]
  obtain d' where d': "DiskSet L db k s sync = Some (RET_OK, db\<lparr>db_leveldb := Some d'\<rparr>)"
    "map_of (Ldb_entries L d') = (map_of (Ldb_entries L d))(k \<mapsto> s)"
    using disk_calls(2)[OF op k(1), of s sync] by blast
  show "\<exists>db'. SetRecord L db k v sync = Some (RET_OK, db') \<and> disk_inv L db'
       \<and> disk_view L db' = (disk_view L db)(k \<mapsto> unexp v)"
  proof (intro exI conjI)
    show "SetRecord L db k v sync = Some (RET_OK, db\<lparr>db_leveldb := Some d'\<rparr>)"
      using k st d' s by (simp add: SetRecord_def unexp_def)
    show "disk_inv L (db\<lparr>db_leveldb := Some d'\<rparr>)" using lu st d' ps parse by (auto simp: disk_inv_def)
    show "disk_view L (db\<lparr>db_leveldb := Some d'\<rparr>) = (disk_view L db)(k \<mapsto> unexp v)"
      using d' ps k by (auto simp: view disk_view_def fun_eq_iff)
  qed
  obtain d2 where d2: "DiskDelete L db k sync = Some (RET_OK, db\<lparr>db_leveldb := Some d2\<rparr>)"
    "map_of (Ldb_entries L d2) = (map_of (Ldb_entries L d))(k := None)"
    using disk_calls(3)[OF op k(1), of sync] by blast
  show "\<exists>db'. DeleteRecord L db k sync = Some (RET_OK, db') \<and> disk_inv L db'
       \<and> disk_view L db' = (disk_view L db)(k := None)"
  proof (intro exI conjI)
    show "DeleteRecord L db k sync = Some (RET_OK, db\<lparr>db_leveldb := Some d2\<rparr>)"
      using k st d2 by (simp add: DeleteRecord_def)
    show "disk_inv L (db\<lparr>db_leveldb := Some d2\<rparr>)" using lu st d2 parse by (auto simp: disk_inv_def)
    show "disk_view L (db\<lparr>db_leveldb := Some d2\<rparr>) = (disk_view L db)(k := None)"
      using d2 by (auto simp: view disk_view_def fun_eq_iff)
  qed
qed

lemma disk_cas:
  assumes inv: "disk_inv L db" and u: "user_key (rk_key info)"
  shows "\<exists>r db'. cas_op L forced now db info v sync = Some (r, db') \<and> disk_inv L db'
     \<and> (r, disk_view L db') = cas_spec forced (disk_view L db) info v"
proof (cases "rk_key info = []")
  case True
  then show ?thesis using inv by (simp add: cas_op_unfold cas_spec_def)
next
  case False
  obtain s where s: "SetRecord L db (rk_key info) (leased now v) sync = Some (RET_OK, s)" "disk_inv L s"
    "disk_view L s = (disk_view L db)(rk_key info \<mapsto> unexp v)"
    using disk_record(2)[OF inv False u, of "leased now v" sync] by auto
  obtain t where t: "DeleteRecord L db (rk_key info) sync = Some (RET_OK, t)" "disk_inv L t"
    "disk_view L t = (disk_view L db)(rk_key info := None)"
    using disk_record(3)[OF inv False u, of sync] by auto
  show ?thesis
    using u inv
    by (cases "disk_view L db (rk_key info)")
      (simp_all add: cas_op_unfold cas_spec_def disk_record(1)[OF inv False u] False s t)
qed

subsection \<open>The versioned store\<close>

text \<open>
  What the lock service needs of a storage: the versioned update, forced or not, does to the view
  of the storage what \<open>cas_spec\<close> says. Both storages of \<open>LockDb\<close> are instances.
\<close>

locale cas_store =
  fixes inv :: "'s \<Rightarrow> bool"
    and look :: "'s \<Rightarrow> string \<rightharpoonup> LocalRecordInfo"
    and cas :: "bool \<Rightarrow> u64 \<Rightarrow> 's \<Rightarrow> RecordKeyInfo \<Rightarrow> LocalRecordInfo \<Rightarrow> bool \<Rightarrow> (RetCode \<times> 's) option"
  assumes refines: "inv s \<Longrightarrow> user_key (rk_key info) \<Longrightarrow>
    \<exists>r s'. cas forced now s info v sync = Some (r, s') \<and> inv s' \<and> (r, look s') = cas_spec forced (look s) info v"
begin

lemma step:
  assumes "inv s" "user_key (rk_key info)" "cas forced now s info v sync = Some (r, s')"
  shows "inv s'" "(r, look s') = cas_spec forced (look s) info v"
  using refines[OF assms(1,2), of forced now v sync] assms(3) by auto

lemma frame:
  assumes "inv s" "user_key (rk_key info)" "cas forced now s info v sync = Some (r, s')" and "k \<noteq> rk_key info"
  shows "look s' k = look s k"
  using step(2)[OF assms(1-3)] assms(4) by (auto simp: cas_spec_def split: if_splits)

lemma displaced:
  assumes "inv s" "user_key (rk_key info)" "cas forced now s info v sync = Some (r, s')"
    and "look s k = Some l" "look s' k \<noteq> Some l"
  shows "r = RET_OK \<and> rk_key info = k
    \<and> (rk_version info = lr_version l \<or> forced \<and> rk_version info = NoID)"
proof -
  have "rk_key info = k" using frame[OF assms(1-3), of k] assms(4,5) by auto
  then show ?thesis
    using step(2)[OF assms(1-3)] assms(4,5) by (auto simp: cas_spec_def split: if_splits)
qed

end

interpretation map_store: cas_store map_inv map_view "cas_op L" for L :: "'d LevelDB"
  by unfold_locales (rule map_cas)

interpretation disk_store: cas_store "disk_inv L" "disk_view L" "cas_op L" for L :: "'d LevelDB"
  by unfold_locales (rule disk_cas)

subsection \<open>The clean thread's walk over the keys\<close>

fun loop_keys :: "nat \<Rightarrow> 'd LockDb \<Rightarrow> (RetCode + string) list" where
  "loop_keys 0 db = []"
| "loop_keys (Suc n) db = (let (r, db') = ForwardLoopKey db in r # loop_keys n db')"

lemma upper_bound_at:
  assumes "wf_map m" and "i < length m"
  shows "upper_bound fst (fst (m ! i)) m = drop (Suc i) m"
  using assms
proof (induction m arbitrary: i)
  case (Cons p m)
  show ?case
  proof (cases i)
    case 0
    with Cons.prems show ?thesis by (auto simp: upper_bound_filter filter_id_conv)
  next
    case (Suc j)
    with Cons.prems have "m ! j \<in> set m" by simp
    then have "fst p < fst (m ! j)" using Cons.prems(1) by (cases p) auto
    with Cons Suc show ?thesis by (simp add: upper_bound_def less_imp_le)
  qed
qed simp

lemma ForwardLoopKey_step:
  assumes inv: "map_inv db" and i: "i < length (db_map db)" and prev: "prev_loop_key db = fst (db_map db ! i)"
  shows "ForwardLoopKey db =
    (let k = fst (db_map db ! (Suc i mod length (db_map db))) in (Inr k, db\<lparr>prev_loop_key := k\<rparr>))"
proof -
  have wf: "storage_type db = MAP" "wf_map (db_map db)" using inv by (simp_all add: map_inv_def)
  have "map_of (db_map db) (prev_loop_key db) \<noteq> None"
    using i prev by (auto simp: map_of_eq_None_iff)
  moreover note ub = upper_bound_at[OF wf(2) i, folded prev]
  moreover obtain p m where m: "db_map db = p # m" using i by (cases "db_map db") auto
  ultimately show ?thesis
  proof (cases "Suc i = length (db_map db)")
    case True
    with \<open>map_of _ _ \<noteq> None\<close> ub m wf show ?thesis
      by (cases p) (auto simp: ForwardLoopKey_def Let_def split: list.splits)
  next
    case False
    then have "drop (Suc i) (db_map db) = db_map db ! Suc i # drop (Suc (Suc i)) (db_map db)"
      using i by (simp add: Cons_nth_drop_Suc)
    with \<open>map_of _ _ \<noteq> None\<close> ub m wf i False show ?thesis
      by (cases p; cases "db_map db ! Suc i") (auto simp: ForwardLoopKey_def Let_def split: list.splits)
  qed
qed

lemma upt_0_Suc: "[0..<Suc n] = 0 # map Suc [0..<n]"
  by (simp add: upt_conv_Cons map_Suc_upt del: upt_Suc)

lemma loop_keys_from:
  assumes "map_inv db" "i < length (db_map db)" "prev_loop_key db = fst (db_map db ! i)"
  shows "loop_keys n db =
    map (\<lambda>j. Inr (fst (db_map db ! ((Suc i + j) mod length (db_map db))))) [0..<n]"
  using assms
proof (induction n arbitrary: db i)
  case (Suc n)
  let ?i = "Suc i mod length (db_map db)"
  let ?db = "db\<lparr>prev_loop_key := fst (db_map db ! ?i)\<rparr>"
  have i: "?i < length (db_map db)" using Suc.prems(2) by (intro mod_less_divisor) linarith
  have "loop_keys n ?db = map (\<lambda>j. Inr (fst (db_map db ! ((Suc ?i + j) mod length (db_map db))))) [0..<n]"
    using Suc.IH[of ?db ?i] Suc.prems(1) i by (simp add: map_inv_def)
  moreover have "(Suc ?i + j) mod length (db_map db) = (Suc i + Suc j) mod length (db_map db)" for j
    by (metis add_Suc add_Suc_right mod_add_left_eq mod_Suc_eq)
  ultimately show ?case
    by (simp add: ForwardLoopKey_step[OF Suc.prems] Let_def comp_def upt_0_Suc del: upt_Suc)
qed simp

text \<open>As many steps of the walk as the map has keys visit every key exactly once, wherever the
  walk stands, also when the key it stood at is gone.\<close>

theorem ForwardLoopKey_visits_all:
  assumes inv: "map_inv db"
  shows "\<exists>i. loop_keys (length (db_map db)) db = rotate i (map (\<lambda>p. Inr (fst p)) (db_map db))"
proof (cases "db_map db = []")
  case False
  let ?n = "length (db_map db)"
  have rot: "map (\<lambda>j. Inr (fst (db_map db ! ((s + j) mod ?n)))) [0..<?n] =
      rotate s (map (\<lambda>p. Inr (fst p)) (db_map db) :: (RetCode + string) list)" for s
    by (rule nth_equalityI) (use False in \<open>simp_all add: nth_rotate\<close>)
  show ?thesis
  proof (cases "prev_loop_key db \<in> fst ` set (db_map db)")
    case True
    then obtain i where "i < ?n" "prev_loop_key db = fst (db_map db ! i)"
      by (auto simp: in_set_conv_nth)
    from loop_keys_from[OF inv this]
    have "loop_keys ?n db = rotate (Suc i) (map (\<lambda>p. Inr (fst p)) (db_map db))"
      using rot[of "Suc i"] by simp
    then show ?thesis by (rule exI)
  next
    case absent: False
    obtain p m where m: "db_map db = p # m" using False by (cases "db_map db") auto
    let ?db = "db\<lparr>prev_loop_key := fst p\<rparr>"
    have "map_of (db_map db) (prev_loop_key db) = None" using absent by (simp add: map_of_eq_None_iff)
    then have fwd: "ForwardLoopKey db = (Inr (fst p), ?db)"
      using inv m by (cases p) (simp add: ForwardLoopKey_def map_inv_def)
    have "loop_keys ?n db = map (\<lambda>j. Inr (fst (db_map db ! ((0 + j) mod ?n)))) [0..<?n]"
      using loop_keys_from[of ?db 0 "length m"] inv m fwd
      by (simp add: map_inv_def upt_0_Suc comp_def del: upt_Suc)
    then have "loop_keys ?n db = rotate 0 (map (\<lambda>p. Inr (fst p)) (db_map db))"
      using rot[of 0] by simp
    then show ?thesis by (rule exI)
  qed
qed simp

definition sample_map_db :: "nat LockDb" where
  "sample_map_db = LockDb_init\<lparr>storage_type := MAP,
     db_map := [(''a'', LocalRecordInfo_default), (''b'', LocalRecordInfo_default), (''c'', LocalRecordInfo_default)],
     prev_loop_key := ''b''\<rparr>"

theorem ForwardLoopKey_visits_all_witness:
  "\<exists>i. loop_keys 3 sample_map_db = rotate i (map (\<lambda>p. Inr (fst p)) (db_map sample_map_db))"
proof -
  have "map_inv sample_map_db" by (simp add: map_inv_def sample_map_db_def less_char_def)
  from ForwardLoopKey_visits_all[OF this]
  have "\<exists>i. loop_keys (length (db_map sample_map_db)) sample_map_db =
      rotate i (map (\<lambda>p. Inr (fst p)) (db_map sample_map_db))" .
  moreover have "length (db_map sample_map_db) = 3" by (simp add: sample_map_db_def)
  ultimately show ?thesis by (simp only:)
qed

end
