(* ===== verification/LockMgr.thy ===== *)
theory LockMgr
  imports LockDb ServiceConfig
begin

section \<open>LockMgr (lock/lockmgr.h, lockmgr.cpp, lockoption.h)\<close>

text \<open>
  Each paxos group of a lock keeps two copies of its table: the map that requests read, and the
  leveldb mirror that survives a restart, with the checkpoint of the instance the mirror is known
  to hold. The group records are the state of the lock service; the operations that work on one
  group take and return that group. \<^const>\<open>None\<close> is undefined behaviour or a failed \<open>assert\<close>.
\<close>

record LockOption =
  lo_topic :: string
  lo_data_dir_path :: string
  lo_ip :: string
  lo_port :: int
  lo_paxos_port :: int
  nr_group :: int
  nr_paxos_io_thread :: int
  clean_interval_s :: int
  idle_write_checkpoint_interval_s :: int
  max_clean_lock_num :: int
  checkpoint_interval :: int
  no_leveldb :: bool
  no_clean_thread :: bool

definition LockOption_default :: LockOption where
  "LockOption_default = \<lparr>lo_topic = [], lo_data_dir_path = [], lo_ip = [], lo_port = 0,
     lo_paxos_port = 0, nr_group = 100, nr_paxos_io_thread = 3, clean_interval_s = 1,
     idle_write_checkpoint_interval_s = 60, max_clean_lock_num = 100, checkpoint_interval = 100,
     no_leveldb = False, no_clean_thread = False\<rparr>"

record 'd GroupData =
  gd_map :: "'d LockDb"
  gd_leveldb :: "'d LockDb"
  last_instance_id :: u64
  memory_checkpoint :: u64
  disk_checkpoint :: u64

abbreviation NoCheckpoint :: u64 where
  "NoCheckpoint \<equiv> - 1"

definition GroupData_new :: "'d GroupData" where
  "GroupData_new = \<lparr>gd_map = LockDb_init, gd_leveldb = LockDb_init, last_instance_id = NoCheckpoint,
     memory_checkpoint = NoCheckpoint, disk_checkpoint = NoCheckpoint\<rparr>"

subsection \<open>The checkpoints in the mirror\<close>

definition KEY_IGNORE_CHECKPOINT :: string where
  "KEY_IGNORE_CHECKPOINT = ''__ignore__:__checkpoint__''"

definition KEY_IGNORE_RESTART_CHECKPOINT :: string where
  "KEY_IGNORE_RESTART_CHECKPOINT = ''__ignore__:__restart_checkpoint__''"

definition KEY_IGNORE_CHECKPOINT_DEPRECATED :: string where
  "KEY_IGNORE_CHECKPOINT_DEPRECATED = ''__ignore__.__checkpoint__''"

definition KEY_IGNORE_RESTART_CHECKPOINT_DEPRECATED :: string where
  "KEY_IGNORE_RESTART_CHECKPOINT_DEPRECATED = ''__ignore__.__restart_checkpoint__''"

text \<open>Both checkpoints fall back to a key of an older version.\<close>

definition read_checkpoint :: "'d LevelDB \<Rightarrow> 'd LockDb \<Rightarrow> string \<Rightarrow> string \<Rightarrow> (RetCode \<times> u64) option" where
  "read_checkpoint L ldb key deprecated = do {
     r \<leftarrow> DiskGet L ldb key;
     (case r of
        Inr vstr \<Rightarrow> Some (RET_OK, strtoul vstr)
      | Inl ret \<Rightarrow>
          if ret = RET_ERR_KEY_NOT_EXIST then do {
            r \<leftarrow> DiskGet L ldb deprecated;
            Some (case r of Inr vstr \<Rightarrow> (RET_OK, strtoul vstr) | Inl ret \<Rightarrow> (ret, NoCheckpoint)) }
          else Some (ret, NoCheckpoint)) }"

definition ReadDiskCheckpoint :: "'d LevelDB \<Rightarrow> 'd GroupData \<Rightarrow> (RetCode \<times> u64 \<times> 'd GroupData) option" where
  "ReadDiskCheckpoint L g = do {
     (ret, cp) \<leftarrow> read_checkpoint L (gd_leveldb g) KEY_IGNORE_CHECKPOINT KEY_IGNORE_CHECKPOINT_DEPRECATED;
     Some (ret, cp, g\<lparr>disk_checkpoint := cp, memory_checkpoint := cp\<rparr>) }"

definition WriteDiskCheckpoint :: "'d LevelDB \<Rightarrow> 'd GroupData \<Rightarrow> u64 \<Rightarrow> (RetCode \<times> 'd GroupData) option" where
  "WriteDiskCheckpoint L g cp =
     (if cp = NoCheckpoint then Some (RET_OK, g)
      else do {
        (ret, ldb) \<leftarrow> DiskSet L (gd_leveldb g) KEY_IGNORE_CHECKPOINT (to_string (unat cp)) True;
        let g = g\<lparr>gd_leveldb := ldb\<rparr>;
        Some (if ret = RET_OK then (RET_OK, g\<lparr>disk_checkpoint := cp, memory_checkpoint := cp\<rparr>)
              else (ret, g)) })"

definition ReadRestartCheckpoint :: "'d LevelDB \<Rightarrow> 'd GroupData \<Rightarrow> (RetCode \<times> u64) option" where
  "ReadRestartCheckpoint L g =
     read_checkpoint L (gd_leveldb g) KEY_IGNORE_RESTART_CHECKPOINT KEY_IGNORE_RESTART_CHECKPOINT_DEPRECATED"

definition WriteRestartCheckpoint :: "'d LevelDB \<Rightarrow> 'd GroupData \<Rightarrow> u64 \<Rightarrow> (RetCode \<times> 'd GroupData) option" where
  "WriteRestartCheckpoint L g cp =
     (if cp = NoCheckpoint then Some (RET_OK, g)
      else do {
        (ret, ldb) \<leftarrow> DiskSet L (gd_leveldb g) KEY_IGNORE_RESTART_CHECKPOINT (to_string (unat cp)) True;
        Some (ret, g\<lparr>gd_leveldb := ldb\<rparr>) })"

subsection \<open>Init and Dispose\<close>

text \<open>
  The loop that recovers the map walks the mirror with \<open>DiskValid\<close>, \<open>DiskGetCurrent\<close> and
  \<open>DiskNext\<close>; \<open>clock k\<close> is what the clock reads when key \<open>k\<close> is recovered. A record whose lease is
  \<open>-1\<close> gets an expiry one millisecond in the past here, unlike in \<open>AcquireLock\<close>.
\<close>

definition recovered :: "u64 \<Rightarrow> LocalRecordInfo \<Rightarrow> LocalRecordInfo" where
  "recovered now v = v\<lparr>lr_expire_time_ms := now + lr_lease_time_ms v\<rparr>"

definition recover_step ::
  "'d LevelDB \<Rightarrow> (string \<Rightarrow> u64) \<Rightarrow> 'd LockDb \<Rightarrow> 'd LockDb \<Rightarrow> 'd LockDb option" where
  "recover_step L clock ldb m = do {
     r \<leftarrow> DiskGetCurrent ldb;
     (case r of
        Inl _ \<Rightarrow> None
      | Inr (key, value, data_type) \<Rightarrow>
          if data_type \<noteq> IGNORE then do {
            v \<leftarrow> ParseRecord L value;
            (_, m) \<leftarrow> SetRecord L m key (recovered (clock key) v) True;
            Some m }
          else Some m) }"

function recover_map ::
  "'d LevelDB \<Rightarrow> (string \<Rightarrow> u64) \<Rightarrow> 'd LockDb \<Rightarrow> 'd LockDb \<Rightarrow> ('d LockDb \<times> 'd LockDb) option" where
  "recover_map L clock ldb m =
     (case DiskValid ldb of
        None \<Rightarrow> None
      | Some False \<Rightarrow> Some (ldb, m)
      | Some True \<Rightarrow>
          (case recover_step L clock ldb m of
             None \<Rightarrow> None
           | Some m' \<Rightarrow>
               (case DiskNext ldb of None \<Rightarrow> None | Some ldb' \<Rightarrow> recover_map L clock ldb' m')))"
  by pat_completeness auto

termination
proof (relation "measure (\<lambda>(L, clock, ldb, m). length (the (db_leveldb_it ldb)))", goal_cases)
  case (2 L clock ldb m valid m' ldb')
  then show ?case by (auto simp: DiskNext_def DiskValid_def split: if_splits option.splits list.splits)
qed simp

definition init_group :: "'d LevelDB \<Rightarrow> (string \<Rightarrow> u64) \<Rightarrow> string \<Rightarrow> 'd GroupData option" where
  "init_group L clock group_directory =
     (let g = GroupData_new;
          (ret, ldb) = LockDb_Init L LEVELDB group_directory (gd_leveldb g) in
      if ret \<noteq> RET_OK then None
      else
        let (ret, m) = LockDb_Init L MAP [] (gd_map g) in
        if ret \<noteq> RET_OK then None
        else do {
          ldb \<leftarrow> DiskSeekToFirst L ldb;
          (ldb, m) \<leftarrow> recover_map L clock ldb m;
          let g = g\<lparr>gd_leveldb := ldb, gd_map := m\<rparr>;
          (ret, cp, g) \<leftarrow> ReadDiskCheckpoint L g;
          if ret \<noteq> RET_ERR_KEY_NOT_EXIST \<and> ret \<noteq> RET_OK then None
          else do {
            (_, restart_cp) \<leftarrow> ReadRestartCheckpoint L g;
            (_, g) \<leftarrow> (if restart_cp \<noteq> NoCheckpoint \<and> (cp = NoCheckpoint \<or> cp < restart_cp)
                      then WriteDiskCheckpoint L g restart_cp
                      else Some (RET_OK, g));
            Some (g\<lparr>last_instance_id := disk_checkpoint g\<rparr>) } })"

definition LockMgr_Init ::
  "'d LevelDB \<Rightarrow> (string \<Rightarrow> u64) \<Rightarrow> LockOption \<Rightarrow> string \<Rightarrow> (RetCode \<times> 'd GroupData list) option" where
  "LockMgr_Init L clock opt mirror_dir_path = do {
     groups \<leftarrow> foldM (\<lambda>i groups. do {
                  g \<leftarrow> init_group L clock (mirror_dir_path @ to_string (nat i));
                  Some (groups @ [g]) })
                [0..nr_group opt - 1] [];
     Some (RET_OK, groups) }"

definition dispose_group :: "'d GroupData \<Rightarrow> RetCode \<times> 'd GroupData list \<Rightarrow> RetCode \<times> 'd GroupData list" where
  "dispose_group g = (\<lambda>(_, groups).
     let (_, ldb) = LockDb_Dispose (gd_leveldb g);
         (ret, m) = LockDb_Dispose (gd_map g)
     in (ret, groups @ [g\<lparr>gd_leveldb := ldb, gd_map := m\<rparr>]))"

definition LockMgr_Dispose :: "'d GroupData list \<Rightarrow> RetCode \<times> 'd GroupData list" where
  "LockMgr_Dispose groups = fold dispose_group groups (RET_ERR_UNINIT, [])"

subsection \<open>What a restart recovers\<close>

declare recover_map.simps [simp del]

definition good_entry :: "'d LevelDB \<Rightarrow> string \<times> string \<Rightarrow> bool" where
  "good_entry L = (\<lambda>(k, vstr). k \<noteq> [] \<and> (user_key k \<longrightarrow> ParseRecord L vstr \<noteq> None))"

lemma recover_map_entries:
  assumes "storage_type ldb = LEVELDB" "db_leveldb_it ldb = Some it" "wf_map it"
    and "\<forall>e \<in> set it. good_entry L e" and "map_inv m"
  shows "\<exists>m'. recover_map L clock ldb m = Some (ldb\<lparr>db_leveldb_it := Some []\<rparr>, m') \<and> map_inv m'
     \<and> (\<forall>k. map_of (db_map m') k =
          (case map_of it k of
             Some vstr \<Rightarrow> if user_key k then map_option (recovered (clock k)) (ParseRecord L vstr)
                         else map_of (db_map m) k
           | None \<Rightarrow> map_of (db_map m) k))"
  using assms
proof (induction it arbitrary: ldb m)
  case Nil
  then have "ldb\<lparr>db_leveldb_it := Some []\<rparr> = ldb" by simp
  with Nil show ?case by (simp add: recover_map.simps[of L clock ldb m] DiskValid_def)
next
  case (Cons e it)
  obtain k vstr where e: "e = (k, vstr)" by (cases e)
  let ?ldb = "ldb\<lparr>db_leveldb_it := Some it\<rparr>"
  have wf: "wf_map it" "map_of it k = None"
    using Cons.prems(3) e by (auto intro!: map_of_None_less)
  have k: "k \<noteq> []" using Cons.prems(4) e by (simp add: good_entry_def)
  have unfold: "recover_map L clock ldb m =
      (case recover_step L clock ldb m of None \<Rightarrow> None | Some m' \<Rightarrow> recover_map L clock ?ldb m')"
    using Cons.prems(1,2) e
    by (auto simp: recover_map.simps[of L clock ldb m] DiskValid_def DiskNext_def split: option.split)
  have good: "\<forall>e \<in> set it. good_entry L e" using Cons.prems(4) by simp
  have IH: "map_inv m2 \<Longrightarrow>
    \<exists>m'. recover_map L clock ?ldb m2 = Some (ldb\<lparr>db_leveldb_it := Some []\<rparr>, m') \<and> map_inv m'
     \<and> (\<forall>k. map_of (db_map m') k =
          (case map_of it k of
             Some vstr \<Rightarrow> if user_key k then map_option (recovered (clock k)) (ParseRecord L vstr)
                         else map_of (db_map m2) k
           | None \<Rightarrow> map_of (db_map m2) k))" for m2
    using Cons.IH[of ?ldb m2, OF _ _ wf(1) good] Cons.prems(1) by simp
  show ?case
  proof (cases "user_key k")
    case True
    then obtain v where v: "ParseRecord L vstr = Some v"
      using Cons.prems(4) e by (auto simp: good_entry_def)
    let ?m2 = "m\<lparr>db_map := map_assign k (recovered (clock k) v) (db_map m)\<rparr>"
    have step: "recover_step L clock ldb m = Some ?m2"
      using Cons.prems(1,2,5) e True v k
      by (simp add: recover_step_def DiskGetCurrent_def user_key_def SetRecord_def map_inv_def)
    have inv2: "map_inv ?m2" using Cons.prems(5) by (simp add: map_inv_def wf_map_assign)
    have wfm: "wf_map (db_map m)" using Cons.prems(5) by (simp add: map_inv_def)
    obtain m' where m': "recover_map L clock ?ldb ?m2 = Some (ldb\<lparr>db_leveldb_it := Some []\<rparr>, m')" "map_inv m'"
      "\<forall>j. map_of (db_map m') j =
          (case map_of it j of
             Some vstr \<Rightarrow> if user_key j then map_option (recovered (clock j)) (ParseRecord L vstr)
                         else map_of (db_map ?m2) j
           | None \<Rightarrow> map_of (db_map ?m2) j)"
      using IH[OF inv2] by blast
    show ?thesis
    proof (intro exI conjI allI)
      show "recover_map L clock ldb m = Some (ldb\<lparr>db_leveldb_it := Some []\<rparr>, m')"
        by (simp add: unfold step m'(1))
      show "map_inv m'" by (rule m'(2))
      fix j
      show "map_of (db_map m') j =
          (case map_of (e # it) j of
             Some vstr \<Rightarrow> if user_key j then map_option (recovered (clock j)) (ParseRecord L vstr)
                         else map_of (db_map m) j
           | None \<Rightarrow> map_of (db_map m) j)"
        using m'(3)[rule_format, of j] e v True wf(2)
        by (simp add: map_of_assign[OF wfm] split: option.split)
    qed
  next
    case False
    then have step: "recover_step L clock ldb m = Some m"
      using Cons.prems(1,2) e by (simp add: recover_step_def DiskGetCurrent_def user_key_def)
    obtain m' where m': "recover_map L clock ?ldb m = Some (ldb\<lparr>db_leveldb_it := Some []\<rparr>, m')" "map_inv m'"
      "\<forall>j. map_of (db_map m') j =
          (case map_of it j of
             Some vstr \<Rightarrow> if user_key j then map_option (recovered (clock j)) (ParseRecord L vstr)
                         else map_of (db_map m) j
           | None \<Rightarrow> map_of (db_map m) j)"
      using IH[OF Cons.prems(5)] by blast
    show ?thesis
    proof (intro exI conjI allI)
      show "recover_map L clock ldb m = Some (ldb\<lparr>db_leveldb_it := Some []\<rparr>, m')"
        by (simp add: unfold step m'(1))
      show "map_inv m'" by (rule m'(2))
      fix j
      show "map_of (db_map m') j =
          (case map_of (e # it) j of
             Some vstr \<Rightarrow> if user_key j then map_option (recovered (clock j)) (ParseRecord L vstr)
                         else map_of (db_map m) j
           | None \<Rightarrow> map_of (db_map m) j)"
        using m'(3)[rule_format, of j] e False wf(2) by (simp split: option.split)
    qed
  qed
qed

definition stored_checkpoint :: "(string \<rightharpoonup> string) \<Rightarrow> string \<Rightarrow> string \<Rightarrow> u64" where
  "stored_checkpoint c key deprecated =
     (case c key of Some vstr \<Rightarrow> strtoul vstr
      | None \<Rightarrow> (case c deprecated of Some vstr \<Rightarrow> strtoul vstr | None \<Rightarrow> NoCheckpoint))"

definition restart_point :: "(string \<rightharpoonup> string) \<Rightarrow> u64" where
  "restart_point c =
     (let cp = stored_checkpoint c KEY_IGNORE_CHECKPOINT KEY_IGNORE_CHECKPOINT_DEPRECATED;
          restart_cp = stored_checkpoint c KEY_IGNORE_RESTART_CHECKPOINT KEY_IGNORE_RESTART_CHECKPOINT_DEPRECATED
      in if restart_cp \<noteq> NoCheckpoint \<and> (cp = NoCheckpoint \<or> cp < restart_cp) then restart_cp else cp)"

lemma read_checkpoint_eq:
  assumes "disk_open L ldb d" and "key \<noteq> []" "deprecated \<noteq> []"
  shows "\<exists>ret. read_checkpoint L ldb key deprecated
      = Some (ret, stored_checkpoint (map_of (Ldb_entries L d)) key deprecated)
    \<and> (ret = RET_OK \<or> ret = RET_ERR_KEY_NOT_EXIST)"
  using disk_calls(1)[OF assms(1,2)] disk_calls(1)[OF assms(1,3)]
  by (simp add: read_checkpoint_def stored_checkpoint_def split: option.split)

lemma key_lemmas:
  "KEY_IGNORE_CHECKPOINT \<noteq> []" "KEY_IGNORE_RESTART_CHECKPOINT \<noteq> []"
  "KEY_IGNORE_CHECKPOINT_DEPRECATED \<noteq> []" "KEY_IGNORE_RESTART_CHECKPOINT_DEPRECATED \<noteq> []"
  "\<not> user_key KEY_IGNORE_CHECKPOINT" "\<not> user_key KEY_IGNORE_RESTART_CHECKPOINT"
  by (simp_all add: KEY_IGNORE_CHECKPOINT_def KEY_IGNORE_RESTART_CHECKPOINT_def
      KEY_IGNORE_CHECKPOINT_DEPRECATED_def KEY_IGNORE_RESTART_CHECKPOINT_DEPRECATED_def
      user_key_def KEY_IGNORE_PREFIX_def)

lemma WriteDiskCheckpoint_eq:
  assumes "disk_open L (gd_leveldb g) d" and "cp \<noteq> NoCheckpoint"
  shows "\<exists>d'. WriteDiskCheckpoint L g cp =
      Some (RET_OK, g\<lparr>gd_leveldb := (gd_leveldb g)\<lparr>db_leveldb := Some d'\<rparr>, disk_checkpoint := cp,
        memory_checkpoint := cp\<rparr>)
    \<and> disk_open L ((gd_leveldb g)\<lparr>db_leveldb := Some d'\<rparr>) d'
    \<and> map_of (Ldb_entries L d') = (map_of (Ldb_entries L d))(KEY_IGNORE_CHECKPOINT \<mapsto> to_string (unat cp))"
proof -
  obtain d' where d': "DiskSet L (gd_leveldb g) KEY_IGNORE_CHECKPOINT (to_string (unat cp)) True
      = Some (RET_OK, (gd_leveldb g)\<lparr>db_leveldb := Some d'\<rparr>)"
    "disk_open L ((gd_leveldb g)\<lparr>db_leveldb := Some d'\<rparr>) d'"
    "map_of (Ldb_entries L d') = (map_of (Ldb_entries L d))(KEY_IGNORE_CHECKPOINT \<mapsto> to_string (unat cp))"
    using disk_calls(2)[OF assms(1) key_lemmas(1), of "to_string (unat cp)" True] by blast
  then show ?thesis using assms(2) by (intro exI[of _ d'] conjI) (simp_all add: WriteDiskCheckpoint_def)
qed

lemma init_group_state:
  fixes L :: "'d LevelDB"
  assumes laws: "leveldb_laws L" "leveldb_up L"
    and opened: "Ldb_Open L dir = Some d" and good: "\<forall>e \<in> set (Ldb_entries L d). good_entry L e"
  shows "\<exists>g. init_group L clock dir = Some g
    \<and> (\<forall>k. map_of (db_map (gd_map g)) k =
         (if user_key k
          then map_of (Ldb_entries L d) k \<bind> (\<lambda>vstr. map_option (recovered (clock k)) (ParseRecord L vstr))
          else None))
    \<and> disk_checkpoint g = restart_point (map_of (Ldb_entries L d))
    \<and> memory_checkpoint g = disk_checkpoint g \<and> last_instance_id g = disk_checkpoint g
    \<and> map_inv (gd_map g) \<and> (\<exists>d'. disk_open L (gd_leveldb g) d'
        \<and> (\<forall>k. user_key k \<longrightarrow> map_of (Ldb_entries L d') k = map_of (Ldb_entries L d) k))"
proof -
  let ?c = "map_of (Ldb_entries L d)"
  let ?ldb = "(LockDb_init :: 'd LockDb)\<lparr>storage_type := LEVELDB, db_leveldb := Some d, db_leveldb_it := Some (Ldb_entries L d)\<rparr>"
  let ?m = "(LockDb_init :: 'd LockDb)\<lparr>storage_type := MAP\<rparr>"
  have inv: "map_inv ?m" by (simp add: map_inv_def LockDb_init_def)
  have it: "storage_type ?ldb = LEVELDB" "db_leveldb_it ?ldb = Some (Ldb_entries L d)" by simp_all
  obtain m where m: "recover_map L clock ?ldb ?m = Some (?ldb\<lparr>db_leveldb_it := Some []\<rparr>, m)" "map_inv m"
    "\<forall>k. map_of (db_map m) k =
          (case ?c k of
             Some vstr \<Rightarrow> if user_key k then map_option (recovered (clock k)) (ParseRecord L vstr)
                         else map_of (db_map ?m) k
           | None \<Rightarrow> map_of (db_map ?m) k)"
    using recover_map_entries[OF it leveldb_lawsD(1)[OF laws(1)] good inv, of clock] by blast
  let ?ldb1 = "?ldb\<lparr>db_leveldb_it := Some []\<rparr>"
  have op: "disk_open L ?ldb1 d" using laws by (simp add: disk_open_def)
  let ?cp = "stored_checkpoint ?c KEY_IGNORE_CHECKPOINT KEY_IGNORE_CHECKPOINT_DEPRECATED"
  let ?rcp = "stored_checkpoint ?c KEY_IGNORE_RESTART_CHECKPOINT KEY_IGNORE_RESTART_CHECKPOINT_DEPRECATED"
  obtain r1 where r1: "read_checkpoint L ?ldb1 KEY_IGNORE_CHECKPOINT KEY_IGNORE_CHECKPOINT_DEPRECATED = Some (r1, ?cp)"
    "r1 = RET_OK \<or> r1 = RET_ERR_KEY_NOT_EXIST"
    using read_checkpoint_eq[OF op key_lemmas(1,3)] by blast
  obtain r2 where r2: "read_checkpoint L ?ldb1 KEY_IGNORE_RESTART_CHECKPOINT KEY_IGNORE_RESTART_CHECKPOINT_DEPRECATED
      = Some (r2, ?rcp)"
    using read_checkpoint_eq[OF op key_lemmas(2,4)] by blast
  let ?g = "(GroupData_new :: 'd GroupData)\<lparr>gd_leveldb := ?ldb1, gd_map := m, disk_checkpoint := ?cp, memory_checkpoint := ?cp\<rparr>"
  let ?later = "?rcp \<noteq> NoCheckpoint \<and> (?cp = NoCheckpoint \<or> ?cp < ?rcp)"
  have run: "init_group L clock dir = (case (if ?later then WriteDiskCheckpoint L ?g ?rcp else Some (RET_OK, ?g)) of
      None \<Rightarrow> None | Some (_, g) \<Rightarrow> Some (g\<lparr>last_instance_id := disk_checkpoint g\<rparr>))"
    using m(1) r1 r2 opened
    by (auto simp: init_group_def Let_def LockDb_Init_def GroupData_new_def LockDb_init_def DiskSeekToFirst_def
        ReadDiskCheckpoint_def ReadRestartCheckpoint_def split: option.splits)
  have view: "map_of (db_map m) k =
         (if user_key k then ?c k \<bind> (\<lambda>vstr. map_option (recovered (clock k)) (ParseRecord L vstr)) else None)" for k
    using m(3)[rule_format, of k] by (cases "?c k") (simp_all add: LockDb_init_def)
  show ?thesis
  proof (cases ?later)
    case True
    then obtain d' where d': "WriteDiskCheckpoint L ?g ?rcp = Some (RET_OK,
       ?g\<lparr>gd_leveldb := ?ldb1\<lparr>db_leveldb := Some d'\<rparr>, disk_checkpoint := ?rcp, memory_checkpoint := ?rcp\<rparr>)"
      "disk_open L (?ldb1\<lparr>db_leveldb := Some d'\<rparr>) d'" "map_of (Ldb_entries L d') = ?c(KEY_IGNORE_CHECKPOINT \<mapsto> to_string (unat ?rcp))"
      using WriteDiskCheckpoint_eq[of L ?g d ?rcp] op by auto
    have "\<forall>k. user_key k \<longrightarrow> map_of (Ldb_entries L d') k = ?c k" using d'(3) key_lemmas(5) by auto
    with True d'(1,2) m(2) show ?thesis by (auto simp: run view restart_point_def Let_def)
  next
    case False
    then have "\<exists>g. init_group L clock dir = Some g \<and> g = ?g\<lparr>last_instance_id := ?cp\<rparr>" by (auto simp: run)
    then show ?thesis using False m(2) op by (auto simp: view restart_point_def Let_def)
  qed
qed

text \<open>C38: A restart opens the mirror, fills the map with exactly its user records (the expiry
  counted from now), and resumes from the larger of the two stored checkpoints.\<close>

theorem init_group_recovers:
  fixes L :: "'d LevelDB"
  assumes laws: "leveldb_laws L" "leveldb_up L"
    and opened: "Ldb_Open L dir = Some d" and good: "\<forall>e \<in> set (Ldb_entries L d). good_entry L e"
  shows "\<exists>g. init_group L clock dir = Some g
    \<and> (\<forall>k. map_of (db_map (gd_map g)) k =
         (if user_key k
          then map_of (Ldb_entries L d) k \<bind> (\<lambda>vstr. map_option (recovered (clock k)) (ParseRecord L vstr))
          else None))
    \<and> disk_checkpoint g = restart_point (map_of (Ldb_entries L d))
    \<and> memory_checkpoint g = disk_checkpoint g \<and> last_instance_id g = disk_checkpoint g"
  using init_group_state[OF assms, of clock] by blast

text \<open>A disk checkpoint that was written is what a restart reads back, for every instance
  number.\<close>

theorem WriteDiskCheckpoint_read:
  assumes "disk_open L (gd_leveldb g) d" and "cp \<noteq> NoCheckpoint"
  shows "\<exists>g'. WriteDiskCheckpoint L g cp = Some (RET_OK, g') \<and> ReadDiskCheckpoint L g' = Some (RET_OK, cp, g')"
proof -
  let ?ldb = "\<lambda>d'. (gd_leveldb g)\<lparr>db_leveldb := Some d'\<rparr>"
  obtain d' where d': "WriteDiskCheckpoint L g cp =
      Some (RET_OK, g\<lparr>gd_leveldb := ?ldb d', disk_checkpoint := cp, memory_checkpoint := cp\<rparr>)"
    "disk_open L (?ldb d') d'"
    "map_of (Ldb_entries L d') = (map_of (Ldb_entries L d))(KEY_IGNORE_CHECKPOINT \<mapsto> to_string (unat cp))"
    using WriteDiskCheckpoint_eq[OF assms] by blast
  then show ?thesis
    using disk_calls(1)[OF d'(2) key_lemmas(1)]
    by (simp add: ReadDiskCheckpoint_def read_checkpoint_def strtoul_to_string)
qed

end
