(* ===== verification/LockSM.thy ===== *)
theory LockSM
  imports LockMgr Phxpaxos
begin

section \<open>LockSM (lock/locksm.cpp)\<close>

text \<open>
  The replicated state machine of the lock service. Every chosen value is executed twice on a
  replica: on the map when it is chosen (\<open>Execute\<close>), and on the leveldb mirror by phxpaxos'
  checkpoint replayer (\<open>ExecuteForCheckpoint\<close>). The value is an acquire request, a set request, or
  a master address (sent by the thread that keeps the mastership). \<open>clock i\<close> is the i-th reading of
  the clock in a call. \<open>delete_string_req\<close> of the message is never set or read.
\<close>

record LockInfo =
  lk_lock_key :: string
  lk_version :: u64
  lk_client_id :: string
  lk_lease_time_ms :: u64

record StringInfo =
  si_key :: string
  si_version :: u64
  si_value :: string
  si_lease_time_ms :: u64

record AcquireLockRequest =
  al_topic_id :: int
  al_lock_id :: int
  al_lock_info :: LockInfo
  al_master_addr :: Addr

record SetStringRequest =
  ss_topic_id :: int
  ss_lock_id :: int
  ss_string_info :: StringInfo
  ss_master_addr :: Addr

record LockPaxosArgs =
  pa_acquire_lock_req :: "AcquireLockRequest option"
  pa_set_string_req :: "SetStringRequest option"
  pa_lock_master_addr :: Addr

record 'd LockState =
  ls_opt :: LockOption
  ls_topic_id :: int
  ls_addr :: Addr
  ls_groups :: "'d GroupData list"
  ls_last_sync_ms :: "u64 list"
  ls_dropped_masters :: "int list"

record 'd LockEnv =
  le_ldb :: "'d LevelDB"
  le_config :: GlobalConfig
  le_inet_addr :: "string \<Rightarrow> u32"
  le_hash :: "string \<Rightarrow> u64"
  le_IsIMMaster :: "int \<Rightarrow> bool"
  le_GetMaster :: "int \<Rightarrow> string \<times> int"
  le_GetNowInstanceID :: "int \<Rightarrow> u64"
  ParseLockPaxosArgs :: "string \<Rightarrow> LockPaxosArgs option"
  SerializeLockPaxosArgs :: "LockPaxosArgs \<Rightarrow> string"

subsection \<open>Executing a request on a storage\<close>

text \<open>
  The part that both branches of \<open>DoExecute\<close> share: the versioned update, then the bookkeeping of
  the storage. An update refused on the mirror leaves the checkpoint as it is, but on the map the
  last instance id moves in any case.
\<close>

definition execute_on ::
  "'d LevelDB \<Rightarrow> (u64 \<Rightarrow> 'd LockDb \<Rightarrow> RecordKeyInfo \<Rightarrow> LocalRecordInfo \<Rightarrow> bool \<Rightarrow> (RetCode \<times> 'd LockDb) option)
   \<Rightarrow> u64 \<Rightarrow> StorageType \<Rightarrow> 'd GroupData \<Rightarrow> u64 \<Rightarrow> RecordKeyInfo \<Rightarrow> LocalRecordInfo \<Rightarrow> bool
   \<Rightarrow> (RetCode \<times> 'd GroupData) option" where
  "execute_on L update now st g instance_id info v sync =
     (if st = MAP then do {
        (ret, m) \<leftarrow> update now (gd_map g) info v True;
        Some (ret, g\<lparr>gd_map := m, last_instance_id := instance_id\<rparr>) }
      else if st = LEVELDB then do {
        (ret, ldb) \<leftarrow> update now (gd_leveldb g) info v sync;
        let g = g\<lparr>gd_leveldb := ldb\<rparr>;
        if ret = RET_OK then
          (if sync then WriteDiskCheckpoint L g instance_id
           else Some (ret, g\<lparr>memory_checkpoint := instance_id\<rparr>))
        else Some (ret, g) }
      else Some (RET_ERR_NO_IMPL, g))"

definition expiring :: "u64 \<Rightarrow> LocalRecordInfo \<Rightarrow> LocalRecordInfo" where
  "expiring now v = (if lr_lease_time_ms v \<noteq> NoID then v\<lparr>lr_expire_time_ms := now + lr_lease_time_ms v\<rparr> else v)"

definition record_of :: "u64 \<Rightarrow> u64 \<Rightarrow> string \<Rightarrow> u64 \<Rightarrow> LocalRecordInfo" where
  "record_of now instance_id pv lease =
     expiring now \<lparr>lr_version = instance_id, lr_value = pv, lr_lease_time_ms = lease, lr_expire_time_ms = 0\<rparr>"

text \<open>The result is what is written to the context of the proposing thread, if anything is.\<close>

definition DoExecute ::
  "'d LevelDB \<Rightarrow> (nat \<Rightarrow> u64) \<Rightarrow> StorageType \<Rightarrow> 'd GroupData \<Rightarrow> u64 \<Rightarrow> LockPaxosArgs \<Rightarrow> bool
   \<Rightarrow> (RetCode option \<times> 'd GroupData) option" where
  "DoExecute L clock st g instance_id args sync =
     (case pa_acquire_lock_req args of
        Some req \<Rightarrow>
          let lock_info = al_lock_info req;
              info = \<lparr>rk_version = lk_version lock_info, rk_key = lk_lock_key lock_info\<rparr>;
              v = record_of (clock 0) instance_id (lk_client_id lock_info) (lk_lease_time_ms lock_info)
          in do {
            (ret, g) \<leftarrow> execute_on L (LockDb_AcquireLock L) (clock 1) st g instance_id info v sync;
            Some (Some ret, g) }
      | None \<Rightarrow>
          (case pa_set_string_req args of
             Some req \<Rightarrow>
               let string_info = ss_string_info req;
                   info = \<lparr>rk_version = si_version string_info, rk_key = si_key string_info\<rparr>;
                   v = record_of (clock 0) instance_id (si_value string_info) (si_lease_time_ms string_info)
               in do {
                 (ret, g) \<leftarrow> execute_on L (VersionSetString L) (clock 1) st g instance_id info v sync;
                 Some (Some ret, g) }
           | None \<Rightarrow> Some (None, g)))"

definition lock_opt_addr :: "LockOption \<Rightarrow> Addr" where
  "lock_opt_addr opt = \<lparr>ip = lo_ip opt, port = lo_port opt, paxos_port = lo_paxos_port opt\<rparr>"

definition LockSM_Execute ::
  "'d LockEnv \<Rightarrow> (nat \<Rightarrow> u64) \<Rightarrow> bool \<Rightarrow> 'd LockState \<Rightarrow> int \<Rightarrow> u64 \<Rightarrow> string
   \<Rightarrow> (bool \<times> RetCode option \<times> 'd LockState) option" where
  "LockSM_Execute env clock node_running s paxos_group_id instance_id paxos_value =
     (case ParseLockPaxosArgs env paxos_value of
        None \<Rightarrow> Some (False, None, s)
      | Some args \<Rightarrow> do {
          g \<leftarrow> at (ls_groups s) paxos_group_id;
          (result, g) \<leftarrow> DoExecute (le_ldb env) clock MAP g instance_id args False;
          let s = s\<lparr>ls_groups := put_at (ls_groups s) paxos_group_id g\<rparr>;
          let drop = (ip (pa_lock_master_addr args) \<noteq> []
                      \<and> lock_opt_addr (ls_opt s) \<noteq> pa_lock_master_addr args \<and> node_running);
          Some (True, result,
            if drop then s\<lparr>ls_dropped_masters := ls_dropped_masters s @ [paxos_group_id]\<rparr> else s) })"

text \<open>
  The mirror is flushed every \<open>checkpoint_interval\<close> instances (an \<open>int\<close> compared with an unsigned
  difference), or after a minute.
\<close>

definition LockSM_ExecuteForCheckpoint ::
  "'d LockEnv \<Rightarrow> (nat \<Rightarrow> u64) \<Rightarrow> 'd LockState \<Rightarrow> int \<Rightarrow> u64 \<Rightarrow> string \<Rightarrow> (bool \<times> 'd LockState) option" where
  "LockSM_ExecuteForCheckpoint env clock s paxos_group_id instance_id paxos_value =
     (if no_leveldb (ls_opt s) then Some (True, s)
      else do {
        g \<leftarrow> at (ls_groups s) paxos_group_id;
        last_sync \<leftarrow> at (ls_last_sync_ms s) paxos_group_id;
        let sync = (word_of_int (checkpoint_interval (ls_opt s)) \<le> instance_id - disk_checkpoint g
                    \<or> last_sync + 60000 < clock 0);
        let s = (if sync then s\<lparr>ls_last_sync_ms := put_at (ls_last_sync_ms s) paxos_group_id (clock 1)\<rparr> else s);
        (case ParseLockPaxosArgs env paxos_value of
           None \<Rightarrow> Some (False, s)
         | Some args \<Rightarrow> do {
             (_, g) \<leftarrow> DoExecute (le_ldb env) (\<lambda>i. clock (i + 2)) LEVELDB g instance_id args sync;
             Some (True, s\<lparr>ls_groups := put_at (ls_groups s) paxos_group_id g\<rparr>) }) })"

definition LockSM_GetCheckpointInstanceID :: "'d LockState \<Rightarrow> int \<Rightarrow> u64 option" where
  "LockSM_GetCheckpointInstanceID s paxos_group_id = map_option disk_checkpoint (at (ls_groups s) paxos_group_id)"

text \<open>\<open>RecursiveListDir\<close> gives an error code or the files of a directory.\<close>

definition LockSM_GetCheckpointState ::
  "(string \<Rightarrow> int + string list) \<Rightarrow> string \<Rightarrow> int \<Rightarrow> int + string \<times> string list" where
  "LockSM_GetCheckpointState RecursiveListDir mirror_dir_path paxos_group_id =
     (let dir_path = mirror_dir_path @ to_string (nat paxos_group_id) in
      case RecursiveListDir dir_path of Inl _ \<Rightarrow> Inl (-1) | Inr file_list \<Rightarrow> Inr (dir_path, file_list))"

definition LockSM_LoadCheckpointState ::
  "(string \<Rightarrow> int) \<Rightarrow> (string \<Rightarrow> string \<Rightarrow> int) \<Rightarrow> string \<Rightarrow> 'd LockState \<Rightarrow> int \<Rightarrow> string \<Rightarrow> string list
   \<Rightarrow> (int \<times> 'd LockState) option" where
  "LockSM_LoadCheckpointState RecursiveRemoveDir RecursiveCopyDir mirror_dir_path s paxos_group_id tmp_dir file_list =
     (if tmp_dir = [] \<or> file_list = [] then Some (-1, s)
      else do {
        g \<leftarrow> at (ls_groups s) paxos_group_id;
        let (_, ldb) = LockDb_Dispose (gd_leveldb g);
        let s = s\<lparr>ls_groups := put_at (ls_groups s) paxos_group_id (g\<lparr>gd_leveldb := ldb\<rparr>)\<rparr>;
        let mirror_path = mirror_dir_path @ to_string (nat paxos_group_id);
        Some (if RecursiveRemoveDir mirror_path \<noteq> 0 then -1
              else if RecursiveCopyDir tmp_dir mirror_path \<noteq> 0 then -1 else 0, s) })"

subsection \<open>What executing a value means\<close>

definition update_of :: "u64 \<Rightarrow> LockPaxosArgs \<Rightarrow> (bool \<times> RecordKeyInfo \<times> LocalRecordInfo) option" where
  "update_of instance_id args =
     (case pa_acquire_lock_req args of
        Some req \<Rightarrow> let i = al_lock_info req in
          Some (False, \<lparr>rk_version = lk_version i, rk_key = lk_lock_key i\<rparr>,
            \<lparr>lr_version = instance_id, lr_value = lk_client_id i, lr_lease_time_ms = lk_lease_time_ms i,
             lr_expire_time_ms = 0\<rparr>)
      | None \<Rightarrow>
          (case pa_set_string_req args of
             Some req \<Rightarrow> let i = ss_string_info req in
               Some (True, \<lparr>rk_version = si_version i, rk_key = si_key i\<rparr>,
                 \<lparr>lr_version = instance_id, lr_value = si_value i, lr_lease_time_ms = si_lease_time_ms i,
                  lr_expire_time_ms = 0\<rparr>)
           | None \<Rightarrow> None))"

definition sm_spec ::
  "u64 \<Rightarrow> LockPaxosArgs \<Rightarrow> (string \<rightharpoonup> LocalRecordInfo) \<Rightarrow> RetCode option \<times> (string \<rightharpoonup> LocalRecordInfo)" where
  "sm_spec instance_id args m =
     (case update_of instance_id args of
        None \<Rightarrow> (None, m)
      | Some (forced, info, v) \<Rightarrow> let (ret, m) = cas_spec forced m info v in (Some ret, m))"

definition user_args :: "LockPaxosArgs \<Rightarrow> bool" where
  "user_args args \<longleftrightarrow> (case update_of 0 args of None \<Rightarrow> True | Some (_, info, _) \<Rightarrow> user_key (rk_key info))"

lemma DoExecute_update:
  "DoExecute L clock st g i args sync =
     (case update_of i args of
        None \<Rightarrow> Some (None, g)
      | Some (forced, info, v) \<Rightarrow>
          execute_on L (cas_op L forced) (clock 1) st g i info (expiring (clock 0) v) sync
          \<bind> (\<lambda>(ret, g). Some (Some ret, g)))"
proof (cases "pa_acquire_lock_req args")
  case None
  then show ?thesis
    by (cases "pa_set_string_req args")
      (simp_all add: DoExecute_def update_of_def cas_op_def record_of_def Let_def)
qed (simp add: DoExecute_def update_of_def cas_op_def record_of_def Let_def)

lemma cas_spec_expiring [simp]: "cas_spec forced m info (expiring now v) = cas_spec forced m info v"
  by (simp add: cas_spec_def unexp_def expiring_def)

lemma user_args_update:
  "user_args args \<Longrightarrow> update_of i args = Some (forced, info, v) \<Longrightarrow> user_key (rk_key info)"
  by (auto simp: user_args_def update_of_def Let_def split: option.splits)

lemma DoExecute_map:
  assumes inv: "map_inv (gd_map g)" and u: "user_args args"
  shows "\<exists>r g'. DoExecute L clock MAP g i args sync = Some (r, g') \<and> map_inv (gd_map g')
    \<and> (r, map_view (gd_map g')) = sm_spec i args (map_view (gd_map g)) \<and> gd_leveldb g' = gd_leveldb g
    \<and> disk_checkpoint g' = disk_checkpoint g \<and> memory_checkpoint g' = memory_checkpoint g
    \<and> last_instance_id g' = (if r = None then last_instance_id g else i)"
proof (cases "update_of i args")
  case None
  with inv show ?thesis by (simp add: DoExecute_update sm_spec_def)
next
  case (Some up)
  obtain forced info v where up: "up = (forced, info, v)" by (cases up)
  let ?v = "expiring (clock 0) v"
  obtain r m where m: "cas_op L forced (clock 1) (gd_map g) info ?v True = Some (r, m)" "map_inv m"
    "(r, map_view m) = cas_spec forced (map_view (gd_map g)) info v"
    using map_store.refines[OF inv user_args_update[OF u Some[unfolded up]], of L forced "clock 1" ?v True] by auto
  show ?thesis
    by (rule exI[of _ "Some r"], rule exI[of _ "g\<lparr>gd_map := m, last_instance_id := i\<rparr>"])
      (simp add: DoExecute_update Some up execute_on_def m(1,2) m(3)[symmetric] sm_spec_def del: One_nat_def)
qed

lemma disk_inv_open: "disk_inv L db \<Longrightarrow> \<exists>d. disk_open L db d"
  by (auto simp: disk_inv_def disk_open_def)

lemma disk_other_key:
  assumes inv: "disk_inv L db" and op: "disk_open L db d"
    and d': "disk_open L (db\<lparr>db_leveldb := Some d'\<rparr>) d'"
    and e: "map_of (Ldb_entries L d') = (map_of (Ldb_entries L d))(k \<mapsto> vstr)" and k: "\<not> user_key k"
  shows "disk_inv L (db\<lparr>db_leveldb := Some d'\<rparr>)" "disk_view L (db\<lparr>db_leveldb := Some d'\<rparr>) = disk_view L db"
  using inv op d' k unfolding disk_inv_def disk_open_def
  by (auto simp: e disk_view_def fun_eq_iff)

lemma DoExecute_disk:
  assumes inv: "disk_inv L (gd_leveldb g)" and u: "user_args args" and i: "i \<noteq> NoID"
  shows "\<exists>r g'. DoExecute L clock LEVELDB g i args sync = Some (r, g') \<and> disk_inv L (gd_leveldb g')
    \<and> (r, disk_view L (gd_leveldb g')) = sm_spec i args (disk_view L (gd_leveldb g)) \<and> gd_map g' = gd_map g
    \<and> last_instance_id g' = last_instance_id g
    \<and> memory_checkpoint g' = (if r = Some RET_OK then i else memory_checkpoint g)
    \<and> disk_checkpoint g' = (if r = Some RET_OK \<and> sync then i else disk_checkpoint g)"
proof (cases "update_of i args")
  case None
  with inv show ?thesis by (simp add: DoExecute_update sm_spec_def)
next
  case (Some up)
  obtain forced info v where up: "up = (forced, info, v)" by (cases up)
  let ?v = "expiring (clock 0) v"
  obtain r ldb where m: "cas_op L forced (clock 1) (gd_leveldb g) info ?v sync = Some (r, ldb)" "disk_inv L ldb"
    "(r, disk_view L ldb) = cas_spec forced (disk_view L (gd_leveldb g)) info v"
    using disk_store.refines[OF inv user_args_update[OF u Some[unfolded up]], of forced "clock 1" ?v sync] by auto
  note run = DoExecute_update Some up execute_on_def m(1)
  note spec = sm_spec_def Some up m(3)[symmetric]
  show ?thesis
  proof (cases "r = RET_OK \<and> sync")
    case False
    then show ?thesis
      by (intro exI[of _ "Some r"]
          exI[of _ "g\<lparr>gd_leveldb := ldb, memory_checkpoint := if r = RET_OK then i else memory_checkpoint g\<rparr>"])
        (auto simp: run spec m(2) simp del: One_nat_def)
  next
    case True
    then have sy: "sync = True" by simp
    let ?g = "g\<lparr>gd_leveldb := ldb\<rparr>"
    obtain d where op: "disk_open L (gd_leveldb ?g) d" using disk_inv_open[OF m(2)] by auto
    obtain d' where d': "WriteDiskCheckpoint L ?g i =
        Some (RET_OK, ?g\<lparr>gd_leveldb := (gd_leveldb ?g)\<lparr>db_leveldb := Some d'\<rparr>, disk_checkpoint := i,
          memory_checkpoint := i\<rparr>)"
      "disk_open L ((gd_leveldb ?g)\<lparr>db_leveldb := Some d'\<rparr>) d'"
      "map_of (Ldb_entries L d') = (map_of (Ldb_entries L d))(KEY_IGNORE_CHECKPOINT \<mapsto> to_string (unat i))"
      using WriteDiskCheckpoint_eq[OF op i] by blast
    note keep = disk_other_key[OF _ op d'(2,3) key_lemmas(5), simplified, OF m(2)]
    show ?thesis
      by (rule exI[of _ "Some r"], rule exI[of _ "g\<lparr>gd_leveldb := ldb\<lparr>db_leveldb := Some d'\<rparr>,
            disk_checkpoint := i, memory_checkpoint := i\<rparr>"])
        (use True d'(1) m(1)[unfolded sy] in
          \<open>simp add: DoExecute_update Some up execute_on_def spec keep del: One_nat_def\<close>)
  qed
qed

subsection \<open>Executing the log\<close>

text \<open>
  An entry of the log is an instance and its value; each replica has its own clock. The results are
  those handed to the proposing thread.
\<close>

fun execute_log ::
  "'d LockEnv \<Rightarrow> bool \<Rightarrow> int \<Rightarrow> (nat \<Rightarrow> nat \<Rightarrow> u64) \<Rightarrow> (u64 \<times> string) list \<Rightarrow> 'd LockState
   \<Rightarrow> (RetCode option list \<times> 'd LockState) option" where
  "execute_log env node gid clocks [] s = Some ([], s)"
| "execute_log env node gid clocks ((i, pv) # log) s = do {
     (_, r, s) \<leftarrow> LockSM_Execute env (clocks 0) node s gid i pv;
     (rs, s) \<leftarrow> execute_log env node gid (\<lambda>j. clocks (Suc j)) log s;
     Some (r # rs, s) }"

fun checkpoint_log ::
  "'d LockEnv \<Rightarrow> int \<Rightarrow> (nat \<Rightarrow> nat \<Rightarrow> u64) \<Rightarrow> (u64 \<times> string) list \<Rightarrow> 'd LockState \<Rightarrow> 'd LockState option" where
  "checkpoint_log env gid clocks [] s = Some s"
| "checkpoint_log env gid clocks ((i, pv) # log) s = do {
     (_, s) \<leftarrow> LockSM_ExecuteForCheckpoint env (clocks 0) s gid i pv;
     checkpoint_log env gid (\<lambda>j. clocks (Suc j)) log s }"

fun spec_log ::
  "(string \<Rightarrow> LockPaxosArgs option) \<Rightarrow> (u64 \<times> string) list \<Rightarrow> (string \<rightharpoonup> LocalRecordInfo)
   \<Rightarrow> RetCode option list \<times> (string \<rightharpoonup> LocalRecordInfo)" where
  "spec_log parse [] m = ([], m)"
| "spec_log parse ((i, pv) # log) m =
     (let (r, m) = (case parse pv of None \<Rightarrow> (None, m) | Some args \<Rightarrow> sm_spec i args m);
          (rs, m) = spec_log parse log m
      in (r # rs, m))"

definition user_log :: "(string \<Rightarrow> LockPaxosArgs option) \<Rightarrow> (u64 \<times> string) list \<Rightarrow> bool" where
  "user_log parse log \<longleftrightarrow>
     (\<forall>(i, pv) \<in> set log. i \<noteq> NoID \<and> (\<exists>args. parse pv = Some args \<and> user_args args))"

definition group_map :: "'d LockState \<Rightarrow> int \<Rightarrow> string \<rightharpoonup> LocalRecordInfo" where
  "group_map s gid = map_view (gd_map (ls_groups s ! nat gid))"

definition group_disk :: "'d LevelDB \<Rightarrow> 'd LockState \<Rightarrow> int \<Rightarrow> string \<rightharpoonup> LocalRecordInfo" where
  "group_disk L s gid = disk_view L (gd_leveldb (ls_groups s ! nat gid))"

definition wf_group :: "'d LockState \<Rightarrow> int \<Rightarrow> bool" where
  "wf_group s gid \<longleftrightarrow> 0 \<le> gid \<and> nat gid < length (ls_groups s) \<and> nat gid < length (ls_last_sync_ms s)
     \<and> map_inv (gd_map (ls_groups s ! nat gid))"

lemma wf_groupD:
  assumes "wf_group s gid"
  shows "at (ls_groups s) gid = Some (ls_groups s ! nat gid)"
    "at (ls_last_sync_ms s) gid = Some (ls_last_sync_ms s ! nat gid)"
    "map_inv (gd_map (ls_groups s ! nat gid))" "0 \<le> gid" "nat gid < length (ls_groups s)"
    "nat gid < length (ls_last_sync_ms s)"
  using assms by (auto simp: wf_group_def at_def)

lemma LockSM_Execute_spec:
  assumes wf: "wf_group s gid" and p: "ParseLockPaxosArgs env pv = Some args" and u: "user_args args"
  shows "\<exists>r s'. LockSM_Execute env clock node s gid i pv = Some (True, r, s')
    \<and> wf_group s' gid \<and> ls_opt s' = ls_opt s \<and> (r, group_map s' gid) = sm_spec i args (group_map s gid)
    \<and> group_disk (le_ldb env) s' gid = group_disk (le_ldb env) s gid
    \<and> gd_leveldb (ls_groups s' ! nat gid) = gd_leveldb (ls_groups s ! nat gid)
    \<and> memory_checkpoint (ls_groups s' ! nat gid) = memory_checkpoint (ls_groups s ! nat gid)
    \<and> last_instance_id (ls_groups s' ! nat gid) = (if r = None then last_instance_id (ls_groups s ! nat gid) else i)"
proof -
  note w = wf_groupD[OF wf]
  obtain r g' where g': "DoExecute (le_ldb env) clock MAP (ls_groups s ! nat gid) i args False = Some (r, g')"
    "map_inv (gd_map g')" "(r, map_view (gd_map g')) = sm_spec i args (group_map s gid)"
    "gd_leveldb g' = gd_leveldb (ls_groups s ! nat gid)"
    "memory_checkpoint g' = memory_checkpoint (ls_groups s ! nat gid)"
    "last_instance_id g' = (if r = None then last_instance_id (ls_groups s ! nat gid) else i)"
    using DoExecute_map[OF w(3) u, of "le_ldb env" clock i False] unfolding group_map_def by blast
  let ?s = "s\<lparr>ls_groups := put_at (ls_groups s) gid g'\<rparr>"
  obtain dm where run: "LockSM_Execute env clock node s gid i pv = Some (True, r, ?s\<lparr>ls_dropped_masters := dm\<rparr>)"
  proof (rule that[of "if ip (pa_lock_master_addr args) \<noteq> [] \<and> lock_opt_addr (ls_opt s) \<noteq> pa_lock_master_addr args \<and> node
      then ls_dropped_masters s @ [gid] else ls_dropped_masters s"])
  qed (simp add: LockSM_Execute_def p w(1) g'(1) Let_def)
  show ?thesis
    by (rule exI[of _ r], rule exI[of _ "?s\<lparr>ls_dropped_masters := dm\<rparr>"])
      (use w(4-6) g' in \<open>simp add: run wf_group_def group_map_def group_disk_def put_at_def\<close>)
qed

lemma LockSM_ExecuteForCheckpoint_spec:
  assumes wf: "wf_group s gid" and p: "ParseLockPaxosArgs env pv = Some args" and u: "user_args args"
    and i: "i \<noteq> NoID" and disk: "disk_inv (le_ldb env) (gd_leveldb (ls_groups s ! nat gid))"
    and on: "\<not> no_leveldb (ls_opt s)"
  shows "\<exists>s'. LockSM_ExecuteForCheckpoint env clock s gid i pv = Some (True, s') \<and> wf_group s' gid
    \<and> disk_inv (le_ldb env) (gd_leveldb (ls_groups s' ! nat gid)) \<and> ls_opt s' = ls_opt s
    \<and> group_disk (le_ldb env) s' gid = snd (sm_spec i args (group_disk (le_ldb env) s gid))
    \<and> group_map s' gid = group_map s gid
    \<and> last_instance_id (ls_groups s' ! nat gid) = last_instance_id (ls_groups s ! nat gid)
    \<and> memory_checkpoint (ls_groups s' ! nat gid) =
        (if fst (sm_spec i args (group_disk (le_ldb env) s gid)) = Some RET_OK then i
         else memory_checkpoint (ls_groups s ! nat gid))
    \<and> (\<not> (word_of_int (checkpoint_interval (ls_opt s)) \<le> i - disk_checkpoint (ls_groups s ! nat gid)
            \<or> ls_last_sync_ms s ! nat gid + 60000 < clock 0)
         \<longrightarrow> disk_checkpoint (ls_groups s' ! nat gid) = disk_checkpoint (ls_groups s ! nat gid)
             \<and> ls_last_sync_ms s' = ls_last_sync_ms s)"
proof -
  note w = wf_groupD[OF wf]
  let ?g = "ls_groups s ! nat gid"
  define sync where "sync = (word_of_int (checkpoint_interval (ls_opt s)) \<le> i - disk_checkpoint ?g
     \<or> ls_last_sync_ms s ! nat gid + 60000 < clock 0)"
  define clock' where "clock' = (\<lambda>i. clock (i + 2))"
  obtain r g' where g': "DoExecute (le_ldb env) clock' LEVELDB ?g i args sync = Some (r, g')"
    "disk_inv (le_ldb env) (gd_leveldb g')"
    "(r, disk_view (le_ldb env) (gd_leveldb g')) = sm_spec i args (group_disk (le_ldb env) s gid)"
    "gd_map g' = gd_map ?g" "last_instance_id g' = last_instance_id ?g"
    "memory_checkpoint g' = (if r = Some RET_OK then i else memory_checkpoint ?g)"
    "disk_checkpoint g' = (if r = Some RET_OK \<and> sync then i else disk_checkpoint ?g)"
    using DoExecute_disk[OF disk u i, of clock' sync] unfolding group_disk_def by blast
  let ?ms = "if sync then put_at (ls_last_sync_ms s) gid (clock 1) else ls_last_sync_ms s"
  let ?s = "s\<lparr>ls_last_sync_ms := ?ms, ls_groups := put_at (ls_groups s) gid g'\<rparr>"
  have run: "LockSM_ExecuteForCheckpoint env clock s gid i pv = Some (True, ?s)"
    using on unfolding LockSM_ExecuteForCheckpoint_def w(1,2) p clock'_def[symmetric]
    using g'(1) by (cases sync) (simp_all add: sync_def[symmetric] del: One_nat_def)
  show ?thesis
    by (rule exI[of _ ?s])
      (use w(3-6) g' in \<open>simp add: run wf_group_def group_map_def group_disk_def put_at_def
        g'(3)[unfolded group_disk_def, symmetric] sync_def[symmetric]\<close>)
qed

lemma execute_log_spec:
  assumes "wf_group s gid" and "user_log (ParseLockPaxosArgs env) log"
  shows "\<exists>rs s'. execute_log env node gid clocks log s = Some (rs, s') \<and> wf_group s' gid \<and> ls_opt s' = ls_opt s
    \<and> (rs, group_map s' gid) = spec_log (ParseLockPaxosArgs env) log (group_map s gid)
    \<and> group_disk (le_ldb env) s' gid = group_disk (le_ldb env) s gid"
  using assms
proof (induction log arbitrary: s clocks)
  case (Cons e log)
  obtain i pv where e: "e = (i, pv)" by (cases e)
  obtain args where args: "ParseLockPaxosArgs env pv = Some args" "user_args args"
    and log: "user_log (ParseLockPaxosArgs env) log"
    using Cons.prems(2) e by (auto simp: user_log_def)
  obtain r s1 where s1: "LockSM_Execute env (clocks 0) node s gid i pv = Some (True, r, s1)" "wf_group s1 gid"
    "(r, group_map s1 gid) = sm_spec i args (group_map s gid)"
    "group_disk (le_ldb env) s1 gid = group_disk (le_ldb env) s gid" "ls_opt s1 = ls_opt s"
    using LockSM_Execute_spec[OF Cons.prems(1) args] by blast
  obtain rs s' where s': "execute_log env node gid (\<lambda>j. clocks (Suc j)) log s1 = Some (rs, s')" "wf_group s' gid"
    "(rs, group_map s' gid) = spec_log (ParseLockPaxosArgs env) log (group_map s1 gid)"
    "group_disk (le_ldb env) s' gid = group_disk (le_ldb env) s1 gid" "ls_opt s' = ls_opt s1"
    using Cons.IH[OF s1(2) log, of "\<lambda>j. clocks (Suc j)"] by blast
  show ?case
    by (rule exI[of _ "r # rs"], rule exI[of _ s'])
      (simp add: e s1(1,4,5) s'(1,2,4,5) args(1) s1(3)[symmetric] s'(3)[symmetric])
qed simp

lemma checkpoint_log_spec:
  assumes "wf_group s gid" and "user_log (ParseLockPaxosArgs env) log"
    and "disk_inv (le_ldb env) (gd_leveldb (ls_groups s ! nat gid))" and "\<not> no_leveldb (ls_opt s)"
  shows "\<exists>s'. checkpoint_log env gid clocks log s = Some s' \<and> wf_group s' gid
    \<and> group_disk (le_ldb env) s' gid = snd (spec_log (ParseLockPaxosArgs env) log (group_disk (le_ldb env) s gid))
    \<and> group_map s' gid = group_map s gid"
  using assms
proof (induction log arbitrary: s clocks)
  case (Cons e log)
  obtain i pv where e: "e = (i, pv)" by (cases e)
  obtain args where args: "ParseLockPaxosArgs env pv = Some args" "user_args args"
    and i: "i \<noteq> NoID" and log: "user_log (ParseLockPaxosArgs env) log"
    using Cons.prems(2) e by (auto simp: user_log_def)
  obtain s1 where s1: "LockSM_ExecuteForCheckpoint env (clocks 0) s gid i pv = Some (True, s1)" "wf_group s1 gid"
    "disk_inv (le_ldb env) (gd_leveldb (ls_groups s1 ! nat gid))" "ls_opt s1 = ls_opt s"
    "group_disk (le_ldb env) s1 gid = snd (sm_spec i args (group_disk (le_ldb env) s gid))"
    "group_map s1 gid = group_map s gid"
    using LockSM_ExecuteForCheckpoint_spec[OF Cons.prems(1) args i Cons.prems(3,4)] by blast
  have on: "\<not> no_leveldb (ls_opt s1)" using s1(4) Cons.prems(4) by simp
  obtain s' where s': "checkpoint_log env gid (\<lambda>j. clocks (Suc j)) log s1 = Some s'" "wf_group s' gid"
    "group_disk (le_ldb env) s' gid = snd (spec_log (ParseLockPaxosArgs env) log (group_disk (le_ldb env) s1 gid))"
    "group_map s' gid = group_map s1 gid"
    using Cons.IH[OF s1(2) log s1(3) on, of "\<lambda>j. clocks (Suc j)"] by blast
  show ?case
    by (rule exI[of _ s'])
      (simp add: e s1(1,6) s'(1,2,4) args(1) s'(3)[unfolded s1(5)] split: prod.split)
qed simp

text \<open>C12: Replicas agree: executing the same log, two maps that hold the same records give the
  proposers the same results and hold the same records again, whatever the clocks; and a mirror
  that held these records holds them too.\<close>

theorem Replicas_agree:
  assumes "wf_group s1 gid" "wf_group s2 gid" "wf_group s3 gid"
    and "user_log (ParseLockPaxosArgs env) log"
    and "disk_inv (le_ldb env) (gd_leveldb (ls_groups s3 ! nat gid))" "\<not> no_leveldb (ls_opt s3)"
    and same: "group_map s2 gid = group_map s1 gid" "group_disk (le_ldb env) s3 gid = group_map s1 gid"
  shows "\<exists>rs s1' s2' s3'. execute_log env node1 gid clocks1 log s1 = Some (rs, s1')
     \<and> execute_log env node2 gid clocks2 log s2 = Some (rs, s2')
     \<and> checkpoint_log env gid clocks3 log s3 = Some s3'
     \<and> group_map s2' gid = group_map s1' gid \<and> group_disk (le_ldb env) s3' gid = group_map s1' gid"
proof -
  obtain rs m where spec: "spec_log (ParseLockPaxosArgs env) log (group_map s1 gid) = (rs, m)"
    by (cases "spec_log (ParseLockPaxosArgs env) log (group_map s1 gid)")
  obtain s1' where "execute_log env node1 gid clocks1 log s1 = Some (rs, s1')" "group_map s1' gid = m"
    using execute_log_spec[OF assms(1,4), of node1 clocks1] spec by auto
  moreover obtain s2' where "execute_log env node2 gid clocks2 log s2 = Some (rs, s2')" "group_map s2' gid = m"
    using execute_log_spec[OF assms(2,4), of node2 clocks2] spec same by auto
  moreover obtain s3' where "checkpoint_log env gid clocks3 log s3 = Some s3'" "group_disk (le_ldb env) s3' gid = m"
    using checkpoint_log_spec[OF assms(3,4,5,6), of clocks3] spec same by auto
  ultimately show ?thesis by metis
qed

subsection \<open>Locks\<close>

definition names :: "LockPaxosArgs \<Rightarrow> string \<Rightarrow> u64 \<Rightarrow> bool" where
  "names args k ver \<longleftrightarrow>
     (case update_of 0 args of
        None \<Rightarrow> False
      | Some (forced, info, _) \<Rightarrow>
          rk_key info = k \<and> (rk_version info = ver \<or> forced \<and> rk_version info = NoID))"

lemma update_of_instance:
  "update_of i args = map_option (\<lambda>(forced, info, v). (forced, info, v\<lparr>lr_version := i\<rparr>)) (update_of 0 args)"
  by (simp add: update_of_def Let_def split: option.split)

lemma sm_spec_keeps:
  assumes "m k = Some l" and "\<not> names args k (lr_version l)"
  shows "snd (sm_spec i args m) k = Some l"
proof (cases "update_of 0 args")
  case None
  with assms show ?thesis by (simp add: sm_spec_def update_of_instance[of i])
next
  case (Some up)
  obtain forced info v where "up = (forced, info, v)" by (cases up)
  with assms Some show ?thesis
    by (auto simp: sm_spec_def update_of_instance[of i] names_def cas_spec_def split: prod.splits if_splits)
qed

lemma snd_spec_log_Cons:
  "snd (spec_log parse ((i, pv) # log) m) =
     snd (spec_log parse log (snd (case parse pv of None \<Rightarrow> (None, m) | Some args \<Rightarrow> sm_spec i args m)))"
  by (auto simp: Let_def split: prod.split)

lemma spec_log_keeps:
  assumes "m k = Some l"
    and "\<forall>(i, pv) \<in> set log. \<forall>args. parse pv = Some args \<longrightarrow> \<not> names args k (lr_version l)"
  shows "snd (spec_log parse log m) k = Some l"
  using assms
proof (induction log arbitrary: m)
  case (Cons e log)
  obtain i pv where e: "e = (i, pv)" by (cases e)
  let ?m1 = "snd (case parse pv of None \<Rightarrow> (None, m) | Some args \<Rightarrow> sm_spec i args m)"
  have "?m1 k = Some l"
    using Cons.prems e by (auto simp: sm_spec_keeps split: option.split)
  then have "snd (spec_log parse log ?m1) k = Some l" using Cons.IH[of ?m1] Cons.prems(2) e by simp
  then show ?case by (simp only: e snd_spec_log_Cons)
qed simp

text \<open>A lock stays with its holder until a request names the version the holder acquired it
  with (or a string write forces the key): no other value in the log, in any number or order, from
  any client, takes it away.\<close>

theorem Held_lock_stays:
  assumes "wf_group s gid" and "user_log (ParseLockPaxosArgs env) log"
    and "group_map s gid k = Some l"
    and "\<forall>(i, pv) \<in> set log. \<forall>args. ParseLockPaxosArgs env pv = Some args \<longrightarrow> \<not> names args k (lr_version l)"
  shows "\<exists>rs s'. execute_log env node gid clocks log s = Some (rs, s') \<and> group_map s' gid k = Some l"
proof -
  obtain rs s' where s': "execute_log env node gid clocks log s = Some (rs, s')"
    "(rs, group_map s' gid) = spec_log (ParseLockPaxosArgs env) log (group_map s gid)"
    using execute_log_spec[OF assms(1,2)] by blast
  have "snd (spec_log (ParseLockPaxosArgs env) log (group_map s gid)) k = Some l"
    by (rule spec_log_keeps) (use assms(3,4) in blast)+
  then have "group_map s' gid k = Some l" unfolding s'(2)[symmetric] by simp
  with s'(1) show ?thesis by blast
qed

definition releases :: "LockPaxosArgs \<Rightarrow> string \<Rightarrow> bool" where
  "releases args k \<longleftrightarrow>
     (case update_of 0 args of None \<Rightarrow> False | Some (_, info, v) \<Rightarrow> rk_key info = k \<and> lr_lease_time_ms v = 0)"

definition acquires :: "LockPaxosArgs \<Rightarrow> string \<Rightarrow> u64 \<Rightarrow> bool" where
  "acquires args k ver \<longleftrightarrow>
     (case pa_acquire_lock_req args of
        None \<Rightarrow> False
      | Some req \<Rightarrow> lk_lock_key (al_lock_info req) = k \<and> lk_version (al_lock_info req) = ver)"

lemma spec_log_append:
  "spec_log parse (log1 @ log2) m =
     (let (rs1, m1) = spec_log parse log1 m; (rs2, m2) = spec_log parse log2 m1 in (rs1 @ rs2, m2))"
  by (induction log1 arbitrary: m) (auto simp: Let_def split: prod.splits option.splits)

lemma length_spec_log [simp]: "length (fst (spec_log parse log m)) = length log"
  by (induction log arbitrary: m) (auto simp: Let_def split: prod.splits, (metis fst_conv)+)

lemma acquires_update:
  assumes "acquires args k ver"
  shows "\<exists>v. update_of i args = Some (False, \<lparr>rk_version = ver, rk_key = k\<rparr>, v) \<and> lr_version v = i
    \<and> (releases args k \<longleftrightarrow> lr_lease_time_ms v = 0)"
  using assms by (auto simp: acquires_def releases_def update_of_def Let_def split: option.splits)

end
