(* ===== verification/LockService.thy ===== *)
theory LockService
  imports LockSM
begin

section \<open>The lock service (lock/lock.cpp, lockutils.cpp, cleanthread.cpp)\<close>

text \<open>
  The requests of clients, and the thread that deletes expired records and notes how far the mirror
  has come. A key belongs to the paxos group of its hash; only the master of the group serves it.
  phxpaxos' \<open>Propose\<close> is a parameter: it returns its code, the instance, the result handed to the
  context, and the state after the executions the replica made meanwhile. Reads of the map are made
  under its mutex and are one step. The warning of \<open>AcquireLock\<close> about a client that takes a lock
  before its expiry is only logged.
\<close>

record GetStringRequest =
  gs_topic_id :: int
  gs_lock_id :: int
  gs_key :: string
  gs_master_addr :: Addr

record GetStringResponse =
  gs_string_info :: "StringInfo option"
  gs_redirect_addr :: "Addr option"

record DeleteStringRequest =
  ds_topic_id :: int
  ds_lock_id :: int
  ds_key :: string
  ds_version :: u64
  ds_master_addr :: Addr

record GetLockInfoRequest =
  gl_topic_id :: int
  gl_lock_id :: int
  gl_lock_key :: string
  gl_master_addr :: Addr

record GetLockInfoResponse =
  gl_lock_info :: "LockInfo option"
  gl_redirect_addr :: "Addr option"

type_synonym 'd propose = "int \<Rightarrow> string \<Rightarrow> 'd LockState \<Rightarrow> TryCommitRet \<times> u64 \<times> RetCode \<times> 'd LockState"

subsection \<open>Records and messages\<close>

definition LocalRecordInfo2LockInfo :: "LocalRecordInfo \<Rightarrow> LockInfo \<Rightarrow> LockInfo" where
  "LocalRecordInfo2LockInfo v lock_info = lock_info
     \<lparr>lk_version := lr_version v, lk_client_id := lr_value v, lk_lease_time_ms := lr_lease_time_ms v\<rparr>"

definition LockInfo2LocalRecordInfo :: "LockInfo \<Rightarrow> LocalRecordInfo \<Rightarrow> u64 \<Rightarrow> LocalRecordInfo" where
  "LockInfo2LocalRecordInfo lock_info v expire_time_ms = v
     \<lparr>lr_version := lk_version lock_info, lr_value := lk_client_id lock_info,
      lr_lease_time_ms := lk_lease_time_ms lock_info, lr_expire_time_ms := expire_time_ms\<rparr>"

definition LockInfo_default :: LockInfo where
  "LockInfo_default = \<lparr>lk_lock_key = [], lk_version = 0, lk_client_id = [], lk_lease_time_ms = 0\<rparr>"

subsection \<open>Initialisation\<close>

fun find_lock_topic :: "'d LockEnv \<Rightarrow> Addr \<Rightarrow> int list \<Rightarrow> RetCode + int" where
  "find_lock_topic env addr [] = Inl RET_ERR_RANGE_ADDR"
| "find_lock_topic env addr (tid # tids) =
     (case GetLockConfig (le_config env) tid of
        Inl ret \<Rightarrow> find_lock_topic env addr tids
      | Inr lock_config \<Rightarrow>
          (case GetLockIDByAddr (le_inet_addr env) lock_config addr of
             Inr lock_id \<Rightarrow> Inr tid
           | Inl ret \<Rightarrow> find_lock_topic env addr tids))"

definition Lock_InitTopicID :: "'d LockEnv \<Rightarrow> 'd LockState \<Rightarrow> RetCode \<times> 'd LockState" where
  "Lock_InitTopicID env s =
     (if lo_topic (ls_opt s) \<noteq> []
      then case GetTopicIDByTopicName (le_config env) (lo_topic (ls_opt s)) of
             Inl ret \<Rightarrow> (ret, s)
           | Inr tid \<Rightarrow> (RET_OK, s\<lparr>ls_topic_id := tid\<rparr>)
      else case find_lock_topic env (ls_addr s) (GetAllTopicID (le_config env)) of
             Inl ret \<Rightarrow> (ret, s)
           | Inr tid \<Rightarrow> (RET_OK, s\<lparr>ls_topic_id := tid\<rparr>))"

definition Lock_PaxosInit :: "'d LockEnv \<Rightarrow> (string \<Rightarrow> bool) \<Rightarrow> (PaxosOptions \<Rightarrow> bool) \<Rightarrow> 'd LockState \<Rightarrow> RetCode" where
  "Lock_PaxosInit env CreateDir RunNode s =
     (case GetTopicConfigByTopicID (le_config env) (ls_topic_id s) of Inl ret \<Rightarrow> ret | Inr topic_config \<Rightarrow>
      case GetLockConfig (le_config env) (ls_topic_id s) of Inl ret \<Rightarrow> ret | Inr lock_config \<Rightarrow>
      case GetLockByAddr (le_inet_addr env) lock_config (ls_addr s) of Inl ret \<Rightarrow> ret | Inr lock \<Rightarrow>
        let opts = \<lparr>vecNodeInfoList = map (\<lambda>a. (ip a, paxos_port a)) (lock_addrs lock),
                    iGroupCount = nr_group (ls_opt s),
                    vecGroupSMInfoList = map (\<lambda>i. (i, 1)) [0..nr_group (ls_opt s) - 1],
                    oMyNode = (lo_ip (ls_opt s), lo_paxos_port (ls_opt s)),
                    bUseMembership = False, bUseCheckpointReplayer = True,
                    iSyncInterval = lock_paxos_fsync_interval (tp_topic (tc_proto topic_config)),
                    bUseBatchPropose = False, iIOThreadCount = nr_paxos_io_thread (ls_opt s)\<rparr>
        in if \<not> CreateDir (lo_data_dir_path (ls_opt s) @ ''/nodedb/'') then RET_DIR_NOT_EXIST
           else if \<not> RunNode opts then RET_ERR_PAXOS_RUN_NODE else RET_OK)"

text \<open>\<open>Lock::Init\<close>; every group's state machine starts with \<open>last_sync_ms_\<close> 0.\<close>

definition Lock_Init ::
  "'d LockEnv \<Rightarrow> (string \<Rightarrow> bool) \<Rightarrow> (PaxosOptions \<Rightarrow> bool) \<Rightarrow> (string \<Rightarrow> u64) \<Rightarrow> 'd LockState
   \<Rightarrow> (RetCode \<times> 'd LockState) option" where
  "Lock_Init env CreateDir RunNode clock s =
     (let s = s\<lparr>ls_addr := lock_opt_addr (ls_opt s)\<rparr>;
          (ret, s) = Lock_InitTopicID env s;
          mirror_dir_path = lo_data_dir_path (ls_opt s) @ ''/mirror/'' in
      if ret \<noteq> RET_OK then Some (ret, s)
      else if \<not> CreateDir mirror_dir_path then Some (RET_DIR_NOT_EXIST, s)
      else do {
        (ret, groups) \<leftarrow> LockMgr_Init (le_ldb env) clock (ls_opt s) mirror_dir_path;
        let s = s\<lparr>ls_groups := groups\<rparr>;
        if ret \<noteq> RET_OK then Some (ret, s)
        else
          let s = s\<lparr>ls_last_sync_ms := replicate (length groups) 0\<rparr>
          in Some (Lock_PaxosInit env CreateDir RunNode s, s) })"

definition Lock_Dispose :: "'d LockState \<Rightarrow> RetCode \<times> 'd LockState" where
  "Lock_Dispose s = (let (ret, groups) = LockMgr_Dispose (ls_groups s) in (ret, s\<lparr>ls_groups := groups\<rparr>))"

subsection \<open>Routing\<close>

definition HashUi32 :: "'d LockEnv \<Rightarrow> string \<Rightarrow> u32" where
  "HashUi32 env s = ucast (drop_bit 32 (le_hash env s))"

definition lock_group :: "'d LockEnv \<Rightarrow> 'd LockState \<Rightarrow> string \<Rightarrow> int option" where
  "lock_group env s key =
     (let n = word_of_int (nr_group (ls_opt s)) :: u32
      in if n = 0 then None else Some (uint (HashUi32 env key mod n)))"

definition Lock_CheckMaster :: "'d LockEnv \<Rightarrow> 'd LockState \<Rightarrow> int \<Rightarrow> Addr \<Rightarrow> RetCode \<times> Addr" where
  "Lock_CheckMaster env s paxos_group_id redirect_addr =
     (if le_IsIMMaster env paxos_group_id then (RET_OK, redirect_addr)
      else let (node_ip, node_port) = le_GetMaster env paxos_group_id
      in if node_ip = [] \<or> node_port = 0 \<or> node_ip = ''0.0.0.0'' then (RET_ERR_NO_MASTER, redirect_addr)
      else case GetLockConfig (le_config env) (ls_topic_id s) of Inl ret \<Rightarrow> (ret, redirect_addr) | Inr lock_config \<Rightarrow>
           case GetLockByAddr (le_inet_addr env) lock_config (ls_addr s) of Inl ret \<Rightarrow> (ret, redirect_addr) | Inr lock \<Rightarrow>
           case find (\<lambda>a. ip a = node_ip \<and> paxos_port a = node_port) (lock_addrs lock) of
             Some tmp_addr \<Rightarrow> (RET_ERR_NOT_MASTER, tmp_addr)
           | None \<Rightarrow> (RET_ERR_RANGE_ADDR, redirect_addr))"

definition addr_or_default :: "Addr option \<Rightarrow> Addr" where
  "addr_or_default a = (case a of None \<Rightarrow> Addr_default | Some a \<Rightarrow> a)"

subsection \<open>Reads\<close>

definition Lock_GetString ::
  "'d LockEnv \<Rightarrow> 'd LockState \<Rightarrow> GetStringRequest \<Rightarrow> GetStringResponse \<Rightarrow> (RetCode \<times> GetStringResponse) option" where
  "Lock_GetString env s req resp =
     (if gs_key req = [] then Some (RET_ERR_KEY, resp)
      else do {
        paxos_group_id \<leftarrow> lock_group env s (gs_key req);
        let (ret, redirect_addr) = Lock_CheckMaster env s paxos_group_id (addr_or_default (gs_redirect_addr resp));
        let resp = resp\<lparr>gs_redirect_addr := Some redirect_addr\<rparr>;
        if ret \<noteq> RET_OK then Some (ret, resp)
        else do {
          g \<leftarrow> at (ls_groups s) paxos_group_id;
          r \<leftarrow> GetString (le_ldb env) (gd_map g) (gs_key req);
          Some (case r of
                  Inl ret \<Rightarrow> (ret, resp)
                | Inr v \<Rightarrow> (RET_OK, resp\<lparr>gs_string_info := Some
                    \<lparr>si_key = gs_key req, si_version = lr_version v, si_value = lr_value v,
                     si_lease_time_ms = lr_lease_time_ms v\<rparr>\<rparr>)) } })"

definition Lock_GetLockInfo ::
  "'d LockEnv \<Rightarrow> 'd LockState \<Rightarrow> GetLockInfoRequest \<Rightarrow> GetLockInfoResponse
   \<Rightarrow> (RetCode \<times> GetLockInfoResponse) option" where
  "Lock_GetLockInfo env s req resp =
     (if gl_lock_key req = [] then Some (RET_ERR_KEY, resp)
      else do {
        paxos_group_id \<leftarrow> lock_group env s (gl_lock_key req);
        let (ret, redirect_addr) = Lock_CheckMaster env s paxos_group_id (addr_or_default (gl_redirect_addr resp));
        let resp = resp\<lparr>gl_redirect_addr := Some redirect_addr\<rparr>;
        if ret \<noteq> RET_OK then Some (ret, resp)
        else do {
          g \<leftarrow> at (ls_groups s) paxos_group_id;
          r \<leftarrow> GetLock (le_ldb env) (gd_map g) (gl_lock_key req);
          Some (case r of
                  Inl ret \<Rightarrow> (ret, resp)
                | Inr v \<Rightarrow> (RET_OK, resp\<lparr>gl_lock_info := Some (LocalRecordInfo2LockInfo v
                    (case gl_lock_info resp of None \<Rightarrow> LockInfo_default | Some i \<Rightarrow> i))\<rparr>)) } })"

subsection \<open>Writes\<close>

text \<open>The code of a failed proposal; a proposal that was executed has the code of its execution.\<close>

definition propose_result :: "TryCommitRet \<Rightarrow> RetCode \<Rightarrow> RetCode" where
  "propose_result paxos_ret result =
     (case paxos_ret of
        TryCommit_OK \<Rightarrow> result
      | TryCommit_Timeout \<Rightarrow> RET_ERR_PROPOSE_TIMEOUT
      | TryCommit_TooManyThreadWaiting_Reject \<Rightarrow> RET_ERR_PROPOSE_FAST_REJECT
      | TryCommit_Value_Size_TooLarge \<Rightarrow> RET_ERR_SIZE_TOO_LARGE
      | TryCommit_Other \<Rightarrow> RET_ERR_PROPOSE)"

definition PaxosSetString ::
  "'d LockEnv \<Rightarrow> 'd propose \<Rightarrow> 'd LockState \<Rightarrow> SetStringRequest \<Rightarrow> (RetCode \<times> 'd LockState) option" where
  "PaxosSetString env Propose s req = do {
     paxos_group_id \<leftarrow> lock_group env s (si_key (ss_string_info req));
     let buf = SerializeLockPaxosArgs env
       \<lparr>pa_acquire_lock_req = None, pa_set_string_req = Some req, pa_lock_master_addr = Addr_default\<rparr>;
     let (paxos_ret, instance_id, result, s) = Propose paxos_group_id buf s;
     Some (propose_result paxos_ret result, s) }"

definition PaxosDeleteString ::
  "'d LockEnv \<Rightarrow> 'd propose \<Rightarrow> 'd LockState \<Rightarrow> DeleteStringRequest \<Rightarrow> (RetCode \<times> 'd LockState) option" where
  "PaxosDeleteString env Propose s req =
     PaxosSetString env Propose s
       \<lparr>ss_topic_id = ds_topic_id req, ss_lock_id = ds_lock_id req,
        ss_string_info = \<lparr>si_key = ds_key req, si_version = ds_version req, si_value = [], si_lease_time_ms = 0\<rparr>,
        ss_master_addr = ds_master_addr req\<rparr>"

definition PaxosAcquireLock ::
  "'d LockEnv \<Rightarrow> 'd propose \<Rightarrow> 'd LockState \<Rightarrow> AcquireLockRequest \<Rightarrow> (RetCode \<times> 'd LockState) option" where
  "PaxosAcquireLock env Propose s req = do {
     paxos_group_id \<leftarrow> lock_group env s (lk_lock_key (al_lock_info req));
     let buf = SerializeLockPaxosArgs env
       \<lparr>pa_acquire_lock_req = Some req, pa_set_string_req = None, pa_lock_master_addr = Addr_default\<rparr>;
     let (paxos_ret, instance_id, result, s) = Propose paxos_group_id buf s;
     Some (propose_result paxos_ret result, s) }"

text \<open>A response of a write is its redirect address.\<close>

definition Lock_SetString ::
  "'d LockEnv \<Rightarrow> 'd propose \<Rightarrow> 'd LockState \<Rightarrow> SetStringRequest \<Rightarrow> Addr option
   \<Rightarrow> (RetCode \<times> Addr option \<times> 'd LockState) option" where
  "Lock_SetString env Propose s req resp =
     (if si_key (ss_string_info req) = [] then Some (RET_ERR_KEY, resp, s)
      else do {
        paxos_group_id \<leftarrow> lock_group env s (si_key (ss_string_info req));
        let (ret, redirect_addr) = Lock_CheckMaster env s paxos_group_id (addr_or_default resp);
        if ret \<noteq> RET_OK then Some (ret, Some redirect_addr, s)
        else do {
          (ret, s) \<leftarrow> PaxosSetString env Propose s req;
          Some (ret, Some redirect_addr, s) } })"

definition Lock_DeleteString ::
  "'d LockEnv \<Rightarrow> 'd propose \<Rightarrow> 'd LockState \<Rightarrow> DeleteStringRequest \<Rightarrow> Addr option
   \<Rightarrow> (RetCode \<times> Addr option \<times> 'd LockState) option" where
  "Lock_DeleteString env Propose s req resp =
     (if ds_key req = [] then Some (RET_ERR_KEY, resp, s)
      else do {
        paxos_group_id \<leftarrow> lock_group env s (ds_key req);
        let (ret, redirect_addr) = Lock_CheckMaster env s paxos_group_id (addr_or_default resp);
        if ret \<noteq> RET_OK then Some (ret, Some redirect_addr, s)
        else do {
          (ret, s) \<leftarrow> PaxosDeleteString env Propose s req;
          Some (ret, Some Addr_default, s) } })"

text \<open>The comparison with the version in the map that precedes the proposal.\<close>

definition acquire_refused :: "RetCode + LocalRecordInfo \<Rightarrow> u64 \<Rightarrow> RetCode" where
  "acquire_refused r version =
     (case r of
        Inl ret \<Rightarrow> if ret = RET_ERR_KEY_NOT_EXIST then RET_OK else ret
      | Inr v \<Rightarrow> if lr_version v \<noteq> version then RET_ERR_VERSION_NOT_EQUAL else RET_OK)"

definition Lock_AcquireLock ::
  "'d LockEnv \<Rightarrow> 'd propose \<Rightarrow> 'd LockState \<Rightarrow> AcquireLockRequest \<Rightarrow> Addr option
   \<Rightarrow> (RetCode \<times> Addr option \<times> 'd LockState) option" where
  "Lock_AcquireLock env Propose s req resp =
     (let lock_info = al_lock_info req in
      if lk_lock_key lock_info = [] then Some (RET_ERR_KEY, resp, s)
      else do {
        paxos_group_id \<leftarrow> lock_group env s (lk_lock_key lock_info);
        let (ret, redirect_addr) = Lock_CheckMaster env s paxos_group_id (addr_or_default resp);
        let resp = Some redirect_addr;
        if ret \<noteq> RET_OK then Some (ret, resp, s)
        else do {
          g \<leftarrow> at (ls_groups s) paxos_group_id;
          r \<leftarrow> GetLock (le_ldb env) (gd_map g) (lk_lock_key lock_info);
          let refused = acquire_refused r (lk_version lock_info);
          if refused \<noteq> RET_OK then Some (refused, resp, s)
          else do {
            (ret, s) \<leftarrow> PaxosAcquireLock env Propose s req;
            if lk_lease_time_ms lock_info \<le> 0 then do {
              g \<leftarrow> at (ls_groups s) paxos_group_id;
              (ret, m) \<leftarrow> DeleteLock (le_ldb env) (gd_map g) (lk_lock_key lock_info) False;
              Some (ret, resp, s\<lparr>ls_groups := put_at (ls_groups s) paxos_group_id (g\<lparr>gd_map := m\<rparr>)\<rparr>) }
            else Some (ret, resp, s) } } })"

subsection \<open>The clean thread\<close>

definition CLIENT_ID_CLEAN_THREAD :: string where
  "CLIENT_ID_CLEAN_THREAD = ''__lock__:__clean_thread__''"

record CleanThread =
  last_clean_lock_ms :: u64
  last_write_restart_checkpoint_ms :: u64

definition clean_args :: "string \<Rightarrow> u64 \<Rightarrow> LockPaxosArgs" where
  "clean_args key version =
     \<lparr>pa_acquire_lock_req = Some
        \<lparr>al_topic_id = 0, al_lock_id = 0,
         al_lock_info = \<lparr>lk_lock_key = key, lk_version = version, lk_client_id = CLIENT_ID_CLEAN_THREAD,
                         lk_lease_time_ms = 0\<rparr>,
         al_master_addr = Addr_default\<rparr>,
      pa_set_string_req = None, pa_lock_master_addr = Addr_default\<rparr>"

text \<open>
  The loop ends after \<open>max_clean_lock_num\<close> keys, or when the map, which shrinks meanwhile, has no
  more keys than the loop has seen.
  The part of the loop body under the mutex: the walk moves to the next key, and the record there is
  to be cleaned, or not. The first number counts the keys seen.
\<close>

definition clean_pick ::
  "'d LevelDB \<Rightarrow> u64 \<Rightarrow> 'd LockDb \<Rightarrow> (int \<times> (string \<times> u64) option \<times> 'd LockDb) option" where
  "clean_pick L now m =
     (case ForwardLoopKey m of
        (Inl _, m) \<Rightarrow> Some (0, None, m)
      | (Inr key, m) \<Rightarrow> do {
          r \<leftarrow> GetRecord L m key;
          Some (case r of
                  Inl ret \<Rightarrow> (if ret = RET_KEY_IGNORE then 0 else 1, None, m)
                | Inr v \<Rightarrow>
                    (1, if lr_lease_time_ms v \<noteq> NoID \<and> lr_expire_time_ms v < now
                        then Some (key, lr_version v) else None, m)) })"

function clean_loop ::
  "'d LockEnv \<Rightarrow> 'd propose \<Rightarrow> int \<Rightarrow> u64 \<Rightarrow> int \<Rightarrow> int \<Rightarrow> int \<times> int \<Rightarrow> 'd LockState
   \<Rightarrow> ((int \<times> int) \<times> 'd LockState) option" where
  "clean_loop env Propose gid now limit i (nr_key, nr_clean) s =
     (case at (ls_groups s) gid of
        None \<Rightarrow> None
      | Some g \<Rightarrow>
          if i < GetSizeRecord (gd_map g) \<and> i < limit then
            (case clean_pick (le_ldb env) now (gd_map g) of
               None \<Rightarrow> None
             | Some (seen, pick, m) \<Rightarrow>
                 let s1 = s\<lparr>ls_groups := put_at (ls_groups s) gid (g\<lparr>gd_map := m\<rparr>)\<rparr> in
                 (case pick of
                    None \<Rightarrow> clean_loop env Propose gid now limit (i + 1) (nr_key + seen, nr_clean) s1
                  | Some (key, version) \<Rightarrow>
                      let (paxos_ret, instance_id, result, s2) =
                            Propose gid (SerializeLockPaxosArgs env (clean_args key version)) s1
                      in clean_loop env Propose gid now limit (i + 1)
                           (nr_key + seen, if paxos_ret = TryCommit_OK then nr_clean + 1 else nr_clean) s2))
          else Some ((nr_key, nr_clean), s))"
  by pat_completeness auto

termination
  by (relation "measure (\<lambda>(env, Propose, gid, now, limit, i, n, s). nat (limit - i))") auto

declare clean_loop.simps [simp del]

definition CleanRecord ::
  "'d LockEnv \<Rightarrow> 'd propose \<Rightarrow> int \<Rightarrow> u64 \<Rightarrow> int \<times> int \<Rightarrow> 'd LockState \<Rightarrow> ((int \<times> int) \<times> 'd LockState) option" where
  "CleanRecord env Propose gid now counts s =
     (if \<not> le_IsIMMaster env gid then Some (counts, s) else clean_loop env Propose gid now (max_clean_lock_num (ls_opt s)) 0 (0, 0) s)"

definition CleanThread_WriteRestartCheckpoint :: "'d LockEnv \<Rightarrow> int \<Rightarrow> 'd LockState \<Rightarrow> 'd LockState option" where
  "CleanThread_WriteRestartCheckpoint env gid s = do {
     let now_instance_id = le_GetNowInstanceID env gid;
     g \<leftarrow> at (ls_groups s) gid;
     if last_instance_id g = memory_checkpoint g \<and> memory_checkpoint g + 1 < now_instance_id
        \<and> now_instance_id \<noteq> NoCheckpoint
     then do {
       (_, ldb) \<leftarrow> LockDb_Sync (le_ldb env) (gd_leveldb g);
       (_, g) \<leftarrow> WriteRestartCheckpoint (le_ldb env) (g\<lparr>gd_leveldb := ldb\<rparr>) (now_instance_id - 1);
       Some (s\<lparr>ls_groups := put_at (ls_groups s) gid g\<rparr>) }
     else Some s }"

text \<open>
  One round of the thread, with the clock at its start. The interval products are \<open>int\<close>
  multiplications, converted to unsigned.
\<close>

definition clean_group ::
  "'d LockEnv \<Rightarrow> 'd propose \<Rightarrow> u64 \<Rightarrow> bool \<Rightarrow> bool \<Rightarrow> int \<Rightarrow> (int \<times> int) \<times> 'd LockState
   \<Rightarrow> ((int \<times> int) \<times> 'd LockState) option" where
  "clean_group env Propose now need_clean_key need_write gid = (\<lambda>((nr_key, nr_clean_key), s). do {
     ((k, c), s) \<leftarrow> (if need_clean_key then CleanRecord env Propose gid now (0, 0) s else Some ((0, 0), s));
     s \<leftarrow> (if need_write then CleanThread_WriteRestartCheckpoint env gid s else Some s);
     Some ((nr_key + k, nr_clean_key + c), s) })"

definition CleanThread_round ::
  "'d LockEnv \<Rightarrow> 'd propose \<Rightarrow> u64 \<Rightarrow> CleanThread \<Rightarrow> 'd LockState
   \<Rightarrow> (CleanThread \<times> (int \<times> int) \<times> 'd LockState) option" where
  "CleanThread_round env Propose now t s =
     (let need_clean_key = last_clean_lock_ms t + word_of_int (clean_interval_s (ls_opt s) * 1000) < now;
          need_write = last_write_restart_checkpoint_ms t
                         + word_of_int (idle_write_checkpoint_interval_s (ls_opt s) * 1000) < now;
          t = (if need_clean_key then t\<lparr>last_clean_lock_ms := now\<rparr> else t);
          t = (if need_write then t\<lparr>last_write_restart_checkpoint_ms := now\<rparr> else t)
      in do {
        (counts, s) \<leftarrow> foldM (clean_group env Propose now need_clean_key need_write)
                        [0..nr_group (ls_opt s) - 1] ((0, 0), s);
        Some (t, counts, s) })"

subsection \<open>Only the master serves\<close>

lemma Lock_CheckMaster_refuses:
  assumes "\<not> le_IsIMMaster env gid"
  shows "fst (Lock_CheckMaster env s gid a) \<noteq> RET_OK"
  using assms
  by (auto simp: Lock_CheckMaster_def GetLockConfig_def GetLockByAddr_def GetLockIDByAddr_def GetLockByLockID_def
      split: prod.splits option.splits sum.splits if_splits)

text \<open>A replica that is not the master of a key's group neither reads nor writes for it: every
  request gets an error, nothing is proposed, the state stays.\<close>

theorem Lock_needs_master:
  assumes "key \<noteq> []" and "lock_group env s key = Some gid" and "\<not> le_IsIMMaster env gid"
  shows "\<exists>ret a. ret \<noteq> RET_OK
    \<and> (\<forall>req. si_key (ss_string_info req) = key \<longrightarrow> Lock_SetString env Propose s req resp = Some (ret, Some a, s))
    \<and> (\<forall>req. ds_key req = key \<longrightarrow> Lock_DeleteString env Propose s req resp = Some (ret, Some a, s))
    \<and> (\<forall>req. lk_lock_key (al_lock_info req) = key \<longrightarrow> Lock_AcquireLock env Propose s req resp = Some (ret, Some a, s))
    \<and> (\<forall>req info. gs_key req = key \<longrightarrow>
         Lock_GetString env s req \<lparr>gs_string_info = info, gs_redirect_addr = resp\<rparr>
         = Some (ret, \<lparr>gs_string_info = info, gs_redirect_addr = Some a\<rparr>))
    \<and> (\<forall>req info. gl_lock_key req = key \<longrightarrow>
         Lock_GetLockInfo env s req \<lparr>gl_lock_info = info, gl_redirect_addr = resp\<rparr>
         = Some (ret, \<lparr>gl_lock_info = info, gl_redirect_addr = Some a\<rparr>))"
proof -
  obtain ret a where c: "Lock_CheckMaster env s gid (addr_or_default resp) = (ret, a)"
    by (cases "Lock_CheckMaster env s gid (addr_or_default resp)")
  then have r: "ret \<noteq> RET_OK" using Lock_CheckMaster_refuses[OF assms(3), of s "addr_or_default resp"] by simp
  show ?thesis
    by (intro exI[of _ ret] exI[of _ a] conjI allI impI r)
      (use assms(1,2) c r in \<open>simp_all add: Lock_SetString_def Lock_DeleteString_def Lock_AcquireLock_def
         Lock_GetString_def Lock_GetLockInfo_def\<close>)
qed

subsection \<open>An acquired lock\<close>

text \<open>
  The contract of \<open>Propose\<close> when it reports success: the replica has executed the values chosen
  before, then the proposed one, and hands back its result (\<open>RET_OK\<close> when nothing was written).
\<close>

definition lock_proposes :: "'d LockEnv \<Rightarrow> 'd propose \<Rightarrow> 'd LockState \<Rightarrow> int \<Rightarrow> string \<Rightarrow> bool" where
  "lock_proposes env Propose s gid buf \<longleftrightarrow>
     (\<forall>i res s'. Propose gid buf s = (TryCommit_OK, i, res, s') \<longrightarrow>
        (\<exists>node clocks clock log rs s1 r. user_log (ParseLockPaxosArgs env) log
           \<and> execute_log env node gid clocks log s = Some (rs, s1)
           \<and> LockSM_Execute env clock node s1 gid i buf = Some (True, r, s')
           \<and> res = (case r of None \<Rightarrow> RET_OK | Some r \<Rightarrow> r)))"

definition acquire_args :: "AcquireLockRequest \<Rightarrow> LockPaxosArgs" where
  "acquire_args req = \<lparr>pa_acquire_lock_req = Some req, pa_set_string_req = None, pa_lock_master_addr = Addr_default\<rparr>"

lemma update_of_acquire:
  "update_of i (acquire_args req) =
     (let info = al_lock_info req in
      Some (False, \<lparr>rk_version = lk_version info, rk_key = lk_lock_key info\<rparr>,
        \<lparr>lr_version = i, lr_value = lk_client_id info, lr_lease_time_ms = lk_lease_time_ms info, lr_expire_time_ms = 0\<rparr>))"
  by (simp add: update_of_def acquire_args_def Let_def)

lemma user_acquire: "user_args (acquire_args req) = user_key (lk_lock_key (al_lock_info req))"
  by (simp add: user_args_def update_of_acquire Let_def)

lemma propose_result_OK [simp]: "propose_result t r = RET_OK \<longleftrightarrow> t = TryCommit_OK \<and> r = RET_OK"
  by (cases t) (simp_all add: propose_result_def)

text \<open>When the master answers an acquire request with success, its table holds the lock for the
  client, under the number of the instance as its version, and a query of the lock says so.\<close>

theorem AcquireLock_grants:
  assumes key: "lk_lock_key (al_lock_info req) = k" "k \<noteq> []" "user_key k"
    and lease: "lk_lease_time_ms (al_lock_info req) \<noteq> 0"
    and gid: "lock_group env s k = Some gid" and wf: "wf_group s gid"
    and parse: "ParseLockPaxosArgs env (SerializeLockPaxosArgs env (acquire_args req)) = Some (acquire_args req)"
    and px: "lock_proposes env Propose s gid (SerializeLockPaxosArgs env (acquire_args req))"
    and ok: "Lock_AcquireLock env Propose s req resp = Some (RET_OK, resp', s')"
  shows "\<exists>i. group_map s' gid k =
      Some \<lparr>lr_version = i, lr_value = lk_client_id (al_lock_info req),
            lr_lease_time_ms = lk_lease_time_ms (al_lock_info req), lr_expire_time_ms = 0\<rparr>
    \<and> (\<forall>q r. gl_lock_key q = k \<longrightarrow> (\<exists>r' info. Lock_GetLockInfo env s' q r = Some (RET_OK, r')
         \<and> gl_lock_info r' = Some info \<and> lk_client_id info = lk_client_id (al_lock_info req) \<and> lk_version info = i))"
proof -
  obtain ret a where c: "Lock_CheckMaster env s gid (addr_or_default resp) = (ret, a)"
    by (cases "Lock_CheckMaster env s gid (addr_or_default resp)")
  note w = wf_groupD[OF wf]
  let ?buf = "SerializeLockPaxosArgs env (acquire_args req)"
  obtain t i res s2 where p: "Propose gid ?buf s = (t, i, res, s2)" by (metis prod_cases4)
  have pa: "PaxosAcquireLock env Propose s req = Some (propose_result t res, s2)"
    using gid key(1) p by (simp add: PaxosAcquireLock_def acquire_args_def)
  have ret: "ret = RET_OK" using ok key gid c by (auto simp: Lock_AcquireLock_def Let_def split: if_splits)
  have r: "propose_result t res = RET_OK \<and> s2 = s'"
  proof -
    obtain r0 where "GetLock (le_ldb env) (gd_map (ls_groups s ! nat gid)) k = Some r0"
      using map_record(1)[OF w(3) key(2)] key(2) by (auto simp: GetLock_def KEY_USER_LOCK_PREFIX_def)
    then show ?thesis
      using ok key gid c ret pa w(1) lease by (auto simp: Lock_AcquireLock_def Let_def split: if_splits)
  qed
  then have t: "t = TryCommit_OK" "res = RET_OK" by simp_all
  obtain node clocks clock log rs s1 r1 where run: "user_log (ParseLockPaxosArgs env) log"
    "execute_log env node gid clocks log s = Some (rs, s1)"
    "LockSM_Execute env clock node s1 gid i ?buf = Some (True, r1, s')"
    "RET_OK = (case r1 of None \<Rightarrow> RET_OK | Some r \<Rightarrow> r)"
    using px p r t unfolding lock_proposes_def by metis
  have s1: "wf_group s1 gid" "ls_opt s1 = ls_opt s" using execute_log_spec[OF wf run(1), of node clocks] run(2) by auto
  have u: "user_args (acquire_args req)" by (simp add: user_acquire key)
  have s': "wf_group s' gid" "ls_opt s' = ls_opt s" "(r1, group_map s' gid) = sm_spec i (acquire_args req) (group_map s1 gid)"
    using LockSM_Execute_spec[OF s1(1) parse u, of clock node i] run(3) s1(2) by auto
  then have m: "group_map s' gid k = Some \<lparr>lr_version = i, lr_value = lk_client_id (al_lock_info req),
            lr_lease_time_ms = lk_lease_time_ms (al_lock_info req), lr_expire_time_ms = 0\<rparr>"
    using run(4) key lease
    by (auto simp: sm_spec_def update_of_acquire Let_def cas_spec_def unexp_def split: if_splits)
  moreover have "\<exists>r' info. Lock_GetLockInfo env s' q r = Some (RET_OK, r') \<and> gl_lock_info r' = Some info
     \<and> lk_client_id info = lk_client_id (al_lock_info req) \<and> lk_version info = i" if q: "gl_lock_key q = k" for q r
  proof -
    note w' = wf_groupD[OF s'(1)]
    obtain v where v0: "map_of (db_map (gd_map (ls_groups s' ! nat gid))) k = Some v"
      "unexp v = \<lparr>lr_version = i, lr_value = lk_client_id (al_lock_info req),
            lr_lease_time_ms = lk_lease_time_ms (al_lock_info req), lr_expire_time_ms = 0\<rparr>"
      using m key(3) by (auto simp: group_map_def map_view_def)
    have v: "map_of (db_map (gd_map (ls_groups s' ! nat gid))) k = Some v" "lr_version v = i"
      "lr_value v = lk_client_id (al_lock_info req)"
      using v0 unexp_simps(1,2)[of v, unfolded v0(2)] by simp_all
    have "lock_group env s' k = Some gid" using gid s'(2) by (simp add: lock_group_def)
    moreover have "le_IsIMMaster env gid" using c ret Lock_CheckMaster_refuses by (metis fst_conv)
    ultimately show ?thesis
      using q key(2) w'(1) v map_record(1)[OF w'(3) key(2), of "le_ldb env"]
      by (simp add: Lock_GetLockInfo_def Lock_CheckMaster_def GetLock_def KEY_USER_LOCK_PREFIX_def
          LocalRecordInfo2LockInfo_def)
  qed
  ultimately show ?thesis by blast
qed

text \<open>C40: A release (an acquire with lease 0) whose proposal timed out is answered with success, and
  the lock is gone from the map of the master, although no replica executed the release.\<close>

theorem Release_not_replicated:
  assumes key: "lk_lock_key (al_lock_info req) = k" "k \<noteq> []"
    and lease: "lk_lease_time_ms (al_lock_info req) = 0"
    and gid: "lock_group env s k = Some gid" and wf: "wf_group s gid" and master: "le_IsIMMaster env gid"
    and held: "map_of (db_map (gd_map (ls_groups s ! nat gid))) k = Some l" "lr_version l = lk_version (al_lock_info req)"
    and fails: "Propose gid (SerializeLockPaxosArgs env (acquire_args req)) s = (TryCommit_Timeout, i, res, s)"
  shows "\<exists>resp' s'. Lock_AcquireLock env Propose s req resp = Some (RET_OK, resp', s')
     \<and> group_map s' gid k = None \<and> group_disk (le_ldb env) s' gid = group_disk (le_ldb env) s gid"
proof -
  note w = wf_groupD[OF wf]
  let ?g = "ls_groups s ! nat gid"
  let ?m = "(gd_map ?g)\<lparr>db_map := map_erase k (db_map (gd_map ?g))\<rparr>"
  let ?s = "s\<lparr>ls_groups := put_at (ls_groups s) gid (?g\<lparr>gd_map := ?m\<rparr>)\<rparr>"
  have m: "storage_type (gd_map ?g) = MAP" using w(3) by (simp add: map_inv_def)
  have get: "GetLock (le_ldb env) (gd_map ?g) k = Some (Inr l)"
    using map_record(1)[OF w(3) key(2), of "le_ldb env"] key(2) held by (simp add: GetLock_def KEY_USER_LOCK_PREFIX_def)
  have del: "DeleteLock (le_ldb env) (gd_map ?g) k False = Some (RET_OK, ?m)"
    using key(2) m by (simp add: DeleteLock_def DeleteRecord_def KEY_USER_LOCK_PREFIX_def)
  have "PaxosAcquireLock env Propose s req = Some (RET_ERR_PROPOSE_TIMEOUT, s)"
    using gid key(1) fails by (simp add: PaxosAcquireLock_def acquire_args_def propose_result_def)
  then have "Lock_AcquireLock env Propose s req resp = Some (RET_OK, Some (addr_or_default resp), ?s)"
    using key gid master get held(2) lease w(1) del
    by (simp add: Lock_AcquireLock_def Lock_CheckMaster_def acquire_refused_def Let_def)
  then show ?thesis
    using w(4,5) by (simp add: group_map_def group_disk_def put_at_def map_view_def map_of_erase)
qed

subsection \<open>The clean thread deletes expired records only\<close>

definition live :: "u64 \<Rightarrow> LocalRecordInfo \<Rightarrow> bool" where
  "live now l \<longleftrightarrow> lr_lease_time_ms l = NoID \<or> now \<le> lr_expire_time_ms l"

lemma clean_pick_spec:
  assumes "map_inv m" "clean_pick L now m = Some (seen, pick, m')"
  shows "map_inv m' \<and> db_map m' = db_map m"
    "pick = Some (key, ver) \<Longrightarrow> key \<noteq> [] \<and> (\<exists>v. map_of (db_map m) key = Some v \<and> lr_version v = ver \<and> \<not> live now v)"
proof -
  obtain r m1 where f: "ForwardLoopKey m = (r, m1)" by (cases "ForwardLoopKey m")
  then have m1: "db_map m1 = db_map m \<and> storage_type m1 = storage_type m"
    by (auto simp: ForwardLoopKey_def Let_def split: if_splits list.splits option.splits)
  then have inv: "map_inv m1" using assms(1) by (simp add: map_inv_def)
  have m': "m' = m1"
  proof (cases r)
    case (Inl ret)
    with assms(2) f show ?thesis by (simp add: clean_pick_def)
  next
    case (Inr k)
    then show ?thesis using assms(2) f
      by (cases "GetRecord L m1 k") (auto simp: clean_pick_def split: sum.splits)
  qed
  with inv m1 show "map_inv m' \<and> db_map m' = db_map m" by simp
  assume p: "pick = Some (key, ver)"
  then obtain k v where r: "r = Inr k" "GetRecord L m1 k = Some (Inr v)" "key = k" "ver = lr_version v"
    "lr_lease_time_ms v \<noteq> NoID" "lr_expire_time_ms v < now"
  proof (cases r)
    case (Inl ret)
    with assms(2) f p that show ?thesis by (simp add: clean_pick_def)
  next
    case (Inr k)
    obtain v where "GetRecord L m1 k = Some (Inr v)"
      using assms(2) f p Inr by (cases "GetRecord L m1 k") (auto simp: clean_pick_def split: sum.splits)
    with assms(2) f p Inr that show ?thesis by (simp add: clean_pick_def split: if_splits)
  qed
  then have "k \<noteq> []" by (auto simp: GetRecord_def)
  then have "map_of (db_map m1) k = Some v" using map_record(1)[OF inv, of k L] r(2) by (auto split: option.splits)
  with r m1 \<open>k \<noteq> []\<close> show "key \<noteq> [] \<and> (\<exists>v. map_of (db_map m) key = Some v \<and> lr_version v = ver \<and> \<not> live now v)"
    by (auto simp: live_def not_le)
qed

text \<open>During a round nothing but the thread's own proposals is executed: a proposal is executed at
  once or not at all.\<close>

definition executes_or_fails :: "'d LockEnv \<Rightarrow> 'd propose \<Rightarrow> bool" where
  "executes_or_fails env Propose \<longleftrightarrow>
     (\<forall>gid buf s t i res s'. Propose gid buf s = (t, i, res, s') \<longrightarrow>
        s' = s \<or> (\<exists>clock node r. LockSM_Execute env clock node s gid i buf = Some (True, r, s')))"

lemma execute_clean_frame:
  assumes wf: "wf_group s gid" and parse: "ParseLockPaxosArgs env buf = Some (clean_args key ver)"
    and key: "key \<noteq> []" and run: "LockSM_Execute env clock node s gid i buf = Some (True, r, s')" and k: "k \<noteq> key"
  shows "wf_group s' gid \<and> map_of (db_map (gd_map (ls_groups s' ! nat gid))) k
     = map_of (db_map (gd_map (ls_groups s ! nat gid))) k"
proof -
  note w = wf_groupD[OF wf]
  let ?g = "ls_groups s ! nat gid"
  have st: "storage_type (gd_map ?g) = MAP" "wf_map (db_map (gd_map ?g))" using w(3) by (simp_all add: map_inv_def)
  have "\<exists>r m. LockDb_AcquireLock (le_ldb env) (clock 1) (gd_map ?g) \<lparr>rk_version = ver, rk_key = key\<rparr>
      (record_of (clock 0) i CLIENT_ID_CLEAN_THREAD 0) True = Some (r, m) \<and> map_inv m
      \<and> map_of (db_map m) k = map_of (db_map (gd_map ?g)) k"
    using st key k map_record(1)[OF w(3) key, of "le_ldb env"]
    by (auto simp: LockDb_AcquireLock_def GetLock_def DeleteLock_def DeleteRecord_def KEY_USER_LOCK_PREFIX_def
        record_of_def expiring_def map_inv_def map_of_erase Let_def wf_map_erase split: option.split)
  then obtain r1 m where m: "LockDb_AcquireLock (le_ldb env) (clock 1) (gd_map ?g) \<lparr>rk_version = ver, rk_key = key\<rparr>
      (record_of (clock 0) i CLIENT_ID_CLEAN_THREAD 0) True = Some (r1, m)" "map_inv m"
      "map_of (db_map m) k = map_of (db_map (gd_map ?g)) k" by blast
  have "ls_groups s' = put_at (ls_groups s) gid (?g\<lparr>gd_map := m, last_instance_id := i\<rparr>)
      \<and> ls_last_sync_ms s' = ls_last_sync_ms s"
    using run parse w(1) m(1)
    by (auto simp: LockSM_Execute_def DoExecute_def clean_args_def execute_on_def Let_def split: if_splits)
  then show ?thesis using w(4-6) m(2,3) by (simp add: wf_group_def put_at_def)
qed

lemma clean_pick_total: "map_inv m \<Longrightarrow> \<exists>p. clean_pick L now m = Some p"
  by (cases "ForwardLoopKey m"; cases "fst (ForwardLoopKey m)")
    (auto simp: clean_pick_def GetRecord_def map_inv_def ForwardLoopKey_def Let_def
      split: if_splits list.splits option.splits)

lemma clean_loop_keeps:
  assumes px: "executes_or_fails env Propose"
    and parse: "\<forall>key ver. ParseLockPaxosArgs env (SerializeLockPaxosArgs env (clean_args key ver)) = Some (clean_args key ver)"
    and l: "live now l"
    and "wf_group s gid" "map_of (db_map (gd_map (ls_groups s ! nat gid))) k = Some l"
  shows "\<exists>counts' s'. clean_loop env Propose gid now limit i counts s = Some (counts', s')
    \<and> wf_group s' gid \<and> map_of (db_map (gd_map (ls_groups s' ! nat gid))) k = Some l"
  using assms(4-)
proof (induction "nat (limit - i)" arbitrary: i counts s rule: less_induct)
  case less
  note wf = less.prems(1) and held = less.prems(2)
  note w = wf_groupD[OF wf]
  obtain nr_key nr_clean where counts: "counts = (nr_key, nr_clean)" by (cases counts)
  let ?g = "ls_groups s ! nat gid"
  show ?case
  proof (cases "i < GetSizeRecord (gd_map ?g) \<and> i < limit")
    case False
    with wf held w(1) show ?thesis by (auto simp: counts clean_loop.simps[of env Propose gid now limit i])
  next
    case True
    then have dec: "nat (limit - (i + 1)) < nat (limit - i)" by simp
    obtain seen pick m where pk: "clean_pick (le_ldb env) now (gd_map ?g) = Some (seen, pick, m)"
      using clean_pick_total[OF w(3)] by (metis prod_cases3)
    let ?s1 = "s\<lparr>ls_groups := put_at (ls_groups s) gid (?g\<lparr>gd_map := m\<rparr>)\<rparr>"
    note ps = clean_pick_spec[OF w(3) pk]
    have s1: "wf_group ?s1 gid" "map_of (db_map (gd_map (ls_groups ?s1 ! nat gid))) k = Some l"
      using ps(1) w(4-6) held by (simp_all add: wf_group_def put_at_def)
    show ?thesis
    proof (cases pick)
      case None
      have "clean_loop env Propose gid now limit i counts s
          = clean_loop env Propose gid now limit (i + 1) (nr_key + seen, nr_clean) ?s1"
        using w(1) True pk None by (simp add: counts clean_loop.simps[of env Propose gid now limit i])
      then show ?thesis using less.hyps[OF dec s1] by simp
    next
      case (Some kv)
      obtain key ver where kv: "kv = (key, ver)" by (cases kv)
      let ?buf = "SerializeLockPaxosArgs env (clean_args key ver)"
      obtain t n res s2 where p: "Propose gid ?buf ?s1 = (t, n, res, s2)" by (metis prod_cases4)
      have dead: "key \<noteq> []" "key \<noteq> k" using ps(2)[OF Some[unfolded kv]] held l by auto
      have "s2 = ?s1 \<or> (\<exists>clock node r. LockSM_Execute env clock node ?s1 gid n ?buf = Some (True, r, s2))"
        using px p unfolding executes_or_fails_def by blast
      then have "wf_group s2 gid \<and> map_of (db_map (gd_map (ls_groups s2 ! nat gid))) k = Some l"
        using execute_clean_frame[OF s1(1) parse[rule_format] dead(1) _ dead(2)[symmetric]] s1 by auto
      then have s2: "wf_group s2 gid" "map_of (db_map (gd_map (ls_groups s2 ! nat gid))) k = Some l" by auto
      have "clean_loop env Propose gid now limit i counts s = clean_loop env Propose gid now limit (i + 1)
          (nr_key + seen, if t = TryCommit_OK then nr_clean + 1 else nr_clean) s2"
        using w(1) True pk Some kv p by (simp add: counts clean_loop.simps[of env Propose gid now limit i])
      then show ?thesis using less.hyps[OF dec s2] by simp
    qed
  qed
qed

text \<open>A round of the clean thread ends, and never touches a record that is not expired: its
  lease is infinite, or its expiry is not before the clock of the round.\<close>

theorem CleanRecord_keeps_live:
  assumes "executes_or_fails env Propose"
    and "\<forall>key ver. ParseLockPaxosArgs env (SerializeLockPaxosArgs env (clean_args key ver)) = Some (clean_args key ver)"
    and "wf_group s gid" and "map_of (db_map (gd_map (ls_groups s ! nat gid))) k = Some l"
    and "lr_lease_time_ms l = NoID \<or> now \<le> lr_expire_time_ms l"
  shows "\<exists>counts' s'. CleanRecord env Propose gid now counts s = Some (counts', s')
    \<and> map_of (db_map (gd_map (ls_groups s' ! nat gid))) k = Some l"
proof (cases "le_IsIMMaster env gid")
  case True
  then show ?thesis
    using clean_loop_keeps[OF assms(1,2) assms(5)[folded live_def] assms(3,4)] by (simp add: CleanRecord_def) blast
next
  case False
  then show ?thesis using assms(4) by (simp add: CleanRecord_def)
qed

end
