(* ===== verification/LockSystem.thy ===== *)
theory LockSystem
  imports LockService
begin

section \<open>A lock group at work: executions, the mirror and the restart checkpoint\<close>

text \<open>
  The threads that work on one group of a replica, as a step relation over the log of the group, from
  what \<open>LockMgr::Init\<close> recovers to the stop of the process: phxpaxos executes the chosen values on the
  map in order; its checkpoint replayer executes them on the mirror, behind; the clean thread walks
  the map and notes a restart checkpoint; and a thread that serves \<open>AcquireLock\<close> with lease 0 deletes
  the record from the map itself, at some time after its proposal, whatever became of it. The
  instance number is the position in the log. Both phxpaxos and its replayer start with instance \<open>b\<close>, after
  the checkpoint; the values below \<open>e\<close> have been executed on the map, those below \<open>c\<close> on the mirror.
  The trace lists what was done to the map: the executed values with their results, and the
  deletions of a record by \<open>AcquireLock\<close>.
\<close>

datatype LockEvent = Executed nat "RetCode option" | Deleted string

inductive lock_reach ::
  "'d LockEnv \<Rightarrow> int \<Rightarrow> string list \<Rightarrow> nat \<Rightarrow> 'd LockState \<Rightarrow> LockEvent list \<Rightarrow> nat \<Rightarrow> nat \<Rightarrow> 'd LockState \<Rightarrow> bool"
  for env gid log b s0 where
  start: "lock_reach env gid log b s0 [] b b s0"
| execute: "lock_reach env gid log b s0 tr e c s \<Longrightarrow> e < length log \<Longrightarrow>
    LockSM_Execute env clock node s gid (of_nat e) (log ! e) = Some (ok, r, s') \<Longrightarrow>
    lock_reach env gid log b s0 (tr @ [Executed e r]) (Suc e) c s'"
| mirror: "lock_reach env gid log b s0 tr e c s \<Longrightarrow> c < e \<Longrightarrow>
    LockSM_ExecuteForCheckpoint env clock s gid (of_nat c) (log ! c) = Some (ok, s') \<Longrightarrow>
    lock_reach env gid log b s0 tr e (Suc c) s'"
| note_restart: "lock_reach env gid log b s0 tr e c s \<Longrightarrow>
    CleanThread_WriteRestartCheckpoint (env\<lparr>le_GetNowInstanceID := (\<lambda>_. of_nat e)\<rparr>) gid s = Some s' \<Longrightarrow>
    lock_reach env gid log b s0 tr e c s'"
| walk: "lock_reach env gid log b s0 tr e c s \<Longrightarrow> at (ls_groups s) gid = Some g \<Longrightarrow>
    clean_pick (le_ldb env) now (gd_map g) = Some (seen, pick, m) \<Longrightarrow>
    lock_reach env gid log b s0 tr e c (s\<lparr>ls_groups := put_at (ls_groups s) gid (g\<lparr>gd_map := m\<rparr>)\<rparr>)"
| release: "lock_reach env gid log b s0 tr e c s \<Longrightarrow> k \<noteq> [] \<Longrightarrow> at (ls_groups s) gid = Some g \<Longrightarrow>
    DeleteLock (le_ldb env) (gd_map g) k False = Some (ret, m) \<Longrightarrow>
    lock_reach env gid log b s0 (if group_map s gid k = None then tr else tr @ [Deleted k]) e c
      (s\<lparr>ls_groups := put_at (ls_groups s) gid (g\<lparr>gd_map := m\<rparr>)\<rparr>)"

inductive_cases lock_reach_cases: "lock_reach env gid log b s0 tr e c s"

definition indexed :: "string list \<Rightarrow> (u64 \<times> string) list" where
  "indexed log = map (\<lambda>n. (of_nat n, log ! n)) [0..<length log]"

definition no_update :: "(string \<Rightarrow> LockPaxosArgs option) \<Rightarrow> string \<Rightarrow> bool" where
  "no_update parse pv \<longleftrightarrow> (case parse pv of None \<Rightarrow> True | Some args \<Rightarrow> update_of 0 args = None)"

text \<open>The values executed from instance \<open>b\<close> on.\<close>

definition since :: "nat \<Rightarrow> nat \<Rightarrow> string list \<Rightarrow> (u64 \<times> string) list" where
  "since b e log = drop b (take e (indexed log))"

definition fresh_group :: "'d LockEnv \<Rightarrow> int \<Rightarrow> nat \<Rightarrow> 'd LockState \<Rightarrow> bool" where
  "fresh_group env gid b s \<longleftrightarrow> wf_group s gid \<and> disk_inv (le_ldb env) (gd_leveldb (ls_groups s ! nat gid))
     \<and> \<not> no_leveldb (ls_opt s) \<and> group_disk (le_ldb env) s gid = group_map s gid
     \<and> last_instance_id (ls_groups s ! nat gid) = of_nat b - 1
     \<and> memory_checkpoint (ls_groups s ! nat gid) = of_nat b - 1"

text \<open>What the events of a trace make of a table, and that the results in it are those of the executions.\<close>

fun trace_to ::
  "(string \<Rightarrow> LockPaxosArgs option) \<Rightarrow> string list \<Rightarrow> LockEvent list \<Rightarrow> (string \<rightharpoonup> LocalRecordInfo) \<Rightarrow> (string \<rightharpoonup> LocalRecordInfo) \<Rightarrow> bool" where
  "trace_to parse log [] m m' \<longleftrightarrow> m' = m"
| "trace_to parse log (Executed n r # tr) m m' \<longleftrightarrow>
     (\<exists>args m1. parse (log ! n) = Some args \<and> sm_spec (of_nat n) args m = (r, m1) \<and> trace_to parse log tr m1 m')"
| "trace_to parse log (Deleted k # tr) m m' \<longleftrightarrow> trace_to parse log tr (m(k := None)) m'"

lemma trace_to_append:
  "trace_to parse log (tr1 @ tr2) m m' \<longleftrightarrow> (\<exists>m1. trace_to parse log tr1 m m1 \<and> trace_to parse log tr2 m1 m')"
  by (induction parse log tr1 m m' rule: trace_to.induct) (auto simp del: fun_upd_apply)

text \<open>What holds in every reachable state.\<close>

definition lock_inv :: "'d LockEnv \<Rightarrow> int \<Rightarrow> string list \<Rightarrow> nat \<Rightarrow> 'd LockState \<Rightarrow> LockEvent list \<Rightarrow> nat \<Rightarrow> nat \<Rightarrow> 'd LockState \<Rightarrow> bool" where
  "lock_inv env gid log b s0 tr e c s \<longleftrightarrow>
     b \<le> c \<and> c \<le> e \<and> e \<le> length log \<and> wf_group s gid \<and> ls_opt s = ls_opt s0
     \<and> disk_inv (le_ldb env) (gd_leveldb (ls_groups s ! nat gid))
     \<and> trace_to (ParseLockPaxosArgs env) log tr (group_map s0 gid) (group_map s gid)
     \<and> (\<forall>k. Deleted k \<notin> set tr \<longrightarrow>
          group_map s gid k = snd (spec_log (ParseLockPaxosArgs env) (since b e log) (group_map s0 gid)) k)
     \<and> group_disk (le_ldb env) s gid = snd (spec_log (ParseLockPaxosArgs env) (since b c log) (group_map s0 gid))
     \<and> (let l = last_instance_id (ls_groups s ! nat gid) in
          (l = of_nat b - 1 \<and> (\<forall>n. b \<le> n \<and> n < e \<longrightarrow> no_update (ParseLockPaxosArgs env) (log ! n)))
          \<or> (\<exists>j. b \<le> j \<and> j < e \<and> l = of_nat j \<and> (\<forall>n. j < n \<and> n < e \<longrightarrow> no_update (ParseLockPaxosArgs env) (log ! n))))
     \<and> (let m = memory_checkpoint (ls_groups s ! nat gid) in m = of_nat b - 1 \<or> (\<exists>j. b \<le> j \<and> j < c \<and> m = of_nat j))"

lemma since_Suc: "b \<le> n \<Longrightarrow> n < length log \<Longrightarrow> since b (Suc n) log = since b n log @ [(of_nat n, log ! n)]"
  by (simp add: since_def indexed_def take_Suc_conv_app_nth)

lemma since_self [simp]: "since b b log = []"
  by (simp add: since_def)

lemma snd_spec_log_snoc:
  "snd (spec_log parse (log @ [(i, pv)]) m) =
     snd (case parse pv of None \<Rightarrow> (None, snd (spec_log parse log m)) | Some args \<Rightarrow> sm_spec i args (snd (spec_log parse log m)))"
  by (cases "spec_log parse log m"; cases "parse pv") (auto simp: spec_log_append split: prod.split)

lemma spec_no_update:
  assumes "\<forall>n. a \<le> n \<and> n < e \<longrightarrow> no_update parse (log ! n)" and "b \<le> a" "a \<le> e" "e \<le> length log"
  shows "snd (spec_log parse (since b e log) m) = snd (spec_log parse (since b a log) m)"
  using assms
proof (induction e)
  case (Suc e)
  show ?case
  proof (cases "a = Suc e")
    case False
    with Suc.prems have e: "e < length log" "no_update parse (log ! e)" "a \<le> e" "b \<le> e" by auto
    then have "snd (spec_log parse (since b (Suc e) log) m) = snd (spec_log parse (since b e log) m)"
      by (auto simp: since_Suc snd_spec_log_snoc no_update_def sm_spec_def update_of_instance[of "of_nat e"]
          split: option.splits)
    with Suc e show ?thesis by simp
  qed simp
qed simp

text \<open>What an update makes of the record of a key depends on that record only.\<close>

lemma sm_spec_local: "m1 k = m2 k \<Longrightarrow> snd (sm_spec i args m1) k = snd (sm_spec i args m2) k"
  by (auto simp: sm_spec_def cas_spec_def split: option.splits prod.splits)

lemma of_nat_below:
  assumes "n < 2 ^ 64 - 1"
  shows "of_nat n \<noteq> (NoID :: u64)" "unat (of_nat n :: u64) = n"
proof -
  show u: "unat (of_nat n :: u64) = n" using assms by (simp add: unsigned_of_nat take_bit_nat_eq_self)
  have "unat (NoID :: u64) = 2 ^ 64 - 1" by (simp add: unsigned_minus_1_eq_mask mask_eq_exp_minus_1)
  with u assms show "of_nat n \<noteq> (NoID :: u64)" by (metis less_irrefl)
qed

lemma user_log_nth:
  assumes "user_log parse (indexed log)" and "n < length log"
  shows "\<exists>args. parse (log ! n) = Some args \<and> user_args args" "(of_nat n :: u64) \<noteq> NoID"
  using assms by (auto simp: user_log_def indexed_def)

lemma LockDb_Sync_eq:
  assumes op: "disk_open L db d"
  shows "\<exists>d'. LockDb_Sync L db = Some (RET_OK, db\<lparr>db_leveldb := Some d'\<rparr>) \<and> disk_open L (db\<lparr>db_leveldb := Some d'\<rparr>) d'
     \<and> map_of (Ldb_entries L d') = (map_of (Ldb_entries L d))(KEY_IGNORE_SYNC_TRIGGER \<mapsto> [])"
proof -
  have st: "storage_type db = LEVELDB" "db_leveldb db = Some d" and lu: "leveldb_laws L" "leveldb_up L"
    using op by (simp_all add: disk_open_def)
  obtain d1 where p: "Ldb_Put L d True KEY_IGNORE_SYNC_TRIGGER [] = (Status_OK, d1)"
    using leveldb_upD(2)[OF lu(2), of d True KEY_IGNORE_SYNC_TRIGGER "[]"]
    by (cases "Ldb_Put L d True KEY_IGNORE_SYNC_TRIGGER []") auto
  then show ?thesis
    using st lu leveldb_lawsD(4)[OF lu(1) p] by (intro exI[of _ d1]) (simp add: LockDb_Sync_def disk_open_def)
qed

lemma note_restart_frame:
  assumes wf: "wf_group s gid" and inv: "disk_inv (le_ldb env) (gd_leveldb (ls_groups s ! nat gid))"
    and run: "CleanThread_WriteRestartCheckpoint env gid s = Some s'"
  shows "wf_group s' gid \<and> ls_opt s' = ls_opt s \<and> disk_inv (le_ldb env) (gd_leveldb (ls_groups s' ! nat gid))
    \<and> group_map s' gid = group_map s gid \<and> group_disk (le_ldb env) s' gid = group_disk (le_ldb env) s gid
    \<and> last_instance_id (ls_groups s' ! nat gid) = last_instance_id (ls_groups s ! nat gid)
    \<and> memory_checkpoint (ls_groups s' ! nat gid) = memory_checkpoint (ls_groups s ! nat gid)"
proof -
  let ?L = "le_ldb env" and ?g = "ls_groups s ! nat gid" and ?now = "le_GetNowInstanceID env gid"
  note w = wf_groupD[OF wf]
  show ?thesis
  proof (cases "last_instance_id ?g = memory_checkpoint ?g \<and> memory_checkpoint ?g + 1 < ?now \<and> ?now \<noteq> NoCheckpoint")
    case False
    with run w(1) have "s' = s" by (auto simp: CleanThread_WriteRestartCheckpoint_def Let_def)
    with wf inv show ?thesis by simp
  next
    case True
    obtain d where d: "disk_open ?L (gd_leveldb ?g) d" using disk_inv_open[OF inv] by blast
    obtain d1 where d1: "LockDb_Sync ?L (gd_leveldb ?g) = Some (RET_OK, (gd_leveldb ?g)\<lparr>db_leveldb := Some d1\<rparr>)"
      "disk_open ?L ((gd_leveldb ?g)\<lparr>db_leveldb := Some d1\<rparr>) d1"
      "map_of (Ldb_entries ?L d1) = (map_of (Ldb_entries ?L d))(KEY_IGNORE_SYNC_TRIGGER \<mapsto> [])"
      using LockDb_Sync_eq[OF d] by blast
    have "\<not> user_key KEY_IGNORE_SYNC_TRIGGER"
      by (simp add: user_key_def KEY_IGNORE_SYNC_TRIGGER_def KEY_IGNORE_PREFIX_def)
    note k1 = disk_other_key[OF inv d d1(2,3) this]
    obtain d2 where d2: "DiskSet ?L ((gd_leveldb ?g)\<lparr>db_leveldb := Some d1\<rparr>) KEY_IGNORE_RESTART_CHECKPOINT
        (to_string (unat (?now - 1))) True = Some (RET_OK, (gd_leveldb ?g)\<lparr>db_leveldb := Some d2\<rparr>)"
      "disk_open ?L ((gd_leveldb ?g)\<lparr>db_leveldb := Some d2\<rparr>) d2"
      "map_of (Ldb_entries ?L d2) = (map_of (Ldb_entries ?L d1))
         (KEY_IGNORE_RESTART_CHECKPOINT \<mapsto> to_string (unat (?now - 1)))"
      using disk_calls(2)[OF d1(2) key_lemmas(2), of "to_string (unat (?now - 1))" True] by auto
    note k2 = disk_other_key[OF k1(1) d1(2), simplified, OF d2(2,3) key_lemmas(6)]
    have cp: "?now - 1 \<noteq> NoCheckpoint" using True by auto
    have "s' = s\<lparr>ls_groups := put_at (ls_groups s) gid (?g\<lparr>gd_leveldb := (gd_leveldb ?g)\<lparr>db_leveldb := Some d2\<rparr>\<rparr>)\<rparr>"
      using run w(1) True d1(1) d2(1) cp
      by (simp add: CleanThread_WriteRestartCheckpoint_def WriteRestartCheckpoint_def Let_def)
    then show ?thesis
      using w(3-6) k1(2) k2 by (simp add: wf_group_def group_map_def group_disk_def put_at_def)
  qed
qed

lemma lock_inv_execute:
  assumes inv: "lock_inv env gid log b s0 tr e c s" and user: "user_log (ParseLockPaxosArgs env) (indexed log)"
    and e: "e < length log"
    and run: "LockSM_Execute env clock node s gid (of_nat e) (log ! e) = Some (ok, r, s')"
  shows "lock_inv env gid log b s0 (tr @ [Executed e r]) (Suc e) c s'"
proof -
  let ?p = "ParseLockPaxosArgs env"
  have wf: "wf_group s gid" and be: "b \<le> e" using inv by (simp_all add: lock_inv_def)
  obtain args where args: "?p (log ! e) = Some args" "user_args args" using user_log_nth[OF user e] by blast
  have s': "wf_group s' gid" "ls_opt s' = ls_opt s" "(r, group_map s' gid) = sm_spec (of_nat e) args (group_map s gid)"
    "group_disk (le_ldb env) s' gid = group_disk (le_ldb env) s gid"
    "gd_leveldb (ls_groups s' ! nat gid) = gd_leveldb (ls_groups s ! nat gid)"
    "memory_checkpoint (ls_groups s' ! nat gid) = memory_checkpoint (ls_groups s ! nat gid)"
    "last_instance_id (ls_groups s' ! nat gid) = (if r = None then last_instance_id (ls_groups s ! nat gid) else of_nat e)"
    using LockSM_Execute_spec[OF wf args, of clock node "of_nat e"] run by auto
  have r: "r = None \<longleftrightarrow> no_update ?p (log ! e)"
    using s'(3) args(1)
    by (auto simp: sm_spec_def no_update_def update_of_instance[of "of_nat e"] split: option.splits prod.splits)
  have "trace_to ?p log tr (group_map s0 gid) (group_map s gid)" using inv by (simp add: lock_inv_def)
  then have "trace_to ?p log (tr @ [Executed e r]) (group_map s0 gid) (group_map s' gid)"
    unfolding trace_to_append using args(1) s'(3)[symmetric] by auto
  moreover have "group_map s' gid k = snd (spec_log ?p (since b (Suc e) log) (group_map s0 gid)) k"
    if "Deleted k \<notin> set (tr @ [Executed e r])" for k
  proof -
    have "group_map s gid k = snd (spec_log ?p (since b e log) (group_map s0 gid)) k"
      using inv that by (simp add: lock_inv_def)
    from sm_spec_local[of "group_map s gid" k "snd (spec_log ?p (since b e log) (group_map s0 gid))" "of_nat e" args, OF this] show ?thesis
      using s'(3)[symmetric] be e args(1) by (simp add: since_Suc snd_spec_log_snoc)
  qed
  moreover have "let l = last_instance_id (ls_groups s' ! nat gid) in
       (l = of_nat b - 1 \<and> (\<forall>n. b \<le> n \<and> n < Suc e \<longrightarrow> no_update ?p (log ! n)))
       \<or> (\<exists>j. b \<le> j \<and> j < Suc e \<and> l = of_nat j \<and> (\<forall>n. j < n \<and> n < Suc e \<longrightarrow> no_update ?p (log ! n)))"
  proof (cases "r = None")
    case True
    with inv r s'(7) show ?thesis by (auto simp: lock_inv_def Let_def less_Suc_eq)
  next
    case False
    then show ?thesis using s'(7) be by (auto simp: Let_def)
  qed
  ultimately show ?thesis using inv e s' by (simp add: lock_inv_def)
qed

lemma lock_inv_mirror:
  assumes inv: "lock_inv env gid log b s0 tr e c s" and user: "user_log (ParseLockPaxosArgs env) (indexed log)"
    and on: "\<not> no_leveldb (ls_opt s0)" and c: "c < e"
    and run: "LockSM_ExecuteForCheckpoint env clock s gid (of_nat c) (log ! c) = Some (ok, s')"
  shows "lock_inv env gid log b s0 tr e (Suc c) s'"
proof -
  let ?p = "ParseLockPaxosArgs env"
  have wf: "wf_group s gid" "disk_inv (le_ldb env) (gd_leveldb (ls_groups s ! nat gid))" "\<not> no_leveldb (ls_opt s)"
    and cl: "c < length log" "b \<le> c"
    using inv on c by (simp_all add: lock_inv_def)
  obtain args where args: "?p (log ! c) = Some args" "user_args args" using user_log_nth[OF user cl(1)] by blast
  have s': "wf_group s' gid" "ls_opt s' = ls_opt s" "disk_inv (le_ldb env) (gd_leveldb (ls_groups s' ! nat gid))"
    "group_disk (le_ldb env) s' gid = snd (sm_spec (of_nat c) args (group_disk (le_ldb env) s gid))"
    "group_map s' gid = group_map s gid"
    "last_instance_id (ls_groups s' ! nat gid) = last_instance_id (ls_groups s ! nat gid)"
    "memory_checkpoint (ls_groups s' ! nat gid) \<in> {memory_checkpoint (ls_groups s ! nat gid), of_nat c}"
    using LockSM_ExecuteForCheckpoint_spec[OF wf(1) args user_log_nth(2)[OF user cl(1)] wf(2,3), of clock] run
    by (auto split: if_splits)
  have "group_disk (le_ldb env) s' gid = snd (spec_log ?p (since b (Suc c) log) (group_map s0 gid))"
    using inv cl args(1) s'(4) by (simp add: lock_inv_def since_Suc snd_spec_log_snoc)
  moreover have "let m = memory_checkpoint (ls_groups s' ! nat gid) in m = of_nat b - 1 \<or> (\<exists>j. b \<le> j \<and> j < Suc c \<and> m = of_nat j)"
  proof (cases "memory_checkpoint (ls_groups s' ! nat gid) = of_nat c")
    case False
    then show ?thesis using s'(7) inv less_Suc_eq by (auto simp: lock_inv_def Let_def)
  next
    case True
    then show ?thesis using cl(2) by (auto simp: Let_def)
  qed
  ultimately show ?thesis using inv c s' by (simp add: lock_inv_def)
qed

text \<open>The threads that touch the map only: the walk of the clean thread, and the deletion by \<open>AcquireLock\<close>.\<close>

lemma map_frame:
  assumes wf: "wf_group s gid" and g: "at (ls_groups s) gid = Some g" and m: "map_inv m"
  defines "s' \<equiv> s\<lparr>ls_groups := put_at (ls_groups s) gid (g\<lparr>gd_map := m\<rparr>)\<rparr>"
  shows "wf_group s' gid" "ls_opt s' = ls_opt s" "group_map s' gid = map_view m"
    "gd_leveldb (ls_groups s' ! nat gid) = gd_leveldb (ls_groups s ! nat gid)"
    "group_disk L s' gid = group_disk L s gid"
    "last_instance_id (ls_groups s' ! nat gid) = last_instance_id (ls_groups s ! nat gid)"
    "memory_checkpoint (ls_groups s' ! nat gid) = memory_checkpoint (ls_groups s ! nat gid)"
  using wf_groupD[OF wf] g m by (simp_all add: s'_def wf_group_def group_map_def group_disk_def put_at_def)

lemma DeleteLock_view:
  assumes "map_inv db" "k \<noteq> []" "DeleteLock L db k sync = Some (ret, m)"
  shows "map_inv m \<and> ret = RET_OK \<and> map_view m = (map_view db)(k := None)"
  using assms
  by (auto simp: DeleteLock_def DeleteRecord_def KEY_USER_LOCK_PREFIX_def map_inv_def map_view_def fun_eq_iff
      map_of_erase wf_map_erase)

lemma lock_inv_map:
  assumes inv: "lock_inv env gid log b s0 tr e c s" and g: "at (ls_groups s) gid = Some g" and m: "map_inv m"
    and tr: "trace_to (ParseLockPaxosArgs env) log tr' (group_map s0 gid) (map_view m)"
    and keep: "\<forall>k. Deleted k \<notin> set tr' \<longrightarrow> Deleted k \<notin> set tr \<and> map_view m k = group_map s gid k"
  shows "lock_inv env gid log b s0 tr' e c (s\<lparr>ls_groups := put_at (ls_groups s) gid (g\<lparr>gd_map := m\<rparr>)\<rparr>)"
proof -
  have wf: "wf_group s gid" using inv by (simp add: lock_inv_def)
  have old: "\<forall>k. Deleted k \<notin> set tr \<longrightarrow>
      group_map s gid k = snd (spec_log (ParseLockPaxosArgs env) (since b e log) (group_map s0 gid)) k"
    using inv by (simp add: lock_inv_def)
  have "\<forall>k. Deleted k \<notin> set tr' \<longrightarrow>
      map_view m k = snd (spec_log (ParseLockPaxosArgs env) (since b e log) (group_map s0 gid)) k"
    using old keep by metis
  then show ?thesis using inv tr by (simp only: lock_inv_def map_frame[OF wf g m])
qed

lemma lock_inv_release:
  assumes inv: "lock_inv env gid log b s0 tr e c s" and k: "k \<noteq> []" and g: "at (ls_groups s) gid = Some g"
    and del: "DeleteLock (le_ldb env) (gd_map g) k False = Some (ret, m)"
  shows "lock_inv env gid log b s0 (if group_map s gid k = None then tr else tr @ [Deleted k]) e c
      (s\<lparr>ls_groups := put_at (ls_groups s) gid (g\<lparr>gd_map := m\<rparr>)\<rparr>)"
proof -
  have wf: "wf_group s gid" and tr: "trace_to (ParseLockPaxosArgs env) log tr (group_map s0 gid) (group_map s gid)"
    using inv by (simp_all add: lock_inv_def)
  have gm: "map_inv (gd_map g)" "map_view (gd_map g) = group_map s gid"
    using wf_groupD(1,3)[OF wf] g by (simp_all add: group_map_def)
  note m = DeleteLock_view[OF gm(1) k del, unfolded gm(2)]
  show ?thesis
  proof (cases "group_map s gid k = None")
    case True
    then have "map_view m = group_map s gid" using m by auto
    then show ?thesis using lock_inv_map[OF inv g _ _, of m tr] m tr True by simp
  next
    case False
    have "trace_to (ParseLockPaxosArgs env) log (tr @ [Deleted k]) (group_map s0 gid) (map_view m)"
      unfolding trace_to_append using tr m by auto
    then show ?thesis using lock_inv_map[OF inv g _, of m "tr @ [Deleted k]"] m False by auto
  qed
qed

lemma lock_reach_inv:
  assumes "lock_reach env gid log b s0 tr e c s" and fresh: "fresh_group env gid b s0" and b: "b \<le> length log"
    and user: "user_log (ParseLockPaxosArgs env) (indexed log)"
  shows "lock_inv env gid log b s0 tr e c s"
  using assms(1)
proof (induction rule: lock_reach.induct)
  case start
  then show ?case using fresh b by (simp add: lock_inv_def fresh_group_def) auto
next
  case (execute tr e c s clock node ok r s')
  then show ?case using lock_inv_execute[OF execute.IH user] by blast
next
  case (mirror tr e c s clock ok s')
  then show ?case using lock_inv_mirror[OF mirror.IH user] fresh by (auto simp: fresh_group_def)
next
  case (note_restart tr e c s s')
  have "wf_group s gid" "disk_inv (le_ldb env) (gd_leveldb (ls_groups s ! nat gid))"
    using note_restart.IH by (simp_all add: lock_inv_def)
  from note_restart_frame[of s gid "env\<lparr>le_GetNowInstanceID := \<lambda>_. of_nat e\<rparr>" s', simplified, OF this note_restart(2)]
  show ?case using note_restart.IH unfolding lock_inv_def by simp
next
  case (walk tr e c s g now seen pick m)
  have wf: "wf_group s gid" and tr: "trace_to (ParseLockPaxosArgs env) log tr (group_map s0 gid) (group_map s gid)"
    using walk.IH by (simp_all add: lock_inv_def)
  have g: "g = ls_groups s ! nat gid" using wf_groupD(1)[OF wf] walk(2) by simp
  have m: "map_inv m \<and> db_map m = db_map (gd_map g)"
    using clean_pick_spec(1)[OF _ walk(3)] wf_groupD(3)[OF wf] g by simp
  then have view: "map_view m = group_map s gid" by (simp add: fun_eq_iff map_view_def group_map_def g)
  show ?case by (rule lock_inv_map[OF walk.IH walk(2)]) (use m tr in \<open>simp_all add: view\<close>)
next
  case (release tr e c s k g ret m)
  then show ?case using lock_inv_release[OF release.IH] by blast
qed


text \<open>C20: In every run, from what \<open>LockMgr::Init\<close> recovers to the stop of the process, the mirror is what the values
  that the replayer has executed make of the recovered table, and so is the map for the values that
  phxpaxos has executed, at every key but those whose record \<open>AcquireLock\<close> deleted from the map itself.\<close>

theorem Lock_group_refines_log:
  assumes "lock_reach env gid log b s0 tr e c s" and "fresh_group env gid b s0" and "b \<le> length log"
    and "user_log (ParseLockPaxosArgs env) (indexed log)"
  shows "b \<le> c \<and> c \<le> e \<and> e \<le> length log
    \<and> group_disk (le_ldb env) s gid = snd (spec_log (ParseLockPaxosArgs env) (since b c log) (group_map s0 gid))
    \<and> (\<forall>k. Deleted k \<notin> set tr \<longrightarrow>
         group_map s gid k = snd (spec_log (ParseLockPaxosArgs env) (since b e log) (group_map s0 gid)) k)"
  using lock_reach_inv[OF assms] by (simp add: lock_inv_def)

text \<open>C10: The restart checkpoint is safe: whenever the clean thread's guard lets it write one, the
  mirror is what all the values executed so far make of the recovered table, although the replayer may be
  behind and \<open>AcquireLock\<close> may have deleted records from the map itself. So the mirror
  can restart after the instance that is noted, and the map has the same records at every other key.\<close>

theorem Restart_checkpoint_exact:
  assumes reach: "lock_reach env gid log b s0 tr e c s" and fresh: "fresh_group env gid b s0" and b: "b \<le> length log"
    and user: "user_log (ParseLockPaxosArgs env) (indexed log)" and small: "length log < 2 ^ 64 - 1"
    and guard: "CleanThread_WriteRestartCheckpoint (env\<lparr>le_GetNowInstanceID := (\<lambda>_. of_nat e)\<rparr>) gid s \<noteq> Some s"
  shows "group_disk (le_ldb env) s gid = snd (spec_log (ParseLockPaxosArgs env) (since b e log) (group_map s0 gid))
    \<and> (\<forall>k. Deleted k \<notin> set tr \<longrightarrow> group_map s gid k = group_disk (le_ldb env) s gid k)"
proof -
  let ?p = "ParseLockPaxosArgs env" and ?g = "ls_groups s ! nat gid"
  have inv: "lock_inv env gid log b s0 tr e c s" by (rule lock_reach_inv[OF reach fresh b user])
  note inv' = inv[unfolded lock_inv_def Let_def]
  have wf: "wf_group s gid" using inv' by blast
  note w = wf_groupD[OF wf]
  have eq: "last_instance_id ?g = memory_checkpoint ?g"
  proof (rule ccontr)
    assume "\<not> ?thesis"
    then have "CleanThread_WriteRestartCheckpoint (env\<lparr>le_GetNowInstanceID := (\<lambda>_. of_nat e)\<rparr>) gid s = Some s"
      using w(1) by (simp add: CleanThread_WriteRestartCheckpoint_def Let_def)
    with guard show False by contradiction
  qed
  have len: "b \<le> c" "c \<le> e" "e \<le> length log" using inv' by simp_all
  have new: "(of_nat b - 1 :: u64) \<noteq> of_nat j" if "b \<le> j" "j < e" for j
  proof
    assume "(of_nat b - 1 :: u64) = of_nat j"
    then have "(of_nat b :: u64) = of_nat (Suc j)" by (simp add: algebra_simps)
    moreover have "Suc j < 2 ^ 64" "b < 2 ^ 64" using that len small by linarith+
    moreover have "unat (of_nat n :: u64) = n" if "n < 2 ^ 64" for n
      using that by (simp add: unsigned_of_nat take_bit_nat_eq_self)
    ultimately have "b = Suc j" by metis
    with that show False by simp
  qed
  have small': "n < 2 ^ 64 - 1" if "n < e" for n using that len small by linarith
  have same: "i = j" if "(of_nat i :: u64) = of_nat j" "i < e" "j < e" for i j
    using of_nat_below(2)[OF small'[OF that(2)]] of_nat_below(2)[OF small'[OF that(3)]] that(1) by metis
  have "\<forall>n. c \<le> n \<and> n < e \<longrightarrow> no_update ?p (log ! n)"
  proof (cases "last_instance_id ?g = of_nat b - 1")
    case True
    then have "\<forall>n. b \<le> n \<and> n < e \<longrightarrow> no_update ?p (log ! n)" using inv' new by metis
    then show ?thesis using len by auto
  next
    case False
    then obtain j where j: "b \<le> j" "j < e" "last_instance_id ?g = of_nat j" "\<forall>n. j < n \<and> n < e \<longrightarrow> no_update ?p (log ! n)"
      using inv' by blast
    obtain i where i: "i < c" "memory_checkpoint ?g = of_nat i" using inv' eq False by metis
    have "i = j" using same[of i j] i j eq len by auto
    with i(1) j(4) show ?thesis by auto
  qed
  from spec_no_update[OF this len, of "group_map s0 gid"]
  have "group_disk (le_ldb env) s gid = snd (spec_log ?p (since b e log) (group_map s0 gid))" using inv' by simp
  moreover have "\<forall>k. Deleted k \<notin> set tr \<longrightarrow> group_map s gid k = snd (spec_log ?p (since b e log) (group_map s0 gid)) k"
    using inv' by blast
  ultimately show ?thesis by simp
qed

subsection \<open>Who gets a lock\<close>

definition updates :: "LockPaxosArgs \<Rightarrow> string \<Rightarrow> bool" where
  "updates args k \<longleftrightarrow> (case update_of 0 args of None \<Rightarrow> False | Some (_, info, _) \<Rightarrow> rk_key info = k)"

text \<open>The instances of a trace that updated a key successfully; and whether one of them deleted it.\<close>

definition updates_in :: "(string \<Rightarrow> LockPaxosArgs option) \<Rightarrow> string list \<Rightarrow> string \<Rightarrow> LockEvent list \<Rightarrow> nat set" where
  "updates_in parse log k tr =
     {n. Executed n (Some RET_OK) \<in> set tr \<and> (\<exists>args. parse (log ! n) = Some args \<and> updates args k)}"

definition released_in :: "(string \<Rightarrow> LockPaxosArgs option) \<Rightarrow> string list \<Rightarrow> string \<Rightarrow> LockEvent list \<Rightarrow> bool" where
  "released_in parse log k tr \<longleftrightarrow> Deleted k \<in> set tr \<or>
     (\<exists>n args. Executed n (Some RET_OK) \<in> set tr \<and> parse (log ! n) = Some args \<and> releases args k)"

text \<open>The record of a key that is not released carries the instance of the last update of the key.\<close>

lemma sm_spec_record:
  assumes "m k = Some l" and "sm_spec i args m = (r, m')" and "\<not> (releases args k \<and> r = Some RET_OK)"
  shows "m' k = Some l \<or> (\<exists>l'. m' k = Some l' \<and> lr_version l' = i \<and> updates args k \<and> r = Some RET_OK)"
proof (cases "update_of 0 args")
  case None
  with assms show ?thesis by (simp add: sm_spec_def update_of_instance[of i])
next
  case (Some up)
  obtain forced info v where "up = (forced, info, v)" by (cases up)
  with assms Some show ?thesis
    by (auto simp: sm_spec_def update_of_instance[of i] releases_def updates_def cas_spec_def split: prod.splits if_splits)
qed

lemma trace_held:
  assumes "trace_to parse log tr m m'" and "m k = Some l" and "\<not> released_in parse log k tr"
  shows "\<exists>l'. m' k = Some l' \<and> (lr_version l' = lr_version l \<or> lr_version l' \<in> of_nat ` updates_in parse log k tr)"
  using assms
proof (induction parse log tr m m' arbitrary: l rule: trace_to.induct)
  case (2 parse log n r tr m m')
  obtain args m1 where m1: "parse (log ! n) = Some args" "sm_spec (of_nat n) args m = (r, m1)" "trace_to parse log tr m1 m'"
    using "2.prems"(1) by auto
  have nr: "\<not> (releases args k \<and> r = Some RET_OK)" "\<not> released_in parse log k tr"
    using "2.prems"(3) m1(1) by (auto simp: released_in_def)
  have sub: "updates_in parse log k tr \<subseteq> updates_in parse log k (Executed n r # tr)" by (auto simp: updates_in_def)
  note IH = "2.IH"[OF m1(3) _ nr(2)]
  from sm_spec_record[OF "2.prems"(2) m1(2) nr(1)] show ?case
  proof (elim disjE exE conjE)
    assume "m1 k = Some l"
    from IH[OF this] sub show ?thesis by blast
  next
    fix l' assume l': "m1 k = Some l'" "lr_version l' = of_nat n" "updates args k" "r = Some RET_OK"
    then have "n \<in> updates_in parse log k (Executed n r # tr)" using m1(1) by (auto simp: updates_in_def)
    with IH[OF l'(1)] l'(2) sub show ?thesis by auto
  qed
next
  case (3 parse log j tr m m')
  then have n: "j \<noteq> k" "\<not> released_in parse log k tr" by (auto simp: released_in_def)
  have "updates_in parse log k (Deleted j # tr) = updates_in parse log k tr" by (simp add: updates_in_def)
  moreover have "trace_to parse log tr (m(j := None)) m'" "(m(j := None)) k = Some l" using 3 n(1) by simp_all
  from "3.IH"[OF this n(2)] have "\<exists>l'. m' k = Some l' \<and> (lr_version l' = lr_version l \<or> lr_version l' \<in> of_nat ` updates_in parse log k tr)" .
  ultimately show ?case by (simp only:)
qed simp

text \<open>C7: A lock that was granted passes to a later request only by a release, executed from the log or made
  on the map itself, or to a request that names the number of this grant or of a later update of the key: a client
  that does not know of the latest grant cannot take the lock, so of the clients that compete with what they have
  read before only one gets it. (A client that does know of it can: the expiry is not checked here, the clients wait for it.)\<close>

theorem Acquire_exclusive:
  assumes reach: "lock_reach env gid log b s0 tr e c s" "fresh_group env gid b s0" "b \<le> length log"
    and user: "user_log (ParseLockPaxosArgs env) (indexed log)"
    and tr: "tr = pre @ Executed i (Some RET_OK) # mid @ Executed j (Some RET_OK) # post"
    and a1: "ParseLockPaxosArgs env (log ! i) = Some args1" "acquires args1 k ver1" "\<not> releases args1 k"
    and a2: "ParseLockPaxosArgs env (log ! j) = Some args2" "acquires args2 k ver2"
  shows "released_in (ParseLockPaxosArgs env) log k mid
    \<or> ver2 \<in> of_nat ` insert i (updates_in (ParseLockPaxosArgs env) log k mid)"
proof (cases "released_in (ParseLockPaxosArgs env) log k mid")
  case False
  let ?p = "ParseLockPaxosArgs env"
  have "trace_to ?p log tr (group_map s0 gid) (group_map s gid)"
    using lock_reach_inv[OF reach user] by (simp add: lock_inv_def)
  then obtain m0 m1 m2 m3 where m: "sm_spec (of_nat i) args1 m0 = (Some RET_OK, m1)" "trace_to ?p log mid m1 m2"
    "sm_spec (of_nat j) args2 m2 = (Some RET_OK, m3)"
    using a1(1) a2(1) by (auto simp: tr trace_to_append)
  obtain v where v: "update_of (of_nat i) args1 = Some (False, \<lparr>rk_version = ver1, rk_key = k\<rparr>, v)" "lr_version v = of_nat i"
    "lr_lease_time_ms v \<noteq> 0"
    using acquires_update[OF a1(2), of "of_nat i"] a1(3) by blast
  with m(1) have "\<exists>l. m1 k = Some l \<and> lr_version l = of_nat i"
    by (auto simp: sm_spec_def cas_spec_def split: if_splits)
  then obtain l where l: "m1 k = Some l" "lr_version l = of_nat i" by blast
  from trace_held[OF m(2) l(1) False] obtain l' where l': "m2 k = Some l'"
    "lr_version l' = of_nat i \<or> lr_version l' \<in> of_nat ` updates_in ?p log k mid" using l(2) by auto
  obtain v2 where "update_of (of_nat j) args2 = Some (False, \<lparr>rk_version = ver2, rk_key = k\<rparr>, v2)"
    using acquires_update[OF a2(2)] by blast
  then have "lr_version l' = ver2" using m(3) l'(1) by (auto simp: sm_spec_def cas_spec_def split: if_splits)
  with l'(2) show ?thesis by auto
qed simp

subsection \<open>The requests and the restart are runs of these steps\<close>

text \<open>When \<open>Propose\<close> makes steps of the group, so does a whole \<open>AcquireLock\<close> request.\<close>

lemma AcquireLock_steps:
  assumes reach: "lock_reach env gid log b s0 tr e c s"
    and gid: "lock_group env s (lk_lock_key (al_lock_info req)) = Some gid"
    and px: "\<forall>buf t i res s'. Propose gid buf s = (t, i, res, s') \<longrightarrow> (\<exists>tr' e' c'. lock_reach env gid log b s0 tr' e' c' s')"
    and run: "Lock_AcquireLock env Propose s req resp = Some (ret, resp', s')"
  shows "\<exists>tr' e' c'. lock_reach env gid log b s0 tr' e' c' s'"
proof -
  let ?k = "lk_lock_key (al_lock_info req)"
  let ?buf = "SerializeLockPaxosArgs env \<lparr>pa_acquire_lock_req = Some req, pa_set_string_req = None, pa_lock_master_addr = Addr_default\<rparr>"
  obtain t i res s1 where p: "Propose gid ?buf s = (t, i, res, s1)" by (metis prod_cases4)
  then obtain tr1 e1 c1 where r1: "lock_reach env gid log b s0 tr1 e1 c1 s1" using px by blast
  have pa: "PaxosAcquireLock env Propose s req = Some (propose_result t res, s1)"
    using gid p by (simp add: PaxosAcquireLock_def)
  have "s' = s \<or> s' = s1 \<or> (\<exists>g ret m. ?k \<noteq> [] \<and> at (ls_groups s1) gid = Some g \<and> DeleteLock (le_ldb env) (gd_map g) ?k False = Some (ret, m)
      \<and> s' = s1\<lparr>ls_groups := put_at (ls_groups s1) gid (g\<lparr>gd_map := m\<rparr>)\<rparr>)"
    using run gid pa
    by (auto simp: Lock_AcquireLock_def Let_def split: if_splits prod.splits bind_splits)
  then show ?thesis using reach r1 lock_reach.release[OF r1] by metis
qed

text \<open>The runs start at what \<open>LockMgr::Init\<close> recovers: the map is what was on the disk, and phxpaxos goes on after
  the restart point.\<close>

lemma init_group_fresh:
  assumes laws: "leveldb_laws (le_ldb env)" "leveldb_up (le_ldb env)" and opened: "Ldb_Open (le_ldb env) dir = Some d"
    and good: "\<forall>e \<in> set (Ldb_entries (le_ldb env) d). good_entry (le_ldb env) e"
    and plain: "\<forall>k vstr. user_key k \<and> map_of (Ldb_entries (le_ldb env) d) k = Some vstr \<longrightarrow>
        (\<exists>v. ParseRecord (le_ldb env) vstr = Some v \<and> lr_expire_time_ms v = 0)"
    and b: "(of_nat b :: u64) = restart_point (map_of (Ldb_entries (le_ldb env) d)) + 1"
    and s: "0 \<le> gid" "nat gid < length (ls_groups s)" "nat gid < length (ls_last_sync_ms s)" "\<not> no_leveldb (ls_opt s)"
    and run: "init_group (le_ldb env) clock dir = Some g" and g: "ls_groups s ! nat gid = g"
  shows "fresh_group env gid b s"
proof -
  let ?L = "le_ldb env"
  obtain d' where m: "\<forall>k. map_of (db_map (gd_map g)) k =
         (if user_key k then map_of (Ldb_entries ?L d) k \<bind> (\<lambda>vstr. map_option (recovered (clock k)) (ParseRecord ?L vstr)) else None)"
    and cp: "disk_checkpoint g = restart_point (map_of (Ldb_entries ?L d))" "memory_checkpoint g = disk_checkpoint g"
      "last_instance_id g = disk_checkpoint g"
    and inv: "map_inv (gd_map g)" and d': "disk_open ?L (gd_leveldb g) d'"
      "\<forall>k. user_key k \<longrightarrow> map_of (Ldb_entries ?L d') k = map_of (Ldb_entries ?L d) k"
    using init_group_state[OF laws opened good, of clock] run by auto
  have db: "db_leveldb (gd_leveldb g) = Some d'" using d'(1) by (simp add: disk_open_def)
  have same: "disk_view ?L (gd_leveldb g) k = map_view (gd_map g) k" for k
  proof (cases "user_key k \<and> map_of (Ldb_entries ?L d) k \<noteq> None")
    case True
    then obtain vstr v where v: "map_of (Ldb_entries ?L d) k = Some vstr" "ParseRecord ?L vstr = Some v" "lr_expire_time_ms v = 0"
      using plain by blast
    then show ?thesis using True m d'(2) db by (simp add: disk_view_def map_view_def recovered_def unexp_def)
  next
    case False
    then show ?thesis using m d'(2) db by (auto simp: disk_view_def map_view_def)
  qed
  have "disk_inv ?L (gd_leveldb g)" using d' plain db unfolding disk_inv_def disk_open_def by auto
  then show ?thesis
    using s cp b inv same g by (simp add: fresh_group_def wf_group_def group_disk_def group_map_def fun_eq_iff)
qed

end
