(* ===== verification/LockSample.thy ===== *)
theory LockSample
  imports LockSystem
begin

section \<open>A sample lock\<close>

text \<open>
  A concrete database (a list of writes, newest first), record format (decimal numbers, then the
  value) and lock with one group, on which the theorems of the lock service are applied.
\<close>

subsection \<open>The database\<close>

type_synonym sample_db = "(string \<times> string) list"

definition canon :: "sample_db \<Rightarrow> sample_db" where
  "canon d = foldr (\<lambda>(k, v). map_assign k v) d []"

definition sample_serialize :: "LocalRecordInfo \<Rightarrow> string" where
  "sample_serialize v = to_string (unat (lr_version v)) @ CHR ''|'' # to_string (unat (lr_lease_time_ms v))
     @ CHR ''|'' # to_string (unat (lr_expire_time_ms v)) @ CHR ''|'' # lr_value v"

definition parse_field :: "string \<Rightarrow> u64 \<times> string" where
  "parse_field s = (strtoul (takeWhile is_digit s), tl (dropWhile is_digit s))"

definition sample_parse_record :: "string \<Rightarrow> LocalRecordInfo" where
  "sample_parse_record s =
     (let (a, s) = parse_field s; (b, s) = parse_field s; (c, s) = parse_field s
      in \<lparr>lr_version = a, lr_value = s, lr_lease_time_ms = b, lr_expire_time_ms = c\<rparr>)"

definition sample_ldb :: "sample_db LevelDB" where
  "sample_ldb =
     \<lparr>Ldb_Open = (\<lambda>dir. Some (if dir = ''m/0''
        then [(''k'', sample_serialize \<lparr>lr_version = 3, lr_value = ''z'', lr_lease_time_ms = 500, lr_expire_time_ms = 0\<rparr>),
              (KEY_IGNORE_CHECKPOINT, to_string (unat (4 :: u64))),
              (KEY_IGNORE_RESTART_CHECKPOINT, to_string (unat (9 :: u64)))]
        else [])),
      Ldb_Get = (\<lambda>d k. case map_of d k of Some v \<Rightarrow> (Status_OK, v) | None \<Rightarrow> (Status_NotFound, [])),
      Ldb_Put = (\<lambda>d sync k v. (Status_OK, (k, v) # d)),
      Ldb_Delete = (\<lambda>d sync k. (Status_OK, map_erase k d)),
      Ldb_entries = canon,
      ParseRecord = (\<lambda>s. Some (sample_parse_record s)),
      SerializeRecord = (\<lambda>v. Some (sample_serialize v))\<rparr>"

lemma canon_props: "wf_map (canon d) \<and> map_of (canon d) = map_of d"
  by (induction d) (auto simp: canon_def wf_map_assign map_of_assign)

lemma parse_field_to_string: "parse_field (to_string (unat x) @ CHR ''|'' # rest) = (x, rest)"
proof -
  have "\<forall>c \<in> set (to_string (unat x)). is_digit c" using to_string_digits by blast
  moreover have "\<not> is_digit (CHR ''|'')" by (simp add: is_digit_iff)
  ultimately show ?thesis
    by (simp add: parse_field_def takeWhile_append2 dropWhile_append2 strtoul_to_string)
qed

lemma sample_record_roundtrip: "sample_parse_record (sample_serialize v) = v"
  by (simp add: sample_parse_record_def sample_serialize_def parse_field_to_string)

lemma sample_laws: "leveldb_laws sample_ldb" "leveldb_up sample_ldb"
  by (auto simp: leveldb_laws_def leveldb_up_def sample_ldb_def canon_props sample_record_roundtrip map_of_erase
      split: option.splits)

subsection \<open>The lock\<close>

text \<open>
  The values of the log: \<open>A\<close> and \<open>B\<close> are acquire requests of two clients for the key \<open>k\<close> naming
  version 0, \<open>M\<close> carries no request, \<open>R3\<close> and \<open>R5\<close> release it naming version 3 and 5, and any other value starting with
  \<open>C\<close> is a proposal of the clean thread.
\<close>

definition sample_acquire :: "string \<Rightarrow> u64 \<Rightarrow> u64 \<Rightarrow> AcquireLockRequest" where
  "sample_acquire client ver lease = \<lparr>al_topic_id = 1000, al_lock_id = 1,
     al_lock_info = \<lparr>lk_lock_key = ''k'', lk_version = ver, lk_client_id = client, lk_lease_time_ms = lease\<rparr>,
     al_master_addr = Addr_default\<rparr>"

definition sample_lock_parse :: "string \<Rightarrow> LockPaxosArgs option" where
  "sample_lock_parse v =
     (if v = ''A'' then Some (acquire_args (sample_acquire ''x'' 0 1000))
      else if v = ''B'' then Some (acquire_args (sample_acquire ''y'' 0 1000))
      else if v = ''R3'' then Some (acquire_args (sample_acquire ''z'' 3 0))
      else if v = ''M'' then Some \<lparr>pa_acquire_lock_req = None, pa_set_string_req = None, pa_lock_master_addr = Addr_default\<rparr>
      else if v = ''R5'' then Some (acquire_args (sample_acquire ''x'' 5 0))
      else case v of [] \<Rightarrow> None | _ # v \<Rightarrow> (let (ver, key) = parse_field v in Some (clean_args key ver)))"

definition sample_lock_serialize :: "LockPaxosArgs \<Rightarrow> string" where
  "sample_lock_serialize args =
     (if args = acquire_args (sample_acquire ''x'' 0 1000) then ''A''
      else case pa_acquire_lock_req args of
        None \<Rightarrow> []
      | Some req \<Rightarrow> CHR ''C'' # to_string (unat (lk_version (al_lock_info req))) @ CHR ''|'' # lk_lock_key (al_lock_info req))"

definition sample_lock_env :: "sample_db LockEnv" where
  "sample_lock_env = \<lparr>le_ldb = sample_ldb, le_config = GlobalConfig_empty, le_inet_addr = (\<lambda>_. 0x0100007F),
     le_hash = (\<lambda>_. 0), le_IsIMMaster = (\<lambda>_. True), le_GetMaster = (\<lambda>_. ([], 0)),
     le_GetNowInstanceID = (\<lambda>_. 7), ParseLockPaxosArgs = sample_lock_parse,
     SerializeLockPaxosArgs = sample_lock_serialize\<rparr>"

definition sample_held_record :: LocalRecordInfo where
  "sample_held_record = \<lparr>lr_version = 3, lr_value = ''z'', lr_lease_time_ms = 500, lr_expire_time_ms = 0\<rparr>"

definition sample_group :: "bool \<Rightarrow> u64 \<Rightarrow> sample_db GroupData" where
  "sample_group held cp = \<lparr>
     gd_map = LockDb_init\<lparr>storage_type := MAP, db_map := (if held then [(''k'', sample_held_record)] else [])\<rparr>,
     gd_leveldb = LockDb_init\<lparr>storage_type := LEVELDB,
       db_leveldb := Some (if held then [(''k'', sample_serialize sample_held_record)] else [])\<rparr>,
     last_instance_id = cp, memory_checkpoint = cp, disk_checkpoint = cp\<rparr>"

definition sample_lock :: "bool \<Rightarrow> u64 \<Rightarrow> sample_db LockState" where
  "sample_lock held cp = \<lparr>ls_opt = LockOption_default\<lparr>nr_group := 1\<rparr>, ls_topic_id = 1000,
     ls_addr = Addr_default, ls_groups = [sample_group held cp], ls_last_sync_ms = [0], ls_dropped_masters = []\<rparr>"

lemma sample_env_simps [simp]:
  "le_ldb sample_lock_env = sample_ldb" "ParseLockPaxosArgs sample_lock_env = sample_lock_parse"
  "SerializeLockPaxosArgs sample_lock_env = sample_lock_serialize" "le_IsIMMaster sample_lock_env g"
  by (simp_all add: sample_lock_env_def)

lemma sample_parse_simps [simp]:
  "sample_lock_parse ''A'' = Some (acquire_args (sample_acquire ''x'' 0 1000))"
  "sample_lock_parse ''B'' = Some (acquire_args (sample_acquire ''y'' 0 1000))"
  "sample_lock_parse ''R3'' = Some (acquire_args (sample_acquire ''z'' 3 0))"
  "sample_lock_parse ''R5'' = Some (acquire_args (sample_acquire ''x'' 5 0))"
  by (simp_all add: sample_lock_parse_def)

lemma sample_user_key: "user_key ''k''"
  by (simp add: user_key_def KEY_IGNORE_PREFIX_def)

lemma sample_user_args: "user_args (acquire_args (sample_acquire client ver lease))"
  by (simp add: user_acquire sample_acquire_def sample_user_key)

lemma sample_user_log:
  "user_log sample_lock_parse [(5, ''A''), (6, ''B'')]" "user_log sample_lock_parse [(5, ''A''), (6, ''R5''), (7, ''A'')]"
  "user_log sample_lock_parse [(5, ''A''), (6, ''R3'')]" "user_log sample_lock_parse [(5, ''A'')]"
  by (simp_all add: user_log_def sample_user_args)

lemma sample_lock_wf:
  "wf_group (sample_lock held cp) 0" "disk_inv sample_ldb (gd_leveldb (ls_groups (sample_lock held cp) ! nat 0))"
  "\<not> no_leveldb (ls_opt (sample_lock held cp))"
proof -
  show "wf_group (sample_lock held cp) 0"
    by (simp add: wf_group_def sample_lock_def sample_group_def map_inv_def)
  show "disk_inv sample_ldb (gd_leveldb (ls_groups (sample_lock held cp) ! nat 0))"
    using sample_laws sample_record_roundtrip
    by (auto simp: disk_inv_def sample_lock_def sample_group_def sample_ldb_def canon_props sample_held_record_def
        split: if_splits)
  show "\<not> no_leveldb (ls_opt (sample_lock held cp))" by (simp add: sample_lock_def LockOption_default_def)
qed

lemma sample_lock_views:
  "group_map (sample_lock held cp) 0 = (if held then [''k'' \<mapsto> sample_held_record] else Map.empty)"
  "group_disk sample_ldb (sample_lock held cp) 0 = (if held then [''k'' \<mapsto> sample_held_record] else Map.empty)"
  using sample_user_key
  by (auto simp: group_map_def group_disk_def sample_lock_def sample_group_def map_view_def disk_view_def fun_eq_iff
      sample_held_record_def unexp_def sample_ldb_def canon_props sample_record_roundtrip)

lemma sample_sm_spec:
  "sm_spec i (acquire_args (sample_acquire client ver lease)) m =
     (if (case m ''k'' of None \<Rightarrow> True | Some l \<Rightarrow> lr_version l = ver)
      then (Some RET_OK, m(''k'' := if lease = 0 then None else
        Some \<lparr>lr_version = i, lr_value = client, lr_lease_time_ms = lease, lr_expire_time_ms = 0\<rparr>))
      else (Some RET_ERR_VERSION_NOT_EQUAL, m))"
  by (simp add: sm_spec_def update_of_acquire sample_acquire_def cas_spec_def unexp_def Let_def split: option.split)

lemma sample_execute:
  assumes "wf_group s 0" and "sample_lock_parse pv = Some (acquire_args (sample_acquire client ver lease))"
  shows "\<exists>r s'. LockSM_Execute sample_lock_env (\<lambda>_. 10) True s 0 i pv = Some (True, r, s')
    \<and> wf_group s' 0 \<and> ls_opt s' = ls_opt s
    \<and> (r, group_map s' 0) = sm_spec i (acquire_args (sample_acquire client ver lease)) (group_map s 0)
    \<and> group_disk sample_ldb s' 0 = group_disk sample_ldb s 0
    \<and> gd_leveldb (ls_groups s' ! nat 0) = gd_leveldb (ls_groups s ! nat 0)
    \<and> memory_checkpoint (ls_groups s' ! nat 0) = memory_checkpoint (ls_groups s ! nat 0)
    \<and> last_instance_id (ls_groups s' ! nat 0) = (if r = None then last_instance_id (ls_groups s ! nat 0) else i)"
  using LockSM_Execute_spec[where env = sample_lock_env and s = s and gid = 0 and clock = "\<lambda>_. 10" and node = True
      and i = i, OF assms(1) _ sample_user_args, simplified, OF assms(2)]
  by (simp del: One_nat_def)

lemma sample_mirror:
  assumes "wf_group s 0" and "sample_lock_parse pv = Some (acquire_args (sample_acquire client ver lease))"
    and "i \<noteq> NoID" and "disk_inv sample_ldb (gd_leveldb (ls_groups s ! nat 0))" and "\<not> no_leveldb (ls_opt s)"
  shows "\<exists>s'. LockSM_ExecuteForCheckpoint sample_lock_env (\<lambda>_. 10) s 0 i pv = Some (True, s')
    \<and> wf_group s' 0 \<and> disk_inv sample_ldb (gd_leveldb (ls_groups s' ! nat 0)) \<and> ls_opt s' = ls_opt s
    \<and> group_disk sample_ldb s' 0 =
        snd (sm_spec i (acquire_args (sample_acquire client ver lease)) (group_disk sample_ldb s 0))
    \<and> group_map s' 0 = group_map s 0
    \<and> last_instance_id (ls_groups s' ! nat 0) = last_instance_id (ls_groups s ! nat 0)
    \<and> memory_checkpoint (ls_groups s' ! nat 0) =
        (if fst (sm_spec i (acquire_args (sample_acquire client ver lease)) (group_disk sample_ldb s 0)) = Some RET_OK
         then i else memory_checkpoint (ls_groups s ! nat 0))
    \<and> (word_of_int (checkpoint_interval (ls_opt s)) > i - disk_checkpoint (ls_groups s ! nat 0)
         \<and> 10 \<le> ls_last_sync_ms s ! nat 0 + 60000
         \<longrightarrow> disk_checkpoint (ls_groups s' ! nat 0) = disk_checkpoint (ls_groups s ! nat 0)
             \<and> ls_last_sync_ms s' = ls_last_sync_ms s)"
  using LockSM_ExecuteForCheckpoint_spec[where env = sample_lock_env and s = s and gid = 0 and clock = "\<lambda>_. 10"
      and i = i, OF assms(1) _ sample_user_args assms(3), simplified, OF assms(2,4,5)[simplified]]
  by (simp add: not_le not_less)

subsection \<open>The theorems on the sample\<close>

lemma sample_disk_open:
  "disk_open sample_ldb (gd_leveldb (sample_group False 4)) []"
  by (simp add: disk_open_def sample_laws sample_group_def)

theorem WriteDiskCheckpoint_read_witness:
  "\<exists>g'. WriteDiskCheckpoint sample_ldb (sample_group False 4) 12 = Some (RET_OK, g')
     \<and> ReadDiskCheckpoint sample_ldb g' = Some (RET_OK, 12, g')"
  by (rule WriteDiskCheckpoint_read[OF sample_disk_open]) simp

theorem init_group_recovers_witness:
  "\<exists>d g. Ldb_Open sample_ldb ''m/0'' = Some d \<and> init_group sample_ldb (\<lambda>_. 100) ''m/0'' = Some g
     \<and> disk_checkpoint g = restart_point (map_of (Ldb_entries sample_ldb d))"
proof -
  let ?d = "the (Ldb_Open sample_ldb ''m/0'')"
  have o: "Ldb_Open sample_ldb ''m/0'' = Some ?d" by (simp add: sample_ldb_def)
  have "\<forall>e \<in> set (canon ?d). fst e \<in> {''k'', KEY_IGNORE_CHECKPOINT, KEY_IGNORE_RESTART_CHECKPOINT}"
    by (simp add: sample_ldb_def canon_def keys_map_assign image_iff flip: ball_simps)
       (use keys_map_assign in fastforce)
  then have "\<forall>e \<in> set (Ldb_entries sample_ldb ?d). good_entry sample_ldb e"
    using key_lemmas by (auto simp: good_entry_def sample_ldb_def)
  from init_group_recovers[OF sample_laws o this, of "\<lambda>_. 100"] show ?thesis using o by blast
qed

theorem Replicas_agree_witness:
  "\<exists>rs s1' s2' s3'. execute_log sample_lock_env True 0 (\<lambda>_ _. 10) [(5, ''A''), (6, ''B'')] (sample_lock True 4) = Some (rs, s1')
     \<and> execute_log sample_lock_env False 0 (\<lambda>_ _. 99) [(5, ''A''), (6, ''B'')] (sample_lock True 0) = Some (rs, s2')
     \<and> checkpoint_log sample_lock_env 0 (\<lambda>_ _. 55) [(5, ''A''), (6, ''B'')] (sample_lock True 4) = Some s3'
     \<and> group_map s2' 0 = group_map s1' 0 \<and> group_disk (le_ldb sample_lock_env) s3' 0 = group_map s1' 0"
  by (rule Replicas_agree) (simp_all add: sample_lock_wf sample_lock_wf(2)[simplified] sample_user_log sample_lock_views)

theorem Held_lock_stays_witness:
  "\<exists>rs s'. execute_log sample_lock_env True 0 (\<lambda>_ _. 10) [(5, ''A''), (6, ''B'')] (sample_lock True 4) = Some (rs, s')
     \<and> group_map s' 0 ''k'' = Some sample_held_record"
  by (rule Held_lock_stays)
    (simp_all add: sample_lock_wf sample_user_log sample_lock_views names_def update_of_acquire sample_acquire_def
      sample_held_record_def Let_def)

subsection \<open>The service on the sample\<close>

definition sample_lock_propose :: "sample_db propose" where
  "sample_lock_propose = (\<lambda>gid buf s.
     case LockSM_Execute sample_lock_env (\<lambda>_. 10) True s gid 5 buf of
       Some (True, r, s') \<Rightarrow> (TryCommit_OK, 5, case r of None \<Rightarrow> RET_OK | Some r \<Rightarrow> r, s')
     | _ \<Rightarrow> (TryCommit_Timeout, 0, RET_OK, s))"

lemma sample_proposes: "lock_proposes sample_lock_env sample_lock_propose s 0 buf"
proof -
  have "\<exists>node clocks clock log rs s1 r. user_log (ParseLockPaxosArgs sample_lock_env) log
         \<and> execute_log sample_lock_env node 0 clocks log s = Some (rs, s1)
         \<and> LockSM_Execute sample_lock_env clock node s1 0 i buf = Some (True, r, s')
         \<and> res = (case r of None \<Rightarrow> RET_OK | Some r \<Rightarrow> r)"
    if "sample_lock_propose 0 buf s = (TryCommit_OK, i, res, s')" for i res s'
  proof -
    have run: "\<exists>r. LockSM_Execute sample_lock_env (\<lambda>_. 10) True s 0 5 buf = Some (True, r, s')
        \<and> res = (case r of None \<Rightarrow> RET_OK | Some r \<Rightarrow> r) \<and> i = 5"
      using that by (auto simp: sample_lock_propose_def split: option.splits prod.splits bool.splits)
    show ?thesis
      by (rule exI[of _ True], rule exI[of _ "\<lambda>_ _. 10"], rule exI[of _ "\<lambda>_. 10"], rule exI[of _ "[]"],
          rule exI[of _ "[]"], rule exI[of _ s]) (use run in \<open>auto simp: user_log_def\<close>)
  qed
  then show ?thesis unfolding lock_proposes_def by blast
qed

lemma sample_executes: "executes_or_fails sample_lock_env sample_lock_propose"
  by (auto simp: executes_or_fails_def sample_lock_propose_def split: option.splits prod.splits bool.splits)

lemma sample_clean_roundtrip: "sample_lock_parse (sample_lock_serialize (clean_args key ver)) = Some (clean_args key ver)"
proof -
  have "clean_args key ver \<noteq> acquire_args (sample_acquire ''x'' 0 1000)"
    by (simp add: clean_args_def acquire_args_def sample_acquire_def)
  then have ser: "sample_lock_serialize (clean_args key ver) = CHR ''C'' # to_string (unat ver) @ CHR ''|'' # key"
    by (simp add: sample_lock_serialize_def clean_args_def)
  show ?thesis unfolding ser by (simp add: sample_lock_parse_def parse_field_to_string)
qed

lemma sample_lock_group [simp]: "lock_group env (sample_lock held cp) key = Some 0"
  by (simp add: lock_group_def sample_lock_def)

theorem Lock_needs_master_witness:
  "\<exists>ret a. ret \<noteq> RET_OK \<and> Lock_SetString (sample_lock_env\<lparr>le_IsIMMaster := \<lambda>_. False\<rparr>) sample_lock_propose
     (sample_lock False 4) \<lparr>ss_topic_id = 1000, ss_lock_id = 1, ss_string_info =
        \<lparr>si_key = ''k'', si_version = 0, si_value = ''v'', si_lease_time_ms = 10\<rparr>, ss_master_addr = Addr_default\<rparr> None
     = Some (ret, Some a, sample_lock False 4)"
proof -
  have k: "''k'' \<noteq> []" and g: "lock_group (sample_lock_env\<lparr>le_IsIMMaster := \<lambda>_. False\<rparr>) (sample_lock False 4) ''k'' = Some 0"
    and m: "\<not> le_IsIMMaster (sample_lock_env\<lparr>le_IsIMMaster := \<lambda>_. False\<rparr>) 0" by simp_all
  from Lock_needs_master[OF k g m, of sample_lock_propose None] show ?thesis by fastforce
qed

theorem AcquireLock_grants_witness:
  "\<exists>resp s' i. Lock_AcquireLock sample_lock_env sample_lock_propose (sample_lock False 4)
       (sample_acquire ''x'' 0 1000) None = Some (RET_OK, resp, s')
     \<and> group_map s' 0 ''k'' = Some \<lparr>lr_version = i, lr_value = ''x'', lr_lease_time_ms = 1000, lr_expire_time_ms = 0\<rparr>"
proof -
  let ?req = "sample_acquire ''x'' 0 1000" and ?s = "sample_lock False 4"
  have ser: "sample_lock_serialize (acquire_args ?req) = ''A''" by (simp add: sample_lock_serialize_def)
  obtain r s1 where e: "LockSM_Execute sample_lock_env (\<lambda>_. 10) True ?s 0 5 ''A'' = Some (True, r, s1)"
    "(r, group_map s1 0) = sm_spec 5 (acquire_args ?req) (group_map ?s 0)"
    using sample_execute[OF sample_lock_wf(1) sample_parse_simps(1), of False 4 5] by blast
  have r: "r = Some RET_OK" using e(2) by (simp add: sample_lock_views sample_sm_spec)
  have g: "GetLock sample_ldb (gd_map (sample_group False 4)) ''k'' = Some (Inl RET_ERR_KEY_NOT_EXIST)"
    by (simp add: GetLock_def GetRecord_def KEY_USER_LOCK_PREFIX_def sample_group_def)
  have ok: "Lock_AcquireLock sample_lock_env sample_lock_propose ?s ?req None = Some (RET_OK, Some (addr_or_default None), s1)"
  proof -
    have "PaxosAcquireLock sample_lock_env sample_lock_propose ?s ?req = Some (RET_OK, s1)"
      using e(1) r by (simp add: PaxosAcquireLock_def acquire_args_def[symmetric] ser sample_lock_propose_def propose_result_def)
    moreover have "at (ls_groups ?s) 0 = Some (sample_group False 4)" by (simp add: sample_lock_def at_def)
    ultimately show ?thesis
      by (simp add: Lock_AcquireLock_def Let_def Lock_CheckMaster_def g acquire_refused_def sample_acquire_def)
  qed
  have "\<exists>i. group_map s1 0 ''k'' = Some \<lparr>lr_version = i, lr_value = lk_client_id (al_lock_info ?req),
            lr_lease_time_ms = lk_lease_time_ms (al_lock_info ?req), lr_expire_time_ms = 0\<rparr>
    \<and> (\<forall>q r. gl_lock_key q = ''k'' \<longrightarrow> (\<exists>r' info. Lock_GetLockInfo sample_lock_env s1 q r = Some (RET_OK, r')
         \<and> gl_lock_info r' = Some info \<and> lk_client_id info = lk_client_id (al_lock_info ?req) \<and> lk_version info = i))"
    by (rule AcquireLock_grants[OF _ _ sample_user_key _ sample_lock_group sample_lock_wf(1) _ sample_proposes ok])
      (simp_all add: sample_acquire_def[of "''x''" 0 1000] ser[unfolded sample_acquire_def])
  with ok show ?thesis by (auto simp: sample_acquire_def)
qed

theorem Release_not_replicated_witness:
  "\<exists>resp s'. Lock_AcquireLock sample_lock_env (\<lambda>gid buf s. (TryCommit_Timeout, 0, RET_OK, s)) (sample_lock True 4)
       (sample_acquire ''z'' 3 0) None = Some (RET_OK, resp, s')
     \<and> group_map s' 0 ''k'' = None
     \<and> group_disk (le_ldb sample_lock_env) s' 0 = group_disk (le_ldb sample_lock_env) (sample_lock True 4) 0"
  by (rule Release_not_replicated[where l = sample_held_record and i = 0 and res = RET_OK])
    (simp_all add: sample_lock_wf, simp_all add: sample_acquire_def sample_lock_def sample_group_def sample_held_record_def)

theorem CleanRecord_keeps_live_witness:
  "\<exists>counts s'. CleanRecord sample_lock_env sample_lock_propose 0 0 (0, 0) (sample_lock True 4) = Some (counts, s')
     \<and> map_of (db_map (gd_map (ls_groups s' ! nat 0))) ''k'' = Some sample_held_record"
  by (rule CleanRecord_keeps_live[OF sample_executes _ sample_lock_wf(1)])
    (simp_all add: sample_clean_roundtrip, simp_all add: sample_lock_def sample_group_def)

subsection \<open>The threads of the sample\<close>

lemma sample_fresh: "fresh_group sample_lock_env 0 b (sample_lock False (of_nat b - 1))"
  using sample_lock_wf[of False "of_nat b - 1"]
  by (simp add: fresh_group_def sample_lock_views) (simp add: sample_lock_def sample_group_def)

lemma sample_user_indexed:
  "user_log (ParseLockPaxosArgs sample_lock_env) (indexed [''A'', ''M''])"
  "user_log (ParseLockPaxosArgs sample_lock_env) (indexed [''M'', ''A'', ''A''])"
  by (simp_all add: user_log_def indexed_def sample_user_args upt_rec)
    (simp_all add: sample_lock_parse_def user_args_def update_of_def)

theorem Lock_group_refines_log_witness:
  "\<exists>s r. LockSM_Execute sample_lock_env (\<lambda>_. 10) True (sample_lock False (of_nat 0 - 1)) 0 0 ''A'' = Some (True, r, s)
     \<and> group_map s 0 = snd (spec_log sample_lock_parse [(0, ''A'')] Map.empty)"
proof -
  let ?s0 = "sample_lock False (of_nat 0 - 1)"
  obtain r s where e: "LockSM_Execute sample_lock_env (\<lambda>_. 10) True ?s0 0 0 ''A'' = Some (True, r, s)"
    using sample_execute[OF sample_lock_wf(1) sample_parse_simps(1)] by blast
  have "lock_reach sample_lock_env 0 [''A'', ''M''] 0 ?s0 ([] @ [Executed 0 r]) (Suc 0) 0 s"
    by (rule lock_reach.execute[OF lock_reach.start, where clock = "\<lambda>_. 10" and node = True and ok = True]) (simp_all add: e[simplified])
  from Lock_group_refines_log[OF this sample_fresh _ sample_user_indexed(1)] show ?thesis
    using e by (auto simp: sample_lock_views since_def indexed_def upt_rec fun_eq_iff)
qed

text \<open>The lock is granted, its record is deleted from the map itself, and it is granted again.\<close>

theorem Acquire_exclusive_witness:
  "\<exists>s. lock_reach sample_lock_env 0 [''M'', ''A'', ''A''] 1 (sample_lock False (of_nat 1 - 1))
      [Executed 1 (Some RET_OK), Deleted ''k'', Executed 2 (Some RET_OK)] 3 1 s
    \<and> released_in (ParseLockPaxosArgs sample_lock_env) [''M'', ''A'', ''A''] ''k'' [Deleted ''k'']"
proof -
  let ?s0 = "sample_lock False (of_nat 1 - 1)" and ?log = "[''M'', ''A'', ''A'']"
  let ?A = "acquire_args (sample_acquire ''x'' 0 1000)"
  obtain r1 s1 where e1: "LockSM_Execute sample_lock_env (\<lambda>_. 10) True ?s0 0 1 ''A'' = Some (True, r1, s1)" "wf_group s1 0"
    "(r1, group_map s1 0) = sm_spec 1 ?A (group_map ?s0 0)"
    using sample_execute[OF sample_lock_wf(1) sample_parse_simps(1)] by blast
  have g1: "r1 = Some RET_OK" "group_map s1 0 ''k'' \<noteq> None" using e1(3) by (simp_all add: sample_lock_views sample_sm_spec)
  let ?g = "ls_groups s1 ! nat 0"
  have at1: "at (ls_groups s1) 0 = Some ?g" and m1: "map_inv (gd_map ?g)" using wf_groupD(1,3)[OF e1(2)] by simp_all
  obtain ret m where d: "DeleteLock sample_ldb (gd_map ?g) ''k'' False = Some (ret, m)"
    using m1 by (simp add: DeleteLock_def DeleteRecord_def KEY_USER_LOCK_PREFIX_def map_inv_def)
  have m: "map_inv m" "map_view m = (group_map s1 0)(''k'' := None)"
    using DeleteLock_view[OF m1 _ d] by (simp_all add: group_map_def)
  define s2 where "s2 = s1\<lparr>ls_groups := put_at (ls_groups s1) 0 (?g\<lparr>gd_map := m\<rparr>)\<rparr>"
  have s2: "wf_group s2 0" "group_map s2 0 ''k'' = None"
    using map_frame(1,3)[OF e1(2) at1 m(1)] m(2) by (simp_all add: s2_def)
  obtain r3 s3 where e3: "LockSM_Execute sample_lock_env (\<lambda>_. 10) True s2 0 2 ''A'' = Some (True, r3, s3)"
    "(r3, group_map s3 0) = sm_spec 2 ?A (group_map s2 0)"
    using sample_execute[OF s2(1) sample_parse_simps(1)] by blast
  have r3: "r3 = Some RET_OK" using e3(2) s2(2) by (simp add: sample_sm_spec)
  have "lock_reach sample_lock_env 0 ?log 1 ?s0 ([] @ [Executed 1 r1]) (Suc 1) 1 s1"
    by (rule lock_reach.execute[OF lock_reach.start, where clock = "\<lambda>_. 10" and node = True and ok = True])
      (use e1(1) in simp_all)
  from lock_reach.release[OF this _ at1, of "''k''"] d g1
  have "lock_reach sample_lock_env 0 ?log 1 ?s0 [Executed 1 (Some RET_OK), Deleted ''k''] (Suc 1) 1 s2"
    by (simp add: s2_def)
  then have "lock_reach sample_lock_env 0 ?log 1 ?s0 ([Executed 1 (Some RET_OK), Deleted ''k''] @ [Executed (Suc 1) r3]) (Suc (Suc 1)) 1 s3"
    by (rule lock_reach.execute[where clock = "\<lambda>_. 10" and node = True and ok = True])
      (use e3(1) in \<open>simp_all add: numeral_2_eq_2\<close>)
  then have reach: "lock_reach sample_lock_env 0 ?log 1 ?s0 [Executed 1 (Some RET_OK), Deleted ''k'', Executed 2 (Some RET_OK)] 3 1 s3"
    by (simp add: r3 numeral_3_eq_3 numeral_2_eq_2)
  have rel: "\<not> releases ?A ''k''" by (simp add: releases_def update_of_acquire sample_acquire_def Let_def)
  have acq: "acquires ?A ''k'' 0" by (simp add: acquires_def acquire_args_def sample_acquire_def)
  have "released_in (ParseLockPaxosArgs sample_lock_env) ?log ''k'' [Deleted ''k'']
      \<or> (0 :: u64) \<in> of_nat ` insert 1 (updates_in (ParseLockPaxosArgs sample_lock_env) ?log ''k'' [Deleted ''k''])"
    by (rule Acquire_exclusive[OF reach sample_fresh _ sample_user_indexed(2), where i = 1 and j = 2 and pre = "[]" and post = "[]", OF _ _ _ acq rel _ acq])
      (simp_all add: numeral_2_eq_2)
  then have "released_in (ParseLockPaxosArgs sample_lock_env) ?log ''k'' [Deleted ''k'']" by (auto simp: updates_in_def)
  with reach show ?thesis by blast
qed

theorem Restart_checkpoint_exact_witness:
  "\<exists>s. lock_reach sample_lock_env 0 [''A'', ''M''] 0 (sample_lock False (of_nat 0 - 1)) [Executed 0 (Some RET_OK), Executed 1 None] 2 1 s
     \<and> group_disk (le_ldb sample_lock_env) s 0 = group_map s 0 \<and> group_map s 0 \<noteq> Map.empty"
proof -
  let ?s0 = "sample_lock False (of_nat 0 - 1)" and ?log = "[''A'', ''M'']"
  obtain r s1 where e1: "LockSM_Execute sample_lock_env (\<lambda>_. 10) True ?s0 0 0 ''A'' = Some (True, r, s1)" "wf_group s1 0"
    "ls_opt s1 = ls_opt ?s0"
    "(r, group_map s1 0) = sm_spec 0 (acquire_args (sample_acquire ''x'' 0 1000)) (group_map ?s0 0)"
    "group_disk sample_ldb s1 0 = group_disk sample_ldb ?s0 0"
    "gd_leveldb (ls_groups s1 ! nat 0) = gd_leveldb (ls_groups ?s0 ! nat 0)"
    "last_instance_id (ls_groups s1 ! nat 0) = (if r = None then last_instance_id (ls_groups ?s0 ! nat 0) else 0)"
    using sample_execute[OF sample_lock_wf(1) sample_parse_simps(1)] by blast
  obtain s2 where e2: "LockSM_ExecuteForCheckpoint sample_lock_env (\<lambda>_. 10) s1 0 0 ''A'' = Some (True, s2)" "wf_group s2 0"
    "disk_inv sample_ldb (gd_leveldb (ls_groups s2 ! nat 0))" "group_map s2 0 = group_map s1 0"
    "last_instance_id (ls_groups s2 ! nat 0) = last_instance_id (ls_groups s1 ! nat 0)"
    "memory_checkpoint (ls_groups s2 ! nat 0) =
        (if fst (sm_spec 0 (acquire_args (sample_acquire ''x'' 0 1000)) (group_disk sample_ldb s1 0)) = Some RET_OK
         then 0 else memory_checkpoint (ls_groups s1 ! nat 0))"
  proof -
    have z: "(0 :: u64) \<noteq> NoID" by simp
    have "disk_inv sample_ldb (gd_leveldb (ls_groups s1 ! nat 0))" "\<not> no_leveldb (ls_opt s1)"
      using sample_lock_wf(2,3)[of False "of_nat 0 - 1"] e1(3,6) by simp_all
    then show ?thesis using sample_mirror[OF e1(2) sample_parse_simps(1) z] that by blast
  qed
  let ?g = "ls_groups s2 ! nat 0"
  have r: "r = Some RET_OK" "group_map s1 0 ''k'' \<noteq> None" "last_instance_id ?g = 0" "memory_checkpoint ?g = 0"
    using e1(4,7) e2(5,6) e1(5) by (simp_all add: sample_lock_views sample_sm_spec)
  have at2: "at (ls_groups s2) 0 = Some ?g" using wf_groupD(1)[OF e2(2)] .
  have m: "LockSM_Execute sample_lock_env (\<lambda>_. 10) True s2 0 1 ''M'' = Some (True, None, s2\<lparr>ls_groups := put_at (ls_groups s2) 0 ?g\<rparr>)"
    using at2 by (simp add: LockSM_Execute_def sample_lock_parse_def DoExecute_def Addr_default_def)
  have same: "put_at (ls_groups s2) 0 ?g = ls_groups s2" by (simp add: put_at_def)
  have reach: "lock_reach sample_lock_env 0 ?log 0 ?s0 [Executed 0 (Some RET_OK), Executed 1 None] 2 1 s2"
  proof -
    have "lock_reach sample_lock_env 0 ?log 0 ?s0 ([] @ [Executed 0 r]) (Suc 0) 0 s1"
      by (rule lock_reach.execute[OF lock_reach.start, where clock = "\<lambda>_. 10" and node = True and ok = True]) (simp_all add: e1(1)[simplified])
    then have "lock_reach sample_lock_env 0 ?log 0 ?s0 [Executed 0 r] (Suc 0) (Suc 0) s2"
      using lock_reach.mirror[of sample_lock_env 0 ?log 0 ?s0 "[Executed 0 r]" "Suc 0" 0 s1 "\<lambda>_. 10" True s2] e2(1) by simp
    then have "lock_reach sample_lock_env 0 ?log 0 ?s0 ([Executed 0 r] @ [Executed (Suc 0) None]) (Suc (Suc 0)) (Suc 0) s2"
      by (rule lock_reach.execute[where clock = "\<lambda>_. 10" and node = True and ok = True]) (use m same in simp_all)
    then show ?thesis by (simp add: numeral_2_eq_2 r(1))
  qed
  let ?env = "sample_lock_env\<lparr>le_GetNowInstanceID := \<lambda>_. of_nat 2\<rparr>"
  have guard: "CleanThread_WriteRestartCheckpoint ?env 0 s2 \<noteq> Some s2"
  proof
    assume run: "CleanThread_WriteRestartCheckpoint ?env 0 s2 = Some s2"
    obtain d where d: "disk_open sample_ldb (gd_leveldb ?g) d" using disk_inv_open[OF e2(3)] by blast
    then have st: "db_leveldb (gd_leveldb ?g) = Some d" "storage_type (gd_leveldb ?g) = LEVELDB"
      by (simp_all add: disk_open_def)
    have len: "length (the (db_leveldb (gd_leveldb (ls_groups s' ! nat 0)))) = length d + 2"
      if "CleanThread_WriteRestartCheckpoint ?env 0 s2 = Some s'" for s'
    proof -
      have "CleanThread_WriteRestartCheckpoint ?env 0 s2 = Some (s2\<lparr>ls_groups := put_at (ls_groups s2) 0
          (?g\<lparr>gd_leveldb := (gd_leveldb ?g)\<lparr>db_leveldb := Some ((KEY_IGNORE_RESTART_CHECKPOINT, to_string (unat (1 :: u64)))
             # (KEY_IGNORE_SYNC_TRIGGER, []) # d)\<rparr>\<rparr>)\<rparr>)"
        using at2 r(3,4) st key_lemmas(2)
        by (simp add: CleanThread_WriteRestartCheckpoint_def WriteRestartCheckpoint_def LockDb_Sync_def DiskSet_def
            sample_ldb_def del: One_nat_def unsigned_1)
      with that wf_groupD(5)[OF e2(2)] show ?thesis by (simp add: put_at_def)
    qed
    show False using len[OF run] st by simp
  qed
  have "\<forall>k. group_map s2 0 k = group_disk (le_ldb sample_lock_env) s2 0 k"
    using Restart_checkpoint_exact[OF reach sample_fresh _ sample_user_indexed(1) _ guard] by simp
  then have "group_disk (le_ldb sample_lock_env) s2 0 = group_map s2 0" by auto
  with reach r(2) e2(4) show ?thesis by metis
qed

definition sample_unsynced :: "sample_db LockState \<Rightarrow> bool" where
  "sample_unsynced s \<longleftrightarrow> wf_group s 0 \<and> disk_inv sample_ldb (gd_leveldb (ls_groups s ! nat 0))
     \<and> ls_opt s = LockOption_default\<lparr>nr_group := 1\<rparr> \<and> disk_checkpoint (ls_groups s ! nat 0) = 4 \<and> ls_last_sync_ms s = [0]"

lemma sample_unsynced_mirror:
  assumes s: "sample_unsynced s" and p: "sample_lock_parse pv = Some (acquire_args (sample_acquire client ver lease))"
    and i: "i = 5 \<or> i = 6"
  obtains s' where "LockSM_ExecuteForCheckpoint sample_lock_env (\<lambda>_. 10) s 0 i pv = Some (True, s')"
    and "sample_unsynced s'" and "group_disk sample_ldb s' 0 =
        snd (sm_spec i (acquire_args (sample_acquire client ver lease)) (group_disk sample_ldb s 0))"
proof -
  have n: "i \<noteq> NoID" using i by auto
  have u: "wf_group s 0" "disk_inv sample_ldb (gd_leveldb (ls_groups s ! nat 0))" "\<not> no_leveldb (ls_opt s)"
    "word_of_int (checkpoint_interval (ls_opt s)) > i - disk_checkpoint (ls_groups s ! nat 0)"
    "10 \<le> ls_last_sync_ms s ! nat 0 + 60000"
    using s i by (auto simp: sample_unsynced_def LockOption_default_def)
  show ?thesis
    using sample_mirror[OF u(1) p n u(2,3)] u(4,5) s that by (auto simp: sample_unsynced_def)
qed

lemma sample_unsynced_run:
  assumes s: "sample_unsynced s"
  obtains s' where "checkpoint_log sample_lock_env 0 (\<lambda>_ _. 10) [(5, ''A''), (6, ''R3'')] s = Some s'"
    and "sample_unsynced s'" and "group_disk sample_ldb s' 0 =
        snd (sm_spec 6 (acquire_args (sample_acquire ''z'' 3 0))
          (snd (sm_spec 5 (acquire_args (sample_acquire ''x'' 0 1000)) (group_disk sample_ldb s 0))))"
proof -
  obtain t where t: "LockSM_ExecuteForCheckpoint sample_lock_env (\<lambda>_. 10) s 0 5 ''A'' = Some (True, t)" "sample_unsynced t"
    "group_disk sample_ldb t 0 = snd (sm_spec 5 (acquire_args (sample_acquire ''x'' 0 1000)) (group_disk sample_ldb s 0))"
    using sample_unsynced_mirror[OF s sample_parse_simps(1)] by blast
  obtain s' where "LockSM_ExecuteForCheckpoint sample_lock_env (\<lambda>_. 10) t 0 6 ''R3'' = Some (True, s')" "sample_unsynced s'"
    "group_disk sample_ldb s' 0 = snd (sm_spec 6 (acquire_args (sample_acquire ''z'' 3 0)) (group_disk sample_ldb t 0))"
    using sample_unsynced_mirror[OF t(2) sample_parse_simps(3)] by blast
  with t that show ?thesis by simp
qed

text \<open>Replaying the log is not idempotent. The mirror's writes are not flushed with its
  checkpoint, so after a restart the replayer may apply a suffix of the log twice: here the first
  run refuses to grant the lock and then releases it, and the second run, over the first one's
  result and from the same checkpoint, leaves the lock held by the client that was refused.\<close>

theorem Replay_grants_refused_lock:
  "\<exists>s1 s2. checkpoint_log sample_lock_env 0 (\<lambda>_ _. 10) [(5, ''A''), (6, ''R3'')] (sample_lock True 4) = Some s1
     \<and> group_disk (le_ldb sample_lock_env) s1 0 ''k'' = None
     \<and> LockSM_GetCheckpointInstanceID s1 0 = Some 4
     \<and> checkpoint_log sample_lock_env 0 (\<lambda>_ _. 10) [(5, ''A''), (6, ''R3'')] s1 = Some s2
     \<and> map_option lr_value (group_disk (le_ldb sample_lock_env) s2 0 ''k'') = Some ''x''
     \<and> fst (spec_log sample_lock_parse [(5, ''A'')] (group_disk (le_ldb sample_lock_env) (sample_lock True 4) 0))
         = [Some RET_ERR_VERSION_NOT_EQUAL]"
proof -
  have s: "sample_unsynced (sample_lock True 4)"
    unfolding sample_unsynced_def using sample_lock_wf[of True 4] by (simp add: sample_lock_def sample_group_def)
  obtain s1 where s1: "checkpoint_log sample_lock_env 0 (\<lambda>_ _. 10) [(5, ''A''), (6, ''R3'')] (sample_lock True 4) = Some s1"
    "sample_unsynced s1" "group_disk sample_ldb s1 0 ''k'' = None"
    by (rule sample_unsynced_run[OF s]) (simp add: sample_sm_spec sample_lock_views sample_held_record_def)
  obtain s2 where s2: "checkpoint_log sample_lock_env 0 (\<lambda>_ _. 10) [(5, ''A''), (6, ''R3'')] s1 = Some s2"
    "map_option lr_value (group_disk sample_ldb s2 0 ''k'') = Some ''x''"
    by (rule sample_unsynced_run[OF s1(2)]) (simp add: sample_sm_spec s1(3))
  have "LockSM_GetCheckpointInstanceID s1 0 = Some 4"
    using s1(2) wf_groupD(1)[of s1 0] by (auto simp: LockSM_GetCheckpointInstanceID_def sample_unsynced_def)
  moreover have "fst (spec_log sample_lock_parse [(5, ''A'')] (group_disk sample_ldb (sample_lock True 4) 0))
      = [Some RET_ERR_VERSION_NOT_EQUAL]"
    by (simp add: sample_sm_spec sample_lock_views sample_held_record_def)
  ultimately show ?thesis using s1 s2 by auto
qed

end
