(* ===== verification/MasterClient.thy ===== *)
theory MasterClient
  imports ServiceConfig
begin

section \<open>Calling the master of a group (comm/masterclient.h)\<close>

text \<open>
  Every client of a store, a lock or a scheduler has to find the replica that is master. It keeps a
  cache of addresses per thread, follows the redirection in a refusal, and otherwise tries the
  configured addresses one after the other. The remote call, the clock and the random numbers act
  on a state \<open>'w\<close> of the outside; the response is passed on from call to call, as the code fills
  one response object again and again.
\<close>

type_synonym addr_cache = "(string \<times> Addr \<times> u64) list"

record ('r, 'w) ClientEnv =
  ce_time :: "'w \<Rightarrow> u64 \<times> 'w"
  ce_rand :: "'w \<Rightarrow> u32 \<times> 'w"
  ce_rpc :: "Addr \<Rightarrow> 'r \<Rightarrow> 'w \<Rightarrow> RetCode \<times> 'r \<times> 'w"
  ce_redirect :: "'r \<Rightarrow> Addr"

definition GetRouteKey :: "string list \<Rightarrow> string" where
  "GetRouteKey ts = concat (map (\<lambda>t. t @ '':'') (butlast ts)) @ last ts"

definition PutAddrToCache ::
  "('r, 'w) ClientEnv \<Rightarrow> string \<Rightarrow> Addr \<Rightarrow> addr_cache \<times> 'w \<Rightarrow> addr_cache \<times> 'w" where
  "PutAddrToCache env key addr = (\<lambda>(cache, w).
     let (now, w) = ce_time env w; (r, w) = ce_rand env w
     in (map_assign key (addr, now + 3600 + ucast (r mod 1800)) cache, w))"

definition GetAddrFromCache ::
  "('r, 'w) ClientEnv \<Rightarrow> string \<Rightarrow> addr_cache \<times> 'w \<Rightarrow> Addr option \<times> addr_cache \<times> 'w" where
  "GetAddrFromCache env key = (\<lambda>(cache, w).
     case map_of cache key of
       None \<Rightarrow> (None, cache, w)
     | Some (addr, expire) \<Rightarrow>
         let (now, w) = ce_time env w in (if expire < now then None else Some addr, cache, w))"

definition RemoveCache :: "string \<Rightarrow> addr_cache \<times> 'w \<Rightarrow> addr_cache \<times> 'w" where
  "RemoveCache key = (\<lambda>(cache, w). (map_erase key cache, w))"

definition redirected :: "('r, 'w) ClientEnv \<Rightarrow> RetCode \<Rightarrow> 'r \<Rightarrow> bool" where
  "redirected env ret resp \<longleftrightarrow>
     ret = RET_ERR_NOT_MASTER \<and> ip (ce_redirect env resp) \<noteq> [] \<and> port (ce_redirect env resp) \<noteq> 0"

text \<open>The retry loop: \<open>n\<close> attempts are left.\<close>

fun call_loop ::
  "('r, 'w) ClientEnv \<Rightarrow> string \<Rightarrow> Addr list \<Rightarrow> nat \<Rightarrow> nat \<Rightarrow> Addr \<Rightarrow> RetCode \<Rightarrow> 'r \<Rightarrow> addr_cache \<times> 'w
   \<Rightarrow> RetCode \<times> 'r \<times> addr_cache \<times> 'w" where
  "call_loop env key addrs 0 idx addr ret resp s = (ret, resp, s)"
| "call_loop env key addrs (Suc n) idx addr ret resp (cache, w) =
     (let (ret, resp, w) = ce_rpc env addr resp w in
      if ret = RET_OK then (RET_OK, resp, PutAddrToCache env key addr (cache, w))
      else if redirected env ret resp then
        call_loop env key addrs n idx (ce_redirect env resp) ret resp
          (PutAddrToCache env key (ce_redirect env resp) (cache, w))
      else if ret \<in> {RET_ERR_NOT_MASTER, RET_ERR_NO_MASTER, RET_ERR_SVR_BLOCK, RET_ERR_SYS} then
        let idx = (idx + 1) mod length addrs in call_loop env key addrs n idx (addrs ! idx) ret resp (cache, w)
      else (ret, resp, cache, w))"

definition same_host :: "Addr \<Rightarrow> Addr \<Rightarrow> bool" where
  "same_host a b \<longleftrightarrow> ip a = ip b \<and> port a = port b"

definition first_attempt ::
  "('r, 'w) ClientEnv \<Rightarrow> string \<Rightarrow> Addr list \<Rightarrow> Addr \<Rightarrow> RetCode \<Rightarrow> addr_cache \<times> 'w \<Rightarrow> nat \<times> Addr \<times> addr_cache \<times> 'w" where
  "first_attempt env key addrs master_addr ret s =
     (let (cached, s) = (if ret = RET_ERR_NOT_MASTER then GetAddrFromCache env key s else (None, s)) in
      case cached of
        Some addr \<Rightarrow> (case List.find (\<lambda>i. same_host addr (addrs ! i)) [0..<length addrs] of None \<Rightarrow> 0 | Some i \<Rightarrow> i, addr, s)
      | None \<Rightarrow>
          let (cache, w) = s; (r, w) = ce_rand env w; idx = unat r mod length addrs;
              idx = (if same_host (addrs ! idx) master_addr then (idx + 1) mod length addrs else idx)
          in (idx, addrs ! idx, cache, w))"

text \<open>\<open>candidates\<close> is what \<open>GetCandidateAddrs\<close> reads from the configuration.\<close>

definition call_candidates ::
  "('r, 'w) ClientEnv \<Rightarrow> string \<Rightarrow> RetCode + Addr list \<Rightarrow> Addr \<Rightarrow> RetCode \<Rightarrow> 'r \<Rightarrow> addr_cache \<times> 'w
   \<Rightarrow> RetCode \<times> 'r \<times> addr_cache \<times> 'w" where
  "call_candidates env key candidates master_addr ret resp s =
     (case candidates of
        Inl ret1 \<Rightarrow> (ret1, resp, s)
      | Inr addrs \<Rightarrow>
          if addrs = [] then (RET_ERR_LOGIC, resp, s)
          else let (idx, addr, s) = first_attempt env key addrs master_addr ret s
            in call_loop env key addrs (length addrs) idx addr ret resp s)"

definition ClientCall ::
  "('r, 'w) ClientEnv \<Rightarrow> string \<Rightarrow> RetCode + Addr list \<Rightarrow> 'r \<Rightarrow> addr_cache \<times> 'w
   \<Rightarrow> RetCode \<times> 'r \<times> addr_cache \<times> 'w" where
  "ClientCall env key candidates resp s =
     (let (cached, s) = GetAddrFromCache env key s in
      case cached of
        None \<Rightarrow> call_candidates env key candidates Addr_default RET_OK resp s
      | Some master_addr \<Rightarrow>
          let (cache, w) = s; (ret, resp, w) = ce_rpc env master_addr resp w; s = (cache, w) in
          if ret = RET_OK then (RET_OK, resp, PutAddrToCache env key master_addr s)
          else if redirected env ret resp then
            call_candidates env key candidates master_addr ret resp (PutAddrToCache env key (ce_redirect env resp) s)
          else if ret \<in> {RET_ERR_NOT_MASTER, RET_ERR_NO_MASTER, RET_ERR_SVR_BLOCK} then
            call_candidates env key candidates master_addr ret resp (RemoveCache key s)
          else if ret = RET_ERR_SYS then call_candidates env key candidates master_addr ret resp s
          else (ret, resp, s))"

subsection \<open>Candidates of the services\<close>

definition Store_GetCandidateAddrs :: "GlobalConfig \<Rightarrow> int \<Rightarrow> int \<Rightarrow> RetCode + Addr list" where
  "Store_GetCandidateAddrs g topic_id store_id =
     (case GetStoreConfig g topic_id of Inl ret \<Rightarrow> Inl ret | Inr sc \<Rightarrow>
      case GetStoreByStoreID sc store_id of Inl ret \<Rightarrow> Inl ret | Inr s \<Rightarrow> Inr (store_addrs s))"

definition Lock_GetCandidateAddrs :: "GlobalConfig \<Rightarrow> int \<Rightarrow> int \<Rightarrow> RetCode + Addr list" where
  "Lock_GetCandidateAddrs g topic_id lid =
     (case GetLockConfig g topic_id of Inl ret \<Rightarrow> Inl ret | Inr lc \<Rightarrow>
      case GetLockByLockID lc lid of Inl ret \<Rightarrow> Inl ret | Inr l \<Rightarrow> Inr (lock_addrs l))"

text \<open>A scheduler configuration that was never parsed has no scheduler to point to.\<close>

definition Scheduler_GetCandidateAddrs :: "GlobalConfig \<Rightarrow> int \<Rightarrow> (RetCode + Addr list) option" where
  "Scheduler_GetCandidateAddrs g topic_id =
     (case GetSchedulerConfig g topic_id of Inl ret \<Rightarrow> Some (Inl ret) | Inr sc \<Rightarrow>
      case GetScheduler sc of (ret, scheduler) \<Rightarrow>
        if ret \<noteq> RET_OK then Some (Inl ret) else map_option Inr scheduler)"

definition Store_route_key :: "int \<Rightarrow> int \<Rightarrow> int \<Rightarrow> string" where
  "Store_route_key topic_id store_id queue_id = GetRouteKey [int_string topic_id, int_string store_id, int_string queue_id]"

definition Lock_route_key :: "int \<Rightarrow> int \<Rightarrow> string \<Rightarrow> string" where
  "Lock_route_key topic_id lid key = GetRouteKey [int_string topic_id, int_string lid, key]"

definition Scheduler_route_key :: "int \<Rightarrow> string" where
  "Scheduler_route_key topic_id = GetRouteKey [int_string topic_id]"

subsection \<open>The master is found\<close>

text \<open>
  One replica is master and answers; every other one refuses, with or without the address of the
  master, or cannot be reached.
\<close>

definition master_answers :: "('r, 'w) ClientEnv \<Rightarrow> Addr \<Rightarrow> bool" where
  "master_answers env master \<longleftrightarrow>
     (\<forall>addr resp w. case ce_rpc env addr resp w of (ret, resp', w') \<Rightarrow>
        if addr = master then ret = RET_OK
        else ret \<in> {RET_ERR_NOT_MASTER, RET_ERR_NO_MASTER, RET_ERR_SVR_BLOCK, RET_ERR_SYS}
             \<and> (redirected env ret resp' \<longrightarrow> ce_redirect env resp' = master))"

lemma map_of_map_assign_same: "map_of (map_assign k v m) k = Some v"
  by (induction k v m rule: map_assign.induct) auto

lemma Put_then_lookup: "\<exists>e. map_of (fst (PutAddrToCache env key addr s)) key = Some (addr, e)"
  by (simp add: PutAddrToCache_def case_prod_beta Let_def map_of_map_assign_same)

definition cached_master :: "string \<Rightarrow> Addr \<Rightarrow> RetCode \<times> 'r \<times> addr_cache \<times> 'w \<Rightarrow> bool" where
  "cached_master key master = (\<lambda>(ret, resp, cache, w). ret = RET_OK \<and> (\<exists>e. map_of cache key = Some (master, e)))"

lemma cached_masterI: "cached_master key addr (RET_OK, resp, PutAddrToCache env key addr s)"
  using Put_then_lookup[of env key addr s] by (simp add: cached_master_def case_prod_beta)

definition on_the_way :: "Addr list \<Rightarrow> Addr \<Rightarrow> nat \<Rightarrow> nat \<Rightarrow> Addr \<Rightarrow> bool" where
  "on_the_way addrs master n idx addr \<longleftrightarrow>
     addr = master \<and> 0 < n
     \<or> idx < length addrs \<and> addr = addrs ! idx \<and> (\<exists>j < n. addrs ! ((idx + j) mod length addrs) = master)"

lemma call_loop_finds:
  assumes "master_answers env master" and "on_the_way addrs master n idx addr"
  shows "cached_master key master (call_loop env key addrs n idx addr ret resp (cache, w))"
  using assms(2)
proof (induction n arbitrary: idx addr ret resp cache w)
  case 0
  then show ?case by (auto simp: on_the_way_def)
next
  case (Suc n)
  obtain ret' resp' w' where rpc: "ce_rpc env addr resp w = (ret', resp', w')" by (cases "ce_rpc env addr resp w")
  have ans: "if addr = master then ret' = RET_OK
        else ret' \<in> {RET_ERR_NOT_MASTER, RET_ERR_NO_MASTER, RET_ERR_SVR_BLOCK, RET_ERR_SYS}
             \<and> (redirected env ret' resp' \<longrightarrow> ce_redirect env resp' = master)"
    using assms(1)[unfolded master_answers_def, rule_format, of addr resp w] rpc by simp
  show ?case
  proof (cases "addr = master")
    case True
    then show ?thesis using ans rpc cached_masterI by (simp del: One_nat_def)
  next
    case False
    with Suc.prems obtain j where j: "j < Suc n" "addrs ! ((idx + j) mod length addrs) = master"
      and a: "idx < length addrs" "addr = addrs ! idx"
      by (auto simp: on_the_way_def)
    with False obtain i where i: "j = Suc i" by (cases j) auto
    let ?idx = "(idx + 1) mod length addrs"
    have next_ok: "on_the_way addrs master n ?idx (addrs ! ?idx)"
    proof -
      have "(?idx + i) mod length addrs = (idx + j) mod length addrs" using i by (simp add: mod_simps)
      moreover have "?idx < length addrs" using a(1) by (intro mod_less_divisor) linarith
      ultimately show ?thesis using j i by (auto simp: on_the_way_def intro!: exI[of _ i])
    qed
    have direct: "on_the_way addrs master n idx master" using i j(1) by (simp add: on_the_way_def)
    have err: "ret' \<noteq> RET_OK" using ans False by auto
    show ?thesis
    proof (cases "redirected env ret' resp'")
      case True
      then have to: "ce_redirect env resp' = master" using ans False by simp
      obtain c2 w2 where p: "PutAddrToCache env key master (cache, w') = (c2, w2)" by (cases "PutAddrToCache env key master (cache, w')")
      show ?thesis using Suc.IH[OF direct, of ret' resp' c2 w2] rpc err True to p by simp
    next
      case nr: False
      have set: "ret' \<in> {RET_ERR_NOT_MASTER, RET_ERR_NO_MASTER, RET_ERR_SVR_BLOCK, RET_ERR_SYS}" using ans False by simp
      show ?thesis
        unfolding call_loop.simps(2) rpc Let_def prod.case if_not_P[OF err] if_not_P[OF nr] if_P[OF set]
        by (rule Suc.IH[OF next_ok])
    qed
  qed
qed

lemma random_attempt:
  assumes "master \<in> set addrs" "idx < length addrs"
  shows "on_the_way addrs master (length addrs) idx (addrs ! idx)"
proof -
  obtain k where k: "k < length addrs" "addrs ! k = master" using assms(1) by (auto simp: in_set_conv_nth)
  let ?j = "(k + length addrs - idx) mod length addrs"
  have "(idx + ?j) mod length addrs = k"
    using assms(2) k(1) by (simp add: mod_simps)
  moreover have "?j < length addrs" using assms(2) by (intro mod_less_divisor) linarith
  ultimately show ?thesis using assms(2) k(2) by (auto simp: on_the_way_def)
qed

lemma call_candidates_finds:
  assumes ans: "master_answers env master" and m: "master \<in> set addrs"
    and cache: "\<And>a e. ret = RET_ERR_NOT_MASTER \<Longrightarrow> map_of (fst s) key = Some (a, e) \<Longrightarrow> a = master"
  shows "cached_master key master (call_candidates env key (Inr addrs) master_addr ret resp s)"
proof -
  obtain idx addr s' where f: "first_attempt env key addrs master_addr ret s = (idx, addr, s')"
    by (cases "first_attempt env key addrs master_addr ret s")
  have ne: "addrs \<noteq> []" using m by auto
  have "on_the_way addrs master (length addrs) idx addr"
  proof (cases "addr = master")
    case True
    then show ?thesis using ne by (simp add: on_the_way_def)
  next
    case False
    obtain c w where s: "s = (c, w)" by (cases s)
    have "idx < length addrs \<and> addr = addrs ! idx"
      using f False ne cache s
      by (auto simp: first_attempt_def GetAddrFromCache_def Let_def split: if_splits option.splits prod.splits)
    then show ?thesis using random_attempt[OF m] by blast
  qed
  from call_loop_finds[OF ans this] show ?thesis
    using ne f by (cases s') (simp add: call_candidates_def)
qed

text \<open>C27: A client finds the master: when one of the configured replicas is master and answers, and
  the others refuse or cannot be reached, a call succeeds, whatever the cache holds and wherever the
  search starts, and the address of the master is cached.\<close>

theorem ClientCall_finds_master:
  assumes ans: "master_answers env master" and m: "master \<in> set addrs"
  shows "\<exists>resp' cache w e. ClientCall env key (Inr addrs) resp s = (RET_OK, resp', cache, w) \<and> map_of cache key = Some (master, e)"
proof -
  have "cached_master key master (ClientCall env key (Inr addrs) resp s)"
  proof (cases "GetAddrFromCache env key s")
    case (fields cached c w)
    show ?thesis
    proof (cases cached)
      case None
      then show ?thesis using call_candidates_finds[OF ans m, of RET_OK] fields by (simp add: ClientCall_def)
    next
      case (Some a)
      obtain ret' resp' w' where rpc: "ce_rpc env a resp w = (ret', resp', w')" by (cases "ce_rpc env a resp w")
      have an: "if a = master then ret' = RET_OK
        else ret' \<in> {RET_ERR_NOT_MASTER, RET_ERR_NO_MASTER, RET_ERR_SVR_BLOCK, RET_ERR_SYS}
             \<and> (redirected env ret' resp' \<longrightarrow> ce_redirect env resp' = master)"
        using ans[unfolded master_answers_def, rule_format, of a resp w] rpc by simp
      consider "ret' = RET_OK" "a = master" | "ret' \<noteq> RET_OK" "redirected env ret' resp'" "ce_redirect env resp' = master"
        | "ret' \<noteq> RET_OK" "\<not> redirected env ret' resp'" "ret' \<in> {RET_ERR_NOT_MASTER, RET_ERR_NO_MASTER, RET_ERR_SVR_BLOCK}"
        | "ret' = RET_ERR_SYS" "\<not> redirected env ret' resp'"
        using an by (cases "redirected env ret' resp'"; cases "ret' = RET_OK"; cases "a = master"; cases "ret' = RET_ERR_SYS")
          simp_all
      then show ?thesis
      proof cases
        case 1
        then show ?thesis using fields Some rpc cached_masterI by (simp add: ClientCall_def)
      next
        case 2
        have "cached_master key master (call_candidates env key (Inr addrs) a ret' resp' (PutAddrToCache env key master (c, w')))"
          using Put_then_lookup[of env key master "(c, w')"] by (intro call_candidates_finds[OF ans m]) auto
        then show ?thesis using 2 fields Some rpc by (simp add: ClientCall_def)
      next
        case 3
        have "cached_master key master (call_candidates env key (Inr addrs) a ret' resp' (RemoveCache key (c, w')))"
          using map_of_erase[of key c] by (intro call_candidates_finds[OF ans m]) (auto simp: RemoveCache_def)
        then show ?thesis using 3 fields Some rpc by (simp add: ClientCall_def)
      next
        case 4
        have "cached_master key master (call_candidates env key (Inr addrs) a ret' resp' (c, w'))"
          using 4 by (intro call_candidates_finds[OF ans m]) auto
        then show ?thesis using 4 fields Some rpc by (simp add: ClientCall_def)
      qed
    qed
  qed
  then show ?thesis
    by (cases "ClientCall env key (Inr addrs) resp s") (auto simp: cached_master_def)
qed

text \<open>Three replicas, of which the second is master; the first knows it, the third does not.\<close>

definition sample_client :: "(Addr, nat) ClientEnv" where
  "sample_client = \<lparr>ce_time = (\<lambda>w. (of_nat w, Suc w)), ce_rand = (\<lambda>w. (of_nat w, Suc w)),
     ce_rpc = (\<lambda>addr resp w.
        if addr = \<lparr>ip = ''b'', port = 2, paxos_port = 0\<rparr> then (RET_OK, resp, Suc w)
        else if ip addr = ''a'' then (RET_ERR_NOT_MASTER, \<lparr>ip = ''b'', port = 2, paxos_port = 0\<rparr>, Suc w)
        else (RET_ERR_NO_MASTER, Addr_default, Suc w)),
     ce_redirect = (\<lambda>r. r)\<rparr>"

theorem ClientCall_finds_master_witness:
  "\<exists>resp' cache w e. ClientCall sample_client ''1'' (Inr
       [\<lparr>ip = ''a'', port = 1, paxos_port = 0\<rparr>, \<lparr>ip = ''b'', port = 2, paxos_port = 0\<rparr>, \<lparr>ip = ''c'', port = 3, paxos_port = 0\<rparr>])
       Addr_default ([(''1'', \<lparr>ip = ''a'', port = 1, paxos_port = 0\<rparr>, 5000)], 7) = (RET_OK, resp', cache, w)
     \<and> map_of cache ''1'' = Some (\<lparr>ip = ''b'', port = 2, paxos_port = 0\<rparr>, e)"
  by (rule ClientCall_finds_master) (auto simp: master_answers_def sample_client_def redirected_def Addr_default_def)

end
