(* ===== verification/Floats.thy ===== *)
theory Floats
  imports Prelude "HOL-Library.Log_Nat"
begin

section \<open>C arithmetic: \<open>int\<close> and floating point\<close>

text \<open>
  The scheduler computes loads and weights in \<open>float\<close> and \<open>double\<close>. A floating-point number is the
  rational it stands for; every operation is the exact one followed by rounding to 24 or 53
  significant bits, to nearest and ties to even (IEEE 754, with no excess precision). The operands
  come from \<open>int\<close> values, so the exponents stay far inside the range of both formats, and there
  are no infinities, no NaNs and no subnormal numbers here. An \<open>int\<close> that overflows, or a
  conversion to \<open>int\<close> that does not fit, is undefined in C++: \<^const>\<open>None\<close>.
\<close>

definition i32 :: "int \<Rightarrow> int option" where
  "i32 n = (if - (2 ^ 31) \<le> n \<and> n < 2 ^ 31 then Some n else None)"

text \<open>Division of \<open>int\<close> truncates.\<close>

definition cdiv :: "int \<Rightarrow> int \<Rightarrow> int" where
  "cdiv a b = sgn a * sgn b * (\<bar>a\<bar> div \<bar>b\<bar>)"

definition trunc_i32 :: "rat \<Rightarrow> int option" where
  "trunc_i32 x = i32 (if 0 \<le> x then \<lfloor>x\<rfloor> else \<lceil>x\<rceil>)"

definition round_even :: "rat \<Rightarrow> int" where
  "round_even x =
     (let k = \<lfloor>x\<rfloor>; f = x - of_int k in
      if f < 1 / 2 then k else if 1 / 2 < f then k + 1 else if even k then k else k + 1)"

definition ilog2 :: "rat \<Rightarrow> int" where
  "ilog2 x = (if 1 \<le> x then int (floorlog 2 (nat \<lfloor>x\<rfloor>)) - 1 else - int (floorlog 2 (nat (\<lceil>1 / x\<rceil> - 1))))"

definition quantum :: "nat \<Rightarrow> rat \<Rightarrow> rat" where
  "quantum p x = power_int 2 (ilog2 \<bar>x\<bar> + 1 - int p)"

definition fl :: "nat \<Rightarrow> rat \<Rightarrow> rat" where
  "fl p x = (if x = 0 then 0 else sgn x * of_int (round_even (\<bar>x\<bar> / quantum p x)) * quantum p x)"

abbreviation float32 :: "rat \<Rightarrow> rat" where
  "float32 \<equiv> fl 24"

abbreviation float64 :: "rat \<Rightarrow> rat" where
  "float64 \<equiv> fl 53"

subsection \<open>Rounding\<close>

lemma i32_in: "- (2 ^ 31) \<le> n \<Longrightarrow> n < 2 ^ 31 \<Longrightarrow> i32 n = Some n"
  by (simp add: i32_def)

lemma i32_Some: "i32 n = Some m \<longleftrightarrow> m = n \<and> - (2 ^ 31) \<le> n \<and> n < 2 ^ 31"
  by (auto simp: i32_def)

lemma cdiv_nonneg [simp]: "0 \<le> a \<Longrightarrow> 0 < b \<Longrightarrow> cdiv a b = a div b"
  by (cases "a = 0") (simp_all add: cdiv_def)

lemma round_even_bounds: "\<bar>of_int (round_even x) - x\<bar> \<le> 1 / 2"
proof -
  have "of_int \<lfloor>x\<rfloor> \<le> x" "x < of_int \<lfloor>x\<rfloor> + 1" by linarith+
  then show ?thesis by (auto simp: round_even_def Let_def abs_le_iff)
qed

lemma round_even_int [simp]: "round_even (of_int n) = n"
  by (simp add: round_even_def)

lemma round_even_mono:
  assumes "x \<le> y"
  shows "round_even x \<le> round_even y"
proof (cases "\<lfloor>x\<rfloor> = \<lfloor>y\<rfloor>")
  case True
  with assms show ?thesis by (auto simp: round_even_def Let_def)
next
  case False
  with assms have "\<lfloor>x\<rfloor> + 1 \<le> \<lfloor>y\<rfloor>" by (meson floor_mono not_le order_antisym_conv zless_imp_add1_zle)
  moreover have "round_even x \<le> \<lfloor>x\<rfloor> + 1" "\<lfloor>y\<rfloor> \<le> round_even y" by (auto simp: round_even_def Let_def)
  ultimately show ?thesis by simp
qed

lemma ilog2_bounds:
  assumes "0 < x"
  shows "power_int 2 (ilog2 x) \<le> x" "x < power_int 2 (ilog2 x + 1)"
proof -
  have "power_int 2 (ilog2 x) \<le> x \<and> x < power_int 2 (ilog2 x + 1)"
  proof (cases "1 \<le> x")
    case True
    define n where "n = nat \<lfloor>x\<rfloor>"
    have n: "0 < n" "of_nat n \<le> x" "x < of_nat n + 1" using True by (auto simp: n_def) linarith
    define f where "f = floorlog 2 n"
    have f: "2 ^ (f - 1) \<le> n" "n < 2 ^ f" "1 \<le> f"
      using floorlog_bounds[of n 2] n(1) by (auto simp: f_def floorlog_def)
    have "ilog2 x = int (f - 1)" using True f(3) by (simp add: ilog2_def f_def n_def of_nat_diff)
    moreover have "(2 :: rat) ^ (f - 1) \<le> x"
    proof -
      have "(2 :: rat) ^ (f - 1) \<le> of_nat n" using f(1) by (metis of_nat_le_iff of_nat_numeral of_nat_power)
      with n(2) show ?thesis by linarith
    qed
    moreover have "x < (2 :: rat) ^ f"
    proof -
      have "of_nat n + 1 \<le> (2 :: rat) ^ f" using f(2)
        by (metis Suc_leI add.commute of_nat_Suc of_nat_le_iff of_nat_numeral of_nat_power)
      with n(3) show ?thesis by linarith
    qed
    moreover have "int (f - 1) + 1 = int f" using f(3) by simp
    ultimately show ?thesis by (simp only: power_int_of_nat)
  next
    case False
    define y where "y = 1 / x"
    have y: "1 < y" "x = 1 / y" "0 < y" using False assms by (auto simp: y_def field_simps)
    define n where "n = nat (\<lceil>y\<rceil> - 1)"
    have n: "0 < n" "of_nat n < y" "y \<le> of_nat n + 1" using y(1) by (auto simp: n_def) linarith+
    define f where "f = floorlog 2 n"
    have f: "2 ^ (f - 1) \<le> n" "n < 2 ^ f" "1 \<le> f"
      using floorlog_bounds[of n 2] n(1) by (auto simp: f_def floorlog_def)
    have "ilog2 x = - int f" using False by (simp add: ilog2_def f_def n_def y_def)
    moreover have "1 / (2 :: rat) ^ f \<le> x"
    proof -
      have "of_nat n + 1 \<le> (2 :: rat) ^ f" using f(2)
        by (metis Suc_leI add.commute of_nat_Suc of_nat_le_iff of_nat_numeral of_nat_power)
      then have "y \<le> 2 ^ f" using n(3) by linarith
      then show ?thesis using y(3) by (simp add: y(2) frac_le)
    qed
    moreover have "x < 1 / (2 :: rat) ^ (f - 1)"
    proof -
      have "(2 :: rat) ^ (f - 1) \<le> of_nat n" using f(1) by (metis of_nat_le_iff of_nat_numeral of_nat_power)
      then have "(2 :: rat) ^ (f - 1) < y" using n(2) by linarith
      then show ?thesis using y(3) by (simp add: y(2) frac_less2)
    qed
    moreover have "- int f + 1 = - int (f - 1)" using f(3) by (simp add: of_nat_diff)
    ultimately show ?thesis by (simp only: power_int_minus_divide power_int_of_nat)
  qed
  then show "power_int 2 (ilog2 x) \<le> x" "x < power_int 2 (ilog2 x + 1)" by auto
qed

lemma ilog2_mono:
  assumes "0 < x" "x \<le> y"
  shows "ilog2 x \<le> ilog2 y"
proof (rule ccontr)
  assume "\<not> ?thesis"
  then have "ilog2 y + 1 \<le> ilog2 x" by simp
  then have "power_int (2 :: rat) (ilog2 y + 1) \<le> power_int 2 (ilog2 x)" by (simp add: power_int_increasing)
  with ilog2_bounds[of x] ilog2_bounds[of y] assms show False by linarith
qed


lemma quantum_pos [simp]: "0 < quantum p x" "quantum p x \<noteq> 0"
  by (simp_all add: quantum_def)

lemma fl_pos: "0 < x \<Longrightarrow> fl p x = of_int (round_even (x / quantum p x)) * quantum p x"
  by (simp add: fl_def)

lemma fl_0 [simp]: "fl p 0 = 0"
  by (simp add: fl_def)

lemma quantum_scale:
  assumes "0 < x"
  shows "quantum p x * 2 ^ p = power_int 2 (ilog2 x + 1)"
  using assms power_int_add[of "2 :: rat" "ilog2 x + 1 - int p" "int p"] by (simp add: quantum_def)

lemma significand:
  assumes "0 < x" "0 < p"
  shows "x / quantum p x < 2 ^ p" "2 ^ (p - 1) \<le> x / quantum p x" "2 ^ (p - 1) * quantum p x = power_int 2 (ilog2 x)"
proof -
  have q: "quantum p x * 2 ^ p = power_int 2 (ilog2 x + 1)" using quantum_scale assms(1) .
  show "x / quantum p x < 2 ^ p"
    using ilog2_bounds(2)[OF assms(1)] by (simp add: divide_less_eq q mult.commute)
  have "power_int 2 (ilog2 x + 1) = power_int 2 (ilog2 x) * (2 :: rat)" by (simp add: power_int_add)
  moreover have "(2 :: rat) ^ p = 2 * 2 ^ (p - 1)" using assms(2) by (cases p) auto
  ultimately show h: "2 ^ (p - 1) * quantum p x = power_int 2 (ilog2 x)" using q by (simp add: mult.commute)
  show "2 ^ (p - 1) \<le> x / quantum p x"
    using ilog2_bounds(1)[OF assms(1)] by (simp only: pos_le_divide_eq[OF quantum_pos(1)] h)
qed

lemma round_even_le: "x \<le> of_int n \<Longrightarrow> round_even x \<le> n"
  using round_even_mono[of x "of_int n"] by simp

lemma le_round_even: "of_int n \<le> x \<Longrightarrow> n \<le> round_even x"
  using round_even_mono[of "of_int n" x] by simp

lemma fl_range:
  assumes "0 < x" "0 < p"
  shows "power_int 2 (ilog2 x) \<le> fl p x" "fl p x \<le> power_int 2 (ilog2 x + 1)"
proof -
  let ?m = "x / quantum p x"
  have "round_even ?m \<le> 2 ^ p" by (rule round_even_le) (use significand(1)[OF assms] in simp)
  then have "of_int (round_even ?m) \<le> (2 :: rat) ^ p" by (metis of_int_le_iff of_int_numeral of_int_power)
  then have "of_int (round_even ?m) * quantum p x \<le> 2 ^ p * quantum p x" by (simp add: mult_right_mono)
  then show "fl p x \<le> power_int 2 (ilog2 x + 1)" using quantum_scale[OF assms(1), of p] assms(1) by (simp add: fl_pos mult.commute)
  have "2 ^ (p - 1) \<le> round_even ?m" by (rule le_round_even) (use significand(2)[OF assms] in simp)
  then have "(2 :: rat) ^ (p - 1) \<le> of_int (round_even ?m)" by (metis of_int_le_iff of_int_numeral of_int_power)
  then have "2 ^ (p - 1) * quantum p x \<le> of_int (round_even ?m) * quantum p x" by (simp add: mult_right_mono)
  then show "power_int 2 (ilog2 x) \<le> fl p x" unfolding significand(3)[OF assms] fl_pos[OF assms(1)] .
qed

lemma fl_nonneg: "0 \<le> x \<Longrightarrow> 0 < p \<Longrightarrow> 0 \<le> fl p x"
  using fl_range(1)[of x p] zero_le_power_int[of "2 :: rat" "ilog2 x"] by (cases "x = 0") (simp, linarith)

lemma fl_mono:
  assumes "0 \<le> x" "x \<le> y" "0 < p"
  shows "fl p x \<le> fl p y"
proof (cases "x = 0")
  case True
  with assms fl_nonneg show ?thesis by simp
next
  case False
  with assms have xy: "0 < x" "0 < y" by auto
  show ?thesis
  proof (cases "ilog2 x = ilog2 y")
    case True
    then have "quantum p x = quantum p y" using xy by (simp add: quantum_def)
    moreover have "round_even (x / quantum p y) \<le> round_even (y / quantum p y)"
      using assms(2) by (intro round_even_mono) (simp add: divide_right_mono less_imp_le)
    ultimately show ?thesis using xy by (simp add: fl_pos mult_right_mono)
  next
    case False
    then have "ilog2 x + 1 \<le> ilog2 y" using ilog2_mono[OF xy(1) assms(2)] by simp
    then have "power_int (2 :: rat) (ilog2 x + 1) \<le> power_int 2 (ilog2 y)" by (simp add: power_int_increasing)
    with fl_range(2)[OF xy(1) assms(3)] fl_range(1)[OF xy(2) assms(3)] show ?thesis by linarith
  qed
qed

lemma fl_error:
  assumes "0 \<le> x" "0 < p"
  shows "\<bar>fl p x - x\<bar> \<le> x / 2 ^ p"
proof (cases "x = 0")
  case False
  with assms have x: "0 < x" by simp
  let ?q = "quantum p x" and ?m = "x / quantum p x"
  have "fl p x - x = (of_int (round_even ?m) - ?m) * ?q" using x by (simp add: fl_pos left_diff_distrib)
  then have "\<bar>fl p x - x\<bar> = \<bar>of_int (round_even ?m) - ?m\<bar> * ?q" by (simp add: abs_mult less_imp_le)
  also have "\<dots> \<le> 1 / 2 * ?q" by (rule mult_right_mono[OF round_even_bounds]) (simp add: less_imp_le)
  also have "\<dots> = power_int 2 (ilog2 x) / 2 ^ p"
    using quantum_scale[OF x, of p] by (simp add: field_simps power_int_add)
  also have "\<dots> \<le> x / 2 ^ p" using ilog2_bounds(1)[OF x] by (simp add: divide_right_mono)
  finally show ?thesis .
qed simp

lemma fl_of_int:
  assumes "\<bar>n\<bar> < 2 ^ p"
  shows "fl p (of_int n) = of_int n"
proof (cases "n = 0")
  case False
  let ?x = "of_int \<bar>n\<bar> :: rat"
  have x: "0 < ?x" using False by simp
  have "?x < 2 ^ p" using assms by (metis of_int_less_iff of_int_numeral of_int_power)
  then have "power_int 2 (ilog2 ?x) < (2 :: rat) ^ p" using ilog2_bounds(1)[OF x] by linarith
  moreover have "(2 :: rat) ^ p \<le> power_int 2 (ilog2 ?x)" if "int p \<le> ilog2 ?x"
    using power_int_increasing[OF that, of "2 :: rat"] by simp
  ultimately have e: "ilog2 ?x < int p" by (meson not_le)
  define k where "k = nat (int p - 1 - ilog2 ?x)"
  have "quantum p ?x = power_int 2 (- int k)" using e by (simp add: quantum_def k_def algebra_simps)
  then have "?x / quantum p ?x = of_int (\<bar>n\<bar> * 2 ^ k)" by (simp add: power_int_minus divide_inverse)
  then have "fl p ?x = ?x" using x by (simp only: fl_pos round_even_int) (simp add: field_simps)
  moreover have "fl p (of_int n) = sgn (of_int n) * fl p ?x" using False by (simp add: fl_def quantum_def)
  ultimately show ?thesis by (simp add: sgn_mult_abs)
qed simp

text \<open>Truncating a rounded quotient is the division of the integers when the dividend is exact.\<close>

lemma fl_div_floor:
  assumes "0 \<le> n" "n < 2 ^ p" "0 < d" "0 < p"
  shows "\<lfloor>fl p (of_int n / of_int d)\<rfloor> = n div d"
proof -
  let ?x = "of_int n / of_int d :: rat" and ?k = "n div d"
  have x: "0 \<le> ?x" using assms by simp
  have k: "of_int ?k \<le> ?x" using floor_divide_of_int_eq[of n d, where ?'a = rat] by linarith
  have "?k \<le> n" using zdiv_mono2[of n 1 d] assms(1,3) by simp
  then have "0 \<le> ?k" "?k < 2 ^ p" using assms by (simp_all add: pos_imp_zdiv_nonneg_iff)
  then have "fl p (of_int ?k) = of_int ?k" by (intro fl_of_int) simp
  then have lo: "of_int ?k \<le> fl p ?x" using fl_mono[of "of_int ?k" ?x p] k \<open>0 \<le> ?k\<close> assms(4) by simp
  have "n + 1 \<le> (?k + 1) * d" 
    using div_mult_mod_eq[of n d] pos_mod_bound[OF assms(3), of n] unfolding distrib_right by linarith
  then have "of_int n + 1 \<le> (of_int ?k + 1) * (of_int d :: rat)" by (metis of_int_1 of_int_add of_int_le_iff of_int_mult)
  then have hi: "?x + 1 / of_int d \<le> of_int ?k + 1" using assms(3) by (simp add: field_simps)
  have "of_int n < (2 :: rat) ^ p" using assms(2) by (metis of_int_less_iff of_int_numeral of_int_power)
  then have "?x / 2 ^ p < 1 / of_int d" using assms(3) by (simp add: field_simps)
  then have "fl p ?x < of_int ?k + 1" using fl_error[OF x assms(4)] hi by linarith
  with lo show ?thesis by (simp add: floor_eq_iff)
qed

lemma trunc_nonneg: "0 \<le> x \<Longrightarrow> trunc_i32 x = i32 \<lfloor>x\<rfloor>"
  by (simp add: trunc_i32_def)

end
