(* ===== verification/SchedulerMgr.thy ===== *)
theory SchedulerMgr
  imports ServiceConfig Floats
begin

section \<open>The scheduler manager\<close>

text \<open>
  The scheduler knows the consumers of each topic and gives each a weight; a consumer takes a share
  of the queues in proportion to its weight. Consumers report their load with every request
  (\<open>GetAddrScale\<close>); a thread recomputes the weights (\<open>LoadBalance\<close>). Loads, weights and configured
  numbers are \<open>int\<close>s: \<^const>\<open>None\<close> stands for the undefined behaviour of an overflow or of an
  invalid iterator. Each topic has its own lock, so an access to its data is one step.
\<close>

datatype Mode = Static | Dynamic

record MeanVector =
  mv_cursor :: u32
  mv_vector :: "int list"

definition MeanVector_new :: "nat \<Rightarrow> MeanVector" where
  "MeanVector_new n = \<lparr>mv_cursor = 0, mv_vector = replicate n 0\<rparr>"

definition MeanVector_Update :: "MeanVector \<Rightarrow> int \<Rightarrow> MeanVector" where
  "MeanVector_Update m v =
     (let sz = length (mv_vector m) in
      if sz = 0 then m
      else m\<lparr>mv_vector := (mv_vector m)[unat (mv_cursor m) mod sz := v], mv_cursor := mv_cursor m + 1\<rparr>)"

definition sum_i32 :: "int list \<Rightarrow> int option" where
  "sum_i32 xs = foldM (\<lambda>x s. i32 (s + x)) xs 0"

definition MeanVector_Mean :: "MeanVector \<Rightarrow> rat option" where
  "MeanVector_Mean m =
     (let sz = length (mv_vector m); cursor = unat (mv_cursor m) in
      if sz = 0 \<or> cursor = 0 then Some 0
      else let all = (if cursor < sz then cursor else sz) in
        map_option (\<lambda>sum. float32 (float32 (of_int sum) / float32 (of_nat all))) (sum_i32 (take all (mv_vector m))))"

definition MeanVector_Reset :: "MeanVector \<Rightarrow> MeanVector" where
  "MeanVector_Reset m = m\<lparr>mv_cursor := 0\<rparr>"

record ConsumerInfo =
  ci_weight :: int
  ci_loads :: MeanVector
  ci_sticky_load :: int
  ci_init_weight :: int
  ci_live :: bool
  ci_last_active_time :: u64

definition ConsumerInfo_new :: ConsumerInfo where
  "ConsumerInfo_new = \<lparr>ci_weight = 0, ci_loads = MeanVector_new 6, ci_sticky_load = 0, ci_init_weight = 0,
     ci_live = False, ci_last_active_time = 0\<rparr>"

definition ConsumerInfo_Reset :: "ConsumerInfo \<Rightarrow> ConsumerInfo" where
  "ConsumerInfo_Reset c = c\<lparr>ci_weight := 0, ci_loads := MeanVector_Reset (ci_loads c), ci_sticky_load := 0\<rparr>"

record TopicData =
  consumer_addr2info_map :: "(u64 \<times> ConsumerInfo) list"
  conf_last_mod_time :: u64
  init_time :: u64

definition TopicData_new :: "u64 \<Rightarrow> TopicData" where
  "TopicData_new now = \<lparr>consumer_addr2info_map = [], conf_last_mod_time = 0, init_time = now\<rparr>"

text \<open>\<open>topic_id2lock_map\<close> is the set of the topics that have a lock.\<close>

record SchedulerMgr =
  master_expire_time_ms :: u64
  topic_id2data_map :: "(int \<times> TopicData) list"
  topic_id2lock_map :: "int list"

definition SchedulerMgr_new :: SchedulerMgr where
  "SchedulerMgr_new = \<lparr>master_expire_time_ms = 0, topic_id2data_map = [], topic_id2lock_map = []\<rparr>"

record SchedulerOption =
  so_topic :: string
  so_ip :: string
  so_port :: int

text \<open>\<open>NeedSkipUpdateLoad\<close> is a virtual method.\<close>

record LoadInfo =
  li_cpu :: int
  li_proc_used_ratio :: int

record GetAddrScaleRequest =
  as_topic_id :: int
  as_addr :: Addr
  as_load_info :: LoadInfo
  as_master_addr :: Addr

record SchedEnv =
  se_config :: GlobalConfig
  se_opt :: SchedulerOption
  se_inet_addr :: "string \<Rightarrow> u32"
  se_inet_ntoa :: "u32 \<Rightarrow> string"
  NeedSkipUpdateLoad :: "GetAddrScaleRequest \<Rightarrow> bool"

abbreviation topic_of :: "TopicConfig \<Rightarrow> Topic" where
  "topic_of tc \<equiv> tp_topic (tc_proto tc)"

subsection \<open>Mastership\<close>

text \<open>A topic can name its master; then leases do not matter. The result is whether it does, and who.\<close>

definition IsForceMaster :: "SchedEnv \<Rightarrow> int \<Rightarrow> bool \<times> bool" where
  "IsForceMaster env topic_id =
     (case GetTopicConfigByTopicID (se_config env) topic_id of
        Inl _ \<Rightarrow> (False, False)
      | Inr tc \<Rightarrow>
          let t = topic_of tc in
          if scheduler_master_port t \<noteq> 0 \<and> scheduler_master_ip t \<noteq> [] \<and> scheduler_master_ip t \<noteq> ''0.0.0.0''
          then (True, so_ip (se_opt env) = scheduler_master_ip t \<and> so_port (se_opt env) = scheduler_master_port t)
          else (False, False))"

definition SchedulerMgr_IsMaster :: "SchedEnv \<Rightarrow> int \<Rightarrow> u64 \<Rightarrow> SchedulerMgr \<Rightarrow> bool" where
  "SchedulerMgr_IsMaster env topic_id now m =
     (let (force, master) = IsForceMaster env topic_id in
      if force then master else now < master_expire_time_ms m)"

definition RenewMaster :: "SchedulerMgr \<Rightarrow> u64 \<Rightarrow> RetCode \<times> SchedulerMgr" where
  "RenewMaster m expire_time_ms = (RET_OK, m\<lparr>master_expire_time_ms := expire_time_ms\<rparr>)"

subsection \<open>Reports of the consumers\<close>

definition LoadInfo2Load :: "LoadInfo \<Rightarrow> int \<Rightarrow> int option" where
  "LoadInfo2Load info load_use_proc_used_ratio =
     (let x = float64 (of_int (li_proc_used_ratio info) / 100)
      in trunc_i32 (float64 (of_int (li_cpu info) * float64 (1 + float64 (x * of_int load_use_proc_used_ratio)))))"

definition BuildTopicScaleResponse :: "SchedEnv \<Rightarrow> TopicData \<Rightarrow> (Addr \<times> int) list" where
  "BuildTopicScaleResponse env d =
     map (\<lambda>(addr, c). (DecodeAddr (se_inet_ntoa env) addr, ci_weight c)) (consumer_addr2info_map d)"

definition update_load :: "Topic \<Rightarrow> u64 \<Rightarrow> LoadInfo \<Rightarrow> ConsumerInfo \<Rightarrow> ConsumerInfo option" where
  "update_load t now info c = do {
     load \<leftarrow> LoadInfo2Load info (scheduler_load_use_proc_used_ratio t);
     let c = c\<lparr>ci_last_active_time := now, ci_loads := MeanVector_Update (ci_loads c) load\<rparr>;
     mean \<leftarrow> MeanVector_Mean (ci_loads c);
     new_load \<leftarrow> trunc_i32 mean;
     diff \<leftarrow> i32 (new_load - ci_sticky_load c);
     diff \<leftarrow> i32 \<bar>diff\<bar>;
     Some (if scheduler_load_sticky t < diff \<or> ci_sticky_load c \<le> 0 then c\<lparr>ci_sticky_load := new_load\<rparr> else c) }"

text \<open>\<open>topic_id\<close> is the scheduler's own topic, which decides on the mastership.\<close>

definition SchedulerMgr_GetAddrScale ::
  "SchedEnv \<Rightarrow> int \<Rightarrow> u64 \<Rightarrow> GetAddrScaleRequest \<Rightarrow> SchedulerMgr \<Rightarrow> ((RetCode + (Addr \<times> int) list) \<times> SchedulerMgr) option" where
  "SchedulerMgr_GetAddrScale env topic_id now req m =
     (if \<not> SchedulerMgr_IsMaster env topic_id now m then Some (Inl RET_ERR_NOT_MASTER, m)
      else case map_of (topic_id2data_map m) (as_topic_id req) of
        None \<Rightarrow> Some (Inl RET_ERR_RANGE_TOPIC, m)
      | Some d \<Rightarrow>
          (case GetTopicConfigByTopicID (se_config env) (as_topic_id req) of
             Inl ret \<Rightarrow> Some (Inl ret, m)
           | Inr tc \<Rightarrow>
               if as_topic_id req \<notin> set (topic_id2lock_map m) then Some (Inl RET_ERR_LOGIC, m)
               else let addr = EncodeAddr (se_inet_addr env) (as_addr req) in
                 (case map_of (consumer_addr2info_map d) addr of
                    None \<Rightarrow> Some (Inl RET_ERR_RANGE_CONSUMER, m)
                  | Some c \<Rightarrow> do {
                      c \<leftarrow> (if NeedSkipUpdateLoad env req then Some c
                           else update_load (topic_of tc) now (as_load_info req) c);
                      let d = d\<lparr>consumer_addr2info_map := map_assign addr c (consumer_addr2info_map d)\<rparr>;
                      Some (Inr (BuildTopicScaleResponse env d),
                        m\<lparr>topic_id2data_map := map_assign (as_topic_id req) d (topic_id2data_map m)\<rparr>) })))"

subsection \<open>Reloading the configuration\<close>

text \<open>
  Removing topics: \<open>it = erase(it)\<close> inside a loop that also increments \<open>it\<close>, so the element after
  an erased one is not looked at, and erasing the last one increments the end iterator.
\<close>

fun remove_topics :: "int list \<Rightarrow> int list \<Rightarrow> (int \<times> 'a) list \<Rightarrow> (int \<times> 'a) list option" where
  "remove_topics topic_ids locks [] = Some []"
| "remove_topics topic_ids locks (e # es) =
     (if fst e \<notin> set topic_ids \<and> fst e \<in> set locks
      then (case es of
              [] \<Rightarrow> None
            | e2 # es \<Rightarrow> map_option (\<lambda>es. e2 # es) (remove_topics topic_ids locks es))
      else map_option (\<lambda>es. e # es) (remove_topics topic_ids locks es))"

definition add_topic :: "(int \<Rightarrow> u64) \<Rightarrow> int \<Rightarrow> SchedulerMgr \<Rightarrow> SchedulerMgr" where
  "add_topic clock topic_id m =
     (if map_of (topic_id2data_map m) topic_id = None
      then m\<lparr>topic_id2lock_map := set_insert id topic_id (topic_id2lock_map m),
             topic_id2data_map := map_emplace topic_id (TopicData_new (clock topic_id)) (topic_id2data_map m)\<rparr>
      else m)"

definition ReloadTopicConfig :: "GlobalConfig \<Rightarrow> (int \<Rightarrow> u64) \<Rightarrow> SchedulerMgr \<Rightarrow> SchedulerMgr option" where
  "ReloadTopicConfig g clock m =
     (let topic_ids = GetAllTopicID g;
          modified = (length (topic_id2data_map m) \<noteq> length topic_ids
                      \<or> (\<exists>t \<in> set topic_ids. map_of (topic_id2data_map m) t = None))
      in if \<not> modified then Some m
         else let m = fold (add_topic clock) topic_ids m in
           if length topic_ids \<noteq> length (topic_id2data_map m)
           then map_option (\<lambda>ds. m\<lparr>topic_id2data_map := ds\<rparr>)
                  (remove_topics topic_ids (topic_id2lock_map m) (topic_id2data_map m))
           else Some m)"

definition GetConsumerConfigDetail :: "SchedEnv \<Rightarrow> ConsumerConfig \<Rightarrow> (u64 \<times> int) list" where
  "GetConsumerConfigDetail env cc =
     fold (\<lambda>c. map_emplace (EncodeAddr (se_inet_addr env) (consumer_addr c)) (consumer_scale c)) (GetAllConsumer cc) []"

definition add_consumer :: "u64 \<times> int \<Rightarrow> (u64 \<times> ConsumerInfo) list \<Rightarrow> (u64 \<times> ConsumerInfo) list" where
  "add_consumer kv infos =
     (if map_of infos (fst kv) = None
      then map_assign (fst kv) (ConsumerInfo_new\<lparr>ci_weight := snd kv, ci_init_weight := snd kv\<rparr>) infos
      else infos)"

definition reload_consumers :: "(u64 \<times> int) list \<Rightarrow> (u64 \<times> ConsumerInfo) list \<Rightarrow> (u64 \<times> ConsumerInfo) list" where
  "reload_consumers scales infos =
     (let modify = (length infos \<noteq> length scales \<or> (\<exists>kv \<in> set scales. map_of infos (fst kv) = None));
          infos = (if modify then
                     let infos = fold add_consumer scales infos in
                     if length scales \<noteq> length infos then filter (\<lambda>e. map_of scales (fst e) \<noteq> None) infos else infos
                   else infos)
      in map (\<lambda>(a, c). (a, c\<lparr>ci_init_weight := (case map_of scales a of None \<Rightarrow> 0 | Some w \<Rightarrow> w)\<rparr>)) infos)"

definition ReloadConsumerConfig :: "SchedEnv \<Rightarrow> int \<Rightarrow> TopicData \<Rightarrow> RetCode \<times> TopicData \<times> bool" where
  "ReloadConsumerConfig env topic_id d =
     (let mod_time = GetLastModTime (se_config env) topic_id in
      if mod_time = conf_last_mod_time d then (RET_OK, d, False)
      else case GetConsumerConfig (se_config env) topic_id of
        Inl ret \<Rightarrow> (ret, d, False)
      | Inr cc \<Rightarrow>
          (RET_OK, d\<lparr>consumer_addr2info_map := reload_consumers (GetConsumerConfigDetail env cc) (consumer_addr2info_map d),
             conf_last_mod_time := mod_time\<rparr>, True))"

subsection \<open>Balancing\<close>

definition GetMode :: "SchedEnv \<Rightarrow> int \<Rightarrow> TopicData \<Rightarrow> u64 \<Rightarrow> Mode option" where
  "GetMode env topic_id d now =
     (case GetTopicConfigByTopicID (se_config env) topic_id of
        Inl _ \<Rightarrow> Some Static
      | Inr tc \<Rightarrow> do {
          x \<leftarrow> i32 (3 * scheduler_get_scale_interval_s (topic_of tc));
          x \<leftarrow> i32 (x * 1000);
          Some (if now \<le> init_time d + word_of_int x then Static else Dynamic) })"

text \<open>The consumer's silence is compared with \<open>keep\<close>, \<open>scheduler_hash_keep_time_s\<close> in milliseconds.\<close>

definition update_live :: "u64 \<Rightarrow> u64 \<Rightarrow> ConsumerInfo \<Rightarrow> bool \<times> ConsumerInfo" where
  "update_live now keep c =
     (if ci_live c \<and> ci_last_active_time c + keep \<le> now then (True, (ConsumerInfo_Reset c)\<lparr>ci_live := False\<rparr>)
      else if \<not> ci_live c \<and> now < ci_last_active_time c + keep then (True, c\<lparr>ci_live := True\<rparr>)
      else (False, c))"

definition UpdateLive :: "SchedEnv \<Rightarrow> int \<Rightarrow> TopicData \<Rightarrow> u64 \<Rightarrow> (RetCode \<times> TopicData \<times> bool) option" where
  "UpdateLive env topic_id d now =
     (case GetTopicConfigByTopicID (se_config env) topic_id of
        Inl ret \<Rightarrow> Some (ret, d, False)
      | Inr tc \<Rightarrow>
          if consumer_addr2info_map d = [] then Some (RET_OK, d, False)
          else do {
            keep \<leftarrow> i32 (scheduler_hash_keep_time_s (topic_of tc) * 1000);
            let rs = map (\<lambda>(a, c). (a, update_live now (word_of_int keep) c)) (consumer_addr2info_map d);
            Some (RET_OK, d\<lparr>consumer_addr2info_map := map (\<lambda>(a, r). (a, snd r)) rs\<rparr>, \<exists>(a, r) \<in> set rs. fst r) })"

definition live_consumers :: "TopicData \<Rightarrow> ConsumerInfo list" where
  "live_consumers d = filter ci_live (map snd (consumer_addr2info_map d))"

definition GetMeanLoad :: "TopicData \<Rightarrow> (RetCode \<times> rat) option" where
  "GetMeanLoad d = do {
     sum_load \<leftarrow> sum_i32 (map ci_sticky_load (live_consumers d));
     nr_live \<leftarrow> i32 (int (length (live_consumers d)));
     Some (if nr_live \<le> 0 then (RET_NO_LIVE_CONSUMER, 0)
           else if sum_load \<le> 0 then (RET_ERR_LOGIC, 0)
           else (RET_OK, float32 (of_int (cdiv sum_load nr_live)))) }"

definition IsConsumerImbalance :: "Topic \<Rightarrow> int \<Rightarrow> rat \<Rightarrow> bool" where
  "IsConsumerImbalance t sticky_load mean_load \<longleftrightarrow>
     scheduler_max_load t < sticky_load
     \<and> float32 (float32 (mean_load * float32 (of_int (scheduler_max_mean_load_percent t))) / 100)
         < float32 (of_int sticky_load)"

text \<open>\<open>nr_live\<close> is compared with the count of the balanced consumers, but never incremented.\<close>

definition CheckImbalance :: "SchedEnv \<Rightarrow> int \<Rightarrow> TopicData \<Rightarrow> rat \<Rightarrow> RetCode \<times> bool" where
  "CheckImbalance env topic_id d mean_load =
     (case GetTopicConfigByTopicID (se_config env) topic_id of
        Inl ret \<Rightarrow> (ret, False)
      | Inr tc \<Rightarrow>
          let nr_live = 0;
              nr_balance = length (filter (\<lambda>c. \<not> IsConsumerImbalance (topic_of tc) (ci_sticky_load c) mean_load) (live_consumers d))
          in (RET_OK, nr_live = nr_balance))"

definition NextConsumerWeight :: "Topic \<Rightarrow> int \<Rightarrow> rat \<Rightarrow> int \<Rightarrow> int option" where
  "NextConsumerWeight t dynamic_load mean_load init_weight =
     (if dynamic_load \<le> 0 then Some 0
      else do {
        new_weight \<leftarrow> trunc_i32 (float32 (float32 (float32 (of_int init_weight) * mean_load) / float32 (of_int dynamic_load)));
        cap \<leftarrow> i32 (init_weight * scheduler_max_init_weight_percent t);
        Some (if cdiv cap 100 < new_weight then cdiv cap 100 else new_weight) })"

definition preview_weight :: "Topic \<Rightarrow> rat \<Rightarrow> ConsumerInfo \<Rightarrow> int option" where
  "preview_weight t mean_load c =
     (if ci_live c then
        (if scheduler_use_init_weight t = 0
         then NextConsumerWeight t (ci_sticky_load c) mean_load (ci_init_weight c)
         else Some (ci_init_weight c))
      else Some 0)"

definition preview_step ::
  "Topic \<Rightarrow> rat \<Rightarrow> u64 \<times> ConsumerInfo \<Rightarrow> (u64 \<times> int) list \<Rightarrow> (u64 \<times> int) list option" where
  "preview_step t mean_load kv preview =
     map_option (\<lambda>w. map_emplace (fst kv) w preview) (preview_weight t mean_load (snd kv))"

definition diff_step ::
  "(u64 \<times> int) list \<Rightarrow> u64 \<times> ConsumerInfo \<Rightarrow> int \<times> int \<Rightarrow> (int \<times> int) option" where
  "diff_step preview kv = (\<lambda>(nr_consumer, sum_diff).
     case map_of preview (fst kv) of
       None \<Rightarrow> Some (nr_consumer, sum_diff)
     | Some w \<Rightarrow> do {
         nr_consumer \<leftarrow> i32 (nr_consumer + 1);
         diff \<leftarrow> i32 (ci_weight (snd kv) - w);
         diff \<leftarrow> i32 \<bar>diff\<bar>;
         sum_diff \<leftarrow> i32 (sum_diff + diff);
         Some (nr_consumer, sum_diff) })"

definition apply_preview :: "(u64 \<times> int) list \<Rightarrow> u64 \<times> ConsumerInfo \<Rightarrow> u64 \<times> ConsumerInfo" where
  "apply_preview preview kv =
     (case map_of preview (fst kv) of None \<Rightarrow> kv | Some w \<Rightarrow> (fst kv, (snd kv)\<lparr>ci_weight := w\<rparr>))"

definition AdjustScale ::
  "SchedEnv \<Rightarrow> int \<Rightarrow> TopicData \<Rightarrow> rat \<Rightarrow> bool \<Rightarrow> (RetCode \<times> TopicData) option" where
  "AdjustScale env topic_id d mean_load force_apply =
     (case GetTopicConfigByTopicID (se_config env) topic_id of
        Inl ret \<Rightarrow> Some (ret, d)
      | Inr tc \<Rightarrow> do {
          let infos = consumer_addr2info_map d;
          preview \<leftarrow> foldM (preview_step (topic_of tc) mean_load) infos [];
          (nr_consumer, sum_diff) \<leftarrow> foldM (diff_step preview) infos (0, 0);
          let apply = (force_apply
            \<or> float64 (of_int nr_consumer * of_int (scheduler_weight_sticky (topic_of tc))) < of_int sum_diff);
          Some (RET_OK, if apply then d\<lparr>consumer_addr2info_map := map (apply_preview preview) infos\<rparr> else d) })"

definition balance_topic :: "SchedEnv \<Rightarrow> u64 \<Rightarrow> int \<Rightarrow> TopicData \<Rightarrow> TopicData option" where
  "balance_topic env now topic_id d =
     (let (ret, d, conf_modified) = ReloadConsumerConfig env topic_id d in
      if ret \<noteq> RET_OK then Some d
      else do {
        mode \<leftarrow> GetMode env topic_id d now;
        if mode = Static then Some d
        else do {
          (ret, d, live_modified) \<leftarrow> UpdateLive env topic_id d now;
          if ret \<noteq> RET_OK then Some d
          else do {
            (ret, mean_load) \<leftarrow> GetMeanLoad d;
            if ret \<noteq> RET_OK then Some d
            else let (ret, balanced) = CheckImbalance env topic_id d mean_load in
              if ret \<noteq> RET_OK then Some d
              else if conf_modified \<or> live_modified \<or> \<not> balanced
              then map_option snd (AdjustScale env topic_id d mean_load (conf_modified \<or> live_modified))
              else Some d }}})"

definition balance_step :: "SchedEnv \<Rightarrow> u64 \<Rightarrow> int list \<Rightarrow> int \<times> TopicData \<Rightarrow> (int \<times> TopicData) list \<Rightarrow> (int \<times> TopicData) list option" where
  "balance_step env now locks kv ds =
     (if fst kv \<notin> set locks then Some (ds @ [kv])
      else map_option (\<lambda>d. ds @ [(fst kv, d)]) (balance_topic env now (fst kv) (snd kv)))"

definition LoadBalance :: "SchedEnv \<Rightarrow> (int \<Rightarrow> u64) \<Rightarrow> u64 \<Rightarrow> SchedulerMgr \<Rightarrow> (RetCode \<times> SchedulerMgr) option" where
  "LoadBalance env clock now m = do {
     m \<leftarrow> ReloadTopicConfig (se_config env) clock m;
     ds \<leftarrow> foldM (balance_step env now (topic_id2lock_map m)) (topic_id2data_map m) [];
     Some (RET_OK, m\<lparr>topic_id2data_map := ds\<rparr>) }"

definition SchedulerMgr_Init :: "SchedEnv \<Rightarrow> (int \<Rightarrow> u64) \<Rightarrow> u64 \<Rightarrow> (RetCode \<times> SchedulerMgr) option" where
  "SchedulerMgr_Init env clock now = LoadBalance env clock now SchedulerMgr_new"

definition SchedulerMgr_Dispose :: "SchedulerMgr \<Rightarrow> RetCode \<times> SchedulerMgr" where
  "SchedulerMgr_Dispose m = (RET_OK, m\<lparr>topic_id2data_map := []\<rparr>)"

subsection \<open>Two oddities\<close>

text \<open>The verdict "balanced" means that every live consumer is out of balance.\<close>

lemma CheckImbalance_inverted:
  assumes "GetTopicConfigByTopicID (se_config env) tid = Inr tc"
  shows "snd (CheckImbalance env tid d mean) \<longleftrightarrow>
    (\<forall>c \<in> set (live_consumers d). IsConsumerImbalance (topic_of tc) (ci_sticky_load c) mean)"
  using assms by (auto simp: CheckImbalance_def Let_def filter_empty_conv eq_commute[of 0])

text \<open>Removing the topic with the largest id moves the end iterator.\<close>

lemma remove_topics_last:
  assumes "fst e \<notin> set ids" "fst e \<in> set locks" "\<forall>x \<in> set es. fst x \<in> set ids"
  shows "remove_topics ids locks (es @ [e]) = None"
  using assms by (induction es) simp_all

subsection \<open>Weights\<close>

lemma float32_int: "\<bar>n\<bar> < 2 ^ 24 \<Longrightarrow> float32 (of_int n) = of_int n"
  by (rule fl_of_int) simp

lemma NextConsumerWeight_exact:
  assumes "0 < load" "load < 2 ^ 24" "0 \<le> init" "init < 2 ^ 24" "0 \<le> mean" "mean < 2 ^ 24"
    and "init * mean < 2 ^ 24" and "0 \<le> scheduler_max_init_weight_percent t" "init * scheduler_max_init_weight_percent t < 2 ^ 31"
  shows "NextConsumerWeight t load (float32 (of_int mean)) init =
    Some (min (init * mean div load) (init * scheduler_max_init_weight_percent t div 100))"
proof -
  have e: "float32 (of_int init) = of_int init" "float32 (of_int mean) = of_int mean" "float32 (of_int load) = of_int load"
    using assms by (simp_all add: float32_int)
  have p0: "0 \<le> init * mean" using assms by simp
  have "float32 (of_int init * of_int mean) = of_int (init * mean)"
    using float32_int[of "init * mean"] p0 assms(7) by simp
  then have v: "float32 (float32 (float32 (of_int init) * float32 (of_int mean)) / float32 (of_int load))
      = float32 (of_int (init * mean) / of_int load)" (is "?v = ?w") by (simp only: e)
  have nn: "0 \<le> ?w" using p0 assms(1,3,5) by (intro fl_nonneg) simp_all
  have fl: "\<lfloor>?w\<rfloor> = init * mean div load" by (rule fl_div_floor) (use p0 assms in simp_all)
  have "init * mean div load \<le> init * mean" using zdiv_mono2[of "init * mean" 1 load] p0 assms(1) by simp
  then have "trunc_i32 ?w = Some (init * mean div load)"
    using p0 assms(1,7) unfolding trunc_nonneg[OF nn] fl by (intro i32_in) (simp_all add: pos_imp_zdiv_nonneg_iff order_trans[of _ 0])
  moreover have "i32 (init * scheduler_max_init_weight_percent t) = Some (init * scheduler_max_init_weight_percent t)"
    using assms by (intro i32_in) (simp_all add: order_trans[of _ 0])
  moreover have "0 \<le> init * scheduler_max_init_weight_percent t" using assms by simp
  ultimately show ?thesis using assms(1) by (simp add: NextConsumerWeight_def v min_def)
qed

text \<open>The weight a consumer should have, in integer arithmetic.\<close>

definition goal_weight :: "Topic \<Rightarrow> int \<Rightarrow> ConsumerInfo \<Rightarrow> int" where
  "goal_weight t mean c =
     (if \<not> ci_live c then 0
      else if scheduler_use_init_weight t \<noteq> 0 then ci_init_weight c
      else if ci_sticky_load c \<le> 0 then 0
      else min (ci_init_weight c * mean div ci_sticky_load c)
               (ci_init_weight c * scheduler_max_init_weight_percent t div 100))"

text \<open>The numbers a \<open>float\<close> holds exactly, and an \<open>int\<close> holds at all.\<close>

definition moderate :: "Topic \<Rightarrow> int \<Rightarrow> int \<Rightarrow> ConsumerInfo \<Rightarrow> bool" where
  "moderate t mean bound c \<longleftrightarrow>
     ci_sticky_load c < 2 ^ 24 \<and> 0 \<le> ci_init_weight c \<and> ci_init_weight c < 2 ^ 24 \<and> ci_init_weight c * mean < 2 ^ 24
     \<and> ci_init_weight c * scheduler_max_init_weight_percent t < 2 ^ 31
     \<and> 0 \<le> ci_weight c \<and> ci_weight c \<le> bound \<and> goal_weight t mean c \<le> bound"

lemma preview_weight_goal:
  assumes "moderate t mean bound c" "0 \<le> mean" "mean < 2 ^ 24" "0 \<le> scheduler_max_init_weight_percent t"
  shows "preview_weight t (float32 (of_int mean)) c = Some (goal_weight t mean c)" "0 \<le> goal_weight t mean c"
proof -
  show "preview_weight t (float32 (of_int mean)) c = Some (goal_weight t mean c)"
  proof (cases "0 < ci_sticky_load c")
    case True
    then show ?thesis
      using assms NextConsumerWeight_exact[of "ci_sticky_load c" "ci_init_weight c" mean t]
      by (simp add: moderate_def preview_weight_def goal_weight_def)
  qed (simp add: preview_weight_def goal_weight_def NextConsumerWeight_def)
  show "0 \<le> goal_weight t mean c" using assms by (auto simp: moderate_def goal_weight_def pos_imp_zdiv_nonneg_iff)
qed

lemma wf_map_snoc: "wf_map (m @ [(k, v)]) \<Longrightarrow> map_emplace k v m = m @ [(k, v)]"
  by (induction m) (auto simp: map_emplace_def)

lemma foldM_preview:
  assumes "\<forall>kv \<in> set infos. preview_weight t mean (snd kv) = Some (w (snd kv))"
    and "wf_map (acc @ map (\<lambda>(a, c). (a, w c)) infos)"
  shows "foldM (preview_step t mean) infos acc = Some (acc @ map (\<lambda>(a, c). (a, w c)) infos)"
  using assms
proof (induction infos arbitrary: acc)
  case (Cons kv infos)
  obtain a c where kv: "kv = (a, c)" by (cases kv)
  have "map_emplace a (w c) acc = acc @ [(a, w c)]"
    by (rule wf_map_snoc) (use Cons.prems(2) kv in \<open>simp add: sorted_by_append\<close>)
  then show ?case
    using Cons.IH[of "acc @ [(a, w c)]"] Cons.prems kv by (simp add: preview_step_def)
qed simp

lemma foldM_diff:
  assumes "\<forall>kv \<in> set infos. map_of p (fst kv) = Some (w (snd kv)) \<and> \<bar>ci_weight (snd kv) - w (snd kv)\<bar> \<le> B"
    and "0 \<le> n" "n + int (length infos) < 2 ^ 31" "0 \<le> s" "s + B * int (length infos) < 2 ^ 31" "0 \<le> B"
  shows "foldM (diff_step p) infos (n, s) =
    Some (n + int (length infos), s + (\<Sum>kv \<leftarrow> infos. \<bar>ci_weight (snd kv) - w (snd kv)\<bar>))"
  using assms
proof (induction infos arbitrary: n s)
  case (Cons kv infos)
  let ?d = "ci_weight (snd kv) - w (snd kv)"
  have d: "\<bar>?d\<bar> \<le> B" "map_of p (fst kv) = Some (w (snd kv))" using Cons.prems(1) by auto
  have "B * int (length (kv # infos)) = B + B * int (length infos)" by (simp add: algebra_simps)
  moreover have "0 \<le> B * int (length infos)" using Cons.prems(6) by simp
  ultimately have le: "s + \<bar>?d\<bar> + B * int (length infos) < 2 ^ 31" "s + \<bar>?d\<bar> < 2 ^ 31" "\<bar>?d\<bar> < 2 ^ 31"
    using d Cons.prems(4,5) by linarith+
  have i: "i32 (n + 1) = Some (n + 1)" "i32 ?d = Some ?d" "i32 \<bar>?d\<bar> = Some \<bar>?d\<bar>" "i32 (s + \<bar>?d\<bar>) = Some (s + \<bar>?d\<bar>)"
    using le Cons.prems(2,3,4) by (auto simp: abs_less_iff intro!: i32_in)
  then have "diff_step p kv (n, s) = Some (n + 1, s + \<bar>?d\<bar>)" by (simp only: diff_step_def d(2) prod.case option.case i Option.bind.simps)
  moreover have "foldM (diff_step p) infos (n + 1, s + \<bar>?d\<bar>) =
     Some (n + 1 + int (length infos), s + \<bar>?d\<bar> + (\<Sum>kv \<leftarrow> infos. \<bar>ci_weight (snd kv) - w (snd kv)\<bar>))"
    by (rule Cons.IH) (use Cons.prems le in auto)
  ultimately show ?case by (simp add: algebra_simps)
qed simp

text \<open>C23: The balancing computes the intended weights: below the limits of \<open>float\<close> and \<open>int\<close> it
  neither overflows nor loses a unit to rounding. A consumer that is not live weighs nothing, a
  live one its initial weight scaled by mean load over its own load, with a cap; and the weights
  are replaced all together, when forced or when they differ enough.\<close>

theorem AdjustScale_reference:
  assumes tc: "GetTopicConfigByTopicID (se_config env) tid = Inr tc" and wf: "wf_map (consumer_addr2info_map d)"
    and ok: "\<forall>kv \<in> set (consumer_addr2info_map d). moderate (topic_of tc) mean bound (snd kv)"
    and mean: "0 \<le> mean" "mean < 2 ^ 24" "0 \<le> scheduler_max_init_weight_percent (topic_of tc)"
    and bound: "0 \<le> bound" "bound * int (length (consumer_addr2info_map d)) < 2 ^ 31"
    and n: "length (consumer_addr2info_map d) < 2 ^ 31" "\<bar>scheduler_weight_sticky (topic_of tc)\<bar> < 2 ^ 22"
  shows "AdjustScale env tid d (float32 (of_int mean)) force = Some (RET_OK,
    if force \<or> int (length (consumer_addr2info_map d)) * scheduler_weight_sticky (topic_of tc)
                 < (\<Sum>kv \<leftarrow> consumer_addr2info_map d. \<bar>ci_weight (snd kv) - goal_weight (topic_of tc) mean (snd kv)\<bar>)
    then d\<lparr>consumer_addr2info_map :=
           map (\<lambda>(a, c). (a, c\<lparr>ci_weight := goal_weight (topic_of tc) mean c\<rparr>)) (consumer_addr2info_map d)\<rparr>
    else d)"
proof -
  let ?t = "topic_of tc" and ?infos = "consumer_addr2info_map d"
  let ?w = "goal_weight ?t mean" and ?n = "int (length ?infos)"
  define p where "p = map (\<lambda>(a, c). (a, ?w c)) ?infos"
  have keys: "map fst p = map fst ?infos" by (simp add: p_def case_prod_beta)
  have "wf_map p" using wf unfolding sorted_by_def p_def by (simp add: sorted_wrt_map case_prod_beta)
  moreover have "\<forall>kv \<in> set ?infos. preview_weight ?t (float32 (of_int mean)) (snd kv) = Some (?w (snd kv))"
    using preview_weight_goal(1)[OF _ mean] ok by blast
  ultimately have p: "foldM (preview_step ?t (float32 (of_int mean))) ?infos [] = Some p"
    using foldM_preview[of ?infos ?t _ ?w "[]"] by (simp add: p_def)
  have at: "map_of p a = Some (?w c)" if "(a, c) \<in> set ?infos" for a c
  proof -
    have "distinct (map fst p)" using wf unfolding keys sorted_by_def
      by (simp add: strict_sorted_iff flip: sorted_wrt_map)
    then show ?thesis by (rule map_of_is_SomeI) (use that in \<open>force simp: p_def\<close>)
  qed
  have "\<bar>ci_weight c - ?w c\<bar> \<le> bound" if "(a, c) \<in> set ?infos" for a c
    using preview_weight_goal(2)[OF _ mean, of bound c] ok that by (fastforce simp: moderate_def abs_le_iff)
  then have "\<forall>kv \<in> set ?infos. map_of p (fst kv) = Some (?w (snd kv)) \<and> \<bar>ci_weight (snd kv) - ?w (snd kv)\<bar> \<le> bound"
    using at by (metis prod.collapse)
  then have diff: "foldM (diff_step p) ?infos (0, 0) = Some (?n, \<Sum>kv \<leftarrow> ?infos. \<bar>ci_weight (snd kv) - ?w (snd kv)\<bar>)"
    using foldM_diff[of ?infos p ?w bound 0 0] bound n(1) by simp
  have "\<bar>?n * scheduler_weight_sticky ?t\<bar> < 2 ^ 53"
  proof -
    have "\<bar>?n * scheduler_weight_sticky ?t\<bar> \<le> 2 ^ 31 * \<bar>scheduler_weight_sticky ?t\<bar>"
      using n(1) by (simp add: abs_mult mult_right_mono)
    also have "\<dots> < 2 ^ 31 * 2 ^ 22" using n(2) by simp
    finally show ?thesis by simp
  qed
  then have fl: "float64 (of_int ?n * of_int (scheduler_weight_sticky ?t)) = of_int (?n * scheduler_weight_sticky ?t)"
    by (metis fl_of_int of_int_mult)
  have "map (apply_preview p) ?infos = map (\<lambda>(a, c). (a, c\<lparr>ci_weight := ?w c\<rparr>)) ?infos"
    by (rule map_cong) (auto simp: apply_preview_def at)
  then show ?thesis by (simp only: AdjustScale_def tc sum.case Let_def p diff Option.bind.simps prod.case fl of_int_less_iff)
qed

lemma wf_map_lookup: "wf_map m \<Longrightarrow> (a, c) \<in> set m \<Longrightarrow> map_of m a = Some c"
  by (induction m) force+

subsection \<open>Who is live\<close>

lemma map_of_map_snd: "map_of (map (\<lambda>(a, c). (a, f c)) m) k = map_option f (map_of m k)"
  by (induction m) auto

lemma map_of_filter_keys: "map_of (filter (\<lambda>e. P (fst e)) m) k = (if P k then map_of m k else None)"
  by (induction m) auto

lemma map_of_add_consumer:
  assumes "wf_map infos" "map_of infos a = Some c"
  shows "wf_map (fold add_consumer scales infos) \<and> map_of (fold add_consumer scales infos) a = Some c"
  using assms
proof (induction scales arbitrary: infos)
  case (Cons kv scales)
  have "wf_map (add_consumer kv infos) \<and> map_of (add_consumer kv infos) a = Some c"
    using Cons.prems by (auto simp: add_consumer_def wf_map_assign map_of_assign)
  with Cons.IH show ?case by simp
qed simp

lemma wf_add_consumers: "wf_map infos \<Longrightarrow> wf_map (fold add_consumer scales infos)"
  by (induction scales arbitrary: infos) (auto simp: add_consumer_def wf_map_assign)

definition same_but_init :: "ConsumerInfo \<Rightarrow> ConsumerInfo \<Rightarrow> bool" where
  "same_but_init c c' \<longleftrightarrow> (\<exists>w. c' = c\<lparr>ci_init_weight := w\<rparr>)"

lemma wf_map_map: "wf_map m \<Longrightarrow> wf_map (map (\<lambda>(a, c). (a, f c)) m)"
  by (simp add: sorted_by_def sorted_wrt_map case_prod_beta)

lemma wf_map_filter: "wf_map m \<Longrightarrow> wf_map (filter P m)"
  by (rule sorted_by_filter)

lemma reload_consumers_keeps:
  assumes wf: "wf_map infos" and c: "map_of infos a = Some c"
  shows "wf_map (reload_consumers scales infos)
    \<and> (\<forall>c'. map_of (reload_consumers scales infos) a = Some c' \<longrightarrow> same_but_init c c')"
proof -
  define modify where "modify \<longleftrightarrow> (length infos \<noteq> length scales \<or> (\<exists>kv \<in> set scales. map_of infos (fst kv) = None))"
  define mid where "mid = (if modify then
                     let infos = fold add_consumer scales infos in
                     if length scales \<noteq> length infos then filter (\<lambda>e. map_of scales (fst e) \<noteq> None) infos else infos
                   else infos)"
  define w where "w = (\<lambda>a. case map_of scales a of None \<Rightarrow> 0 | Some w \<Rightarrow> w)"
  have eq: "reload_consumers scales infos = map (\<lambda>(a, c). (a, c\<lparr>ci_init_weight := w a\<rparr>)) mid"
    unfolding reload_consumers_def mid_def modify_def w_def Let_def by simp
  have mid: "wf_map mid" "map_of mid a = Some x \<Longrightarrow> x = c" for x
    using map_of_add_consumer[OF wf c, of scales] wf c
    by (auto simp: mid_def Let_def map_of_filter_keys[of "\<lambda>k. \<exists>y. map_of scales k = Some y"] wf_map_filter split: if_splits)
  have look: "map_of (map (\<lambda>(a, c). (a, c\<lparr>ci_init_weight := w a\<rparr>)) es) a = map_option (\<lambda>c. c\<lparr>ci_init_weight := w a\<rparr>) (map_of es a)" for es
    by (induction es) auto
  have "wf_map (map (\<lambda>(a, c). (a, c\<lparr>ci_init_weight := w a\<rparr>)) mid)"
    using mid(1) by (simp add: sorted_by_def sorted_wrt_map case_prod_beta)
  then show ?thesis unfolding eq look using mid(2) by (auto simp: same_but_init_def)
qed

text \<open>What a consumer is after a round, given what it was before it.\<close>

definition round_result :: "u64 \<Rightarrow> u64 \<Rightarrow> ConsumerInfo \<Rightarrow> ConsumerInfo \<Rightarrow> bool" where
  "round_result now keep c c' \<longleftrightarrow>
     ci_last_active_time c' = ci_last_active_time c
     \<and> (ci_live c' \<longleftrightarrow> now < ci_last_active_time c + keep)
     \<and> (ci_live c \<and> \<not> ci_live c' \<longrightarrow> ci_weight c' = 0)"

lemma update_live_result:
  "same_but_init c c1 \<Longrightarrow> round_result now keep c (snd (update_live now keep c1))"
  by (auto simp: same_but_init_def update_live_def round_result_def ConsumerInfo_Reset_def)

lemma foldM_preview_defined:
  "foldM (preview_step t mean) infos acc = Some p \<Longrightarrow> \<forall>kv \<in> set infos. preview_weight t mean (snd kv) \<noteq> None"
  by (induction infos arbitrary: acc) (auto simp: preview_step_def Option.bind_eq_Some_conv)

lemma AdjustScale_frame:
  assumes run: "AdjustScale env tid d mean force = Some (ret, d')" and wf: "wf_map (consumer_addr2info_map d)"
  shows "\<exists>g. consumer_addr2info_map d' = map (\<lambda>(a, c). (a, g c)) (consumer_addr2info_map d)
    \<and> (\<forall>c. g c = c \<or> (\<exists>w. g c = c\<lparr>ci_weight := w\<rparr> \<and> (\<not> ci_live c \<longrightarrow> w = 0)))"
proof (cases "GetTopicConfigByTopicID (se_config env) tid")
  case (Inl ret)
  with run have "consumer_addr2info_map d' = map (\<lambda>(a, c). (a, id c)) (consumer_addr2info_map d)"
    by (simp add: AdjustScale_def)
  then show ?thesis by (metis id_apply)
next
  case (Inr tc)
  let ?t = "topic_of tc" and ?infos = "consumer_addr2info_map d"
  let ?w = "\<lambda>c. if ci_live c then the (preview_weight ?t mean c) else 0"
  obtain p where p: "foldM (preview_step ?t mean) ?infos [] = Some p"
    "d' = d \<or> d' = d\<lparr>consumer_addr2info_map := map (apply_preview p) ?infos\<rparr>"
    using run Inr by (auto simp: AdjustScale_def Let_def Option.bind_eq_Some_conv split: prod.splits if_splits)
  have "\<forall>kv \<in> set ?infos. preview_weight ?t mean (snd kv) = Some (?w (snd kv))"
    using foldM_preview_defined[OF p(1)] by (auto simp: preview_weight_def)
  from foldM_preview[OF this, of "[]"] have "p = map (\<lambda>(a, c). (a, ?w c)) ?infos"
    using p(1) wf_map_map[OF wf, of ?w] by simp
  moreover have "map_of (map (\<lambda>(a, c). (a, ?w c)) ?infos) a = Some (?w c)" if "(a, c) \<in> set ?infos" for a c
    using that wf_map_lookup[OF wf that] by (simp only: map_of_map_snd) simp
  ultimately have "map (apply_preview p) ?infos = map (\<lambda>(a, c). (a, c\<lparr>ci_weight := ?w c\<rparr>)) ?infos"
    by (intro map_cong) (auto simp: apply_preview_def)
  with p(2) consider "consumer_addr2info_map d' = map (\<lambda>(a, c). (a, id c)) ?infos"
    | "consumer_addr2info_map d' = map (\<lambda>(a, c). (a, c\<lparr>ci_weight := ?w c\<rparr>)) ?infos" by fastforce
  then show ?thesis
  proof cases
    case 1
    then show ?thesis by (metis id_apply)
  next
    case 2
    then show ?thesis by (intro exI[of _ "\<lambda>c. c\<lparr>ci_weight := ?w c\<rparr>"]) auto
  qed
qed

lemma balance_topic_result:
  assumes run: "balance_topic env now tid d = Some d'" and wf: "wf_map (consumer_addr2info_map d)"
    and tc: "GetTopicConfigByTopicID (se_config env) tid = Inr tc" and cc: "GetConsumerConfig (se_config env) tid = Inr cc"
    and mode: "GetMode env tid d now = Some Dynamic"
    and keep: "i32 (scheduler_hash_keep_time_s (topic_of tc) * 1000) = Some keep"
    and c: "map_of (consumer_addr2info_map d) a = Some c" and c': "map_of (consumer_addr2info_map d') a = Some c'"
  shows "round_result now (word_of_int keep) c c'"
proof -
  obtain d1 conf where d1: "ReloadConsumerConfig env tid d = (RET_OK, d1, conf)"
    using cc by (cases "GetLastModTime (se_config env) tid = conf_last_mod_time d") (auto simp: ReloadConsumerConfig_def Let_def)
  have i1: "init_time d1 = init_time d" and wf1: "wf_map (consumer_addr2info_map d1)"
    and c1: "\<And>c1. map_of (consumer_addr2info_map d1) a = Some c1 \<Longrightarrow> same_but_init c c1"
  proof -
    have refl: "same_but_init c c" unfolding same_but_init_def by (rule exI[of _ "ci_init_weight c"]) simp
    show "init_time d1 = init_time d" "wf_map (consumer_addr2info_map d1)"
      "\<And>c1. map_of (consumer_addr2info_map d1) a = Some c1 \<Longrightarrow> same_but_init c c1"
      using d1 cc reload_consumers_keeps[OF wf c, of "GetConsumerConfigDetail env cc"] wf c refl
      by (auto simp: ReloadConsumerConfig_def Let_def split: if_splits)
  qed
  have mode1: "GetMode env tid d1 now = Some Dynamic" using mode i1 tc by (simp add: GetMode_def)
  obtain d2 lm where d2: "UpdateLive env tid d1 now = Some (RET_OK, d2, lm)"
    "consumer_addr2info_map d2 = map (\<lambda>(a, c). (a, snd (update_live now (word_of_int keep) c))) (consumer_addr2info_map d1)"
    using tc keep by (cases "consumer_addr2info_map d1 = []") (auto simp: UpdateLive_def Let_def case_prod_beta)
  have wf2: "wf_map (consumer_addr2info_map d2)" unfolding d2(2) by (rule wf_map_map[OF wf1])
  have "d' = d2 \<or> (\<exists>mean force ret. AdjustScale env tid d2 mean force = Some (ret, d'))"
    using run d1 mode1 d2(1)
    by (auto simp: balance_topic_def Let_def Option.bind_eq_Some_conv split: prod.splits if_splits)
  then obtain g where g: "consumer_addr2info_map d' = map (\<lambda>(a, c). (a, g c)) (consumer_addr2info_map d2)"
    "\<forall>c. g c = c \<or> (\<exists>w. g c = c\<lparr>ci_weight := w\<rparr> \<and> (\<not> ci_live c \<longrightarrow> w = 0))"
  proof
    assume "d' = d2"
    then show ?thesis using that[of id] by simp
  qed (use AdjustScale_frame[OF _ wf2] that in blast)
  obtain c1 where "map_of (consumer_addr2info_map d1) a = Some c1" "c' = g (snd (update_live now (word_of_int keep) c1))"
    using c' unfolding g(1) d2(2) map_of_map_snd by auto
  with update_live_result[OF c1, of c1 now "word_of_int keep"] g(2) show ?thesis
    unfolding round_result_def by (metis (no_types, lifting) ConsumerInfo.select_convs(5,6) ConsumerInfo.surjective
      ConsumerInfo.update_convs(1) ConsumerInfo.select_convs(1))
qed

lemma remove_topics_keeps: "remove_topics ids locks es = Some es' \<Longrightarrow> t \<in> set ids \<Longrightarrow> map_of es' t = map_of es t"
  by (induction ids locks es arbitrary: es' rule: remove_topics.induct) (auto split: if_splits list.splits)

definition wf_topics :: "SchedulerMgr \<Rightarrow> bool" where
  "wf_topics m \<longleftrightarrow> wf_map (topic_id2data_map m) \<and> (\<forall>(t, d) \<in> set (topic_id2data_map m). wf_map (consumer_addr2info_map d))"

lemma add_topics_keeps:
  assumes "wf_map (topic_id2data_map m)" "map_of (topic_id2data_map m) t = Some d"
  shows "wf_map (topic_id2data_map (fold (add_topic clock) ids m))
    \<and> map_of (topic_id2data_map (fold (add_topic clock) ids m)) t = Some d
    \<and> set (topic_id2lock_map m) \<subseteq> set (topic_id2lock_map (fold (add_topic clock) ids m))"
  using assms
proof (induction ids arbitrary: m)
  case (Cons i ids)
  have "wf_map (topic_id2data_map (add_topic clock i m)) \<and> map_of (topic_id2data_map (add_topic clock i m)) t = Some d
      \<and> set (topic_id2lock_map m) \<subseteq> set (topic_id2lock_map (add_topic clock i m))"
    using Cons.prems by (auto simp: add_topic_def wf_map_emplace map_of_emplace set_set_insert_id)
  with Cons.IH[of "add_topic clock i m"] show ?case by auto
qed simp

lemma balance_all:
  assumes "foldM (balance_step env now locks) es acc = Some ds" "map_of es t = Some d" "t \<in> set locks"
  shows "map_of acc t = None \<Longrightarrow> \<exists>d'. map_of ds t = Some d' \<and> balance_topic env now t d = Some d'"
    and "map_of acc t = Some x \<Longrightarrow> map_of ds t = Some x"
proof -
  have keep: "map_of acc t = Some x \<Longrightarrow> foldM (balance_step env now locks) es acc = Some ds \<Longrightarrow> map_of ds t = Some x" for es acc x
  proof (induction es arbitrary: acc)
    case (Cons e es)
    then obtain acc1 where "balance_step env now locks e acc = Some acc1" "foldM (balance_step env now locks) es acc1 = Some ds"
      by (auto simp: Option.bind_eq_Some_conv)
    moreover from this(1) have "map_of acc1 t = Some x" using Cons.prems(1)
      by (auto simp: balance_step_def map_add_def split: if_splits)
    ultimately show ?case using Cons.IH by blast
  qed simp
  show "map_of acc t = Some x \<Longrightarrow> map_of ds t = Some x" using keep assms(1) by blast
  show "map_of acc t = None \<Longrightarrow> \<exists>d'. map_of ds t = Some d' \<and> balance_topic env now t d = Some d'"
    using assms(1,2)
  proof (induction es arbitrary: acc)
    case (Cons e es)
    obtain i x where e: "e = (i, x)" by (cases e)
    obtain acc1 where acc1: "balance_step env now locks e acc = Some acc1" "foldM (balance_step env now locks) es acc1 = Some ds"
      using Cons.prems(2) by (auto simp: Option.bind_eq_Some_conv)
    show ?case
    proof (cases "i = t")
      case True
      with acc1(1) Cons.prems(1,3) assms(3) e obtain d' where "balance_topic env now t d = Some d'" "map_of acc1 t = Some d'"
        by (auto simp: balance_step_def map_add_def)
      then show ?thesis using keep[OF _ acc1(2)] by blast
    next
      case False
      then have "map_of acc1 t = None" "map_of es t = Some d"
        using acc1(1) Cons.prems(1,3) e by (auto simp: balance_step_def map_add_def split: if_splits)
      then show ?thesis using Cons.IH[OF _ acc1(2)] by blast
    qed
  qed simp
qed

lemma in_GetAllTopicID: "GetTopicConfigByTopicID g t = Inr tc \<Longrightarrow> t \<in> set (GetAllTopicID g)"
proof -
  have "set (foldl (\<lambda>s p. set_insert id (fst p) s) acc m) = set acc \<union> fst ` set m" for acc :: "int list" and m :: "(int \<times> TopicConfig) list"
    by (induction m arbitrary: acc) (auto simp: set_set_insert_id)
  then show "GetTopicConfigByTopicID g t = Inr tc \<Longrightarrow> t \<in> set (GetAllTopicID g)"
    by (force simp: GetTopicConfigByTopicID_def GetAllTopicID_def split: option.splits dest: map_of_SomeD)
qed

lemma LoadBalance_topic:
  assumes run: "LoadBalance env clock now m = Some (ret, m')" and wf: "wf_topics m"
    and tc: "GetTopicConfigByTopicID (se_config env) t = Inr tc"
    and d: "map_of (topic_id2data_map m) t = Some d" and lock: "t \<in> set (topic_id2lock_map m)"
  shows "\<exists>d'. map_of (topic_id2data_map m') t = Some d' \<and> balance_topic env now t d = Some d'"
proof -
  obtain m1 ds where m1: "ReloadTopicConfig (se_config env) clock m = Some m1"
    "foldM (balance_step env now (topic_id2lock_map m1)) (topic_id2data_map m1) [] = Some ds"
    "m' = m1\<lparr>topic_id2data_map := ds\<rparr>"
    using run by (auto simp: LoadBalance_def Option.bind_eq_Some_conv)
  let ?ma = "fold (add_topic clock) (GetAllTopicID (se_config env)) m"
  have add: "map_of (topic_id2data_map ?ma) t = Some d" "t \<in> set (topic_id2lock_map ?ma)"
    using add_topics_keeps[OF _ d, of clock "GetAllTopicID (se_config env)"] wf lock by (auto simp: wf_topics_def)
  have "map_of es t = Some d"
    if "remove_topics (GetAllTopicID (se_config env)) locks (topic_id2data_map ?ma) = Some es" for es locks
    using remove_topics_keeps[OF that in_GetAllTopicID[OF tc]] add(1) by simp
  then have "map_of (topic_id2data_map m1) t = Some d \<and> t \<in> set (topic_id2lock_map m1)"
    using m1(1) d lock add by (auto simp: ReloadTopicConfig_def Let_def split: if_splits)
  then show ?thesis using balance_all(1)[OF m1(2)] m1(3) by auto
qed

text \<open>C24: After a balancing round a consumer counts as live exactly when it reported within the keep
  time, and a consumer that fell silent has lost its weight, so that its queues go to others,
  whatever changed in the configuration and whatever the loads are.\<close>

theorem LoadBalance_liveness:
  assumes run: "LoadBalance env clock now m = Some (ret, m')" and wf: "wf_topics m"
    and tc: "GetTopicConfigByTopicID (se_config env) t = Inr tc" and cc: "GetConsumerConfig (se_config env) t = Inr cc"
    and d: "map_of (topic_id2data_map m) t = Some d" and lock: "t \<in> set (topic_id2lock_map m)"
    and mode: "GetMode env t d now = Some Dynamic"
    and keep: "i32 (scheduler_hash_keep_time_s (topic_of tc) * 1000) = Some keep"
    and c: "map_of (consumer_addr2info_map d) a = Some c"
  shows "\<exists>d'. map_of (topic_id2data_map m') t = Some d' \<and>
    (\<forall>c'. map_of (consumer_addr2info_map d') a = Some c' \<longrightarrow>
       (ci_live c' \<longleftrightarrow> now < ci_last_active_time c + word_of_int keep)
       \<and> (ci_live c \<and> ci_last_active_time c + word_of_int keep \<le> now \<longrightarrow> ci_weight c' = 0))"
proof -
  obtain d' where d': "map_of (topic_id2data_map m') t = Some d'" "balance_topic env now t d = Some d'"
    using LoadBalance_topic[OF run wf tc d lock] by blast
  have "wf_map (consumer_addr2info_map d)" using wf d by (auto simp: wf_topics_def dest: map_of_SomeD)
  note result = balance_topic_result[OF d'(2) this tc cc mode keep c]
  show ?thesis
    by (rule exI[of _ d'], intro conjI allI impI, rule d'(1))
      (use result in \<open>simp_all add: round_result_def not_less\<close>)
qed

subsection \<open>A sample topic with two consumers\<close>

definition sample_balance_topic :: "int \<Rightarrow> TopicConfig" where
  "sample_balance_topic use_init = TopicConfig_of (TopicConfig_ReadConfig\<lparr>tp_topic := Topic_default\<lparr>scheduler_use_init_weight := use_init\<rparr>\<rparr>)"

definition sample_balance_env :: "int \<Rightarrow> SchedEnv" where
  "sample_balance_env use_init = \<lparr>se_config = GlobalConfig_empty\<lparr>topic_id2topic_config := [(1000, sample_balance_topic use_init)],
       topic_id2consumer_config := [(1000, \<lparr>cc_consumers = [], cc_last_mod_time = 0, addr2consumer = []\<rparr>)]\<rparr>,
     se_opt = \<lparr>so_topic = [], so_ip = ''A'', so_port = 6100\<rparr>, se_inet_addr = (\<lambda>_. 0), se_inet_ntoa = (\<lambda>_. ''A''),
     NeedSkipUpdateLoad = (\<lambda>_. False)\<rparr>"

definition sample_consumer :: "bool \<Rightarrow> int \<Rightarrow> u64 \<Rightarrow> ConsumerInfo" where
  "sample_consumer live load active = ConsumerInfo_new\<lparr>ci_weight := 100, ci_init_weight := 100, ci_live := live,
     ci_sticky_load := load, ci_last_active_time := active\<rparr>"

definition sample_topic_data :: TopicData where
  "sample_topic_data = \<lparr>consumer_addr2info_map = [(1, sample_consumer True 30 10), (2, sample_consumer True 50 95000)],
     conf_last_mod_time = 0, init_time = 0\<rparr>"

lemma sample_balance_config:
  "GetTopicConfigByTopicID (se_config (sample_balance_env u)) 1000 = Inr (sample_balance_topic u)"
  "\<exists>cc. GetConsumerConfig (se_config (sample_balance_env u)) 1000 = Inr cc"
  "topic_of (sample_balance_topic u) = Topic_default\<lparr>scheduler_use_init_weight := u\<rparr>"
  "GetLastModTime (se_config (sample_balance_env u)) 1000 = 0" "GetAllTopicID (se_config (sample_balance_env u)) = [1000]"
  by (simp_all add: sample_balance_env_def sample_balance_topic_def GetTopicConfigByTopicID_def GetConsumerConfig_def
      TopicConfig_of_def GetLastModTime_def GetStoreConfig_def GlobalConfig_empty_def GetAllTopicID_def)

theorem AdjustScale_reference_witness:
  "AdjustScale (sample_balance_env 0) 1000 sample_topic_data (float32 (of_int 40)) True = Some (RET_OK,
     sample_topic_data\<lparr>consumer_addr2info_map := [(1, (sample_consumer True 30 10)\<lparr>ci_weight := 133\<rparr>),
       (2, (sample_consumer True 50 95000)\<lparr>ci_weight := 80\<rparr>)]\<rparr>)"
proof -
  let ?t = "topic_of (sample_balance_topic 0)"
  have ok: "\<forall>kv \<in> set (consumer_addr2info_map sample_topic_data). moderate ?t 40 200 (snd kv)"
    by (simp add: sample_balance_config(3) sample_topic_data_def sample_consumer_def moderate_def goal_weight_def
        Topic_default_def ConsumerInfo_new_def)
  have wf: "wf_map (consumer_addr2info_map sample_topic_data)" by (simp add: sample_topic_data_def)
  have m: "(0 :: int) \<le> 40" "(40 :: int) < 2 ^ 24" "0 \<le> scheduler_max_init_weight_percent ?t" "(0 :: int) \<le> 200"
    "200 * int (length (consumer_addr2info_map sample_topic_data)) < 2 ^ 31"
    "length (consumer_addr2info_map sample_topic_data) < 2 ^ 31" "\<bar>scheduler_weight_sticky ?t\<bar> < 2 ^ 22"
    by (simp_all add: sample_balance_config(3) Topic_default_def sample_topic_data_def)
  have g: "goal_weight ?t 40 (sample_consumer True 30 10) = 133" "goal_weight ?t 40 (sample_consumer True 50 95000) = 80"
    by (simp_all add: sample_balance_config(3) sample_consumer_def goal_weight_def Topic_default_def ConsumerInfo_new_def)
  show ?thesis
    unfolding AdjustScale_reference[OF sample_balance_config(1) wf ok m]
    by (simp add: sample_topic_data_def g)
qed

definition sample_mgr :: SchedulerMgr where
  "sample_mgr = \<lparr>master_expire_time_ms = 200000, topic_id2data_map = [(1000, sample_topic_data)], topic_id2lock_map = [1000]\<rparr>"

theorem LoadBalance_liveness_witness:
  "\<exists>m' d' c'. LoadBalance (sample_balance_env 1) (\<lambda>_. 0) 100000 sample_mgr = Some (RET_OK, m')
     \<and> map_of (topic_id2data_map m') 1000 = Some d' \<and> map_of (consumer_addr2info_map d') 1 = Some c'
     \<and> \<not> ci_live c' \<and> ci_weight c' = 0"
proof -
  let ?env = "sample_balance_env 1" and ?c = "sample_consumer True 30 10"
  have mode: "GetMode ?env 1000 sample_topic_data 100000 = Some Dynamic"
    by (simp add: GetMode_def sample_balance_config Topic_default_def i32_def sample_topic_data_def)
  obtain m' d' c' where run: "LoadBalance ?env (\<lambda>_. 0) 100000 sample_mgr = Some (RET_OK, m')"
    "map_of (topic_id2data_map m') 1000 = Some d'" "map_of (consumer_addr2info_map d') 1 = Some c'"
  proof -
    show ?thesis
      using that mode
      by (simp add: LoadBalance_def ReloadTopicConfig_def sample_balance_config sample_mgr_def balance_step_def balance_topic_def
          ReloadConsumerConfig_def sample_topic_data_def UpdateLive_def Topic_default_def i32_def update_live_def
          sample_consumer_def ConsumerInfo_new_def ConsumerInfo_Reset_def GetMeanLoad_def live_consumers_def sum_i32_def
          CheckImbalance_def AdjustScale_def preview_step_def preview_weight_def diff_step_def apply_preview_def map_emplace_def)
  qed
  obtain cc where cc: "GetConsumerConfig (se_config ?env) 1000 = Inr cc" using sample_balance_config(2) by blast
  have pre: "wf_topics sample_mgr" "map_of (topic_id2data_map sample_mgr) 1000 = Some sample_topic_data"
    "(1000 :: int) \<in> set (topic_id2lock_map sample_mgr)"
    "i32 (scheduler_hash_keep_time_s (topic_of (sample_balance_topic 1)) * 1000) = Some 20000"
    "map_of (consumer_addr2info_map sample_topic_data) 1 = Some ?c"
    by (simp_all add: wf_topics_def sample_mgr_def sample_topic_data_def sample_balance_config(3) Topic_default_def i32_def)
  have "(ci_live c' \<longleftrightarrow> 100000 < ci_last_active_time ?c + word_of_int 20000)
       \<and> (ci_live ?c \<and> ci_last_active_time ?c + word_of_int 20000 \<le> 100000 \<longrightarrow> ci_weight c' = 0)"
    using LoadBalance_liveness[OF run(1) pre(1) sample_balance_config(1) cc pre(2,3) mode pre(4,5)] run(2,3) by auto
  then show ?thesis using run by (auto simp: sample_consumer_def)
qed

end
