(* ===== verification/Scheduler.thy ===== *)
theory Scheduler
  imports SchedulerMgr MasterClient LockService
begin

section \<open>The scheduler and its threads\<close>

text \<open>
  The scheduler of a topic (scheduler.cpp), the thread that balances the load
  (loadbalancethread.cpp) and the thread that keeps the mastership (keepmasterthread.cpp). Several
  schedulers run for a topic; one is master at a time, by a lease on a lock of the lock service.
\<close>

record Scheduler =
  sc_opt :: SchedulerOption
  sc_topic_id :: int
  sc_addr :: Addr
  sc_mgr :: SchedulerMgr

definition Scheduler_new :: "SchedulerOption \<Rightarrow> Scheduler" where
  "Scheduler_new opt = \<lparr>sc_opt = opt, sc_topic_id = -1, sc_addr = Addr_default, sc_mgr = SchedulerMgr_new\<rparr>"

fun find_scheduler_topic :: "GlobalConfig \<Rightarrow> Addr \<Rightarrow> int list \<Rightarrow> (RetCode + int) option" where
  "find_scheduler_topic g addr [] = Some (Inl RET_ERR_RANGE_ADDR)"
| "find_scheduler_topic g addr (t # ts) =
     (case GetSchedulerConfig g t of
        Inl _ \<Rightarrow> find_scheduler_topic g addr ts
      | Inr sc \<Rightarrow>
          (case GetScheduler sc of (ret, scheduler) \<Rightarrow>
             if ret \<noteq> RET_OK then find_scheduler_topic g addr ts
             else case scheduler of
               None \<Rightarrow> None
             | Some addrs \<Rightarrow>
                 if \<exists>a \<in> set addrs. same_host a addr then Some (Inr t) else find_scheduler_topic g addr ts))"

definition Scheduler_InitTopicID :: "GlobalConfig \<Rightarrow> Scheduler \<Rightarrow> (RetCode \<times> Scheduler) option" where
  "Scheduler_InitTopicID g s =
     (if so_topic (sc_opt s) \<noteq> [] then
        Some (case GetTopicIDByTopicName g (so_topic (sc_opt s)) of
                Inl ret \<Rightarrow> (ret, s) | Inr t \<Rightarrow> (RET_OK, s\<lparr>sc_topic_id := t\<rparr>))
      else do {
        r \<leftarrow> find_scheduler_topic g (sc_addr s) (GetAllTopicID g);
        Some (case r of Inl ret \<Rightarrow> (ret, s) | Inr t \<Rightarrow> (RET_OK, s\<lparr>sc_topic_id := t\<rparr>)) })"

definition Scheduler_Init :: "SchedEnv \<Rightarrow> (int \<Rightarrow> u64) \<Rightarrow> u64 \<Rightarrow> Scheduler \<Rightarrow> (RetCode \<times> Scheduler) option" where
  "Scheduler_Init env clock now s = do {
     let s = s\<lparr>sc_addr := (sc_addr s)\<lparr>ip := so_ip (sc_opt s), port := so_port (sc_opt s)\<rparr>\<rparr>;
     (ret, s) \<leftarrow> Scheduler_InitTopicID (se_config env) s;
     if ret \<noteq> RET_OK then Some (ret, s)
     else do {
       (ret, m) \<leftarrow> SchedulerMgr_Init env clock now;
       Some (ret, s\<lparr>sc_mgr := m\<rparr>) }}"

definition Scheduler_Dispose :: "Scheduler \<Rightarrow> RetCode \<times> Scheduler" where
  "Scheduler_Dispose s = (let (ret, m) = SchedulerMgr_Dispose (sc_mgr s) in (ret, s\<lparr>sc_mgr := m\<rparr>))"

definition Scheduler_GetAddrScale ::
  "SchedEnv \<Rightarrow> u64 \<Rightarrow> GetAddrScaleRequest \<Rightarrow> Scheduler \<Rightarrow> ((RetCode + (Addr \<times> int) list) \<times> Scheduler) option" where
  "Scheduler_GetAddrScale env now req s = do {
     (r, m) \<leftarrow> SchedulerMgr_GetAddrScale env (sc_topic_id s) now req (sc_mgr s);
     Some (r, s\<lparr>sc_mgr := m\<rparr>) }"

text \<open>One turn of the balancing thread; it sleeps in between, for the seconds in the result.\<close>

definition LoadBalanceThread_round ::
  "SchedEnv \<Rightarrow> (int \<Rightarrow> u64) \<Rightarrow> u64 \<Rightarrow> Scheduler \<Rightarrow> (int \<times> Scheduler) option" where
  "LoadBalanceThread_round env clock now s =
     (case GetTopicConfigByTopicID (se_config env) (sc_topic_id s) of
        Inl _ \<Rightarrow> Some (1, s)
      | Inr tc \<Rightarrow>
          if \<not> SchedulerMgr_IsMaster env (sc_topic_id s) now (sc_mgr s)
          then Some (scheduler_load_balance_interval_s (topic_of tc), s)
          else do {
            (_, m) \<leftarrow> LoadBalance env clock now (sc_mgr s);
            Some (scheduler_load_balance_interval_s (topic_of tc), s\<lparr>sc_mgr := m\<rparr>) })"

subsection \<open>Calls to the lock\<close>

text \<open>The remote calls are virtual methods; these wrappers find the master of the lock.\<close>

definition RawGetLockInfo ::
  "(GetLockInfoResponse, 'w) ClientEnv \<Rightarrow> GlobalConfig \<Rightarrow> GetLockInfoRequest \<Rightarrow> GetLockInfoResponse \<Rightarrow> addr_cache \<times> 'w
   \<Rightarrow> RetCode \<times> GetLockInfoResponse \<times> addr_cache \<times> 'w" where
  "RawGetLockInfo env g req resp s =
     ClientCall env (Lock_route_key (gl_topic_id req) (gl_lock_id req) (gl_lock_key req))
       (Lock_GetCandidateAddrs g (gl_topic_id req) (gl_lock_id req)) resp s"

definition RawAcquireLock ::
  "('r, 'w) ClientEnv \<Rightarrow> GlobalConfig \<Rightarrow> AcquireLockRequest \<Rightarrow> 'r \<Rightarrow> addr_cache \<times> 'w \<Rightarrow> RetCode \<times> 'r \<times> addr_cache \<times> 'w" where
  "RawAcquireLock env g req resp s =
     ClientCall env (Lock_route_key (al_topic_id req) (al_lock_id req) (lk_lock_key (al_lock_info req)))
       (Lock_GetCandidateAddrs g (al_topic_id req) (al_lock_id req)) resp s"

subsection \<open>Keeping the mastership\<close>

record KeepMasterThread =
  km_master_rate :: int
  km_version :: u64
  km_overdue_time_ms :: u64

definition InitMasterRate :: "KeepMasterThread \<Rightarrow> KeepMasterThread" where
  "InitMasterRate t = t\<lparr>km_master_rate := 100\<rparr>"

definition KeepMaster_GetLockID :: "GlobalConfig \<Rightarrow> int \<Rightarrow> RetCode + int" where
  "KeepMaster_GetLockID g topic_id =
     (case GetLockConfig g topic_id of
        Inl ret \<Rightarrow> Inl ret
      | Inr lc \<Rightarrow> (case GetAllLockID lc of [] \<Rightarrow> Inl RET_ERR_RANGE_LOCK | l # _ \<Rightarrow> Inr l))"

text \<open>
  What the thread concludes from the lock's state: it notes the version and how long the lease will
  last at the most, counted from the clock reading \<open>now\<close> taken before the call, and decides whether
  to ask for the lock: nobody has it, it is its own, or it is overdue.
\<close>

definition observe_lock ::
  "string \<Rightarrow> u64 \<Rightarrow> RetCode \<Rightarrow> LockInfo \<Rightarrow> KeepMasterThread \<Rightarrow> bool \<times> KeepMasterThread" where
  "observe_lock client_id now ret info t =
     (let t = (if ret = RET_ERR_KEY_NOT_EXIST then t\<lparr>km_version := 0, km_overdue_time_ms := now\<rparr>
               else if km_version t \<noteq> lk_version info
               then t\<lparr>km_version := lk_version info, km_overdue_time_ms := now + lk_lease_time_ms info\<rparr>
               else t)
      in (ret = RET_ERR_KEY_NOT_EXIST \<or> client_id = lk_client_id info \<or> km_overdue_time_ms t < now, t))"

definition lease_ms :: "Topic \<Rightarrow> u64" where
  "lease_ms t = word_of_int (scheduler_lock_lease_time_s t) * 1000"

definition lock_request :: "int \<Rightarrow> int \<Rightarrow> string \<Rightarrow> string \<Rightarrow> u64 \<Rightarrow> u64 \<Rightarrow> AcquireLockRequest" where
  "lock_request topic_id lid key client_id version lease =
     \<lparr>al_topic_id = topic_id, al_lock_id = lid,
      al_lock_info = \<lparr>lk_lock_key = key, lk_version = version, lk_client_id = client_id, lk_lease_time_ms = lease\<rparr>,
      al_master_addr = Addr_default\<rparr>"

text \<open>
  \<open>Get\<close> and \<open>Acquire\<close> stand for \<open>RawGetLockInfo\<close> and \<open>RawAcquireLock\<close> with their environment;
  \<open>NeedDropMaster\<close> is a virtual method.
\<close>

definition Scheduler_KeepMaster ::
  "GlobalConfig \<Rightarrow> bool \<Rightarrow> (GetLockInfoRequest \<Rightarrow> 'w \<Rightarrow> RetCode \<times> GetLockInfoResponse \<times> 'w)
   \<Rightarrow> (AcquireLockRequest \<Rightarrow> 'w \<Rightarrow> RetCode \<times> 'w) \<Rightarrow> u64 \<Rightarrow> Scheduler \<Rightarrow> KeepMasterThread \<Rightarrow> 'w
   \<Rightarrow> RetCode \<times> Scheduler \<times> KeepMasterThread \<times> 'w" where
  "Scheduler_KeepMaster g NeedDropMaster Get Acquire now s t w =
     (if NeedDropMaster then (RET_ERR_SVR_BLOCK, s, t, w)
      else let topic_id = sc_topic_id s; client_id = so_ip (sc_opt s) in
        case KeepMaster_GetLockID g topic_id of
          Inl ret \<Rightarrow> (ret, s, t, w)
        | Inr lid \<Rightarrow>
            (case GetTopicConfigByTopicID g topic_id of
               Inl ret \<Rightarrow> (ret, s, t, w)
             | Inr tc \<Rightarrow>
                 let key = scheduler_lock_key (topic_of tc);
                     (ret, resp, w) = Get \<lparr>gl_topic_id = topic_id, gl_lock_id = lid, gl_lock_key = key,
                                           gl_master_addr = Addr_default\<rparr> w
                 in if ret \<noteq> RET_ERR_KEY_NOT_EXIST \<and> ret \<noteq> RET_OK then (ret, s, t, w)
                    else let info = (case gl_lock_info resp of None \<Rightarrow> LockInfo_default | Some i \<Rightarrow> i);
                             (need_acquire_lock, t) = observe_lock client_id now ret info t
                      in if need_acquire_lock then
                           let lease = lease_ms (topic_of tc); expire_time_ms = now + lease;
                               (ret, w) = Acquire (lock_request topic_id lid key client_id (km_version t) lease) w
                           in if ret = RET_OK then
                                let (ret, m) = RenewMaster (sc_mgr s) expire_time_ms in (ret, s\<lparr>sc_mgr := m\<rparr>, t, w)
                              else (ret, s, t, w)
                         else (RET_NO_NEED_LOCK, s, t, w)))"

end
