(* ===== verification/MasterLease.thy ===== *)
theory MasterLease
  imports Scheduler
begin

section \<open>Schedulers that compete for the mastership\<close>

text \<open>
  The schedulers of a topic and the table of the lock service, as a step
  relation. A scheduler asks for the lock under its client id, which is its IP without the port
  (\<open>lc_client\<close>), so several schedulers may have the same one. No scheduler is
  forced to be master. Time passes in milliseconds; the clock of each scheduler runs at the same speed with an
  offset of its own. A round of \<open>KeepMaster\<close> is several steps, between which anything may happen:
  it reads the clock, reads the lock, and may ask for it. A request that was sent may be executed by
  the lock service at any later time and any number of times, with or without an answer that
  arrives. The lock service executes it as its state machine does (\<^const>\<open>sm_spec\<close>, which the
  replicas implement); its clean thread releases a record after its lease has passed.

  \<open>delay\<close> bounds the time between the reading of the clock and that of the lock. The first instance
  of a paxos group elects the master, so instances of lock requests count from one. Times and
  instances stay below \<open>2 ^ 64\<close> during the run.
\<close>

datatype phase = Idle | Reading u64 nat | Asking u64 | Granted u64

record LeaseConfig =
  lc_key :: string
  lc_topic :: int
  lc_lock :: int
  lc_client :: "string \<Rightarrow> string"
  lc_offset :: "string \<Rightarrow> nat"
  lc_lease :: "string \<Rightarrow> u64"
  lc_delay :: nat
  lc_horizon :: nat

record LeaseState =
  ms_time :: nat
  ms_instance :: nat
  ms_table :: "string \<rightharpoonup> LocalRecordInfo"
  ms_hist :: "u64 \<rightharpoonup> string \<times> nat"
  ms_thread :: "string \<Rightarrow> KeepMasterThread"
  ms_phase :: "string \<Rightarrow> phase"
  ms_mgr :: "string \<Rightarrow> SchedulerMgr"
  ms_sent :: "AcquireLockRequest set"

definition lease_clock :: "LeaseConfig \<Rightarrow> string \<Rightarrow> nat \<Rightarrow> u64" where
  "lease_clock cf c time = of_nat (time + lc_offset cf c)"

text \<open>What \<open>GetLockInfo\<close> answers.\<close>

definition lock_answer :: "LeaseConfig \<Rightarrow> (string \<rightharpoonup> LocalRecordInfo) \<Rightarrow> RetCode \<times> LockInfo" where
  "lock_answer cf m =
     (case m (lc_key cf) of
        None \<Rightarrow> (RET_ERR_KEY_NOT_EXIST, LockInfo_default)
      | Some v \<Rightarrow> (RET_OK, LocalRecordInfo2LockInfo v (LockInfo_default\<lparr>lk_lock_key := lc_key cf\<rparr>)))"

definition lease_request :: "LeaseConfig \<Rightarrow> string \<Rightarrow> u64 \<Rightarrow> AcquireLockRequest" where
  "lease_request cf c version = lock_request (lc_topic cf) (lc_lock cf) (lc_key cf) (lc_client cf c) version (lc_lease cf (lc_client cf c))"

definition read_lock :: "LeaseConfig \<Rightarrow> string \<Rightarrow> u64 \<Rightarrow> LeaseState \<Rightarrow> LeaseState" where
  "read_lock cf c now s =
     (let (ret, info) = lock_answer cf (ms_table s);
          (need, t) = observe_lock (lc_client cf c) now ret info (ms_thread s c)
      in s\<lparr>ms_thread := (ms_thread s)(c := t), ms_phase := (ms_phase s)(c := if need then Asking now else Idle),
           ms_sent := (if need then insert (lease_request cf c (km_version t)) (ms_sent s) else ms_sent s)\<rparr>)"

text \<open>\<open>ms_hist\<close> is the history of the grants, kept for the proof.\<close>

definition execute_lock :: "LockPaxosArgs \<Rightarrow> string \<Rightarrow> LeaseState \<Rightarrow> RetCode option \<times> LeaseState" where
  "execute_lock args c s =
     (let i = of_nat (ms_instance s); (r, m) = sm_spec i args (ms_table s)
      in (r, s\<lparr>ms_table := m, ms_instance := ms_instance s + 1,
               ms_hist := (if r = Some RET_OK then (ms_hist s)(i \<mapsto> (c, ms_time s)) else ms_hist s)\<rparr>))"

inductive lease_step :: "LeaseConfig \<Rightarrow> LeaseState \<Rightarrow> LeaseState \<Rightarrow> bool" for cf where
  tick: "ms_time s + d \<le> lc_horizon cf \<Longrightarrow> lease_step cf s (s\<lparr>ms_time := ms_time s + d\<rparr>)"
| start: "ms_phase s c = Idle \<Longrightarrow>
    lease_step cf s (s\<lparr>ms_phase := (ms_phase s)(c := Reading (lease_clock cf c (ms_time s)) (ms_time s))\<rparr>)"
| read: "ms_phase s c = Reading now t0 \<Longrightarrow> ms_time s \<le> t0 + lc_delay cf \<Longrightarrow> lease_step cf s (read_lock cf c now s)"
| give_up: "lease_step cf s (s\<lparr>ms_phase := (ms_phase s)(c := Idle)\<rparr>)"
| execute: "req \<in> ms_sent s \<Longrightarrow> execute_lock (acquire_args req) (lk_client_id (al_lock_info req)) s = (r, s') \<Longrightarrow>
    ms_instance s < 2 ^ 64 \<Longrightarrow> lease_step cf s s'"
| granted: "req \<in> ms_sent s \<Longrightarrow> execute_lock (acquire_args req) (lk_client_id (al_lock_info req)) s = (Some RET_OK, s') \<Longrightarrow>
    ms_instance s < 2 ^ 64 \<Longrightarrow> lk_client_id (al_lock_info req) = lc_client cf c \<Longrightarrow> ms_phase s c = Asking now \<Longrightarrow>
    lease_step cf s (s'\<lparr>ms_phase := (ms_phase s')(c := Granted now)\<rparr>)"
| renew: "ms_phase s c = Granted now \<Longrightarrow>
    lease_step cf s (s\<lparr>ms_mgr := (ms_mgr s)(c := snd (RenewMaster (ms_mgr s c) (now + lc_lease cf (lc_client cf c)))),
                       ms_phase := (ms_phase s)(c := Idle)\<rparr>)"
| clean: "ms_table s (lc_key cf) = Some v \<Longrightarrow> ms_hist s (lr_version v) = Some (c, g) \<Longrightarrow>
    g + unat (lr_lease_time_ms v) < ms_time s \<Longrightarrow>
    sm_spec (of_nat (ms_instance s)) (clean_args (lc_key cf) (lr_version v)) (ms_table s) = (r, m) \<Longrightarrow>
    lease_step cf s (s\<lparr>ms_table := m, ms_instance := ms_instance s + 1\<rparr>)"
| other: "m (lc_key cf) = ms_table s (lc_key cf) \<Longrightarrow>
    lease_step cf s (s\<lparr>ms_table := m, ms_instance := ms_instance s + 1\<rparr>)"

text \<open>Nobody is master at the start, no request is under way, and there is no record.\<close>

definition lease_init :: "LeaseConfig \<Rightarrow> LeaseState \<Rightarrow> bool" where
  "lease_init cf s \<longleftrightarrow> ms_time s \<le> lc_horizon cf \<and> 0 < ms_instance s \<and> ms_table s (lc_key cf) = None
     \<and> ms_hist s = Map.empty \<and> (\<forall>c. km_version (ms_thread s c) = 0) \<and> (\<forall>c. ms_phase s c = Idle)
     \<and> (\<forall>c. master_expire_time_ms (ms_mgr s c) = 0) \<and> ms_sent s = {}"

definition lease_bounds :: "LeaseConfig \<Rightarrow> bool" where
  "lease_bounds cf \<longleftrightarrow> lc_key cf \<noteq> [] \<and>
     (\<forall>c. lc_lease cf c \<noteq> 0 \<and> lc_horizon cf + lc_offset cf c + unat (lc_lease cf c) + lc_delay cf < 2 ^ 64
        \<and> (\<forall>d. lc_horizon cf + lc_offset cf c + unat (lc_lease cf d) < 2 ^ 64))"

subsection \<open>The invariant\<close>

text \<open>A mastership of \<open>c\<close> that ends at \<open>e\<close> on its clock is covered by the record of the lock.\<close>

definition covered :: "LeaseConfig \<Rightarrow> LeaseState \<Rightarrow> string \<Rightarrow> nat \<Rightarrow> bool" where
  "covered cf s c e \<longleftrightarrow>
     (ms_time s + lc_offset cf c + lc_delay cf < e \<longrightarrow>
       (\<exists>v g. ms_table s (lc_key cf) = Some v \<and> ms_hist s (lr_version v) = Some (lc_client cf c, g)
          \<and> e \<le> g + lc_offset cf c + unat (lc_lease cf (lc_client cf c))))"

definition inv_table :: "LeaseConfig \<Rightarrow> LeaseState \<Rightarrow> bool" where
  "inv_table cf s \<longleftrightarrow> ms_time s \<le> lc_horizon cf \<and> 0 < ms_instance s
     \<and> (\<forall>v. ms_table s (lc_key cf) = Some v \<longrightarrow>
          lr_lease_time_ms v = lc_lease cf (lr_value v) \<and> (\<exists>g. ms_hist s (lr_version v) = Some (lr_value v, g)))
     \<and> (\<forall>i c g. ms_hist s i = Some (c, g) \<longrightarrow> i \<noteq> 0 \<and> unat i < ms_instance s \<and> g \<le> ms_time s)"

definition inv_thread :: "LeaseConfig \<Rightarrow> LeaseState \<Rightarrow> bool" where
  "inv_thread cf s \<longleftrightarrow> (\<forall>c. km_version (ms_thread s c) \<noteq> 0 \<longrightarrow>
     (\<exists>d g. ms_hist s (km_version (ms_thread s c)) = Some (d, g)
        \<and> g + unat (lc_lease cf d) + lc_offset cf c \<le> unat (km_overdue_time_ms (ms_thread s c)) + lc_delay cf))"

definition inv_sent :: "LeaseConfig \<Rightarrow> LeaseState \<Rightarrow> bool" where
  "inv_sent cf s \<longleftrightarrow> (\<forall>req \<in> ms_sent s. \<exists>c i. req = lease_request cf c i \<and> (i \<noteq> 0 \<longrightarrow>
     (\<exists>d g. ms_hist s i = Some (d, g) \<and> (d = lc_client cf c \<or> g + unat (lc_lease cf d) < ms_time s + lc_delay cf))))"

definition at_clock :: "LeaseConfig \<Rightarrow> LeaseState \<Rightarrow> string \<Rightarrow> u64 \<Rightarrow> bool" where
  "at_clock cf s c now \<longleftrightarrow> (\<exists>t0 \<le> ms_time s. now = lease_clock cf c t0)"

definition phase_ok :: "LeaseConfig \<Rightarrow> LeaseState \<Rightarrow> string \<Rightarrow> phase \<Rightarrow> bool" where
  "phase_ok cf s c p =
     (case p of
        Idle \<Rightarrow> True
      | Reading now t0 \<Rightarrow> t0 \<le> ms_time s \<and> now = lease_clock cf c t0
      | Asking now \<Rightarrow> at_clock cf s c now
      | Granted now \<Rightarrow> at_clock cf s c now \<and> covered cf s c (unat (now + lc_lease cf (lc_client cf c))))"

definition inv_phase :: "LeaseConfig \<Rightarrow> LeaseState \<Rightarrow> bool" where
  "inv_phase cf s \<longleftrightarrow> (\<forall>c. phase_ok cf s c (ms_phase s c))"

definition inv_master :: "LeaseConfig \<Rightarrow> LeaseState \<Rightarrow> bool" where
  "inv_master cf s \<longleftrightarrow> (\<forall>c. covered cf s c (unat (master_expire_time_ms (ms_mgr s c))))"

definition lease_inv :: "LeaseConfig \<Rightarrow> LeaseState \<Rightarrow> bool" where
  "lease_inv cf s \<longleftrightarrow> inv_table cf s \<and> inv_thread cf s \<and> inv_sent cf s \<and> inv_phase cf s \<and> inv_master cf s"

lemmas lease_inv_defs = lease_inv_def inv_table_def inv_thread_def inv_sent_def inv_phase_def inv_master_def

lemma lease_init_inv: "lease_init cf s \<Longrightarrow> lease_inv cf s"
  by (simp add: lease_init_def lease_inv_defs covered_def phase_ok_def)

lemma sm_spec_acquire:
  assumes "lk_lock_key (al_lock_info req) \<noteq> []"
  shows "sm_spec i (acquire_args req) m =
    (let k = lk_lock_key (al_lock_info req); info = al_lock_info req in
     if (case m k of None \<Rightarrow> True | Some l \<Rightarrow> lr_version l = lk_version info)
     then (Some RET_OK, m(k := if lk_lease_time_ms info = 0 then None else
       Some \<lparr>lr_version = i, lr_value = lk_client_id info, lr_lease_time_ms = lk_lease_time_ms info, lr_expire_time_ms = 0\<rparr>))
     else (Some RET_ERR_VERSION_NOT_EQUAL, m))"
  using assms by (simp add: sm_spec_def update_of_acquire cas_spec_def unexp_def Let_def split: option.split)

lemma clean_is_acquire:
  "clean_args k i = acquire_args (lock_request 0 0 k CLIENT_ID_CLEAN_THREAD i 0)"
  by (simp add: clean_args_def acquire_args_def lock_request_def)

lemma unat_lease_clock:
  assumes "lease_bounds cf" "t \<le> lc_horizon cf"
  shows "unat (lease_clock cf c t) = t + lc_offset cf c"
    "unat (lease_clock cf c t + lc_lease cf d) = t + lc_offset cf c + unat (lc_lease cf d)"
proof -
  have b: "t + lc_offset cf c + unat (lc_lease cf d) < 2 ^ 64" using assms by (simp add: lease_bounds_def) (meson add_le_mono1 le_less_trans)
  then have s: "t + lc_offset cf c < 2 ^ 64" by simp
  show u: "unat (lease_clock cf c t) = t + lc_offset cf c"
    unfolding lease_clock_def using s by (simp add: unsigned_of_nat take_bit_nat_eq_self del: of_nat_add)
  show "unat (lease_clock cf c t + lc_lease cf d) = t + lc_offset cf c + unat (lc_lease cf d)"
    using b u by (simp add: unat_word_ariths(1))
qed


subsection \<open>Every step keeps it\<close>

text \<open>The leases stay covered and time does not run backwards: then the phases and the masters are fine.\<close>

lemma inv_leases_mono:
  assumes "\<And>c e. covered cf s c e \<Longrightarrow> covered cf s' c e" "ms_time s \<le> ms_time s'"
  shows "phase_ok cf s c p \<Longrightarrow> phase_ok cf s' c p"
    and "inv_phase cf s \<Longrightarrow> ms_phase s' = ms_phase s \<Longrightarrow> inv_phase cf s'"
    and "inv_master cf s \<Longrightarrow> ms_mgr s' = ms_mgr s \<Longrightarrow> inv_master cf s'"
proof -
  show ok: "phase_ok cf s c p \<Longrightarrow> phase_ok cf s' c p" for c p
    using assms by (cases p) (auto simp: phase_ok_def at_clock_def intro: order_trans)
  show "inv_phase cf s \<Longrightarrow> ms_phase s' = ms_phase s \<Longrightarrow> inv_phase cf s'" using ok by (simp add: inv_phase_def)
  show "inv_master cf s \<Longrightarrow> ms_mgr s' = ms_mgr s \<Longrightarrow> inv_master cf s'" using assms(1) by (simp add: inv_master_def)
qed

lemma inv_tick:
  assumes inv: "lease_inv cf s" and "ms_time s + d \<le> lc_horizon cf"
  shows "lease_inv cf (s\<lparr>ms_time := ms_time s + d\<rparr>)"
proof -
  let ?s = "s\<lparr>ms_time := ms_time s + d\<rparr>"
  have cov: "covered cf s c e \<Longrightarrow> covered cf ?s c e" for c e by (auto simp: covered_def)
  note mono = inv_leases_mono[of cf s ?s, OF cov]
  have "inv_table cf ?s" using assms by (fastforce simp: lease_inv_defs)
  moreover have "inv_thread cf ?s" using assms by (simp add: lease_inv_def inv_thread_def)
  moreover have "inv_sent cf ?s" using assms by (fastforce simp: lease_inv_def inv_sent_def)
  ultimately show ?thesis using mono inv by (simp add: lease_inv_def)
qed

text \<open>Steps that leave the record of the lock and the history alone.\<close>

lemma covered_frame:
  assumes "ms_table s' (lc_key cf) = ms_table s (lc_key cf)" "ms_hist s' = ms_hist s" "ms_time s' = ms_time s"
  shows "covered cf s' c e = covered cf s c e"
  using assms by (simp add: covered_def)

lemma inv_other:
  assumes inv: "lease_inv cf s" and m: "m (lc_key cf) = ms_table s (lc_key cf)"
  shows "lease_inv cf (s\<lparr>ms_table := m, ms_instance := ms_instance s + 1\<rparr>)"
proof -
  let ?s = "s\<lparr>ms_table := m, ms_instance := ms_instance s + 1\<rparr>"
  have cov: "covered cf s c e \<Longrightarrow> covered cf ?s c e" for c e using covered_frame[of ?s cf s] m by simp
  note mono = inv_leases_mono[of cf s ?s, OF cov]
  have "inv_table cf ?s" using assms by (fastforce simp: lease_inv_defs)
  then show ?thesis using mono inv by (simp add: lease_inv_def inv_thread_def inv_sent_def)
qed

lemma inv_phase_step:
  assumes inv: "lease_inv cf s" and new: "phase_ok cf s c p"
  shows "lease_inv cf (s\<lparr>ms_phase := (ms_phase s)(c := p)\<rparr>)"
proof -
  let ?s = "s\<lparr>ms_phase := (ms_phase s)(c := p)\<rparr>"
  have cov: "covered cf s c e \<Longrightarrow> covered cf ?s c e" for c e using covered_frame[of ?s cf s] by simp
  note mono = inv_leases_mono[of cf s ?s, OF cov]
  have "inv_phase cf ?s" using inv new mono(1) by (simp add: lease_inv_def inv_phase_def)
  then show ?thesis using inv mono(3) by (simp add: lease_inv_def inv_table_def inv_thread_def inv_sent_def)
qed

lemma inv_renew:
  assumes inv: "lease_inv cf s" and p: "ms_phase s c = Granted now"
  shows "lease_inv cf (s\<lparr>ms_mgr := (ms_mgr s)(c := snd (RenewMaster (ms_mgr s c) (now + lc_lease cf (lc_client cf c)))),
                         ms_phase := (ms_phase s)(c := Idle)\<rparr>)"
proof -
  let ?s = "s\<lparr>ms_mgr := (ms_mgr s)(c := snd (RenewMaster (ms_mgr s c) (now + lc_lease cf (lc_client cf c)))), ms_phase := (ms_phase s)(c := Idle)\<rparr>"
  have cov: "covered cf s c e \<Longrightarrow> covered cf ?s c e" for c e using covered_frame[of ?s cf s] by simp
  note mono = inv_leases_mono[of cf s ?s, OF cov]
  have "phase_ok cf s c (Granted now)" using inv p by (metis lease_inv_def inv_phase_def)
  then have "covered cf s c (unat (now + lc_lease cf (lc_client cf c)))" by (simp add: phase_ok_def)
  then have "inv_master cf ?s" using inv cov by (simp add: lease_inv_def inv_master_def RenewMaster_def)
  moreover have "inv_phase cf ?s" using inv mono(1) by (simp add: lease_inv_def inv_phase_def) (simp add: phase_ok_def)
  ultimately show ?thesis using inv by (simp add: lease_inv_def inv_table_def inv_thread_def inv_sent_def)
qed

lemma inv_clean:
  assumes inv: "lease_inv cf s" and b: "lease_bounds cf" and v: "ms_table s (lc_key cf) = Some v"
    and h: "ms_hist s (lr_version v) = Some (c, g)" "g + unat (lr_lease_time_ms v) < ms_time s"
    and run: "sm_spec (of_nat (ms_instance s)) (clean_args (lc_key cf) (lr_version v)) (ms_table s) = (r, m)"
  shows "lease_inv cf (s\<lparr>ms_table := m, ms_instance := ms_instance s + 1\<rparr>)"
proof -
  let ?s = "s\<lparr>ms_table := m, ms_instance := ms_instance s + 1\<rparr>"
  have k: "lc_key cf \<noteq> []" using b by (simp add: lease_bounds_def)
  have m: "m (lc_key cf) = None"
    using run v k unfolding clean_is_acquire by (auto simp: sm_spec_acquire lock_request_def Let_def)
  have "lr_lease_time_ms v = lc_lease cf c" using inv v h(1) by (auto simp: lease_inv_def inv_table_def)
  then have cov: "covered cf s d e \<Longrightarrow> covered cf ?s d e" for d e
    using v h by (auto simp: covered_def)
  note mono = inv_leases_mono[of cf s ?s, OF cov]
  have "inv_table cf ?s" using inv m by (fastforce simp: lease_inv_defs)
  then show ?thesis using mono inv by (simp add: lease_inv_def inv_thread_def inv_sent_def)
qed

text \<open>Reading the lock: a version that is new to the thread was granted before this, and the
  clock reading is at most \<open>delay\<close> older.\<close>

lemma inv_read:
  assumes inv: "lease_inv cf s" and b: "lease_bounds cf" and p: "ms_phase s c = Reading now t0"
    and d: "ms_time s \<le> t0 + lc_delay cf"
  shows "lease_inv cf (read_lock cf c now s)"
proof -
  obtain ret info where a: "lock_answer cf (ms_table s) = (ret, info)" by (cases "lock_answer cf (ms_table s)")
  obtain need t where o: "observe_lock (lc_client cf c) now ret info (ms_thread s c) = (need, t)"
    by (cases "observe_lock (lc_client cf c) now ret info (ms_thread s c)")
  let ?s = "read_lock cf c now s"
  have s': "?s = s\<lparr>ms_thread := (ms_thread s)(c := t), ms_phase := (ms_phase s)(c := if need then Asking now else Idle),
           ms_sent := (if need then insert (lease_request cf c (km_version t)) (ms_sent s) else ms_sent s)\<rparr>"
    by (simp add: read_lock_def a o)
  have ok: "phase_ok cf s c (Reading now t0)" using inv p by (metis lease_inv_def inv_phase_def)
  then have t0: "t0 \<le> ms_time s" "now = lease_clock cf c t0" "t0 \<le> lc_horizon cf"
    using inv by (auto simp: phase_ok_def lease_inv_def inv_table_def)
  have old: "km_version (ms_thread s c) \<noteq> 0 \<longrightarrow> (\<exists>d g. ms_hist s (km_version (ms_thread s c)) = Some (d, g)
        \<and> g + unat (lc_lease cf d) + lc_offset cf c \<le> unat (km_overdue_time_ms (ms_thread s c)) + lc_delay cf)"
    using inv by (simp add: lease_inv_def inv_thread_def)
  have thread: "km_version t \<noteq> 0 \<longrightarrow> (\<exists>d g. ms_hist s (km_version t) = Some (d, g)
        \<and> g + unat (lc_lease cf d) + lc_offset cf c \<le> unat (km_overdue_time_ms t) + lc_delay cf)"
  proof (cases "ms_table s (lc_key cf)")
    case None
    then show ?thesis using a o by (auto simp: lock_answer_def observe_lock_def)
  next
    case (Some v)
    then obtain g where g: "ms_hist s (lr_version v) = Some (lr_value v, g)" "g \<le> ms_time s" "lr_lease_time_ms v = lc_lease cf (lr_value v)"
      using inv by (fastforce simp: lease_inv_def inv_table_def)
    have new: "unat (now + lc_lease cf (lr_value v)) = t0 + lc_offset cf c + unat (lc_lease cf (lr_value v))"
      using unat_lease_clock(2)[OF b t0(3)] t0(2) by simp
    show ?thesis
    proof (cases "km_version (ms_thread s c) = lr_version v")
      case True
      then have "t = ms_thread s c" using a o Some by (auto simp: lock_answer_def observe_lock_def LocalRecordInfo2LockInfo_def Let_def)
      then show ?thesis using old by simp
    next
      case False
      then have "km_version t = lr_version v" "km_overdue_time_ms t = now + lc_lease cf (lr_value v)"
        using a o Some g(3) by (auto simp: lock_answer_def observe_lock_def LocalRecordInfo2LockInfo_def)
      then show ?thesis using g new d by auto
    qed
  qed
  have "inv_thread cf ?s" using inv thread by (simp add: s' lease_inv_def inv_thread_def)
  moreover have "inv_sent cf ?s"
  proof (cases need)
    case False
    then show ?thesis using inv by (simp add: s' lease_inv_def inv_sent_def)
  next
    case True
    have "\<exists>d g. ms_hist s (km_version t) = Some (d, g) \<and> (d = lc_client cf c \<or> g + unat (lc_lease cf d) < ms_time s + lc_delay cf)"
      if nz: "km_version t \<noteq> 0"
    proof -
      obtain d g where dg: "ms_hist s (km_version t) = Some (d, g)"
        "g + unat (lc_lease cf d) + lc_offset cf c \<le> unat (km_overdue_time_ms t) + lc_delay cf"
        using thread nz by blast
      obtain v where v: "ms_table s (lc_key cf) = Some v"
        using nz a o by (cases "ms_table s (lc_key cf)") (auto simp: lock_answer_def observe_lock_def)
      then have ver: "km_version t = lr_version v" and why: "lc_client cf c = lr_value v \<or> km_overdue_time_ms t < now"
        using a o True by (auto simp: lock_answer_def observe_lock_def LocalRecordInfo2LockInfo_def Let_def split: if_splits)
      have "d = lr_value v" using inv v dg(1) ver by (auto simp: lease_inv_def inv_table_def)
      moreover have "unat now = t0 + lc_offset cf c" using unat_lease_clock(1)[OF b t0(3)] t0(2) by simp
      ultimately show ?thesis using dg why t0(1) by (auto simp: word_less_nat_alt)
    qed
    with inv True show ?thesis by (auto simp: s' lease_inv_def inv_sent_def)
  qed
  moreover define s1 where "s1 = s\<lparr>ms_phase := (ms_phase s)(c := if need then Asking now else Idle)\<rparr>"
  moreover have i1: "lease_inv cf s1"
    unfolding s1_def by (rule inv_phase_step[OF inv]) (use t0 in \<open>auto simp: phase_ok_def at_clock_def\<close>)
  moreover have "covered cf s1 c e \<Longrightarrow> covered cf ?s c e" for c e
    using covered_frame[of ?s cf s1] by (simp add: s' s1_def)
  note mono = inv_leases_mono[of cf s1 ?s, OF this]
  ultimately show ?thesis using mono(2,3) by (simp add: s' s1_def lease_inv_def inv_table_def)
qed


text \<open>Executing a request: it replaces the record only if it names the version of the record, and
  then its client has waited for the lease, or is the holder.\<close>

lemma inv_execute:
  assumes inv: "lease_inv cf s" and b: "lease_bounds cf" and req: "req \<in> ms_sent s"
    and run: "execute_lock (acquire_args req) (lk_client_id (al_lock_info req)) s = (r, s')" and i: "ms_instance s < 2 ^ 64"
  shows "lease_inv cf s'"
    and "r = Some RET_OK \<Longrightarrow> ms_time s' = ms_time s \<and> ms_phase s' = ms_phase s
      \<and> (\<exists>v. ms_table s' (lc_key cf) = Some v \<and> ms_hist s' (lr_version v) = Some (lk_client_id (al_lock_info req), ms_time s))"
proof -
  obtain c ver where q: "req = lease_request cf c ver" and ver: "ver \<noteq> 0 \<longrightarrow>
     (\<exists>d g. ms_hist s ver = Some (d, g) \<and> (d = lc_client cf c \<or> g + unat (lc_lease cf d) < ms_time s + lc_delay cf))"
    using inv req unfolding lease_inv_def inv_sent_def by blast
  let ?k = "lc_key cf" and ?c = "lc_client cf c" and ?i = "of_nat (ms_instance s) :: u64"
  let ?v = "\<lparr>lr_version = ?i, lr_value = ?c, lr_lease_time_ms = lc_lease cf ?c, lr_expire_time_ms = 0\<rparr>"
  have k: "?k \<noteq> []" "lc_lease cf ?c \<noteq> 0" using b by (simp_all add: lease_bounds_def)
  have ui: "unat ?i = ms_instance s" using i by (simp add: unsigned_of_nat take_bit_nat_eq_self)
  have inst: "0 < ms_instance s" using inv by (simp add: lease_inv_def inv_table_def)
  have i0: "?i \<noteq> 0" using ui inst by (metis less_irrefl unsigned_0)
  let ?ok = "case ms_table s ?k of None \<Rightarrow> True | Some l \<Rightarrow> lr_version l = ver"
  have spec: "sm_spec ?i (acquire_args req) (ms_table s) =
      (if ?ok then (Some RET_OK, (ms_table s)(?k \<mapsto> ?v)) else (Some RET_ERR_VERSION_NOT_EQUAL, ms_table s))"
    using k by (cases "ms_table s ?k") (simp_all add: sm_spec_acquire q lease_request_def lock_request_def Let_def)
  have cl: "lk_client_id (al_lock_info req) = ?c" by (simp add: q lease_request_def lock_request_def)
  show "lease_inv cf s'"
  proof (cases ?ok)
    case False
    then have "s' = s\<lparr>ms_table := ms_table s, ms_instance := ms_instance s + 1\<rparr>"
      using run by (simp add: execute_lock_def spec Let_def)
    then show ?thesis using inv_other[OF inv, of "ms_table s"] by simp
  next
    case True
    then have s': "s' = s\<lparr>ms_table := (ms_table s)(?k \<mapsto> ?v), ms_instance := ms_instance s + 1,
        ms_hist := (ms_hist s)(?i \<mapsto> (?c, ms_time s))\<rparr>"
      using run cl by (simp add: execute_lock_def spec Let_def)
    have fresh: "ms_hist s j = Some x \<Longrightarrow> j \<noteq> ?i" for j x
    proof -
      assume "ms_hist s j = Some x"
      then have "unat j < ms_instance s" using inv unfolding lease_inv_def inv_table_def by (metis surj_pair)
      then show "j \<noteq> ?i" using ui by auto
    qed
    have keep: "ms_hist s j = Some x \<Longrightarrow> ms_hist s' j = Some x" for j x using fresh by (simp add: s')
    have cov: "covered cf s d e \<Longrightarrow> covered cf s' d e" for d e
      unfolding covered_def
    proof
      assume pre: "ms_time s + lc_offset cf d + lc_delay cf < e \<longrightarrow> (\<exists>v g. ms_table s ?k = Some v
          \<and> ms_hist s (lr_version v) = Some (lc_client cf d, g) \<and> e \<le> g + lc_offset cf d + unat (lc_lease cf (lc_client cf d)))"
        and "ms_time s' + lc_offset cf d + lc_delay cf < e"
      then obtain v g where v: "ms_table s ?k = Some v" "ms_hist s (lr_version v) = Some (lc_client cf d, g)"
        "e \<le> g + lc_offset cf d + unat (lc_lease cf (lc_client cf d))" "ms_time s + lc_offset cf d + lc_delay cf < e" by (auto simp: s')
      have "lr_version v = ver" "lr_version v \<noteq> 0" "g \<le> ms_time s"
        using True v(1,2) inv by (auto simp: lease_inv_def inv_table_def)
      then have "lc_client cf d = ?c" using ver v(2-4) by auto
      then show "\<exists>v g. ms_table s' ?k = Some v \<and> ms_hist s' (lr_version v) = Some (lc_client cf d, g)
          \<and> e \<le> g + lc_offset cf d + unat (lc_lease cf (lc_client cf d))"
        using v(3) \<open>g \<le> ms_time s\<close> by (auto simp: s')
    qed
    note mono = inv_leases_mono[of cf s s', OF cov]
    have "inv_table cf s'"
      unfolding inv_table_def
    proof (intro conjI allI impI)
      fix j d g
      assume h: "ms_hist s' j = Some (d, g)"
      have "j = ?i \<and> g = ms_time s \<or> ms_hist s j = Some (d, g)" using h by (auto simp: s' split: if_splits)
      then have "j \<noteq> 0 \<and> unat j < Suc (ms_instance s) \<and> g \<le> ms_time s"
        using inv i0 ui unfolding lease_inv_def inv_table_def by (metis less_Suc_eq order_refl)
      then show "j \<noteq> 0" "unat j < ms_instance s'" "g \<le> ms_time s'" by (simp_all add: s')
    qed (use inv in \<open>auto simp: s' lease_inv_def inv_table_def\<close>)
    moreover have same: "ms_thread s' = ms_thread s" "ms_sent s' = ms_sent s" "ms_time s' = ms_time s"
      "ms_phase s' = ms_phase s" "ms_mgr s' = ms_mgr s" by (simp_all add: s')
    moreover have "inv_thread cf s'" using inv keep unfolding lease_inv_def inv_thread_def same by blast
    moreover have "inv_sent cf s'" using inv keep unfolding lease_inv_def inv_sent_def same by blast
    ultimately show ?thesis using mono(2,3) inv by (simp add: lease_inv_def)
  qed
  show "r = Some RET_OK \<Longrightarrow> ms_time s' = ms_time s \<and> ms_phase s' = ms_phase s
      \<and> (\<exists>v. ms_table s' ?k = Some v \<and> ms_hist s' (lr_version v) = Some (lk_client_id (al_lock_info req), ms_time s))"
    using run cl by (auto simp: execute_lock_def spec Let_def split: if_splits)
qed

lemma lease_step_inv:
  assumes "lease_step cf s s'" "lease_inv cf s" and b: "lease_bounds cf"
  shows "lease_inv cf s'"
  using assms
proof (induction rule: lease_step.induct)
  case (start s c)
  then show ?case by (intro inv_phase_step) (simp_all add: phase_ok_def)
next
  case (give_up s c)
  then show ?case by (intro inv_phase_step) (simp_all add: phase_ok_def)
next
  case (execute req s r s')
  then show ?case using inv_execute(1) by blast
next
  case (granted req s s' c now)
  note ex = inv_execute[OF granted.prems(1) b granted(1,2,3)]
  have "phase_ok cf s c (Asking now)" using granted.prems(1) granted(5) by (metis lease_inv_def inv_phase_def)
  then obtain t0 where t0: "t0 \<le> ms_time s" "now = lease_clock cf c t0" "t0 \<le> lc_horizon cf"
    using granted.prems(1) by (auto simp: phase_ok_def at_clock_def lease_inv_def inv_table_def)
  have "phase_ok cf s' c (Granted now)"
    using ex(2) granted(4) t0 unat_lease_clock(2)[OF b t0(3), of c "lc_client cf c"]
    by (auto simp: phase_ok_def at_clock_def covered_def)
  then show ?case by (rule inv_phase_step[OF ex(1)])
next
  case (clean s v c g r m)
  then show ?case using inv_clean[OF _ b] by blast
next
  case (other m s)
  then show ?case using inv_other by blast
qed (auto intro: inv_tick inv_read inv_renew)

definition lease_reach :: "LeaseConfig \<Rightarrow> LeaseState \<Rightarrow> LeaseState \<Rightarrow> bool" where
  "lease_reach cf = (lease_step cf)\<^sup>*\<^sup>*"

lemma lease_reach_inv: "lease_reach cf s s' \<Longrightarrow> lease_inv cf s \<Longrightarrow> lease_bounds cf \<Longrightarrow> lease_inv cf s'"
  unfolding lease_reach_def by (induction rule: rtranclp_induct) (auto intro: lease_step_inv)

text \<open>C11: When no scheduler is forced to be master and the clocks run at the same speed, the schedulers that are
  master at the same time all have one client id, which is their IP: in every
  interleaving of the schedulers with each other and with the lock service, whatever requests are
  lost, delayed or repeated, two schedulers that both are still master \<open>delay\<close> milliseconds later by their
  own clocks, where \<open>delay\<close> bounds the time a query of the lock takes, are on the same IP.\<close>

theorem Scheduler_single_master:
  assumes reach: "lease_reach cf s0 s" and init: "lease_init cf s0" and b: "lease_bounds cf"
    and free: "\<not> fst (IsForceMaster env1 t)" "\<not> fst (IsForceMaster env2 t)"
    and m1: "SchedulerMgr_IsMaster env1 t (lease_clock cf c (ms_time s + lc_delay cf)) (ms_mgr s c)"
    and m2: "SchedulerMgr_IsMaster env2 t (lease_clock cf d (ms_time s + lc_delay cf)) (ms_mgr s d)"
  shows "lc_client cf c = lc_client cf d"
proof -
  have inv: "lease_inv cf s" using lease_reach_inv[OF reach lease_init_inv[OF init] b] .
  have time: "ms_time s \<le> lc_horizon cf" using inv by (simp add: lease_inv_def inv_table_def)
  have owner: "\<exists>v g. ms_table s (lc_key cf) = Some v \<and> ms_hist s (lr_version v) = Some (lc_client cf x, g)"
    if m: "lease_clock cf x (ms_time s + lc_delay cf) < master_expire_time_ms (ms_mgr s x)" for x
  proof -
    have "ms_time s + lc_delay cf + lc_offset cf x < 2 ^ 64" using b time by (simp add: lease_bounds_def) (smt (verit) add.assoc add.commute add_le_mono le_add1 le_less_trans order_refl)
    then have "unat (lease_clock cf x (ms_time s + lc_delay cf)) = ms_time s + lc_delay cf + lc_offset cf x"
      unfolding lease_clock_def by (simp add: unsigned_of_nat take_bit_nat_eq_self del: of_nat_add)
    then have "ms_time s + lc_offset cf x + lc_delay cf < unat (master_expire_time_ms (ms_mgr s x))"
      using m by (simp add: word_less_nat_alt)
    moreover have "covered cf s x (unat (master_expire_time_ms (ms_mgr s x)))" using inv by (simp add: lease_inv_def inv_master_def)
    ultimately show ?thesis by (auto simp: covered_def)
  qed
  have "lease_clock cf c (ms_time s + lc_delay cf) < master_expire_time_ms (ms_mgr s c)"
    "lease_clock cf d (ms_time s + lc_delay cf) < master_expire_time_ms (ms_mgr s d)"
    using m1 m2 free by (auto simp: SchedulerMgr_IsMaster_def split: prod.splits)
  from owner[OF this(1)] owner[OF this(2)] show ?thesis by auto
qed

text \<open>The client id is all that is exclusive: a scheduler that finds the lock held under its own client id
  renews it, so schedulers on one IP, as in the sample configuration of the repository, are
  master at the same time.\<close>

lemma round_of_holder:
  assumes reach: "lease_reach cf s0 s" and idle: "ms_phase s c = Idle" and i: "ms_instance s < 2 ^ 64" and b: "lease_bounds cf"
    and held: "\<forall>v. ms_table s (lc_key cf) = Some v \<longrightarrow> lr_value v = lc_client cf c"
  obtains s' where "lease_reach cf s0 s'" "ms_time s' = ms_time s" "ms_phase s' = ms_phase s" "ms_instance s' = ms_instance s + 1"
    "\<forall>v. ms_table s' (lc_key cf) = Some v \<longrightarrow> lr_value v = lc_client cf c"
    "ms_mgr s' = (ms_mgr s)(c := snd (RenewMaster (ms_mgr s c) (lease_clock cf c (ms_time s) + lc_lease cf (lc_client cf c))))"
proof -
  let ?now = "lease_clock cf c (ms_time s)" and ?cl = "lc_client cf c" and ?k = "lc_key cf"
  define t where "t = snd (observe_lock ?cl ?now (fst (lock_answer cf (ms_table s))) (snd (lock_answer cf (ms_table s))) (ms_thread s c))"
  let ?req = "lease_request cf c (km_version t)"
  define s1 where "s1 = s\<lparr>ms_phase := (ms_phase s)(c := Reading ?now (ms_time s))\<rparr>"
  define s2 where "s2 = s\<lparr>ms_thread := (ms_thread s)(c := t), ms_phase := (ms_phase s)(c := Asking ?now), ms_sent := insert ?req (ms_sent s)\<rparr>"
  define s3 where "s3 = snd (execute_lock (acquire_args ?req) ?cl s2)"
  define s4 where "s4 = s3\<lparr>ms_phase := (ms_phase s3)(c := Granted ?now)\<rparr>"
  define s5 where "s5 = s4\<lparr>ms_mgr := (ms_mgr s4)(c := snd (RenewMaster (ms_mgr s4 c) (?now + lc_lease cf ?cl))), ms_phase := (ms_phase s4)(c := Idle)\<rparr>"
  have k: "?k \<noteq> []" "lc_lease cf ?cl \<noteq> 0" using b by (simp_all add: lease_bounds_def)
  have cl: "lk_client_id (al_lock_info ?req) = ?cl" by (simp add: lease_request_def lock_request_def)
  have need: "observe_lock ?cl ?now (fst (lock_answer cf (ms_table s))) (snd (lock_answer cf (ms_table s))) (ms_thread s c) = (True, t)"
    unfolding t_def using held
    by (cases "ms_table s ?k") (simp_all add: lock_answer_def observe_lock_def LocalRecordInfo2LockInfo_def)
  have same: "case ms_table s ?k of None \<Rightarrow> True | Some l \<Rightarrow> lr_version l = km_version t"
    unfolding t_def by (cases "ms_table s ?k") (simp_all add: lock_answer_def observe_lock_def LocalRecordInfo2LockInfo_def Let_def)
  have "lease_step cf s s1" unfolding s1_def by (rule lease_step.start[OF idle])
  moreover have "s2 = read_lock cf c ?now s1"
    using need by (simp add: s1_def s2_def read_lock_def split: prod.split) (metis fst_conv snd_conv)
  moreover have "lease_step cf s1 (read_lock cf c ?now s1)"
    by (rule lease_step.read[where ?t0.0 = "ms_time s"]) (simp_all add: s1_def)
  moreover have ex: "execute_lock (acquire_args ?req) ?cl s2 = (Some RET_OK, s3)"
    using same k unfolding s3_def
    by (cases "ms_table s ?k") (simp_all add: execute_lock_def s2_def sm_spec_acquire lease_request_def lock_request_def Let_def)
  moreover have "lease_step cf s2 s4"
    unfolding s4_def by (rule lease_step.granted[of ?req]) (use ex i cl in \<open>simp_all add: s2_def\<close>)
  moreover have "lease_step cf s4 s5" unfolding s5_def by (rule lease_step.renew) (simp add: s4_def)
  ultimately have "lease_reach cf s0 s5" using reach unfolding lease_reach_def by (metis rtranclp.rtrancl_into_rtrancl)
  moreover have s3: "ms_table s3 ?k = Some \<lparr>lr_version = of_nat (ms_instance s), lr_value = ?cl, lr_lease_time_ms = lc_lease cf ?cl, lr_expire_time_ms = 0\<rparr>"
    "ms_time s3 = ms_time s" "ms_phase s3 = (ms_phase s)(c := Asking ?now)" "ms_instance s3 = ms_instance s + 1" "ms_mgr s3 = ms_mgr s"
    using same k unfolding s3_def
    by (cases "ms_table s ?k", simp_all add: execute_lock_def s2_def sm_spec_acquire lease_request_def lock_request_def Let_def)+
  ultimately show ?thesis using idle by (intro that[of s5]) (simp_all add: s5_def s4_def fun_upd_idem)
qed

lemma Masters_share_ip:
  assumes b: "lease_bounds cf" and init: "lease_init cf s0" and i: "ms_instance s0 + 1 < 2 ^ 64"
    and ip: "lc_client cf c = lc_client cf d" and free: "IsForceMaster env1 t = (False, False)" "IsForceMaster env2 t = (False, False)"
  shows "\<exists>s. lease_reach cf s0 s \<and> SchedulerMgr_IsMaster env1 t (lease_clock cf c (ms_time s)) (ms_mgr s c)
    \<and> SchedulerMgr_IsMaster env2 t (lease_clock cf d (ms_time s)) (ms_mgr s d)"
proof -
  have z: "lease_reach cf s0 s0" by (simp add: lease_reach_def)
  have idle: "ms_phase s0 x = Idle" and none: "ms_table s0 (lc_key cf) = None" and time: "ms_time s0 \<le> lc_horizon cf" for x
    using init by (simp_all add: lease_init_def)
  have i0: "ms_instance s0 < 2 ^ 64" using i by simp
  obtain s1 where s1: "lease_reach cf s0 s1" "ms_time s1 = ms_time s0" "ms_phase s1 = ms_phase s0" "ms_instance s1 = ms_instance s0 + 1"
    "\<forall>v. ms_table s1 (lc_key cf) = Some v \<longrightarrow> lr_value v = lc_client cf c"
    "ms_mgr s1 = (ms_mgr s0)(c := snd (RenewMaster (ms_mgr s0 c) (lease_clock cf c (ms_time s0) + lc_lease cf (lc_client cf c))))"
    using round_of_holder[OF z idle i0 b, of c] none by auto
  have d1: "ms_phase s1 d = Idle" "ms_instance s1 < 2 ^ 64" "\<forall>v. ms_table s1 (lc_key cf) = Some v \<longrightarrow> lr_value v = lc_client cf d"
    using s1(3-5) idle i ip by simp_all
  obtain s2 where s2: "lease_reach cf s0 s2" "ms_time s2 = ms_time s0"
    "ms_mgr s2 = (ms_mgr s1)(d := snd (RenewMaster (ms_mgr s1 d) (lease_clock cf d (ms_time s0) + lc_lease cf (lc_client cf d))))"
    by (rule round_of_holder[OF s1(1) d1(1,2) b d1(3)]) (simp add: s1(2))
  have exp: "master_expire_time_ms (ms_mgr s2 x) = lease_clock cf x (ms_time s0) + lc_lease cf (lc_client cf x)" if "x = c \<or> x = d" for x
    using that by (auto simp: s2(3) s1(6) RenewMaster_def)
  have "lease_clock cf x (ms_time s0) < lease_clock cf x (ms_time s0) + lc_lease cf (lc_client cf x)" for x
    using unat_lease_clock[OF b time] b by (simp add: word_less_nat_alt lease_bounds_def unat_gt_0)
  then show ?thesis
    using s2(1,2) exp free by (intro exI[of _ s2]) (simp add: SchedulerMgr_IsMaster_def)
qed

subsection \<open>A round of \<open>KeepMaster\<close> as steps\<close>

text \<open>
  When the remote calls are answered at once, a round of \<^const>\<open>Scheduler_KeepMaster\<close> is a run of the
  step relation; the relation only adds what can happen in between.
\<close>

definition answer_get :: "LeaseConfig \<Rightarrow> GetLockInfoRequest \<Rightarrow> LeaseState \<Rightarrow> RetCode \<times> GetLockInfoResponse \<times> LeaseState" where
  "answer_get cf req w = (let (ret, info) = lock_answer cf (ms_table w)
     in (ret, \<lparr>gl_lock_info = (if ret = RET_OK then Some info else None), gl_redirect_addr = None\<rparr>, w))"

definition answer_acquire :: "AcquireLockRequest \<Rightarrow> LeaseState \<Rightarrow> RetCode \<times> LeaseState" where
  "answer_acquire req w =
     (let (r, w) = execute_lock (acquire_args req) (lk_client_id (al_lock_info req)) (w\<lparr>ms_sent := insert req (ms_sent w)\<rparr>)
      in (case r of None \<Rightarrow> RET_ERR_SYS | Some ret \<Rightarrow> ret, w))"

lemma KeepMaster_steps:
  assumes cfg: "KeepMaster_GetLockID g (lc_topic cf) = Inr (lc_lock cf)"
      "GetTopicConfigByTopicID g (lc_topic cf) = Inr tc" "scheduler_lock_key (topic_of tc) = lc_key cf"
      "lease_ms (topic_of tc) = lc_lease cf (lc_client cf c)"
    and sched: "sc_topic_id s = lc_topic cf" "so_ip (sc_opt s) = lc_client cf c" "sc_mgr s = ms_mgr w c"
    and w: "ms_phase w c = Idle" "ms_instance w < 2 ^ 64"
    and run: "Scheduler_KeepMaster g False (answer_get cf) answer_acquire (lease_clock cf c (ms_time w)) s (ms_thread w c) w
                = (ret, s', t', w')"
  shows "lease_reach cf w (w'\<lparr>ms_thread := (ms_thread w)(c := t'), ms_mgr := (ms_mgr w)(c := sc_mgr s')\<rparr>)"
proof -
  let ?now = "lease_clock cf c (ms_time w)"
  obtain r info where a: "lock_answer cf (ms_table w) = (r, info)" by (cases "lock_answer cf (ms_table w)")
  have r: "r = RET_ERR_KEY_NOT_EXIST \<and> info = LockInfo_default \<or> r = RET_OK" using a by (auto simp: lock_answer_def split: option.splits)
  obtain need t where o: "observe_lock (lc_client cf c) ?now r info (ms_thread w c) = (need, t)"
    by (cases "observe_lock (lc_client cf c) ?now r info (ms_thread w c)")
  define w1 where "w1 = w\<lparr>ms_phase := (ms_phase w)(c := Reading ?now (ms_time w))\<rparr>"
  define w2 where "w2 = read_lock cf c ?now w1"
  have w2: "w2 = w\<lparr>ms_thread := (ms_thread w)(c := t), ms_phase := (ms_phase w)(c := if need then Asking ?now else Idle),
           ms_sent := (if need then insert (lease_request cf c (km_version t)) (ms_sent w) else ms_sent w)\<rparr>"
    using a o by (simp add: w2_def w1_def read_lock_def)
  have "lease_step cf w w1" unfolding w1_def by (rule lease_step.start[OF w(1)])
  moreover have "lease_step cf w1 w2" unfolding w2_def by (rule lease_step.read[where ?t0.0 = "ms_time w"]) (simp_all add: w1_def)
  ultimately have reach2: "(lease_step cf)\<^sup>*\<^sup>* w w2" by (meson rtranclp.simps)
  have idle: "(ms_phase w)(c := Idle) = ms_phase w" using w(1) by (simp add: fun_upd_idem)
  have info: "(case gl_lock_info \<lparr>gl_lock_info = (if r = RET_OK then Some info else None), gl_redirect_addr = None\<rparr> of
      None \<Rightarrow> LockInfo_default | Some i \<Rightarrow> i) = info" using r by auto
  show ?thesis
  proof (cases need)
    case False
    then have "s' = s" "t' = t" "w' = w"
      using run cfg sched a o r info by (auto simp: Scheduler_KeepMaster_def answer_get_def Let_def)
    then have "w2 = w'\<lparr>ms_thread := (ms_thread w)(c := t'), ms_mgr := (ms_mgr w)(c := sc_mgr s')\<rparr>"
      using False idle sched(3) by (simp add: w2)
    then show ?thesis using reach2 by (simp add: lease_reach_def)
  next
    case True
    let ?req = "lease_request cf c (km_version t)"
    have cl: "lk_client_id (al_lock_info ?req) = lc_client cf c" by (simp add: lease_request_def lock_request_def)
    obtain r3 w3 where e: "execute_lock (acquire_args ?req) (lc_client cf c) (w\<lparr>ms_sent := insert ?req (ms_sent w)\<rparr>) = (r3, w3)"
      by (cases "execute_lock (acquire_args ?req) (lc_client cf c) (w\<lparr>ms_sent := insert ?req (ms_sent w)\<rparr>)")
    let ?w4 = "w3\<lparr>ms_thread := (ms_thread w)(c := t), ms_phase := (ms_phase w)(c := Asking ?now)\<rparr>"
    have e2: "execute_lock (acquire_args ?req) (lc_client cf c) w2 = (r3, ?w4)"
      using e True by (auto simp: w2 execute_lock_def Let_def split: prod.splits)
    have w3: "ms_phase w3 = ms_phase w" "ms_mgr w3 = ms_mgr w" using e by (auto simp: execute_lock_def Let_def split: prod.splits)
    have same: "w3\<lparr>ms_thread := A, ms_mgr := B, ms_phase := ms_phase w\<rparr> = w3\<lparr>ms_thread := A, ms_mgr := B\<rparr>" for A B
      using w3(1) by (cases w3) simp
    have sent: "?req \<in> ms_sent w2" "ms_instance w2 < 2 ^ 64" "ms_phase w2 c = Asking ?now" using True w(2) by (simp_all add: w2)
    have ans: "answer_acquire (lock_request (lc_topic cf) (lc_lock cf) (lc_key cf) (lc_client cf c) (km_version t) (lc_lease cf (lc_client cf c))) w
        = (case r3 of None \<Rightarrow> RET_ERR_SYS | Some ret \<Rightarrow> ret, w3)"
      using e cl unfolding lease_request_def by (simp add: answer_acquire_def)
    show ?thesis
    proof (cases "r3 = Some RET_OK")
      case r3: True
      have fin: "s' = s\<lparr>sc_mgr := snd (RenewMaster (ms_mgr w c) (?now + lc_lease cf (lc_client cf c)))\<rparr>" "t' = t" "w' = w3"
        using run cfg sched a o r info True ans r3 by (auto simp: Scheduler_KeepMaster_def answer_get_def Let_def RenewMaster_def)
      have "lease_step cf w2 (?w4\<lparr>ms_phase := (ms_phase ?w4)(c := Granted ?now)\<rparr>)"
        by (rule lease_step.granted[OF sent(1) _ sent(2) cl sent(3)]) (simp add: cl e2 r3)
      moreover have "lease_step cf (?w4\<lparr>ms_phase := (ms_phase ?w4)(c := Granted ?now)\<rparr>)
          (w'\<lparr>ms_thread := (ms_thread w)(c := t'), ms_mgr := (ms_mgr w)(c := sc_mgr s')\<rparr>)"
        using lease_step.renew[of "?w4\<lparr>ms_phase := (ms_phase ?w4)(c := Granted ?now)\<rparr>" c ?now cf] idle
        by (simp add: fin w3 same)
      ultimately show ?thesis using reach2 unfolding lease_reach_def by (meson rtranclp.rtrancl_into_rtrancl)
    next
      case r3: False
      have fin: "s' = s" "t' = t" "w' = w3"
        using run cfg sched a o r info True ans r3
        by (auto simp: Scheduler_KeepMaster_def answer_get_def Let_def split: option.splits if_splits)
      have "lease_step cf w2 ?w4" by (rule lease_step.execute[OF sent(1) _ sent(2)]) (simp add: cl e2)
      moreover have "lease_step cf ?w4 (?w4\<lparr>ms_phase := (ms_phase ?w4)(c := Idle)\<rparr>)" by (rule lease_step.give_up)
      moreover have "?w4\<lparr>ms_phase := (ms_phase ?w4)(c := Idle)\<rparr>
          = w'\<lparr>ms_thread := (ms_thread w)(c := t'), ms_mgr := (ms_mgr w)(c := sc_mgr s')\<rparr>"
        using idle sched(3) by (simp add: fin w3)
      ultimately show ?thesis using reach2 unfolding lease_reach_def by (metis rtranclp.rtrancl_into_rtrancl)
    qed
  qed
qed

subsection \<open>Two schedulers\<close>

definition sample_lease :: LeaseConfig where
  "sample_lease = \<lparr>lc_key = ''k'', lc_topic = 1000, lc_lock = 1, lc_client = (\<lambda>c. c), lc_offset = (\<lambda>_. 0), lc_lease = (\<lambda>_. 20000),
     lc_delay = 100, lc_horizon = 100000\<rparr>"

lemma sample_lease_simps [simp]:
  "lc_key sample_lease = ''k''" "lc_client sample_lease c = c" "lc_offset sample_lease c = 0" "lc_lease sample_lease c = 20000"
  "lc_delay sample_lease = 100" "lc_horizon sample_lease = 100000"
  by (simp_all add: sample_lease_def)

definition sample_start :: LeaseState where
  "sample_start = \<lparr>ms_time = 0, ms_instance = 1, ms_table = Map.empty, ms_hist = Map.empty,
     ms_thread = (\<lambda>_. \<lparr>km_master_rate = 100, km_version = 0, km_overdue_time_ms = 0\<rparr>), ms_phase = (\<lambda>_. Idle),
     ms_mgr = (\<lambda>_. SchedulerMgr_new), ms_sent = {}\<rparr>"

definition sample_sched_env :: SchedEnv where
  "sample_sched_env = \<lparr>se_config = GlobalConfig_empty, se_opt = \<lparr>so_topic = [], so_ip = ''A'', so_port = 6100\<rparr>,
     se_inet_addr = (\<lambda>_. 0), se_inet_ntoa = (\<lambda>_. ''A''), NeedSkipUpdateLoad = (\<lambda>_. False)\<rparr>"

lemma sample_lease_ok: "lease_bounds sample_lease" "lease_init sample_lease sample_start" "IsForceMaster sample_sched_env t = (False, False)"
  by (simp_all add: lease_bounds_def  lease_init_def sample_start_def SchedulerMgr_new_def
      IsForceMaster_def sample_sched_env_def GetTopicConfigByTopicID_def GlobalConfig_empty_def)

definition at_time :: "nat \<Rightarrow> LeaseState \<Rightarrow> LeaseState" where
  "at_time t s = s\<lparr>ms_time := t\<rparr>"

definition begin_round :: "string \<Rightarrow> LeaseState \<Rightarrow> LeaseState" where
  "begin_round c s = s\<lparr>ms_phase := (ms_phase s)(c := Reading (lease_clock sample_lease c (ms_time s)) (ms_time s))\<rparr>"

text \<open>A request of \<open>c\<close> is executed, the answer arrives, and the mastership is renewed.\<close>

definition take_lock :: "string \<Rightarrow> u64 \<Rightarrow> u64 \<Rightarrow> LeaseState \<Rightarrow> LeaseState" where
  "take_lock c ver now s =
     (let s = snd (execute_lock (acquire_args (lease_request sample_lease c ver)) c s);
          s = s\<lparr>ms_phase := (ms_phase s)(c := Granted now)\<rparr>
      in s\<lparr>ms_mgr := (ms_mgr s)(c := snd (RenewMaster (ms_mgr s c) (now + lc_lease sample_lease c))),
           ms_phase := (ms_phase s)(c := Idle)\<rparr>)"

lemma sample_steps:
  "lease_reach sample_lease s0 s \<Longrightarrow> ms_time s \<le> t \<Longrightarrow> t \<le> 100000 \<Longrightarrow> lease_reach sample_lease s0 (at_time t s)"
  "lease_reach sample_lease s0 s \<Longrightarrow> ms_phase s c = Idle \<Longrightarrow> lease_reach sample_lease s0 (begin_round c s)"
  "lease_reach sample_lease s0 s \<Longrightarrow> ms_phase s c = Reading now t0 \<Longrightarrow> ms_time s \<le> t0 + 100 \<Longrightarrow>
     lease_reach sample_lease s0 (read_lock sample_lease c now s)"
  "lease_reach sample_lease s0 s \<Longrightarrow> lease_request sample_lease c ver \<in> ms_sent s \<Longrightarrow> ms_phase s c = Asking now \<Longrightarrow>
     fst (execute_lock (acquire_args (lease_request sample_lease c ver)) c s) = Some RET_OK \<Longrightarrow> ms_instance s < 2 ^ 64 \<Longrightarrow>
     lease_reach sample_lease s0 (take_lock c ver now s)"
proof -
  show "lease_reach sample_lease s0 s \<Longrightarrow> ms_time s \<le> t \<Longrightarrow> t \<le> 100000 \<Longrightarrow> lease_reach sample_lease s0 (at_time t s)"
    using lease_step.tick[of s "t - ms_time s" sample_lease] unfolding lease_reach_def at_time_def
    by (simp add: rtranclp.rtrancl_into_rtrancl)
  show "lease_reach sample_lease s0 s \<Longrightarrow> ms_phase s c = Idle \<Longrightarrow> lease_reach sample_lease s0 (begin_round c s)"
    unfolding lease_reach_def begin_round_def by (blast intro: rtranclp.rtrancl_into_rtrancl lease_step.start)
  show "lease_reach sample_lease s0 s \<Longrightarrow> ms_phase s c = Reading now t0 \<Longrightarrow> ms_time s \<le> t0 + 100 \<Longrightarrow>
     lease_reach sample_lease s0 (read_lock sample_lease c now s)"
    using lease_step.read[of s c now t0 sample_lease] unfolding lease_reach_def
    by (simp add: rtranclp.rtrancl_into_rtrancl)
  assume r: "lease_reach sample_lease s0 s" "lease_request sample_lease c ver \<in> ms_sent s" "ms_phase s c = Asking now"
     "fst (execute_lock (acquire_args (lease_request sample_lease c ver)) c s) = Some RET_OK" "ms_instance s < 2 ^ 64"
  define s1 where "s1 = snd (execute_lock (acquire_args (lease_request sample_lease c ver)) c s)"
  have cl: "lk_client_id (al_lock_info (lease_request sample_lease c ver)) = lc_client sample_lease c"
    by (simp add: lease_request_def lock_request_def)
  have "lease_step sample_lease s (s1\<lparr>ms_phase := (ms_phase s1)(c := Granted now)\<rparr>)"
    by (rule lease_step.granted[OF r(2) _ r(5) cl r(3)]) (simp add: cl s1_def prod_eq_iff r(4))
  moreover have "lease_step sample_lease (s1\<lparr>ms_phase := (ms_phase s1)(c := Granted now)\<rparr>) (take_lock c ver now s)"
    using lease_step.renew[of "s1\<lparr>ms_phase := (ms_phase s1)(c := Granted now)\<rparr>" c now sample_lease]
    by (simp add: take_lock_def s1_def Let_def)
  ultimately show "lease_reach sample_lease s0 (take_lock c ver now s)"
    using r(1) unfolding lease_reach_def by (meson rtranclp.rtrancl_into_rtrancl)
qed

lemmas sample_run_defs = sample_start_def at_time_def begin_round_def read_lock_def take_lock_def execute_lock_def
  lock_answer_def observe_lock_def LocalRecordInfo2LockInfo_def lease_clock_def SchedulerMgr_new_def RenewMaster_def
  LockInfo_default_def

lemma sample_sm_acquire:
  "sm_spec i (acquire_args (lease_request sample_lease c ver)) m =
     (if (case m ''k'' of None \<Rightarrow> True | Some l \<Rightarrow> lr_version l = ver)
      then (Some RET_OK, m(''k'' \<mapsto> \<lparr>lr_version = i, lr_value = c, lr_lease_time_ms = 20000, lr_expire_time_ms = 0\<rparr>))
      else (Some RET_ERR_VERSION_NOT_EQUAL, m))"
  by (cases "m ''k''") (simp_all add: sm_spec_acquire lease_request_def lock_request_def  Let_def)

text \<open>Up to here: \<open>A\<close> became master at time 50, while \<open>B\<close>, that had read its clock at time 0, was
  waiting for the answer of the lock.\<close>

definition sample_A :: LeaseState where
  "sample_A = take_lock ''A'' 0 50 (read_lock sample_lease ''A'' 50 (begin_round ''A'' (at_time 50 (begin_round ''B'' sample_start))))"

lemma sample_A_eq:
  "sample_A = \<lparr>ms_time = 50, ms_instance = 2,
     ms_table = [''k'' \<mapsto> \<lparr>lr_version = 1, lr_value = ''A'', lr_lease_time_ms = 20000, lr_expire_time_ms = 0\<rparr>],
     ms_hist = [1 \<mapsto> (''A'', 50)],
     ms_thread = (\<lambda>_. \<lparr>km_master_rate = 100, km_version = 0, km_overdue_time_ms = 0\<rparr>)
       (''A'' := \<lparr>km_master_rate = 100, km_version = 0, km_overdue_time_ms = 50\<rparr>),
     ms_phase = (\<lambda>_. Idle)(''B'' := Reading 0 0, ''A'' := Idle),
     ms_mgr = (\<lambda>_. SchedulerMgr_new)(''A'' := SchedulerMgr_new\<lparr>master_expire_time_ms := 20050\<rparr>),
     ms_sent = {lease_request sample_lease ''A'' 0}\<rparr>"
  by (simp add: sample_A_def sample_run_defs sample_sm_acquire)

lemma sample_A_reach: "lease_reach sample_lease sample_start sample_A"
proof -
  have "lease_reach sample_lease sample_start sample_start" by (simp add: lease_reach_def)
  then show ?thesis
    unfolding sample_A_def
    by (intro sample_steps(4) sample_steps(3)[where ?t0.0 = 50] sample_steps(2) sample_steps(1))
      (simp_all add: sample_run_defs sample_sm_acquire )
qed


theorem Scheduler_single_master_witness:
  "\<exists>s. lease_reach sample_lease sample_start s
     \<and> (\<exists>!c. SchedulerMgr_IsMaster sample_sched_env 1000 (lease_clock sample_lease c (ms_time s + 100)) (ms_mgr s c))"
proof -
  let ?m = "\<lambda>c. SchedulerMgr_IsMaster sample_sched_env 1000 (lease_clock sample_lease c (ms_time sample_A + 100)) (ms_mgr sample_A c)"
  have free: "\<not> fst (IsForceMaster sample_sched_env 1000)" using sample_lease_ok(3)[of 1000] by simp
  have "?m ''A''"
    using free by (simp add: SchedulerMgr_IsMaster_def sample_A_eq lease_clock_def sample_lease_ok(3))
  then have "\<exists>!c. ?m c"
    using Scheduler_single_master[OF sample_A_reach sample_lease_ok(2,1) free free, simplified] by blast
  then show ?thesis using sample_A_reach by blast
qed

text \<open>The bound is needed: since \<open>KeepMaster\<close> counts the lease of another scheduler from a clock
  reading taken before it asks the lock, it can take over early, and two schedulers are master at
  the same time. Here the query of \<open>B\<close> took 100 milliseconds, in which \<open>A\<close> became master.\<close>

theorem Masters_can_overlap:
  "\<exists>s. lease_reach sample_lease sample_start s
     \<and> SchedulerMgr_IsMaster sample_sched_env 1000 (lease_clock sample_lease ''A'' (ms_time s)) (ms_mgr s ''A'')
     \<and> SchedulerMgr_IsMaster sample_sched_env 1000 (lease_clock sample_lease ''B'' (ms_time s)) (ms_mgr s ''B'')"
proof -
  define s1 where "s1 = read_lock sample_lease ''B'' 0 (at_time 100 sample_A)"
  define s2 where "s2 = take_lock ''B'' 1 20001 (read_lock sample_lease ''B'' 20001 (begin_round ''B'' (at_time 20001 s1)))"
  have r1: "lease_reach sample_lease sample_start s1"
    unfolding s1_def by (intro sample_steps(3)[where ?t0.0 = 0] sample_steps(1) sample_A_reach) (simp_all add: sample_A_eq at_time_def)
  have s1: "ms_time s1 = 100" "ms_phase s1 ''B'' = Idle" "ms_instance s1 = 2" 
    "ms_table s1 = [''k'' \<mapsto> \<lparr>lr_version = 1, lr_value = ''A'', lr_lease_time_ms = 20000, lr_expire_time_ms = 0\<rparr>]"
    "ms_thread s1 ''B'' = \<lparr>km_master_rate = 100, km_version = 1, km_overdue_time_ms = 20000\<rparr>" "ms_mgr s1 = ms_mgr sample_A"
    by (simp_all add: s1_def sample_A_eq sample_run_defs)
  have r2: "lease_reach sample_lease sample_start s2"
    unfolding s2_def
    by (intro sample_steps(4) sample_steps(3)[where ?t0.0 = 20001] sample_steps(2) sample_steps(1) r1)
      (simp_all add: s1 sample_run_defs sample_sm_acquire)
  have s2: "ms_time s2 = 20001" "master_expire_time_ms (ms_mgr s2 ''A'') = 20050" "master_expire_time_ms (ms_mgr s2 ''B'') = 40001"
    by (simp_all add: s2_def s1 sample_run_defs sample_sm_acquire) (simp add: sample_A_eq)
  show ?thesis
    by (intro exI[of _ s2] conjI r2)
      (simp_all add: SchedulerMgr_IsMaster_def s2 lease_clock_def sample_lease_ok(3))
qed

end
