(* ===== verification/Hash.thy ===== *)
theory Hash
  imports Comm
begin

section \<open>Hashing (comm/utils/hash_util.cpp, hash_util.h)\<close>

text \<open>
  \<open>MurmurHash64\<close> over the bytes of an object, and the consistent hash ring: a \<open>std::map\<close> from hash
  values to nodes, in which a key belongs to the first point at or after its hash, or to the first
  point of the map when there is none. Objects are hashed as they lie in memory, on a little-endian
  machine.

  What the ring promises is stated independently of its order: the key belongs to the point that is
  nearest clockwise, where the distance is the difference of the words; and a node that leaves the
  ring gives up its own keys only.
\<close>

unbundle bit_operations_syntax

subsection \<open>Bytes\<close>

type_synonym u8 = "8 word"

definition bytes32 :: "u32 \<Rightarrow> u8 list" where
  "bytes32 x = [ucast x, ucast (drop_bit 8 x), ucast (drop_bit 16 x), ucast (drop_bit 24 x)]"

definition bytes64 :: "u64 \<Rightarrow> u8 list" where
  "bytes64 x = map (\<lambda>i. ucast (drop_bit (8 * i) x)) [0, 1, 2, 3, 4, 5, 6, 7]"

definition bytes_of_string :: "string \<Rightarrow> u8 list" where
  "bytes_of_string s = map of_char s"

definition load64 :: "u8 list \<Rightarrow> u64" where
  "load64 bs = foldr (\<lambda>b w. ucast b OR push_bit 8 w) bs 0"

lemma length_bytes [simp]: "length (bytes32 x) = 4" "length (bytes64 y) = 8"
  by (simp_all add: bytes32_def bytes64_def)

lemma load64_Cons: "load64 (b # bs) = ucast b OR push_bit 8 (load64 bs)"
  by (simp add: load64_def)

text \<open>Reading a word back from its bytes: the loop of the hash sees the value itself.\<close>

lemma load64_bytes64: "load64 (bytes64 x) = x"
proof (rule bit_word_eqI)
  fix n assume "n < LENGTH(64)"
  then have n: "n < 64" by simp
  define q r where "q = n div 8" and "r = n mod 8"
  have eq: "n = 8 * q + r" "r < 8" by (simp_all add: q_def r_def)
  have "q < 8" using n by (simp add: q_def)
  then have "q = 0 \<or> q = 1 \<or> q = 2 \<or> q = 3 \<or> q = 4 \<or> q = 5 \<or> q = 6 \<or> q = 7" by linarith
  then show "bit (load64 (bytes64 x)) n = bit x n"
    using eq(2) by (elim disjE) (simp_all add: eq(1) load64_def bytes64_def bit_simps)
qed

subsection \<open>MurmurHash64\<close>

definition murmur_m :: u64 where
  "murmur_m = 0xc6a4a7935bd1e995"

definition murmur_mix :: "u64 \<Rightarrow> u64 \<Rightarrow> u64" where
  "murmur_mix h k =
     (let k = k * murmur_m;
          k = k XOR drop_bit 47 k;
          k = k * murmur_m
      in (h XOR k) * murmur_m)"

text \<open>The loop over whole words leaves fewer than eight bytes.\<close>

fun murmur_words :: "u64 \<Rightarrow> u8 list \<Rightarrow> u64 \<times> u8 list" where
  "murmur_words h data =
     (if length data < 8 then (h, data) else murmur_words (murmur_mix h (load64 (take 8 data))) (drop 8 data))"

declare murmur_words.simps [simp del]

text \<open>The cases of the \<open>switch\<close> fall through, from the last byte to the first.\<close>

definition murmur_tail :: "u64 \<Rightarrow> u8 list \<Rightarrow> u64" where
  "murmur_tail h data2 =
     (if data2 = [] then h
      else foldl (\<lambda>h i. h XOR push_bit (8 * i) (ucast (data2 ! i))) h (rev [0..<length data2]) * murmur_m)"

definition MurmurHash64 :: "u8 list \<Rightarrow> u64 \<Rightarrow> u64" where
  "MurmurHash64 key seed =
     (let h = seed XOR (of_nat (length key) * murmur_m);
          (h, data2) = murmur_words h key;
          h = murmur_tail h data2;
          h = h XOR drop_bit 47 h;
          h = h * murmur_m
      in h XOR drop_bit 47 h)"

subsection \<open>The ring\<close>

type_synonym ('h, 'n) hash_ring = "('h \<times> 'n) list"

text \<open>\<open>lower_bound\<close>, and \<open>begin\<close> when it is \<open>end\<close>; \<^const>\<open>None\<close> is the \<open>end\<close> of an empty map.\<close>

definition ring_pick :: "('h :: linorder, 'n) hash_ring \<Rightarrow> 'h \<Rightarrow> 'n option" where
  "ring_pick ring h =
     (case lower_bound fst h ring of
        p # _ \<Rightarrow> Some (snd p)
      | [] \<Rightarrow> (case ring of p # _ \<Rightarrow> Some (snd p) | [] \<Rightarrow> None))"

definition ring_of :: "('h :: linorder \<times> 'n) list \<Rightarrow> ('h, 'n) hash_ring" where
  "ring_of points = foldl (\<lambda>ring p. map_emplace (fst p) (snd p) ring) [] points"

record ('k, 'n) ConsistenHash =
  ch_hash2node :: "(u64, 'n) hash_ring"
  ch_key_hash_func :: "'k \<Rightarrow> u64"

definition ConsistenHash_Init ::
  "('n \<times> int) list \<Rightarrow> ('k \<Rightarrow> u64) \<Rightarrow> ('n \<Rightarrow> int \<Rightarrow> u64) \<Rightarrow> ('k, 'n) ConsistenHash \<Rightarrow> bool \<times> ('k, 'n) ConsistenHash" where
  "ConsistenHash_Init node_scale_list key_hash_func node_hash_func ch =
     (if node_scale_list = [] then (False, ch)
      else let ring = foldl (\<lambda>ring (node, scale).
                  foldl (\<lambda>ring s. map_emplace (node_hash_func node s) node ring) ring [0..scale - 1]) [] node_scale_list
        in (ring \<noteq> [], ch\<lparr>ch_key_hash_func := key_hash_func, ch_hash2node := ring\<rparr>))"

definition PickNodeByKey :: "('k, 'n) ConsistenHash \<Rightarrow> 'k \<Rightarrow> 'n option" where
  "PickNodeByKey ch key = ring_pick (ch_hash2node ch) (ch_key_hash_func ch key)"

subsection \<open>The nearest point\<close>

lemma clockwise_less:
  fixes h :: "'a :: len word"
  assumes "h \<le> a" "b < h"
  shows "a - h < b - h"
proof -
  have "uint a < uint b + 2 ^ LENGTH('a)" using uint_lt2p[of a] uint_ge_0[of b] by linarith
  then show ?thesis
    using assms by (simp add: word_less_def word_le_def uint_sub_if')
qed

lemma clockwise_mono:
  fixes h :: "'a :: len word"
  assumes "h \<le> a" "a \<le> b" 
  shows "a - h \<le> b - h"
  using assms by (simp add: word_le_def uint_sub_if')

lemma clockwise_mono_below:
  fixes h :: "'a :: len word"
  assumes "b < h" "a \<le> b" 
  shows "a - h \<le> b - h"
  using assms by (simp add: word_le_def word_less_def uint_sub_if')

text \<open>The point \<open>k\<close> of the ring that a key with hash \<open>h\<close> meets first.\<close>

definition nearest :: "('a :: len word \<times> 'n) list \<Rightarrow> 'a word \<Rightarrow> 'a word \<Rightarrow> bool" where
  "nearest points h k \<longleftrightarrow> k \<in> fst ` set points \<and> (\<forall>k' \<in> fst ` set points. k - h \<le> k' - h)"

lemma nearest_unique: "nearest points h k \<Longrightarrow> nearest points h k' \<Longrightarrow> k = k'"
  unfolding nearest_def by (metis antisym diff_add_cancel)

lemma ring_pick_nearest_ex:
  fixes ring :: "('a :: len word, 'n) hash_ring"
  assumes wf: "wf_map ring" and ne: "ring \<noteq> []"
  shows "\<exists>k n. ring_pick ring h = Some n \<and> (k, n) \<in> set ring \<and> nearest ring h k"
proof -
  let ?above = "filter (\<lambda>p. h \<le> fst p) ring"
  have lb: "lower_bound fst h ring = ?above" using wf by (rule lower_bound_filter)
  show ?thesis
  proof (cases ?above)
    case (Cons p ps)
    have p: "p \<in> set ring" "h \<le> fst p" using Cons by (auto dest: filter_eq_ConsD)
    have "sorted_by fst (p # ps)" using sorted_by_filter[OF wf, of "\<lambda>p. h \<le> fst p"] Cons by simp
    then have least: "fst p \<le> fst q" if "q \<in> set ring" "h \<le> fst q" for q
    proof -
      have "q \<in> set (p # ps)" using that Cons[symmetric] by simp
      then show ?thesis using \<open>sorted_by fst (p # ps)\<close> by auto
    qed
    have "fst p - h \<le> fst q - h" if q: "q \<in> set ring" for q
    proof (cases "h \<le> fst q")
      case True
      then show ?thesis using clockwise_mono[OF p(2) least[OF q True]] by simp
    next
      case False
      then show ?thesis using clockwise_less[OF p(2), of "fst q"] by (simp add: not_le less_imp_le)
    qed
    then show ?thesis
      using p Cons lb by (intro exI[of _ "fst p"] exI[of _ "snd p"]) (auto simp: ring_pick_def nearest_def)
  next
    case Nil
    obtain p ps where ring: "ring = p # ps" using ne by (cases ring) auto
    have below: "fst q < h" if "q \<in> set ring" for q using Nil that by (auto simp: filter_empty_conv not_le)
    have "fst p - h \<le> fst q - h" if q: "q \<in> set ring" for q
    proof (rule clockwise_mono_below[OF below[OF q]])
      show "fst p \<le> fst q" using sorted_by_hd[OF wf ne q] ring by simp
    qed
    then show ?thesis
      using Nil ring lb by (intro exI[of _ "fst p"] exI[of _ "snd p"]) (auto simp: ring_pick_def nearest_def)
  qed
qed

text \<open>The pick of the ring, from the points alone.\<close>

lemma ring_pick_iff:
  fixes ring :: "('a :: len word, 'n) hash_ring"
  assumes wf: "wf_map ring"
  shows "ring_pick ring h = Some n \<longleftrightarrow> (\<exists>k. map_of ring k = Some n \<and> nearest ring h k)"
proof (cases "ring = []")
  case True
  then show ?thesis by (simp add: ring_pick_def lower_bound_def)
next
  case False
  have "distinct (map fst ring)" using wf by (auto simp: sorted_by_def strict_sorted_iff)
  then have mo: "map_of ring k = Some m \<longleftrightarrow> (k, m) \<in> set ring" for k m by simp
  obtain k m where "ring_pick ring h = Some m" "(k, m) \<in> set ring" "nearest ring h k"
    using ring_pick_nearest_ex[OF wf False] by blast
  with mo show ?thesis using nearest_unique by (metis option.inject)
qed

lemma ring_of_snoc [simp]:
  "ring_of [] = []"
  "ring_of (points @ [p]) = map_emplace (fst p) (snd p) (ring_of points)"
  by (simp_all add: ring_of_def)

lemma ring_of_wf: "wf_map (ring_of points)"
  by (induction points rule: rev_induct) (auto intro: wf_map_emplace)

lemma map_of_ring_of: "map_of (ring_of points) = map_of points"
proof (induction points rule: rev_induct)
  case (snoc p points)
  show ?case
    by (rule ext) (auto simp: map_of_emplace[OF ring_of_wf] snoc.IH map_add_def split: option.splits)
qed simp

lemma keys_ring_of: "fst ` set (ring_of points) = fst ` set points"
  using map_of_ring_of[of points] by (metis dom_map_of_conv_image_fst)

lemma ring_of_pick_iff:
  fixes points :: "('a :: len word \<times> 'n) list"
  shows "ring_pick (ring_of points) h = Some n \<longleftrightarrow> (\<exists>k. map_of points k = Some n \<and> nearest points h k)"
  by (simp add: ring_pick_iff[OF ring_of_wf] map_of_ring_of nearest_def keys_ring_of)

lemma ring_of_pick_total: "points \<noteq> [] \<Longrightarrow> \<exists>n. ring_pick (ring_of points) h = Some n"
  for points :: "('a :: len word \<times> 'n) list"
  using ring_pick_nearest_ex[OF ring_of_wf, of points h] keys_ring_of[of points] by force

lemma map_of_filter_value:
  assumes "map_of points k = Some n" and "P n"
  shows "map_of (filter (\<lambda>p. P (snd p)) points) k = Some n"
  using assms by (induction points) (auto split: if_splits)

text \<open>When points are withdrawn, the keys of the nodes that keep theirs do not move.\<close>

lemma ring_pick_stable:
  fixes points :: "('a :: len word \<times> 'n) list"
  assumes "ring_pick (ring_of points) h = Some n" and "P n"
  shows "ring_pick (ring_of (filter (\<lambda>p. P (snd p)) points)) h = Some n"
proof -
  let ?points = "filter (\<lambda>p. P (snd p)) points"
  obtain k where k: "map_of points k = Some n" "nearest points h k"
    using assms(1) by (auto simp: ring_of_pick_iff)
  have kept: "map_of ?points k = Some n" by (rule map_of_filter_value[where P = P, OF k(1) assms(2)])
  then have "k \<in> fst ` set ?points" by (metis map_of_SomeD fst_conv image_eqI)
  then have "nearest ?points h k" using k(2) by (auto simp: nearest_def)
  with kept show ?thesis by (auto simp: ring_of_pick_iff)
qed

subsection \<open>Consistent hashing\<close>

text \<open>
  The contract of everything that assigns keys by a ring: \<open>points c\<close> are the points that the code
  inserts for the configuration \<open>c\<close>, in the order of insertion, and \<open>owner c h\<close> the node it finds
  for the hash \<open>h\<close>.
\<close>

locale consistent_hash =
  fixes points :: "'c \<Rightarrow> ('a :: len word \<times> 'n) list"
    and owner :: "'c \<Rightarrow> 'a word \<Rightarrow> 'n option"
  assumes owner_ring: "owner c h = ring_pick (ring_of (points c)) h"
begin

lemma owner_total: "points c \<noteq> [] \<Longrightarrow> \<exists>n. owner c h = Some n"
  by (simp add: owner_ring ring_of_pick_total)

lemma owner_none: "points c = [] \<Longrightarrow> owner c h = None"
  by (simp add: owner_ring ring_pick_def lower_bound_def)

lemma owner_has_point: "owner c h = Some n \<Longrightarrow> \<exists>k. (k, n) \<in> set (points c)"
  by (auto simp: owner_ring ring_of_pick_iff dest: map_of_SomeD)

lemma owner_nearest:
  "owner c h = Some n \<longleftrightarrow> (\<exists>k. map_of (points c) k = Some n \<and> nearest (points c) h k)"
  by (simp add: owner_ring ring_of_pick_iff)

lemma owner_stable:
  assumes "owner c h = Some n" and "points c' = filter (\<lambda>p. P (snd p)) (points c)" and "P n"
  shows "owner c' h = Some n"
  using ring_pick_stable[where P = P, OF assms(1)[unfolded owner_ring] assms(3)] by (simp add: owner_ring assms(2))

end

text \<open>The class of hash_util.h: its nodes with their scales.\<close>

definition node_points :: "('n \<Rightarrow> int \<Rightarrow> u64) \<Rightarrow> ('n \<times> int) list \<Rightarrow> (u64 \<times> 'n) list" where
  "node_points node_hash_func node_scale_list =
     concat (map (\<lambda>(node, scale). map (\<lambda>s. (node_hash_func node s, node)) [0..scale - 1]) node_scale_list)"

lemma ring_of_append: "ring_of (ps @ qs) = foldl (\<lambda>ring p. map_emplace (fst p) (snd p) ring) (ring_of ps) qs"
  by (simp add: ring_of_def)

lemma foldl_points:
  "foldl (\<lambda>m j. map_emplace (f j) (g j) m) m js = foldl (\<lambda>ring p. map_emplace (fst p) (snd p) ring) m (map (\<lambda>j. (f j, g j)) js)"
  by (induction js arbitrary: m) simp_all

lemma foldl_ring_of:
  assumes "\<And>ring x. step ring x = foldl (\<lambda>ring p. map_emplace (fst p) (snd p) ring) ring (f x)"
  shows "foldl step [] xs = ring_of (concat (map f xs))"
  by (induction xs rule: rev_induct) (simp_all add: assms ring_of_append)

lemma ConsistenHash_ring:
  "ch_hash2node (snd (ConsistenHash_Init nodes key_hash node_hash ch)) =
     (if nodes = [] then ch_hash2node ch else ring_of (node_points node_hash nodes))"
proof -
  have "foldl (\<lambda>ring (node, scale). foldl (\<lambda>ring s. map_emplace (node_hash node s) node ring) ring [0..scale - 1]) [] nodes =
      ring_of (node_points node_hash nodes)"
    unfolding node_points_def by (rule foldl_ring_of) (simp add: case_prod_beta foldl_points[symmetric])
  then show ?thesis by (simp add: ConsistenHash_Init_def Let_def)
qed

interpretation node_hash: consistent_hash "node_points node_hash_func"
  "\<lambda>nodes h. ring_pick (if nodes = [] then [] else
     ch_hash2node (snd (ConsistenHash_Init nodes key_hash_func node_hash_func ch))) h"
  by unfold_locales (simp add: ConsistenHash_ring node_points_def)

end
