(* ===== verification/Selector.thy ===== *)
theory Selector
  imports Hash ServiceConfig
begin

section \<open>Choosing a queue and a store (producer/selector.cpp)\<close>

text \<open>
  The default selectors of the producer. \<open>QueueSelectorDefault\<close> hashes the user (\<open>uin\<close>) to a queue of
  the queue info that the retry count leads to, and goes to the next queue on each retry.
  \<open>StoreSelectorDefault\<close> finds a store on a ring of all stores of the topic, and on a retry another one.
  \<open>crc32\<close> is zlib's; \<open>rand\<close> draws a random number from the state \<open>'w\<close> of the outside.
\<close>

subsection \<open>QueueSelectorDefault\<close>

record QueueSelector =
  qs_topic_id :: int
  qs_pub_id :: int
  qs_uin :: u64
  qs_count :: int
  qs_retry_switch_queue :: bool
  qs_retry :: int

definition QueueSelector_new :: "int \<Rightarrow> int \<Rightarrow> u64 \<Rightarrow> int \<Rightarrow> bool \<Rightarrow> QueueSelector" where
  "QueueSelector_new topic_id pub_id uin count retry_switch_queue =
     \<lparr>qs_topic_id = topic_id, qs_pub_id = pub_id, qs_uin = uin, qs_count = count,
      qs_retry_switch_queue = retry_switch_queue, qs_retry = 0\<rparr>"

definition queue_rank :: "(u64 \<Rightarrow> u8 list \<Rightarrow> u64) \<Rightarrow> u64 \<Rightarrow> QueueSelector \<Rightarrow> u64" where
  "queue_rank crc32 tmp_uin sel =
     (let rd = crc32 0 [];
          rd = crc32 rd (bytes64 tmp_uin);
          rd = crc32 rd (bytes32 (word_of_int (qs_topic_id sel)))
      in if qs_retry_switch_queue sel then rd + word_of_int (qs_retry sel) else rd)"

text \<open>The queue id is an output argument: \<^const>\<open>None\<close> where the method leaves it unset.\<close>

definition GetQueueID ::
  "(u64 \<Rightarrow> u8 list \<Rightarrow> u64) \<Rightarrow> ('w \<Rightarrow> u32 \<times> 'w) \<Rightarrow> GlobalConfig \<Rightarrow> QueueSelector \<times> 'w
   \<Rightarrow> (RetCode \<times> int option) \<times> QueueSelector \<times> 'w" where
  "GetQueueID crc32 rand g = (\<lambda>(sel, w).
     case GetTopicConfigByTopicID g (qs_topic_id sel) of Inl ret \<Rightarrow> ((ret, None), sel, w) | Inr tc \<Rightarrow>
     case GetQueueInfoIDByCount tc (qs_pub_id sel) (qs_count sel) of Inl ret \<Rightarrow> ((ret, None), sel, w) | Inr queue_info_id \<Rightarrow>
     case GetQueueInfoByQueueInfoID tc queue_info_id of Inl ret \<Rightarrow> ((ret, None), sel, w) | Inr queue_info \<Rightarrow>
       let (tmp_uin, w) = (if qs_uin sel = 0 \<or> qinfo_handle_by_random_uin queue_info \<noteq> 0
                           then (let (r, w) = rand w in (ucast r, w)) else (qs_uin sel, w));
           queue_id = (case GetQueueByLoopRank tc queue_info_id (queue_rank crc32 tmp_uin sel) of Inl _ \<Rightarrow> None | Inr q \<Rightarrow> Some q)
       in ((RET_OK, queue_id), sel\<lparr>qs_retry := qs_retry sel + 1\<rparr>, w))"

subsection \<open>StoreSelectorDefault\<close>

record StoreSelector =
  ss_topic_id :: int
  ss_pub_id :: int
  ss_uin :: u64
  ss_retry_switch_store :: bool
  ss_retry :: int
  ss_tried_store_ids :: "int list"

definition StoreSelector_new :: "int \<Rightarrow> int \<Rightarrow> u64 \<Rightarrow> bool \<Rightarrow> StoreSelector" where
  "StoreSelector_new topic_id pub_id uin retry_switch_store =
     \<lparr>ss_topic_id = topic_id, ss_pub_id = pub_id, ss_uin = uin, ss_retry_switch_store = retry_switch_store,
      ss_retry = 0, ss_tried_store_ids = []\<rparr>"

text \<open>The \<open>static __thread\<close> tables of \<open>GetStoreID\<close>, per topic.\<close>

record StoreRing =
  sr_last_rebuild_time :: u64
  sr_hash_ring :: "(u64, int) hash_ring"
  sr_store_id2hash_list :: "(int \<times> u64 list) list"

definition StoreRing_empty :: StoreRing where
  "StoreRing_empty = \<lparr>sr_last_rebuild_time = 0, sr_hash_ring = [], sr_store_id2hash_list = []\<rparr>"

type_synonym StoreRings = "(int \<times> StoreRing) list"

definition ring_for :: "StoreRings \<Rightarrow> int \<Rightarrow> StoreRing" where
  "ring_for rings topic_id = (case map_of rings topic_id of None \<Rightarrow> StoreRing_empty | Some r \<Rightarrow> r)"

text \<open>The stores that hold queues of the pub.\<close>

definition pub_store_ids :: "GlobalConfig \<Rightarrow> int \<Rightarrow> int \<Rightarrow> StoreConfig \<Rightarrow> int list" where
  "pub_store_ids g topic_id pub_id sc =
     foldl (\<lambda>s store.
       case GetPubIDsByStoreID g topic_id (store_ident store) of
         Inl _ \<Rightarrow> s
       | Inr pub_ids \<Rightarrow> if pub_id \<in> set pub_ids then set_insert id (store_ident store) s else s) [] (GetAllStore sc)"

definition store_hash :: "(string \<Rightarrow> u32) \<Rightarrow> StoreProto \<Rightarrow> int \<Rightarrow> u64" where
  "store_hash inet_addr store i =
     (let h = foldl (\<lambda>h addr. MurmurHash64 (bytes64 (EncodeAddr inet_addr addr)) h) 0 (store_addrs store)
      in MurmurHash64 (bytes32 (word_of_int i)) h)"

definition rebuild_store :: "(string \<Rightarrow> u32) \<Rightarrow> StoreConfig \<Rightarrow> int \<Rightarrow> StoreRing \<Rightarrow> StoreRing" where
  "rebuild_store inet_addr sc store_id r =
     (case GetStoreByStoreID sc store_id of
        Inl _ \<Rightarrow> r
      | Inr store \<Rightarrow>
          let hashes = map (store_hash inet_addr store) [0..store_scale store - 1]
          in r\<lparr>sr_hash_ring := foldl (\<lambda>m h. map_emplace h store_id m) (sr_hash_ring r) hashes,
               sr_store_id2hash_list := map_assign store_id
                 (foldl (\<lambda>s h. set_insert id h s) (entry (sr_store_id2hash_list r) store_id) hashes) (sr_store_id2hash_list r)\<rparr>)"

definition rebuild_ring :: "(string \<Rightarrow> u32) \<Rightarrow> StoreConfig \<Rightarrow> int list \<Rightarrow> StoreRing \<Rightarrow> StoreRing" where
  "rebuild_ring inet_addr sc store_ids r =
     (if sc_last_mod_time sc = sr_last_rebuild_time r then r
      else foldl (\<lambda>r store_id. rebuild_store inet_addr sc store_id r)
             \<lparr>sr_last_rebuild_time = sc_last_mod_time sc, sr_hash_ring = [], sr_store_id2hash_list = []\<rparr> store_ids)"

definition uin_hash :: "StoreSelector \<Rightarrow> u64 \<Rightarrow> u64" where
  "uin_hash sel tmp_uin =
     (let h = MurmurHash64 (bytes64 tmp_uin) 0;
          h = MurmurHash64 (bytes32 (word_of_int (ss_topic_id sel))) h
      in if ss_retry_switch_store sel then MurmurHash64 (bytes32 (word_of_int (ss_retry sel))) h else h)"

text \<open>
  On a retry: of the stores not tried yet, the one with the next point after the hash; the minimum is
  taken of the hash values themselves. \<open>-1\<close> when there is none.
\<close>

definition next_step :: "int list \<Rightarrow> StoreRing \<Rightarrow> u64 \<Rightarrow> int \<times> u64 \<Rightarrow> int \<Rightarrow> int \<times> u64" where
  "next_step tried r h = (\<lambda>(store_id, min_hash) tmp.
     if tmp \<in> set tried then (store_id, min_hash)
     else let hash_list = entry (sr_store_id2hash_list r) tmp
       in case (case lower_bound id h hash_list of [] \<Rightarrow> hash_list | x # xs \<Rightarrow> x # xs) of
            [] \<Rightarrow> (store_id, min_hash)
          | x # _ \<Rightarrow> if store_id = -1 \<or> x < min_hash then (tmp, x) else (store_id, min_hash))"

definition next_store :: "StoreSelector \<Rightarrow> StoreRing \<Rightarrow> int list \<Rightarrow> u64 \<Rightarrow> int" where
  "next_store sel r store_ids h = fst (foldl (next_step (ss_tried_store_ids sel) r h) (-1, 0) store_ids)"

text \<open>
  The loop runs until it has a store: \<open>fuel\<close> bounds its rounds. The inner \<^const>\<open>None\<close> is the access to
  the first element of an empty ring. \<open>IsStoreBlocked\<close> is a virtual method.
\<close>

fun store_loop ::
  "('w \<Rightarrow> u32 \<times> 'w) \<Rightarrow> (int \<Rightarrow> bool) \<Rightarrow> StoreRing \<Rightarrow> int list \<Rightarrow> nat \<Rightarrow> StoreSelector \<times> 'w \<Rightarrow> (int option \<times> StoreSelector \<times> 'w) option" where
  "store_loop rand IsStoreBlocked r store_ids 0 s = None"
| "store_loop rand IsStoreBlocked r store_ids (Suc fuel) (sel, w) =
     (let (tmp_uin, w) = (if ss_uin sel = 0 then (let (x, w) = rand w in (ucast x, w)) else (ss_uin sel, w));
          h = uin_hash sel tmp_uin;
          found = (if ss_retry_switch_store sel \<and> ss_retry sel \<noteq> 0 then Some (next_store sel r store_ids h)
                   else ring_pick (sr_hash_ring r) h)
      in case found of
           None \<Rightarrow> Some (None, sel, w)
         | Some store_id \<Rightarrow>
             let sel = sel\<lparr>ss_retry := ss_retry sel + 1\<rparr>;
                 sel' = (if store_id \<noteq> -1 \<and> ss_retry_switch_store sel
                         then sel\<lparr>ss_tried_store_ids := set_insert id store_id (ss_tried_store_ids sel)\<rparr> else sel);
                 store_id = (if store_id \<noteq> -1
                             then (if ss_retry_switch_store sel \<and> IsStoreBlocked store_id then -1 else store_id)
                             else store_ids ! (unat h mod length store_ids))
             in if store_id = -1 then store_loop rand IsStoreBlocked r store_ids fuel (sel', w)
                else Some (Some store_id, sel', w))"

definition GetStoreID ::
  "(string \<Rightarrow> u32) \<Rightarrow> ('w \<Rightarrow> u32 \<times> 'w) \<Rightarrow> (int \<Rightarrow> bool) \<Rightarrow> GlobalConfig \<Rightarrow> nat \<Rightarrow> StoreSelector \<times> StoreRings \<times> 'w
   \<Rightarrow> ((RetCode \<times> int option) \<times> StoreSelector \<times> StoreRings \<times> 'w) option" where
  "GetStoreID inet_addr rand IsStoreBlocked g fuel = (\<lambda>(sel, rings, w).
     case GetStoreConfig g (ss_topic_id sel) of Inl ret \<Rightarrow> Some ((ret, None), sel, rings, w) | Inr sc \<Rightarrow>
       let store_ids = pub_store_ids g (ss_topic_id sel) (ss_pub_id sel) sc in
       if store_ids = [] then Some ((RET_ERR_RANGE_STORE, None), sel, rings, w)
       else let r = rebuild_ring inet_addr sc store_ids (ring_for rings (ss_topic_id sel));
                rings = map_assign (ss_topic_id sel) r rings
         in map_option (\<lambda>(store_id, sel, w). ((RET_OK, store_id), sel, rings, w))
              (store_loop rand IsStoreBlocked r store_ids fuel (sel, w)))"

subsection \<open>The ring of the stores\<close>

definition store_points :: "(string \<Rightarrow> u32) \<Rightarrow> StoreConfig \<Rightarrow> int \<Rightarrow> (u64 \<times> int) list" where
  "store_points inet_addr sc store_id =
     (case GetStoreByStoreID sc store_id of
        Inl _ \<Rightarrow> []
      | Inr store \<Rightarrow> map (\<lambda>i. (store_hash inet_addr store i, store_id)) [0..store_scale store - 1])"

definition fresh_ring :: "StoreConfig \<Rightarrow> StoreRing" where
  "fresh_ring sc = \<lparr>sr_last_rebuild_time = sc_last_mod_time sc, sr_hash_ring = [], sr_store_id2hash_list = []\<rparr>"

definition built_ring :: "(string \<Rightarrow> u32) \<Rightarrow> StoreConfig \<Rightarrow> int list \<Rightarrow> StoreRing" where
  "built_ring inet_addr sc store_ids = foldl (\<lambda>r store_id. rebuild_store inet_addr sc store_id r) (fresh_ring sc) store_ids"

lemma rebuild_ring_stale:
  "sc_last_mod_time sc \<noteq> sr_last_rebuild_time r \<Longrightarrow> rebuild_ring inet_addr sc store_ids r = built_ring inet_addr sc store_ids"
  by (simp add: rebuild_ring_def built_ring_def fresh_ring_def)

lemma rebuild_ring_current: "sc_last_mod_time sc = sr_last_rebuild_time r \<Longrightarrow> rebuild_ring inet_addr sc store_ids r = r"
  by (simp add: rebuild_ring_def)

lemma rebuild_store_ring:
  "sr_hash_ring (rebuild_store inet_addr sc store_id r) =
     foldl (\<lambda>ring p. map_emplace (fst p) (snd p) ring) (sr_hash_ring r) (store_points inet_addr sc store_id)"
  by (simp add: rebuild_store_def store_points_def foldl_map Let_def split: sum.split)

lemma built_ring_points:
  "sr_hash_ring (built_ring inet_addr sc store_ids) = ring_of (concat (map (store_points inet_addr sc) store_ids))"
proof -
  have "sr_hash_ring (foldl (\<lambda>r store_id. rebuild_store inet_addr sc store_id r) r ids) =
      foldl (\<lambda>ring store_id. foldl (\<lambda>ring p. map_emplace (fst p) (snd p) ring) ring (store_points inet_addr sc store_id)) (sr_hash_ring r) ids" for r ids
    by (induction ids arbitrary: r) (simp_all add: rebuild_store_ring)
  then show ?thesis by (simp add: built_ring_def fresh_ring_def foldl_ring_of)
qed

interpretation store_ring: consistent_hash
  "\<lambda>(sc, store_ids). concat (map (store_points inet_addr sc) store_ids)"
  "\<lambda>(sc, store_ids). ring_pick (sr_hash_ring (built_ring inet_addr sc store_ids))"
  by unfold_locales (simp add: built_ring_points case_prod_beta)

lemma built_ring_picks:
  assumes "s \<in> set store_ids" and "GetStoreByStoreID sc s = Inr store" and "0 < store_scale store"
  shows "\<exists>id \<in> set store_ids. ring_pick (sr_hash_ring (built_ring inet_addr sc store_ids)) h = Some id"
proof -
  let ?points = "concat (map (store_points inet_addr sc) store_ids)"
  have "store_points inet_addr sc s \<noteq> []" using assms(2,3) by (simp add: store_points_def)
  then have "?points \<noteq> []" using assms(1) by auto
  then obtain id where id: "ring_pick (sr_hash_ring (built_ring inet_addr sc store_ids)) h = Some id"
    using store_ring.owner_total[of inet_addr "(sc, store_ids)" h] by auto
  then obtain k where "(k, id) \<in> set ?points"
    using store_ring.owner_has_point[of inet_addr "(sc, store_ids)" h id] by auto
  then have "id \<in> set store_ids" by (auto simp: store_points_def split: sum.splits)
  with id show ?thesis by blast
qed

subsection \<open>The loop finds a store\<close>

text \<open>The stores that have a point on the ring.\<close>

definition has_points :: "StoreRing \<Rightarrow> int \<Rightarrow> bool" where
  "has_points r store_id \<longleftrightarrow> entry (sr_store_id2hash_list r) store_id \<noteq> []"

lemma next_store_fold:
  fixes a :: int and m h :: u64 and r :: StoreRing and tried :: "int list"
  assumes "-1 \<notin> set store_ids"
  defines "s \<equiv> fst (foldl (next_step tried r h) (a, m) store_ids)"
  shows "s = a \<or> s \<in> set store_ids \<and> s \<notin> set tried \<and> has_points r s"
    and "a = -1 \<Longrightarrow> s = -1 \<Longrightarrow> x \<in> set store_ids \<Longrightarrow> x \<notin> set tried \<Longrightarrow> \<not> has_points r x"
proof -
  have lb: "(case lower_bound id h xs of [] \<Rightarrow> xs | y # ys \<Rightarrow> y # ys) = [] \<longleftrightarrow> xs = []" for xs :: "u64 list"
    by (auto split: list.splits simp: lower_bound_def)
  have step: "fst (next_step tried r h p t) = fst p \<or> fst (next_step tried r h p t) = t \<and> t \<notin> set tried \<and> has_points r t" for p t
    using lb[of "entry (sr_store_id2hash_list r) t"]
    by (auto simp: next_step_def has_points_def Let_def split: prod.splits list.splits)
  show "s = a \<or> s \<in> set store_ids \<and> s \<notin> set tried \<and> has_points r s"
    unfolding s_def
  proof (induction store_ids rule: rev_induct)
    case (snoc t ts)
    then show ?case using step[of "foldl (next_step tried r h) (a, m) ts" t] by (auto simp: Let_def)
  qed simp
  have takes: "fst (next_step tried r h p t) \<noteq> -1" if "fst p \<noteq> -1 \<or> t \<notin> set tried \<and> has_points r t" "t \<noteq> -1" for p t
    using that lb[of "entry (sr_store_id2hash_list r) t"]
    by (auto simp: next_step_def has_points_def Let_def split: prod.splits list.splits)
  have "fst (foldl (next_step tried r h) p ts) \<noteq> -1" if "fst p \<noteq> -1 \<or> (\<exists>x \<in> set ts. x \<notin> set tried \<and> has_points r x)" "-1 \<notin> set ts" for p ts
    using that
  proof (induction ts arbitrary: p)
    case (Cons t ts)
    show ?case using takes[of p t] Cons.IH[of "next_step tried r h p t"] Cons.prems by auto
  qed simp
  from this[of "(a, m)" store_ids] assms(1)
  show "a = -1 \<Longrightarrow> s = -1 \<Longrightarrow> x \<in> set store_ids \<Longrightarrow> x \<notin> set tried \<Longrightarrow> \<not> has_points r x"
    unfolding s_def by auto
qed

lemma next_store_cases:
  assumes "-1 \<notin> set store_ids"
  obtains "next_store sel r store_ids h = -1"
      "\<forall>x \<in> set store_ids. x \<notin> set (ss_tried_store_ids sel) \<longrightarrow> \<not> has_points r x"
    | "next_store sel r store_ids h \<in> set store_ids" "next_store sel r store_ids h \<notin> set (ss_tried_store_ids sel)"
  using next_store_fold(1)[OF assms, of "ss_tried_store_ids sel" r h "-1" 0]
    next_store_fold(2)[OF assms, of "-1" "ss_tried_store_ids sel" r h 0]
  unfolding next_store_def by blast

text \<open>A store that is not blocked; a blocked one only when every store with points was tried.\<close>

definition good_store :: "(int \<Rightarrow> bool) \<Rightarrow> StoreRing \<Rightarrow> int list \<Rightarrow> StoreSelector \<Rightarrow> int \<Rightarrow> bool" where
  "good_store IsStoreBlocked r store_ids sel store_id \<longleftrightarrow> store_id \<in> set store_ids
     \<and> (ss_retry_switch_store sel \<and> IsStoreBlocked store_id \<longrightarrow>
        (\<forall>x \<in> set store_ids. has_points r x \<longrightarrow> x \<in> set (ss_tried_store_ids sel)))"

lemma store_loop_retry:
  assumes "-1 \<notin> set store_ids" and "store_ids \<noteq> []" and "ss_retry_switch_store sel" and "0 < ss_retry sel"
    and "card (set store_ids - set (ss_tried_store_ids sel)) < fuel"
  shows "\<exists>id sel' w'. store_loop rand IsStoreBlocked r store_ids fuel (sel, w) = Some (Some id, sel', w')
     \<and> good_store IsStoreBlocked r store_ids sel' id"
  using assms(3-5)
proof (induction fuel arbitrary: sel w)
  case (Suc fuel)
  obtain u w1 where u: "(if ss_uin sel = 0 then (let (x, w) = rand w in (ucast x, w)) else (ss_uin sel, w)) = (u, w1)" by fastforce
  let ?h = "uin_hash sel u" and ?sel = "sel\<lparr>ss_retry := ss_retry sel + 1\<rparr>"
  let ?s = "next_store sel r store_ids ?h"
  let ?tried = "?sel\<lparr>ss_tried_store_ids := set_insert id ?s (ss_tried_store_ids sel)\<rparr>"
  show ?case
  proof (cases rule: next_store_cases[OF assms(1), of sel r ?h])
    case 1
    let ?id = "store_ids ! (unat ?h mod length store_ids)"
    have id: "?id \<in> set store_ids" using assms(2) by simp
    then have "?id \<noteq> -1" using assms(1) by metis
    then have "store_loop rand IsStoreBlocked r store_ids (Suc fuel) (sel, w) = Some (Some ?id, ?sel, w1)"
      using u Suc.prems 1(1) by (simp add: Let_def)
    then show ?thesis using id 1(2) by (auto simp: good_store_def)
  next
    case 2
    then have ne: "?s \<noteq> -1" using assms(1) by metis
    show ?thesis
    proof (cases "IsStoreBlocked ?s")
      case False
      then have "store_loop rand IsStoreBlocked r store_ids (Suc fuel) (sel, w) = Some (Some ?s, ?tried, w1)"
        using u Suc.prems ne by (simp add: Let_def)
      then show ?thesis using 2 False by (auto simp: good_store_def)
    next
      case True
      have "set store_ids - set (ss_tried_store_ids ?tried) = (set store_ids - set (ss_tried_store_ids sel)) - {?s}" by auto
      then have "card (set store_ids - set (ss_tried_store_ids ?tried)) < card (set store_ids - set (ss_tried_store_ids sel))"
        using 2 by (metis DiffI List.finite_set card_Diff1_less finite_Diff)
      then have "\<exists>id sel' w'. store_loop rand IsStoreBlocked r store_ids fuel (?tried, w1) = Some (Some id, sel', w')
          \<and> good_store IsStoreBlocked r store_ids sel' id"
        using Suc.prems by (intro Suc.IH) simp_all
      moreover have "store_loop rand IsStoreBlocked r store_ids (Suc fuel) (sel, w) = store_loop rand IsStoreBlocked r store_ids fuel (?tried, w1)"
        using u Suc.prems ne True by (simp add: Let_def)
      ultimately show ?thesis by simp
    qed
  qed
qed simp

lemma store_loop_finds:
  assumes ids: "-1 \<notin> set store_ids" "store_ids \<noteq> []" and "0 \<le> ss_retry sel" and fuel: "length store_ids + 2 \<le> fuel"
    and ring: "\<And>h. \<exists>id \<in> set store_ids. ring_pick (sr_hash_ring r) h = Some id"
  shows "\<exists>id sel' w'. store_loop rand IsStoreBlocked r store_ids fuel (sel, w) = Some (Some id, sel', w')
     \<and> good_store IsStoreBlocked r store_ids sel' id"
proof (cases "ss_retry_switch_store sel \<and> ss_retry sel \<noteq> 0")
  case True
  have "card (set store_ids - set (ss_tried_store_ids sel)) \<le> length store_ids"
    by (metis card_length card_mono Diff_subset List.finite_set le_trans)
  then show ?thesis using True assms(3) fuel by (intro store_loop_retry[OF ids]) auto
next
  case False
  obtain n where n: "fuel = Suc n" "length store_ids < n" using fuel by (cases fuel) auto
  obtain u w1 where u: "(if ss_uin sel = 0 then (let (x, w) = rand w in (ucast x, w)) else (ss_uin sel, w)) = (u, w1)" by fastforce
  obtain s where s: "s \<in> set store_ids" "ring_pick (sr_hash_ring r) (uin_hash sel u) = Some s" using ring by blast
  then have ne: "s \<noteq> -1" using ids(1) by metis
  let ?sel = "sel\<lparr>ss_retry := ss_retry sel + 1\<rparr>"
  let ?tried = "?sel\<lparr>ss_tried_store_ids := set_insert id s (ss_tried_store_ids sel)\<rparr>"
  show ?thesis
  proof (cases "ss_retry_switch_store sel \<and> IsStoreBlocked s")
    case True
    have "card (set store_ids - set (ss_tried_store_ids ?tried)) \<le> length store_ids"
      by (metis card_length card_mono Diff_subset List.finite_set le_trans)
    then have "\<exists>id sel' w'. store_loop rand IsStoreBlocked r store_ids n (?tried, w1) = Some (Some id, sel', w')
        \<and> good_store IsStoreBlocked r store_ids sel' id"
      using True assms(3) n by (intro store_loop_retry[OF ids]) auto
    moreover have "store_loop rand IsStoreBlocked r store_ids fuel (sel, w) = store_loop rand IsStoreBlocked r store_ids n (?tried, w1)"
      using u s ne True False n by (simp add: Let_def)
    ultimately show ?thesis by simp
  next
    case ok: False
    then have "\<exists>sel'. store_loop rand IsStoreBlocked r store_ids fuel (sel, w) = Some (Some s, sel', w1)
        \<and> ss_retry_switch_store sel' = ss_retry_switch_store sel"
      using u s ne False n by (auto simp: Let_def)
    then show ?thesis using ok s(1) by (fastforce simp: good_store_def)
  qed
qed

text \<open>With a configuration that is newer than the ring of the thread, \<open>GetStoreID\<close> ends, whatever
  \<open>IsStoreBlocked\<close> says, and returns a store that serves the pub, provided one of these has a positive
  scale; it returns a blocked store only when all stores on the ring were tried. As many rounds as
  there are stores, and two more, are enough.\<close>

theorem GetStoreID_serves:
  assumes "GetStoreConfig g (ss_topic_id sel) = Inr sc"
    and "store_ids = pub_store_ids g (ss_topic_id sel) (ss_pub_id sel) sc" and "-1 \<notin> set store_ids"
    and "s \<in> set store_ids" and "GetStoreByStoreID sc s = Inr store" and "0 < store_scale store"
    and "sc_last_mod_time sc \<noteq> sr_last_rebuild_time (ring_for rings (ss_topic_id sel))"
    and "0 \<le> ss_retry sel" and "length store_ids + 2 \<le> fuel"
  shows "\<exists>store_id sel' rings' w'. GetStoreID inet_addr rand IsStoreBlocked g fuel (sel, rings, w)
      = Some ((RET_OK, Some store_id), sel', rings', w')
    \<and> good_store IsStoreBlocked (built_ring inet_addr sc store_ids) store_ids sel' store_id"
proof -
  have ne: "store_ids \<noteq> []" using assms(4) by auto
  have "\<exists>id sel' w'. store_loop rand IsStoreBlocked (built_ring inet_addr sc store_ids) store_ids fuel (sel, w) = Some (Some id, sel', w')
      \<and> good_store IsStoreBlocked (built_ring inet_addr sc store_ids) store_ids sel' id"
    using built_ring_picks[OF assms(4-6)] by (intro store_loop_finds[OF assms(3) ne assms(8,9)]) blast
  then show ?thesis
    using ne by (auto simp: GetStoreID_def assms(1) assms(2)[symmetric] rebuild_ring_stale[OF assms(7)] Let_def)
qed

subsection \<open>Two pubs on different stores\<close>

definition pub_store :: "int \<Rightarrow> int \<Rightarrow> StoreProto" where
  "pub_store i p = \<lparr>store_ident = i, store_addrs = [Addr_default\<lparr>port := 5000 + i\<rparr>], store_scale = 1, store_pub_ids = [p]\<rparr>"

definition selector_stores :: StoreConfig where
  "selector_stores = \<lparr>sc_stores = [pub_store 1 1, pub_store 2 2], sc_last_mod_time = 7,
     store_id2store = [(1, pub_store 1 1), (2, pub_store 2 2)], addr2store_id = []\<rparr>"

definition selector_config :: GlobalConfig where
  "selector_config = GlobalConfig_empty\<lparr>
     topic_id2topic_config := [(1000, (TopicConfig_of TopicConfig_ReadConfig)\<lparr>
       pub_id2pub := [(1, hd (tp_pubs TopicConfig_ReadConfig)), (2, hd (tl (tp_pubs TopicConfig_ReadConfig)))]\<rparr>)],
     topic_id2store_config := [(1000, selector_stores)]\<rparr>"

lemma selector_sample:
  "GetStoreConfig selector_config 1000 = Inr selector_stores" "sc_last_mod_time selector_stores = 7"
  "GetStoreByStoreID selector_stores 1 = Inr (pub_store 1 1)" "store_scale (pub_store i p) = 1"
  "GetPubIDsByStoreID selector_config 1000 1 = Inr [1]" "GetPubIDsByStoreID selector_config 1000 2 = Inr [2]"
  by (simp_all add: selector_config_def selector_stores_def GlobalConfig_empty_def GetStoreConfig_def pub_store_def
      GetPubIDsByStoreID_def GetStoreByStoreID_def GetTopicConfigByTopicID_def IsValidPubID_def)

lemma selector_store_ids: "pub_store_ids selector_config 1000 1 selector_stores = [1]" "pub_store_ids selector_config 1000 2 selector_stores = [2]"
proof -
  have "GetAllStore selector_stores = [pub_store 1 1, pub_store 2 2]" "store_ident (pub_store i p) = i" for i p
    by (simp_all add: GetAllStore_def selector_stores_def pub_store_def)
  then show "pub_store_ids selector_config 1000 1 selector_stores = [1]" "pub_store_ids selector_config 1000 2 selector_stores = [2]"
    by (simp_all add: pub_store_ids_def selector_sample)
qed

lemma selector_new [simp]:
  "ss_topic_id (StoreSelector_new t p u b) = t" "ss_pub_id (StoreSelector_new t p u b) = p" "ss_uin (StoreSelector_new t p u b) = u"
  "ss_retry_switch_store (StoreSelector_new t p u b) = b" "ss_retry (StoreSelector_new t p u b) = 0"
  by (simp_all add: StoreSelector_new_def)

theorem GetStoreID_serves_witness:
  "\<exists>sel' rings' w'. GetStoreID (\<lambda>_. 0) (\<lambda>w. (0, w)) (\<lambda>_. True) selector_config 3 (StoreSelector_new 1000 1 5 True, [], ())
     = Some ((RET_OK, Some 1), sel', rings', w')"
  using GetStoreID_serves[where ?g = selector_config and ?sel = "StoreSelector_new 1000 1 5 True" and ?s = 1 and ?rings = "[]"
      and ?fuel = 3 and ?inet_addr = "\<lambda>_. 0" and ?rand = "\<lambda>w. (0, w)" and ?IsStoreBlocked = "\<lambda>_. True" and ?w = "()"
      and ?store = "pub_store 1 1" and ?sc = selector_stores, OF _ refl]
  by (auto simp: selector_sample selector_store_ids ring_for_def StoreRing_empty_def good_store_def)

lemma one_point_ring: "ring_pick (sr_hash_ring (built_ring inet_addr selector_stores [1])) h = Some 1"
  by (simp add: built_ring_points store_points_def selector_sample ring_of_def map_emplace_def ring_pick_def lower_bound_def)

lemma first_choice:
  assumes "ring_pick (sr_hash_ring r) (uin_hash (StoreSelector_new t p 5 True) 5) = Some 1"
  shows "\<exists>sel'. store_loop rand (\<lambda>_. False) r ids 3 (StoreSelector_new t p 5 True, w) = Some (Some 1, sel', w)"
  using assms unfolding numeral_3_eq_3 store_loop.simps(2) selector_new by (simp add: Let_def del: store_loop.simps)

text \<open>The ring is kept per topic but built from the stores of one pub: after a thread has chosen a
  store for pub 1, which only store 1 serves, it chooses store 1 also for pub 2, which only store 2
  serves.\<close>

theorem GetStoreID_wrong_pub:
  "\<exists>sel1 rings1 sel2 rings2.
     GetStoreID (\<lambda>_. 0) (\<lambda>w. (0, w)) (\<lambda>_. False) selector_config 3 (StoreSelector_new 1000 1 5 True, [], ())
       = Some ((RET_OK, Some 1), sel1, rings1, ())
   \<and> GetStoreID (\<lambda>_. 0) (\<lambda>w. (0, w)) (\<lambda>_. False) selector_config 3 (StoreSelector_new 1000 2 5 True, rings1, ())
       = Some ((RET_OK, Some 1), sel2, rings2, ())
   \<and> GetPubIDsByStoreID selector_config 1000 1 = Inr [1] \<and> GetPubIDsByStoreID selector_config 1000 2 = Inr [2]"
proof -
  let ?r = "built_ring (\<lambda>_. 0) selector_stores [1]"
  have time: "sr_last_rebuild_time ?r = 7"
    by (simp add: built_ring_def fresh_ring_def rebuild_store_def selector_sample Let_def)
  obtain sel1 where 1: "store_loop (\<lambda>w. (0, w)) (\<lambda>_. False) ?r [1] 3 (StoreSelector_new 1000 1 5 True, ()) = Some (Some 1, sel1, ())"
    using first_choice[where ?rand = "\<lambda>w. (0, w)" and ?w = "()" and ?ids = "[1]" and ?r = ?r and ?t = 1000 and ?p = 1] one_point_ring by blast
  obtain sel2 where 2: "store_loop (\<lambda>w. (0, w)) (\<lambda>_. False) ?r [2] 3 (StoreSelector_new 1000 2 5 True, ()) = Some (Some 1, sel2, ())"
    using first_choice[where ?rand = "\<lambda>w. (0, w)" and ?w = "()" and ?ids = "[2]" and ?r = ?r and ?t = 1000 and ?p = 2] one_point_ring by blast
  have "rebuild_ring (\<lambda>_. 0) selector_stores [1] (ring_for [] 1000) = ?r"
    by (intro rebuild_ring_stale) (simp add: selector_sample ring_for_def StoreRing_empty_def)
  then have "GetStoreID (\<lambda>_. 0) (\<lambda>w. (0, w)) (\<lambda>_. False) selector_config 3 (StoreSelector_new 1000 1 5 True, [], ())
      = Some ((RET_OK, Some 1), sel1, [(1000, ?r)], ())"
    using 1 by (simp add: GetStoreID_def selector_sample selector_store_ids Let_def)
  moreover have "rebuild_ring (\<lambda>_. 0) selector_stores [2] (ring_for [(1000, ?r)] 1000) = ?r"
    using rebuild_ring_current[of selector_stores ?r] by (simp add: selector_sample time ring_for_def)
  then have "GetStoreID (\<lambda>_. 0) (\<lambda>w. (0, w)) (\<lambda>_. False) selector_config 3 (StoreSelector_new 1000 2 5 True, [(1000, ?r)], ())
      = Some ((RET_OK, Some 1), sel2, [(1000, ?r)], ())"
    using 2 by (simp add: GetStoreID_def selector_sample selector_store_ids Let_def)
  ultimately show ?thesis using selector_sample(5,6) by blast
qed

end
