(* ===== verification/Producer.thy ===== *)
theory Producer
  imports Selector
begin

section \<open>The producer (producer/producer.cpp)\<close>

text \<open>
  \<open>Enqueue\<close> makes an item of a message, \<open>MakeAddRequests\<close> puts items into requests that respect the
  limits of the topic, \<open>SelectAndAdd\<close> sends a request to a queue of a store and retries with others.
  Parameters stand for what is not in the repository or is virtual: zlib's \<open>crc32\<close>, the size of a
  message in bytes (protobuf), the compression of the buffer, the choice of a pub, and \<open>Add\<close>, which is
  \<open>ClientCall\<close> of the store's master client with its environment. The cookies of an item, which the
  producer only passes on, are left out.
\<close>

subsection \<open>Items\<close>

text \<open>
  A null set of groups means all groups. A group beyond 64 would shift by more than the width of the
  word, which C++ leaves undefined: \<^const>\<open>None\<close>.
\<close>

definition ConsumerGroupIDs2Mask :: "int list option \<Rightarrow> u64 option" where
  "ConsumerGroupIDs2Mask consumer_group_ids =
     (case consumer_group_ids of
        None \<Rightarrow> Some (- 1)
      | Some ids \<Rightarrow> foldM (\<lambda>i m. if i \<le> 0 then Some m
                                else if 64 < i then None
                                else Some (or m (push_bit (nat (i - 1)) 1))) ids 0)"

definition make_item ::
  "(u64 \<Rightarrow> u8 list \<Rightarrow> u64) \<Rightarrow> (string \<Rightarrow> string \<times> int) \<Rightarrow> int \<Rightarrow> u64 \<Rightarrow> int \<Rightarrow> string \<Rightarrow> int \<Rightarrow> u64 \<Rightarrow> string \<Rightarrow> u64 \<Rightarrow> QItem" where
  "make_item crc32 CompressBuffer topic_id uin handle_id buffer pub_id groups client_id now =
     (let (compressed, buffer_type) = CompressBuffer buffer;
          h = crc32 0 [];
          h = crc32 h (bytes_of_string buffer);
          h = crc32 h (bytes64 uin);
          h = crc32 h (bytes64 now)
      in \<lparr>qi_buffer = compressed, qi_buffer_type = buffer_type, qi_consumer_group_ids = groups, qi_pub_id = pub_id,
          qi_atime = now div 1000, qi_atime_ms = ucast (now mod 1000), qi_count = 0, qi_cursor_id = NoID,
          qi_meta = \<lparr>meta_topic_id = topic_id, meta_handle_id = handle_id, meta_uin = uin,
            meta_consumer_group_ids = groups, meta_pub_id = pub_id, meta_hash = h, meta_atime = now div 1000,
            meta_atime_ms = ucast (now mod 1000), meta_client_id = client_id\<rparr>\<rparr>)"

subsection \<open>Requests\<close>

text \<open>The items that have a queue info for their count, by queue info, in the order of the list.\<close>

definition route_item :: "TopicConfig \<Rightarrow> (QItem \<Rightarrow> QItem) \<Rightarrow> (int \<times> QItem list) list \<Rightarrow> QItem \<Rightarrow> (int \<times> QItem list) list" where
  "route_item tc item_update_func m item =
     (let new_item = item_update_func item in
      case GetQueueInfoIDByCount tc (qi_pub_id new_item) (sint (qi_count new_item)) of
        Inl _ \<Rightarrow> m
      | Inr queue_info_id \<Rightarrow> map_assign queue_info_id (entry m queue_info_id @ [new_item]) m)"

definition empty_request :: "int \<Rightarrow> AddRequest" where
  "empty_request topic_id =
     \<lparr>add_topic_id = topic_id, add_store_id = -1, add_queue_id = -1, add_items = [], add_master_addr = Addr_default\<rparr>"

text \<open>One pass over the items of a queue info: the open request, its number of items and its bytes.\<close>

fun fill_requests ::
  "(QItem \<Rightarrow> int) \<Rightarrow> int \<Rightarrow> int \<Rightarrow> u64 \<Rightarrow> QItem list \<Rightarrow> AddRequest option \<Rightarrow> int \<Rightarrow> u64 \<Rightarrow> RetCode + AddRequest list" where
  "fill_requests ByteSize topic_id max_batch byte_size_limit [] req batch byte_size =
     Inr (case req of None \<Rightarrow> [] | Some r \<Rightarrow> if add_items r = [] then [] else [r])"
| "fill_requests ByteSize topic_id max_batch byte_size_limit (new_item # new_items) req batch byte_size =
     (let item_byte_size = word_of_int (ByteSize new_item);
          full = (max_batch < batch + 1 \<or> byte_size_limit < byte_size + item_byte_size)
      in if full \<and> (case req of None \<Rightarrow> True | Some r \<Rightarrow> add_items r = []) then Inl RET_ERR_SIZE_TOO_LARGE
         else let pushed = (if full then (case req of None \<Rightarrow> [] | Some r \<Rightarrow> [r]) else []);
                  (req, batch, byte_size) = (if full then (None, 0, 0) else (req, batch, byte_size));
                  r = (case req of None \<Rightarrow> empty_request topic_id | Some r \<Rightarrow> r);
                  r = r\<lparr>add_items := add_items r @ [new_item]\<rparr>
           in case fill_requests ByteSize topic_id max_batch byte_size_limit new_items (Some r) (batch + 1) (byte_size + item_byte_size) of
                Inl ret \<Rightarrow> Inl ret
              | Inr reqs \<Rightarrow> Inr (pushed @ reqs))"

fun requests_of :: "(QItem \<Rightarrow> int) \<Rightarrow> int \<Rightarrow> Topic \<Rightarrow> (int \<times> QItem list) list \<Rightarrow> RetCode + AddRequest list" where
  "requests_of ByteSize topic_id t [] = Inr []"
| "requests_of ByteSize topic_id t ((queue_info_id, new_items) # rest) =
     (case fill_requests ByteSize topic_id (batch_limit t) (word_of_int (items_byte_size_limit t)) new_items None 0 0 of
        Inl ret \<Rightarrow> Inl ret
      | Inr reqs \<Rightarrow> (case requests_of ByteSize topic_id t rest of Inl ret \<Rightarrow> Inl ret | Inr reqs' \<Rightarrow> Inr (reqs @ reqs')))"

definition MakeAddRequests ::
  "(QItem \<Rightarrow> int) \<Rightarrow> GlobalConfig \<Rightarrow> int \<Rightarrow> QItem list \<Rightarrow> (QItem \<Rightarrow> QItem) \<Rightarrow> RetCode + AddRequest list" where
  "MakeAddRequests ByteSize g topic_id items item_update_func =
     (case GetTopicConfigByTopicID g topic_id of
        Inl ret \<Rightarrow> Inl ret
      | Inr tc \<Rightarrow> requests_of ByteSize topic_id (tp_topic (tc_proto tc)) (foldl (route_item tc item_update_func) [] items))"

subsection \<open>Adding\<close>

definition RawAdd ::
  "GlobalConfig \<Rightarrow> (AddRequest \<Rightarrow> AddResponse \<Rightarrow> 'w \<Rightarrow> RetCode \<times> AddResponse \<times> 'w) \<Rightarrow> AddRequest \<Rightarrow> AddResponse \<Rightarrow> 'w
   \<Rightarrow> RetCode \<times> AddResponse \<times> 'w" where
  "RawAdd g Add req resp w =
     (if add_items req = [] then (RET_OK, resp, w)
      else case GetTopicConfigByTopicID g (add_topic_id req) of Inl ret \<Rightarrow> (ret, resp, w) | Inr tc \<Rightarrow>
      case GetQueueInfoByQueue tc (add_queue_id req) of Inl ret \<Rightarrow> (ret, resp, w) | Inr queue_info \<Rightarrow>
      if qinfo_drop_all queue_info \<noteq> 0 then (RET_OK, resp, w) else Add req resp w)"

text \<open>
  The attempts of \<open>SelectAndAdd\<close>: \<open>GetQueueID\<close> and \<open>GetStoreID\<close> are the virtual methods of the selectors,
  with their states; \<open>Raw\<close> is \<open>RawAdd\<close> or \<open>BatchRawAdd\<close>. An id that the selector left unset is an
  undefined value in the request: \<^const>\<open>None\<close>.
\<close>

fun add_loop ::
  "('q \<times> 'w \<Rightarrow> (RetCode \<times> int option) \<times> 'q \<times> 'w) \<Rightarrow> ('s \<times> 'w \<Rightarrow> ((RetCode \<times> int option) \<times> 's \<times> 'w) option)
   \<Rightarrow> (AddRequest \<Rightarrow> AddResponse \<Rightarrow> 'w \<Rightarrow> RetCode \<times> AddResponse \<times> 'w) \<Rightarrow> nat
   \<Rightarrow> AddRequest \<Rightarrow> AddResponse \<Rightarrow> 'q \<Rightarrow> 's \<Rightarrow> 'w \<Rightarrow> (RetCode \<times> AddRequest \<times> AddResponse \<times> 'q \<times> 's \<times> 'w) option" where
  "add_loop GetQueue GetStore Raw nretry req resp qs ss w =
     (let ((ret, queue_id), qs, w) = GetQueue (qs, w) in
      if ret \<noteq> RET_OK then Some (ret, req, resp, qs, ss, w)
      else do {
        queue_id \<leftarrow> queue_id;
        let req = req\<lparr>add_queue_id := queue_id\<rparr>;
        ((ret, store_id), ss, w) \<leftarrow> GetStore (ss, w);
        if ret \<noteq> RET_OK then Some (ret, req, resp, qs, ss, w)
        else do {
          store_id \<leftarrow> store_id;
          let req = req\<lparr>add_store_id := store_id\<rparr>;
          let (ret, resp, w) = Raw req resp w;
          if 0 \<le> as_integer ret \<and> ret \<noteq> RET_ERR_NOT_MASTER \<and> ret \<noteq> RET_ERR_NO_MASTER
          then Some (ret, req, resp, qs, ss, w)
          else case nretry of
                 0 \<Rightarrow> Some (ret, req, resp, qs, ss, w)
               | Suc n \<Rightarrow> add_loop GetQueue GetStore Raw n req resp qs ss w }})"

declare add_loop.simps [simp del]

text \<open>
  \<open>qs0\<close> and \<open>ss0\<close> make the selectors for the first item's pub, user and count (the default ones or the
  caller's). A negative number of retries still makes one attempt.
\<close>

definition SelectAndAdd ::
  "('q \<times> 'w \<Rightarrow> (RetCode \<times> int option) \<times> 'q \<times> 'w) \<Rightarrow> ('s \<times> 'w \<Rightarrow> ((RetCode \<times> int option) \<times> 's \<times> 'w) option)
   \<Rightarrow> (Topic \<Rightarrow> QItem \<Rightarrow> 'q) \<Rightarrow> (Topic \<Rightarrow> QItem \<Rightarrow> 's)
   \<Rightarrow> (AddRequest \<Rightarrow> AddResponse \<Rightarrow> 'w \<Rightarrow> RetCode \<times> AddResponse \<times> 'w)
   \<Rightarrow> GlobalConfig \<Rightarrow> AddRequest \<Rightarrow> AddResponse \<Rightarrow> 'w \<Rightarrow> (RetCode \<times> AddResponse \<times> 'w) option" where
  "SelectAndAdd GetQueue GetStore qs0 ss0 Raw g req resp w =
     (case add_items req of
        [] \<Rightarrow> Some (RET_OK, resp, w)
      | item # _ \<Rightarrow>
          (case GetTopicConfigByTopicID g (add_topic_id req) of
             Inl ret \<Rightarrow> Some (ret, resp, w)
           | Inr tc \<Rightarrow>
               let t = tp_topic (tc_proto tc)
               in map_option (\<lambda>(ret, req, resp, qs, ss, w). (ret, resp, w))
                    (add_loop GetQueue GetStore Raw (nat (producer_nretry_raw_add t)) req resp (qs0 t item) (ss0 t item) w)))"

definition default_queue_selector :: "int \<Rightarrow> Topic \<Rightarrow> QItem \<Rightarrow> QueueSelector" where
  "default_queue_selector topic_id t item =
     QueueSelector_new topic_id (qi_pub_id item) (meta_uin (qi_meta item)) (sint (qi_count item)) (producer_retry_switch_queue t \<noteq> 0)"

definition default_store_selector :: "int \<Rightarrow> Topic \<Rightarrow> QItem \<Rightarrow> StoreSelector" where
  "default_store_selector topic_id t item =
     StoreSelector_new topic_id (qi_pub_id item) (meta_uin (qi_meta item)) (producer_retry_switch_store t \<noteq> 0)"

fun add_all :: "(AddRequest \<Rightarrow> 'w \<Rightarrow> (RetCode \<times> 'w) option) \<Rightarrow> AddRequest list \<Rightarrow> 'w \<Rightarrow> (RetCode \<times> 'w) option" where
  "add_all Select [] w = Some (RET_OK, w)"
| "add_all Select (req # reqs) w = do {
     (ret, w) \<leftarrow> Select req w;
     if ret \<noteq> RET_OK then Some (ret, w) else add_all Select reqs w }"

text \<open>\<open>Select\<close> is \<open>SelectAndAdd\<close> with its environment and a fresh response.\<close>

definition Enqueue ::
  "(u64 \<Rightarrow> u8 list \<Rightarrow> u64) \<Rightarrow> (string \<Rightarrow> string \<times> int) \<Rightarrow> (int \<Rightarrow> u64 \<Rightarrow> int \<Rightarrow> int) \<Rightarrow> (QItem \<Rightarrow> int)
   \<Rightarrow> (AddRequest \<Rightarrow> 'w \<Rightarrow> (RetCode \<times> 'w) option) \<Rightarrow> GlobalConfig \<Rightarrow> u64
   \<Rightarrow> int \<Rightarrow> u64 \<Rightarrow> int \<Rightarrow> string \<Rightarrow> int \<Rightarrow> int list option \<Rightarrow> string \<Rightarrow> 'w \<Rightarrow> (RetCode \<times> 'w) option" where
  "Enqueue crc32 CompressBuffer DecidePubIDOnEnqueue ByteSize Select g now
     topic_id uin handle_id buffer pub_id consumer_group_ids client_id w =
     (case GetTopicConfigByTopicID g topic_id of
        Inl ret \<Rightarrow> Some (ret, w)
      | Inr tc \<Rightarrow>
          let pub_id = (if pub_id = -1 then DecidePubIDOnEnqueue topic_id uin handle_id else pub_id) in
          if pub_id = -1 \<or> \<not> IsValidPubID tc pub_id then Some (RET_ERR_RANGE_PUB, w)
          else do {
            groups \<leftarrow> ConsumerGroupIDs2Mask consumer_group_ids;
            let item = make_item crc32 CompressBuffer topic_id uin handle_id buffer pub_id groups client_id now;
            case MakeAddRequests ByteSize g topic_id [item] id of
              Inl ret \<Rightarrow> Some (ret, w)
            | Inr reqs \<Rightarrow> add_all Select reqs w })"

subsection \<open>The group mask\<close>

lemma mask_fold:
  assumes "foldM (\<lambda>i m. if i \<le> 0 then Some m else if 64 < i then None else Some (or m (push_bit (nat (i - 1)) 1))) ids (a :: u64) = Some m"
    and "k < 64"
  shows "bit m k \<longleftrightarrow> bit a k \<or> int k + 1 \<in> set ids"
  using assms(1)
proof (induction ids arbitrary: a)
  case (Cons i ids)
  then obtain b where b: "(if i \<le> 0 then Some a else if 64 < i then None else Some (or a (push_bit (nat (i - 1)) 1))) = Some b"
    "foldM (\<lambda>i m. if i \<le> 0 then Some m else if 64 < i then None else Some (or m (push_bit (nat (i - 1)) 1))) ids b = Some m"
    by (auto simp: Option.bind_eq_Some_conv)
  have "bit b k \<longleftrightarrow> bit a k \<or> int k + 1 = i"
    using b(1) assms(2) by (auto simp: bit_simps split: if_splits)
  then show ?case using Cons.IH[OF b(2)] by auto
qed simp

lemma ConsumerGroupIDs2Mask_bits:
  assumes "ConsumerGroupIDs2Mask ids = Some m" and "1 \<le> g" and "g \<le> 64"
  shows "bit m (nat (g - 1)) \<longleftrightarrow> (case ids of None \<Rightarrow> True | Some ids \<Rightarrow> g \<in> set ids)"
proof (cases ids)
  case None
  then show ?thesis using assms by (auto simp: ConsumerGroupIDs2Mask_def)
next
  case (Some il)
  then show ?thesis
    using assms mask_fold[of il 0 m "nat (g - 1)"] by (auto simp: ConsumerGroupIDs2Mask_def)
qed

subsection \<open>Batches\<close>

abbreviation bytes_of :: "(QItem \<Rightarrow> int) \<Rightarrow> QItem list \<Rightarrow> int" where
  "bytes_of ByteSize items \<equiv> sum_list (map ByteSize items)"

text \<open>A request within the limits; a single item may exceed the byte limit.\<close>

definition batch_ok :: "(QItem \<Rightarrow> int) \<Rightarrow> int \<Rightarrow> int \<Rightarrow> int \<Rightarrow> AddRequest \<Rightarrow> bool" where
  "batch_ok ByteSize topic_id blimit limit r \<longleftrightarrow>
     (\<exists>items. items \<noteq> [] \<and> r = (empty_request topic_id)\<lparr>add_items := items\<rparr> \<and> int (length items) \<le> blimit
        \<and> (bytes_of ByteSize items \<le> limit \<or> length items = 1))"

definition open_items :: "AddRequest option \<Rightarrow> QItem list" where
  "open_items req = (case req of None \<Rightarrow> [] | Some r \<Rightarrow> add_items r)"

definition open_ok :: "(QItem \<Rightarrow> int) \<Rightarrow> int \<Rightarrow> int \<Rightarrow> int \<Rightarrow> AddRequest option \<Rightarrow> int \<Rightarrow> u64 \<Rightarrow> bool" where
  "open_ok ByteSize topic_id blimit limit req batch bytes \<longleftrightarrow>
     (case req of None \<Rightarrow> batch = 0 \<and> bytes = 0
      | Some r \<Rightarrow> batch_ok ByteSize topic_id blimit limit r \<and> batch = int (length (add_items r))
          \<and> bytes = word_of_int (bytes_of ByteSize (add_items r)))"

definition sizes_ok :: "(QItem \<Rightarrow> int) \<Rightarrow> bool" where
  "sizes_ok ByteSize \<longleftrightarrow> (\<forall>item. 0 \<le> ByteSize item \<and> ByteSize item < 2 ^ 31)"

lemma u64_less_iff: "0 \<le> a \<Longrightarrow> a < 2 ^ 64 \<Longrightarrow> 0 \<le> b \<Longrightarrow> b < 2 ^ 64 \<Longrightarrow> (word_of_int a :: u64) < word_of_int b \<longleftrightarrow> a < b"
  by (simp add: word_less_def uint_word_of_int)

lemma bytes_nonneg: "sizes_ok ByteSize \<Longrightarrow> 0 \<le> bytes_of ByteSize items"
  by (induction items) (auto simp: sizes_ok_def)

lemma fill_requests_spec:
  assumes sz: "sizes_ok ByteSize" and lim: "0 \<le> limit" "limit < 2 ^ 31"
    and "fill_requests ByteSize topic_id blimit (word_of_int limit) items req batch bytes = Inr reqs"
    and "open_ok ByteSize topic_id blimit limit req batch bytes"
  shows "concat (map add_items reqs) = open_items req @ items \<and> (\<forall>r \<in> set reqs. batch_ok ByteSize topic_id blimit limit r)"
  using assms(4,5)
proof (induction items arbitrary: req batch bytes reqs)
  case Nil
  then show ?case
    by (cases req) (auto simp: open_items_def open_ok_def split: if_splits)
next
  case (Cons item items)
  let ?os = "open_items req" and ?s = "ByteSize item"
  have s: "0 \<le> ?s" "?s < 2 ^ 31" using sz by (simp_all add: sizes_ok_def)
  have os: "batch = int (length ?os)" "bytes = word_of_int (bytes_of ByteSize ?os)"
    using Cons.prems(2) by (auto simp: open_ok_def open_items_def split: option.splits)
  have one: "bytes_of ByteSize xs < 2 ^ 31" if "length xs = 1" for xs
    using that sz by (cases xs) (auto simp: sizes_ok_def)
  have bnd: "0 \<le> bytes_of ByteSize ?os" "bytes_of ByteSize ?os < 2 ^ 31"
    using bytes_nonneg[OF sz] Cons.prems(2) lim one
    by (auto simp: open_ok_def open_items_def batch_ok_def split: option.splits dest: le_less_trans)
  have cmp: "(word_of_int limit :: u64) < bytes + word_of_int ?s \<longleftrightarrow> limit < bytes_of ByteSize ?os + ?s"
    using u64_less_iff[of limit "bytes_of ByteSize ?os + ?s"] bnd s lim by (simp add: os(2))
  let ?full = "blimit < batch + 1 \<or> limit < bytes_of ByteSize ?os + ?s"
  show ?case
  proof (cases ?full)
    case True
    with Cons.prems(1) cmp have ne: "?os \<noteq> []"
      by (auto simp: Let_def open_items_def split: option.splits if_splits)
    then obtain r where r: "req = Some r" by (cases req) (auto simp: open_items_def)
    let ?r = "(empty_request topic_id)\<lparr>add_items := [item]\<rparr>"
    have "(word_of_int limit :: u64) < bytes + word_of_int ?s \<or> blimit < batch + 1" using True cmp by blast
    then obtain rest where rest: "fill_requests ByteSize topic_id blimit (word_of_int limit) items (Some ?r) 1 (word_of_int ?s) = Inr rest"
      "reqs = r # rest"
      using Cons.prems(1) ne r by (auto simp: Let_def open_items_def empty_request_def split: sum.splits if_splits)
    have "int (length ?os) \<le> blimit" using Cons.prems(2) r by (auto simp: open_ok_def batch_ok_def open_items_def)
    then have "1 \<le> blimit" using ne by (cases ?os) auto
    then have "open_ok ByteSize topic_id blimit limit (Some ?r) 1 (word_of_int ?s)"
      by (auto simp: open_ok_def batch_ok_def intro!: exI[of _ "[item]"])
    from Cons.IH[OF rest(1) this] show ?thesis
      using Cons.prems(2) r rest(2) by (auto simp: open_items_def open_ok_def)
  next
    case False
    let ?r = "(empty_request topic_id)\<lparr>add_items := ?os @ [item]\<rparr>"
    have r: "(case req of None \<Rightarrow> empty_request topic_id | Some r \<Rightarrow> r)\<lparr>add_items := ?os @ [item]\<rparr> = ?r"
      using Cons.prems(2) by (auto simp: open_items_def open_ok_def batch_ok_def split: option.splits)
    have run: "fill_requests ByteSize topic_id blimit (word_of_int limit) items (Some ?r) (batch + 1) (bytes + word_of_int ?s) = Inr reqs"
      using Cons.prems(1) False cmp r
      by (cases req) (auto simp: Let_def open_items_def empty_request_def split: sum.splits)
    have "open_ok ByteSize topic_id blimit limit (Some ?r) (batch + 1) (bytes + word_of_int ?s)"
      using False os by (auto simp: open_ok_def batch_ok_def intro!: exI[of _ "?os @ [item]"])
    from Cons.IH[OF run this] show ?thesis by (simp add: open_items_def)
  qed
qed

subsection \<open>Routing\<close>

abbreviation route :: "TopicConfig \<Rightarrow> QItem \<Rightarrow> RetCode + int" where
  "route tc item \<equiv> GetQueueInfoIDByCount tc (qi_pub_id item) (sint (qi_count item))"

definition routed :: "TopicConfig \<Rightarrow> (int \<times> QItem list) list \<Rightarrow> QItem list \<Rightarrow> bool" where
  "routed tc m items \<longleftrightarrow> wf_map m \<and> (\<forall>q. entry m q = filter (\<lambda>i. route tc i = Inr q) items)"

lemma entry_assign: "wf_map m \<Longrightarrow> entry (map_assign k v m) q = (if q = k then v else entry m q)"
  by (simp add: entry_def map_of_assign)

lemma routed_step: "routed tc m items \<Longrightarrow> routed tc (route_item tc upd m item) (items @ [upd item])"
  by (auto simp: routed_def route_item_def Let_def entry_assign wf_map_assign split: sum.splits)

lemma routed_all: "routed tc (foldl (route_item tc upd) [] items) (map upd items)"
proof (induction items rule: rev_induct)
  case Nil
  then show ?case by (simp add: routed_def entry_def)
next
  case (snoc item items)
  then show ?case using routed_step by simp
qed

lemma routed_groups:
  assumes "routed tc m items" and "(q, xs) \<in> set m"
  shows "xs = filter (\<lambda>i. route tc i = Inr q) items"
proof -
  have "distinct (map fst m)" using assms(1) by (auto simp: routed_def sorted_by_def strict_sorted_iff)
  then have "map_of m q = Some xs" using assms(2) by simp
  then show ?thesis using assms(1) by (metis (no_types, lifting) entry_def option.simps(5) routed_def)
qed

lemma routed_concat:
  assumes "routed tc m items"
  shows "filter (\<lambda>i. route tc i = Inr q) (concat (map snd m)) = filter (\<lambda>i. route tc i = Inr q) items"
proof -
  have "filter (\<lambda>i. route tc i = Inr q) (concat (map snd n)) = entry n q"
    if "\<And>k xs i. (k, xs) \<in> set n \<Longrightarrow> i \<in> set xs \<Longrightarrow> route tc i = Inr k" "distinct (map fst n)" for n :: "(int \<times> QItem list) list"
    using that
  proof (induction n)
    case (Cons p n)
    obtain k xs where p: "p = (k, xs)" by (cases p)
    have xs: "\<And>i. i \<in> set xs \<Longrightarrow> route tc i = Inr k" using Cons.prems(1)[of k xs] p by simp
    have rest: "filter (\<lambda>i. route tc i = Inr q) (concat (map snd n)) = entry n q"
      using Cons.prems by (intro Cons.IH) (auto simp del: not_None_eq)
    show ?case
    proof (cases "k = q")
      case True
      then have "map_of n q = None" using Cons.prems(2) p by (auto simp: map_of_eq_None_iff)
      then have "entry n q = []" by (simp add: entry_def)
      moreover have "filter (\<lambda>i. route tc i = Inr q) xs = xs" using xs True by (simp add: filter_id_conv)
      ultimately show ?thesis using rest True by (simp add: p entry_def)
    next
      case False
      then have "filter (\<lambda>i. route tc i = Inr q) xs = []" using xs by (simp add: filter_empty_conv)
      then show ?thesis using rest False by (simp add: p entry_def)
    qed
  qed (simp add: entry_def)
  moreover have "distinct (map fst m)" using assms by (auto simp: routed_def sorted_by_def strict_sorted_iff)
  moreover have "route tc i = Inr k" if "(k, xs) \<in> set m" "i \<in> set xs" for k xs i
    using routed_groups[OF assms that(1)] that(2) by simp
  ultimately show ?thesis using assms by (simp add: routed_def)
qed

lemma requests_of_spec:
  assumes "sizes_ok ByteSize" and "0 \<le> items_byte_size_limit t" and "items_byte_size_limit t < 2 ^ 31"
    and "requests_of ByteSize topic_id t m = Inr reqs"
  shows "concat (map add_items reqs) = concat (map snd m)
    \<and> (\<forall>r \<in> set reqs. batch_ok ByteSize topic_id (batch_limit t) (items_byte_size_limit t) r \<and> (\<exists>p \<in> set m. set (add_items r) \<subseteq> set (snd p)))"
  using assms(4)
proof (induction m arbitrary: reqs)
  case (Cons p m)
  obtain q xs where p: "p = (q, xs)" by (cases p)
  obtain r1 r2 where r: "fill_requests ByteSize topic_id (batch_limit t) (word_of_int (items_byte_size_limit t)) xs None 0 0 = Inr r1"
    "requests_of ByteSize topic_id t m = Inr r2" "reqs = r1 @ r2"
    using Cons.prems p by (auto split: sum.splits)
  have 1: "concat (map add_items r1) = xs \<and> (\<forall>r \<in> set r1. batch_ok ByteSize topic_id (batch_limit t) (items_byte_size_limit t) r)"
    using fill_requests_spec[OF assms(1-3) r(1)] by (simp add: open_ok_def open_items_def)
  then have "set (add_items r) \<subseteq> set xs" if "r \<in> set r1" for r using that by auto
  then show ?case using Cons.IH[OF r(2)] 1 r(3) p by fastforce
qed simp

text \<open>C28: \<open>MakeAddRequests\<close> puts every item that has a queue info for its count into a request, keeps
  the order of the items of a queue info, and never mixes queue infos in a request. A request has
  between one item and the batch limit; it stays within the byte limit unless it is a single item.\<close>

theorem MakeAddRequests_batches:
  assumes "sizes_ok ByteSize" and "GetTopicConfigByTopicID g topic_id = Inr tc"
    and "0 \<le> items_byte_size_limit (tp_topic (tc_proto tc))" and "items_byte_size_limit (tp_topic (tc_proto tc)) < 2 ^ 31"
    and "MakeAddRequests ByteSize g topic_id items upd = Inr reqs"
  shows "(\<forall>q. filter (\<lambda>i. route tc i = Inr q) (concat (map add_items reqs)) = filter (\<lambda>i. route tc i = Inr q) (map upd items))
    \<and> (\<forall>r \<in> set reqs. \<exists>q. \<forall>i \<in> set (add_items r). route tc i = Inr q)
    \<and> (\<forall>r \<in> set reqs. add_topic_id r = topic_id \<and> add_items r \<noteq> []
        \<and> int (length (add_items r)) \<le> batch_limit (tp_topic (tc_proto tc))
        \<and> (bytes_of ByteSize (add_items r) \<le> items_byte_size_limit (tp_topic (tc_proto tc)) \<or> length (add_items r) = 1))"
proof -
  let ?m = "foldl (route_item tc upd) [] items" and ?t = "tp_topic (tc_proto tc)"
  have run: "requests_of ByteSize topic_id ?t ?m = Inr reqs" using assms(2,5) by (simp add: MakeAddRequests_def)
  note spec = requests_of_spec[OF assms(1,3,4) run]
  note routed = routed_all[of tc upd items]
  note eq = conjunct1[OF spec] and each = bspec[OF conjunct2[OF spec]]
  have one: "\<exists>q. \<forall>i \<in> set (add_items r). route tc i = Inr q" if r: "r \<in> set reqs" for r
  proof -
    obtain p where "p \<in> set ?m" "set (add_items r) \<subseteq> set (snd p)" using conjunct2[OF each[OF r]] by (rule bexE)
    then show ?thesis using routed_groups[OF routed, of "fst p" "snd p"] by auto
  qed
  note ok = conjunct1[OF each]
  have lim: "add_topic_id r = topic_id \<and> add_items r \<noteq> [] \<and> int (length (add_items r)) \<le> batch_limit ?t
        \<and> (bytes_of ByteSize (add_items r) \<le> items_byte_size_limit ?t \<or> length (add_items r) = 1)" if "r \<in> set reqs" for r
    using ok[OF that] by (auto simp: batch_ok_def empty_request_def)
  show ?thesis
    unfolding eq
  proof (intro conjI allI ballI)
    show "filter (\<lambda>i. route tc i = Inr q) (concat (map snd ?m)) = filter (\<lambda>i. route tc i = Inr q) (map upd items)" for q
      by (rule routed_concat[OF routed])
  qed (use one lim in blast)+
qed

subsection \<open>Samples\<close>

definition producer_config :: GlobalConfig where
  "producer_config = GlobalConfig_empty\<lparr>topic_id2topic_config := [(1000, sample_topic)]\<rparr>"

definition sample_item :: "string \<Rightarrow> QItem" where
  "sample_item buf = make_item (\<lambda>h bs. h + of_nat (length bs)) (\<lambda>b. (b, 0)) 1000 5 1 buf 1 (- 1) [] 1500000000000"

definition sample_size :: "QItem \<Rightarrow> int" where
  "sample_size item = (if qi_buffer item = ''big'' then 3000000 else 100)"

lemma producer_config_lookup: "GetTopicConfigByTopicID producer_config 1000 = Inr sample_topic"
  by (simp add: producer_config_def GetTopicConfigByTopicID_def)

lemma sample_limits:
  "items_byte_size_limit (tp_topic (tc_proto sample_topic)) = 2097152" "batch_limit (tp_topic (tc_proto sample_topic)) = 100"
  by code_simp+

lemma sample_route: "GetQueueInfoIDByCount sample_topic 1 0 = Inr 1" 
  by code_simp

lemma sample_item_fields [simp]:
  "qi_buffer (sample_item buf) = buf" "qi_pub_id (sample_item buf) = 1" "qi_count (sample_item buf) = 0"
  by (simp_all add: sample_item_def make_item_def Let_def)

lemma sample_item_eq [simp]: "sample_item a = sample_item b \<longleftrightarrow> a = b"
  by (metis sample_item_fields(1))

lemma sample_requests:
  "MakeAddRequests sample_size producer_config 1000 (map sample_item [''a'', ''b'']) id =
     Inr [(empty_request 1000)\<lparr>add_items := map sample_item [''a'', ''b'']\<rparr>]"
  by (simp add: MakeAddRequests_def producer_config_lookup route_item_def sample_route entry_def sample_limits sample_size_def
      empty_request_def Let_def)

theorem MakeAddRequests_batches_witness:
  "int (length (add_items ((empty_request 1000)\<lparr>add_items := map sample_item [''a'', ''b'']\<rparr>))) \<le> 100"
  using MakeAddRequests_batches[OF _ producer_config_lookup _ _ sample_requests]
  by (simp add: sizes_ok_def sample_size_def sample_limits)

text \<open>An item above the byte limit is refused when it is the first of its queue info, but accepted
  behind another one: the size is not checked again after the open request was closed.\<close>

theorem MakeAddRequests_oversize:
  "MakeAddRequests sample_size producer_config 1000 [sample_item ''big''] id = Inl RET_ERR_SIZE_TOO_LARGE
   \<and> MakeAddRequests sample_size producer_config 1000 [sample_item ''a'', sample_item ''big''] id =
       Inr [(empty_request 1000)\<lparr>add_items := [sample_item ''a'']\<rparr>, (empty_request 1000)\<lparr>add_items := [sample_item ''big'']\<rparr>]
   \<and> items_byte_size_limit (tp_topic (tc_proto sample_topic)) < sample_size (sample_item ''big'')"
  by (simp add: MakeAddRequests_def producer_config_lookup route_item_def sample_route entry_def sample_limits sample_size_def
      empty_request_def Let_def)

subsection \<open>Adding with retries\<close>

lemma add_loop_attempt:
  assumes "add_loop GetQueue GetStore Raw n req resp qs ss w = Some (RET_OK, req', resp', qs', ss', w')"
  obtains q s qs1 ss1 w1 w2 ret resp2 w3 where "GetQueue (qs, w) = ((RET_OK, Some q), qs1, w1)" "GetStore (ss, w1) = Some ((RET_OK, Some s), ss1, w2)"
    "Raw (req\<lparr>add_queue_id := q, add_store_id := s\<rparr>) resp w2 = (ret, resp2, w3)"
    "ret = RET_OK \<and> req' = req\<lparr>add_queue_id := q, add_store_id := s\<rparr> \<and> resp' = resp2 \<and> w' = w3
     \<or> (\<exists>m. n = Suc m \<and> add_loop GetQueue GetStore Raw m (req\<lparr>add_queue_id := q, add_store_id := s\<rparr>) resp2 qs1 ss1 w3
          = Some (RET_OK, req', resp', qs', ss', w'))"
proof -
  obtain r1 queue_id qs1 w1 where q: "GetQueue (qs, w) = ((r1, queue_id), qs1, w1)" by (metis prod.collapse)
  note run = assms[unfolded add_loop.simps[of _ _ _ n]]
  have r1: "r1 = RET_OK" using run q by (auto split: if_splits)
  then obtain i where i: "queue_id = Some i" using run q by (cases queue_id) auto
  obtain r2 store_id ss1 w2 where s: "GetStore (ss, w1) = Some ((r2, store_id), ss1, w2)"
  proof (cases "GetStore (ss, w1)")
    case None
    then show ?thesis using run q r1 i by (simp add: Let_def)
  next
    case (Some a)
    then show ?thesis using that by (metis prod.collapse)
  qed
  have r2: "r2 = RET_OK" using run q r1 i s by (auto simp: Let_def split: if_splits)
  then obtain j where j: "store_id = Some j" using run q r1 i s by (cases store_id) (auto simp: Let_def)
  let ?req = "req\<lparr>add_queue_id := i, add_store_id := j\<rparr>"
  obtain r3 resp2 w3 where raw: "Raw ?req resp w2 = (r3, resp2, w3)" by (metis prod_cases3)
  have "r3 = RET_OK \<and> req' = ?req \<and> resp' = resp2 \<and> w' = w3
     \<or> (\<exists>m. n = Suc m \<and> add_loop GetQueue GetStore Raw m ?req resp2 qs1 ss1 w3 = Some (RET_OK, req', resp', qs', ss', w'))"
    using run q r1 i s r2 j raw by (cases n) (auto simp: Let_def split: if_splits)
  then show ?thesis using that q r1 i s r2 j raw by blast
qed

lemma add_loop_OK:
  assumes "add_loop GetQueue GetStore Raw n req resp qs ss w = Some (RET_OK, req', resp', qs', ss', w')"
  shows "add_items req' = add_items req \<and> add_topic_id req' = add_topic_id req \<and> (\<exists>resp1 w1. Raw req' resp1 w1 = (RET_OK, resp', w'))"
  using assms
proof (induction n arbitrary: req resp qs ss w rule: less_induct)
  case (less n)
  show ?case by (rule add_loop_attempt[OF less.prems]) (auto dest!: less.IH[rotated])
qed

lemma SelectAndAdd_added:
  assumes "SelectAndAdd GetQueue GetStore qs0 ss0 Raw g req resp w = Some (RET_OK, resp', w')" and "add_items req \<noteq> []"
  shows "\<exists>req' resp1 w1. Raw req' resp1 w1 = (RET_OK, resp', w') \<and> add_items req' = add_items req \<and> add_topic_id req' = add_topic_id req"
proof -
  have "GetTopicConfigByTopicID g (add_topic_id req) \<noteq> Inl RET_OK" by (simp add: GetTopicConfigByTopicID_def split: option.splits)
  then obtain n qs ss req' qs' ss' where
    "add_loop GetQueue GetStore Raw n req resp qs ss w = Some (RET_OK, req', resp', qs', ss', w')"
    using assms by (auto simp: SelectAndAdd_def Let_def split: list.splits sum.splits)
  from add_loop_OK[OF this] show ?thesis by blast
qed

lemma RawAdd_OK:
  assumes "RawAdd g Add req resp w = (RET_OK, resp', w')" and "add_items req \<noteq> []"
  shows "Add req resp w = (RET_OK, resp', w')
    \<or> (\<exists>tc qi. GetTopicConfigByTopicID g (add_topic_id req) = Inr tc \<and> GetQueueInfoByQueue tc (add_queue_id req) = Inr qi \<and> qinfo_drop_all qi \<noteq> 0)"
proof -
  have "GetTopicConfigByTopicID g (add_topic_id req) \<noteq> Inl RET_OK" "GetQueueInfoByQueue tc q \<noteq> Inl RET_OK" for tc q
    by (simp_all add: GetTopicConfigByTopicID_def GetQueueInfoByQueue_def GetQueueInfoByQueueInfoID_def split: option.splits)
  with assms show ?thesis by (auto simp: RawAdd_def split: sum.splits if_splits)
qed

lemma single_request:
  assumes "GetTopicConfigByTopicID g topic_id = Inr tc" and "MakeAddRequests ByteSize g topic_id [item] id = Inr reqs"
  shows "(\<exists>e. route tc item = Inl e) \<and> reqs = [] \<or> reqs = [(empty_request topic_id)\<lparr>add_items := [item]\<rparr>]"
  using assms by (cases "route tc item")
    (auto simp: MakeAddRequests_def route_item_def entry_def empty_request_def Let_def split: if_splits)

lemma fill_requests_error: "fill_requests ByteSize topic_id b l items req batch bytes = Inl ret \<Longrightarrow> ret = RET_ERR_SIZE_TOO_LARGE"
proof (induction items arbitrary: req batch bytes)
  case (Cons item items)
  then show ?case by (auto simp: Let_def split: if_splits sum.splits prod.splits)
qed simp

lemma MakeAddRequests_error: "MakeAddRequests ByteSize g topic_id items upd = Inl ret \<Longrightarrow> ret \<noteq> RET_OK"
proof -
  have "requests_of ByteSize topic_id t m = Inl ret \<Longrightarrow> ret = RET_ERR_SIZE_TOO_LARGE" for t m
    by (induction m) (auto split: sum.splits dest: fill_requests_error)
  then show "MakeAddRequests ByteSize g topic_id items upd = Inl ret \<Longrightarrow> ret \<noteq> RET_OK"
    by (auto simp: MakeAddRequests_def GetTopicConfigByTopicID_def split: option.splits)
qed

text \<open>C17: What a successful \<open>Enqueue\<close> means: a store was asked to add exactly the item of the message, in
  a queue and a store the selectors chose, and answered with success; or that queue drops all its
  items; or the pub has no queue info for a first attempt, in which case the message is dropped.\<close>

theorem Enqueue_acknowledged:
  assumes "Enqueue crc32 Compress Decide ByteSize
      (\<lambda>req w. map_option (\<lambda>(ret, resp, w). (ret, w)) (SelectAndAdd GetQueue GetStore qs0 ss0 (RawAdd g Add) g req resp0 w))
      g now topic_id uin handle_id buffer pub_id ids client_id w = Some (RET_OK, w')"
    and "GetTopicConfigByTopicID g topic_id = Inr tc"
  shows "\<exists>groups pub item. ConsumerGroupIDs2Mask ids = Some groups \<and> IsValidPubID tc pub \<and> pub \<in> {pub_id, Decide topic_id uin handle_id}
    \<and> item = make_item crc32 Compress topic_id uin handle_id buffer pub groups client_id now
    \<and> ((\<exists>e. route tc item = Inl e)
       \<or> (\<exists>req resp1 resp2 w1. add_items req = [item] \<and> add_topic_id req = topic_id
            \<and> (Add req resp1 w1 = (RET_OK, resp2, w')
               \<or> (\<exists>qi. GetQueueInfoByQueue tc (add_queue_id req) = Inr qi \<and> qinfo_drop_all qi \<noteq> 0))))"
proof -
  let ?Sel = "\<lambda>req w. map_option (\<lambda>(ret, resp, w). (ret, w)) (SelectAndAdd GetQueue GetStore qs0 ss0 (RawAdd g Add) g req resp0 w)"
  let ?pub = "if pub_id = -1 then Decide topic_id uin handle_id else pub_id"
  obtain groups where pub: "IsValidPubID tc ?pub" "ConsumerGroupIDs2Mask ids = Some groups"
    using assms by (auto simp: Enqueue_def Let_def Option.bind_eq_Some_conv split: if_splits)
  let ?item = "make_item crc32 Compress topic_id uin handle_id buffer ?pub groups client_id now"
  let ?req = "(empty_request topic_id)\<lparr>add_items := [?item]\<rparr>"
  have enq: "(case MakeAddRequests ByteSize g topic_id [?item] id of Inl ret \<Rightarrow> Some (ret, w) | Inr reqs \<Rightarrow> add_all ?Sel reqs w) = Some (RET_OK, w')"
    using assms pub by (simp add: Enqueue_def Let_def split: if_splits)
  then obtain reqs where reqs: "MakeAddRequests ByteSize g topic_id [?item] id = Inr reqs" "add_all ?Sel reqs w = Some (RET_OK, w')"
    using MakeAddRequests_error[of ByteSize g topic_id "[?item]" id] by (auto split: sum.splits)
  show ?thesis
  proof (cases "\<exists>e. route tc ?item = Inl e")
    case True
    then show ?thesis using pub by (intro exI[of _ groups] exI[of _ ?pub] exI[of _ ?item]) auto
  next
    case False
    then have "reqs = [?req]" using single_request[OF assms(2) reqs(1)] by blast
    then obtain resp' where "SelectAndAdd GetQueue GetStore qs0 ss0 (RawAdd g Add) g ?req resp0 w = Some (RET_OK, resp', w')"
      using reqs(2) by (auto simp: Option.bind_eq_Some_conv split: if_splits)
    from SelectAndAdd_added[OF this] obtain req' resp1 w1 where r: "RawAdd g Add req' resp1 w1 = (RET_OK, resp', w')"
      "add_items req' = [?item]" "add_topic_id req' = topic_id" by (auto simp: empty_request_def)
    then have "Add req' resp1 w1 = (RET_OK, resp', w')
        \<or> (\<exists>qi. GetQueueInfoByQueue tc (add_queue_id req') = Inr qi \<and> qinfo_drop_all qi \<noteq> 0)"
      using RawAdd_OK[OF r(1)] assms(2) by auto
    then show ?thesis
      using pub r by (intro exI[of _ groups] exI[of _ ?pub] exI[of _ ?item]) auto
  qed
qed

lemma sample_topic_pub: "IsValidPubID sample_topic 1"
  by code_simp

lemma sample_topic_queue: "\<exists>qi. GetQueueInfoByQueue sample_topic 7 = Inr qi \<and> qinfo_drop_all qi = 0"
proof -
  have "case GetQueueInfoByQueue sample_topic 7 of Inl _ \<Rightarrow> False | Inr qi \<Rightarrow> qinfo_drop_all qi = 0" by code_simp
  then show ?thesis by (auto split: sum.splits)
qed

definition sample_select :: "AddRequest \<Rightarrow> AddRequest list \<Rightarrow> (RetCode \<times> AddRequest list) option" where
  "sample_select req w = map_option (\<lambda>(ret, resp, w). (ret, w))
     (SelectAndAdd (\<lambda>(q, w). ((RET_OK, Some 7), q, w)) (\<lambda>(s, w). Some ((RET_OK, Some 1), s, w)) (\<lambda>_ _. ()) (\<lambda>_ _. ())
       (RawAdd producer_config (\<lambda>req resp w. (RET_OK, resp, w @ [req]))) producer_config req
       \<lparr>add_resp_cursor_id = 0, add_redirect_addr = None\<rparr> w)"

lemma sample_enqueue:
  "Enqueue (\<lambda>h bs. h + of_nat (length bs)) (\<lambda>b. (b, 0)) (\<lambda>_ _ _. 1) sample_size sample_select producer_config 1500000000000
     1000 5 1 ''hello'' (-1) None [] [] = Some (RET_OK, [(empty_request 1000)\<lparr>add_items := [sample_item ''hello''], add_queue_id := 7, add_store_id := 1\<rparr>])"
proof -
  obtain qi where qi: "GetQueueInfoByQueue sample_topic 7 = Inr qi" "qinfo_drop_all qi = 0" using sample_topic_queue by blast
  have "MakeAddRequests sample_size producer_config 1000 [sample_item ''hello''] id = Inr [(empty_request 1000)\<lparr>add_items := [sample_item ''hello'']\<rparr>]"
    by (simp add: MakeAddRequests_def producer_config_lookup route_item_def sample_route entry_def sample_limits sample_size_def
        empty_request_def Let_def)
  then show ?thesis
    by (simp add: Enqueue_def producer_config_lookup sample_topic_pub ConsumerGroupIDs2Mask_def sample_item_def[symmetric]
        sample_select_def SelectAndAdd_def empty_request_def add_loop.simps RawAdd_def qi Let_def)
qed

theorem Enqueue_acknowledged_witness:
  "\<exists>groups pub item. IsValidPubID sample_topic pub
     \<and> item = make_item (\<lambda>h bs. h + of_nat (length bs)) (\<lambda>b. (b, 0)) 1000 5 1 ''hello'' pub groups [] 1500000000000
     \<and> ((\<exists>e. route sample_topic item = Inl e) \<or> (\<exists>req :: AddRequest. add_items req = [item] \<and> add_topic_id req = 1000))"
  using Enqueue_acknowledged[OF sample_enqueue[unfolded sample_select_def] producer_config_lookup] by blast

end
