(* ===== verification/BatchHelper.thy ===== *)
theory BatchHelper
  imports Producer "HOL-Library.Multiset"
begin

section \<open>Batching of concurrent adds (producer/batchhelper.cpp, comm/notifierpool.cpp)\<close>

text \<open>
  Threads that add to the same queue of the same store put their requests into one \<open>BatchTask\<close>. The
  thread that fills the batch sends it; a daemon thread sends the batches that waited long enough, in
  one of its coroutines. A call that does not send waits on a pipe for the return code of the batch.

  The state holds the maps of the daemon threads, the batches on their way, and what the calls wait
  for; \<open>bh_log\<close> is a history that the code does not keep. A step is what runs under one lock. The
  notification of the tasks of a batch is one step with the call of \<open>RawAdd\<close>: it only writes to pipes,
  which hold the code until the waiting call reads it. \<open>Raw\<close> stands for \<open>Producer::RawAdd\<close>, with the
  stores it talks to as its state.
\<close>

subsection \<open>Tasks and batches\<close>

record Task =
  tk_call :: nat
  tk_req :: AddRequest

record BatchTask =
  bt_tasks :: "Task list"
  bt_nbyte :: u32
  bt_nitems :: u32
  bt_start_timestamp_ms :: u64
  bt_items_byte_size_limit :: u32
  bt_batch_limit :: u32
  bt_producer_batch_delay_time_ms :: u32

definition BatchTask_new :: BatchTask where
  "BatchTask_new = \<lparr>bt_tasks = [], bt_nbyte = 0, bt_nitems = 0, bt_start_timestamp_ms = 0,
     bt_items_byte_size_limit = 0, bt_batch_limit = 0, bt_producer_batch_delay_time_ms = 0\<rparr>"

definition BatchTask_Init :: "GlobalConfig \<Rightarrow> int \<Rightarrow> BatchTask \<Rightarrow> BatchTask" where
  "BatchTask_Init g topic_id bt =
     (case GetTopicConfigByTopicID g topic_id of
        Inl _ \<Rightarrow> bt
      | Inr tc \<Rightarrow> let t = tp_topic (tc_proto tc)
                in bt\<lparr>bt_items_byte_size_limit := word_of_int (items_byte_size_limit t),
                     bt_batch_limit := word_of_int (batch_limit t),
                     bt_producer_batch_delay_time_ms := word_of_int (producer_batch_delay_time_ms t)\<rparr>)"

definition AddTask :: "(AddRequest \<Rightarrow> int) \<Rightarrow> u64 \<Rightarrow> Task \<Rightarrow> BatchTask \<Rightarrow> BatchTask" where
  "AddTask ReqByteSize now task bt =
     bt\<lparr>bt_start_timestamp_ms := (if bt_start_timestamp_ms bt = 0 then now else bt_start_timestamp_ms bt),
        bt_nbyte := bt_nbyte bt + word_of_int (ReqByteSize (tk_req task)),
        bt_nitems := bt_nitems bt + word_of_nat (length (add_items (tk_req task))),
        bt_tasks := bt_tasks bt @ [task]\<rparr>"

text \<open>Whether a batch is to be sent, and when it will be if no call joins it (0 for never).\<close>

definition Ready :: "u64 \<Rightarrow> BatchTask \<Rightarrow> bool \<times> u64" where
  "Ready now bt =
     (if bt_nitems bt = 0 \<or> bt_start_timestamp_ms bt = 0 then (False, 0)
      else if bt_items_byte_size_limit bt \<le> bt_nbyte bt * 2 \<or> bt_batch_limit bt \<le> bt_nitems bt * 2
              \<or> bt_start_timestamp_ms bt + ucast (bt_producer_batch_delay_time_ms bt) \<le> now
      then (True, 0)
      else (False, bt_start_timestamp_ms bt + ucast (bt_producer_batch_delay_time_ms bt)))"

text \<open>The request of a batch: the loop over the tasks in \<open>BatchTask::Process\<close>.\<close>

definition batch_request :: "Task list \<Rightarrow> AddRequest" where
  "batch_request tasks =
     foldl (\<lambda>batch_req task. if add_items batch_req = [] then tk_req task
                            else batch_req\<lparr>add_items := add_items batch_req @ add_items (tk_req task)\<rparr>)
       (empty_request 0) tasks"

subsection \<open>The helper\<close>

type_synonym batch_key = "int \<times> int \<times> int"

text \<open>
  Where a call is: it has found the entry of its key; it sends the batch it filled; it waits; it has
  returned a code.
\<close>

datatype CallPhase = Located | Processing | Waiting | Returned RetCode

record 'w BatchHelper =
  bh_infos :: "(batch_key \<times> BatchTask option) list list"
  bh_idle :: "nat list list"
  bh_next :: "u64 list"
  bh_ready :: "(nat \<times> nat \<times> BatchTask) list"
  bh_process :: "(nat \<times> BatchTask) list"
  bh_calls :: "nat \<Rightarrow> (AddRequest \<times> CallPhase) option"
  bh_pipe :: "nat \<Rightarrow> RetCode list option"
  bh_world :: 'w
  bh_log :: "(AddRequest \<times> RetCode \<times> Task list) list"

text \<open>
  \<open>Init\<close> and the start of the daemon threads: every coroutine finds no batch, pushes itself on the
  stack of its thread and yields.
\<close>

definition BatchHelper_Init :: "nat \<Rightarrow> nat \<Rightarrow> 'w \<Rightarrow> 'w BatchHelper" where
  "BatchHelper_Init ndaemon_thread nprocess_routine w =
     \<lparr>bh_infos = replicate ndaemon_thread [], bh_idle = replicate ndaemon_thread (rev [0..<nprocess_routine]),
      bh_next = replicate ndaemon_thread 0, bh_ready = [], bh_process = [], bh_calls = Map.empty, bh_pipe = Map.empty,
      bh_world = w, bh_log = []\<rparr>"

definition batch_key_of :: "AddRequest \<Rightarrow> batch_key" where
  "batch_key_of req = (add_topic_id req, add_store_id req, add_queue_id req)"

text \<open>The thread of a queue: C's remainder, which is negative for a negative id.\<close>

definition vtid_of :: "nat \<Rightarrow> AddRequest \<Rightarrow> int" where
  "vtid_of n req = (let q = add_queue_id req in sgn q * (\<bar>q\<bar> mod int n))"

definition BatchRawAdd_locate :: "nat \<Rightarrow> AddRequest \<Rightarrow> 'w BatchHelper \<Rightarrow> 'w BatchHelper option" where
  "BatchRawAdd_locate c req s = do {
     let vtid = vtid_of (length (bh_infos s)) req;
     batch_infos \<leftarrow> Prelude.at (bh_infos s) vtid;
     Some (s\<lparr>bh_infos := put_at (bh_infos s) vtid (set_insert fst (batch_key_of req, None) batch_infos),
             bh_calls := (bh_calls s)(c \<mapsto> (req, Located))\<rparr>) }"

text \<open>The section of \<open>BatchRawAdd\<close> under the mutex of the entry.\<close>

definition BatchRawAdd_join ::
  "(AddRequest \<Rightarrow> int) \<Rightarrow> GlobalConfig \<Rightarrow> u64 \<Rightarrow> u64 \<Rightarrow> nat \<Rightarrow> AddRequest \<Rightarrow> 'w BatchHelper \<Rightarrow> 'w BatchHelper option" where
  "BatchRawAdd_join ReqByteSize g t1 t2 c req s = do {
     let vtid = vtid_of (length (bh_infos s)) req;
     batch_infos \<leftarrow> Prelude.at (bh_infos s) vtid;
     batch_task \<leftarrow> map_of batch_infos (batch_key_of req);
     let batch_task = (case batch_task of None \<Rightarrow> BatchTask_Init g (add_topic_id req) BatchTask_new | Some bt \<Rightarrow> bt);
     let batch_task = AddTask ReqByteSize t1 \<lparr>tk_call = c, tk_req = req\<rparr> batch_task;
     Some (if fst (Ready t2 batch_task)
           then s\<lparr>bh_infos := put_at (bh_infos s) vtid (map_assign (batch_key_of req) None batch_infos),
                  bh_process := bh_process s @ [(c, batch_task)],
                  bh_calls := (bh_calls s)(c \<mapsto> (req, Processing))\<rparr>
           else s\<lparr>bh_infos := put_at (bh_infos s) vtid (map_assign (batch_key_of req) (Some batch_task) batch_infos),
                  bh_pipe := (bh_pipe s)(c \<mapsto> []),
                  bh_calls := (bh_calls s)(c \<mapsto> (req, Waiting))\<rparr>) }"

text \<open>\<open>Task::Notify\<close>: a task without a notifier is skipped.\<close>

definition Notify :: "RetCode \<Rightarrow> Task \<Rightarrow> (nat \<Rightarrow> RetCode list option) \<Rightarrow> nat \<Rightarrow> RetCode list option" where
  "Notify retcode task pipe = (case pipe (tk_call task) of None \<Rightarrow> pipe | Some codes \<Rightarrow> pipe(tk_call task \<mapsto> codes @ [retcode]))"

definition BatchTask_Process ::
  "(AddRequest \<Rightarrow> 'w \<Rightarrow> RetCode \<times> 'w) \<Rightarrow> BatchTask \<Rightarrow> 'w BatchHelper \<Rightarrow> RetCode \<times> 'w BatchHelper" where
  "BatchTask_Process Raw bt s =
     (let batch_req = batch_request (bt_tasks bt);
          (retcode, w) = Raw batch_req (bh_world s)
      in (retcode, s\<lparr>bh_world := w, bh_pipe := fold (Notify retcode) (bt_tasks bt) (bh_pipe s),
                     bh_log := bh_log s @ [(batch_req, retcode, bt_tasks bt)]\<rparr>))"

text \<open>The call that filled a batch sends it; the list position stands for its local variable.\<close>

definition BatchRawAdd_process :: "(AddRequest \<Rightarrow> 'w \<Rightarrow> RetCode \<times> 'w) \<Rightarrow> nat \<Rightarrow> BatchTask \<Rightarrow> 'w BatchHelper \<Rightarrow> 'w BatchHelper" where
  "BatchRawAdd_process Raw c bt s =
     (let (retcode, s) = BatchTask_Process Raw bt s
      in s\<lparr>bh_process := remove1 (c, bt) (bh_process s),
           bh_calls := (bh_calls s)(c := map_option (\<lambda>(req, _). (req, Returned retcode)) (bh_calls s c))\<rparr>)"

text \<open>\<open>Task::Wait\<close>, which gives the notifier back to the pool: it blocks on an empty pipe.\<close>

definition BatchRawAdd_wait :: "nat \<Rightarrow> 'w BatchHelper \<Rightarrow> 'w BatchHelper option" where
  "BatchRawAdd_wait c s =
     (case bh_pipe s c of
        Some (retcode # codes) \<Rightarrow>
          Some (s\<lparr>bh_pipe := (bh_pipe s)(c := None),
                  bh_calls := (bh_calls s)(c := map_option (\<lambda>(req, _). (req, Returned retcode)) (bh_calls s c))\<rparr>)
      | _ \<Rightarrow> None)"

subsection \<open>The daemon threads\<close>

text \<open>One entry of the loop of \<open>DispatchBatchTask\<close>, under its mutex.\<close>

definition dispatch_entry :: "u64 \<Rightarrow> nat \<Rightarrow> nat \<Rightarrow> 'w BatchHelper \<Rightarrow> 'w BatchHelper" where
  "dispatch_entry now vtid i s =
     (case bh_infos s ! vtid ! i of
        (k, None) \<Rightarrow> s
      | (k, Some bt) \<Rightarrow>
          (let (ready, ready_timestamp_ms) = Ready now bt in
           if ready
           then (case bh_idle s ! vtid of
                   [] \<Rightarrow> s
                 | pid # idle \<Rightarrow> s\<lparr>bh_idle := (bh_idle s)[vtid := idle], bh_ready := bh_ready s @ [(vtid, pid, bt)],
                                   bh_infos := (bh_infos s)[vtid := (bh_infos s ! vtid)[i := (k, None)]]\<rparr>)
           else if 0 < ready_timestamp_ms \<and> (bh_next s ! vtid = 0 \<or> ready_timestamp_ms < bh_next s ! vtid)
           then s\<lparr>bh_next := (bh_next s)[vtid := ready_timestamp_ms]\<rparr>
           else s))"

definition DispatchBatchTask :: "u64 \<Rightarrow> (nat \<Rightarrow> u64) \<Rightarrow> nat \<Rightarrow> 'w BatchHelper \<Rightarrow> 'w BatchHelper" where
  "DispatchBatchTask now clock vtid s =
     (if bh_next s ! vtid \<noteq> 0 \<and> now < bh_next s ! vtid then s
      else fold (\<lambda>i. dispatch_entry (clock i) vtid i) [0..<length (bh_infos s ! vtid)] (s\<lparr>bh_next := (bh_next s)[vtid := 0]\<rparr>))"

text \<open>A coroutine sends the batch it was given and pushes itself on the stack again.\<close>

definition Process :: "(AddRequest \<Rightarrow> 'w \<Rightarrow> RetCode \<times> 'w) \<Rightarrow> nat \<times> nat \<times> BatchTask \<Rightarrow> 'w BatchHelper \<Rightarrow> 'w BatchHelper" where
  "Process Raw ctx s =
     (let (vtid, pid, bt) = ctx; (retcode, s) = BatchTask_Process Raw bt s
      in s\<lparr>bh_ready := remove1 ctx (bh_ready s), bh_idle := (bh_idle s)[vtid := pid # bh_idle s ! vtid]\<rparr>)"

text \<open>All interleavings of the calls and the daemon threads.\<close>

inductive batch_reach :: "(AddRequest \<Rightarrow> int) \<Rightarrow> GlobalConfig \<Rightarrow> (AddRequest \<Rightarrow> 'w \<Rightarrow> RetCode \<times> 'w) \<Rightarrow> 'w BatchHelper \<Rightarrow> 'w BatchHelper \<Rightarrow> bool"
  for sz g Raw s0 where
  start: "batch_reach sz g Raw s0 s0"
| locate: "batch_reach sz g Raw s0 s \<Longrightarrow> bh_calls s c = None \<Longrightarrow> BatchRawAdd_locate c req s = Some s'
    \<Longrightarrow> batch_reach sz g Raw s0 s'"
| join: "batch_reach sz g Raw s0 s \<Longrightarrow> bh_calls s c = Some (req, Located) \<Longrightarrow> BatchRawAdd_join sz g t1 t2 c req s = Some s'
    \<Longrightarrow> batch_reach sz g Raw s0 s'"
| process: "batch_reach sz g Raw s0 s \<Longrightarrow> (c, bt) \<in> set (bh_process s) \<Longrightarrow> batch_reach sz g Raw s0 (BatchRawAdd_process Raw c bt s)"
| wait: "batch_reach sz g Raw s0 s \<Longrightarrow> BatchRawAdd_wait c s = Some s' \<Longrightarrow> batch_reach sz g Raw s0 s'"
| rewind: "batch_reach sz g Raw s0 s \<Longrightarrow> batch_reach sz g Raw s0 (s\<lparr>bh_next := (bh_next s)[vtid := 0]\<rparr>)"
| dispatch: "batch_reach sz g Raw s0 s \<Longrightarrow> vtid < length (bh_infos s) \<Longrightarrow> i < length (bh_infos s ! vtid)
    \<Longrightarrow> batch_reach sz g Raw s0 (dispatch_entry now vtid i s)"
| routine: "batch_reach sz g Raw s0 s \<Longrightarrow> ctx \<in> set (bh_ready s) \<Longrightarrow> batch_reach sz g Raw s0 (Process Raw ctx s)"

inductive_cases batch_reach_cases: "batch_reach sz g Raw s0 s"

subsection \<open>Where the tasks are\<close>

definition opt_tasks :: "BatchTask option \<Rightarrow> Task list" where
  "opt_tasks b = (case b of None \<Rightarrow> [] | Some bt \<Rightarrow> bt_tasks bt)"

definition info_tasks :: "(batch_key \<times> BatchTask option) list \<Rightarrow> Task list" where
  "info_tasks m = concat (map (\<lambda>e. opt_tasks (snd e)) m)"

definition log_tasks :: "(AddRequest \<times> RetCode \<times> Task list) list \<Rightarrow> Task list" where
  "log_tasks l = concat (map (\<lambda>e. snd (snd e)) l)"

definition held_tasks :: "'w BatchHelper \<Rightarrow> Task list" where
  "held_tasks s = concat (map info_tasks (bh_infos s)) @ concat (map (\<lambda>x. bt_tasks (snd (snd x))) (bh_ready s))
     @ concat (map (\<lambda>x. bt_tasks (snd x)) (bh_process s))"

definition all_tasks :: "'w BatchHelper \<Rightarrow> Task multiset" where
  "all_tasks s = mset (held_tasks s) + mset (log_tasks (bh_log s))"

lemma opt_tasks_simps [simp]: "opt_tasks None = []" "opt_tasks (Some bt) = bt_tasks bt"
  by (simp_all add: opt_tasks_def)

lemma mset_concat_update:
  "i < length xs \<Longrightarrow> mset (concat (map f (xs[i := y]))) + mset (f (xs ! i)) = mset (concat (map f xs)) + mset (f y)"
proof (induction xs arbitrary: i)
  case (Cons x xs)
  then show ?case by (cases i) auto
qed simp

lemma mset_concat_remove1:
  "x \<in> set xs \<Longrightarrow> mset (concat (map f (remove1 x xs))) + mset (f x) = mset (concat (map f xs))"
  by (induction xs) auto

lemma info_tasks_assign:
  "wf_map m \<Longrightarrow> map_of m k = Some old
   \<Longrightarrow> mset (info_tasks (map_assign k new m)) + mset (opt_tasks old) = mset (info_tasks m) + mset (opt_tasks new)"
proof (induction k new m rule: map_assign.induct)
  case (2 k v a b m)
  consider "k < a" | "k = a" | "a < k" by (rule linorder_cases)
  then show ?case
  proof cases
    case 1
    then have "\<forall>p \<in> set ((a, b) # m). k < fst p" using 2(2) by fastforce
    then show ?thesis using 2(3) map_of_None_less by fastforce
  next
    case 2
    with \<open>map_of ((a, b) # m) k = Some old\<close> show ?thesis by (auto simp: info_tasks_def)
  next
    case 3
    with 2 show ?thesis by (auto simp: info_tasks_def)
  qed
qed simp

lemma info_tasks_insert: "info_tasks (set_insert fst (k, None) m) = info_tasks m"
  by (induction m) (auto simp: info_tasks_def)

lemma set_set_insert: "e \<in> set (set_insert key x m) \<Longrightarrow> e = x \<or> e \<in> set m"
  by (induction m) (auto split: if_splits)

lemma wf_set_insert: "wf_map m \<Longrightarrow> wf_map (set_insert fst x m)"
proof (induction m)
  case (Cons y m)
  then show ?case by (force dest!: set_set_insert)
qed simp

lemma fold_Notify:
  "distinct (map tk_call ts) \<Longrightarrow>
   fold (Notify r) ts pipe c = (if c \<in> tk_call ` set ts then map_option (\<lambda>codes. codes @ [r]) (pipe c) else pipe c)"
  by (induction ts arbitrary: pipe) (auto simp: Notify_def split: option.splits)

subsection \<open>The request of a batch\<close>

lemma batch_request_fold:
  assumes "\<forall>t \<in> set ts. batch_key_of (tk_req t) = k"
    and "add_items r \<noteq> [] \<Longrightarrow> batch_key_of r = k"
    and "ts = [] \<Longrightarrow> batch_key_of r = k"
  defines "f \<equiv> \<lambda>batch_req task. if add_items batch_req = [] then tk_req task
                            else batch_req\<lparr>add_items := add_items batch_req @ add_items (tk_req task)\<rparr>"
  shows "batch_key_of (foldl f r ts) = k \<and> add_items (foldl f r ts) = add_items r @ concat (map (\<lambda>t. add_items (tk_req t)) ts)"
  using assms(1-3)
proof (induction ts arbitrary: r)
  case (Cons t ts)
  have "batch_key_of (f r t) = k" "add_items (f r t) = add_items r @ add_items (tk_req t)"
    using Cons.prems by (auto simp: f_def batch_key_of_def)
  then show ?case using Cons.IH[of "f r t"] Cons.prems by simp
qed simp

lemma batch_request_items:
  assumes "\<forall>t \<in> set ts. batch_key_of (tk_req t) = k" and "ts \<noteq> []"
  shows "batch_key_of (batch_request ts) = k" and "add_items (batch_request ts) = concat (map (\<lambda>t. add_items (tk_req t)) ts)"
  using batch_request_fold[OF assms(1), of "empty_request 0"] assms(2)
  by (auto simp: batch_request_def empty_request_def)

subsection \<open>The invariant\<close>

type_synonym calls = "nat \<Rightarrow> (AddRequest \<times> CallPhase) option"
type_synonym pipes = "nat \<Rightarrow> RetCode list option"

definition waiting :: "calls \<Rightarrow> pipes \<Rightarrow> Task \<Rightarrow> bool" where
  "waiting C P t \<longleftrightarrow> C (tk_call t) = Some (tk_req t, Waiting) \<and> P (tk_call t) = Some []"

definition sending :: "calls \<Rightarrow> pipes \<Rightarrow> Task \<Rightarrow> bool" where
  "sending C P t \<longleftrightarrow> C (tk_call t) = Some (tk_req t, Processing) \<and> P (tk_call t) = None"

definition sent_by :: "calls \<Rightarrow> pipes \<Rightarrow> nat \<Rightarrow> Task \<Rightarrow> bool" where
  "sent_by C P c t \<longleftrightarrow> (if tk_call t = c then sending C P t else waiting C P t)"

definition answered :: "calls \<Rightarrow> pipes \<Rightarrow> RetCode \<Rightarrow> Task \<Rightarrow> bool" where
  "answered C P ret t \<longleftrightarrow> C (tk_call t) = Some (tk_req t, Waiting) \<and> P (tk_call t) = Some [ret]
     \<or> C (tk_call t) = Some (tk_req t, Returned ret) \<and> P (tk_call t) = None"

definition batch_of :: "(Task \<Rightarrow> bool) \<Rightarrow> batch_key \<Rightarrow> Task list \<Rightarrow> bool" where
  "batch_of Q k ts \<longleftrightarrow> (\<forall>t \<in> set ts. batch_key_of (tk_req t) = k \<and> Q t)"

definition one_batch :: "(Task \<Rightarrow> bool) \<Rightarrow> Task list \<Rightarrow> bool" where
  "one_batch Q ts \<longleftrightarrow> (\<exists>k. batch_of Q k ts)"

definition infos_ok :: "calls \<Rightarrow> pipes \<Rightarrow> (batch_key \<times> BatchTask option) list list \<Rightarrow> bool" where
  "infos_ok C P infos \<longleftrightarrow> (\<forall>m \<in> set infos. wf_map m \<and> (\<forall>e \<in> set m. batch_of (waiting C P) (fst e) (opt_tasks (snd e))))"

definition ready_ok :: "calls \<Rightarrow> pipes \<Rightarrow> (nat \<times> nat \<times> BatchTask) list \<Rightarrow> bool" where
  "ready_ok C P ready \<longleftrightarrow> (\<forall>x \<in> set ready. one_batch (waiting C P) (bt_tasks (snd (snd x))))"

definition process_ok :: "calls \<Rightarrow> pipes \<Rightarrow> (nat \<times> BatchTask) list \<Rightarrow> bool" where
  "process_ok C P process \<longleftrightarrow> (\<forall>x \<in> set process. fst x \<in> tk_call ` set (bt_tasks (snd x)) \<and>
     one_batch (sent_by C P (fst x)) (bt_tasks (snd x)))"

definition log_ok :: "calls \<Rightarrow> pipes \<Rightarrow> (AddRequest \<times> RetCode \<times> Task list) list \<Rightarrow> bool" where
  "log_ok C P l \<longleftrightarrow> (\<forall>x \<in> set l. fst x = batch_request (snd (snd x)) \<and> one_batch (answered C P (fst (snd x))) (snd (snd x)))"

definition calls_ok :: "calls \<Rightarrow> pipes \<Rightarrow> Task multiset \<Rightarrow> bool" where
  "calls_ok C P T \<longleftrightarrow> (\<forall>c. count (image_mset tk_call T) c \<le> 1)
     \<and> (\<forall>t \<in># T. \<exists>ph. C (tk_call t) = Some (tk_req t, ph) \<and> ph \<noteq> Located)
     \<and> (\<forall>c req ph. C c = Some (req, ph) \<longrightarrow> ph \<noteq> Located \<longrightarrow> \<lparr>tk_call = c, tk_req = req\<rparr> \<in># T)
     \<and> (\<forall>c. P c \<noteq> None \<longrightarrow> (\<exists>req. C c = Some (req, Waiting)))"

definition places_ok :: "calls \<Rightarrow> pipes \<Rightarrow> 'w BatchHelper \<Rightarrow> bool" where
  "places_ok C P s \<longleftrightarrow> infos_ok C P (bh_infos s) \<and> ready_ok C P (bh_ready s) \<and> process_ok C P (bh_process s) \<and> log_ok C P (bh_log s)"

definition batch_inv :: "'w BatchHelper \<Rightarrow> bool" where
  "batch_inv s \<longleftrightarrow> places_ok (bh_calls s) (bh_pipe s) s \<and> calls_ok (bh_calls s) (bh_pipe s) (all_tasks s)"

lemma batch_of_mono: "batch_of Q k ts \<Longrightarrow> (\<And>t. t \<in> set ts \<Longrightarrow> Q t \<Longrightarrow> Q' t) \<Longrightarrow> batch_of Q' k ts"
  by (auto simp: batch_of_def)

lemma one_batch_mono: "one_batch Q ts \<Longrightarrow> (\<And>t. t \<in> set ts \<Longrightarrow> Q t \<Longrightarrow> Q' t) \<Longrightarrow> one_batch Q' ts"
  unfolding one_batch_def by (blast intro: batch_of_mono)

lemma one_batchD: "one_batch Q ts \<Longrightarrow> t \<in> set ts \<Longrightarrow> Q t"
  by (auto simp: one_batch_def batch_of_def)

text \<open>A change of calls that leaves the tasks of a place alone keeps the place in order.\<close>

definition agree :: "calls \<Rightarrow> pipes \<Rightarrow> calls \<Rightarrow> pipes \<Rightarrow> Task list \<Rightarrow> bool" where
  "agree C P C' P' ts \<longleftrightarrow> (\<forall>t \<in> set ts. C' (tk_call t) = C (tk_call t) \<and> P' (tk_call t) = P (tk_call t))"

lemma agree_append [simp]: "agree C P C' P' (xs @ ys) \<longleftrightarrow> agree C P C' P' xs \<and> agree C P C' P' ys"
  by (auto simp: agree_def)

lemma infos_ok_agree: "infos_ok C P infos \<Longrightarrow> agree C P C' P' (concat (map info_tasks infos)) \<Longrightarrow> infos_ok C' P' infos"
  unfolding infos_ok_def agree_def
  by (intro ballI conjI) (blast, erule ballE, erule conjE, erule ballE, erule batch_of_mono, auto simp: waiting_def info_tasks_def)

lemma ready_ok_agree:
  "ready_ok C P ready \<Longrightarrow> agree C P C' P' (concat (map (\<lambda>x. bt_tasks (snd (snd x))) ready)) \<Longrightarrow> ready_ok C' P' ready"
  by (fastforce simp: ready_ok_def agree_def waiting_def elim!: one_batch_mono)

lemma process_ok_agree:
  "process_ok C P process \<Longrightarrow> agree C P C' P' (concat (map (\<lambda>x. bt_tasks (snd x)) process)) \<Longrightarrow> process_ok C' P' process"
  by (fastforce simp: process_ok_def agree_def sent_by_def waiting_def sending_def elim!: one_batch_mono)

lemma log_ok_agree: "log_ok C P l \<Longrightarrow> agree C P C' P' (log_tasks l) \<Longrightarrow> log_ok C' P' l"
  by (fastforce simp: log_ok_def agree_def answered_def log_tasks_def elim!: one_batch_mono)

lemma calls_disjoint:
  "\<forall>c. count (image_mset tk_call (A + B)) c \<le> 1 \<Longrightarrow> a \<in># A \<Longrightarrow> b \<in># B \<Longrightarrow> tk_call a \<noteq> tk_call b"
proof
  assume u: "\<forall>c. count (image_mset tk_call (A + B)) c \<le> 1" and "a \<in># A" "b \<in># B" and eq: "tk_call a = tk_call b"
  have "tk_call a \<in># image_mset tk_call A" using \<open>a \<in># A\<close> by simp
  moreover have "tk_call a \<in># image_mset tk_call B" using \<open>b \<in># B\<close> eq by simp
  moreover have "count (image_mset tk_call A) (tk_call a) + count (image_mset tk_call B) (tk_call a) \<le> 1"
    using u by (metis count_union image_mset_union)
  ultimately show False unfolding count_greater_zero_iff[symmetric] by linarith
qed

lemma calls_distinct: "\<forall>c. count (image_mset tk_call (mset ts + B)) c \<le> 1 \<Longrightarrow> distinct (map tk_call ts)"
proof -
  assume u: "\<forall>c. count (image_mset tk_call (mset ts + B)) c \<le> 1"
  have "count (mset (map tk_call ts)) c \<le> 1" for c
    using spec[OF u, of c] by simp
  then show ?thesis
    by (auto simp: distinct_count_atmost_1 count_eq_zero_iff le_Suc_eq)
qed

text \<open>A call that has joined no batch yet is in no place.\<close>

lemma not_joined:
  assumes "calls_ok C P T" and "C c = None \<or> (\<exists>req. C c = Some (req, Located))" and "t \<in># T"
  shows "tk_call t \<noteq> c"
  using assms unfolding calls_ok_def by force

lemma not_joined_pipe: "calls_ok C P T \<Longrightarrow> C c = None \<or> (\<exists>req. C c = Some (req, Located)) \<Longrightarrow> P c = None"
  unfolding calls_ok_def by force

lemma places_ok_agree:
  assumes "places_ok C P s" and "\<And>t. t \<in># all_tasks s \<Longrightarrow> C' (tk_call t) = C (tk_call t) \<and> P' (tk_call t) = P (tk_call t)"
  shows "places_ok C' P' s"
proof -
  have "agree C P C' P' (held_tasks s @ log_tasks (bh_log s))"
    using assms(2) by (auto simp: agree_def all_tasks_def)
  then show ?thesis
    using assms(1) unfolding places_ok_def held_tasks_def
    by (auto intro: infos_ok_agree ready_ok_agree process_ok_agree log_ok_agree)
qed

lemma places_ok_mono:
  assumes "places_ok C P s" and "\<And>t. waiting C P t \<Longrightarrow> waiting C' P' t" "\<And>t. sending C P t \<Longrightarrow> sending C' P' t"
    "\<And>t ret. answered C P ret t \<Longrightarrow> answered C' P' ret t"
  shows "places_ok C' P' s"
proof -
  have "sent_by C P c t \<Longrightarrow> sent_by C' P' c t" for c t using assms(2,3) by (auto simp: sent_by_def)
  then have "process_ok C' P' (bh_process s)"
    using assms(1) unfolding places_ok_def process_ok_def by (metis (no_types, lifting) one_batch_mono)
  moreover have "infos_ok C' P' (bh_infos s)"
    using assms(1,2) unfolding places_ok_def infos_ok_def by (metis (no_types, lifting) batch_of_mono)
  moreover have "ready_ok C' P' (bh_ready s)"
    using assms(1,2) unfolding places_ok_def ready_ok_def by (metis (no_types, lifting) one_batch_mono)
  moreover have "log_ok C' P' (bh_log s)"
    using assms(1,4) unfolding places_ok_def log_ok_def by (metis (no_types, lifting) one_batch_mono)
  ultimately show ?thesis by (simp add: places_ok_def)
qed

lemma infos_ok_put:
  assumes "infos_ok C P infos" and "Prelude.at infos v = Some m"
    and "wf_map m'" and "\<And>e. e \<in> set m' \<Longrightarrow> e \<notin> set m \<Longrightarrow> batch_of (waiting C P) (fst e) (opt_tasks (snd e))"
  shows "infos_ok C P (put_at infos v m')"
proof -
  have "m \<in> set infos" using assms(2) by (rule at_set)
  then have "wf_map m' \<and> (\<forall>e \<in> set m'. batch_of (waiting C P) (fst e) (opt_tasks (snd e)))"
    using assms(1,3,4) unfolding infos_ok_def by blast
  then show ?thesis
    using assms(1) unfolding infos_ok_def put_at_def
    by (blast dest!: set_update_subset_insert[THEN subsetD])
qed

lemma mset_infos_put:
  "Prelude.at infos v = Some m \<Longrightarrow>
   mset (concat (map info_tasks (put_at infos v m'))) + mset (info_tasks m) = mset (concat (map info_tasks infos)) + mset (info_tasks m')"
  using mset_concat_update[of "nat v" infos info_tasks m'] by (auto dest!: at_SomeD simp: put_at_def)

lemma mset_put_assign:
  assumes m: "Prelude.at infos v = Some m" and "wf_map m" and "map_of m k = Some old"
  shows "mset (concat (map info_tasks (put_at infos v (map_assign k new m)))) + mset (opt_tasks old)
    = mset (concat (map info_tasks infos)) + mset (opt_tasks new)" (is "?X + ?O = ?I + ?N")
proof -
  have "?X + mset (info_tasks m) + ?O = ?I + (mset (info_tasks (map_assign k new m)) + ?O)"
    using mset_infos_put[OF m, of "map_assign k new m"] by (simp add: ac_simps)
  also have "\<dots> = ?I + ?N + mset (info_tasks m)"
    using info_tasks_assign[OF assms(2,3), of new] by (simp add: ac_simps)
  finally show ?thesis by (simp add: ac_simps)
qed

lemma locate_inv:
  assumes "batch_inv s" and "bh_calls s c = None" and "BatchRawAdd_locate c req s = Some s'"
  shows "batch_inv s'"
proof -
  let ?v = "vtid_of (length (bh_infos s)) req" and ?C = "(bh_calls s)(c \<mapsto> (req, Located))"
  obtain m where m: "Prelude.at (bh_infos s) ?v = Some m"
    and s': "s' = s\<lparr>bh_infos := put_at (bh_infos s) ?v (set_insert fst (batch_key_of req, None) m), bh_calls := ?C\<rparr>"
    using assms(3) by (auto simp: BatchRawAdd_locate_def Let_def Option.bind_eq_Some_conv)
  have ok: "calls_ok (bh_calls s) (bh_pipe s) (all_tasks s)" using assms(1) by (simp add: batch_inv_def)
  have fresh: "t \<in># all_tasks s \<Longrightarrow> tk_call t \<noteq> c" for t using not_joined[OF ok] assms(2) by blast
  have parts: "places_ok ?C (bh_pipe s) s"
    by (rule places_ok_agree[of "bh_calls s" "bh_pipe s"]) (use assms(1) fresh in \<open>auto simp: batch_inv_def\<close>)
  have "mset (concat (map info_tasks (bh_infos s'))) = mset (concat (map info_tasks (bh_infos s)))"
    using mset_infos_put[OF m, of "set_insert fst (batch_key_of req, None) m"] by (simp add: s' info_tasks_insert)
  then have tasks: "all_tasks s' = all_tasks s" by (simp add: all_tasks_def held_tasks_def s')
  have wf: "wf_map m" using assms(1) at_set[OF m] by (auto simp: batch_inv_def places_ok_def infos_ok_def)
  have "infos_ok ?C (bh_pipe s) (put_at (bh_infos s) ?v (set_insert fst (batch_key_of req, None) m))"
    by (rule infos_ok_put[OF _ m]) (use parts wf in \<open>auto dest!: set_set_insert simp: places_ok_def wf_set_insert batch_of_def\<close>)
  moreover have "calls_ok ?C (bh_pipe s) (all_tasks s)"
    using ok fresh not_joined_pipe[OF ok] assms(2) unfolding calls_ok_def by auto
  ultimately show ?thesis
    using parts unfolding batch_inv_def tasks by (simp add: s' places_ok_def)
qed

lemma AddTask_tasks [simp]: "bt_tasks (AddTask sz t1 task bt) = bt_tasks bt @ [task]"
  by (simp add: AddTask_def)

lemma BatchTask_Init_tasks [simp]: "bt_tasks (BatchTask_Init g topic_id BatchTask_new) = []"
  by (simp add: BatchTask_Init_def BatchTask_new_def Let_def split: sum.splits)

text \<open>What joining does, whichever way it ends.\<close>

lemma join_cases:
  assumes "BatchRawAdd_join sz g t1 t2 c req s = Some s'"
  obtains m old bt where "Prelude.at (bh_infos s) (vtid_of (length (bh_infos s)) req) = Some m"
    and "map_of m (batch_key_of req) = Some old" and "bt_tasks bt = opt_tasks old @ [\<lparr>tk_call = c, tk_req = req\<rparr>]"
    and "s' = s\<lparr>bh_infos := put_at (bh_infos s) (vtid_of (length (bh_infos s)) req) (map_assign (batch_key_of req) None m),
                bh_process := bh_process s @ [(c, bt)], bh_calls := (bh_calls s)(c \<mapsto> (req, Processing))\<rparr>
      \<or> s' = s\<lparr>bh_infos := put_at (bh_infos s) (vtid_of (length (bh_infos s)) req) (map_assign (batch_key_of req) (Some bt) m),
                bh_pipe := (bh_pipe s)(c \<mapsto> []), bh_calls := (bh_calls s)(c \<mapsto> (req, Waiting))\<rparr>"
proof -
  obtain m old where m: "Prelude.at (bh_infos s) (vtid_of (length (bh_infos s)) req) = Some m" "map_of m (batch_key_of req) = Some old"
    using assms by (auto simp: BatchRawAdd_join_def Let_def Option.bind_eq_Some_conv)
  let ?bt = "AddTask sz t1 \<lparr>tk_call = c, tk_req = req\<rparr> (case old of None \<Rightarrow> BatchTask_Init g (add_topic_id req) BatchTask_new | Some bt \<Rightarrow> bt)"
  have "bt_tasks ?bt = opt_tasks old @ [\<lparr>tk_call = c, tk_req = req\<rparr>]" by (cases old) simp_all
  then show thesis
    using assms m by (intro that[of m old ?bt]) (auto simp: BatchRawAdd_join_def Let_def)
qed

lemma calls_ok_join:
  assumes "calls_ok C P T" and "C c = Some (req, Located)" and "ph = Waiting \<and> P' = P(c \<mapsto> []) \<or> ph = Processing \<and> P' = P"
  shows "calls_ok (C(c \<mapsto> (req, ph))) P' (add_mset \<lparr>tk_call = c, tk_req = req\<rparr> T)"
proof -
  have fresh: "t \<in># T \<Longrightarrow> tk_call t \<noteq> c" for t using not_joined[OF assms(1)] assms(2) by blast
  then have "count (image_mset tk_call T) c = 0" by (auto simp: count_eq_zero_iff)
  moreover have "P c = None" using not_joined_pipe[OF assms(1)] assms(2) by blast
  ultimately show ?thesis
    using assms fresh unfolding calls_ok_def by auto
qed

lemma join_inv:
  assumes inv: "batch_inv s" and call: "bh_calls s c = Some (req, Located)" and step: "BatchRawAdd_join sz g t1 t2 c req s = Some s'"
  shows "batch_inv s'"
proof -
  let ?k = "batch_key_of req" and ?v = "vtid_of (length (bh_infos s)) req" and ?task = "\<lparr>tk_call = c, tk_req = req\<rparr>"
  obtain m old bt where m: "Prelude.at (bh_infos s) ?v = Some m" and old: "map_of m ?k = Some old"
    and bt: "bt_tasks bt = opt_tasks old @ [?task]"
    and s': "s' = s\<lparr>bh_infos := put_at (bh_infos s) ?v (map_assign ?k None m), bh_process := bh_process s @ [(c, bt)],
                   bh_calls := (bh_calls s)(c \<mapsto> (req, Processing))\<rparr>
           \<or> s' = s\<lparr>bh_infos := put_at (bh_infos s) ?v (map_assign ?k (Some bt) m), bh_pipe := (bh_pipe s)(c \<mapsto> []),
                   bh_calls := (bh_calls s)(c \<mapsto> (req, Waiting))\<rparr>"
    by (rule join_cases[OF step])
  have ok: "calls_ok (bh_calls s) (bh_pipe s) (all_tasks s)" and infos: "infos_ok (bh_calls s) (bh_pipe s) (bh_infos s)"
    using inv by (simp_all add: batch_inv_def places_ok_def)
  have fresh: "t \<in># all_tasks s \<Longrightarrow> tk_call t \<noteq> c" for t using not_joined[OF ok] call by blast
  have wf: "wf_map m" and oldw: "batch_of (waiting (bh_calls s) (bh_pipe s)) ?k (opt_tasks old)"
    using infos at_set[OF m] map_of_SomeD[OF old] unfolding infos_ok_def by fastforce+
  have "set (opt_tasks old) \<subseteq> set (concat (map info_tasks (bh_infos s)))"
    using at_set[OF m] map_of_SomeD[OF old] by (force simp: info_tasks_def)
  then have oldc: "t \<in> set (opt_tasks old) \<Longrightarrow> tk_call t \<noteq> c" for t
    using fresh[of t] unfolding all_tasks_def held_tasks_def by fastforce
  note eq = mset_put_assign[OF m wf old]
  have parts: "places_ok C P s" if "\<And>d. d \<noteq> c \<Longrightarrow> C d = bh_calls s d \<and> P d = bh_pipe s d" for C P
    by (rule places_ok_agree[of "bh_calls s" "bh_pipe s"]) (use inv fresh that in \<open>auto simp: batch_inv_def\<close>)
  have put: "infos_ok C P (put_at (bh_infos s) ?v (map_assign ?k new m))"
    if "infos_ok C P (bh_infos s)" "batch_of (waiting C P) ?k (opt_tasks new)" for C P new
    by (rule infos_ok_put[OF that(1) m]) (use that(2) in \<open>auto dest!: set_map_assign[THEN subsetD] intro: wf_map_assign[OF wf]\<close>)
  from s' show ?thesis
  proof
    assume s': "s' = s\<lparr>bh_infos := put_at (bh_infos s) ?v (map_assign ?k None m), bh_process := bh_process s @ [(c, bt)],
                   bh_calls := (bh_calls s)(c \<mapsto> (req, Processing))\<rparr>" (is "_ = s\<lparr>bh_infos := ?i, bh_process := _, bh_calls := ?C\<rparr>")
    have tasks: "all_tasks s' = add_mset ?task (all_tasks s)"
      using eq[of None, simplified, symmetric] by (simp add: all_tasks_def held_tasks_def s' bt)
    have "batch_of (sent_by ?C (bh_pipe s) c) ?k (bt_tasks bt)"
      using oldw oldc not_joined_pipe[OF ok] call by (auto simp: bt batch_of_def sent_by_def sending_def waiting_def)
    then have newb: "one_batch (sent_by ?C (bh_pipe s) c) (bt_tasks bt)"
      "c \<in> tk_call ` set (bt_tasks bt)" unfolding one_batch_def by (blast, simp add: bt)
    have "process_ok ?C (bh_pipe s) (bh_process s @ [(c, bt)])"
      using parts[of ?C "bh_pipe s"] newb
      by (auto simp: places_ok_def process_ok_def)
    then show ?thesis
      using put[of ?C "bh_pipe s" None] parts[of ?C "bh_pipe s"] calls_ok_join[OF ok call, of Processing "bh_pipe s"]
      unfolding batch_inv_def tasks by (simp add: s' batch_of_def places_ok_def)
  next
    assume s': "s' = s\<lparr>bh_infos := put_at (bh_infos s) ?v (map_assign ?k (Some bt) m), bh_pipe := (bh_pipe s)(c \<mapsto> []),
                   bh_calls := (bh_calls s)(c \<mapsto> (req, Waiting))\<rparr>" (is "_ = s\<lparr>bh_infos := ?i, bh_pipe := ?P, bh_calls := ?C\<rparr>")
    have tasks: "all_tasks s' = add_mset ?task (all_tasks s)"
      using eq[of "Some bt"] by (simp add: all_tasks_def held_tasks_def s' bt)
    have "batch_of (waiting ?C ?P) ?k (bt_tasks bt)"
      using oldw oldc by (auto simp: bt batch_of_def waiting_def)
    then show ?thesis
      using put[of ?C ?P "Some bt"] parts[of ?C ?P] calls_ok_join[OF ok call, of Waiting ?P]
      unfolding batch_inv_def tasks by (simp add: s' places_ok_def)
  qed
qed

text \<open>
  Sending a batch that a place gave up (\<open>s\<close> is the state without it): its tasks are answered, those of
  the other places are left alone.
\<close>

lemma send_inv:
  assumes places: "places_ok C P s" and unique: "\<forall>c. count (image_mset tk_call (mset ts + all_tasks s)) c \<le> 1"
    and P': "P' = fold (Notify r) ts P" and C': "\<And>c. c \<notin> tk_call ` set ts \<Longrightarrow> C' c = C c"
    and batch: "one_batch (answered C' P' r) ts"
  shows "places_ok C' P' (s\<lparr>bh_log := bh_log s @ [(batch_request ts, r, ts)]\<rparr>)"
proof -
  have "C' (tk_call t) = C (tk_call t) \<and> P' (tk_call t) = P (tk_call t)" if "t \<in># all_tasks s" for t
  proof -
    have "tk_call t \<notin> tk_call ` set ts" using calls_disjoint[OF unique _ that] by force
    then show ?thesis using C' calls_distinct[OF unique] by (simp add: P' fold_Notify)
  qed
  then have "places_ok C' P' s" by (rule places_ok_agree[OF places])
  then show ?thesis using batch unfolding places_ok_def log_ok_def by auto
qed

lemma calls_ok_send:
  assumes "calls_ok C P T" and "set ts \<subseteq> set_mset T" and "distinct (map tk_call ts)"
    and "\<And>c. C' c = C c \<or> (\<exists>req ph. C c = Some (req, ph) \<and> ph \<noteq> Located \<and> ph \<noteq> Waiting \<and> C' c = Some (req, Returned r))"
  shows "calls_ok C' (fold (Notify r) ts P) T"
proof -
  have "\<exists>ph. C' (tk_call t) = Some (tk_req t, ph) \<and> ph \<noteq> Located" if "t \<in># T" for t
    using assms(1) assms(4)[of "tk_call t"] that unfolding calls_ok_def by fastforce
  moreover have "\<lparr>tk_call = c, tk_req = req\<rparr> \<in># T" if "C' c = Some (req, ph)" "ph \<noteq> Located" for c req ph
    using assms(1) assms(4)[of c] that unfolding calls_ok_def by fastforce
  moreover have "\<exists>req. C' c = Some (req, Waiting)" if "fold (Notify r) ts P c \<noteq> None" for c
  proof -
    have "P c \<noteq> None" using that by (auto simp: fold_Notify[OF assms(3)] split: if_splits)
    then show ?thesis using assms(1) assms(4)[of c] unfolding calls_ok_def by fastforce
  qed
  ultimately show ?thesis using assms(1) unfolding calls_ok_def by blast
qed

lemma routine_inv:
  assumes inv: "batch_inv s" and ctx: "ctx \<in> set (bh_ready s)"
  shows "batch_inv (Process Raw ctx s)"
proof -
  obtain v pid bt where x: "ctx = (v, pid, bt)" by (cases ctx)
  obtain r w where raw: "Raw (batch_request (bt_tasks bt)) (bh_world s) = (r, w)" by (cases "Raw (batch_request (bt_tasks bt)) (bh_world s)")
  let ?P = "fold (Notify r) (bt_tasks bt) (bh_pipe s)" and ?r = "s\<lparr>bh_ready := remove1 ctx (bh_ready s)\<rparr>"
  have eq: "all_tasks s = mset (bt_tasks bt) + all_tasks ?r"
    using mset_concat_remove1[OF ctx, of "\<lambda>x. bt_tasks (snd (snd x))"] by (simp add: all_tasks_def held_tasks_def x ac_simps)
  have tasks: "all_tasks (Process Raw ctx s) = all_tasks s"
    unfolding eq by (simp add: Process_def BatchTask_Process_def raw x Let_def all_tasks_def held_tasks_def log_tasks_def)
  have ok: "calls_ok (bh_calls s) (bh_pipe s) (all_tasks s)" and places: "places_ok (bh_calls s) (bh_pipe s) ?r"
    using inv set_remove1_subset[of ctx "bh_ready s"] by (auto simp: batch_inv_def places_ok_def ready_ok_def)
  then have u: "\<forall>c. count (image_mset tk_call (mset (bt_tasks bt) + all_tasks ?r)) c \<le> 1" unfolding eq calls_ok_def by blast
  have k: "one_batch (waiting (bh_calls s) (bh_pipe s)) (bt_tasks bt)"
    using inv ctx by (auto simp: batch_inv_def places_ok_def ready_ok_def x)
  have "one_batch (answered (bh_calls s) ?P r) (bt_tasks bt)"
    by (rule one_batch_mono[OF k]) (simp add: answered_def waiting_def fold_Notify[OF calls_distinct[OF u]])
  then have "places_ok (bh_calls s) ?P (?r\<lparr>bh_log := bh_log s @ [(batch_request (bt_tasks bt), r, bt_tasks bt)]\<rparr>)"
    using send_inv[OF places u refl, of "bh_calls s" r] by simp
  moreover have "calls_ok (bh_calls s) ?P (all_tasks s)"
    by (rule calls_ok_send[OF ok _ calls_distinct[OF u]]) (auto simp: eq)
  ultimately show ?thesis
    unfolding batch_inv_def tasks by (simp add: Process_def BatchTask_Process_def raw x Let_def places_ok_def)
qed

lemma process_inv:
  assumes inv: "batch_inv s" and x: "(c, bt) \<in> set (bh_process s)"
  shows "batch_inv (BatchRawAdd_process Raw c bt s)"
proof -
  obtain r w where raw: "Raw (batch_request (bt_tasks bt)) (bh_world s) = (r, w)" by (cases "Raw (batch_request (bt_tasks bt)) (bh_world s)")
  let ?P = "fold (Notify r) (bt_tasks bt) (bh_pipe s)" and ?r = "s\<lparr>bh_process := remove1 (c, bt) (bh_process s)\<rparr>"
    and ?C = "(bh_calls s)(c := map_option (\<lambda>(req, _). (req, Returned r)) (bh_calls s c))"
  have eq: "all_tasks s = mset (bt_tasks bt) + all_tasks ?r"
    using mset_concat_remove1[OF x, of "\<lambda>x. bt_tasks (snd x)"] by (simp add: all_tasks_def held_tasks_def ac_simps)
  have tasks: "all_tasks (BatchRawAdd_process Raw c bt s) = all_tasks s"
    unfolding eq by (simp add: BatchRawAdd_process_def BatchTask_Process_def raw Let_def all_tasks_def held_tasks_def log_tasks_def)
  have ok: "calls_ok (bh_calls s) (bh_pipe s) (all_tasks s)" and places: "places_ok (bh_calls s) (bh_pipe s) ?r"
    using inv set_remove1_subset[of "(c, bt)" "bh_process s"] by (auto simp: batch_inv_def places_ok_def process_ok_def)
  then have u: "\<forall>c. count (image_mset tk_call (mset (bt_tasks bt) + all_tasks ?r)) c \<le> 1" unfolding eq calls_ok_def by blast
  have c: "c \<in> tk_call ` set (bt_tasks bt)"
    and k: "one_batch (sent_by (bh_calls s) (bh_pipe s) c) (bt_tasks bt)"
    using inv x by (auto simp: batch_inv_def places_ok_def process_ok_def)
  have "one_batch (answered ?C ?P r) (bt_tasks bt)"
    by (rule one_batch_mono[OF k])
      (auto simp: answered_def sent_by_def waiting_def sending_def fold_Notify[OF calls_distinct[OF u]] split: if_splits)
  then have "places_ok ?C ?P (?r\<lparr>bh_log := bh_log s @ [(batch_request (bt_tasks bt), r, bt_tasks bt)]\<rparr>)"
    by (intro send_inv[OF places u refl, of ?C r, simplified]) (use c in auto)
  moreover have "calls_ok ?C ?P (all_tasks s)"
  proof (rule calls_ok_send[OF ok _ calls_distinct[OF u]])
    show "set (bt_tasks bt) \<subseteq> set_mset (all_tasks s)" by (auto simp: eq)
    have "\<exists>req. bh_calls s c = Some (req, Processing)" using c one_batchD[OF k] by (fastforce simp: sent_by_def sending_def)
    then show "?C d = bh_calls s d \<or> (\<exists>req ph. bh_calls s d = Some (req, ph) \<and> ph \<noteq> Located \<and> ph \<noteq> Waiting \<and> ?C d = Some (req, Returned r))" for d
      by auto
  qed
  ultimately show ?thesis
    unfolding batch_inv_def tasks by (simp add: BatchRawAdd_process_def BatchTask_Process_def raw Let_def places_ok_def)
qed

lemma wait_inv:
  assumes inv: "batch_inv s" and step: "BatchRawAdd_wait c s = Some s'"
  shows "batch_inv s'"
proof -
  obtain r codes where pipe: "bh_pipe s c = Some (r # codes)"
    using step by (auto simp: BatchRawAdd_wait_def split: option.splits list.splits)
  have ok: "calls_ok (bh_calls s) (bh_pipe s) (all_tasks s)" using inv by (simp add: batch_inv_def)
  then obtain req where call: "bh_calls s c = Some (req, Waiting)" using pipe unfolding calls_ok_def by blast
  let ?C = "(bh_calls s)(c \<mapsto> (req, Returned r))" and ?P = "(bh_pipe s)(c := None)"
  have s': "s' = s\<lparr>bh_pipe := ?P, bh_calls := ?C\<rparr>"
    using step by (simp add: BatchRawAdd_wait_def pipe call)
  have "places_ok ?C ?P s"
    by (rule places_ok_mono[of "bh_calls s" "bh_pipe s"])
      (use inv pipe call in \<open>auto simp: batch_inv_def waiting_def sending_def answered_def\<close>)
  moreover have "calls_ok ?C ?P (all_tasks s)"
    using ok call unfolding calls_ok_def by (auto; force)
  ultimately show ?thesis unfolding batch_inv_def by (simp add: s' places_ok_def all_tasks_def held_tasks_def)
qed

text \<open>What a dispatch of one entry does: at most it hands the batch to a coroutine.\<close>

lemma dispatch_cases:
  obtains n where "dispatch_entry now v i s = s\<lparr>bh_next := n\<rparr>"
  | k bt pid idle where "bh_infos s ! v ! i = (k, Some bt)" and "fst (Ready now bt)"
    and "bh_idle s ! v = pid # idle"
    and "dispatch_entry now v i s = s\<lparr>bh_idle := (bh_idle s)[v := idle], bh_ready := bh_ready s @ [(v, pid, bt)],
                                   bh_infos := (bh_infos s)[v := (bh_infos s ! v)[i := (k, None)]]\<rparr>"
proof -
  have id: "s = s\<lparr>bh_next := bh_next s\<rparr>" by simp
  obtain k b where e: "bh_infos s ! v ! i = (k, b)" by (cases "bh_infos s ! v ! i")
  show thesis
  proof (cases b)
    case None
    then show thesis using that(1)[of "bh_next s"] by (simp add: dispatch_entry_def e)
  next
    case (Some bt)
    obtain ready ts where r: "Ready now bt = (ready, ts)" by (cases "Ready now bt")
    show thesis
    proof (cases "\<exists>pid idle. ready \<and> bh_idle s ! v = pid # idle")
      case True
      then show thesis using that(2)[of k bt] Some e r by (auto simp: dispatch_entry_def)
    next
      case False
      then have "dispatch_entry now v i s = s \<or> dispatch_entry now v i s = s\<lparr>bh_next := (bh_next s)[v := ts]\<rparr>"
        by (cases "bh_idle s ! v") (auto simp: dispatch_entry_def e r Some)
      then show thesis using that(1) id by metis
    qed
  qed
qed

lemma wf_map_same_key: "wf_map m \<Longrightarrow> i < length m \<Longrightarrow> m ! i = (k, b) \<Longrightarrow> wf_map (m[i := (k, b')])"
proof -
  assume "i < length m" "m ! i = (k, b)"
  then have "map fst (m[i := (k, b')]) = map fst m" by (metis fst_conv list_update_id map_update)
  then show "wf_map m \<Longrightarrow> wf_map (m[i := (k, b')])" by (simp add: sorted_by_def)
qed

lemma dispatch_inv:
  assumes inv: "batch_inv s" and v: "v < length (bh_infos s)" and i: "i < length (bh_infos s ! v)"
  shows "batch_inv (dispatch_entry now v i s)"
proof (rule dispatch_cases[of now v i s])
  fix n assume "dispatch_entry now v i s = s\<lparr>bh_next := n\<rparr>"
  then show ?thesis using inv by (simp add: batch_inv_def places_ok_def all_tasks_def held_tasks_def)
next
  fix k bt pid idle
  assume e: "bh_infos s ! v ! i = (k, Some bt)"
    and s': "dispatch_entry now v i s = s\<lparr>bh_idle := (bh_idle s)[v := idle], bh_ready := bh_ready s @ [(v, pid, bt)],
                                   bh_infos := (bh_infos s)[v := (bh_infos s ! v)[i := (k, None)]]\<rparr>"
  let ?m = "bh_infos s ! v" and ?C = "bh_calls s" and ?P = "bh_pipe s"
  have at: "Prelude.at (bh_infos s) (int v) = Some ?m" using v by (simp add: at_def)
  have places: "places_ok ?C ?P s" using inv by (simp add: batch_inv_def)
  then have m: "wf_map ?m" "batch_of (waiting ?C ?P) k (bt_tasks bt)"
    using v i e nth_mem[OF v] nth_mem[OF i] unfolding places_ok_def infos_ok_def by fastforce+
  have "infos_ok ?C ?P (put_at (bh_infos s) (int v) (?m[i := (k, None)]))"
    by (rule infos_ok_put[OF _ at wf_map_same_key[OF m(1) i e]])
      (use places in \<open>auto simp: places_ok_def batch_of_def dest!: set_update_subset_insert[THEN subsetD]\<close>)
  moreover have "ready_ok ?C ?P (bh_ready s @ [(v, pid, bt)])"
    using places m(2) by (auto simp: places_ok_def ready_ok_def one_batch_def simp del: split_paired_Ex)
  ultimately have "places_ok ?C ?P (dispatch_entry now v i s)"
    using places by (simp add: places_ok_def s' put_at_def)
  moreover have "mset (info_tasks ?m) = mset (info_tasks (?m[i := (k, None)])) + mset (bt_tasks bt)"
    using mset_concat_update[OF i, of "\<lambda>e. opt_tasks (snd e)" "(k, None)"] by (simp add: info_tasks_def e)
  then have "mset (concat (map info_tasks ((bh_infos s)[v := ?m[i := (k, None)]]))) + mset (bt_tasks bt)
      = mset (concat (map info_tasks (bh_infos s)))"
    using mset_concat_update[OF v, of info_tasks "?m[i := (k, None)]"] by (simp add: ac_simps)
  then have "all_tasks (dispatch_entry now v i s) = all_tasks s"
    by (simp add: all_tasks_def held_tasks_def s' ac_simps)
  ultimately show ?thesis using inv by (simp add: batch_inv_def s')
qed

lemma Init_inv: "batch_inv (BatchHelper_Init n p w)"
  by (auto simp: batch_inv_def places_ok_def infos_ok_def ready_ok_def process_ok_def log_ok_def calls_ok_def BatchHelper_Init_def
      all_tasks_def held_tasks_def log_tasks_def info_tasks_def)

lemma batch_reach_inv:
  assumes "batch_reach sz g Raw s0 s" and "batch_inv s0"
  shows "batch_inv s"
  using assms
proof (induction rule: batch_reach.induct)
  case (rewind s v)
  then show ?case by (simp add: batch_inv_def places_ok_def all_tasks_def held_tasks_def)
qed (auto intro: locate_inv join_inv process_inv wait_inv dispatch_inv routine_inv)

lemma held_phase:
  assumes "places_ok C P s" and "t \<in> set (held_tasks s)"
  shows "waiting C P t \<or> sending C P t"
proof -
  consider m e where "m \<in> set (bh_infos s)" "e \<in> set m" "t \<in> set (opt_tasks (snd e))"
    | x where "x \<in> set (bh_ready s)" "t \<in> set (bt_tasks (snd (snd x)))"
    | x where "x \<in> set (bh_process s)" "t \<in> set (bt_tasks (snd x))"
    using assms(2) by (auto simp: held_tasks_def info_tasks_def)
  then show ?thesis
  proof cases
    case 1
    then show ?thesis using assms(1) unfolding places_ok_def infos_ok_def batch_of_def by blast
  next
    case 2
    then show ?thesis using assms(1) one_batchD unfolding places_ok_def ready_ok_def by blast
  next
    case 3
    then have "sent_by C P (fst x) t" using assms(1) one_batchD unfolding places_ok_def process_ok_def by blast
    then show ?thesis by (auto simp: sent_by_def split: if_splits)
  qed
qed

text \<open>C5: Whatever the interleaving of calls and daemon threads, a call that returned was sent in exactly one
  request, to its own topic, store and queue, with the items of the calls batched with it in the order
  in which they joined, and its return code is the one of that request.\<close>

theorem BatchRawAdd_sent_once:
  assumes "batch_reach sz g Raw (BatchHelper_Init n p w) s" and "bh_calls s c = Some (req, Returned ret)"
  shows "\<exists>before batch_req ts after. bh_log s = before @ (batch_req, ret, ts) # after \<and> \<lparr>tk_call = c, tk_req = req\<rparr> \<in> set ts
    \<and> c \<notin> tk_call ` set (log_tasks (before @ after)) \<and> distinct (map tk_call ts)
    \<and> batch_key_of batch_req = batch_key_of req \<and> add_items batch_req = concat (map (\<lambda>t. add_items (tk_req t)) ts)"
proof -
  let ?t = "\<lparr>tk_call = c, tk_req = req\<rparr>"
  have inv: "batch_inv s" by (rule batch_reach_inv[OF assms(1) Init_inv])
  then have "?t \<in># all_tasks s" using assms(2) by (auto simp: batch_inv_def calls_ok_def)
  moreover have "?t \<notin> set (held_tasks s)"
    using held_phase[of "bh_calls s" "bh_pipe s" s ?t] inv assms(2) by (auto simp: batch_inv_def waiting_def sending_def)
  ultimately have "?t \<in> set (log_tasks (bh_log s))" by (simp add: all_tasks_def)
  then obtain e where e: "e \<in> set (bh_log s)" "?t \<in> set (snd (snd e))" by (auto simp: log_tasks_def)
  obtain batch_req r ts where x: "e = (batch_req, r, ts)" by (cases e)
  have ok: "batch_req = batch_request ts" "one_batch (answered (bh_calls s) (bh_pipe s) r) ts"
    using inv e(1) by (auto simp: batch_inv_def places_ok_def log_ok_def x)
  then have "r = ret" using one_batchD[OF ok(2)] e(2) assms(2) by (fastforce simp: answered_def x)
  obtain before after where l: "bh_log s = before @ e # after" using e(1) by (meson split_list)
  then have "all_tasks s = mset ts + (mset (held_tasks s) + mset (log_tasks (before @ after)))"
    by (simp add: all_tasks_def log_tasks_def x)
  then have u: "\<forall>c. count (image_mset tk_call (mset ts + (mset (held_tasks s) + mset (log_tasks (before @ after))))) c \<le> 1"
    using inv by (metis batch_inv_def calls_ok_def)
  obtain k where k: "batch_of (answered (bh_calls s) (bh_pipe s) r) k ts" using ok(2) unfolding one_batch_def by blast
  then have "batch_key_of batch_req = batch_key_of req" "add_items batch_req = concat (map (\<lambda>t. add_items (tk_req t)) ts)"
    using batch_request_items[of ts k] e(2) bspec[of "set ts" _ ?t] by (force simp: ok(1) x batch_of_def)+
  moreover have "c \<notin> tk_call ` set (log_tasks (before @ after))"
    using calls_disjoint[OF u, of ?t] e(2) by (fastforce simp: x)
  ultimately show ?thesis
    using l e(2) calls_distinct[OF u] \<open>r = ret\<close> unfolding x by (intro exI conjI) auto
qed

text \<open>C18: No wake-up is lost: a call that waits and has no code in its pipe is in a batch that is still
  to be sent, by a coroutine or another call that has it, or from the map of a daemon thread.\<close>

theorem BatchRawAdd_not_lost:
  assumes "batch_reach sz g Raw (BatchHelper_Init n p w) s" and "bh_calls s c = Some (req, Waiting)"
  shows "(\<exists>batch_req ret ts. (batch_req, ret, ts) \<in> set (bh_log s) \<and> \<lparr>tk_call = c, tk_req = req\<rparr> \<in> set ts \<and> bh_pipe s c = Some [ret])
    \<or> \<lparr>tk_call = c, tk_req = req\<rparr> \<in> set (held_tasks s) \<and> bh_pipe s c = Some []"
proof -
  let ?t = "\<lparr>tk_call = c, tk_req = req\<rparr>"
  have inv: "batch_inv s" by (rule batch_reach_inv[OF assms(1) Init_inv])
  then have "?t \<in># all_tasks s" using assms(2) by (auto simp: batch_inv_def calls_ok_def)
  then consider "?t \<in> set (held_tasks s)" | e where "e \<in> set (bh_log s)" "?t \<in> set (snd (snd e))"
    by (auto simp: all_tasks_def log_tasks_def)
  then show ?thesis
  proof cases
    case 1
    then show ?thesis using held_phase[of "bh_calls s" "bh_pipe s" s ?t] inv assms(2) by (auto simp: batch_inv_def waiting_def sending_def)
  next
    case 2
    then have "one_batch (answered (bh_calls s) (bh_pipe s) (fst (snd e))) (snd (snd e))"
      using inv by (auto simp: batch_inv_def places_ok_def log_ok_def)
    from one_batchD[OF this 2(2)] have "bh_pipe s c = Some [fst (snd e)]" using assms(2) by (simp add: answered_def)
    with 2 show ?thesis by (metis prod.collapse)
  qed
qed

subsection \<open>The timer of a daemon thread\<close>

lemma dispatch_entry_frame:
  assumes "v < length (bh_infos s)" "length (bh_next s) = length (bh_infos s)" "length (bh_idle s) = length (bh_infos s)"
  shows "length (bh_infos (dispatch_entry now v i s)) = length (bh_infos s)"
    and "length (bh_next (dispatch_entry now v i s)) = length (bh_infos s)"
    and "length (bh_idle (dispatch_entry now v i s)) = length (bh_infos s)"
    and "length (bh_infos (dispatch_entry now v i s) ! v) = length (bh_infos s ! v)"
    and "bh_idle (dispatch_entry now v i s) ! v \<noteq> [] \<Longrightarrow> bh_idle s ! v \<noteq> []"
    and "j \<noteq> i \<Longrightarrow> bh_infos (dispatch_entry now v i s) ! v ! j = bh_infos s ! v ! j"
    and "bh_next s ! v \<noteq> 0 \<Longrightarrow> bh_next (dispatch_entry now v i s) ! v \<noteq> 0 \<and> bh_next (dispatch_entry now v i s) ! v \<le> bh_next s ! v"
  using assms by (auto simp: dispatch_entry_def Let_def split: prod.splits option.splits list.splits if_splits)

lemma dispatch_entry_done:
  assumes "v < length (bh_infos s)" "length (bh_next s) = length (bh_infos s)" "length (bh_idle s) = length (bh_infos s)"
    and "i < length (bh_infos s ! v)" and "bh_idle s ! v \<noteq> []" and "bh_infos (dispatch_entry now v i s) ! v ! i = (k, Some bt)"
  shows "\<not> fst (Ready now bt) \<and> (snd (Ready now bt) \<noteq> 0 \<longrightarrow>
    bh_next (dispatch_entry now v i s) ! v \<noteq> 0 \<and> bh_next (dispatch_entry now v i s) ! v \<le> snd (Ready now bt))"
  using assms by (auto simp: dispatch_entry_def Let_def word_gt_0 split: prod.splits option.splits list.splits if_splits)

definition dispatch_upto :: "(nat \<Rightarrow> u64) \<Rightarrow> nat \<Rightarrow> nat \<Rightarrow> 'w BatchHelper \<Rightarrow> 'w BatchHelper" where
  "dispatch_upto clock v n s = fold (\<lambda>i. dispatch_entry (clock i) v i) [0..<n] s"

lemma dispatch_upto_simps [simp]:
  "dispatch_upto clock v 0 s = s"
  "dispatch_upto clock v (Suc n) s = dispatch_entry (clock n) v n (dispatch_upto clock v n s)"
  by (simp_all add: dispatch_upto_def)

lemma dispatch_upto_done:
  assumes v: "v < length (bh_infos s)" and len: "length (bh_next s) = length (bh_infos s)" "length (bh_idle s) = length (bh_infos s)"
    and "n \<le> length (bh_infos s ! v)"
  shows "length (bh_infos (dispatch_upto clock v n s)) = length (bh_infos s) \<and> length (bh_next (dispatch_upto clock v n s)) = length (bh_infos s)
    \<and> length (bh_idle (dispatch_upto clock v n s)) = length (bh_infos s)
    \<and> length (bh_infos (dispatch_upto clock v n s) ! v) = length (bh_infos s ! v)
    \<and> (bh_idle (dispatch_upto clock v n s) ! v \<noteq> [] \<longrightarrow> (\<forall>i < n. \<forall>k bt. bh_infos (dispatch_upto clock v n s) ! v ! i = (k, Some bt) \<longrightarrow>
        \<not> fst (Ready (clock i) bt) \<and> (snd (Ready (clock i) bt) \<noteq> 0 \<longrightarrow>
          bh_next (dispatch_upto clock v n s) ! v \<noteq> 0 \<and> bh_next (dispatch_upto clock v n s) ! v \<le> snd (Ready (clock i) bt))))"
  using assms(4)
proof (induction n)
  case 0
  then show ?case using len by simp
next
  case (Suc n)
  let ?s = "dispatch_upto clock v n s" and ?s' = "dispatch_entry (clock n) v n (dispatch_upto clock v n s)"
  have IH: "v < length (bh_infos ?s)" "length (bh_next ?s) = length (bh_infos ?s)" "length (bh_idle ?s) = length (bh_infos ?s)"
    "n < length (bh_infos ?s ! v)"
    using Suc v by auto
  note frame = dispatch_entry_frame[OF IH(1-3), where now = "clock n" and i = n]
  have "\<not> fst (Ready (clock i) bt) \<and> (snd (Ready (clock i) bt) \<noteq> 0 \<longrightarrow> bh_next ?s' ! v \<noteq> 0 \<and> bh_next ?s' ! v \<le> snd (Ready (clock i) bt))"
    if "bh_idle ?s' ! v \<noteq> []" "i < Suc n" "bh_infos ?s' ! v ! i = (k, Some bt)" for i k bt
  proof (cases "i = n")
    case True
    then show ?thesis using dispatch_entry_done[OF IH, where now = "clock n"] frame(5) that by blast
  next
    case False
    then have "i < n" "bh_infos ?s ! v ! i = (k, Some bt)" using that frame(6)[of i] by auto
    moreover have "bh_idle ?s ! v \<noteq> []" by (rule frame(5)[OF that(1)])
    ultimately have "\<not> fst (Ready (clock i) bt)" "snd (Ready (clock i) bt) \<noteq> 0 \<longrightarrow>
        bh_next ?s ! v \<noteq> 0 \<and> bh_next ?s ! v \<le> snd (Ready (clock i) bt)"
      using Suc by (meson Suc_leD)+
    then show ?thesis using frame(7) by (meson order_trans)
  qed
  then show ?case using Suc frame(1-4) by auto
qed

text \<open>A pass of a daemon thread that leaves a coroutine idle has handed over every batch that was
  ready, and the time of its next pass is not later than the deadline of any batch it left.\<close>

theorem DispatchBatchTask_on_time:
  assumes "v < length (bh_infos s)" "length (bh_next s) = length (bh_infos s)" "length (bh_idle s) = length (bh_infos s)"
    and "bh_next s ! v = 0 \<or> bh_next s ! v \<le> now"
    and "bh_idle (DispatchBatchTask now clock v s) ! v \<noteq> []"
    and "i < length (bh_infos s ! v)" and "bh_infos (DispatchBatchTask now clock v s) ! v ! i = (k, Some bt)"
  shows "\<not> fst (Ready (clock i) bt) \<and> (snd (Ready (clock i) bt) \<noteq> 0 \<longrightarrow>
    bh_next (DispatchBatchTask now clock v s) ! v \<noteq> 0 \<and> bh_next (DispatchBatchTask now clock v s) ! v \<le> snd (Ready (clock i) bt))"
proof -
  have "DispatchBatchTask now clock v s = dispatch_upto clock v (length (bh_infos s ! v)) (s\<lparr>bh_next := (bh_next s)[v := 0]\<rparr>)"
    using assms(4) by (auto simp: DispatchBatchTask_def dispatch_upto_def)
  with dispatch_upto_done[of v "s\<lparr>bh_next := (bh_next s)[v := 0]\<rparr>" "length (bh_infos s ! v)" clock] assms(1-3)
  have "bh_idle (DispatchBatchTask now clock v s) ! v \<noteq> [] \<longrightarrow> (\<forall>i < length (bh_infos s ! v). \<forall>k bt.
      bh_infos (DispatchBatchTask now clock v s) ! v ! i = (k, Some bt) \<longrightarrow>
        \<not> fst (Ready (clock i) bt) \<and> (snd (Ready (clock i) bt) \<noteq> 0 \<longrightarrow>
          bh_next (DispatchBatchTask now clock v s) ! v \<noteq> 0 \<and> bh_next (DispatchBatchTask now clock v s) ! v \<le> snd (Ready (clock i) bt)))"
    by simp
  then show ?thesis using assms(5-7) by blast
qed

subsection \<open>Samples\<close>

text \<open>Two calls for one queue: the second one fills the batch of the first and sends both.\<close>

definition batch_sample_req :: "string \<Rightarrow> AddRequest" where
  "batch_sample_req buf = (empty_request 1000)\<lparr>add_store_id := 1, add_queue_id := 7, add_items := [sample_item buf]\<rparr>"

definition batch_sample_bt :: "Task list \<Rightarrow> BatchTask" where
  "batch_sample_bt ts = \<lparr>bt_tasks = ts, bt_nbyte = 600000 * of_nat (length ts), bt_nitems = of_nat (length ts), bt_start_timestamp_ms = 5,
     bt_items_byte_size_limit = 2097152, bt_batch_limit = 100, bt_producer_batch_delay_time_ms = 20\<rparr>"

definition batch_sample_state :: "AddRequest list BatchHelper" where
  "batch_sample_state = (BatchHelper_Init 1 2 [])\<lparr>bh_infos := [[((1000, 1, 7), Some (batch_sample_bt [\<lparr>tk_call = 0, tk_req = batch_sample_req ''a''\<rparr>]))]],
     bh_calls := [0 \<mapsto> (batch_sample_req ''a'', Waiting), 1 \<mapsto> (batch_sample_req ''b'', Located)], bh_pipe := [0 \<mapsto> []]\<rparr>"

lemma batch_sample_fields [simp]:
  "add_topic_id (batch_sample_req buf) = 1000" "add_queue_id (batch_sample_req buf) = 7"
  "batch_key_of (batch_sample_req buf) = (1000, 1, 7)" "add_items (batch_sample_req buf) = [sample_item buf]"
  by (simp_all add: batch_sample_req_def empty_request_def batch_key_of_def)

lemma sample_delay: "producer_batch_delay_time_ms (tp_topic (tc_proto sample_topic)) = 20"
  by code_simp

lemma batch_sample_first:
  "batch_reach (\<lambda>_. 600000) producer_config (\<lambda>req w. (RET_OK, w @ [req])) (BatchHelper_Init 1 2 []) batch_sample_state"
proof -
  let ?R = "batch_reach (\<lambda>_. 600000) producer_config (\<lambda>req w. (RET_OK, w @ [req])) (BatchHelper_Init 1 2 [])"
  let ?s1 = "(BatchHelper_Init 1 2 [])\<lparr>bh_infos := [[((1000, 1, 7), None)]], bh_calls := [0 \<mapsto> (batch_sample_req ''a'', Located)]\<rparr>"
  let ?s2 = "?s1\<lparr>bh_calls := [0 \<mapsto> (batch_sample_req ''a'', Located), 1 \<mapsto> (batch_sample_req ''b'', Located)]\<rparr>"
  have "?R ?s1" by (rule batch_reach.locate[OF batch_reach.start, where c = 0 and req = "batch_sample_req ''a''"])
      (simp_all add: BatchRawAdd_locate_def BatchHelper_Init_def vtid_of_def at_def put_at_def)
  then have "?R ?s2" by (rule batch_reach.locate[where c = 1 and req = "batch_sample_req ''b''"])
      (simp_all add: BatchRawAdd_locate_def BatchHelper_Init_def vtid_of_def at_def put_at_def)
  then show ?thesis
    by (rule batch_reach.join[where c = 0 and req = "batch_sample_req ''a''" and ?t1.0 = 5 and ?t2.0 = 6])
      (simp_all add: BatchRawAdd_join_def BatchHelper_Init_def vtid_of_def at_def put_at_def BatchTask_Init_def producer_config_lookup
        BatchTask_new_def AddTask_def Ready_def sample_limits sample_delay batch_sample_state_def batch_sample_bt_def fun_upd_twist Let_def)
qed

lemma batch_sample_second:
  "\<exists>s :: AddRequest list BatchHelper. batch_reach (\<lambda>_. 600000) producer_config (\<lambda>req w. (RET_OK, w @ [req])) (BatchHelper_Init 1 2 []) s
     \<and> bh_calls s 0 = Some (batch_sample_req ''a'', Returned RET_OK)
     \<and> bh_world s = [(batch_sample_req ''a'')\<lparr>add_items := [sample_item ''a'', sample_item ''b'']\<rparr>]"
proof -
  let ?R = "batch_reach (\<lambda>_. 600000) producer_config (\<lambda>req w. (RET_OK, w @ [req])) (BatchHelper_Init 1 2 [])"
  let ?t = "\<lambda>c buf. \<lparr>tk_call = c, tk_req = batch_sample_req buf\<rparr>"
  let ?bt = "batch_sample_bt [?t 0 ''a'', ?t 1 ''b'']"
  let ?s1 = "batch_sample_state\<lparr>bh_infos := [[((1000, 1, 7), None)]], bh_process := [(1, ?bt)],
     bh_calls := [0 \<mapsto> (batch_sample_req ''a'', Waiting), 1 \<mapsto> (batch_sample_req ''b'', Processing)]\<rparr>"
  let ?s2 = "BatchRawAdd_process (\<lambda>req w. (RET_OK, w @ [req])) 1 ?bt ?s1"
  have "?R ?s1"
    by (rule batch_reach.join[OF batch_sample_first, where c = 1 and req = "batch_sample_req ''b''" and ?t1.0 = 7 and ?t2.0 = 8])
      (simp_all add: BatchRawAdd_join_def batch_sample_state_def BatchHelper_Init_def vtid_of_def at_def put_at_def
        batch_sample_bt_def AddTask_def Ready_def Let_def)
  then have reach: "?R ?s2" by (rule batch_reach.process) simp
  have now: "bh_pipe ?s2 0 = Some [RET_OK]" "bh_calls ?s2 0 = Some (batch_sample_req ''a'', Waiting)"
    "bh_world ?s2 = [(batch_sample_req ''a'')\<lparr>add_items := [sample_item ''a'', sample_item ''b'']\<rparr>]"
    by (simp_all add: BatchRawAdd_process_def BatchTask_Process_def batch_sample_state_def BatchHelper_Init_def batch_sample_bt_def
        Notify_def batch_request_def empty_request_def Let_def)
  have "\<exists>s' :: AddRequest list BatchHelper. BatchRawAdd_wait 0 s = Some s' \<and> bh_calls s' 0 = Some (req, Returned RET_OK) \<and> bh_world s' = bh_world s"
    if "bh_pipe s 0 = Some [RET_OK]" "bh_calls s 0 = Some (req, Waiting)" for s req
    using that by (simp add: BatchRawAdd_wait_def)
  from this[OF now(1,2)] obtain s' :: "AddRequest list BatchHelper" where "BatchRawAdd_wait 0 ?s2 = Some s'"
    and s': "bh_calls s' 0 = Some (batch_sample_req ''a'', Returned RET_OK)" "bh_world s' = bh_world ?s2" by (elim exE conjE)
  then have "?R s'" by (intro batch_reach.wait[OF reach])
  then show ?thesis using s' now(3) by (intro exI[of _ s'] conjI) simp_all
qed

theorem BatchRawAdd_sent_once_witness:
  "\<exists>s :: AddRequest list BatchHelper. bh_calls s 0 = Some (batch_sample_req ''a'', Returned RET_OK)
     \<and> bh_world s = [(batch_sample_req ''a'')\<lparr>add_items := [sample_item ''a'', sample_item ''b'']\<rparr>]
     \<and> (\<exists>batch_req ts. (batch_req, RET_OK, ts) \<in> set (bh_log s) \<and> batch_key_of batch_req = (1000, 1, 7))"
proof -
  obtain s where s: "batch_reach (\<lambda>_. 600000) producer_config (\<lambda>req w. (RET_OK, w @ [req])) (BatchHelper_Init 1 2 []) s"
    "bh_calls s 0 = Some (batch_sample_req ''a'', Returned RET_OK)"
    "bh_world s = [(batch_sample_req ''a'')\<lparr>add_items := [sample_item ''a'', sample_item ''b'']\<rparr>]"
    using batch_sample_second by blast
  from BatchRawAdd_sent_once[OF s(1,2)] obtain before batch_req ts after
    where "bh_log s = before @ (batch_req, RET_OK, ts) # after" "batch_key_of batch_req = (1000, 1, 7)" by auto
  with s show ?thesis by (intro exI[of _ s]) auto
qed

theorem BatchRawAdd_not_lost_witness:
  "\<lparr>tk_call = 0, tk_req = batch_sample_req ''a''\<rparr> \<in> set (held_tasks batch_sample_state) \<and> bh_pipe batch_sample_state 0 = Some []"
  using BatchRawAdd_not_lost[OF batch_sample_first, of 0 "batch_sample_req ''a''"]
  by (simp add: batch_sample_state_def BatchHelper_Init_def)

lemma batch_sample_pass:
  "bh_next (DispatchBatchTask 10 (\<lambda>_. 11) 0 batch_sample_state) ! 0 = 25"
  "bh_idle (DispatchBatchTask 10 (\<lambda>_. 11) 0 batch_sample_state) ! 0 = [1, 0]"
  "bh_infos (DispatchBatchTask 10 (\<lambda>_. 11) 0 batch_sample_state) = bh_infos batch_sample_state"
  "length (bh_ready (DispatchBatchTask 30 (\<lambda>_. 30) 0 batch_sample_state)) = 1"
  by (simp_all add: batch_sample_state_def BatchHelper_Init_def DispatchBatchTask_def dispatch_entry_def Ready_def batch_sample_bt_def
      Let_def upt_rec)

text \<open>The daemon thread looks at the batch of the first call before and after its deadline.\<close>

theorem DispatchBatchTask_on_time_witness:
  "bh_next (DispatchBatchTask 10 (\<lambda>_. 11) 0 batch_sample_state) ! 0 = 25
   \<and> bh_next (DispatchBatchTask 10 (\<lambda>_. 11) 0 batch_sample_state) ! 0
        \<le> snd (Ready 11 (batch_sample_bt [\<lparr>tk_call = 0, tk_req = batch_sample_req ''a''\<rparr>]))
   \<and> length (bh_ready (DispatchBatchTask 30 (\<lambda>_. 30) 0 batch_sample_state)) = 1"
  using DispatchBatchTask_on_time[where v = 0 and s = batch_sample_state and now = 10 and clock = "\<lambda>_. 11" and i = 0 and k = "(1000, 1, 7)"
      and bt = "batch_sample_bt [\<lparr>tk_call = 0, tk_req = batch_sample_req ''a''\<rparr>]"]
  by (simp add: batch_sample_pass) (simp add: batch_sample_state_def BatchHelper_Init_def Ready_def batch_sample_bt_def)

text \<open>
  A request without items is never ready: a call that opens a batch with it waits until another call
  joins.
\<close>

lemma Ready_no_items: "add_items req = [] \<Longrightarrow> \<not> fst (Ready now (AddTask sz t1 \<lparr>tk_call = c, tk_req = req\<rparr> (BatchTask_Init g tp BatchTask_new)))"
  by (simp add: Ready_def AddTask_def BatchTask_Init_def BatchTask_new_def Let_def split: sum.splits)

end
