(* ===== verification/QueueScale.thy ===== *)
theory QueueScale
  imports Hash
begin

section \<open>Which queues a consumer takes (consumer/consumer.cpp, GetQueueByAddrScale)\<close>

text \<open>
  Each consumer machine computes by itself which queues it handles: every machine of the weight list
  puts as many points on a ring as its weight, and a queue belongs to the machine that owns the next
  point. The ring is a \<open>map<uint32_t, uint64_t>\<close>: hashes are cut to 32 bits on insertion and on
  lookup. All machines see the same list, so each queue is taken by exactly one of them; and when one
  leaves the list, only its queues move.
\<close>

text \<open>The options of the consumer that the model reads.\<close>

record ConsumerOption =
  opt_topic :: string
  opt_ip :: string
  opt_port :: int
  opt_nprocs :: int
  opt_nhandler :: int
  opt_nbatch_handler :: int
  opt_use_store_master_client_on_get :: bool
  opt_use_store_master_client_on_add :: bool

text \<open>The packed record of the shared memory.\<close>

record Queue_t =
  q_magic :: u32
  q_consumer_group_id :: u32
  q_pub_id :: u32
  q_store_id :: u32
  q_queue_id :: u32

definition Queue_zero :: Queue_t where
  "Queue_zero = \<lparr>q_magic = 0, q_consumer_group_id = 0, q_pub_id = 0, q_store_id = 0, q_queue_id = 0\<rparr>"

type_synonym AddrScales = "(Addr \<times> int) list"

definition local_addr :: "ConsumerOption \<Rightarrow> Addr" where
  "local_addr opt = Addr_default\<lparr>ip := opt_ip opt, port := opt_port opt\<rparr>"

definition point_hash :: "u64 \<Rightarrow> int \<Rightarrow> u32" where
  "point_hash encoded_addr j =
     (let h = MurmurHash64 (bytes64 encoded_addr) 0;
          h = MurmurHash64 (bytes32 (word_of_int j)) h
      in ucast h)"

definition queue_hash :: "Queue_t \<Rightarrow> u32" where
  "queue_hash queue =
     (let h = MurmurHash64 (bytes32 (q_consumer_group_id queue)) 0;
          h = MurmurHash64 (bytes32 (q_store_id queue)) h;
          h = MurmurHash64 (bytes32 (q_queue_id queue)) h
      in ucast h)"

definition hash2encoded_addr :: "(string \<Rightarrow> u32) \<Rightarrow> AddrScales \<Rightarrow> (u32, u64) hash_ring" where
  "hash2encoded_addr inet_addr addr_scales =
     foldl (\<lambda>m (addr, scale).
       let encoded_addr = EncodeAddr inet_addr addr
       in foldl (\<lambda>m j. map_emplace (point_hash encoded_addr j) encoded_addr m) m [0..scale - 1]) [] addr_scales"

definition GetQueueByAddrScale ::
  "(string \<Rightarrow> u32) \<Rightarrow> ConsumerOption \<Rightarrow> Queue_t list \<Rightarrow> AddrScales \<Rightarrow> nat list" where
  "GetQueueByAddrScale inet_addr opt queues addr_scales =
     (let local_encoded_addr = EncodeAddr inet_addr (local_addr opt);
          ring = hash2encoded_addr inet_addr addr_scales
      in if ring = [] then []
         else foldl (\<lambda>queue_idxs i.
                if ring_pick ring (queue_hash (queues ! i)) = Some local_encoded_addr
                then set_insert id i queue_idxs else queue_idxs) [] [0..<length queues])"

subsection \<open>The points of the machines\<close>

definition addr_points :: "(string \<Rightarrow> u32) \<Rightarrow> Addr \<times> int \<Rightarrow> (u32 \<times> u64) list" where
  "addr_points inet_addr p =
     map (\<lambda>j. (point_hash (EncodeAddr inet_addr (fst p)) j, EncodeAddr inet_addr (fst p))) [0..snd p - 1]"

lemma hash2encoded_addr_ring:
  "hash2encoded_addr inet_addr addr_scales = ring_of (concat (map (addr_points inet_addr) addr_scales))"
  unfolding hash2encoded_addr_def
  by (rule foldl_ring_of) (simp add: case_prod_beta Let_def addr_points_def foldl_points[symmetric])

interpretation machine_hash: consistent_hash
  "\<lambda>addr_scales. concat (map (addr_points inet_addr) addr_scales)"
  "\<lambda>addr_scales. ring_pick (hash2encoded_addr inet_addr addr_scales)"
  by unfold_locales (simp add: hash2encoded_addr_ring)

lemma concat_map_filter:
  "(\<And>x. x \<in> set xs \<Longrightarrow> filter P (f x) = (if Q x then f x else [])) \<Longrightarrow>
   filter P (concat (map f xs)) = concat (map f (filter Q xs))"
  by (induction xs) auto

lemma addr_points_filter:
  "filter (\<lambda>p. snd p \<noteq> e) (concat (map (addr_points inet_addr) addr_scales)) =
   concat (map (addr_points inet_addr) (filter (\<lambda>p. EncodeAddr inet_addr (fst p) \<noteq> e) addr_scales))"
  by (rule concat_map_filter) (auto simp: addr_points_def filter_map o_def)

lemma set_GetQueueByAddrScale:
  "i \<in> set (GetQueueByAddrScale inet_addr opt queues addr_scales) \<longleftrightarrow>
     i < length queues \<and> ring_pick (hash2encoded_addr inet_addr addr_scales) (queue_hash (queues ! i))
       = Some (EncodeAddr inet_addr (local_addr opt))"
proof -
  have set_insert: "set (set_insert id x s) = insert x (set s)" for x and s :: "nat list"
    by (induction s) auto
  have fold: "set (foldl (\<lambda>s i. if P i then set_insert id i s else s) s is) = set s \<union> {i \<in> set is. P i}"
    for P and s "is" :: "nat list" by (induction "is" arbitrary: s) (auto simp: set_insert)
  show ?thesis
    by (auto simp: GetQueueByAddrScale_def Let_def fold ring_pick_def lower_bound_def)
qed

text \<open>C29: When some machine has a positive weight, every queue belongs to exactly one of the machines
  with positive weight: a consumer takes the queue if and only if it has that machine's address.\<close>

theorem GetQueueByAddrScale_partition:
  assumes "\<exists>(addr, scale) \<in> set addr_scales. 0 < scale" and "i < length queues"
  shows "\<exists>(addr, scale) \<in> set addr_scales. 0 < scale
    \<and> (\<forall>opt. i \<in> set (GetQueueByAddrScale inet_addr opt queues addr_scales)
          \<longleftrightarrow> EncodeAddr inet_addr (local_addr opt) = EncodeAddr inet_addr addr)"
proof -
  let ?points = "concat (map (addr_points inet_addr) addr_scales)"
  have "?points \<noteq> []" using assms(1) by (force simp: addr_points_def)
  then obtain e where e: "ring_pick (hash2encoded_addr inet_addr addr_scales) (queue_hash (queues ! i)) = Some e"
    using machine_hash.owner_total by blast
  then have "\<exists>k. (k, e) \<in> set ?points" by (rule machine_hash.owner_has_point)
  then obtain p where p: "p \<in> set addr_scales" "0 < snd p" "e = EncodeAddr inet_addr (fst p)"
    by (auto simp: addr_points_def)
  have "i \<in> set (GetQueueByAddrScale inet_addr opt queues addr_scales) \<longleftrightarrow>
      EncodeAddr inet_addr (local_addr opt) = e" for opt
    using e assms(2) by (auto simp: set_GetQueueByAddrScale)
  with p show ?thesis by (auto simp: case_prod_beta intro!: bexI[of _ p])
qed

text \<open>When a machine leaves the weight list (or its weight becomes zero), every other machine
  keeps all the queues it has.\<close>

theorem GetQueueByAddrScale_stable:
  assumes "i \<in> set (GetQueueByAddrScale inet_addr opt queues addr_scales)"
    and "EncodeAddr inet_addr (local_addr opt) \<noteq> EncodeAddr inet_addr gone"
  shows "i \<in> set (GetQueueByAddrScale inet_addr opt queues
           (filter (\<lambda>p. EncodeAddr inet_addr (fst p) \<noteq> EncodeAddr inet_addr gone) addr_scales))"
proof -
  have "ring_pick (hash2encoded_addr inet_addr (filter (\<lambda>p. EncodeAddr inet_addr (fst p) \<noteq> EncodeAddr inet_addr gone) addr_scales))
      (queue_hash (queues ! i)) = Some (EncodeAddr inet_addr (local_addr opt))"
    using assms(1) unfolding set_GetQueueByAddrScale
    by (intro machine_hash.owner_stable[OF _ addr_points_filter[symmetric] assms(2)]) simp
  then show ?thesis using assms(1) by (simp add: set_GetQueueByAddrScale)
qed

subsection \<open>Two machines\<close>

lemma MurmurHash64_4: "MurmurHash64 [a, b, c, d] seed =
  (let h = seed XOR (4 * murmur_m);
       h = ((((h XOR push_bit 24 (ucast d)) XOR push_bit 16 (ucast c)) XOR push_bit 8 (ucast b)) XOR ucast a) * murmur_m;
       h = (h XOR drop_bit 47 h) * murmur_m in h XOR drop_bit 47 h)"
  by (simp add: MurmurHash64_def murmur_words.simps murmur_tail_def upt_rec)

lemma MurmurHash64_word: "MurmurHash64 (bytes64 x) seed =
  (let h = murmur_mix (seed XOR (8 * murmur_m)) x;
       h = (h XOR drop_bit 47 h) * murmur_m in h XOR drop_bit 47 h)"
proof -
  have "murmur_words h (bytes64 x) = (murmur_mix h x, [])" for h
    by (subst murmur_words.simps, subst murmur_words.simps) (simp add: load64_bytes64)
  then show ?thesis by (simp add: MurmurHash64_def murmur_tail_def)
qed

definition sample_option :: ConsumerOption where
  "sample_option = \<lparr>opt_topic = ''test'', opt_ip = ''127.0.0.1'', opt_port = 8001, opt_nprocs = 3, opt_nhandler = 2,
     opt_nbatch_handler = 1, opt_use_store_master_client_on_get = False, opt_use_store_master_client_on_add = False\<rparr>"

definition sample_queue :: "u32 \<Rightarrow> Queue_t" where
  "sample_queue q = Queue_zero\<lparr>q_consumer_group_id := 1, q_store_id := 1, q_queue_id := q\<rparr>"

definition sample_scales :: AddrScales where
  "sample_scales = [(\<lparr>ip = ''127.0.0.1'', port = 8001, paxos_port = 0\<rparr>, 1), (\<lparr>ip = ''127.0.0.1'', port = 8002, paxos_port = 0\<rparr>, 1)]"

abbreviation sample_inet_addr :: "string \<Rightarrow> u32" where
  "sample_inet_addr \<equiv> \<lambda>_. 0x0100007F"

lemma sample_queue_hash: "queue_hash (sample_queue 1) = 3683036209"
  by (simp add: queue_hash_def sample_queue_def Queue_zero_def bytes32_def MurmurHash64_4 murmur_m_def Let_def)

lemma sample_encoded:
  "EncodeAddr sample_inet_addr \<lparr>ip = s, port = 8001, paxos_port = 0\<rparr> = 0x0100007F1F410000"
  "EncodeAddr sample_inet_addr \<lparr>ip = s, port = 8002, paxos_port = 0\<rparr> = 0x0100007F1F420000"
  by (simp_all add: EncodeAddr_def)

lemma sample_point_hash:
  "point_hash 0x0100007F1F410000 0 = 37143465" "point_hash 0x0100007F1F420000 0 = 3650395646"
  by (simp_all add: point_hash_def MurmurHash64_word bytes32_def MurmurHash64_4 murmur_mix_def murmur_m_def Let_def)

lemma sample_takes: "0 \<in> set (GetQueueByAddrScale sample_inet_addr sample_option [sample_queue 1] sample_scales)"
  by (simp add: set_GetQueueByAddrScale hash2encoded_addr_def sample_scales_def sample_encoded sample_point_hash
      sample_queue_hash map_emplace_def ring_pick_def lower_bound_def local_addr_def sample_option_def Addr_default_def)

theorem GetQueueByAddrScale_partition_witness:
  "\<exists>(addr, scale) \<in> set sample_scales. 0 < scale
    \<and> (\<forall>opt. 0 \<in> set (GetQueueByAddrScale sample_inet_addr opt [sample_queue 1] sample_scales)
          \<longleftrightarrow> EncodeAddr sample_inet_addr (local_addr opt) = EncodeAddr sample_inet_addr addr)"
  by (rule GetQueueByAddrScale_partition) (simp_all add: sample_scales_def)

theorem GetQueueByAddrScale_stable_witness:
  "0 \<in> set (GetQueueByAddrScale sample_inet_addr sample_option [sample_queue 1] [hd sample_scales])"
  using GetQueueByAddrScale_stable[OF sample_takes, of "\<lparr>ip = ''127.0.0.1'', port = 8002, paxos_port = 0\<rparr>"]
  by (simp add: sample_scales_def sample_encoded local_addr_def sample_option_def Addr_default_def)

end
