(* ===== verification/HeartBeatLock.thy ===== *)
theory HeartBeatLock
  imports QueueScale Scheduler
begin

section \<open>Sharing the queues among the worker processes (consumer/hblock.cpp)\<close>

text \<open>
  A consumer machine runs \<open>nproc\<close> worker processes. A table in shared memory says which queue each
  of them handles; a sync process recomputes it from the weights of the machines (\<open>Sync\<close>), and each
  worker reads its entry and leases the lock of its queue (\<open>Lock\<close>).

  \<open>HBLock\<close> is the implementation object with the shared table. The remote calls are parameters that
  stand for \<open>ClientCall\<close> of the scheduler's and the lock's master client; \<open>crc32\<close> is zlib's. The
  read-write lock of the table makes each method that takes it atomic.
\<close>

abbreviation LOCK_BUF_MAGIC :: u32 where "LOCK_BUF_MAGIC \<equiv> 890725"
abbreviation LOCK_ITEM_MAGIC :: u32 where "LOCK_ITEM_MAGIC \<equiv> 889735"

record HBLock =
  hb_nproc :: int
  hb_magic :: u32
  hb_queues :: "Queue_t list"
  hb_conf_last_mod_time :: u64
  hb_scale_hashs :: "(int \<times> u64) list"
  hb_proc_used :: int

subsection \<open>Initialisation\<close>

text \<open>The outcomes of the system calls that \<open>Init\<close> makes.\<close>

record ShmCalls =
  shm_get :: "(u32 \<times> Queue_t list) option"
  shm_create :: bool
  shm_find_old :: bool
  shm_remove_old :: bool
  shm_recreate :: bool
  shm_attach :: bool
  rwlock_setup :: bool

definition shm_table :: "ShmCalls \<Rightarrow> int \<Rightarrow> RetCode + (u32 \<times> Queue_t list)" where
  "shm_table os nproc =
     (case shm_get os of
        Some buf \<Rightarrow> if shm_attach os then Inr buf else Inl RET_ERR_SYS
      | None \<Rightarrow>
          if \<not> shm_create os \<and> \<not> (shm_find_old os \<and> shm_remove_old os \<and> shm_recreate os) then Inl RET_ERR_SYS
          else if shm_attach os then Inr (0, replicate (nat nproc) Queue_zero) else Inl RET_ERR_SYS)"

definition HBLock_new :: HBLock where
  "HBLock_new = \<lparr>hb_nproc = 0, hb_magic = 0, hb_queues = [], hb_conf_last_mod_time = 0, hb_scale_hashs = [], hb_proc_used = 0\<rparr>"

definition HBLock_Init :: "ShmCalls \<Rightarrow> GlobalConfig \<Rightarrow> int \<Rightarrow> int \<Rightarrow> RetCode \<times> HBLock" where
  "HBLock_Init os g topic_id nproc =
     (let hb = HBLock_new\<lparr>hb_nproc := nproc\<rparr> in
      case shm_table os nproc of
        Inl ret \<Rightarrow> (ret, hb)
      | Inr (magic, queues) \<Rightarrow>
          let hb = hb\<lparr>hb_magic := magic, hb_queues := queues\<rparr> in
          if \<not> rwlock_setup os then (RET_ERR_SYS, hb)
          else case GetTopicConfigByTopicID g topic_id of Inl ret \<Rightarrow> (ret, hb) | Inr _ \<Rightarrow> (RET_OK, hb))"

subsection \<open>The table\<close>

definition in_use :: "Queue_t \<Rightarrow> bool" where
  "in_use queue \<longleftrightarrow> q_magic queue = LOCK_ITEM_MAGIC"

definition ClearInvalidConsumerGroupIDs :: "int list \<Rightarrow> HBLock \<Rightarrow> HBLock" where
  "ClearInvalidConsumerGroupIDs valid_consumer_group_ids hb =
     hb\<lparr>hb_queues := map (\<lambda>queue.
          if in_use queue \<and> sint (q_consumer_group_id queue) \<notin> set valid_consumer_group_ids
          then Queue_zero else queue) (hb_queues hb)\<rparr>"

definition same_queue :: "Queue_t \<Rightarrow> Queue_t \<Rightarrow> bool" where
  "same_queue queue pending_queue \<longleftrightarrow>
     q_consumer_group_id queue = q_consumer_group_id pending_queue \<and>
     q_store_id queue = q_store_id pending_queue \<and> q_queue_id queue = q_queue_id pending_queue"

text \<open>A worker that handles one of the pending queues goes on with it, the first one that does.\<close>

fun keep_queues :: "int \<Rightarrow> Queue_t list \<Rightarrow> Queue_t list \<Rightarrow> bool list \<Rightarrow> Queue_t list \<times> bool list" where
  "keep_queues consumer_group_id pending_queues [] marks = ([], marks)"
| "keep_queues consumer_group_id pending_queues (queue # queues) marks =
     (let (queue, marks) =
        (if in_use queue \<and> word_of_int consumer_group_id = q_consumer_group_id queue then
           case List.find (\<lambda>idx. same_queue queue (pending_queues ! idx)) [0..<length pending_queues] of
             None \<Rightarrow> (Queue_zero, marks)
           | Some idx \<Rightarrow> if \<not> marks ! idx then (queue, marks[idx := True]) else (Queue_zero, marks)
         else (queue, marks));
       (queues, marks) = keep_queues consumer_group_id pending_queues queues marks
      in (queue # queues, marks))"

text \<open>The free workers take the pending queues that are left, in order.\<close>

fun fill_queues :: "Queue_t list \<Rightarrow> Queue_t list \<Rightarrow> bool list \<Rightarrow> Queue_t list \<times> bool list" where
  "fill_queues pending_queues [] marks = ([], marks)"
| "fill_queues pending_queues (queue # queues) marks =
     (let (queue, marks) =
        (if \<not> in_use queue then
           case List.find (\<lambda>idx. \<not> marks ! idx) [0..<length pending_queues] of
             None \<Rightarrow> (queue\<lparr>q_magic := 0\<rparr>, marks)
           | Some idx \<Rightarrow>
               let p = pending_queues ! idx
               in (queue\<lparr>q_magic := LOCK_ITEM_MAGIC, q_consumer_group_id := q_consumer_group_id p,
                         q_store_id := q_store_id p, q_queue_id := q_queue_id p\<rparr>, marks[idx := True])
         else (queue, marks));
       (queues, marks) = fill_queues pending_queues queues marks
      in (queue # queues, marks))"

definition distribute_group :: "int \<times> Queue_t list \<Rightarrow> Queue_t list \<Rightarrow> Queue_t list" where
  "distribute_group kv queues =
     (let (consumer_group_id, pending_queues) = kv;
          marks = replicate (length pending_queues) False;
          (queues, marks) = keep_queues consumer_group_id pending_queues queues marks;
          (queues, marks) = fill_queues pending_queues queues marks
      in queues)"

definition DistubePendingQueues :: "(int \<times> Queue_t list) list \<Rightarrow> HBLock \<Rightarrow> HBLock" where
  "DistubePendingQueues consumer_group_id2pending_queues hb =
     hb\<lparr>hb_queues := foldl (\<lambda>queues kv. distribute_group kv queues) (hb_queues hb) consumer_group_id2pending_queues,
        hb_magic := LOCK_BUF_MAGIC\<rparr>"

definition UpdateProcUsed :: "HBLock \<Rightarrow> HBLock" where
  "UpdateProcUsed hb = hb\<lparr>hb_proc_used := int (length (filter in_use (hb_queues hb)))\<rparr>"

definition HBLock_GetQueuesDistribute :: "HBLock \<Rightarrow> RetCode \<times> Queue_t list" where
  "HBLock_GetQueuesDistribute hb = (RET_OK, hb_queues hb)"

subsection \<open>The weights of the machines\<close>

definition CalHash :: "(u64 \<Rightarrow> u8 list \<Rightarrow> u64) \<Rightarrow> AddrScales \<Rightarrow> u64" where
  "CalHash crc32 addr_scales =
     foldl (\<lambda>h (addr, scale).
       let h = crc32 h (bytes_of_string (ip addr));
           h = crc32 h (bytes32 (word_of_int (port addr)));
           h = crc32 h (bytes32 (word_of_int (paxos_port addr)))
       in crc32 h (bytes32 (word_of_int scale))) (crc32 0 []) addr_scales"

definition dynamic_groups :: "TopicConfig \<Rightarrow> int list \<Rightarrow> int list" where
  "dynamic_groups tc consumer_group_ids =
     foldl (\<lambda>s consumer_group_id.
       case GetConsumerGroupByConsumerGroupID tc consumer_group_id of
         Inl _ \<Rightarrow> s
       | Inr g \<Rightarrow> if cg_use_dynamic_scale g \<noteq> 0 then set_insert id consumer_group_id s else s) [] consumer_group_ids"

definition add_addr_scale ::
  "(string \<Rightarrow> u32) \<Rightarrow> GlobalConfig \<Rightarrow> int \<Rightarrow> int \<Rightarrow> (int \<times> AddrScales) list \<Rightarrow> Addr \<times> int \<Rightarrow> (int \<times> AddrScales) list" where
  "add_addr_scale inet_addr g topic_id consumer_group_id m p =
     (case GetConsumerGroupIDsByConsumerAddr inet_addr g topic_id (fst p) of
        Inl _ \<Rightarrow> m
      | Inr ids \<Rightarrow>
          if consumer_group_id \<in> set ids
          then map_assign consumer_group_id (entry m consumer_group_id @ [p]) m else m)"

text \<open>
  The groups of this machine with the weights of the machines that serve them. When the scheduler
  cannot be reached, the first sync uses the configured weights and later ones fail. \<open>cpu\<close> is the
  load of the machine.
\<close>

definition HBLock_GetAddrScale ::
  "(string \<Rightarrow> u32) \<Rightarrow> GlobalConfig \<Rightarrow> ConsumerOption \<Rightarrow> int \<Rightarrow> int
   \<Rightarrow> (GetAddrScaleRequest \<Rightarrow> 'w \<Rightarrow> RetCode \<times> AddrScales \<times> 'w) \<Rightarrow> HBLock \<Rightarrow> 'w
   \<Rightarrow> (RetCode + (int \<times> AddrScales) list) \<times> 'w" where
  "HBLock_GetAddrScale inet_addr g opt topic_id cpu GetScale hb w =
     (case GetConsumerConfig g topic_id of Inl ret \<Rightarrow> (Inl ret, w) | Inr consumer_config \<Rightarrow>
      case GetConsumerGroupIDsByConsumerAddr inet_addr g topic_id (local_addr opt) of Inl ret \<Rightarrow> (Inl ret, w)
      | Inr consumer_group_ids \<Rightarrow>
      case GetTopicConfigByTopicID g topic_id of Inl ret \<Rightarrow> (Inl ret, w) | Inr tc \<Rightarrow>
        let dynamic = dynamic_groups tc consumer_group_ids;
            req = \<lparr>as_topic_id = topic_id, as_addr = local_addr opt,
                   as_load_info = \<lparr>li_cpu = cpu,
                     li_proc_used_ratio = (if hb_nproc hb \<noteq> 0 then cdiv (hb_proc_used hb * 100) (hb_nproc hb) else 0)\<rparr>,
                   as_master_addr = Addr_default\<rparr>;
            (ret, dynamic_addr_scales, w) = (if dynamic \<noteq> [] then GetScale req w else (RET_OK, [], w))
        in if ret \<noteq> RET_OK \<and> hb_conf_last_mod_time hb \<noteq> 0 then (Inl ret, w)
           else let (dynamic, dynamic_addr_scales) = (if ret \<noteq> RET_OK then ([], []) else (dynamic, dynamic_addr_scales));
                    config_addr_scales =
                      (if length dynamic < length consumer_group_ids
                       then map (\<lambda>c. (consumer_addr c, consumer_scale c)) (GetAllConsumer consumer_config) else [])
             in (Inr (foldl (\<lambda>m consumer_group_id.
                   foldl (add_addr_scale inet_addr g topic_id consumer_group_id) m
                     (if consumer_group_id \<notin> set dynamic then config_addr_scales else dynamic_addr_scales))
                   [] consumer_group_ids), w))"

subsection \<open>The queues of a group\<close>

definition add_queue :: "int \<Rightarrow> int \<Rightarrow> int \<Rightarrow> (int \<times> int) set \<times> Queue_t list \<Rightarrow> int \<Rightarrow> (int \<times> int) set \<times> Queue_t list" where
  "add_queue consumer_group_id store_id pub_id = (\<lambda>(seen, all_queues) queue_id.
     if (store_id, queue_id) \<in> seen then (seen, all_queues)
     else (insert (store_id, queue_id) seen,
           all_queues @ [\<lparr>q_magic = 0, q_consumer_group_id = word_of_int consumer_group_id, q_pub_id = word_of_int pub_id,
                          q_store_id = word_of_int store_id, q_queue_id = word_of_int queue_id\<rparr>]))"

definition add_queue_info :: "TopicConfig \<Rightarrow> int \<Rightarrow> int \<Rightarrow> int \<Rightarrow> (int \<times> int) set \<times> Queue_t list \<Rightarrow> int \<Rightarrow> (int \<times> int) set \<times> Queue_t list" where
  "add_queue_info tc consumer_group_id store_id pub_id s queue_info_id =
     (case GetQueuesByQueueInfoID tc queue_info_id of
        Inl _ \<Rightarrow> s
      | Inr queue_ids \<Rightarrow> foldl (add_queue consumer_group_id store_id pub_id) s queue_ids)"

definition add_pub :: "TopicConfig \<Rightarrow> int \<Rightarrow> int \<Rightarrow> (int \<times> int) set \<times> Queue_t list \<Rightarrow> int \<Rightarrow> (int \<times> int) set \<times> Queue_t list" where
  "add_pub tc consumer_group_id store_id s pub_id =
     (case GetPubByPubID tc pub_id of
        Inl _ \<Rightarrow> s
      | Inr pub \<Rightarrow>
          if consumer_group_id \<notin> set (pub_consumer_group_ids pub) then s
          else foldl (add_queue_info tc consumer_group_id store_id pub_id) s (pub_queue_info_ids pub))"

definition add_store :: "GlobalConfig \<Rightarrow> int \<Rightarrow> TopicConfig \<Rightarrow> int \<Rightarrow> (int \<times> int) set \<times> Queue_t list \<Rightarrow> int \<Rightarrow> (int \<times> int) set \<times> Queue_t list" where
  "add_store g topic_id tc consumer_group_id s store_id =
     (case GetPubIDsByStoreID g topic_id store_id of
        Inl _ \<Rightarrow> s
      | Inr pub_ids \<Rightarrow> foldl (add_pub tc consumer_group_id store_id) s pub_ids)"

definition GetAllQueues :: "GlobalConfig \<Rightarrow> int \<Rightarrow> int \<Rightarrow> RetCode + Queue_t list" where
  "GetAllQueues g topic_id consumer_group_id =
     (case GetTopicConfigByTopicID g topic_id of Inl ret \<Rightarrow> Inl ret | Inr tc \<Rightarrow>
      case GetStoreConfig g topic_id of Inl ret \<Rightarrow> Inl ret | Inr sc \<Rightarrow>
        Inr (snd (foldl (add_store g topic_id tc consumer_group_id) ({}, []) (GetAllStoreID sc))))"

definition GetPendingQueues :: "(string \<Rightarrow> u32) \<Rightarrow> ConsumerOption \<Rightarrow> Queue_t list \<Rightarrow> AddrScales \<Rightarrow> Queue_t list" where
  "GetPendingQueues inet_addr opt all_queues addr_scales =
     map (\<lambda>idx. all_queues ! idx) (GetQueueByAddrScale inet_addr opt all_queues addr_scales)"

subsection \<open>One sync\<close>

definition scale_hash_of :: "HBLock \<Rightarrow> int \<Rightarrow> u64" where
  "scale_hash_of hb consumer_group_id = (case map_of (hb_scale_hashs hb) consumer_group_id of None \<Rightarrow> 0 | Some h \<Rightarrow> h)"

text \<open>The groups whose weights or configuration changed, with their queues.\<close>

fun sync_consumer_groups ::
  "(string \<Rightarrow> u32) \<Rightarrow> (u64 \<Rightarrow> u8 list \<Rightarrow> u64) \<Rightarrow> GlobalConfig \<Rightarrow> ConsumerOption \<Rightarrow> int \<Rightarrow> u64 \<Rightarrow> (int \<times> AddrScales) list
   \<Rightarrow> (int \<times> Queue_t list) list \<Rightarrow> HBLock \<Rightarrow> RetCode \<times> (int \<times> Queue_t list) list \<times> HBLock" where
  "sync_consumer_groups inet_addr crc32 g opt topic_id mod_time [] pending hb = (RET_OK, pending, hb)"
| "sync_consumer_groups inet_addr crc32 g opt topic_id mod_time ((consumer_group_id, addr_scales) # rest) pending hb =
     (let scale_hash = CalHash crc32 addr_scales in
      if hb_magic hb = LOCK_BUF_MAGIC \<and> mod_time = hb_conf_last_mod_time hb
         \<and> scale_hash = scale_hash_of hb consumer_group_id
      then sync_consumer_groups inet_addr crc32 g opt topic_id mod_time rest pending hb
      else case GetAllQueues g topic_id consumer_group_id of
             Inl ret \<Rightarrow> (ret, pending, hb)
           | Inr all_queues \<Rightarrow>
               sync_consumer_groups inet_addr crc32 g opt topic_id mod_time rest
                 (map_assign consumer_group_id (GetPendingQueues inet_addr opt all_queues addr_scales) pending)
                 (hb\<lparr>hb_scale_hashs := map_assign consumer_group_id scale_hash (hb_scale_hashs hb)\<rparr>))"

definition Sync ::
  "(string \<Rightarrow> u32) \<Rightarrow> (u64 \<Rightarrow> u8 list \<Rightarrow> u64) \<Rightarrow> GlobalConfig \<Rightarrow> ConsumerOption \<Rightarrow> int \<Rightarrow> int
   \<Rightarrow> (GetAddrScaleRequest \<Rightarrow> 'w \<Rightarrow> RetCode \<times> AddrScales \<times> 'w) \<Rightarrow> HBLock \<Rightarrow> 'w \<Rightarrow> RetCode \<times> HBLock \<times> 'w" where
  "Sync inet_addr crc32 g opt topic_id cpu GetScale hb w =
     (let hb = UpdateProcUsed hb in
      case HBLock_GetAddrScale inet_addr g opt topic_id cpu GetScale hb w of
        (Inl ret, w) \<Rightarrow> (ret, hb, w)
      | (Inr consumer_group_id2addr_scales, w) \<Rightarrow>
          let hb = ClearInvalidConsumerGroupIDs (map fst consumer_group_id2addr_scales) hb;
              mod_time = GetLastModTime g topic_id
          in case sync_consumer_groups inet_addr crc32 g opt topic_id mod_time consumer_group_id2addr_scales [] hb of
               (ret, pending, hb) \<Rightarrow>
                 if ret \<noteq> RET_OK then (ret, hb, w)
                 else (RET_OK, (DistubePendingQueues pending hb)\<lparr>hb_conf_last_mod_time := mod_time\<rparr>, w))"

subsection \<open>Locking the queue of a worker\<close>

text \<open>The \<open>static __thread\<close> variables of \<open>DoLock\<close>, of one worker.\<close>

record LockThread =
  lt_last_lock_key :: string
  lt_version :: u64
  lt_overdue_time_ms :: u64

definition LockThread_new :: LockThread where
  "LockThread_new = \<lparr>lt_last_lock_key = [], lt_version = 0, lt_overdue_time_ms = 0\<rparr>"

definition queue_lock_key :: "int \<Rightarrow> Queue_t \<Rightarrow> string" where
  "queue_lock_key topic_id queue =
     int_string topic_id @ ''-'' @ to_string (unat (q_consumer_group_id queue)) @ ''-'' @
     to_string (unat (q_store_id queue)) @ ''-'' @ to_string (unat (q_queue_id queue))"

definition worker_client_id :: "ConsumerOption \<Rightarrow> int \<Rightarrow> string" where
  "worker_client_id opt vpid = opt_ip opt @ ''-'' @ int_string vpid"

definition release_old_lock ::
  "(AcquireLockRequest \<Rightarrow> 'w \<Rightarrow> RetCode \<times> 'w) \<Rightarrow> int \<Rightarrow> int \<Rightarrow> string \<Rightarrow> string \<Rightarrow> LockThread \<Rightarrow> 'w \<Rightarrow> LockThread \<times> 'w" where
  "release_old_lock Acquire topic_id lid lock_key client_id t w =
     (if lt_last_lock_key t \<noteq> [] \<and> lt_last_lock_key t \<noteq> lock_key then
        let (ret, w) = Acquire (lock_request topic_id lid (lt_last_lock_key t) client_id (lt_version t) 0) w
        in (t\<lparr>lt_last_lock_key := lock_key, lt_version := 0, lt_overdue_time_ms := 0\<rparr>, w)
      else (t, w))"

definition observe_queue_lock :: "string \<Rightarrow> u64 \<Rightarrow> LockInfo \<Rightarrow> LockThread \<Rightarrow> bool \<times> LockThread" where
  "observe_queue_lock client_id cur_time_ms info t =
     (let t = (if lt_version t \<noteq> lk_version info
               then t\<lparr>lt_version := lk_version info, lt_overdue_time_ms := cur_time_ms + lk_lease_time_ms info\<rparr> else t)
      in (client_id = lk_client_id info \<or> lt_overdue_time_ms t < cur_time_ms, t))"

text \<open>\<open>clock\<close> reads the steady clock, after a possible release and before the lock is read.\<close>

definition DoLock ::
  "GlobalConfig \<Rightarrow> ConsumerOption \<Rightarrow> int \<Rightarrow> (GetLockInfoRequest \<Rightarrow> 'w \<Rightarrow> RetCode \<times> GetLockInfoResponse \<times> 'w)
   \<Rightarrow> (AcquireLockRequest \<Rightarrow> 'w \<Rightarrow> RetCode \<times> 'w) \<Rightarrow> ('w \<Rightarrow> u64) \<Rightarrow> int \<Rightarrow> Queue_t \<Rightarrow> LockThread \<Rightarrow> 'w
   \<Rightarrow> RetCode \<times> LockThread \<times> 'w" where
  "DoLock g opt topic_id Get Acquire clock vpid queue t w =
     (if \<not> in_use queue then (RET_NO_LOCK_TARGET, t, w)
      else case GetTopicConfigByTopicID g topic_id of Inl ret \<Rightarrow> (ret, t, w) | Inr tc \<Rightarrow>
      case GetConsumerGroupByConsumerGroupID tc (sint (q_consumer_group_id queue)) of Inl ret \<Rightarrow> (ret, t, w)
      | Inr consumer_group \<Rightarrow>
      if cg_skip_lock consumer_group \<noteq> 0 then (RET_OK, t, w)
      else case GetLockConfig g topic_id of Inl ret \<Rightarrow> (ret, t, w) | Inr lc \<Rightarrow>
      case GetAllLockID lc of [] \<Rightarrow> (RET_ERR_RANGE_LOCK, t, w) | lid # _ \<Rightarrow>
        let lock_key = queue_lock_key topic_id queue; client_id = worker_client_id opt vpid;
            (t, w) = release_old_lock Acquire topic_id lid lock_key client_id t w;
            cur_time_ms = clock w;
            (ret, resp, w) = Get \<lparr>gl_topic_id = topic_id, gl_lock_id = lid, gl_lock_key = lock_key,
                                  gl_master_addr = Addr_default\<rparr> w
        in if as_integer ret < 0 then (ret, t, w)
           else let info = (case gl_lock_info resp of None \<Rightarrow> LockInfo_default | Some i \<Rightarrow> i);
                    (need_acquire_lock, t) = observe_queue_lock client_id cur_time_ms info t
             in if need_acquire_lock then
                  let (ret, w) = Acquire (lock_request topic_id lid lock_key client_id (lt_version t)
                                   (word_of_int (consumer_lock_lease_time_s (topic_of tc)) * 1000)) w
                  in (ret, t, w)
                else (RET_NO_NEED_LOCK, t, w))"

text \<open>\<open>Lock\<close> of a worker: its entry of the table is locked; a \<open>vpid\<close> outside the table ends the process.\<close>

definition HBLock_Lock ::
  "GlobalConfig \<Rightarrow> ConsumerOption \<Rightarrow> int \<Rightarrow> (GetLockInfoRequest \<Rightarrow> 'w \<Rightarrow> RetCode \<times> GetLockInfoResponse \<times> 'w)
   \<Rightarrow> (AcquireLockRequest \<Rightarrow> 'w \<Rightarrow> RetCode \<times> 'w) \<Rightarrow> ('w \<Rightarrow> u64) \<Rightarrow> HBLock \<Rightarrow> int \<Rightarrow> LockThread \<Rightarrow> 'w
   \<Rightarrow> ((RetCode + int \<times> int \<times> int) \<times> LockThread \<times> 'w) option" where
  "HBLock_Lock g opt topic_id Get Acquire clock hb vpid t w =
     (if hb_nproc hb \<le> vpid then None
      else do {
        queue \<leftarrow> Prelude.at (hb_queues hb) vpid;
        Some (case DoLock g opt topic_id Get Acquire clock vpid queue t w of
                (ret, t, w) \<Rightarrow>
                  if ret \<noteq> RET_OK then (Inl ret, t, w)
                  else (Inr (sint (q_consumer_group_id queue), sint (q_store_id queue), sint (q_queue_id queue)), t, w)) })"

end
