(* ===== verification/QueueTable.thy ===== *)
theory QueueTable
  imports HeartBeatLock
begin

section \<open>The table of the workers: properties of the heart beat lock\<close>

text \<open>
  What the distribution of the queues over the worker processes promises: a queue has at most one
  worker, a worker whose queue stays keeps it, and with enough free workers every queue has one.
  Then a whole \<open>Sync\<close>, and what \<open>DoLock\<close> does with the memory of the lock it saw last.
\<close>

subsection \<open>Who handles what\<close>

definition queue_key :: "Queue_t \<Rightarrow> u32 \<times> u32 \<times> u32" where
  "queue_key q = (q_consumer_group_id q, q_store_id q, q_queue_id q)"

definition held :: "Queue_t list \<Rightarrow> (u32 \<times> u32 \<times> u32) list" where
  "held queues = map queue_key (filter in_use queues)"

abbreviation held_by :: "u32 \<Rightarrow> Queue_t list \<Rightarrow> (u32 \<times> u32 \<times> u32) list" where
  "held_by c queues \<equiv> filter (\<lambda>k. fst k = c) (held queues)"

abbreviation free_slots :: "Queue_t list \<Rightarrow> nat" where
  "free_slots queues \<equiv> length (filter (\<lambda>q. \<not> in_use q) queues)"

lemma same_queue_iff [simp]: "same_queue a b \<longleftrightarrow> queue_key a = queue_key b"
  by (simp add: same_queue_def queue_key_def)

lemma fst_queue_key [simp]: "fst (queue_key q) = q_consumer_group_id q"
  by (simp add: queue_key_def)

lemma queue_key_group: "queue_key a = queue_key b \<Longrightarrow> q_consumer_group_id a = q_consumer_group_id b"
  by (simp add: queue_key_def)

lemma held_simps [simp]:
  "held [] = []"
  "held (q # qs) = (if in_use q then queue_key q # held qs else held qs)"
  by (simp_all add: held_def)

lemma not_in_use_zero [simp]: "\<not> in_use Queue_zero"
  by (simp add: in_use_def Queue_zero_def)

lemma in_use_magic [simp]: "\<not> in_use (q\<lparr>q_magic := 0\<rparr>)"
  by (simp add: in_use_def)

lemma distinct_by_group: "distinct ks \<longleftrightarrow> (\<forall>c. distinct (filter (\<lambda>k. fst k = c) ks))"
  by (induction ks) auto

text \<open>The pending queues of a group: all of the group, none twice.\<close>

definition pending_ok :: "int \<times> Queue_t list \<Rightarrow> bool" where
  "pending_ok kv \<longleftrightarrow> (\<forall>p \<in> set (snd kv). q_consumer_group_id p = word_of_int (fst kv)) \<and> distinct (map queue_key (snd kv))"

text \<open>The pending queues that became handled between two states of the marks.\<close>

definition newly :: "Queue_t list \<Rightarrow> bool list \<Rightarrow> bool list \<Rightarrow> (u32 \<times> u32 \<times> u32) set" where
  "newly pend marks marks' = {queue_key (pend ! i) | i. i < length pend \<and> marks' ! i \<and> \<not> marks ! i}"

lemma newly_refl [simp]: "newly pend marks marks = {}"
  by (auto simp: newly_def)

lemma newly_mark:
  assumes "distinct (map queue_key pend)" "i < length pend" "length marks = length pend" "\<not> marks ! i" "marks' ! i"
  shows "newly pend marks marks' = insert (queue_key (pend ! i)) (newly pend (marks[i := True]) marks')"
    and "queue_key (pend ! i) \<notin> newly pend (marks[i := True]) marks'"
proof -
  have inj: "queue_key (pend ! j) = queue_key (pend ! k) \<longleftrightarrow> j = k" if "j < length pend" "k < length pend" for j k
    using assms(1) that by (metis length_map nth_eq_iff_index_eq nth_map)
  show "newly pend marks marks' = insert (queue_key (pend ! i)) (newly pend (marks[i := True]) marks')"
    using assms by (auto simp: newly_def nth_list_update)
  show "queue_key (pend ! i) \<notin> newly pend (marks[i := True]) marks'"
    using assms inj by (auto simp: newly_def nth_list_update)
qed

lemma find_upt_Some: "List.find P [0..<n] = Some i \<Longrightarrow> i < n \<and> P i"
  by (auto simp: find_Some_iff)

lemma find_upt_None: "List.find P [0..<n] = None \<longleftrightarrow> (\<forall>i < n. \<not> P i)"
  by (auto simp: find_None_iff)

subsection \<open>Keeping\<close>

definition marks_grow :: "bool list \<Rightarrow> bool list \<Rightarrow> bool" where
  "marks_grow marks marks' \<longleftrightarrow> length marks' = length marks \<and> (\<forall>i < length marks. marks ! i \<longrightarrow> marks' ! i)"

lemma marks_grow_refl [simp]: "marks_grow marks marks"
  by (simp add: marks_grow_def)

lemma marks_grow_update: "marks_grow (marks[i := True]) marks' \<Longrightarrow> i < length marks \<Longrightarrow> marks_grow marks marks' \<and> marks' ! i"
  by (auto simp: marks_grow_def nth_list_update split: if_splits)

lemma keep_queues_held:
  assumes "pending_ok (g, pend)" and "keep_queues g pend qs marks = (qs', marks')" and "length marks = length pend"
  shows "length qs' = length qs \<and> marks_grow marks marks' \<and> distinct (held_by (word_of_int g) qs')
    \<and> set (held_by (word_of_int g) qs') = newly pend marks marks'
    \<and> (\<forall>d. d \<noteq> word_of_int g \<longrightarrow> held_by d qs' = held_by d qs) \<and> free_slots qs \<le> free_slots qs'"
  using assms(2,3)
proof (induction qs arbitrary: marks qs')
  case Nil
  then show ?case by simp
next
  case (Cons q qs)
  let ?c = "word_of_int g :: u32"
  have keys: "distinct (map queue_key pend)" using assms(1) by (simp add: pending_ok_def)
  show ?case
  proof (cases "in_use q \<and> ?c = q_consumer_group_id q")
    case False
    then obtain rest where r: "keep_queues g pend qs marks = (rest, marks')" "qs' = q # rest"
      using Cons.prems(1) by (auto simp: Let_def split: prod.splits)
    with Cons.IH[OF r(1) Cons.prems(2)] False show ?thesis by auto
  next
    case True
    show ?thesis
    proof (cases "\<exists>idx. List.find (\<lambda>idx. same_queue q (pend ! idx)) [0..<length pend] = Some idx \<and> \<not> marks ! idx")
      case False
      then obtain rest where r: "keep_queues g pend qs marks = (rest, marks')" "qs' = Queue_zero # rest"
        using Cons.prems(1) True by (auto simp: Let_def split: prod.splits option.splits if_splits)
      with Cons.IH[OF r(1) Cons.prems(2)] True show ?thesis by auto
    next
      case found: True
      then obtain i where i: "List.find (\<lambda>idx. same_queue q (pend ! idx)) [0..<length pend] = Some i" "\<not> marks ! i" by blast
      then obtain rest where r: "keep_queues g pend qs (marks[i := True]) = (rest, marks')" "qs' = q # rest"
        using Cons.prems(1) True by (auto simp: Let_def split: prod.splits)
      have il: "i < length pend" "queue_key q = queue_key (pend ! i)" using find_upt_Some[OF i(1)] by auto
      note ih = Cons.IH[OF r(1)] 
      have grow: "marks_grow marks marks' \<and> marks' ! i"
        using ih il(1) Cons.prems(2) by (intro marks_grow_update) auto
      note new = newly_mark[OF keys il(1) Cons.prems(2) i(2) conjunct2[OF grow]]
      show ?thesis using ih Cons.prems(2) True r(2) grow new il(2) queue_key_group[OF il(2)] by auto
    qed
  qed
qed

subsection \<open>Filling\<close>

lemma fill_queues_held:
  assumes "pending_ok (g, pend)" and "fill_queues pend qs marks = (qs', marks')" and "length marks = length pend"
    and "distinct (held_by (word_of_int g) qs)"
    and "\<forall>i < length pend. \<not> marks ! i \<longrightarrow> queue_key (pend ! i) \<notin> set (held_by (word_of_int g) qs)"
  shows "length qs' = length qs \<and> marks_grow marks marks' \<and> distinct (held_by (word_of_int g) qs')
    \<and> set (held_by (word_of_int g) qs') = set (held_by (word_of_int g) qs) \<union> newly pend marks marks'
    \<and> (\<forall>d. d \<noteq> word_of_int g \<longrightarrow> held_by d qs' = held_by d qs)"
  using assms(2-5)
proof (induction qs arbitrary: marks qs')
  case Nil
  then show ?case by simp
next
  case (Cons q qs)
  let ?c = "word_of_int g :: u32"
  have keys: "distinct (map queue_key pend)" and grp: "p \<in> set pend \<Longrightarrow> q_consumer_group_id p = ?c" for p
    using assms(1) by (simp_all add: pending_ok_def)
  show ?case
  proof (cases "in_use q")
    case True
    then obtain rest where r: "fill_queues pend qs marks = (rest, marks')" "qs' = q # rest"
      using Cons.prems(1) by (auto simp: Let_def split: prod.splits)
    have ih: "length rest = length qs \<and> marks_grow marks marks' \<and> distinct (held_by ?c rest)
        \<and> set (held_by ?c rest) = set (held_by ?c qs) \<union> newly pend marks marks'
        \<and> (\<forall>d. d \<noteq> ?c \<longrightarrow> held_by d rest = held_by d qs)"
      using Cons.prems True by (intro Cons.IH[OF r(1)]) (auto split: if_splits)
    have "q_consumer_group_id q = ?c \<Longrightarrow> queue_key q \<notin> newly pend marks marks'"
      using Cons.prems(4) True by (auto simp: newly_def)
    then show ?thesis using ih r(2) True Cons.prems(3) by auto
  next
    case free: False
    show ?thesis
    proof (cases "List.find (\<lambda>idx. \<not> marks ! idx) [0..<length pend]")
      case None
      then obtain rest where r: "fill_queues pend qs marks = (rest, marks')" "qs' = q\<lparr>q_magic := 0\<rparr> # rest"
        using Cons.prems(1) free by (auto simp: Let_def split: prod.splits)
      have "length rest = length qs \<and> marks_grow marks marks' \<and> distinct (held_by ?c rest)
        \<and> set (held_by ?c rest) = set (held_by ?c qs) \<union> newly pend marks marks'
        \<and> (\<forall>d. d \<noteq> ?c \<longrightarrow> held_by d rest = held_by d qs)"
        using Cons.prems free by (intro Cons.IH[OF r(1)]) auto
      then show ?thesis using r(2) free by auto
    next
      case (Some i)
      let ?p = "pend ! i"
      let ?q = "q\<lparr>q_magic := LOCK_ITEM_MAGIC, q_consumer_group_id := q_consumer_group_id ?p,
                  q_store_id := q_store_id ?p, q_queue_id := q_queue_id ?p\<rparr>"
      have i: "i < length pend" "\<not> marks ! i" using find_upt_Some[OF Some] by auto
      obtain rest where r: "fill_queues pend qs (marks[i := True]) = (rest, marks')" "qs' = ?q # rest"
        using Cons.prems(1) free Some by (auto simp: Let_def split: prod.splits)
      have q: "in_use ?q" "queue_key ?q = queue_key ?p" by (simp_all add: in_use_def queue_key_def)
      have c: "q_consumer_group_id ?p = ?c" using grp i(1) by simp
      have ih: "length rest = length qs \<and> marks_grow (marks[i := True]) marks' \<and> distinct (held_by ?c rest)
        \<and> set (held_by ?c rest) = set (held_by ?c qs) \<union> newly pend (marks[i := True]) marks'
        \<and> (\<forall>d. d \<noteq> ?c \<longrightarrow> held_by d rest = held_by d qs)"
        using Cons.prems free i by (intro Cons.IH[OF r(1)]) (auto simp: nth_list_update split: if_splits)
      have grow: "marks_grow marks marks' \<and> marks' ! i"
        using ih i(1) Cons.prems(2) by (intro marks_grow_update) auto
      note new = newly_mark[OF keys i(1) Cons.prems(2) i(2) conjunct2[OF grow]]
      have fresh: "queue_key ?p \<notin> set (held_by ?c qs)" using Cons.prems(4) i free by auto
      show ?thesis
        unfolding r(2) held_simps(2) if_P[OF q(1)] q(2) using ih grow new fresh c free by auto
    qed
  qed
qed

text \<open>With a free worker for every pending queue that is left, all are taken.\<close>

abbreviation left_over :: "bool list \<Rightarrow> nat" where
  "left_over marks \<equiv> length (filter Not marks)"

lemma left_over_mark:
  "i < length marks \<Longrightarrow> \<not> marks ! i \<Longrightarrow> left_over marks = Suc (left_over (marks[i := True]))"
proof (induction marks arbitrary: i)
  case (Cons m marks)
  then show ?case by (cases i) simp_all
qed simp

lemma left_over_0: "left_over marks = 0 \<longleftrightarrow> (\<forall>i < length marks. marks ! i)"
  by (simp add: filter_empty_conv all_set_conv_all_nth)

lemma fill_queues_counts:
  assumes "fill_queues pend qs marks = (qs', marks')" and "length marks = length pend"
  shows "length marks' = length pend \<and> left_over marks' = left_over marks - free_slots qs
    \<and> free_slots qs' = free_slots qs - left_over marks"
  using assms
proof (induction qs arbitrary: marks qs')
  case (Cons q qs)
  show ?case
  proof (cases "in_use q")
    case True
    then show ?thesis using Cons by (auto simp: Let_def split: prod.splits)
  next
    case free: False
    show ?thesis
    proof (cases "List.find (\<lambda>idx. \<not> marks ! idx) [0..<length pend]")
      case None
      then have "left_over marks = 0" using Cons.prems(2) left_over_0[of marks] by (auto simp: find_upt_None)
      moreover obtain rest where r: "fill_queues pend qs marks = (rest, marks')" "qs' = q\<lparr>q_magic := 0\<rparr> # rest"
        using Cons.prems(1) None free by (auto simp: Let_def split: prod.splits)
      ultimately show ?thesis using Cons.IH[OF r(1) Cons.prems(2)] free by simp
    next
      case (Some i)
      have i: "i < length pend" "\<not> marks ! i" using find_upt_Some[OF Some] by auto
      obtain rest q' where r: "fill_queues pend qs (marks[i := True]) = (rest, marks')" "qs' = q' # rest" "in_use q'"
        using Cons.prems(1) free Some by (auto simp: Let_def in_use_def split: prod.splits)
      show ?thesis
        using Cons.IH[OF r(1)] Cons.prems(2) left_over_mark[of i marks] i r free by simp
    qed
  qed
qed simp

subsection \<open>A group\<close>

lemma distribute_group_held:
  fixes qs :: "Queue_t list"
  assumes ok: "pending_ok (g, pend)"
  defines "qs' \<equiv> distribute_group (g, pend) qs"
  shows "length qs' = length qs" and "distinct (held_by (word_of_int g) qs')"
    and "set (held_by (word_of_int g) qs') \<subseteq> queue_key ` set pend"
    and "d \<noteq> word_of_int g \<Longrightarrow> held_by d qs' = held_by d qs"
    and "free_slots qs - length pend \<le> free_slots qs'"
    and "length pend \<le> free_slots qs \<Longrightarrow> set (held_by (word_of_int g) qs') = queue_key ` set pend"
proof -
  let ?c = "word_of_int g :: u32" and ?d0 = "replicate (length pend) False"
  obtain qs1 d1 where k: "keep_queues g pend qs ?d0 = (qs1, d1)" by (cases "keep_queues g pend qs ?d0")
  obtain qs2 d2 where f: "fill_queues pend qs1 d1 = (qs2, d2)" by (cases "fill_queues pend qs1 d1")
  have qs': "qs' = qs2" using k f by (simp add: qs'_def distribute_group_def)
  note keep = keep_queues_held[OF ok k length_replicate]
  have l1: "length d1 = length pend" using keep by (simp add: marks_grow_def)
  have inj: "queue_key (pend ! i) = queue_key (pend ! j) \<longleftrightarrow> i = j" if "i < length pend" "j < length pend" for i j
    using ok that unfolding pending_ok_def by (metis length_map nth_eq_iff_index_eq nth_map snd_conv)
  have fresh: "\<forall>i < length pend. \<not> d1 ! i \<longrightarrow> queue_key (pend ! i) \<notin> set (held_by ?c qs1)"
    unfolding conjunct1[OF conjunct2[OF conjunct2[OF conjunct2[OF keep]]]] using inj by (auto simp: newly_def)
  have fill: "length qs2 = length qs1 \<and> marks_grow d1 d2 \<and> distinct (held_by ?c qs2)
    \<and> set (held_by ?c qs2) = set (held_by ?c qs1) \<union> newly pend d1 d2
    \<and> (\<forall>d. d \<noteq> ?c \<longrightarrow> held_by d qs2 = held_by d qs1)"
    by (rule fill_queues_held[OF ok f l1 _ fresh]) (use keep in blast)
  note counts = fill_queues_counts[OF f l1]
  have "newly pend ?d0 d1 \<subseteq> queue_key ` set pend" "newly pend d1 d2 \<subseteq> queue_key ` set pend"
    by (auto simp: newly_def)
  with keep fill show "set (held_by ?c qs') \<subseteq> queue_key ` set pend" unfolding qs' by auto
  show "length qs' = length qs" "distinct (held_by ?c qs')" using keep fill by (simp_all add: qs')
  show "d \<noteq> ?c \<Longrightarrow> held_by d qs' = held_by d qs" using keep fill by (simp add: qs')
  have left: "left_over d1 \<le> length pend" using l1 by (metis length_filter_le)
  have more: "free_slots qs \<le> free_slots qs1" using keep by blast
  show "free_slots qs - length pend \<le> free_slots qs'" using counts left more unfolding qs' by linarith
  assume "length pend \<le> free_slots qs"
  then have "left_over d2 = 0" using left counts keep by linarith
  then have all: "\<forall>i < length pend. d2 ! i" using left_over_0[of d2] counts by simp
  have "queue_key (pend ! i) \<in> newly pend ?d0 d1 \<union> newly pend d1 d2" if "i < length pend" for i
    using all that by (cases "d1 ! i") (auto simp: newly_def)
  then have "queue_key ` set pend \<subseteq> newly pend ?d0 d1 \<union> newly pend d1 d2"
    by (metis image_subsetI in_set_conv_nth)
  with \<open>set (held_by ?c qs') \<subseteq> queue_key ` set pend\<close> keep fill
  show "set (held_by ?c qs') = queue_key ` set pend" unfolding qs' by auto
qed

subsection \<open>All groups\<close>

abbreviation distribute :: "Queue_t list \<Rightarrow> (int \<times> Queue_t list) list \<Rightarrow> Queue_t list" where
  "distribute \<equiv> foldl (\<lambda>queues kv. distribute_group kv queues)"

lemma distribute_keeps:
  "\<forall>kv \<in> set m. pending_ok kv \<and> word_of_int (fst kv) \<noteq> d \<Longrightarrow> held_by d (distribute qs m) = held_by d qs"
proof (induction m arbitrary: qs)
  case (Cons kv m)
  then show ?case using distribute_group_held(4)[of "fst kv" "snd kv" d qs] by force
qed simp

lemma distribute_length: "\<forall>kv \<in> set m. pending_ok kv \<Longrightarrow> length (distribute qs m) = length qs"
proof (induction m arbitrary: qs)
  case (Cons kv m)
  then show ?case using distribute_group_held(1)[of "fst kv" "snd kv" qs] by simp
qed simp

lemma distribute_exclusive:
  "\<forall>kv \<in> set m. pending_ok kv \<Longrightarrow> distinct (held qs) \<Longrightarrow> distinct (held (distribute qs m))"
proof (induction m arbitrary: qs)
  case (Cons kv m)
  have "distinct (held_by c (distribute_group kv qs))" for c
    using Cons.prems distribute_group_held(2)[of "fst kv" "snd kv" qs] distribute_group_held(4)[of "fst kv" "snd kv" c qs]
    by (cases "c = word_of_int (fst kv)") (auto simp: distinct_by_group[of "held qs"])
  then have "distinct (held (distribute_group kv qs))" using distinct_by_group by blast
  then show ?case using Cons by simp
qed simp

text \<open>The groups have different ids, also as the 32-bit values in the table.\<close>

definition groups_ok :: "(int \<times> Queue_t list) list \<Rightarrow> bool" where
  "groups_ok m \<longleftrightarrow> (\<forall>kv \<in> set m. pending_ok kv) \<and> distinct (map (\<lambda>kv. word_of_int (fst kv) :: u32) m)"

lemma distribute_group_result:
  assumes "groups_ok m" and "(g, pend) \<in> set m"
  shows "distinct (held_by (word_of_int g) (distribute qs m))"
    and "set (held_by (word_of_int g) (distribute qs m)) \<subseteq> queue_key ` set pend"
    and "sum_list (map (\<lambda>kv. length (snd kv)) m) \<le> free_slots qs \<Longrightarrow>
         set (held_by (word_of_int g) (distribute qs m)) = queue_key ` set pend"
proof -
  obtain pre post where m: "m = pre @ (g, pend) # post" using assms(2) by (meson split_list)
  let ?qs = "distribute qs pre"
  have ok: "pending_ok (g, pend)" using assms(1) m by (simp add: groups_ok_def)
  have "\<forall>kv \<in> set post. pending_ok kv \<and> word_of_int (fst kv) \<noteq> (word_of_int g :: u32)"
    using assms(1) m by (force simp: groups_ok_def)
  then have eq: "held_by (word_of_int g) (distribute qs m) = held_by (word_of_int g) (distribute_group (g, pend) ?qs)"
    using distribute_keeps[of post "word_of_int g" "distribute_group (g, pend) ?qs"] by (simp add: m)
  show "distinct (held_by (word_of_int g) (distribute qs m))"
    "set (held_by (word_of_int g) (distribute qs m)) \<subseteq> queue_key ` set pend"
    unfolding eq by (rule distribute_group_held(2,3)[OF ok])+
  have free: "free_slots qs - sum_list (map (\<lambda>kv. length (snd kv)) pre) \<le> free_slots (distribute qs pre)"
    if "\<forall>kv \<in> set pre. pending_ok kv" for qs pre
    using that
  proof (induction pre arbitrary: qs)
    case (Cons kv pre)
    have "free_slots qs - length (snd kv) \<le> free_slots (distribute_group kv qs)"
      using Cons.prems distribute_group_held(5)[of "fst kv" "snd kv" qs] by simp
    then show ?case using Cons.IH[of "distribute_group kv qs"] Cons.prems by simp
  qed simp
  assume "sum_list (map (\<lambda>kv. length (snd kv)) m) \<le> free_slots qs"
  then have "length pend \<le> free_slots ?qs"
    using free[of pre qs] assms(1) by (simp add: m groups_ok_def)
  then show "set (held_by (word_of_int g) (distribute qs m)) = queue_key ` set pend"
    unfolding eq by (rule distribute_group_held(6)[OF ok])
qed

subsection \<open>The queues of a group are listed once\<close>

definition is_i32 :: "int \<Rightarrow> bool" where
  "is_i32 i \<longleftrightarrow> - (2 ^ 31) \<le> i \<and> i < 2 ^ 31"

text \<open>The ids of the configuration messages are \<open>int32\<close>.\<close>

definition ids_i32 :: "GlobalConfig \<Rightarrow> int \<Rightarrow> bool" where
  "ids_i32 g topic_id \<longleftrightarrow>
     (\<forall>sc. GetStoreConfig g topic_id = Inr sc \<longrightarrow> (\<forall>s \<in> set (GetAllStoreID sc). is_i32 s)) \<and>
     (\<forall>tc qid qs. GetTopicConfigByTopicID g topic_id = Inr tc \<longrightarrow> GetQueuesByQueueInfoID tc qid = Inr qs \<longrightarrow> (\<forall>q \<in> set qs. is_i32 q)) \<and>
     (\<forall>tc. GetTopicConfigByTopicID g topic_id = Inr tc \<longrightarrow> (\<forall>c. IsValidConsumerGroupID tc c \<longrightarrow> is_i32 c))"

lemma word_of_i32_inj: "is_i32 i \<Longrightarrow> is_i32 j \<Longrightarrow> (word_of_int i :: u32) = word_of_int j \<longleftrightarrow> i = j"
proof -
  have "sint (word_of_int i :: u32) = i" if "is_i32 i" for i
    using that by (simp add: is_i32_def sint_sbintrunc' signed_take_bit_int_eq_self)
  then show "is_i32 i \<Longrightarrow> is_i32 j \<Longrightarrow> ?thesis" by metis
qed

definition listed :: "int \<Rightarrow> (int \<times> int) set \<times> Queue_t list \<Rightarrow> bool" where
  "listed g s \<longleftrightarrow> (\<exists>pairs. distinct pairs \<and> set pairs = fst s
     \<and> map queue_key (snd s) = map (\<lambda>(sid, qid). (word_of_int g, word_of_int sid, word_of_int qid)) pairs
     \<and> (\<forall>(sid, qid) \<in> fst s. is_i32 sid \<and> is_i32 qid))"

lemma foldl_invariant: "(\<And>s x. x \<in> set xs \<Longrightarrow> I s \<Longrightarrow> I (f s x)) \<Longrightarrow> I s \<Longrightarrow> I (foldl f s xs)"
  by (induction xs arbitrary: s) auto

lemma listed_add_queue: "listed g s \<Longrightarrow> is_i32 sid \<Longrightarrow> is_i32 qid \<Longrightarrow> listed g (add_queue g sid pid s qid)"
proof -
  assume a: "listed g s" "is_i32 sid" "is_i32 qid"
  then obtain pairs where p: "distinct pairs" "set pairs = fst s"
    "map queue_key (snd s) = map (\<lambda>(sid, qid). (word_of_int g, word_of_int sid, word_of_int qid)) pairs"
    "\<forall>(sid, qid) \<in> fst s. is_i32 sid \<and> is_i32 qid" unfolding listed_def by blast
  show ?thesis
  proof (cases "(sid, qid) \<in> fst s")
    case True
    then show ?thesis using a(1) by (simp add: add_queue_def case_prod_beta)
  next
    case False
    then show ?thesis
      unfolding listed_def using p a(2,3)
      by (intro exI[of _ "pairs @ [(sid, qid)]"]) (auto simp: add_queue_def case_prod_beta queue_key_def)
  qed
qed

lemma listed_nodup:
  assumes "listed g s"
  shows "(\<forall>q \<in> set (snd s). q_consumer_group_id q = word_of_int g) \<and> distinct (map queue_key (snd s))"
proof -
  obtain pairs where p: "distinct pairs" "set pairs = fst s"
    "map queue_key (snd s) = map (\<lambda>(sid, qid). (word_of_int g, word_of_int sid, word_of_int qid)) pairs"
    "\<forall>(sid, qid) \<in> fst s. is_i32 sid \<and> is_i32 qid" using assms unfolding listed_def by blast
  have "inj_on (\<lambda>(sid, qid). (word_of_int g :: u32, word_of_int sid :: u32, word_of_int qid :: u32)) (set pairs)"
    using p(2,4) by (fastforce simp: inj_on_def dest: word_of_i32_inj[THEN iffD1, rotated 2])
  then have "distinct (map queue_key (snd s))" using p(1) by (simp add: p(3) distinct_map)
  moreover have "fst (queue_key q) = word_of_int g" if "q \<in> set (snd s)" for q
  proof -
    have "queue_key q \<in> set (map queue_key (snd s))" using that by simp
    then show ?thesis unfolding p(3) by (auto simp del: fst_queue_key)
  qed
  ultimately show ?thesis by simp
qed

lemma GetAllQueues_listed:
  assumes "ids_i32 g tid" and "GetAllQueues g tid c = Inr qs"
  shows "(\<forall>q \<in> set qs. q_consumer_group_id q = word_of_int c) \<and> distinct (map queue_key qs)"
proof -
  obtain tc sc where tc: "GetTopicConfigByTopicID g tid = Inr tc" and sc: "GetStoreConfig g tid = Inr sc"
    and qs: "qs = snd (foldl (add_store g tid tc c) ({}, []) (GetAllStoreID sc))"
    using assms(2) by (auto simp: GetAllQueues_def split: sum.splits)
  have sids: "is_i32 sid" if "sid \<in> set (GetAllStoreID sc)" for sid
    using assms(1) sc that by (auto simp: ids_i32_def)
  have qids: "is_i32 q" if "GetQueuesByQueueInfoID tc qid = Inr ql" "q \<in> set ql" for qid ql q
    using assms(1) tc that by (auto simp: ids_i32_def)
  have info: "listed c (add_queue_info tc c sid pid s qid)" if "listed c s" "is_i32 sid" for s sid pid qid
    using that qids unfolding add_queue_info_def
    by (auto split: sum.splits intro!: foldl_invariant[where I = "listed c"] listed_add_queue)
  have pub: "listed c (add_pub tc c sid s pid)" if "listed c s" "is_i32 sid" for s sid pid
    using that info unfolding add_pub_def by (auto split: sum.splits intro!: foldl_invariant[where I = "listed c"])
  have store: "listed c (add_store g tid tc c s sid)" if "listed c s" "is_i32 sid" for s sid
    using that pub unfolding add_store_def by (auto split: sum.splits intro!: foldl_invariant[where I = "listed c"])
  have "listed c (foldl (add_store g tid tc c) ({}, []) (GetAllStoreID sc))"
    using store sids by (intro foldl_invariant[where I = "listed c"]) (auto, simp add: listed_def)
  then show ?thesis unfolding qs by (rule listed_nodup)
qed

lemma GetQueueByAddrScale_distinct: "distinct (GetQueueByAddrScale inet_addr opt queues scales)"
proof -
  have "sorted_wrt (<) (foldl (\<lambda>s i. if P i then set_insert id i s else s) [] [0..<n])
      \<and> (\<forall>x \<in> set (foldl (\<lambda>s i. if P i then set_insert id i s else s) [] [0..<n]). x < n)" for P and n :: nat
  proof (induction n)
    case (Suc n)
    let ?s = "foldl (\<lambda>s i. if P i then set_insert id i s else s) [] [0..<n]"
    have "set_insert id n ?s = ?s @ [n]" using Suc by (intro set_insert_snoc) simp
    then show ?case using Suc by (auto simp: sorted_wrt_append less_SucI)
  qed simp
  then show ?thesis
    by (auto simp: GetQueueByAddrScale_def Let_def simp: strict_sorted_iff)
qed

lemma GetPendingQueues_ok:
  assumes "ids_i32 g tid" and "GetAllQueues g tid c = Inr qs"
  shows "pending_ok (c, GetPendingQueues inet_addr opt qs scales)"
proof -
  note all = GetAllQueues_listed[OF assms]
  let ?idxs = "GetQueueByAddrScale inet_addr opt qs scales"
  have lt: "i < length qs" if "i \<in> set ?idxs" for i using that by (simp add: set_GetQueueByAddrScale)
  have "inj_on (\<lambda>i. queue_key (qs ! i)) (set ?idxs)"
    using all lt by (auto simp: inj_on_def distinct_conv_nth)
  then have "distinct (map (\<lambda>i. queue_key (qs ! i)) ?idxs)"
    by (simp add: distinct_map GetQueueByAddrScale_distinct)
  then show ?thesis using all lt by (auto simp: pending_ok_def GetPendingQueues_def o_def)
qed

subsection \<open>Workers that keep their queue\<close>

lemma keep_queues_same:
  assumes "keep_queues g pend qs marks = (qs', marks')" and "length marks = length pend"
    and "distinct (map queue_key pend)" and "distinct (held_by (word_of_int g) qs)"
    and "\<forall>i < length pend. marks ! i \<longrightarrow> queue_key (pend ! i) \<notin> set (held_by (word_of_int g) qs)"
    and "v < length qs" and "in_use (qs ! v)"
    and "q_consumer_group_id (qs ! v) = word_of_int g \<Longrightarrow> queue_key (qs ! v) \<in> queue_key ` set pend"
  shows "qs' ! v = qs ! v"
  using assms
proof (induction qs arbitrary: marks qs' v)
  case (Cons q qs)
  let ?c = "word_of_int g :: u32"
  obtain q1 m1 rest where q1: "(if in_use q \<and> ?c = q_consumer_group_id q then
           case List.find (\<lambda>idx. same_queue q (pend ! idx)) [0..<length pend] of
             None \<Rightarrow> (Queue_zero, marks)
           | Some idx \<Rightarrow> if \<not> marks ! idx then (q, marks[idx := True]) else (Queue_zero, marks)
         else (q, marks)) = (q1, m1)" and r: "keep_queues g pend qs m1 = (rest, marks')" "qs' = q1 # rest"
    using Cons.prems(1) by (auto simp: Let_def split: prod.splits)
  have tail: "distinct (held_by ?c qs)" using Cons.prems(4) by (auto split: if_splits)
  have m1: "length m1 = length pend \<and> (\<forall>i < length pend. m1 ! i \<longrightarrow> queue_key (pend ! i) \<notin> set (held_by ?c qs))"
    using q1 Cons.prems(2,4,5)
    by (auto simp: nth_list_update split: if_splits option.splits dest!: find_upt_Some)
  show ?case
  proof (cases v)
    case 0
    show ?thesis
    proof (cases "?c = q_consumer_group_id q")
      case True
      then obtain i where i: "i < length pend" "queue_key q = queue_key (pend ! i)"
        using Cons.prems(8) 0 by (auto simp: in_set_conv_nth)
      have "\<not> marks ! j" if "j < length pend" "queue_key q = queue_key (pend ! j)" for j
        using Cons.prems(5,7) 0 that True queue_key_group[OF that(2)] by auto
      then have "q1 = q" using q1 True Cons.prems(7) 0 i
        by (auto split: if_splits option.splits dest!: find_upt_Some simp: find_upt_None)
      then show ?thesis using r(2) 0 by simp
    next
      case False
      then show ?thesis using q1 r(2) 0 by auto
    qed
  next
    case (Suc u)
    then show ?thesis
      using Cons.IH[OF r(1) conjunct1[OF m1] Cons.prems(3) tail conjunct2[OF m1], of u] Cons.prems(6-8) r(2) by simp
  qed
qed simp

lemma fill_queues_same: "fill_queues pend qs marks = (qs', marks') \<Longrightarrow> v < length qs \<Longrightarrow> in_use (qs ! v) \<Longrightarrow> qs' ! v = qs ! v"
proof (induction qs arbitrary: marks qs' v)
  case (Cons q qs)
  obtain q1 m1 rest where r: "fill_queues pend qs m1 = (rest, marks')" "qs' = q1 # rest" "in_use q \<longrightarrow> q1 = q"
    using Cons.prems(1) by (auto simp: Let_def split: prod.splits if_splits)
  then show ?case using Cons.IH[OF r(1)] Cons.prems(2,3) by (cases v) auto
qed simp

lemma distribute_group_same:
  assumes ok: "pending_ok (g, pend)" and "distinct (held qs)" and v: "v < length qs" "in_use (qs ! v)"
    and "q_consumer_group_id (qs ! v) = word_of_int g \<Longrightarrow> queue_key (qs ! v) \<in> queue_key ` set pend"
  shows "distribute_group (g, pend) qs ! v = qs ! v"
proof -
  let ?d0 = "replicate (length pend) False"
  obtain qs1 d1 where k: "keep_queues g pend qs ?d0 = (qs1, d1)" by (cases "keep_queues g pend qs ?d0")
  have "qs1 ! v = qs ! v"
    using assms by (intro keep_queues_same[OF k]) (auto simp: pending_ok_def distinct_by_group[of "held qs"])
  moreover have "length qs1 = length qs" using keep_queues_held[OF ok k length_replicate] by blast
  ultimately show ?thesis
    using fill_queues_same[of pend qs1 d1 _ _ v] v k by (auto simp: distribute_group_def split: prod.splits)
qed

lemma distribute_same:
  assumes "\<forall>kv \<in> set m. pending_ok kv" and "distinct (held qs)" and "v < length qs" and "in_use (qs ! v)"
    and "\<forall>kv \<in> set m. q_consumer_group_id (qs ! v) = word_of_int (fst kv) \<longrightarrow> queue_key (qs ! v) \<in> queue_key ` set (snd kv)"
  shows "distribute qs m ! v = qs ! v"
  using assms
proof (induction m arbitrary: qs)
  case (Cons kv m)
  have same: "distribute_group kv qs ! v = qs ! v"
    using Cons.prems distribute_group_same[of "fst kv" "snd kv" qs v] by simp
  have "distinct (held (distribute_group kv qs))" "length (distribute_group kv qs) = length qs"
    using Cons.prems distribute_exclusive[of "[kv]" qs] distribute_length[of "[kv]" qs] by simp_all
  then show ?case using Cons same by simp
qed simp

subsection \<open>Properties of the distribution\<close>

text \<open>A sync that sees the weights and the configuration it has noted changes nothing.\<close>

lemma sync_consumer_groups_unchanged:
  assumes "hb_magic hb = LOCK_BUF_MAGIC" and "mod_time = hb_conf_last_mod_time hb"
    and "\<forall>(c, scales) \<in> set groups. CalHash crc32 scales = scale_hash_of hb c"
  shows "sync_consumer_groups inet_addr crc32 g opt tid mod_time groups pending hb = (RET_OK, pending, hb)"
  using assms(3)
proof (induction groups)
  case (Cons p groups)
  then show ?case using assms(1,2) by (cases p) (simp add: Let_def)
qed simp

text \<open>Distributing the pending queues: the table keeps its size, no queue is handled by two
  workers, a group that is distributed handles only queues of its list, the other groups handle what
  they did, and a worker whose queue is still on the list of its group (or whose group is not
  distributed) goes on with it.\<close>

theorem DistubePendingQueues_assigns:
  assumes "groups_ok m" and "distinct (held (hb_queues hb))"
  shows "let queues = hb_queues hb; queues' = hb_queues (DistubePendingQueues m hb) in
    length queues' = length queues \<and> distinct (held queues')
    \<and> (\<forall>(g, pend) \<in> set m. set (held_by (word_of_int g) queues') \<subseteq> queue_key ` set pend)
    \<and> (\<forall>d. d \<notin> (\<lambda>kv. word_of_int (fst kv)) ` set m \<longrightarrow> held_by d queues' = held_by d queues)
    \<and> (\<forall>v < length queues. in_use (queues ! v)
         \<and> (\<forall>(g, pend) \<in> set m. q_consumer_group_id (queues ! v) = word_of_int g \<longrightarrow> queue_key (queues ! v) \<in> queue_key ` set pend)
         \<longrightarrow> queues' ! v = queues ! v)"
proof -
  have ok: "\<forall>kv \<in> set m. pending_ok kv" using assms(1) by (simp add: groups_ok_def)
  show ?thesis
    unfolding Let_def
  proof (intro conjI allI impI ballI)
    show "length (hb_queues (DistubePendingQueues m hb)) = length (hb_queues hb)"
      by (simp add: DistubePendingQueues_def distribute_length[OF ok])
    show "distinct (held (hb_queues (DistubePendingQueues m hb)))"
      by (simp add: DistubePendingQueues_def distribute_exclusive[OF ok assms(2)])
  next
    fix kv assume "kv \<in> set m"
    then show "case kv of (g, pend) \<Rightarrow> set (held_by (word_of_int g) (hb_queues (DistubePendingQueues m hb))) \<subseteq> queue_key ` set pend"
      using distribute_group_result(2)[OF assms(1)] by (simp add: DistubePendingQueues_def case_prod_beta del: set_filter)
  next
    fix d :: u32 assume "d \<notin> (\<lambda>kv. word_of_int (fst kv)) ` set m"
    then show "held_by d (hb_queues (DistubePendingQueues m hb)) = held_by d (hb_queues hb)"
      using ok by (simp add: DistubePendingQueues_def) (rule distribute_keeps, blast)
  next
    fix v assume "v < length (hb_queues hb)" and "in_use (hb_queues hb ! v)
        \<and> (\<forall>(g, pend) \<in> set m. q_consumer_group_id (hb_queues hb ! v) = word_of_int g \<longrightarrow> queue_key (hb_queues hb ! v) \<in> queue_key ` set pend)"
    then show "hb_queues (DistubePendingQueues m hb) ! v = hb_queues hb ! v"
      using distribute_same[OF ok assms(2)] by (simp add: DistubePendingQueues_def case_prod_beta)
  qed
qed

text \<open>With as many free workers as there are pending queues, every pending queue gets a worker.\<close>

theorem DistubePendingQueues_complete:
  assumes "groups_ok m" and "sum_list (map (\<lambda>kv. length (snd kv)) m) \<le> free_slots (hb_queues hb)"
    and "(g, pend) \<in> set m" and "p \<in> set pend"
  shows "\<exists>v < length (hb_queues hb). in_use (hb_queues (DistubePendingQueues m hb) ! v)
    \<and> queue_key (hb_queues (DistubePendingQueues m hb) ! v) = queue_key p"
proof -
  have "queue_key p \<in> set (held (hb_queues (DistubePendingQueues m hb)))"
    using distribute_group_result(3)[OF assms(1,3,2)] assms(4) by (auto simp: DistubePendingQueues_def)
  moreover have "length (hb_queues (DistubePendingQueues m hb)) = length (hb_queues hb)"
    using assms(1) by (simp add: DistubePendingQueues_def groups_ok_def distribute_length)
  ultimately show ?thesis by (auto simp: held_def in_set_conv_nth)
qed

definition group_queue :: "u32 \<Rightarrow> u32 \<Rightarrow> Queue_t" where
  "group_queue g q = Queue_zero\<lparr>q_consumer_group_id := g, q_store_id := 1, q_queue_id := q\<rparr>"

definition busy :: "Queue_t \<Rightarrow> Queue_t" where
  "busy q = q\<lparr>q_magic := LOCK_ITEM_MAGIC\<rparr>"

lemmas table_simps = distribute_group_def in_use_def busy_def group_queue_def Queue_zero_def queue_key_def upt_rec

theorem DistubePendingQueues_assigns_witness:
  "let hb = HBLock_new\<lparr>hb_queues := [busy (group_queue 2 1), Queue_zero]\<rparr>;
       queues' = hb_queues (DistubePendingQueues [(1, [group_queue 1 7]), (2, [group_queue 2 1])] hb)
   in distinct (held queues') \<and> queues' ! 0 = busy (group_queue 2 1)"
proof -
  have "groups_ok [(1, [group_queue 1 7]), (2, [group_queue 2 1])]"
    by (simp add: groups_ok_def pending_ok_def group_queue_def)
  moreover have "distinct (held (hb_queues (HBLock_new\<lparr>hb_queues := [busy (group_queue 2 1), Queue_zero]\<rparr>)))"
    by simp
  ultimately show ?thesis
    unfolding Let_def by (auto dest!: DistubePendingQueues_assigns simp: Let_def in_use_def busy_def group_queue_def queue_key_def)
qed

theorem DistubePendingQueues_complete_witness:
  "\<exists>v < 2. queue_key (hb_queues (DistubePendingQueues [(1, [group_queue 1 7, group_queue 1 8])]
      (HBLock_new\<lparr>hb_queues := [Queue_zero, Queue_zero]\<rparr>)) ! v) = queue_key (group_queue 1 8)"
  using DistubePendingQueues_complete[of "[(1, [group_queue 1 7, group_queue 1 8])]"
      "HBLock_new\<lparr>hb_queues := [Queue_zero, Queue_zero]\<rparr>" 1 "[group_queue 1 7, group_queue 1 8]" "group_queue 1 8"]
  by (auto simp: groups_ok_def pending_ok_def group_queue_def queue_key_def eval_nat_numeral)

text \<open>Without free workers a queue can be left without a worker although one becomes free: the
  groups are distributed one after the other, and a worker that a later group gives up is not offered
  to an earlier one. Here two workers handle queues 1 and 2 of group 2; group 1 then gets queue 7
  and group 2 keeps queue 1 only. The worker of queue 2 ends up free and queue 7 of group 1 has none.\<close>

theorem DistubePendingQueues_starves:
  "let hb = HBLock_new\<lparr>hb_queues := [busy (group_queue 2 1), busy (group_queue 2 2)]\<rparr>;
       m = [(1, [group_queue 1 7]), (2, [group_queue 2 1])];
       queues' = hb_queues (DistubePendingQueues m hb)
   in groups_ok m \<and> free_slots queues' = 1 \<and> queue_key (group_queue 1 7) \<notin> set (held queues')"
  by (simp add: groups_ok_def pending_ok_def DistubePendingQueues_def table_simps)

subsection \<open>A whole sync\<close>

lemma sync_consumer_groups_pending:
  assumes "ids_i32 g tid"
    and "sync_consumer_groups inet_addr crc32 g opt tid mod_time groups pending hb = (ret, pending', hb')"
    and "\<forall>kv \<in> set pending. pending_ok kv"
  shows "(\<forall>kv \<in> set pending'. pending_ok kv) \<and> hb_queues hb' = hb_queues hb
    \<and> fst ` set pending' \<subseteq> fst ` set pending \<union> fst ` set groups"
  using assms(2,3)
proof (induction groups arbitrary: pending hb)
  case Nil
  then show ?case by simp
next
  case (Cons p groups)
  obtain c scales where p: "p = (c, scales)" by (cases p)
  show ?case
  proof (cases "hb_magic hb = LOCK_BUF_MAGIC \<and> mod_time = hb_conf_last_mod_time hb \<and> CalHash crc32 scales = scale_hash_of hb c")
    case True
    then show ?thesis using Cons.IH[of pending hb] Cons.prems p by (auto simp: Let_def)
  next
    case False
    show ?thesis
    proof (cases "GetAllQueues g tid c")
      case (Inl e)
      then show ?thesis using Cons.prems p False by (auto simp: Let_def)
    next
      case (Inr qs)
      let ?pending = "map_assign c (GetPendingQueues inet_addr opt qs scales) pending"
      have run: "sync_consumer_groups inet_addr crc32 g opt tid mod_time groups ?pending
          (hb\<lparr>hb_scale_hashs := map_assign c (CalHash crc32 scales) (hb_scale_hashs hb)\<rparr>) = (ret, pending', hb')"
        using Cons.prems(1) p False Inr by (auto simp: Let_def)
      have ok: "\<forall>kv \<in> set ?pending. pending_ok kv"
        using set_map_assign[of c "GetPendingQueues inet_addr opt qs scales" pending] Cons.prems(2)
          GetPendingQueues_ok[OF assms(1) Inr] by auto
      then show ?thesis using Cons.IH[OF run ok] p by (auto simp: keys_map_assign)
    qed
  qed
qed

lemma held_ClearInvalid:
  "held (hb_queues (ClearInvalidConsumerGroupIDs ids hb)) = filter (\<lambda>k. sint (fst k) \<in> set ids) (held (hb_queues hb))"
proof -
  have "held (map (\<lambda>q. if in_use q \<and> sint (q_consumer_group_id q) \<notin> set ids then Queue_zero else q) qs)
      = filter (\<lambda>k. sint (fst k) \<in> set ids) (held qs)" for qs
    by (induction qs) auto
  then show ?thesis by (simp add: ClearInvalidConsumerGroupIDs_def)
qed

lemma add_addr_scale_keys:
  "fst ` set (add_addr_scale inet_addr g tid c m p) \<subseteq> insert c (fst ` set m)"
  by (auto simp: add_addr_scale_def keys_map_assign split: sum.splits if_splits)

lemma GetAddrScale_groups:
  assumes "HBLock_GetAddrScale inet_addr g opt tid cpu GetScale hb w = (Inr m, w')"
  shows "\<exists>ids. GetConsumerGroupIDsByConsumerAddr inet_addr g tid (local_addr opt) = Inr ids \<and> fst ` set m \<subseteq> set ids"
proof -
  have step: "fst ` set (foldl (add_addr_scale inet_addr g tid c) m ps) \<subseteq> insert c (fst ` set m)" for c m ps
    by (induction ps arbitrary: m) (auto dest!: add_addr_scale_keys[THEN subsetD])
  have all: "fst ` set (foldl (\<lambda>m c. foldl (add_addr_scale inet_addr g tid c) m (f c)) m ids) \<subseteq> fst ` set m \<union> set ids" for f m ids
  proof (induction ids arbitrary: m)
    case (Cons c ids)
    show ?case using Cons[of "foldl (add_addr_scale inet_addr g tid c) m (f c)"] step[of c m "f c"] by auto
  qed simp
  show ?thesis
    using assms unfolding HBLock_GetAddrScale_def
    by (auto simp: Let_def split: sum.splits prod.splits if_splits dest!: all[THEN subsetD, of _ _ "[]", simplified])
qed

lemma GetAddrScale_error: "HBLock_GetAddrScale inet_addr g opt tid cpu GetScale hb w = (Inl ret, w') \<Longrightarrow> ret \<noteq> RET_OK"
  by (auto simp: HBLock_GetAddrScale_def GetConsumerConfig_def GetConsumerGroupIDsByConsumerAddr_def GetConsumerByAddr_def
      GetTopicConfigByTopicID_def Let_def split: option.splits sum.splits prod.splits if_splits)

lemma distribute_groups:
  assumes ok: "\<forall>kv \<in> set pending. pending_ok kv" and keys: "fst ` set pending \<subseteq> ids"
    and before: "\<forall>k \<in> set (held qs). sint (fst k) \<in> ids" and k: "k \<in> set (held (distribute qs pending))"
  shows "fst k \<in> word_of_int ` ids"
proof (cases "fst k \<in> (\<lambda>kv. word_of_int (fst kv)) ` set pending")
  case True
  then show ?thesis using keys by force
next
  case False
  then have "\<forall>kv \<in> set pending. pending_ok kv \<and> word_of_int (fst kv) \<noteq> fst k" using ok by force
  then have "held_by (fst k) (distribute qs pending) = held_by (fst k) qs" by (rule distribute_keeps)
  moreover have "k \<in> set (held_by (fst k) (distribute qs pending))" using k by simp
  ultimately have "k \<in> set (held qs)" by simp
  then have "sint (fst k) \<in> ids" using before by simp
  moreover have "fst k = word_of_int (sint (fst k))" by simp
  ultimately show ?thesis by (rule rev_image_eqI)
qed

text \<open>C19: A sync never lets two workers of the machine handle the same queue for the same group, also
  when it fails half way; and after a successful one the workers handle queues of the machine's
  groups only.\<close>

theorem Sync_exclusive:
  assumes "ids_i32 g topic_id" and "distinct (held (hb_queues hb))"
    and "Sync inet_addr crc32 g opt topic_id cpu GetScale hb w = (ret, hb', w')"
  shows "distinct (held (hb_queues hb')) \<and> length (hb_queues hb') = length (hb_queues hb)
    \<and> (ret = RET_OK \<longrightarrow> (\<exists>ids. GetConsumerGroupIDsByConsumerAddr inet_addr g topic_id (local_addr opt) = Inr ids
         \<and> (\<forall>q \<in> set (hb_queues hb'). in_use q \<longrightarrow> q_consumer_group_id q \<in> word_of_int ` set ids)))"
proof -
  let ?hb = "UpdateProcUsed hb"
  obtain r w1 where scale: "HBLock_GetAddrScale inet_addr g opt topic_id cpu GetScale ?hb w = (r, w1)" by fastforce
  have u: "hb_queues ?hb = hb_queues hb" by (simp add: UpdateProcUsed_def)
  show ?thesis
  proof (cases r)
    case (Inl e)
    then have "ret \<noteq> RET_OK" "hb' = ?hb" using assms(3) scale GetAddrScale_error[OF scale[unfolded Inl]] by (auto simp: Sync_def Let_def)
    then show ?thesis using assms(2) u by simp
  next
    case (Inr m)
    obtain ret2 pending hb2 where s: "sync_consumer_groups inet_addr crc32 g opt topic_id (GetLastModTime g topic_id) m []
        (ClearInvalidConsumerGroupIDs (map fst m) ?hb) = (ret2, pending, hb2)" by (metis prod_cases3)
    have ok: "\<forall>kv \<in> set pending. pending_ok kv" and keys: "fst ` set pending \<subseteq> fst ` set m"
      and q2: "hb_queues hb2 = hb_queues (ClearInvalidConsumerGroupIDs (map fst m) ?hb)"
      using sync_consumer_groups_pending[OF assms(1) s] by simp_all
    have d: "distinct (held (hb_queues hb2))" using q2 assms(2) u by (simp add: held_ClearInvalid)
    have l: "length (hb_queues hb2) = length (hb_queues hb)" using q2 u by (simp add: ClearInvalidConsumerGroupIDs_def)
    obtain ids where ids: "GetConsumerGroupIDsByConsumerAddr inet_addr g topic_id (local_addr opt) = Inr ids" "fst ` set m \<subseteq> set ids"
      using GetAddrScale_groups[OF scale[unfolded Inr]] by blast
    have "fst k \<in> word_of_int ` set ids" if "k \<in> set (held (distribute (hb_queues hb2) pending))" for k
      using keys ids(2) q2 by (intro distribute_groups[OF ok _ _ that]) (auto simp: held_ClearInvalid)
    moreover have "queue_key q \<in> set (held qs)" if "q \<in> set qs" "in_use q" for q qs using that by (simp add: held_def)
    ultimately have grp: "\<forall>q \<in> set (distribute (hb_queues hb2) pending). in_use q \<longrightarrow> q_consumer_group_id q \<in> word_of_int ` set ids"
      by (metis fst_queue_key)
    show ?thesis
    proof (cases "ret2 = RET_OK")
      case True
      then have "hb' = (DistubePendingQueues pending hb2)\<lparr>hb_conf_last_mod_time := GetLastModTime g topic_id\<rparr>"
        using assms(3) scale Inr s by (simp add: Sync_def Let_def)
      then show ?thesis
        using distribute_exclusive[OF ok d] distribute_length[OF ok, of "hb_queues hb2"] l ids(1) grp
        by (simp add: DistubePendingQueues_def)
    next
      case False
      then have "hb' = hb2 \<and> ret = ret2" using assms(3) scale Inr s by (simp add: Sync_def Let_def)
      then show ?thesis using d l False by simp
    qed
  qed
qed

definition sync_sample_config :: GlobalConfig where
  "sync_sample_config = GlobalConfig_empty\<lparr>
     topic_id2topic_config := [(1000, (TopicConfig_of TopicConfig_ReadConfig)\<lparr>
       pub_id2pub := [(1, hd (tp_pubs TopicConfig_ReadConfig))], queue_info_id2ranges := [(1, [(0, 9)])],
       consumer_group_id2consumer_group := [(1, hd (tp_consumer_groups TopicConfig_ReadConfig))]\<rparr>)],
     topic_id2store_config := [(1000, \<lparr>sc_stores = StoreConfig_ReadConfig, sc_last_mod_time = 1,
       store_id2store = [(1, hd StoreConfig_ReadConfig)], addr2store_id = []\<rparr>)],
     topic_id2consumer_config := [(1000, \<lparr>cc_consumers = ConsumerConfig_ReadConfig, cc_last_mod_time = 1,
       addr2consumer = [(0x0100007F1F410000, hd ConsumerConfig_ReadConfig)]\<rparr>)]\<rparr>"

lemma sync_sample_ids: "ids_i32 sync_sample_config 1000"
  by (auto simp: ids_i32_def sync_sample_config_def GlobalConfig_empty_def GetStoreConfig_def GetTopicConfigByTopicID_def
      GetAllStoreID_def GetQueuesByQueueInfoID_def IsValidConsumerGroupID_def is_i32_def TopicConfig_of_def queues_of_ranges_def
      upto_rec1 split: if_splits)

theorem Sync_exclusive_witness:
  "\<exists>ret hb' w'. Sync sample_inet_addr (\<lambda>h bs. h + of_nat (length bs)) sync_sample_config sample_option 1000 10
     (\<lambda>req w. (RET_ERR_SYS, [], w)) (HBLock_new\<lparr>hb_nproc := 3, hb_queues := [busy (group_queue 1 2), Queue_zero, Queue_zero]\<rparr>) ()
     = (ret, hb', w') \<and> distinct (held (hb_queues hb')) \<and> length (hb_queues hb') = 3"
proof -
  obtain ret hb' w' where s: "Sync sample_inet_addr (\<lambda>h bs. h + of_nat (length bs)) sync_sample_config sample_option 1000 10
     (\<lambda>req w. (RET_ERR_SYS, [], w)) (HBLock_new\<lparr>hb_nproc := 3, hb_queues := [busy (group_queue 1 2), Queue_zero, Queue_zero]\<rparr>) ()
     = (ret, hb', w')" by (metis prod_cases3)
  show ?thesis using Sync_exclusive[OF sync_sample_ids _ s] s by simp
qed

subsection \<open>The lock of a queue\<close>

text \<open>Nothing ever assigns the key of the last lock but the branch that needs one: it stays empty.\<close>

lemma release_old_lock_idle:
  "lt_last_lock_key t = [] \<Longrightarrow> release_old_lock Acquire topic_id lid lock_key client_id t w = (t, w)"
  by (simp add: release_old_lock_def)

lemma observe_keeps_key: "lt_last_lock_key (snd (observe_queue_lock client_id now info t)) = lt_last_lock_key t"
  by (simp add: observe_queue_lock_def)

lemma DoLock_keeps_key:
  assumes "lt_last_lock_key t = []" and "DoLock g opt topic_id Get Acquire clock vpid queue t w = (ret, t', w')"
  shows "lt_last_lock_key t' = []"
proof -
  have obs: "lt_last_lock_key t1 = []" if "observe_queue_lock c now info t = (b, t1)" for c now info b t1
    using that observe_keeps_key[of c now info t] assms(1) by simp
  show ?thesis
    using assms(2) assms(1) unfolding DoLock_def release_old_lock_idle[OF assms(1)]
    by (auto simp: Let_def split: sum.splits list.splits prod.splits if_splits dest: obs)
qed

text \<open>
  What follows from it, in a small world: the table of the locks and the next instance. The lock
  service answers a query with the record and executes a request as its state machine does.
\<close>

type_synonym lock_world = "u64 \<times> (string \<rightharpoonup> LocalRecordInfo)"

definition world_get :: "GetLockInfoRequest \<Rightarrow> lock_world \<Rightarrow> RetCode \<times> GetLockInfoResponse \<times> lock_world" where
  "world_get req w =
     (case snd w (gl_lock_key req) of
        None \<Rightarrow> (RET_ERR_KEY_NOT_EXIST, \<lparr>gl_lock_info = None, gl_redirect_addr = None\<rparr>, w)
      | Some v \<Rightarrow> (RET_OK, \<lparr>gl_lock_info = Some (LocalRecordInfo2LockInfo v (LockInfo_default\<lparr>lk_lock_key := gl_lock_key req\<rparr>)),
                              gl_redirect_addr = None\<rparr>, w))"

definition world_acquire :: "AcquireLockRequest \<Rightarrow> lock_world \<Rightarrow> RetCode \<times> lock_world" where
  "world_acquire req w =
     (let (ret, m) = sm_spec (fst w) (acquire_args req) (snd w) in (case ret of None \<Rightarrow> RET_ERR_SYS | Some r \<Rightarrow> r, fst w + 1, m))"

text \<open>A queue in use whose consumer group does not skip the lock, and the lock service that is asked for it.\<close>

definition lockable :: "GlobalConfig \<Rightarrow> int \<Rightarrow> TopicConfig \<Rightarrow> int \<Rightarrow> Queue_t \<Rightarrow> bool" where
  "lockable g topic_id tc lid q \<longleftrightarrow> in_use q \<and> GetTopicConfigByTopicID g topic_id = Inr tc
     \<and> (\<exists>cg. GetConsumerGroupByConsumerGroupID tc (sint (q_consumer_group_id q)) = Inr cg \<and> cg_skip_lock cg = 0)
     \<and> (\<exists>lc lids. GetLockConfig g topic_id = Inr lc \<and> GetAllLockID lc = lid # lids)"

lemma world_DoLock:
  assumes "lockable g topic_id tc lid q" and "lt_last_lock_key t = []" and "snd w (queue_lock_key topic_id q) = Some r"
  shows "DoLock g opt topic_id world_get world_acquire (\<lambda>_. now) vpid q t w =
    (let c = worker_client_id opt vpid;
         (need, t) = observe_queue_lock c now (LocalRecordInfo2LockInfo r (LockInfo_default\<lparr>lk_lock_key := queue_lock_key topic_id q\<rparr>)) t
     in if need then let (ret, w) = world_acquire (lock_request topic_id lid (queue_lock_key topic_id q) c (lt_version t)
            (word_of_int (consumer_lock_lease_time_s (topic_of tc)) * 1000)) w in (ret, t, w)
        else (RET_NO_NEED_LOCK, t, w))"
  using assms by (auto simp: lockable_def DoLock_def release_old_lock_idle[OF assms(2)] world_get_def Let_def case_prod_beta)

lemma queue_lock_key_nonempty: "queue_lock_key topic_id q \<noteq> []"
  by (simp add: queue_lock_key_def)

lemma world_acquire_grants:
  assumes "snd w k = Some r" and "lr_version r = ver" and "k \<noteq> []" and "lease \<noteq> 0"
  shows "world_acquire (lock_request topic_id lid k c ver lease) w =
    (RET_OK, fst w + 1, (snd w)(k \<mapsto> \<lparr>lr_version = fst w, lr_value = c, lr_lease_time_ms = lease, lr_expire_time_ms = 0\<rparr>))"
  using assms by (simp add: world_acquire_def sm_spec_def update_of_acquire cas_spec_def lock_request_def unexp_def Let_def)

text \<open>C39: Since the key of the last lock is never noted, the version and the deadline that a worker has
  seen for one lock are taken for those of the next. A worker that saw the lock of one queue and is later given
  another one, whose lock carries the same version (it is of another paxos group) and is leased by another worker,
  takes it at once when the lease it had seen on the first lock has passed. With a fresh memory
  it would have waited for the other worker.\<close>

theorem DoLock_steals_live_lock:
  assumes cfg: "lockable g topic_id tc lid q1" "lockable g topic_id tc lid q2"
      "word_of_int (consumer_lock_lease_time_s (topic_of tc)) * 1000 \<noteq> (0 :: u64)"
    and other: "queue_lock_key topic_id q1 \<noteq> queue_lock_key topic_id q2"
    and first: "DoLock g opt topic_id world_get world_acquire (\<lambda>_. now1) vpid q1 t0 w1 = (ret1, t1, w1')"
      "lt_last_lock_key t0 = []" "snd w1 (queue_lock_key topic_id q1) = Some r1" "lt_version t0 \<noteq> lr_version r1"
    and live: "snd w2 (queue_lock_key topic_id q2) = Some r2" "lr_value r2 \<noteq> worker_client_id opt vpid"
    and ver: "lr_version r2 = lr_version r1" "lr_version r2 \<noteq> 0"
    and time: "now1 + lr_lease_time_ms r1 < now2" "now2 \<le> now2 + lr_lease_time_ms r2"
  shows "\<exists>t2 w2'. DoLock g opt topic_id world_get world_acquire (\<lambda>_. now2) vpid q2 t1 w2 = (RET_OK, t2, w2')
    \<and> map_option lr_value (snd w2' (queue_lock_key topic_id q2)) = Some (worker_client_id opt vpid)
    \<and> fst (DoLock g opt topic_id world_get world_acquire (\<lambda>_. now2) vpid q2 LockThread_new w2) = RET_NO_NEED_LOCK"
proof -
  let ?k = "queue_lock_key topic_id q2" and ?c = "worker_client_id opt vpid"
  have t1: "lt_last_lock_key t1 = []" "lt_version t1 = lr_version r2" "lt_overdue_time_ms t1 = now1 + lr_lease_time_ms r1"
    using DoLock_keeps_key[OF first(2,1)] first(1,4) ver(1) world_DoLock[OF cfg(1) first(2,3), of opt now1 vpid]
    by (auto simp: observe_queue_lock_def LocalRecordInfo2LockInfo_def Let_def split: if_splits prod.splits)
  have "DoLock g opt topic_id world_get world_acquire (\<lambda>_. now2) vpid q2 t1 w2 =
      (RET_OK, t1, fst w2 + 1, (snd w2)(?k \<mapsto> \<lparr>lr_version = fst w2, lr_value = ?c,
         lr_lease_time_ms = word_of_int (consumer_lock_lease_time_s (topic_of tc)) * 1000, lr_expire_time_ms = 0\<rparr>))"
    using world_DoLock[OF cfg(2) t1(1) live(1), of opt now2 vpid] t1(2,3) time(1)
      world_acquire_grants[OF live(1) refl queue_lock_key_nonempty cfg(3)]
    by (simp add: observe_queue_lock_def LocalRecordInfo2LockInfo_def Let_def)
  moreover have new: "lt_last_lock_key LockThread_new = []" by (simp add: LockThread_new_def)
  moreover have "DoLock g opt topic_id world_get world_acquire (\<lambda>_. now2) vpid q2 LockThread_new w2 =
      (RET_NO_NEED_LOCK, LockThread_new\<lparr>lt_version := lr_version r2, lt_overdue_time_ms := now2 + lr_lease_time_ms r2\<rparr>, w2)"
    using world_DoLock[OF cfg(2) new live(1), of opt now2 vpid] ver(2) live(2) leD[OF time(2)]
    by (simp add: observe_queue_lock_def LocalRecordInfo2LockInfo_def Let_def LockThread_new_def)
  ultimately show ?thesis by simp
qed

definition lock_sample_config :: GlobalConfig where
  "lock_sample_config = GlobalConfig_empty\<lparr>
     topic_id2topic_config := [(1000, (TopicConfig_of TopicConfig_ReadConfig)\<lparr>consumer_group_id2consumer_group :=
       [(1, \<lparr>cg_id = 1, cg_use_dynamic_scale = 0, cg_skip_lock = 0\<rparr>)]\<rparr>)],
     topic_id2lock_config := [(1000, \<lparr>lc_locks = LockConfig_ReadConfig, lc_last_mod_time = 0,
       lock_id2lock = [(1, hd LockConfig_ReadConfig)], addr2lock_id = []\<rparr>)]\<rparr>"

definition record_by :: "string \<Rightarrow> LocalRecordInfo" where
  "record_by client = \<lparr>lr_version = 5, lr_value = client, lr_lease_time_ms = 30000, lr_expire_time_ms = 0\<rparr>"

lemma lock_sample_lookups:
  "GetTopicConfigByTopicID lock_sample_config 1000 = Inr ((TopicConfig_of TopicConfig_ReadConfig)\<lparr>consumer_group_id2consumer_group :=
       [(1, \<lparr>cg_id = 1, cg_use_dynamic_scale = 0, cg_skip_lock = 0\<rparr>)]\<rparr>)"
  "\<exists>lc. GetLockConfig lock_sample_config 1000 = Inr lc \<and> GetAllLockID lc = [1]"
  by (simp_all add: GetTopicConfigByTopicID_def GetLockConfig_def lock_sample_config_def GlobalConfig_empty_def GetAllLockID_def)

definition lock_sample_topic :: TopicConfig where
  "lock_sample_topic = (TopicConfig_of TopicConfig_ReadConfig)\<lparr>consumer_group_id2consumer_group :=
       [(1, \<lparr>cg_id = 1, cg_use_dynamic_scale = 0, cg_skip_lock = 0\<rparr>)]\<rparr>"

lemma lock_sample_lockable:
  "lockable lock_sample_config 1000 lock_sample_topic 1 (busy (group_queue 1 n))"
  using lock_sample_lookups
  by (auto simp: lock_sample_topic_def lockable_def busy_def group_queue_def Queue_zero_def in_use_def GetConsumerGroupByConsumerGroupID_def)

text \<open>The worker renews the lock of queue 7 at time 500 and is given queue 8 before time 40000.\<close>

theorem DoLock_steals_live_lock_witness:
  "\<exists>t1 w1 t2 w2. DoLock lock_sample_config sample_option 1000 world_get world_acquire (\<lambda>_. 500) 0 (busy (group_queue 1 7)) LockThread_new
       (9, [queue_lock_key 1000 (busy (group_queue 1 7)) \<mapsto> record_by (worker_client_id sample_option 0),
            queue_lock_key 1000 (busy (group_queue 1 8)) \<mapsto> record_by ''other'']) = (RET_OK, t1, w1)
     \<and> map_option lr_value (snd w1 (queue_lock_key 1000 (busy (group_queue 1 8)))) = Some ''other''
     \<and> DoLock lock_sample_config sample_option 1000 world_get world_acquire (\<lambda>_. 40000) 0 (busy (group_queue 1 8)) t1 w1 = (RET_OK, t2, w2)
     \<and> map_option lr_value (snd w2 (queue_lock_key 1000 (busy (group_queue 1 8)))) = Some (worker_client_id sample_option 0)"
proof -
  let ?k7 = "queue_lock_key 1000 (busy (group_queue 1 7))" and ?k8 = "queue_lock_key 1000 (busy (group_queue 1 8))"
    and ?me = "worker_client_id sample_option 0"
  let ?w = "(9 :: u64, [?k7 \<mapsto> record_by ?me, ?k8 \<mapsto> record_by ''other''])"
  have keys: "?k7 \<noteq> ?k8" by (simp add: queue_lock_key_def busy_def group_queue_def Queue_zero_def to_string.simps)
  have me: "''other'' \<noteq> ?me" by (simp add: worker_client_id_def sample_option_def)
  have lease: "word_of_int (consumer_lock_lease_time_s (topic_of lock_sample_topic)) * 1000 = (30000 :: u64)"
    by (simp add: lock_sample_topic_def TopicConfig_of_def TopicConfig_ReadConfig_def Topic_default_def)
  have new: "lt_last_lock_key LockThread_new = []" by (simp add: LockThread_new_def)
  have at7: "snd ?w ?k7 = Some (record_by ?me)" using keys by simp
  obtain t1 w1 where run: "DoLock lock_sample_config sample_option 1000 world_get world_acquire (\<lambda>_. 500) 0 (busy (group_queue 1 7))
      LockThread_new ?w = (RET_OK, t1, w1)" and at8: "snd w1 ?k8 = Some (record_by ''other'')"
    using world_DoLock[OF lock_sample_lockable new at7, of sample_option 500 0]
      world_acquire_grants[OF at7 _ queue_lock_key_nonempty, of 5 30000 1000 1 ?me] keys
    by (simp add: lease observe_queue_lock_def LocalRecordInfo2LockInfo_def LockThread_new_def record_by_def Let_def)
  have "\<exists>t2 w2. DoLock lock_sample_config sample_option 1000 world_get world_acquire (\<lambda>_. 40000) 0 (busy (group_queue 1 8)) t1 w1 = (RET_OK, t2, w2)
    \<and> map_option lr_value (snd w2 ?k8) = Some ?me
    \<and> fst (DoLock lock_sample_config sample_option 1000 world_get world_acquire (\<lambda>_. 40000) 0 (busy (group_queue 1 8)) LockThread_new w1) = RET_NO_NEED_LOCK"
    by (rule DoLock_steals_live_lock[OF lock_sample_lockable lock_sample_lockable _ keys run new at7 _ at8])
      (use me in \<open>simp_all add: lease record_by_def LockThread_new_def\<close>)
  with run at8 show ?thesis by (auto simp: record_by_def)
qed

end
