(* ===== verification/HandleTasks.thy ===== *)
theory HandleTasks
  imports QueueTable Producer "HOL-Library.Multiset"
begin

section \<open>The consume thread of a worker (consumer/consumer.cpp, comm/handler.h)\<close>

text \<open>
  The pull thread hands the items of a response to the consume thread and waits. There a dispatcher
  puts the indices of the items into buckets, one coroutine per bucket handles its items one after the
  other, and batch coroutines see all the items. A coroutine gives up the processor only inside a
  handler, so a run is a schedule: the list of the coroutines in the order in which they are resumed.
  Handlers, compression and batch handlers are virtual or the user's: parameters. \<open>ct_handled\<close> is a
  history of the items whose handling has ended.
\<close>

datatype HandleResult = RES_OK | RES_ERROR | RES_IGNORE

record ConsumerContext =
  cc_topic_id :: int
  cc_consumer_group_id :: int
  cc_store_id :: int
  cc_queue_id :: int
  cc_prev_cursor_id :: u64
  cc_next_cursor_id :: u64

definition ConsumerContext_default :: ConsumerContext where
  "ConsumerContext_default = \<lparr>cc_topic_id = 0, cc_consumer_group_id = -1, cc_store_id = -1, cc_queue_id = -1,
     cc_prev_cursor_id = NoID, cc_next_cursor_id = NoID\<rparr>"

subsection \<open>Buckets\<close>

text \<open>
  The items of one user go to one bucket, unless the queue spreads them; an item with no bucket of
  its own user opens the next one, or takes a random one when all are in use. \<open>rand i\<close> is what
  \<open>FastRand\<close> returns for item \<open>i\<close>. With no handler coroutine the remainder by 0 is undefined.
\<close>

fun fill_buckets ::
  "(nat \<Rightarrow> u32) \<Rightarrow> int \<Rightarrow> bool \<Rightarrow> QItem list \<Rightarrow> nat \<Rightarrow> int \<Rightarrow> (u64 \<times> int) list \<Rightarrow> nat list list \<Rightarrow> nat list list option" where
  "fill_buckets rand nhandler random_uin [] i nbucket_used uin2bucket_idx buckets = Some buckets"
| "fill_buckets rand nhandler random_uin (item # items) i nbucket_used uin2bucket_idx buckets = do {
     let key = meta_uin (qi_meta item);
     let sticky = (key \<noteq> 0 \<and> \<not> random_uin);
     let found = (if sticky then map_of uin2bucket_idx key else None);
     (bucket_idx, nbucket_used) \<leftarrow>
       (case found of
          Some b \<Rightarrow> Some (b, nbucket_used)
        | None \<Rightarrow> if nhandler \<le> nbucket_used
                  then if nhandler = 0 then None else Some (uint (rand i mod word_of_int nhandler), nbucket_used)
                  else Some (nbucket_used, nbucket_used + 1));
     bucket \<leftarrow> Prelude.at buckets bucket_idx;
     fill_buckets rand nhandler random_uin items (Suc i) nbucket_used
       (if sticky \<and> found = None then map_assign key bucket_idx uin2bucket_idx else uin2bucket_idx)
       (put_at buckets bucket_idx (bucket @ [i])) }"

definition MakeHandleBuckets ::
  "GlobalConfig \<Rightarrow> ConsumerOption \<Rightarrow> (nat \<Rightarrow> u32) \<Rightarrow> int \<Rightarrow> ConsumerContext \<Rightarrow> QItem list \<Rightarrow> (RetCode \<times> nat list list) option" where
  "MakeHandleBuckets g opt rand topic_id cc items =
     (let empty_buckets = replicate (nat (opt_nhandler opt)) [] in
      case GetTopicConfigByTopicID g topic_id of Inl ret \<Rightarrow> Some (ret, empty_buckets) | Inr tc \<Rightarrow>
      case GetQueueInfoByQueue tc (cc_queue_id cc) of Inl ret \<Rightarrow> Some (ret, empty_buckets) | Inr queue_info \<Rightarrow>
      map_option (\<lambda>buckets. (RET_OK, buckets))
        (fill_buckets rand (opt_nhandler opt) (qinfo_handle_by_random_uin queue_info \<noteq> 0) items 0 0 [] empty_buckets))"

subsection \<open>Handling an item\<close>

type_synonym 'w Handler = "ConsumerContext \<Rightarrow> QItem \<Rightarrow> string \<Rightarrow> 'w \<Rightarrow> (HandleResult \<times> bool \<times> QItem \<times> string) \<times> 'w"

record 'w HandleCalls =
  call_UncompressBuffer :: "string \<Rightarrow> int \<Rightarrow> RetCode \<times> string"
  call_CompressBuffer :: "string \<Rightarrow> int \<Rightarrow> string"
  call_GetHandler :: "int \<Rightarrow> 'w Handler option"
  call_BatchHandle :: "ConsumerContext \<Rightarrow> QItem list \<Rightarrow> nat \<Rightarrow> 'w \<Rightarrow> RetCode \<times> 'w"

text \<open>The bit of a group: a shift outside the word is undefined.\<close>

definition group_bit :: "int \<Rightarrow> u64 option" where
  "group_bit consumer_group_id =
     (if 1 \<le> consumer_group_id \<and> consumer_group_id \<le> 64 then Some (push_bit (nat (consumer_group_id - 1)) 1) else None)"

definition SkipHandle :: "ConsumerContext \<Rightarrow> QItem \<Rightarrow> bool option" where
  "SkipHandle cc item = map_option (\<lambda>b. and (qi_consumer_group_ids item) b = 0) (group_bit (cc_consumer_group_id cc))"

definition Handle :: "'w HandleCalls \<Rightarrow> ConsumerContext \<Rightarrow> QItem \<Rightarrow> 'w \<Rightarrow> RetCode \<times> HandleResult \<times> QItem \<times> 'w" where
  "Handle calls cc item w =
     (let (ret, uncompressed_buffer) = call_UncompressBuffer calls (qi_buffer item) (qi_buffer_type item) in
      if ret \<noteq> RET_OK then (ret, RES_ERROR, item, w)
      else case call_GetHandler calls (meta_handle_id (qi_meta item)) of
             None \<Rightarrow> (RET_ERR_RANGE_HANDLE, RES_ERROR, item, w)
           | Some handler \<Rightarrow>
               let ((handle_result, updated, item, uncompressed_buffer), w) = handler cc item uncompressed_buffer w
               in (RET_OK, handle_result,
                   (if updated then item\<lparr>qi_buffer := call_CompressBuffer calls uncompressed_buffer (qi_buffer_type item)\<rparr> else item), w))"

definition HandleRoutineFunc :: "'w HandleCalls \<Rightarrow> ConsumerContext \<Rightarrow> QItem \<Rightarrow> 'w \<Rightarrow> (HandleResult \<times> QItem \<times> 'w) option" where
  "HandleRoutineFunc calls cc item w =
     map_option (\<lambda>skip. if skip then (RES_OK, item, w)
                       else let (ret, handle_result, item, w) = Handle calls cc item w in (handle_result, item, w))
       (SkipHandle cc item)"

subsection \<open>Coroutines\<close>

record 'w ConsumeThread =
  ct_items :: "QItem list"
  ct_handle_results :: "HandleResult list"
  ct_handle_buckets :: "nat list list"
  ct_running :: "nat option list"
  ct_batch_handle_finish :: "bool list"
  ct_nhandle_task_finished :: nat
  ct_nbatch_handle_task_finished :: nat
  ct_world :: 'w
  ct_handled :: "(nat \<times> HandleResult) list"

datatype Routine = HandleRoutine nat | BatchHandleRoutine nat

definition IsAllTaskFinish :: "'w ConsumeThread \<Rightarrow> bool" where
  "IsAllTaskFinish s \<longleftrightarrow> ct_nhandle_task_finished s = length (ct_items s)
     \<and> ct_nbatch_handle_task_finished s = length (ct_batch_handle_finish s)"

text \<open>\<open>HandleTaskFinish\<close> counts; the signal it sends only wakes the dispatcher, which counts again.\<close>

definition HandleTaskFinish :: "'w ConsumeThread \<Rightarrow> 'w ConsumeThread" where
  "HandleTaskFinish s = s\<lparr>ct_nhandle_task_finished := Suc (ct_nhandle_task_finished s)\<rparr>"

definition BatchHandleTaskFinish :: "'w ConsumeThread \<Rightarrow> 'w ConsumeThread" where
  "BatchHandleTaskFinish s = s\<lparr>ct_nbatch_handle_task_finished := Suc (ct_nbatch_handle_task_finished s)\<rparr>"

text \<open>The loop of \<open>ProcessAllHandleTasks\<close> up to the next handler: the next index of the bucket, or none.\<close>

definition next_handle_task :: "nat \<Rightarrow> 'w ConsumeThread \<Rightarrow> 'w ConsumeThread" where
  "next_handle_task cid s =
     (case ct_handle_buckets s ! cid of
        [] \<Rightarrow> s\<lparr>ct_running := (ct_running s)[cid := None]\<rparr>
      | idx # bucket \<Rightarrow> s\<lparr>ct_handle_buckets := (ct_handle_buckets s)[cid := bucket], ct_running := (ct_running s)[cid := Some idx]\<rparr>)"

text \<open>
  A coroutine resumed in a handler ends it and goes on to its next item; one that yielded with an
  empty bucket looks at the bucket again (\<open>HandleRoutineRun\<close>).
\<close>

definition resume_handle :: "'w HandleCalls \<Rightarrow> ConsumerContext \<Rightarrow> nat \<Rightarrow> 'w ConsumeThread \<Rightarrow> 'w ConsumeThread option" where
  "resume_handle calls cc cid s =
     (if length (ct_running s) \<le> cid then Some s
      else case ct_running s ! cid of
        None \<Rightarrow> Some (next_handle_task cid s)
      | Some idx \<Rightarrow> do {
          item \<leftarrow> Prelude.at (ct_items s) (int idx);
          (handle_result, item, w) \<leftarrow> HandleRoutineFunc calls cc item (ct_world s);
          Some (next_handle_task cid
            (HandleTaskFinish (s\<lparr>ct_items := (ct_items s)[idx := item], ct_handle_results := (ct_handle_results s)[idx := handle_result],
                                 ct_world := w, ct_handled := ct_handled s @ [(idx, handle_result)]\<rparr>))) })"

definition resume_batch_handle :: "'w HandleCalls \<Rightarrow> ConsumerContext \<Rightarrow> nat \<Rightarrow> 'w ConsumeThread \<Rightarrow> 'w ConsumeThread" where
  "resume_batch_handle calls cc cid s =
     (if length (ct_batch_handle_finish s) \<le> cid \<or> ct_batch_handle_finish s ! cid then s
      else let (ret, w) = call_BatchHandle calls cc (ct_items s) cid (ct_world s); s = BatchHandleTaskFinish (s\<lparr>ct_world := w\<rparr>)
           in s\<lparr>ct_batch_handle_finish := (ct_batch_handle_finish s)[cid := True]\<rparr>)"

fun resume :: "'w HandleCalls \<Rightarrow> ConsumerContext \<Rightarrow> Routine \<Rightarrow> 'w ConsumeThread \<Rightarrow> 'w ConsumeThread option" where
  "resume calls cc (HandleRoutine cid) s = resume_handle calls cc cid s"
| "resume calls cc (BatchHandleRoutine cid) s = Some (resume_batch_handle calls cc cid s)"

text \<open>
  One round of \<open>TaskDispatch\<close>, from the byte the pull thread writes to the byte it waits for. If the
  tasks are not finished after the schedule, the dispatcher still waits: no result. The code ignores
  the return code of \<open>MakeHandleBuckets\<close>.
\<close>

definition TaskDispatch_start ::
  "GlobalConfig \<Rightarrow> ConsumerOption \<Rightarrow> (nat \<Rightarrow> u32) \<Rightarrow> int \<Rightarrow> ConsumerContext \<Rightarrow> QItem list \<Rightarrow> HandleResult list \<Rightarrow> 'w \<Rightarrow> 'w ConsumeThread option" where
  "TaskDispatch_start g opt rand topic_id cc items handle_results w =
     map_option (\<lambda>(ret, buckets).
       \<lparr>ct_items = items, ct_handle_results = handle_results, ct_handle_buckets = buckets,
        ct_running = replicate (nat (opt_nhandler opt)) None,
        ct_batch_handle_finish = replicate (nat (opt_nbatch_handler opt)) False,
        ct_nhandle_task_finished = 0, ct_nbatch_handle_task_finished = 0, ct_world = w, ct_handled = []\<rparr>)
       (MakeHandleBuckets g opt rand topic_id cc items)"

definition TaskDispatch ::
  "'w HandleCalls \<Rightarrow> GlobalConfig \<Rightarrow> ConsumerOption \<Rightarrow> (nat \<Rightarrow> u32) \<Rightarrow> Routine list \<Rightarrow> int \<Rightarrow> ConsumerContext
   \<Rightarrow> QItem list \<Rightarrow> HandleResult list \<Rightarrow> 'w \<Rightarrow> 'w ConsumeThread option" where
  "TaskDispatch calls g opt rand schedule topic_id cc items handle_results w = do {
     s \<leftarrow> TaskDispatch_start g opt rand topic_id cc items handle_results w;
     s \<leftarrow> foldM (resume calls cc) schedule s;
     if IsAllTaskFinish s then Some s else None }"

subsection \<open>The buckets partition the items\<close>

abbreviation item_uin :: "QItem \<Rightarrow> u64" where
  "item_uin item \<equiv> meta_uin (qi_meta item)"

lemma mset_concat_snoc:
  "n < length bs \<Longrightarrow> mset (concat (bs[n := bs ! n @ [i]])) = add_mset i (mset (concat bs))"
proof (induction bs arbitrary: n)
  case (Cons b bs)
  then show ?case by (cases n) auto
qed simp

text \<open>The state of the loop after the items \<open>seen\<close>.\<close>

definition buckets_inv :: "bool \<Rightarrow> QItem list \<Rightarrow> (u64 \<times> int) list \<Rightarrow> nat list list \<Rightarrow> bool" where
  "buckets_inv random_uin seen uin2bucket_idx buckets \<longleftrightarrow>
     mset (concat buckets) = mset [0..<length seen] \<and> (\<forall>b \<in> set buckets. sorted_wrt (<) b) \<and> wf_map uin2bucket_idx
     \<and> (\<not> random_uin \<longrightarrow> (\<forall>i < length seen. item_uin (seen ! i) \<noteq> 0 \<longrightarrow>
          (\<exists>n < length buckets. map_of uin2bucket_idx (item_uin (seen ! i)) = Some (int n) \<and> i \<in> set (buckets ! n))))"

lemma buckets_inv_step:
  assumes inv: "buckets_inv random_uin seen u2b buckets" and n: "n < length buckets"
    and u2b': "u2b' = u2b \<or> u2b' = map_assign (item_uin item) (int n) u2b \<and> map_of u2b (item_uin item) = None"
    and found: "\<not> random_uin \<Longrightarrow> item_uin item \<noteq> 0 \<Longrightarrow> map_of u2b' (item_uin item) = Some (int n)"
  shows "buckets_inv random_uin (seen @ [item]) u2b' (buckets[n := buckets ! n @ [length seen]])"
proof -
  let ?b = "buckets[n := buckets ! n @ [length seen]]"
  have m: "mset (concat buckets) = mset [0..<length seen]" and srt: "\<forall>b \<in> set buckets. sorted_wrt (<) b" and wf: "wf_map u2b"
    using inv by (simp_all add: buckets_inv_def)
  have less: "j < length seen" if "j \<in> set (buckets ! n)" for j
  proof -
    have "j \<in># mset (concat buckets)" using that nth_mem[OF n] by auto
    then show ?thesis unfolding m by simp
  qed
  have "mset (concat ?b) = mset [0..<length (seen @ [item])]"
    using mset_concat_snoc[OF n, of "length seen"] m by simp
  moreover have "\<forall>b \<in> set ?b. sorted_wrt (<) b"
    using srt less nth_mem[OF n] by (auto dest!: set_update_subset_insert[THEN subsetD] simp: sorted_wrt_append)
  moreover have "wf_map u2b'" using u2b' wf by (auto intro: wf_map_assign)
  moreover have "\<exists>k < length ?b. map_of u2b' (item_uin ((seen @ [item]) ! i)) = Some (int k) \<and> i \<in> set (?b ! k)"
    if a: "\<not> random_uin" "i < length (seen @ [item])" "item_uin ((seen @ [item]) ! i) \<noteq> 0" for i
  proof (cases "i = length seen")
    case True
    then show ?thesis using a found n by (intro exI[of _ n]) auto
  next
    case False
    then have i: "i < length seen" "(seen @ [item]) ! i = seen ! i" using a(2) by (auto simp: nth_append)
    then obtain k where k: "k < length buckets" "map_of u2b (item_uin (seen ! i)) = Some (int k)" "i \<in> set (buckets ! k)"
      using inv a unfolding buckets_inv_def by auto
    then have "map_of u2b' (item_uin (seen ! i)) = Some (int k)"
      using u2b' by (auto simp: map_of_assign[OF wf])
    then show ?thesis using k i n by (intro exI[of _ k]) (cases "k = n"; simp)
  qed
  ultimately show ?thesis unfolding buckets_inv_def by blast
qed

lemma fill_buckets_inv:
  assumes "fill_buckets rand nhandler random_uin items (length seen) used u2b buckets = Some buckets'"
    and "buckets_inv random_uin seen u2b buckets"
  shows "length buckets' = length buckets \<and> (\<exists>u2b'. buckets_inv random_uin (seen @ items) u2b' buckets')"
  using assms
proof (induction items arbitrary: seen used u2b buckets)
  case Nil
  then show ?case by auto
next
  case (Cons item items)
  let ?key = "item_uin item"
  let ?sticky = "?key \<noteq> 0 \<and> \<not> random_uin"
  let ?found = "if ?sticky then map_of u2b ?key else None"
  obtain b used' bucket where b: "?found = Some b \<or> ?found = None" "Prelude.at buckets b = Some bucket"
    and run: "fill_buckets rand nhandler random_uin items (Suc (length seen)) used'
       (if ?sticky \<and> ?found = None then map_assign ?key b u2b else u2b) (put_at buckets b (bucket @ [length seen])) = Some buckets'"
    using Cons.prems(1) by (auto simp: Let_def Option.bind_eq_Some_conv split: option.splits if_splits)
  note at = at_SomeD[OF b(2)]
  have "buckets_inv random_uin (seen @ [item]) (if ?sticky \<and> ?found = None then map_assign ?key b u2b else u2b)
      (buckets[nat b := buckets ! nat b @ [length seen]])"
    by (rule buckets_inv_step[OF Cons.prems(2)])
      (use at b Cons.prems(2) in \<open>auto simp: map_of_assign buckets_inv_def split: if_splits\<close>)
  then show ?case
    using Cons.IH[of "seen @ [item]"] run at by (simp add: put_at_def)
qed

text \<open>The buckets of \<open>MakeHandleBuckets\<close> are a partition of the items of the response, every bucket has its
  items in the order of the queue, and the items of one user are in one bucket unless the queue spreads
  them.\<close>

theorem MakeHandleBuckets_partition:
  assumes "MakeHandleBuckets g opt rand topic_id cc items = Some (ret, buckets)"
    and "GetTopicConfigByTopicID g topic_id = Inr tc" and "GetQueueInfoByQueue tc (cc_queue_id cc) = Inr qi"
  shows "ret = RET_OK \<and> length buckets = nat (opt_nhandler opt) \<and> mset (concat buckets) = mset [0..<length items]
    \<and> (\<forall>b \<in> set buckets. sorted_wrt (<) b)
    \<and> (qinfo_handle_by_random_uin qi = 0 \<longrightarrow> (\<forall>i < length items. \<forall>j < length items.
         item_uin (items ! i) \<noteq> 0 \<longrightarrow> item_uin (items ! i) = item_uin (items ! j) \<longrightarrow> (\<exists>b \<in> set buckets. i \<in> set b \<and> j \<in> set b)))"
proof -
  let ?e = "replicate (nat (opt_nhandler opt)) []"
  have run: "ret = RET_OK" "fill_buckets rand (opt_nhandler opt) (qinfo_handle_by_random_uin qi \<noteq> 0) items (length []) 0 [] ?e = Some buckets"
    using assms by (auto simp: MakeHandleBuckets_def)
  have start: "buckets_inv (qinfo_handle_by_random_uin qi \<noteq> 0) [] [] ?e" by (auto simp: buckets_inv_def)
  obtain u2b where len: "length buckets = nat (opt_nhandler opt)"
    and inv: "buckets_inv (qinfo_handle_by_random_uin qi \<noteq> 0) items u2b buckets"
    using fill_buckets_inv[OF run(2) start] by auto
  have "\<exists>b \<in> set buckets. i \<in> set b \<and> j \<in> set b"
    if a: "qinfo_handle_by_random_uin qi = 0" "i < length items" "j < length items" "item_uin (items ! i) \<noteq> 0"
      "item_uin (items ! i) = item_uin (items ! j)" for i j
  proof -
    obtain n k where "n < length buckets" "map_of u2b (item_uin (items ! i)) = Some (int n)" "i \<in> set (buckets ! n)"
      "map_of u2b (item_uin (items ! j)) = Some (int k)" "j \<in> set (buckets ! k)"
      using inv a unfolding buckets_inv_def by metis
    then show ?thesis using a(5) by (intro bexI[of _ "buckets ! n"]) auto
  qed
  then show ?thesis using run(1) len inv by (simp add: buckets_inv_def)
qed

subsection \<open>Every item is handled exactly once\<close>

abbreviation handled_idxs :: "'w ConsumeThread \<Rightarrow> nat list" where
  "handled_idxs s \<equiv> map fst (ct_handled s)"

text \<open>
  What a coroutine has done of its bucket is a prefix of it; the rest is the item in its handler and
  what is left in the bucket.
\<close>

definition routines_inv :: "nat list list \<Rightarrow> 'w ConsumeThread \<Rightarrow> bool" where
  "routines_inv B s \<longleftrightarrow> length (ct_handle_buckets s) = length B \<and> length (ct_running s) = length B
     \<and> (\<forall>cid < length B. filter (\<lambda>i. i \<in> set (B ! cid)) (handled_idxs s)
           @ (case ct_running s ! cid of None \<Rightarrow> [] | Some idx \<Rightarrow> [idx]) @ ct_handle_buckets s ! cid = B ! cid)
     \<and> distinct (handled_idxs s) \<and> set (handled_idxs s) \<subseteq> set (concat B)
     \<and> ct_nhandle_task_finished s = length (ct_handled s)
     \<and> (\<forall>e \<in> set (ct_handled s). fst e < length (ct_items s) \<and> ct_handle_results s ! fst e = snd e)
     \<and> length (ct_handle_results s) = length (ct_items s)"

lemma next_handle_task_inv:
  assumes "routines_inv B (s\<lparr>ct_running := (ct_running s)[cid := None]\<rparr>)" and "cid < length B"
  shows "routines_inv B (next_handle_task cid s)"
  using assms unfolding routines_inv_def next_handle_task_def
  by (auto simp: nth_list_update split: list.splits option.splits)

lemma distinct_buckets_less:
  assumes "distinct (concat B)" and "c < d" "d < length B" and "i \<in> set (B ! c)" "i \<in> set (B ! d)"
  shows False
proof -
  have "take d B ! c \<in> set (take d B)" "drop d B ! 0 \<in> set (drop d B)" by (rule nth_mem, use assms(2,3) in simp)+
  then have "B ! c \<in> set (take d B)" "B ! d \<in> set (drop d B)" using assms(2,3) by simp_all
  then have "i \<in> set (concat (take d B))" "i \<in> set (concat (drop d B))" using assms(4,5) by auto
  moreover have "distinct (concat (take d B) @ concat (drop d B))"
    using assms(1) by (simp flip: concat_append)
  ultimately show False by auto
qed

lemma distinct_buckets:
  "distinct (concat B) \<Longrightarrow> c < length B \<Longrightarrow> d < length B \<Longrightarrow> i \<in> set (B ! c) \<Longrightarrow> i \<in> set (B ! d) \<Longrightarrow> c = d"
  by (rule linorder_cases[of c d]) (auto dest: distinct_buckets_less)

lemma resume_handle_inv:
  assumes inv: "routines_inv B s" and d: "distinct (concat B)" and step: "resume_handle calls cc cid s = Some s'"
  shows "routines_inv B s'"
proof (cases "cid < length B \<and> ct_running s ! cid \<noteq> None")
  case False
  have len: "length (ct_running s) = length B" using inv by (simp add: routines_inv_def)
  show ?thesis
  proof (cases "cid < length B")
    case True
    with False have none: "ct_running s ! cid = None" by simp
    then have "(ct_running s)[cid := None] = ct_running s" by (metis list_update_id)
    moreover have "s' = next_handle_task cid s" using step True len none by (simp add: resume_handle_def)
    ultimately show ?thesis using next_handle_task_inv[of B s cid] inv True by simp
  next
    case False
    then show ?thesis using step len inv by (simp add: resume_handle_def)
  qed
next
  case True
  then obtain idx where run: "cid < length B" "ct_running s ! cid = Some idx" by auto
  have len: "length (ct_running s) = length B" and part: "filter (\<lambda>i. i \<in> set (B ! cid)) (handled_idxs s) @ idx # ct_handle_buckets s ! cid = B ! cid"
    using inv run by (force simp: routines_inv_def)+
  obtain item r item' w where item: "Prelude.at (ct_items s) (int idx) = Some item"
    and s': "s' = next_handle_task cid (HandleTaskFinish (s\<lparr>ct_items := (ct_items s)[idx := item'],
        ct_handle_results := (ct_handle_results s)[idx := r], ct_world := w, ct_handled := ct_handled s @ [(idx, r)]\<rparr>))"
    using step run len by (auto simp: resume_handle_def Option.bind_eq_Some_conv)
  have "idx \<in> set (filter (\<lambda>i. i \<in> set (B ! cid)) (handled_idxs s) @ idx # ct_handle_buckets s ! cid)" by simp
  then have idx: "idx \<in> set (B ! cid)" unfolding part .
  have "distinct (B ! cid)" using d run(1) by (metis distinct_concat_iff nth_mem)
  then have "distinct (filter (\<lambda>i. i \<in> set (B ! cid)) (handled_idxs s) @ idx # ct_handle_buckets s ! cid)" unfolding part .
  then have new: "idx \<notin> set (handled_idxs s)" using idx by auto
  have others: "idx \<notin> set (B ! c)" if "c < length B" "c \<noteq> cid" for c
    using distinct_buckets[OF d that(1) run(1) _ idx] that(2) by blast
  have "idx < length (ct_items s)" using at_SomeD[OF item] by simp
  moreover have "idx \<in> set (concat B)" using idx run(1) nth_mem by fastforce
  ultimately show ?thesis
    unfolding s'
    by (intro next_handle_task_inv[OF _ run(1)])
      (use inv new others part idx run in \<open>auto simp: routines_inv_def HandleTaskFinish_def nth_list_update image_iff split: option.splits\<close>)
qed

lemma resume_inv:
  assumes "routines_inv B s" and "distinct (concat B)" and "resume calls cc r s = Some s'"
  shows "routines_inv B s' \<and> length (ct_items s') = length (ct_items s)"
proof (cases r)
  case (HandleRoutine cid)
  have "length (ct_items (next_handle_task cid t)) = length (ct_items t)" for t :: "'a ConsumeThread"
    by (simp add: next_handle_task_def split: list.splits)
  then have "length (ct_items s') = length (ct_items s)"
    using assms(3) HandleRoutine
    by (auto simp: resume_handle_def HandleTaskFinish_def Option.bind_eq_Some_conv split: if_splits option.splits)
  then show ?thesis using resume_handle_inv[OF assms(1,2)] assms(3) HandleRoutine by simp
next
  case (BatchHandleRoutine cid)
  obtain ret w where w: "call_BatchHandle calls cc (ct_items s) cid (ct_world s) = (ret, w)" by (cases "call_BatchHandle calls cc (ct_items s) cid (ct_world s)")
  show ?thesis
  proof (cases "length (ct_batch_handle_finish s) \<le> cid \<or> ct_batch_handle_finish s ! cid")
    case True
    then show ?thesis using assms BatchHandleRoutine by (simp add: resume_batch_handle_def)
  next
    case False
    then have "s' = s\<lparr>ct_world := w, ct_nbatch_handle_task_finished := Suc (ct_nbatch_handle_task_finished s),
        ct_batch_handle_finish := (ct_batch_handle_finish s)[cid := True]\<rparr>"
      using assms(3) BatchHandleRoutine w by (simp add: resume_batch_handle_def BatchHandleTaskFinish_def)
    then show ?thesis using assms(1) by (simp add: routines_inv_def)
  qed
qed

lemma TaskDispatch_inv:
  assumes "TaskDispatch calls g opt rand schedule topic_id cc items results w = Some s"
    and "MakeHandleBuckets g opt rand topic_id cc items = Some (ret, B)" and "distinct (concat B)"
    and "length results = length items" and "length B = nat (opt_nhandler opt)"
  shows "routines_inv B s \<and> length (ct_items s) = length items \<and> IsAllTaskFinish s"
proof -
  let ?s0 = "\<lparr>ct_items = items, ct_handle_results = results, ct_handle_buckets = B, ct_running = replicate (nat (opt_nhandler opt)) None,
        ct_batch_handle_finish = replicate (nat (opt_nbatch_handler opt)) False,
        ct_nhandle_task_finished = 0, ct_nbatch_handle_task_finished = 0, ct_world = w, ct_handled = []\<rparr>"
  have run: "foldM (resume calls cc) schedule ?s0 = Some s" and fin: "IsAllTaskFinish s"
    using assms(1,2) by (auto simp: TaskDispatch_def TaskDispatch_start_def Option.bind_eq_Some_conv split: if_splits)
  have "routines_inv B ?s0 \<and> length (ct_items ?s0) = length items"
    using assms(4,5) by (simp add: routines_inv_def)
  then have "routines_inv B s \<and> length (ct_items s) = length items"
    using foldM_invariant[OF _ run, of "\<lambda>s. routines_inv B s \<and> length (ct_items s) = length items"] resume_inv[OF _ assms(3)] by metis
  then show ?thesis using fin by simp
qed

lemma handled_in_order:
  assumes inv: "routines_inv B s" and srt: "\<forall>b \<in> set B. sorted_wrt (<) b"
    and one: "\<forall>i \<in> set (handled_idxs s). P i \<longrightarrow> i \<in> set (B ! cid)" and "cid < length B"
  shows "sorted_wrt (<) (filter P (handled_idxs s))"
proof -
  have "sorted_wrt (<) (B ! cid)" using srt assms(4) by simp
  then have "sorted_wrt (<) (filter (\<lambda>i. i \<in> set (B ! cid)) (handled_idxs s))"
    using inv assms(4) unfolding routines_inv_def by (metis (no_types, lifting) sorted_wrt_append)
  then have "sorted_wrt (<) (filter P (filter (\<lambda>i. i \<in> set (B ! cid)) (handled_idxs s)))" by (rule sorted_wrt_filter)
  moreover have "filter P (filter (\<lambda>i. i \<in> set (B ! cid)) (handled_idxs s)) = filter P (handled_idxs s)"
    unfolding filter_filter by (rule filter_cong[OF refl]) (use one in auto)
  ultimately show ?thesis by simp
qed

text \<open>C9: When the dispatcher answers, every item of the response was handled exactly once, its result is the
  one the coroutine got, and the items of one user were handled one after the other in the order of the
  queue. This holds for every schedule of the coroutines.\<close>

theorem TaskDispatch_handles_each_once:
  assumes "TaskDispatch calls g opt rand schedule topic_id cc items results w = Some s" and "length results = length items"
    and "GetTopicConfigByTopicID g topic_id = Inr tc" and "GetQueueInfoByQueue tc (cc_queue_id cc) = Inr qi"
  shows "mset (handled_idxs s) = mset [0..<length items]
    \<and> length (ct_handle_results s) = length items \<and> (\<forall>e \<in> set (ct_handled s). ct_handle_results s ! fst e = snd e)
    \<and> (qinfo_handle_by_random_uin qi = 0 \<longrightarrow>
         (\<forall>u. u \<noteq> 0 \<longrightarrow> sorted_wrt (<) (filter (\<lambda>i. item_uin (items ! i) = u) (handled_idxs s))))"
proof -
  obtain ret B where B: "MakeHandleBuckets g opt rand topic_id cc items = Some (ret, B)"
    using assms(1) by (auto simp: TaskDispatch_def TaskDispatch_start_def Option.bind_eq_Some_conv)
  note part = MakeHandleBuckets_partition[OF B assms(3,4)]
  then have perm: "distinct (concat B)" "set (concat B) = {0..<length items}"
    by (metis mset_eq_imp_distinct_iff distinct_upt, metis mset_eq_setD set_upt)
  then have inv: "routines_inv B s" and len: "length (ct_items s) = length items" and fin: "IsAllTaskFinish s"
    using TaskDispatch_inv[OF assms(1) B _ assms(2)] part by blast+
  have h: "distinct (handled_idxs s)" "set (handled_idxs s) \<subseteq> {0..<length items}" "length (handled_idxs s) = length items"
    using inv fin len perm(2) by (simp_all add: routines_inv_def IsAllTaskFinish_def)
  have "set (handled_idxs s) = set [0..<length items]"
    using h distinct_card[OF h(1)] by (intro card_subset_eq) auto
  then have all: "mset (handled_idxs s) = mset [0..<length items]"
    using h(1) by (metis distinct_upt set_eq_iff_mset_eq_distinct)
  have "sorted_wrt (<) (filter (\<lambda>i. item_uin (items ! i) = u) (handled_idxs s))"
    if a: "qinfo_handle_by_random_uin qi = 0" "u \<noteq> 0" for u
  proof (cases "\<exists>i < length items. item_uin (items ! i) = u")
    case False
    then have "filter (\<lambda>i. item_uin (items ! i) = u) (handled_idxs s) = []" using h(2) unfolding filter_empty_conv by fastforce
    then show ?thesis by (metis sorted_wrt.simps(1))
  next
    case True
    then obtain i where i: "i < length items" "item_uin (items ! i) = u" by blast
    then have "i \<in> set (concat B)" using perm(2) by simp
    then obtain cid where cid: "cid < length B" "i \<in> set (B ! cid)" unfolding set_concat UN_iff by (metis in_set_conv_nth)
    have "j \<in> set (B ! cid)" if j: "j < length items" "item_uin (items ! j) = u" for j
    proof -
      obtain b where "b \<in> set B" "i \<in> set b" "j \<in> set b" using part i j a by metis
      then show ?thesis using distinct_buckets[OF perm(1) cid(1) _ cid(2)] by (metis in_set_conv_nth)
    qed
    then show ?thesis using h(2) part by (intro handled_in_order[OF inv _ _ cid(1)]) auto
  qed
  then show ?thesis using all inv len by (simp add: routines_inv_def)
qed

subsection \<open>The dispatcher answers\<close>

text \<open>The tasks a coroutine still has, counting one more resumption to enter the first handler.\<close>

definition todo :: "'w ConsumeThread \<Rightarrow> nat \<Rightarrow> nat" where
  "todo s cid = (case ct_running s ! cid of None \<Rightarrow> if ct_handle_buckets s ! cid = [] then 0 else 1 | Some _ \<Rightarrow> 1) + length (ct_handle_buckets s ! cid)"

lemma todo_next: "cid < length (ct_running s) \<Longrightarrow> cid < length (ct_handle_buckets s) \<Longrightarrow>
  todo (next_handle_task cid s) cid = length (ct_handle_buckets s ! cid)
  \<and> (\<forall>c. c \<noteq> cid \<longrightarrow> todo (next_handle_task cid s) c = todo s c)"
  by (auto simp: todo_def next_handle_task_def split: list.splits)

lemma HandleRoutineFunc_defined: "1 \<le> cc_consumer_group_id cc \<Longrightarrow> cc_consumer_group_id cc \<le> 64 \<Longrightarrow> HandleRoutineFunc calls cc item w \<noteq> None"
  by (simp add: HandleRoutineFunc_def SkipHandle_def group_bit_def)

lemma next_handle_task_batch [simp]:
  "ct_batch_handle_finish (next_handle_task cid s) = ct_batch_handle_finish s"
  "ct_nbatch_handle_task_finished (next_handle_task cid s) = ct_nbatch_handle_task_finished s"
  by (simp_all add: next_handle_task_def split: list.splits)

lemma resume_handle_progress:
  assumes inv: "routines_inv B s" and B: "set (concat B) \<subseteq> {0..<length (ct_items s)}"
    and g: "1 \<le> cc_consumer_group_id cc" "cc_consumer_group_id cc \<le> 64"
  shows "\<exists>s'. resume_handle calls cc cid s = Some s' \<and> (\<forall>c < length B. todo s' c = (if c = cid then todo s c - 1 else todo s c))
    \<and> ct_batch_handle_finish s' = ct_batch_handle_finish s \<and> ct_nbatch_handle_task_finished s' = ct_nbatch_handle_task_finished s"
proof (cases "cid < length B")
  case False
  then show ?thesis using inv by (auto simp: resume_handle_def routines_inv_def)
next
  case True
  have len: "length (ct_running s) = length B" "length (ct_handle_buckets s) = length B" using inv by (simp_all add: routines_inv_def)
  show ?thesis
  proof (cases "ct_running s ! cid")
    case None
    then have "resume_handle calls cc cid s = Some (next_handle_task cid s)" using True len by (simp add: resume_handle_def)
    moreover have "todo s cid - 1 = length (ct_handle_buckets s ! cid)" by (simp add: todo_def None)
    ultimately show ?thesis using todo_next[of cid s] True len by simp
  next
    case (Some idx)
    have "filter (\<lambda>i. i \<in> set (B ! cid)) (handled_idxs s) @ idx # ct_handle_buckets s ! cid = B ! cid"
      using inv True Some by (force simp: routines_inv_def)
    then have "idx \<in> set (B ! cid)" by (metis in_set_conv_decomp)
    then have "idx \<in> set (concat B)" using nth_mem[OF True] by auto
    then have idx: "idx < length (ct_items s)" using B by auto
    obtain x where x: "HandleRoutineFunc calls cc (ct_items s ! idx) (ct_world s) = Some x" using HandleRoutineFunc_defined[OF g, of calls] by fastforce
    obtain r item w where x': "x = (r, item, w)" by (cases x)
    let ?t = "HandleTaskFinish (s\<lparr>ct_items := (ct_items s)[idx := item], ct_handle_results := (ct_handle_results s)[idx := r],
        ct_world := w, ct_handled := ct_handled s @ [(idx, r)]\<rparr>)"
    have "resume_handle calls cc cid s = Some (next_handle_task cid ?t)"
      using True len Some x x' idx by (simp add: resume_handle_def at_def)
    moreover have "todo s cid - 1 = length (ct_handle_buckets s ! cid)" "todo ?t c = todo s c" for c
      by (simp_all add: todo_def Some HandleTaskFinish_def)
    ultimately show ?thesis using todo_next[of cid ?t] True len by (simp add: HandleTaskFinish_def)
  qed
qed

lemma count_finish: "c < length fs \<Longrightarrow> \<not> fs ! c \<Longrightarrow> length (filter id (fs[c := True])) = Suc (length (filter id fs))"
proof (induction fs arbitrary: c)
  case (Cons f fs)
  then show ?case by (cases c) auto
qed simp

text \<open>
  The measure of a run: the tasks left of each bucket and the batch routines that have not run.
\<close>

definition batches_ok :: "'w ConsumeThread \<Rightarrow> bool" where
  "batches_ok s \<longleftrightarrow> ct_nbatch_handle_task_finished s = length (filter id (ct_batch_handle_finish s))"

lemma resume_progress:
  assumes inv: "routines_inv B s" and B: "set (concat B) \<subseteq> {0..<length (ct_items s)}" and ok: "batches_ok s"
    and g: "1 \<le> cc_consumer_group_id cc" "cc_consumer_group_id cc \<le> 64"
  shows "\<exists>s'. resume calls cc r s = Some s'
    \<and> (\<forall>c < length B. todo s' c = todo s c - (if r = HandleRoutine c then 1 else 0))
    \<and> length (ct_batch_handle_finish s') = length (ct_batch_handle_finish s) \<and> batches_ok s'
    \<and> (\<forall>c < length (ct_batch_handle_finish s). r = BatchHandleRoutine c \<or> ct_batch_handle_finish s ! c \<longrightarrow> ct_batch_handle_finish s' ! c)"
proof (cases r)
  case (HandleRoutine cid)
  then show ?thesis using resume_handle_progress[OF inv B g, of calls cid] ok by (auto simp: batches_ok_def)
next
  case (BatchHandleRoutine cid)
  obtain ret w where w: "call_BatchHandle calls cc (ct_items s) cid (ct_world s) = (ret, w)" by (cases "call_BatchHandle calls cc (ct_items s) cid (ct_world s)")
  show ?thesis
    using BatchHandleRoutine w ok count_finish[of cid "ct_batch_handle_finish s"]
    by (auto simp: resume_batch_handle_def BatchHandleTaskFinish_def batches_ok_def todo_def nth_list_update)
qed

lemma run_progress:
  assumes "routines_inv B s" and d: "distinct (concat B)" and "set (concat B) \<subseteq> {0..<length (ct_items s)}" and "batches_ok s"
    and g: "1 \<le> cc_consumer_group_id cc" "cc_consumer_group_id cc \<le> 64"
  shows "\<exists>s'. foldM (resume calls cc) schedule s = Some s' \<and> routines_inv B s' \<and> length (ct_items s') = length (ct_items s)
    \<and> (\<forall>c < length B. todo s' c = todo s c - count_list schedule (HandleRoutine c))
    \<and> length (ct_batch_handle_finish s') = length (ct_batch_handle_finish s) \<and> batches_ok s'
    \<and> (\<forall>c < length (ct_batch_handle_finish s). BatchHandleRoutine c \<in> set schedule \<or> ct_batch_handle_finish s ! c \<longrightarrow> ct_batch_handle_finish s' ! c)"
  using assms(1,3,4)
proof (induction schedule arbitrary: s)
  case (Cons r schedule)
  obtain t where t: "resume calls cc r s = Some t" "\<forall>c < length B. todo t c = todo s c - (if r = HandleRoutine c then 1 else 0)"
    "length (ct_batch_handle_finish t) = length (ct_batch_handle_finish s)" "batches_ok t"
    "\<forall>c < length (ct_batch_handle_finish s). r = BatchHandleRoutine c \<or> ct_batch_handle_finish s ! c \<longrightarrow> ct_batch_handle_finish t ! c"
    using resume_progress[OF Cons.prems g, of calls r] by (elim exE conjE) (rule that; assumption)
  have inv: "routines_inv B t" "length (ct_items t) = length (ct_items s)" using resume_inv[OF Cons.prems(1) d t(1)] by simp_all
  obtain s' where s': "foldM (resume calls cc) schedule t = Some s'" "routines_inv B s'" "length (ct_items s') = length (ct_items t)"
    "\<forall>c < length B. todo s' c = todo t c - count_list schedule (HandleRoutine c)"
    "length (ct_batch_handle_finish s') = length (ct_batch_handle_finish t)" "batches_ok s'"
    "\<forall>c < length (ct_batch_handle_finish t). BatchHandleRoutine c \<in> set schedule \<or> ct_batch_handle_finish t ! c \<longrightarrow> ct_batch_handle_finish s' ! c"
    using Cons.IH[of t, OF inv(1) _ t(4)] Cons.prems(2) unfolding inv(2) by (elim meta_impE exE conjE) (assumption | rule that; assumption)+
  show ?case using t s' inv by (intro exI[of _ s']) auto
qed simp

lemma todo_0: "todo s c = 0 \<longleftrightarrow> ct_running s ! c = None \<and> ct_handle_buckets s ! c = []"
  by (auto simp: todo_def split: option.splits)

lemma all_done:
  assumes inv: "routines_inv B s" and d: "distinct (concat B)" and B: "set (concat B) = {0..<length (ct_items s)}"
    and todo: "\<forall>c < length B. todo s c = 0" and ok: "batches_ok s" "\<forall>c < length (ct_batch_handle_finish s). ct_batch_handle_finish s ! c"
  shows "IsAllTaskFinish s"
proof -
  have "filter (\<lambda>i. i \<in> set (B ! c)) (handled_idxs s) = B ! c" if "c < length B" for c
    using inv todo that unfolding routines_inv_def todo_0 by (metis (no_types, lifting) append_Nil2 append_Nil option.case(1))
  then have "set (B ! c) \<subseteq> set (handled_idxs s)" if "c < length B" for c
    using that by (metis filter_is_subset)
  then have "set (concat B) \<subseteq> set (handled_idxs s)" unfolding set_concat by (intro UN_least) (metis in_set_conv_nth)
  then have "set (handled_idxs s) = {0..<length (ct_items s)}" using inv B unfolding routines_inv_def by blast
  moreover have "distinct (handled_idxs s)" using inv unfolding routines_inv_def by blast
  ultimately have "length (handled_idxs s) = length (ct_items s)" by (metis card_atLeastLessThan diff_zero distinct_card)
  moreover have "filter id (ct_batch_handle_finish s) = ct_batch_handle_finish s"
    using ok(2) unfolding filter_id_conv by (auto simp: in_set_conv_nth)
  ultimately show ?thesis using inv ok(1) by (simp add: IsAllTaskFinish_def routines_inv_def batches_ok_def)
qed

lemma fill_buckets_total:
  assumes "0 < n" and "n < 2 ^ 31" and "length buckets = nat n" and "0 \<le> used" and "used \<le> n"
    and "\<forall>e \<in> set u2b. 0 \<le> snd e \<and> snd e < n"
  shows "\<exists>b. fill_buckets rand n random_uin items i used u2b buckets = Some b"
  using assms(3-)
proof (induction items arbitrary: i used u2b buckets)
  case (Cons item items)
  let ?key = "item_uin item"
  let ?found = "if ?key \<noteq> 0 \<and> \<not> random_uin then map_of u2b ?key else None"
  have mod: "uint (rand i mod word_of_int n) < n"
  proof -
    have "uint (word_of_int n :: u32) = n" using assms(1,2) by (simp add: uint_word_of_int)
    then show ?thesis using assms(1) by (simp add: uint_mod)
  qed
  obtain b used' where b: "(case ?found of Some b \<Rightarrow> Some (b, used)
        | None \<Rightarrow> if n \<le> used then if n = 0 then None else Some (uint (rand i mod word_of_int n), used) else Some (used, used + 1)) = Some (b, used')"
    "0 \<le> b" "b < n" "0 \<le> used'" "used' \<le> n"
    using Cons.prems mod assms(1) by (cases ?found) (force split: if_splits dest: map_of_SomeD)+
  have "Prelude.at buckets b = Some (buckets ! nat b)" using b Cons.prems(1) by (simp add: at_def)
  moreover have "\<forall>e \<in> set (map_assign ?key b u2b). 0 \<le> snd e \<and> snd e < n"
    using b Cons.prems(4) set_map_assign[of ?key b u2b] by fastforce
  ultimately show ?case
    using Cons.IH[of "put_at buckets b (buckets ! nat b @ [i])" used' "if (?key \<noteq> 0 \<and> \<not> random_uin) \<and> ?found = None then map_assign ?key b u2b else u2b" "Suc i"]
      Cons.prems b by (simp add: Let_def)
qed simp

text \<open>C30: The dispatcher answers: with a configured queue and at least one handler coroutine, every schedule
  that resumes each handler coroutine more often than there are items, and each batch coroutine once,
  ends with all tasks finished.\<close>

theorem TaskDispatch_returns:
  assumes "GetTopicConfigByTopicID g topic_id = Inr tc" and "GetQueueInfoByQueue tc (cc_queue_id cc) = Inr qi"
    and "0 < opt_nhandler opt" and "opt_nhandler opt < 2 ^ 31" and "length results = length items"
    and "1 \<le> cc_consumer_group_id cc" and "cc_consumer_group_id cc \<le> 64"
    and "\<forall>cid. cid < nat (opt_nhandler opt) \<longrightarrow> length items < count_list schedule (HandleRoutine cid)"
    and "\<forall>cid. cid < nat (opt_nbatch_handler opt) \<longrightarrow> BatchHandleRoutine cid \<in> set schedule"
  shows "\<exists>s. TaskDispatch calls g opt rand schedule topic_id cc items results w = Some s"
proof -
  have "\<exists>B. fill_buckets rand (opt_nhandler opt) (qinfo_handle_by_random_uin qi \<noteq> 0) items 0 0 [] (replicate (nat (opt_nhandler opt)) []) = Some B"
    by (rule fill_buckets_total) (use assms(3,4) in auto)
  then obtain B where B: "MakeHandleBuckets g opt rand topic_id cc items = Some (RET_OK, B)"
    using assms(1,2) by (auto simp: MakeHandleBuckets_def)
  note part = MakeHandleBuckets_partition[OF B assms(1,2)]
  then have perm: "distinct (concat B)" "set (concat B) = {0..<length items}" and len: "length B = nat (opt_nhandler opt)"
    by (metis mset_eq_imp_distinct_iff distinct_upt, metis mset_eq_setD set_upt, simp)
  let ?s0 = "\<lparr>ct_items = items, ct_handle_results = results, ct_handle_buckets = B, ct_running = replicate (nat (opt_nhandler opt)) None,
        ct_batch_handle_finish = replicate (nat (opt_nbatch_handler opt)) False,
        ct_nhandle_task_finished = 0, ct_nbatch_handle_task_finished = 0, ct_world = w, ct_handled = []\<rparr>"
  have s0: "routines_inv B ?s0" "batches_ok ?s0" using assms(5) len by (simp_all add: routines_inv_def batches_ok_def)
  have "length (B ! c) \<le> length items" if "c < length B" for c
  proof -
    have "distinct (B ! c)" "set (B ! c) \<subseteq> {0..<length items}" using perm that by (metis distinct_concat_iff nth_mem, auto)
    then show ?thesis by (metis card_atLeastLessThan card_mono diff_zero distinct_card finite_atLeastLessThan)
  qed
  then have todo: "todo ?s0 c \<le> Suc (length items)" if "c < length B" for c using that len by (simp add: todo_def)
  obtain s where s: "foldM (resume calls cc) schedule ?s0 = Some s" "routines_inv B s" "length (ct_items s) = length items"
    "\<forall>c < length B. todo s c = todo ?s0 c - count_list schedule (HandleRoutine c)"
    "length (ct_batch_handle_finish s) = nat (opt_nbatch_handler opt)" "batches_ok s"
    "\<forall>c < nat (opt_nbatch_handler opt). BatchHandleRoutine c \<in> set schedule \<or> False \<longrightarrow> ct_batch_handle_finish s ! c"
    using run_progress[OF s0(1) perm(1) _ s0(2) assms(6,7), of calls schedule] perm(2) by auto
  have "todo s c = 0" if "c < length B" for c
    using s(4) le_trans[OF todo[OF that] Suc_leI] assms(8) that len by simp
  then have "IsAllTaskFinish s"
    by (intro all_done[OF s(2) perm(1)]) (use s perm(2) assms(9) len in auto)
  then show ?thesis using B s(1) by (simp add: TaskDispatch_def TaskDispatch_start_def)
qed

text \<open>If the queue has lost its configuration when the buckets are made, no bucket has an item, no coroutine
  has a task, and the dispatcher never answers, whatever is scheduled: the pull thread waits forever.\<close>

theorem TaskDispatch_stuck:
  assumes "GetTopicConfigByTopicID g topic_id = Inr tc" and "GetQueueInfoByQueue tc (cc_queue_id cc) = Inl ret" and "items \<noteq> []"
    and "length results = length items"
  shows "TaskDispatch calls g opt rand schedule topic_id cc items results w = None"
proof (rule ccontr)
  let ?B = "replicate (nat (opt_nhandler opt)) []"
  assume "\<not> ?thesis"
  then obtain s where s: "TaskDispatch calls g opt rand schedule topic_id cc items results w = Some s" by blast
  have "MakeHandleBuckets g opt rand topic_id cc items = Some (ret, ?B)" using assms by (simp add: MakeHandleBuckets_def)
  from TaskDispatch_inv[OF s this] assms(4) have "routines_inv ?B s" "length (ct_items s) = length items" "IsAllTaskFinish s" by auto
  then show False using assms(3) by (auto simp: routines_inv_def IsAllTaskFinish_def)
qed

subsection \<open>Groups\<close>

text \<open>C31: The mask a producer writes and the bit a consumer tests agree: a worker of group \<open>g\<close> handles exactly
  the items that were enqueued for all groups or for a set with \<open>g\<close>.\<close>

theorem SkipHandle_groups:
  assumes "ConsumerGroupIDs2Mask ids = Some groups" and "1 \<le> cc_consumer_group_id cc" and "cc_consumer_group_id cc \<le> 64"
  shows "SkipHandle cc (make_item crc32 Compress topic_id uin handle_id buffer pub groups client_id now)
    = Some (case ids of None \<Rightarrow> False | Some ids \<Rightarrow> cc_consumer_group_id cc \<notin> set ids)"
proof -
  have "and groups (push_bit (nat (cc_consumer_group_id cc - 1)) 1) = 0 \<longleftrightarrow> \<not> bit groups (nat (cc_consumer_group_id cc - 1))"
    by (simp add: and_exp_eq_0_iff_not_bit push_bit_of_1)
  moreover have "qi_consumer_group_ids (make_item crc32 Compress topic_id uin handle_id buffer pub groups client_id now) = groups"
    by (simp add: make_item_def Let_def split: prod.splits)
  ultimately show ?thesis
    using assms ConsumerGroupIDs2Mask_bits[OF assms] by (simp add: SkipHandle_def group_bit_def split: option.splits)
qed

subsection \<open>Samples\<close>

text \<open>Three items, two of one user, two handler coroutines and a batch coroutine.\<close>

definition handle_item :: "u64 \<Rightarrow> string \<Rightarrow> QItem" where
  "handle_item u buf = (sample_item buf)\<lparr>qi_meta := (qi_meta (sample_item buf))\<lparr>meta_uin := u\<rparr>\<rparr>"

definition handle_items :: "QItem list" where
  "handle_items = [handle_item 5 ''a'', handle_item 9 ''b'', handle_item 5 ''c'']"

definition handle_option :: ConsumerOption where
  "handle_option = sample_option\<lparr>opt_nhandler := 2, opt_nbatch_handler := 1\<rparr>"

definition handle_context :: ConsumerContext where
  "handle_context = ConsumerContext_default\<lparr>cc_topic_id := 1000, cc_consumer_group_id := 1, cc_store_id := 1, cc_queue_id := 7\<rparr>"

definition handle_calls :: "string list HandleCalls" where
  "handle_calls = \<lparr>call_UncompressBuffer = (\<lambda>b _. (RET_OK, b)), call_CompressBuffer = (\<lambda>b _. b),
     call_GetHandler = (\<lambda>_. Some (\<lambda>cc item buf w. ((if buf = ''b'' then RES_ERROR else RES_OK, False, item, buf), w @ [buf]))),
     call_BatchHandle = (\<lambda>cc items n w. (RET_OK, w))\<rparr>"

definition handle_run :: "Routine list \<Rightarrow> string list ConsumeThread option" where
  "handle_run schedule = TaskDispatch handle_calls producer_config handle_option (\<lambda>_. 0) schedule 1000 handle_context handle_items
     (replicate 3 RES_ERROR) []"

definition handle_schedule :: "Routine list" where
  "handle_schedule = concat (replicate 4 [HandleRoutine 1, HandleRoutine 0]) @ [BatchHandleRoutine 0]"

lemma handle_config: "\<exists>qi. GetQueueInfoByQueue sample_topic (cc_queue_id handle_context) = Inr qi \<and> qinfo_handle_by_random_uin qi = 0"
proof -
  have "case GetQueueInfoByQueue sample_topic (cc_queue_id handle_context) of Inl _ \<Rightarrow> False | Inr qi \<Rightarrow> qinfo_handle_by_random_uin qi = 0" by code_simp
  then show ?thesis by (auto split: sum.splits)
qed

lemma handle_buckets: "MakeHandleBuckets producer_config handle_option (\<lambda>_. 0) 1000 handle_context handle_items = Some (RET_OK, [[0, 2], [1]])"
  by code_simp

theorem MakeHandleBuckets_partition_witness: "mset (concat [[0, 2], [1]]) = mset [0..<length handle_items]"
proof -
  obtain qi where "GetQueueInfoByQueue sample_topic (cc_queue_id handle_context) = Inr qi" using handle_config by blast
  from MakeHandleBuckets_partition[OF handle_buckets producer_config_lookup this] show ?thesis by blast
qed

lemma handle_run_order: "map_option (\<lambda>s. (handled_idxs s, ct_handle_results s, ct_world s)) (handle_run handle_schedule)
    = Some ([1, 0, 2], [RES_OK, RES_ERROR, RES_OK], [''b'', ''a'', ''c''])"
  by code_simp

theorem TaskDispatch_handles_each_once_witness:
  "\<exists>s. handle_run handle_schedule = Some s \<and> mset (handled_idxs s) = mset [0..<length handle_items]
     \<and> sorted_wrt (<) (filter (\<lambda>i. item_uin (handle_items ! i) = 5) (handled_idxs s))"
proof -
  obtain qi where qi: "GetQueueInfoByQueue sample_topic (cc_queue_id handle_context) = Inr qi" "qinfo_handle_by_random_uin qi = 0"
    using handle_config by blast
  obtain s where s: "handle_run handle_schedule = Some s" using handle_run_order by auto
  have "length (replicate 3 RES_ERROR) = length handle_items" by (simp add: handle_items_def)
  from TaskDispatch_handles_each_once[OF s[unfolded handle_run_def] this producer_config_lookup qi(1)] qi(2)
  have "mset (handled_idxs s) = mset [0..<length handle_items]"
    "sorted_wrt (<) (filter (\<lambda>i. item_uin (handle_items ! i) = 5) (handled_idxs s))" by simp_all
  then show ?thesis using s by blast
qed

theorem TaskDispatch_returns_witness: "\<exists>s. handle_run handle_schedule = Some s"
proof -
  obtain qi where qi: "GetQueueInfoByQueue sample_topic (cc_queue_id handle_context) = Inr qi" using handle_config by blast
  show ?thesis
    unfolding handle_run_def
    by (rule TaskDispatch_returns[OF producer_config_lookup qi])
      (auto simp: handle_option_def handle_items_def handle_context_def handle_schedule_def less_Suc_eq numeral_eq_Suc)
qed

theorem TaskDispatch_stuck_witness:
  "TaskDispatch handle_calls producer_config handle_option (\<lambda>_. 0) handle_schedule 1000 (handle_context\<lparr>cc_queue_id := 999\<rparr>) handle_items
     (replicate 3 RES_ERROR) [] = None"
proof -
  have "case GetQueueInfoByQueue sample_topic (cc_queue_id (handle_context\<lparr>cc_queue_id := 999\<rparr>)) of Inl _ \<Rightarrow> True | Inr _ \<Rightarrow> False" by code_simp
  then obtain ret where ret: "GetQueueInfoByQueue sample_topic (cc_queue_id (handle_context\<lparr>cc_queue_id := 999\<rparr>)) = Inl ret"
    by (auto split: sum.splits)
  show ?thesis by (rule TaskDispatch_stuck[OF producer_config_lookup ret]) (simp_all add: handle_items_def)
qed

theorem SkipHandle_groups_witness:
  "SkipHandle handle_context (make_item (\<lambda>h bs. h) (\<lambda>b. (b, 0)) 1000 5 1 ''x'' 1 2 [] 0) = Some True
   \<and> SkipHandle (handle_context\<lparr>cc_consumer_group_id := 2\<rparr>) (make_item (\<lambda>h bs. h) (\<lambda>b. (b, 0)) 1000 5 1 ''x'' 1 2 [] 0) = Some False"
proof -
  have "ConsumerGroupIDs2Mask (Some [2]) = Some 2" by (simp add: ConsumerGroupIDs2Mask_def)
  from SkipHandle_groups[OF this, of handle_context] SkipHandle_groups[OF this, of "handle_context\<lparr>cc_consumer_group_id := 2\<rparr>"]
  show ?thesis by (simp add: handle_context_def)
qed

end
