(* ===== verification/FreqMan.thy ===== *)
theory FreqMan
  imports HandleTasks
begin

section \<open>Frequency limits (consumer/freqman.cpp)\<close>

text \<open>
  A shared memory has, for each worker, how much it may handle and how much it has handled. A process
  of its own turns the configured limits per minute into limits for the workers every five seconds and
  clears the counts. The doubles are rounded as IEEE 754 does. A limit that would be zero, which
  happens only when no time has passed, divides by zero and converts the result to \<open>int\<close>: undefined.
\<close>

definition MAX_VPID :: int where
  "MAX_VPID = 10000"

definition MAX_HANDLE_ID_NUM :: int where
  "MAX_HANDLE_ID_NUM = 1000"

record LimitInfo_t =
  li_nhandle_limit :: int
  li_nrefill :: int
  li_refill_interval_ms :: int

record ConsumeStat_t =
  cst_nget :: int
  cst_nhandle_tot :: int
  cst_handle_id_rank2nhandle :: "int list"

record FreqMan =
  fm_topic_id :: int
  fm_last_update_time :: u64
  fm_limit_infos :: "LimitInfo_t list"
  fm_consume_stats :: "ConsumeStat_t list"

definition LimitInfo_zero :: LimitInfo_t where
  "LimitInfo_zero = \<lparr>li_nhandle_limit = 0, li_nrefill = 0, li_refill_interval_ms = 0\<rparr>"

definition ConsumeStat_zero :: ConsumeStat_t where
  "ConsumeStat_zero = \<lparr>cst_nget = 0, cst_nhandle_tot = 0, cst_handle_id_rank2nhandle = replicate (nat (MAX_HANDLE_ID_NUM + 1)) 0\<rparr>"

definition FreqMan_Init :: "bool \<Rightarrow> u64 \<Rightarrow> int \<Rightarrow> RetCode + FreqMan" where
  "FreqMan_Init mmap_ok now topic_id =
     (if \<not> mmap_ok then Inl RET_ERR_SYS
      else Inr \<lparr>fm_topic_id = topic_id, fm_last_update_time = now, fm_limit_infos = replicate (nat (MAX_VPID + 1)) LimitInfo_zero,
                fm_consume_stats = replicate (nat (MAX_VPID + 1)) ConsumeStat_zero\<rparr>)"

subsection \<open>Counting\<close>

definition ClearConsumeStat :: "ConsumeStat_t \<Rightarrow> nat \<Rightarrow> ConsumeStat_t option" where
  "ClearConsumeStat stat nhandle_id =
     (if length (cst_handle_id_rank2nhandle stat) < nhandle_id then None
      else Some (stat\<lparr>cst_nget := 0, cst_nhandle_tot := 0,
                   cst_handle_id_rank2nhandle := replicate nhandle_id 0 @ drop nhandle_id (cst_handle_id_rank2nhandle stat)\<rparr>))"

definition count_item :: "TopicConfig \<Rightarrow> ConsumerContext \<Rightarrow> QItem \<Rightarrow> ConsumeStat_t \<Rightarrow> ConsumeStat_t option" where
  "count_item tc cc item stat = do {
     skip \<leftarrow> SkipHandle cc item;
     if skip then Some stat
     else case GetHandleIDRank tc (meta_handle_id (qi_meta item)) of
            Inl _ \<Rightarrow> Some stat
          | Inr rank \<Rightarrow>
              if MAX_HANDLE_ID_NUM < rank then Some stat
              else do {
                n \<leftarrow> Prelude.at (cst_handle_id_rank2nhandle stat) rank;
                Some (stat\<lparr>cst_nhandle_tot := cst_nhandle_tot stat + 1,
                           cst_handle_id_rank2nhandle := put_at (cst_handle_id_rank2nhandle stat) rank (n + 1)\<rparr>) } }"

text \<open>\<open>last_mod_time\<close> is the static variable of the function.\<close>

definition UpdateConsumeStat ::
  "GlobalConfig \<Rightarrow> int \<Rightarrow> ConsumerContext \<Rightarrow> QItem list \<Rightarrow> u64 \<Rightarrow> FreqMan \<Rightarrow> (u64 \<times> FreqMan) option" where
  "UpdateConsumeStat g vpid cc items last_mod_time fm =
     (if MAX_VPID < vpid then Some (last_mod_time, fm)
      else do {
        stat \<leftarrow> Prelude.at (fm_consume_stats fm) vpid;
        case GetTopicConfigByTopicID g (fm_topic_id fm) of
          Inl _ \<Rightarrow> Some (last_mod_time, fm)
        | Inr tc \<Rightarrow> do {
            stat \<leftarrow> (if last_mod_time \<noteq> tc_last_mod_time tc
                      then ClearConsumeStat stat (length (handle_ids (tp_topic (tc_proto tc)))) else Some stat);
            stat \<leftarrow> foldM (count_item tc cc) items (stat\<lparr>cst_nget := cst_nget stat + 1\<rparr>);
            Some (tc_last_mod_time tc, fm\<lparr>fm_consume_stats := put_at (fm_consume_stats fm) vpid stat\<rparr>) } })"

definition ClearAllConsumeStat :: "GlobalConfig \<Rightarrow> ConsumerOption \<Rightarrow> FreqMan \<Rightarrow> FreqMan option" where
  "ClearAllConsumeStat g opt fm =
     (case GetTopicConfigByTopicID g (fm_topic_id fm) of
        Inl _ \<Rightarrow> Some fm
      | Inr tc \<Rightarrow>
          foldM (\<lambda>i fm. do {
            stat \<leftarrow> Prelude.at (fm_consume_stats fm) (int i);
            stat \<leftarrow> ClearConsumeStat stat (length (handle_ids (tp_topic (tc_proto tc))));
            Some (fm\<lparr>fm_consume_stats := put_at (fm_consume_stats fm) (int i) stat\<rparr>) }) [0..<nat (opt_nprocs opt)] fm)"

subsection \<open>Limits\<close>

text \<open>The workers that a limit applies to. The ids of the table are unsigned.\<close>

definition freq_procs :: "Queue_t list \<Rightarrow> int \<Rightarrow> int list \<Rightarrow> int list \<Rightarrow> nat list" where
  "freq_procs queues consumer_group_id valid_store_ids valid_queue_ids =
     filter (\<lambda>vpid. let queue = queues ! vpid in
         q_magic queue \<noteq> 0 \<and> q_consumer_group_id queue = word_of_int consumer_group_id
         \<and> sint (q_store_id queue) \<in> set valid_store_ids \<and> sint (q_queue_id queue) \<in> set valid_queue_ids) [0..<length queues]"

text \<open>
  The count of a handle id. For a limit on all handle ids the rank is \<open>-1\<close>, and the second loop of the
  code reads the array at \<open>-1\<close>: in the layout of the structure that word is \<open>nhandle_tot\<close>.
\<close>

definition rank_count :: "ConsumeStat_t \<Rightarrow> int \<Rightarrow> int option" where
  "rank_count stat rank = (if rank = -1 then Some (cst_nhandle_tot stat) else Prelude.at (cst_handle_id_rank2nhandle stat) rank)"

definition sum_stats :: "ConsumeStat_t list \<Rightarrow> int \<Rightarrow> nat list \<Rightarrow> (int \<times> int \<times> int) option" where
  "sum_stats stats rank procs =
     foldM (\<lambda>vpid (proc_used, nhandle_tot, nhandle). do {
       stat \<leftarrow> Prelude.at stats (int vpid);
       n \<leftarrow> rank_count stat rank;
       Some (proc_used + 1, nhandle_tot + cst_nhandle_tot stat, nhandle + n) }) procs (0, 0, 0)"

definition limit_per_proc :: "int \<Rightarrow> u64 \<Rightarrow> int \<Rightarrow> rat" where
  "limit_per_proc limit_per_min diff_time_ms proc_tot =
     float64 (float64 (float64 (float64 (of_int limit_per_min / 60) * float64 (of_int (uint diff_time_ms))) / 1000) / of_int proc_tot)"

definition handled_pct_per_proc :: "int \<Rightarrow> int \<Rightarrow> rat \<Rightarrow> rat" where
  "handled_pct_per_proc nhandle proc_used limit = float64 (float64 (of_int nhandle / of_int proc_used) / limit)"

definition refill :: "u64 \<Rightarrow> rat \<Rightarrow> rat \<Rightarrow> (int \<times> int) option" where
  "refill diff_time_ms limit handle_rate = do {
     let diff = float64 (of_int (uint diff_time_ms));
     refill_interval_ms \<leftarrow> trunc_i32 (float64 (diff / float64 (limit / float64 (1 * handle_rate))));
     if refill_interval_ms = 0
     then do { nrefill \<leftarrow> trunc_i32 (float64 (float64 (float64 (1 * limit) / diff) / handle_rate)); Some (nrefill, 1) }
     else Some (1, refill_interval_ms) }"

definition set_limit ::
  "ConsumeStat_t list \<Rightarrow> int \<Rightarrow> int \<Rightarrow> int \<Rightarrow> rat \<Rightarrow> int \<Rightarrow> int \<Rightarrow> nat \<Rightarrow> LimitInfo_t list \<Rightarrow> LimitInfo_t list option" where
  "set_limit stats rank nhandle proc_used nhandle_limit nrefill refill_interval_ms vpid limit_infos = do {
     stat \<leftarrow> Prelude.at stats (int vpid);
     n \<leftarrow> rank_count stat rank;
     let prop = float64 (of_int n / float64 (of_int nhandle / of_int proc_used));
     let prop = (if prop < float64 (1 / 10) then float64 (1 / 10) else prop);
     let prop = (if n = 0 then 1 else prop);
     nhandle_limit_tmp \<leftarrow> trunc_i32 (float64 (nhandle_limit * prop));
     interval \<leftarrow> trunc_i32 (float64 (of_int refill_interval_ms / prop));
     Some (put_at limit_infos (int vpid)
       \<lparr>li_nhandle_limit = (if nhandle_limit_tmp \<noteq> 0 then nhandle_limit_tmp else 1), li_nrefill = nrefill,
        li_refill_interval_ms = (if interval = 0 then 1 else interval)\<rparr>) }"

definition valid_stores :: "GlobalConfig \<Rightarrow> int \<Rightarrow> int \<Rightarrow> int list \<Rightarrow> int list" where
  "valid_stores g topic_id pub store_ids =
     filter (\<lambda>store_id. case GetPubIDsByStoreID g topic_id store_id of Inl _ \<Rightarrow> False | Inr pub_ids \<Rightarrow> pub \<in> set pub_ids) store_ids"

text \<open>
  One configured limit. The state: the highest share of a limit seen so far for a pub, group and queue
  info; the workers that have a limit; the limits.
\<close>

type_synonym freq_state = "((int \<times> int \<times> int) \<times> rat) list \<times> nat list \<times> LimitInfo_t list"

definition impose_limit :: "FreqMan \<Rightarrow> int \<Rightarrow> nat list \<Rightarrow> int \<Rightarrow> u64 \<Rightarrow> FreqInfo \<Rightarrow> freq_state \<Rightarrow> freq_state option" where
  "impose_limit fm rank procs proc_tot diff_time_ms f st =
     (let (max_pct, updated, limit_infos) = st in do {
        (proc_used, nhandle_tot, nhandle) \<leftarrow> sum_stats (fm_consume_stats fm) rank procs;
        let nhandle_tot = (if nhandle_tot = 0 then 1 else nhandle_tot);
        let nhandle = (if nhandle = 0 then 1 else nhandle);
        let limit = limit_per_proc (freq_limit_per_min f) diff_time_ms proc_tot;
        let pct = handled_pct_per_proc nhandle proc_used limit;
        let handle_rate = float64 (of_int nhandle / of_int nhandle_tot);
        let key = (freq_pub_id f, freq_consumer_group_id f, freq_queue_info_id f);
        if proc_used = 0 then Some st
        else if limit = 0 then None
        else if (case map_of max_pct key of None \<Rightarrow> False | Some p \<Rightarrow> pct < p) then Some st
        else do {
          (nrefill, refill_interval_ms) \<leftarrow> refill diff_time_ms limit handle_rate;
          limit_infos \<leftarrow> foldM (set_limit (fm_consume_stats fm) rank nhandle proc_used (float64 (limit / handle_rate))
                                 nrefill refill_interval_ms) procs limit_infos;
          Some (map_assign key pct max_pct, updated @ procs, limit_infos) } })"

definition apply_freq_info ::
  "GlobalConfig \<Rightarrow> TopicConfig \<Rightarrow> FreqMan \<Rightarrow> Queue_t list \<Rightarrow> int list \<Rightarrow> u64 \<Rightarrow> FreqInfo \<Rightarrow> freq_state \<Rightarrow> freq_state option" where
  "apply_freq_info g tc fm queues store_ids diff_time_ms f st =
     (if freq_limit_per_min f = 0 then Some st
      else case (if freq_handle_id f = -1 then Inr (-1) else GetHandleIDRank tc (freq_handle_id f)) of
        Inl _ \<Rightarrow> Some st
      | Inr rank \<Rightarrow>
      case GetPubByPubID tc (freq_pub_id f) of
        Inl _ \<Rightarrow> Some st
      | Inr pub \<Rightarrow>
      if freq_consumer_group_id f \<notin> set (pub_consumer_group_ids pub) then Some st
      else let valid_store_ids = valid_stores g (fm_topic_id fm) (freq_pub_id f) store_ids;
               valid_queue_ids = (case GetQueuesByQueueInfoID tc (freq_queue_info_id f) of Inl _ \<Rightarrow> [] | Inr qs \<Rightarrow> qs) in
      if valid_store_ids = [] \<or> valid_queue_ids = [] then Some st
      else impose_limit fm rank (freq_procs queues (freq_consumer_group_id f) valid_store_ids valid_queue_ids)
             (int (length valid_store_ids) * int (length valid_queue_ids)) diff_time_ms f st)"

text \<open>The workers without a limit.\<close>

definition clear_limits :: "nat \<Rightarrow> nat list \<Rightarrow> LimitInfo_t list \<Rightarrow> LimitInfo_t list" where
  "clear_limits nprocs updated limit_infos =
     fold (\<lambda>vpid limit_infos. if vpid \<in> set updated then limit_infos else put_at limit_infos (int vpid) LimitInfo_zero)
       [0..<nprocs] limit_infos"

definition UpdateLimitInfo :: "GlobalConfig \<Rightarrow> ConsumerOption \<Rightarrow> Queue_t list \<Rightarrow> u64 \<Rightarrow> FreqMan \<Rightarrow> (RetCode \<times> FreqMan) option" where
  "UpdateLimitInfo g opt queues now fm =
     (let diff_time_ms = now - fm_last_update_time fm; fm = fm\<lparr>fm_last_update_time := now\<rparr> in
      case GetTopicConfigByTopicID g (fm_topic_id fm) of Inl ret \<Rightarrow> Some (ret, fm) | Inr tc \<Rightarrow>
      case GetStoreConfig g (fm_topic_id fm) of Inl ret \<Rightarrow> Some (ret, fm) | Inr sc \<Rightarrow>
      if int (length queues) \<noteq> opt_nprocs opt then Some (RET_ERR_UNEXPECTED, fm)
      else do {
        (max_pct, updated, limit_infos) \<leftarrow>
          foldM (apply_freq_info g tc fm queues (GetAllStoreID sc) diff_time_ms) (GetAllFreqInfo tc) ([], [], fm_limit_infos fm);
        Some (RET_OK, fm\<lparr>fm_limit_infos := clear_limits (length queues) updated limit_infos\<rparr>) })"

text \<open>One round of the process that \<open>Run\<close> forks.\<close>

definition FreqMan_round :: "GlobalConfig \<Rightarrow> ConsumerOption \<Rightarrow> Queue_t list \<Rightarrow> u64 \<Rightarrow> FreqMan \<Rightarrow> FreqMan option" where
  "FreqMan_round g opt queues now fm = do {
     (ret, fm) \<leftarrow> UpdateLimitInfo g opt queues now fm;
     ClearAllConsumeStat g opt fm }"

record Judgement =
  need_block :: bool
  need_freqlimit :: bool
  jd_nrefill :: int
  jd_refill_interval_ms :: int

definition Judge :: "int \<Rightarrow> FreqMan \<Rightarrow> Judgement option" where
  "Judge vpid fm =
     (let none = \<lparr>need_block = False, need_freqlimit = False, jd_nrefill = 0, jd_refill_interval_ms = 0\<rparr> in
      if MAX_VPID < vpid then Some none
      else do {
        li \<leftarrow> Prelude.at (fm_limit_infos fm) vpid;
        stat \<leftarrow> Prelude.at (fm_consume_stats fm) vpid;
        Some (if li_nhandle_limit li = 0 then none
              else \<lparr>need_block = (li_nhandle_limit li < cst_nhandle_tot stat), need_freqlimit = True,
                    jd_nrefill = li_nrefill li, jd_refill_interval_ms = li_refill_interval_ms li\<rparr>) })"

subsection \<open>The invariant of the shared memory\<close>

definition stat_ok :: "ConsumeStat_t \<Rightarrow> bool" where
  "stat_ok stat \<longleftrightarrow> 0 \<le> cst_nget stat \<and> 0 \<le> cst_nhandle_tot stat \<and> (\<forall>n \<in> set (cst_handle_id_rank2nhandle stat). 0 \<le> n)"

definition limit_ok :: "LimitInfo_t \<Rightarrow> bool" where
  "limit_ok li \<longleftrightarrow> li_nhandle_limit li = 0 \<or> 1 \<le> li_nhandle_limit li \<and> 0 \<le> li_nrefill li \<and> 1 \<le> li_refill_interval_ms li"

definition freq_inv :: "FreqMan \<Rightarrow> bool" where
  "freq_inv fm \<longleftrightarrow> (\<forall>stat \<in> set (fm_consume_stats fm). stat_ok stat) \<and> (\<forall>li \<in> set (fm_limit_infos fm). limit_ok li)"

lemma all_put_at: "\<forall>x \<in> set xs. P x \<Longrightarrow> P y \<Longrightarrow> \<forall>x \<in> set (put_at xs i y). P x"
  unfolding put_at_def by (auto dest!: set_update_subset_insert[THEN subsetD])

lemma ClearConsumeStat_ok: "stat_ok stat \<Longrightarrow> ClearConsumeStat stat n = Some stat' \<Longrightarrow> stat_ok stat'"
  using in_set_dropD[of _ n "cst_handle_id_rank2nhandle stat"] by (auto simp: ClearConsumeStat_def stat_ok_def split: if_splits)

lemma count_item_ok:
  assumes ok: "stat_ok stat" and run: "count_item tc cc item stat = Some stat'"
  shows "stat_ok stat'"
proof (cases "\<exists>rank n. Prelude.at (cst_handle_id_rank2nhandle stat) rank = Some n
    \<and> stat' = stat\<lparr>cst_nhandle_tot := cst_nhandle_tot stat + 1, cst_handle_id_rank2nhandle := put_at (cst_handle_id_rank2nhandle stat) rank (n + 1)\<rparr>")
  case True
  then obtain rank n where n: "Prelude.at (cst_handle_id_rank2nhandle stat) rank = Some n"
    and s': "stat' = stat\<lparr>cst_nhandle_tot := cst_nhandle_tot stat + 1, cst_handle_id_rank2nhandle := put_at (cst_handle_id_rank2nhandle stat) rank (n + 1)\<rparr>"
    by (elim exE conjE)
  then have "0 \<le> n" using ok at_set[OF n] by (simp add: stat_ok_def)
  then have "\<forall>x \<in> set (put_at (cst_handle_id_rank2nhandle stat) rank (n + 1)). 0 \<le> x"
    using ok by (intro all_put_at) (simp_all add: stat_ok_def)
  then show ?thesis using ok by (simp add: stat_ok_def s')
next
  case False
  obtain skip where skip: "SkipHandle cc item = Some skip" using run by (cases "SkipHandle cc item") (simp_all add: count_item_def)
  have "stat' = stat"
  proof (cases "GetHandleIDRank tc (meta_handle_id (qi_meta item))")
    case (Inr rank)
    then show ?thesis
      using run skip False by (cases "Prelude.at (cst_handle_id_rank2nhandle stat) rank") (auto simp: count_item_def split: if_splits)
  qed (use run skip in \<open>simp add: count_item_def split: if_splits\<close>)
  then show ?thesis using ok by simp
qed

lemma UpdateConsumeStat_inv:
  assumes inv: "freq_inv fm" and run: "UpdateConsumeStat g vpid cc items t fm = Some (t', fm')"
  shows "freq_inv fm'"
proof (cases "MAX_VPID < vpid")
  case False
  obtain stat where stat: "Prelude.at (fm_consume_stats fm) vpid = Some stat"
    using run False by (cases "Prelude.at (fm_consume_stats fm) vpid") (simp_all add: UpdateConsumeStat_def)
  show ?thesis
  proof (cases "GetTopicConfigByTopicID g (fm_topic_id fm)")
    case (Inr tc)
    let ?c = "if t \<noteq> tc_last_mod_time tc then ClearConsumeStat stat (length (handle_ids (tp_topic (tc_proto tc)))) else Some stat"
    obtain stat1 where s1: "?c = Some stat1" using run False stat Inr by (cases ?c) (simp_all add: UpdateConsumeStat_def)
    obtain stat2 where s2: "foldM (count_item tc cc) items (stat1\<lparr>cst_nget := cst_nget stat1 + 1\<rparr>) = Some stat2"
      using run False stat Inr s1
      by (cases "foldM (count_item tc cc) items (stat1\<lparr>cst_nget := cst_nget stat1 + 1\<rparr>)") (simp_all add: UpdateConsumeStat_def)
    have fm': "fm' = fm\<lparr>fm_consume_stats := put_at (fm_consume_stats fm) vpid stat2\<rparr>"
      using run False stat Inr s1 s2 by (simp add: UpdateConsumeStat_def)
    have "stat_ok stat" using inv at_set[OF stat] by (simp add: freq_inv_def)
    then have "stat_ok stat1" using s1 ClearConsumeStat_ok by (simp split: if_splits)
    then have "stat_ok (stat1\<lparr>cst_nget := cst_nget stat1 + 1\<rparr>)" by (simp add: stat_ok_def)
    then have "stat_ok stat2" using foldM_invariant[OF _ s2, of stat_ok] count_item_ok by blast
    then show ?thesis using inv all_put_at[of "fm_consume_stats fm" stat_ok] by (simp add: fm' freq_inv_def)
  qed (use inv run False stat in \<open>simp add: UpdateConsumeStat_def\<close>)
qed (use inv run in \<open>simp add: UpdateConsumeStat_def\<close>)

lemma ClearAllConsumeStat_inv:
  assumes "freq_inv fm" and "ClearAllConsumeStat g opt fm = Some fm'"
  shows "freq_inv fm'"
proof (cases "GetTopicConfigByTopicID g (fm_topic_id fm)")
  case (Inl ret)
  then show ?thesis using assms by (simp add: ClearAllConsumeStat_def)
next
  case (Inr tc)
  let ?n = "length (handle_ids (tp_topic (tc_proto tc)))"
  let ?f = "\<lambda>i fm. do { stat \<leftarrow> Prelude.at (fm_consume_stats fm) (int i); stat \<leftarrow> ClearConsumeStat stat ?n;
      Some (fm\<lparr>fm_consume_stats := put_at (fm_consume_stats fm) (int i) stat\<rparr>) }"
  have run: "foldM ?f [0..<nat (opt_nprocs opt)] fm = Some fm'" using assms(2) Inr by (simp add: ClearAllConsumeStat_def)
  have "freq_inv b" if inv: "freq_inv a" and step: "?f i a = Some b" for i a b
  proof -
    obtain stat where stat: "Prelude.at (fm_consume_stats a) (int i) = Some stat" using step by (cases "Prelude.at (fm_consume_stats a) (int i)") simp_all
    obtain stat' where stat': "ClearConsumeStat stat ?n = Some stat'" using step stat by (cases "ClearConsumeStat stat ?n") simp_all
    have "b = a\<lparr>fm_consume_stats := put_at (fm_consume_stats a) (int i) stat'\<rparr>" using step stat stat' by simp
    moreover have "stat_ok stat'" using inv at_set[OF stat] ClearConsumeStat_ok[OF _ stat'] by (simp add: freq_inv_def)
    ultimately show ?thesis using inv all_put_at[of "fm_consume_stats a" stat_ok] by (simp add: freq_inv_def)
  qed
  then show ?thesis using foldM_invariant[OF _ run, of freq_inv] assms(1) by blast
qed

subsection \<open>Limits stay positive\<close>

lemma trunc_i32_nonneg: "0 \<le> x \<Longrightarrow> trunc_i32 x = Some k \<Longrightarrow> 0 \<le> k"
  by (auto simp: trunc_nonneg i32_Some)

lemma float64_nonneg [simp]: "0 \<le> x \<Longrightarrow> 0 \<le> float64 x"
  by (simp add: fl_nonneg)

lemma rank_count_nonneg: "stat_ok stat \<Longrightarrow> rank_count stat rank = Some n \<Longrightarrow> 0 \<le> n"
  using at_set unfolding rank_count_def stat_ok_def by (fastforce split: if_splits)

lemma set_limit_ok:
  assumes "\<forall>stat \<in> set stats. stat_ok stat" and "\<forall>li \<in> set limit_infos. limit_ok li"
    and "0 \<le> nhandle" "0 \<le> proc_used" "0 \<le> nhandle_limit" "0 \<le> nrefill" "0 \<le> interval"
    and "set_limit stats rank nhandle proc_used nhandle_limit nrefill interval vpid limit_infos = Some limit_infos'"
  shows "\<forall>li \<in> set limit_infos'. limit_ok li"
proof -
  obtain stat n where n: "Prelude.at stats (int vpid) = Some stat" "rank_count stat rank = Some n"
    using assms(8) by (auto simp: set_limit_def Option.bind_eq_Some_conv)
  let ?p = "float64 (of_int n / float64 (of_int nhandle / of_int proc_used))"
  let ?q = "if n = 0 then 1 else if ?p < float64 (1 / 10) then float64 (1 / 10) else ?p"
  obtain k i where ki: "trunc_i32 (float64 (nhandle_limit * ?q)) = Some k" "trunc_i32 (float64 (of_int interval / ?q)) = Some i"
    and l: "limit_infos' = put_at limit_infos (int vpid) \<lparr>li_nhandle_limit = (if k \<noteq> 0 then k else 1), li_nrefill = nrefill,
        li_refill_interval_ms = (if i = 0 then 1 else i)\<rparr>"
    using assms(8) n by (auto simp: set_limit_def Let_def Option.bind_eq_Some_conv)
  have "0 \<le> n" using rank_count_nonneg[OF _ n(2)] assms(1) at_set[OF n(1)] by blast
  then have "0 \<le> ?q" using assms(3,4) by simp
  then have "0 \<le> k" "0 \<le> i"
    using trunc_i32_nonneg[OF _ ki(1)] trunc_i32_nonneg[OF _ ki(2)] assms(5,7) by (simp_all del: if_split)
  then show ?thesis
    unfolding l by (intro all_put_at[OF assms(2)]) (use assms(6) in \<open>auto simp: limit_ok_def\<close>)
qed

lemma refill_ok: "0 \<le> limit \<Longrightarrow> 0 \<le> rate \<Longrightarrow> refill diff limit rate = Some (nrefill, interval) \<Longrightarrow> 0 \<le> nrefill \<and> 1 \<le> interval"
proof -
  assume pos: "0 \<le> limit" "0 \<le> rate" and run: "refill diff limit rate = Some (nrefill, interval)"
  let ?d = "float64 (of_int (uint diff))"
  have d: "0 \<le> ?d" by (intro float64_nonneg) (simp only: of_int_0_le_iff uint_ge_0)
  obtain i where i: "trunc_i32 (float64 (?d / float64 (limit / float64 (1 * rate)))) = Some i"
    and r: "i = 0 \<and> interval = 1 \<and> trunc_i32 (float64 (float64 (float64 (1 * limit) / ?d) / rate)) = Some nrefill
       \<or> i \<noteq> 0 \<and> nrefill = 1 \<and> interval = i"
    using run by (auto simp: refill_def Let_def Option.bind_eq_Some_conv split: if_splits)
  have "0 \<le> i" using pos d by (intro trunc_i32_nonneg[OF _ i]) simp
  moreover have "0 \<le> nrefill" if "trunc_i32 (float64 (float64 (float64 (1 * limit) / ?d) / rate)) = Some nrefill"
    using pos d by (intro trunc_i32_nonneg[OF _ that]) simp
  ultimately show ?thesis using r by auto
qed

lemma sum_stats_nonneg:
  assumes "\<forall>stat \<in> set stats. stat_ok stat" and "sum_stats stats rank procs = Some (u, t, n)"
  shows "0 \<le> u \<and> 0 \<le> t \<and> 0 \<le> n"
proof -
  let ?I = "\<lambda>s :: int \<times> int \<times> int. 0 \<le> fst s \<and> 0 \<le> fst (snd s) \<and> 0 \<le> snd (snd s)"
  have "?I (u, t, n)"
  proof (rule foldM_invariant[OF _ assms(2)[unfolded sum_stats_def]])
    fix v and s s' :: "int \<times> int \<times> int"
    assume I: "?I s" and step: "(\<lambda>(a, b, c). do { stat \<leftarrow> Prelude.at stats (int v); n \<leftarrow> rank_count stat rank;
        Some (a + 1, b + cst_nhandle_tot stat, c + n) }) s = Some s'"
    obtain a b c where s: "s = (a, b, c)" by (cases s)
    obtain stat where stat: "Prelude.at stats (int v) = Some stat" using step s by (cases "Prelude.at stats (int v)") simp_all
    obtain m where m: "rank_count stat rank = Some m" using step s stat by (cases "rank_count stat rank") simp_all
    have "stat_ok stat" using assms(1) at_set[OF stat] by blast
    then have "0 \<le> cst_nhandle_tot stat" "0 \<le> m" using rank_count_nonneg[OF _ m] by (auto simp: stat_ok_def)
    then show "?I s'" using I step s stat m by auto
  qed simp
  then show ?thesis by simp
qed

lemma limit_per_proc_nonneg: "0 \<le> m \<Longrightarrow> 0 \<le> t \<Longrightarrow> 0 \<le> limit_per_proc m diff t"
  unfolding limit_per_proc_def
  by (intro float64_nonneg divide_nonneg_nonneg mult_nonneg_nonneg) ((simp only: of_int_0_le_iff uint_ge_0; fail) | simp)+

lemma impose_limit_ok:
  assumes stats: "\<forall>stat \<in> set (fm_consume_stats fm). stat_ok stat" and "\<forall>li \<in> set (snd (snd st)). limit_ok li"
    and "0 \<le> freq_limit_per_min f" and "0 \<le> proc_tot" and run: "impose_limit fm rank procs proc_tot diff f st = Some st'"
  shows "\<forall>li \<in> set (snd (snd st')). limit_ok li"
proof -
  obtain max_pct updated limit_infos where st: "st = (max_pct, updated, limit_infos)" by (cases st)
  obtain u t n where sum: "sum_stats (fm_consume_stats fm) rank procs = Some (u, t, n)"
    using run by (cases "sum_stats (fm_consume_stats fm) rank procs") (auto simp: impose_limit_def st)
  let ?limit = "limit_per_proc (freq_limit_per_min f) diff proc_tot" and ?n = "if n = 0 then 1 else n" and ?t = "if t = 0 then 1 else t"
  let ?rate = "float64 (of_int ?n / of_int ?t)"
  have u: "0 \<le> u" "0 \<le> ?n" "0 \<le> ?t" using sum_stats_nonneg[OF assms(1) sum] by simp_all
  have rate: "0 \<le> ?rate" by (intro float64_nonneg divide_nonneg_nonneg) (use u in \<open>simp_all only: of_int_0_le_iff\<close>)
  have limit: "0 \<le> ?limit" using assms(3,4) by (intro limit_per_proc_nonneg) simp_all
  show ?thesis
  proof (cases "snd (snd st') = limit_infos")
    case False
    obtain nrefill i where r: "refill diff ?limit ?rate = Some (nrefill, i)"
      using run False by (cases "refill diff ?limit ?rate") (auto simp: impose_limit_def st sum Let_def split: if_split_asm)
    have l: "foldM (set_limit (fm_consume_stats fm) rank ?n u (float64 (?limit / ?rate)) nrefill i) procs limit_infos = Some (snd (snd st'))"
      using run False r by (cases "foldM (set_limit (fm_consume_stats fm) rank ?n u (float64 (?limit / ?rate)) nrefill i) procs limit_infos")
        (auto simp: impose_limit_def st sum Let_def split: if_split_asm)
    have ri: "0 \<le> nrefill" "0 \<le> i" using refill_ok[OF limit rate r] by simp_all
    have nl: "0 \<le> float64 (?limit / ?rate)" by (intro float64_nonneg divide_nonneg_nonneg[OF limit rate])
    show ?thesis
      by (rule foldM_invariant[where I = "\<lambda>l. \<forall>li \<in> set l. limit_ok li", OF _ l])
        (use set_limit_ok[OF stats _ u(2,1) nl ri] assms(2) st in auto)
  qed (use assms(2) st in simp)
qed

lemma apply_freq_info_ok:
  assumes "\<forall>stat \<in> set (fm_consume_stats fm). stat_ok stat" and "\<forall>li \<in> set (snd (snd st)). limit_ok li"
    and "0 \<le> freq_limit_per_min f" and run: "apply_freq_info g tc fm queues store_ids diff f st = Some st'"
  shows "\<forall>li \<in> set (snd (snd st')). limit_ok li"
proof (cases "st' = st")
  case False
  obtain rank where rank: "(if freq_handle_id f = -1 then Inr (-1) else GetHandleIDRank tc (freq_handle_id f)) = Inr rank"
    using run False by (cases "if freq_handle_id f = -1 then Inr (-1) else GetHandleIDRank tc (freq_handle_id f)")
      (simp_all add: apply_freq_info_def split: if_splits)
  obtain pub where pub: "GetPubByPubID tc (freq_pub_id f) = Inr pub"
    using run False rank by (cases "GetPubByPubID tc (freq_pub_id f)") (simp_all add: apply_freq_info_def split: if_splits)
  let ?a = "valid_stores g (fm_topic_id fm) (freq_pub_id f) store_ids"
  let ?b = "case GetQueuesByQueueInfoID tc (freq_queue_info_id f) of Inl _ \<Rightarrow> [] | Inr qs \<Rightarrow> qs"
  have "impose_limit fm rank (freq_procs queues (freq_consumer_group_id f) ?a ?b) (int (length ?a) * int (length ?b)) diff f st = Some st'"
    using run False pub by (simp add: apply_freq_info_def rank Let_def split: if_split_asm)
  from impose_limit_ok[OF assms(1-3) _ this] show ?thesis by simp
qed (use assms(2) in simp)

lemma clear_limits_ok: "\<forall>li \<in> set limit_infos. limit_ok li \<Longrightarrow> \<forall>li \<in> set (clear_limits n updated limit_infos). limit_ok li"
proof -
  assume start: "\<forall>li \<in> set limit_infos. limit_ok li"
  have "\<forall>li \<in> set (fold (\<lambda>v l. if v \<in> set updated then l else put_at l (int v) LimitInfo_zero) vs limit_infos). limit_ok li" for vs
    using start
  proof (induction vs arbitrary: limit_infos)
    case (Cons v vs)
    then show ?case using all_put_at[OF Cons.prems, of LimitInfo_zero v] by (auto simp: limit_ok_def LimitInfo_zero_def)
  qed simp
  then show ?thesis by (simp add: clear_limits_def)
qed

lemma UpdateLimitInfo_inv:
  assumes inv: "freq_inv fm" and run: "UpdateLimitInfo g opt queues now fm = Some (ret, fm')"
    and limits: "\<And>tc f. GetTopicConfigByTopicID g (fm_topic_id fm) = Inr tc \<Longrightarrow> f \<in> set (GetAllFreqInfo tc) \<Longrightarrow> 0 \<le> freq_limit_per_min f"
  shows "freq_inv fm'"
proof (cases "fm' = fm\<lparr>fm_last_update_time := now\<rparr>")
  case False
  let ?fm = "fm\<lparr>fm_last_update_time := now\<rparr>" and ?diff = "now - fm_last_update_time fm"
  obtain tc where tc: "GetTopicConfigByTopicID g (fm_topic_id fm) = Inr tc"
    using run False by (cases "GetTopicConfigByTopicID g (fm_topic_id fm)") (auto simp: UpdateLimitInfo_def)
  obtain sc where sc: "GetStoreConfig g (fm_topic_id fm) = Inr sc"
    using run False tc by (cases "GetStoreConfig g (fm_topic_id fm)") (auto simp: UpdateLimitInfo_def)
  let ?fold = "foldM (apply_freq_info g tc ?fm queues (GetAllStoreID sc) ?diff) (GetAllFreqInfo tc) ([], [], fm_limit_infos fm)"
  obtain st where st: "?fold = Some st" and fm': "fm' = ?fm\<lparr>fm_limit_infos := clear_limits (length queues) (fst (snd st)) (snd (snd st))\<rparr>"
    using run False tc sc by (cases ?fold) (auto simp: UpdateLimitInfo_def Let_def split: if_splits)
  have "\<forall>li \<in> set (snd (snd st)). limit_ok li"
    by (rule foldM_invariant[where I = "\<lambda>st. \<forall>li \<in> set (snd (snd st)). limit_ok li", OF _ st])
      (use inv limits[OF tc] in \<open>auto simp: freq_inv_def dest: apply_freq_info_ok[rotated -1]\<close>)
  then show ?thesis using inv clear_limits_ok by (simp add: fm' freq_inv_def)
qed (use inv in \<open>simp add: freq_inv_def\<close>)

text \<open>
  The shared memory as its processes change it: the workers count, the process of the manager sets
  limits and clears counts. Every step may see another configuration.
\<close>

definition nonneg_limits :: "GlobalConfig \<Rightarrow> int \<Rightarrow> bool" where
  "nonneg_limits g topic_id \<longleftrightarrow>
     (case GetTopicConfigByTopicID g topic_id of Inl _ \<Rightarrow> True | Inr tc \<Rightarrow> list_all (\<lambda>f. 0 \<le> freq_limit_per_min f) (GetAllFreqInfo tc))"

inductive freq_reach :: "FreqMan \<Rightarrow> bool" where
  init: "FreqMan_Init True now topic_id = Inr fm \<Longrightarrow> freq_reach fm"
| count: "freq_reach fm \<Longrightarrow> UpdateConsumeStat g vpid cc items t fm = Some (t', fm') \<Longrightarrow> freq_reach fm'"
| limit: "freq_reach fm \<Longrightarrow> nonneg_limits g (fm_topic_id fm) \<Longrightarrow> UpdateLimitInfo g opt queues now fm = Some (ret, fm') \<Longrightarrow> freq_reach fm'"
| clear: "freq_reach fm \<Longrightarrow> ClearAllConsumeStat g opt fm = Some fm' \<Longrightarrow> freq_reach fm'"

inductive_cases freq_reach_cases: "freq_reach fm"

lemma freq_reach_inv: "freq_reach fm \<Longrightarrow> freq_inv fm"
proof (induction rule: freq_reach.induct)
  case (init now topic_id fm)
  then show ?case
    by (auto simp: FreqMan_Init_def freq_inv_def stat_ok_def limit_ok_def ConsumeStat_zero_def LimitInfo_zero_def)
next
  case (limit fm g opt queues now ret fm')
  show ?case
    by (rule UpdateLimitInfo_inv[OF limit(4) limit(3)]) (use limit(2) in \<open>auto simp: nonneg_limits_def list_all_iff\<close>)
qed (auto intro: UpdateConsumeStat_inv ClearAllConsumeStat_inv)

text \<open>Whatever the workers and the manager did, a worker that is told to limit its frequency gets an interval
  of at least one millisecond, by which it divides, and a refill that is not negative; and it is
  blocked only when it has a limit and has handled more than the limit since the counts were cleared.\<close>

theorem Judge_divisible:
  assumes "freq_reach fm" and "Judge vpid fm = Some j"
  shows "(need_freqlimit j \<longrightarrow> 1 \<le> jd_refill_interval_ms j \<and> 0 \<le> jd_nrefill j)
    \<and> (need_block j \<longrightarrow> need_freqlimit j \<and> (\<exists>li stat. Prelude.at (fm_limit_infos fm) vpid = Some li \<and> Prelude.at (fm_consume_stats fm) vpid = Some stat
         \<and> 1 \<le> li_nhandle_limit li \<and> li_nhandle_limit li < cst_nhandle_tot stat))"
proof (cases "MAX_VPID < vpid")
  case True
  then show ?thesis using assms(2) by (auto simp: Judge_def)
next
  case False
  obtain li where li: "Prelude.at (fm_limit_infos fm) vpid = Some li"
    using assms(2) False by (cases "Prelude.at (fm_limit_infos fm) vpid") (simp_all add: Judge_def)
  obtain stat where stat: "Prelude.at (fm_consume_stats fm) vpid = Some stat"
    using assms(2) False li by (cases "Prelude.at (fm_consume_stats fm) vpid") (simp_all add: Judge_def)
  have "limit_ok li" using freq_reach_inv[OF assms(1)] at_set[OF li] by (simp add: freq_inv_def)
  then show ?thesis using assms(2) False li stat by (auto simp: Judge_def limit_ok_def)
qed

subsection \<open>Samples\<close>

text \<open>Six thousand items a minute for ten queues: a worker may handle fifty in five seconds.\<close>

definition freq_info :: FreqInfo where
  "freq_info = \<lparr>freq_pub_id = 1, freq_consumer_group_id = 1, freq_handle_id = -1, freq_limit_per_min = 6000, freq_queue_info_id = 1\<rparr>"

definition freq_topic :: TopicConfig where
  "freq_topic = sample_topic\<lparr>freq_infos := [freq_info]\<rparr>"

definition freq_config :: GlobalConfig where
  "freq_config = GlobalConfig_empty\<lparr>topic_id2topic_config := [(1000, freq_topic)], topic_id2store_config := [(1000, selector_stores)]\<rparr>"

definition freq_queues :: "Queue_t list" where
  "freq_queues = [\<lparr>q_magic = 1, q_consumer_group_id = 1, q_pub_id = 0, q_store_id = 1, q_queue_id = 7\<rparr>]"

definition freq_start :: FreqMan where
  "freq_start = \<lparr>fm_topic_id = 1000, fm_last_update_time = 0, fm_limit_infos = replicate (nat (MAX_VPID + 1)) LimitInfo_zero,
     fm_consume_stats = replicate (nat (MAX_VPID + 1)) ConsumeStat_zero\<rparr>"

definition freq_limited :: FreqMan where
  "freq_limited = freq_start\<lparr>fm_last_update_time := 5000,
     fm_limit_infos := put_at (fm_limit_infos freq_start) 0 \<lparr>li_nhandle_limit = 50, li_nrefill = 1, li_refill_interval_ms = 100\<rparr>\<rparr>"

lemma float64_numeral: "(numeral k :: int) < 2 ^ 53 \<Longrightarrow> float64 (numeral k) = numeral k" "float64 1 = 1"
  using fl_of_int[of "numeral k" 53] fl_of_int[of 1 53] by simp_all

lemma freq_numbers:
  "limit_per_proc 6000 5000 10 = 50" "refill 5000 50 1 = Some (1, 100)" "float64 1 = 1" "trunc_i32 50 = Some 50"
  "trunc_i32 100 = Some 100" "float64 50 = 50" "float64 100 = 100"
  by (simp_all add: limit_per_proc_def refill_def float64_numeral trunc_i32_def i32_def)

lemma freq_lookups:
  "GetTopicConfigByTopicID freq_config 1000 = Inr freq_topic" "GetStoreConfig freq_config 1000 = Inr selector_stores"
  "GetAllFreqInfo freq_topic = [freq_info]" "freq_handle_id freq_info = -1" "freq_limit_per_min freq_info = 6000"
  "freq_pub_id freq_info = 1" "freq_consumer_group_id freq_info = 1" "freq_queue_info_id freq_info = 1"
  by (simp_all add: freq_config_def freq_topic_def freq_info_def GetTopicConfigByTopicID_def GetStoreConfig_def GetAllFreqInfo_def)

lemma freq_pub: "\<exists>pub. GetPubByPubID freq_topic 1 = Inr pub \<and> 1 \<in> set (pub_consumer_group_ids pub)"
proof -
  have "case GetPubByPubID freq_topic 1 of Inl _ \<Rightarrow> False | Inr pub \<Rightarrow> 1 \<in> set (pub_consumer_group_ids pub)" by code_simp
  then show ?thesis by (auto split: sum.splits)
qed

lemma freq_scope:
  "valid_stores freq_config 1000 1 (GetAllStoreID selector_stores) = [1]" "GetQueuesByQueueInfoID freq_topic 1 = Inr [0, 1, 2, 3, 4, 5, 6, 7, 8, 9]"
  "freq_procs freq_queues 1 [1] [0, 1, 2, 3, 4, 5, 6, 7, 8, 9] = [0]"
  by code_simp+

lemma at_replicate_0: "0 < n \<Longrightarrow> Prelude.at (replicate n x) 0 = Some x"
  by (simp add: at_def)

lemma freq_sample_fields: "fm_topic_id freq_start = 1000" "fm_last_update_time freq_start = 0"
  by (simp_all add: freq_start_def)

lemma freq_sample_limit: "UpdateLimitInfo freq_config (sample_option\<lparr>opt_nprocs := 1\<rparr>) freq_queues 5000 freq_start = Some (RET_OK, freq_limited)"
proof -
  let ?fm = "freq_start\<lparr>fm_last_update_time := 5000\<rparr>"
  have sum: "sum_stats (fm_consume_stats freq_start) (-1) [0] = Some (1, 0, 0)"
    by (simp add: sum_stats_def freq_start_def at_replicate_0 MAX_VPID_def rank_count_def ConsumeStat_zero_def)
  have set: "set_limit (fm_consume_stats freq_start) (-1) 1 1 50 1 100 0 l = Some (put_at l 0 \<lparr>li_nhandle_limit = 50, li_nrefill = 1, li_refill_interval_ms = 100\<rparr>)" for l
    by (simp add: set_limit_def freq_start_def at_replicate_0 MAX_VPID_def rank_count_def ConsumeStat_zero_def freq_numbers Let_def)
  have impose: "impose_limit ?fm (-1) [0] 10 5000 freq_info ([], [], l)
      = Some ([((1, 1, 1), handled_pct_per_proc 1 1 50)], [0], put_at l 0 \<lparr>li_nhandle_limit = 50, li_nrefill = 1, li_refill_interval_ms = 100\<rparr>)" for l
    by (simp add: impose_limit_def sum set freq_lookups freq_numbers Let_def)
  obtain pub where "GetPubByPubID freq_topic 1 = Inr pub" "1 \<in> set (pub_consumer_group_ids pub)" using freq_pub by blast
  then have "apply_freq_info freq_config freq_topic ?fm freq_queues (GetAllStoreID selector_stores) 5000 freq_info ([], [], l)
      = Some ([((1, 1, 1), handled_pct_per_proc 1 1 50)], [0], put_at l 0 \<lparr>li_nhandle_limit = 50, li_nrefill = 1, li_refill_interval_ms = 100\<rparr>)" for l
    using impose[of l] by (simp add: apply_freq_info_def freq_lookups freq_scope freq_start_def Let_def)
  then show ?thesis
    by (simp add: UpdateLimitInfo_def freq_lookups freq_limited_def freq_sample_fields clear_limits_def freq_queues_def)
qed

theorem Judge_divisible_witness: "\<exists>j. Judge 0 freq_limited = Some j \<and> need_freqlimit j \<and> 1 \<le> jd_refill_interval_ms j \<and> jd_nrefill j = 1"
proof -
  have "freq_reach freq_start" by (rule freq_reach.init[of 0 1000]) (simp add: FreqMan_Init_def freq_start_def)
  then have reach: "freq_reach freq_limited"
    by (rule freq_reach.limit[OF _ _ freq_sample_limit]) (simp add: nonneg_limits_def freq_sample_fields freq_lookups)
  have "\<exists>j. Judge 0 freq_limited = Some j \<and> need_freqlimit j \<and> jd_nrefill j = 1"
    by (simp add: Judge_def freq_limited_def freq_start_def MAX_VPID_def at_def put_at_def)
  then show ?thesis using Judge_divisible[OF reach] by blast
qed

end
