(* ===== verification/Consumer.thy ===== *)
theory Consumer
  imports FreqMan
begin

section \<open>The pull thread of a worker (consumer/consumer.cpp)\<close>

text \<open>
  A worker locks a queue, asks the store for items in a loop, has them consumed, adds the failed ones
  again for a retry, and asks for the next items with the cursor of the last response, which tells the
  store that the ones before are done. What is not in this repository or virtual is a field of
  \<open>WorkerCalls\<close>, with the state of the outside world; the callbacks \<open>Before...\<close> and \<open>After...\<close> are empty as
  in the class, and \<open>CustomGetRequest\<close> is the one of the class. \<open>wc_manager\<close> is what the process of the
  frequency manager has made of the shared memory meanwhile.
\<close>

record 'w WorkerCalls =
  wc_handle :: "'w HandleCalls"
  wc_steady_ms :: "'w \<Rightarrow> u64 \<times> 'w"
  wc_timestamp_ms :: "'w \<Rightarrow> u64 \<times> 'w"
  wc_item_time :: "'w \<Rightarrow> QItem \<Rightarrow> u64"
  wc_bucket_rand :: "'w \<Rightarrow> nat \<Rightarrow> u32"
  wc_schedule :: "'w \<Rightarrow> Routine list"
  wc_rand :: "'w \<Rightarrow> u32 \<times> 'w"
  wc_usleep :: "int \<Rightarrow> 'w \<Rightarrow> 'w"
  wc_get :: "GetRequest \<Rightarrow> 'w \<Rightarrow> RetCode \<times> GetResponse \<times> 'w"
  wc_add :: "AddRequest \<Rightarrow> 'w \<Rightarrow> RetCode \<times> 'w"
  wc_manager :: "'w \<Rightarrow> FreqMan \<Rightarrow> FreqMan"
  wc_item_bytes :: "QItem \<Rightarrow> int"

text \<open>The members of the consumer and the static variables of its functions.\<close>

record Worker =
  wk_topic_id :: int
  wk_vpid :: int
  wk_cc :: ConsumerContext
  wk_freq :: FreqMan
  wk_stat_mod_time :: u64
  wk_freq_quota :: rat
  wk_last_fill_time :: u64
  wk_last_topic_config_mod_time :: u64
  wk_nloop :: u32
  wk_last_check_time :: int

definition nap :: "'w WorkerCalls \<Rightarrow> int \<Rightarrow> 'w \<Rightarrow> 'w" where
  "nap calls us w =
     (if us = 0 then wc_usleep calls 0 w
      else let (r, w) = wc_rand calls w in wc_usleep calls (us + uint (r mod word_of_int us)) w)"

subsection \<open>Consuming and retrying\<close>

definition Consume ::
  "'w WorkerCalls \<Rightarrow> GlobalConfig \<Rightarrow> ConsumerOption \<Rightarrow> QItem list \<Rightarrow> Worker \<Rightarrow> 'w \<Rightarrow> (QItem list \<times> HandleResult list \<times> Worker \<times> 'w) option" where
  "Consume calls g opt items wk w = do {
     s \<leftarrow> TaskDispatch (wc_handle calls) g opt (wc_bucket_rand calls w) (wc_schedule calls w) (wk_topic_id wk) (wk_cc wk) items
            (replicate (length items) RES_ERROR) w;
     (t, fm) \<leftarrow> UpdateConsumeStat g (wk_vpid wk) (wk_cc wk) (ct_items s) (wk_stat_mod_time wk) (wk_freq wk);
     Some (ct_items s, ct_handle_results s, wk\<lparr>wk_stat_mod_time := t, wk_freq := fm\<rparr>, ct_world s) }"

text \<open>The update of an item that is added again for the group of the worker.\<close>

definition retry_item :: "u64 \<Rightarrow> (QItem \<Rightarrow> u64) \<Rightarrow> QItem \<Rightarrow> QItem" where
  "retry_item retry_consumer_group_ids clock item =
     item\<lparr>qi_count := qi_count item + 1, qi_consumer_group_ids := retry_consumer_group_ids,
          qi_atime := clock item div 1000, qi_atime_ms := ucast (clock item mod 1000)\<rparr>"

text \<open>The loop that adds a request until the store takes it: it does not end if the store never does.\<close>

partial_function (option) retry_add :: "'w WorkerCalls \<Rightarrow> AddRequest \<Rightarrow> 'w \<Rightarrow> 'w option" where
  "retry_add calls req w =
     (case wc_add calls req w of (ret, w) \<Rightarrow>
        if ret = RET_OK then Some w else retry_add calls req (wc_usleep calls 1000000 w))"

declare retry_add.simps [code]

definition retry_items :: "QItem list \<Rightarrow> HandleResult list \<Rightarrow> QItem list" where
  "retry_items items handle_results = map fst (filter (\<lambda>(item, handle_result). handle_result = RES_ERROR) (zip items handle_results))"

definition AfterConsume ::
  "'w WorkerCalls \<Rightarrow> GlobalConfig \<Rightarrow> ConsumerContext \<Rightarrow> QItem list \<Rightarrow> HandleResult list \<Rightarrow> 'w \<Rightarrow> 'w option" where
  "AfterConsume calls g cc items handle_results w =
     (if length handle_results < length items then Some w
      else if retry_items items handle_results = [] then Some w
      else do {
        retry_consumer_group_ids \<leftarrow> group_bit (cc_consumer_group_id cc);
        case MakeAddRequests (wc_item_bytes calls) g (cc_topic_id cc) (retry_items items handle_results)
               (retry_item retry_consumer_group_ids (wc_item_time calls w)) of
          Inl ret \<Rightarrow> Some w
        | Inr reqs \<Rightarrow> foldM (retry_add calls) (filter (\<lambda>req. add_items req \<noteq> []) reqs) w })"

subsection \<open>Getting items\<close>

definition MakeGetRequest ::
  "'w WorkerCalls \<Rightarrow> int \<Rightarrow> ConsumerContext \<Rightarrow> QueueInfo \<Rightarrow> int \<Rightarrow> 'w \<Rightarrow> GetRequest \<times> 'w" where
  "MakeGetRequest calls topic_id cc queue_info limit w =
     (let req = \<lparr>get_topic_id = topic_id, get_store_id = cc_store_id cc, get_queue_id = cc_queue_id cc, get_limit = limit, get_atime = 0,
                 get_consumer_group_id = cc_consumer_group_id cc, get_atime_ms = 0, get_prev_cursor_id = cc_prev_cursor_id cc,
                 get_next_cursor_id = cc_next_cursor_id cc, get_random = False, get_master_addr = Addr_default\<rparr>
      in if 0 < qinfo_delay queue_info
         then let (now, w) = wc_timestamp_ms calls w
              in (req\<lparr>get_atime := now div 1000 - word_of_int (qinfo_delay queue_info), get_atime_ms := ucast (now mod 1000)\<rparr>, w)
         else (req, w))"

definition UpdateConsumerContextByGetResponse :: "GetResponse \<Rightarrow> ConsumerContext \<Rightarrow> ConsumerContext" where
  "UpdateConsumerContextByGetResponse resp cc =
     cc\<lparr>cc_prev_cursor_id := resp_prev_cursor_id resp, cc_next_cursor_id := resp_next_cursor_id resp\<rparr>"

definition CustomGetRequest :: "GetRequest \<Rightarrow> u64 \<times> u64 \<times> int \<Rightarrow> u64 \<times> u64 \<times> int" where
  "CustomGetRequest req custom = (case custom of (prev_cursor_id, next_cursor_id, limit) \<Rightarrow> (get_next_cursor_id req, next_cursor_id, limit))"

definition customize :: "GetRequest \<Rightarrow> GetRequest" where
  "customize req =
     (case CustomGetRequest req (get_prev_cursor_id req, get_next_cursor_id req, get_limit req) of
        (custom_prev_cursor_id, custom_next_cursor_id, custom_limit) \<Rightarrow>
          req\<lparr>get_prev_cursor_id := custom_prev_cursor_id, get_next_cursor_id := custom_next_cursor_id,
              get_limit := (if 0 \<le> custom_limit \<and> custom_limit \<le> get_limit req then custom_limit else get_limit req)\<rparr>)"

text \<open>The quota of a worker with a frequency limit, and the limit of its request.\<close>

definition refill_quota :: "u64 \<Rightarrow> Judgement \<Rightarrow> Worker \<Rightarrow> Worker" where
  "refill_quota now j wk =
     (let wk = (if wk_last_fill_time wk = 0 then wk\<lparr>wk_freq_quota := of_int (jd_nrefill j), wk_last_fill_time := now\<rparr>
                else if word_of_int (jd_refill_interval_ms j) \<le> now - wk_last_fill_time wk
                then wk\<lparr>wk_freq_quota := float64 (wk_freq_quota wk +
                          float64 (float64 (float64 (of_int (uint (now - wk_last_fill_time wk))) / of_int (jd_refill_interval_ms j)) * of_int (jd_nrefill j))),
                        wk_last_fill_time := now\<rparr>
                else wk)
      in if 10000000 < wk_freq_quota wk then wk\<lparr>wk_freq_quota := 10000000\<rparr> else wk)"

definition limit_request :: "rat \<Rightarrow> GetRequest \<Rightarrow> GetRequest" where
  "limit_request freq_quota req =
     (if freq_quota < of_int (get_limit req) then req\<lparr>get_limit := (if 0 \<le> freq_quota then \<lfloor>freq_quota\<rfloor> else 0)\<rparr> else req)"

definition next_limit :: "u32 \<Rightarrow> u32 \<Rightarrow> RetCode \<Rightarrow> u32" where
  "next_limit maxlimit limit ret =
     (if ret \<noteq> RET_OK then (if limit div 2 < 1 then 1 else limit div 2)
      else let limit = limit + (if 10 \<le> maxlimit then maxlimit div 10 else 1) in if maxlimit < limit then maxlimit else limit)"

text \<open>The items of a response that the configuration does not skip.\<close>

definition kept_items :: "TopicConfig \<Rightarrow> QueueInfo \<Rightarrow> ConsumerContext \<Rightarrow> QItem list \<Rightarrow> QItem list" where
  "kept_items tc queue_info cc = filter (\<lambda>item. \<not> ShouldSkip tc item (cc_consumer_group_id cc) (qinfo_id queue_info))"

text \<open>What follows a successful get.\<close>

definition process_response ::
  "'w WorkerCalls \<Rightarrow> GlobalConfig \<Rightarrow> ConsumerOption \<Rightarrow> TopicConfig \<Rightarrow> QueueInfo \<Rightarrow> bool \<Rightarrow> GetResponse \<Rightarrow> Worker \<Rightarrow> 'w \<Rightarrow> (Worker \<times> 'w) option" where
  "process_response calls g opt tc queue_info freqlimit resp wk w = do {
     let wk = wk\<lparr>wk_cc := UpdateConsumerContextByGetResponse resp (wk_cc wk)\<rparr>;
     let w = (if resp_items resp = [] then nap calls (qinfo_sleep_us_on_get_no_item queue_info) w else w);
     let w = (if qinfo_sleep_us_per_get queue_info \<noteq> 0 then nap calls (qinfo_sleep_us_per_get queue_info) w else w);
     let items = kept_items tc queue_info (wk_cc wk) (resp_items resp);
     (wk, w) \<leftarrow> (if qinfo_drop_all queue_info \<noteq> 0 then Some (wk, w)
        else if items = [] then map_option (Pair wk) (AfterConsume calls g (wk_cc wk) [] [] w)
        else do {
          (items, handle_results, wk, w) \<leftarrow> Consume calls g opt items wk w;
          w \<leftarrow> AfterConsume calls g (wk_cc wk) items handle_results w;
          Some (wk, w) });
     Some (wk, if items \<noteq> [] \<and> int (length items) < qinfo_get_size_too_small_threshold queue_info \<and> \<not> freqlimit
               then nap calls (qinfo_sleep_us_on_get_size_too_small queue_info) w else w) }"

definition process_got ::
  "'w WorkerCalls \<Rightarrow> GlobalConfig \<Rightarrow> ConsumerOption \<Rightarrow> TopicConfig \<Rightarrow> QueueInfo \<Rightarrow> bool \<Rightarrow> u32 \<Rightarrow> RetCode \<Rightarrow> GetResponse \<Rightarrow> Worker \<Rightarrow> 'w
   \<Rightarrow> (u32 \<times> Worker \<times> 'w) option" where
  "process_got calls g opt tc queue_info freqlimit limit ret resp wk w =
     (let wk = wk\<lparr>wk_freq_quota := float64 (wk_freq_quota wk - of_nat (length (resp_items resp)))\<rparr>;
          limit = next_limit (word_of_int (batch_limit (tp_topic (tc_proto tc)))) limit ret
      in if ret \<noteq> RET_OK then Some (limit, wk, nap calls (qinfo_sleep_us_on_get_fail queue_info) w)
         else map_option (Pair limit) (process_response calls g opt tc queue_info freqlimit resp wk w))"

text \<open>One round of the loop of \<open>Process\<close>: the loop goes on with a new state, or \<open>Process\<close> returns.\<close>

definition process_round ::
  "'w WorkerCalls \<Rightarrow> GlobalConfig \<Rightarrow> ConsumerOption \<Rightarrow> TopicConfig \<Rightarrow> QueueInfo \<Rightarrow> u64 \<Rightarrow> u32 \<times> Worker \<times> 'w
   \<Rightarrow> ((u32 \<times> Worker \<times> 'w) + (Worker \<times> 'w)) option" where
  "process_round calls g opt tc queue_info start_loop_time st =
     (let (limit, wk, w) = st; (now, w) = wc_steady_ms calls w in
      if start_loop_time < now - word_of_int (consumer_lock_interval_s (tp_topic (tc_proto tc)) * 1000) then Some (Inr (wk, w))
      else let (req, w) = MakeGetRequest calls (wk_topic_id wk) (wk_cc wk) queue_info (sint limit) w;
               wk = wk\<lparr>wk_freq := wc_manager calls w (wk_freq wk)\<rparr> in do {
        j \<leftarrow> Judge (wk_vpid wk) (wk_freq wk);
        if need_block j
        then Some (Inl (limit, wk\<lparr>wk_freq_quota := (if 0 < wk_freq_quota wk then of_int (jd_nrefill j) else wk_freq_quota wk), wk_last_fill_time := now\<rparr>,
                        wc_usleep calls 5000 w))
        else do {
          let wk = (if need_freqlimit j then refill_quota now j wk else wk\<lparr>wk_freq_quota := 0, wk_last_fill_time := 0\<rparr>);
          let req = customize (if need_freqlimit j then limit_request (wk_freq_quota wk) req else req);
          let (ret, resp, w) = wc_get calls req w;
          map_option Inl (process_got calls g opt tc queue_info (need_freqlimit j) limit ret resp wk w) } })"

partial_function (option) process_loop ::
  "(u32 \<times> Worker \<times> 'w \<Rightarrow> ((u32 \<times> Worker \<times> 'w) + (Worker \<times> 'w)) option) \<Rightarrow> u32 \<times> Worker \<times> 'w \<Rightarrow> (Worker \<times> 'w) option" where
  "process_loop turn st =
     (case turn st of None \<Rightarrow> None | Some (Inl st') \<Rightarrow> process_loop turn st' | Some (Inr r) \<Rightarrow> Some r)"

definition Consumer_Process ::
  "'w WorkerCalls \<Rightarrow> GlobalConfig \<Rightarrow> ConsumerOption \<Rightarrow> Worker \<Rightarrow> 'w \<Rightarrow> (RetCode \<times> Worker \<times> 'w) option" where
  "Consumer_Process calls g opt wk w =
     (case GetTopicConfigByTopicID g (wk_topic_id wk) of Inl ret \<Rightarrow> Some (ret, wk, w) | Inr tc \<Rightarrow>
      if \<not> IsValidQueue tc (cc_queue_id (wk_cc wk)) (-1) (cc_consumer_group_id (wk_cc wk)) then Some (RET_ERR_RANGE_QUEUE, wk, w)
      else case GetQueueInfoByQueue tc (cc_queue_id (wk_cc wk)) of Inl ret \<Rightarrow> Some (ret, wk, w) | Inr queue_info \<Rightarrow>
      if qinfo_delay queue_info < 0 then Some (RET_ERR_RANGE, wk, w)
      else let (start_loop_time, w) = wc_steady_ms calls w;
               wk = (if wk_last_topic_config_mod_time wk \<noteq> tc_last_mod_time tc
                     then wk\<lparr>wk_last_topic_config_mod_time := tc_last_mod_time tc,
                            wk_freq_quota := (if 0 < wk_freq_quota wk then 0 else wk_freq_quota wk)\<rparr>
                     else wk)
           in map_option (Pair RET_OK)
                (process_loop (process_round calls g opt tc queue_info start_loop_time)
                   (word_of_int (batch_limit (tp_topic (tc_proto tc))), wk, w)))"

subsection \<open>The worker\<close>

text \<open>The doubles of the two checks: a limit grows by up to 19 percent with the number of the worker.\<close>

definition fixed_limit :: "int \<Rightarrow> int \<Rightarrow> u32" where
  "fixed_limit limit vpid = word_of_int \<lfloor>float64 (of_int limit + float64 (float64 (of_int limit / 100) * of_int (vpid mod 20)))\<rfloor>"

text \<open>\<open>True\<close>: the process ends itself.\<close>

definition CheckMaxLoop :: "GlobalConfig \<Rightarrow> Worker \<Rightarrow> bool \<times> Worker" where
  "CheckMaxLoop g wk =
     (case GetTopicConfigByTopicID g (wk_topic_id wk) of
        Inl _ \<Rightarrow> (False, wk)
      | Inr tc \<Rightarrow>
          let wk = wk\<lparr>wk_nloop := wk_nloop wk + 1\<rparr>; limit = consumer_max_loop_per_proc (tp_topic (tc_proto tc))
          in if limit \<noteq> 0 \<and> fixed_limit limit (wk_vpid wk) < wk_nloop wk then (True, wk\<lparr>wk_nloop := 0\<rparr>) else (False, wk))"

text \<open>\<open>mem_stat\<close>: the resident and shared pages from \<open>/proc\<close>, if it can be read.\<close>

definition CheckMem :: "GlobalConfig \<Rightarrow> int \<Rightarrow> (u64 \<times> u64) option \<Rightarrow> Worker \<Rightarrow> bool \<times> Worker" where
  "CheckMem g now mem_stat wk =
     (case GetTopicConfigByTopicID g (wk_topic_id wk) of
        Inl _ \<Rightarrow> (False, wk)
      | Inr tc \<Rightarrow>
          let limit = consumer_max_mem_size_mb_per_proc (tp_topic (tc_proto tc)) in
          if limit = 0 \<or> now \<le> wk_last_check_time wk + 60 then (False, wk)
          else (case mem_stat of
                  None \<Rightarrow> False
                | Some (resident, share) \<Rightarrow> share < resident \<and> ucast (fixed_limit limit (wk_vpid wk)) < (resident - share) div 256,
                wk\<lparr>wk_last_check_time := now\<rparr>))"

text \<open>What \<open>ChildRun\<close> does with the queue that the lock gave to the worker.\<close>

definition ChildRun_locked :: "int \<times> int \<times> int \<Rightarrow> ConsumerContext \<Rightarrow> ConsumerContext" where
  "ChildRun_locked locked cc =
     (case locked of (consumer_group_id, store_id, queue_id) \<Rightarrow>
        if cc_consumer_group_id cc \<noteq> consumer_group_id \<or> cc_store_id cc \<noteq> store_id \<or> cc_queue_id cc \<noteq> queue_id
        then cc\<lparr>cc_consumer_group_id := consumer_group_id, cc_store_id := store_id, cc_queue_id := queue_id,
                cc_prev_cursor_id := NoID, cc_next_cursor_id := NoID\<rparr>
        else cc)"

text \<open>
  One round of \<open>ChildRun\<close>: \<open>lock\<close> is what \<open>HeartBeatLock::Lock\<close> returned; \<^const>\<open>None\<close> when the process has
  ended itself or waits forever.
\<close>

definition ChildRun_round ::
  "'w WorkerCalls \<Rightarrow> GlobalConfig \<Rightarrow> ConsumerOption \<Rightarrow> RetCode + int \<times> int \<times> int \<Rightarrow> int \<Rightarrow> (u64 \<times> u64) option \<Rightarrow> Worker \<Rightarrow> 'w
   \<Rightarrow> (Worker \<times> 'w) option" where
  "ChildRun_round calls g opt lock now mem_stat wk w =
     (case lock of
        Inl ret \<Rightarrow> Some (wk, wc_usleep calls 2000000 w)
      | Inr locked \<Rightarrow>
          let (end_loop, wk) = CheckMaxLoop g (wk\<lparr>wk_cc := ChildRun_locked locked (wk_cc wk)\<rparr>);
              (end_mem, wk) = CheckMem g now mem_stat wk in
          if end_loop \<or> end_mem then None
          else do {
            (ret, wk, w) \<leftarrow> Consumer_Process calls g opt wk w;
            Some (wk, if ret \<noteq> RET_OK then wc_usleep calls 100000 w else w) })"

subsection \<open>No item is lost\<close>

text \<open>The requests of \<open>MakeAddRequests\<close> have all the items, whatever their sizes.\<close>

lemma fill_requests_items:
  "fill_requests ByteSize topic_id blimit limit items req batch bytes = Inr reqs \<Longrightarrow> concat (map add_items reqs) = open_items req @ items"
proof (induction items arbitrary: req batch bytes reqs)
  case Nil
  then show ?case by (auto simp: open_items_def split: option.splits if_splits)
next
  case (Cons item items)
  let ?full = "blimit < batch + 1 \<or> limit < bytes + word_of_int (ByteSize item)"
  show ?case
  proof (cases ?full)
    case True
    then obtain r rest where r: "req = Some r" "reqs = r # rest" and rest: "fill_requests ByteSize topic_id blimit limit items
        (Some ((empty_request topic_id)\<lparr>add_items := [item]\<rparr>)) 1 (word_of_int (ByteSize item)) = Inr rest"
      using Cons.prems by (cases req) (auto simp: Let_def empty_request_def split: sum.splits if_splits)
    then show ?thesis using Cons.IH[OF rest] by (simp add: open_items_def)
  next
    case False
    let ?r = "case req of None \<Rightarrow> empty_request topic_id | Some r \<Rightarrow> r"
    have "fill_requests ByteSize topic_id blimit limit items (Some (?r\<lparr>add_items := add_items ?r @ [item]\<rparr>)) (batch + 1) (bytes + word_of_int (ByteSize item)) = Inr reqs"
      using Cons.prems False by (auto simp: Let_def split: sum.splits)
    from Cons.IH[OF this] show ?thesis by (cases req) (simp_all add: open_items_def empty_request_def)
  qed
qed

lemma requests_of_items: "requests_of ByteSize topic_id t m = Inr reqs \<Longrightarrow> concat (map add_items reqs) = concat (map snd m)"
proof (induction m arbitrary: reqs)
  case (Cons p m)
  then show ?case
    by (cases p) (auto split: sum.splits dest!: fill_requests_items simp: open_items_def)
qed simp

lemma MakeAddRequests_has:
  assumes "MakeAddRequests ByteSize g topic_id items upd = Inr reqs" and "GetTopicConfigByTopicID g topic_id = Inr tc"
    and "item \<in> set items" and "route tc (upd item) = Inr q"
  shows "\<exists>req \<in> set reqs. upd item \<in> set (add_items req)"
proof -
  have "requests_of ByteSize topic_id (tp_topic (tc_proto tc)) (foldl (route_item tc upd) [] items) = Inr reqs"
    using assms(1,2) by (simp add: MakeAddRequests_def)
  note eq = requests_of_items[OF this] routed_concat[OF routed_all, of tc q upd items]
  have "upd item \<in> set (filter (\<lambda>i. route tc i = Inr q) (map upd items))" using assms(3,4) by simp
  then have "upd item \<in> set (concat (map add_items reqs))" unfolding eq(1) eq(2)[symmetric] by simp
  then show ?thesis by auto
qed

lemma retry_add_adds:
  assumes "retry_add calls req w = Some w'"
  shows "\<exists>w0. wc_add calls req w0 = (RET_OK, w')"
proof (rule retry_add.raw_induct[where P = "\<lambda>calls req w y. \<exists>w0. wc_add calls req w0 = (RET_OK, y)", OF _ assms])
  fix rec :: "'a WorkerCalls \<Rightarrow> AddRequest \<Rightarrow> 'a \<Rightarrow> 'a option" and calls :: "'a WorkerCalls" and req w y
  assume IH: "\<And>calls req w y. rec calls req w = Some y \<Longrightarrow> \<exists>w0. wc_add calls req w0 = (RET_OK, y)"
    and run: "(case wc_add calls req w of (ret, w) \<Rightarrow> if ret = RET_OK then Some w else rec calls req (wc_usleep calls 1000000 w)) = Some y"
  obtain ret w1 where a: "wc_add calls req w = (ret, w1)" by (cases "wc_add calls req w")
  then show "\<exists>w0. wc_add calls req w0 = (RET_OK, y)"
    using run IH[of calls req "wc_usleep calls 1000000 w1" y] by (cases "ret = RET_OK") auto
qed

text \<open>An item in a request that a store has taken.\<close>

definition added :: "'w WorkerCalls \<Rightarrow> QItem \<Rightarrow> bool" where
  "added calls item \<longleftrightarrow> (\<exists>req w w'. item \<in> set (add_items req) \<and> wc_add calls req w = (RET_OK, w'))"

lemma foldM_retry_add: "foldM (retry_add calls) reqs w = Some w' \<Longrightarrow> req \<in> set reqs \<Longrightarrow> item \<in> set (add_items req) \<Longrightarrow> added calls item"
proof (induction reqs arbitrary: w)
  case (Cons r reqs)
  obtain w1 where w1: "retry_add calls r w = Some w1" "foldM (retry_add calls) reqs w1 = Some w'"
    using Cons.prems(1) by (auto simp: Option.bind_eq_Some_conv)
  show ?case
  proof (cases "req = r")
    case True
    then show ?thesis using Cons.prems(3) retry_add_adds[OF w1(1)] unfolding added_def by blast
  qed (use Cons.IH[OF w1(2)] Cons.prems in auto)
qed simp

text \<open>
  What becomes of an item whose handling failed: a store takes it again, or it is given up, because its pub has no
  queue for another attempt or because the requests for the failed items could not be made. Nothing else becomes of
  an item that is given up: the worker goes on and acknowledges it.
\<close>

definition retaken :: "'w WorkerCalls \<Rightarrow> ConsumerContext \<Rightarrow> QItem \<Rightarrow> bool" where
  "retaken calls cc item \<longleftrightarrow> (\<exists>bit clock. group_bit (cc_consumer_group_id cc) = Some bit \<and> added calls (retry_item bit clock item))"

definition given_up :: "'w WorkerCalls \<Rightarrow> GlobalConfig \<Rightarrow> ConsumerContext \<Rightarrow> QItem list \<Rightarrow> QItem \<Rightarrow> bool" where
  "given_up calls g cc failed item \<longleftrightarrow>
     (\<exists>bit clock. group_bit (cc_consumer_group_id cc) = Some bit
        \<and> ((\<exists>e. MakeAddRequests (wc_item_bytes calls) g (cc_topic_id cc) failed (retry_item bit clock) = Inl e)
           \<or> (\<exists>tc e. GetTopicConfigByTopicID g (cc_topic_id cc) = Inr tc \<and> route tc (retry_item bit clock item) = Inl e)))"

definition retried :: "'w WorkerCalls \<Rightarrow> GlobalConfig \<Rightarrow> ConsumerContext \<Rightarrow> QItem list \<Rightarrow> QItem \<Rightarrow> bool" where
  "retried calls g cc failed item \<longleftrightarrow> retaken calls cc item \<or> given_up calls g cc failed item"

lemmas retried_defs = retried_def retaken_def given_up_def

text \<open>When the requests cannot be made, all the failed items are given up: the stores are not asked at all.\<close>

lemma AfterConsume_drops:
  assumes "group_bit (cc_consumer_group_id cc) = Some ids"
    and "MakeAddRequests (wc_item_bytes calls) g (cc_topic_id cc) (retry_items items results) (retry_item ids (wc_item_time calls w)) = Inl e"
  shows "AfterConsume calls g cc items results w = Some w"
  using assms by (simp add: AfterConsume_def)

lemma fill_requests_fits:
  assumes "1 \<le> max_batch" and "\<forall>item \<in> set items. word_of_int (ByteSize item) \<le> limit" and "0 \<le> batch" "batch = 0 \<longleftrightarrow> open_items req = []"
    and "open_items req = [] \<longrightarrow> bytes = 0"
  shows "\<exists>reqs. fill_requests ByteSize topic_id max_batch limit items req batch bytes = Inr reqs"
  using assms
proof (induction items arbitrary: req batch bytes)
  case (Cons item items)
  let ?r = "\<lambda>req. (case req of None \<Rightarrow> empty_request topic_id | Some r \<Rightarrow> r)"
  let ?next = "\<lambda>req. Some ((?r req)\<lparr>add_items := add_items (?r req) @ [item]\<rparr>)"
  have item: "word_of_int (ByteSize item) \<le> limit" "\<forall>item \<in> set items. word_of_int (ByteSize item) \<le> limit" using Cons.prems(2) by simp_all
  have open_next: "open_items (?next req) \<noteq> []" for req by (simp add: open_items_def)
  show ?case
  proof (cases "max_batch < batch + 1 \<or> limit < bytes + word_of_int (ByteSize item)")
    case True
    have "open_items req \<noteq> []"
    proof
      assume "open_items req = []"
      then have "batch = 0" "bytes = 0" using Cons.prems(4,5) by simp_all
      then show False using True item(1) Cons.prems(1) by auto
    qed
    then obtain r where r: "req = Some r" "add_items r \<noteq> []" by (auto simp: open_items_def split: option.splits)
    obtain reqs where "fill_requests ByteSize topic_id max_batch limit items (?next None) (0 + 1) (0 + word_of_int (ByteSize item)) = Inr reqs"
      using Cons.IH[OF Cons.prems(1) item(2), of "0 + 1" "?next None" "0 + word_of_int (ByteSize item)"] open_next[of None] by auto
    then show ?thesis using True r by (simp add: Let_def)
  next
    case False
    obtain reqs where "fill_requests ByteSize topic_id max_batch limit items (?next req) (batch + 1) (bytes + word_of_int (ByteSize item)) = Inr reqs"
      using Cons.IH[OF Cons.prems(1) item(2), of "batch + 1" "?next req" "bytes + word_of_int (ByteSize item)"] open_next[of req] Cons.prems(3)
      by auto
    then show ?thesis using False by (simp add: Let_def)
  qed
qed simp

text \<open>So an item is given up only for its topic's configuration, for its size or for want of a queue.\<close>

definition retry_fits :: "'w WorkerCalls \<Rightarrow> GlobalConfig \<Rightarrow> int \<Rightarrow> TopicConfig \<Rightarrow> QItem \<Rightarrow> bool" where
  "retry_fits calls g topic_id tc item \<longleftrightarrow> (\<forall>bit clock. (\<exists>q. route tc (retry_item bit clock item) = Inr q)
     \<and> (word_of_int (wc_item_bytes calls (retry_item bit clock item)) :: u64) \<le> word_of_int (items_byte_size_limit (tp_topic (tc_proto tc))))"

lemma routed_from: "set (concat (map snd (foldl (route_item tc upd) [] items))) \<subseteq> upd ` set items"
proof -
  let ?m = "foldl (route_item tc upd) [] items"
  have "set xs \<subseteq> upd ` set items" if "(k, xs) \<in> set ?m" for k xs
    using routed_groups[OF routed_all that] by auto
  then show ?thesis by fastforce
qed

lemma requests_of_fits:
  assumes "1 \<le> batch_limit t" and "\<forall>item \<in> set (concat (map snd m)). (word_of_int (ByteSize item) :: u64) \<le> word_of_int (items_byte_size_limit t)"
  shows "\<exists>reqs. requests_of ByteSize topic_id t m = Inr reqs"
  using assms(2)
proof (induction m)
  case (Cons p m)
  obtain k items where p: "p = (k, items)" by (cases p)
  obtain reqs where "fill_requests ByteSize topic_id (batch_limit t) (word_of_int (items_byte_size_limit t)) items None 0 0 = Inr reqs"
    using fill_requests_fits[OF assms(1), of items ByteSize "word_of_int (items_byte_size_limit t)" 0 None 0 topic_id] Cons.prems
    by (auto simp: p open_items_def)
  moreover obtain reqs' where "requests_of ByteSize topic_id t m = Inr reqs'" using Cons by auto
  ultimately show ?case by (simp add: p)
qed simp

lemma retry_fits_kept:
  assumes tc: "GetTopicConfigByTopicID g (cc_topic_id cc) = Inr tc" and b: "1 \<le> batch_limit (tp_topic (tc_proto tc))"
    and fits: "\<forall>item \<in> set failed. retry_fits calls g (cc_topic_id cc) tc item" and item: "item \<in> set failed"
  shows "\<not> given_up calls g cc failed item"
proof
  assume "given_up calls g cc failed item"
  then obtain bit clock where
    "(\<exists>e. MakeAddRequests (wc_item_bytes calls) g (cc_topic_id cc) failed (retry_item bit clock) = Inl e)
     \<or> (\<exists>tc e. GetTopicConfigByTopicID g (cc_topic_id cc) = Inr tc \<and> route tc (retry_item bit clock item) = Inl e)"
    unfolding given_up_def by blast
  then show False
  proof (elim disjE exE conjE)
    fix e assume e: "MakeAddRequests (wc_item_bytes calls) g (cc_topic_id cc) failed (retry_item bit clock) = Inl e"
    let ?m = "foldl (route_item tc (retry_item bit clock)) [] failed"
    have "set (concat (map snd ?m)) \<subseteq> retry_item bit clock ` set failed" by (rule routed_from)
    then have "\<forall>x \<in> set (concat (map snd ?m)). (word_of_int (wc_item_bytes calls x) :: u64) \<le> word_of_int (items_byte_size_limit (tp_topic (tc_proto tc)))"
      using fits unfolding retry_fits_def by blast
    from requests_of_fits[OF b this, of "cc_topic_id cc"] show False using e tc by (simp add: MakeAddRequests_def)
  next
    fix tc' e assume "GetTopicConfigByTopicID g (cc_topic_id cc) = Inr tc'" "route tc' (retry_item bit clock item) = Inl e"
    moreover obtain q where "route tc (retry_item bit clock item) = Inr q" using fits item unfolding retry_fits_def by blast
    ultimately show False using tc by simp
  qed
qed

lemma AfterConsume_retries:
  assumes run: "AfterConsume calls g cc items results w = Some w'" and len: "length results = length items"
    and i: "i < length items" "results ! i = RES_ERROR"
  shows "retried calls g cc (retry_items items results) (items ! i)"
proof -
  let ?f = "retry_items items results"
  have "(items ! i, RES_ERROR) \<in> set (zip items results)" using i len by (force simp: set_zip)
  then have mem: "items ! i \<in> set ?f" by (force simp: retry_items_def)
  then have "?f \<noteq> []" by auto
  then obtain bit where bit: "group_bit (cc_consumer_group_id cc) = Some bit"
    using run len by (cases "group_bit (cc_consumer_group_id cc)") (simp_all add: AfterConsume_def)
  let ?u = "retry_item bit (wc_item_time calls w)"
  show ?thesis
  proof (cases "MakeAddRequests (wc_item_bytes calls) g (cc_topic_id cc) ?f ?u")
    case (Inl e)
    then show ?thesis using bit unfolding retried_defs by blast
  next
    case (Inr reqs)
    then obtain tc where tc: "GetTopicConfigByTopicID g (cc_topic_id cc) = Inr tc"
      by (cases "GetTopicConfigByTopicID g (cc_topic_id cc)") (simp_all add: MakeAddRequests_def)
    have adds: "foldM (retry_add calls) (filter (\<lambda>req. add_items req \<noteq> []) reqs) w = Some w'"
      using run len bit Inr \<open>?f \<noteq> []\<close> by (simp add: AfterConsume_def)
    show ?thesis
    proof (cases "route tc (?u (items ! i))")
      case (Inl e)
      then show ?thesis using bit tc unfolding retried_defs by blast
    next
      case r: (Inr q)
      obtain req where "req \<in> set reqs" "?u (items ! i) \<in> set (add_items req)"
        using MakeAddRequests_has[OF Inr tc mem r] by blast
      then have "added calls (?u (items ! i))" using foldM_retry_add[OF adds, of req] by fastforce
      then show ?thesis using bit unfolding retried_defs by blast
    qed
  qed
qed

text \<open>
  What must hold of the items of a response before the next request acknowledges them: the queue drops
  all its items, or they were consumed and the failed ones were retaken or given up.
\<close>

definition settled ::
  "'w WorkerCalls \<Rightarrow> GlobalConfig \<Rightarrow> ConsumerOption \<Rightarrow> TopicConfig \<Rightarrow> QueueInfo \<Rightarrow> ConsumerContext \<Rightarrow> int \<Rightarrow> QItem list \<Rightarrow> bool" where
  "settled calls g opt tc queue_info cc topic_id all_items \<longleftrightarrow>
     qinfo_drop_all queue_info \<noteq> 0 \<or>
     (let items = kept_items tc queue_info cc all_items in
      items = [] \<or>
      (\<exists>s rand schedule w. TaskDispatch (wc_handle calls) g opt rand schedule topic_id cc items (replicate (length items) RES_ERROR) w = Some s
         \<and> length (ct_items s) = length items \<and> length (ct_handle_results s) = length items
         \<and> (\<forall>i < length items. ct_handle_results s ! i = RES_ERROR \<longrightarrow>
              retried calls g cc (retry_items (ct_items s) (ct_handle_results s)) (ct_items s ! i))))"

lemma next_handle_task_lengths [simp]:
  "ct_items (next_handle_task cid s) = ct_items s" "ct_handle_results (next_handle_task cid s) = ct_handle_results s"
  by (simp_all add: next_handle_task_def split: list.splits)

lemma resume_lengths:
  assumes "resume calls cc r s = Some s'"
  shows "length (ct_items s') = length (ct_items s) \<and> length (ct_handle_results s') = length (ct_handle_results s)"
proof (cases r)
  case (HandleRoutine cid)
  show ?thesis
  proof (cases "length (ct_running s) \<le> cid \<or> ct_running s ! cid = None")
    case True
    then show ?thesis using assms HandleRoutine by (auto simp: resume_handle_def split: if_splits)
  next
    case False
    then obtain idx where "ct_running s ! cid = Some idx" by auto
    then show ?thesis
      using assms HandleRoutine False by (auto simp: resume_handle_def HandleTaskFinish_def Option.bind_eq_Some_conv)
  qed
next
  case (BatchHandleRoutine cid)
  then show ?thesis
    using assms by (cases "call_BatchHandle calls cc (ct_items s) cid (ct_world s)")
      (auto simp: resume_batch_handle_def BatchHandleTaskFinish_def split: if_splits)
qed

lemma TaskDispatch_lengths:
  assumes "TaskDispatch calls g opt rand schedule topic_id cc items results w = Some s"
  shows "length (ct_items s) = length items \<and> length (ct_handle_results s) = length results"
proof -
  obtain s0 where s0: "TaskDispatch_start g opt rand topic_id cc items results w = Some s0" "foldM (resume calls cc) schedule s0 = Some s"
    using assms by (auto simp: TaskDispatch_def Option.bind_eq_Some_conv split: if_splits)
  have "length (ct_items s0) = length items \<and> length (ct_handle_results s0) = length results"
    using s0(1) by (auto simp: TaskDispatch_start_def)
  then show ?thesis
    using foldM_invariant[OF _ s0(2), of "\<lambda>s. length (ct_items s) = length items \<and> length (ct_handle_results s) = length results"]
      resume_lengths[of calls cc] by metis
qed

lemma Consume_dispatches:
  assumes "Consume calls g opt items wk w = Some (items', results, wk', w')"
  shows "\<exists>s. TaskDispatch (wc_handle calls) g opt (wc_bucket_rand calls w) (wc_schedule calls w) (wk_topic_id wk) (wk_cc wk) items
      (replicate (length items) RES_ERROR) w = Some s \<and> items' = ct_items s \<and> results = ct_handle_results s \<and> wk_cc wk' = wk_cc wk"
  using assms by (auto simp: Consume_def Option.bind_eq_Some_conv)

lemma process_response_settles:
  assumes "process_response calls g opt tc qi freqlimit resp wk w = Some (wk', w')"
  shows "wk_cc wk' = UpdateConsumerContextByGetResponse resp (wk_cc wk)
    \<and> settled calls g opt tc qi (wk_cc wk') (wk_topic_id wk) (resp_items resp)"
proof -
  let ?wk = "wk\<lparr>wk_cc := UpdateConsumerContextByGetResponse resp (wk_cc wk)\<rparr>"
  let ?w1 = "if resp_items resp = [] then nap calls (qinfo_sleep_us_on_get_no_item qi) w else w"
  let ?w = "if qinfo_sleep_us_per_get qi \<noteq> 0 then nap calls (qinfo_sleep_us_per_get qi) ?w1 else ?w1"
  let ?items = "kept_items tc qi (wk_cc ?wk) (resp_items resp)"
  show ?thesis
  proof (cases "qinfo_drop_all qi \<noteq> 0 \<or> ?items = []")
    case True
    then have "wk' = ?wk"
      using assms by (auto simp: process_response_def Let_def Option.bind_eq_Some_conv split: if_split_asm)
    then show ?thesis using True by (auto simp: settled_def Let_def)
  next
    case False
    obtain items' results wk1 w1 where c: "Consume calls g opt ?items ?wk ?w = Some (items', results, wk1, w1)"
      using assms False by (cases "Consume calls g opt ?items ?wk ?w") (auto simp: process_response_def Let_def)
    obtain w2 where a: "AfterConsume calls g (wk_cc wk1) items' results w1 = Some w2"
      using assms False c by (cases "AfterConsume calls g (wk_cc wk1) items' results w1") (simp_all add: process_response_def Let_def)
    have wk': "wk' = wk1" using assms False c a by (simp add: process_response_def Let_def)
    obtain s where s: "TaskDispatch (wc_handle calls) g opt (wc_bucket_rand calls ?w) (wc_schedule calls ?w) (wk_topic_id wk) (wk_cc ?wk) ?items
      (replicate (length ?items) RES_ERROR) ?w = Some s" "items' = ct_items s" "results = ct_handle_results s" "wk_cc wk1 = wk_cc ?wk"
      using Consume_dispatches[OF c] by auto
    have len: "length (ct_items s) = length ?items" "length (ct_handle_results s) = length ?items"
      using TaskDispatch_lengths[OF s(1)] by simp_all
    have cc: "wk_cc wk' = wk_cc ?wk" using s(4) wk' by simp
    have "\<forall>i < length ?items. ct_handle_results s ! i = RES_ERROR \<longrightarrow>
        retried calls g (wk_cc ?wk) (retry_items (ct_items s) (ct_handle_results s)) (ct_items s ! i)"
      using AfterConsume_retries[OF a] len s(2,3) cc unfolding wk' by simp
    then have "settled calls g opt tc qi (wk_cc ?wk) (wk_topic_id wk) (resp_items resp)"
      unfolding settled_def Let_def using s(1) len by (intro disjI2 exI conjI)
    then show ?thesis using cc by simp
  qed
qed

lemma process_got_settles:
  assumes "process_got calls g opt tc qi freqlimit limit ret resp wk w = Some (limit', wk', w')" and "ret = RET_OK"
  shows "wk_cc wk' = UpdateConsumerContextByGetResponse resp (wk_cc wk)
    \<and> settled calls g opt tc qi (wk_cc wk') (wk_topic_id wk) (resp_items resp)"
proof -
  let ?wk = "wk\<lparr>wk_freq_quota := float64 (wk_freq_quota wk - of_nat (length (resp_items resp)))\<rparr>"
  have "process_response calls g opt tc qi freqlimit resp ?wk w = Some (wk', w')"
    using assms by (auto simp: process_got_def Let_def)
  from process_response_settles[OF this] show ?thesis by auto
qed

text \<open>C6: A round of \<open>Process\<close> moves the cursors of the worker only by a successful response to a request that
  acknowledged the cursor of the response before, and only once the items of the new response are
  settled: skipped by configuration, handled, or, if handling failed, either taken by a store for a retry or given
  up. An item is given up, and then acknowledged like the others, only when it has no queue for
  another attempt or the requests for the failed items could not be made; for items within the limits of a
  configured topic the latter does not happen (\<open>retry_fits_kept\<close>).\<close>

theorem Process_settles_before_ack:
  assumes "process_round calls g opt tc qi start_loop_time (limit, wk, w) = Some (Inl (limit', wk', w'))"
  shows "wk_cc wk' = wk_cc wk \<or>
    (\<exists>req resp w1 w2. wc_get calls req w1 = (RET_OK, resp, w2) \<and> get_queue_id req = cc_queue_id (wk_cc wk)
       \<and> get_store_id req = cc_store_id (wk_cc wk) \<and> get_consumer_group_id req = cc_consumer_group_id (wk_cc wk)
       \<and> get_prev_cursor_id req = cc_next_cursor_id (wk_cc wk) \<and> get_next_cursor_id req = cc_next_cursor_id (wk_cc wk)
       \<and> wk_cc wk' = UpdateConsumerContextByGetResponse resp (wk_cc wk)
       \<and> settled calls g opt tc qi (wk_cc wk') (wk_topic_id wk) (resp_items resp))"
proof (cases "wk_cc wk' = wk_cc wk")
  case moved: False
  obtain now w0 where now: "wc_steady_ms calls w = (now, w0)" by (cases "wc_steady_ms calls w")
  obtain req0 w1 where req0: "MakeGetRequest calls (wk_topic_id wk) (wk_cc wk) qi (sint limit) w0 = (req0, w1)"
    by (cases "MakeGetRequest calls (wk_topic_id wk) (wk_cc wk) qi (sint limit) w0")
  let ?wk = "wk\<lparr>wk_freq := wc_manager calls w1 (wk_freq wk)\<rparr>"
  obtain j where j: "Judge (wk_vpid wk) (wc_manager calls w1 (wk_freq wk)) = Some j"
    using assms moved by (cases "Judge (wk_vpid wk) (wc_manager calls w1 (wk_freq wk))") (simp_all add: process_round_def now req0 Let_def split: if_split_asm)
  have nb: "\<not> need_block j" "\<not> start_loop_time < now - word_of_int (consumer_lock_interval_s (tp_topic (tc_proto tc)) * 1000)"
    using assms moved j by (auto simp: process_round_def now req0 Let_def split: if_split_asm)
  let ?q = "if need_freqlimit j then refill_quota now j ?wk else ?wk\<lparr>wk_freq_quota := 0, wk_last_fill_time := 0\<rparr>"
  let ?req = "customize (if need_freqlimit j then limit_request (wk_freq_quota ?q) req0 else req0)"
  obtain ret resp w2 where get: "wc_get calls ?req w1 = (ret, resp, w2)" by (cases "wc_get calls ?req w1")
  have same: "wk_cc ?q = wk_cc wk" "wk_topic_id ?q = wk_topic_id wk" by (simp_all add: refill_quota_def Let_def)
  have fields: "get_queue_id ?req = cc_queue_id (wk_cc wk)" "get_store_id ?req = cc_store_id (wk_cc wk)"
    "get_consumer_group_id ?req = cc_consumer_group_id (wk_cc wk)" "get_prev_cursor_id ?req = cc_next_cursor_id (wk_cc wk)"
    "get_next_cursor_id ?req = cc_next_cursor_id (wk_cc wk)"
    using req0 by (auto simp: customize_def CustomGetRequest_def limit_request_def MakeGetRequest_def Let_def split: if_split_asm prod.splits)
  have got: "process_got calls g opt tc qi (need_freqlimit j) limit ret resp ?q w2 = Some (limit', wk', w')"
  proof (cases "need_freqlimit j")
    case True
    then show ?thesis using assms nb get by (auto simp: process_round_def now req0 j Let_def)
  next
    case False
    then show ?thesis using assms nb get by (auto simp: process_round_def now req0 j Let_def)
  qed
  then have ret: "ret = RET_OK" using moved same(1) by (auto simp: process_got_def Let_def split: if_split_asm)
  from process_got_settles[OF got this] show ?thesis
    using get fields unfolding same ret by blast
qed simp

subsection \<open>The retry of a request\<close>

text \<open>The world after \<open>n\<close> attempts that failed.\<close>

fun failed_adds :: "'w WorkerCalls \<Rightarrow> AddRequest \<Rightarrow> nat \<Rightarrow> 'w \<Rightarrow> 'w" where
  "failed_adds calls req 0 w = w"
| "failed_adds calls req (Suc n) w = failed_adds calls req n (wc_usleep calls 1000000 (snd (wc_add calls req w)))"

text \<open>The loop that adds a request again returns as soon as an attempt succeeds, however many failed before;
  and if the store refuses the request every time it never returns, and the worker is stuck with its
  queue.\<close>

theorem retry_add_returns:
  "(\<exists>w'. retry_add calls req w = Some w') \<longleftrightarrow> (\<exists>n. fst (wc_add calls req (failed_adds calls req n w)) = RET_OK)"
proof
  assume "\<exists>w'. retry_add calls req w = Some w'"
  then obtain w' where "retry_add calls req w = Some w'" by blast
  then show "\<exists>n. fst (wc_add calls req (failed_adds calls req n w)) = RET_OK"
  proof (rule retry_add.raw_induct[where P = "\<lambda>calls req w y. \<exists>n. fst (wc_add calls req (failed_adds calls req n w)) = RET_OK", rotated])
    fix rec :: "'a WorkerCalls \<Rightarrow> AddRequest \<Rightarrow> 'a \<Rightarrow> 'a option" and calls :: "'a WorkerCalls" and req w y
    assume IH: "\<And>calls req w y. rec calls req w = Some y \<Longrightarrow> \<exists>n. fst (wc_add calls req (failed_adds calls req n w)) = RET_OK"
      and run: "(case wc_add calls req w of (ret, w) \<Rightarrow> if ret = RET_OK then Some w else rec calls req (wc_usleep calls 1000000 w)) = Some y"
    obtain ret w1 where a: "wc_add calls req w = (ret, w1)" by (cases "wc_add calls req w")
    show "\<exists>n. fst (wc_add calls req (failed_adds calls req n w)) = RET_OK"
    proof (cases "ret = RET_OK")
      case True
      then show ?thesis using a by (intro exI[of _ 0]) simp
    next
      case False
      then obtain n where "fst (wc_add calls req (failed_adds calls req n (wc_usleep calls 1000000 w1))) = RET_OK"
        using IH[of calls req "wc_usleep calls 1000000 w1" y] run a by auto
      then show ?thesis using a by (intro exI[of _ "Suc n"]) simp
    qed
  qed
next
  assume "\<exists>n. fst (wc_add calls req (failed_adds calls req n w)) = RET_OK"
  then obtain n where "fst (wc_add calls req (failed_adds calls req n w)) = RET_OK" by blast
  then show "\<exists>w'. retry_add calls req w = Some w'"
  proof (induction n arbitrary: w)
    case 0
    then show ?case by (cases "wc_add calls req w") (simp add: retry_add.simps)
  next
    case (Suc n)
    then show ?case
      using Suc.IH[of "wc_usleep calls 1000000 (snd (wc_add calls req w))"] by (subst retry_add.simps) (auto split: prod.splits)
  qed
qed

subsection \<open>The size of a request\<close>

lemma next_limit_range:
  assumes "1 \<le> maxlimit" and "maxlimit \<le> 2 ^ 31 - 1" and "1 \<le> limit" and "limit \<le> maxlimit"
  shows "1 \<le> next_limit maxlimit limit ret \<and> next_limit maxlimit limit ret \<le> maxlimit"
proof -
  have m: "1 \<le> unat maxlimit" "unat maxlimit \<le> 2147483647" "1 \<le> unat limit" "unat limit \<le> unat maxlimit"
    using assms by (simp_all add: word_le_nat_alt)
  let ?d = "if 10 \<le> maxlimit then maxlimit div 10 else 1"
  have d: "unat ?d \<le> unat maxlimit" "1 \<le> unat ?d" using m by (auto simp: unat_div word_le_nat_alt)
  then have sum: "unat (limit + ?d) = unat limit + unat ?d" using m by (subst unat_add_lem[THEN iffD1]) simp_all
  have "1 \<le> unat (next_limit maxlimit limit ret) \<and> unat (next_limit maxlimit limit ret) \<le> unat maxlimit"
  proof (cases "ret = RET_OK")
    case True
    have "next_limit maxlimit limit ret = (if maxlimit < limit + ?d then maxlimit else limit + ?d)"
      using True by (simp add: next_limit_def Let_def)
    then show ?thesis using m sum d(2) by (cases "maxlimit < limit + ?d") (simp_all only: if_True if_False word_less_nat_alt, simp_all)
  next
    case False
    then show ?thesis using m by (auto simp: next_limit_def word_less_nat_alt unat_div)
  qed
  then show ?thesis by (simp add: word_le_nat_alt)
qed

text \<open>C34: The limit that a worker asks for stays between one and the batch limit of the topic, whatever the stores
  return; the value is kept in 32 bits and does not wrap.\<close>

theorem Process_limit_range:
  assumes "process_round calls g opt tc qi start_loop_time (limit, wk, w) = Some (Inl (limit', wk', w'))"
    and "1 \<le> batch_limit (tp_topic (tc_proto tc))" and "batch_limit (tp_topic (tc_proto tc)) < 2 ^ 31"
    and "1 \<le> limit" and "limit \<le> word_of_int (batch_limit (tp_topic (tc_proto tc)))"
  shows "1 \<le> limit' \<and> limit' \<le> word_of_int (batch_limit (tp_topic (tc_proto tc))) \<and> 1 \<le> sint limit' \<and> sint limit' \<le> batch_limit (tp_topic (tc_proto tc))"
proof -
  let ?max = "word_of_int (batch_limit (tp_topic (tc_proto tc))) :: u32"
  have max: "uint ?max = batch_limit (tp_topic (tc_proto tc))" using assms(2,3) by (simp add: uint_word_of_int)
  then have "1 \<le> ?max" "?max \<le> 2 ^ 31 - 1" using assms(2,3) by (simp_all add: word_le_def)
  then have r: "1 \<le> next_limit ?max limit ret \<and> next_limit ?max limit ret \<le> ?max" for ret
    using next_limit_range assms(4,5) by blast
  obtain now w0 where now: "wc_steady_ms calls w = (now, w0)" by (cases "wc_steady_ms calls w")
  obtain req0 w1 where req0: "MakeGetRequest calls (wk_topic_id wk) (wk_cc wk) qi (sint limit) w0 = (req0, w1)"
    by (cases "MakeGetRequest calls (wk_topic_id wk) (wk_cc wk) qi (sint limit) w0")
  have "limit' = limit \<or> (\<exists>ret. limit' = next_limit ?max limit ret)"
    using assms(1)
    by (auto simp: process_round_def now req0 process_got_def Let_def Option.bind_eq_Some_conv split: if_split_asm prod.splits)
  then have l: "1 \<le> limit' \<and> limit' \<le> ?max" using r assms(4,5) by blast
  then have "uint limit' \<le> batch_limit (tp_topic (tc_proto tc))" "1 \<le> uint limit'" using max by (simp_all add: word_le_def)
  moreover from this have "sint limit' = uint limit'" using assms(3) by (simp add: sint_uint signed_take_bit_int_eq_self)
  ultimately show ?thesis using l by simp
qed

text \<open>A worker never asks a store with the cursors of another queue.\<close>

lemma ChildRun_locked_cursors:
  "cc_consumer_group_id (ChildRun_locked (g, st, q) cc) = g" "cc_store_id (ChildRun_locked (g, st, q) cc) = st"
  "cc_queue_id (ChildRun_locked (g, st, q) cc) = q"
  "(cc_consumer_group_id cc, cc_store_id cc, cc_queue_id cc) \<noteq> (g, st, q) \<Longrightarrow>
     cc_prev_cursor_id (ChildRun_locked (g, st, q) cc) = NoID \<and> cc_next_cursor_id (ChildRun_locked (g, st, q) cc) = NoID"
  by (auto simp: ChildRun_locked_def)

subsection \<open>Samples\<close>

text \<open>
  A round of a worker: the store returns three items, the handling of one fails, and it is added for a
  retry. The world is the list of what was handled and added.
\<close>

definition round_calls :: "string list WorkerCalls" where
  "round_calls = \<lparr>wc_handle = handle_calls, wc_steady_ms = (\<lambda>w. (100000, w)), wc_timestamp_ms = (\<lambda>w. (1500000000000, w)),
     wc_item_time = (\<lambda>_ _. 1500000000000), wc_bucket_rand = (\<lambda>_ _. 0), wc_schedule = (\<lambda>_. handle_schedule), wc_rand = (\<lambda>w. (0, w)),
     wc_usleep = (\<lambda>_ w. w),
     wc_get = (\<lambda>req w. (RET_OK, \<lparr>resp_items = handle_items, resp_prev_cursor_id = 3, resp_next_cursor_id = 5, resp_redirect_addr = None\<rparr>, w)),
     wc_add = (\<lambda>req w. (RET_OK, w @ map qi_buffer (add_items req))), wc_manager = (\<lambda>_ fm. fm), wc_item_bytes = sample_size\<rparr>"

definition round_worker :: Worker where
  "round_worker = \<lparr>wk_topic_id = 1000, wk_vpid = 0, wk_cc = handle_context,
     wk_freq = \<lparr>fm_topic_id = 1000, fm_last_update_time = 0, fm_limit_infos = [LimitInfo_zero],
       fm_consume_stats = [\<lparr>cst_nget = 0, cst_nhandle_tot = 0, cst_handle_id_rank2nhandle = []\<rparr>]\<rparr>,
     wk_stat_mod_time = 0, wk_freq_quota = 0, wk_last_fill_time = 0, wk_last_topic_config_mod_time = 0, wk_nloop = 0, wk_last_check_time = 0\<rparr>"

definition round_queue :: QueueInfo where
  "round_queue = sample_queue_info 1 ''0-9'' 1 0"

definition round_result :: "(u32 \<times> Worker \<times> string list) option" where
  "round_result = (case process_round round_calls producer_config handle_option sample_topic round_queue 100000 (100, round_worker, []) of
     Some (Inl st) \<Rightarrow> Some st | _ \<Rightarrow> None)"

lemma round_runs:
  "\<exists>limit' wk' w'. process_round round_calls producer_config handle_option sample_topic round_queue 100000 (100, round_worker, [])
     = Some (Inl (limit', wk', w')) \<and> cc_next_cursor_id (wk_cc wk') = 5 \<and> w' = [''b'', ''a'', ''c'', ''b''] \<and> limit' = 100"
proof -
  have "map_option (\<lambda>(l, wk, w). (cc_next_cursor_id (wk_cc wk), w, l)) round_result = Some (5, [''b'', ''a'', ''c'', ''b''], 100)"
    by code_simp
  then show ?thesis by (auto simp: round_result_def split: option.splits sum.splits)
qed

lemma round_batch_limit: "batch_limit (tp_topic (tc_proto sample_topic)) = 100"
  by code_simp

theorem Process_settles_before_ack_witness:
  "\<exists>limit' wk' w'. process_round round_calls producer_config handle_option sample_topic round_queue 100000 (100, round_worker, [])
     = Some (Inl (limit', wk', w')) \<and> w' = [''b'', ''a'', ''c'', ''b'']
     \<and> settled round_calls producer_config handle_option sample_topic round_queue (wk_cc wk') 1000 handle_items"
proof -
  obtain limit' wk' w' where run: "process_round round_calls producer_config handle_option sample_topic round_queue 100000 (100, round_worker, [])
     = Some (Inl (limit', wk', w'))" and "cc_next_cursor_id (wk_cc wk') = 5" "w' = [''b'', ''a'', ''c'', ''b'']"
    using round_runs by blast
  moreover from this have "wk_cc wk' \<noteq> wk_cc round_worker"
    by (auto simp: round_worker_def handle_context_def ConsumerContext_default_def)
  then have "settled round_calls producer_config handle_option sample_topic round_queue (wk_cc wk') (wk_topic_id round_worker) handle_items"
    using Process_settles_before_ack[OF run] by (auto simp: round_calls_def)
  ultimately show ?thesis by (simp add: round_worker_def)
qed

theorem Process_limit_range_witness:
  "\<exists>limit' wk' w'. process_round round_calls producer_config handle_option sample_topic round_queue 100000 (100, round_worker, [])
     = Some (Inl (limit', wk', w')) \<and> 1 \<le> sint limit' \<and> sint limit' \<le> 100"
proof -
  obtain limit' wk' w' where run: "process_round round_calls producer_config handle_option sample_topic round_queue 100000 (100, round_worker, [])
     = Some (Inl (limit', wk', w'))"
    using round_runs by blast
  from Process_limit_range[OF run] show ?thesis using run by (simp add: round_batch_limit)
qed

end
