(* ===== verification/Delivery.thy ===== *)
theory Delivery
  imports Consumer StoreWitness
begin

section \<open>Consumers against a store: delivery\<close>

text \<open>
  The workers of a consumer group and the store of a queue, composed. A worker pulls with the cursor of
  the response it has settled (\<open>process_round\<close>), the store answers with \<open>BaseMgr_Get\<close>, and between these
  steps anything may happen: responses get lost, workers crash or lose the lock and others take the queue
  over, also while the first still handles its items, the store appends, trims, and another replica
  with older cursors becomes master. The cursor a group has acknowledged is the one the store keeps as
  \<open>prev\<close>; a new worker is served from there.
\<close>

text \<open>What is fixed: the consumer of the group, the queue, the log of the queue and the items the group wants.\<close>

record 'w Route =
  rt_calls :: "'w WorkerCalls"
  rt_config :: GlobalConfig
  rt_option :: ConsumerOption
  rt_topic_config :: TopicConfig
  rt_queue_info :: QueueInfo
  rt_topic :: int
  rt_group :: int
  rt_queue :: int
  rt_log :: "u64 \<Rightarrow> QItem list"
  rt_wanted :: "QItem \<Rightarrow> bool"

text \<open>
  The state: the store that is master, the highest cursor that was ever acknowledged (also by a replica
  that is no longer master), the context of each worker with the items it has not settled yet, and
  the items that were settled.
\<close>

record Delivery =
  dl_store :: StoreState
  dl_high :: u64
  dl_workers :: "nat \<Rightarrow> ConsumerContext \<times> QItem list option"
  dl_settled :: "QItem set"

abbreviation acked :: "'w Route \<Rightarrow> StoreState \<Rightarrow> u64 option" where
  "acked rt s \<equiv> cursor_of s (rt_group rt) (rt_queue rt) True"

text \<open>A request of a worker with the given context, and a successful answer by the store.\<close>

definition asks :: "'w Route \<Rightarrow> ConsumerContext \<Rightarrow> GetRequest \<Rightarrow> bool" where
  "asks rt cc req \<longleftrightarrow> get_queue_id req = rt_queue rt \<and> get_consumer_group_id req = rt_group rt
     \<and> get_prev_cursor_id req = cc_next_cursor_id cc \<and> get_next_cursor_id req = cc_next_cursor_id cc"

definition answers :: "'w Route \<Rightarrow> GetRequest \<Rightarrow> GetResponse \<Rightarrow> StoreState \<Rightarrow> StoreState \<Rightarrow> bool" where
  "answers rt req resp s s' \<longleftrightarrow>
     (\<exists>env clock ctx C n0. pulled env clock s req ctx C n0 resp s' \<and> wanted ctx = rt_wanted rt
        \<and> (\<forall>c. n0 < c \<and> c \<le> resp_next_cursor_id resp \<longrightarrow> items_at ctx c = rt_log rt c))"

text \<open>
  What else may happen to the store: the cursor of the group stays, or becomes one of a replica, which is
  not higher than what was acknowledged; the other cursor is arbitrary.
\<close>

definition store_moves :: "'w Route \<Rightarrow> u64 \<Rightarrow> u64 \<Rightarrow> StoreState \<Rightarrow> bool" where
  "store_moves rt base high s \<longleftrightarrow>
     (\<exists>p. acked rt s = Some p \<and> base \<le> p \<and> p \<le> high) \<and> cursor_of s (rt_group rt) (rt_queue rt) False \<noteq> Some NoID"

inductive delivers :: "'w Route \<Rightarrow> u64 \<Rightarrow> Delivery \<Rightarrow> Delivery \<Rightarrow> bool"
  for rt :: "'w Route" and base :: u64 where
  Pull: "delivers rt base d (d\<lparr>dl_store := s', dl_high := max (dl_high d) (the (acked rt s')),
           dl_workers := (dl_workers d)(k := (UpdateConsumerContextByGetResponse resp cc, Some (resp_items resp)))\<rparr>)"
    if "dl_workers d k = (cc, None)" "asks rt cc req" "answers rt req resp (dl_store d) s'"
| Lose: "delivers rt base d (d\<lparr>dl_store := s', dl_high := max (dl_high d) (the (acked rt s'))\<rparr>)"
    if "dl_workers d k = (cc, None)" "asks rt cc req" "answers rt req resp (dl_store d) s'"
| Settle: "delivers rt base d (d\<lparr>dl_workers := (dl_workers d)(k := (cc, None)), dl_settled := dl_settled d \<union> set items\<rparr>)"
    if "dl_workers d k = (cc, Some items)"
      "settled (rt_calls rt) (rt_config rt) (rt_option rt) (rt_topic_config rt) (rt_queue_info rt) cc (rt_topic rt) items"
| Take: "delivers rt base d (d\<lparr>dl_workers := (dl_workers d)(k := (cc, None))\<rparr>)"
    if "cc_next_cursor_id cc = NoID"
| Move: "delivers rt base d (d\<lparr>dl_store := s'\<rparr>)"
    if "store_moves rt base (dl_high d) s'"

definition delivery_start :: "'w Route \<Rightarrow> u64 \<Rightarrow> Delivery \<Rightarrow> bool" where
  "delivery_start rt base d \<longleftrightarrow> base \<noteq> NoID \<and> dl_high d = base \<and> dl_settled d = {}
     \<and> store_moves rt base base (dl_store d)
     \<and> (\<forall>k. snd (dl_workers d k) = None \<and> cc_next_cursor_id (fst (dl_workers d k)) \<in> {base, NoID})"

inductive delivery_reach :: "'w Route \<Rightarrow> u64 \<Rightarrow> Delivery \<Rightarrow> Delivery \<Rightarrow> bool" for rt :: "'w Route" and base :: u64 and d0 :: Delivery where
  start: "delivery_reach rt base d0 d0"
| step: "delivery_reach rt base d0 d'" if "delivery_reach rt base d0 d" "delivers rt base d d'"

subsection \<open>Nothing is acknowledged before it is settled\<close>

definition done_upto :: "'w Route \<Rightarrow> u64 \<Rightarrow> QItem set \<Rightarrow> u64 \<Rightarrow> bool" where
  "done_upto rt base S n \<longleftrightarrow> (\<forall>c. base < c \<and> c \<le> n \<longrightarrow> (\<forall>item \<in> set (rt_log rt c). rt_wanted rt item \<longrightarrow> item \<in> S))"

definition delivery_inv :: "'w Route \<Rightarrow> u64 \<Rightarrow> Delivery \<Rightarrow> bool" where
  "delivery_inv rt base d \<longleftrightarrow> base \<noteq> NoID \<and> dl_high d \<noteq> NoID \<and> store_moves rt base (dl_high d) (dl_store d)
     \<and> done_upto rt base (dl_settled d) (dl_high d)
     \<and> (\<forall>k cc batch. dl_workers d k = (cc, batch) \<longrightarrow> cc_next_cursor_id cc \<noteq> NoID \<longrightarrow>
          base \<le> cc_next_cursor_id cc
          \<and> done_upto rt base (dl_settled d \<union> (case batch of None \<Rightarrow> {} | Some items \<Rightarrow> set items)) (cc_next_cursor_id cc))"

lemma done_upto_mono: "done_upto rt base S n \<Longrightarrow> S \<subseteq> T \<Longrightarrow> m \<le> n \<Longrightarrow> done_upto rt base T m"
  by (fastforce simp: done_upto_def)

lemma AdjustNextCursorID_start:
  assumes "sync_sized s" "valid_id s g q" "cursor_of s g q True = Some p" "p \<noteq> NoID"
    and "cursor_of s g q False \<noteq> Some NoID"
    and "AdjustNextCursorID s g q n n = Some (ret, prev, n0)"
  shows "ret = RET_OK \<and> (n0 = p \<and> prev = p \<or> n \<noteq> NoID \<and> n0 = n \<and> prev = max n p)"
proof -
  obtain item where item: "Prelude.at (sync_buf s) (sync_idx s g q) = Some item"
    using valid_id_at[OF assms(1,2)] by blast
  have c: "cursor_of s g q b = (case item_cursor b item of (ret, c) \<Rightarrow> if ret = RET_OK then Some c else None)" for b
    using item valid_id_not_err[OF assms(2)] by (simp add: cursor_of_def GetCursorID_def)
  have p: "prev_magic item = SYNCCTRL_MAGIC" "item_prev_cursor_id item = p"
    using c[of True] assms(3) by (auto simp: item_cursor_def split: if_splits)
  have nx: "next_magic item = SYNCCTRL_MAGIC \<Longrightarrow> item_next_cursor_id item \<noteq> NoID"
    using c[of False] assms(5) by (auto simp: item_cursor_def)
  show ?thesis
    using assms(6) item p nx assms(4) valid_id_not_err[OF assms(2)]
    by (auto simp: AdjustNextCursorID_def Let_def max_def not_less split: if_splits)
qed

lemma answers_spec:
  assumes "answers rt req resp s s'" "asks rt cc req" and p: "acked rt s = Some p" "p \<noteq> NoID"
    and "cursor_of s (rt_group rt) (rt_queue rt) False \<noteq> Some NoID"
  obtains n0 prev where "n0 = p \<and> prev = p \<or> cc_next_cursor_id cc \<noteq> NoID \<and> n0 = cc_next_cursor_id cc \<and> prev = max n0 p"
    "resp_next_cursor_id resp \<noteq> NoID" "n0 \<le> resp_next_cursor_id resp" "acked rt s' = Some prev"
    "cursor_of s' (rt_group rt) (rt_queue rt) False = Some (resp_next_cursor_id resp)"
    "\<forall>c item. n0 < c \<and> prev < c \<and> c \<le> resp_next_cursor_id resp \<and> item \<in> set (rt_log rt c) \<and> rt_wanted rt item
       \<longrightarrow> item \<in> set (resp_items resp)"
proof -
  let ?n = "resp_next_cursor_id resp"
  obtain env clock ctx C n0 where pl: "pulled env clock s req ctx C n0 resp s'" and w: "wanted ctx = rt_wanted rt"
    and log: "\<forall>c. n0 < c \<and> c \<le> ?n \<longrightarrow> items_at ctx c = rt_log rt c"
    using assms(1) unfolding answers_def by blast
  have a: "get_queue_id req = rt_queue rt" "get_consumer_group_id req = rt_group rt"
    "get_prev_cursor_id req = cc_next_cursor_id cc" "get_next_cursor_id req = cc_next_cursor_id cc"
    using assms(2) by (simp_all add: asks_def)
  have b: "wf_store (env_crc32 env) s" "\<not> get_random req" "valid_id s (rt_group rt) (rt_queue rt)"
    using pl a by (simp_all add: pulled_def)
  note sv = pulled_served[OF pl]
  obtain ret prev nxt where adj: "AdjustNextCursorID s (rt_group rt) (rt_queue rt) (cc_next_cursor_id cc) (cc_next_cursor_id cc) = Some (ret, prev, nxt)"
    using sv(2) b(2) a by (auto simp: start_cursors_def split: option.splits if_splits Option.bind_splits)
  from AdjustNextCursorID_start[OF wf_store_sync_sized[OF b(1)] b(3) p assms(5) adj]
  have st: "ret = RET_OK" "nxt = p \<and> prev = p \<or> cc_next_cursor_id cc \<noteq> NoID \<and> nxt = cc_next_cursor_id cc \<and> prev = max nxt p"
    by auto
  have eq: "prev = gc_prev_cursor_id ctx" "nxt = n0"
    using sv(2) b(2) a adj st(1) by (simp_all add: start_cursors_def)
  have n0: "n0 \<noteq> NoID" using st(2) eq p(2) by auto
  have pv: "prev \<noteq> NoID" using st(2) p(2) n0 eq by (auto simp: max_def split: if_splits)
  obtain cs where cs: "?n \<noteq> NoID" "n0 \<le> ?n" "set cs = window ctx C n0 ?n" "resp_items resp = concat (map (kept_at ctx) cs)"
    using sv(1) served_iff[OF n0] by blast
  show thesis
  proof (rule that[of n0 prev])
    show "n0 = p \<and> prev = p \<or> cc_next_cursor_id cc \<noteq> NoID \<and> n0 = cc_next_cursor_id cc \<and> prev = max n0 p"
      using st(2) eq by auto
    show "acked rt s' = Some prev" "cursor_of s' (rt_group rt) (rt_queue rt) False = Some ?n"
      using sv(3) a eq pv cs(1) by (simp_all add: Let_def)
    show "\<forall>c item. n0 < c \<and> prev < c \<and> c \<le> ?n \<and> item \<in> set (rt_log rt c) \<and> rt_wanted rt item \<longrightarrow> item \<in> set (resp_items resp)"
    proof (intro allI impI, elim conjE)
    fix c item assume c: "n0 < c" "prev < c" "c \<le> ?n" "item \<in> set (rt_log rt c)" "rt_wanted rt item"
    then have "items_at ctx c = rt_log rt c" using log by blast
    moreover from this c(4) have "items_at ctx c \<noteq> []" by auto
    ultimately have "c \<in> set cs" "item \<in> set (kept_at ctx c)"
      using c n0 by (simp_all add: cs(3) w window_def kept_at_def eq(1)[symmetric])
    from this(1,2) have "item \<in> set (concat (map (kept_at ctx) cs))" by auto
    then show "item \<in> set (resp_items resp)" by (simp only: cs(4))
    qed
  qed (use cs(1,2) in simp_all)
qed

lemma delivery_inv_pull:
  assumes inv: "delivery_inv rt base d" and w: "dl_workers d k = (cc, None)"
    and ask: "asks rt cc req" and ans: "answers rt req resp (dl_store d) s'"
  shows "delivery_inv rt base (d\<lparr>dl_store := s', dl_high := max (dl_high d) (the (acked rt s'))\<rparr>)"
    and "delivery_inv rt base (d\<lparr>dl_store := s', dl_high := max (dl_high d) (the (acked rt s')),
           dl_workers := (dl_workers d)(k := (UpdateConsumerContextByGetResponse resp cc, Some (resp_items resp)))\<rparr>)"
proof -
  let ?n = "resp_next_cursor_id resp" and ?S = "dl_settled d"
  have h: "dl_high d \<noteq> NoID" "done_upto rt base ?S (dl_high d)" "base \<noteq> NoID"
    and wk: "\<And>k cc batch. dl_workers d k = (cc, batch) \<Longrightarrow> cc_next_cursor_id cc \<noteq> NoID \<Longrightarrow> base \<le> cc_next_cursor_id cc
          \<and> done_upto rt base (?S \<union> (case batch of None \<Rightarrow> {} | Some items \<Rightarrow> set items)) (cc_next_cursor_id cc)"
    using inv unfolding delivery_inv_def by blast+
  obtain p where p: "acked rt (dl_store d) = Some p" "base \<le> p" "p \<le> dl_high d"
    "cursor_of (dl_store d) (rt_group rt) (rt_queue rt) False \<noteq> Some NoID"
    using inv unfolding delivery_inv_def store_moves_def by blast
  have pn: "p \<noteq> NoID" using p(3) h(1) order_antisym[OF u64_le_NoID[of "dl_high d"]] by auto
  obtain n0 prev where n0: "n0 = p \<and> prev = p \<or> cc_next_cursor_id cc \<noteq> NoID \<and> n0 = cc_next_cursor_id cc \<and> prev = max n0 p"
    and n: "?n \<noteq> NoID" "n0 \<le> ?n" and s': "acked rt s' = Some prev" "cursor_of s' (rt_group rt) (rt_queue rt) False = Some ?n"
    and items: "\<forall>c item. n0 < c \<and> prev < c \<and> c \<le> ?n \<and> item \<in> set (rt_log rt c) \<and> rt_wanted rt item \<longrightarrow> item \<in> set (resp_items resp)"
    by (rule answers_spec[OF ans ask p(1) pn p(4)])
  have dp: "done_upto rt base ?S p" by (rule done_upto_mono[OF h(2) subset_refl p(3)])
  have dn: "done_upto rt base ?S n0 \<and> base \<le> n0 \<and> n0 \<noteq> NoID"
    using n0
  proof (elim disjE conjE)
    assume "n0 = p"
    then show ?thesis using dp p(2) pn by simp
  next
    assume "cc_next_cursor_id cc \<noteq> NoID" "n0 = cc_next_cursor_id cc"
    then show ?thesis using wk[OF w] by simp
  qed
  have dv: "done_upto rt base ?S prev \<and> base \<le> prev \<and> prev \<noteq> NoID"
    using n0 dn dp p(2) pn by (auto simp: max_def split: if_splits)
  have "done_upto rt base ?S (max (dl_high d) prev)" using h(2) dv by (simp add: max_def)
  then have high: "store_moves rt base (max (dl_high d) prev) s' \<and> max (dl_high d) prev \<noteq> NoID \<and> done_upto rt base ?S (max (dl_high d) prev)"
    using s' n(1) dv h(1) by (auto simp: store_moves_def max_def)
  show "delivery_inv rt base (d\<lparr>dl_store := s', dl_high := max (dl_high d) (the (acked rt s'))\<rparr>)"
    unfolding delivery_inv_def using high h(3) s'(1) wk by simp
  have "done_upto rt base (?S \<union> set (resp_items resp)) ?n"
    unfolding done_upto_def
  proof (intro allI impI ballI)
    fix c item assume c: "base < c \<and> c \<le> ?n" and i: "item \<in> set (rt_log rt c)" "rt_wanted rt item"
    show "item \<in> ?S \<union> set (resp_items resp)"
    proof (cases "n0 < c \<and> prev < c")
      case True
      with items c i show ?thesis by blast
    next
      case False
      with dn dv c i show ?thesis unfolding done_upto_def by (meson UnI1 not_less)
    qed
  qed
  moreover have "base \<le> ?n" using dn n(2) by (meson order_trans)
  ultimately show "delivery_inv rt base (d\<lparr>dl_store := s', dl_high := max (dl_high d) (the (acked rt s')),
           dl_workers := (dl_workers d)(k := (UpdateConsumerContextByGetResponse resp cc, Some (resp_items resp)))\<rparr>)"
    unfolding delivery_inv_def using high h(3) s'(1) wk by (auto simp: UpdateConsumerContextByGetResponse_def)
qed

lemma delivery_inv_step: "delivers rt base d d' \<Longrightarrow> delivery_inv rt base d \<Longrightarrow> delivery_inv rt base d'"
proof (induction rule: delivers.induct)
  case (Pull d k cc req resp s')
  then show ?case by (intro delivery_inv_pull(2))
next
  case (Lose d k cc req resp s')
  then show ?case by (intro delivery_inv_pull(1))
next
  case (Settle d k cc items)
  let ?S = "dl_settled d \<union> set items"
  have wk: "base \<le> cc_next_cursor_id cc' \<and> done_upto rt base (?S \<union> (case batch of None \<Rightarrow> {} | Some items \<Rightarrow> set items)) (cc_next_cursor_id cc')"
    if "dl_workers d j = (cc', batch)" "cc_next_cursor_id cc' \<noteq> NoID" for j cc' batch
  proof -
    have "base \<le> cc_next_cursor_id cc' \<and> done_upto rt base (dl_settled d \<union> (case batch of None \<Rightarrow> {} | Some items \<Rightarrow> set items)) (cc_next_cursor_id cc')"
      using Settle.prems that unfolding delivery_inv_def by blast
    then show ?thesis using done_upto_mono by (metis Un_mono Un_upper1 order_refl)
  qed
  have "done_upto rt base ?S (dl_high d)"
    using Settle.prems done_upto_mono[OF _ Un_upper1 order_refl] unfolding delivery_inv_def by blast
  moreover have "base \<le> cc_next_cursor_id cc \<and> done_upto rt base ?S (cc_next_cursor_id cc)" if "cc_next_cursor_id cc \<noteq> NoID"
    using wk[OF Settle.hyps(1) that] by (simp add: Un_assoc)
  ultimately show ?case
    using Settle.prems wk unfolding delivery_inv_def by (auto simp: fun_upd_apply)
next
  case (Take cc d k)
  then show ?case unfolding delivery_inv_def by (auto simp: fun_upd_apply)
next
  case (Move d s')
  then show ?case unfolding delivery_inv_def by simp
qed

lemma delivery_reach_inv: "delivery_reach rt base d0 d \<Longrightarrow> delivery_start rt base d0 \<Longrightarrow> delivery_inv rt base d"
proof (induction rule: delivery_reach.induct)
  case start
  have "done_upto rt base S base" for S by (auto simp: done_upto_def)
  moreover have "base \<le> cc_next_cursor_id cc \<and> cc_next_cursor_id cc = base \<and> batch = None"
    if "dl_workers d0 k = (cc, batch)" "cc_next_cursor_id cc \<noteq> NoID" for k cc batch
  proof -
    have "snd (dl_workers d0 k) = None \<and> cc_next_cursor_id (fst (dl_workers d0 k)) \<in> {base, NoID}"
      using start unfolding delivery_start_def by blast
    with that show ?thesis by simp
  qed
  ultimately show ?case using start unfolding delivery_inv_def delivery_start_def by auto
next
  case (step d d')
  then show ?case by (blast intro: delivery_inv_step)
qed

text \<open>C3: Nothing is acknowledged before it is settled. Whatever gets lost, crashes or is taken over, by whichever
  worker or replica: up to the cursor that the store keeps as acknowledged, every item of the log that the
  group wants was in a response whose worker settled it; and the next pull of any worker starts below every
  item that is not settled, so it is served again.\<close>

theorem Acknowledged_is_settled:
  assumes "delivery_reach rt base d0 d" and "delivery_start rt base d0" and "acked rt (dl_store d) = Some p"
  shows "(\<forall>c item. base < c \<and> c \<le> p \<and> item \<in> set (rt_log rt c) \<and> rt_wanted rt item \<longrightarrow> item \<in> dl_settled d)
    \<and> (\<forall>k cc req resp s' c item. dl_workers d k = (cc, None) \<and> asks rt cc req \<and> answers rt req resp (dl_store d) s'
         \<and> base < c \<and> c \<le> resp_next_cursor_id resp \<and> item \<in> set (rt_log rt c) \<and> rt_wanted rt item \<and> item \<notin> dl_settled d
         \<longrightarrow> item \<in> set (resp_items resp))"
proof -
  note inv = delivery_reach_inv[OF assms(1,2)]
  have "done_upto rt base (dl_settled d) (dl_high d)" "p \<le> dl_high d"
    using inv assms(3) by (auto simp: delivery_inv_def store_moves_def)
  then have "done_upto rt base (dl_settled d) p" by (rule done_upto_mono[OF _ subset_refl])
  moreover have "item \<in> set (resp_items resp)"
    if "dl_workers d k = (cc, None)" "asks rt cc req" "answers rt req resp (dl_store d) s'"
      "base < c" "c \<le> resp_next_cursor_id resp" "item \<in> set (rt_log rt c)" "rt_wanted rt item" "item \<notin> dl_settled d"
    for k cc req resp s' c item
  proof -
    from delivery_inv_pull(2)[OF inv that(1-3)] obtain
      "resp_next_cursor_id resp \<noteq> NoID \<longrightarrow> done_upto rt base (dl_settled d \<union> set (resp_items resp)) (resp_next_cursor_id resp)"
      unfolding delivery_inv_def UpdateConsumerContextByGetResponse_def by (auto dest!: spec[of _ k])
    moreover have "resp_next_cursor_id resp \<noteq> NoID"
      using delivery_inv_pull(2)[OF inv that(1-3)] answers_spec[OF that(3,2)] inv assms(3) 
      unfolding delivery_inv_def store_moves_def by (metis u64_le_NoID option.inject order_antisym)
    ultimately show ?thesis using that(4-8) unfolding done_upto_def by blast
  qed
  ultimately show ?thesis unfolding done_upto_def by blast
qed

subsection \<open>From the addition to the handler\<close>

lemma items_of_values_keeps: "set items \<subseteq> set (snd (items_of_values env q c vs items))"
proof (induction vs arbitrary: items)
  case (Cons p vs)
  obtain v smid where p: "p = (v, smid)" by (cases p)
  have "set items \<subseteq> set (snd (items_of_values env q c vs (items @ xs)))" for xs
    using Cons.IH[of "items @ xs"] by auto
  from this[of "[]"] this show ?case unfolding p items_of_values.simps by (simp split: option.split) blast
qed simp

lemma items_of_values_OK:
  "\<forall>(v, smid) \<in> set vs. smid = StoreSM_ID \<longrightarrow> ParseStorePaxosArgs env v \<noteq> None \<Longrightarrow>
     fst (items_of_values env q c vs items) = RET_OK"
proof (induction vs arbitrary: items)
  case (Cons p vs)
  obtain v smid where p: "p = (v, smid)" by (cases p)
  have "fst (items_of_values env q c vs items) = RET_OK" for items using Cons by simp
  with Cons.prems show ?case by (auto simp: p split: option.split)
qed simp

lemma items_of_values_chosen:
  assumes "\<forall>(v, smid) \<in> set vs. smid = StoreSM_ID \<longrightarrow> ParseStorePaxosArgs env v \<noteq> None"
    and "(buf, StoreSM_ID) \<in> set vs" and "ParseStorePaxosArgs env buf = Some args" and "pa_add_req args = Some req"
    and "item \<in> set (add_items req)"
  shows "fst (items_of_values env (add_queue_id req) c vs items) = RET_OK
    \<and> item\<lparr>qi_cursor_id := c\<rparr> \<in> set (snd (items_of_values env (add_queue_id req) c vs items))"
proof -
  have "item\<lparr>qi_cursor_id := c\<rparr> \<in> set (snd (items_of_values env (add_queue_id req) c vs items))"
    using assms(1,2)
  proof (induction vs arbitrary: items)
    case (Cons p vs)
    obtain v smid where p: "p = (v, smid)" by (cases p)
    show ?case
    proof (cases "p = (buf, StoreSM_ID)")
      case True
      let ?items = "items @ map (\<lambda>i. i\<lparr>qi_cursor_id := c\<rparr>) (add_items req)"
      have ne: "add_items req \<noteq> []" using assms(5) by auto
      have "item\<lparr>qi_cursor_id := c\<rparr> \<in> set ?items" using assms(5) by auto
      moreover have "set ?items \<subseteq> set (snd (items_of_values env (add_queue_id req) c vs ?items))"
        by (rule items_of_values_keeps)
      ultimately show ?thesis using True assms(3,4) ne by auto
    next
      case False
      with Cons.prems have "(buf, StoreSM_ID) \<in> set vs"
        and "\<forall>(v, smid) \<in> set vs. smid = StoreSM_ID \<longrightarrow> ParseStorePaxosArgs env v \<noteq> None" by auto
      note IH = Cons.IH[OF this(2,1)]
      show ?thesis using IH Cons.prems(1) p by (auto split: option.splits)
    qed
  qed simp
  with items_of_values_OK[OF assms(1)] show ?thesis by blast
qed

text \<open>C4: From the store's success to the handler: an item that a store acknowledged to its producer, and that
  the group wants, was settled by a worker of the group once the group has acknowledged the instance
  that the response names. (phxpaxos keeps the value it reported as chosen; protobuf reads back what it
  wrote.)\<close>

theorem Added_is_settled:
  assumes add: "Store_Add env BatchPropose now s req resp = Some (RET_OK, resp', s')" and item: "item \<in> set (add_items req)"
    and q: "0 \<le> add_queue_id req" "0 < ngroup (st_opt s)"
    and chosen: "\<And>i res s2. BatchPropose (add_queue_id req mod ngroup (st_opt s)) (SerializeStorePaxosArgs env (add_args now req)) s
        = (TryCommit_OK, i, res, s2) \<Longrightarrow>
      \<exists>vs. GetInstanceValue (gc_env ctx) (add_queue_id req mod ngroup (st_opt s)) i = Value_Chosen vs
        \<and> (SerializeStorePaxosArgs env (add_args now req), StoreSM_ID) \<in> set vs
        \<and> (\<forall>(v, smid) \<in> set vs. smid = StoreSM_ID \<longrightarrow> ParseStorePaxosArgs (gc_env ctx) v \<noteq> None)"
    and pb: "ParseStorePaxosArgs (gc_env ctx) (SerializeStorePaxosArgs env (add_args now req)) = Some (add_args now req)"
    and log: "rt_log rt = items_at ctx" "gc_opt ctx = st_opt s" "get_queue_id (gc_req ctx) = add_queue_id req"
    and reach: "delivery_reach rt base d0 d" "delivery_start rt base d0" "acked rt (dl_store d) = Some p"
    and i: "base < add_resp_cursor_id resp'" "add_resp_cursor_id resp' \<le> p"
    and want: "rt_wanted rt (item\<lparr>qi_cursor_id := add_resp_cursor_id resp'\<rparr>)"
  shows "item\<lparr>qi_cursor_id := add_resp_cursor_id resp'\<rparr> \<in> dl_settled d"
proof -
  let ?g = "add_queue_id req mod ngroup (st_opt s)" and ?buf = "SerializeStorePaxosArgs env (add_args now req)"
  have g: "cmod (add_queue_id req) (ngroup (st_opt s)) = Some ?g" using q by (simp add: cmod_nonneg)
  obtain r a where cm: "CheckMaster env s ?g (or_default (add_redirect_addr resp)) = (r, a)" by fastforce
  have "add_items req \<noteq> []" using item by auto
  then have pa: "PaxosAdd env BatchPropose now s req (resp\<lparr>add_redirect_addr := Some a\<rparr>) = Some (RET_OK, resp', s')"
    using add g cm by (auto simp: Store_Add_def Let_def split: if_splits)
  obtain t i res s2 where bp: "BatchPropose ?g ?buf s = (t, i, res, s2)" by (metis prod_cases4)
  have t: "t = TryCommit_OK" "add_resp_cursor_id resp' = i"
    using pa g bp by (auto simp: PaxosAdd_def Let_def split: TryCommitRet.splits)
  obtain vs where vs: "GetInstanceValue (gc_env ctx) ?g i = Value_Chosen vs" "(?buf, StoreSM_ID) \<in> set vs"
    "\<forall>(v, smid) \<in> set vs. smid = StoreSM_ID \<longrightarrow> ParseStorePaxosArgs (gc_env ctx) v \<noteq> None"
    using chosen bp t(1) by blast
  have "pa_add_req (add_args now req) = Some req" by (simp add: add_args_def)
  from items_of_values_chosen[OF vs(3,2) pb this item, of i "[]"]
  have "item\<lparr>qi_cursor_id := i\<rparr> \<in> set (items_at ctx i)"
    using vs(1) g log(2,3) by (cases "items_of_values (gc_env ctx) (add_queue_id req) i vs []") (simp add: items_at_def GetItemsByCursorID_def)
  then have "item\<lparr>qi_cursor_id := i\<rparr> \<in> set (rt_log rt i)" by (simp add: log(1))
  moreover have "done_upto rt base (dl_settled d) p"
    using delivery_reach_inv[OF reach(1,2)] reach(3) done_upto_mono[OF _ subset_refl, of rt base "dl_settled d" "dl_high d" p]
    by (auto simp: delivery_inv_def store_moves_def)
  ultimately show ?thesis using i want t(2) unfolding done_upto_def by blast
qed

subsection \<open>The code runs the system\<close>

text \<open>C16: A round of \<open>Process\<close> is a run of the system: when every successful response comes from a store that
  answers the worker's request, possibly after the store has moved, then the worker is, after the
  round, idle again with the cursors the code gives it, and nobody else has changed.\<close>

theorem Process_round_delivers:
  assumes run: "process_round (rt_calls rt) (rt_config rt) (rt_option rt) (rt_topic_config rt) (rt_queue_info rt) start_loop_time
      (limit, wk, w) = Some (Inl (limit', wk', w'))"
    and wk: "cc_consumer_group_id (wk_cc wk) = rt_group rt" "cc_queue_id (wk_cc wk) = rt_queue rt" "wk_topic_id wk = rt_topic rt"
    and idle: "dl_workers d k = (wk_cc wk, None)"
    and store: "\<And>req resp w1 w2. wc_get (rt_calls rt) req w1 = (RET_OK, resp, w2) \<Longrightarrow> asks rt (wk_cc wk) req \<Longrightarrow>
      \<exists>s s'. store_moves rt base (dl_high d) s \<and> answers rt req resp s s'"
  shows "\<exists>d'. (delivers rt base)\<^sup>*\<^sup>* d d' \<and> dl_workers d' = (dl_workers d)(k := (wk_cc wk', None)) \<and> dl_settled d \<subseteq> dl_settled d'"
proof (cases "wk_cc wk' = wk_cc wk")
  case True
  with idle have "dl_workers d = (dl_workers d)(k := (wk_cc wk', None))" by (simp add: fun_upd_idem)
  then show ?thesis by blast
next
  case False
  with Process_settles_before_ack[OF run] obtain req resp w1 w2 where get: "wc_get (rt_calls rt) req w1 = (RET_OK, resp, w2)"
    and req: "get_queue_id req = cc_queue_id (wk_cc wk)" "get_consumer_group_id req = cc_consumer_group_id (wk_cc wk)"
      "get_prev_cursor_id req = cc_next_cursor_id (wk_cc wk)" "get_next_cursor_id req = cc_next_cursor_id (wk_cc wk)"
    and cc: "wk_cc wk' = UpdateConsumerContextByGetResponse resp (wk_cc wk)"
    and set: "settled (rt_calls rt) (rt_config rt) (rt_option rt) (rt_topic_config rt) (rt_queue_info rt) (wk_cc wk') (rt_topic rt) (resp_items resp)"
    using wk(3) by auto
  have ask: "asks rt (wk_cc wk) req" using req wk by (simp add: asks_def)
  obtain s s' where s: "store_moves rt base (dl_high d) s" "answers rt req resp s s'" using store[OF get ask] by blast
  let ?d1 = "d\<lparr>dl_store := s\<rparr>"
  let ?d2 = "?d1\<lparr>dl_store := s', dl_high := max (dl_high ?d1) (the (acked rt s')),
           dl_workers := (dl_workers ?d1)(k := (UpdateConsumerContextByGetResponse resp (wk_cc wk), Some (resp_items resp)))\<rparr>"
  let ?d3 = "?d2\<lparr>dl_workers := (dl_workers ?d2)(k := (wk_cc wk', None)), dl_settled := dl_settled ?d2 \<union> set (resp_items resp)\<rparr>"
  have "delivers rt base d ?d1" by (rule delivers.Move[OF s(1)])
  moreover have "delivers rt base ?d1 ?d2" by (rule delivers.Pull[OF _ ask]) (simp_all add: idle s(2))
  moreover have "delivers rt base ?d2 ?d3" by (rule delivers.Settle[OF _ set]) (simp add: cc)
  ultimately have "(delivers rt base)\<^sup>*\<^sup>* d ?d3" by (meson converse_rtranclp_into_rtranclp rtranclp.rtrancl_refl)
  moreover have "dl_workers ?d3 = (dl_workers d)(k := (wk_cc wk', None))" by simp
  ultimately show ?thesis by (intro exI[of _ ?d3]) simp
qed

subsection \<open>Samples\<close>

text \<open>A store whose group has acknowledged instance 4 of three, and a worker that settles instance 5.\<close>

definition delivery_calls :: "string list WorkerCalls" where
  "delivery_calls = round_calls\<lparr>wc_get := (\<lambda>req w. if req = sample_req 4 then (RET_OK, sample_resp1, w) else (RET_ERR_SYS, sample_resp, w))\<rparr>"

definition delivery_context :: "u64 \<Rightarrow> ConsumerContext" where
  "delivery_context n = \<lparr>cc_topic_id = 1000, cc_consumer_group_id = 1, cc_store_id = 1, cc_queue_id = 1, cc_prev_cursor_id = 4, cc_next_cursor_id = n\<rparr>"

definition delivery_queue :: QueueInfo where
  "delivery_queue = (case GetQueueInfoByQueue sample_topic 1 of Inr qi \<Rightarrow> qi | Inl _ \<Rightarrow> round_queue)"

definition delivery_ctx :: GetCtx where
  "delivery_ctx = get_ctx sample_env sample_filled (sample_req 4) sample_topic delivery_queue (NoID, 0) 4"

definition delivery_route :: "string list Route" where
  "delivery_route = \<lparr>rt_calls = delivery_calls, rt_config = producer_config, rt_option = handle_option, rt_topic_config = sample_topic,
     rt_queue_info = delivery_queue, rt_topic = 1000, rt_group = 1, rt_queue = 1, rt_log = items_at delivery_ctx, rt_wanted = wanted delivery_ctx\<rparr>"

definition delivery_state :: Delivery where
  "delivery_state = \<lparr>dl_store = sample_filled, dl_high = 4, dl_workers = (\<lambda>_. (delivery_context 4, None)), dl_settled = {}\<rparr>"

lemma delivery_route_simps [simp]:
  "rt_calls delivery_route = delivery_calls" "rt_config delivery_route = producer_config" "rt_option delivery_route = handle_option"
  "rt_topic_config delivery_route = sample_topic" "rt_queue_info delivery_route = delivery_queue" "rt_topic delivery_route = 1000"
  "rt_group delivery_route = 1" "rt_queue delivery_route = 1" "rt_log delivery_route = items_at delivery_ctx"
  "rt_wanted delivery_route = wanted delivery_ctx"
  by (simp_all add: delivery_route_def)

lemma delivery_queue_info: "GetQueueInfoByQueue sample_topic 1 = Inr delivery_queue"
  using sample_topic_queue1 by (auto simp: delivery_queue_def split: sum.splits)

lemma delivery_cursors:
  "cursor_of sample_filled 1 1 True = Some 4" "cursor_of sample_filled 1 1 False = Some 4"
  by code_simp+

lemma delivery_started: "delivery_start delivery_route 4 delivery_state"
  by (simp add: delivery_start_def delivery_state_def store_moves_def delivery_cursors delivery_context_def)

lemma delivery_asks: "asks delivery_route (delivery_context n) (sample_req n)"
  by (simp add: asks_def delivery_context_def sample_req_def)

lemma delivery_answers:
  "answers delivery_route (sample_req 4) sample_resp1 sample_filled sample_s1"
  "answers delivery_route (sample_req 5) sample_resp2 sample_s1 sample_s2"
proof -
  show "answers delivery_route (sample_req 4) sample_resp1 sample_filled sample_s1"
    unfolding answers_def
    by (intro exI conjI, rule sample_pulled1[OF delivery_queue_info]) (simp_all add: delivery_ctx_def)
  let ?c2 = "get_ctx sample_env sample_s1 (sample_req 5) sample_topic delivery_queue (NoID, 0) 5"
  have c2: "items_at ?c2 = items_at delivery_ctx" "wanted ?c2 = wanted delivery_ctx"
    by (simp_all add: fun_eq_iff items_at_def wanted_def sample_s1_frame sample_ctx sample_req_def delivery_ctx_def)
  show "answers delivery_route (sample_req 5) sample_resp2 sample_s1 sample_s2"
    unfolding answers_def by (intro exI conjI, rule sample_pulled2[OF delivery_queue_info]) (simp_all add: c2)
qed

lemma delivery_handled:
  "map_option (\<lambda>s. (length (ct_items s), ct_handle_results s)) (TaskDispatch handle_calls producer_config handle_option (\<lambda>_. 0) handle_schedule 1000
     (UpdateConsumerContextByGetResponse sample_resp1 (delivery_context 4)) (resp_items sample_resp1) [RES_ERROR] []) = Some (1, [RES_OK])"
  "kept_items sample_topic delivery_queue (UpdateConsumerContextByGetResponse sample_resp1 (delivery_context 4)) (resp_items sample_resp1)
     = resp_items sample_resp1"
  by code_simp+

lemma delivery_settled:
  "settled delivery_calls producer_config handle_option sample_topic delivery_queue
     (UpdateConsumerContextByGetResponse sample_resp1 (delivery_context 4)) 1000 (resp_items sample_resp1)"
proof -
  let ?cc = "UpdateConsumerContextByGetResponse sample_resp1 (delivery_context 4)"
  obtain s where s: "TaskDispatch handle_calls producer_config handle_option (\<lambda>_. 0) handle_schedule 1000 ?cc (resp_items sample_resp1) [RES_ERROR] [] = Some s"
    "length (ct_items s) = 1" "ct_handle_results s = [RES_OK]"
    using delivery_handled(1) by auto
  have "replicate (length (resp_items sample_resp1)) RES_ERROR = [RES_ERROR]" by (simp add: sample_get_results(3))
  with s sample_get_results(3) have "TaskDispatch (wc_handle delivery_calls) producer_config handle_option (\<lambda>_. 0) handle_schedule 1000 ?cc
      (resp_items sample_resp1) (replicate (length (resp_items sample_resp1)) RES_ERROR) [] = Some s
    \<and> length (ct_items s) = length (resp_items sample_resp1) \<and> length (ct_handle_results s) = length (resp_items sample_resp1)
    \<and> (\<forall>i < length (resp_items sample_resp1). ct_handle_results s ! i = RES_ERROR \<longrightarrow>
         retried delivery_calls producer_config ?cc (retry_items (ct_items s) (ct_handle_results s)) (ct_items s ! i))"
    by (simp add: delivery_calls_def round_calls_def)
  then show ?thesis unfolding settled_def delivery_handled(2) Let_def by blast
qed

definition delivery_pulled :: Delivery where
  "delivery_pulled = delivery_state\<lparr>dl_store := sample_s1, dl_high := max (dl_high delivery_state) (the (acked delivery_route sample_s1)),
     dl_workers := (dl_workers delivery_state)(0 := (UpdateConsumerContextByGetResponse sample_resp1 (delivery_context 4), Some (resp_items sample_resp1)))\<rparr>"

definition delivery_done :: Delivery where
  "delivery_done = delivery_pulled\<lparr>dl_workers := (dl_workers delivery_pulled)(0 := (UpdateConsumerContextByGetResponse sample_resp1 (delivery_context 4), None)),
     dl_settled := dl_settled delivery_pulled \<union> set (resp_items sample_resp1)\<rparr>"

definition delivery_acked :: Delivery where
  "delivery_acked = delivery_done\<lparr>dl_store := sample_s2, dl_high := max (dl_high delivery_done) (the (acked delivery_route sample_s2))\<rparr>"

lemma delivery_run: "delivery_reach delivery_route 4 delivery_state delivery_acked"
proof -
  have "delivers delivery_route 4 delivery_state delivery_pulled"
    unfolding delivery_pulled_def
    by (rule delivers.Pull[OF _ delivery_asks[of 4]]) (simp_all add: delivery_state_def delivery_answers(1))
  moreover have "delivers delivery_route 4 delivery_pulled delivery_done"
    unfolding delivery_done_def
    by (rule delivers.Settle) (simp_all add: delivery_pulled_def delivery_settled)
  moreover have "delivers delivery_route 4 delivery_done delivery_acked"
    unfolding delivery_acked_def
  proof (rule delivers.Lose)
    show "dl_workers delivery_done 0 = (UpdateConsumerContextByGetResponse sample_resp1 (delivery_context 4), None)"
      by (simp add: delivery_done_def)
    show "asks delivery_route (UpdateConsumerContextByGetResponse sample_resp1 (delivery_context 4)) (sample_req 5)"
      using delivery_asks[of 5] by (simp add: asks_def UpdateConsumerContextByGetResponse_def sample_get_results(2) delivery_context_def)
    show "answers delivery_route (sample_req 5) sample_resp2 (dl_store delivery_done) sample_s2"
      by (simp add: delivery_done_def delivery_pulled_def delivery_answers(2))
  qed
  ultimately show ?thesis by (meson delivery_reach.intros)
qed

lemma delivery_acked_cursor: "acked delivery_route (dl_store delivery_acked) = Some 5"
proof -
  have "cursor_of sample_s2 1 1 True = Some 5" by code_simp
  then show ?thesis by (simp add: delivery_acked_def)
qed

lemma delivery_item: "\<exists>item \<in> set (items_at delivery_ctx 5). wanted delivery_ctx item"
proof -
  have "list_ex (wanted delivery_ctx) (items_at delivery_ctx 5)" by code_simp
  then show ?thesis by (auto simp: list_ex_iff)
qed

theorem Acknowledged_is_settled_witness:
  "\<exists>item \<in> set (items_at delivery_ctx 5). item \<in> dl_settled delivery_acked"
proof -
  obtain item where item: "item \<in> set (items_at delivery_ctx 5)" "wanted delivery_ctx item" using delivery_item by blast
  have "(4 :: u64) < 5 \<and> (5 :: u64) \<le> 5 \<and> item \<in> set (rt_log delivery_route 5) \<and> rt_wanted delivery_route item"
    using item by simp
  then have "item \<in> dl_settled delivery_acked"
    using Acknowledged_is_settled[OF delivery_run delivery_started delivery_acked_cursor] by blast
  with item(1) show ?thesis by blast
qed

definition delivery_worker :: Worker where
  "delivery_worker = round_worker\<lparr>wk_cc := delivery_context 4\<rparr>"

lemma delivery_round:
  "\<exists>limit' wk' w'. process_round delivery_calls producer_config handle_option sample_topic delivery_queue 100000 (1, delivery_worker, [])
     = Some (Inl (limit', wk', w')) \<and> cc_next_cursor_id (wk_cc wk') = 5"
proof -
  have "(case process_round delivery_calls producer_config handle_option sample_topic delivery_queue 100000 (1, delivery_worker, []) of
     Some (Inl (limit', wk', w')) \<Rightarrow> cc_next_cursor_id (wk_cc wk') = 5 | _ \<Rightarrow> False)"
    by code_simp
  then show ?thesis by (auto split: option.splits sum.splits)
qed

theorem Process_round_delivers_witness:
  "\<exists>cc d'. (delivers delivery_route 4)\<^sup>*\<^sup>* delivery_state d' \<and> dl_workers d' 0 = (cc, None) \<and> cc_next_cursor_id cc = 5"
proof -
  obtain limit' wk' w' where run: "process_round delivery_calls producer_config handle_option sample_topic delivery_queue 100000 (1, delivery_worker, [])
     = Some (Inl (limit', wk', w'))" and five: "cc_next_cursor_id (wk_cc wk') = 5"
    using delivery_round by blast
  have store: "\<exists>s s'. store_moves delivery_route 4 (dl_high delivery_state) s \<and> answers delivery_route req resp s s'"
    if "wc_get (rt_calls delivery_route) req w1 = (RET_OK, resp, w2)" for req resp w1 w2
    using that delivery_answers(1) delivery_started
    by (auto simp: delivery_calls_def delivery_start_def delivery_state_def split: if_splits)
  obtain d' where "(delivers delivery_route 4)\<^sup>*\<^sup>* delivery_state d'" "dl_workers d' = (dl_workers delivery_state)(0 := (wk_cc wk', None))"
  proof -
    have "\<exists>d'. (delivers delivery_route 4)\<^sup>*\<^sup>* delivery_state d' \<and> dl_workers d' = (dl_workers delivery_state)(0 := (wk_cc wk', None))
      \<and> dl_settled delivery_state \<subseteq> dl_settled d'"
    by (rule Process_round_delivers[of delivery_route 100000 1 delivery_worker "[]"])
      (use run store in \<open>simp_all add: delivery_worker_def delivery_context_def round_worker_def delivery_state_def\<close>)
    then show thesis using that by blast
  qed
  then have "(delivers delivery_route 4)\<^sup>*\<^sup>* delivery_state d' \<and> dl_workers d' 0 = (wk_cc wk', None) \<and> cc_next_cursor_id (wk_cc wk') = 5"
    using five by simp
  then show ?thesis by blast
qed

theorem Added_is_settled_witness:
  "\<exists>resp' s'. Store_Add sample_env sample_propose 0 sample_store (sample_add [StoreSample.sample_item 1]) sample_add_resp = Some (RET_OK, resp', s')
     \<and> (StoreSample.sample_item 1)\<lparr>qi_cursor_id := add_resp_cursor_id resp'\<rparr> \<in> dl_settled delivery_acked"
proof -
  let ?req = "sample_add [StoreSample.sample_item 1]"
  have "case Store_Add sample_env sample_propose 0 sample_store ?req sample_add_resp of Some (ret, resp', s') \<Rightarrow>
      ret = RET_OK \<and> add_resp_cursor_id resp' = 5 | None \<Rightarrow> False" by code_simp
  then obtain resp' s' where add: "Store_Add sample_env sample_propose 0 sample_store ?req sample_add_resp = Some (RET_OK, resp', s')"
    and five: "add_resp_cursor_id resp' = 5" by (auto split: option.splits)
  have want: "wanted delivery_ctx ((StoreSample.sample_item 1)\<lparr>qi_cursor_id := 5\<rparr>)" by code_simp
  have "(StoreSample.sample_item 1)\<lparr>qi_cursor_id := add_resp_cursor_id resp'\<rparr> \<in> dl_settled delivery_acked"
  proof (rule Added_is_settled[OF add _ _ _ _ _ _ _ _ delivery_run delivery_started delivery_acked_cursor])
    show "rt_log delivery_route = items_at delivery_ctx" by simp
    show "rt_wanted delivery_route ((StoreSample.sample_item 1)\<lparr>qi_cursor_id := add_resp_cursor_id resp'\<rparr>)"
      using want five by simp
    show "\<exists>vs. GetInstanceValue (gc_env delivery_ctx) (add_queue_id ?req mod ngroup (st_opt sample_store)) i = Value_Chosen vs
        \<and> (SerializeStorePaxosArgs sample_env (add_args 0 ?req), StoreSM_ID) \<in> set vs
        \<and> (\<forall>(v, smid) \<in> set vs. smid = StoreSM_ID \<longrightarrow> ParseStorePaxosArgs (gc_env delivery_ctx) v \<noteq> None)"
      if "sample_propose (add_queue_id ?req mod ngroup (st_opt sample_store)) (SerializeStorePaxosArgs sample_env (add_args 0 ?req)) sample_store
        = (TryCommit_OK, i, res, s2)" for i res s2
      using that by (auto simp: sample_propose_def delivery_ctx_def sample_env_def sample_value_def sample_add_def sample_store_simps sample_opt_def
          StoreSM_ID_def sample_parse_def split: option.splits)
  qed (simp_all add: sample_add_def sample_store_simps sample_opt_def delivery_ctx_def sample_ctx sample_req_def sample_env_def sample_parse_def
      sample_args_def add_args_def five)
  with add show ?thesis by blast
qed
end
