(* ===== verification/MasterRate.thy ===== *)
theory MasterRate
  imports StoreSM StoreSample LockSM Floats
begin

section \<open>Balancing the masters of the paxos groups (store and lock: keepmasterthread.cpp)\<close>

text \<open>
  A thread in each replica drops the groups that it should not be master of, and claims those that are
  its share: the groups are dealt to the members of the store in turn. It claims a group by proposing a
  value with its own address; a replica that executes this value and is not meant drops the group
  (\<open>StoreSM::Execute\<close>, \<open>LockSM::Execute\<close>). What the thread asks of phxpaxos is a list of calls. It asks
  once per round and group whether it is master (and \<open>NeedDropMaster\<close>, a virtual method), so these
  answers are functions of the group. Both services have the same loop, in a file of their own.
\<close>

datatype NodeCall =
    DropMaster int
  | Propose int string
  | SetTimeoutMs int
  | SetHoldPaxosLogCount int
  | SetMaxHoldThreads int int
  | SetMasterLease int int
  | SetProposeWaitTimeThresholdMS int int
  | SetLogSync int int
  | SetBatchCount int int
  | SetBatchDelayTimeMs int int

record MasterRateThread =
  kt_master_rate :: int
  kt_last_update_paxos_args_time :: u64

definition MasterRateThread_new :: MasterRateThread where
  "MasterRateThread_new = \<lparr>kt_master_rate = 0, kt_last_update_paxos_args_time = 0\<rparr>"

fun idx_in_addrs :: "Addr \<Rightarrow> Addr list \<Rightarrow> int \<Rightarrow> int" where
  "idx_in_addrs addr [] i = -1"
| "idx_in_addrs addr (a # addrs) i =
     (if ip addr = ip a \<and> port addr = port a \<and> paxos_port addr = paxos_port a then i else idx_in_addrs addr addrs (i + 1))"

text \<open>The rate is compared in \<open>double\<close>.\<close>

definition rate_exceeded :: "int \<Rightarrow> int \<Rightarrow> int \<Rightarrow> bool" where
  "rate_exceeded paxos_group_id ngroups master_rate \<longleftrightarrow>
     of_int master_rate < float64 (float64 (float64 (of_int paxos_group_id / of_int ngroups) * 100) + 1 / 2)"

subsection \<open>The store\<close>

definition claim_args :: "u64 \<Rightarrow> Addr \<Rightarrow> StorePaxosArgs" where
  "claim_args now addr = \<lparr>pa_add_req = None, pa_sync_ctrl_info = None, pa_master_addr = addr, pa_timestamp = now\<rparr>"

definition store_keep_group ::
  "StoreEnv \<Rightarrow> (int \<Rightarrow> bool) \<Rightarrow> (int \<Rightarrow> u64) \<Rightarrow> int \<Rightarrow> int \<Rightarrow> Addr \<Rightarrow> int \<Rightarrow> int \<Rightarrow> int \<Rightarrow> NodeCall list" where
  "store_keep_group env NeedDropMaster now master_rate ngroups addr idx_in_store addrs_size paxos_group_id =
     (if rate_exceeded paxos_group_id ngroups master_rate then [DropMaster paxos_group_id]
      else if NeedDropMaster paxos_group_id then [DropMaster paxos_group_id]
      else if IsIMMaster env paxos_group_id then []
      else if idx_in_store \<noteq> paxos_group_id mod addrs_size then []
      else [Propose paxos_group_id (SerializeStorePaxosArgs env (claim_args (now paxos_group_id) addr))])"

definition store_KeepMaster :: "StoreEnv \<Rightarrow> (int \<Rightarrow> bool) \<Rightarrow> (int \<Rightarrow> u64) \<Rightarrow> StoreState \<Rightarrow> int \<Rightarrow> NodeCall list" where
  "store_KeepMaster env NeedDropMaster now s master_rate =
     (case GetTopicConfigByTopicID (env_config env) (st_topic_id s) of Inl _ \<Rightarrow> [] | Inr topic_config \<Rightarrow>
      let addr = opt_addr (st_opt s) in
      case GetStoreConfig (env_config env) (st_topic_id s) of Inl _ \<Rightarrow> [] | Inr store_config \<Rightarrow>
      case GetStoreByAddr (env_inet_addr env) store_config addr of Inl _ \<Rightarrow> [] | Inr store \<Rightarrow>
      let idx_in_store = idx_in_addrs addr (store_addrs store) 0 in
      if idx_in_store = -1 then []
      else concat (map (store_keep_group env NeedDropMaster now master_rate (ngroup (st_opt s)) addr idx_in_store
             (int (length (store_addrs store)))) [0..ngroup (st_opt s) - 1]))"

text \<open>The last group of which the replica is master gives the rate, in percent and rounded up.\<close>

definition group_rate :: "(int \<Rightarrow> bool) \<Rightarrow> int \<Rightarrow> int \<Rightarrow> int \<Rightarrow> int option" where
  "group_rate is_master ngroups master_rate paxos_group_id =
     (if is_master paxos_group_id
      then map_option (\<lambda>x. x div ngroups + (if x mod ngroups \<noteq> 0 then 1 else 0)) (i32 (paxos_group_id * 100))
      else Some master_rate)"

definition store_InitMasterRate :: "StoreEnv \<Rightarrow> StoreState \<Rightarrow> MasterRateThread \<Rightarrow> MasterRateThread option" where
  "store_InitMasterRate env s t =
     (case GetTopicConfigByTopicID (env_config env) (st_topic_id s) of
        Inl _ \<Rightarrow> Some (t\<lparr>kt_master_rate := 0\<rparr>)
      | Inr topic_config \<Rightarrow> do {
          rate \<leftarrow> foldM (\<lambda>p rate. group_rate (IsIMMaster env) (ngroup (st_opt s)) rate p) [0..ngroup (st_opt s) - 1] 0;
          let topic = tp_topic (tc_proto topic_config);
          Some (t\<lparr>kt_master_rate := (if rate < store_adjust_min_master_rate topic then store_adjust_min_master_rate topic
                  else if store_adjust_max_master_rate topic < rate then store_adjust_max_master_rate topic else rate)\<rparr>) })"

definition store_AdjustMasterRate :: "StoreEnv \<Rightarrow> StoreState \<Rightarrow> MasterRateThread \<Rightarrow> MasterRateThread" where
  "store_AdjustMasterRate env s t =
     (case GetTopicConfigByTopicID (env_config env) (st_topic_id s) of
        Inl _ \<Rightarrow> t
      | Inr topic_config \<Rightarrow> t\<lparr>kt_master_rate := store_adjust_max_master_rate (tp_topic (tc_proto topic_config))\<rparr>)"

definition store_UpdatePaxosArgs :: "StoreEnv \<Rightarrow> StoreState \<Rightarrow> MasterRateThread \<Rightarrow> NodeCall list \<times> MasterRateThread" where
  "store_UpdatePaxosArgs env s t =
     (case GetTopicConfigByTopicID (env_config env) (st_topic_id s) of Inl _ \<Rightarrow> ([], t) | Inr topic_config \<Rightarrow>
      if kt_last_update_paxos_args_time t = tc_last_mod_time topic_config then ([], t)
      else let topic = tp_topic (tc_proto topic_config)
           in ([SetTimeoutMs (store_paxos_propose_timeout_ms topic), SetHoldPaxosLogCount (store_paxos_hold_log_count topic)]
                 @ concat (map (\<lambda>g.
                     [SetMaxHoldThreads g (store_paxos_max_hold_threads topic), SetMasterLease g (store_paxos_master_lease topic),
                      SetProposeWaitTimeThresholdMS g (store_paxos_propose_wait_time_threshold_ms topic),
                      SetLogSync g (store_paxos_log_sync topic), SetBatchCount g (store_paxos_batch_count topic),
                      SetBatchDelayTimeMs g (store_paxos_batch_delay_time_ms topic)]) [0..ngroup (st_opt s) - 1]),
               t\<lparr>kt_last_update_paxos_args_time := tc_last_mod_time topic_config\<rparr>))"

text \<open>One turn of \<open>DoRun\<close>, after its sleep.\<close>

definition store_KeepMaster_round ::
  "StoreEnv \<Rightarrow> (int \<Rightarrow> bool) \<Rightarrow> (int \<Rightarrow> u64) \<Rightarrow> StoreState \<Rightarrow> MasterRateThread \<Rightarrow> NodeCall list \<times> MasterRateThread" where
  "store_KeepMaster_round env NeedDropMaster now s t =
     (let (calls, t) = store_UpdatePaxosArgs env s t; t = store_AdjustMasterRate env s t
      in (calls @ store_KeepMaster env NeedDropMaster now s (kt_master_rate t), t))"

subsection \<open>The lock\<close>

definition lock_claim_args :: "Addr \<Rightarrow> LockPaxosArgs" where
  "lock_claim_args addr = \<lparr>pa_acquire_lock_req = None, pa_set_string_req = None, pa_lock_master_addr = addr\<rparr>"

definition lock_keep_group ::
  "'d LockEnv \<Rightarrow> (int \<Rightarrow> bool) \<Rightarrow> int \<Rightarrow> int \<Rightarrow> Addr \<Rightarrow> int \<Rightarrow> int \<Rightarrow> int \<Rightarrow> NodeCall list" where
  "lock_keep_group env NeedDropMaster master_rate nr_groups addr idx_in_lock addrs_size paxos_group_id =
     (if rate_exceeded paxos_group_id nr_groups master_rate then [DropMaster paxos_group_id]
      else if NeedDropMaster paxos_group_id then [DropMaster paxos_group_id]
      else if le_IsIMMaster env paxos_group_id then []
      else if idx_in_lock \<noteq> paxos_group_id mod addrs_size then []
      else [Propose paxos_group_id (SerializeLockPaxosArgs env (lock_claim_args addr))])"

definition lock_KeepMaster :: "'d LockEnv \<Rightarrow> (int \<Rightarrow> bool) \<Rightarrow> 'd LockState \<Rightarrow> int \<Rightarrow> RetCode \<times> NodeCall list" where
  "lock_KeepMaster env NeedDropMaster s master_rate =
     (case GetTopicConfigByTopicID (le_config env) (ls_topic_id s) of Inl ret \<Rightarrow> (ret, []) | Inr topic_config \<Rightarrow>
      let addr = lock_opt_addr (ls_opt s) in
      case GetLockConfig (le_config env) (ls_topic_id s) of Inl ret \<Rightarrow> (ret, []) | Inr lock_config \<Rightarrow>
      case GetLockByAddr (le_inet_addr env) lock_config addr of Inl ret \<Rightarrow> (ret, []) | Inr lock \<Rightarrow>
      let idx_in_lock = idx_in_addrs addr (lock_addrs lock) 0 in
      if idx_in_lock = -1 then (RET_ERR_LOGIC, [])
      else (RET_OK, concat (map (lock_keep_group env NeedDropMaster master_rate (nr_group (ls_opt s)) addr idx_in_lock
             (int (length (lock_addrs lock)))) [0..nr_group (ls_opt s) - 1])))"

definition lock_InitMasterRate :: "MasterRateThread \<Rightarrow> RetCode \<times> MasterRateThread" where
  "lock_InitMasterRate t = (RET_OK, t\<lparr>kt_master_rate := 100\<rparr>)"

definition lock_AdjustMasterRate :: "'d LockEnv \<Rightarrow> 'd LockState \<Rightarrow> MasterRateThread \<Rightarrow> RetCode \<times> MasterRateThread" where
  "lock_AdjustMasterRate env s t =
     (case GetTopicConfigByTopicID (le_config env) (ls_topic_id s) of
        Inl ret \<Rightarrow> (ret, t)
      | Inr topic_config \<Rightarrow> (RET_OK, t\<lparr>kt_master_rate := lock_adjust_max_master_rate (tp_topic (tc_proto topic_config))\<rparr>))"

text \<open>\<open>ProposeMaster\<close>, which nothing calls, reports success whatever phxpaxos answers.\<close>

definition ProposeMaster :: "'d LockEnv \<Rightarrow> int \<Rightarrow> Addr \<Rightarrow> RetCode \<times> NodeCall list" where
  "ProposeMaster env paxos_group_id addr = (RET_OK, [Propose paxos_group_id (SerializeLockPaxosArgs env (lock_claim_args addr))])"

definition lock_UpdatePaxosArgs :: "'d LockEnv \<Rightarrow> 'd LockState \<Rightarrow> MasterRateThread \<Rightarrow> RetCode \<times> NodeCall list \<times> MasterRateThread" where
  "lock_UpdatePaxosArgs env s t =
     (case GetTopicConfigByTopicID (le_config env) (ls_topic_id s) of Inl ret \<Rightarrow> (ret, [], t) | Inr topic_config \<Rightarrow>
      if kt_last_update_paxos_args_time t = tc_last_mod_time topic_config then (RET_OK, [], t)
      else let topic = tp_topic (tc_proto topic_config)
           in (RET_OK,
               [SetTimeoutMs (lock_paxos_propose_timeout_ms topic), SetHoldPaxosLogCount (lock_paxos_nr_hold_log topic)]
                 @ concat (map (\<lambda>g.
                     [SetMaxHoldThreads g (lock_paxos_max_hold_threads topic), SetMasterLease g (lock_paxos_master_lease topic),
                      SetProposeWaitTimeThresholdMS g (lock_paxos_propose_wait_time_threshold_ms topic),
                      SetLogSync g (lock_paxos_log_sync topic),
                      SetBatchDelayTimeMs g (lock_paxos_batch_delay_time_ms topic)]) [0..nr_group (ls_opt s) - 1]),
               t\<lparr>kt_last_update_paxos_args_time := tc_last_mod_time topic_config\<rparr>))"

definition lock_KeepMaster_round ::
  "'d LockEnv \<Rightarrow> (int \<Rightarrow> bool) \<Rightarrow> 'd LockState \<Rightarrow> MasterRateThread \<Rightarrow> NodeCall list \<times> MasterRateThread" where
  "lock_KeepMaster_round env NeedDropMaster s t =
     (let (_, calls, t) = lock_UpdatePaxosArgs env s t; (_, t) = lock_AdjustMasterRate env s t
      in (calls @ snd (lock_KeepMaster env NeedDropMaster s (kt_master_rate t)), t))"

subsection \<open>Who claims a group\<close>

lemma idx_in_addrs_nth:
  "distinct addrs \<Longrightarrow> k < length addrs \<Longrightarrow> idx_in_addrs (addrs ! k) addrs i = i + int k"
proof (induction addrs arbitrary: i k)
  case (Cons a addrs)
  show ?case
  proof (cases k)
    case (Suc j)
    with Cons.prems have "addrs ! j \<noteq> a" by auto
    then have "\<not> (ip (addrs ! j) = ip a \<and> port (addrs ! j) = port a \<and> paxos_port (addrs ! j) = paxos_port a)" by auto
    with Suc Cons show ?thesis by simp
  qed simp
qed simp

lemma claims_iff:
  assumes "\<And>p. f p = (if bad p then [DropMaster p] else if lazy p then [] else [Propose p (v p)])"
  shows "Propose p x \<in> set (concat (map f [0..n - 1])) \<longleftrightarrow> 0 \<le> p \<and> p < n \<and> x = v p \<and> \<not> bad p \<and> \<not> lazy p"
    and "DropMaster p \<in> set (concat (map f [0..n - 1])) \<longleftrightarrow> 0 \<le> p \<and> p < n \<and> bad p"
  by (auto simp: assms)

lemma store_KeepMaster_calls:
  assumes "GetTopicConfigByTopicID (env_config env) (st_topic_id s) = Inr tc" "GetStoreConfig (env_config env) (st_topic_id s) = Inr sc"
    and "GetStoreByAddr (env_inet_addr env) sc (opt_addr (st_opt s)) = Inr store" and "distinct (store_addrs store)"
    and k: "k < length (store_addrs store)" "opt_addr (st_opt s) = store_addrs store ! k"
  shows "Propose p x \<in> set (store_KeepMaster env nd now s rate) \<longleftrightarrow> 0 \<le> p \<and> p < ngroup (st_opt s)
       \<and> x = SerializeStorePaxosArgs env (claim_args (now p) (opt_addr (st_opt s)))
       \<and> \<not> rate_exceeded p (ngroup (st_opt s)) rate \<and> \<not> nd p \<and> \<not> IsIMMaster env p \<and> int k = p mod int (length (store_addrs store))"
    and "DropMaster p \<in> set (store_KeepMaster env nd now s rate) \<longleftrightarrow>
       0 \<le> p \<and> p < ngroup (st_opt s) \<and> (rate_exceeded p (ngroup (st_opt s)) rate \<or> nd p)"
proof -
  let ?f = "store_keep_group env nd now rate (ngroup (st_opt s)) (opt_addr (st_opt s)) (int k) (int (length (store_addrs store)))"
  have eq: "store_KeepMaster env nd now s rate = concat (map ?f [0..ngroup (st_opt s) - 1])"
    using assms idx_in_addrs_nth[OF assms(4) k(1), of 0] by (simp add: store_KeepMaster_def Let_def)
  have f: "?f p = (if rate_exceeded p (ngroup (st_opt s)) rate \<or> nd p then [DropMaster p]
      else if IsIMMaster env p \<or> int k \<noteq> p mod int (length (store_addrs store)) then []
      else [Propose p (SerializeStorePaxosArgs env (claim_args (now p) (opt_addr (st_opt s))))])" for p
    by (simp add: store_keep_group_def)
  show "Propose p x \<in> set (store_KeepMaster env nd now s rate) \<longleftrightarrow> 0 \<le> p \<and> p < ngroup (st_opt s)
       \<and> x = SerializeStorePaxosArgs env (claim_args (now p) (opt_addr (st_opt s)))
       \<and> \<not> rate_exceeded p (ngroup (st_opt s)) rate \<and> \<not> nd p \<and> \<not> IsIMMaster env p \<and> int k = p mod int (length (store_addrs store))"
    "DropMaster p \<in> set (store_KeepMaster env nd now s rate) \<longleftrightarrow>
       0 \<le> p \<and> p < ngroup (st_opt s) \<and> (rate_exceeded p (ngroup (st_opt s)) rate \<or> nd p)"
    unfolding eq claims_iff[OF f] by auto
qed

lemma lock_KeepMaster_calls:
  assumes "GetTopicConfigByTopicID (le_config env) (ls_topic_id s) = Inr tc" "GetLockConfig (le_config env) (ls_topic_id s) = Inr lc"
    and "GetLockByAddr (le_inet_addr env) lc (lock_opt_addr (ls_opt s)) = Inr lk" and "distinct (lock_addrs lk)"
    and k: "k < length (lock_addrs lk)" "lock_opt_addr (ls_opt s) = lock_addrs lk ! k"
  shows "fst (lock_KeepMaster env nd s rate) = RET_OK"
    and "Propose p x \<in> set (snd (lock_KeepMaster env nd s rate)) \<longleftrightarrow> 0 \<le> p \<and> p < nr_group (ls_opt s)
       \<and> x = SerializeLockPaxosArgs env (lock_claim_args (lock_opt_addr (ls_opt s)))
       \<and> \<not> rate_exceeded p (nr_group (ls_opt s)) rate \<and> \<not> nd p \<and> \<not> le_IsIMMaster env p \<and> int k = p mod int (length (lock_addrs lk))"
    and "DropMaster p \<in> set (snd (lock_KeepMaster env nd s rate)) \<longleftrightarrow>
       0 \<le> p \<and> p < nr_group (ls_opt s) \<and> (rate_exceeded p (nr_group (ls_opt s)) rate \<or> nd p)"
proof -
  let ?f = "lock_keep_group env nd rate (nr_group (ls_opt s)) (lock_opt_addr (ls_opt s)) (int k) (int (length (lock_addrs lk)))"
  have eq: "lock_KeepMaster env nd s rate = (RET_OK, concat (map ?f [0..nr_group (ls_opt s) - 1]))"
    using assms idx_in_addrs_nth[OF assms(4) k(1), of 0] by (simp add: lock_KeepMaster_def Let_def)
  have f: "?f p = (if rate_exceeded p (nr_group (ls_opt s)) rate \<or> nd p then [DropMaster p]
      else if le_IsIMMaster env p \<or> int k \<noteq> p mod int (length (lock_addrs lk)) then []
      else [Propose p (SerializeLockPaxosArgs env (lock_claim_args (lock_opt_addr (ls_opt s))))])" for p
    by (simp add: lock_keep_group_def)
  show "fst (lock_KeepMaster env nd s rate) = RET_OK" by (simp add: eq)
  show "Propose p x \<in> set (snd (lock_KeepMaster env nd s rate)) \<longleftrightarrow> 0 \<le> p \<and> p < nr_group (ls_opt s)
       \<and> x = SerializeLockPaxosArgs env (lock_claim_args (lock_opt_addr (ls_opt s)))
       \<and> \<not> rate_exceeded p (nr_group (ls_opt s)) rate \<and> \<not> nd p \<and> \<not> le_IsIMMaster env p \<and> int k = p mod int (length (lock_addrs lk))"
    "DropMaster p \<in> set (snd (lock_KeepMaster env nd s rate)) \<longleftrightarrow>
       0 \<le> p \<and> p < nr_group (ls_opt s) \<and> (rate_exceeded p (nr_group (ls_opt s)) rate \<or> nd p)"
    unfolding eq snd_conv claims_iff[OF f] by auto
qed

text \<open>The rate grows with the group, and \<open>200 / 201\<close> is the first quotient beyond the limit.\<close>

lemma rate_mono:
  assumes "rate_exceeded p n r" "0 \<le> p" "0 < n" "0 < m" "p * m \<le> q * n"
  shows "rate_exceeded q m r"
proof -
  let ?x = "of_int p / of_int n :: rat" and ?y = "of_int q / of_int m :: rat"
  have "of_int p * of_int m \<le> (of_int q * of_int n :: rat)" using assms(5) by (metis of_int_le_iff of_int_mult)
  then have xy: "0 \<le> ?x" "?x \<le> ?y" using assms by (simp_all add: field_simps)
  then have a: "0 \<le> float64 ?x" "float64 ?x \<le> float64 ?y" by (simp_all add: fl_nonneg fl_mono)
  then have b: "0 \<le> float64 (float64 ?x * 100)" "float64 (float64 ?x * 100) \<le> float64 (float64 ?y * 100)"
    by (simp_all add: fl_nonneg fl_mono)
  then have "float64 (float64 (float64 ?x * 100) + 1 / 2) \<le> float64 (float64 (float64 ?y * 100) + 1 / 2)"
    by (intro fl_mono) simp_all
  with assms(1) show ?thesis by (simp add: rate_exceeded_def)
qed

lemma rate_limit: "\<not> rate_exceeded 199 200 100" "rate_exceeded 200 201 100"
  by code_simp+

text \<open>C35: Even at the greatest rate, 100 percent, the members of a service keep all their groups exactly
  if there are at most 200 of them. With more, every member drops the last ones in every round, because of the half that is
  added to the percentage, and they have no lasting master.
\<close>

theorem KeepMaster_keeps_all:
  assumes "0 < n"
  shows "(\<forall>p. 0 \<le> p \<and> p < n \<longrightarrow> \<not> rate_exceeded p n 100) \<longleftrightarrow> n \<le> 200"
proof
  assume h: "\<forall>p. 0 \<le> p \<and> p < n \<longrightarrow> \<not> rate_exceeded p n 100"
  show "n \<le> 200"
  proof (rule ccontr)
    assume "\<not> n \<le> 200"
    then have "rate_exceeded (n - 1) n 100" by (intro rate_mono[OF rate_limit(2)]) simp_all
    with h assms show False by simp
  qed
next
  assume n: "n \<le> 200"
  show "\<forall>p. 0 \<le> p \<and> p < n \<longrightarrow> \<not> rate_exceeded p n 100"
  proof (intro allI impI notI)
    fix p assume p: "0 \<le> p \<and> p < n" "rate_exceeded p n 100"
    then have "rate_exceeded 199 200 100" using n assms by (intro rate_mono[OF p(2)]) simp_all
    with rate_limit(1) show False by simp
  qed
qed

lemma KeepMaster_keeps_all_witness: "\<not> (\<forall>p. 0 \<le> p \<and> p < 300 \<longrightarrow> \<not> rate_exceeded p 300 100)"
  using KeepMaster_keeps_all[of 300] by simp

subsection \<open>Claiming a group of a store\<close>

lemma Execute_claim:
  assumes "ParseStorePaxosArgs env v = Some (claim_args t a)" "ip a \<noteq> []"
  shows "Execute env True s p c v = Some (True, RET_OK,
     if opt_addr (st_opt s) = a then s else s\<lparr>dropped_masters := dropped_masters s @ [p]\<rparr>)"
  using assms by (simp add: Execute_def claim_args_def Let_def)

text \<open>C22: The members of a store share out its groups. Of the members of one configuration, only member \<open>p mod N\<close>
  claims group \<open>p\<close>; and when no member is master of a group that is kept, and none has a reason to drop it, exactly one claims it.
  The claim, once chosen, makes every other member drop the group and leaves the claimant, and every member's queues, alone.
\<close>

theorem Group_has_one_claimant:
  assumes config: "\<And>k. k < N \<Longrightarrow> GetTopicConfigByTopicID (env_config (env k)) (st_topic_id (s k)) = Inr tc
        \<and> GetStoreConfig (env_config (env k)) (st_topic_id (s k)) = Inr sc
        \<and> GetStoreByAddr (env_inet_addr (env k)) sc (opt_addr (st_opt (s k))) = Inr store"
    and members: "N = length (store_addrs store)" "distinct (store_addrs store)"
    and opts: "\<And>k. k < N \<Longrightarrow> opt_addr (st_opt (s k)) = store_addrs store ! k \<and> ngroup (st_opt (s k)) = n \<and> ip (store_addrs store ! k) \<noteq> []"
    and codec: "\<And>j k. j < N \<Longrightarrow> k < N \<Longrightarrow>
        ParseStorePaxosArgs (env j) (SerializeStorePaxosArgs (env k) (claim_args (now k p) (store_addrs store ! k)))
          = Some (claim_args (now k p) (store_addrs store ! k))"
    and p: "0 \<le> p" "p < n" "0 < N"
  shows "(\<forall>k v. k < N \<and> Propose p v \<in> set (store_KeepMaster (env k) (nd k) (now k) (s k) rate) \<longrightarrow>
       int k = p mod int N \<and> (\<forall>j < N. Execute (env j) True (s j) p c v = Some (True, RET_OK,
          if j = k then s j else s j\<lparr>dropped_masters := dropped_masters (s j) @ [p]\<rparr>)))
     \<and> (\<not> rate_exceeded p n rate \<and> (\<forall>k < N. \<not> nd k p \<and> \<not> IsIMMaster (env k) p) \<longrightarrow>
       (\<exists>!k. k < N \<and> (\<exists>v. Propose p v \<in> set (store_KeepMaster (env k) (nd k) (now k) (s k) rate))))"
proof -
  have calls: "Propose p v \<in> set (store_KeepMaster (env k) (nd k) (now k) (s k) rate) \<longleftrightarrow>
      v = SerializeStorePaxosArgs (env k) (claim_args (now k p) (store_addrs store ! k))
      \<and> \<not> rate_exceeded p n rate \<and> \<not> nd k p \<and> \<not> IsIMMaster (env k) p \<and> int k = p mod int N" if "k < N" for k v
    using store_KeepMaster_calls(1)[of "env k" "s k" tc sc store k p v "nd k" "now k" rate] config[OF that] opts[OF that] that p members
    by simp
  have "\<forall>k v. k < N \<and> Propose p v \<in> set (store_KeepMaster (env k) (nd k) (now k) (s k) rate) \<longrightarrow>
       int k = p mod int N \<and> (\<forall>j < N. Execute (env j) True (s j) p c v = Some (True, RET_OK,
          if j = k then s j else s j\<lparr>dropped_masters := dropped_masters (s j) @ [p]\<rparr>))"
  proof (intro allI impI, elim conjE, intro conjI allI impI)
    fix k v j
    assume k: "k < N" "Propose p v \<in> set (store_KeepMaster (env k) (nd k) (now k) (s k) rate)"
    with calls show "int k = p mod int N" by simp
    assume j: "j < N"
    have v: "ParseStorePaxosArgs (env j) v = Some (claim_args (now k p) (store_addrs store ! k))"
      using k calls[OF k(1)] codec[OF j k(1)] by simp
    have "store_addrs store ! j = store_addrs store ! k \<longleftrightarrow> j = k"
      using members j k(1) by (simp add: nth_eq_iff_index_eq)
    then show "Execute (env j) True (s j) p c v = Some (True, RET_OK,
          if j = k then s j else s j\<lparr>dropped_masters := dropped_masters (s j) @ [p]\<rparr>)"
      using Execute_claim[OF v] opts[OF j] opts[OF k(1)] by simp
  qed
  note first = this
  define k where "k = nat (p mod int N)"
  have k: "k < N" "int k = p mod int N" using p(3) by (simp_all add: k_def nat_less_iff)
  have "\<not> rate_exceeded p n rate \<and> (\<forall>k < N. \<not> nd k p \<and> \<not> IsIMMaster (env k) p) \<longrightarrow>
       (\<exists>!k. k < N \<and> (\<exists>v. Propose p v \<in> set (store_KeepMaster (env k) (nd k) (now k) (s k) rate)))"
  proof (intro impI ex1I[of _ k])
    fix j assume "j < N \<and> (\<exists>v. Propose p v \<in> set (store_KeepMaster (env j) (nd j) (now j) (s j) rate))"
    then have "int j = int k" using calls k by auto
    then show "j = k" by simp
  qed (use calls[OF k(1)] k in auto)
  with first show ?thesis by blast
qed


text \<open>The three members of the default configuration, none of which is master.\<close>

definition claim_config :: StoreConfig where
  "claim_config = the (StoreConfig_Rebuild (\<lambda>_. 0x0100007F) False
     \<lparr>sc_stores = StoreConfig_ReadConfig, sc_last_mod_time = 0, store_id2store = [], addr2store_id = []\<rparr>)"

definition claim_env :: StoreEnv where
  "claim_env = sample_env\<lparr>env_config := (env_config sample_env)\<lparr>topic_id2store_config := [(1000, claim_config)]\<rparr>,
     IsIMMaster := (\<lambda>_. False),
     SerializeStorePaxosArgs := (\<lambda>a. if port (pa_master_addr a) = 5100 then ''x'' else if port (pa_master_addr a) = 5200 then ''y'' else ''z''),
     ParseStorePaxosArgs := (\<lambda>v. Some (claim_args 0 (store_addrs (hd StoreConfig_ReadConfig) ! (if v = ''x'' then 0 else if v = ''y'' then 1 else 2))))\<rparr>"

definition claim_member :: "nat \<Rightarrow> StoreState" where
  "claim_member k = sample_store\<lparr>st_opt := sample_opt\<lparr>opt_port := 5100 + 100 * int k, opt_paxos_port := 5101 + 100 * int k\<rparr>\<rparr>"

lemma less_3_cases: "k < (3 :: nat) \<Longrightarrow> k = 0 \<or> k = 1 \<or> k = 2"
  by auto

lemma claim_member_config:
  assumes "k < 3"
  shows "GetTopicConfigByTopicID (env_config claim_env) (st_topic_id (claim_member k)) = Inr sample_topic"
    "GetStoreConfig (env_config claim_env) (st_topic_id (claim_member k)) = Inr claim_config"
    "GetStoreByAddr (env_inet_addr claim_env) claim_config (opt_addr (st_opt (claim_member k))) = Inr (hd StoreConfig_ReadConfig)"
    "opt_addr (st_opt (claim_member k)) = store_addrs (hd StoreConfig_ReadConfig) ! k"
proof -
  show "GetTopicConfigByTopicID (env_config claim_env) (st_topic_id (claim_member k)) = Inr sample_topic"
    "GetStoreConfig (env_config claim_env) (st_topic_id (claim_member k)) = Inr claim_config"
    by (simp_all add: claim_env_def claim_member_def sample_env_def sample_store_def GetTopicConfigByTopicID_def GetStoreConfig_def)
  have "GetStoreByAddr (\<lambda>_. 0x0100007F) claim_config (opt_addr (st_opt (claim_member 0))) = Inr (hd StoreConfig_ReadConfig)"
    "GetStoreByAddr (\<lambda>_. 0x0100007F) claim_config (opt_addr (st_opt (claim_member 1))) = Inr (hd StoreConfig_ReadConfig)"
    "GetStoreByAddr (\<lambda>_. 0x0100007F) claim_config (opt_addr (st_opt (claim_member 2))) = Inr (hd StoreConfig_ReadConfig)"
    by code_simp+
  then show "GetStoreByAddr (env_inet_addr claim_env) claim_config (opt_addr (st_opt (claim_member k))) = Inr (hd StoreConfig_ReadConfig)"
    using less_3_cases[OF assms] by (auto simp: claim_env_def sample_env_def)
  show "opt_addr (st_opt (claim_member k)) = store_addrs (hd StoreConfig_ReadConfig) ! k"
    using less_3_cases[OF assms] by (auto simp: claim_member_def sample_opt_def opt_addr_def StoreConfig_ReadConfig_def)
qed

lemma Group_has_one_claimant_witness:
  "(\<exists>!k. k < 3 \<and> (\<exists>v. Propose 1 v \<in> set (store_KeepMaster claim_env (\<lambda>_. False) (\<lambda>_. 0) (claim_member k) 100)))
   \<and> Propose 1 ''y'' \<in> set (store_KeepMaster claim_env (\<lambda>_. False) (\<lambda>_. 0) (claim_member 1) 100)
   \<and> Execute claim_env True (claim_member 2) 1 9 ''y'' = Some (True, RET_OK, (claim_member 2)\<lparr>dropped_masters := [1]\<rparr>)"
proof -
  note inst = Group_has_one_claimant[of 3 "\<lambda>_. claim_env" claim_member sample_topic claim_config "hd StoreConfig_ReadConfig" 2
      "\<lambda>_ _. 0" 1, where rate = 100 and nd = "\<lambda>_ _. False"]
  have addrs: "distinct (store_addrs (hd StoreConfig_ReadConfig))" "3 = length (store_addrs (hd StoreConfig_ReadConfig))"
    "k < 3 \<Longrightarrow> ip (store_addrs (hd StoreConfig_ReadConfig) ! k) \<noteq> []" for k
    using less_3_cases[of k] by (auto simp: StoreConfig_ReadConfig_def)
  have codec: "ParseStorePaxosArgs claim_env (SerializeStorePaxosArgs claim_env (claim_args 0 (store_addrs (hd StoreConfig_ReadConfig) ! k)))
      = Some (claim_args 0 (store_addrs (hd StoreConfig_ReadConfig) ! k))" if "k < 3" for k
    using less_3_cases[OF that] by (auto simp: claim_env_def claim_args_def StoreConfig_ReadConfig_def)
  have n: "ngroup (st_opt (claim_member k)) = 2" for k by (simp add: claim_member_def sample_opt_def)
  have r: "\<not> rate_exceeded 1 2 100" by code_simp
  have m: "\<not> IsIMMaster claim_env 1" "dropped_masters (claim_member 2) = []"
    by (simp_all add: claim_env_def claim_member_def sample_store_def)
  have "\<exists>!k. k < 3 \<and> (\<exists>v. Propose 1 v \<in> set (store_KeepMaster claim_env (\<lambda>_. False) (\<lambda>_. 0) (claim_member k) 100))"
    using inst[THEN conjunct2, OF _ addrs(2,1)] claim_member_config addrs(3) codec n r m by simp
  moreover have "\<forall>k v. k < 3 \<and> Propose 1 v \<in> set (store_KeepMaster claim_env (\<lambda>_. False) (\<lambda>_. 0) (claim_member k) 100) \<longrightarrow>
       int k = 1 mod int 3 \<and> (\<forall>j < 3. Execute claim_env True (claim_member j) 1 9 v = Some (True, RET_OK,
          if j = k then claim_member j else (claim_member j)\<lparr>dropped_masters := dropped_masters (claim_member j) @ [1]\<rparr>))"
    using inst[where c = 9, THEN conjunct1, OF _ addrs(2,1)] claim_member_config addrs(3) codec n by simp
  moreover have y: "Propose 1 ''y'' \<in> set (store_KeepMaster claim_env (\<lambda>_. False) (\<lambda>_. 0) (claim_member 1) 100)"
  proof -
    have "SerializeStorePaxosArgs claim_env (claim_args 0 (opt_addr (st_opt (claim_member 1)))) = ''y''"
      by (simp add: claim_env_def claim_args_def claim_member_def opt_addr_def sample_opt_def)
    moreover have k: "(1 :: nat) < 3" "1 < length (store_addrs (hd StoreConfig_ReadConfig))" using addrs(2) by simp_all
    note store_KeepMaster_calls(1)[OF claim_member_config(1-3)[OF k(1)] addrs(1) k(2) claim_member_config(4)[OF k(1)],
        of 1 "''y''" "\<lambda>_. False" "\<lambda>_. 0" 100]
    ultimately show ?thesis using addrs(2) n[of 1] r m(1) by (simp only:) simp
  qed
  ultimately have "Execute claim_env True (claim_member 2) 1 9 ''y'' = Some (True, RET_OK, (claim_member 2)\<lparr>dropped_masters := [1]\<rparr>)"
    using m(2) by (elim allE[of _ 1] allE[of _ "''y''"]) simp
  with y show ?thesis using inst[THEN conjunct2, OF _ addrs(2,1)] claim_member_config addrs(3) codec n r m by simp
qed

end
