(* ===== verification/ConfigFile.thy ===== *)
theory ConfigFile
  imports ServiceConfig
begin

section \<open>Configuration files and their reloading (config/baseconfig.h; phxqueue_phxrpc: comm/fileloader, comm/fileconfig, config/baseconfig.h, plugin/configfactory)\<close>

text \<open>
  A configuration object is read from a JSON file and read again when the file changes. Each thread has
  objects of its own (\<open>GlobalConfig::GetThreadInstance\<close>), so an operation is atomic here. The class template
  \<open>BaseConfig\<close> has the configuration class as a parameter: this is the record \<open>ConfigType\<close>, with one value per class. The clock, what
  \<open>stat\<close> and \<open>fread\<close> find, and protobuf's JSON parser are arguments. \<^const>\<open>None\<close> is a failed assertion.
\<close>

subsection \<open>FileLoader\<close>

record FileStat =
  fstat_ino :: u64
  fstat_mtime :: u64

record FileLoader =
  ldr_file :: string
  ldr_check_interval_s :: int
  ldr_refresh_delay_s :: int
  ldr_last_check_time :: u64
  ldr_last_mod_time :: u64
  ldr_ino :: u64

text \<open>The constructor leaves the inode uninitialised: it is an argument.\<close>

definition FileLoader_new :: "u64 \<Rightarrow> FileLoader" where
  "FileLoader_new inode = \<lparr>ldr_file = [], ldr_check_interval_s = 60, ldr_refresh_delay_s = 60,
     ldr_last_check_time = 0, ldr_last_mod_time = 0, ldr_ino = inode\<rparr>"

definition SetCheckInterval :: "int \<Rightarrow> FileLoader \<Rightarrow> FileLoader" where
  "SetCheckInterval check_interval_s l = l\<lparr>ldr_check_interval_s := check_interval_s\<rparr>"

definition SetRefreshDelay :: "int \<Rightarrow> FileLoader \<Rightarrow> FileLoader" where
  "SetRefreshDelay refresh_delay_s l = l\<lparr>ldr_refresh_delay_s := refresh_delay_s\<rparr>"

definition SetFileIfUnset :: "string \<Rightarrow> FileLoader \<Rightarrow> bool \<times> FileLoader" where
  "SetFileIfUnset file l = (if ldr_file l = [] then (True, l\<lparr>ldr_file := file\<rparr>) else (False, l))"

definition ResetTimeByInode :: "u64 \<Rightarrow> FileLoader \<Rightarrow> FileLoader" where
  "ResetTimeByInode inode l = (if ldr_ino l \<noteq> inode then l\<lparr>ldr_ino := inode, ldr_last_mod_time := 0\<rparr> else l)"

text \<open>\<open>int d = std::abs(int64_t(a - b))\<close>: the difference of two times, cut to an \<open>int\<close>.\<close>

definition abs_seconds :: "u64 \<Rightarrow> u64 \<Rightarrow> int" where
  "abs_seconds a b = sint (word_of_int \<bar>sint (a - b)\<bar> :: 32 word)"

text \<open>
  The result is the return value, \<open>is_modified\<close> and the new state; \<open>is_modified\<close> is false before the
  call, as in its callers. The second test of the clock, for other threads, repeats the first.
\<close>

definition LoadIfModified ::
  "u64 \<Rightarrow> FileStat option \<Rightarrow> (string \<Rightarrow> bool \<Rightarrow> 'c \<Rightarrow> (bool \<times> 'c) option) \<Rightarrow> FileLoader \<Rightarrow> 'c
   \<Rightarrow> (bool \<times> bool \<times> FileLoader \<times> 'c) option" where
  "LoadIfModified now_time file_stat LoadFile l c =
     (if ldr_file l = [] then Some (False, False, l, c)
      else
        let l = (if now_time + 30 < ldr_last_check_time l then l\<lparr>ldr_last_check_time := now_time\<rparr> else l);
            l = (if now_time + 30 < ldr_last_mod_time l then l\<lparr>ldr_last_mod_time := 0\<rparr> else l)
        in
        if \<not> ldr_last_check_time l + word_of_int (ldr_check_interval_s l) < now_time then Some (True, False, l, c)
        else case file_stat of
          None \<Rightarrow> Some (False, False, l\<lparr>ldr_last_check_time := now_time\<rparr>, c)
        | Some st \<Rightarrow>
            let l = ResetTimeByInode (fstat_ino st) l;
                delay = abs_seconds now_time (fstat_mtime st);
                interval = abs_seconds (fstat_mtime st) (ldr_last_mod_time l)
            in
            if ldr_last_mod_time l = 0 \<or> 0 < interval \<and> ldr_refresh_delay_s l < delay then do {
              (load_ok, c) \<leftarrow> LoadFile (ldr_file l) (0 < ldr_last_mod_time l) c;
              let l = (if load_ok then l\<lparr>ldr_last_check_time := now_time, ldr_last_mod_time := fstat_mtime st\<rparr> else l);
              Some (True, True, l\<lparr>ldr_last_check_time := now_time\<rparr>, c) }
            else Some (True, False, l\<lparr>ldr_last_check_time := now_time\<rparr>, c))"

subsection \<open>FileConfig\<close>

datatype FileRead =
    Open_fails
  | Fstat_fails
  | Short_read
  | Read_all string

record FileConfig =
  fc_file :: string
  fc_read :: bool
  fc_content :: string

definition FileConfig_new :: "string \<Rightarrow> FileConfig" where
  "FileConfig_new file = \<lparr>fc_file = file, fc_read = False, fc_content = []\<rparr>"

definition SetFile :: "string \<Rightarrow> FileConfig \<Rightarrow> FileConfig" where
  "SetFile file c = c\<lparr>fc_file := file, fc_read := False\<rparr>"

definition FileConfig_Read :: "(string \<Rightarrow> FileRead) \<Rightarrow> FileConfig \<Rightarrow> bool \<times> FileConfig" where
  "FileConfig_Read fread c =
     (if fc_read c then (True, c)
      else if fc_file c = [] then (False, c)
      else case fread (fc_file c) of
        Read_all content \<Rightarrow> (True, c\<lparr>fc_content := content, fc_read := True\<rparr>)
      | _ \<Rightarrow> (False, c))"

definition GetContent :: "FileConfig \<Rightarrow> string option" where
  "GetContent c = (if \<not> fc_read c then None else Some (fc_content c))"

subsection \<open>BaseConfig\<close>

record ('p, 'c) ConfigType =
  ct_proto :: "'c \<Rightarrow> 'p"
  ct_fill :: "'p \<Rightarrow> 'c \<Rightarrow> 'c"
  ct_rebuild :: "bool \<Rightarrow> 'c \<Rightarrow> (RetCode \<times> 'c) option"
  ct_stamp :: "u64 \<Rightarrow> 'c \<Rightarrow> 'c"

record 'c BaseConfig =
  bc_build :: bool
  bc_last_clear_build_time :: u64
  bc_need_check :: bool
  bc_config :: 'c

definition BaseConfig_new :: "'c \<Rightarrow> 'c BaseConfig" where
  "BaseConfig_new c = \<lparr>bc_build = False, bc_last_clear_build_time = 0, bc_need_check = False, bc_config = c\<rparr>"

definition FillConfig :: "('p, 'c) ConfigType \<Rightarrow> 'p \<Rightarrow> 'c BaseConfig \<Rightarrow> 'c BaseConfig" where
  "FillConfig ct proto b = b\<lparr>bc_config := ct_fill ct proto (bc_config b)\<rparr>"

definition UpdateModTime :: "('p, 'c) ConfigType \<Rightarrow> u64 \<Rightarrow> 'c BaseConfig \<Rightarrow> 'c BaseConfig" where
  "UpdateModTime ct now_ms b = b\<lparr>bc_config := ct_stamp ct now_ms (bc_config b)\<rparr>"

definition SetNeedCheck :: "bool \<Rightarrow> 'c BaseConfig \<Rightarrow> 'c BaseConfig" where
  "SetNeedCheck need_check b = b\<lparr>bc_need_check := need_check\<rparr>"

definition BaseConfig_IsModified :: "'c BaseConfig \<Rightarrow> bool \<times> 'c BaseConfig" where
  "BaseConfig_IsModified b = (if \<not> bc_build b then (True, b\<lparr>bc_build := True\<rparr>) else (False, b))"

definition NeedRebuild :: "u64 \<Rightarrow> 'c BaseConfig \<Rightarrow> 'c BaseConfig" where
  "NeedRebuild now_time b =
     (if bc_last_clear_build_time b + 10000 < now_time
      then b\<lparr>bc_last_clear_build_time := now_time, bc_build := False\<rparr> else b)"

text \<open>What one call of \<open>Load\<close> finds outside: the clock, in seconds and milliseconds, and the file.\<close>

record Poll =
  poll_now :: u64
  poll_now_ms :: u64
  poll_stat :: "string \<Rightarrow> FileStat option"
  poll_read :: "string \<Rightarrow> FileRead"

text \<open>
  The methods of \<open>phxqueue_phxrpc::config::BaseConfig\<close>, which is a \<open>FileLoader\<close> and a configuration; its
  \<open>ReadConfig\<close> does nothing. \<open>parse\<close> is \<open>JsonStringToMessage\<close>, whose flag is \<open>ignore_unknown_fields\<close>.
\<close>

definition Config_LoadFile ::
  "('p, 'c) ConfigType \<Rightarrow> (bool \<Rightarrow> string \<Rightarrow> 'p option) \<Rightarrow> (string \<Rightarrow> FileRead) \<Rightarrow> string \<Rightarrow> bool \<Rightarrow> 'c BaseConfig
   \<Rightarrow> (bool \<times> 'c BaseConfig) option" where
  "Config_LoadFile ct parse fread file is_reload b =
     (let need_check = bc_need_check b; (ok, config) = FileConfig_Read fread (FileConfig_new file) in
      if \<not> ok then Some (False, b)
      else case GetContent config of
        None \<Rightarrow> Some (False, b)
      | Some content \<Rightarrow>
          (case parse (\<not> need_check) content of
             None \<Rightarrow> if need_check then None else Some (False, b)
           | Some proto \<Rightarrow> Some (True, FillConfig ct proto b)))"

definition Config_IsModified ::
  "('p, 'c) ConfigType \<Rightarrow> (bool \<Rightarrow> string \<Rightarrow> 'p option) \<Rightarrow> Poll \<Rightarrow> FileLoader \<times> 'c BaseConfig
   \<Rightarrow> (bool \<times> FileLoader \<times> 'c BaseConfig) option" where
  "Config_IsModified ct parse p = (\<lambda>(l, b). do {
     (_, modified, l, b) \<leftarrow> LoadIfModified (poll_now p) (poll_stat p (ldr_file l)) (Config_LoadFile ct parse (poll_read p)) l b;
     let (base_modified, b) = BaseConfig_IsModified b;
     Some (modified \<or> base_modified, l, b) })"

definition Config_Load ::
  "('p, 'c) ConfigType \<Rightarrow> (bool \<Rightarrow> string \<Rightarrow> 'p option) \<Rightarrow> Poll \<Rightarrow> FileLoader \<times> 'c BaseConfig
   \<Rightarrow> (RetCode \<times> FileLoader \<times> 'c BaseConfig) option" where
  "Config_Load ct parse p lb = do {
     (modified, l, b) \<leftarrow> Config_IsModified ct parse p lb;
     if \<not> modified then Some (RET_OK, l, b)
     else do {
       (ret, c) \<leftarrow> ct_rebuild ct (bc_need_check b) (bc_config b);
       let b = b\<lparr>bc_config := c\<rparr>;
       if ret \<noteq> RET_OK then Some (ret, l, b)
       else Some (RET_OK, l, UpdateModTime ct (poll_now_ms p) b) } }"

text \<open>\<open>ConfigFactory::NewTopicConfig\<close> and its likes, which \<open>GlobalConfig::Rebuild\<close> calls before the first \<open>Load\<close>.\<close>

definition New_config ::
  "('p, 'c) ConfigType \<Rightarrow> (bool \<Rightarrow> string \<Rightarrow> 'p option) \<Rightarrow> bool \<Rightarrow> Poll \<Rightarrow> u64 \<Rightarrow> 'c \<Rightarrow> string
   \<Rightarrow> (FileLoader \<times> 'c BaseConfig) option" where
  "New_config ct parse need_check p inode c path = do {
     let b = SetNeedCheck need_check (BaseConfig_new c);
     let (_, l) = SetFileIfUnset path (FileLoader_new inode);
     (_, _, l, b) \<leftarrow> LoadIfModified (poll_now p) (poll_stat p (ldr_file l)) (Config_LoadFile ct parse (poll_read p)) l b;
     Some (l, b) }"


subsection \<open>The configuration classes\<close>

definition topic_config :: "(TopicConfigProto, TopicConfig) ConfigType" where
  "topic_config = \<lparr>ct_proto = tc_proto, ct_fill = (\<lambda>p c. c\<lparr>tc_proto := p\<rparr>),
     ct_rebuild = (\<lambda>need_check c. map_option (Pair RET_OK) (TopicConfig_Rebuild need_check c)),
     ct_stamp = (\<lambda>t c. c\<lparr>tc_last_mod_time := t\<rparr>)\<rparr>"

definition store_config :: "(string \<Rightarrow> u32) \<Rightarrow> (StoreProto list, StoreConfig) ConfigType" where
  "store_config inet_addr = \<lparr>ct_proto = sc_stores, ct_fill = (\<lambda>p c. c\<lparr>sc_stores := p\<rparr>),
     ct_rebuild = (\<lambda>need_check c. map_option (Pair RET_OK) (StoreConfig_Rebuild inet_addr need_check c)),
     ct_stamp = (\<lambda>t c. c\<lparr>sc_last_mod_time := t\<rparr>)\<rparr>"

definition lock_config :: "(string \<Rightarrow> u32) \<Rightarrow> (LockProto list, LockConfig) ConfigType" where
  "lock_config inet_addr = \<lparr>ct_proto = lc_locks, ct_fill = (\<lambda>p c. c\<lparr>lc_locks := p\<rparr>),
     ct_rebuild = (\<lambda>need_check c. map_option (Pair RET_OK) (LockConfig_Rebuild inet_addr need_check c)),
     ct_stamp = (\<lambda>t c. c\<lparr>lc_last_mod_time := t\<rparr>)\<rparr>"

definition consumer_config :: "(string \<Rightarrow> u32) \<Rightarrow> (ConsumerProto list, ConsumerConfig) ConfigType" where
  "consumer_config inet_addr = \<lparr>ct_proto = cc_consumers, ct_fill = (\<lambda>p c. c\<lparr>cc_consumers := p\<rparr>),
     ct_rebuild = (\<lambda>need_check c. map_option (Pair RET_OK) (ConsumerConfig_Rebuild inet_addr need_check c)),
     ct_stamp = (\<lambda>t c. c\<lparr>cc_last_mod_time := t\<rparr>)\<rparr>"

definition scheduler_config :: "(Addr list, SchedulerConfig) ConfigType" where
  "scheduler_config = \<lparr>ct_proto = sched_addrs, ct_fill = (\<lambda>p c. c\<lparr>sched_addrs := p\<rparr>),
     ct_rebuild = (\<lambda>need_check c. Some (RET_OK, SchedulerConfig_Rebuild c)),
     ct_stamp = (\<lambda>t c. c\<lparr>sched_last_mod_time := t\<rparr>)\<rparr>"

text \<open>
  What the reloading needs of a configuration class: \<open>Rebuild\<close> leaves the message alone, depends on it only (the
  tables start afresh, so doing it twice changes nothing), and does not look at the time of the reload.
\<close>

locale config_class =
  fixes ct :: "('p, 'c) ConfigType"
  assumes rebuild_proto: "ct_rebuild ct nc c = Some (ret, c') \<Longrightarrow> ret = RET_OK \<and> ct_proto ct c' = ct_proto ct c"
    and rebuild_again: "ct_rebuild ct nc c = Some (ret, c') \<Longrightarrow> ct_rebuild ct nc c' = Some (ret, c')"
    and rebuild_same: "ct_proto ct c = ct_proto ct d \<Longrightarrow> ct_rebuild ct nc c = None \<Longrightarrow> ct_rebuild ct nc d = None"
    and rebuild_stamp: "ct_rebuild ct nc (ct_stamp ct t c) = map_option (map_prod id (ct_stamp ct t)) (ct_rebuild ct nc c)"
    and fill_proto: "ct_proto ct (ct_fill ct p c) = p"
    and stamp_proto: "ct_proto ct (ct_stamp ct t c) = ct_proto ct c"

text \<open>The tables fit the message: they are what \<open>Rebuild\<close> makes of it.\<close>

definition tables_fit :: "('p, 'c) ConfigType \<Rightarrow> bool \<Rightarrow> 'c \<Rightarrow> bool" where
  "tables_fit ct need_check c \<longleftrightarrow> ct_rebuild ct need_check c = Some (RET_OK, c)"

lemma foldM_keeps:
  assumes "foldM f xs s = Some t" and "\<And>x s s'. f x s = Some s' \<Longrightarrow> h s' = h s"
  shows "h t = h s"
  using foldM_invariant[of xs "\<lambda>u. h u = h s" f s t] assms by auto

lemma foldM_commutes:
  assumes "\<And>x s. f x (h s) = map_option h (f x s)"
  shows "foldM f xs (h s) = map_option h (foldM f xs s)"
proof (induction xs arbitrary: s)
  case (Cons x xs)
  then show ?case by (cases "f x s") (simp_all add: assms)
qed simp

text \<open>
  All classes rebuild in one way: they clear the tables (\<open>blank\<close>) and fill them by loops whose steps write
  tables only and do not read the time stamp.
\<close>

lemma config_class_intro:
  assumes of_blank: "\<And>nc c. R nc (blank c) = R nc c"
    and blank: "\<And>nc c c'. R nc c = Some c' \<Longrightarrow> blank c' = blank c"
    and stamp: "\<And>nc t c. R nc (stamp t c) = map_option (stamp t) (R nc c)"
    and proto: "\<And>c. proto (blank c) = proto c" "\<And>t c. proto (stamp t c) = proto c" "\<And>p c. proto (fill p c) = p"
    and same: "\<And>c d. proto c = proto d \<Longrightarrow> \<exists>t. blank c = stamp t (blank d)"
  shows "config_class \<lparr>ct_proto = proto, ct_fill = fill, ct_rebuild = (\<lambda>nc c. map_option (Pair RET_OK) (R nc c)), ct_stamp = stamp\<rparr>"
proof (unfold_locales, unfold ConfigType.simps)
  fix nc c d ret c'
  show "ret = RET_OK \<and> proto c' = proto c" if "map_option (Pair RET_OK) (R nc c) = Some (ret, c')"
    using that blank[of nc c c'] proto(1)[of c] proto(1)[of c'] by auto
  show "map_option (Pair RET_OK) (R nc c') = Some (ret, c')" if "map_option (Pair RET_OK) (R nc c) = Some (ret, c')"
    using that blank[of nc c c'] of_blank[of nc c] of_blank[of nc c'] by auto
  show "map_option (Pair RET_OK) (R nc d) = None" if pr: "proto c = proto d" "map_option (Pair RET_OK) (R nc c) = None"
  proof -
    obtain t where "blank c = stamp t (blank d)" using same[OF pr(1)] by blast
    then show ?thesis using pr(2) of_blank[of nc c] of_blank[of nc d] stamp[of nc t "blank d"] by simp
  qed
qed (simp_all add: stamp proto option.map_comp comp_def)

text \<open>The fields that the steps of \<open>Rebuild\<close> write, cleared.\<close>

definition topic_blank :: "TopicConfig \<Rightarrow> TopicConfig" where
  "topic_blank c = c\<lparr>pub_id2pub := [], consumer_group_id2consumer_group := [],
     queue_info_id2queue_info := [], queue_info_id2ranges := [],
     queue2queue_info_id := [], pub_id2consumer_group_ids := [],
     pub_id2queue_info_ids := [], handle_id2rank := [], freq_infos := [], replay_infos := []\<rparr>"

lemma blank_steps:
  "Rebuild_pub nc pub c = Some c' \<Longrightarrow> topic_blank c' = topic_blank c"
  "Rebuild_consumer_group nc g c = Some c' \<Longrightarrow> topic_blank c' = topic_blank c"
  "Rebuild_queue_info nc qi c = Some c' \<Longrightarrow> topic_blank c' = topic_blank c"
  "Rebuild_handle_id nc ih c = Some c' \<Longrightarrow> topic_blank c' = topic_blank c"
  by (auto simp: Rebuild_pub_def Rebuild_consumer_group_def Rebuild_queue_info_def Rebuild_handle_id_def topic_blank_def Let_def
      Option.bind_eq_Some_conv split: if_splits prod.splits)

lemma TopicConfig_Rebuild_blank:
  assumes "TopicConfig_Rebuild nc c = Some c'"
  shows "topic_blank c' = topic_blank c"
proof -
  obtain c1 c2 c3 where run: "foldM (Rebuild_pub nc) (tp_pubs (tc_proto c)) (topic_blank c) = Some c1"
    "foldM (Rebuild_consumer_group nc) (tp_consumer_groups (tc_proto c)) c1 = Some c2"
    "foldM (Rebuild_queue_info nc) (tp_queue_infos (tc_proto c)) c2 = Some c3"
    "foldM (Rebuild_handle_id nc) (zip [0..int (length (handle_ids (tp_topic (tc_proto c)))) - 1] (handle_ids (tp_topic (tc_proto c))))
       (c3\<lparr>freq_infos := tp_freq_infos (tc_proto c), replay_infos := tp_replay_infos (tc_proto c)\<rparr>) = Some c'"
    using assms by (auto simp: TopicConfig_Rebuild_def topic_blank_def Let_def Option.bind_eq_Some_conv)
  have "topic_blank c1 = topic_blank (topic_blank c)" "topic_blank c2 = topic_blank c1" "topic_blank c3 = topic_blank c2"
    "topic_blank c' = topic_blank (c3\<lparr>freq_infos := tp_freq_infos (tc_proto c), replay_infos := tp_replay_infos (tc_proto c)\<rparr>)"
    by (rule foldM_keeps[OF run(1)] foldM_keeps[OF run(2)] foldM_keeps[OF run(3)] foldM_keeps[OF run(4)];
        erule blank_steps)+
  then show ?thesis by (simp add: topic_blank_def)
qed

lemma TopicConfig_Rebuild_of_blank: "TopicConfig_Rebuild nc (topic_blank c) = TopicConfig_Rebuild nc c"
  by (simp add: TopicConfig_Rebuild_def topic_blank_def Let_def)

lemma topic_steps_stamp:
  "Rebuild_pub nc pub (c\<lparr>tc_last_mod_time := t\<rparr>) = map_option (tc_last_mod_time_update (\<lambda>_. t)) (Rebuild_pub nc pub c)"
  "Rebuild_consumer_group nc g (c\<lparr>tc_last_mod_time := t\<rparr>) = map_option (tc_last_mod_time_update (\<lambda>_. t)) (Rebuild_consumer_group nc g c)"
  "Rebuild_queue_info nc qi (c\<lparr>tc_last_mod_time := t\<rparr>) = map_option (tc_last_mod_time_update (\<lambda>_. t)) (Rebuild_queue_info nc qi c)"
  "Rebuild_handle_id nc ih (c\<lparr>tc_last_mod_time := t\<rparr>) = map_option (tc_last_mod_time_update (\<lambda>_. t)) (Rebuild_handle_id nc ih c)"
  by (auto simp: Rebuild_pub_def Rebuild_consumer_group_def Rebuild_queue_info_def Rebuild_handle_id_def Let_def PHX_ASSERT_def
      split: prod.splits option.splits bind_splits)

lemma TopicConfig_Rebuild_stamp:
  "TopicConfig_Rebuild nc (c\<lparr>tc_last_mod_time := t\<rparr>) = map_option (tc_last_mod_time_update (\<lambda>_. t)) (TopicConfig_Rebuild nc c)"
proof -
  let ?h = "tc_last_mod_time_update (\<lambda>_. t)"
  note co = foldM_commutes[of "Rebuild_pub nc" ?h, OF topic_steps_stamp(1)] foldM_commutes[of "Rebuild_consumer_group nc" ?h, OF topic_steps_stamp(2)]
    foldM_commutes[of "Rebuild_queue_info nc" ?h, OF topic_steps_stamp(3)] foldM_commutes[of "Rebuild_handle_id nc" ?h, OF topic_steps_stamp(4)]
  have a: "?h c\<lparr>pub_id2pub := [], consumer_group_id2consumer_group := [],
     queue_info_id2queue_info := [], queue_info_id2ranges := [],
     queue2queue_info_id := [], pub_id2consumer_group_ids := [],
     pub_id2queue_info_ids := [], handle_id2rank := [], freq_infos := [], replay_infos := []\<rparr> = ?h (topic_blank c)"
    "(?h d)\<lparr>freq_infos := fs, replay_infos := rs\<rparr> = ?h (d\<lparr>freq_infos := fs, replay_infos := rs\<rparr>)" for d fs rs
    by (simp_all add: topic_blank_def)
  show ?thesis
    unfolding TopicConfig_Rebuild_def Let_def a
    by (simp add: topic_blank_def[symmetric] a co map_option_bind option.map_comp o_def split: bind_splits)
qed

interpretation topic: config_class topic_config
  unfolding topic_config_def
proof (rule config_class_intro[where blank = topic_blank])
  fix c d :: TopicConfig
  show "\<exists>t. topic_blank c = (topic_blank d)\<lparr>tc_last_mod_time := t\<rparr>" if "tc_proto c = tc_proto d"
    using that by (cases c; cases d) (simp add: topic_blank_def)
qed (simp_all add: TopicConfig_Rebuild_of_blank TopicConfig_Rebuild_blank TopicConfig_Rebuild_stamp, simp add: topic_blank_def)

definition store_blank :: "StoreConfig \<Rightarrow> StoreConfig" where
  "store_blank c = c\<lparr>store_id2store := [], addr2store_id := []\<rparr>"

lemma store_swap:
  "c\<lparr>sc_last_mod_time := t, store_id2store := m\<rparr> = c\<lparr>store_id2store := m, sc_last_mod_time := t\<rparr>"
  "c\<lparr>sc_last_mod_time := t, addr2store_id := m'\<rparr> = c\<lparr>addr2store_id := m', sc_last_mod_time := t\<rparr>"
  by simp_all

lemma store_steps:
  "Rebuild_store_addr inet nc i a c = Some c' \<Longrightarrow> store_blank c' = store_blank c"
  "Rebuild_store inet nc s c = Some c' \<Longrightarrow> store_blank c' = store_blank c"
  "Rebuild_store_addr inet nc i a (c\<lparr>sc_last_mod_time := t\<rparr>) = map_option (sc_last_mod_time_update (\<lambda>_. t)) (Rebuild_store_addr inet nc i a c)"
  "Rebuild_store inet nc s (c\<lparr>sc_last_mod_time := t\<rparr>) = map_option (sc_last_mod_time_update (\<lambda>_. t)) (Rebuild_store inet nc s c)"
proof -
  have addr: "store_blank d' = store_blank d" if "Rebuild_store_addr inet nc i a d = Some d'" for i a d d'
    using that by (auto simp: Rebuild_store_addr_def store_blank_def Option.bind_eq_Some_conv)
  then show "Rebuild_store_addr inet nc i a c = Some c' \<Longrightarrow> store_blank c' = store_blank c" .
  show "store_blank c' = store_blank c" if "Rebuild_store inet nc s c = Some c'"
  proof (cases "store_ident s = 0")
    case False
    with that have "foldM (Rebuild_store_addr inet nc (store_ident s)) (store_addrs s)
        (c\<lparr>store_id2store := map_emplace (store_ident s) s (store_id2store c)\<rparr>) = Some c'"
      by (auto simp: Rebuild_store_def Option.bind_eq_Some_conv)
    from foldM_keeps[OF this, of store_blank, OF addr] show ?thesis by (simp add: store_blank_def)
  qed (use that in \<open>simp add: Rebuild_store_def\<close>)
  have st: "Rebuild_store_addr inet nc i a (d\<lparr>sc_last_mod_time := t\<rparr>) = map_option (sc_last_mod_time_update (\<lambda>_. t)) (Rebuild_store_addr inet nc i a d)" for i a d
    by (simp add: Rebuild_store_addr_def PHX_ASSERT_def)
  then show "Rebuild_store_addr inet nc i a (c\<lparr>sc_last_mod_time := t\<rparr>) = map_option (sc_last_mod_time_update (\<lambda>_. t)) (Rebuild_store_addr inet nc i a c)" .
  show "Rebuild_store inet nc s (c\<lparr>sc_last_mod_time := t\<rparr>) = map_option (sc_last_mod_time_update (\<lambda>_. t)) (Rebuild_store inet nc s c)"
    using foldM_commutes[of "Rebuild_store_addr inet nc (store_ident s)" "sc_last_mod_time_update (\<lambda>_. t)" "store_addrs s"
        "c\<lparr>store_id2store := map_emplace (store_ident s) s (store_id2store c)\<rparr>", OF st]
    by (simp add: Rebuild_store_def PHX_ASSERT_def store_swap)
qed

lemma StoreConfig_Rebuild_blank: "StoreConfig_Rebuild inet nc (store_blank c) = StoreConfig_Rebuild inet nc c"
  by (simp add: StoreConfig_Rebuild_def store_blank_def)

interpretation store: config_class "store_config inet_addr" for inet_addr
  unfolding store_config_def
proof (rule config_class_intro[where blank = store_blank])
  fix nc t and c c' d :: StoreConfig
  show "store_blank c' = store_blank c" if "StoreConfig_Rebuild inet_addr nc c = Some c'"
    using foldM_keeps[OF that[unfolded StoreConfig_Rebuild_def], of store_blank, OF store_steps(2)] by (simp add: store_blank_def)
  show "StoreConfig_Rebuild inet_addr nc (c\<lparr>sc_last_mod_time := t\<rparr>) = map_option (sc_last_mod_time_update (\<lambda>_. t)) (StoreConfig_Rebuild inet_addr nc c)"
    using foldM_commutes[of "Rebuild_store inet_addr nc" "sc_last_mod_time_update (\<lambda>_. t)" "sc_stores c" "store_blank c", OF store_steps(4)]
    by (simp add: StoreConfig_Rebuild_def store_blank_def store_swap)
  show "\<exists>t. store_blank c = (store_blank d)\<lparr>sc_last_mod_time := t\<rparr>" if "sc_stores c = sc_stores d"
    using that by (cases c; cases d) (simp add: store_blank_def)
qed (simp_all add: StoreConfig_Rebuild_blank, simp add: store_blank_def)

definition lock_blank :: "LockConfig \<Rightarrow> LockConfig" where
  "lock_blank c = c\<lparr>lock_id2lock := [], addr2lock_id := []\<rparr>"

lemma lock_swap:
  "c\<lparr>lc_last_mod_time := t, lock_id2lock := m\<rparr> = c\<lparr>lock_id2lock := m, lc_last_mod_time := t\<rparr>"
  "c\<lparr>lc_last_mod_time := t, addr2lock_id := m'\<rparr> = c\<lparr>addr2lock_id := m', lc_last_mod_time := t\<rparr>"
  by simp_all

lemma lock_steps:
  "Rebuild_lock_addr inet nc i a c = Some c' \<Longrightarrow> lock_blank c' = lock_blank c"
  "Rebuild_lock inet nc s c = Some c' \<Longrightarrow> lock_blank c' = lock_blank c"
  "Rebuild_lock_addr inet nc i a (c\<lparr>lc_last_mod_time := t\<rparr>) = map_option (lc_last_mod_time_update (\<lambda>_. t)) (Rebuild_lock_addr inet nc i a c)"
  "Rebuild_lock inet nc s (c\<lparr>lc_last_mod_time := t\<rparr>) = map_option (lc_last_mod_time_update (\<lambda>_. t)) (Rebuild_lock inet nc s c)"
proof -
  have addr: "lock_blank d' = lock_blank d" if "Rebuild_lock_addr inet nc i a d = Some d'" for i a d d'
    using that by (auto simp: Rebuild_lock_addr_def lock_blank_def Option.bind_eq_Some_conv)
  then show "Rebuild_lock_addr inet nc i a c = Some c' \<Longrightarrow> lock_blank c' = lock_blank c" .
  show "lock_blank c' = lock_blank c" if "Rebuild_lock inet nc s c = Some c'"
  proof (cases "lock_ident s = 0")
    case False
    with that have "foldM (Rebuild_lock_addr inet nc (lock_ident s)) (lock_addrs s)
        (c\<lparr>lock_id2lock := map_emplace (lock_ident s) s (lock_id2lock c)\<rparr>) = Some c'"
      by (auto simp: Rebuild_lock_def Option.bind_eq_Some_conv)
    from foldM_keeps[OF this, of lock_blank, OF addr] show ?thesis by (simp add: lock_blank_def)
  qed (use that in \<open>simp add: Rebuild_lock_def\<close>)
  have st: "Rebuild_lock_addr inet nc i a (d\<lparr>lc_last_mod_time := t\<rparr>) = map_option (lc_last_mod_time_update (\<lambda>_. t)) (Rebuild_lock_addr inet nc i a d)" for i a d
    by (simp add: Rebuild_lock_addr_def PHX_ASSERT_def)
  then show "Rebuild_lock_addr inet nc i a (c\<lparr>lc_last_mod_time := t\<rparr>) = map_option (lc_last_mod_time_update (\<lambda>_. t)) (Rebuild_lock_addr inet nc i a c)" .
  show "Rebuild_lock inet nc s (c\<lparr>lc_last_mod_time := t\<rparr>) = map_option (lc_last_mod_time_update (\<lambda>_. t)) (Rebuild_lock inet nc s c)"
    using foldM_commutes[of "Rebuild_lock_addr inet nc (lock_ident s)" "lc_last_mod_time_update (\<lambda>_. t)" "lock_addrs s"
        "c\<lparr>lock_id2lock := map_emplace (lock_ident s) s (lock_id2lock c)\<rparr>", OF st]
    by (simp add: Rebuild_lock_def PHX_ASSERT_def lock_swap)
qed

lemma LockConfig_Rebuild_blank: "LockConfig_Rebuild inet nc (lock_blank c) = LockConfig_Rebuild inet nc c"
  by (simp add: LockConfig_Rebuild_def lock_blank_def)

interpretation lock: config_class "lock_config inet_addr" for inet_addr
  unfolding lock_config_def
proof (rule config_class_intro[where blank = lock_blank])
  fix nc t and c c' d :: LockConfig
  show "lock_blank c' = lock_blank c" if "LockConfig_Rebuild inet_addr nc c = Some c'"
    using foldM_keeps[OF that[unfolded LockConfig_Rebuild_def], of lock_blank, OF lock_steps(2)] by (simp add: lock_blank_def)
  show "LockConfig_Rebuild inet_addr nc (c\<lparr>lc_last_mod_time := t\<rparr>) = map_option (lc_last_mod_time_update (\<lambda>_. t)) (LockConfig_Rebuild inet_addr nc c)"
    using foldM_commutes[of "Rebuild_lock inet_addr nc" "lc_last_mod_time_update (\<lambda>_. t)" "lc_locks c" "lock_blank c", OF lock_steps(4)]
    by (simp add: LockConfig_Rebuild_def lock_blank_def lock_swap)
  show "\<exists>t. lock_blank c = (lock_blank d)\<lparr>lc_last_mod_time := t\<rparr>" if "lc_locks c = lc_locks d"
    using that by (cases c; cases d) (simp add: lock_blank_def)
qed (simp_all add: LockConfig_Rebuild_blank, simp add: lock_blank_def)

lemma consumer_swap: "c\<lparr>cc_last_mod_time := t, addr2consumer := m\<rparr> = c\<lparr>addr2consumer := m, cc_last_mod_time := t\<rparr>"
  by simp

lemma consumer_steps:
  "Rebuild_consumer inet nc s c = Some c' \<Longrightarrow> c'\<lparr>addr2consumer := []\<rparr> = c\<lparr>addr2consumer := []\<rparr>"
  "Rebuild_consumer inet nc s (c\<lparr>cc_last_mod_time := t\<rparr>) = map_option (cc_last_mod_time_update (\<lambda>_. t)) (Rebuild_consumer inet nc s c)"
  by (auto simp: Rebuild_consumer_def Let_def PHX_ASSERT_def Option.bind_eq_Some_conv)

interpretation consumer: config_class "consumer_config inet_addr" for inet_addr
  unfolding consumer_config_def
proof (rule config_class_intro[where blank = "\<lambda>c. c\<lparr>addr2consumer := []\<rparr>"])
  fix nc t and c c' d :: ConsumerConfig
  let ?h = "\<lambda>c :: ConsumerConfig. c\<lparr>addr2consumer := []\<rparr>"
  show "?h c' = ?h c" if "ConsumerConfig_Rebuild inet_addr nc c = Some c'"
    using foldM_keeps[OF that[unfolded ConsumerConfig_Rebuild_def], of ?h, OF consumer_steps(1)] by simp
  show "ConsumerConfig_Rebuild inet_addr nc (c\<lparr>cc_last_mod_time := t\<rparr>)
      = map_option (cc_last_mod_time_update (\<lambda>_. t)) (ConsumerConfig_Rebuild inet_addr nc c)"
    using foldM_commutes[of "Rebuild_consumer inet_addr nc" "cc_last_mod_time_update (\<lambda>_. t)" "cc_consumers c" "?h c", OF consumer_steps(2)]
    by (simp add: ConsumerConfig_Rebuild_def consumer_swap)
  show "\<exists>t. ?h c = (?h d)\<lparr>cc_last_mod_time := t\<rparr>" if "cc_consumers c = cc_consumers d"
    using that by (cases c; cases d) simp
qed (simp_all add: ConsumerConfig_Rebuild_def)

interpretation scheduler: config_class scheduler_config
  by unfold_locales (auto simp: scheduler_config_def SchedulerConfig_Rebuild_def)


subsection \<open>Runs\<close>

datatype ConfigOp =
    Op_Load Poll
  | Op_NeedRebuild u64

definition config_op ::
  "('p, 'c) ConfigType \<Rightarrow> (bool \<Rightarrow> string \<Rightarrow> 'p option) \<Rightarrow> ConfigOp \<Rightarrow> FileLoader \<times> 'c BaseConfig \<Rightarrow> (FileLoader \<times> 'c BaseConfig) option" where
  "config_op ct parse x lb =
     (case x of Op_Load p \<Rightarrow> map_option snd (Config_Load ct parse p lb) | Op_NeedRebuild t \<Rightarrow> Some (map_prod id (NeedRebuild t) lb))"

abbreviation config_run ::
  "('p, 'c) ConfigType \<Rightarrow> (bool \<Rightarrow> string \<Rightarrow> 'p option) \<Rightarrow> ConfigOp list \<Rightarrow> FileLoader \<times> 'c BaseConfig \<Rightarrow> (FileLoader \<times> 'c BaseConfig) option" where
  "config_run ct parse \<equiv> foldM (config_op ct parse)"

text \<open>The message of some content that was read from the file.\<close>

definition read_from :: "(bool \<Rightarrow> string \<Rightarrow> 'p option) \<Rightarrow> bool \<Rightarrow> string \<Rightarrow> Poll \<Rightarrow> 'p \<Rightarrow> bool" where
  "read_from parse need_check file p proto \<longleftrightarrow>
     (\<exists>content. poll_read p file = Read_all content \<and> parse (\<not> need_check) content = Some proto)"

lemma ResetTimeByInode_simps [simp]:
  "ldr_file (ResetTimeByInode i l) = ldr_file l"
  "ldr_check_interval_s (ResetTimeByInode i l) = ldr_check_interval_s l"
  "ldr_refresh_delay_s (ResetTimeByInode i l) = ldr_refresh_delay_s l"
  "ldr_last_check_time (ResetTimeByInode i l) = ldr_last_check_time l"
  "ldr_ino (ResetTimeByInode i l) = i"
  by (simp_all add: ResetTimeByInode_def)

lemma LoadIfModified_cases:
  assumes "LoadIfModified now st LF l c = Some (r, m, l', c')"
  shows "ldr_file l' = ldr_file l \<and> ldr_check_interval_s l' = ldr_check_interval_s l \<and> ldr_refresh_delay_s l' = ldr_refresh_delay_s l"
    and "\<not> m \<and> c' = c \<or> m \<and> ldr_file l \<noteq> [] \<and> (\<exists>reload load_ok. LF (ldr_file l) reload c = Some (load_ok, c'))"
  using assms by (auto simp: LoadIfModified_def Let_def Option.bind_eq_Some_conv split: if_splits option.splits)

lemma LoadIfModified_total:
  assumes "\<And>reload. LF (ldr_file l) reload c = Some (load_ok, c')"
  shows "\<exists>r m l1 c1. LoadIfModified now st LF l c = Some (r, m, l1, c1)"
proof -
  define la where "la = (if now + 30 < ldr_last_check_time l then l\<lparr>ldr_last_check_time := now\<rparr> else l)"
  define lb where "lb = (if now + 30 < ldr_last_mod_time la then la\<lparr>ldr_last_mod_time := 0\<rparr> else la)"
  have "ldr_file lb = ldr_file l" by (simp add: la_def lb_def)
  then show ?thesis
    by (cases st) (auto simp: LoadIfModified_def assms Let_def simp flip: la_def lb_def)
qed

lemma Config_LoadFile_cases:
  assumes "Config_LoadFile ct parse fread file reload b = Some (load_ok, b')" and "file \<noteq> []"
  shows "\<not> load_ok \<and> b' = b
       \<or> load_ok \<and> (\<exists>content proto. fread file = Read_all content \<and> parse (\<not> bc_need_check b) content = Some proto \<and> b' = FillConfig ct proto b)"
  using assms
  by (auto simp: Config_LoadFile_def FileConfig_Read_def FileConfig_new_def GetContent_def Let_def split: FileRead.splits option.splits if_splits)

lemma file_change:
  assumes "LoadIfModified now st (Config_LoadFile ct parse (poll_read p)) l b = Some (r, m, l', b')"
  shows "b' = b \<or> m \<and> (\<exists>proto. read_from parse (bc_need_check b) (ldr_file l) p proto \<and> b' = FillConfig ct proto b)"
proof -
  consider "b' = b" | reload load_ok where "m" "ldr_file l \<noteq> []" "Config_LoadFile ct parse (poll_read p) (ldr_file l) reload b = Some (load_ok, b')"
    using LoadIfModified_cases(2)[OF assms] by blast
  then show ?thesis
  proof cases
    case 2
    then show ?thesis using Config_LoadFile_cases[OF 2(3,2)] unfolding read_from_def by blast
  qed simp
qed

lemma bc_simps [simp]:
  "bc_build (FillConfig ct p b) = bc_build b" "bc_need_check (FillConfig ct p b) = bc_need_check b"
  "bc_build (UpdateModTime ct t b) = bc_build b" "bc_need_check (UpdateModTime ct t b) = bc_need_check b"
  "bc_config (FillConfig ct p b) = ct_fill ct p (bc_config b)" "bc_config (UpdateModTime ct t b) = ct_stamp ct t (bc_config b)"
  "bc_config (NeedRebuild t b) = bc_config b" "bc_need_check (NeedRebuild t b) = bc_need_check b"
  by (simp_all add: FillConfig_def UpdateModTime_def NeedRebuild_def)

lemma NeedRebuild_build: "bc_build (NeedRebuild t b) \<Longrightarrow> bc_build b"
  by (simp add: NeedRebuild_def split: if_splits)

context config_class
begin

text \<open>A \<open>Load\<close>: first the message may be read anew, then the tables are made to fit it.\<close>

lemma Load_cases:
  assumes "Config_Load ct parse p (l, b) = Some (ret, l', b')"
  shows "\<exists>r m b1. LoadIfModified (poll_now p) (poll_stat p (ldr_file l)) (Config_LoadFile ct parse (poll_read p)) l b = Some (r, m, l', b1)
     \<and> ret = RET_OK \<and> bc_build b' \<and> bc_need_check b' = bc_need_check b \<and> ct_proto ct (bc_config b') = ct_proto ct (bc_config b1)
     \<and> (tables_fit ct (bc_need_check b) (bc_config b') \<or> \<not> m \<and> bc_build b \<and> b1 = b \<and> b' = b)"
proof -
  obtain r m l1 b1 where lm: "LoadIfModified (poll_now p) (poll_stat p (ldr_file l)) (Config_LoadFile ct parse (poll_read p)) l b = Some (r, m, l1, b1)"
    using assms by (cases "LoadIfModified (poll_now p) (poll_stat p (ldr_file l)) (Config_LoadFile ct parse (poll_read p)) l b")
      (auto simp: Config_Load_def Config_IsModified_def)
  have ism: "BaseConfig_IsModified b1 = (\<not> bc_build b1, b1\<lparr>bc_build := True\<rparr>)" by (simp add: BaseConfig_IsModified_def)
  have b1: "bc_need_check b1 = bc_need_check b" "bc_build b1 = bc_build b" "\<not> m \<longrightarrow> b1 = b"
    using file_change[OF lm] by auto
  show ?thesis
  proof (cases "m \<or> \<not> bc_build b1")
    case False
    then have "ret = RET_OK" "l' = l1" "b' = b" "b1 = b"
      using assms lm ism b1 by (auto simp: Config_Load_def Config_IsModified_def)
    with False b1 lm show ?thesis by auto
  next
    case True
    then obtain rt c where c: "ct_rebuild ct (bc_need_check b1) (bc_config b1) = Some (rt, c)"
      using assms lm ism by (auto simp: Config_Load_def Config_IsModified_def Option.bind_eq_Some_conv)
    then have ok: "rt = RET_OK" "ct_proto ct c = ct_proto ct (bc_config b1)" "ct_rebuild ct (bc_need_check b1) c = Some (RET_OK, c)"
      using rebuild_proto[OF c] rebuild_again[OF c] by auto
    then have r: "ret = RET_OK" "l' = l1" "b' = UpdateModTime ct (poll_now_ms p) (b1\<lparr>bc_build := True, bc_config := c\<rparr>)"
      using assms lm ism c True by (auto simp: Config_Load_def Config_IsModified_def)
    have "tables_fit ct (bc_need_check b) (ct_stamp ct (poll_now_ms p) c)"
      using ok(3) b1 by (simp add: tables_fit_def rebuild_stamp)
    with r ok b1 lm show ?thesis by (auto simp: stamp_proto)
  qed
qed

lemma run_from_file:
  assumes run: "config_run ct parse ops (l, b) = Some (l', b')"
    and fit: "bc_build b \<Longrightarrow> tables_fit ct (bc_need_check b) (bc_config b)"
  shows "bc_need_check b' = bc_need_check b" "ldr_file l' = ldr_file l"
    and "ldr_check_interval_s l' = ldr_check_interval_s l \<and> ldr_refresh_delay_s l' = ldr_refresh_delay_s l"
    and "bc_build b' \<Longrightarrow> tables_fit ct (bc_need_check b) (bc_config b')"
    and "ct_proto ct (bc_config b') = ct_proto ct (bc_config b)
       \<or> (\<exists>p. Op_Load p \<in> set ops \<and> read_from parse (bc_need_check b) (ldr_file l) p (ct_proto ct (bc_config b')))"
proof -
  let ?from = "\<lambda>proto. proto = ct_proto ct (bc_config b) \<or> (\<exists>p. Op_Load p \<in> set ops \<and> read_from parse (bc_need_check b) (ldr_file l) p proto)"
  let ?I = "\<lambda>(m, c). bc_need_check c = bc_need_check b \<and> ldr_file m = ldr_file l
     \<and> ldr_check_interval_s m = ldr_check_interval_s l \<and> ldr_refresh_delay_s m = ldr_refresh_delay_s l
     \<and> (bc_build c \<longrightarrow> tables_fit ct (bc_need_check b) (bc_config c)) \<and> ?from (ct_proto ct (bc_config c))"
  have step: "?I s'" if x: "x \<in> set ops" and I: "?I s" and op: "config_op ct parse x s = Some s'" for x s s'
  proof -
    obtain m c m' c' where s: "s = (m, c)" "s' = (m', c')" by (cases s, cases s')
    show ?thesis
    proof (cases x)
      case (Op_NeedRebuild t)
      with I op s show ?thesis by (auto simp: config_op_def dest: NeedRebuild_build)
    next
      case (Op_Load p)
      with op s obtain ret where ld: "Config_Load ct parse p (m, c) = Some (ret, m', c')" by (auto simp: config_op_def)
      obtain r md b1 where lm: "LoadIfModified (poll_now p) (poll_stat p (ldr_file m)) (Config_LoadFile ct parse (poll_read p)) m c = Some (r, md, m', b1)"
        and c': "bc_need_check c' = bc_need_check c" "ct_proto ct (bc_config c') = ct_proto ct (bc_config b1)"
          "tables_fit ct (bc_need_check c) (bc_config c') \<or> bc_build c \<and> c' = c"
        using Load_cases[OF ld] by blast
      have "?from (ct_proto ct (bc_config b1))"
        using file_change[OF lm] I s x Op_Load by (auto simp: fill_proto)
      moreover note LoadIfModified_cases(1)[OF lm]
      ultimately show ?thesis using I s c' by auto
    qed
  qed
  have "?I (l', b')"
    by (rule foldM_invariant[where I = ?I and f = "config_op ct parse" and xs = ops and s = "(l, b)", OF step run]) (use fit in auto)
  then show "bc_need_check b' = bc_need_check b" "ldr_file l' = ldr_file l"
    "ldr_check_interval_s l' = ldr_check_interval_s l \<and> ldr_refresh_delay_s l' = ldr_refresh_delay_s l"
    "bc_build b' \<Longrightarrow> tables_fit ct (bc_need_check b) (bc_config b')"
    "ct_proto ct (bc_config b') = ct_proto ct (bc_config b)
       \<or> (\<exists>p. Op_Load p \<in> set ops \<and> read_from parse (bc_need_check b) (ldr_file l) p (ct_proto ct (bc_config b')))"
    by auto
qed

lemma New_config_from_file:
  assumes "New_config ct parse nc p0 inode c path = Some (l, b)"
  shows "bc_need_check b = nc" "\<not> bc_build b" "ldr_file l = path" "ldr_check_interval_s l = 60" "ldr_refresh_delay_s l = 60"
    and "ct_proto ct (bc_config b) = ct_proto ct c \<or> read_from parse nc path p0 (ct_proto ct (bc_config b))"
proof -
  let ?b = "SetNeedCheck nc (BaseConfig_new c)" and ?l = "snd (SetFileIfUnset path (FileLoader_new inode))"
  obtain r m where lm: "LoadIfModified (poll_now p0) (poll_stat p0 (ldr_file ?l)) (Config_LoadFile ct parse (poll_read p0)) ?l ?b = Some (r, m, l, b)"
    using assms by (auto simp: New_config_def Let_def Option.bind_eq_Some_conv split: prod.splits)
  have l: "ldr_file ?l = path" "ldr_check_interval_s ?l = 60" "ldr_refresh_delay_s ?l = 60"
    by (simp_all add: SetFileIfUnset_def FileLoader_new_def)
  have b: "bc_need_check ?b = nc" "\<not> bc_build ?b" "bc_config ?b = c" by (simp_all add: SetNeedCheck_def BaseConfig_new_def)
  show "bc_need_check b = nc" "\<not> bc_build b"
    "ct_proto ct (bc_config b) = ct_proto ct c \<or> read_from parse nc path p0 (ct_proto ct (bc_config b))"
    using file_change[OF lm] b l by (auto simp: fill_proto)
  show "ldr_file l = path" "ldr_check_interval_s l = 60" "ldr_refresh_delay_s l = 60"
    using LoadIfModified_cases(1)[OF lm] l by auto
qed

lemma tables_fit_after_Load:
  assumes "New_config ct parse nc p0 inode c path = Some lb" and "config_run ct parse (ops @ [Op_Load p]) lb = Some (l', b')"
  shows "tables_fit ct nc (bc_config b')"
    and "ct_proto ct (bc_config b') = ct_proto ct c
       \<or> (\<exists>q \<in> insert p0 {q. Op_Load q \<in> set (ops @ [Op_Load p])}. read_from parse nc path q (ct_proto ct (bc_config b')))"
proof -
  obtain l b where lb: "lb = (l, b)" by (cases lb)
  note new = New_config_from_file[OF assms(1)[unfolded lb]] and run = assms(2)[unfolded lb]
  have fit: "bc_build b \<Longrightarrow> tables_fit ct (bc_need_check b) (bc_config b)" using new(2) by simp
  obtain l1 b1 ret where "Config_Load ct parse p (l1, b1) = Some (ret, l', b')"
    using run by (auto simp: foldM_append Option.bind_eq_Some_conv config_op_def)
  from Load_cases[OF this] have "bc_build b'" by blast
  then show "tables_fit ct nc (bc_config b')" using run_from_file(4)[OF run fit] new(1) by simp
  show "ct_proto ct (bc_config b') = ct_proto ct c
       \<or> (\<exists>q \<in> insert p0 {q. Op_Load q \<in> set (ops @ [Op_Load p])}. read_from parse nc path q (ct_proto ct (bc_config b')))"
    using run_from_file(5)[OF run fit] new by auto
qed

end

subsection \<open>A change of the file is noticed\<close>

abbreviation small :: "u64 \<Rightarrow> bool" where
  "small t \<equiv> uint t < 2 ^ 31"

lemma uint_add_small: "small t \<Longrightarrow> 0 \<le> k \<Longrightarrow> k < 2 ^ 31 \<Longrightarrow> uint (t + word_of_int k) = uint t + k"
  by (simp add: uint_word_ariths uint_word_of_int)

lemma abs_seconds_small:
  assumes "small a" "small b"
  shows "abs_seconds a b = \<bar>uint a - uint b\<bar>"
proof -
  have d: "- (2 ^ 31) < uint a - uint b" "uint a - uint b < 2 ^ 31"
    using assms uint_ge_0[of a] uint_ge_0[of b] by linarith+
  have "sint (a - b) = signed_take_bit 63 (uint a - uint b)"
    by (simp add: sint_uint uint_word_ariths signed_take_bit_eq_iff_take_bit_eq take_bit_eq_mod)
  also have "\<dots> = uint a - uint b"
    using d by (intro signed_take_bit_int_eq_self) simp_all
  finally have "sint (a - b) = uint a - uint b" .
  moreover have "sint (word_of_int \<bar>uint a - uint b\<bar> :: 32 word) = \<bar>uint a - uint b\<bar>"
    using d by (simp add: sint_uint uint_word_of_int_eq signed_take_bit_int_eq_self take_bit_int_eq_self abs_less_iff)
  ultimately show ?thesis by (simp add: abs_seconds_def)
qed

text \<open>The loader has not read the file with inode \<open>inode\<close> as it was modified at \<open>m\<close>, and checks it again soon.\<close>

definition stale :: "u64 \<Rightarrow> u64 \<Rightarrow> int \<Rightarrow> FileLoader \<Rightarrow> bool" where
  "stale inode m T l \<longleftrightarrow> uint (ldr_last_check_time l) \<le> T \<and> small (ldr_last_mod_time l)
     \<and> (ldr_last_mod_time l = 0 \<or> ldr_last_mod_time l \<noteq> m \<or> ldr_ino l \<noteq> inode)"

lemma LoadIfModified_stale:
  assumes l: "ldr_file l \<noteq> []" "ldr_check_interval_s l = 60" "ldr_refresh_delay_s l = 60" "stale inode m T l"
    and T: "uint m + 60 \<le> T" "T < 2 ^ 31" and small: "small now"
    and LF: "\<And>reload. LF (ldr_file l) reload c = Some (True, c')"
  shows "\<exists>r mo l1 c1. LoadIfModified now (Some \<lparr>fstat_ino = inode, fstat_mtime = m\<rparr>) LF l c = Some (r, mo, l1, c1)
     \<and> (c1 = c' \<or> c1 = c \<and> stale inode m T l1 \<and> uint now \<le> T + 60)"
proof -
  have m: "small m" using T by simp
  define la where "la = (if now + 30 < ldr_last_check_time l then l\<lparr>ldr_last_check_time := now\<rparr> else l)"
  define lb where "lb = (if now + 30 < ldr_last_mod_time la then la\<lparr>ldr_last_mod_time := 0\<rparr> else la)"
  have now30: "uint (now + 30) = uint now + 30" using uint_add_small[OF small, of 30] by simp
  have la: "stale inode m T la" using l(4) now30 by (auto simp: la_def stale_def word_less_def)
  have lb: "stale inode m T lb" "ldr_file lb = ldr_file l" "ldr_check_interval_s lb = 60" "ldr_refresh_delay_s lb = 60"
    using la l by (auto simp: lb_def la_def stale_def)
  define lc where "lc = ResetTimeByInode inode lb"
  have lc: "ldr_file lc = ldr_file l" "ldr_refresh_delay_s lc = 60" "ldr_ino lc = inode"
    "ldr_last_mod_time lc = 0 \<or> ldr_last_mod_time lc \<noteq> m" "small (ldr_last_mod_time lc)"
    using lb by (auto simp: lc_def stale_def ResetTimeByInode_def)
  have check: "\<not> ldr_last_check_time lb + 60 < now \<longleftrightarrow> uint now \<le> uint (ldr_last_check_time lb) + 60"
    using lb(1) T uint_add_small[of "ldr_last_check_time lb" 60] by (auto simp: stale_def word_less_def not_less)
  have eq: "LoadIfModified now (Some \<lparr>fstat_ino = inode, fstat_mtime = m\<rparr>) LF l c =
      (if \<not> ldr_last_check_time lb + 60 < now then Some (True, False, lb, c)
       else if ldr_last_mod_time lc = 0 \<or> 0 < abs_seconds m (ldr_last_mod_time lc) \<and> 60 < abs_seconds now m
       then Some (True, True, lc\<lparr>ldr_last_check_time := now, ldr_last_mod_time := m\<rparr>, c')
       else Some (True, False, lc\<lparr>ldr_last_check_time := now\<rparr>, c))"
    using l(1) lb lc LF by (simp add: LoadIfModified_def Let_def flip: la_def lb_def lc_def)
  show ?thesis
  proof (cases "ldr_last_check_time lb + 60 < now")
    case False
    then have "uint now \<le> T + 60" using check lb(1) by (simp add: stale_def)
    with False eq lb(1) show ?thesis by auto
  next
    case True
    show ?thesis
    proof (cases "ldr_last_mod_time lc = 0 \<or> 60 < abs_seconds now m")
      case True
      have "ldr_last_mod_time lc \<noteq> m \<Longrightarrow> 0 < abs_seconds m (ldr_last_mod_time lc)"
        using abs_seconds_small[OF m lc(5)] by (auto simp: word_uint_eq_iff)
      with True \<open>_ < now\<close> eq lc(4) show ?thesis by auto
    next
      case False
      then have "uint now \<le> T" using abs_seconds_small[OF small m] T(1) by auto
      moreover have "stale inode m T (lc\<lparr>ldr_last_check_time := now\<rparr>)" using lc False calculation by (auto simp: stale_def)
      ultimately show ?thesis using True False eq by auto
    qed
  qed
qed

text \<open>A call of \<open>Load\<close> while the file stays as it was written at \<open>m\<close>.\<close>

definition settled_poll :: "(bool \<Rightarrow> string \<Rightarrow> 'p option) \<Rightarrow> bool \<Rightarrow> string \<Rightarrow> u64 \<Rightarrow> u64 \<Rightarrow> 'p \<Rightarrow> Poll \<Rightarrow> bool" where
  "settled_poll parse need_check file inode m proto p \<longleftrightarrow> small (poll_now p)
     \<and> poll_stat p file = Some \<lparr>fstat_ino = inode, fstat_mtime = m\<rparr> \<and> read_from parse need_check file p proto"

lemma read_from_unique: "read_from parse nc file p a \<Longrightarrow> read_from parse nc file p b \<Longrightarrow> a = b"
  by (auto simp: read_from_def)

lemma settled_LoadFile:
  assumes "settled_poll parse (bc_need_check b) file inode m proto p" "file \<noteq> []"
  shows "Config_LoadFile ct parse (poll_read p) file reload b = Some (True, FillConfig ct proto b)"
  using assms
  by (auto simp: settled_poll_def read_from_def Config_LoadFile_def FileConfig_Read_def FileConfig_new_def GetContent_def Let_def)

definition rebuilds :: "('p, 'c) ConfigType \<Rightarrow> bool \<Rightarrow> 'p \<Rightarrow> bool" where
  "rebuilds ct nc proto \<longleftrightarrow> (\<forall>c. ct_proto ct c = proto \<longrightarrow> ct_rebuild ct nc c \<noteq> None)"

text \<open>The state before the file is read, and after it.\<close>

definition awaits :: "('p, 'c) ConfigType \<Rightarrow> bool \<Rightarrow> string \<Rightarrow> u64 \<Rightarrow> u64 \<Rightarrow> int \<Rightarrow> 'p \<Rightarrow> 'p \<Rightarrow> FileLoader \<times> 'c BaseConfig \<Rightarrow> bool" where
  "awaits ct nc file inode m T old new = (\<lambda>(l, b). bc_need_check b = nc \<and> ldr_file l = file \<and> ldr_check_interval_s l = 60
     \<and> ldr_refresh_delay_s l = 60 \<and> (bc_build b \<longrightarrow> tables_fit ct nc (bc_config b))
     \<and> (ct_proto ct (bc_config b) = new \<or> ct_proto ct (bc_config b) = old \<and> stale inode m T l))"

definition has_loaded :: "('p, 'c) ConfigType \<Rightarrow> bool \<Rightarrow> 'p \<Rightarrow> FileLoader \<times> 'c BaseConfig \<Rightarrow> bool" where
  "has_loaded ct nc new = (\<lambda>(l, b). ct_proto ct (bc_config b) = new \<and> tables_fit ct nc (bc_config b))"

context config_class
begin

lemma rebuildsI: "ct_rebuild ct nc c \<noteq> None \<Longrightarrow> rebuilds ct nc (ct_proto ct c)"
  unfolding rebuilds_def using rebuild_same by metis

lemma Load_total:
  assumes "LoadIfModified (poll_now p) (poll_stat p (ldr_file l)) (Config_LoadFile ct parse (poll_read p)) l b = Some (r, m, l1, b1)"
    and "rebuilds ct (bc_need_check b) (ct_proto ct (bc_config b1))" and "bc_need_check b1 = bc_need_check b"
  shows "\<exists>ret b'. Config_Load ct parse p (l, b) = Some (ret, l1, b')"
proof -
  obtain ret c where "ct_rebuild ct (bc_need_check b) (bc_config b1) = Some (ret, c)" using assms(2) by (auto simp: rebuilds_def)
  moreover from this have "ret = RET_OK" using rebuild_proto by blast
  ultimately show ?thesis using assms(1,3)
    by (auto simp: Config_Load_def Config_IsModified_def BaseConfig_IsModified_def)
qed

lemma settled_step:
  assumes I: "awaits ct nc file inode m T old new s" and p: "settled_poll parse nc file inode m new p" and "file \<noteq> []"
    and T: "uint m + 60 \<le> T" "T < 2 ^ 31" and rb: "rebuilds ct nc old" "rebuilds ct nc new"
  shows "\<exists>s'. config_op ct parse (Op_Load p) s = Some s' \<and> awaits ct nc file inode m T old new s'
     \<and> (T + 60 < uint (poll_now p) \<or> ct_proto ct (bc_config (snd s)) = new \<longrightarrow> has_loaded ct nc new s')"
proof -
  obtain l b where s: "s = (l, b)" by (cases s)
  have l: "bc_need_check b = nc" "ldr_file l = file" "ldr_check_interval_s l = 60" "ldr_refresh_delay_s l = 60"
    "bc_build b \<longrightarrow> tables_fit ct nc (bc_config b)"
    "ct_proto ct (bc_config b) = new \<or> ct_proto ct (bc_config b) = old \<and> stale inode m T l"
    using I s by (auto simp: awaits_def)
  have LF: "Config_LoadFile ct parse (poll_read p) (ldr_file l) reload b = Some (True, FillConfig ct new b)" for reload
    using settled_LoadFile[of parse b "file" inode m "new" p] p l assms(3) by simp
  have stat: "poll_stat p (ldr_file l) = Some \<lparr>fstat_ino = inode, fstat_mtime = m\<rparr>" "small (poll_now p)"
    using p l by (auto simp: settled_poll_def)
  obtain r mo l1 b1 where lm: "LoadIfModified (poll_now p) (poll_stat p (ldr_file l)) (Config_LoadFile ct parse (poll_read p)) l b = Some (r, mo, l1, b1)"
    and b1: "ct_proto ct (bc_config b1) = new
      \<or> b1 = b \<and> ct_proto ct (bc_config b) = old \<and> stale inode m T l1 \<and> \<not> T + 60 < uint (poll_now p) \<and> ct_proto ct (bc_config b) \<noteq> new"
  proof (cases "ct_proto ct (bc_config b) = new")
    case True
    obtain r mo l1 b1 where x: "LoadIfModified (poll_now p) (poll_stat p (ldr_file l)) (Config_LoadFile ct parse (poll_read p)) l b = Some (r, mo, l1, b1)"
      using LoadIfModified_total[of "Config_LoadFile ct parse (poll_read p)" l b, OF LF] by blast
    have "ct_proto ct (bc_config b1) = new" using LoadIfModified_cases(2)[OF x] LF True by (auto simp: fill_proto)
    with x that show ?thesis by blast
  next
    case False
    then have "stale inode m T l" using l by auto
    from LoadIfModified_stale[OF _ l(3,4) this T stat(2), of "Config_LoadFile ct parse (poll_read p)" b "FillConfig ct new b"] l assms(3) LF
    obtain r mo l1 b1 where "LoadIfModified (poll_now p) (poll_stat p (ldr_file l)) (Config_LoadFile ct parse (poll_read p)) l b = Some (r, mo, l1, b1)"
      "b1 = FillConfig ct new b \<or> b1 = b \<and> stale inode m T l1 \<and> uint (poll_now p) \<le> T + 60"
      using stat(1) by auto
    with False l that show ?thesis by (auto simp: fill_proto)
  qed
  have nc: "bc_need_check b1 = bc_need_check b" using file_change[OF lm] by auto
  have "rebuilds ct (bc_need_check b) (ct_proto ct (bc_config b1))" using b1 rb l by auto
  then obtain ret b' where ld: "Config_Load ct parse p (l, b) = Some (ret, l1, b')" using Load_total[OF lm _ nc] by blast
  have after: "bc_need_check b' = nc" "ct_proto ct (bc_config b') = ct_proto ct (bc_config b1)" "tables_fit ct nc (bc_config b')"
    using Load_cases[OF ld] lm l by auto
  have "ldr_file l1 = file" "ldr_check_interval_s l1 = 60" "ldr_refresh_delay_s l1 = 60"
    using LoadIfModified_cases(1)[OF lm] l by auto
  with after b1 have "awaits ct nc file inode m T old new (l1, b')"
    "T + 60 < uint (poll_now p) \<or> ct_proto ct (bc_config b) = new \<longrightarrow> has_loaded ct nc new (l1, b')"
    by (auto simp: awaits_def has_loaded_def)
  then show ?thesis using ld s by (auto simp: config_op_def)
qed

lemma change_is_loaded:
  assumes I: "awaits ct nc file inode m T old new s" and "file \<noteq> []" and T: "uint m + 60 \<le> T" "T < 2 ^ 31"
    and rb: "rebuilds ct nc old" "rebuilds ct nc new"
    and ps: "\<forall>p \<in> set ps. settled_poll parse nc file inode m new p" and late: "\<exists>p \<in> set ps. T + 60 < uint (poll_now p)"
  shows "\<exists>s'. config_run ct parse (map Op_Load ps) s = Some s' \<and> has_loaded ct nc new s'"
proof -
  have "\<exists>s'. config_run ct parse (map Op_Load ps) s = Some s' \<and> awaits ct nc file inode m T old new s'
     \<and> ((\<exists>p \<in> set ps. T + 60 < uint (poll_now p)) \<or> has_loaded ct nc new s \<longrightarrow> has_loaded ct nc new s')"
    using I ps
  proof (induction ps arbitrary: s)
    case (Cons p ps)
    obtain s1 where s1: "config_op ct parse (Op_Load p) s = Some s1" "awaits ct nc file inode m T old new s1"
      "T + 60 < uint (poll_now p) \<or> ct_proto ct (bc_config (snd s)) = new \<longrightarrow> has_loaded ct nc new s1"
      using settled_step[OF Cons.prems(1) _ assms(2) T rb, of parse p] Cons.prems(2) by auto
    moreover have "has_loaded ct nc new s \<Longrightarrow> ct_proto ct (bc_config (snd s)) = new" by (auto simp: has_loaded_def)
    ultimately show ?case using Cons.IH[OF s1(2)] Cons.prems(2) by auto
  qed auto
  with late show ?thesis by blast
qed

end

subsection \<open>The configuration of a topic\<close>

text \<open>C26: After any history of reloads, the message of a topic's configuration is one that was read from
  its file (or still the initial one), the lookup tables are those that \<open>Rebuild\<close> makes of it, and every valid queue has a
  queue info. A file that cannot be read or parsed changes nothing.\<close>

theorem Config_tables_fit_file:
  assumes "New_config topic_config parse need_check p0 inode c path = Some lb"
    and "config_run topic_config parse (ops @ [Op_Load p]) lb = Some (l, b)"
  shows "TopicConfig_Rebuild need_check (bc_config b) = Some (bc_config b)
     \<and> (tc_proto (bc_config b) = tc_proto c
        \<or> (\<exists>q \<in> insert p0 {q. Op_Load q \<in> set (ops @ [Op_Load p])}. read_from parse need_check path q (tc_proto (bc_config b))))
     \<and> (\<forall>queue pid g. IsValidQueue (bc_config b) queue pid g \<longrightarrow> (\<exists>qi. GetQueueInfoByQueue (bc_config b) queue = Inr qi))"
proof -
  have fit: "TopicConfig_Rebuild need_check (bc_config b) = Some (bc_config b)"
    using topic.tables_fit_after_Load(1)[OF assms] by (simp add: tables_fit_def topic_config_def)
  then have "IsValidQueue (bc_config b) queue pid g \<Longrightarrow> \<exists>qi. GetQueueInfoByQueue (bc_config b) queue = Inr qi" for queue pid g
    using Rebuild_valid_queue_has_info by blast
  with fit show ?thesis using topic.tables_fit_after_Load(2)[OF assms] by (simp add: topic_config_def)
qed

text \<open>C25: A change is noticed: when a file, modified since it was last read, stays as it is, then a minute
  after the last check, or two minutes after the modification if that is later, \<open>Load\<close> has read it and rebuilt the tables, whatever was read before
  and however often \<open>Load\<close> is called. (Times are less than \<open>2^31\<close> seconds, since the code puts their differences into an \<open>int\<close>.)\<close>

theorem Config_change_is_loaded:
  assumes "New_config topic_config parse need_check p0 inode0 c path = Some lb"
    and "config_run topic_config parse ops lb = Some (l, b)" and "path \<noteq> []"
    and modified: "ldr_last_mod_time l = 0 \<or> ldr_last_mod_time l \<noteq> m \<or> ldr_ino l \<noteq> inode" "uint (ldr_last_mod_time l) < 2 ^ 31"
    and T: "T = max (uint m + 60) (uint (ldr_last_check_time l))" "T < 2 ^ 31"
    and rebuild: "TopicConfig_Rebuild need_check (bc_config b) \<noteq> None" "TopicConfig_Rebuild need_check ((bc_config b)\<lparr>tc_proto := proto\<rparr>) \<noteq> None"
    and polls: "\<forall>p \<in> set ps. settled_poll parse need_check path inode m proto p" "\<exists>p \<in> set ps. T + 60 < uint (poll_now p)"
  shows "\<exists>l' b'. config_run topic_config parse (map Op_Load ps) (l, b) = Some (l', b')
     \<and> tc_proto (bc_config b') = proto \<and> TopicConfig_Rebuild need_check (bc_config b') = Some (bc_config b')"
proof -
  obtain l0 b0 where lb: "lb = (l0, b0)" by (cases lb)
  note new = topic.New_config_from_file[OF assms(1)[unfolded lb]]
  have "bc_build b0 \<Longrightarrow> tables_fit topic_config (bc_need_check b0) (bc_config b0)" using new(2) by simp
  note run = topic.run_from_file[OF assms(2)[unfolded lb] this]
  have "awaits topic_config need_check path inode m T (tc_proto (bc_config b)) proto (l, b)"
    using run(1-4) new T(1) modified by (auto simp: awaits_def stale_def topic_config_def)
  moreover have "rebuilds topic_config need_check (tc_proto (bc_config b))" "rebuilds topic_config need_check proto"
    using topic.rebuildsI[of need_check "bc_config b"] topic.rebuildsI[of need_check "(bc_config b)\<lparr>tc_proto := proto\<rparr>"] rebuild
    by (simp_all add: topic_config_def)
  ultimately have "\<exists>s'. config_run topic_config parse (map Op_Load ps) (l, b) = Some s' \<and> has_loaded topic_config need_check proto s'"
    using T by (intro topic.change_is_loaded[OF _ assms(3) _ T(2) _ _ polls]) simp_all
  then show ?thesis by (auto simp: has_loaded_def tables_fit_def topic_config_def)
qed

text \<open>The modification time decides: while it and the inode are those of the content read last, the file is not
  read again. A second modification within the second of the first reading, which has no delay, stays unnoticed.\<close>

lemma LoadIfModified_same_stamp:
  assumes "ldr_last_mod_time l = m" "ldr_ino l = inode" "m \<noteq> 0" "\<not> now + 30 < m"
  shows "\<exists>r l'. LoadIfModified now (Some \<lparr>fstat_ino = inode, fstat_mtime = m\<rparr>) LF l c = Some (r, False, l', c)
     \<and> ldr_last_mod_time l' = m \<and> ldr_ino l' = inode"
  using assms by (auto simp: LoadIfModified_def Let_def ResetTimeByInode_def abs_seconds_def)

subsection \<open>A file and its change\<close>

definition file_poll :: "u64 \<Rightarrow> u64 \<Rightarrow> string \<Rightarrow> Poll" where
  "file_poll now m content = \<lparr>poll_now = now, poll_now_ms = 1000 * now,
     poll_stat = (\<lambda>_. Some \<lparr>fstat_ino = 7, fstat_mtime = m\<rparr>), poll_read = (\<lambda>_. Read_all content)\<rparr>"

definition sample_parse_json :: "bool \<Rightarrow> string \<Rightarrow> TopicConfigProto option" where
  "sample_parse_json ignore_unknown_fields content =
     (if content = ''1'' then Some TopicConfig_ReadConfig
      else if content = ''2'' then Some (TopicConfig_ReadConfig\<lparr>tp_skip_infos := []\<rparr>\<lparr>tp_pubs := []\<rparr>) else None)"

definition file_new :: "(FileLoader \<times> TopicConfig BaseConfig) option" where
  "file_new = New_config topic_config sample_parse_json True (file_poll 1000 900 ''1'') 0 (TopicConfig_of (TopicConfig_ReadConfig\<lparr>tp_pubs := []\<rparr>)) ''f''"

definition file_loaded :: "(FileLoader \<times> TopicConfig BaseConfig) option" where
  "file_loaded = config_run topic_config sample_parse_json [Op_Load (file_poll 1001 900 ''1'')] (the file_new)"

lemma file_runs:
  "file_new \<noteq> None" "file_loaded \<noteq> None"
  "(case the file_loaded of (l, b) \<Rightarrow> ldr_last_mod_time l = 900 \<and> ldr_last_check_time l = 1000
      \<and> TopicConfig_Rebuild True (bc_config b) \<noteq> None \<and> TopicConfig_Rebuild True ((bc_config b)\<lparr>tc_proto := TopicConfig_ReadConfig\<lparr>tp_pubs := []\<rparr>\<rparr>) \<noteq> None)"
  by code_simp+

lemma file_eqs:
  "New_config topic_config sample_parse_json True (file_poll 1000 900 ''1'') 0 (TopicConfig_of (TopicConfig_ReadConfig\<lparr>tp_pubs := []\<rparr>)) ''f'' = Some (the file_new)"
  "config_run topic_config sample_parse_json ([] @ [Op_Load (file_poll 1001 900 ''1'')]) (the file_new) = Some (the file_loaded)"
  using file_runs(1,2) by (simp_all add: file_new_def file_loaded_def)

lemma Config_tables_fit_file_witness:
  "TopicConfig_Rebuild True (bc_config (snd (the file_loaded))) = Some (bc_config (snd (the file_loaded)))"
proof -
  obtain l b where lb: "the file_loaded = (l, b)" by (cases "the file_loaded")
  show ?thesis using Config_tables_fit_file[OF file_eqs(1) file_eqs(2)[unfolded lb]] by (simp add: lb)
qed

lemma Config_change_is_loaded_witness:
  "\<exists>l' b'. config_run topic_config sample_parse_json (map Op_Load [file_poll 1050 1040 ''2'', file_poll 1100 1040 ''2'', file_poll 1161 1040 ''2''])
     (the file_loaded) = Some (l', b') \<and> tp_pubs (tc_proto (bc_config b')) = []"
proof -
  obtain l b where lb: "the file_loaded = (l, b)" by (cases "the file_loaded")
  have r: "ldr_last_mod_time l = 900" "ldr_last_check_time l = 1000" "TopicConfig_Rebuild True (bc_config b) \<noteq> None"
    "TopicConfig_Rebuild True ((bc_config b)\<lparr>tc_proto := TopicConfig_ReadConfig\<lparr>tp_pubs := []\<rparr>\<rparr>) \<noteq> None"
    using file_runs(3) lb by auto
  let ?ps = "[file_poll 1050 1040 ''2'', file_poll 1100 1040 ''2'', file_poll 1161 1040 ''2'']"
  have polls: "\<forall>p \<in> set ?ps. settled_poll sample_parse_json True ''f'' 7 1040 (TopicConfig_ReadConfig\<lparr>tp_pubs := []\<rparr>) p"
    by (auto simp: settled_poll_def file_poll_def read_from_def sample_parse_json_def TopicConfig_ReadConfig_def)
  have "\<exists>p \<in> set ?ps. 1100 + 60 < uint (poll_now p)" by (simp add: file_poll_def)
  from Config_change_is_loaded[OF file_eqs(1) file_eqs(2)[unfolded lb] _ _ _ _ _ r(3,4) polls this] r(1,2)
  show ?thesis unfolding lb by auto
qed

end
