(* ===== verification/LoadUtil.thy ===== *)
theory LoadUtil
  imports Floats Comm
begin

section \<open>The load of a machine (comm/utils/load_util.cpp)\<close>

text \<open>
  A consumer reports its CPU load to the scheduler (\<open>HBLock_GetAddrScale\<close>). \<open>GetCpu\<close> reads the counters of
  /proc/stat and compares them with the last ones; its static variables are the record \<open>CpuState\<close>. What the
  file holds is an argument, \<^const>\<open>None\<close> when it cannot be opened. The result is \<^const>\<open>None\<close> where a conversion
  of a \<open>double\<close> to an integer is undefined.
\<close>

record CpuInfo =
  cpu_use :: u64
  cpu_nice :: u64
  cpu_sys :: u64
  cpu_idle :: u64
  cpu_iowait :: u64
  cpu_hardirq :: u64
  cpu_softirq :: u64
  cpu_userate :: u64
  cpu_sysrate :: u64
  cpu_iowaitrate :: u64
  cpu_hardirqrate :: u64
  cpu_softirqrate :: u64
  cpu_usage :: u64

definition CpuInfo_zero :: CpuInfo where
  "CpuInfo_zero = \<lparr>cpu_use = 0, cpu_nice = 0, cpu_sys = 0, cpu_idle = 0, cpu_iowait = 0, cpu_hardirq = 0, cpu_softirq = 0,
     cpu_userate = 0, cpu_sysrate = 0, cpu_iowaitrate = 0, cpu_hardirqrate = 0, cpu_softirqrate = 0, cpu_usage = 0\<rparr>"

record CpuRate =
  cr_userate :: u64
  cr_sysrate :: u64
  cr_iowaitrate :: u64
  cr_hardirqrate :: u64
  cr_softirqrate :: u64

definition CpuRate_zero :: CpuRate where
  "CpuRate_zero = \<lparr>cr_userate = 0, cr_sysrate = 0, cr_iowaitrate = 0, cr_hardirqrate = 0, cr_softirqrate = 0\<rparr>"

text \<open>The C library's \<open>strtoull(s, &p, 10)\<close>: the value, and \<open>p\<close>.\<close>

definition strtoull :: "string \<Rightarrow> u64 \<times> string" where
  "strtoull s =
     (let t = dropWhile is_space s;
          neg = (t \<noteq> [] \<and> hd t = CHR ''-'');
          t = (if t \<noteq> [] \<and> (hd t = CHR ''-'' \<or> hd t = CHR ''+'') then tl t else t);
          ds = takeWhile is_digit t;
          n = digits_val ds
      in if ds = [] then (0, s)
         else (if 2 ^ 64 \<le> n then -1 else if neg then - word_of_int n else word_of_int n, dropWhile is_digit t))"

definition read_counters :: "string \<Rightarrow> CpuInfo" where
  "read_counters line =
     (let p = dropWhile (\<lambda>c. \<not> is_space c) (dropWhile is_space line);
          (use, p) = strtoull p; (nice, p) = strtoull p; (sys, p) = strtoull p; (idle, p) = strtoull p;
          (iowait, p) = strtoull p; (hardirq, p) = strtoull p; (softirq, p) = strtoull p
      in CpuInfo_zero\<lparr>cpu_use := use, cpu_nice := nice, cpu_sys := sys, cpu_idle := idle, cpu_iowait := iowait,
           cpu_hardirq := hardirq, cpu_softirq := softirq\<rparr>)"

definition cpu_all :: "CpuInfo \<Rightarrow> u64" where
  "cpu_all c = cpu_use c + cpu_nice c + cpu_sys c + cpu_idle c + cpu_hardirq c + cpu_softirq c + cpu_iowait c"

text \<open>\<open>(unsigned long long) round(rate)\<close> when the rate is positive.\<close>

definition percent :: "rat \<Rightarrow> u64 \<Rightarrow> u64 option" where
  "percent all diff =
     (let rate = float64 (float64 (100 * float64 (of_int (uint diff))) / all) in
      if 0 < rate then (if \<lfloor>rate + 1 / 2\<rfloor> < 2 ^ 64 then Some (word_of_int \<lfloor>rate + 1 / 2\<rfloor>) else None) else Some 0)"

definition GetCpuInfo :: "string list option \<Rightarrow> CpuInfo \<Rightarrow> CpuInfo option" where
  "GetCpuInfo proc_stat cpu_info =
     (case proc_stat of None \<Rightarrow> Some CpuInfo_zero | Some lines \<Rightarrow>
      case find (\<lambda>line. take 3 line = ''cpu'') lines of None \<Rightarrow> Some CpuInfo_zero | Some line \<Rightarrow>
      let new_cpu_info = read_counters line;
          all_new = float64 (of_int (uint (cpu_all new_cpu_info)));
          all_old = float64 (of_int (uint (cpu_all cpu_info)));
          all = float64 (all_new - all_old)
      in if all \<le> float64 (1 / 10000) then Some cpu_info
         else do {
           userate \<leftarrow> percent all (cpu_use new_cpu_info - cpu_use cpu_info);
           sysrate \<leftarrow> percent all (cpu_sys new_cpu_info - cpu_sys cpu_info);
           iowaitrate \<leftarrow> percent all (cpu_iowait new_cpu_info - cpu_iowait cpu_info);
           hardirqrate \<leftarrow> percent all (cpu_hardirq new_cpu_info - cpu_hardirq cpu_info);
           softirqrate \<leftarrow> percent all (cpu_softirq new_cpu_info - cpu_softirq cpu_info);
           usage \<leftarrow> percent all (cpu_use new_cpu_info + cpu_sys new_cpu_info + cpu_softirq new_cpu_info + cpu_iowait new_cpu_info
             - cpu_use cpu_info - cpu_sys cpu_info - cpu_softirq cpu_info - cpu_iowait cpu_info);
           Some (new_cpu_info\<lparr>cpu_userate := userate, cpu_sysrate := sysrate, cpu_iowaitrate := iowaitrate,
             cpu_hardirqrate := hardirqrate, cpu_softirqrate := softirqrate, cpu_usage := usage\<rparr>) })"

text \<open>The divisor is an \<open>int64_t\<close>, the dividends are unsigned, so the division is unsigned.\<close>

definition GetCpuRate :: "CpuInfo \<Rightarrow> CpuInfo \<Rightarrow> CpuRate \<Rightarrow> CpuInfo \<times> CpuRate" where
  "GetCpuRate oldinfo newinfo rate =
     (let alldiff = cpu_use newinfo - cpu_use oldinfo + cpu_nice newinfo - cpu_nice oldinfo + cpu_sys newinfo - cpu_sys oldinfo
            + cpu_idle newinfo - cpu_idle oldinfo + cpu_iowait newinfo - cpu_iowait oldinfo
            + cpu_hardirq newinfo - cpu_hardirq oldinfo + cpu_softirq newinfo - cpu_softirq oldinfo
      in if 0 < sint alldiff
         then (newinfo, rate\<lparr>cr_userate := 100 * (cpu_use newinfo - cpu_use oldinfo) div alldiff,
                 cr_sysrate := 100 * (cpu_sys newinfo - cpu_sys oldinfo) div alldiff,
                 cr_iowaitrate := 100 * (cpu_iowait newinfo - cpu_iowait oldinfo) div alldiff,
                 cr_hardirqrate := 100 * (cpu_hardirq newinfo - cpu_hardirq oldinfo) div alldiff,
                 cr_softirqrate := 100 * (cpu_softirq newinfo - cpu_softirq oldinfo) div alldiff\<rparr>)
         else (oldinfo, rate))"

record CpuState =
  cs_cpu :: int
  cs_last_update_time :: u64
  cs_cpu_info_old :: CpuInfo

definition CpuState_init :: CpuState where
  "CpuState_init = \<lparr>cs_cpu = 0, cs_last_update_time = 0, cs_cpu_info_old = CpuInfo_zero\<rparr>"

definition GetCpu :: "u64 \<Rightarrow> string list option \<Rightarrow> CpuState \<Rightarrow> (int \<times> CpuState) option" where
  "GetCpu now proc_stat s =
     (if now \<noteq> cs_last_update_time s then do {
        cpu_info \<leftarrow> GetCpuInfo proc_stat CpuInfo_zero;
        let (cpu_info_old, cpu_rate) = GetCpuRate (cs_cpu_info_old s) cpu_info CpuRate_zero;
        let cpu = sint (ucast (cr_userate cpu_rate + cr_sysrate cpu_rate + cr_softirqrate cpu_rate) :: 32 word);
        Some (cpu, \<lparr>cs_cpu = cpu, cs_last_update_time = now, cs_cpu_info_old = cpu_info_old\<rparr>) }
      else Some (cs_cpu s, s))"

text \<open>The values of a sequence of calls.\<close>

fun GetCpu_calls :: "(u64 \<times> string list option) list \<Rightarrow> CpuState \<Rightarrow> int list option" where
  "GetCpu_calls [] s = Some []"
| "GetCpu_calls ((now, proc_stat) # calls) s = do {
     (cpu, s) \<leftarrow> GetCpu now proc_stat s;
     cpus \<leftarrow> GetCpu_calls calls s;
     Some (cpu # cpus) }"

subsection \<open>The counters of a reading\<close>

definition counters_of :: "string list option \<Rightarrow> CpuInfo option" where
  "counters_of proc_stat =
     (case proc_stat of None \<Rightarrow> None | Some lines \<Rightarrow> map_option read_counters (find (\<lambda>line. take 3 line = ''cpu'') lines))"

definition cpu_total :: "CpuInfo \<Rightarrow> int" where
  "cpu_total c = uint (cpu_use c) + uint (cpu_nice c) + uint (cpu_sys c) + uint (cpu_idle c) + uint (cpu_iowait c)
     + uint (cpu_hardirq c) + uint (cpu_softirq c)"

definition counters_le :: "CpuInfo \<Rightarrow> CpuInfo \<Rightarrow> bool" where
  "counters_le a b \<longleftrightarrow> cpu_use a \<le> cpu_use b \<and> cpu_nice a \<le> cpu_nice b \<and> cpu_sys a \<le> cpu_sys b \<and> cpu_idle a \<le> cpu_idle b
     \<and> cpu_iowait a \<le> cpu_iowait b \<and> cpu_hardirq a \<le> cpu_hardirq b \<and> cpu_softirq a \<le> cpu_softirq b"

definition same_counters :: "CpuInfo \<Rightarrow> CpuInfo \<Rightarrow> bool" where
  "same_counters a b \<longleftrightarrow> cpu_use a = cpu_use b \<and> cpu_nice a = cpu_nice b \<and> cpu_sys a = cpu_sys b \<and> cpu_idle a = cpu_idle b
     \<and> cpu_iowait a = cpu_iowait b \<and> cpu_hardirq a = cpu_hardirq b \<and> cpu_softirq a = cpu_softirq b"

lemma sum_zero:
  fixes a :: int
  assumes "0 \<le> a" "0 \<le> b" "0 \<le> c" "0 \<le> d" "0 \<le> e" "0 \<le> f" "0 \<le> g" "a + b + c + d + e + f + g = 0"
  shows "a = 0 \<and> b = 0 \<and> c = 0 \<and> d = 0 \<and> e = 0 \<and> f = 0 \<and> g = 0"
  using assms by (intro conjI) linarith+

lemma uint_cpu_all:
  assumes "cpu_total c < 2 ^ 57"
  shows "uint (cpu_all c) = cpu_total c"
proof -
  have "0 \<le> cpu_total c" by (simp add: cpu_total_def)
  have "cpu_all c = word_of_int (cpu_total c)" by (simp add: cpu_all_def cpu_total_def)
  then show ?thesis using assms \<open>0 \<le> cpu_total c\<close> by (simp add: uint_word_of_int_eq take_bit_int_eq_self)
qed

lemma fl_double: "0 \<le> x \<Longrightarrow> float64 x \<le> 2 * x" "0 \<le> x \<Longrightarrow> x / 2 \<le> float64 x"
proof -
  have e: "0 \<le> x \<Longrightarrow> \<bar>float64 x - x\<bar> \<le> x / 2"
    using fl_error[of x 53] divide_left_mono[of 2 "2 ^ 53" x] by simp
  show "0 \<le> x \<Longrightarrow> float64 x \<le> 2 * x" "0 \<le> x \<Longrightarrow> x / 2 \<le> float64 x"
    using e[THEN abs_le_D1] e[THEN abs_le_D2] by linarith+
qed

lemma percent_total:
  assumes d: "uint d \<le> t" and all: "all = float64 (float64 (of_int t) - float64 0)" "0 < all"
  shows "percent all d \<noteq> None"
proof -
  let ?x = "of_int (uint d) :: rat" and ?t = "of_int t :: rat"
  have t: "0 \<le> ?t" "?x \<le> ?t" using d order_trans[OF uint_ge_0 d] by (simp_all only: of_int_le_iff of_int_0_le_iff)
  have x: "0 \<le> ?x" by (simp only: of_int_0_le_iff uint_ge_0)
  have fx: "0 \<le> float64 ?x" "float64 ?x \<le> float64 ?t" "0 \<le> float64 ?t" using t x by (simp_all add: fl_nonneg fl_mono)
  have "float64 ?t / 2 \<le> all" using fl_double(2)[OF fx(3)] all(1) by simp
  moreover have n: "0 \<le> float64 (100 * float64 ?x)" "float64 (100 * float64 ?x) \<le> 200 * float64 ?t"
    using fl_double(1)[of "100 * float64 ?x"] fx by (simp_all add: fl_nonneg)
  ultimately have "float64 (100 * float64 ?x) \<le> 400 * all" by simp
  then have q: "0 \<le> float64 (100 * float64 ?x) / all" "float64 (100 * float64 ?x) / all \<le> 400"
    using n(1) all(2) by (simp_all add: divide_le_eq)
  then have "float64 (float64 (100 * float64 ?x) / all) \<le> 800" using fl_double(1)[OF q(1)] by linarith
  then have "\<lfloor>float64 (float64 (100 * float64 ?x) / all) + 1 / 2\<rfloor> < 2 ^ 64" by (simp add: floor_less_iff)
  then show ?thesis by (simp add: percent_def Let_def)
qed

lemma GetCpuInfo_counters:
  assumes "counters_of proc_stat = Some c" and t: "cpu_total c < 2 ^ 57"
  shows "\<exists>c'. GetCpuInfo proc_stat CpuInfo_zero = Some c' \<and> same_counters c' c"
proof -
  obtain lines line where line: "proc_stat = Some lines" "find (\<lambda>line. take 3 line = ''cpu'') lines = Some line" "c = read_counters line"
    using assms(1) by (auto simp: counters_of_def split: option.splits)
  define all where "all = float64 (float64 (of_int (cpu_total c)) - float64 0)"
  have u: "uint (cpu_all c) = cpu_total c" using uint_cpu_all[OF t] .
  have zero: "cpu_all CpuInfo_zero = 0" by (simp add: cpu_all_def CpuInfo_zero_def)
  have all: "all = float64 (float64 (of_int (uint (cpu_all (read_counters line)))) - float64 (of_int (uint (cpu_all CpuInfo_zero))))"
    using u line(3) by (simp add: all_def zero)
  show ?thesis
  proof (cases "all \<le> float64 (1 / 10000)")
    case True
    have "cpu_total c = 0"
    proof (rule ccontr)
      assume "cpu_total c \<noteq> 0"
      moreover have "0 \<le> cpu_total c" by (simp add: cpu_total_def)
      ultimately have 1: "(1 :: rat) \<le> of_int (cpu_total c)" by simp
      then have "1 / 2 \<le> float64 (of_int (cpu_total c))" using fl_double(2)[of "of_int (cpu_total c)"] by linarith
      then have "1 / 4 \<le> all" using fl_double(2)[of "float64 (of_int (cpu_total c))"] by (simp add: all_def)
      moreover have "float64 (1 / 10000) \<le> 2 / 10000" using fl_double(1)[of "1 / 10000"] by simp
      ultimately show False using True by linarith
    qed
    then have "same_counters CpuInfo_zero c"
      using sum_zero[OF uint_ge_0 uint_ge_0 uint_ge_0 uint_ge_0 uint_ge_0 uint_ge_0 uint_ge_0, of "cpu_use c" "cpu_nice c" "cpu_sys c"
          "cpu_idle c" "cpu_iowait c" "cpu_hardirq c" "cpu_softirq c"]
      by (simp add: cpu_total_def same_counters_def CpuInfo_zero_def word_uint_eq_iff)
    with True line all show ?thesis by (simp add: GetCpuInfo_def Let_def flip: all)
  next
    case False
    have "0 \<le> float64 (1 / 10000)" by (simp add: fl_nonneg)
    with False have pos: "0 < all" by linarith
    have le: "uint x \<le> cpu_total c" if "x \<in> {cpu_use c, cpu_sys c, cpu_iowait c, cpu_hardirq c, cpu_softirq c}" for x
      using that by (auto simp: cpu_total_def)
    have s: "uint (cpu_use c + cpu_sys c + cpu_softirq c + cpu_iowait c) \<le> cpu_total c"
    proof -
      let ?s = "uint (cpu_use c) + uint (cpu_sys c) + uint (cpu_softirq c) + uint (cpu_iowait c)"
      have s: "0 \<le> ?s" "?s \<le> cpu_total c" by (simp_all add: cpu_total_def)
      have "cpu_use c + cpu_sys c + cpu_softirq c + cpu_iowait c = word_of_int ?s" by simp
      then have "uint (cpu_use c + cpu_sys c + cpu_softirq c + cpu_iowait c) = take_bit LENGTH(64) ?s"
        by (simp only: uint_word_of_int_eq)
      also have "\<dots> = ?s"
      proof (rule take_bit_int_eq_self[OF s(1)])
        have "?s < 2 ^ 57" using s(2) t by linarith
        then show "?s < 2 ^ LENGTH(64)" by simp
      qed
      finally show ?thesis using s by linarith
    qed
    note ok = percent_total[OF _ all_def pos]
    obtain r1 r2 r3 r4 r5 r6 where "percent all (cpu_use c) = Some r1" "percent all (cpu_sys c) = Some r2" "percent all (cpu_iowait c) = Some r3"
      "percent all (cpu_hardirq c) = Some r4" "percent all (cpu_softirq c) = Some r5"
      "percent all (cpu_use c + cpu_sys c + cpu_softirq c + cpu_iowait c) = Some r6"
      using ok[OF le] ok[OF s] by fastforce
    then have "GetCpuInfo proc_stat CpuInfo_zero = Some (c\<lparr>cpu_userate := r1, cpu_sysrate := r2, cpu_iowaitrate := r3,
             cpu_hardirqrate := r4, cpu_softirqrate := r5, cpu_usage := r6\<rparr>)"
      using False line all by (simp add: GetCpuInfo_def Let_def CpuInfo_zero_def flip: all)
    then show ?thesis by (simp add: same_counters_def)
  qed
qed

subsection \<open>The load is a percentage\<close>

lemma uint_diff: "a \<le> b \<Longrightarrow> uint (b - a) = uint b - uint a" for a b :: u64
  by (simp add: uint_minus_simple_alt word_le_def uint_sub_lem)

lemma counters_diff:
  assumes le: "counters_le a b" and t: "cpu_total b < 2 ^ 57"
  defines "d \<equiv> cpu_use b - cpu_use a + cpu_nice b - cpu_nice a + cpu_sys b - cpu_sys a
            + cpu_idle b - cpu_idle a + cpu_iowait b - cpu_iowait a
            + cpu_hardirq b - cpu_hardirq a + cpu_softirq b - cpu_softirq a"
  shows "uint d = cpu_total b - cpu_total a" "cpu_total a \<le> cpu_total b" "sint d = uint d"
proof -
  show ab: "cpu_total a \<le> cpu_total b" using le by (simp add: counters_le_def cpu_total_def word_le_def add_mono)
  have a0: "0 \<le> cpu_total a" by (simp add: cpu_total_def)
  have d: "d = word_of_int (cpu_total b - cpu_total a)" by (simp add: d_def cpu_total_def)
  have "cpu_total b - cpu_total a < 2 ^ 57" using t a0 by linarith
  then have r: "0 \<le> cpu_total b - cpu_total a" "cpu_total b - cpu_total a < 2 ^ 63" using ab by simp_all
  then show u: "uint d = cpu_total b - cpu_total a"
    unfolding d uint_word_of_int_eq by (intro take_bit_int_eq_self) simp_all
  then show "sint d = uint d" using r by (simp add: sint_uint signed_take_bit_int_eq_self)
qed

lemma div_add_le: "0 < c \<Longrightarrow> a div c + b div c \<le> (a + b) div c" for a b c :: int
  by (simp add: div_add1_eq[of a b c] pos_imp_zdiv_nonneg_iff)

lemma rate_le:
  fixes x s :: u64
  assumes "uint x \<le> uint s" "uint s < 2 ^ 57"
  shows "uint (100 * x div s) = 100 * uint x div uint s"
proof -
  have "uint (100 * x) = 100 * uint x" using assms uint_ge_0[of x] by (simp add: uint_mult_lem[THEN iffD1])
  then show ?thesis by (simp add: uint_div)
qed

definition rate_sum :: "CpuRate \<Rightarrow> int" where
  "rate_sum r = sint (ucast (cr_userate r + cr_sysrate r + cr_softirqrate r) :: 32 word)"

lemma GetCpuRate_percent:
  assumes le: "counters_le a b" and t: "cpu_total b < 2 ^ 57" and run: "GetCpuRate a b CpuRate_zero = (a', r)"
  shows "0 \<le> rate_sum r \<and> rate_sum r \<le> 100" "a' = a \<or> a' = b"
proof -
  define d where "d = cpu_use b - cpu_use a + cpu_nice b - cpu_nice a + cpu_sys b - cpu_sys a
            + cpu_idle b - cpu_idle a + cpu_iowait b - cpu_iowait a
            + cpu_hardirq b - cpu_hardirq a + cpu_softirq b - cpu_softirq a"
  note d = counters_diff[OF le t, folded d_def]
  show "a' = a \<or> a' = b" using run by (auto simp: GetCpuRate_def Let_def split: if_splits)
  show "0 \<le> rate_sum r \<and> rate_sum r \<le> 100"
  proof (cases "0 < sint d")
    case False
    then have "r = CpuRate_zero" using run by (simp add: GetCpuRate_def Let_def flip: d_def)
    then show ?thesis by (simp add: rate_sum_def CpuRate_zero_def)
  next
    case True
    let ?x = "cpu_use b - cpu_use a" and ?y = "cpu_sys b - cpu_sys a" and ?z = "cpu_softirq b - cpu_softirq a"
    have r: "cr_userate r = 100 * ?x div d" "cr_sysrate r = 100 * ?y div d" "cr_softirqrate r = 100 * ?z div d"
      using True run by (auto simp: GetCpuRate_def Let_def simp flip: d_def)
    have diffs: "uint ?x = uint (cpu_use b) - uint (cpu_use a)" "uint ?y = uint (cpu_sys b) - uint (cpu_sys a)"
      "uint ?z = uint (cpu_softirq b) - uint (cpu_softirq a)"
      using le by (simp_all add: counters_le_def uint_diff)
    have "uint (cpu_use b) - uint (cpu_use a) + (uint (cpu_sys b) - uint (cpu_sys a)) + (uint (cpu_softirq b) - uint (cpu_softirq a)) \<le> uint d"
      using le unfolding d(1) cpu_total_def counters_le_def word_le_def by linarith
    then have sum: "uint ?x + uint ?y + uint ?z \<le> uint d" using diffs by simp
    have nn: "0 \<le> uint ?x" "0 \<le> uint ?y" "0 \<le> uint ?z" by simp_all
    have a0: "0 \<le> cpu_total a" by (simp add: cpu_total_def)
    then have S: "uint d < 2 ^ 57" "0 < uint d" using t d True by linarith+
    have le1: "uint ?x \<le> uint d" "uint ?y \<le> uint d" "uint ?z \<le> uint d" using sum nn by linarith+
    let ?s = "100 * uint ?x div uint d + 100 * uint ?y div uint d + 100 * uint ?z div uint d"
    have "?s \<le> (100 * uint ?x + 100 * uint ?y + 100 * uint ?z) div uint d"
      using div_add_le[OF S(2), of "100 * uint ?x" "100 * uint ?y"] div_add_le[OF S(2), of "100 * uint ?x + 100 * uint ?y" "100 * uint ?z"]
      by linarith
    also have "\<dots> \<le> (100 * uint d) div uint d" by (rule zdiv_mono1) (use sum S in linarith)+
    also have "\<dots> = 100" using S by simp
    finally have s: "0 \<le> ?s" "?s \<le> 100" using nn S by (simp_all add: pos_imp_zdiv_nonneg_iff)
    have "cr_userate r + cr_sysrate r + cr_softirqrate r = word_of_int ?s"
      using rate_le[OF le1(1) S(1)] rate_le[OF le1(2) S(1)] rate_le[OF le1(3) S(1)] r by (metis of_int_add word_of_int_uint)
    then have "rate_sum r = sint (word_of_int ?s :: 32 word)"
      by (simp only: rate_sum_def ucast_eq uint_word_of_int_eq) (use s in \<open>simp add: take_bit_int_eq_self\<close>)
    also have "\<dots> = ?s" unfolding sint_sbintrunc' by (rule signed_take_bit_int_eq_self) (use s in simp_all)
    finally have "rate_sum r = ?s" .
    with s show ?thesis by simp
  qed
qed

lemma GetCpuInfo_None:
  "counters_of proc_stat = None \<Longrightarrow> GetCpuInfo proc_stat CpuInfo_zero = Some CpuInfo_zero"
  by (auto simp: counters_of_def GetCpuInfo_def split: option.splits)

text \<open>A reading that fails gives zeros, and the difference to the last counters is negative.\<close>

lemma GetCpuRate_zero:
  assumes "cpu_total a < 2 ^ 57"
  shows "GetCpuRate a CpuInfo_zero CpuRate_zero = (a, CpuRate_zero)"
proof -
  define d where "d = cpu_use CpuInfo_zero - cpu_use a + cpu_nice CpuInfo_zero - cpu_nice a + cpu_sys CpuInfo_zero - cpu_sys a
            + cpu_idle CpuInfo_zero - cpu_idle a + cpu_iowait CpuInfo_zero - cpu_iowait a
            + cpu_hardirq CpuInfo_zero - cpu_hardirq a + cpu_softirq CpuInfo_zero - cpu_softirq a"
  have "0 \<le> cpu_total a" by (simp add: cpu_total_def)
  have "d = word_of_int (- cpu_total a)" by (simp add: d_def cpu_total_def CpuInfo_zero_def)
  then have "sint d = signed_take_bit 63 (- cpu_total a)" by (simp only: sint_sbintrunc') simp
  also have "\<dots> = - cpu_total a" using assms \<open>0 \<le> cpu_total a\<close> by (intro signed_take_bit_int_eq_self) simp_all
  finally have "\<not> 0 < sint d" using \<open>0 \<le> cpu_total a\<close> by simp
  then show ?thesis by (simp add: GetCpuRate_def Let_def flip: d_def)
qed

lemma counters_le_same: "same_counters c' c \<Longrightarrow> counters_le a c' = counters_le a c" "same_counters c' c \<Longrightarrow> counters_le c' a = counters_le c a"
  "same_counters c' c \<Longrightarrow> cpu_total c' = cpu_total c"
  by (simp_all add: same_counters_def counters_le_def cpu_total_def)

text \<open>The counters that the calls find, where they can be read.\<close>

abbreviation readings :: "(u64 \<times> string list option) list \<Rightarrow> CpuInfo list" where
  "readings calls \<equiv> List.map_filter (\<lambda>call. counters_of (snd call)) calls"

definition cpu_ok :: "CpuState \<Rightarrow> CpuInfo list \<Rightarrow> bool" where
  "cpu_ok s cs \<longleftrightarrow> 0 \<le> cs_cpu s \<and> cs_cpu s \<le> 100 \<and> cpu_total (cs_cpu_info_old s) < 2 ^ 57 \<and> (\<forall>c \<in> set cs. counters_le (cs_cpu_info_old s) c)"

lemma GetCpu_step:
  assumes ok: "cpu_ok s (readings ((now, p) # calls))" and sorted: "sorted_wrt counters_le (readings ((now, p) # calls))"
    and t: "\<forall>c \<in> set (readings ((now, p) # calls)). cpu_total c < 2 ^ 57"
  shows "\<exists>cpu s'. GetCpu now p s = Some (cpu, s') \<and> 0 \<le> cpu \<and> cpu \<le> 100 \<and> cpu_ok s' (readings calls)"
proof (cases "now = cs_last_update_time s")
  case True
  with ok show ?thesis by (auto simp: GetCpu_def cpu_ok_def List.map_filter_simps split: option.splits)
next
  case False
  obtain info where info: "GetCpuInfo p CpuInfo_zero = Some info"
    "0 \<le> rate_sum (snd (GetCpuRate (cs_cpu_info_old s) info CpuRate_zero))" "rate_sum (snd (GetCpuRate (cs_cpu_info_old s) info CpuRate_zero)) \<le> 100"
    "cpu_total (fst (GetCpuRate (cs_cpu_info_old s) info CpuRate_zero)) < 2 ^ 57"
    "\<forall>c \<in> set (readings calls). counters_le (fst (GetCpuRate (cs_cpu_info_old s) info CpuRate_zero)) c"
  proof (cases "counters_of p")
    case None
    from GetCpuRate_zero[of "cs_cpu_info_old s"] ok None show ?thesis
      by (intro that[OF GetCpuInfo_None[OF None]]) (auto simp: cpu_ok_def rate_sum_def CpuRate_zero_def List.map_filter_simps)
  next
    case (Some c)
    then have c: "cpu_total c < 2 ^ 57" "counters_le (cs_cpu_info_old s) c" "\<forall>c' \<in> set (readings calls). counters_le c c'"
      "\<forall>c' \<in> set (readings calls). counters_le (cs_cpu_info_old s) c'"
      using ok sorted t by (auto simp: cpu_ok_def List.map_filter_simps)
    obtain c' where c': "GetCpuInfo p CpuInfo_zero = Some c'" "same_counters c' c" using GetCpuInfo_counters[OF Some c(1)] by blast
    obtain a' r where run: "GetCpuRate (cs_cpu_info_old s) c' CpuRate_zero = (a', r)" by fastforce
    have "counters_le (cs_cpu_info_old s) c'" "cpu_total c' < 2 ^ 57" using c c'(2) counters_le_same by auto
    from GetCpuRate_percent[OF this run] c c' ok counters_le_same[OF c'(2)] show ?thesis
      by (intro that[OF c'(1)]) (auto simp: run cpu_ok_def)
  qed
  then show ?thesis using False
    by (auto simp: GetCpu_def cpu_ok_def rate_sum_def Let_def split: prod.splits)
qed

text \<open>C36: The CPU load is a percentage: while the counters of the machine do not run backwards, every call of \<open>GetCpu\<close>
  returns a value from 0 to 100, also when the file cannot be read, when no time has passed and at the first call. (The counters
  are below \<open>2^57\<close> ticks together, so that a hundred times a difference fits 64 bits.)\<close>

theorem GetCpu_percent:
  assumes "sorted_wrt counters_le (readings calls)" and "\<forall>c \<in> set (readings calls). cpu_total c < 2 ^ 57"
  shows "\<exists>cpus. GetCpu_calls calls CpuState_init = Some cpus \<and> length cpus = length calls \<and> (\<forall>cpu \<in> set cpus. 0 \<le> cpu \<and> cpu \<le> 100)"
proof -
  have "\<exists>cpus. GetCpu_calls calls s = Some cpus \<and> length cpus = length calls \<and> (\<forall>cpu \<in> set cpus. 0 \<le> cpu \<and> cpu \<le> 100)"
    if "cpu_ok s (readings calls)" for s
    using assms that
  proof (induction calls arbitrary: s)
    case (Cons call calls)
    obtain now p where call: "call = (now, p)" by (cases call)
    obtain cpu s' where s': "GetCpu now p s = Some (cpu, s')" "0 \<le> cpu" "cpu \<le> 100" "cpu_ok s' (readings calls)"
      using GetCpu_step[of s now p calls] Cons.prems call by auto
    have "sorted_wrt counters_le (readings calls)" "\<forall>c \<in> set (readings calls). cpu_total c < 2 ^ 57"
      using Cons.prems by (auto simp: List.map_filter_simps split: option.splits)
    from Cons.IH[OF this s'(4)] s' call show ?case by auto
  qed simp
  moreover have "cpu_ok CpuState_init (readings calls)"
    by (simp add: cpu_ok_def CpuState_init_def CpuInfo_zero_def cpu_total_def counters_le_def)
  ultimately show ?thesis by blast
qed

lemma GetCpu_percent_witness:
  "\<exists>cpus. GetCpu_calls [(1, Some [''cpu  10 0 20 70 0 0 0'']), (2, None), (3, Some [''cpu  60 0 30 110 0 0 0''])] CpuState_init = Some cpus
     \<and> length cpus = 3 \<and> (\<forall>cpu \<in> set cpus. 0 \<le> cpu \<and> cpu \<le> 100)"
proof -
  let ?calls = "[(1, Some [''cpu  10 0 20 70 0 0 0'']), (2, None), (3, Some [''cpu  60 0 30 110 0 0 0''])]"
  have "case readings ?calls of [a, b] \<Rightarrow> counters_le a b \<and> cpu_total a < 2 ^ 57 \<and> cpu_total b < 2 ^ 57 | _ \<Rightarrow> False" by code_simp
  then have "sorted_wrt counters_le (readings ?calls)" "\<forall>c \<in> set (readings ?calls). cpu_total c < 2 ^ 57"
    by (auto split: list.splits)
  from GetCpu_percent[OF this] show ?thesis by (simp del: GetCpu_calls.simps add: numeral_3_eq_3)
qed

end
