(* ===== verification/FileUtil.thy ===== *)
theory FileUtil
  imports LockSample "HOL-Library.AList"
begin

section \<open>Directory trees (comm/utils/file_util.cpp)\<close>

text \<open>
  \<open>LockSM\<close> lists, clears and copies directories when checkpoints are exchanged. The system calls, and the world they act
  on, are the record \<open>FileSys\<close>: a call returns 0 or \<open>errno\<close>. \<open>opendir\<close> and the calls of \<open>readdir\<close> are one call that
  gives the entries; entries of other types are skipped, so they stand for one type. The depth of the recursion is bounded by an argument.
\<close>

datatype DirType = DT_DIR | DT_REG | DT_OTHER

text \<open>What becomes of the two streams of \<open>CopyFile\<close>: a stream cannot be opened, the bytes are copied, or the write fails.\<close>

datatype StreamResult = Stream_unopened | Stream_copied | Stream_bad | Stream_exception

record 'w FileSys =
  fs_readdir :: "string \<Rightarrow> 'w \<Rightarrow> int + (string \<times> DirType) list"
  fs_closedir :: "string \<Rightarrow> 'w \<Rightarrow> int"
  fs_unlink :: "string \<Rightarrow> 'w \<Rightarrow> int \<times> 'w"
  fs_rmdir :: "string \<Rightarrow> 'w \<Rightarrow> int \<times> 'w"
  fs_stat :: "string \<Rightarrow> 'w \<Rightarrow> int + u32"
  fs_mkdir :: "string \<Rightarrow> u32 \<Rightarrow> 'w \<Rightarrow> int \<times> 'w"
  fs_copy :: "string \<Rightarrow> string \<Rightarrow> 'w \<Rightarrow> StreamResult \<times> 'w"
  fs_access :: "string \<Rightarrow> 'w \<Rightarrow> bool"

definition slash :: "string \<Rightarrow> string \<Rightarrow> string" where
  "slash p n = p @ ''/'' @ n"

subsection \<open>Single files and directories\<close>

definition RemoveFile :: "'w FileSys \<Rightarrow> string \<Rightarrow> 'w \<Rightarrow> int \<times> 'w" where
  "RemoveFile fs file_path w = fs_unlink fs file_path w"

definition CopyFile :: "'w FileSys \<Rightarrow> string \<Rightarrow> string \<Rightarrow> 'w \<Rightarrow> int \<times> 'w" where
  "CopyFile fs src_file_path dst_file_path w =
     (let (r, w) = fs_copy fs src_file_path dst_file_path w
      in (if r = Stream_bad \<or> r = Stream_exception then -1 else 0, w))"

definition RemoveDir :: "'w FileSys \<Rightarrow> string \<Rightarrow> 'w \<Rightarrow> int \<times> 'w" where
  "RemoveDir fs dir_path w = fs_rmdir fs dir_path w"

definition CopyDir :: "'w FileSys \<Rightarrow> string \<Rightarrow> string \<Rightarrow> 'w \<Rightarrow> int \<times> 'w" where
  "CopyDir fs src_dir_path dst_dir_path w =
     (case fs_stat fs src_dir_path w of Inl errno \<Rightarrow> (errno, w) | Inr st_mode \<Rightarrow> fs_mkdir fs dst_dir_path st_mode w)"

definition AccessDir :: "'w FileSys \<Rightarrow> string \<Rightarrow> 'w \<Rightarrow> bool" where
  "AccessDir fs dir_path w = fs_access fs dir_path w"

text \<open>The mode is \<open>S_IRWXU | S_IRWXG | S_IROTH | S_IXOTH\<close>, octal 775.\<close>

definition CreateDir :: "'w FileSys \<Rightarrow> string \<Rightarrow> 'w \<Rightarrow> bool \<times> 'w" where
  "CreateDir fs dir_path w =
     (if \<not> AccessDir fs dir_path w
      then let (r, w) = fs_mkdir fs dir_path 509 w in (r = 0, w)
      else (True, w))"

text \<open>\<open>find_last_of("/")\<close>, and \<open>substr(0, pos - 1)\<close>: at position 0 the length wraps and is the whole string.\<close>

definition ExtractFilePath :: "string \<Rightarrow> string \<times> string" where
  "ExtractFilePath file_path =
     (if CHR ''/'' \<notin> set file_path then ([], file_path)
      else let file_name = rev (takeWhile (\<lambda>c. c \<noteq> CHR ''/'') (rev file_path));
               pos = length file_path - length file_name - 1
           in (if pos = 0 then file_path else take (pos - 1) file_path, file_name))"

subsection \<open>The traversal\<close>

type_synonym 'w Callback = "(string \<Rightarrow> string \<Rightarrow> string \<Rightarrow> 'w \<Rightarrow> int \<times> 'w) option"

record 'w Callbacks =
  file_before_callback :: "'w Callback"
  file_after_callback :: "'w Callback"
  sub_dir_before_callback :: "'w Callback"
  sub_dir_after_callback :: "'w Callback"

record 'w Travel =
  tr_file_paths :: "string list"
  tr_sub_dir_paths :: "string list"
  tr_world :: 'w

text \<open>The return value of a callback is not used.\<close>

definition run_callback :: "'w Callback \<Rightarrow> string \<Rightarrow> string \<Rightarrow> string \<Rightarrow> 'w Travel \<Rightarrow> 'w Travel" where
  "run_callback cb root rel dst t =
     (case cb of None \<Rightarrow> t | Some f \<Rightarrow> t\<lparr>tr_world := snd (f root rel dst (tr_world t))\<rparr>)"

definition relative_sub_path :: "string \<Rightarrow> string \<Rightarrow> string" where
  "relative_sub_path rel name = (if rel = [] then name else slash rel name)"

definition absolute_path :: "string \<Rightarrow> string \<Rightarrow> string" where
  "absolute_path root rel = (if rel = [] then root else slash root rel)"

fun travel_entries ::
  "'w Callbacks \<Rightarrow> (string \<Rightarrow> 'w Travel \<Rightarrow> (int \<times> 'w Travel) option) \<Rightarrow> string \<Rightarrow> string \<Rightarrow> string \<Rightarrow> bool
   \<Rightarrow> (string \<times> DirType) list \<Rightarrow> 'w Travel \<Rightarrow> (int \<times> 'w Travel) option" where
  "travel_entries cb travel root rel dst recursive [] t = Some (0, t)"
| "travel_entries cb travel root rel dst recursive ((name, DT_OTHER) # es) t = travel_entries cb travel root rel dst recursive es t"
| "travel_entries cb travel root rel dst recursive ((name, DT_REG) # es) t =
     (let path = relative_sub_path rel name;
          t = run_callback (file_before_callback cb) root path dst t;
          t = t\<lparr>tr_file_paths := tr_file_paths t @ [path]\<rparr>;
          t = run_callback (file_after_callback cb) root path dst t
      in travel_entries cb travel root rel dst recursive es t)"
| "travel_entries cb travel root rel dst recursive ((name, DT_DIR) # es) t =
     (if name = ''.'' \<or> name = ''..'' then travel_entries cb travel root rel dst recursive es t
      else do {
        let path = relative_sub_path rel name;
        let t = run_callback (sub_dir_before_callback cb) root path dst t;
        let t = t\<lparr>tr_sub_dir_paths := tr_sub_dir_paths t @ [path]\<rparr>;
        (ret, t) \<leftarrow> if recursive then travel path t else Some (0, t);
        let t = run_callback (sub_dir_after_callback cb) root path dst t;
        if ret \<noteq> 0 then Some (ret, t) else travel_entries cb travel root rel dst recursive es t })"

primrec DoTravelDir ::
  "nat \<Rightarrow> 'w FileSys \<Rightarrow> 'w Callbacks \<Rightarrow> string \<Rightarrow> string \<Rightarrow> bool \<Rightarrow> string \<Rightarrow> 'w Travel \<Rightarrow> (int \<times> 'w Travel) option" where
  "DoTravelDir 0 fs cb root dst recursive rel t = None"
| "DoTravelDir (Suc fuel) fs cb root dst recursive rel t =
     (case fs_readdir fs (absolute_path root rel) (tr_world t) of
        Inl errno \<Rightarrow> Some (errno, t)
      | Inr es \<Rightarrow> do {
          (ret, t) \<leftarrow> travel_entries cb (DoTravelDir fuel fs cb root dst recursive) root rel dst recursive es t;
          Some (if ret \<noteq> 0 then ret else fs_closedir fs (absolute_path root rel) (tr_world t), t) })"

definition Travel_new :: "'w \<Rightarrow> 'w Travel" where
  "Travel_new w = \<lparr>tr_file_paths = [], tr_sub_dir_paths = [], tr_world = w\<rparr>"

definition no_callbacks :: "'w Callbacks" where
  "no_callbacks = \<lparr>file_before_callback = None, file_after_callback = None, sub_dir_before_callback = None, sub_dir_after_callback = None\<rparr>"

definition RecursiveListDir :: "nat \<Rightarrow> 'w FileSys \<Rightarrow> string \<Rightarrow> bool \<Rightarrow> 'w \<Rightarrow> (int \<times> string list \<times> string list) option" where
  "RecursiveListDir fuel fs dir_path recursive w = do {
     (ret, t) \<leftarrow> DoTravelDir fuel fs no_callbacks dir_path [] recursive [] (Travel_new w);
     Some (ret, tr_file_paths t, tr_sub_dir_paths t) }"

definition remove_callbacks :: "'w FileSys \<Rightarrow> 'w Callbacks" where
  "remove_callbacks fs = no_callbacks
     \<lparr>file_before_callback := Some (\<lambda>root rel _. RemoveFile fs (slash root rel)),
      sub_dir_after_callback := Some (\<lambda>root rel _. RemoveDir fs (slash root rel))\<rparr>"

definition RecursiveRemoveDir :: "nat \<Rightarrow> 'w FileSys \<Rightarrow> string \<Rightarrow> bool \<Rightarrow> bool \<Rightarrow> 'w \<Rightarrow> (int \<times> 'w) option" where
  "RecursiveRemoveDir fuel fs dir_path recursive remove_root w = do {
     (ret, t) \<leftarrow> DoTravelDir fuel fs (remove_callbacks fs) dir_path [] recursive [] (Travel_new w);
     Some (if ret \<noteq> 0 then (ret, tr_world t)
           else if remove_root then RemoveDir fs dir_path (tr_world t) else (0, tr_world t)) }"

definition copy_callbacks :: "'w FileSys \<Rightarrow> 'w Callbacks" where
  "copy_callbacks fs = no_callbacks
     \<lparr>file_after_callback := Some (\<lambda>root rel dst. CopyFile fs (slash root rel) (slash dst rel)),
      sub_dir_before_callback := Some (\<lambda>root rel dst. CopyDir fs (slash root rel) (slash dst rel))\<rparr>"

definition RecursiveCopyDir :: "nat \<Rightarrow> 'w FileSys \<Rightarrow> string \<Rightarrow> string \<Rightarrow> bool \<Rightarrow> bool \<Rightarrow> 'w \<Rightarrow> (int \<times> 'w) option" where
  "RecursiveCopyDir fuel fs src_dir_path dst_dir_path recursive copy_root w =
     (let (ret, w) = (if copy_root then CopyDir fs src_dir_path dst_dir_path w else (0, w)) in
      if ret \<noteq> 0 then Some (ret, w)
      else do {
        (ret, t) \<leftarrow> DoTravelDir fuel fs (copy_callbacks fs) src_dir_path dst_dir_path recursive [] (Travel_new w);
        Some (ret, tr_world t) })"

lemma callback_simps:
  "file_before_callback (remove_callbacks fs) = Some (\<lambda>root rel _. RemoveFile fs (slash root rel))"
  "file_after_callback (remove_callbacks fs) = None" "sub_dir_before_callback (remove_callbacks fs) = None"
  "sub_dir_after_callback (remove_callbacks fs) = Some (\<lambda>root rel _. RemoveDir fs (slash root rel))"
  "file_after_callback (copy_callbacks fs) = Some (\<lambda>root rel dst. CopyFile fs (slash root rel) (slash dst rel))"
  "sub_dir_before_callback (copy_callbacks fs) = Some (\<lambda>root rel dst. CopyDir fs (slash root rel) (slash dst rel))"
  "file_before_callback (copy_callbacks fs) = None" "sub_dir_after_callback (copy_callbacks fs) = None"
  by (simp_all add: remove_callbacks_def copy_callbacks_def no_callbacks_def)

lemma ExtractFilePath_cuts: "ExtractFilePath ''ab/c'' = (''a'', ''c'')"
  by code_simp

subsection \<open>Trees\<close>

datatype FileEntry = Regular string | Directory

datatype FileTree = File string | Folder "(string \<times> FileTree) list"

definition valid_name :: "string \<Rightarrow> bool" where
  "valid_name n \<longleftrightarrow> n \<noteq> [] \<and> CHR ''/'' \<notin> set n \<and> n \<noteq> ''.'' \<and> n \<noteq> ''..''"

definition below :: "string \<Rightarrow> string \<Rightarrow> bool" where
  "below p q \<longleftrightarrow> (\<exists>r. q = slash p r)"

fun wf_tree :: "FileTree \<Rightarrow> bool" where
  "wf_tree (File c) = True"
| "wf_tree (Folder ts) = (distinct (map fst ts) \<and> (\<forall>(n, t) \<in> set ts. valid_name n \<and> wf_tree t))"

text \<open>The files below and at \<open>p\<close> are those of the tree. \<open>look\<close> is what a path names.\<close>

fun holds :: "(string \<Rightarrow> FileEntry option) \<Rightarrow> string \<Rightarrow> FileTree \<Rightarrow> bool" where
  "holds look p (File c) = (look p = Some (Regular c) \<and> (\<forall>q. below p q \<longrightarrow> look q = None))"
| "holds look p (Folder ts) = (look p = Some Directory \<and> (\<forall>(n, t) \<in> set ts. holds look (slash p n) t)
     \<and> (\<forall>q. below p q \<and> look q \<noteq> None \<longrightarrow> (\<exists>(n, t) \<in> set ts. q = slash p n \<or> below (slash p n) q)))"

definition absent :: "(string \<Rightarrow> FileEntry option) \<Rightarrow> string \<Rightarrow> bool" where
  "absent look p \<longleftrightarrow> look p = None \<and> (\<forall>q. below p q \<longrightarrow> look q = None)"

fun entry_type :: "FileEntry \<Rightarrow> DirType" where
  "entry_type (Regular c) = DT_REG"
| "entry_type Directory = DT_DIR"

text \<open>The system calls where nothing fails (POSIX): what they do, seen through \<open>look\<close>.\<close>

definition lists_entries :: "('w \<Rightarrow> string \<Rightarrow> FileEntry option) \<Rightarrow> string \<Rightarrow> 'w \<Rightarrow> (string \<times> DirType) list \<Rightarrow> bool" where
  "lists_entries look p w es \<longleftrightarrow> distinct (map fst es) \<and> (\<forall>x \<in> set es. fst x = ''.'' \<or> fst x = ''..'' \<longrightarrow> snd x = DT_DIR)
     \<and> (\<forall>n ty. n \<noteq> ''.'' \<and> n \<noteq> ''..'' \<longrightarrow> ((n, ty) \<in> set es \<longleftrightarrow> valid_name n \<and> map_option entry_type (look w (slash p n)) = Some ty))"

definition posix_readdir :: "'w FileSys \<Rightarrow> ('w \<Rightarrow> string \<Rightarrow> FileEntry option) \<Rightarrow> bool" where
  "posix_readdir fs look \<longleftrightarrow> (\<forall>p w. look w p = Some Directory \<longrightarrow> (\<exists>es. fs_readdir fs p w = Inr es \<and> lists_entries look p w es))
     \<and> (\<forall>p w. fs_closedir fs p w = 0)"

definition posix_remove :: "'w FileSys \<Rightarrow> ('w \<Rightarrow> string \<Rightarrow> FileEntry option) \<Rightarrow> bool" where
  "posix_remove fs look \<longleftrightarrow>
     (\<forall>p w c. look w p = Some (Regular c) \<longrightarrow> (\<exists>w'. fs_unlink fs p w = (0, w') \<and> look w' = (look w)(p := None)))
   \<and> (\<forall>p w. look w p = Some Directory \<and> (\<forall>q. below p q \<longrightarrow> look w q = None) \<longrightarrow> (\<exists>w'. fs_rmdir fs p w = (0, w') \<and> look w' = (look w)(p := None)))"

definition posix_create :: "'w FileSys \<Rightarrow> ('w \<Rightarrow> string \<Rightarrow> FileEntry option) \<Rightarrow> bool" where
  "posix_create fs look \<longleftrightarrow>
     (\<forall>p w. look w p = Some Directory \<longrightarrow> (\<exists>mode. fs_stat fs p w = Inr mode))
   \<and> (\<forall>p n mode w. look w p = Some Directory \<and> valid_name n \<and> look w (slash p n) = None
        \<longrightarrow> (\<exists>w'. fs_mkdir fs (slash p n) mode w = (0, w') \<and> look w' = (look w)(slash p n := Some Directory)))
   \<and> (\<forall>s c p n w. look w s = Some (Regular c) \<and> look w p = Some Directory \<and> valid_name n \<and> look w (slash p n) = None
        \<longrightarrow> (\<exists>w'. fs_copy fs s (slash p n) w = (Stream_copied, w') \<and> look w' = (look w)(slash p n := Some (Regular c))))"

definition posix :: "'w FileSys \<Rightarrow> ('w \<Rightarrow> string \<Rightarrow> FileEntry option) \<Rightarrow> bool" where
  "posix fs look \<longleftrightarrow> posix_readdir fs look \<and> posix_remove fs look \<and> posix_create fs look"

lemma posix_dirD:
  assumes "posix_readdir fs look"
  shows "look w p = Some Directory \<Longrightarrow> \<exists>es. fs_readdir fs p w = Inr es \<and> lists_entries look p w es" and "fs_closedir fs p w = 0"
  using assms by (simp_all add: posix_readdir_def)

lemma posix_removeD:
  assumes "posix_remove fs look"
  shows "look w p = Some (Regular c) \<Longrightarrow> \<exists>w'. RemoveFile fs p w = (0, w') \<and> look w' = (look w)(p := None)"
    and "look w p = Some Directory \<Longrightarrow> \<forall>q. below p q \<longrightarrow> look w q = None \<Longrightarrow> \<exists>w'. RemoveDir fs p w = (0, w') \<and> look w' = (look w)(p := None)"
  using assms by (simp_all add: posix_remove_def RemoveFile_def RemoveDir_def)

lemma posix_createD:
  assumes "posix_create fs look"
  shows "look w s = Some Directory \<Longrightarrow> look w p = Some Directory \<Longrightarrow> valid_name n \<Longrightarrow> look w (slash p n) = None
      \<Longrightarrow> \<exists>w'. CopyDir fs s (slash p n) w = (0, w') \<and> look w' = (look w)(slash p n := Some Directory)"
    and "look w s = Some (Regular c) \<Longrightarrow> look w p = Some Directory \<Longrightarrow> valid_name n \<Longrightarrow> look w (slash p n) = None
      \<Longrightarrow> \<exists>w'. CopyFile fs s (slash p n) w = (0, w') \<and> look w' = (look w)(slash p n := Some (Regular c))"
proof -
  assume h: "look w p = Some Directory" "valid_name n" "look w (slash p n) = None"
  show "\<exists>w'. CopyDir fs s (slash p n) w = (0, w') \<and> look w' = (look w)(slash p n := Some Directory)" if "look w s = Some Directory"
  proof -
    have "\<exists>mode. fs_stat fs s w = Inr mode" using assms that by (simp add: posix_create_def)
    then obtain mode where "fs_stat fs s w = Inr mode" ..
    moreover have "\<exists>w'. fs_mkdir fs (slash p n) mode w = (0, w') \<and> look w' = (look w)(slash p n := Some Directory)"
      using assms h by (simp add: posix_create_def)
    ultimately show ?thesis by (simp add: CopyDir_def)
  qed
  show "\<exists>w'. CopyFile fs s (slash p n) w = (0, w') \<and> look w' = (look w)(slash p n := Some (Regular c))" if "look w s = Some (Regular c)"
  proof -
    have "\<exists>w'. fs_copy fs s (slash p n) w = (Stream_copied, w') \<and> look w' = (look w)(slash p n := Some (Regular c))"
      using assms h that by (simp add: posix_create_def)
    then show ?thesis by (auto simp: CopyFile_def)
  qed
qed

subsection \<open>Paths\<close>

lemma slash_inject [simp]: "slash p m = slash p n \<longleftrightarrow> m = n"
  by (simp add: slash_def)

lemma slash_assoc: "slash (slash p m) n = slash p (slash m n)"
  by (simp add: slash_def)

lemma below_trans: "below p q \<Longrightarrow> below q r \<Longrightarrow> below p r"
  by (auto simp: below_def slash_assoc)

lemma below_slash [simp]: "below p (slash p n)"
  by (auto simp: below_def)

lemma below_irrefl [simp]: "\<not> below p p"
  by (simp add: below_def slash_def)

lemma below_slash_below: "below (slash p n) q \<Longrightarrow> below p q"
  using below_trans[OF below_slash] .

lemma slash_first:
  assumes "CHR ''/'' \<notin> set m" "CHR ''/'' \<notin> set n"
    and "m = n @ x" "x = [] \<or> hd x = CHR ''/''" 
  shows "m = n"
  using assms by (cases x) auto

lemma below_disjoint:
  assumes "valid_name m" "valid_name n" "q = slash p m \<or> below (slash p m) q" "q = slash p n \<or> below (slash p n) q"
  shows "m = n"
proof -
  let ?f = "takeWhile (\<lambda>c. c \<noteq> CHR ''/'')"
  have f: "?f (drop (Suc (length p)) q) = k" if "valid_name k" "q = slash p k \<or> below (slash p k) q" for k
    using that by (auto simp: slash_def below_def valid_name_def takeWhile_tail takeWhile_append2 takeWhile_eq_all_conv)
  show ?thesis using f[OF assms(1,3)] f[OF assms(2,4)] by simp
qed

lemma absolute_sub: "valid_name n \<Longrightarrow> absolute_path root (relative_sub_path rel n) = slash (absolute_path root rel) n"
  by (auto simp: absolute_path_def relative_sub_path_def slash_def valid_name_def)

lemma slash_sub: "slash root (relative_sub_path rel n) = slash (absolute_path root rel) n"
  by (auto simp: absolute_path_def relative_sub_path_def slash_def)

lemma holds_cong:
  assumes "\<And>q. q = p \<or> below p q \<Longrightarrow> look' q = look q"
  shows "holds look' p t \<longleftrightarrow> holds look p t"
  using assms
proof (induction t arbitrary: p)
  case (Folder ts)
  have "holds look' (slash p n) t \<longleftrightarrow> holds look (slash p n) t" if "(n, t) \<in> set ts" for n t
    using Folder.prems below_slash_below by (intro Folder.IH[OF that]) auto
  with Folder.prems show ?case by auto
qed simp

lemma absent_cong: "(\<And>q. q = p \<or> below p q \<Longrightarrow> look' q = look q) \<Longrightarrow> absent look' p \<longleftrightarrow> absent look p"
  by (auto simp: absent_def)

fun tree_type :: "FileTree \<Rightarrow> DirType" where
  "tree_type (File c) = DT_REG"
| "tree_type (Folder ts) = DT_DIR"

lemma holds_folderD:
  assumes h: "holds look p (Folder ts)"
  shows "look p = Some Directory" "(n, t) \<in> set ts \<Longrightarrow> holds look (slash p n) t"
    and "below p q \<Longrightarrow> look q \<noteq> None \<Longrightarrow> \<exists>n t. (n, t) \<in> set ts \<and> (q = slash p n \<or> below (slash p n) q)"
proof -
  show "look p = Some Directory" "(n, t) \<in> set ts \<Longrightarrow> holds look (slash p n) t" using h by auto
  assume "below p q" "look q \<noteq> None"
  with h have "\<exists>x \<in> set ts. case x of (n, t) \<Rightarrow> q = slash p n \<or> below (slash p n) q" by (simp only: holds.simps) blast
  then show "\<exists>n t. (n, t) \<in> set ts \<and> (q = slash p n \<or> below (slash p n) q)" by (auto simp only: split: prod.splits) 
qed

lemma holds_type: "holds look p t \<Longrightarrow> map_option entry_type (look p) = Some (tree_type t)"
  by (cases t) auto

lemma size_child: "(n, t) \<in> set ts \<Longrightarrow> size t < size (Folder ts)"
  by (induction ts) auto

lemma folder_child:
  assumes "holds look p (Folder ts)" "wf_tree (Folder ts)" "valid_name n" "look (slash p n) \<noteq> None"
  shows "\<exists>t. (n, t) \<in> set ts"
proof -
  obtain m t where m: "(m, t) \<in> set ts" "slash p n = slash p m \<or> below (slash p m) (slash p n)"
    using holds_folderD(3)[OF assms(1) below_slash assms(4)] by blast
  then have "valid_name m" using assms(2) by auto
  with m assms(3) show ?thesis using below_disjoint[of n m "slash p n" p] by auto
qed

lemma entries_of_folder:
  assumes "lists_entries look p w es" "holds (look w) p (Folder ts)" "wf_tree (Folder ts)" "n \<noteq> ''.''" "n \<noteq> ''..''"
  shows "(n, ty) \<in> set es \<longleftrightarrow> (\<exists>t. (n, t) \<in> set ts \<and> ty = tree_type t)"
proof -
  have "(n, ty) \<in> set es \<longleftrightarrow> valid_name n \<and> map_option entry_type (look w (slash p n)) = Some ty"
    using assms(1,4,5) by (simp add: lists_entries_def)
  also have "\<dots> \<longleftrightarrow> (\<exists>t. (n, t) \<in> set ts \<and> ty = tree_type t)"
  proof
    assume h: "valid_name n \<and> map_option entry_type (look w (slash p n)) = Some ty"
    then have "look w (slash p n) \<noteq> None" by auto
    then obtain t where t: "(n, t) \<in> set ts" using folder_child[OF assms(2,3)] h by blast
    with assms(2) have "holds (look w) (slash p n) t" by auto
    with h holds_type t show "\<exists>t. (n, t) \<in> set ts \<and> ty = tree_type t" by fastforce
  next
    assume "\<exists>t. (n, t) \<in> set ts \<and> ty = tree_type t"
    then obtain t where "(n, t) \<in> set ts" "ty = tree_type t" by blast
    moreover from this have "holds (look w) (slash p n) t" "valid_name n" using assms(2,3) by auto
    ultimately show "valid_name n \<and> map_option entry_type (look w (slash p n)) = Some ty" using holds_type by metis
  qed
  finally show ?thesis .
qed

lemma holds_set: "set ts = set ts' \<Longrightarrow> holds look p (Folder ts) \<longleftrightarrow> holds look p (Folder ts')"
  by simp

lemma holds_remove:
  assumes h: "holds look p (Folder ts)" and wf: "wf_tree (Folder ts)" and n: "(n, t) \<in> set ts"
    and abs: "absent look' (slash p n)" and eq: "\<forall>q. q \<noteq> slash p n \<and> \<not> below (slash p n) q \<longrightarrow> look' q = look q"
  shows "holds look' p (Folder (filter (\<lambda>(m, _). m \<noteq> n) ts))"
proof -
  have same: "look' q = look q" if "q \<noteq> slash p n" "\<not> below (slash p n) q" for q using eq that by blast
  have "p \<noteq> slash p n" by (simp add: slash_def)
  then have "look' p = look p" using below_trans[of p "slash p n" p] by (intro same) auto
  moreover have "holds look' (slash p m) u" if "(m, u) \<in> set ts" "m \<noteq> n" for m u
  proof -
    have "valid_name m" "valid_name n" using wf that n by auto
    then have "look' q = look q" if "q = slash p m \<or> below (slash p m) q" for q
      using below_disjoint[of m n q p] that \<open>m \<noteq> n\<close> by (intro same) auto
    then show ?thesis using holds_cong[of "slash p m" look' look u] h that by auto
  qed
  moreover have "\<exists>(m, u) \<in> set (filter (\<lambda>(m, _). m \<noteq> n) ts). q = slash p m \<or> below (slash p m) q" if q: "below p q" "look' q \<noteq> None" for q
  proof -
    have nq: "q \<noteq> slash p n" "\<not> below (slash p n) q" using abs q(2) by (auto simp: absent_def)
    then have "look q \<noteq> None" using same q(2) by simp
    then obtain m u where "(m, u) \<in> set ts" "q = slash p m \<or> below (slash p m) q"
      using holds_folderD(3)[OF h q(1)] by blast
    with nq show ?thesis by auto
  qed
  ultimately show ?thesis using h by auto
qed

lemma holds_add:
  assumes h: "holds look d (Folder ts)" and wf: "wf_tree (Folder ts)" and n: "n \<notin> fst ` set ts" "valid_name n"
    and t: "holds look' (slash d n) t" and eq: "\<forall>q. q \<noteq> slash d n \<and> \<not> below (slash d n) q \<longrightarrow> look' q = look q"
  shows "holds look' d (Folder ((n, t) # ts))"
proof -
  have same: "look' q = look q" if "q \<noteq> slash d n" "\<not> below (slash d n) q" for q using eq that by blast
  have "d \<noteq> slash d n" by (simp add: slash_def)
  then have "look' d = look d" using below_trans[of d "slash d n" d] by (intro same) auto
  moreover have "holds look' (slash d m) u" if "(m, u) \<in> set ts" for m u
  proof -
    have "m \<noteq> n" using that n(1) by force
    moreover have "valid_name m" using wf that by auto
    ultimately have "look' q = look q" if "q = slash d m \<or> below (slash d m) q" for q
      using below_disjoint[of m n q d] that n(2) by (intro same) auto
    then show ?thesis using holds_cong[of "slash d m" look' look u] h that by auto
  qed
  moreover have "\<exists>(m, u) \<in> set ((n, t) # ts). q = slash d m \<or> below (slash d m) q" if q: "below d q" "look' q \<noteq> None" for q
  proof (cases "q = slash d n \<or> below (slash d n) q")
    case False
    then have "look q \<noteq> None" using same q(2) by simp
    then show ?thesis using holds_folderD(3)[OF h q(1)] by auto
  qed auto
  ultimately show ?thesis using h t by auto
qed

subsection \<open>The loop over the entries\<close>

lemma travel_entries_Cons:
  "travel_entries cb f root rel dst rec (e # es) tr =
     (case travel_entries cb f root rel dst rec [e] tr of None \<Rightarrow> None
      | Some (ret, tr') \<Rightarrow> if ret \<noteq> 0 then Some (ret, tr') else travel_entries cb f root rel dst rec es tr')"
proof -
  obtain n ty where e: "e = (n, ty)" by (cases e)
  show ?thesis unfolding e
    by (cases ty) (auto simp: Let_def split: option.splits prod.splits bind_splits)
qed

abbreviation dot :: "string \<Rightarrow> bool" where
  "dot n \<equiv> n = ''.'' \<or> n = ''..''"

lemma travel_entries_all:
  assumes step: "\<And>n t N tr. (n, t) \<in> set ts \<Longrightarrow> n \<notin> N \<Longrightarrow> I N tr \<Longrightarrow>
        \<exists>tr'. travel_entries cb f root rel dst rec [(n, tree_type t)] tr = Some (0, tr') \<and> I (insert n N) tr'"
    and es: "\<forall>(n, ty) \<in> set es. if dot n then ty = DT_DIR else (\<exists>t. (n, t) \<in> set ts \<and> ty = tree_type t)"
    and "distinct (map fst es)" "N \<inter> fst ` set es = {}" "I N tr"
  shows "\<exists>tr'. travel_entries cb f root rel dst rec es tr = Some (0, tr') \<and> I (N \<union> {n \<in> fst ` set es. \<not> dot n}) tr'"
  using es assms(3-5)
proof (induction es arbitrary: N tr)
  case (Cons e es)
  obtain n ty where e: "e = (n, ty)" by (cases e)
  show ?case
  proof (cases "dot n")
    case True
    then have "ty = DT_DIR" using Cons.prems e by auto
    moreover have "{m \<in> fst ` set (e # es). \<not> dot m} = {m \<in> fst ` set es. \<not> dot m}" using True e by auto
    ultimately show ?thesis using Cons.IH[of N tr] Cons.prems True e by auto
  next
    case False
    then obtain t where t: "(n, t) \<in> set ts" "ty = tree_type t" using Cons.prems e by auto
    obtain tr1 where tr1: "travel_entries cb f root rel dst rec [e] tr = Some (0, tr1)" "I (insert n N) tr1"
      using step[OF t(1) _ Cons.prems(4)] Cons.prems(3) t(2) e by auto
    have "insert n N \<union> {m \<in> fst ` set es. \<not> dot m} = N \<union> {m \<in> fst ` set (e # es). \<not> dot m}" using False e by auto
    moreover have "\<exists>tr'. travel_entries cb f root rel dst rec es tr1 = Some (0, tr') \<and> I (insert n N \<union> {m \<in> fst ` set es. \<not> dot m}) tr'"
      using Cons.prems e tr1(2) by (intro Cons.IH) auto
    ultimately show ?thesis by (simp add: travel_entries_Cons[of _ _ _ _ _ _ e es] tr1(1))
  qed
qed simp

text \<open>A traversal of a directory whose content is a tree, by the rule for its entries.\<close>

lemma DoTravelDir_folder:
  assumes rd: "posix_readdir fs look" and h: "holds (look (tr_world tr)) (absolute_path root rel) (Folder ts)" and wf: "wf_tree (Folder ts)"
    and step: "\<And>n t N tr. (n, t) \<in> set ts \<Longrightarrow> n \<notin> N \<Longrightarrow> I N tr \<Longrightarrow>
        \<exists>tr'. travel_entries cb (DoTravelDir fuel fs cb root dst rec) root rel dst rec [(n, tree_type t)] tr = Some (0, tr') \<and> I (insert n N) tr'"
    and start: "I {} tr"
  shows "\<exists>tr'. DoTravelDir (Suc fuel) fs cb root dst rec rel tr = Some (0, tr') \<and> I (fst ` set ts) tr'"
proof -
  obtain es where es: "fs_readdir fs (absolute_path root rel) (tr_world tr) = Inr es" "lists_entries look (absolute_path root rel) (tr_world tr) es"
    using posix_dirD(1)[OF rd holds_folderD(1)[OF h]] by blast
  note iff = entries_of_folder[OF es(2) h wf]
  have "if dot n then ty = DT_DIR else (\<exists>t. (n, t) \<in> set ts \<and> ty = tree_type t)" if "(n, ty) \<in> set es" for n ty
  proof (cases "dot n")
    case True
    have "\<forall>x \<in> set es. dot (fst x) \<longrightarrow> snd x = DT_DIR" using es(2) by (simp add: lists_entries_def)
    from bspec[OF this that] True show ?thesis by simp
  qed (use iff[of n ty] that in simp)
  then have "\<forall>(n, ty) \<in> set es. if dot n then ty = DT_DIR else (\<exists>t. (n, t) \<in> set ts \<and> ty = tree_type t)" by blast
  moreover have "distinct (map fst es)" using es(2) by (simp add: lists_entries_def)
  ultimately obtain tr' where tr': "travel_entries cb (DoTravelDir fuel fs cb root dst rec) root rel dst rec es tr = Some (0, tr')"
    "I ({} \<union> {n \<in> fst ` set es. \<not> dot n}) tr'"
    using travel_entries_all[of ts I cb "DoTravelDir fuel fs cb root dst rec" root rel dst rec es "{}" tr] step start by auto
  have "{n \<in> fst ` set es. \<not> dot n} = fst ` set ts"
  proof (intro set_eqI iffI)
    fix n assume "n \<in> {n \<in> fst ` set es. \<not> dot n}"
    then show "n \<in> fst ` set ts" using iff by force
  next
    fix n assume "n \<in> fst ` set ts"
    then obtain t where t: "(n, t) \<in> set ts" by auto
    then have "\<not> dot n" using wf by (auto simp: valid_name_def)
    with t iff[of n "tree_type t"] show "n \<in> {n \<in> fst ` set es. \<not> dot n}" by force
  qed
  with tr' es(1) posix_dirD(2)[OF rd] show ?thesis by simp
qed

subsection \<open>Removing, copying and listing a tree\<close>

definition undone :: "string set \<Rightarrow> (string \<times> FileTree) list \<Rightarrow> (string \<times> FileTree) list" where
  "undone N ts = filter (\<lambda>(n, _). n \<notin> N) ts"

lemma undone_simps [simp]:
  "undone {} ts = ts" "(n, t) \<in> set (undone N ts) \<longleftrightarrow> (n, t) \<in> set ts \<and> n \<notin> N"
  "filter (\<lambda>(m, _). m \<noteq> n) (undone N ts) = undone (insert n N) ts" "undone (fst ` set ts) ts = []"
  by (auto simp: undone_def filter_empty_conv image_iff split_beta intro!: filter_cong)

lemma wf_undone: "wf_tree (Folder ts) \<Longrightarrow> wf_tree (Folder (undone N ts))"
  by (auto simp: undone_def distinct_map_filter)

definition unchanged_outside :: "string \<Rightarrow> (string \<Rightarrow> FileEntry option) \<Rightarrow> (string \<Rightarrow> FileEntry option) \<Rightarrow> bool" where
  "unchanged_outside p look look' \<longleftrightarrow> (\<forall>q. \<not> below p q \<longrightarrow> look' q = look q)"

lemma unchanged_outside_trans:
  "unchanged_outside p a b \<Longrightarrow> unchanged_outside p b c \<Longrightarrow> unchanged_outside p a c"
  by (simp add: unchanged_outside_def)

lemma unchanged_outside_sub:
  "unchanged_outside (slash p n) a b \<Longrightarrow> unchanged_outside p a b" "look' = look(slash p n := x) \<Longrightarrow> unchanged_outside p look look'"
  by (auto simp: unchanged_outside_def dest: below_slash_below)

lemma unchanged_outside_except:
  assumes "\<forall>q. q \<noteq> slash p n \<and> \<not> below (slash p n) q \<longrightarrow> b q = a q"
  shows "unchanged_outside p a b"
  unfolding unchanged_outside_def
proof (intro allI impI)
  fix q assume "\<not> below p q"
  then have "q \<noteq> slash p n" "\<not> below (slash p n) q" using below_slash below_slash_below by blast+
  with assms show "b q = a q" by blast
qed

lemma remove_tree:
  fixes look :: "'w \<Rightarrow> string \<Rightarrow> FileEntry option" and tr :: "'w Travel"
  assumes rd: "posix_readdir fs look" and rm: "posix_remove fs look"
  shows "wf_tree (Folder ts) \<Longrightarrow> holds (look (tr_world tr)) (absolute_path root rel) (Folder ts) \<Longrightarrow> size (Folder ts) \<le> fuel \<Longrightarrow>
     \<exists>tr'. DoTravelDir fuel fs (remove_callbacks fs) root dst True rel tr = Some (0, tr')
       \<and> holds (look (tr_world tr')) (absolute_path root rel) (Folder [])
       \<and> unchanged_outside (absolute_path root rel) (look (tr_world tr)) (look (tr_world tr'))"
proof (induction fuel arbitrary: rel ts tr)
  case (Suc fuel)
  let ?p = "absolute_path root rel"
  define I where "I N t \<longleftrightarrow> holds (look (tr_world t)) ?p (Folder (undone N ts)) \<and> unchanged_outside ?p (look (tr_world tr)) (look (tr_world t))" for N and t :: "'w Travel"
  have step: "\<exists>t'. travel_entries (remove_callbacks fs) (DoTravelDir fuel fs (remove_callbacks fs) root dst True) root rel dst True [(n, tree_type u)] t
       = Some (0, t') \<and> I (insert n N) t'"
    if n: "(n, u) \<in> set ts" "n \<notin> N" and I: "I N t" for n u N and t :: "'w Travel"
  proof -
    have vn: "valid_name n" "wf_tree u" using Suc.prems(1) n by auto
    let ?q = "slash ?p n"
    have hu: "holds (look (tr_world t)) ?q u" using I n by (auto simp: I_def)
    note path = slash_sub[of root rel n] absolute_sub[OF vn(1), of root rel]
    have concl: "I (insert n N) t'" if "absent (look (tr_world t')) ?q" "\<forall>q. q \<noteq> ?q \<and> \<not> below ?q q \<longrightarrow> look (tr_world t') q = look (tr_world t) q" for t' :: "'w Travel"
    proof -
      have "holds (look (tr_world t)) ?p (Folder (undone N ts))" "(n, u) \<in> set (undone N ts)" using I n by (simp_all add: I_def del: holds.simps)
      from holds_remove[OF this(1) wf_undone[OF Suc.prems(1)] this(2) that]
      have "holds (look (tr_world t')) ?p (Folder (undone (insert n N) ts))" unfolding undone_simps(3) .
      moreover have "unchanged_outside ?p (look (tr_world t)) (look (tr_world t'))"
        using that(2) by (rule unchanged_outside_except)
      ultimately show ?thesis using I unchanged_outside_trans unfolding I_def by blast
    qed
    show ?thesis
    proof (cases u)
      case (File c)
      with hu have "look (tr_world t) ?q = Some (Regular c)" "\<forall>q. below ?q q \<longrightarrow> look (tr_world t) q = None" by auto
      moreover obtain w' where w': "RemoveFile fs ?q (tr_world t) = (0, w')" "look w' = (look (tr_world t))(?q := None)"
        using posix_removeD(1)[OF rm calculation(1)] by blast
      ultimately have "absent (look w') ?q" by (simp add: absent_def)
      with w'(2) have "I (insert n N) (t\<lparr>tr_world := w', tr_file_paths := tr_file_paths t @ [relative_sub_path rel n]\<rparr>)" by (intro concl) auto
      with w' File path show ?thesis
        by (auto simp: run_callback_def callback_simps Let_def)
    next
      case (Folder us)
      let ?t = "t\<lparr>tr_sub_dir_paths := tr_sub_dir_paths t @ [relative_sub_path rel n]\<rparr>"
      have "size (Folder us) \<le> fuel" using size_child[OF n(1)] Suc.prems(3) Folder by simp
      then obtain t1 where t1: "DoTravelDir fuel fs (remove_callbacks fs) root dst True (relative_sub_path rel n) ?t = Some (0, t1)"
        "holds (look (tr_world t1)) ?q (Folder [])" "unchanged_outside ?q (look (tr_world t)) (look (tr_world t1))"
        using Suc.IH[of us ?t "relative_sub_path rel n"] vn hu Folder path(2) by auto
      then obtain w' where w': "RemoveDir fs ?q (tr_world t1) = (0, w')" "look w' = (look (tr_world t1))(?q := None)"
        using posix_removeD(2)[OF rm, of "tr_world t1" ?q] by auto
      have "absent (look w') ?q" using t1(2) w'(2) by (auto simp: absent_def)
      with w'(2) t1(3) have "I (insert n N) (t1\<lparr>tr_world := w'\<rparr>)" by (intro concl) (auto simp: unchanged_outside_def)
      with t1 w' Folder vn path show ?thesis
        by (auto simp: run_callback_def callback_simps Let_def valid_name_def)
    qed
  qed
  have "I {} tr" using Suc.prems(2) by (simp add: I_def unchanged_outside_def)
  from DoTravelDir_folder[OF rd Suc.prems(2,1) step this] show ?case by (auto simp: I_def)
qed simp

definition apart :: "string \<Rightarrow> string \<Rightarrow> bool" where
  "apart p d \<longleftrightarrow> p \<noteq> d \<and> \<not> below p d \<and> \<not> below d p"

lemma below_prefix:
  assumes "q = slash p x" "q = slash d y" "length p < length d"
  shows "below p d"
proof -
  have "take (length d) q = d" using assms(2) by (simp add: slash_def)
  moreover have "take (length d) q = p @ take (length d - length p) (''/'' @ x)" using assms(1,3) by (simp add: slash_def)
  moreover have "take (length d - length p) (''/'' @ x) = ''/'' @ take (length d - length p - 1) x"
    using assms(3) by (cases "length d - length p") auto
  ultimately have "d = slash p (take (length d - length p - 1) x)" by (simp add: slash_def)
  then show ?thesis unfolding below_def by blast
qed

lemma apart_disjoint:
  assumes "apart p d" "below d q"
  shows "q \<noteq> p" "\<not> below p q"
proof -
  show "q \<noteq> p" using assms by (auto simp: apart_def)
  show "\<not> below p q"
  proof
    assume "below p q"
    then obtain x y where q: "q = slash p x" "q = slash d y" using assms(2) unfolding below_def by blast
    consider "length p < length d" | "length d < length p" | "length p = length d" by linarith
    then show False
    proof cases
      case 3
      then have "p = d" using q by (simp add: slash_def)
      with assms(1) show False by (simp add: apart_def)
    qed (use below_prefix[OF q] below_prefix[OF q(2,1)] assms(1) in \<open>auto simp: apart_def\<close>)
  qed
qed

lemma apart_sub:
  assumes "apart p d"
  shows "apart (slash p n) (slash d n)"
proof -
  have ne: "slash p n \<noteq> slash d n" using assms by (auto simp: slash_def apart_def)
  have "\<not> below (slash a n) (slash b n)" if "apart a b" for a b
    using apart_disjoint(2)[OF that below_slash, of n] below_slash_below by blast
  moreover have "apart d p" using assms by (auto simp: apart_def)
  ultimately show ?thesis using ne assms by (auto simp: apart_def)
qed

lemma copy_tree:
  fixes look :: "'w \<Rightarrow> string \<Rightarrow> FileEntry option" and tr :: "'w Travel"
  assumes rd: "posix_readdir fs look" and cr: "posix_create fs look"
  shows "wf_tree (Folder ts) \<Longrightarrow> holds (look (tr_world tr)) (absolute_path src rel) (Folder ts) \<Longrightarrow>
     holds (look (tr_world tr)) (absolute_path d rel) (Folder []) \<Longrightarrow> apart (absolute_path src rel) (absolute_path d rel) \<Longrightarrow>
     size (Folder ts) \<le> fuel \<Longrightarrow>
     \<exists>tr'. DoTravelDir fuel fs (copy_callbacks fs) src d True rel tr = Some (0, tr')
       \<and> holds (look (tr_world tr')) (absolute_path d rel) (Folder ts)
       \<and> unchanged_outside (absolute_path d rel) (look (tr_world tr)) (look (tr_world tr'))"
proof (induction fuel arbitrary: rel ts tr)
  case (Suc fuel)
  let ?p = "absolute_path src rel" and ?d = "absolute_path d rel"
  have keep: "holds lk' (slash ?p n) u" if "unchanged_outside ?d lk lk'" "holds lk (slash ?p n) u" for lk lk' n u
  proof -
    have "lk' q = lk q" if "q = slash ?p n \<or> below (slash ?p n) q" for q
    proof -
      have "below ?p q" using that below_slash_below by auto
      then have "\<not> below ?d q" using apart_disjoint(2)[OF Suc.prems(4)] by blast
      then show ?thesis using \<open>unchanged_outside ?d lk lk'\<close> by (simp add: unchanged_outside_def)
    qed
    then show ?thesis using that(2) holds_cong by blast
  qed
  define I where "I N t \<longleftrightarrow> holds (look (tr_world t)) ?d (Folder (filter (\<lambda>(n, _). n \<in> N) ts))
      \<and> unchanged_outside ?d (look (tr_world tr)) (look (tr_world t))" for N and t :: "'w Travel"
  have step: "\<exists>t'. travel_entries (copy_callbacks fs) (DoTravelDir fuel fs (copy_callbacks fs) src d True) src rel d True [(n, tree_type u)] t
       = Some (0, t') \<and> I (insert n N) t'"
    if n: "(n, u) \<in> set ts" "n \<notin> N" and I: "I N t" for n u N and t :: "'w Travel"
  proof -
    have vn: "valid_name n" "wf_tree u" using Suc.prems(1) n by auto
    let ?q = "slash ?p n" and ?e = "slash ?d n" and ?ts = "filter (\<lambda>(n, _). n \<in> N) ts"
    note path = slash_sub[of src rel n] slash_sub[of d rel n] absolute_sub[OF vn(1), of src rel] absolute_sub[OF vn(1), of d rel]
    have hu: "holds (look (tr_world t)) ?q u" using I holds_folderD(2)[OF Suc.prems(2) n(1)] keep by (auto simp: I_def)
    have hd: "holds (look (tr_world t)) ?d (Folder ?ts)" "look (tr_world t) ?d = Some Directory" using I by (auto simp: I_def)
    have wf: "wf_tree (Folder ?ts)" using Suc.prems(1) by (auto simp: distinct_map_filter)
    have new: "look (tr_world t) q = None" if "q = ?e \<or> below ?e q" for q
    proof (rule ccontr)
      assume a: "look (tr_world t) q \<noteq> None"
      have "below ?d q" using that below_slash_below by auto
      then obtain m v where m: "(m, v) \<in> set ?ts" "q = slash ?d m \<or> below (slash ?d m) q" using holds_folderD(3)[OF hd(1) _ a] by blast
      then have "m = n" using below_disjoint[of m n q ?d] that vn Suc.prems(1) by auto
      with m n(2) show False by auto
    qed
    have concl: "I (insert n N) t'"
      if "holds (look (tr_world t')) ?e u" "\<forall>q. q \<noteq> ?e \<and> \<not> below ?e q \<longrightarrow> look (tr_world t') q = look (tr_world t) q" for t' :: "'w Travel"
    proof -
      have "n \<notin> fst ` set ?ts" using n(2) by auto
      from holds_add[OF hd(1) wf this vn(1) that]
      have "holds (look (tr_world t')) ?d (Folder ((n, u) # ?ts))" .
      moreover have "set ((n, u) # ?ts) = set (filter (\<lambda>(m, _). m \<in> insert n N) ts)"
        using n Suc.prems(1) by (auto simp: eq_key_imp_eq_value)
      ultimately have "holds (look (tr_world t')) ?d (Folder (filter (\<lambda>(m, _). m \<in> insert n N) ts))"
        using holds_set[of "(n, u) # ?ts" "filter (\<lambda>(m, _). m \<in> insert n N) ts"] by (simp only:)
      moreover have "unchanged_outside ?d (look (tr_world t)) (look (tr_world t'))"
        using that(2) by (rule unchanged_outside_except)
      ultimately show ?thesis using I unchanged_outside_trans unfolding I_def by blast
    qed
    show ?thesis
    proof (cases u)
      case (File c)
      with hu have "look (tr_world t) ?q = Some (Regular c)" by auto
      then obtain w' where w': "CopyFile fs ?q ?e (tr_world t) = (0, w')" "look w' = (look (tr_world t))(?e := Some (Regular c))"
        using posix_createD(2)[OF cr _ hd(2) vn(1)] new by blast
      have "holds (look w') ?e (File c)" using new w'(2) by auto
      with w'(2) have "I (insert n N) (t\<lparr>tr_file_paths := tr_file_paths t @ [relative_sub_path rel n], tr_world := w'\<rparr>)"
        using File by (intro concl) auto
      with w' File path show ?thesis
        by (auto simp: run_callback_def callback_simps Let_def)
    next
      case (Folder us)
      then have "look (tr_world t) ?q = Some Directory" using hu by auto
      then obtain w' where w': "CopyDir fs ?q ?e (tr_world t) = (0, w')" "look w' = (look (tr_world t))(?e := Some Directory)"
        using posix_createD(1)[OF cr _ hd(2) vn(1)] new by blast
      let ?t = "t\<lparr>tr_world := w', tr_sub_dir_paths := tr_sub_dir_paths t @ [relative_sub_path rel n]\<rparr>"
      have "holds (look w') ?e (Folder [])" using new w'(2) by auto
      moreover have "holds (look w') ?q (Folder us)" using keep[of "look (tr_world t)" "look w'"] hu Folder w'(2) unchanged_outside_sub(2) by blast
      moreover have "size (Folder us) \<le> fuel" using size_child[OF n(1)] Suc.prems(5) Folder by simp
      ultimately obtain t1 where t1: "DoTravelDir fuel fs (copy_callbacks fs) src d True (relative_sub_path rel n) ?t = Some (0, t1)"
        "holds (look (tr_world t1)) ?e (Folder us)" "unchanged_outside ?e (look w') (look (tr_world t1))"
        using Suc.IH[of us ?t "relative_sub_path rel n"] vn Folder path(3,4) apart_sub[OF Suc.prems(4)] by auto
      have "I (insert n N) t1" using t1(2,3) w'(2) Folder by (intro concl) (auto simp: unchanged_outside_def)
      with t1 w' Folder vn path show ?thesis
        by (auto simp: run_callback_def callback_simps Let_def valid_name_def)
    qed
  qed
  have "I {} tr" using Suc.prems(3) by (simp add: I_def unchanged_outside_def)
  from DoTravelDir_folder[OF rd Suc.prems(2,1) step this] obtain tr' where
    "DoTravelDir (Suc fuel) fs (copy_callbacks fs) src d True rel tr = Some (0, tr')" "I (fst ` set ts) tr'" by auto
  moreover have "filter (\<lambda>(n, _). n \<in> fst ` set ts) ts = ts" by (force simp: filter_id_conv)
  ultimately show ?case by (auto simp: I_def)
qed simp

fun files_of :: "string \<Rightarrow> FileTree \<Rightarrow> string list" where
  "files_of rel (File c) = [rel]"
| "files_of rel (Folder ts) = concat (map (\<lambda>(n, t). files_of (relative_sub_path rel n) t) ts)"

lemma files_of_Folder: "set (files_of rel (Folder ts)) = (\<Union>(n, t) \<in> set ts. set (files_of (relative_sub_path rel n) t))"
  by (induction ts) auto

lemma list_tree:
  fixes look :: "'w \<Rightarrow> string \<Rightarrow> FileEntry option" and tr :: "'w Travel"
  assumes rd: "posix_readdir fs look"
  shows "wf_tree (Folder ts) \<Longrightarrow> holds (look (tr_world tr)) (absolute_path root rel) (Folder ts) \<Longrightarrow> size (Folder ts) \<le> fuel \<Longrightarrow>
     \<exists>tr'. DoTravelDir fuel fs no_callbacks root dst True rel tr = Some (0, tr') \<and> tr_world tr' = tr_world tr
       \<and> set (tr_file_paths tr') = set (tr_file_paths tr) \<union> set (files_of rel (Folder ts))"
proof (induction fuel arbitrary: rel ts tr)
  case (Suc fuel)
  define I where "I N t \<longleftrightarrow> tr_world t = tr_world tr
      \<and> set (tr_file_paths t) = set (tr_file_paths tr) \<union> set (files_of rel (Folder (filter (\<lambda>(n, _). n \<in> N) ts)))" for N and t :: "'w Travel"
  have step: "\<exists>t'. travel_entries no_callbacks (DoTravelDir fuel fs no_callbacks root dst True) root rel dst True [(n, tree_type u)] t
       = Some (0, t') \<and> I (insert n N) t'"
    if n: "(n, u) \<in> set ts" "n \<notin> N" and I: "I N t" for n u N and t :: "'w Travel"
  proof -
    have vn: "valid_name n" "wf_tree u" using Suc.prems(1) n by auto
    let ?r = "relative_sub_path rel n"
    have "set (filter (\<lambda>(m, _). m \<in> insert n N) ts) = set ((n, u) # filter (\<lambda>(m, _). m \<in> N) ts)"
      using n Suc.prems(1) by (auto simp: eq_key_imp_eq_value)
    then have set: "set (files_of rel (Folder (filter (\<lambda>(m, _). m \<in> insert n N) ts)))
        = set (files_of rel (Folder (filter (\<lambda>(m, _). m \<in> N) ts))) \<union> set (files_of ?r u)"
      unfolding files_of_Folder by (simp only: list.set UN_insert prod.case Un_commute)
    have u: "holds (look (tr_world t)) (absolute_path root ?r) u"
      using I holds_folderD(2)[OF Suc.prems(2) n(1)] absolute_sub[OF vn(1)] by (simp add: I_def)
    show ?thesis
    proof (cases u)
      case (File c)
      have "I (insert n N) (t\<lparr>tr_file_paths := tr_file_paths t @ [?r]\<rparr>)" using I set File by (simp add: I_def)
      with File show ?thesis by (simp add: run_callback_def no_callbacks_def Let_def)
    next
      case (Folder us)
      let ?t = "t\<lparr>tr_sub_dir_paths := tr_sub_dir_paths t @ [?r]\<rparr>"
      have "size (Folder us) \<le> fuel" using size_child[OF n(1)] Suc.prems(3) Folder by simp
      then obtain t1 where t1: "DoTravelDir fuel fs no_callbacks root dst True ?r ?t = Some (0, t1)" "tr_world t1 = tr_world t"
        "set (tr_file_paths t1) = set (tr_file_paths t) \<union> set (files_of ?r (Folder us))"
        using Suc.IH[of us ?t ?r] vn(2) u Folder by auto
      then have "I (insert n N) t1" using I set Folder unfolding I_def by (simp only: Un_assoc)
      moreover have "run_callback (sub_dir_before_callback no_callbacks) a b c x = x" "run_callback (sub_dir_after_callback no_callbacks) a b c x = x"
        for a b c and x :: "'w Travel" by (simp_all add: run_callback_def no_callbacks_def)
      ultimately show ?thesis using t1(1) Folder vn(1) by (simp add: valid_name_def)
    qed
  qed
  have "I {} tr" by (simp add: I_def)
  from DoTravelDir_folder[OF rd Suc.prems(2,1) step this] obtain tr' where
    "DoTravelDir (Suc fuel) fs no_callbacks root dst True rel tr = Some (0, tr')" "I (fst ` set ts) tr'" by auto
  moreover have "filter (\<lambda>(n, _). n \<in> fst ` set ts) ts = ts" by (force simp: filter_id_conv)
  ultimately show ?case unfolding I_def by auto
qed simp

lemma RecursiveRemoveDir_ok:
  assumes "posix fs look" "wf_tree (Folder ts)" "holds (look w) p (Folder ts)" "size (Folder ts) \<le> fuel"
  shows "\<exists>w'. RecursiveRemoveDir fuel fs p True False w = Some (0, w') \<and> holds (look w') p (Folder []) \<and> unchanged_outside p (look w) (look w')"
  using remove_tree[of fs look ts "Travel_new w" p "[]" fuel "[]"] assms
  by (auto simp: RecursiveRemoveDir_def posix_def Travel_new_def absolute_path_def)

lemma RecursiveCopyDir_ok:
  assumes "posix fs look" "wf_tree (Folder ts)" "holds (look w) p (Folder ts)" "holds (look w) d (Folder [])" "apart p d" "size (Folder ts) \<le> fuel"
  shows "\<exists>w'. RecursiveCopyDir fuel fs p d True False w = Some (0, w') \<and> holds (look w') d (Folder ts) \<and> unchanged_outside d (look w) (look w')"
  using copy_tree[of fs look ts "Travel_new w" p "[]" d fuel] assms
  by (auto simp: RecursiveCopyDir_def posix_def Travel_new_def absolute_path_def)

lemma RecursiveListDir_ok:
  assumes "posix fs look" "wf_tree (Folder ts)" "holds (look w) p (Folder ts)" "size (Folder ts) \<le> fuel"
  shows "\<exists>files dirs. RecursiveListDir fuel fs p True w = Some (0, files, dirs) \<and> set files = set (files_of [] (Folder ts))"
  using list_tree[of fs look ts "Travel_new w" p "[]" fuel "[]"] assms
  by (auto simp: RecursiveListDir_def posix_def Travel_new_def absolute_path_def)

subsection \<open>The load of a checkpoint\<close>

text \<open>C21: Loading a checkpoint makes the mirror of the group the received directory: whatever tree the mirror held before,
  clearing it and copying the directory succeed, the operation returns 0, the mirror holds the tree of the received directory,
  which is untouched, and asking for the state afterwards lists exactly the files of that tree. The recursion ends.\<close>

theorem Load_checkpoint_copies:
  fixes w :: 'w
  assumes fs: "posix fs look" and old: "wf_tree (Folder us)" "holds (look w) mirror (Folder us)"
    and new: "wf_tree (Folder ts)" "holds (look w) tmp (Folder ts)" "apart tmp mirror"
    and fuel: "size (Folder us) \<le> fuel" "size (Folder ts) \<le> fuel"
    and args: "tmp \<noteq> []" "file_list \<noteq> []" "at (ls_groups s) gid \<noteq> None" "mirror = dir @ to_string (nat gid)"
  shows "\<exists>w1 w2 s' files. RecursiveRemoveDir fuel fs mirror True False w = Some (0, w1)
     \<and> RecursiveCopyDir fuel fs tmp mirror True False w1 = Some (0, w2)
     \<and> LockSM_LoadCheckpointState (\<lambda>p. fst (the (RecursiveRemoveDir fuel fs p True False w)))
          (\<lambda>p d. fst (the (RecursiveCopyDir fuel fs p d True False w1))) dir s gid tmp file_list = Some (0, s')
     \<and> holds (look w2) mirror (Folder ts) \<and> holds (look w2) tmp (Folder ts)
     \<and> RecursiveListDir fuel fs mirror True w2 = Some (0, files)
     \<and> LockSM_GetCheckpointState (\<lambda>p. Inr (fst files)) dir gid = Inr (mirror, fst files)
     \<and> set (fst files) = set (files_of [] (Folder ts))"
proof -
  have kept: "holds a' tmp (Folder ts)" if "holds a tmp (Folder ts)" "unchanged_outside mirror a a'" for a a'
  proof -
    have "a' q = a q" if "q = tmp \<or> below tmp q" for q
      using that apart_disjoint[OF new(3), of q] \<open>unchanged_outside mirror a a'\<close> new(3) by (auto simp: unchanged_outside_def apart_def)
    then show ?thesis using holds_cong[of tmp a' a "Folder ts"] that(1) by blast
  qed
  obtain w1 where w1: "RecursiveRemoveDir fuel fs mirror True False w = Some (0, w1)" "holds (look w1) mirror (Folder [])"
    "unchanged_outside mirror (look w) (look w1)" using RecursiveRemoveDir_ok[OF fs old fuel(1)] by blast
  obtain w2 where w2: "RecursiveCopyDir fuel fs tmp mirror True False w1 = Some (0, w2)" "holds (look w2) mirror (Folder ts)"
    "unchanged_outside mirror (look w1) (look w2)"
    using RecursiveCopyDir_ok[OF fs new(1) kept[OF new(2) w1(3)] w1(2) new(3) fuel(2)] by blast
  obtain files where files: "RecursiveListDir fuel fs mirror True w2 = Some (0, files)" "set (fst files) = set (files_of [] (Folder ts))"
    using RecursiveListDir_ok[OF fs new(1) w2(2) fuel(2)] by auto
  obtain g where "at (ls_groups s) gid = Some g" using args(3) by blast
  then have "\<exists>s'. LockSM_LoadCheckpointState (\<lambda>p. fst (the (RecursiveRemoveDir fuel fs p True False w)))
      (\<lambda>p d. fst (the (RecursiveCopyDir fuel fs p d True False w1))) dir s gid tmp file_list = Some (0, s')"
    using args w1(1) w2(1) by (simp add: LockSM_LoadCheckpointState_def split_beta Let_def)
  moreover have "LockSM_GetCheckpointState (\<lambda>p. Inr (fst files)) dir gid = Inr (mirror, fst files)"
    using args(4) by (simp add: LockSM_GetCheckpointState_def)
  ultimately show ?thesis using w1(1) w2(1,2) files kept[OF kept[OF new(2) w1(3)] w2(3)] by blast
qed

text \<open>A file system as a list of entries.\<close>

definition mem_entries :: "string \<Rightarrow> (string \<times> FileEntry) list \<Rightarrow> (string \<times> DirType) list" where
  "mem_entries p w = (let names = filter (\<lambda>n. valid_name n \<and> slash p n \<in> set (map fst w)) (remdups (map (\<lambda>q. drop (Suc (length p)) (fst q)) w))
     in map (\<lambda>n. (n, entry_type (the (map_of w (slash p n))))) names)"

definition mem_fs :: "(string \<times> FileEntry) list FileSys" where
  "mem_fs = \<lparr>fs_readdir = \<lambda>p w. Inr (mem_entries p w), fs_closedir = \<lambda>_ _. 0,
     fs_unlink = \<lambda>p w. (0, AList.delete p w), fs_rmdir = \<lambda>p w. (0, AList.delete p w),
     fs_stat = \<lambda>_ _. Inr 509, fs_mkdir = \<lambda>p _ w. (0, (p, Directory) # w),
     fs_copy = \<lambda>a b w. (case map_of w a of None \<Rightarrow> (Stream_unopened, w) | Some e \<Rightarrow> (Stream_copied, (b, e) # w)),
     fs_access = \<lambda>p w. map_of w p \<noteq> None\<rparr>"

lemma set_mem_entries:
  "(n, ty) \<in> set (mem_entries p w) \<longleftrightarrow> valid_name n \<and> slash p n \<in> fst ` set w \<and> ty = entry_type (the (map_of w (slash p n)))"
proof -
  have "n \<in> (\<lambda>q. drop (Suc (length p)) (fst q)) ` set w" if "slash p n \<in> fst ` set w"
  proof -
    obtain e where "(slash p n, e) \<in> set w" using \<open>slash p n \<in> fst ` set w\<close> by auto
    moreover have "n = drop (Suc (length p)) (fst (slash p n, e))" by (simp add: slash_def)
    ultimately show ?thesis by (rule rev_image_eqI)
  qed
  then show ?thesis unfolding mem_entries_def Let_def by auto
qed

lemma mem_entries_lists: "lists_entries map_of p w (mem_entries p w)"
proof -
  have dist: "distinct (map fst (mem_entries p w))"
    by (simp add: mem_entries_def Let_def comp_def)
  have "slash p n \<in> fst ` set w \<and> ty = entry_type (the (map_of w (slash p n))) \<longleftrightarrow> map_option entry_type (map_of w (slash p n)) = Some ty" for n ty
    using map_of_eq_None_iff[of w "slash p n"] by (cases "map_of w (slash p n)") auto
  then have "(n, ty) \<in> set (mem_entries p w) \<longleftrightarrow> valid_name n \<and> map_option entry_type (map_of w (slash p n)) = Some ty" for n ty
    unfolding set_mem_entries by blast
  moreover have "\<not> (fst x = ''.'' \<or> fst x = ''..'')" if "x \<in> set (mem_entries p w)" for x
    using that set_mem_entries[of "fst x" "snd x" p w] by (auto simp: valid_name_def)
  ultimately show ?thesis using dist unfolding lists_entries_def by blast
qed

lemma posix_mem: "posix mem_fs map_of"
  by (auto simp: posix_def posix_readdir_def posix_remove_def posix_create_def mem_fs_def delete_conv' mem_entries_lists)

definition files_before :: "(string \<times> FileEntry) list" where
  "files_before = [(''/m0'', Directory), (''/m0/old'', Regular ''z''),
     (''/t'', Directory), (''/t/f'', Regular ''x''), (''/t/d'', Directory), (''/t/d/g'', Regular ''y'')]"

definition received :: "(string \<times> FileTree) list" where
  "received = [(''f'', File ''x''), (''d'', Folder [(''g'', File ''y'')])]"

lemma holds_before: "holds (map_of files_before) ''/m0'' (Folder [(''old'', File ''z'')])" "holds (map_of files_before) ''/t'' (Folder received)"
  by (auto simp: files_before_def received_def slash_def below_def split: if_splits)

theorem Load_checkpoint_copies_witness:
  "\<exists>w1 w2 s' files. RecursiveRemoveDir 50 mem_fs ''/m0'' True False files_before = Some (0, w1)
     \<and> RecursiveCopyDir 50 mem_fs ''/t'' ''/m0'' True False w1 = Some (0, w2)
     \<and> LockSM_LoadCheckpointState (\<lambda>p. fst (the (RecursiveRemoveDir 50 mem_fs p True False files_before)))
          (\<lambda>p d. fst (the (RecursiveCopyDir 50 mem_fs p d True False w1))) ''/m'' (sample_lock True 5) 0 ''/t'' [''f'', ''d/g''] = Some (0, s')
     \<and> holds (map_of w2) ''/m0'' (Folder received) \<and> holds (map_of w2) ''/t'' (Folder received)
     \<and> RecursiveListDir 50 mem_fs ''/m0'' True w2 = Some (0, files)
     \<and> LockSM_GetCheckpointState (\<lambda>p. Inr (fst files)) ''/m'' 0 = Inr (''/m0'', fst files)
     \<and> set (fst files) = {''f'', ''d/g''}"
proof -
  have "wf_tree (Folder [(''old'', File ''z'')])" "wf_tree (Folder received)" "apart ''/t'' ''/m0''"
    by (auto simp: received_def valid_name_def apart_def below_def slash_def)
  moreover have "size (Folder received) \<le> 50" "size (Folder [(''old'', File ''z'')]) \<le> 50" by (simp_all add: received_def)
  moreover have "set (files_of [] (Folder received)) = {''f'', ''d/g''}" by (simp add: received_def relative_sub_path_def slash_def)
  moreover have "at (ls_groups (sample_lock True 5)) 0 \<noteq> None" by (simp add: at_def sample_lock_def)
  moreover have "(''/m0'' :: string) = ''/m'' @ to_string (nat 0)" by code_simp
  ultimately show ?thesis
    using Load_checkpoint_copies[OF posix_mem _ holds_before(1) _ holds_before(2), of 50 "[''f'', ''d/g'']" "sample_lock True 5" 0 "''/m''"] by simp
qed

text \<open>A copy that fails is not reported: when the disk takes no more files and directories, copying a directory
  still returns 0, with nothing copied.\<close>

theorem Copy_failure_unreported:
  assumes rd: "posix_readdir fs look" and tree: "wf_tree (Folder ts)" "holds (look w) src (Folder ts)" "size (Folder ts) \<le> fuel"
    and full: "\<And>s d w. snd (fs_copy fs s d w) = w" "\<And>p mode w. snd (fs_mkdir fs p mode w) = w"
  shows "RecursiveCopyDir fuel fs src dst True False w = Some (0, w)"
proof -
  have same: "snd (CopyDir fs a b v) = v" "snd (CopyFile fs a b v) = v" for a b v
    using full by (simp_all add: CopyDir_def CopyFile_def split: sum.splits prod.splits) (metis snd_conv)
  have "\<exists>tr'. DoTravelDir fuel fs (copy_callbacks fs) src dst True rel tr = Some (0, tr') \<and> tr_world tr' = tr_world tr"
    if "wf_tree (Folder ts)" "holds (look (tr_world tr)) (absolute_path src rel) (Folder ts)" "size (Folder ts) \<le> fuel" for fuel rel ts and tr :: "'a Travel"
    using that
  proof (induction fuel arbitrary: rel ts tr)
    case (Suc fuel)
    have step: "\<exists>t'. travel_entries (copy_callbacks fs) (DoTravelDir fuel fs (copy_callbacks fs) src dst True) src rel dst True [(n, tree_type u)] t
       = Some (0, t') \<and> tr_world t' = tr_world tr"
      if n: "(n, u) \<in> set ts" and I: "tr_world t = tr_world tr" for n u t
    proof (cases u)
      case (File c)
      then show ?thesis using I by (simp add: run_callback_def callback_simps Let_def same)
    next
      case (Folder us)
      have vn: "valid_name n" "wf_tree u" using Suc.prems(1) n by auto
      let ?t = "t\<lparr>tr_world := tr_world tr, tr_sub_dir_paths := tr_sub_dir_paths t @ [relative_sub_path rel n]\<rparr>"
      have "size (Folder us) \<le> fuel" using size_child[OF n] Suc.prems(3) Folder by simp
      moreover have "holds (look (tr_world t)) (absolute_path src (relative_sub_path rel n)) u"
        using I holds_folderD(2)[OF Suc.prems(2) n] absolute_sub[OF vn(1)] by simp
      ultimately have "\<exists>t1. DoTravelDir fuel fs (copy_callbacks fs) src dst True (relative_sub_path rel n) ?t = Some (0, t1) \<and> tr_world t1 = tr_world ?t"
        using vn(2) Folder Suc.IH[of us ?t "relative_sub_path rel n"] I by (simp del: holds.simps wf_tree.simps)
      then show ?thesis using I Folder vn by (auto simp: run_callback_def callback_simps Let_def valid_name_def same)
    qed
    show ?case
      by (rule DoTravelDir_folder[where I = "\<lambda>_ t. tr_world t = tr_world tr", OF rd Suc.prems(2,1) step]) simp_all
  qed simp
  from this[of ts "Travel_new w" "[]" fuel] tree show ?thesis
    by (auto simp: RecursiveCopyDir_def Travel_new_def absolute_path_def)
qed

definition full_fs :: "(string \<times> FileEntry) list FileSys" where
  "full_fs = mem_fs\<lparr>fs_copy := \<lambda>_ _ w. (Stream_bad, w), fs_mkdir := \<lambda>_ _ w. (28, w)\<rparr>"

theorem Copy_failure_unreported_witness:
  "RecursiveCopyDir 50 full_fs ''/t'' ''/m0'' True False files_before = Some (0, files_before)
     \<and> CopyFile full_fs ''/t/f'' ''/m0/f'' files_before = (-1, files_before)"
proof -
  have "posix_readdir full_fs map_of" using posix_mem by (simp add: posix_def posix_readdir_def full_fs_def)
  moreover have "wf_tree (Folder received)" by (auto simp: received_def valid_name_def)
  moreover have "size (Folder received) \<le> 50" by (simp add: received_def)
  ultimately have "RecursiveCopyDir 50 full_fs ''/t'' ''/m0'' True False files_before = Some (0, files_before)"
    using holds_before(2) by (intro Copy_failure_unreported) (simp_all add: full_fs_def)
  then show ?thesis by (simp add: CopyFile_def full_fs_def)
qed

end
