(* ===== verification/Spec2Isabelle.thy ===== *)
theory Spec2Isabelle
  imports Prelude StoreMeta Comm Config ServiceConfig Phxpaxos
    StoreState CheckPointStat SyncCtrl BaseMgr StoreSM Store KeepSync StoreSample StoreWitness
    LockDb LockMgr LockSM LockService LockSystem LockSample
    MasterClient Floats SchedulerMgr Scheduler MasterLease
    Hash Selector Producer BatchHelper
    QueueScale HeartBeatLock QueueTable HandleTasks FreqMan Consumer Delivery MasterRate ConfigFile LoadUtil FileUtil
begin

text \<open>
  \<^bold>\<open>PhxQueue.\<close> A distributed queue: producers add items to queues kept by \<^emph>\<open>stores\<close>, consumers
  pull them for their consumer group. A store is a group of replicas; each queue belongs to a
  paxos group (\<open>queue_id mod ngroup\<close>), and the items live in the log of the paxos group: a cursor
  is the number of a paxos instance. The master of the group proposes the added items (phxpaxos'
  \<open>BatchPropose\<close>); every replica executes the chosen value (\<open>StoreSM::Execute\<close>), which notes the
  instance in the in-memory index of the queue (\<open>StoreMetaQueue\<close>). A consumer's \<open>Get\<close> walks the
  index, or the log itself below the checkpoint, from its \<^emph>\<open>next\<close> cursor, and acknowledges by its
  \<^emph>\<open>prev\<close> cursor; \<open>SyncCtrl\<close> keeps both in a mapped file per replica. A housekeeping thread trims
  the index, moves the checkpoint and publishes the cursors to the other replicas.

  A \<^emph>\<open>lock\<close> is a second replicated service: it keeps versioned, leased records (locks and strings),
  by which consumers divide the queues. A key belongs to the paxos group of its hash. A chosen
  value is executed on a map in memory (\<open>LockSM::Execute\<close>) and, by phxpaxos' checkpoint replayer,
  on a mirror in leveldb (\<open>LockSM::ExecuteForCheckpoint\<close>), from which a restarted replica recovers
  the map. A clean thread releases expired records and notes restart checkpoints.

  The \<^emph>\<open>schedulers\<close> of a topic give each consumer a weight, from the loads the consumers report. One
  of them is master, by a lease on a lock. All clients find the master of what they call by trial
  and redirection (\<open>MasterClient\<close>).

  A \<^emph>\<open>producer\<close> turns a message into an item, groups items into requests by queue info, lets
  selectors choose a queue and a store, and adds the request, alone or batched with the requests of
  other threads. A \<^emph>\<open>consumer\<close> machine has a parent and workers. The parent divides the queues of a
  topic by a consistent hash of the weights (\<open>GetQueueByAddrScale\<close>) and writes the machine's share
  into a table in shared memory, one entry per worker. A worker takes the lock of its queue, gets
  items, hands them to coroutines, adds the failed ones again and acknowledges with its next request.
  A third process counts what the workers handle and limits their frequency.

  \<^bold>\<open>Theories.\<close>
  \<^item> \<open>Prelude\<close>: machine words, array access with \<^const>\<open>None\<close> for an access out of bounds, sorted
    lists for \<open>std::set\<close> and \<open>std::map\<close>, \<open>foldM\<close> for loops whose body may stop.
  \<^item> \<open>Comm\<close>: comm/errdef.h, the messages of comm.proto, comm/utils (addresses, splitting, \<open>stoi\<close>).
  \<^item> \<open>Config\<close>: config/topicconfig.cpp; \<open>ServiceConfig\<close>: storeconfig.cpp, lockconfig.cpp,
    consumerconfig.cpp, schedulerconfig.cpp, globalconfig.cpp, utils/pub_util.cpp: the lookup tables
    built from the configuration messages, and every lookup.
  \<^item> \<open>Phxpaxos\<close>: the return codes and options the two services pass to phxpaxos.
  \<^item> \<open>StoreMeta\<close>: store/storemeta.cpp. The locale \<open>cursor_index\<close> is what the read loop needs from an
    index; the meta queue interprets it.
  \<^item> \<open>StoreState\<close>, \<open>CheckPointStat\<close>, \<open>SyncCtrl\<close>: the state of a store and its two mapped files
    (store/checkpointstat.cpp, syncctrl.cpp). The locale \<open>cursor_store\<close> is the replicated cursor
    table; \<open>SyncCtrl\<close> interprets it.
  \<^item> \<open>BaseMgr\<close> (store/basemgr.cpp), \<open>StoreSM\<close> (storesm.cpp), \<open>Store\<close> (store.cpp), \<open>KeepSync\<close>
    (keepsyncthread.cpp): the operations, one definition per method or loop.
  \<^item> \<open>StoreSample\<close>, \<open>StoreWitness\<close>: a small concrete store and runs of the operations on it.
  \<^item> \<open>LockDb\<close> (lock/lockdb.cpp): the record storage on a map or on leveldb. The locale \<open>cas_store\<close> is
    the contract of a versioned store (a compare and swap on a table of records); both storages
    interpret it.
  \<^item> \<open>LockMgr\<close> (lockmgr.cpp), \<open>LockSM\<close> (locksm.cpp), \<open>LockService\<close> (lock.cpp, cleanthread.cpp): the
    groups with their checkpoints and recovery, the replicated state machine, the requests and the
    clean thread.
  \<^item> \<open>LockSystem\<close>: the threads of a lock group as a step relation over the log, with the deletions that
    \<open>AcquireLock\<close> makes on the map itself. A run starts at what \<open>LockMgr::Init\<close> recovers (\<open>init_group_fresh\<close>)
    and ends with the process; a restart starts another run. \<open>AcquireLock_steps\<close> shows that a whole request
    is a run. \<open>LockSample\<close>: a concrete leveldb, record format and lock, on which the theorems are applied.
  \<^item> \<open>MasterClient\<close> (comm/masterclient.h and the three clients): the address cache and the search.
  \<^item> \<open>Floats\<close>: \<open>int\<close> and IEEE floating point as the scheduler uses them, with the lemmas on rounding.
    \<open>SchedulerMgr\<close> (scheduler/schedulermgr.cpp): the consumers of the topics, their loads and weights.
    \<open>Scheduler\<close> (scheduler.cpp, loadbalancethread.cpp, keepmasterthread.cpp).
  \<^item> \<open>MasterLease\<close>: schedulers that compete for the lock, as a step relation in which requests can be
    delayed, lost and repeated; \<open>KeepMaster_steps\<close> shows that a round of the code is a run of it. A
    scheduler asks for the lock under its IP without the port, as the code does.

  \<^item> \<open>Hash\<close> (comm/utils/hash_util): MurmurHash64 and the consistent hash. The theorems on rings are
    about any hash; the addresses are placed by the code's.
  \<^item> \<open>Selector\<close> (producer/selector.cpp), \<open>Producer\<close> (producer.cpp): the choice of queue and store, the way
    of a message into requests and to a store. \<open>BatchHelper\<close> (batchhelper.cpp): callers and daemon
    threads that share batches, as a step relation; each section under a mutex is one step.
  \<^item> \<open>QueueScale\<close>, \<open>HeartBeatLock\<close> (consumer/hblock.cpp and \<open>GetQueueByAddrScale\<close>): which queues a machine
    has, the table of its workers and their locks. \<open>QueueTable\<close>: the theorems on the table.
  \<^item> \<open>HandleTasks\<close> (consumer.cpp, the consume thread): the buckets and the coroutines, which run in the
    order of a schedule that is an argument; \<^const>\<open>None\<close> when the schedule ends first. \<open>FreqMan\<close>
    (freqman.cpp): the frequency limits. \<open>Consumer\<close> (consumer.cpp, the worker): \<open>Process\<close>, \<open>AfterConsume\<close>
    and the checks; its loops are \<open>partial_function\<close>s, since they end only when others act.
  \<^item> \<open>Delivery\<close>: the workers of a consumer group and the store of a queue together, as a step relation;
    responses get lost, workers crash, another replica with older cursors becomes master.
  \<^item> \<open>MasterRate\<close> (store/keepmasterthread.cpp, lock/keepmasterthread.cpp): the share of the groups that a
    member of a store or a lock claims.
  \<^item> \<open>ConfigFile\<close> (config/baseconfig.h and, under src/phxqueue_phxrpc, comm/fileloader.cpp, fileconfig.cpp,
    config/ and plugin/configfactory.cpp): the reading of the configuration files. The locale
    \<open>config_class\<close> is what a configuration class has to provide; the five classes interpret it.
  \<^item> \<open>LoadUtil\<close>, \<open>FileUtil\<close> (comm/utils/load_util.cpp, file_util.cpp): the CPU load a consumer reports, and
    the operations on directories by which the lock exchanges checkpoints.

  \<^bold>\<open>Correspondence.\<close> A C++ class is a record of its fields, a method a function from the state (and
  its arguments) to the new state and the results; \<^const>\<open>None\<close> is undefined behaviour, an abort or,
  for a \<open>partial_function\<close>, a loop that does not end. Return codes keep their numbers, because the
  callers test their sign. Each access to a mapped item or meta queue holds its lock in the code
  and is one step here. \<open>uint64_t\<close> cursors are 64-bit words, since the code uses \<open>-1\<close> as "none" and
  subtracts one; queue and group ids are integers.

  \<^bold>\<open>What is shown.\<close> The index is a FIFO under any interleaving of pushes, reads and trims, and its CRC check
  tells when entries were lost, up to collisions; executing
  the log builds it; \<open>Get\<close> is total, memory safe, bounded, and serves every wanted item between its
  cursors exactly once and in order, in one call and over a session; an acknowledged \<open>Add\<close> is
  indexed; only the master serves; trimming and checkpoints never lose an item that some consumer
  group has not acknowledged; published cursors reach the replicas; a replay rewinds to the right
  instance, give or take one (the search can be off by one, see \<open>replay_search_skips\<close>); the
  configuration tables answer consistently. A file that changed is read again within two minutes, and
  the tables are at any time those of a message that was read.

  For store and consumer together (\<open>Delivery\<close>): in every interleaving, also with crashes, an instance that a
  consumer group acknowledged is settled, that is each of its items was handled, skipped, added
  again or given up, which the code does with a failed item that has no queue for another attempt or whose
  request cannot be made (\<open>given_up\<close> in \<open>Consumer\<close>); so an item whose producer got an answer is settled once its instance is acknowledged.
  \<open>Process_round_delivers\<close> shows that a round of the worker's code is a run of this system. The members of
  a store share out its groups: one member claims a group that is kept (at most 200 are, \<open>KeepMaster_keeps_all\<close>).

  For the lock: map and mirror implement one table of versioned records, so replicas agree on the
  outcome of every request; a granted lock passes on only by a release or to a client that names the version of the
  grant or of a later update (the lease is not checked, the clients wait for it); a held record stays until an update
  names its version; the clean thread touches only expired records; in every interleaving of the
  threads the mirror is what the log makes of the recovered table, and so is the map at every key that
  \<open>AcquireLock\<close> has not deleted from it; a restart checkpoint is written only
  when the mirror has executed every update up to it; recovery rebuilds the map. Two theorems state weaknesses of the code:
  \<open>Release_not_replicated\<close> and \<open>Replay_grants_refused_lock\<close>. A checkpoint that is loaded makes the mirror a
  copy of the received directory, when the system calls do not fail; \<open>Copy_failure_unreported\<close> shows that
  their failures are not noticed.

  For the scheduler: the weights are those of an integer specification, a silent consumer loses its
  weight, the reported CPU load is a percentage, and schedulers on different machines, none of them forced, are never
  master together, up to the time a query of the lock takes
  (\<open>Masters_can_overlap\<close> shows that this time is needed, \<open>Masters_share_ip\<close> that those on one IP can be). A client call finds the master.

  For the producer: a successful \<open>Enqueue\<close> means that a store took the item (or that the configuration
  drops it); the requests hold every item in order within the limits; in every interleaving a batched
  call is sent exactly once, gets the return code of its request, and no wake-up is lost; the choice
  of a store ends. For the consumer: the weights divide the queues among the machines, the table never
  gives one queue to two workers, also after a failed sync; the coroutines handle every item exactly
  once, those of one user in order, for every schedule; a worker acknowledges items only when they are
  handled, added again or given up; the limits stay in range. \<open>DoLock_steals_live_lock\<close>,
  \<open>TaskDispatch_stuck\<close>, \<open>GetStoreID_wrong_pub\<close>, \<open>MakeAddRequests_oversize\<close> and
  \<open>DistubePendingQueues_starves\<close> state weaknesses of the code.

  \<^bold>\<open>Parameters.\<close> phxpaxos (\<open>GetInstanceValue\<close>, \<open>BatchPropose\<close>, mastership, the instance counters),
  protobuf serialisation and sizes, zlib's crc32, the C library's address functions, the clock,
  random numbers and the success of system calls are fields of \<open>StoreEnv\<close> and \<open>LockEnv\<close> or
  arguments; leveldb is the record \<open>LevelDB\<close> with the laws \<open>leveldb_laws\<close>, \<open>std::hash\<close> a function. The read
  loop has the bound 512 of the code. The choice of a store takes a bound on its rounds:
  \<open>GetStoreID_serves\<close> shows that two more than there are stores are enough. The traversal of a directory has
  a bound on its depth: the size of the tree is enough. The system calls on files are the record \<open>FileSys\<close>, with
  the laws \<open>posix\<close> (a list of entries satisfies them, \<open>posix_mem\<close>). The handlers, hooks and remote
  calls of the consumer are the fields of \<open>HandleCalls\<close> and \<open>WorkerCalls\<close>.

  \<^bold>\<open>Not modelled.\<close> Logging and monitoring hooks, file and network input and output, the creation of
  threads, processes and coroutines and their timers (one round of a thread is a function), the remote
  procedure calls and their generated messages, the parser of ini files and the pool of notifiers (which
  are thin layers over the system), the deprecated variants in file_util.cpp that nothing calls, the paxos
  protocol itself.
\<close>

end
